(* ===== verification/Prelude.thy ===== *)
theory Prelude
  imports Main "HOL-Library.Word"
begin

unbundle bit_operations_syntax

text \<open>
  Shared material of the development: names for the machine types of \<^verbatim>\<open>src/vm/Common.h\<close>, the outcome of
  a C function whose calls may abort the VM or leave the bounds of an array, guarded array access, and
  the generic lemmas on words and lists that the component theories use.

  Conventions. \<open>u1\<close>, \<open>u2\<close>, \<open>u4\<close>, \<open>u8\<close> are the unsigned types of the sources; a signed type \<open>s4\<close> or
  \<open>int\<close> is the same word read with \<^const>\<open>sint\<close>, and a widening assignment is \<^const>\<open>scast\<close> or
  \<^const>\<open>ucast\<close> according to the C type of the right-hand side. The build defines no \<open>NDEBUG\<close>, so a failed
  \<open>assert\<close> stops the VM like \<open>dvmAbort\<close> does. A read or write outside an array is
  undefined in C; the models make it an explicit outcome, so that a theorem about a result also says
  that no such access happens.
\<close>

section \<open>Machine types\<close>

type_synonym u1 = "8 word"
type_synonym u2 = "16 word"
type_synonym u4 = "32 word"
type_synonym u8 = "64 word"

named_theorems payload_simps \<open>identifying code units of switch and array-data tables\<close>
named_theorems low32_simps \<open>the low half of a 64-bit register commutes with the operations\<close>
named_theorems handler_simps \<open>definitions of the interpreter's instruction handlers\<close>
named_theorems arm_simps \<open>the opcode lists of the switch arms of libdex/InstrUtils.c\<close>

section \<open>Outcomes of C functions\<close>

datatype 'a outcome = Ret 'a | AbortVM | OutOfBounds

definition bind_out :: "'a outcome \<Rightarrow> ('a \<Rightarrow> 'b outcome) \<Rightarrow> 'b outcome" where
  "bind_out m f = (case m of Ret x \<Rightarrow> f x | AbortVM \<Rightarrow> AbortVM | OutOfBounds \<Rightarrow> OutOfBounds)"

lemma bind_out_simps [simp]:
  "bind_out (Ret x) f = f x"
  "bind_out AbortVM f = AbortVM"
  "bind_out OutOfBounds f = OutOfBounds"
  by (simp_all add: bind_out_def)

lemma bind_out_eq_Ret [simp]:
  "bind_out m f = Ret y \<longleftrightarrow> (\<exists>x. m = Ret x \<and> f x = Ret y)"
  by (cases m) auto

text \<open>A computation that may also not end: \<open>None\<close>.\<close>

type_synonym 'a run = "'a outcome option"

definition bind_run :: "'a run \<Rightarrow> ('a \<Rightarrow> 'b run) \<Rightarrow> 'b run" where
  "bind_run m f = (case m of None \<Rightarrow> None | Some AbortVM \<Rightarrow> Some AbortVM | Some OutOfBounds \<Rightarrow> Some OutOfBounds
     | Some (Ret x) \<Rightarrow> f x)"

abbreviation ret :: "'a \<Rightarrow> 'a run" where
  "ret x \<equiv> Some (Ret x)"

lemma bind_run_simps [simp]:
  "bind_run None f = None"
  "bind_run (ret x) f = f x"
  "bind_run (Some AbortVM) f = Some AbortVM"
  "bind_run (Some OutOfBounds) f = Some OutOfBounds"
  by (simp_all add: bind_run_def)

lemma bind_run_eq_ret [simp]: "bind_run m f = ret y \<longleftrightarrow> (\<exists>x. m = ret x \<and> f x = ret y)"
  by (auto simp: bind_run_def split: option.splits outcome.splits)

lemma bind_run_assoc: "bind_run (bind_run m f) g = bind_run m (\<lambda>x. bind_run (f x) g)"
  by (auto simp: bind_run_def split: option.splits outcome.splits)

text \<open>Reading an element of a C array held as a list, with the bounds made explicit.\<close>

definition read_at :: "'a list \<Rightarrow> int \<Rightarrow> 'a option" where
  "read_at xs i = (if 0 \<le> i \<and> i < int (length xs) then Some (xs ! nat i) else None)"

lemma read_at_Some [simp]: "read_at xs i = Some x \<longleftrightarrow> 0 \<le> i \<and> i < int (length xs) \<and> xs ! nat i = x"
  by (auto simp: read_at_def)

lemma read_at_None [simp]: "read_at xs i = None \<longleftrightarrow> i < 0 \<or> int (length xs) \<le> i"
  by (auto simp: read_at_def)

lemma read_at_nat: "i < length xs \<Longrightarrow> read_at xs (int i) = Some (xs ! i)"
  by simp

lemma read_at_drop:
  "0 \<le> k \<Longrightarrow> 0 \<le> i \<Longrightarrow> read_at (drop (nat k) xs) i = read_at xs (k + i)"
  by (auto simp: read_at_def nat_add_distrib)

section \<open>Lists\<close>

text \<open>A property of all numbers below a numeral bound is checked on the list of them.\<close>

lemma all_below_list_all: "(\<forall>i<n. P i) \<longleftrightarrow> list_all P [0..<n]"
  by (auto simp: list_all_iff)

lemma nth_append_left: "i < length xs \<Longrightarrow> (xs @ ys) ! i = xs ! i"
  by (simp add: nth_append)

text \<open>
  \<open>memmove\<close> of \<open>n\<close> elements inside one array, a store into an array, and \<open>realloc\<close> of an array that is
  granted \<open>n\<close> elements: the old prefix is kept, and what is added holds unspecified data \<open>junk\<close>.
\<close>

definition list_move :: "'a list \<Rightarrow> nat \<Rightarrow> nat \<Rightarrow> nat \<Rightarrow> 'a list outcome" where
  "list_move xs dst src n =
     (if dst + n \<le> length xs \<and> src + n \<le> length xs
      then Ret (take dst xs @ take n (drop src xs) @ drop (dst + n) xs) else OutOfBounds)"

definition list_store :: "'a list \<Rightarrow> nat \<Rightarrow> 'a \<Rightarrow> 'a list outcome" where
  "list_store xs i v = (if i < length xs then Ret (xs[i := v]) else OutOfBounds)"

definition list_grow :: "'a \<Rightarrow> 'a list \<Rightarrow> nat \<Rightarrow> 'a list" where
  "list_grow junk xs n = take n xs @ replicate (n - length xs) junk"

lemma length_list_grow [simp]: "length (list_grow junk xs n) = n"
  by (simp add: list_grow_def)

lemma take_list_grow [simp]: "k \<le> length xs \<Longrightarrow> k \<le> n \<Longrightarrow> take k (list_grow junk xs n) = take k xs"
  by (simp add: list_grow_def min_absorb1)

lemma list_move_length: "list_move xs dst src n = Ret ys \<Longrightarrow> length ys = length xs"
  by (auto simp: list_move_def split: if_splits)

lemma list_move_none: "d \<le> length xs \<Longrightarrow> s \<le> length xs \<Longrightarrow> list_move xs d s 0 = Ret xs"
  by (simp add: list_move_def)

text \<open>Opening a gap at \<open>k\<close> in the first \<open>n\<close> elements and filling it is insertion there.\<close>

lemma list_move_insert:
  assumes "k \<le> n" and "n < length xs"
  shows "\<exists>ys. list_move xs (Suc k) k (n - k) = Ret ys \<and> length ys = length xs
           \<and> take (Suc n) (ys[k := v]) = take k xs @ v # drop k (take n xs)"
  using assms
  by (auto simp: list_move_def list_update_append take_Suc_conv_app_nth min_def drop_take Suc_diff_le)

text \<open>Closing the gap at \<open>k\<close> in the first \<open>Suc n\<close> elements is deletion there.\<close>

lemma list_move_delete:
  assumes "k \<le> n" and "n < length xs"
  shows "\<exists>ys. list_move xs k (Suc k) (n - k) = Ret ys \<and> length ys = length xs
           \<and> take n ys = take k xs @ drop (Suc k) (take (Suc n) xs)"
  using assms by (auto simp: list_move_def min_def drop_take)

section \<open>Words\<close>

lemma take_bit_take_bit_add:
  "n \<le> m \<Longrightarrow> take_bit n (take_bit m a + take_bit m b) = take_bit n (a + (b::int))"
  by (metis min.absorb1 take_bit_add take_bit_take_bit)

lemma take_bit_take_bit_mult:
  "take_bit n (take_bit m a * take_bit m b) = take_bit n (a * (b::int))" if "n \<le> m"
proof -
  have "take_bit n (take_bit m a * take_bit m b)
      = take_bit n (take_bit n (take_bit m a) * take_bit n (take_bit m b))"
    by (simp only: take_bit_mult)
  also have "\<dots> = take_bit n (take_bit n a * take_bit n b)"
    using that by (simp add: min_absorb1)
  finally show ?thesis by (simp only: take_bit_mult)
qed

lemma take_bit_take_bit_minus:
  "take_bit n (- take_bit m a) = take_bit n (- (a::int))" if "n \<le> m"
proof -
  have "take_bit n (- take_bit m a) = take_bit n (- take_bit n (take_bit m a))"
    by (simp only: take_bit_minus)
  also have "\<dots> = take_bit n (- take_bit n a)"
    using that by (simp add: min_absorb1)
  finally show ?thesis by (simp only: take_bit_minus)
qed

lemma take_bit_take_bit_diff:
  "n \<le> m \<Longrightarrow> take_bit n (take_bit m a - take_bit m b) = take_bit n (a - (b::int))"
  by (metis min.absorb1 take_bit_diff take_bit_take_bit)

lemma ucast_up_down [simp]:
  "(ucast (ucast (a :: u4) :: u8) :: u4) = a"
  by (rule bit_word_eqI) (simp add: bit_simps)

lemma ucast_scast_down [simp]:
  "(ucast (scast (a :: u4) :: u8) :: u4) = a"
  by (rule bit_word_eqI) (simp add: bit_simps)

lemma unat_ucast_up: "unat (ucast w :: 'b::len word) = unat w"
  if "LENGTH('a) \<le> LENGTH('b)" for w :: "'a::len word"
proof -
  have "unat w < 2 ^ LENGTH('a)" by (rule unsigned_less)
  also have "\<dots> \<le> 2 ^ LENGTH('b)" using that by simp
  finally show ?thesis by (simp add: unsigned_ucast_eq take_bit_nat_eq_self)
qed

lemma uint_pos: "w \<noteq> 0 \<Longrightarrow> 0 < uint w" for w :: "'a::len word"
  using unsigned_greater_eq [of w] by (simp add: order.order_iff_strict unsigned_eq_0_iff)

lemma uint_dec: "w \<noteq> 0 \<Longrightarrow> uint (w - 1) = uint w - 1" for w :: "'a::len word"
proof -
  assume "w \<noteq> 0"
  then have "0 < uint w" by (rule uint_pos)
  moreover have "uint w < 2 ^ LENGTH('a)" by (rule uint_lt2p)
  moreover have "uint (w - 1) = (uint w - 1) mod 2 ^ LENGTH('a)"
    by (metis uint_1 uint_word_arith_bintrs(2) take_bit_eq_mod)
  ultimately show ?thesis by (simp only: mod_pos_pos_trivial)
qed

lemma uint_inc: "uint w + 1 < 2 ^ LENGTH('a) \<Longrightarrow> uint (w + 1) = uint w + 1" for w :: "'a::len word"
  using unsigned_greater_eq [of w]
  by (simp add: uint_word_arith_bintrs(1) take_bit_int_eq_self)

lemma unat_inc: "w < v \<Longrightarrow> unat (w + 1) = Suc (unat w)" for w v :: "'a::len word"
proof -
  assume "w < v"
  then have "Suc (unat w) < 2 ^ LENGTH('a)" using unsigned_less [where 'a = nat, of v] unfolding word_less_nat_alt by linarith
  then show ?thesis by (simp add: unat_word_ariths(1))
qed

lemma unat_dec: "w \<noteq> 0 \<Longrightarrow> Suc (unat (w - 1)) = unat w" for w :: "'a::len word"
proof -
  assume "w \<noteq> 0"
  then have "int (Suc (unat (w - 1))) = int (unat w)" by (simp add: uint_dec)
  then show ?thesis by (rule of_nat_eq_iff [THEN iffD1])
qed

text \<open>A signed value read back after a wrap-around is the value itself when it fits.\<close>

lemma sint_word_of_int_fits:
  fixes x :: int
  assumes "- (2 ^ (LENGTH('a::len) - 1)) \<le> x" and "x < 2 ^ (LENGTH('a) - 1)"
  shows "sint (word_of_int x :: 'a word) = x"
  using assms by (simp add: signed_of_int signed_take_bit_int_eq_self)

end
