(* ===== verification/OpCodes.thy ===== *)
theory OpCodes
  imports Prelude
begin

text \<open>
  The Dalvik opcodes, from the enum \<open>OpCode\<close> of \<^verbatim>\<open>src/libdex/OpCode.h\<close>. An opcode is
  its number: the C code casts between the enum and \<open>int\<close> freely, indexes 256-element tables with it
  and reads it from the low byte of a code unit. The names are input abbreviations, so that a table or a handler
  below reads like the \<open>switch\<close> it models while the simplifier sees numerals.
\<close>

type_synonym OpCode = nat

text \<open>\<^verbatim>\<open>kNumDalvikInstructions\<close> and the identifying code units of the three payload tables.\<close>

abbreviation (input) kNumDalvikInstructions :: nat where
  "kNumDalvikInstructions \<equiv> 256"

definition kPackedSwitchSignature :: u2 where
  "kPackedSwitchSignature = 0x0100"

definition kSparseSwitchSignature :: u2 where
  "kSparseSwitchSignature = 0x0200"

definition kArrayDataSignature :: u2 where
  "kArrayDataSignature = 0x0300"

lemmas [payload_simps] =
  kPackedSwitchSignature_def kSparseSwitchSignature_def kArrayDataSignature_def

abbreviation (input) OP_NOP :: OpCode where "OP_NOP \<equiv> 0"
abbreviation (input) OP_MOVE :: OpCode where "OP_MOVE \<equiv> 1"
abbreviation (input) OP_MOVE_FROM16 :: OpCode where "OP_MOVE_FROM16 \<equiv> 2"
abbreviation (input) OP_MOVE_16 :: OpCode where "OP_MOVE_16 \<equiv> 3"
abbreviation (input) OP_MOVE_WIDE :: OpCode where "OP_MOVE_WIDE \<equiv> 4"
abbreviation (input) OP_MOVE_WIDE_FROM16 :: OpCode where "OP_MOVE_WIDE_FROM16 \<equiv> 5"
abbreviation (input) OP_MOVE_WIDE_16 :: OpCode where "OP_MOVE_WIDE_16 \<equiv> 6"
abbreviation (input) OP_MOVE_OBJECT :: OpCode where "OP_MOVE_OBJECT \<equiv> 7"
abbreviation (input) OP_MOVE_OBJECT_FROM16 :: OpCode where "OP_MOVE_OBJECT_FROM16 \<equiv> 8"
abbreviation (input) OP_MOVE_OBJECT_16 :: OpCode where "OP_MOVE_OBJECT_16 \<equiv> 9"
abbreviation (input) OP_MOVE_RESULT :: OpCode where "OP_MOVE_RESULT \<equiv> 10"
abbreviation (input) OP_MOVE_RESULT_WIDE :: OpCode where "OP_MOVE_RESULT_WIDE \<equiv> 11"
abbreviation (input) OP_MOVE_RESULT_OBJECT :: OpCode where "OP_MOVE_RESULT_OBJECT \<equiv> 12"
abbreviation (input) OP_MOVE_EXCEPTION :: OpCode where "OP_MOVE_EXCEPTION \<equiv> 13"
abbreviation (input) OP_RETURN_VOID :: OpCode where "OP_RETURN_VOID \<equiv> 14"
abbreviation (input) OP_RETURN :: OpCode where "OP_RETURN \<equiv> 15"
abbreviation (input) OP_RETURN_WIDE :: OpCode where "OP_RETURN_WIDE \<equiv> 16"
abbreviation (input) OP_RETURN_OBJECT :: OpCode where "OP_RETURN_OBJECT \<equiv> 17"
abbreviation (input) OP_CONST_4 :: OpCode where "OP_CONST_4 \<equiv> 18"
abbreviation (input) OP_CONST_16 :: OpCode where "OP_CONST_16 \<equiv> 19"
abbreviation (input) OP_CONST :: OpCode where "OP_CONST \<equiv> 20"
abbreviation (input) OP_CONST_HIGH16 :: OpCode where "OP_CONST_HIGH16 \<equiv> 21"
abbreviation (input) OP_CONST_WIDE_16 :: OpCode where "OP_CONST_WIDE_16 \<equiv> 22"
abbreviation (input) OP_CONST_WIDE_32 :: OpCode where "OP_CONST_WIDE_32 \<equiv> 23"
abbreviation (input) OP_CONST_WIDE :: OpCode where "OP_CONST_WIDE \<equiv> 24"
abbreviation (input) OP_CONST_WIDE_HIGH16 :: OpCode where "OP_CONST_WIDE_HIGH16 \<equiv> 25"
abbreviation (input) OP_CONST_STRING :: OpCode where "OP_CONST_STRING \<equiv> 26"
abbreviation (input) OP_CONST_STRING_JUMBO :: OpCode where "OP_CONST_STRING_JUMBO \<equiv> 27"
abbreviation (input) OP_CONST_CLASS :: OpCode where "OP_CONST_CLASS \<equiv> 28"
abbreviation (input) OP_MONITOR_ENTER :: OpCode where "OP_MONITOR_ENTER \<equiv> 29"
abbreviation (input) OP_MONITOR_EXIT :: OpCode where "OP_MONITOR_EXIT \<equiv> 30"
abbreviation (input) OP_CHECK_CAST :: OpCode where "OP_CHECK_CAST \<equiv> 31"
abbreviation (input) OP_INSTANCE_OF :: OpCode where "OP_INSTANCE_OF \<equiv> 32"
abbreviation (input) OP_ARRAY_LENGTH :: OpCode where "OP_ARRAY_LENGTH \<equiv> 33"
abbreviation (input) OP_NEW_INSTANCE :: OpCode where "OP_NEW_INSTANCE \<equiv> 34"
abbreviation (input) OP_NEW_ARRAY :: OpCode where "OP_NEW_ARRAY \<equiv> 35"
abbreviation (input) OP_FILLED_NEW_ARRAY :: OpCode where "OP_FILLED_NEW_ARRAY \<equiv> 36"
abbreviation (input) OP_FILLED_NEW_ARRAY_RANGE :: OpCode where "OP_FILLED_NEW_ARRAY_RANGE \<equiv> 37"
abbreviation (input) OP_FILL_ARRAY_DATA :: OpCode where "OP_FILL_ARRAY_DATA \<equiv> 38"
abbreviation (input) OP_THROW :: OpCode where "OP_THROW \<equiv> 39"
abbreviation (input) OP_GOTO :: OpCode where "OP_GOTO \<equiv> 40"
abbreviation (input) OP_GOTO_16 :: OpCode where "OP_GOTO_16 \<equiv> 41"
abbreviation (input) OP_GOTO_32 :: OpCode where "OP_GOTO_32 \<equiv> 42"
abbreviation (input) OP_PACKED_SWITCH :: OpCode where "OP_PACKED_SWITCH \<equiv> 43"
abbreviation (input) OP_SPARSE_SWITCH :: OpCode where "OP_SPARSE_SWITCH \<equiv> 44"
abbreviation (input) OP_CMPL_FLOAT :: OpCode where "OP_CMPL_FLOAT \<equiv> 45"
abbreviation (input) OP_CMPG_FLOAT :: OpCode where "OP_CMPG_FLOAT \<equiv> 46"
abbreviation (input) OP_CMPL_DOUBLE :: OpCode where "OP_CMPL_DOUBLE \<equiv> 47"
abbreviation (input) OP_CMPG_DOUBLE :: OpCode where "OP_CMPG_DOUBLE \<equiv> 48"
abbreviation (input) OP_CMP_LONG :: OpCode where "OP_CMP_LONG \<equiv> 49"
abbreviation (input) OP_IF_EQ :: OpCode where "OP_IF_EQ \<equiv> 50"
abbreviation (input) OP_IF_NE :: OpCode where "OP_IF_NE \<equiv> 51"
abbreviation (input) OP_IF_LT :: OpCode where "OP_IF_LT \<equiv> 52"
abbreviation (input) OP_IF_GE :: OpCode where "OP_IF_GE \<equiv> 53"
abbreviation (input) OP_IF_GT :: OpCode where "OP_IF_GT \<equiv> 54"
abbreviation (input) OP_IF_LE :: OpCode where "OP_IF_LE \<equiv> 55"
abbreviation (input) OP_IF_EQZ :: OpCode where "OP_IF_EQZ \<equiv> 56"
abbreviation (input) OP_IF_NEZ :: OpCode where "OP_IF_NEZ \<equiv> 57"
abbreviation (input) OP_IF_LTZ :: OpCode where "OP_IF_LTZ \<equiv> 58"
abbreviation (input) OP_IF_GEZ :: OpCode where "OP_IF_GEZ \<equiv> 59"
abbreviation (input) OP_IF_GTZ :: OpCode where "OP_IF_GTZ \<equiv> 60"
abbreviation (input) OP_IF_LEZ :: OpCode where "OP_IF_LEZ \<equiv> 61"
abbreviation (input) OP_UNUSED_3E :: OpCode where "OP_UNUSED_3E \<equiv> 62"
abbreviation (input) OP_UNUSED_3F :: OpCode where "OP_UNUSED_3F \<equiv> 63"
abbreviation (input) OP_UNUSED_40 :: OpCode where "OP_UNUSED_40 \<equiv> 64"
abbreviation (input) OP_UNUSED_41 :: OpCode where "OP_UNUSED_41 \<equiv> 65"
abbreviation (input) OP_UNUSED_42 :: OpCode where "OP_UNUSED_42 \<equiv> 66"
abbreviation (input) OP_UNUSED_43 :: OpCode where "OP_UNUSED_43 \<equiv> 67"
abbreviation (input) OP_AGET :: OpCode where "OP_AGET \<equiv> 68"
abbreviation (input) OP_AGET_WIDE :: OpCode where "OP_AGET_WIDE \<equiv> 69"
abbreviation (input) OP_AGET_OBJECT :: OpCode where "OP_AGET_OBJECT \<equiv> 70"
abbreviation (input) OP_AGET_BOOLEAN :: OpCode where "OP_AGET_BOOLEAN \<equiv> 71"
abbreviation (input) OP_AGET_BYTE :: OpCode where "OP_AGET_BYTE \<equiv> 72"
abbreviation (input) OP_AGET_CHAR :: OpCode where "OP_AGET_CHAR \<equiv> 73"
abbreviation (input) OP_AGET_SHORT :: OpCode where "OP_AGET_SHORT \<equiv> 74"
abbreviation (input) OP_APUT :: OpCode where "OP_APUT \<equiv> 75"
abbreviation (input) OP_APUT_WIDE :: OpCode where "OP_APUT_WIDE \<equiv> 76"
abbreviation (input) OP_APUT_OBJECT :: OpCode where "OP_APUT_OBJECT \<equiv> 77"
abbreviation (input) OP_APUT_BOOLEAN :: OpCode where "OP_APUT_BOOLEAN \<equiv> 78"
abbreviation (input) OP_APUT_BYTE :: OpCode where "OP_APUT_BYTE \<equiv> 79"
abbreviation (input) OP_APUT_CHAR :: OpCode where "OP_APUT_CHAR \<equiv> 80"
abbreviation (input) OP_APUT_SHORT :: OpCode where "OP_APUT_SHORT \<equiv> 81"
abbreviation (input) OP_IGET :: OpCode where "OP_IGET \<equiv> 82"
abbreviation (input) OP_IGET_WIDE :: OpCode where "OP_IGET_WIDE \<equiv> 83"
abbreviation (input) OP_IGET_OBJECT :: OpCode where "OP_IGET_OBJECT \<equiv> 84"
abbreviation (input) OP_IGET_BOOLEAN :: OpCode where "OP_IGET_BOOLEAN \<equiv> 85"
abbreviation (input) OP_IGET_BYTE :: OpCode where "OP_IGET_BYTE \<equiv> 86"
abbreviation (input) OP_IGET_CHAR :: OpCode where "OP_IGET_CHAR \<equiv> 87"
abbreviation (input) OP_IGET_SHORT :: OpCode where "OP_IGET_SHORT \<equiv> 88"
abbreviation (input) OP_IPUT :: OpCode where "OP_IPUT \<equiv> 89"
abbreviation (input) OP_IPUT_WIDE :: OpCode where "OP_IPUT_WIDE \<equiv> 90"
abbreviation (input) OP_IPUT_OBJECT :: OpCode where "OP_IPUT_OBJECT \<equiv> 91"
abbreviation (input) OP_IPUT_BOOLEAN :: OpCode where "OP_IPUT_BOOLEAN \<equiv> 92"
abbreviation (input) OP_IPUT_BYTE :: OpCode where "OP_IPUT_BYTE \<equiv> 93"
abbreviation (input) OP_IPUT_CHAR :: OpCode where "OP_IPUT_CHAR \<equiv> 94"
abbreviation (input) OP_IPUT_SHORT :: OpCode where "OP_IPUT_SHORT \<equiv> 95"
abbreviation (input) OP_SGET :: OpCode where "OP_SGET \<equiv> 96"
abbreviation (input) OP_SGET_WIDE :: OpCode where "OP_SGET_WIDE \<equiv> 97"
abbreviation (input) OP_SGET_OBJECT :: OpCode where "OP_SGET_OBJECT \<equiv> 98"
abbreviation (input) OP_SGET_BOOLEAN :: OpCode where "OP_SGET_BOOLEAN \<equiv> 99"
abbreviation (input) OP_SGET_BYTE :: OpCode where "OP_SGET_BYTE \<equiv> 100"
abbreviation (input) OP_SGET_CHAR :: OpCode where "OP_SGET_CHAR \<equiv> 101"
abbreviation (input) OP_SGET_SHORT :: OpCode where "OP_SGET_SHORT \<equiv> 102"
abbreviation (input) OP_SPUT :: OpCode where "OP_SPUT \<equiv> 103"
abbreviation (input) OP_SPUT_WIDE :: OpCode where "OP_SPUT_WIDE \<equiv> 104"
abbreviation (input) OP_SPUT_OBJECT :: OpCode where "OP_SPUT_OBJECT \<equiv> 105"
abbreviation (input) OP_SPUT_BOOLEAN :: OpCode where "OP_SPUT_BOOLEAN \<equiv> 106"
abbreviation (input) OP_SPUT_BYTE :: OpCode where "OP_SPUT_BYTE \<equiv> 107"
abbreviation (input) OP_SPUT_CHAR :: OpCode where "OP_SPUT_CHAR \<equiv> 108"
abbreviation (input) OP_SPUT_SHORT :: OpCode where "OP_SPUT_SHORT \<equiv> 109"
abbreviation (input) OP_INVOKE_VIRTUAL :: OpCode where "OP_INVOKE_VIRTUAL \<equiv> 110"
abbreviation (input) OP_INVOKE_SUPER :: OpCode where "OP_INVOKE_SUPER \<equiv> 111"
abbreviation (input) OP_INVOKE_DIRECT :: OpCode where "OP_INVOKE_DIRECT \<equiv> 112"
abbreviation (input) OP_INVOKE_STATIC :: OpCode where "OP_INVOKE_STATIC \<equiv> 113"
abbreviation (input) OP_INVOKE_INTERFACE :: OpCode where "OP_INVOKE_INTERFACE \<equiv> 114"
abbreviation (input) OP_UNUSED_73 :: OpCode where "OP_UNUSED_73 \<equiv> 115"
abbreviation (input) OP_INVOKE_VIRTUAL_RANGE :: OpCode where "OP_INVOKE_VIRTUAL_RANGE \<equiv> 116"
abbreviation (input) OP_INVOKE_SUPER_RANGE :: OpCode where "OP_INVOKE_SUPER_RANGE \<equiv> 117"
abbreviation (input) OP_INVOKE_DIRECT_RANGE :: OpCode where "OP_INVOKE_DIRECT_RANGE \<equiv> 118"
abbreviation (input) OP_INVOKE_STATIC_RANGE :: OpCode where "OP_INVOKE_STATIC_RANGE \<equiv> 119"
abbreviation (input) OP_INVOKE_INTERFACE_RANGE :: OpCode where "OP_INVOKE_INTERFACE_RANGE \<equiv> 120"
abbreviation (input) OP_UNUSED_79 :: OpCode where "OP_UNUSED_79 \<equiv> 121"
abbreviation (input) OP_UNUSED_7A :: OpCode where "OP_UNUSED_7A \<equiv> 122"
abbreviation (input) OP_NEG_INT :: OpCode where "OP_NEG_INT \<equiv> 123"
abbreviation (input) OP_NOT_INT :: OpCode where "OP_NOT_INT \<equiv> 124"
abbreviation (input) OP_NEG_LONG :: OpCode where "OP_NEG_LONG \<equiv> 125"
abbreviation (input) OP_NOT_LONG :: OpCode where "OP_NOT_LONG \<equiv> 126"
abbreviation (input) OP_NEG_FLOAT :: OpCode where "OP_NEG_FLOAT \<equiv> 127"
abbreviation (input) OP_NEG_DOUBLE :: OpCode where "OP_NEG_DOUBLE \<equiv> 128"
abbreviation (input) OP_INT_TO_LONG :: OpCode where "OP_INT_TO_LONG \<equiv> 129"
abbreviation (input) OP_INT_TO_FLOAT :: OpCode where "OP_INT_TO_FLOAT \<equiv> 130"
abbreviation (input) OP_INT_TO_DOUBLE :: OpCode where "OP_INT_TO_DOUBLE \<equiv> 131"
abbreviation (input) OP_LONG_TO_INT :: OpCode where "OP_LONG_TO_INT \<equiv> 132"
abbreviation (input) OP_LONG_TO_FLOAT :: OpCode where "OP_LONG_TO_FLOAT \<equiv> 133"
abbreviation (input) OP_LONG_TO_DOUBLE :: OpCode where "OP_LONG_TO_DOUBLE \<equiv> 134"
abbreviation (input) OP_FLOAT_TO_INT :: OpCode where "OP_FLOAT_TO_INT \<equiv> 135"
abbreviation (input) OP_FLOAT_TO_LONG :: OpCode where "OP_FLOAT_TO_LONG \<equiv> 136"
abbreviation (input) OP_FLOAT_TO_DOUBLE :: OpCode where "OP_FLOAT_TO_DOUBLE \<equiv> 137"
abbreviation (input) OP_DOUBLE_TO_INT :: OpCode where "OP_DOUBLE_TO_INT \<equiv> 138"
abbreviation (input) OP_DOUBLE_TO_LONG :: OpCode where "OP_DOUBLE_TO_LONG \<equiv> 139"
abbreviation (input) OP_DOUBLE_TO_FLOAT :: OpCode where "OP_DOUBLE_TO_FLOAT \<equiv> 140"
abbreviation (input) OP_INT_TO_BYTE :: OpCode where "OP_INT_TO_BYTE \<equiv> 141"
abbreviation (input) OP_INT_TO_CHAR :: OpCode where "OP_INT_TO_CHAR \<equiv> 142"
abbreviation (input) OP_INT_TO_SHORT :: OpCode where "OP_INT_TO_SHORT \<equiv> 143"
abbreviation (input) OP_ADD_INT :: OpCode where "OP_ADD_INT \<equiv> 144"
abbreviation (input) OP_SUB_INT :: OpCode where "OP_SUB_INT \<equiv> 145"
abbreviation (input) OP_MUL_INT :: OpCode where "OP_MUL_INT \<equiv> 146"
abbreviation (input) OP_DIV_INT :: OpCode where "OP_DIV_INT \<equiv> 147"
abbreviation (input) OP_REM_INT :: OpCode where "OP_REM_INT \<equiv> 148"
abbreviation (input) OP_AND_INT :: OpCode where "OP_AND_INT \<equiv> 149"
abbreviation (input) OP_OR_INT :: OpCode where "OP_OR_INT \<equiv> 150"
abbreviation (input) OP_XOR_INT :: OpCode where "OP_XOR_INT \<equiv> 151"
abbreviation (input) OP_SHL_INT :: OpCode where "OP_SHL_INT \<equiv> 152"
abbreviation (input) OP_SHR_INT :: OpCode where "OP_SHR_INT \<equiv> 153"
abbreviation (input) OP_USHR_INT :: OpCode where "OP_USHR_INT \<equiv> 154"
abbreviation (input) OP_ADD_LONG :: OpCode where "OP_ADD_LONG \<equiv> 155"
abbreviation (input) OP_SUB_LONG :: OpCode where "OP_SUB_LONG \<equiv> 156"
abbreviation (input) OP_MUL_LONG :: OpCode where "OP_MUL_LONG \<equiv> 157"
abbreviation (input) OP_DIV_LONG :: OpCode where "OP_DIV_LONG \<equiv> 158"
abbreviation (input) OP_REM_LONG :: OpCode where "OP_REM_LONG \<equiv> 159"
abbreviation (input) OP_AND_LONG :: OpCode where "OP_AND_LONG \<equiv> 160"
abbreviation (input) OP_OR_LONG :: OpCode where "OP_OR_LONG \<equiv> 161"
abbreviation (input) OP_XOR_LONG :: OpCode where "OP_XOR_LONG \<equiv> 162"
abbreviation (input) OP_SHL_LONG :: OpCode where "OP_SHL_LONG \<equiv> 163"
abbreviation (input) OP_SHR_LONG :: OpCode where "OP_SHR_LONG \<equiv> 164"
abbreviation (input) OP_USHR_LONG :: OpCode where "OP_USHR_LONG \<equiv> 165"
abbreviation (input) OP_ADD_FLOAT :: OpCode where "OP_ADD_FLOAT \<equiv> 166"
abbreviation (input) OP_SUB_FLOAT :: OpCode where "OP_SUB_FLOAT \<equiv> 167"
abbreviation (input) OP_MUL_FLOAT :: OpCode where "OP_MUL_FLOAT \<equiv> 168"
abbreviation (input) OP_DIV_FLOAT :: OpCode where "OP_DIV_FLOAT \<equiv> 169"
abbreviation (input) OP_REM_FLOAT :: OpCode where "OP_REM_FLOAT \<equiv> 170"
abbreviation (input) OP_ADD_DOUBLE :: OpCode where "OP_ADD_DOUBLE \<equiv> 171"
abbreviation (input) OP_SUB_DOUBLE :: OpCode where "OP_SUB_DOUBLE \<equiv> 172"
abbreviation (input) OP_MUL_DOUBLE :: OpCode where "OP_MUL_DOUBLE \<equiv> 173"
abbreviation (input) OP_DIV_DOUBLE :: OpCode where "OP_DIV_DOUBLE \<equiv> 174"
abbreviation (input) OP_REM_DOUBLE :: OpCode where "OP_REM_DOUBLE \<equiv> 175"
abbreviation (input) OP_ADD_INT_2ADDR :: OpCode where "OP_ADD_INT_2ADDR \<equiv> 176"
abbreviation (input) OP_SUB_INT_2ADDR :: OpCode where "OP_SUB_INT_2ADDR \<equiv> 177"
abbreviation (input) OP_MUL_INT_2ADDR :: OpCode where "OP_MUL_INT_2ADDR \<equiv> 178"
abbreviation (input) OP_DIV_INT_2ADDR :: OpCode where "OP_DIV_INT_2ADDR \<equiv> 179"
abbreviation (input) OP_REM_INT_2ADDR :: OpCode where "OP_REM_INT_2ADDR \<equiv> 180"
abbreviation (input) OP_AND_INT_2ADDR :: OpCode where "OP_AND_INT_2ADDR \<equiv> 181"
abbreviation (input) OP_OR_INT_2ADDR :: OpCode where "OP_OR_INT_2ADDR \<equiv> 182"
abbreviation (input) OP_XOR_INT_2ADDR :: OpCode where "OP_XOR_INT_2ADDR \<equiv> 183"
abbreviation (input) OP_SHL_INT_2ADDR :: OpCode where "OP_SHL_INT_2ADDR \<equiv> 184"
abbreviation (input) OP_SHR_INT_2ADDR :: OpCode where "OP_SHR_INT_2ADDR \<equiv> 185"
abbreviation (input) OP_USHR_INT_2ADDR :: OpCode where "OP_USHR_INT_2ADDR \<equiv> 186"
abbreviation (input) OP_ADD_LONG_2ADDR :: OpCode where "OP_ADD_LONG_2ADDR \<equiv> 187"
abbreviation (input) OP_SUB_LONG_2ADDR :: OpCode where "OP_SUB_LONG_2ADDR \<equiv> 188"
abbreviation (input) OP_MUL_LONG_2ADDR :: OpCode where "OP_MUL_LONG_2ADDR \<equiv> 189"
abbreviation (input) OP_DIV_LONG_2ADDR :: OpCode where "OP_DIV_LONG_2ADDR \<equiv> 190"
abbreviation (input) OP_REM_LONG_2ADDR :: OpCode where "OP_REM_LONG_2ADDR \<equiv> 191"
abbreviation (input) OP_AND_LONG_2ADDR :: OpCode where "OP_AND_LONG_2ADDR \<equiv> 192"
abbreviation (input) OP_OR_LONG_2ADDR :: OpCode where "OP_OR_LONG_2ADDR \<equiv> 193"
abbreviation (input) OP_XOR_LONG_2ADDR :: OpCode where "OP_XOR_LONG_2ADDR \<equiv> 194"
abbreviation (input) OP_SHL_LONG_2ADDR :: OpCode where "OP_SHL_LONG_2ADDR \<equiv> 195"
abbreviation (input) OP_SHR_LONG_2ADDR :: OpCode where "OP_SHR_LONG_2ADDR \<equiv> 196"
abbreviation (input) OP_USHR_LONG_2ADDR :: OpCode where "OP_USHR_LONG_2ADDR \<equiv> 197"
abbreviation (input) OP_ADD_FLOAT_2ADDR :: OpCode where "OP_ADD_FLOAT_2ADDR \<equiv> 198"
abbreviation (input) OP_SUB_FLOAT_2ADDR :: OpCode where "OP_SUB_FLOAT_2ADDR \<equiv> 199"
abbreviation (input) OP_MUL_FLOAT_2ADDR :: OpCode where "OP_MUL_FLOAT_2ADDR \<equiv> 200"
abbreviation (input) OP_DIV_FLOAT_2ADDR :: OpCode where "OP_DIV_FLOAT_2ADDR \<equiv> 201"
abbreviation (input) OP_REM_FLOAT_2ADDR :: OpCode where "OP_REM_FLOAT_2ADDR \<equiv> 202"
abbreviation (input) OP_ADD_DOUBLE_2ADDR :: OpCode where "OP_ADD_DOUBLE_2ADDR \<equiv> 203"
abbreviation (input) OP_SUB_DOUBLE_2ADDR :: OpCode where "OP_SUB_DOUBLE_2ADDR \<equiv> 204"
abbreviation (input) OP_MUL_DOUBLE_2ADDR :: OpCode where "OP_MUL_DOUBLE_2ADDR \<equiv> 205"
abbreviation (input) OP_DIV_DOUBLE_2ADDR :: OpCode where "OP_DIV_DOUBLE_2ADDR \<equiv> 206"
abbreviation (input) OP_REM_DOUBLE_2ADDR :: OpCode where "OP_REM_DOUBLE_2ADDR \<equiv> 207"
abbreviation (input) OP_ADD_INT_LIT16 :: OpCode where "OP_ADD_INT_LIT16 \<equiv> 208"
abbreviation (input) OP_RSUB_INT :: OpCode where "OP_RSUB_INT \<equiv> 209"
abbreviation (input) OP_MUL_INT_LIT16 :: OpCode where "OP_MUL_INT_LIT16 \<equiv> 210"
abbreviation (input) OP_DIV_INT_LIT16 :: OpCode where "OP_DIV_INT_LIT16 \<equiv> 211"
abbreviation (input) OP_REM_INT_LIT16 :: OpCode where "OP_REM_INT_LIT16 \<equiv> 212"
abbreviation (input) OP_AND_INT_LIT16 :: OpCode where "OP_AND_INT_LIT16 \<equiv> 213"
abbreviation (input) OP_OR_INT_LIT16 :: OpCode where "OP_OR_INT_LIT16 \<equiv> 214"
abbreviation (input) OP_XOR_INT_LIT16 :: OpCode where "OP_XOR_INT_LIT16 \<equiv> 215"
abbreviation (input) OP_ADD_INT_LIT8 :: OpCode where "OP_ADD_INT_LIT8 \<equiv> 216"
abbreviation (input) OP_RSUB_INT_LIT8 :: OpCode where "OP_RSUB_INT_LIT8 \<equiv> 217"
abbreviation (input) OP_MUL_INT_LIT8 :: OpCode where "OP_MUL_INT_LIT8 \<equiv> 218"
abbreviation (input) OP_DIV_INT_LIT8 :: OpCode where "OP_DIV_INT_LIT8 \<equiv> 219"
abbreviation (input) OP_REM_INT_LIT8 :: OpCode where "OP_REM_INT_LIT8 \<equiv> 220"
abbreviation (input) OP_AND_INT_LIT8 :: OpCode where "OP_AND_INT_LIT8 \<equiv> 221"
abbreviation (input) OP_OR_INT_LIT8 :: OpCode where "OP_OR_INT_LIT8 \<equiv> 222"
abbreviation (input) OP_XOR_INT_LIT8 :: OpCode where "OP_XOR_INT_LIT8 \<equiv> 223"
abbreviation (input) OP_SHL_INT_LIT8 :: OpCode where "OP_SHL_INT_LIT8 \<equiv> 224"
abbreviation (input) OP_SHR_INT_LIT8 :: OpCode where "OP_SHR_INT_LIT8 \<equiv> 225"
abbreviation (input) OP_USHR_INT_LIT8 :: OpCode where "OP_USHR_INT_LIT8 \<equiv> 226"
abbreviation (input) OP_UNUSED_E3 :: OpCode where "OP_UNUSED_E3 \<equiv> 227"
abbreviation (input) OP_UNUSED_E4 :: OpCode where "OP_UNUSED_E4 \<equiv> 228"
abbreviation (input) OP_UNUSED_E5 :: OpCode where "OP_UNUSED_E5 \<equiv> 229"
abbreviation (input) OP_UNUSED_E6 :: OpCode where "OP_UNUSED_E6 \<equiv> 230"
abbreviation (input) OP_UNUSED_E7 :: OpCode where "OP_UNUSED_E7 \<equiv> 231"
abbreviation (input) OP_UNUSED_E8 :: OpCode where "OP_UNUSED_E8 \<equiv> 232"
abbreviation (input) OP_UNUSED_E9 :: OpCode where "OP_UNUSED_E9 \<equiv> 233"
abbreviation (input) OP_UNUSED_EA :: OpCode where "OP_UNUSED_EA \<equiv> 234"
abbreviation (input) OP_UNUSED_EB :: OpCode where "OP_UNUSED_EB \<equiv> 235"
abbreviation (input) OP_UNUSED_EC :: OpCode where "OP_UNUSED_EC \<equiv> 236"
abbreviation (input) OP_UNUSED_ED :: OpCode where "OP_UNUSED_ED \<equiv> 237"
abbreviation (input) OP_EXECUTE_INLINE :: OpCode where "OP_EXECUTE_INLINE \<equiv> 238"
abbreviation (input) OP_UNUSED_EF :: OpCode where "OP_UNUSED_EF \<equiv> 239"
abbreviation (input) OP_INVOKE_DIRECT_EMPTY :: OpCode where "OP_INVOKE_DIRECT_EMPTY \<equiv> 240"
abbreviation (input) OP_UNUSED_F1 :: OpCode where "OP_UNUSED_F1 \<equiv> 241"
abbreviation (input) OP_IGET_QUICK :: OpCode where "OP_IGET_QUICK \<equiv> 242"
abbreviation (input) OP_IGET_WIDE_QUICK :: OpCode where "OP_IGET_WIDE_QUICK \<equiv> 243"
abbreviation (input) OP_IGET_OBJECT_QUICK :: OpCode where "OP_IGET_OBJECT_QUICK \<equiv> 244"
abbreviation (input) OP_IPUT_QUICK :: OpCode where "OP_IPUT_QUICK \<equiv> 245"
abbreviation (input) OP_IPUT_WIDE_QUICK :: OpCode where "OP_IPUT_WIDE_QUICK \<equiv> 246"
abbreviation (input) OP_IPUT_OBJECT_QUICK :: OpCode where "OP_IPUT_OBJECT_QUICK \<equiv> 247"
abbreviation (input) OP_INVOKE_VIRTUAL_QUICK :: OpCode where "OP_INVOKE_VIRTUAL_QUICK \<equiv> 248"
abbreviation (input) OP_INVOKE_VIRTUAL_QUICK_RANGE :: OpCode where "OP_INVOKE_VIRTUAL_QUICK_RANGE \<equiv> 249"
abbreviation (input) OP_INVOKE_SUPER_QUICK :: OpCode where "OP_INVOKE_SUPER_QUICK \<equiv> 250"
abbreviation (input) OP_INVOKE_SUPER_QUICK_RANGE :: OpCode where "OP_INVOKE_SUPER_QUICK_RANGE \<equiv> 251"
abbreviation (input) OP_UNUSED_FC :: OpCode where "OP_UNUSED_FC \<equiv> 252"
abbreviation (input) OP_UNUSED_FD :: OpCode where "OP_UNUSED_FD \<equiv> 253"
abbreviation (input) OP_UNUSED_FE :: OpCode where "OP_UNUSED_FE \<equiv> 254"
abbreviation (input) OP_UNUSED_FF :: OpCode where "OP_UNUSED_FF \<equiv> 255"

end
