(* ===== verification/InstrTables.thy ===== *)
theory InstrTables
  imports OpCodes
begin

text \<open>
  The instruction tables of \<^verbatim>\<open>src/libdex/InstrUtils.c\<close>: the width, the control-flow flags and
  the operand format of each of the 256 opcodes. Each generator is a loop over the opcodes around one
  \<open>switch\<close>; every arm of a \<open>switch\<close> is one opcode list here, in the order of the source. The lemmas
  show that the three tables, which the sources keep by hand, agree with each other.
\<close>

section \<open>Formats, widths and flags\<close>

text \<open>\<open>enum InstructionFormat\<close> of \<^verbatim>\<open>src/libdex/InstrUtils.h\<close>.\<close>

datatype InstructionFormat =
    kFmtUnknown | kFmt10x | kFmt12x | kFmt11n | kFmt11x | kFmt10t | kFmt20t | kFmt22x | kFmt21t
  | kFmt21s | kFmt21h | kFmt21c | kFmt23x | kFmt22b | kFmt22t | kFmt22s | kFmt22c | kFmt22cs
  | kFmt32x | kFmt30t | kFmt31t | kFmt31i | kFmt31c | kFmt35c | kFmt35ms | kFmt35fs | kFmt3rc
  | kFmt3rms | kFmt3rfs | kFmt3inline | kFmt51l

text \<open>\<open>enum InstructionFlags\<close>, one bit each in an \<open>unsigned char\<close>.\<close>

type_synonym InstructionFlags = u1

definition kInstrCanBranch :: InstructionFlags where "kInstrCanBranch = 1"

definition kInstrCanContinue :: InstructionFlags where "kInstrCanContinue = 2"

definition kInstrCanSwitch :: InstructionFlags where "kInstrCanSwitch = 4"

definition kInstrCanThrow :: InstructionFlags where "kInstrCanThrow = 8"

definition kInstrCanReturn :: InstructionFlags where "kInstrCanReturn = 16"

lemmas flag_defs =
  kInstrCanBranch_def kInstrCanContinue_def kInstrCanSwitch_def kInstrCanThrow_def
  kInstrCanReturn_def

subsection \<open>The arms of \<open>dexCreateInstrWidthTable\<close>\<close>

definition width_ops_1 :: "OpCode list" where
  "width_ops_1 =
    [OP_NOP, OP_MOVE, OP_MOVE_WIDE, OP_MOVE_OBJECT, OP_MOVE_RESULT, OP_MOVE_RESULT_WIDE,
     OP_MOVE_RESULT_OBJECT, OP_MOVE_EXCEPTION, OP_RETURN_VOID, OP_RETURN, OP_RETURN_WIDE,
     OP_RETURN_OBJECT, OP_CONST_4, OP_MONITOR_ENTER, OP_MONITOR_EXIT, OP_ARRAY_LENGTH, OP_THROW,
     OP_GOTO, OP_NEG_INT, OP_NOT_INT, OP_NEG_LONG, OP_NOT_LONG, OP_NEG_FLOAT, OP_NEG_DOUBLE,
     OP_INT_TO_LONG, OP_INT_TO_FLOAT, OP_INT_TO_DOUBLE, OP_LONG_TO_INT, OP_LONG_TO_FLOAT,
     OP_LONG_TO_DOUBLE, OP_FLOAT_TO_INT, OP_FLOAT_TO_LONG, OP_FLOAT_TO_DOUBLE, OP_DOUBLE_TO_INT,
     OP_DOUBLE_TO_LONG, OP_DOUBLE_TO_FLOAT, OP_INT_TO_BYTE, OP_INT_TO_CHAR, OP_INT_TO_SHORT,
     OP_ADD_INT_2ADDR, OP_SUB_INT_2ADDR, OP_MUL_INT_2ADDR, OP_DIV_INT_2ADDR, OP_REM_INT_2ADDR,
     OP_AND_INT_2ADDR, OP_OR_INT_2ADDR, OP_XOR_INT_2ADDR, OP_SHL_INT_2ADDR, OP_SHR_INT_2ADDR,
     OP_USHR_INT_2ADDR, OP_ADD_LONG_2ADDR, OP_SUB_LONG_2ADDR, OP_MUL_LONG_2ADDR,
     OP_DIV_LONG_2ADDR, OP_REM_LONG_2ADDR, OP_AND_LONG_2ADDR, OP_OR_LONG_2ADDR,
     OP_XOR_LONG_2ADDR, OP_SHL_LONG_2ADDR, OP_SHR_LONG_2ADDR, OP_USHR_LONG_2ADDR,
     OP_ADD_FLOAT_2ADDR, OP_SUB_FLOAT_2ADDR, OP_MUL_FLOAT_2ADDR, OP_DIV_FLOAT_2ADDR,
     OP_REM_FLOAT_2ADDR, OP_ADD_DOUBLE_2ADDR, OP_SUB_DOUBLE_2ADDR, OP_MUL_DOUBLE_2ADDR,
     OP_DIV_DOUBLE_2ADDR, OP_REM_DOUBLE_2ADDR]"

definition width_ops_2 :: "OpCode list" where
  "width_ops_2 =
    [OP_MOVE_FROM16, OP_MOVE_WIDE_FROM16, OP_MOVE_OBJECT_FROM16, OP_CONST_16, OP_CONST_HIGH16,
     OP_CONST_WIDE_16, OP_CONST_WIDE_HIGH16, OP_CONST_STRING, OP_CONST_CLASS, OP_CHECK_CAST,
     OP_INSTANCE_OF, OP_NEW_INSTANCE, OP_NEW_ARRAY, OP_CMPL_FLOAT, OP_CMPG_FLOAT, OP_CMPL_DOUBLE,
     OP_CMPG_DOUBLE, OP_CMP_LONG, OP_GOTO_16, OP_IF_EQ, OP_IF_NE, OP_IF_LT, OP_IF_GE, OP_IF_GT,
     OP_IF_LE, OP_IF_EQZ, OP_IF_NEZ, OP_IF_LTZ, OP_IF_GEZ, OP_IF_GTZ, OP_IF_LEZ, OP_AGET,
     OP_AGET_WIDE, OP_AGET_OBJECT, OP_AGET_BOOLEAN, OP_AGET_BYTE, OP_AGET_CHAR, OP_AGET_SHORT,
     OP_APUT, OP_APUT_WIDE, OP_APUT_OBJECT, OP_APUT_BOOLEAN, OP_APUT_BYTE, OP_APUT_CHAR,
     OP_APUT_SHORT, OP_IGET, OP_IGET_WIDE, OP_IGET_OBJECT, OP_IGET_BOOLEAN, OP_IGET_BYTE,
     OP_IGET_CHAR, OP_IGET_SHORT, OP_IPUT, OP_IPUT_WIDE, OP_IPUT_OBJECT, OP_IPUT_BOOLEAN,
     OP_IPUT_BYTE, OP_IPUT_CHAR, OP_IPUT_SHORT, OP_SGET, OP_SGET_WIDE, OP_SGET_OBJECT,
     OP_SGET_BOOLEAN, OP_SGET_BYTE, OP_SGET_CHAR, OP_SGET_SHORT, OP_SPUT, OP_SPUT_WIDE,
     OP_SPUT_OBJECT, OP_SPUT_BOOLEAN, OP_SPUT_BYTE, OP_SPUT_CHAR, OP_SPUT_SHORT, OP_ADD_INT,
     OP_SUB_INT, OP_MUL_INT, OP_DIV_INT, OP_REM_INT, OP_AND_INT, OP_OR_INT, OP_XOR_INT,
     OP_SHL_INT, OP_SHR_INT, OP_USHR_INT, OP_ADD_LONG, OP_SUB_LONG, OP_MUL_LONG, OP_DIV_LONG,
     OP_REM_LONG, OP_AND_LONG, OP_OR_LONG, OP_XOR_LONG, OP_SHL_LONG, OP_SHR_LONG, OP_USHR_LONG,
     OP_ADD_FLOAT, OP_SUB_FLOAT, OP_MUL_FLOAT, OP_DIV_FLOAT, OP_REM_FLOAT, OP_ADD_DOUBLE,
     OP_SUB_DOUBLE, OP_MUL_DOUBLE, OP_DIV_DOUBLE, OP_REM_DOUBLE, OP_ADD_INT_LIT16, OP_RSUB_INT,
     OP_MUL_INT_LIT16, OP_DIV_INT_LIT16, OP_REM_INT_LIT16, OP_AND_INT_LIT16, OP_OR_INT_LIT16,
     OP_XOR_INT_LIT16, OP_ADD_INT_LIT8, OP_RSUB_INT_LIT8, OP_MUL_INT_LIT8, OP_DIV_INT_LIT8,
     OP_REM_INT_LIT8, OP_AND_INT_LIT8, OP_OR_INT_LIT8, OP_XOR_INT_LIT8, OP_SHL_INT_LIT8,
     OP_SHR_INT_LIT8, OP_USHR_INT_LIT8]"

definition width_ops_3 :: "OpCode list" where
  "width_ops_3 =
    [OP_MOVE_16, OP_MOVE_WIDE_16, OP_MOVE_OBJECT_16, OP_CONST, OP_CONST_WIDE_32,
     OP_CONST_STRING_JUMBO, OP_GOTO_32, OP_FILLED_NEW_ARRAY, OP_FILLED_NEW_ARRAY_RANGE,
     OP_FILL_ARRAY_DATA, OP_PACKED_SWITCH, OP_SPARSE_SWITCH, OP_INVOKE_VIRTUAL, OP_INVOKE_SUPER,
     OP_INVOKE_DIRECT, OP_INVOKE_STATIC, OP_INVOKE_INTERFACE, OP_INVOKE_VIRTUAL_RANGE,
     OP_INVOKE_SUPER_RANGE, OP_INVOKE_DIRECT_RANGE, OP_INVOKE_STATIC_RANGE,
     OP_INVOKE_INTERFACE_RANGE]"

definition width_ops_5 :: "OpCode list" where
  "width_ops_5 =
    [OP_CONST_WIDE]"

definition width_ops_opt2 :: "OpCode list" where
  "width_ops_opt2 =
    [OP_IGET_QUICK, OP_IGET_WIDE_QUICK, OP_IGET_OBJECT_QUICK, OP_IPUT_QUICK, OP_IPUT_WIDE_QUICK,
     OP_IPUT_OBJECT_QUICK]"

definition width_ops_opt3 :: "OpCode list" where
  "width_ops_opt3 =
    [OP_INVOKE_VIRTUAL_QUICK, OP_INVOKE_VIRTUAL_QUICK_RANGE, OP_INVOKE_SUPER_QUICK,
     OP_INVOKE_SUPER_QUICK_RANGE, OP_EXECUTE_INLINE, OP_INVOKE_DIRECT_EMPTY]"

definition width_ops_unused :: "OpCode list" where
  "width_ops_unused =
    [OP_UNUSED_3E, OP_UNUSED_3F, OP_UNUSED_40, OP_UNUSED_41, OP_UNUSED_42, OP_UNUSED_43,
     OP_UNUSED_73, OP_UNUSED_79, OP_UNUSED_7A, OP_UNUSED_E3, OP_UNUSED_E4, OP_UNUSED_E5,
     OP_UNUSED_E6, OP_UNUSED_E7, OP_UNUSED_E8, OP_UNUSED_E9, OP_UNUSED_EA, OP_UNUSED_EB,
     OP_UNUSED_EC, OP_UNUSED_ED, OP_UNUSED_EF, OP_UNUSED_F1, OP_UNUSED_FC, OP_UNUSED_FD,
     OP_UNUSED_FE, OP_UNUSED_FF]"

subsection \<open>The arms of \<open>dexCreateInstrFlagsTable\<close>\<close>

definition flags_ops_plain :: "OpCode list" where
  "flags_ops_plain =
    [OP_NOP, OP_MOVE, OP_MOVE_FROM16, OP_MOVE_16, OP_MOVE_WIDE, OP_MOVE_WIDE_FROM16,
     OP_MOVE_WIDE_16, OP_MOVE_OBJECT, OP_MOVE_OBJECT_FROM16, OP_MOVE_OBJECT_16, OP_MOVE_RESULT,
     OP_MOVE_RESULT_WIDE, OP_MOVE_RESULT_OBJECT, OP_MOVE_EXCEPTION, OP_CONST_4, OP_CONST_16,
     OP_CONST, OP_CONST_HIGH16, OP_CONST_WIDE_16, OP_CONST_WIDE_32, OP_CONST_WIDE,
     OP_CONST_WIDE_HIGH16, OP_FILL_ARRAY_DATA, OP_CMPL_FLOAT, OP_CMPG_FLOAT, OP_CMPL_DOUBLE,
     OP_CMPG_DOUBLE, OP_CMP_LONG, OP_NEG_INT, OP_NOT_INT, OP_NEG_LONG, OP_NOT_LONG, OP_NEG_FLOAT,
     OP_NEG_DOUBLE, OP_INT_TO_LONG, OP_INT_TO_FLOAT, OP_INT_TO_DOUBLE, OP_LONG_TO_INT,
     OP_LONG_TO_FLOAT, OP_LONG_TO_DOUBLE, OP_FLOAT_TO_INT, OP_FLOAT_TO_LONG, OP_FLOAT_TO_DOUBLE,
     OP_DOUBLE_TO_INT, OP_DOUBLE_TO_LONG, OP_DOUBLE_TO_FLOAT, OP_INT_TO_BYTE, OP_INT_TO_CHAR,
     OP_INT_TO_SHORT, OP_ADD_INT, OP_SUB_INT, OP_MUL_INT, OP_AND_INT, OP_OR_INT, OP_XOR_INT,
     OP_SHL_INT, OP_SHR_INT, OP_USHR_INT, OP_ADD_LONG, OP_SUB_LONG, OP_MUL_LONG, OP_AND_LONG,
     OP_OR_LONG, OP_XOR_LONG, OP_SHL_LONG, OP_SHR_LONG, OP_USHR_LONG, OP_ADD_FLOAT, OP_SUB_FLOAT,
     OP_MUL_FLOAT, OP_DIV_FLOAT, OP_REM_FLOAT, OP_ADD_DOUBLE, OP_SUB_DOUBLE, OP_MUL_DOUBLE,
     OP_DIV_DOUBLE, OP_REM_DOUBLE, OP_ADD_INT_2ADDR, OP_SUB_INT_2ADDR, OP_MUL_INT_2ADDR,
     OP_AND_INT_2ADDR, OP_OR_INT_2ADDR, OP_XOR_INT_2ADDR, OP_SHL_INT_2ADDR, OP_SHR_INT_2ADDR,
     OP_USHR_INT_2ADDR, OP_ADD_LONG_2ADDR, OP_SUB_LONG_2ADDR, OP_MUL_LONG_2ADDR,
     OP_AND_LONG_2ADDR, OP_OR_LONG_2ADDR, OP_XOR_LONG_2ADDR, OP_SHL_LONG_2ADDR,
     OP_SHR_LONG_2ADDR, OP_USHR_LONG_2ADDR, OP_ADD_FLOAT_2ADDR, OP_SUB_FLOAT_2ADDR,
     OP_MUL_FLOAT_2ADDR, OP_DIV_FLOAT_2ADDR, OP_REM_FLOAT_2ADDR, OP_ADD_DOUBLE_2ADDR,
     OP_SUB_DOUBLE_2ADDR, OP_MUL_DOUBLE_2ADDR, OP_DIV_DOUBLE_2ADDR, OP_REM_DOUBLE_2ADDR,
     OP_ADD_INT_LIT16, OP_RSUB_INT, OP_MUL_INT_LIT16, OP_AND_INT_LIT16, OP_OR_INT_LIT16,
     OP_XOR_INT_LIT16, OP_ADD_INT_LIT8, OP_RSUB_INT_LIT8, OP_MUL_INT_LIT8, OP_AND_INT_LIT8,
     OP_OR_INT_LIT8, OP_XOR_INT_LIT8, OP_SHL_INT_LIT8, OP_SHR_INT_LIT8, OP_USHR_INT_LIT8]"

definition flags_ops_may_throw :: "OpCode list" where
  "flags_ops_may_throw =
    [OP_CONST_STRING, OP_CONST_STRING_JUMBO, OP_CONST_CLASS, OP_MONITOR_ENTER, OP_MONITOR_EXIT,
     OP_CHECK_CAST, OP_INSTANCE_OF, OP_ARRAY_LENGTH, OP_NEW_INSTANCE, OP_NEW_ARRAY,
     OP_FILLED_NEW_ARRAY, OP_FILLED_NEW_ARRAY_RANGE, OP_AGET, OP_AGET_BOOLEAN, OP_AGET_BYTE,
     OP_AGET_CHAR, OP_AGET_SHORT, OP_AGET_WIDE, OP_AGET_OBJECT, OP_APUT, OP_APUT_BOOLEAN,
     OP_APUT_BYTE, OP_APUT_CHAR, OP_APUT_SHORT, OP_APUT_WIDE, OP_APUT_OBJECT, OP_IGET,
     OP_IGET_BOOLEAN, OP_IGET_BYTE, OP_IGET_CHAR, OP_IGET_SHORT, OP_IGET_WIDE, OP_IGET_OBJECT,
     OP_IPUT, OP_IPUT_BOOLEAN, OP_IPUT_BYTE, OP_IPUT_CHAR, OP_IPUT_SHORT, OP_IPUT_WIDE,
     OP_IPUT_OBJECT, OP_SGET, OP_SGET_BOOLEAN, OP_SGET_BYTE, OP_SGET_CHAR, OP_SGET_SHORT,
     OP_SGET_WIDE, OP_SGET_OBJECT, OP_SPUT, OP_SPUT_BOOLEAN, OP_SPUT_BYTE, OP_SPUT_CHAR,
     OP_SPUT_SHORT, OP_SPUT_WIDE, OP_SPUT_OBJECT, OP_INVOKE_VIRTUAL, OP_INVOKE_VIRTUAL_RANGE,
     OP_INVOKE_SUPER, OP_INVOKE_SUPER_RANGE, OP_INVOKE_DIRECT, OP_INVOKE_DIRECT_RANGE,
     OP_INVOKE_STATIC, OP_INVOKE_STATIC_RANGE, OP_INVOKE_INTERFACE, OP_INVOKE_INTERFACE_RANGE,
     OP_DIV_INT, OP_REM_INT, OP_DIV_LONG, OP_REM_LONG, OP_DIV_INT_2ADDR, OP_REM_INT_2ADDR,
     OP_DIV_LONG_2ADDR, OP_REM_LONG_2ADDR, OP_DIV_INT_LIT16, OP_REM_INT_LIT16, OP_DIV_INT_LIT8,
     OP_REM_INT_LIT8]"

definition flags_ops_return :: "OpCode list" where
  "flags_ops_return =
    [OP_RETURN_VOID, OP_RETURN, OP_RETURN_WIDE, OP_RETURN_OBJECT]"

definition flags_ops_throw :: "OpCode list" where
  "flags_ops_throw =
    [OP_THROW]"

definition flags_ops_goto :: "OpCode list" where
  "flags_ops_goto =
    [OP_GOTO, OP_GOTO_16, OP_GOTO_32]"

definition flags_ops_if :: "OpCode list" where
  "flags_ops_if =
    [OP_IF_EQ, OP_IF_NE, OP_IF_LT, OP_IF_GE, OP_IF_GT, OP_IF_LE, OP_IF_EQZ, OP_IF_NEZ, OP_IF_LTZ,
     OP_IF_GEZ, OP_IF_GTZ, OP_IF_LEZ]"

definition flags_ops_switch :: "OpCode list" where
  "flags_ops_switch =
    [OP_PACKED_SWITCH, OP_SPARSE_SWITCH]"

definition flags_ops_inline :: "OpCode list" where
  "flags_ops_inline =
    [OP_EXECUTE_INLINE]"

definition flags_ops_quick :: "OpCode list" where
  "flags_ops_quick =
    [OP_IGET_QUICK, OP_IGET_WIDE_QUICK, OP_IGET_OBJECT_QUICK, OP_IPUT_QUICK, OP_IPUT_WIDE_QUICK,
     OP_IPUT_OBJECT_QUICK, OP_INVOKE_VIRTUAL_QUICK, OP_INVOKE_VIRTUAL_QUICK_RANGE,
     OP_INVOKE_SUPER_QUICK, OP_INVOKE_SUPER_QUICK_RANGE, OP_INVOKE_DIRECT_EMPTY]"

definition flags_ops_unused :: "OpCode list" where
  "flags_ops_unused =
    [OP_UNUSED_3E, OP_UNUSED_3F, OP_UNUSED_40, OP_UNUSED_41, OP_UNUSED_42, OP_UNUSED_43,
     OP_UNUSED_73, OP_UNUSED_79, OP_UNUSED_7A, OP_UNUSED_E3, OP_UNUSED_E4, OP_UNUSED_E5,
     OP_UNUSED_E6, OP_UNUSED_E7, OP_UNUSED_E8, OP_UNUSED_E9, OP_UNUSED_EA, OP_UNUSED_EB,
     OP_UNUSED_EC, OP_UNUSED_ED, OP_UNUSED_EF, OP_UNUSED_F1, OP_UNUSED_FC, OP_UNUSED_FD,
     OP_UNUSED_FE, OP_UNUSED_FF]"

subsection \<open>The arms of \<open>dexCreateInstrFormatTable\<close>\<close>

definition fmt_ops_10t :: "OpCode list" where
  "fmt_ops_10t =
    [OP_GOTO]"

definition fmt_ops_10x :: "OpCode list" where
  "fmt_ops_10x =
    [OP_NOP, OP_RETURN_VOID]"

definition fmt_ops_11n :: "OpCode list" where
  "fmt_ops_11n =
    [OP_CONST_4]"

definition fmt_ops_21h :: "OpCode list" where
  "fmt_ops_21h =
    [OP_CONST_HIGH16, OP_CONST_WIDE_HIGH16]"

definition fmt_ops_11x :: "OpCode list" where
  "fmt_ops_11x =
    [OP_MOVE_RESULT, OP_MOVE_RESULT_WIDE, OP_MOVE_RESULT_OBJECT, OP_MOVE_EXCEPTION, OP_RETURN,
     OP_RETURN_WIDE, OP_RETURN_OBJECT, OP_MONITOR_ENTER, OP_MONITOR_EXIT, OP_THROW]"

definition fmt_ops_12x :: "OpCode list" where
  "fmt_ops_12x =
    [OP_MOVE, OP_MOVE_WIDE, OP_MOVE_OBJECT, OP_ARRAY_LENGTH, OP_NEG_INT, OP_NOT_INT, OP_NEG_LONG,
     OP_NOT_LONG, OP_NEG_FLOAT, OP_NEG_DOUBLE, OP_INT_TO_LONG, OP_INT_TO_FLOAT, OP_INT_TO_DOUBLE,
     OP_LONG_TO_INT, OP_LONG_TO_FLOAT, OP_LONG_TO_DOUBLE, OP_FLOAT_TO_INT, OP_FLOAT_TO_LONG,
     OP_FLOAT_TO_DOUBLE, OP_DOUBLE_TO_INT, OP_DOUBLE_TO_LONG, OP_DOUBLE_TO_FLOAT, OP_INT_TO_BYTE,
     OP_INT_TO_CHAR, OP_INT_TO_SHORT, OP_ADD_INT_2ADDR, OP_SUB_INT_2ADDR, OP_MUL_INT_2ADDR,
     OP_DIV_INT_2ADDR, OP_REM_INT_2ADDR, OP_AND_INT_2ADDR, OP_OR_INT_2ADDR, OP_XOR_INT_2ADDR,
     OP_SHL_INT_2ADDR, OP_SHR_INT_2ADDR, OP_USHR_INT_2ADDR, OP_ADD_LONG_2ADDR, OP_SUB_LONG_2ADDR,
     OP_MUL_LONG_2ADDR, OP_DIV_LONG_2ADDR, OP_REM_LONG_2ADDR, OP_AND_LONG_2ADDR,
     OP_OR_LONG_2ADDR, OP_XOR_LONG_2ADDR, OP_SHL_LONG_2ADDR, OP_SHR_LONG_2ADDR,
     OP_USHR_LONG_2ADDR, OP_ADD_FLOAT_2ADDR, OP_SUB_FLOAT_2ADDR, OP_MUL_FLOAT_2ADDR,
     OP_DIV_FLOAT_2ADDR, OP_REM_FLOAT_2ADDR, OP_ADD_DOUBLE_2ADDR, OP_SUB_DOUBLE_2ADDR,
     OP_MUL_DOUBLE_2ADDR, OP_DIV_DOUBLE_2ADDR, OP_REM_DOUBLE_2ADDR]"

definition fmt_ops_20t :: "OpCode list" where
  "fmt_ops_20t =
    [OP_GOTO_16]"

definition fmt_ops_30t :: "OpCode list" where
  "fmt_ops_30t =
    [OP_GOTO_32]"

definition fmt_ops_21c :: "OpCode list" where
  "fmt_ops_21c =
    [OP_CONST_STRING, OP_CONST_CLASS, OP_CHECK_CAST, OP_NEW_INSTANCE, OP_SGET, OP_SGET_WIDE,
     OP_SGET_OBJECT, OP_SGET_BOOLEAN, OP_SGET_BYTE, OP_SGET_CHAR, OP_SGET_SHORT, OP_SPUT,
     OP_SPUT_WIDE, OP_SPUT_OBJECT, OP_SPUT_BOOLEAN, OP_SPUT_BYTE, OP_SPUT_CHAR, OP_SPUT_SHORT]"

definition fmt_ops_21s :: "OpCode list" where
  "fmt_ops_21s =
    [OP_CONST_16, OP_CONST_WIDE_16]"

definition fmt_ops_21t :: "OpCode list" where
  "fmt_ops_21t =
    [OP_IF_EQZ, OP_IF_NEZ, OP_IF_LTZ, OP_IF_GEZ, OP_IF_GTZ, OP_IF_LEZ]"

definition fmt_ops_31t :: "OpCode list" where
  "fmt_ops_31t =
    [OP_FILL_ARRAY_DATA, OP_PACKED_SWITCH, OP_SPARSE_SWITCH]"

definition fmt_ops_22b :: "OpCode list" where
  "fmt_ops_22b =
    [OP_ADD_INT_LIT8, OP_RSUB_INT_LIT8, OP_MUL_INT_LIT8, OP_DIV_INT_LIT8, OP_REM_INT_LIT8,
     OP_AND_INT_LIT8, OP_OR_INT_LIT8, OP_XOR_INT_LIT8, OP_SHL_INT_LIT8, OP_SHR_INT_LIT8,
     OP_USHR_INT_LIT8]"

definition fmt_ops_22c :: "OpCode list" where
  "fmt_ops_22c =
    [OP_INSTANCE_OF, OP_NEW_ARRAY, OP_IGET, OP_IGET_WIDE, OP_IGET_OBJECT, OP_IGET_BOOLEAN,
     OP_IGET_BYTE, OP_IGET_CHAR, OP_IGET_SHORT, OP_IPUT, OP_IPUT_WIDE, OP_IPUT_OBJECT,
     OP_IPUT_BOOLEAN, OP_IPUT_BYTE, OP_IPUT_CHAR, OP_IPUT_SHORT]"

definition fmt_ops_22s :: "OpCode list" where
  "fmt_ops_22s =
    [OP_ADD_INT_LIT16, OP_RSUB_INT, OP_MUL_INT_LIT16, OP_DIV_INT_LIT16, OP_REM_INT_LIT16,
     OP_AND_INT_LIT16, OP_OR_INT_LIT16, OP_XOR_INT_LIT16]"

definition fmt_ops_22t :: "OpCode list" where
  "fmt_ops_22t =
    [OP_IF_EQ, OP_IF_NE, OP_IF_LT, OP_IF_GE, OP_IF_GT, OP_IF_LE]"

definition fmt_ops_22x :: "OpCode list" where
  "fmt_ops_22x =
    [OP_MOVE_FROM16, OP_MOVE_WIDE_FROM16, OP_MOVE_OBJECT_FROM16]"

definition fmt_ops_23x :: "OpCode list" where
  "fmt_ops_23x =
    [OP_CMPL_FLOAT, OP_CMPG_FLOAT, OP_CMPL_DOUBLE, OP_CMPG_DOUBLE, OP_CMP_LONG, OP_AGET,
     OP_AGET_WIDE, OP_AGET_OBJECT, OP_AGET_BOOLEAN, OP_AGET_BYTE, OP_AGET_CHAR, OP_AGET_SHORT,
     OP_APUT, OP_APUT_WIDE, OP_APUT_OBJECT, OP_APUT_BOOLEAN, OP_APUT_BYTE, OP_APUT_CHAR,
     OP_APUT_SHORT, OP_ADD_INT, OP_SUB_INT, OP_MUL_INT, OP_DIV_INT, OP_REM_INT, OP_AND_INT,
     OP_OR_INT, OP_XOR_INT, OP_SHL_INT, OP_SHR_INT, OP_USHR_INT, OP_ADD_LONG, OP_SUB_LONG,
     OP_MUL_LONG, OP_DIV_LONG, OP_REM_LONG, OP_AND_LONG, OP_OR_LONG, OP_XOR_LONG, OP_SHL_LONG,
     OP_SHR_LONG, OP_USHR_LONG, OP_ADD_FLOAT, OP_SUB_FLOAT, OP_MUL_FLOAT, OP_DIV_FLOAT,
     OP_REM_FLOAT, OP_ADD_DOUBLE, OP_SUB_DOUBLE, OP_MUL_DOUBLE, OP_DIV_DOUBLE, OP_REM_DOUBLE]"

definition fmt_ops_31i :: "OpCode list" where
  "fmt_ops_31i =
    [OP_CONST, OP_CONST_WIDE_32]"

definition fmt_ops_31c :: "OpCode list" where
  "fmt_ops_31c =
    [OP_CONST_STRING_JUMBO]"

definition fmt_ops_32x :: "OpCode list" where
  "fmt_ops_32x =
    [OP_MOVE_16, OP_MOVE_WIDE_16, OP_MOVE_OBJECT_16]"

definition fmt_ops_35c :: "OpCode list" where
  "fmt_ops_35c =
    [OP_FILLED_NEW_ARRAY, OP_INVOKE_VIRTUAL, OP_INVOKE_SUPER, OP_INVOKE_DIRECT, OP_INVOKE_STATIC,
     OP_INVOKE_INTERFACE]"

definition fmt_ops_3rc :: "OpCode list" where
  "fmt_ops_3rc =
    [OP_FILLED_NEW_ARRAY_RANGE, OP_INVOKE_VIRTUAL_RANGE, OP_INVOKE_SUPER_RANGE,
     OP_INVOKE_DIRECT_RANGE, OP_INVOKE_STATIC_RANGE, OP_INVOKE_INTERFACE_RANGE]"

definition fmt_ops_51l :: "OpCode list" where
  "fmt_ops_51l =
    [OP_CONST_WIDE]"

definition fmt_ops_22cs :: "OpCode list" where
  "fmt_ops_22cs =
    [OP_IGET_QUICK, OP_IGET_WIDE_QUICK, OP_IGET_OBJECT_QUICK, OP_IPUT_QUICK, OP_IPUT_WIDE_QUICK,
     OP_IPUT_OBJECT_QUICK]"

definition fmt_ops_35ms :: "OpCode list" where
  "fmt_ops_35ms =
    [OP_INVOKE_VIRTUAL_QUICK, OP_INVOKE_SUPER_QUICK]"

definition fmt_ops_3rms :: "OpCode list" where
  "fmt_ops_3rms =
    [OP_INVOKE_VIRTUAL_QUICK_RANGE, OP_INVOKE_SUPER_QUICK_RANGE]"

definition fmt_ops_3inline :: "OpCode list" where
  "fmt_ops_3inline =
    [OP_EXECUTE_INLINE]"

definition fmt_ops_35c_empty :: "OpCode list" where
  "fmt_ops_35c_empty =
    [OP_INVOKE_DIRECT_EMPTY]"

definition fmt_ops_unknown :: "OpCode list" where
  "fmt_ops_unknown =
    [OP_UNUSED_3E, OP_UNUSED_3F, OP_UNUSED_40, OP_UNUSED_41, OP_UNUSED_42, OP_UNUSED_43,
     OP_UNUSED_73, OP_UNUSED_79, OP_UNUSED_7A, OP_UNUSED_E3, OP_UNUSED_E4, OP_UNUSED_E5,
     OP_UNUSED_E6, OP_UNUSED_E7, OP_UNUSED_E8, OP_UNUSED_E9, OP_UNUSED_EA, OP_UNUSED_EB,
     OP_UNUSED_EC, OP_UNUSED_ED, OP_UNUSED_EF, OP_UNUSED_F1, OP_UNUSED_FC, OP_UNUSED_FD,
     OP_UNUSED_FE, OP_UNUSED_FF]"

lemmas [arm_simps] =
  width_ops_1_def width_ops_2_def width_ops_3_def width_ops_5_def width_ops_opt2_def
  width_ops_opt3_def width_ops_unused_def flags_ops_plain_def flags_ops_may_throw_def
  flags_ops_return_def flags_ops_throw_def flags_ops_goto_def flags_ops_if_def
  flags_ops_switch_def flags_ops_inline_def flags_ops_quick_def flags_ops_unused_def
  fmt_ops_10t_def fmt_ops_10x_def fmt_ops_11n_def fmt_ops_21h_def fmt_ops_11x_def fmt_ops_12x_def
  fmt_ops_20t_def fmt_ops_30t_def fmt_ops_21c_def fmt_ops_21s_def fmt_ops_21t_def fmt_ops_31t_def
  fmt_ops_22b_def fmt_ops_22c_def fmt_ops_22s_def fmt_ops_22t_def fmt_ops_22x_def fmt_ops_23x_def
  fmt_ops_31i_def fmt_ops_31c_def fmt_ops_32x_def fmt_ops_35c_def fmt_ops_3rc_def fmt_ops_51l_def
  fmt_ops_22cs_def fmt_ops_35ms_def fmt_ops_3rms_def fmt_ops_3inline_def fmt_ops_35c_empty_def
  fmt_ops_unknown_def

text \<open>The value one round of each loop stores for \<open>opc\<close>.\<close>

definition instr_width_of :: "OpCode \<Rightarrow> int" where
  "instr_width_of opc =
     (if opc \<in> set width_ops_1 then 1
      else if opc \<in> set width_ops_2 then 2
      else if opc \<in> set width_ops_3 then 3
      else if opc \<in> set width_ops_5 then 5
      else if opc \<in> set width_ops_opt2 then -2
      else if opc \<in> set width_ops_opt3 then -3
      else 0)"

definition instr_flags_of :: "OpCode \<Rightarrow> InstructionFlags" where
  "instr_flags_of opc =
     (if opc \<in> set flags_ops_plain then kInstrCanContinue
      else if opc \<in> set flags_ops_may_throw then kInstrCanContinue OR kInstrCanThrow
      else if opc \<in> set flags_ops_return then kInstrCanReturn
      else if opc \<in> set flags_ops_throw then kInstrCanThrow
      else if opc \<in> set flags_ops_goto then kInstrCanBranch
      else if opc \<in> set flags_ops_if then kInstrCanBranch OR kInstrCanContinue
      else if opc \<in> set flags_ops_switch then kInstrCanSwitch OR kInstrCanContinue
      else if opc \<in> set flags_ops_inline then kInstrCanContinue
      else if opc \<in> set flags_ops_quick then kInstrCanContinue OR kInstrCanThrow
      else 0)"

definition instr_format_of :: "OpCode \<Rightarrow> InstructionFormat" where
  "instr_format_of opc =
     (if opc \<in> set fmt_ops_10t then kFmt10t
      else if opc \<in> set fmt_ops_10x then kFmt10x
      else if opc \<in> set fmt_ops_11n then kFmt11n
      else if opc \<in> set fmt_ops_21h then kFmt21h
      else if opc \<in> set fmt_ops_11x then kFmt11x
      else if opc \<in> set fmt_ops_12x then kFmt12x
      else if opc \<in> set fmt_ops_20t then kFmt20t
      else if opc \<in> set fmt_ops_30t then kFmt30t
      else if opc \<in> set fmt_ops_21c then kFmt21c
      else if opc \<in> set fmt_ops_21s then kFmt21s
      else if opc \<in> set fmt_ops_21t then kFmt21t
      else if opc \<in> set fmt_ops_31t then kFmt31t
      else if opc \<in> set fmt_ops_22b then kFmt22b
      else if opc \<in> set fmt_ops_22c then kFmt22c
      else if opc \<in> set fmt_ops_22s then kFmt22s
      else if opc \<in> set fmt_ops_22t then kFmt22t
      else if opc \<in> set fmt_ops_22x then kFmt22x
      else if opc \<in> set fmt_ops_23x then kFmt23x
      else if opc \<in> set fmt_ops_31i then kFmt31i
      else if opc \<in> set fmt_ops_31c then kFmt31c
      else if opc \<in> set fmt_ops_32x then kFmt32x
      else if opc \<in> set fmt_ops_35c then kFmt35c
      else if opc \<in> set fmt_ops_3rc then kFmt3rc
      else if opc \<in> set fmt_ops_51l then kFmt51l
      else if opc \<in> set fmt_ops_22cs then kFmt22cs
      else if opc \<in> set fmt_ops_35ms then kFmt35ms
      else if opc \<in> set fmt_ops_3rms then kFmt3rms
      else if opc \<in> set fmt_ops_3inline then kFmt3inline
      else if opc \<in> set fmt_ops_35c_empty then kFmt35c
      else kFmtUnknown)"

text \<open>
  The generators. \<open>malloc_ok\<close> is whether the allocation of the table succeeds; the accessors index the
  table as the inline functions of the header do.
\<close>

definition dexCreateInstrWidthTable :: "bool \<Rightarrow> int list option" where
  "dexCreateInstrWidthTable malloc_ok =
     (if \<not> malloc_ok then None else Some (map instr_width_of [0..<kNumDalvikInstructions]))"

definition dexCreateInstrFlagsTable :: "bool \<Rightarrow> InstructionFlags list option" where
  "dexCreateInstrFlagsTable malloc_ok =
     (if \<not> malloc_ok then None else Some (map instr_flags_of [0..<kNumDalvikInstructions]))"

definition dexCreateInstrFormatTable :: "bool \<Rightarrow> InstructionFormat list option" where
  "dexCreateInstrFormatTable malloc_ok =
     (if \<not> malloc_ok then None else Some (map instr_format_of [0..<kNumDalvikInstructions]))"

definition dexGetInstrWidth :: "int list \<Rightarrow> OpCode \<Rightarrow> int" where
  "dexGetInstrWidth widths opc = widths ! opc"

definition dexGetInstrWidthAbs :: "int list \<Rightarrow> OpCode \<Rightarrow> int" where
  "dexGetInstrWidthAbs widths opc =
     (let val = dexGetInstrWidth widths opc in if val < 0 then - val else val)"

definition dexGetInstrFlags :: "InstructionFlags list \<Rightarrow> OpCode \<Rightarrow> InstructionFlags" where
  "dexGetInstrFlags flags opc = flags ! opc"

definition dexGetInstrFormat :: "InstructionFormat list \<Rightarrow> OpCode \<Rightarrow> InstructionFormat" where
  "dexGetInstrFormat fmts opc = fmts ! opc"

text \<open>The tables the VM installs in \<open>gDvm\<close> at start-up.\<close>

definition gDvm_instrWidth :: "int list" where
  "gDvm_instrWidth = map instr_width_of [0..<kNumDalvikInstructions]"

definition gDvm_instrFlags :: "InstructionFlags list" where
  "gDvm_instrFlags = map instr_flags_of [0..<kNumDalvikInstructions]"

definition gDvm_instrFormat :: "InstructionFormat list" where
  "gDvm_instrFormat = map instr_format_of [0..<kNumDalvikInstructions]"

lemma instr_tables_nth [simp]:
  assumes "opc < 256"
  shows "dexGetInstrWidth gDvm_instrWidth opc = instr_width_of opc"
    and "dexGetInstrFlags gDvm_instrFlags opc = instr_flags_of opc"
    and "dexGetInstrFormat gDvm_instrFormat opc = instr_format_of opc"
  using assms
  by (simp_all add: dexGetInstrWidth_def dexGetInstrFlags_def dexGetInstrFormat_def
      gDvm_instrWidth_def gDvm_instrFlags_def gDvm_instrFormat_def)

lemma width_abs_table [simp]:
  "opc < 256 \<Longrightarrow> dexGetInstrWidthAbs gDvm_instrWidth opc = \<bar>instr_width_of opc\<bar>"
  by (simp add: dexGetInstrWidthAbs_def Let_def)

section \<open>The tables agree\<close>

text \<open>The number of code units each format occupies, by the digit that starts its name.\<close>

fun format_units :: "InstructionFormat \<Rightarrow> int" where
  "format_units kFmtUnknown = 0"
| "format_units kFmt10x = 1" | "format_units kFmt12x = 1" | "format_units kFmt11n = 1"
| "format_units kFmt11x = 1" | "format_units kFmt10t = 1"
| "format_units kFmt20t = 2" | "format_units kFmt22x = 2" | "format_units kFmt21t = 2"
| "format_units kFmt21s = 2" | "format_units kFmt21h = 2" | "format_units kFmt21c = 2"
| "format_units kFmt23x = 2" | "format_units kFmt22b = 2" | "format_units kFmt22t = 2"
| "format_units kFmt22s = 2" | "format_units kFmt22c = 2" | "format_units kFmt22cs = 2"
| "format_units kFmt32x = 3" | "format_units kFmt30t = 3" | "format_units kFmt31t = 3"
| "format_units kFmt31i = 3" | "format_units kFmt31c = 3" | "format_units kFmt35c = 3"
| "format_units kFmt35ms = 3" | "format_units kFmt35fs = 3" | "format_units kFmt3rc = 3"
| "format_units kFmt3rms = 3" | "format_units kFmt3rfs = 3" | "format_units kFmt3inline = 3"
| "format_units kFmt51l = 5"

definition branch_formats :: "InstructionFormat list" where
  "branch_formats = [kFmt10t, kFmt20t, kFmt30t, kFmt21t, kFmt22t]"

lemma all_opcodes:
  "[0..<256] =
     [0, 1, 2, 3, 4, 5, 6, 7, 8, 9, 10, 11, 12, 13, 14, 15, 16, 17, 18, 19, 20, 21, 22, 23, 24,
      25, 26, 27, 28, 29, 30, 31, 32, 33, 34, 35, 36, 37, 38, 39, 40, 41, 42, 43, 44, 45, 46, 47,
      48, 49, 50, 51, 52, 53, 54, 55, 56, 57, 58, 59, 60, 61, 62, 63, 64, 65, 66, 67, 68, 69, 70,
      71, 72, 73, 74, 75, 76, 77, 78, 79, 80, 81, 82, 83, 84, 85, 86, 87, 88, 89, 90, 91, 92, 93,
      94, 95, 96, 97, 98, 99, 100, 101, 102, 103, 104, 105, 106, 107, 108, 109, 110, 111, 112,
      113, 114, 115, 116, 117, 118, 119, 120, 121, 122, 123, 124, 125, 126, 127, 128, 129, 130,
      131, 132, 133, 134, 135, 136, 137, 138, 139, 140, 141, 142, 143, 144, 145, 146, 147, 148,
      149, 150, 151, 152, 153, 154, 155, 156, 157, 158, 159, 160, 161, 162, 163, 164, 165, 166,
      167, 168, 169, 170, 171, 172, 173, 174, 175, 176, 177, 178, 179, 180, 181, 182, 183, 184,
      185, 186, 187, 188, 189, 190, 191, 192, 193, 194, 195, 196, 197, 198, 199, 200, 201, 202,
      203, 204, 205, 206, 207, 208, 209, 210, 211, 212, 213, 214, 215, 216, 217, 218, 219, 220,
      221, 222, 223, 224, 225, 226, 227, 228, 229, 230, 231, 232, 233, 234, 235, 236, 237, 238,
      239, 240, 241, 242, 243, 244, 245, 246, 247, 248, 249, 250, 251, 252, 253, 254, 255]"
  by (simp add: upt_conv_Cons del: upt_rec_numeral)

lemmas member_numeral_simps =
  list.set insert_iff empty_iff simp_thms if_True if_False
  numeral_eq_iff num.distinct num.inject zero_neq_numeral numeral_neq_zero
  one_eq_numeral_iff numeral_eq_one_iff zero_neq_one one_neq_zero

lemma flag_values:
  "kInstrCanContinue = 2" "kInstrCanReturn = 16" "kInstrCanThrow = 8" "kInstrCanBranch = 1"
  "kInstrCanSwitch = 4" "2 OR 8 = (10::u1)" "1 OR 2 = (3::u1)" "4 OR 2 = (6::u1)"
  by (simp_all add: flag_defs)

text \<open>The three tables, evaluated: the switches assign one value to every opcode.\<close>

lemma width_table_eq:
  "map instr_width_of [0..<256] =
     [1, 1, 2, 3, 1, 2, 3, 1, 2, 3, 1, 1, 1, 1, 1, 1, 1, 1, 1, 2, 3, 2, 2, 3, 5, 2, 2, 3, 2, 1,
      1, 2, 2, 1, 2, 2, 3, 3, 3, 1, 1, 2, 3, 3, 3, 2, 2, 2, 2, 2, 2, 2, 2, 2, 2, 2, 2, 2, 2, 2,
      2, 2, 0, 0, 0, 0, 0, 0, 2, 2, 2, 2, 2, 2, 2, 2, 2, 2, 2, 2, 2, 2, 2, 2, 2, 2, 2, 2, 2, 2,
      2, 2, 2, 2, 2, 2, 2, 2, 2, 2, 2, 2, 2, 2, 2, 2, 2, 2, 2, 2, 3, 3, 3, 3, 3, 0, 3, 3, 3, 3,
      3, 0, 0, 1, 1, 1, 1, 1, 1, 1, 1, 1, 1, 1, 1, 1, 1, 1, 1, 1, 1, 1, 1, 1, 2, 2, 2, 2, 2, 2,
      2, 2, 2, 2, 2, 2, 2, 2, 2, 2, 2, 2, 2, 2, 2, 2, 2, 2, 2, 2, 2, 2, 2, 2, 2, 2, 1, 1, 1, 1,
      1, 1, 1, 1, 1, 1, 1, 1, 1, 1, 1, 1, 1, 1, 1, 1, 1, 1, 1, 1, 1, 1, 1, 1, 1, 1, 1, 1, 2, 2,
      2, 2, 2, 2, 2, 2, 2, 2, 2, 2, 2, 2, 2, 2, 2, 2, 2, 0, 0, 0, 0, 0, 0, 0, 0, 0, 0, 0, -3, 0,
      -3, 0, -2, -2, -2, -2, -2, -2, -3, -3, -3, -3, 0, 0, 0, 0]"
  by (simp only: all_opcodes list.map instr_width_of_def arm_simps member_numeral_simps)

lemma flags_table_eq:
  "map instr_flags_of [0..<256] =
     [2, 2, 2, 2, 2, 2, 2, 2, 2, 2, 2, 2, 2, 2, 16, 16, 16, 16, 2, 2, 2, 2, 2, 2, 2, 2, 10, 10,
      10, 10, 10, 10, 10, 10, 10, 10, 10, 10, 2, 8, 1, 1, 1, 6, 6, 2, 2, 2, 2, 2, 3, 3, 3, 3, 3,
      3, 3, 3, 3, 3, 3, 3, 0, 0, 0, 0, 0, 0, 10, 10, 10, 10, 10, 10, 10, 10, 10, 10, 10, 10, 10,
      10, 10, 10, 10, 10, 10, 10, 10, 10, 10, 10, 10, 10, 10, 10, 10, 10, 10, 10, 10, 10, 10, 10,
      10, 10, 10, 10, 10, 10, 10, 10, 10, 10, 10, 0, 10, 10, 10, 10, 10, 0, 0, 2, 2, 2, 2, 2, 2,
      2, 2, 2, 2, 2, 2, 2, 2, 2, 2, 2, 2, 2, 2, 2, 2, 2, 2, 10, 10, 2, 2, 2, 2, 2, 2, 2, 2, 2,
      10, 10, 2, 2, 2, 2, 2, 2, 2, 2, 2, 2, 2, 2, 2, 2, 2, 2, 2, 2, 2, 10, 10, 2, 2, 2, 2, 2, 2,
      2, 2, 2, 10, 10, 2, 2, 2, 2, 2, 2, 2, 2, 2, 2, 2, 2, 2, 2, 2, 2, 2, 2, 2, 10, 10, 2, 2, 2,
      2, 2, 2, 10, 10, 2, 2, 2, 2, 2, 2, 0, 0, 0, 0, 0, 0, 0, 0, 0, 0, 0, 2, 0, 10, 0, 10, 10,
      10, 10, 10, 10, 10, 10, 10, 10, 0, 0, 0, 0]"
  by (simp only: all_opcodes list.map instr_flags_of_def flag_values arm_simps member_numeral_simps)

lemma format_table_eq:
  "map instr_format_of [0..<256] =
     [kFmt10x, kFmt12x, kFmt22x, kFmt32x, kFmt12x, kFmt22x, kFmt32x, kFmt12x, kFmt22x, kFmt32x,
      kFmt11x, kFmt11x, kFmt11x, kFmt11x, kFmt10x, kFmt11x, kFmt11x, kFmt11x, kFmt11n, kFmt21s,
      kFmt31i, kFmt21h, kFmt21s, kFmt31i, kFmt51l, kFmt21h, kFmt21c, kFmt31c, kFmt21c, kFmt11x,
      kFmt11x, kFmt21c, kFmt22c, kFmt12x, kFmt21c, kFmt22c, kFmt35c, kFmt3rc, kFmt31t, kFmt11x,
      kFmt10t, kFmt20t, kFmt30t, kFmt31t, kFmt31t, kFmt23x, kFmt23x, kFmt23x, kFmt23x, kFmt23x,
      kFmt22t, kFmt22t, kFmt22t, kFmt22t, kFmt22t, kFmt22t, kFmt21t, kFmt21t, kFmt21t, kFmt21t,
      kFmt21t, kFmt21t, kFmtUnknown, kFmtUnknown, kFmtUnknown, kFmtUnknown, kFmtUnknown,
      kFmtUnknown, kFmt23x, kFmt23x, kFmt23x, kFmt23x, kFmt23x, kFmt23x, kFmt23x, kFmt23x,
      kFmt23x, kFmt23x, kFmt23x, kFmt23x, kFmt23x, kFmt23x, kFmt22c, kFmt22c, kFmt22c, kFmt22c,
      kFmt22c, kFmt22c, kFmt22c, kFmt22c, kFmt22c, kFmt22c, kFmt22c, kFmt22c, kFmt22c, kFmt22c,
      kFmt21c, kFmt21c, kFmt21c, kFmt21c, kFmt21c, kFmt21c, kFmt21c, kFmt21c, kFmt21c, kFmt21c,
      kFmt21c, kFmt21c, kFmt21c, kFmt21c, kFmt35c, kFmt35c, kFmt35c, kFmt35c, kFmt35c,
      kFmtUnknown, kFmt3rc, kFmt3rc, kFmt3rc, kFmt3rc, kFmt3rc, kFmtUnknown, kFmtUnknown,
      kFmt12x, kFmt12x, kFmt12x, kFmt12x, kFmt12x, kFmt12x, kFmt12x, kFmt12x, kFmt12x, kFmt12x,
      kFmt12x, kFmt12x, kFmt12x, kFmt12x, kFmt12x, kFmt12x, kFmt12x, kFmt12x, kFmt12x, kFmt12x,
      kFmt12x, kFmt23x, kFmt23x, kFmt23x, kFmt23x, kFmt23x, kFmt23x, kFmt23x, kFmt23x, kFmt23x,
      kFmt23x, kFmt23x, kFmt23x, kFmt23x, kFmt23x, kFmt23x, kFmt23x, kFmt23x, kFmt23x, kFmt23x,
      kFmt23x, kFmt23x, kFmt23x, kFmt23x, kFmt23x, kFmt23x, kFmt23x, kFmt23x, kFmt23x, kFmt23x,
      kFmt23x, kFmt23x, kFmt23x, kFmt12x, kFmt12x, kFmt12x, kFmt12x, kFmt12x, kFmt12x, kFmt12x,
      kFmt12x, kFmt12x, kFmt12x, kFmt12x, kFmt12x, kFmt12x, kFmt12x, kFmt12x, kFmt12x, kFmt12x,
      kFmt12x, kFmt12x, kFmt12x, kFmt12x, kFmt12x, kFmt12x, kFmt12x, kFmt12x, kFmt12x, kFmt12x,
      kFmt12x, kFmt12x, kFmt12x, kFmt12x, kFmt12x, kFmt22s, kFmt22s, kFmt22s, kFmt22s, kFmt22s,
      kFmt22s, kFmt22s, kFmt22s, kFmt22b, kFmt22b, kFmt22b, kFmt22b, kFmt22b, kFmt22b, kFmt22b,
      kFmt22b, kFmt22b, kFmt22b, kFmt22b, kFmtUnknown, kFmtUnknown, kFmtUnknown, kFmtUnknown,
      kFmtUnknown, kFmtUnknown, kFmtUnknown, kFmtUnknown, kFmtUnknown, kFmtUnknown, kFmtUnknown,
      kFmt3inline, kFmtUnknown, kFmt35c, kFmtUnknown, kFmt22cs, kFmt22cs, kFmt22cs, kFmt22cs,
      kFmt22cs, kFmt22cs, kFmt35ms, kFmt3rms, kFmt35ms, kFmt3rms, kFmtUnknown, kFmtUnknown,
      kFmtUnknown, kFmtUnknown]"
  by (simp only: all_opcodes list.map instr_format_of_def arm_simps member_numeral_simps)

text \<open>
  A relation between two entries of every opcode is checked on the evaluated tables.
\<close>

lemma map_upt_eq_iff: "map f [0..<n] = map g [0..<n] \<longleftrightarrow> (\<forall>i<n. f i = g i)"
  by auto

lemma width_of_format: "opc < 256 \<Longrightarrow> \<bar>instr_width_of opc\<bar> = format_units (instr_format_of opc)"
proof -
  have "map abs (map instr_width_of [0..<256]) = map format_units (map instr_format_of [0..<256])"
    unfolding width_table_eq format_table_eq by simp
  then show "opc < 256 \<Longrightarrow> ?thesis"
    by (simp add: map_upt_eq_iff)
qed

lemma flags_zero_iff: "opc < 256 \<Longrightarrow> (instr_flags_of opc = 0) = (instr_width_of opc = 0)"
proof -
  have "map (\<lambda>f. f = 0) (map instr_flags_of [0..<256])
      = map (\<lambda>w. w = 0) (map instr_width_of [0..<256])"
    unfolding width_table_eq flags_table_eq by simp
  then show "opc < 256 \<Longrightarrow> ?thesis"
    by (simp add: map_upt_eq_iff)
qed

lemma branch_flag_iff:
  "opc < 256 \<Longrightarrow> (instr_flags_of opc AND kInstrCanBranch \<noteq> 0)
     = (instr_format_of opc \<in> set branch_formats)"
proof -
  have "map (\<lambda>f. f AND kInstrCanBranch \<noteq> 0) (map instr_flags_of [0..<256])
      = map (\<lambda>f. f \<in> set branch_formats) (map instr_format_of [0..<256])"
    unfolding format_table_eq flags_table_eq by (simp add: flag_defs branch_formats_def)
  then show "opc < 256 \<Longrightarrow> ?thesis"
    by (simp add: map_upt_eq_iff)
qed

text \<open>C21 (the hand-kept instruction tables agree). For every opcode the width the verifier and the
  optimizer step by is the number of code units of the format the decoder uses for it; an opcode has flags
  exactly when it has a width and a known format; the \<open>kInstrCanBranch\<close> bit is set exactly for the
  formats that carry a branch offset; and widths stay between -3 and 5.\<close>

theorem instr_tables_agree:
  assumes "opc < kNumDalvikInstructions"
  shows "dexGetInstrWidthAbs gDvm_instrWidth opc
           = format_units (dexGetInstrFormat gDvm_instrFormat opc)
       \<and> (dexGetInstrFlags gDvm_instrFlags opc = 0
           \<longleftrightarrow> dexGetInstrFormat gDvm_instrFormat opc = kFmtUnknown)
       \<and> (dexGetInstrFlags gDvm_instrFlags opc AND kInstrCanBranch \<noteq> 0
           \<longleftrightarrow> dexGetInstrFormat gDvm_instrFormat opc \<in> set branch_formats)
       \<and> dexGetInstrWidth gDvm_instrWidth opc \<in> {-3..5}"
proof (intro conjI)
  show w: "dexGetInstrWidthAbs gDvm_instrWidth opc
           = format_units (dexGetInstrFormat gDvm_instrFormat opc)"
    using assms by (simp add: width_of_format)
  have "format_units f = 0 \<longleftrightarrow> f = kFmtUnknown" for f
    by (cases f) simp_all
  then have "instr_width_of opc = 0 \<longleftrightarrow> instr_format_of opc = kFmtUnknown"
    using width_of_format [OF assms] by (metis abs_eq_0)
  then show "dexGetInstrFlags gDvm_instrFlags opc = 0
           \<longleftrightarrow> dexGetInstrFormat gDvm_instrFormat opc = kFmtUnknown"
    using assms by (simp add: flags_zero_iff)
  show "dexGetInstrFlags gDvm_instrFlags opc AND kInstrCanBranch \<noteq> 0
           \<longleftrightarrow> dexGetInstrFormat gDvm_instrFormat opc \<in> set branch_formats"
    using assms by (simp add: branch_flag_iff)
  show "dexGetInstrWidth gDvm_instrWidth opc \<in> {-3..5}"
    using assms by (simp add: instr_width_of_def)
qed

theorem instr_tables_agree_witness:
  "(144::nat) < kNumDalvikInstructions
   \<and> dexGetInstrWidthAbs gDvm_instrWidth OP_ADD_INT
       = format_units (dexGetInstrFormat gDvm_instrFormat OP_ADD_INT)
   \<and> dexGetInstrWidthAbs gDvm_instrWidth OP_ADD_INT = 2"
  using instr_tables_agree [of OP_ADD_INT] by (simp add: instr_width_of_def arm_simps)

end
