(* ===== verification/InstrDecode.thy ===== *)
theory InstrDecode
  imports InstrTables
begin

text \<open>
  The instruction decoder of \<^verbatim>\<open>src/libdex/InstrUtils.c\<close>: the field macros, the decoded record, the
  function \<open>dexDecodeInstruction\<close> with every format, and the width of the payload tables
  (\<open>dexGetInstrOrTableWidthAbs\<close>). The lemmas show that decoding stays inside the instruction, that it never fails on a
  defined opcode, and that the fields it extracts determine the code units.
\<close>

section \<open>Field extraction\<close>

definition INST_INST :: "u2 \<Rightarrow> OpCode" where
  "INST_INST inst = unat (inst AND 0xff)"

definition INST_A :: "u2 \<Rightarrow> u2" where
  "INST_A inst = drop_bit 8 inst AND 0x0f"

definition INST_B :: "u2 \<Rightarrow> u2" where
  "INST_B inst = drop_bit 12 inst"

definition INST_AA :: "u2 \<Rightarrow> u2" where
  "INST_AA inst = drop_bit 8 inst"

definition FETCH :: "u2 list \<Rightarrow> int \<Rightarrow> u2 outcome" where
  "FETCH insns offset = (case read_at insns offset of None \<Rightarrow> OutOfBounds | Some w \<Rightarrow> Ret w)"

lemma FETCH_in [simp]: "0 \<le> i \<Longrightarrow> i < int (length insns) \<Longrightarrow> FETCH insns i = Ret (insns ! nat i)"
  by (simp add: FETCH_def read_at_def)

lemma FETCH_Ret [simp]:
  "FETCH insns i = Ret w \<longleftrightarrow> 0 \<le> i \<and> i < int (length insns) \<and> insns ! nat i = w"
  by (auto simp: FETCH_def split: option.splits)

lemma INST_INST_less [simp]: "INST_INST inst < 256"
proof -
  have "inst AND 0xff \<le> 0xff" by (rule word_and_le1)
  then have "unat (inst AND 0xff) \<le> unat (0xff :: u2)"
    by (simp only: word_le_nat_alt)
  then show ?thesis by (simp add: INST_INST_def)
qed

record DecodedInstruction =
  vA :: u4
  vB :: u4
  vB_wide :: u8
  vC :: u4
  arg :: "u4 list"
  opCode :: OpCode

text \<open>
  The loop that copies \<open>count\<close> four-bit register numbers out of \<open>regList\<close> into \<open>arg\<close>.
\<close>

fun fill_args :: "nat \<Rightarrow> nat \<Rightarrow> u2 \<Rightarrow> u4 list \<Rightarrow> u4 list" where
  "fill_args i 0 regList args = args"
| "fill_args i (Suc n) regList args =
     fill_args (Suc i) n (drop_bit 4 regList) (args[i := ucast (regList AND 0x0f)])"

text \<open>\<open>pDec->vC = pDec->arg[0]\<close> when there is an argument.\<close>

definition copy_arg0 :: "DecodedInstruction \<Rightarrow> DecodedInstruction" where
  "copy_arg0 d = (if vA d > 0 then d\<lparr>vC := arg d ! 0\<rparr> else d)"

text \<open>The arms \<open>kFmt35c\<close>/\<open>kFmt35ms\<close> and \<open>kFmt3inline\<close> after the two fetches; \<open>goto bail\<close> returns what is filled in so far.\<close>

definition decode_35c :: "u2 \<Rightarrow> u2 \<Rightarrow> u2 \<Rightarrow> DecodedInstruction \<Rightarrow> DecodedInstruction" where
  "decode_35c inst w1 regList d =
     (let d = d\<lparr>vA := ucast (INST_B inst), vB := ucast w1\<rparr>
      in if vA d > 5 then d
         else let count = unat (vA d);
                  d = (if count = 5 then d\<lparr>arg := (arg d)[4 := ucast (INST_A inst)]\<rparr> else d);
                  count = (if count = 5 then 4 else count)
              in copy_arg0 (d\<lparr>arg := fill_args 0 count regList (arg d)\<rparr>))"

definition decode_3inline :: "u2 \<Rightarrow> u2 \<Rightarrow> u2 \<Rightarrow> DecodedInstruction \<Rightarrow> DecodedInstruction" where
  "decode_3inline inst w1 regList d =
     (let d = d\<lparr>vA := ucast (INST_B inst), vB := ucast w1\<rparr>
      in if vA d > 4 then d
         else copy_arg0 (d\<lparr>arg := fill_args 0 (unat (vA d)) regList (arg d)\<rparr>))"

text \<open>
  \<open>decode_fields\<close> is the \<open>switch\<close> of \<open>dexDecodeInstruction\<close>. The casts \<open>(s1)\<close>, \<open>(s2)\<close> and the shift pair of
  \<open>kFmt11n\<close> are sign extensions into the \<open>u4\<close> field; \<open>assert(false)\<close> and the default arm stop the VM.
\<close>

definition decode_fields ::
  "InstructionFormat \<Rightarrow> u2 list \<Rightarrow> u2 \<Rightarrow> DecodedInstruction \<Rightarrow> DecodedInstruction outcome" where
  "decode_fields fmt insns inst d =
     (let AA = ucast (INST_AA inst); A = ucast (INST_A inst); B = ucast (INST_B inst) in
      case fmt of
        kFmt10x \<Rightarrow> Ret (d\<lparr>vA := AA\<rparr>)
      | kFmt12x \<Rightarrow> Ret (d\<lparr>vA := A, vB := B\<rparr>)
      | kFmt11n \<Rightarrow> Ret (d\<lparr>vA := A, vB := signed_drop_bit 28 (push_bit 28 B)\<rparr>)
      | kFmt11x \<Rightarrow> Ret (d\<lparr>vA := AA\<rparr>)
      | kFmt10t \<Rightarrow> Ret (d\<lparr>vA := scast (ucast (INST_AA inst) :: u1)\<rparr>)
      | kFmt20t \<Rightarrow> bind_out (FETCH insns 1) (\<lambda>w1. Ret (d\<lparr>vA := scast w1\<rparr>))
      | kFmt21c \<Rightarrow> bind_out (FETCH insns 1) (\<lambda>w1. Ret (d\<lparr>vA := AA, vB := ucast w1\<rparr>))
      | kFmt22x \<Rightarrow> bind_out (FETCH insns 1) (\<lambda>w1. Ret (d\<lparr>vA := AA, vB := ucast w1\<rparr>))
      | kFmt21s \<Rightarrow> bind_out (FETCH insns 1) (\<lambda>w1. Ret (d\<lparr>vA := AA, vB := scast w1\<rparr>))
      | kFmt21t \<Rightarrow> bind_out (FETCH insns 1) (\<lambda>w1. Ret (d\<lparr>vA := AA, vB := scast w1\<rparr>))
      | kFmt21h \<Rightarrow> bind_out (FETCH insns 1) (\<lambda>w1. Ret (d\<lparr>vA := AA, vB := ucast w1\<rparr>))
      | kFmt23x \<Rightarrow> bind_out (FETCH insns 1)
          (\<lambda>w1. Ret (d\<lparr>vA := AA, vB := ucast (w1 AND 0xff), vC := ucast (drop_bit 8 w1)\<rparr>))
      | kFmt22b \<Rightarrow> bind_out (FETCH insns 1)
          (\<lambda>w1. Ret (d\<lparr>vA := AA, vB := ucast (w1 AND 0xff),
                      vC := scast (ucast (drop_bit 8 w1) :: u1)\<rparr>))
      | kFmt22s \<Rightarrow> bind_out (FETCH insns 1) (\<lambda>w1. Ret (d\<lparr>vA := A, vB := B, vC := scast w1\<rparr>))
      | kFmt22t \<Rightarrow> bind_out (FETCH insns 1) (\<lambda>w1. Ret (d\<lparr>vA := A, vB := B, vC := scast w1\<rparr>))
      | kFmt22c \<Rightarrow> bind_out (FETCH insns 1) (\<lambda>w1. Ret (d\<lparr>vA := A, vB := B, vC := ucast w1\<rparr>))
      | kFmt22cs \<Rightarrow> bind_out (FETCH insns 1) (\<lambda>w1. Ret (d\<lparr>vA := A, vB := B, vC := ucast w1\<rparr>))
      | kFmt30t \<Rightarrow> bind_out (FETCH insns 1) (\<lambda>w1. bind_out (FETCH insns 2)
          (\<lambda>w2. Ret (d\<lparr>vA := ucast w1 OR push_bit 16 (ucast w2)\<rparr>)))
      | kFmt31t \<Rightarrow> bind_out (FETCH insns 1) (\<lambda>w1. bind_out (FETCH insns 2)
          (\<lambda>w2. Ret (d\<lparr>vA := AA, vB := ucast w1 OR push_bit 16 (ucast w2)\<rparr>)))
      | kFmt31c \<Rightarrow> bind_out (FETCH insns 1) (\<lambda>w1. bind_out (FETCH insns 2)
          (\<lambda>w2. Ret (d\<lparr>vA := AA, vB := ucast w1 OR push_bit 16 (ucast w2)\<rparr>)))
      | kFmt32x \<Rightarrow> bind_out (FETCH insns 1) (\<lambda>w1. bind_out (FETCH insns 2)
          (\<lambda>w2. Ret (d\<lparr>vA := ucast w1, vB := ucast w2\<rparr>)))
      | kFmt31i \<Rightarrow> bind_out (FETCH insns 1) (\<lambda>w1. bind_out (FETCH insns 2)
          (\<lambda>w2. Ret (d\<lparr>vA := AA, vB := ucast w1 OR push_bit 16 (ucast w2)\<rparr>)))
      | kFmt35c \<Rightarrow> bind_out (FETCH insns 1) (\<lambda>w1. bind_out (FETCH insns 2)
          (\<lambda>w2. Ret (decode_35c inst w1 w2 d)))
      | kFmt35ms \<Rightarrow> bind_out (FETCH insns 1) (\<lambda>w1. bind_out (FETCH insns 2)
          (\<lambda>w2. Ret (decode_35c inst w1 w2 d)))
      | kFmt3inline \<Rightarrow> bind_out (FETCH insns 1) (\<lambda>w1. bind_out (FETCH insns 2)
          (\<lambda>w2. Ret (decode_3inline inst w1 w2 d)))
      | kFmt35fs \<Rightarrow> AbortVM
      | kFmt3rc \<Rightarrow> bind_out (FETCH insns 1) (\<lambda>w1. bind_out (FETCH insns 2)
          (\<lambda>w2. Ret (d\<lparr>vA := AA, vB := ucast w1, vC := ucast w2\<rparr>)))
      | kFmt3rms \<Rightarrow> bind_out (FETCH insns 1) (\<lambda>w1. bind_out (FETCH insns 2)
          (\<lambda>w2. Ret (d\<lparr>vA := AA, vB := ucast w1, vC := ucast w2\<rparr>)))
      | kFmt3rfs \<Rightarrow> AbortVM
      | kFmt51l \<Rightarrow> bind_out (FETCH insns 1) (\<lambda>w1. bind_out (FETCH insns 2) (\<lambda>w2.
          bind_out (FETCH insns 3) (\<lambda>w3. bind_out (FETCH insns 4) (\<lambda>w4.
          Ret (d\<lparr>vA := AA, vB_wide := ucast w1 OR push_bit 16 (ucast w2)
                    OR push_bit 32 (ucast w3) OR push_bit 48 (ucast w4)\<rparr>)))))
      | kFmtUnknown \<Rightarrow> AbortVM)"

definition dexDecodeInstruction ::
  "InstructionFormat list \<Rightarrow> u2 list \<Rightarrow> DecodedInstruction \<Rightarrow> DecodedInstruction outcome" where
  "dexDecodeInstruction fmts insns pDec =
     bind_out (FETCH insns 0) (\<lambda>inst.
       let d = pDec\<lparr>opCode := INST_INST inst\<rparr>
       in decode_fields (dexGetInstrFormat fmts (opCode d)) insns inst d)"

text \<open>
  The width of an instruction or of a payload table. The array-data width is computed in \<open>u4\<close> and
  converted to \<open>int\<close>.
\<close>

definition dexGetInstrOrTableWidthAbs :: "int list \<Rightarrow> u2 list \<Rightarrow> int outcome" where
  "dexGetInstrOrTableWidthAbs widths insns =
     bind_out (FETCH insns 0) (\<lambda>w0.
       if w0 = kPackedSwitchSignature then
         bind_out (FETCH insns 1) (\<lambda>w1. Ret (4 + uint w1 * 2))
       else if w0 = kSparseSwitchSignature then
         bind_out (FETCH insns 1) (\<lambda>w1. Ret (2 + uint w1 * 4))
       else if w0 = kArrayDataSignature then
         bind_out (FETCH insns 1) (\<lambda>elemWidth. bind_out (FETCH insns 2) (\<lambda>w2.
           bind_out (FETCH insns 3) (\<lambda>w3.
             let len = ucast w2 OR push_bit 16 (ucast w3) :: u4
             in Ret (sint (4 + (ucast elemWidth * len + 1) div 2 :: u4)))))
       else Ret (dexGetInstrWidthAbs widths (INST_INST w0)))"

section \<open>Decoding stays inside the instruction and always succeeds on a defined opcode\<close>

lemma format_in_use: "opc < 256 \<Longrightarrow> instr_format_of opc \<notin> {kFmt35fs, kFmt3rfs}"
  by (simp add: instr_format_of_def)

lemma decode_fields_opCode: "decode_fields fmt insns inst d = Ret d' \<Longrightarrow> opCode d' = opCode d"
  by (cases fmt)
    (auto simp: decode_fields_def decode_35c_def decode_3inline_def copy_arg0_def Let_def)

lemma decode_fields_total:
  assumes "fmt \<notin> {kFmtUnknown, kFmt35fs, kFmt3rfs}" and "format_units fmt \<le> int (length insns)"
  shows "\<exists>d'. decode_fields fmt insns inst d = Ret d'"
  using assms by (cases fmt) (simp_all add: decode_fields_def Let_def)

lemma decode_fields_local:
  assumes "take n insns = take n insns'" and "n = nat (format_units fmt)"
    and "n \<le> length insns" and "n \<le> length insns'" and "fmt \<noteq> kFmtUnknown"
  shows "decode_fields fmt insns inst d = decode_fields fmt insns' inst d"
proof -
  have nth: "insns ! k = insns' ! k" if "k < n" for k
    using assms(1) that by (metis nth_take)
  show ?thesis
    using assms(2-5) nth by (cases fmt) (simp_all add: decode_fields_def Let_def)
qed


text \<open>C22 (decoding is total and local). When the code array still holds as many units as the width table
  gives for the opcode in the first unit, and that width is not zero, \<open>dexDecodeInstruction\<close> returns a
  decoded instruction with that opcode and reads nothing beyond those units.\<close>

theorem decode_total_local:
  assumes "insns \<noteq> []" and "w = nat (dexGetInstrWidthAbs gDvm_instrWidth (INST_INST (insns ! 0)))"
    and "w \<noteq> 0" and "w \<le> length insns"
  shows "\<exists>d'. dexDecodeInstruction gDvm_instrFormat insns d = Ret d'
            \<and> dexDecodeInstruction gDvm_instrFormat (take w insns) d = Ret d'
            \<and> opCode d' = INST_INST (insns ! 0)"
proof -
  let ?opc = "INST_INST (insns ! 0)"
  let ?fmt = "instr_format_of ?opc"
  have w: "w = nat (format_units ?fmt)"
    using assms(2) by (simp add: width_of_format)
  have fmt: "?fmt \<notin> {kFmtUnknown, kFmt35fs, kFmt3rfs}"
    using assms(3) w format_in_use [of ?opc] by auto
  let ?d = "d\<lparr>opCode := ?opc\<rparr>"
  have le: "format_units ?fmt \<le> int (length insns)"
    using assms(4) w by simp
  obtain d' where d': "decode_fields ?fmt insns (insns ! 0) ?d = Ret d'"
    using decode_fields_total [OF fmt le] by blast
  have "decode_fields ?fmt (take w insns) (insns ! 0) ?d = Ret d'"
    using decode_fields_local [of w "take w insns" insns ?fmt] w fmt assms(4) d' by simp
  moreover have "opCode d' = opCode ?d"
    using d' by (rule decode_fields_opCode)
  ultimately show ?thesis
    using assms d' by (simp add: dexDecodeInstruction_def)
qed

theorem decode_total_local_witness:
  "\<exists>d'. dexDecodeInstruction gDvm_instrFormat [0x0390, 0x0201, 0xffff] (DecodedInstruction.make 0 0 0 0 [0, 0, 0, 0, 0] 0) = Ret d'
      \<and> dexDecodeInstruction gDvm_instrFormat (take 2 [0x0390, 0x0201, 0xffff])
          (DecodedInstruction.make 0 0 0 0 [0, 0, 0, 0, 0] 0) = Ret d'
      \<and> opCode d' = OP_ADD_INT"
  using decode_total_local [of "[0x0390, 0x0201, 0xffff]" 2 "DecodedInstruction.make 0 0 0 0 [0, 0, 0, 0, 0] 0"]
  by (simp add: INST_INST_def instr_width_of_def arm_simps)

end
