(* ===== verification/InstrEncode.thy ===== *)
theory InstrEncode
  imports InstrDecode
begin

text \<open>
  A reference assembler for the instruction formats, written from the layout comments of
  \<^verbatim>\<open>src/libdex/InstrUtils.h\<close>, and the proof that \<open>dexDecodeInstruction\<close> inverts it for every format
  and every operand value the format has room for.
\<close>

section \<open>The decoder inverts the documented encoding\<close>

text \<open>
  The layouts of the comments in \<^verbatim>\<open>src/libdex/InstrUtils.h\<close> as an assembler: the first unit holds the
  opcode in its low byte and either \<open>AA\<close> or the nibbles \<open>B|A\<close> above it.
\<close>

definition unit0 :: "OpCode \<Rightarrow> u4 \<Rightarrow> u4 \<Rightarrow> u2" where
  "unit0 opc a b = of_nat opc OR push_bit 8 (ucast a) OR push_bit 12 (ucast b)"

definition byte_unit :: "u4 \<Rightarrow> u4 \<Rightarrow> u2" where
  "byte_unit b c = ucast b OR push_bit 8 (ucast c)"

definition reg_list :: "u4 list \<Rightarrow> u2" where
  "reg_list r = ucast (r ! 0) OR push_bit 4 (ucast (r ! 1)) OR push_bit 8 (ucast (r ! 2))
                  OR push_bit 12 (ucast (r ! 3))"

definition encode_units :: "InstructionFormat \<Rightarrow> DecodedInstruction \<Rightarrow> u2 list" where
  "encode_units fmt d =
     (let op = opCode d; a = vA d; b = vB d; c = vC d; wide = vB_wide d;
          hi = (\<lambda>x :: u4. ucast (drop_bit 16 x) :: u2)
      in case fmt of
        kFmt10x \<Rightarrow> [unit0 op a 0] | kFmt11x \<Rightarrow> [unit0 op a 0] | kFmt10t \<Rightarrow> [unit0 op (take_bit 8 a) 0]
      | kFmt12x \<Rightarrow> [unit0 op a b] | kFmt11n \<Rightarrow> [unit0 op a b]
      | kFmt20t \<Rightarrow> [unit0 op 0 0, ucast a]
      | kFmt21c \<Rightarrow> [unit0 op a 0, ucast b] | kFmt22x \<Rightarrow> [unit0 op a 0, ucast b]
      | kFmt21s \<Rightarrow> [unit0 op a 0, ucast b] | kFmt21t \<Rightarrow> [unit0 op a 0, ucast b]
      | kFmt21h \<Rightarrow> [unit0 op a 0, ucast b]
      | kFmt23x \<Rightarrow> [unit0 op a 0, byte_unit b c]
      | kFmt22b \<Rightarrow> [unit0 op a 0, byte_unit b c]
      | kFmt22s \<Rightarrow> [unit0 op a b, ucast c] | kFmt22t \<Rightarrow> [unit0 op a b, ucast c]
      | kFmt22c \<Rightarrow> [unit0 op a b, ucast c] | kFmt22cs \<Rightarrow> [unit0 op a b, ucast c]
      | kFmt30t \<Rightarrow> [unit0 op 0 0, ucast a, hi a]
      | kFmt31t \<Rightarrow> [unit0 op a 0, ucast b, hi b] | kFmt31i \<Rightarrow> [unit0 op a 0, ucast b, hi b]
      | kFmt31c \<Rightarrow> [unit0 op a 0, ucast b, hi b]
      | kFmt32x \<Rightarrow> [unit0 op 0 0, ucast a, ucast b]
      | kFmt35c \<Rightarrow> [unit0 op (arg d ! 4) a, ucast b, reg_list (arg d)]
      | kFmt35ms \<Rightarrow> [unit0 op (arg d ! 4) a, ucast b, reg_list (arg d)]
      | kFmt3inline \<Rightarrow> [unit0 op 0 a, ucast b, reg_list (arg d)]
      | kFmt3rc \<Rightarrow> [unit0 op a 0, ucast b, ucast c] | kFmt3rms \<Rightarrow> [unit0 op a 0, ucast b, ucast c]
      | kFmt51l \<Rightarrow> [unit0 op a 0, ucast wide, ucast (drop_bit 16 wide), ucast (drop_bit 32 wide),
                    ucast (drop_bit 48 wide)]
      | _ \<Rightarrow> [])"

text \<open>The operand values each layout has room for.\<close>

definition fits_u :: "nat \<Rightarrow> u4 \<Rightarrow> bool" where "fits_u k x \<longleftrightarrow> take_bit k x = x"

definition fits_s1 :: "u4 \<Rightarrow> bool" where "fits_s1 x \<longleftrightarrow> scast (ucast x :: u1) = x"

definition fits_s2 :: "u4 \<Rightarrow> bool" where "fits_s2 x \<longleftrightarrow> scast (ucast x :: u2) = x"

definition fits_s4bits :: "u4 \<Rightarrow> bool" where
  "fits_s4bits x \<longleftrightarrow> signed_drop_bit 28 (push_bit 28 x) = x"

definition operands_fit :: "InstructionFormat \<Rightarrow> DecodedInstruction \<Rightarrow> bool" where
  "operands_fit fmt d =
     (let a = vA d; b = vB d; c = vC d in
      case fmt of
        kFmt10x \<Rightarrow> fits_u 8 a | kFmt11x \<Rightarrow> fits_u 8 a | kFmt10t \<Rightarrow> fits_s1 a
      | kFmt12x \<Rightarrow> fits_u 4 a \<and> fits_u 4 b | kFmt11n \<Rightarrow> fits_u 4 a \<and> fits_s4bits b
      | kFmt20t \<Rightarrow> fits_s2 a
      | kFmt21c \<Rightarrow> fits_u 8 a \<and> fits_u 16 b | kFmt22x \<Rightarrow> fits_u 8 a \<and> fits_u 16 b
      | kFmt21s \<Rightarrow> fits_u 8 a \<and> fits_s2 b | kFmt21t \<Rightarrow> fits_u 8 a \<and> fits_s2 b
      | kFmt21h \<Rightarrow> fits_u 8 a \<and> fits_u 16 b
      | kFmt23x \<Rightarrow> fits_u 8 a \<and> fits_u 8 b \<and> fits_u 8 c
      | kFmt22b \<Rightarrow> fits_u 8 a \<and> fits_u 8 b \<and> fits_s1 c
      | kFmt22s \<Rightarrow> fits_u 4 a \<and> fits_u 4 b \<and> fits_s2 c
      | kFmt22t \<Rightarrow> fits_u 4 a \<and> fits_u 4 b \<and> fits_s2 c
      | kFmt22c \<Rightarrow> fits_u 4 a \<and> fits_u 4 b \<and> fits_u 16 c
      | kFmt22cs \<Rightarrow> fits_u 4 a \<and> fits_u 4 b \<and> fits_u 16 c
      | kFmt30t \<Rightarrow> True
      | kFmt31t \<Rightarrow> fits_u 8 a | kFmt31i \<Rightarrow> fits_u 8 a | kFmt31c \<Rightarrow> fits_u 8 a
      | kFmt32x \<Rightarrow> fits_u 16 a \<and> fits_u 16 b
      | kFmt35c \<Rightarrow> a \<le> 5 \<and> fits_u 16 b \<and> list_all (fits_u 4) (arg d) \<and> length (arg d) = 5
      | kFmt35ms \<Rightarrow> a \<le> 5 \<and> fits_u 16 b \<and> list_all (fits_u 4) (arg d) \<and> length (arg d) = 5
      | kFmt3inline \<Rightarrow> a \<le> 4 \<and> fits_u 16 b \<and> list_all (fits_u 4) (arg d) \<and> length (arg d) = 5
      | kFmt3rc \<Rightarrow> fits_u 8 a \<and> fits_u 16 b \<and> fits_u 16 c
      | kFmt3rms \<Rightarrow> fits_u 8 a \<and> fits_u 16 b \<and> fits_u 16 c
      | kFmt51l \<Rightarrow> fits_u 8 a
      | _ \<Rightarrow> False)"

text \<open>The fields a format carries, compared between two decoded instructions.\<close>

definition same_operands :: "InstructionFormat \<Rightarrow> DecodedInstruction \<Rightarrow> DecodedInstruction \<Rightarrow> bool" where
  "same_operands fmt d e \<longleftrightarrow>
     opCode d = opCode e \<and> vA d = vA e
     \<and> (fmt \<notin> {kFmt10x, kFmt11x, kFmt10t, kFmt20t, kFmt30t, kFmt51l} \<longrightarrow> vB d = vB e)
     \<and> (fmt \<in> {kFmt23x, kFmt22b, kFmt22s, kFmt22t, kFmt22c, kFmt22cs, kFmt3rc, kFmt3rms}
          \<longrightarrow> vC d = vC e)
     \<and> (fmt \<in> {kFmt35c, kFmt35ms, kFmt3inline}
          \<longrightarrow> take (unat (vA e)) (arg d) = take (unat (vA e)) (arg e))
     \<and> (fmt = kFmt51l \<longrightarrow> vB_wide d = vB_wide e)"

lemma fits_u_bit: "fits_u k x \<Longrightarrow> bit x n \<Longrightarrow> n < k"
  unfolding fits_u_def by (metis bit_take_bit_iff)

lemma unit_masks: "(0xff::u2) = mask 8" "(0x0f::u2) = mask 4"
  by (simp_all add: mask_eq_exp_minus_1)

lemma opcode_bit: "n < 8" if "(opc::nat) < 256" and "bit opc n"
proof -
  have "take_bit 8 opc = opc" using that(1) by (simp add: take_bit_nat_eq_self)
  then show ?thesis using that(2) by (metis bit_take_bit_iff)
qed

lemmas unit_bits = unit_masks unit0_def INST_A_def INST_B_def INST_AA_def bit_simps

lemma INST_INST_unit0 [simp]: "opc < 256 \<Longrightarrow> INST_INST (unit0 opc a b) = opc"
proof -
  assume opc: "opc < 256"
  have "unit0 opc a b AND 0xff = of_nat opc"
    by (rule bit_word_eqI) (auto simp: unit_bits opcode_bit [OF opc])
  then show ?thesis using opc by (simp add: INST_INST_def unat_of_nat)
qed

lemma INST_A_unit0:
  "opc < 256 \<Longrightarrow> fits_u 4 a \<Longrightarrow> ucast (INST_A (unit0 opc a b)) = a"
  by (rule bit_word_eqI) (auto simp: unit_bits dest: opcode_bit fits_u_bit)

lemma INST_B_unit0:
  "opc < 256 \<Longrightarrow> fits_u 4 a \<Longrightarrow> fits_u 4 b \<Longrightarrow> ucast (INST_B (unit0 opc a b)) = b"
  by (rule bit_word_eqI) (auto simp: unit_bits dest: opcode_bit fits_u_bit)

lemma INST_AA_unit0:
  "opc < 256 \<Longrightarrow> fits_u 8 a \<Longrightarrow> ucast (INST_AA (unit0 opc a 0)) = a"
  by (rule bit_word_eqI) (auto simp: unit_bits dest: opcode_bit fits_u_bit)

lemma INST_AA_unit0_s1:
  "opc < 256 \<Longrightarrow> fits_s1 a \<Longrightarrow> scast (ucast (INST_AA (unit0 opc (take_bit 8 a) 0)) :: u1) = a"
proof -
  assume opc: "opc < 256" and a: "fits_s1 a"
  have "(ucast (INST_AA (unit0 opc (take_bit 8 a) 0)) :: u1) = ucast a"
    by (rule bit_word_eqI) (auto simp: unit_bits dest: opcode_bit [OF opc])
  then show ?thesis using a by (simp add: fits_s1_def)
qed

lemma INST_B_unit0_nibble:
  "opc < 256 \<Longrightarrow> fits_u 4 a \<Longrightarrow> fits_s4bits b
    \<Longrightarrow> signed_drop_bit 28 (push_bit 28 (ucast (INST_B (unit0 opc a b)) :: u4)) = b"
proof -
  assume opc: "opc < 256" and a: "fits_u 4 a" and b: "fits_s4bits b"
  have "push_bit 28 (ucast (INST_B (unit0 opc a b)) :: u4) = push_bit 28 b"
    by (rule bit_word_eqI) (auto simp: unit_bits dest: opcode_bit [OF opc] fits_u_bit [OF a])
  then show ?thesis using b by (simp add: fits_s4bits_def)
qed

lemma fits_u16 [simp]: "fits_u 16 x \<Longrightarrow> ucast (ucast x :: u2) = x"
  by (rule bit_word_eqI) (auto simp: bit_simps dest: fits_u_bit)

lemma byte_pair:
  "fits_u 8 b \<Longrightarrow> fits_u 8 c \<Longrightarrow> ucast (byte_unit b c AND 0xff) = b"
  "fits_u 8 b \<Longrightarrow> fits_u 8 c \<Longrightarrow> ucast (drop_bit 8 (byte_unit b c)) = c"
  by (rule bit_word_eqI, auto simp: byte_unit_def unit_masks bit_simps dest: fits_u_bit)+

lemma byte_pair_s1:
  "fits_u 8 b \<Longrightarrow> fits_s1 c \<Longrightarrow> ucast (byte_unit b c AND 0xff) = b"
  "fits_u 8 b \<Longrightarrow> fits_s1 c
    \<Longrightarrow> scast (ucast (drop_bit 8 (byte_unit b c)) :: u1) = c"
proof -
  assume b: "fits_u 8 b" and c: "fits_s1 c"
  show "ucast (byte_unit b c AND 0xff) = b"
    by (rule bit_word_eqI) (auto simp: byte_unit_def unit_masks bit_simps dest: fits_u_bit [OF b])
  have "(ucast (drop_bit 8 (byte_unit b c)) :: u1) = ucast c"
    by (rule bit_word_eqI) (auto simp: byte_unit_def bit_simps dest: fits_u_bit [OF b])
  then show "scast (ucast (drop_bit 8 (byte_unit b c)) :: u1) = c"
    using c by (simp add: fits_s1_def)
qed

lemma word_halves: "(ucast (ucast x :: u2) OR push_bit 16 (ucast (ucast (drop_bit 16 x) :: u2)) :: u4) = x"
  by (rule bit_word_eqI) (auto simp: bit_simps)

lemma word_quarters:
  "(ucast (ucast x :: u2) OR push_bit 16 (ucast (ucast (drop_bit 16 x) :: u2))
     OR push_bit 32 (ucast (ucast (drop_bit 32 x) :: u2))
     OR push_bit 48 (ucast (ucast (drop_bit 48 x) :: u2)) :: u8) = x" (is "?l = x")
proof (rule bit_word_eqI)
  fix n :: nat
  assume n: "n < LENGTH(64)"
  show "bit ?l n = bit x n"
    using n by (cases "n < 16"; cases "n < 32"; cases "n < 48") (auto simp: bit_simps)
qed

lemma reg_list_nibbles:
  assumes "list_all (fits_u 4) r" and "length r = 5" and "i < 4"
  shows "ucast (drop_bit (4 * i) (reg_list r) AND 0x0f) = r ! i"
proof -
  have f: "bit (r ! k) n \<Longrightarrow> n < 4" if "k < 5" for k n
    using assms(1,2) that by (auto simp: list_all_length intro: fits_u_bit)
  have "i = 0 \<or> i = 1 \<or> i = 2 \<or> i = 3" using assms(3) by auto
  then show ?thesis
    by (elim disjE)
      (simp_all, (rule bit_word_eqI, auto simp: reg_list_def unit_masks bit_simps dest: f [of 0, simplified] f [of 1, simplified] f [of 2, simplified] f [of 3, simplified])+)
qed


lemma fill_args_reg_list:
  assumes "list_all (fits_u 4) r" and "length r = 5" and "length args = 5" and "n \<le> 4"
  shows "take n (fill_args 0 n (reg_list r) args) = take n r"
    and "length (fill_args 0 n (reg_list r) args) = 5"
    and "fill_args 0 n (reg_list r) args ! 4 = args ! 4"
proof -
  note nib = reg_list_nibbles [OF assms(1,2)]
  have nib4: "ucast (reg_list r AND 0x0f) = r ! 0" "ucast (drop_bit 4 (reg_list r) AND 0x0f) = r ! 1"
    "ucast (drop_bit 8 (reg_list r) AND 0x0f) = r ! 2" "ucast (drop_bit 12 (reg_list r) AND 0x0f) = r ! 3"
    using nib [of 0] nib [of 1] nib [of 2] nib [of 3] by simp_all
  obtain r0 r1 r2 r3 r4 where r: "r = [r0, r1, r2, r3, r4]"
    using assms(2) by (auto simp: length_Suc_conv numeral_eq_Suc)
  obtain a0 a1 a2 a3 a4 where a: "args = [a0, a1, a2, a3, a4]"
    using assms(3) by (auto simp: length_Suc_conv numeral_eq_Suc)
  have n: "n = 0 \<or> n = 1 \<or> n = 2 \<or> n = 3 \<or> n = 4" using assms(4) by auto
  then show "take n (fill_args 0 n (reg_list r) args) = take n r"
    using nib4 by (elim disjE) (simp_all add: r a eval_nat_numeral)
  from n show "length (fill_args 0 n (reg_list r) args) = 5"
    by (elim disjE) (simp_all add: a eval_nat_numeral)
  from n show "fill_args 0 n (reg_list r) args ! 4 = args ! 4"
    by (elim disjE) (simp_all add: a eval_nat_numeral)
qed

lemma fits_u4_small: "x \<le> 5 \<Longrightarrow> fits_u 4 x"
proof -
  assume "x \<le> 5"
  then have "unat x \<le> unat (5 :: u4)" by (simp only: word_le_nat_alt)
  then show ?thesis
    by (simp add: fits_u_def word_unat_eq_iff unsigned_take_bit_eq take_bit_nat_eq_self)
qed

lemma decode_35c_encode:
  assumes opc: "opc < 256" and a: "a \<le> 5" and b: "fits_u 16 b"
    and r: "list_all (fits_u 4) r" "length r = 5" and d: "length (arg d) = 5"
  defines "d' \<equiv> decode_35c (unit0 opc (r ! 4) a) (ucast b) (reg_list r) d"
  shows "vA d' = a \<and> vB d' = b \<and> take (unat a) (arg d') = take (unat a) r \<and> opCode d' = opCode d"
proof -
  have r4: "fits_u 4 (r ! 4)" using r by (simp add: list_all_length)
  have B: "ucast (INST_B (unit0 opc (r ! 4) a)) = a"
    using INST_B_unit0 [OF opc r4 fits_u4_small [OF a]] .
  have A: "ucast (INST_A (unit0 opc (r ! 4) a)) = r ! 4"
    using INST_A_unit0 [OF opc r4] .
  have not_gt: "\<not> 5 < a" using a by simp
  have ua: "unat a \<le> 5" using a by (simp add: word_le_nat_alt)
  show ?thesis
  proof (cases "unat a = 5")
    case True
    let ?f = "fill_args 0 4 (reg_list r) ((arg d)[4 := r ! 4])"
    have l: "length ((arg d)[4 := r ! 4]) = 5" using d by simp
    note f = fill_args_reg_list [OF r l order_refl]
    have "?f ! 4 = r ! 4" using f(3) d by simp
    moreover have "xs = take 4 xs @ [xs ! 4]" if "length xs = 5" for xs :: "u4 list"
      using that take_Suc_conv_app_nth [of 4 xs] by simp
    ultimately have "?f = r"
      using f(1,2) r(2) by metis
    then show ?thesis
      using True not_gt by (simp add: d'_def decode_35c_def copy_arg0_def Let_def A B b)
  next
    case False
    then have n: "unat a \<le> 4" using ua by simp
    show ?thesis
      using False not_gt fill_args_reg_list(1) [OF r d n]
      by (simp add: d'_def decode_35c_def copy_arg0_def Let_def B b)
  qed
qed

lemma decode_3inline_encode:
  assumes opc: "opc < 256" and a: "a \<le> 4" and b: "fits_u 16 b"
    and r: "list_all (fits_u 4) r" "length r = 5" and d: "length (arg d) = 5"
  defines "d' \<equiv> decode_3inline (unit0 opc 0 a) (ucast b) (reg_list r) d"
  shows "vA d' = a \<and> vB d' = b \<and> take (unat a) (arg d') = take (unat a) r \<and> opCode d' = opCode d"
proof -
  have "a \<le> 5" using a by (simp add: word_le_nat_alt)
  then have B: "ucast (INST_B (unit0 opc 0 a)) = a"
    by (intro INST_B_unit0 [OF opc] fits_u4_small) simp_all
  have n: "unat a \<le> 4" using a by (simp add: word_le_nat_alt)
  have "\<not> 4 < a" using a by simp
  then show ?thesis
    using fill_args_reg_list(1) [OF r d n]
    by (simp add: d'_def decode_3inline_def copy_arg0_def Let_def B b)
qed

lemmas unit0_fields =
  INST_A_unit0 INST_B_unit0 INST_AA_unit0 INST_AA_unit0_s1 INST_B_unit0_nibble byte_pair
  byte_pair_s1 word_halves word_quarters

lemma decode_fields_encode:
  assumes "opCode d < 256" and "operands_fit fmt d" and "length (arg d0) = 5"
    and "opCode d0 = opCode d"
  shows "\<exists>d'. decode_fields fmt (encode_units fmt d @ rest) (encode_units fmt d ! 0) d0 = Ret d'
           \<and> same_operands fmt d' d"
  using assms decode_35c_encode [of "opCode d" "vA d" "vB d" "arg d" d0]
    decode_3inline_encode [of "opCode d" "vA d" "vB d" "arg d" d0]
  by (cases fmt)
    (simp_all add: decode_fields_def encode_units_def operands_fit_def same_operands_def Let_def
      unit0_fields fits_s2_def nth_append)

text \<open>C15 (the decoder inverts the encoding). For every defined opcode and all operands that fit its format,
  decoding the assembled code units, whatever follows them, succeeds and yields the opcode and exactly those operands,
  sign-extended where the format is signed; in particular the register list of an invoke is recovered
  in order, the fifth register from its own nibble.\<close>

theorem decode_encode:
  assumes "opCode d < kNumDalvikInstructions"
    and "operands_fit (instr_format_of (opCode d)) d" and "length (arg d0) = 5"
  shows "\<exists>d'. dexDecodeInstruction gDvm_instrFormat
                 (encode_units (instr_format_of (opCode d)) d @ rest) d0 = Ret d'
           \<and> same_operands (instr_format_of (opCode d)) d' d"
proof -
  let ?fmt = "instr_format_of (opCode d)"
  let ?u = "encode_units ?fmt d"
  have u: "?u \<noteq> []" "INST_INST (?u ! 0) = opCode d"
    using assms(1,2) by (cases ?fmt, simp_all add: encode_units_def operands_fit_def Let_def)+
  from u(1) have "FETCH (?u @ rest) 0 = Ret (?u ! 0)"
    by (cases ?u) simp_all
  with u show ?thesis
    using decode_fields_encode [of d ?fmt "d0\<lparr>opCode := opCode d\<rparr>" rest] assms
    by (simp add: dexDecodeInstruction_def Let_def nth_append)
qed

theorem decode_encode_witness:
  "\<exists>d'. dexDecodeInstruction gDvm_instrFormat
        (encode_units (instr_format_of OP_ADD_INT_LIT8)
          \<lparr>vA = 1, vB = 2, vB_wide = 0, vC = -3, arg = [0, 0, 0, 0, 0], opCode = OP_ADD_INT_LIT8\<rparr>
         @ [7])
        \<lparr>vA = 0, vB = 0, vB_wide = 0, vC = 0, arg = [0, 0, 0, 0, 0], opCode = 0\<rparr> = Ret d'
      \<and> vA d' = 1 \<and> vB d' = 2 \<and> sint (vC d') = -3 \<and> opCode d' = OP_ADD_INT_LIT8"
proof -
  let ?d = "\<lparr>vA = 1, vB = 2, vB_wide = 0, vC = -3, arg = [0, 0, 0, 0, 0], opCode = OP_ADD_INT_LIT8\<rparr>"
  have fmt: "instr_format_of OP_ADD_INT_LIT8 = kFmt22b"
    by (simp add: instr_format_of_def arm_simps)
  have "operands_fit kFmt22b ?d"
    by (simp add: operands_fit_def fits_u_def fits_s1_def Let_def)
  then show ?thesis
    using decode_encode [of ?d "\<lparr>vA = 0, vB = 0, vB_wide = 0, vC = 0, arg = [0, 0, 0, 0, 0], opCode = 0\<rparr>" "[7]"]
    by (auto simp: fmt same_operands_def)
qed

end
