(* ===== verification/InterpState.thy ===== *)
theory InterpState
  imports InstrDecode
begin

text \<open>
  The state of the portable interpreter \<open>dvmInterpretStd\<close> (\<^verbatim>\<open>src/vm/mterp/out/InterpC-easy.c\<close>) and the
  accesses its \<open>switch\<close> is made of. In this port every virtual register is a 64-bit
  \<open>u8\<close> slot. A handler reads code units and registers through \<open>fetch\<close>, \<open>getreg\<close> and \<open>setreg\<close>, which end in
  \<open>StepOOB\<close> where the C code would access memory outside the method's code, the frame or an object;
  the other results are the places where an arm of the \<open>switch\<close> can go.

  The field \<open>world\<close> is the part of the VM that the interpreter does not touch itself: the class
  tables, the resolution caches, the monitors. The functions that work on it (class
  resolution, allocation, locking) and the host's floating-point arithmetic are parameters, collected in \<open>vm_env\<close>.
  \<open>dvmCheckSuspendQuick\<close>, which only parks the thread, has no effect here.
\<close>

section \<open>Objects\<close>

text \<open>
  \<open>Inst\<close> is an object with its class pointer and its bytes from the start of the object, \<open>Arr\<close> an \<open>ArrayObject\<close>
  with class, \<open>length\<close> and the bytes of \<open>contents\<close> (the host is little-endian).
\<close>

datatype hobj = Inst u8 "u1 list" | Arr u8 u4 "u1 list"

fun hclazz :: "hobj \<Rightarrow> u8" where
  "hclazz (Inst c _) = c"
| "hclazz (Arr c _ _) = c"

fun le_word :: "u1 list \<Rightarrow> u8" where
  "le_word [] = 0"
| "le_word (b # bs) = ucast b OR push_bit 8 (le_word bs)"

fun le_bytes :: "nat \<Rightarrow> u8 \<Rightarrow> u1 list" where
  "le_bytes 0 v = []"
| "le_bytes (Suc n) v = ucast v # le_bytes n (drop_bit 8 v)"

text \<open>\<open>n\<close> bytes at a byte offset, read or overwritten, \<open>None\<close> outside the block.\<close>

definition load_bytes :: "u1 list \<Rightarrow> nat \<Rightarrow> nat \<Rightarrow> u8 option" where
  "load_bytes bs off n = (if off + n \<le> length bs then Some (le_word (take n (drop off bs))) else None)"

definition store_bytes :: "u1 list \<Rightarrow> nat \<Rightarrow> u1 list \<Rightarrow> u1 list option" where
  "store_bytes bs off new =
     (if off + length new \<le> length bs
      then Some (take off bs @ new @ drop (off + length new) bs) else None)"

lemma length_le_bytes [simp]: "length (le_bytes n v) = n"
  by (induction n arbitrary: v) simp_all

lemma le_word_le_bytes: "le_word (le_bytes n v) = take_bit (8 * n) v"
proof (induction n arbitrary: v)
  case (Suc n)
  show ?case
  proof (rule bit_word_eqI)
    fix i assume "i < LENGTH(64)"
    then show "bit (le_word (le_bytes (Suc n) v)) i = bit (take_bit (8 * Suc n) v) i"
      by (cases "i < 8") (auto simp: Suc.IH bit_simps)
  qed
qed simp

lemma store_bytes_length: "store_bytes bs off new = Some bs' \<Longrightarrow> length bs' = length bs"
  by (auto simp: store_bytes_def split: if_splits)

lemma load_store_same:
  assumes "store_bytes bs off new = Some bs'" and "n = length new"
  shows "load_bytes bs' off n = Some (le_word new)"
  using assms by (auto simp: store_bytes_def load_bytes_def split: if_splits)

lemma load_store_other:
  assumes "store_bytes bs off new = Some bs'" and "off' + n \<le> off \<or> off + length new \<le> off'"
  shows "load_bytes bs' off' n = load_bytes bs off' n"
proof -
  have len: "length bs' = length bs" and fits: "off + length new \<le> length bs"
    and bs': "bs' = take off bs @ new @ drop (off + length new) bs"
    using assms(1) by (auto simp: store_bytes_def split: if_splits)
  have "take n (drop off' bs') = take n (drop off' bs)" if "off' + n \<le> length bs"
    using assms(2) fits that
    by (intro nth_equalityI) (auto simp: bs' nth_append)
  then show ?thesis by (simp add: load_bytes_def len)
qed

section \<open>The interpreter state\<close>

text \<open>
  A pending exception: one that \<open>dvmThrowException\<close> creates for a class descriptor, or a given object
  reference. \<open>currentPc\<close> is the pc that the arm exported to the frame's save area.
\<close>

datatype pending = NewException string | ExceptionObj u8

record 'w interp =
  fp :: "u8 list"
  pc :: int
  retval :: u8
  exception :: "pending option"
  heap :: "u8 \<rightharpoonup> hobj"
  statics :: "u8 \<Rightarrow> u8"
  currentPc :: "int option"
  world :: 'w

datatype invoke_kind =
  InvokeVirtual | InvokeSuper | InvokeDirect | InvokeStatic | InvokeInterface
  | InvokeVirtualQuick | InvokeSuperQuick

text \<open>
  Where an arm ends: the next iteration of the loop, one of the labels \<open>returnFromMethod\<close>,
  \<open>exceptionThrown\<close>, \<open>invoke...\<close> (with \<open>methodCallRange\<close>), \<open>dvmAbort\<close> or a failed assertion, or an access out of bounds.
\<close>

datatype 'w step_result =
    Step "'w interp"
  | GotoReturn "'w interp"
  | GotoException "'w interp"
  | GotoInvoke invoke_kind bool "'w interp"
  | StepAbort
  | StepOOB

section \<open>What the interpreter calls\<close>

text \<open>
  Floating point is the host's: single- and double-precision operations on bit patterns, with the
  conversions the C code uses implicitly.
\<close>

record fpu =
  f_neg :: "u4 \<Rightarrow> u4"
  f_add :: "u4 \<Rightarrow> u4 \<Rightarrow> u4"
  f_sub :: "u4 \<Rightarrow> u4 \<Rightarrow> u4"
  f_mul :: "u4 \<Rightarrow> u4 \<Rightarrow> u4"
  f_div :: "u4 \<Rightarrow> u4 \<Rightarrow> u4"
  f_fmod :: "u4 \<Rightarrow> u4 \<Rightarrow> u4"
  f_eq :: "u4 \<Rightarrow> u4 \<Rightarrow> bool"
  f_lt :: "u4 \<Rightarrow> u4 \<Rightarrow> bool"
  f_of_s4 :: "u4 \<Rightarrow> u4"
  f_of_s8 :: "u8 \<Rightarrow> u4"
  f_of_d :: "u8 \<Rightarrow> u4"
  f_to_s4 :: "u4 \<Rightarrow> u4"
  f_to_s8 :: "u4 \<Rightarrow> u8"
  d_neg :: "u8 \<Rightarrow> u8"
  d_add :: "u8 \<Rightarrow> u8 \<Rightarrow> u8"
  d_sub :: "u8 \<Rightarrow> u8 \<Rightarrow> u8"
  d_mul :: "u8 \<Rightarrow> u8 \<Rightarrow> u8"
  d_div :: "u8 \<Rightarrow> u8 \<Rightarrow> u8"
  d_fmod :: "u8 \<Rightarrow> u8 \<Rightarrow> u8"
  d_eq :: "u8 \<Rightarrow> u8 \<Rightarrow> bool"
  d_lt :: "u8 \<Rightarrow> u8 \<Rightarrow> bool"
  d_of_s4 :: "u4 \<Rightarrow> u8"
  d_of_s8 :: "u8 \<Rightarrow> u8"
  d_of_f :: "u4 \<Rightarrow> u8"
  d_to_s4 :: "u8 \<Rightarrow> u4"
  d_to_s8 :: "u8 \<Rightarrow> u8"

text \<open>
  The services of the rest of the VM: the resolution caches (\<open>NULL\<close> when not resolved yet) and the
  resolvers, which may run arbitrary class initialization and return \<open>NULL\<close> with an exception
  pending; subtyping; allocation; monitors; the inline natives. \<open>thrown_addr\<close> is the address of the
  exception object that \<open>dvmThrowException\<close> made for a class.
\<close>

record 'w vm_env = fpu +
  thrown_addr :: "string \<Rightarrow> 'w \<Rightarrow> u8"
  dexGetResolvedString :: "'w \<Rightarrow> u4 \<Rightarrow> u8"
  dexGetResolvedClass :: "'w \<Rightarrow> u2 \<Rightarrow> u8"
  dexGetResolvedField :: "'w \<Rightarrow> u2 \<Rightarrow> u8"
  resolveString :: "'w interp \<Rightarrow> u4 \<Rightarrow> u8 \<times> 'w interp"
  resolveClass :: "'w interp \<Rightarrow> u2 \<Rightarrow> bool \<Rightarrow> u8 \<times> 'w interp"
  resolveInstField :: "'w interp \<Rightarrow> u2 \<Rightarrow> u8 \<times> 'w interp"
  resolveStaticField :: "'w interp \<Rightarrow> u2 \<Rightarrow> u8 \<times> 'w interp"
  byteOffset :: "'w \<Rightarrow> u8 \<Rightarrow> nat"
  instanceof :: "'w \<Rightarrow> u8 \<Rightarrow> u8 \<Rightarrow> bool"
  canPutArrayElement :: "'w \<Rightarrow> u8 \<Rightarrow> u8 \<Rightarrow> bool"
  isClassInitialized :: "'w \<Rightarrow> u8 \<Rightarrow> bool"
  initClass :: "'w interp \<Rightarrow> u8 \<Rightarrow> bool \<times> 'w interp"
  isInterfaceClass :: "'w \<Rightarrow> u8 \<Rightarrow> bool"
  isAbstractClass :: "'w \<Rightarrow> u8 \<Rightarrow> bool"
  isArrayClass :: "'w \<Rightarrow> u8 \<Rightarrow> bool"
  descriptor1 :: "'w \<Rightarrow> u8 \<Rightarrow> char"
  allocObject :: "'w interp \<Rightarrow> u8 \<Rightarrow> u8 \<times> 'w interp"
  allocArrayByClass :: "'w interp \<Rightarrow> u8 \<Rightarrow> u4 \<Rightarrow> u8 \<times> 'w interp"
  lockObject :: "'w interp \<Rightarrow> u8 \<Rightarrow> 'w interp"
  unlockObject :: "'w interp \<Rightarrow> u8 \<Rightarrow> bool \<times> 'w interp"
  performInlineOp4Std :: "'w interp \<Rightarrow> u8 list \<Rightarrow> u2 \<Rightarrow> bool \<times> 'w interp"
  debuggerActive :: bool

section \<open>Accesses\<close>

definition fetch :: "u2 list \<Rightarrow> 'w interp \<Rightarrow> int \<Rightarrow> (u2 \<Rightarrow> 'w step_result) \<Rightarrow> 'w step_result" where
  "fetch insns s k f = (case read_at insns (pc s + k) of None \<Rightarrow> StepOOB | Some w \<Rightarrow> f w)"

definition getreg :: "'w interp \<Rightarrow> u2 \<Rightarrow> (u8 \<Rightarrow> 'w step_result) \<Rightarrow> 'w step_result" where
  "getreg s r f = (if unat r < length (fp s) then f (fp s ! unat r) else StepOOB)"

definition setreg :: "'w interp \<Rightarrow> u2 \<Rightarrow> u8 \<Rightarrow> ('w interp \<Rightarrow> 'w step_result) \<Rightarrow> 'w step_result" where
  "setreg s r v f = (if unat r < length (fp s) then f (s\<lparr>fp := (fp s)[unat r := v]\<rparr>) else StepOOB)"

text \<open>A \<open>float\<close> register is the low half of the slot; storing one leaves the other half as it is.\<close>

definition getreg_float :: "'w interp \<Rightarrow> u2 \<Rightarrow> (u4 \<Rightarrow> 'w step_result) \<Rightarrow> 'w step_result" where
  "getreg_float s r f = getreg s r (\<lambda>v. f (ucast v))"

definition setreg_float :: "'w interp \<Rightarrow> u2 \<Rightarrow> u4 \<Rightarrow> ('w interp \<Rightarrow> 'w step_result) \<Rightarrow> 'w step_result" where
  "setreg_float s r v f = getreg s r (\<lambda>old. setreg s r ((old AND NOT (mask 32)) OR ucast v) f)"

definition finish :: "int \<Rightarrow> 'w interp \<Rightarrow> 'w step_result" where
  "finish n s = Step (s\<lparr>pc := pc s + n\<rparr>)"

definition export_pc :: "'w interp \<Rightarrow> 'w interp" where
  "export_pc s = s\<lparr>currentPc := Some (pc s)\<rparr>"

lemma export_pc_simps [simp]:
  "pc (export_pc s) = pc s" "fp (export_pc s) = fp s" "heap (export_pc s) = heap s"
  "retval (export_pc s) = retval s" "exception (export_pc s) = exception s"
  "statics (export_pc s) = statics s" "world (export_pc s) = world s"
  "currentPc (export_pc s) = Some (pc s)"
  by (simp_all add: export_pc_def)

definition throw_new :: "string \<Rightarrow> 'w interp \<Rightarrow> 'w step_result" where
  "throw_new cls s = GotoException (s\<lparr>exception := Some (NewException cls)\<rparr>)"

text \<open>\<open>checkForNull\<close> and \<open>checkForNullExportPC\<close>.\<close>

definition checkForNull :: "'w interp \<Rightarrow> u8 \<Rightarrow> (hobj \<Rightarrow> 'w step_result) \<Rightarrow> 'w step_result" where
  "checkForNull s obj f =
     (if obj = 0 then throw_new ''Ljava/lang/NullPointerException;'' s
      else case heap s obj of
             None \<Rightarrow> StepOOB
           | Some h \<Rightarrow> if hclazz h = 0 \<or> hclazz h \<le> 65536 then StepAbort else f h)"

definition checkForNullExportPC :: "'w interp \<Rightarrow> u8 \<Rightarrow> (hobj \<Rightarrow> 'w step_result) \<Rightarrow> 'w step_result" where
  "checkForNullExportPC s obj f =
     (if obj = 0 then throw_new ''Ljava/lang/NullPointerException;'' (export_pc s)
      else checkForNull s obj f)"

text \<open>The casts \<open>(int32_t) fp[v]\<close>, and an \<open>int32_t\<close> value assigned to a register.\<close>

definition i32 :: "u8 \<Rightarrow> u4" where
  "i32 v = ucast v"

definition of_i32 :: "u4 \<Rightarrow> u8" where
  "of_i32 v = scast v"

lemma i32_of_i32 [simp]: "i32 (of_i32 v) = v"
  by (simp add: i32_def of_i32_def)

lemma i32_ucast [simp]: "i32 (ucast (v :: u4)) = v"
  by (simp add: i32_def)

end
