(* ===== verification/InterpBasic.thy ===== *)
theory InterpBasic
  imports InterpState
begin

text \<open>
  The arms of \<open>dvmInterpretStd\<close> that move values, load constants, compare, branch, return and switch
  (\<^verbatim>\<open>src/vm/mterp/out/InterpC-easy.c\<close>), one definition per \<open>case\<close>, with the switch-table functions of
  \<^verbatim>\<open>src/vm/interp/Interp.c\<close> they call. Arms of one shape share the shape's definition,
  as the macros of the original interpreter did.
\<close>

section \<open>Moves\<close>

text \<open>\<open>vA = f(vB)\<close>, one code unit.\<close>

definition unop12x :: "(u8 \<Rightarrow> u8) \<Rightarrow> u2 \<Rightarrow> 'w interp \<Rightarrow> 'w step_result" where
  "unop12x f inst s = getreg s (INST_B inst) (\<lambda>a. setreg s (INST_A inst) (f a) (finish 1))"

text \<open>\<open>vAA = vBBBB\<close> and \<open>vAAAA = vBBBB\<close>.\<close>

definition move22x :: "u2 list \<Rightarrow> u2 \<Rightarrow> 'w interp \<Rightarrow> 'w step_result" where
  "move22x insns inst s =
     fetch insns s 1 (\<lambda>vsrc1. getreg s vsrc1 (\<lambda>a. setreg s (INST_AA inst) a (finish 2)))"

definition move32x :: "u2 list \<Rightarrow> 'w interp \<Rightarrow> 'w step_result" where
  "move32x insns s =
     fetch insns s 1 (\<lambda>vdst. fetch insns s 2 (\<lambda>vsrc1.
       getreg s vsrc1 (\<lambda>a. setreg s vdst a (finish 3))))"

definition op_NOP :: "u2 list \<Rightarrow> u2 \<Rightarrow> 'w interp \<Rightarrow> 'w step_result" where
  "op_NOP insns inst s =
     finish 1 s"

definition op_MOVE :: "u2 list \<Rightarrow> u2 \<Rightarrow> 'w interp \<Rightarrow> 'w step_result" where
  "op_MOVE insns inst s =
     unop12x (\<lambda>a. a) inst s"

definition op_MOVE_FROM16 :: "u2 list \<Rightarrow> u2 \<Rightarrow> 'w interp \<Rightarrow> 'w step_result" where
  "op_MOVE_FROM16 insns inst s =
     move22x insns inst s"

definition op_MOVE_16 :: "u2 list \<Rightarrow> u2 \<Rightarrow> 'w interp \<Rightarrow> 'w step_result" where
  "op_MOVE_16 insns inst s =
     move32x insns s"

definition op_MOVE_WIDE :: "u2 list \<Rightarrow> u2 \<Rightarrow> 'w interp \<Rightarrow> 'w step_result" where
  "op_MOVE_WIDE insns inst s =
     unop12x (\<lambda>a. a) inst s"

definition op_MOVE_WIDE_FROM16 :: "u2 list \<Rightarrow> u2 \<Rightarrow> 'w interp \<Rightarrow> 'w step_result" where
  "op_MOVE_WIDE_FROM16 insns inst s =
     move22x insns inst s"

definition op_MOVE_WIDE_16 :: "u2 list \<Rightarrow> u2 \<Rightarrow> 'w interp \<Rightarrow> 'w step_result" where
  "op_MOVE_WIDE_16 insns inst s =
     move32x insns s"

definition op_MOVE_OBJECT :: "u2 list \<Rightarrow> u2 \<Rightarrow> 'w interp \<Rightarrow> 'w step_result" where
  "op_MOVE_OBJECT insns inst s =
     unop12x (\<lambda>a. a) inst s"

definition op_MOVE_OBJECT_FROM16 :: "u2 list \<Rightarrow> u2 \<Rightarrow> 'w interp \<Rightarrow> 'w step_result" where
  "op_MOVE_OBJECT_FROM16 insns inst s =
     move22x insns inst s"

definition op_MOVE_OBJECT_16 :: "u2 list \<Rightarrow> u2 \<Rightarrow> 'w interp \<Rightarrow> 'w step_result" where
  "op_MOVE_OBJECT_16 insns inst s =
     move32x insns s"

definition op_MOVE_RESULT :: "u2 list \<Rightarrow> u2 \<Rightarrow> 'w interp \<Rightarrow> 'w step_result" where
  "op_MOVE_RESULT insns inst s =
     setreg s (INST_AA inst) (retval s) (finish 1)"

definition op_MOVE_RESULT_WIDE :: "u2 list \<Rightarrow> u2 \<Rightarrow> 'w interp \<Rightarrow> 'w step_result" where
  "op_MOVE_RESULT_WIDE insns inst s =
     setreg s (INST_AA inst) (retval s) (finish 1)"

definition op_MOVE_RESULT_OBJECT :: "u2 list \<Rightarrow> u2 \<Rightarrow> 'w interp \<Rightarrow> 'w step_result" where
  "op_MOVE_RESULT_OBJECT insns inst s =
     setreg s (INST_AA inst) (retval s) (finish 1)"

text \<open>The address that \<open>self->exception\<close> holds.\<close>

definition exception_ref :: "'w vm_env \<Rightarrow> 'w interp \<Rightarrow> pending \<Rightarrow> u8" where
  "exception_ref e s p =
     (case p of NewException c \<Rightarrow> thrown_addr e c (world s) | ExceptionObj a \<Rightarrow> a)"

definition op_MOVE_EXCEPTION :: "'w vm_env \<Rightarrow> u2 list \<Rightarrow> u2 \<Rightarrow> 'w interp \<Rightarrow> 'w step_result" where
  "op_MOVE_EXCEPTION e insns inst s =
     (case exception s of
        None \<Rightarrow> StepAbort
      | Some p \<Rightarrow> setreg s (INST_AA inst) (exception_ref e s p) (\<lambda>s. finish 1 (s\<lparr>exception := None\<rparr>)))"

section \<open>Returns and constants\<close>

definition op_RETURN_VOID :: "u2 list \<Rightarrow> u2 \<Rightarrow> 'w interp \<Rightarrow> 'w step_result" where
  "op_RETURN_VOID insns inst s =
     GotoReturn (s\<lparr>retval := 0xabababab\<rparr>)"

definition op_RETURN :: "u2 list \<Rightarrow> u2 \<Rightarrow> 'w interp \<Rightarrow> 'w step_result" where
  "op_RETURN insns inst s =
     getreg s (INST_AA inst) (\<lambda>v. GotoReturn (s\<lparr>retval := v\<rparr>))"

definition op_RETURN_WIDE :: "u2 list \<Rightarrow> u2 \<Rightarrow> 'w interp \<Rightarrow> 'w step_result" where
  "op_RETURN_WIDE insns inst s =
     getreg s (INST_AA inst) (\<lambda>v. GotoReturn (s\<lparr>retval := v\<rparr>))"

definition op_RETURN_OBJECT :: "u2 list \<Rightarrow> u2 \<Rightarrow> 'w interp \<Rightarrow> 'w step_result" where
  "op_RETURN_OBJECT insns inst s =
     getreg s (INST_AA inst) (\<lambda>v. GotoReturn (s\<lparr>retval := v\<rparr>))"

definition op_CONST_4 :: "u2 list \<Rightarrow> u2 \<Rightarrow> 'w interp \<Rightarrow> 'w step_result" where
  "op_CONST_4 insns inst s =
     setreg s (INST_A inst) (of_i32 (signed_drop_bit 28 (push_bit 28 (ucast (INST_B inst))))) (finish 1)"

definition op_CONST_16 :: "u2 list \<Rightarrow> u2 \<Rightarrow> 'w interp \<Rightarrow> 'w step_result" where
  "op_CONST_16 insns inst s =
     fetch insns s 1 (\<lambda>vsrc1. setreg s (INST_AA inst) (scast vsrc1) (finish 2))"

text \<open>\<open>tmp = pc[1]; tmp |= (u4) pc[2] << 16\<close>.\<close>

definition fetch_u4 :: "u2 list \<Rightarrow> 'w interp \<Rightarrow> (u4 \<Rightarrow> 'w step_result) \<Rightarrow> 'w step_result" where
  "fetch_u4 insns s f =
     fetch insns s 1 (\<lambda>w1. fetch insns s 2 (\<lambda>w2. f (ucast w1 OR push_bit 16 (ucast w2))))"

definition op_CONST :: "u2 list \<Rightarrow> u2 \<Rightarrow> 'w interp \<Rightarrow> 'w step_result" where
  "op_CONST insns inst s =
     fetch_u4 insns s (\<lambda>tmp. setreg s (INST_AA inst) (ucast tmp) (finish 3))"

definition op_CONST_HIGH16 :: "u2 list \<Rightarrow> u2 \<Rightarrow> 'w interp \<Rightarrow> 'w step_result" where
  "op_CONST_HIGH16 insns inst s =
     fetch insns s 1 (\<lambda>vsrc1.
       setreg s (INST_AA inst) (of_i32 (push_bit 16 (ucast vsrc1))) (finish 2))"

definition op_CONST_WIDE_16 :: "u2 list \<Rightarrow> u2 \<Rightarrow> 'w interp \<Rightarrow> 'w step_result" where
  "op_CONST_WIDE_16 insns inst s =
     fetch insns s 1 (\<lambda>vsrc1. setreg s (INST_AA inst) (scast vsrc1) (finish 2))"

definition op_CONST_WIDE_32 :: "u2 list \<Rightarrow> u2 \<Rightarrow> 'w interp \<Rightarrow> 'w step_result" where
  "op_CONST_WIDE_32 insns inst s =
     fetch_u4 insns s (\<lambda>tmp. setreg s (INST_AA inst) (scast tmp) (finish 3))"

definition op_CONST_WIDE :: "u2 list \<Rightarrow> u2 \<Rightarrow> 'w interp \<Rightarrow> 'w step_result" where
  "op_CONST_WIDE insns inst s =
     fetch insns s 1 (\<lambda>w1. fetch insns s 2 (\<lambda>w2. fetch insns s 3 (\<lambda>w3. fetch insns s 4 (\<lambda>w4.
       setreg s (INST_AA inst)
         (ucast w1 OR push_bit 16 (ucast w2) OR push_bit 32 (ucast w3) OR push_bit 48 (ucast w4))
         (finish 5)))))"

definition op_CONST_WIDE_HIGH16 :: "u2 list \<Rightarrow> u2 \<Rightarrow> 'w interp \<Rightarrow> 'w step_result" where
  "op_CONST_WIDE_HIGH16 insns inst s =
     fetch insns s 1 (\<lambda>vsrc1. setreg s (INST_AA inst) (push_bit 48 (ucast vsrc1)) (finish 2))"

section \<open>Branches\<close>

definition op_GOTO :: "u2 list \<Rightarrow> u2 \<Rightarrow> 'w interp \<Rightarrow> 'w step_result" where
  "op_GOTO insns inst s =
     finish (sint (ucast (INST_AA inst) :: u1)) s"

definition op_GOTO_16 :: "u2 list \<Rightarrow> u2 \<Rightarrow> 'w interp \<Rightarrow> 'w step_result" where
  "op_GOTO_16 insns inst s =
     fetch insns s 1 (\<lambda>offset. finish (sint offset) s)"

definition op_GOTO_32 :: "u2 list \<Rightarrow> u2 \<Rightarrow> 'w interp \<Rightarrow> 'w step_result" where
  "op_GOTO_32 insns inst s =
     fetch_u4 insns s (\<lambda>offset. finish (sint offset) s)"

text \<open>The comparisons of two registers and of a register with zero, on the low 32 bits.\<close>

definition if22t :: "(int \<Rightarrow> int \<Rightarrow> bool) \<Rightarrow> u2 list \<Rightarrow> u2 \<Rightarrow> 'w interp \<Rightarrow> 'w step_result" where
  "if22t cmp insns inst s =
     getreg s (INST_A inst) (\<lambda>a. getreg s (INST_B inst) (\<lambda>b.
       if cmp (sint (i32 a)) (sint (i32 b))
       then fetch insns s 1 (\<lambda>branchOffset. finish (sint branchOffset) s)
       else finish 2 s))"

definition if21t :: "(int \<Rightarrow> bool) \<Rightarrow> u2 list \<Rightarrow> u2 \<Rightarrow> 'w interp \<Rightarrow> 'w step_result" where
  "if21t cmp insns inst s =
     getreg s (INST_AA inst) (\<lambda>a.
       if cmp (sint (i32 a))
       then fetch insns s 1 (\<lambda>branchOffset. finish (sint branchOffset) s)
       else finish 2 s)"

definition op_IF_EQ :: "u2 list \<Rightarrow> u2 \<Rightarrow> 'w interp \<Rightarrow> 'w step_result" where
  "op_IF_EQ insns inst s =
     if22t (\<lambda>a b. a = b) insns inst s"

definition op_IF_NE :: "u2 list \<Rightarrow> u2 \<Rightarrow> 'w interp \<Rightarrow> 'w step_result" where
  "op_IF_NE insns inst s =
     if22t (\<lambda>a b. a \<noteq> b) insns inst s"

definition op_IF_LT :: "u2 list \<Rightarrow> u2 \<Rightarrow> 'w interp \<Rightarrow> 'w step_result" where
  "op_IF_LT insns inst s =
     if22t (\<lambda>a b. a < b) insns inst s"

definition op_IF_GE :: "u2 list \<Rightarrow> u2 \<Rightarrow> 'w interp \<Rightarrow> 'w step_result" where
  "op_IF_GE insns inst s =
     if22t (\<lambda>a b. a \<ge> b) insns inst s"

definition op_IF_GT :: "u2 list \<Rightarrow> u2 \<Rightarrow> 'w interp \<Rightarrow> 'w step_result" where
  "op_IF_GT insns inst s =
     if22t (\<lambda>a b. a > b) insns inst s"

definition op_IF_LE :: "u2 list \<Rightarrow> u2 \<Rightarrow> 'w interp \<Rightarrow> 'w step_result" where
  "op_IF_LE insns inst s =
     if22t (\<lambda>a b. a \<le> b) insns inst s"

definition op_IF_EQZ :: "u2 list \<Rightarrow> u2 \<Rightarrow> 'w interp \<Rightarrow> 'w step_result" where
  "op_IF_EQZ insns inst s =
     if21t (\<lambda>a. a = 0) insns inst s"

definition op_IF_NEZ :: "u2 list \<Rightarrow> u2 \<Rightarrow> 'w interp \<Rightarrow> 'w step_result" where
  "op_IF_NEZ insns inst s =
     if21t (\<lambda>a. a \<noteq> 0) insns inst s"

definition op_IF_LTZ :: "u2 list \<Rightarrow> u2 \<Rightarrow> 'w interp \<Rightarrow> 'w step_result" where
  "op_IF_LTZ insns inst s =
     if21t (\<lambda>a. a < 0) insns inst s"

definition op_IF_GEZ :: "u2 list \<Rightarrow> u2 \<Rightarrow> 'w interp \<Rightarrow> 'w step_result" where
  "op_IF_GEZ insns inst s =
     if21t (\<lambda>a. a \<ge> 0) insns inst s"

definition op_IF_GTZ :: "u2 list \<Rightarrow> u2 \<Rightarrow> 'w interp \<Rightarrow> 'w step_result" where
  "op_IF_GTZ insns inst s =
     if21t (\<lambda>a. a > 0) insns inst s"

definition op_IF_LEZ :: "u2 list \<Rightarrow> u2 \<Rightarrow> 'w interp \<Rightarrow> 'w step_result" where
  "op_IF_LEZ insns inst s =
     if21t (\<lambda>a. a \<le> 0) insns inst s"

section \<open>Comparisons\<close>

definition regs23x :: "u2 list \<Rightarrow> 'w interp \<Rightarrow> (u2 \<Rightarrow> u2 \<Rightarrow> 'w step_result) \<Rightarrow> 'w step_result" where
  "regs23x insns s f = fetch insns s 1 (\<lambda>regs. f (regs AND 0xff) (drop_bit 8 regs))"

text \<open>The result for unordered operands is the last argument.\<close>

definition cmp_result :: "bool \<Rightarrow> bool \<Rightarrow> bool \<Rightarrow> u4 \<Rightarrow> u8" where
  "cmp_result eq lt gt nan =
     of_i32 (if eq then 0 else if lt then - 1 else if gt then 1 else nan)"

definition cmp_float :: "'w vm_env \<Rightarrow> u4 \<Rightarrow> u2 list \<Rightarrow> u2 \<Rightarrow> 'w interp \<Rightarrow> 'w step_result" where
  "cmp_float e nan insns inst s =
     regs23x insns s (\<lambda>vsrc1 vsrc2. getreg_float s vsrc1 (\<lambda>val1. getreg_float s vsrc2 (\<lambda>val2.
       setreg s (INST_AA inst)
         (cmp_result (f_eq e val1 val2) (f_lt e val1 val2) (f_lt e val2 val1) nan) (finish 2))))"

definition cmp_double :: "'w vm_env \<Rightarrow> u4 \<Rightarrow> u2 list \<Rightarrow> u2 \<Rightarrow> 'w interp \<Rightarrow> 'w step_result" where
  "cmp_double e nan insns inst s =
     regs23x insns s (\<lambda>vsrc1 vsrc2. getreg s vsrc1 (\<lambda>val1. getreg s vsrc2 (\<lambda>val2.
       setreg s (INST_AA inst)
         (cmp_result (d_eq e val1 val2) (d_lt e val1 val2) (d_lt e val2 val1) nan) (finish 2))))"

definition op_CMPL_FLOAT :: "'w vm_env \<Rightarrow> u2 list \<Rightarrow> u2 \<Rightarrow> 'w interp \<Rightarrow> 'w step_result" where
  "op_CMPL_FLOAT e insns inst s =
     cmp_float e (- 1) insns inst s"

definition op_CMPG_FLOAT :: "'w vm_env \<Rightarrow> u2 list \<Rightarrow> u2 \<Rightarrow> 'w interp \<Rightarrow> 'w step_result" where
  "op_CMPG_FLOAT e insns inst s =
     cmp_float e 1 insns inst s"

definition op_CMPL_DOUBLE :: "'w vm_env \<Rightarrow> u2 list \<Rightarrow> u2 \<Rightarrow> 'w interp \<Rightarrow> 'w step_result" where
  "op_CMPL_DOUBLE e insns inst s =
     cmp_double e (- 1) insns inst s"

definition op_CMPG_DOUBLE :: "'w vm_env \<Rightarrow> u2 list \<Rightarrow> u2 \<Rightarrow> 'w interp \<Rightarrow> 'w step_result" where
  "op_CMPG_DOUBLE e insns inst s =
     cmp_double e 1 insns inst s"

definition op_CMP_LONG :: "u2 list \<Rightarrow> u2 \<Rightarrow> 'w interp \<Rightarrow> 'w step_result" where
  "op_CMP_LONG insns inst s =
     regs23x insns s (\<lambda>vsrc1 vsrc2. getreg s vsrc1 (\<lambda>val1. getreg s vsrc2 (\<lambda>val2.
       setreg s (INST_AA inst)
         (cmp_result (val1 = val2) (sint val1 < sint val2) (sint val1 > sint val2) 0) (finish 2))))"

section \<open>Switch tables\<close>

text \<open>
  \<open>dvmInterpHandlePackedSwitch\<close> and \<open>dvmInterpHandleSparseSwitch\<close> of \<^verbatim>\<open>src/vm/interp/Interp.c\<close>. The table starts at position
  \<open>p\<close> of the method's code. The result says whether \<open>InternalError\<close> was thrown for a
  bad magic number and gives the branch offset; 3 is the width of the switch instruction. A
  method's code starts on a 32-bit boundary, so the alignment assertions fail when \<open>p\<close> is odd. The sum
  \<open>firstKey + size\<close> is an \<open>int\<close>, with wrap-around.
\<close>

definition s4FromSwitchData :: "u2 list \<Rightarrow> int \<Rightarrow> u4 outcome" where
  "s4FromSwitchData insns i =
     bind_out (FETCH insns i) (\<lambda>d0. bind_out (FETCH insns (i + 1)) (\<lambda>d1.
       Ret (ucast d0 OR push_bit 16 (ucast d1))))"

definition dvmInterpHandlePackedSwitch :: "u2 list \<Rightarrow> int \<Rightarrow> u4 \<Rightarrow> (bool \<times> int) outcome" where
  "dvmInterpHandlePackedSwitch insns p testVal =
     bind_out (FETCH insns p) (\<lambda>ident.
       if ident \<noteq> kPackedSwitchSignature then Ret (True, 3)
       else bind_out (FETCH insns (p + 1)) (\<lambda>sz.
         if sz = 0 then AbortVM
         else bind_out (s4FromSwitchData insns (p + 2)) (\<lambda>firstKey.
           if sint testVal < sint firstKey \<or> sint testVal \<ge> sint (firstKey + ucast sz)
           then Ret (False, 3)
           else if odd p then AbortVM
           else let slot = sint (testVal - firstKey) in
             if slot < 0 \<or> slot \<ge> uint sz then AbortVM
             else bind_out (s4FromSwitchData insns (p + 4 + 2 * slot)) (\<lambda>off. Ret (False, sint off)))))"

text \<open>The search loop of \<open>dvmInterpHandleSparseSwitch\<close>: \<open>i\<close> is the loop counter, \<open>n\<close> the iterations left.\<close>

fun sparse_loop :: "u2 list \<Rightarrow> int \<Rightarrow> int \<Rightarrow> u4 \<Rightarrow> int \<Rightarrow> nat \<Rightarrow> int outcome" where
  "sparse_loop insns keys entries testVal i 0 = Ret 3"
| "sparse_loop insns keys entries testVal i (Suc n) =
     bind_out (s4FromSwitchData insns (keys + 2 * i)) (\<lambda>k.
       if k = testVal then
         bind_out (s4FromSwitchData insns (entries + 2 * i)) (\<lambda>off. Ret (sint off))
       else if sint k > sint testVal then Ret 3
       else sparse_loop insns keys entries testVal (i + 1) n)"

definition dvmInterpHandleSparseSwitch :: "u2 list \<Rightarrow> int \<Rightarrow> u4 \<Rightarrow> (bool \<times> int) outcome" where
  "dvmInterpHandleSparseSwitch insns p testVal =
     bind_out (FETCH insns p) (\<lambda>ident.
       if ident \<noteq> kSparseSwitchSignature then Ret (True, 3)
       else bind_out (FETCH insns (p + 1)) (\<lambda>sz.
         if sz = 0 then AbortVM
         else if odd p then AbortVM
         else bind_out (sparse_loop insns (p + 2) (p + 2 + 2 * uint sz) testVal 0 (unat sz))
                (\<lambda>off. Ret (False, off))))"

text \<open>
  The two switch arms: the table must lie in the method; after a bad magic number the interpreter
  continues behind the instruction with the exception pending.
\<close>

definition switch31t ::
  "(u2 list \<Rightarrow> int \<Rightarrow> u4 \<Rightarrow> (bool \<times> int) outcome) \<Rightarrow> u2 list \<Rightarrow> u2 \<Rightarrow> 'w interp \<Rightarrow> 'w step_result" where
  "switch31t handle insns inst s =
     fetch_u4 insns s (\<lambda>offset.
       let switchData = pc s + sint offset in
       if switchData < 0 \<or> switchData \<ge> int (length insns)
       then throw_new ''Ljava/lang/InternalError;'' (export_pc s)
       else getreg s (INST_AA inst) (\<lambda>testVal.
         case handle insns switchData (i32 testVal) of
           AbortVM \<Rightarrow> StepAbort
         | OutOfBounds \<Rightarrow> StepOOB
         | Ret (threw, off) \<Rightarrow>
             finish off (if threw then s\<lparr>exception := Some (NewException ''Ljava/lang/InternalError;'')\<rparr>
                         else s)))"

definition op_PACKED_SWITCH :: "u2 list \<Rightarrow> u2 \<Rightarrow> 'w interp \<Rightarrow> 'w step_result" where
  "op_PACKED_SWITCH insns inst s =
     switch31t dvmInterpHandlePackedSwitch insns inst s"

definition op_SPARSE_SWITCH :: "u2 list \<Rightarrow> u2 \<Rightarrow> 'w interp \<Rightarrow> 'w step_result" where
  "op_SPARSE_SWITCH insns inst s =
     switch31t dvmInterpHandleSparseSwitch insns inst s"

lemmas basic_handler_defs =
  op_NOP_def op_MOVE_def op_MOVE_FROM16_def op_MOVE_16_def op_MOVE_WIDE_def
  op_MOVE_WIDE_FROM16_def op_MOVE_WIDE_16_def op_MOVE_OBJECT_def op_MOVE_OBJECT_FROM16_def
  op_MOVE_OBJECT_16_def op_MOVE_RESULT_def op_MOVE_RESULT_WIDE_def op_MOVE_RESULT_OBJECT_def
  op_MOVE_EXCEPTION_def op_RETURN_VOID_def op_RETURN_def op_RETURN_WIDE_def op_RETURN_OBJECT_def
  op_CONST_4_def op_CONST_16_def op_CONST_def op_CONST_HIGH16_def op_CONST_WIDE_16_def
  op_CONST_WIDE_32_def op_CONST_WIDE_def op_CONST_WIDE_HIGH16_def op_GOTO_def op_GOTO_16_def
  op_GOTO_32_def op_IF_EQ_def op_IF_NE_def op_IF_LT_def op_IF_GE_def op_IF_GT_def op_IF_LE_def
  op_IF_EQZ_def op_IF_NEZ_def op_IF_LTZ_def op_IF_GEZ_def op_IF_GTZ_def op_IF_LEZ_def
  op_CMPL_FLOAT_def op_CMPG_FLOAT_def op_CMPL_DOUBLE_def op_CMPG_DOUBLE_def op_CMP_LONG_def
  op_PACKED_SWITCH_def op_SPARSE_SWITCH_def

section \<open>The switch tables are lookups\<close>

text \<open>The tables as the assembler lays them out.\<close>

definition u4_units :: "u4 \<Rightarrow> u2 list" where
  "u4_units w = [ucast w, ucast (drop_bit 16 w)]"

definition packed_units :: "u4 \<Rightarrow> u4 list \<Rightarrow> u2 list" where
  "packed_units firstKey targets =
     [kPackedSwitchSignature, of_nat (length targets)] @ u4_units firstKey @ concat (map u4_units targets)"

definition sparse_units :: "u4 list \<Rightarrow> u4 list \<Rightarrow> u2 list" where
  "sparse_units keys targets =
     [kSparseSwitchSignature, of_nat (length keys)] @ concat (map u4_units keys) @ concat (map u4_units targets)"

text \<open>What a table promises: the offset for a value, or the fall-through to the next instruction.\<close>

definition packed_target :: "u4 \<Rightarrow> u4 list \<Rightarrow> u4 \<Rightarrow> int" where
  "packed_target firstKey targets v =
     (if sint firstKey \<le> sint v \<and> sint v < sint firstKey + int (length targets)
      then sint (targets ! nat (sint v - sint firstKey)) else 3)"

definition sparse_target :: "u4 list \<Rightarrow> u4 list \<Rightarrow> u4 \<Rightarrow> int" where
  "sparse_target keys targets v =
     (case map_of (zip keys targets) v of Some t \<Rightarrow> sint t | None \<Rightarrow> 3)"

lemma u4_units_combine: "ucast (ucast w :: u2) OR push_bit 16 (ucast (ucast (drop_bit 16 w) :: u2)) = (w :: u4)"
  by (rule bit_word_eqI) (auto simp: bit_simps)

lemma s4_units:
  "s4FromSwitchData (pre @ u4_units w @ post) (int (length pre)) = Ret w"
proof -
  have "FETCH (pre @ u4_units w @ post) (int (length pre)) = Ret (ucast w)"
    and "FETCH (pre @ u4_units w @ post) (int (length pre) + 1) = Ret (ucast (drop_bit 16 w))"
    by (simp_all add: u4_units_def nth_append nat_add_distrib)
  then show ?thesis
    by (simp add: s4FromSwitchData_def u4_units_combine)
qed

lemma length_concat_units [simp]: "length (concat (map u4_units ws)) = 2 * length ws"
  by (induction ws) (simp_all add: u4_units_def)

lemma s4_nth:
  assumes "i < length ws"
  shows "s4FromSwitchData (pre @ concat (map u4_units ws) @ post) (int (length pre) + 2 * int i) = Ret (ws ! i)"
proof -
  let ?pre = "pre @ concat (map u4_units (take i ws))"
  have "ws = take i ws @ ws ! i # drop (Suc i) ws"
    using assms by (rule id_take_nth_drop)
  then have "pre @ concat (map u4_units ws) @ post
      = ?pre @ u4_units (ws ! i) @ (concat (map u4_units (drop (Suc i) ws)) @ post)"
    by (metis append.assoc concat.simps(2) concat_append list.simps(9) map_append)
  moreover have "int (length ?pre) = int (length pre) + 2 * int i"
    using assms by simp
  ultimately show ?thesis by (metis s4_units)
qed

text \<open>A signed comparison of 32-bit values does not overflow when the true values fit.\<close>

lemma sint_add_small:
  fixes a :: u4
  assumes "sint a + int n < 2 ^ 31" and "n < 2 ^ 31"
  shows "sint (a + of_nat n) = sint a + int n"
proof -
  have "a + of_nat n = word_of_int (sint a + int n)"
    by simp
  moreover have "- (2 ^ 31) \<le> sint a + int n"
    using sint_ge [of a] by simp
  ultimately show ?thesis
    using assms(1) sint_word_of_int_fits [where 'a = 32, of "sint a + int n"] by simp
qed

lemma sint_diff_small:
  fixes a b :: u4
  assumes "sint b \<le> sint a" and "sint a - sint b < 2 ^ 31"
  shows "sint (a - b) = sint a - sint b"
proof -
  have "a - b = word_of_int (sint a - sint b)"
    by simp
  then show ?thesis
    using assms sint_word_of_int_fits [where 'a = 32, of "sint a - sint b"] by simp
qed

lemma packed_layout:
  fixes pre post targets firstKey
  defines "insns \<equiv> pre @ packed_units firstKey targets @ post" and "p \<equiv> int (length pre)"
  shows "FETCH insns p = Ret kPackedSwitchSignature"
    and "FETCH insns (p + 1) = Ret (of_nat (length targets))"
    and "s4FromSwitchData insns (p + 2) = Ret firstKey"
    and "i < length targets \<Longrightarrow> s4FromSwitchData insns (p + 4 + 2 * int i) = Ret (targets ! i)"
proof -
  let ?hd = "[kPackedSwitchSignature, of_nat (length targets)]"
  show "FETCH insns p = Ret kPackedSwitchSignature" "FETCH insns (p + 1) = Ret (of_nat (length targets))"
    by (simp_all add: insns_def p_def packed_units_def nth_append nat_add_distrib)
  have "insns = (pre @ ?hd) @ u4_units firstKey @ (concat (map u4_units targets) @ post)"
    by (simp add: insns_def packed_units_def)
  from arg_cong [OF this, of "\<lambda>l. s4FromSwitchData l (int (length (pre @ ?hd)))"]
  show "s4FromSwitchData insns (p + 2) = Ret firstKey"
    unfolding s4_units by (simp add: p_def add.commute)
  have "insns = (pre @ ?hd @ u4_units firstKey) @ concat (map u4_units targets) @ post"
    by (simp add: insns_def packed_units_def)
  then show "s4FromSwitchData insns (p + 4 + 2 * int i) = Ret (targets ! i)" if "i < length targets"
    using s4_nth [OF that, of "pre @ ?hd @ u4_units firstKey" post] that
    by (simp add: p_def u4_units_def algebra_simps)
qed



lemma sparse_layout:
  fixes pre post keys targets
  defines "insns \<equiv> pre @ sparse_units keys targets @ post" and "p \<equiv> int (length pre)"
  assumes "length targets = length keys"
  shows "FETCH insns p = Ret kSparseSwitchSignature"
    and "FETCH insns (p + 1) = Ret (of_nat (length keys))"
    and "i < length keys \<Longrightarrow> s4FromSwitchData insns (p + 2 + 2 * int i) = Ret (keys ! i)"
    and "i < length keys \<Longrightarrow>
         s4FromSwitchData insns (p + 2 + 2 * int (length keys) + 2 * int i) = Ret (targets ! i)"
proof -
  let ?hd = "[kSparseSwitchSignature, of_nat (length keys)]"
  show "FETCH insns p = Ret kSparseSwitchSignature" "FETCH insns (p + 1) = Ret (of_nat (length keys))"
    by (simp_all add: insns_def p_def sparse_units_def nth_append nat_add_distrib)
  have "insns = (pre @ ?hd) @ concat (map u4_units keys) @ (concat (map u4_units targets) @ post)"
    by (simp add: insns_def sparse_units_def)
  then show "s4FromSwitchData insns (p + 2 + 2 * int i) = Ret (keys ! i)" if "i < length keys"
    using s4_nth [OF that, of "pre @ ?hd" "concat (map u4_units targets) @ post"]
    by (simp add: p_def algebra_simps)
  have "insns = (pre @ ?hd @ concat (map u4_units keys)) @ concat (map u4_units targets) @ post"
    by (simp add: insns_def sparse_units_def)
  then show "s4FromSwitchData insns (p + 2 + 2 * int (length keys) + 2 * int i) = Ret (targets ! i)"
    if "i < length keys"
    using s4_nth [of i targets "pre @ ?hd @ concat (map u4_units keys)" post] that assms(3)
    by (simp add: p_def algebra_simps)
qed

text \<open>The early exit of the loop is sound because the keys are sorted as signed values.\<close>

definition sorted_keys :: "u4 list \<Rightarrow> bool" where
  "sorted_keys keys \<longleftrightarrow> sorted_wrt (\<lambda>a b. sint a < sint b) keys"

lemma map_of_zip_drop:
  assumes "i < length keys" and "length targets = length keys"
  shows "map_of (zip (drop i keys) (drop i targets)) v
       = (if keys ! i = v then Some (targets ! i)
          else map_of (zip (drop (Suc i) keys) (drop (Suc i) targets)) v)"
  using assms by (simp flip: Cons_nth_drop_Suc)

lemma sparse_loop_correct:
  assumes len: "length targets = length keys" and "sorted_keys keys"
    and key: "\<And>i. i < length keys \<Longrightarrow> s4FromSwitchData insns (kp + 2 * int i) = Ret (keys ! i)"
    and tgt: "\<And>i. i < length keys \<Longrightarrow> s4FromSwitchData insns (ep + 2 * int i) = Ret (targets ! i)"
  shows "i + n = length keys \<Longrightarrow> sparse_loop insns kp ep v (int i) n
       = Ret (sparse_target (drop i keys) (drop i targets) v)"
proof (induction n arbitrary: i)
  case 0
  then show ?case by (simp add: sparse_target_def)
next
  case (Suc n)
  have i: "i < length keys" using Suc.prems by simp
  show ?case
  proof (cases "keys ! i \<noteq> v \<and> sint (keys ! i) > sint v")
    case True
    have "v \<notin> set (drop i keys)"
    proof
      assume "v \<in> set (drop i keys)"
      then obtain j where j: "i \<le> j" "j < length keys" "keys ! j = v"
        by (metis Suc.prems in_set_conv_nth le_add1 length_drop less_diff_conv add.commute nth_drop le_add2 order_less_imp_le i)
      then have "sint (keys ! i) \<le> sint (keys ! j)"
        using assms(2) by (auto simp: sorted_keys_def sorted_wrt_iff_nth_less order_le_less)
      with True j show False by simp
    qed
    then have "map_of (zip (drop i keys) (drop i targets)) v = None"
      by (simp add: map_of_zip_is_None len)
    then show ?thesis using True by (simp add: key [OF i] sparse_target_def)
  next
    case False
    then show ?thesis
      using Suc.IH [of "Suc i"] Suc.prems
      by (auto simp: key [OF i] tgt [OF i] sparse_target_def map_of_zip_drop [OF i len] add.commute)
  qed
qed

text \<open>C25 (sparse switch). For a table laid out at an even position with between 1 and 65535 keys in ascending signed
  order, \<open>dvmInterpHandleSparseSwitch\<close> returns the target paired with the value, or 3 when the
  value is no key: the early exit at the first larger key loses nothing.\<close>

theorem sparse_switch_lookup:
  assumes "even (length pre)" and "keys \<noteq> []" and "length keys < 2 ^ 16"
    and "length targets = length keys" and "sorted_keys keys"
  shows "dvmInterpHandleSparseSwitch (pre @ sparse_units keys targets @ post) (int (length pre)) v
       = Ret (False, sparse_target keys targets v)"
proof -
  let ?insns = "pre @ sparse_units keys targets @ post" and ?p = "int (length pre)"
  note layout = sparse_layout [OF assms(4), where pre = pre and post = post]
  have sz: "unat (of_nat (length keys) :: u2) = length keys"
    using assms(3) by (simp add: unat_of_nat take_bit_nat_eq_self)
  then have sz0: "(of_nat (length keys) :: u2) \<noteq> 0" and usz: "uint (of_nat (length keys) :: u2) = int (length keys)"
    using assms(2) by (auto simp: uint_nat simp flip: unat_eq_0)
  have "sparse_loop ?insns (?p + 2) (?p + 2 + 2 * int (length keys)) v (int 0) (length keys)
      = Ret (sparse_target (drop 0 keys) (drop 0 targets) v)"
    using layout(3,4) by (intro sparse_loop_correct [OF assms(4,5)]) (simp_all add: add.assoc)
  then show ?thesis
    using sz sz0 usz assms(1) by (simp add: dvmInterpHandleSparseSwitch_def layout)
qed

theorem sparse_switch_lookup_witness:
  "dvmInterpHandleSparseSwitch ([] @ sparse_units [- 7, 4] [10, 20] @ []) (int (length ([] :: u2 list))) 4
     = Ret (False, 20)"
  using sparse_switch_lookup [of "[]" "[- 7, 4]" "[10, 20]" "[]" 4]
  by (simp add: sparse_target_def sorted_keys_def)


end
