(* ===== verification/InterpArith.thy ===== *)
theory InterpArith
  imports InterpBasic "HOL-Library.Signed_Division"
begin

text \<open>
  The arithmetic arms of \<open>dvmInterpretStd\<close>: conversions, the binary operations in their four
  encodings (three registers, two registers, 16-bit and 8-bit literal) on \<open>int\<close>, \<open>long\<close>, \<open>float\<close>
  and \<open>double\<close>, one definition per \<open>case\<close>. Registers are 64 bits wide: an
  \<open>int32_t\<close> result is sign-extended into the slot and a \<open>u_int32_t\<close> result zero-extended; the literal-16 arms and the negations
  compute on the whole slot, as the source does. C division truncates; \<open>sdiv\<close> and \<open>smod\<close> are
  the library's truncating operations.
\<close>

section \<open>Unary operations and conversions\<close>

definition op_NEG_INT :: "u2 list \<Rightarrow> u2 \<Rightarrow> 'w interp \<Rightarrow> 'w step_result" where
  "op_NEG_INT insns inst s = unop12x (\<lambda>a. - a) inst s"

definition op_NOT_INT :: "u2 list \<Rightarrow> u2 \<Rightarrow> 'w interp \<Rightarrow> 'w step_result" where
  "op_NOT_INT insns inst s = unop12x (\<lambda>a. a XOR 0xffffffff) inst s"

definition op_NEG_LONG :: "u2 list \<Rightarrow> u2 \<Rightarrow> 'w interp \<Rightarrow> 'w step_result" where
  "op_NEG_LONG insns inst s = unop12x (\<lambda>a. - a) inst s"

definition op_NOT_LONG :: "u2 list \<Rightarrow> u2 \<Rightarrow> 'w interp \<Rightarrow> 'w step_result" where
  "op_NOT_LONG insns inst s = unop12x (\<lambda>a. a XOR 0xffffffffffffffff) inst s"

text \<open>The unary arms with a \<open>float\<close> as source, destination or both.\<close>

definition unop_to_float :: "(u8 \<Rightarrow> u4) \<Rightarrow> u2 \<Rightarrow> 'w interp \<Rightarrow> 'w step_result" where
  "unop_to_float f inst s =
     getreg s (INST_B inst) (\<lambda>a. setreg_float s (INST_A inst) (f a) (finish 1))"

definition unop_from_float :: "(u4 \<Rightarrow> u8) \<Rightarrow> u2 \<Rightarrow> 'w interp \<Rightarrow> 'w step_result" where
  "unop_from_float f inst s =
     getreg_float s (INST_B inst) (\<lambda>a. setreg s (INST_A inst) (f a) (finish 1))"

text \<open>
  The saturating conversions to \<open>int\<close> and \<open>long\<close>: \<open>val >= intMax\<close>, \<open>val <= intMin\<close>, \<open>val != val\<close> in this order, the limits
  converted to the floating-point type. \<open>x >= y\<close> is \<open>y < x\<close> or \<open>y == x\<close> in the operations of \<^const>\<open>f_lt\<close> and \<^const>\<open>f_eq\<close>.
\<close>

definition to_integer :: "('v \<Rightarrow> 'v \<Rightarrow> bool) \<Rightarrow> ('v \<Rightarrow> 'v \<Rightarrow> bool) \<Rightarrow> ('r \<Rightarrow> 'v) \<Rightarrow> ('v \<Rightarrow> 'r) \<Rightarrow> 'r \<Rightarrow> 'r \<Rightarrow> 'r \<Rightarrow> 'v \<Rightarrow> 'r" where
  "to_integer eq lt conv cast intMin intMax zero val =
     (if lt (conv intMax) val \<or> eq (conv intMax) val then intMax
      else if lt val (conv intMin) \<or> eq val (conv intMin) then intMin
      else if \<not> eq val val then zero
      else cast val)"

definition intMin32 :: u4 where "intMin32 = push_bit 31 1"

definition intMin64 :: u8 where "intMin64 = push_bit 63 1"

definition op_NEG_FLOAT :: "'w vm_env \<Rightarrow> u2 list \<Rightarrow> u2 \<Rightarrow> 'w interp \<Rightarrow> 'w step_result" where
  "op_NEG_FLOAT e insns inst s =
     getreg_float s (INST_B inst) (\<lambda>a. setreg_float s (INST_A inst) (f_neg e a) (finish 1))"

definition op_NEG_DOUBLE :: "'w vm_env \<Rightarrow> u2 list \<Rightarrow> u2 \<Rightarrow> 'w interp \<Rightarrow> 'w step_result" where
  "op_NEG_DOUBLE e insns inst s = unop12x (d_neg e) inst s"

definition op_INT_TO_LONG :: "u2 list \<Rightarrow> u2 \<Rightarrow> 'w interp \<Rightarrow> 'w step_result" where
  "op_INT_TO_LONG insns inst s = unop12x (\<lambda>a. of_i32 (i32 a)) inst s"

definition op_INT_TO_FLOAT :: "'w vm_env \<Rightarrow> u2 list \<Rightarrow> u2 \<Rightarrow> 'w interp \<Rightarrow> 'w step_result" where
  "op_INT_TO_FLOAT e insns inst s = unop_to_float (\<lambda>a. f_of_s4 e (i32 a)) inst s"

definition op_INT_TO_DOUBLE :: "'w vm_env \<Rightarrow> u2 list \<Rightarrow> u2 \<Rightarrow> 'w interp \<Rightarrow> 'w step_result" where
  "op_INT_TO_DOUBLE e insns inst s = unop12x (\<lambda>a. d_of_s4 e (i32 a)) inst s"

definition op_LONG_TO_INT :: "u2 list \<Rightarrow> u2 \<Rightarrow> 'w interp \<Rightarrow> 'w step_result" where
  "op_LONG_TO_INT insns inst s = unop12x (\<lambda>a. of_i32 (i32 a)) inst s"

definition op_LONG_TO_FLOAT :: "'w vm_env \<Rightarrow> u2 list \<Rightarrow> u2 \<Rightarrow> 'w interp \<Rightarrow> 'w step_result" where
  "op_LONG_TO_FLOAT e insns inst s = unop_to_float (f_of_s8 e) inst s"

definition op_LONG_TO_DOUBLE :: "'w vm_env \<Rightarrow> u2 list \<Rightarrow> u2 \<Rightarrow> 'w interp \<Rightarrow> 'w step_result" where
  "op_LONG_TO_DOUBLE e insns inst s = unop12x (d_of_s8 e) inst s"

definition op_FLOAT_TO_INT :: "'w vm_env \<Rightarrow> u2 list \<Rightarrow> u2 \<Rightarrow> 'w interp \<Rightarrow> 'w step_result" where
  "op_FLOAT_TO_INT e insns inst s =
     unop_from_float
       (\<lambda>a. of_i32 (to_integer (f_eq e) (f_lt e) (f_of_s4 e) (f_to_s4 e) intMin32 (NOT intMin32) 0 a)) inst s"

definition op_FLOAT_TO_LONG :: "'w vm_env \<Rightarrow> u2 list \<Rightarrow> u2 \<Rightarrow> 'w interp \<Rightarrow> 'w step_result" where
  "op_FLOAT_TO_LONG e insns inst s =
     unop_from_float
       (to_integer (f_eq e) (f_lt e) (f_of_s8 e) (f_to_s8 e) intMin64 (NOT intMin64) 0) inst s"

definition op_FLOAT_TO_DOUBLE :: "'w vm_env \<Rightarrow> u2 list \<Rightarrow> u2 \<Rightarrow> 'w interp \<Rightarrow> 'w step_result" where
  "op_FLOAT_TO_DOUBLE e insns inst s = unop_from_float (d_of_f e) inst s"

definition op_DOUBLE_TO_INT :: "'w vm_env \<Rightarrow> u2 list \<Rightarrow> u2 \<Rightarrow> 'w interp \<Rightarrow> 'w step_result" where
  "op_DOUBLE_TO_INT e insns inst s =
     unop12x
       (\<lambda>a. of_i32 (to_integer (d_eq e) (d_lt e) (d_of_s4 e) (d_to_s4 e) intMin32 (NOT intMin32) 0 a)) inst s"

definition op_DOUBLE_TO_LONG :: "'w vm_env \<Rightarrow> u2 list \<Rightarrow> u2 \<Rightarrow> 'w interp \<Rightarrow> 'w step_result" where
  "op_DOUBLE_TO_LONG e insns inst s =
     unop12x
       (to_integer (d_eq e) (d_lt e) (d_of_s8 e) (d_to_s8 e) intMin64 (NOT intMin64) 0) inst s"

definition op_DOUBLE_TO_FLOAT :: "'w vm_env \<Rightarrow> u2 list \<Rightarrow> u2 \<Rightarrow> 'w interp \<Rightarrow> 'w step_result" where
  "op_DOUBLE_TO_FLOAT e insns inst s = unop_to_float (f_of_d e) inst s"

definition op_INT_TO_BYTE :: "u2 list \<Rightarrow> u2 \<Rightarrow> 'w interp \<Rightarrow> 'w step_result" where
  "op_INT_TO_BYTE insns inst s = unop12x (\<lambda>a. scast (ucast a :: u1)) inst s"

definition op_INT_TO_CHAR :: "u2 list \<Rightarrow> u2 \<Rightarrow> 'w interp \<Rightarrow> 'w step_result" where
  "op_INT_TO_CHAR insns inst s = unop12x (\<lambda>a. ucast (ucast a :: u2)) inst s"

definition op_INT_TO_SHORT :: "u2 list \<Rightarrow> u2 \<Rightarrow> 'w interp \<Rightarrow> 'w step_result" where
  "op_INT_TO_SHORT insns inst s = unop12x (\<lambda>a. scast (ucast a :: u2)) inst s"

section \<open>The shapes of the binary operations\<close>

definition binop23x :: "(u8 \<Rightarrow> u8 \<Rightarrow> u8) \<Rightarrow> u2 list \<Rightarrow> u2 \<Rightarrow> 'w interp \<Rightarrow> 'w step_result" where
  "binop23x f insns inst s =
     regs23x insns s (\<lambda>vsrc1 vsrc2. getreg s vsrc1 (\<lambda>a. getreg s vsrc2 (\<lambda>b.
       setreg s (INST_AA inst) (f a b) (finish 2))))"

definition binop2addr :: "(u8 \<Rightarrow> u8 \<Rightarrow> u8) \<Rightarrow> u2 \<Rightarrow> 'w interp \<Rightarrow> 'w step_result" where
  "binop2addr f inst s =
     getreg s (INST_A inst) (\<lambda>a. getreg s (INST_B inst) (\<lambda>b.
       setreg s (INST_A inst) (f a b) (finish 1)))"

definition binop_lit16 :: "(u8 \<Rightarrow> u2 \<Rightarrow> u8) \<Rightarrow> u2 list \<Rightarrow> u2 \<Rightarrow> 'w interp \<Rightarrow> 'w step_result" where
  "binop_lit16 f insns inst s =
     fetch insns s 1 (\<lambda>vsrc2. getreg s (INST_B inst) (\<lambda>a.
       setreg s (INST_A inst) (f a vsrc2) (finish 2)))"

text \<open>The literal of the 8-bit form is \<open>vsrc2 = litInfo >> 8\<close>, used as \<open>(s1) vsrc2\<close> or as a shift count.\<close>

definition binop_lit8 :: "(u8 \<Rightarrow> u2 \<Rightarrow> u8) \<Rightarrow> u2 list \<Rightarrow> u2 \<Rightarrow> 'w interp \<Rightarrow> 'w step_result" where
  "binop_lit8 f insns inst s =
     regs23x insns s (\<lambda>vsrc1 vsrc2. getreg s vsrc1 (\<lambda>a.
       setreg s (INST_AA inst) (f a vsrc2) (finish 2)))"

text \<open>Division and remainder, which throw for a zero divisor; \<open>f\<close> is applied to a non-zero one only.\<close>

definition throw_div :: "'w interp \<Rightarrow> 'w step_result" where
  "throw_div s = throw_new ''Ljava/lang/ArithmeticException;'' (export_pc s)"

definition divop23x :: "(u8 \<Rightarrow> bool) \<Rightarrow> (u8 \<Rightarrow> u8 \<Rightarrow> u8) \<Rightarrow> u2 list \<Rightarrow> u2 \<Rightarrow> 'w interp \<Rightarrow> 'w step_result" where
  "divop23x is_zero f insns inst s =
     regs23x insns s (\<lambda>vsrc1 vsrc2. getreg s vsrc1 (\<lambda>a. getreg s vsrc2 (\<lambda>b.
       if is_zero b then throw_div s else setreg s (INST_AA inst) (f a b) (finish 2))))"

definition divop2addr :: "(u8 \<Rightarrow> bool) \<Rightarrow> (u8 \<Rightarrow> u8 \<Rightarrow> u8) \<Rightarrow> u2 \<Rightarrow> 'w interp \<Rightarrow> 'w step_result" where
  "divop2addr is_zero f inst s =
     getreg s (INST_A inst) (\<lambda>a. getreg s (INST_B inst) (\<lambda>b.
       if is_zero b then throw_div s else setreg s (INST_A inst) (f a b) (finish 1)))"

definition divop_lit16 :: "(u8 \<Rightarrow> u2 \<Rightarrow> u8) \<Rightarrow> u2 list \<Rightarrow> u2 \<Rightarrow> 'w interp \<Rightarrow> 'w step_result" where
  "divop_lit16 f insns inst s =
     fetch insns s 1 (\<lambda>vsrc2. getreg s (INST_B inst) (\<lambda>a.
       if vsrc2 = 0 then throw_div s else setreg s (INST_A inst) (f a vsrc2) (finish 2)))"

definition divop_lit8 :: "(u8 \<Rightarrow> u2 \<Rightarrow> u8) \<Rightarrow> u2 list \<Rightarrow> u2 \<Rightarrow> 'w interp \<Rightarrow> 'w step_result" where
  "divop_lit8 f insns inst s =
     regs23x insns s (\<lambda>vsrc1 vsrc2. getreg s vsrc1 (\<lambda>a.
       if (ucast vsrc2 :: u1) = 0 then throw_div s else setreg s (INST_AA inst) (f a vsrc2) (finish 2)))"

text \<open>The quotient and remainder with the case the C operators leave undefined singled out.\<close>

definition div_s4 :: "u4 \<Rightarrow> u4 \<Rightarrow> u4" where
  "div_s4 firstVal secondVal =
     (if firstVal = 0x80000000 \<and> secondVal = - 1 then firstVal
      else word_of_int (sint firstVal sdiv sint secondVal))"

definition rem_s4 :: "u4 \<Rightarrow> u4 \<Rightarrow> u4" where
  "rem_s4 firstVal secondVal =
     (if firstVal = 0x80000000 \<and> secondVal = - 1 then 0
      else word_of_int (sint firstVal smod sint secondVal))"

definition div_s8 :: "u8 \<Rightarrow> u8 \<Rightarrow> u8" where
  "div_s8 firstVal secondVal =
     (if firstVal = 0x8000000000000000 \<and> secondVal = - 1 then firstVal
      else word_of_int (sint firstVal sdiv sint secondVal))"

definition rem_s8 :: "u8 \<Rightarrow> u8 \<Rightarrow> u8" where
  "rem_s8 firstVal secondVal =
     (if firstVal = 0x8000000000000000 \<and> secondVal = - 1 then 0
      else word_of_int (sint firstVal smod sint secondVal))"

text \<open>Shift counts: \<open>fp[v] & 0x1f\<close>, \<open>fp[v] & 0x3f\<close> and \<open>vsrc2 & 0x1f\<close>.\<close>

definition count32 :: "u8 \<Rightarrow> nat" where "count32 b = unat (b AND 0x1f)"

definition count64 :: "u8 \<Rightarrow> nat" where "count64 b = unat (b AND 0x3f)"

definition count_lit :: "u2 \<Rightarrow> nat" where "count_lit b = unat (b AND 0x1f)"

text \<open>The literals: \<open>(int16_t) vsrc2\<close> widened to the register, and \<open>(s1) vsrc2\<close> as an \<open>int\<close>.\<close>

definition lit16 :: "u2 \<Rightarrow> u8" where "lit16 w = scast w"

definition lit16_int :: "u2 \<Rightarrow> u4" where "lit16_int w = scast w"

definition lit8_int :: "u2 \<Rightarrow> u4" where "lit8_int w = scast (ucast w :: u1)"

section \<open>Three-register operations\<close>

definition op_ADD_INT :: "u2 list \<Rightarrow> u2 \<Rightarrow> 'w interp \<Rightarrow> 'w step_result" where
  "op_ADD_INT insns inst s = binop23x (\<lambda>a b. of_i32 (i32 a + i32 b)) insns inst s"

definition op_SUB_INT :: "u2 list \<Rightarrow> u2 \<Rightarrow> 'w interp \<Rightarrow> 'w step_result" where
  "op_SUB_INT insns inst s = binop23x (\<lambda>a b. of_i32 (i32 a - i32 b)) insns inst s"

definition op_MUL_INT :: "u2 list \<Rightarrow> u2 \<Rightarrow> 'w interp \<Rightarrow> 'w step_result" where
  "op_MUL_INT insns inst s = binop23x (\<lambda>a b. of_i32 (i32 a * i32 b)) insns inst s"

definition op_DIV_INT :: "u2 list \<Rightarrow> u2 \<Rightarrow> 'w interp \<Rightarrow> 'w step_result" where
  "op_DIV_INT insns inst s =
     divop23x (\<lambda>b. i32 b = 0) (\<lambda>a b. of_i32 (div_s4 (i32 a) (i32 b))) insns inst s"

definition op_REM_INT :: "u2 list \<Rightarrow> u2 \<Rightarrow> 'w interp \<Rightarrow> 'w step_result" where
  "op_REM_INT insns inst s =
     divop23x (\<lambda>b. i32 b = 0) (\<lambda>a b. of_i32 (rem_s4 (i32 a) (i32 b))) insns inst s"

definition op_AND_INT :: "u2 list \<Rightarrow> u2 \<Rightarrow> 'w interp \<Rightarrow> 'w step_result" where
  "op_AND_INT insns inst s = binop23x (\<lambda>a b. of_i32 (i32 a AND i32 b)) insns inst s"

definition op_OR_INT :: "u2 list \<Rightarrow> u2 \<Rightarrow> 'w interp \<Rightarrow> 'w step_result" where
  "op_OR_INT insns inst s = binop23x (\<lambda>a b. of_i32 (i32 a OR i32 b)) insns inst s"

definition op_XOR_INT :: "u2 list \<Rightarrow> u2 \<Rightarrow> 'w interp \<Rightarrow> 'w step_result" where
  "op_XOR_INT insns inst s = binop23x (\<lambda>a b. of_i32 (i32 a XOR i32 b)) insns inst s"

definition op_SHL_INT :: "u2 list \<Rightarrow> u2 \<Rightarrow> 'w interp \<Rightarrow> 'w step_result" where
  "op_SHL_INT insns inst s =
     binop23x (\<lambda>a b. of_i32 (push_bit (count32 b) (i32 a))) insns inst s"

definition op_SHR_INT :: "u2 list \<Rightarrow> u2 \<Rightarrow> 'w interp \<Rightarrow> 'w step_result" where
  "op_SHR_INT insns inst s =
     binop23x (\<lambda>a b. of_i32 (signed_drop_bit (count32 b) (i32 a))) insns inst s"

definition op_USHR_INT :: "u2 list \<Rightarrow> u2 \<Rightarrow> 'w interp \<Rightarrow> 'w step_result" where
  "op_USHR_INT insns inst s =
     binop23x (\<lambda>a b. ucast (drop_bit (count32 b) (i32 a))) insns inst s"

definition op_ADD_LONG :: "u2 list \<Rightarrow> u2 \<Rightarrow> 'w interp \<Rightarrow> 'w step_result" where
  "op_ADD_LONG insns inst s = binop23x (\<lambda>a b. a + b) insns inst s"

definition op_SUB_LONG :: "u2 list \<Rightarrow> u2 \<Rightarrow> 'w interp \<Rightarrow> 'w step_result" where
  "op_SUB_LONG insns inst s = binop23x (\<lambda>a b. a - b) insns inst s"

definition op_MUL_LONG :: "u2 list \<Rightarrow> u2 \<Rightarrow> 'w interp \<Rightarrow> 'w step_result" where
  "op_MUL_LONG insns inst s = binop23x (\<lambda>a b. a * b) insns inst s"

definition op_DIV_LONG :: "u2 list \<Rightarrow> u2 \<Rightarrow> 'w interp \<Rightarrow> 'w step_result" where
  "op_DIV_LONG insns inst s =
     divop23x (\<lambda>b. b = 0) (\<lambda>a b. div_s8 a b) insns inst s"

definition op_REM_LONG :: "u2 list \<Rightarrow> u2 \<Rightarrow> 'w interp \<Rightarrow> 'w step_result" where
  "op_REM_LONG insns inst s =
     divop23x (\<lambda>b. b = 0) (\<lambda>a b. rem_s8 a b) insns inst s"

definition op_AND_LONG :: "u2 list \<Rightarrow> u2 \<Rightarrow> 'w interp \<Rightarrow> 'w step_result" where
  "op_AND_LONG insns inst s = binop23x (\<lambda>a b. a AND b) insns inst s"

definition op_OR_LONG :: "u2 list \<Rightarrow> u2 \<Rightarrow> 'w interp \<Rightarrow> 'w step_result" where
  "op_OR_LONG insns inst s = binop23x (\<lambda>a b. a OR b) insns inst s"

definition op_XOR_LONG :: "u2 list \<Rightarrow> u2 \<Rightarrow> 'w interp \<Rightarrow> 'w step_result" where
  "op_XOR_LONG insns inst s = binop23x (\<lambda>a b. a XOR b) insns inst s"

definition op_SHL_LONG :: "u2 list \<Rightarrow> u2 \<Rightarrow> 'w interp \<Rightarrow> 'w step_result" where
  "op_SHL_LONG insns inst s = binop23x (\<lambda>a b. push_bit (count64 b) a) insns inst s"

definition op_SHR_LONG :: "u2 list \<Rightarrow> u2 \<Rightarrow> 'w interp \<Rightarrow> 'w step_result" where
  "op_SHR_LONG insns inst s =
     binop23x (\<lambda>a b. signed_drop_bit (count64 b) a) insns inst s"

definition op_USHR_LONG :: "u2 list \<Rightarrow> u2 \<Rightarrow> 'w interp \<Rightarrow> 'w step_result" where
  "op_USHR_LONG insns inst s = binop23x (\<lambda>a b. drop_bit (count64 b) a) insns inst s"

definition float23x :: "(u4 \<Rightarrow> u4 \<Rightarrow> u4) \<Rightarrow> u2 list \<Rightarrow> u2 \<Rightarrow> 'w interp \<Rightarrow> 'w step_result" where
  "float23x f insns inst s =
     regs23x insns s (\<lambda>vsrc1 vsrc2. getreg_float s vsrc1 (\<lambda>a. getreg_float s vsrc2 (\<lambda>b.
       setreg_float s (INST_AA inst) (f a b) (finish 2))))"

definition float2addr :: "(u4 \<Rightarrow> u4 \<Rightarrow> u4) \<Rightarrow> u2 \<Rightarrow> 'w interp \<Rightarrow> 'w step_result" where
  "float2addr f inst s =
     getreg_float s (INST_A inst) (\<lambda>a. getreg_float s (INST_B inst) (\<lambda>b.
       setreg_float s (INST_A inst) (f a b) (finish 1)))"

definition op_ADD_FLOAT :: "'w vm_env \<Rightarrow> u2 list \<Rightarrow> u2 \<Rightarrow> 'w interp \<Rightarrow> 'w step_result" where
  "op_ADD_FLOAT e insns inst s = float23x (f_add e) insns inst s"

definition op_SUB_FLOAT :: "'w vm_env \<Rightarrow> u2 list \<Rightarrow> u2 \<Rightarrow> 'w interp \<Rightarrow> 'w step_result" where
  "op_SUB_FLOAT e insns inst s = float23x (f_sub e) insns inst s"

definition op_MUL_FLOAT :: "'w vm_env \<Rightarrow> u2 list \<Rightarrow> u2 \<Rightarrow> 'w interp \<Rightarrow> 'w step_result" where
  "op_MUL_FLOAT e insns inst s = float23x (f_mul e) insns inst s"

definition op_DIV_FLOAT :: "'w vm_env \<Rightarrow> u2 list \<Rightarrow> u2 \<Rightarrow> 'w interp \<Rightarrow> 'w step_result" where
  "op_DIV_FLOAT e insns inst s = float23x (f_div e) insns inst s"

definition op_REM_FLOAT :: "'w vm_env \<Rightarrow> u2 list \<Rightarrow> u2 \<Rightarrow> 'w interp \<Rightarrow> 'w step_result" where
  "op_REM_FLOAT e insns inst s = float23x (f_fmod e) insns inst s"

definition op_ADD_DOUBLE :: "'w vm_env \<Rightarrow> u2 list \<Rightarrow> u2 \<Rightarrow> 'w interp \<Rightarrow> 'w step_result" where
  "op_ADD_DOUBLE e insns inst s = binop23x (d_add e) insns inst s"

definition op_SUB_DOUBLE :: "'w vm_env \<Rightarrow> u2 list \<Rightarrow> u2 \<Rightarrow> 'w interp \<Rightarrow> 'w step_result" where
  "op_SUB_DOUBLE e insns inst s = binop23x (d_sub e) insns inst s"

definition op_MUL_DOUBLE :: "'w vm_env \<Rightarrow> u2 list \<Rightarrow> u2 \<Rightarrow> 'w interp \<Rightarrow> 'w step_result" where
  "op_MUL_DOUBLE e insns inst s = binop23x (d_mul e) insns inst s"

definition op_DIV_DOUBLE :: "'w vm_env \<Rightarrow> u2 list \<Rightarrow> u2 \<Rightarrow> 'w interp \<Rightarrow> 'w step_result" where
  "op_DIV_DOUBLE e insns inst s = binop23x (d_div e) insns inst s"

definition op_REM_DOUBLE :: "'w vm_env \<Rightarrow> u2 list \<Rightarrow> u2 \<Rightarrow> 'w interp \<Rightarrow> 'w step_result" where
  "op_REM_DOUBLE e insns inst s = binop23x (d_fmod e) insns inst s"

section \<open>Two-register operations\<close>

definition op_ADD_INT_2ADDR :: "u2 list \<Rightarrow> u2 \<Rightarrow> 'w interp \<Rightarrow> 'w step_result" where
  "op_ADD_INT_2ADDR insns inst s = binop2addr (\<lambda>a b. of_i32 (i32 a + i32 b)) inst s"

definition op_SUB_INT_2ADDR :: "u2 list \<Rightarrow> u2 \<Rightarrow> 'w interp \<Rightarrow> 'w step_result" where
  "op_SUB_INT_2ADDR insns inst s = binop2addr (\<lambda>a b. of_i32 (i32 a - i32 b)) inst s"

definition op_MUL_INT_2ADDR :: "u2 list \<Rightarrow> u2 \<Rightarrow> 'w interp \<Rightarrow> 'w step_result" where
  "op_MUL_INT_2ADDR insns inst s = binop2addr (\<lambda>a b. of_i32 (i32 a * i32 b)) inst s"

definition op_DIV_INT_2ADDR :: "u2 list \<Rightarrow> u2 \<Rightarrow> 'w interp \<Rightarrow> 'w step_result" where
  "op_DIV_INT_2ADDR insns inst s =
     divop2addr (\<lambda>b. i32 b = 0) (\<lambda>a b. of_i32 (div_s4 (i32 a) (i32 b))) inst s"

definition op_REM_INT_2ADDR :: "u2 list \<Rightarrow> u2 \<Rightarrow> 'w interp \<Rightarrow> 'w step_result" where
  "op_REM_INT_2ADDR insns inst s =
     divop2addr (\<lambda>b. i32 b = 0) (\<lambda>a b. of_i32 (rem_s4 (i32 a) (i32 b))) inst s"

definition op_AND_INT_2ADDR :: "u2 list \<Rightarrow> u2 \<Rightarrow> 'w interp \<Rightarrow> 'w step_result" where
  "op_AND_INT_2ADDR insns inst s = binop2addr (\<lambda>a b. of_i32 (i32 a AND i32 b)) inst s"

definition op_OR_INT_2ADDR :: "u2 list \<Rightarrow> u2 \<Rightarrow> 'w interp \<Rightarrow> 'w step_result" where
  "op_OR_INT_2ADDR insns inst s = binop2addr (\<lambda>a b. of_i32 (i32 a OR i32 b)) inst s"

definition op_XOR_INT_2ADDR :: "u2 list \<Rightarrow> u2 \<Rightarrow> 'w interp \<Rightarrow> 'w step_result" where
  "op_XOR_INT_2ADDR insns inst s = binop2addr (\<lambda>a b. of_i32 (i32 a XOR i32 b)) inst s"

definition op_SHL_INT_2ADDR :: "u2 list \<Rightarrow> u2 \<Rightarrow> 'w interp \<Rightarrow> 'w step_result" where
  "op_SHL_INT_2ADDR insns inst s =
     binop2addr (\<lambda>a b. of_i32 (push_bit (count32 b) (i32 a))) inst s"

definition op_SHR_INT_2ADDR :: "u2 list \<Rightarrow> u2 \<Rightarrow> 'w interp \<Rightarrow> 'w step_result" where
  "op_SHR_INT_2ADDR insns inst s =
     binop2addr (\<lambda>a b. of_i32 (signed_drop_bit (count32 b) (i32 a))) inst s"

definition op_USHR_INT_2ADDR :: "u2 list \<Rightarrow> u2 \<Rightarrow> 'w interp \<Rightarrow> 'w step_result" where
  "op_USHR_INT_2ADDR insns inst s =
     binop2addr (\<lambda>a b. ucast (drop_bit (count32 b) (i32 a))) inst s"

definition op_ADD_LONG_2ADDR :: "u2 list \<Rightarrow> u2 \<Rightarrow> 'w interp \<Rightarrow> 'w step_result" where
  "op_ADD_LONG_2ADDR insns inst s = binop2addr (\<lambda>a b. a + b) inst s"

definition op_SUB_LONG_2ADDR :: "u2 list \<Rightarrow> u2 \<Rightarrow> 'w interp \<Rightarrow> 'w step_result" where
  "op_SUB_LONG_2ADDR insns inst s = binop2addr (\<lambda>a b. a - b) inst s"

definition op_MUL_LONG_2ADDR :: "u2 list \<Rightarrow> u2 \<Rightarrow> 'w interp \<Rightarrow> 'w step_result" where
  "op_MUL_LONG_2ADDR insns inst s = binop2addr (\<lambda>a b. a * b) inst s"

definition op_DIV_LONG_2ADDR :: "u2 list \<Rightarrow> u2 \<Rightarrow> 'w interp \<Rightarrow> 'w step_result" where
  "op_DIV_LONG_2ADDR insns inst s =
     divop2addr (\<lambda>b. b = 0) (\<lambda>a b. div_s8 a b) inst s"

definition op_REM_LONG_2ADDR :: "u2 list \<Rightarrow> u2 \<Rightarrow> 'w interp \<Rightarrow> 'w step_result" where
  "op_REM_LONG_2ADDR insns inst s =
     divop2addr (\<lambda>b. b = 0) (\<lambda>a b. rem_s8 a b) inst s"

definition op_AND_LONG_2ADDR :: "u2 list \<Rightarrow> u2 \<Rightarrow> 'w interp \<Rightarrow> 'w step_result" where
  "op_AND_LONG_2ADDR insns inst s = binop2addr (\<lambda>a b. a AND b) inst s"

definition op_OR_LONG_2ADDR :: "u2 list \<Rightarrow> u2 \<Rightarrow> 'w interp \<Rightarrow> 'w step_result" where
  "op_OR_LONG_2ADDR insns inst s = binop2addr (\<lambda>a b. a OR b) inst s"

definition op_XOR_LONG_2ADDR :: "u2 list \<Rightarrow> u2 \<Rightarrow> 'w interp \<Rightarrow> 'w step_result" where
  "op_XOR_LONG_2ADDR insns inst s = binop2addr (\<lambda>a b. a XOR b) inst s"

definition op_SHL_LONG_2ADDR :: "u2 list \<Rightarrow> u2 \<Rightarrow> 'w interp \<Rightarrow> 'w step_result" where
  "op_SHL_LONG_2ADDR insns inst s = binop2addr (\<lambda>a b. push_bit (count64 b) a) inst s"

definition op_SHR_LONG_2ADDR :: "u2 list \<Rightarrow> u2 \<Rightarrow> 'w interp \<Rightarrow> 'w step_result" where
  "op_SHR_LONG_2ADDR insns inst s =
     binop2addr (\<lambda>a b. signed_drop_bit (count64 b) a) inst s"

definition op_USHR_LONG_2ADDR :: "u2 list \<Rightarrow> u2 \<Rightarrow> 'w interp \<Rightarrow> 'w step_result" where
  "op_USHR_LONG_2ADDR insns inst s = binop2addr (\<lambda>a b. drop_bit (count64 b) a) inst s"

definition op_ADD_FLOAT_2ADDR :: "'w vm_env \<Rightarrow> u2 list \<Rightarrow> u2 \<Rightarrow> 'w interp \<Rightarrow> 'w step_result" where
  "op_ADD_FLOAT_2ADDR e insns inst s = float2addr (f_add e) inst s"

definition op_SUB_FLOAT_2ADDR :: "'w vm_env \<Rightarrow> u2 list \<Rightarrow> u2 \<Rightarrow> 'w interp \<Rightarrow> 'w step_result" where
  "op_SUB_FLOAT_2ADDR e insns inst s = float2addr (f_sub e) inst s"

definition op_MUL_FLOAT_2ADDR :: "'w vm_env \<Rightarrow> u2 list \<Rightarrow> u2 \<Rightarrow> 'w interp \<Rightarrow> 'w step_result" where
  "op_MUL_FLOAT_2ADDR e insns inst s = float2addr (f_mul e) inst s"

definition op_DIV_FLOAT_2ADDR :: "'w vm_env \<Rightarrow> u2 list \<Rightarrow> u2 \<Rightarrow> 'w interp \<Rightarrow> 'w step_result" where
  "op_DIV_FLOAT_2ADDR e insns inst s = float2addr (f_div e) inst s"

definition op_REM_FLOAT_2ADDR :: "'w vm_env \<Rightarrow> u2 list \<Rightarrow> u2 \<Rightarrow> 'w interp \<Rightarrow> 'w step_result" where
  "op_REM_FLOAT_2ADDR e insns inst s = float2addr (f_fmod e) inst s"

definition op_ADD_DOUBLE_2ADDR :: "'w vm_env \<Rightarrow> u2 list \<Rightarrow> u2 \<Rightarrow> 'w interp \<Rightarrow> 'w step_result" where
  "op_ADD_DOUBLE_2ADDR e insns inst s = binop2addr (d_add e) inst s"

definition op_SUB_DOUBLE_2ADDR :: "'w vm_env \<Rightarrow> u2 list \<Rightarrow> u2 \<Rightarrow> 'w interp \<Rightarrow> 'w step_result" where
  "op_SUB_DOUBLE_2ADDR e insns inst s = binop2addr (d_sub e) inst s"

definition op_MUL_DOUBLE_2ADDR :: "'w vm_env \<Rightarrow> u2 list \<Rightarrow> u2 \<Rightarrow> 'w interp \<Rightarrow> 'w step_result" where
  "op_MUL_DOUBLE_2ADDR e insns inst s = binop2addr (d_mul e) inst s"

definition op_DIV_DOUBLE_2ADDR :: "'w vm_env \<Rightarrow> u2 list \<Rightarrow> u2 \<Rightarrow> 'w interp \<Rightarrow> 'w step_result" where
  "op_DIV_DOUBLE_2ADDR e insns inst s = binop2addr (d_div e) inst s"

definition op_REM_DOUBLE_2ADDR :: "'w vm_env \<Rightarrow> u2 list \<Rightarrow> u2 \<Rightarrow> 'w interp \<Rightarrow> 'w step_result" where
  "op_REM_DOUBLE_2ADDR e insns inst s = binop2addr (d_fmod e) inst s"

section \<open>Operations with a literal\<close>

definition op_ADD_INT_LIT16 :: "u2 list \<Rightarrow> u2 \<Rightarrow> 'w interp \<Rightarrow> 'w step_result" where
  "op_ADD_INT_LIT16 insns inst s = binop_lit16 (\<lambda>a b. a + lit16 b) insns inst s"

definition op_RSUB_INT :: "u2 list \<Rightarrow> u2 \<Rightarrow> 'w interp \<Rightarrow> 'w step_result" where
  "op_RSUB_INT insns inst s =
     binop_lit16 (\<lambda>a b. of_i32 (lit16_int b - i32 a)) insns inst s"

definition op_MUL_INT_LIT16 :: "u2 list \<Rightarrow> u2 \<Rightarrow> 'w interp \<Rightarrow> 'w step_result" where
  "op_MUL_INT_LIT16 insns inst s = binop_lit16 (\<lambda>a b. a * lit16 b) insns inst s"

definition op_DIV_INT_LIT16 :: "u2 list \<Rightarrow> u2 \<Rightarrow> 'w interp \<Rightarrow> 'w step_result" where
  "op_DIV_INT_LIT16 insns inst s =
     divop_lit16 (\<lambda>a b. of_i32 (div_s4 (i32 a) (lit16_int b))) insns inst s"

definition op_REM_INT_LIT16 :: "u2 list \<Rightarrow> u2 \<Rightarrow> 'w interp \<Rightarrow> 'w step_result" where
  "op_REM_INT_LIT16 insns inst s =
     divop_lit16 (\<lambda>a b. of_i32 (rem_s4 (i32 a) (lit16_int b))) insns inst s"

definition op_AND_INT_LIT16 :: "u2 list \<Rightarrow> u2 \<Rightarrow> 'w interp \<Rightarrow> 'w step_result" where
  "op_AND_INT_LIT16 insns inst s = binop_lit16 (\<lambda>a b. a AND lit16 b) insns inst s"

definition op_OR_INT_LIT16 :: "u2 list \<Rightarrow> u2 \<Rightarrow> 'w interp \<Rightarrow> 'w step_result" where
  "op_OR_INT_LIT16 insns inst s = binop_lit16 (\<lambda>a b. a OR lit16 b) insns inst s"

definition op_XOR_INT_LIT16 :: "u2 list \<Rightarrow> u2 \<Rightarrow> 'w interp \<Rightarrow> 'w step_result" where
  "op_XOR_INT_LIT16 insns inst s = binop_lit16 (\<lambda>a b. a XOR lit16 b) insns inst s"

definition op_ADD_INT_LIT8 :: "u2 list \<Rightarrow> u2 \<Rightarrow> 'w interp \<Rightarrow> 'w step_result" where
  "op_ADD_INT_LIT8 insns inst s =
     binop_lit8 (\<lambda>a b. of_i32 (i32 a + lit8_int b)) insns inst s"

definition op_RSUB_INT_LIT8 :: "u2 list \<Rightarrow> u2 \<Rightarrow> 'w interp \<Rightarrow> 'w step_result" where
  "op_RSUB_INT_LIT8 insns inst s =
     binop_lit8 (\<lambda>a b. of_i32 (lit8_int b - i32 a)) insns inst s"

definition op_MUL_INT_LIT8 :: "u2 list \<Rightarrow> u2 \<Rightarrow> 'w interp \<Rightarrow> 'w step_result" where
  "op_MUL_INT_LIT8 insns inst s =
     binop_lit8 (\<lambda>a b. of_i32 (i32 a * lit8_int b)) insns inst s"

definition op_DIV_INT_LIT8 :: "u2 list \<Rightarrow> u2 \<Rightarrow> 'w interp \<Rightarrow> 'w step_result" where
  "op_DIV_INT_LIT8 insns inst s =
     divop_lit8 (\<lambda>a b. of_i32 (div_s4 (i32 a) (lit8_int b))) insns inst s"

definition op_REM_INT_LIT8 :: "u2 list \<Rightarrow> u2 \<Rightarrow> 'w interp \<Rightarrow> 'w step_result" where
  "op_REM_INT_LIT8 insns inst s =
     divop_lit8 (\<lambda>a b. of_i32 (rem_s4 (i32 a) (lit8_int b))) insns inst s"

definition op_AND_INT_LIT8 :: "u2 list \<Rightarrow> u2 \<Rightarrow> 'w interp \<Rightarrow> 'w step_result" where
  "op_AND_INT_LIT8 insns inst s =
     binop_lit8 (\<lambda>a b. of_i32 (i32 a AND lit8_int b)) insns inst s"

definition op_OR_INT_LIT8 :: "u2 list \<Rightarrow> u2 \<Rightarrow> 'w interp \<Rightarrow> 'w step_result" where
  "op_OR_INT_LIT8 insns inst s =
     binop_lit8 (\<lambda>a b. of_i32 (i32 a OR lit8_int b)) insns inst s"

definition op_XOR_INT_LIT8 :: "u2 list \<Rightarrow> u2 \<Rightarrow> 'w interp \<Rightarrow> 'w step_result" where
  "op_XOR_INT_LIT8 insns inst s =
     binop_lit8 (\<lambda>a b. of_i32 (i32 a XOR lit8_int b)) insns inst s"

definition op_SHL_INT_LIT8 :: "u2 list \<Rightarrow> u2 \<Rightarrow> 'w interp \<Rightarrow> 'w step_result" where
  "op_SHL_INT_LIT8 insns inst s =
     binop_lit8 (\<lambda>a b. of_i32 (push_bit (count_lit b) (i32 a))) insns inst s"

definition op_SHR_INT_LIT8 :: "u2 list \<Rightarrow> u2 \<Rightarrow> 'w interp \<Rightarrow> 'w step_result" where
  "op_SHR_INT_LIT8 insns inst s =
     binop_lit8 (\<lambda>a b. of_i32 (signed_drop_bit (count_lit b) (i32 a))) insns inst s"

definition op_USHR_INT_LIT8 :: "u2 list \<Rightarrow> u2 \<Rightarrow> 'w interp \<Rightarrow> 'w step_result" where
  "op_USHR_INT_LIT8 insns inst s =
     binop_lit8 (\<lambda>a b. ucast (drop_bit (count_lit b) (i32 a))) insns inst s"

lemmas arith_handler_defs =
  op_NEG_INT_def op_NOT_INT_def op_NEG_LONG_def op_NOT_LONG_def op_NEG_FLOAT_def
  op_NEG_DOUBLE_def op_INT_TO_LONG_def op_INT_TO_FLOAT_def op_INT_TO_DOUBLE_def
  op_LONG_TO_INT_def op_LONG_TO_FLOAT_def op_LONG_TO_DOUBLE_def op_FLOAT_TO_INT_def
  op_FLOAT_TO_LONG_def op_FLOAT_TO_DOUBLE_def op_DOUBLE_TO_INT_def op_DOUBLE_TO_LONG_def
  op_DOUBLE_TO_FLOAT_def op_INT_TO_BYTE_def op_INT_TO_CHAR_def op_INT_TO_SHORT_def op_ADD_INT_def
  op_SUB_INT_def op_MUL_INT_def op_DIV_INT_def op_REM_INT_def op_AND_INT_def op_OR_INT_def
  op_XOR_INT_def op_SHL_INT_def op_SHR_INT_def op_USHR_INT_def op_ADD_LONG_def op_SUB_LONG_def
  op_MUL_LONG_def op_DIV_LONG_def op_REM_LONG_def op_AND_LONG_def op_OR_LONG_def op_XOR_LONG_def
  op_SHL_LONG_def op_SHR_LONG_def op_USHR_LONG_def op_ADD_FLOAT_def op_SUB_FLOAT_def
  op_MUL_FLOAT_def op_DIV_FLOAT_def op_REM_FLOAT_def op_ADD_DOUBLE_def op_SUB_DOUBLE_def
  op_MUL_DOUBLE_def op_DIV_DOUBLE_def op_REM_DOUBLE_def op_ADD_INT_2ADDR_def op_SUB_INT_2ADDR_def
  op_MUL_INT_2ADDR_def op_DIV_INT_2ADDR_def op_REM_INT_2ADDR_def op_AND_INT_2ADDR_def
  op_OR_INT_2ADDR_def op_XOR_INT_2ADDR_def op_SHL_INT_2ADDR_def op_SHR_INT_2ADDR_def
  op_USHR_INT_2ADDR_def op_ADD_LONG_2ADDR_def op_SUB_LONG_2ADDR_def op_MUL_LONG_2ADDR_def
  op_DIV_LONG_2ADDR_def op_REM_LONG_2ADDR_def op_AND_LONG_2ADDR_def op_OR_LONG_2ADDR_def
  op_XOR_LONG_2ADDR_def op_SHL_LONG_2ADDR_def op_SHR_LONG_2ADDR_def op_USHR_LONG_2ADDR_def
  op_ADD_FLOAT_2ADDR_def op_SUB_FLOAT_2ADDR_def op_MUL_FLOAT_2ADDR_def op_DIV_FLOAT_2ADDR_def
  op_REM_FLOAT_2ADDR_def op_ADD_DOUBLE_2ADDR_def op_SUB_DOUBLE_2ADDR_def op_MUL_DOUBLE_2ADDR_def
  op_DIV_DOUBLE_2ADDR_def op_REM_DOUBLE_2ADDR_def op_ADD_INT_LIT16_def op_RSUB_INT_def
  op_MUL_INT_LIT16_def op_DIV_INT_LIT16_def op_REM_INT_LIT16_def op_AND_INT_LIT16_def
  op_OR_INT_LIT16_def op_XOR_INT_LIT16_def op_ADD_INT_LIT8_def op_RSUB_INT_LIT8_def
  op_MUL_INT_LIT8_def op_DIV_INT_LIT8_def op_REM_INT_LIT8_def op_AND_INT_LIT8_def
  op_OR_INT_LIT8_def op_XOR_INT_LIT8_def op_SHL_INT_LIT8_def op_SHR_INT_LIT8_def
  op_USHR_INT_LIT8_def

end
