(* ===== verification/InterpHeap.thy ===== *)
theory InterpHeap
  imports InterpArith
begin

text \<open>
  The arms of \<open>dvmInterpretStd\<close> that work on objects: arrays, instance and static fields (also in
  their quickened forms), constants and types that need resolution, allocation, monitors and
  \<open>throw\<close>, with the field accessors of \<^verbatim>\<open>src/vm/oo/Object.h\<close> and \<open>dvmInterpHandleFillArrayData\<close> of
  \<^verbatim>\<open>src/vm/interp/Interp.c\<close>.
\<close>

section \<open>Array elements\<close>

text \<open>
  The common part of the array arms: null check, then the index, taken as the whole 64-bit register,
  against \<open>length\<close>. The continuation gets the array's address, class, contents and the index.
\<close>

definition array_elem ::
  "u2 list \<Rightarrow> 'w interp \<Rightarrow> (u8 \<Rightarrow> u8 \<Rightarrow> u4 \<Rightarrow> u1 list \<Rightarrow> nat \<Rightarrow> 'w step_result) \<Rightarrow> 'w step_result" where
  "array_elem insns s f =
     regs23x insns s (\<lambda>vsrc1 vsrc2. getreg s vsrc1 (\<lambda>arrayObj.
       checkForNull s arrayObj (\<lambda>h.
         case h of
           Inst _ _ \<Rightarrow> StepOOB
         | Arr c len contents \<Rightarrow>
             getreg s vsrc2 (\<lambda>idx.
               if idx \<ge> ucast len
               then throw_new ''Ljava/lang/ArrayIndexOutOfBoundsException;'' s
               else f arrayObj c len contents (unat idx)))))"

definition aget :: "nat \<Rightarrow> (u8 \<Rightarrow> u8) \<Rightarrow> u2 list \<Rightarrow> u2 \<Rightarrow> 'w interp \<Rightarrow> 'w step_result" where
  "aget width conv insns inst s =
     array_elem insns (export_pc s) (\<lambda>arrayObj c len contents idx.
       case load_bytes contents (idx * width) width of
         None \<Rightarrow> StepOOB
       | Some v \<Rightarrow> setreg (export_pc s) (INST_AA inst) (conv v) (finish 2))"

definition store_elem ::
  "nat \<Rightarrow> u8 \<Rightarrow> u8 \<Rightarrow> u4 \<Rightarrow> u1 list \<Rightarrow> nat \<Rightarrow> u8 \<Rightarrow> 'w interp \<Rightarrow> 'w step_result" where
  "store_elem width arrayObj c len contents idx v s =
     (case store_bytes contents (idx * width) (le_bytes width v) of
        None \<Rightarrow> StepOOB
      | Some contents' \<Rightarrow> finish 2 (s\<lparr>heap := (heap s)(arrayObj \<mapsto> Arr c len contents')\<rparr>))"

definition aput :: "nat \<Rightarrow> u2 list \<Rightarrow> u2 \<Rightarrow> 'w interp \<Rightarrow> 'w step_result" where
  "aput width insns inst s =
     array_elem insns (export_pc s) (\<lambda>arrayObj c len contents idx.
       getreg (export_pc s) (INST_AA inst) (\<lambda>v.
         store_elem width arrayObj c len contents idx v (export_pc s)))"

definition op_AGET :: "u2 list \<Rightarrow> u2 \<Rightarrow> 'w interp \<Rightarrow> 'w step_result" where
  "op_AGET insns inst s = aget 8 (\<lambda>v. v) insns inst s"

definition op_AGET_WIDE :: "u2 list \<Rightarrow> u2 \<Rightarrow> 'w interp \<Rightarrow> 'w step_result" where
  "op_AGET_WIDE insns inst s = aget 8 (\<lambda>v. v) insns inst s"

definition op_AGET_OBJECT :: "u2 list \<Rightarrow> u2 \<Rightarrow> 'w interp \<Rightarrow> 'w step_result" where
  "op_AGET_OBJECT insns inst s = aget 8 (\<lambda>v. v) insns inst s"

definition op_AGET_BOOLEAN :: "u2 list \<Rightarrow> u2 \<Rightarrow> 'w interp \<Rightarrow> 'w step_result" where
  "op_AGET_BOOLEAN insns inst s = aget 1 (\<lambda>v. v) insns inst s"

definition op_AGET_BYTE :: "u2 list \<Rightarrow> u2 \<Rightarrow> 'w interp \<Rightarrow> 'w step_result" where
  "op_AGET_BYTE insns inst s = aget 1 (\<lambda>v. scast (ucast v :: u1)) insns inst s"

definition op_AGET_CHAR :: "u2 list \<Rightarrow> u2 \<Rightarrow> 'w interp \<Rightarrow> 'w step_result" where
  "op_AGET_CHAR insns inst s = aget 2 (\<lambda>v. v) insns inst s"

definition op_AGET_SHORT :: "u2 list \<Rightarrow> u2 \<Rightarrow> 'w interp \<Rightarrow> 'w step_result" where
  "op_AGET_SHORT insns inst s = aget 2 (\<lambda>v. scast (ucast v :: u2)) insns inst s"

definition op_APUT :: "u2 list \<Rightarrow> u2 \<Rightarrow> 'w interp \<Rightarrow> 'w step_result" where
  "op_APUT insns inst s = aput 8 insns inst s"

definition op_APUT_WIDE :: "u2 list \<Rightarrow> u2 \<Rightarrow> 'w interp \<Rightarrow> 'w step_result" where
  "op_APUT_WIDE insns inst s = aput 8 insns inst s"

definition op_APUT_OBJECT :: "'w vm_env \<Rightarrow> u2 list \<Rightarrow> u2 \<Rightarrow> 'w interp \<Rightarrow> 'w step_result" where
  "op_APUT_OBJECT e insns inst s =
     array_elem insns (export_pc s) (\<lambda>arrayObj c len contents idx.
       getreg (export_pc s) (INST_AA inst) (\<lambda>obj.
         let store = store_elem 8 arrayObj c len contents idx obj (export_pc s) in
         if obj \<noteq> 0 then
           checkForNull (export_pc s) obj (\<lambda>h.
             if \<not> canPutArrayElement e (world s) (hclazz h) c
             then throw_new ''Ljava/lang/ArrayStoreException;'' (export_pc s)
             else store)
         else store))"

definition op_APUT_BOOLEAN :: "u2 list \<Rightarrow> u2 \<Rightarrow> 'w interp \<Rightarrow> 'w step_result" where
  "op_APUT_BOOLEAN insns inst s = aput 1 insns inst s"

definition op_APUT_BYTE :: "u2 list \<Rightarrow> u2 \<Rightarrow> 'w interp \<Rightarrow> 'w step_result" where
  "op_APUT_BYTE insns inst s = aput 1 insns inst s"

definition op_APUT_CHAR :: "u2 list \<Rightarrow> u2 \<Rightarrow> 'w interp \<Rightarrow> 'w step_result" where
  "op_APUT_CHAR insns inst s = aput 2 insns inst s"

definition op_APUT_SHORT :: "u2 list \<Rightarrow> u2 \<Rightarrow> 'w interp \<Rightarrow> 'w step_result" where
  "op_APUT_SHORT insns inst s = aput 2 insns inst s"

definition op_ARRAY_LENGTH :: "u2 list \<Rightarrow> u2 \<Rightarrow> 'w interp \<Rightarrow> 'w step_result" where
  "op_ARRAY_LENGTH insns inst s =
     getreg s (INST_B inst) (\<lambda>arrayObj. checkForNullExportPC s arrayObj (\<lambda>h.
       case h of
         Inst _ _ \<Rightarrow> StepOOB
       | Arr c len contents \<Rightarrow> setreg s (INST_A inst) (ucast len) (finish 1)))"

text \<open>
  \<open>dvmInterpHandleFillArrayData\<close>: the table at position \<open>p\<close> is copied over the start of the contents; \<open>size * width\<close> is
  computed in \<open>u4\<close>. Reading beyond the method's code or writing beyond the contents is out of bounds.
\<close>

definition unit_bytes :: "u2 list \<Rightarrow> u1 list" where
  "unit_bytes ws = concat (map (\<lambda>w. [ucast w, ucast (drop_bit 8 w)]) ws)"

definition copy_array_data :: "u2 list \<Rightarrow> int \<Rightarrow> nat \<Rightarrow> u1 list \<Rightarrow> u1 list option" where
  "copy_array_data insns p n contents =
     (let src = take n (unit_bytes (drop (nat (p + 4)) insns))
      in if length src = n then store_bytes contents 0 src else None)"

definition dvmInterpHandleFillArrayData ::
  "u2 list \<Rightarrow> u8 \<Rightarrow> int \<Rightarrow> 'w interp \<Rightarrow> (bool \<times> 'w interp) outcome" where
  "dvmInterpHandleFillArrayData insns arrayObj p s =
     (if arrayObj = 0
      then Ret (False, s\<lparr>exception := Some (NewException ''Ljava/lang/NullPointerException;'')\<rparr>)
      else bind_out (FETCH insns p) (\<lambda>magic.
        if magic \<noteq> kArrayDataSignature
        then Ret (False, s\<lparr>exception := Some (NewException ''Ljava/lang/InternalError;'')\<rparr>)
        else bind_out (FETCH insns (p + 1)) (\<lambda>width. bind_out (s4FromSwitchData insns (p + 2)) (\<lambda>sz.
          case heap s arrayObj of
            Some (Arr c len contents) \<Rightarrow>
              if sz > len
              then Ret (False, s\<lparr>exception :=
                     Some (NewException ''Ljava/lang/ArrayIndexOutOfBoundsException;'')\<rparr>)
              else (case copy_array_data insns p (unat (sz * ucast width)) contents of
                      None \<Rightarrow> OutOfBounds
                    | Some contents' \<Rightarrow>
                        Ret (True, s\<lparr>heap := (heap s)(arrayObj \<mapsto> Arr c len contents')\<rparr>))
          | _ \<Rightarrow> OutOfBounds))))"

definition op_FILL_ARRAY_DATA :: "u2 list \<Rightarrow> u2 \<Rightarrow> 'w interp \<Rightarrow> 'w step_result" where
  "op_FILL_ARRAY_DATA insns inst s =
     fetch_u4 insns (export_pc s) (\<lambda>offset.
       let s = export_pc s; arrayData = pc s + sint offset in
       if arrayData < 0 \<or> arrayData \<ge> int (length insns)
       then throw_new ''Ljava/lang/InternalError;'' s
       else getreg s (INST_AA inst) (\<lambda>arrayObj.
         case dvmInterpHandleFillArrayData insns arrayObj arrayData s of
           AbortVM \<Rightarrow> StepAbort
         | OutOfBounds \<Rightarrow> StepOOB
         | Ret (ok, s') \<Rightarrow> if ok then finish 3 s' else GotoException s'))"

section \<open>Fields\<close>

text \<open>The accessors of \<^verbatim>\<open>Object.h\<close>: an \<open>s4\<close>, an \<open>s8\<close> or a reference at a byte offset of the object.\<close>

definition get_field :: "nat \<Rightarrow> 'w interp \<Rightarrow> u8 \<Rightarrow> nat \<Rightarrow> u8 option" where
  "get_field n s obj off =
     (case heap s obj of Some (Inst c bs) \<Rightarrow> load_bytes bs off n | _ \<Rightarrow> None)"

definition set_field :: "nat \<Rightarrow> 'w interp \<Rightarrow> u8 \<Rightarrow> nat \<Rightarrow> u8 \<Rightarrow> 'w interp option" where
  "set_field n s obj off v =
     (case heap s obj of
        Some (Inst c bs) \<Rightarrow>
          (case store_bytes bs off (le_bytes n v) of
             None \<Rightarrow> None
           | Some bs' \<Rightarrow> Some (s\<lparr>heap := (heap s)(obj \<mapsto> Inst c bs')\<rparr>))
      | _ \<Rightarrow> None)"

definition dvmGetFieldInt :: "'w interp \<Rightarrow> u8 \<Rightarrow> nat \<Rightarrow> u8 option" where
  "dvmGetFieldInt s obj off = map_option (\<lambda>v. of_i32 (i32 v)) (get_field 4 s obj off)"

definition dvmGetFieldLong :: "'w interp \<Rightarrow> u8 \<Rightarrow> nat \<Rightarrow> u8 option" where
  "dvmGetFieldLong s obj off = get_field 8 s obj off"

definition dvmGetFieldObject :: "'w interp \<Rightarrow> u8 \<Rightarrow> nat \<Rightarrow> u8 option" where
  "dvmGetFieldObject s obj off = get_field 8 s obj off"

definition dvmSetFieldInt :: "'w interp \<Rightarrow> u8 \<Rightarrow> nat \<Rightarrow> u8 \<Rightarrow> 'w interp option" where
  "dvmSetFieldInt s obj off v = set_field 4 s obj off v"

definition dvmSetFieldLong :: "'w interp \<Rightarrow> u8 \<Rightarrow> nat \<Rightarrow> u8 \<Rightarrow> 'w interp option" where
  "dvmSetFieldLong s obj off v = set_field 8 s obj off v"

definition dvmSetFieldObject :: "'w interp \<Rightarrow> u8 \<Rightarrow> nat \<Rightarrow> u8 \<Rightarrow> 'w interp option" where
  "dvmSetFieldObject s obj off v = set_field 8 s obj off v"

text \<open>Static fields hold a \<open>JValue\<close> union: an \<open>int\<close> store replaces its first four bytes only.\<close>

definition dvmGetStaticFieldInt :: "'w interp \<Rightarrow> u8 \<Rightarrow> u8" where
  "dvmGetStaticFieldInt s sfield = of_i32 (i32 (statics s sfield))"

definition dvmGetStaticFieldLong :: "'w interp \<Rightarrow> u8 \<Rightarrow> u8" where
  "dvmGetStaticFieldLong s sfield = statics s sfield"

definition dvmGetStaticFieldObject :: "'w interp \<Rightarrow> u8 \<Rightarrow> u8" where
  "dvmGetStaticFieldObject s sfield = statics s sfield"

definition dvmSetStaticFieldInt :: "'w interp \<Rightarrow> u8 \<Rightarrow> u8 \<Rightarrow> 'w interp" where
  "dvmSetStaticFieldInt s sfield v =
     s\<lparr>statics := (statics s)(sfield := (statics s sfield AND NOT (mask 32)) OR ucast (i32 v))\<rparr>"

definition dvmSetStaticFieldLong :: "'w interp \<Rightarrow> u8 \<Rightarrow> u8 \<Rightarrow> 'w interp" where
  "dvmSetStaticFieldLong s sfield v = s\<lparr>statics := (statics s)(sfield := v)\<rparr>"

definition dvmSetStaticFieldObject :: "'w interp \<Rightarrow> u8 \<Rightarrow> u8 \<Rightarrow> 'w interp" where
  "dvmSetStaticFieldObject s sfield v = s\<lparr>statics := (statics s)(sfield := v)\<rparr>"

text \<open>
  Resolution in two steps: the cache of the DEX file, then the resolver, whose \<open>NULL\<close> result means that
  an exception is pending.
\<close>

definition resolved_or ::
  "u8 \<Rightarrow> (u8 \<times> 'w interp) \<Rightarrow> 'w interp \<Rightarrow> (u8 \<Rightarrow> 'w interp \<Rightarrow> 'w step_result) \<Rightarrow> 'w step_result" where
  "resolved_or cached slow s f =
     (if cached = 0
      then (case slow of (r, s') \<Rightarrow> if r = 0 then GotoException s' else f r s')
      else f cached s)"

definition iget ::
  "('w interp \<Rightarrow> u8 \<Rightarrow> nat \<Rightarrow> u8 option) \<Rightarrow> 'w vm_env \<Rightarrow> u2 list \<Rightarrow> u2 \<Rightarrow> 'w interp \<Rightarrow> 'w step_result" where
  "iget getf e insns inst s0 =
     (let s = export_pc s0 in
      fetch insns s 1 (\<lambda>ref. getreg s (INST_B inst) (\<lambda>obj. checkForNull s obj (\<lambda>_.
        resolved_or (dexGetResolvedField e (world s) ref) (resolveInstField e s ref) s (\<lambda>ifield s.
          case getf s obj (byteOffset e (world s) ifield) of
            None \<Rightarrow> StepOOB
          | Some v \<Rightarrow> setreg s (INST_A inst) v (finish 2))))))"

definition iput ::
  "('w interp \<Rightarrow> u8 \<Rightarrow> nat \<Rightarrow> u8 \<Rightarrow> 'w interp option) \<Rightarrow> 'w vm_env \<Rightarrow> u2 list \<Rightarrow> u2 \<Rightarrow> 'w interp \<Rightarrow> 'w step_result" where
  "iput setf e insns inst s0 =
     (let s = export_pc s0 in
      fetch insns s 1 (\<lambda>ref. getreg s (INST_B inst) (\<lambda>obj. checkForNull s obj (\<lambda>_.
        resolved_or (dexGetResolvedField e (world s) ref) (resolveInstField e s ref) s (\<lambda>ifield s.
          getreg s (INST_A inst) (\<lambda>v.
            case setf s obj (byteOffset e (world s) ifield) v of
              None \<Rightarrow> StepOOB
            | Some s' \<Rightarrow> finish 2 s'))))))"

definition sget ::
  "('w interp \<Rightarrow> u8 \<Rightarrow> u8) \<Rightarrow> 'w vm_env \<Rightarrow> u2 list \<Rightarrow> u2 \<Rightarrow> 'w interp \<Rightarrow> 'w step_result" where
  "sget getf e insns inst s =
     fetch insns s 1 (\<lambda>ref.
       resolved_or (dexGetResolvedField e (world s) ref) (resolveStaticField e (export_pc s) ref) s (\<lambda>sfield s.
         setreg s (INST_AA inst) (getf s sfield) (finish 2)))"

definition sput ::
  "('w interp \<Rightarrow> u8 \<Rightarrow> u8 \<Rightarrow> 'w interp) \<Rightarrow> 'w vm_env \<Rightarrow> u2 list \<Rightarrow> u2 \<Rightarrow> 'w interp \<Rightarrow> 'w step_result" where
  "sput setf e insns inst s =
     fetch insns s 1 (\<lambda>ref.
       resolved_or (dexGetResolvedField e (world s) ref) (resolveStaticField e (export_pc s) ref) s (\<lambda>sfield s.
         getreg s (INST_AA inst) (\<lambda>v. finish 2 (setf s sfield v))))"

definition iget_quick ::
  "('w interp \<Rightarrow> u8 \<Rightarrow> nat \<Rightarrow> u8 option) \<Rightarrow> u2 list \<Rightarrow> u2 \<Rightarrow> 'w interp \<Rightarrow> 'w step_result" where
  "iget_quick getf insns inst s =
     fetch insns s 1 (\<lambda>ref. getreg s (INST_B inst) (\<lambda>obj. checkForNullExportPC s obj (\<lambda>_.
       case getf s obj (unat ref) of
         None \<Rightarrow> StepOOB
       | Some v \<Rightarrow> setreg s (INST_A inst) v (finish 2))))"

definition iput_quick ::
  "('w interp \<Rightarrow> u8 \<Rightarrow> nat \<Rightarrow> u8 \<Rightarrow> 'w interp option) \<Rightarrow> u2 list \<Rightarrow> u2 \<Rightarrow> 'w interp \<Rightarrow> 'w step_result" where
  "iput_quick setf insns inst s =
     fetch insns s 1 (\<lambda>ref. getreg s (INST_B inst) (\<lambda>obj. checkForNullExportPC s obj (\<lambda>_.
       getreg s (INST_A inst) (\<lambda>v.
         case setf s obj (unat ref) v of
           None \<Rightarrow> StepOOB
         | Some s' \<Rightarrow> finish 2 s'))))"

definition op_IGET :: "'w vm_env \<Rightarrow> u2 list \<Rightarrow> u2 \<Rightarrow> 'w interp \<Rightarrow> 'w step_result" where
  "op_IGET e insns inst s = iget dvmGetFieldInt e insns inst s"

definition op_IGET_WIDE :: "'w vm_env \<Rightarrow> u2 list \<Rightarrow> u2 \<Rightarrow> 'w interp \<Rightarrow> 'w step_result" where
  "op_IGET_WIDE e insns inst s = iget dvmGetFieldLong e insns inst s"

definition op_IGET_OBJECT :: "'w vm_env \<Rightarrow> u2 list \<Rightarrow> u2 \<Rightarrow> 'w interp \<Rightarrow> 'w step_result" where
  "op_IGET_OBJECT e insns inst s = iget dvmGetFieldObject e insns inst s"

definition op_IGET_BOOLEAN :: "'w vm_env \<Rightarrow> u2 list \<Rightarrow> u2 \<Rightarrow> 'w interp \<Rightarrow> 'w step_result" where
  "op_IGET_BOOLEAN e insns inst s = iget dvmGetFieldInt e insns inst s"

definition op_IGET_BYTE :: "'w vm_env \<Rightarrow> u2 list \<Rightarrow> u2 \<Rightarrow> 'w interp \<Rightarrow> 'w step_result" where
  "op_IGET_BYTE e insns inst s = iget dvmGetFieldInt e insns inst s"

definition op_IGET_CHAR :: "'w vm_env \<Rightarrow> u2 list \<Rightarrow> u2 \<Rightarrow> 'w interp \<Rightarrow> 'w step_result" where
  "op_IGET_CHAR e insns inst s = iget dvmGetFieldInt e insns inst s"

definition op_IGET_SHORT :: "'w vm_env \<Rightarrow> u2 list \<Rightarrow> u2 \<Rightarrow> 'w interp \<Rightarrow> 'w step_result" where
  "op_IGET_SHORT e insns inst s = iget dvmGetFieldInt e insns inst s"

definition op_IPUT :: "'w vm_env \<Rightarrow> u2 list \<Rightarrow> u2 \<Rightarrow> 'w interp \<Rightarrow> 'w step_result" where
  "op_IPUT e insns inst s = iput dvmSetFieldInt e insns inst s"

definition op_IPUT_WIDE :: "'w vm_env \<Rightarrow> u2 list \<Rightarrow> u2 \<Rightarrow> 'w interp \<Rightarrow> 'w step_result" where
  "op_IPUT_WIDE e insns inst s = iput dvmSetFieldLong e insns inst s"

definition op_IPUT_OBJECT :: "'w vm_env \<Rightarrow> u2 list \<Rightarrow> u2 \<Rightarrow> 'w interp \<Rightarrow> 'w step_result" where
  "op_IPUT_OBJECT e insns inst s = iput dvmSetFieldObject e insns inst s"

definition op_IPUT_BOOLEAN :: "'w vm_env \<Rightarrow> u2 list \<Rightarrow> u2 \<Rightarrow> 'w interp \<Rightarrow> 'w step_result" where
  "op_IPUT_BOOLEAN e insns inst s = iput dvmSetFieldInt e insns inst s"

definition op_IPUT_BYTE :: "'w vm_env \<Rightarrow> u2 list \<Rightarrow> u2 \<Rightarrow> 'w interp \<Rightarrow> 'w step_result" where
  "op_IPUT_BYTE e insns inst s = iput dvmSetFieldInt e insns inst s"

definition op_IPUT_CHAR :: "'w vm_env \<Rightarrow> u2 list \<Rightarrow> u2 \<Rightarrow> 'w interp \<Rightarrow> 'w step_result" where
  "op_IPUT_CHAR e insns inst s = iput dvmSetFieldInt e insns inst s"

definition op_IPUT_SHORT :: "'w vm_env \<Rightarrow> u2 list \<Rightarrow> u2 \<Rightarrow> 'w interp \<Rightarrow> 'w step_result" where
  "op_IPUT_SHORT e insns inst s = iput dvmSetFieldInt e insns inst s"

definition op_SGET :: "'w vm_env \<Rightarrow> u2 list \<Rightarrow> u2 \<Rightarrow> 'w interp \<Rightarrow> 'w step_result" where
  "op_SGET e insns inst s = sget dvmGetStaticFieldInt e insns inst s"

definition op_SGET_WIDE :: "'w vm_env \<Rightarrow> u2 list \<Rightarrow> u2 \<Rightarrow> 'w interp \<Rightarrow> 'w step_result" where
  "op_SGET_WIDE e insns inst s = sget dvmGetStaticFieldLong e insns inst s"

definition op_SGET_OBJECT :: "'w vm_env \<Rightarrow> u2 list \<Rightarrow> u2 \<Rightarrow> 'w interp \<Rightarrow> 'w step_result" where
  "op_SGET_OBJECT e insns inst s = sget dvmGetStaticFieldObject e insns inst s"

definition op_SGET_BOOLEAN :: "'w vm_env \<Rightarrow> u2 list \<Rightarrow> u2 \<Rightarrow> 'w interp \<Rightarrow> 'w step_result" where
  "op_SGET_BOOLEAN e insns inst s = sget dvmGetStaticFieldInt e insns inst s"

definition op_SGET_BYTE :: "'w vm_env \<Rightarrow> u2 list \<Rightarrow> u2 \<Rightarrow> 'w interp \<Rightarrow> 'w step_result" where
  "op_SGET_BYTE e insns inst s = sget dvmGetStaticFieldInt e insns inst s"

definition op_SGET_CHAR :: "'w vm_env \<Rightarrow> u2 list \<Rightarrow> u2 \<Rightarrow> 'w interp \<Rightarrow> 'w step_result" where
  "op_SGET_CHAR e insns inst s = sget dvmGetStaticFieldInt e insns inst s"

definition op_SGET_SHORT :: "'w vm_env \<Rightarrow> u2 list \<Rightarrow> u2 \<Rightarrow> 'w interp \<Rightarrow> 'w step_result" where
  "op_SGET_SHORT e insns inst s = sget dvmGetStaticFieldInt e insns inst s"

definition op_SPUT :: "'w vm_env \<Rightarrow> u2 list \<Rightarrow> u2 \<Rightarrow> 'w interp \<Rightarrow> 'w step_result" where
  "op_SPUT e insns inst s = sput dvmSetStaticFieldInt e insns inst s"

definition op_SPUT_WIDE :: "'w vm_env \<Rightarrow> u2 list \<Rightarrow> u2 \<Rightarrow> 'w interp \<Rightarrow> 'w step_result" where
  "op_SPUT_WIDE e insns inst s = sput dvmSetStaticFieldLong e insns inst s"

definition op_SPUT_OBJECT :: "'w vm_env \<Rightarrow> u2 list \<Rightarrow> u2 \<Rightarrow> 'w interp \<Rightarrow> 'w step_result" where
  "op_SPUT_OBJECT e insns inst s = sput dvmSetStaticFieldObject e insns inst s"

definition op_SPUT_BOOLEAN :: "'w vm_env \<Rightarrow> u2 list \<Rightarrow> u2 \<Rightarrow> 'w interp \<Rightarrow> 'w step_result" where
  "op_SPUT_BOOLEAN e insns inst s = sput dvmSetStaticFieldInt e insns inst s"

definition op_SPUT_BYTE :: "'w vm_env \<Rightarrow> u2 list \<Rightarrow> u2 \<Rightarrow> 'w interp \<Rightarrow> 'w step_result" where
  "op_SPUT_BYTE e insns inst s = sput dvmSetStaticFieldInt e insns inst s"

definition op_SPUT_CHAR :: "'w vm_env \<Rightarrow> u2 list \<Rightarrow> u2 \<Rightarrow> 'w interp \<Rightarrow> 'w step_result" where
  "op_SPUT_CHAR e insns inst s = sput dvmSetStaticFieldInt e insns inst s"

definition op_SPUT_SHORT :: "'w vm_env \<Rightarrow> u2 list \<Rightarrow> u2 \<Rightarrow> 'w interp \<Rightarrow> 'w step_result" where
  "op_SPUT_SHORT e insns inst s = sput dvmSetStaticFieldInt e insns inst s"

definition op_IGET_QUICK :: "u2 list \<Rightarrow> u2 \<Rightarrow> 'w interp \<Rightarrow> 'w step_result" where
  "op_IGET_QUICK insns inst s = iget_quick dvmGetFieldInt insns inst s"

definition op_IGET_WIDE_QUICK :: "u2 list \<Rightarrow> u2 \<Rightarrow> 'w interp \<Rightarrow> 'w step_result" where
  "op_IGET_WIDE_QUICK insns inst s = iget_quick dvmGetFieldLong insns inst s"

definition op_IGET_OBJECT_QUICK :: "u2 list \<Rightarrow> u2 \<Rightarrow> 'w interp \<Rightarrow> 'w step_result" where
  "op_IGET_OBJECT_QUICK insns inst s = iget_quick dvmGetFieldObject insns inst s"

definition op_IPUT_QUICK :: "u2 list \<Rightarrow> u2 \<Rightarrow> 'w interp \<Rightarrow> 'w step_result" where
  "op_IPUT_QUICK insns inst s = iput_quick dvmSetFieldInt insns inst s"

definition op_IPUT_WIDE_QUICK :: "u2 list \<Rightarrow> u2 \<Rightarrow> 'w interp \<Rightarrow> 'w step_result" where
  "op_IPUT_WIDE_QUICK insns inst s = iput_quick dvmSetFieldLong insns inst s"

definition op_IPUT_OBJECT_QUICK :: "u2 list \<Rightarrow> u2 \<Rightarrow> 'w interp \<Rightarrow> 'w step_result" where
  "op_IPUT_OBJECT_QUICK insns inst s = iput_quick dvmSetFieldObject insns inst s"

section \<open>Constants and types that need resolution\<close>

definition op_CONST_STRING :: "'w vm_env \<Rightarrow> u2 list \<Rightarrow> u2 \<Rightarrow> 'w interp \<Rightarrow> 'w step_result" where
  "op_CONST_STRING e insns inst s =
     fetch insns s 1 (\<lambda>ref.
       resolved_or (dexGetResolvedString e (world s) (ucast ref)) (resolveString e (export_pc s) (ucast ref)) s
         (\<lambda>strObj s. setreg s (INST_AA inst) strObj (finish 2)))"

definition op_CONST_STRING_JUMBO :: "'w vm_env \<Rightarrow> u2 list \<Rightarrow> u2 \<Rightarrow> 'w interp \<Rightarrow> 'w step_result" where
  "op_CONST_STRING_JUMBO e insns inst s =
     fetch_u4 insns s (\<lambda>tmp.
       resolved_or (dexGetResolvedString e (world s) tmp) (resolveString e (export_pc s) tmp) s
         (\<lambda>strObj s. setreg s (INST_AA inst) strObj (finish 3)))"

definition op_CONST_CLASS :: "'w vm_env \<Rightarrow> u2 list \<Rightarrow> u2 \<Rightarrow> 'w interp \<Rightarrow> 'w step_result" where
  "op_CONST_CLASS e insns inst s =
     fetch insns s 1 (\<lambda>ref.
       resolved_or (dexGetResolvedClass e (world s) ref) (resolveClass e (export_pc s) ref True) s
         (\<lambda>clazz s. setreg s (INST_AA inst) clazz (finish 2)))"

definition op_MONITOR_ENTER :: "'w vm_env \<Rightarrow> u2 list \<Rightarrow> u2 \<Rightarrow> 'w interp \<Rightarrow> 'w step_result" where
  "op_MONITOR_ENTER e insns inst s =
     getreg s (INST_AA inst) (\<lambda>obj. checkForNullExportPC s obj (\<lambda>_.
       finish 1 (lockObject e s obj)))"

text \<open>The arm moves the pc past the instruction before it handles the exception.\<close>

definition op_MONITOR_EXIT :: "'w vm_env \<Rightarrow> u2 list \<Rightarrow> u2 \<Rightarrow> 'w interp \<Rightarrow> 'w step_result" where
  "op_MONITOR_EXIT e insns inst s =
     (let s = export_pc s in
      getreg s (INST_AA inst) (\<lambda>obj.
        if obj = 0 then checkForNull (s\<lparr>pc := pc s + 1\<rparr>) obj (\<lambda>_. StepAbort)
        else checkForNull s obj (\<lambda>_.
          case unlockObject e s obj of
            (False, s') \<Rightarrow> if exception s' = None then StepAbort else GotoException (s'\<lparr>pc := pc s' + 1\<rparr>)
          | (True, s') \<Rightarrow> finish 1 s')))"

text \<open>The class of an object the register refers to.\<close>

definition class_of :: "'w interp \<Rightarrow> u8 \<Rightarrow> (u8 \<Rightarrow> 'w step_result) \<Rightarrow> 'w step_result" where
  "class_of s obj f = (case heap s obj of None \<Rightarrow> StepOOB | Some h \<Rightarrow> f (hclazz h))"

definition op_CHECK_CAST :: "'w vm_env \<Rightarrow> u2 list \<Rightarrow> u2 \<Rightarrow> 'w interp \<Rightarrow> 'w step_result" where
  "op_CHECK_CAST e insns inst s =
     (let s = export_pc s in
      fetch insns s 1 (\<lambda>ref. getreg s (INST_AA inst) (\<lambda>obj.
        if obj = 0 then finish 2 s
        else resolved_or (dexGetResolvedClass e (world s) ref) (resolveClass e s ref False) s (\<lambda>clazz s.
          class_of s obj (\<lambda>c.
            if \<not> instanceof e (world s) c clazz
            then throw_new ''Ljava/lang/ClassCastException;'' s else finish 2 s)))))"

definition op_INSTANCE_OF :: "'w vm_env \<Rightarrow> u2 list \<Rightarrow> u2 \<Rightarrow> 'w interp \<Rightarrow> 'w step_result" where
  "op_INSTANCE_OF e insns inst s =
     fetch insns s 1 (\<lambda>ref. getreg s (INST_B inst) (\<lambda>obj.
       if obj = 0 then setreg s (INST_A inst) 0 (finish 2)
       else resolved_or (dexGetResolvedClass e (world s) ref) (resolveClass e (export_pc s) ref True) s (\<lambda>clazz s.
         class_of s obj (\<lambda>c.
           setreg s (INST_A inst) (if instanceof e (world s) c clazz then 1 else 0) (finish 2)))))"

section \<open>Allocation, throw and inline natives\<close>

definition op_NEW_INSTANCE :: "'w vm_env \<Rightarrow> u2 list \<Rightarrow> u2 \<Rightarrow> 'w interp \<Rightarrow> 'w step_result" where
  "op_NEW_INSTANCE e insns inst s =
     (let s = export_pc s in
      fetch insns s 1 (\<lambda>ref.
        resolved_or (dexGetResolvedClass e (world s) ref) (resolveClass e s ref False) s (\<lambda>clazz s.
          case (if isClassInitialized e (world s) clazz then (True, s) else initClass e s clazz) of
            (False, s) \<Rightarrow> GotoException s
          | (True, s) \<Rightarrow>
              if isInterfaceClass e (world s) clazz \<or> isAbstractClass e (world s) clazz
              then throw_new ''Ljava/lang/InstantiationError;'' s
              else case allocObject e s clazz of
                     (newObj, s) \<Rightarrow>
                       if newObj = 0 then GotoException s
                       else setreg s (INST_AA inst) newObj (finish 2))))"

definition op_NEW_ARRAY :: "'w vm_env \<Rightarrow> u2 list \<Rightarrow> u2 \<Rightarrow> 'w interp \<Rightarrow> 'w step_result" where
  "op_NEW_ARRAY e insns inst s =
     (let s = export_pc s in
      fetch insns s 1 (\<lambda>ref. getreg s (INST_B inst) (\<lambda>v.
        if sint (i32 v) < 0 then throw_new ''Ljava/lang/NegativeArraySizeException;'' s
        else resolved_or (dexGetResolvedClass e (world s) ref) (resolveClass e s ref False) s (\<lambda>arrayClass s.
          if \<not> isArrayClass e (world s) arrayClass \<or> \<not> isClassInitialized e (world s) arrayClass then StepAbort
          else case allocArrayByClass e s arrayClass (i32 v) of
                 (newArray, s) \<Rightarrow>
                   if newArray = 0 then GotoException s
                   else setreg s (INST_A inst) newArray (finish 2)))))"

text \<open>
  The label \<open>filledNewArray\<close>: the elements are stored as \<open>u8\<close> whatever the class of the new array is. \<open>store_regs\<close> is the
  sequence of assignments \<open>contents[i] = fp[r]\<close>; \<open>filled_args\<close> gives the pairs in the order of the source.
\<close>

fun store_regs :: "u8 list \<Rightarrow> u1 list \<Rightarrow> (nat \<times> nat) list \<Rightarrow> u1 list option" where
  "store_regs regs contents [] = Some contents"
| "store_regs regs contents ((i, r) # rest) =
     (if r < length regs then
        (case store_bytes contents (8 * i) (le_bytes 8 (regs ! r)) of
           None \<Rightarrow> None
         | Some contents' \<Rightarrow> store_regs regs contents' rest)
      else None)"

definition nibble :: "u2 \<Rightarrow> nat \<Rightarrow> nat" where
  "nibble w i = unat (drop_bit (4 * i) w AND 0x0f)"

definition filled_args :: "bool \<Rightarrow> u2 \<Rightarrow> u2 \<Rightarrow> (nat \<times> nat) list" where
  "filled_args methodCallRange inst vdst =
     (if methodCallRange then map (\<lambda>i. (i, unat vdst + i)) [0..<unat (INST_AA inst)]
      else let n = unat (INST_B inst) in
        (if n = 5 then [(4, unat (INST_A inst))] else []) @
        map (\<lambda>i. (i, nibble vdst i)) [0..<(if n = 5 then 4 else n)])"

definition filledNewArray :: "'w vm_env \<Rightarrow> bool \<Rightarrow> u2 list \<Rightarrow> u2 \<Rightarrow> 'w interp \<Rightarrow> 'w step_result" where
  "filledNewArray e methodCallRange insns inst s0 =
     (let s = export_pc s0; n = (if methodCallRange then INST_AA inst else INST_B inst) in
      fetch insns s 1 (\<lambda>ref. fetch insns s 2 (\<lambda>vdst.
        resolved_or (dexGetResolvedClass e (world s) ref) (resolveClass e s ref False) s (\<lambda>arrayClass s.
          if \<not> isArrayClass e (world s) arrayClass \<or> \<not> isClassInitialized e (world s) arrayClass then StepAbort
          else let typeCh = descriptor1 e (world s) arrayClass in
            if typeCh = CHR ''D'' \<or> typeCh = CHR ''J'' then throw_new ''Ljava/lang/RuntimeError;'' s
            else if typeCh \<noteq> CHR ''L'' \<and> typeCh \<noteq> CHR ''['' \<and> typeCh \<noteq> CHR ''I''
            then throw_new ''Ljava/lang/InternalError;'' s
            else case allocArrayByClass e s arrayClass (ucast n) of
              (newArray, s) \<Rightarrow>
                if newArray = 0 then GotoException s
                else if \<not> methodCallRange \<and> unat n > 5 then StepAbort
                else case heap s newArray of
                  Some (Arr c len contents) \<Rightarrow>
                    (case store_regs (fp s) contents (filled_args methodCallRange inst vdst) of
                       None \<Rightarrow> StepOOB
                     | Some contents' \<Rightarrow>
                         finish 3 (s\<lparr>heap := (heap s)(newArray \<mapsto> Arr c len contents'),
                                    retval := newArray\<rparr>))
                | _ \<Rightarrow> StepOOB))))"

definition op_FILLED_NEW_ARRAY :: "'w vm_env \<Rightarrow> u2 list \<Rightarrow> u2 \<Rightarrow> 'w interp \<Rightarrow> 'w step_result" where
  "op_FILLED_NEW_ARRAY e insns inst s = filledNewArray e False insns inst s"

definition op_FILLED_NEW_ARRAY_RANGE :: "'w vm_env \<Rightarrow> u2 list \<Rightarrow> u2 \<Rightarrow> 'w interp \<Rightarrow> 'w step_result" where
  "op_FILLED_NEW_ARRAY_RANGE e insns inst s = filledNewArray e True insns inst s"

definition op_THROW :: "u2 list \<Rightarrow> u2 \<Rightarrow> 'w interp \<Rightarrow> 'w step_result" where
  "op_THROW insns inst s =
     getreg s (INST_AA inst) (\<lambda>obj. checkForNullExportPC s obj (\<lambda>_.
       GotoException (s\<lparr>exception := Some (ExceptionObj obj)\<rparr>)))"

text \<open>\<open>OP_EXECUTE_INLINE\<close> reads up to four arguments, the highest first; the others stay uninitialized and are not passed here.\<close>

definition inline_args :: "u2 \<Rightarrow> nat \<Rightarrow> u8 list \<Rightarrow> u8 list option" where
  "inline_args vdst n regs =
     (if \<forall>i<n. nibble vdst i < length regs then Some (map (\<lambda>i. regs ! nibble vdst i) [0..<n]) else None)"

definition op_EXECUTE_INLINE :: "'w vm_env \<Rightarrow> u2 list \<Rightarrow> u2 \<Rightarrow> 'w interp \<Rightarrow> 'w step_result" where
  "op_EXECUTE_INLINE e insns inst s =
     (let s = export_pc s in
      fetch insns s 1 (\<lambda>ref. fetch insns s 2 (\<lambda>vdst.
        if INST_B inst > 4 then StepAbort
        else case inline_args vdst (unat (INST_B inst)) (fp s) of
               None \<Rightarrow> StepOOB
             | Some args \<Rightarrow>
                 (case performInlineOp4Std e s args ref of
                    (False, s') \<Rightarrow> GotoException s'
                  | (True, s') \<Rightarrow> finish 3 s'))))"

definition op_INVOKE_DIRECT_EMPTY :: "'w vm_env \<Rightarrow> u2 list \<Rightarrow> u2 \<Rightarrow> 'w interp \<Rightarrow> 'w step_result" where
  "op_INVOKE_DIRECT_EMPTY e insns inst s =
     (if \<not> debuggerActive e then finish 3 s else GotoInvoke InvokeDirect False s)"

lemmas heap_handler_defs =
  op_AGET_def op_AGET_WIDE_def op_AGET_OBJECT_def op_AGET_BOOLEAN_def op_AGET_BYTE_def
  op_AGET_CHAR_def op_AGET_SHORT_def op_APUT_def op_APUT_WIDE_def op_APUT_OBJECT_def
  op_APUT_BOOLEAN_def op_APUT_BYTE_def op_APUT_CHAR_def op_APUT_SHORT_def op_ARRAY_LENGTH_def
  op_FILL_ARRAY_DATA_def op_IGET_def op_IGET_WIDE_def op_IGET_OBJECT_def op_IGET_BOOLEAN_def
  op_IGET_BYTE_def op_IGET_CHAR_def op_IGET_SHORT_def op_IPUT_def op_IPUT_WIDE_def
  op_IPUT_OBJECT_def op_IPUT_BOOLEAN_def op_IPUT_BYTE_def op_IPUT_CHAR_def op_IPUT_SHORT_def
  op_SGET_def op_SGET_WIDE_def op_SGET_OBJECT_def op_SGET_BOOLEAN_def op_SGET_BYTE_def
  op_SGET_CHAR_def op_SGET_SHORT_def op_SPUT_def op_SPUT_WIDE_def op_SPUT_OBJECT_def
  op_SPUT_BOOLEAN_def op_SPUT_BYTE_def op_SPUT_CHAR_def op_SPUT_SHORT_def op_IGET_QUICK_def
  op_IGET_WIDE_QUICK_def op_IGET_OBJECT_QUICK_def op_IPUT_QUICK_def op_IPUT_WIDE_QUICK_def
  op_IPUT_OBJECT_QUICK_def op_CONST_STRING_def op_CONST_STRING_JUMBO_def op_CONST_CLASS_def
  op_MONITOR_ENTER_def op_MONITOR_EXIT_def op_CHECK_CAST_def op_INSTANCE_OF_def
  op_NEW_INSTANCE_def op_NEW_ARRAY_def op_FILLED_NEW_ARRAY_def op_FILLED_NEW_ARRAY_RANGE_def
  op_THROW_def op_EXECUTE_INLINE_def op_INVOKE_DIRECT_EMPTY_def

end
