(* ===== verification/Interp.thy ===== *)
theory Interp
  imports InterpHeap
begin

text \<open>
  The dispatch of \<open>dvmInterpretStd\<close>: the table of the 256 arms, in the order of the opcodes and with
  the fall-throughs the \<open>switch\<close> has, and one step of the interpreter. The lemmas show what every arm
  keeps of the frame.
\<close>

section \<open>Invocation arms\<close>

text \<open>These arms only choose the label and \<open>methodCallRange\<close>.\<close>

definition op_INVOKE_VIRTUAL :: "u2 list \<Rightarrow> u2 \<Rightarrow> 'w interp \<Rightarrow> 'w step_result" where
  "op_INVOKE_VIRTUAL insns inst s = GotoInvoke InvokeVirtual False s"

definition op_INVOKE_SUPER :: "u2 list \<Rightarrow> u2 \<Rightarrow> 'w interp \<Rightarrow> 'w step_result" where
  "op_INVOKE_SUPER insns inst s = GotoInvoke InvokeSuper False s"

definition op_INVOKE_DIRECT :: "u2 list \<Rightarrow> u2 \<Rightarrow> 'w interp \<Rightarrow> 'w step_result" where
  "op_INVOKE_DIRECT insns inst s = GotoInvoke InvokeDirect False s"

definition op_INVOKE_STATIC :: "u2 list \<Rightarrow> u2 \<Rightarrow> 'w interp \<Rightarrow> 'w step_result" where
  "op_INVOKE_STATIC insns inst s = GotoInvoke InvokeStatic False s"

definition op_INVOKE_INTERFACE :: "u2 list \<Rightarrow> u2 \<Rightarrow> 'w interp \<Rightarrow> 'w step_result" where
  "op_INVOKE_INTERFACE insns inst s = GotoInvoke InvokeInterface False s"

definition op_INVOKE_VIRTUAL_RANGE :: "u2 list \<Rightarrow> u2 \<Rightarrow> 'w interp \<Rightarrow> 'w step_result" where
  "op_INVOKE_VIRTUAL_RANGE insns inst s = GotoInvoke InvokeVirtual True s"

definition op_INVOKE_SUPER_RANGE :: "u2 list \<Rightarrow> u2 \<Rightarrow> 'w interp \<Rightarrow> 'w step_result" where
  "op_INVOKE_SUPER_RANGE insns inst s = GotoInvoke InvokeSuper True s"

definition op_INVOKE_DIRECT_RANGE :: "u2 list \<Rightarrow> u2 \<Rightarrow> 'w interp \<Rightarrow> 'w step_result" where
  "op_INVOKE_DIRECT_RANGE insns inst s = GotoInvoke InvokeDirect True s"

definition op_INVOKE_STATIC_RANGE :: "u2 list \<Rightarrow> u2 \<Rightarrow> 'w interp \<Rightarrow> 'w step_result" where
  "op_INVOKE_STATIC_RANGE insns inst s = GotoInvoke InvokeStatic True s"

definition op_INVOKE_INTERFACE_RANGE :: "u2 list \<Rightarrow> u2 \<Rightarrow> 'w interp \<Rightarrow> 'w step_result" where
  "op_INVOKE_INTERFACE_RANGE insns inst s = GotoInvoke InvokeInterface True s"

definition op_INVOKE_VIRTUAL_QUICK :: "u2 list \<Rightarrow> u2 \<Rightarrow> 'w interp \<Rightarrow> 'w step_result" where
  "op_INVOKE_VIRTUAL_QUICK insns inst s = GotoInvoke InvokeVirtualQuick False s"

definition op_INVOKE_VIRTUAL_QUICK_RANGE :: "u2 list \<Rightarrow> u2 \<Rightarrow> 'w interp \<Rightarrow> 'w step_result" where
  "op_INVOKE_VIRTUAL_QUICK_RANGE insns inst s = GotoInvoke InvokeVirtualQuick True s"

definition op_INVOKE_SUPER_QUICK :: "u2 list \<Rightarrow> u2 \<Rightarrow> 'w interp \<Rightarrow> 'w step_result" where
  "op_INVOKE_SUPER_QUICK insns inst s = GotoInvoke InvokeSuperQuick False s"

definition op_INVOKE_SUPER_QUICK_RANGE :: "u2 list \<Rightarrow> u2 \<Rightarrow> 'w interp \<Rightarrow> 'w step_result" where
  "op_INVOKE_SUPER_QUICK_RANGE insns inst s = GotoInvoke InvokeSuperQuick True s"

text \<open>The arm of the last four unused opcodes, which stops the VM.\<close>

definition op_UNUSED_FF :: "u2 list \<Rightarrow> u2 \<Rightarrow> 'w interp \<Rightarrow> 'w step_result" where
  "op_UNUSED_FF insns inst s = StepAbort"

section \<open>Dispatch\<close>

text \<open>
  An unused opcode before another label falls through into it: \<open>OP_UNUSED_3E\<close> to \<open>OP_UNUSED_43\<close> run
  \<open>OP_AGET\<close>, \<open>OP_UNUSED_73\<close> runs \<open>OP_INVOKE_VIRTUAL_RANGE\<close>, and so on.
\<close>

definition handlers :: "('w vm_env \<Rightarrow> u2 list \<Rightarrow> u2 \<Rightarrow> 'w interp \<Rightarrow> 'w step_result) list" where
  "handlers =
    [(\<lambda>e. op_NOP), (\<lambda>e. op_MOVE), (\<lambda>e. op_MOVE_FROM16),
     (\<lambda>e. op_MOVE_16), (\<lambda>e. op_MOVE_WIDE),
     (\<lambda>e. op_MOVE_WIDE_FROM16), (\<lambda>e. op_MOVE_WIDE_16),
     (\<lambda>e. op_MOVE_OBJECT), (\<lambda>e. op_MOVE_OBJECT_FROM16),
     (\<lambda>e. op_MOVE_OBJECT_16), (\<lambda>e. op_MOVE_RESULT),
     (\<lambda>e. op_MOVE_RESULT_WIDE), (\<lambda>e. op_MOVE_RESULT_OBJECT),
     op_MOVE_EXCEPTION, (\<lambda>e. op_RETURN_VOID), (\<lambda>e. op_RETURN),
     (\<lambda>e. op_RETURN_WIDE), (\<lambda>e. op_RETURN_OBJECT),
     (\<lambda>e. op_CONST_4), (\<lambda>e. op_CONST_16), (\<lambda>e. op_CONST),
     (\<lambda>e. op_CONST_HIGH16), (\<lambda>e. op_CONST_WIDE_16),
     (\<lambda>e. op_CONST_WIDE_32), (\<lambda>e. op_CONST_WIDE),
     (\<lambda>e. op_CONST_WIDE_HIGH16), op_CONST_STRING, op_CONST_STRING_JUMBO,
     op_CONST_CLASS, op_MONITOR_ENTER, op_MONITOR_EXIT, op_CHECK_CAST, op_INSTANCE_OF,
     (\<lambda>e. op_ARRAY_LENGTH), op_NEW_INSTANCE, op_NEW_ARRAY, op_FILLED_NEW_ARRAY,
     op_FILLED_NEW_ARRAY_RANGE, (\<lambda>e. op_FILL_ARRAY_DATA), (\<lambda>e. op_THROW),
     (\<lambda>e. op_GOTO), (\<lambda>e. op_GOTO_16), (\<lambda>e. op_GOTO_32),
     (\<lambda>e. op_PACKED_SWITCH), (\<lambda>e. op_SPARSE_SWITCH), op_CMPL_FLOAT,
     op_CMPG_FLOAT, op_CMPL_DOUBLE, op_CMPG_DOUBLE, (\<lambda>e. op_CMP_LONG),
     (\<lambda>e. op_IF_EQ), (\<lambda>e. op_IF_NE), (\<lambda>e. op_IF_LT),
     (\<lambda>e. op_IF_GE), (\<lambda>e. op_IF_GT), (\<lambda>e. op_IF_LE),
     (\<lambda>e. op_IF_EQZ), (\<lambda>e. op_IF_NEZ), (\<lambda>e. op_IF_LTZ),
     (\<lambda>e. op_IF_GEZ), (\<lambda>e. op_IF_GTZ), (\<lambda>e. op_IF_LEZ),
     (\<lambda>e. op_AGET), (\<lambda>e. op_AGET), (\<lambda>e. op_AGET),
     (\<lambda>e. op_AGET), (\<lambda>e. op_AGET), (\<lambda>e. op_AGET),
     (\<lambda>e. op_AGET), (\<lambda>e. op_AGET_WIDE), (\<lambda>e. op_AGET_OBJECT),
     (\<lambda>e. op_AGET_BOOLEAN), (\<lambda>e. op_AGET_BYTE),
     (\<lambda>e. op_AGET_CHAR), (\<lambda>e. op_AGET_SHORT), (\<lambda>e. op_APUT),
     (\<lambda>e. op_APUT_WIDE), op_APUT_OBJECT, (\<lambda>e. op_APUT_BOOLEAN),
     (\<lambda>e. op_APUT_BYTE), (\<lambda>e. op_APUT_CHAR), (\<lambda>e. op_APUT_SHORT),
     op_IGET, op_IGET_WIDE, op_IGET_OBJECT, op_IGET_BOOLEAN, op_IGET_BYTE, op_IGET_CHAR,
     op_IGET_SHORT, op_IPUT, op_IPUT_WIDE, op_IPUT_OBJECT, op_IPUT_BOOLEAN, op_IPUT_BYTE,
     op_IPUT_CHAR, op_IPUT_SHORT, op_SGET, op_SGET_WIDE, op_SGET_OBJECT, op_SGET_BOOLEAN,
     op_SGET_BYTE, op_SGET_CHAR, op_SGET_SHORT, op_SPUT, op_SPUT_WIDE, op_SPUT_OBJECT,
     op_SPUT_BOOLEAN, op_SPUT_BYTE, op_SPUT_CHAR, op_SPUT_SHORT,
     (\<lambda>e. op_INVOKE_VIRTUAL), (\<lambda>e. op_INVOKE_SUPER),
     (\<lambda>e. op_INVOKE_DIRECT), (\<lambda>e. op_INVOKE_STATIC),
     (\<lambda>e. op_INVOKE_INTERFACE), (\<lambda>e. op_INVOKE_VIRTUAL_RANGE),
     (\<lambda>e. op_INVOKE_VIRTUAL_RANGE), (\<lambda>e. op_INVOKE_SUPER_RANGE),
     (\<lambda>e. op_INVOKE_DIRECT_RANGE), (\<lambda>e. op_INVOKE_STATIC_RANGE),
     (\<lambda>e. op_INVOKE_INTERFACE_RANGE), (\<lambda>e. op_NEG_INT),
     (\<lambda>e. op_NEG_INT), (\<lambda>e. op_NEG_INT), (\<lambda>e. op_NOT_INT),
     (\<lambda>e. op_NEG_LONG), (\<lambda>e. op_NOT_LONG), op_NEG_FLOAT, op_NEG_DOUBLE,
     (\<lambda>e. op_INT_TO_LONG), op_INT_TO_FLOAT, op_INT_TO_DOUBLE,
     (\<lambda>e. op_LONG_TO_INT), op_LONG_TO_FLOAT, op_LONG_TO_DOUBLE, op_FLOAT_TO_INT,
     op_FLOAT_TO_LONG, op_FLOAT_TO_DOUBLE, op_DOUBLE_TO_INT, op_DOUBLE_TO_LONG,
     op_DOUBLE_TO_FLOAT, (\<lambda>e. op_INT_TO_BYTE), (\<lambda>e. op_INT_TO_CHAR),
     (\<lambda>e. op_INT_TO_SHORT), (\<lambda>e. op_ADD_INT), (\<lambda>e. op_SUB_INT),
     (\<lambda>e. op_MUL_INT), (\<lambda>e. op_DIV_INT), (\<lambda>e. op_REM_INT),
     (\<lambda>e. op_AND_INT), (\<lambda>e. op_OR_INT), (\<lambda>e. op_XOR_INT),
     (\<lambda>e. op_SHL_INT), (\<lambda>e. op_SHR_INT), (\<lambda>e. op_USHR_INT),
     (\<lambda>e. op_ADD_LONG), (\<lambda>e. op_SUB_LONG), (\<lambda>e. op_MUL_LONG),
     (\<lambda>e. op_DIV_LONG), (\<lambda>e. op_REM_LONG), (\<lambda>e. op_AND_LONG),
     (\<lambda>e. op_OR_LONG), (\<lambda>e. op_XOR_LONG), (\<lambda>e. op_SHL_LONG),
     (\<lambda>e. op_SHR_LONG), (\<lambda>e. op_USHR_LONG), op_ADD_FLOAT, op_SUB_FLOAT,
     op_MUL_FLOAT, op_DIV_FLOAT, op_REM_FLOAT, op_ADD_DOUBLE, op_SUB_DOUBLE,
     op_MUL_DOUBLE, op_DIV_DOUBLE, op_REM_DOUBLE, (\<lambda>e. op_ADD_INT_2ADDR),
     (\<lambda>e. op_SUB_INT_2ADDR), (\<lambda>e. op_MUL_INT_2ADDR),
     (\<lambda>e. op_DIV_INT_2ADDR), (\<lambda>e. op_REM_INT_2ADDR),
     (\<lambda>e. op_AND_INT_2ADDR), (\<lambda>e. op_OR_INT_2ADDR),
     (\<lambda>e. op_XOR_INT_2ADDR), (\<lambda>e. op_SHL_INT_2ADDR),
     (\<lambda>e. op_SHR_INT_2ADDR), (\<lambda>e. op_USHR_INT_2ADDR),
     (\<lambda>e. op_ADD_LONG_2ADDR), (\<lambda>e. op_SUB_LONG_2ADDR),
     (\<lambda>e. op_MUL_LONG_2ADDR), (\<lambda>e. op_DIV_LONG_2ADDR),
     (\<lambda>e. op_REM_LONG_2ADDR), (\<lambda>e. op_AND_LONG_2ADDR),
     (\<lambda>e. op_OR_LONG_2ADDR), (\<lambda>e. op_XOR_LONG_2ADDR),
     (\<lambda>e. op_SHL_LONG_2ADDR), (\<lambda>e. op_SHR_LONG_2ADDR),
     (\<lambda>e. op_USHR_LONG_2ADDR), op_ADD_FLOAT_2ADDR, op_SUB_FLOAT_2ADDR,
     op_MUL_FLOAT_2ADDR, op_DIV_FLOAT_2ADDR, op_REM_FLOAT_2ADDR, op_ADD_DOUBLE_2ADDR,
     op_SUB_DOUBLE_2ADDR, op_MUL_DOUBLE_2ADDR, op_DIV_DOUBLE_2ADDR, op_REM_DOUBLE_2ADDR,
     (\<lambda>e. op_ADD_INT_LIT16), (\<lambda>e. op_RSUB_INT),
     (\<lambda>e. op_MUL_INT_LIT16), (\<lambda>e. op_DIV_INT_LIT16),
     (\<lambda>e. op_REM_INT_LIT16), (\<lambda>e. op_AND_INT_LIT16),
     (\<lambda>e. op_OR_INT_LIT16), (\<lambda>e. op_XOR_INT_LIT16),
     (\<lambda>e. op_ADD_INT_LIT8), (\<lambda>e. op_RSUB_INT_LIT8),
     (\<lambda>e. op_MUL_INT_LIT8), (\<lambda>e. op_DIV_INT_LIT8),
     (\<lambda>e. op_REM_INT_LIT8), (\<lambda>e. op_AND_INT_LIT8),
     (\<lambda>e. op_OR_INT_LIT8), (\<lambda>e. op_XOR_INT_LIT8),
     (\<lambda>e. op_SHL_INT_LIT8), (\<lambda>e. op_SHR_INT_LIT8),
     (\<lambda>e. op_USHR_INT_LIT8), op_EXECUTE_INLINE, op_EXECUTE_INLINE,
     op_EXECUTE_INLINE, op_EXECUTE_INLINE, op_EXECUTE_INLINE, op_EXECUTE_INLINE,
     op_EXECUTE_INLINE, op_EXECUTE_INLINE, op_EXECUTE_INLINE, op_EXECUTE_INLINE,
     op_EXECUTE_INLINE, op_EXECUTE_INLINE, op_INVOKE_DIRECT_EMPTY,
     op_INVOKE_DIRECT_EMPTY, (\<lambda>e. op_IGET_QUICK), (\<lambda>e. op_IGET_QUICK),
     (\<lambda>e. op_IGET_WIDE_QUICK), (\<lambda>e. op_IGET_OBJECT_QUICK),
     (\<lambda>e. op_IPUT_QUICK), (\<lambda>e. op_IPUT_WIDE_QUICK),
     (\<lambda>e. op_IPUT_OBJECT_QUICK), (\<lambda>e. op_INVOKE_VIRTUAL_QUICK),
     (\<lambda>e. op_INVOKE_VIRTUAL_QUICK_RANGE), (\<lambda>e. op_INVOKE_SUPER_QUICK),
     (\<lambda>e. op_INVOKE_SUPER_QUICK_RANGE), (\<lambda>e. op_UNUSED_FF),
     (\<lambda>e. op_UNUSED_FF), (\<lambda>e. op_UNUSED_FF), (\<lambda>e. op_UNUSED_FF)]"

definition interp_step :: "'w vm_env \<Rightarrow> u2 list \<Rightarrow> 'w interp \<Rightarrow> 'w step_result" where
  "interp_step e insns s = fetch insns s 0 (\<lambda>inst. (handlers ! INST_INST inst) e insns inst s)"

lemmas invoke_handler_defs =
  op_INVOKE_VIRTUAL_def op_INVOKE_SUPER_def op_INVOKE_DIRECT_def
  op_INVOKE_STATIC_def op_INVOKE_INTERFACE_def op_INVOKE_VIRTUAL_RANGE_def
  op_INVOKE_SUPER_RANGE_def op_INVOKE_DIRECT_RANGE_def op_INVOKE_STATIC_RANGE_def
  op_INVOKE_INTERFACE_RANGE_def op_INVOKE_VIRTUAL_QUICK_def op_INVOKE_VIRTUAL_QUICK_RANGE_def
  op_INVOKE_SUPER_QUICK_def op_INVOKE_SUPER_QUICK_RANGE_def op_UNUSED_FF_def

lemma length_handlers [simp]: "length handlers = 256"
  by (simp add: handlers_def)

section \<open>What every arm keeps\<close>

text \<open>
  \<open>env_ok\<close>: what the interpreter relies on in the services it calls, as their comments promise. They
  do not touch the caller's frame, and they report failure (\<open>NULL\<close> or false) only with an
  exception pending.
\<close>

definition same_frame :: "'w interp \<Rightarrow> 'w interp \<Rightarrow> bool" where
  "same_frame s s' \<longleftrightarrow> pc s' = pc s \<and> length (fp s') = length (fp s)"

definition service_ok :: "'w interp \<Rightarrow> u8 \<times> 'w interp \<Rightarrow> bool" where
  "service_ok s r \<longleftrightarrow> same_frame s (snd r) \<and> (fst r = 0 \<longrightarrow> exception (snd r) \<noteq> None)"

definition flag_service_ok :: "'w interp \<Rightarrow> bool \<times> 'w interp \<Rightarrow> bool" where
  "flag_service_ok s r \<longleftrightarrow> same_frame s (snd r) \<and> (\<not> fst r \<longrightarrow> exception (snd r) \<noteq> None)"

definition env_ok :: "'w vm_env \<Rightarrow> bool" where
  "env_ok e \<longleftrightarrow>
     (\<forall>s i. service_ok s (resolveString e s i)) \<and> (\<forall>s r b. service_ok s (resolveClass e s r b))
   \<and> (\<forall>s r. service_ok s (resolveInstField e s r)) \<and> (\<forall>s r. service_ok s (resolveStaticField e s r))
   \<and> (\<forall>s c. flag_service_ok s (initClass e s c)) \<and> (\<forall>s c. service_ok s (allocObject e s c))
   \<and> (\<forall>s c n. service_ok s (allocArrayByClass e s c n)) \<and> (\<forall>s a. same_frame s (lockObject e s a))
   \<and> (\<forall>s a. flag_service_ok s (unlockObject e s a))
   \<and> (\<forall>s as i. flag_service_ok s (performInlineOp4Std e s as i))"

text \<open>
  \<open>arm_ok n s r\<close>: the result \<open>r\<close> of an arm of width \<open>n\<close> started in \<open>s\<close>. \<open>branch_ok\<close> is the weaker form for
  the arms that branch, which keep the frame but choose the pc.
\<close>

fun branch_ok :: "'w interp \<Rightarrow> int set \<Rightarrow> 'w step_result \<Rightarrow> bool" where
  "branch_ok s pcs (Step s') \<longleftrightarrow> pc s' \<in> pcs \<and> length (fp s') = length (fp s)"
| "branch_ok s pcs (GotoException s') \<longleftrightarrow>
     exception s' \<noteq> None \<and> length (fp s') = length (fp s) \<and> pc s' \<in> {pc s, pc s + 1}"
| "branch_ok s pcs (GotoReturn s') \<longleftrightarrow> same_frame s s'"
| "branch_ok s pcs (GotoInvoke _ _ s') \<longleftrightarrow> s' = s"
| "branch_ok s pcs StepAbort \<longleftrightarrow> True"
| "branch_ok s pcs StepOOB \<longleftrightarrow> True"

abbreviation arm_ok :: "int \<Rightarrow> 'w interp \<Rightarrow> 'w step_result \<Rightarrow> bool" where
  "arm_ok n s \<equiv> branch_ok s {pc s + n}"

lemma same_frame_refl [simp]: "same_frame s s"
  by (simp add: same_frame_def)

lemma ok_fetch: "(\<And>w. branch_ok s P (f w)) \<Longrightarrow> branch_ok s P (fetch insns s' k f)"
  by (simp add: fetch_def split: option.split)

lemma ok_fetch_u4: "(\<And>w. branch_ok s P (f w)) \<Longrightarrow> branch_ok s P (fetch_u4 insns s' f)"
  by (simp add: fetch_u4_def ok_fetch)

lemma ok_regs23x: "(\<And>a b. branch_ok s P (f a b)) \<Longrightarrow> branch_ok s P (regs23x insns s' f)"
  by (simp add: regs23x_def ok_fetch)

lemma ok_getreg: "(\<And>v. branch_ok s P (f v)) \<Longrightarrow> branch_ok s P (getreg s' r f)"
  by (simp add: getreg_def)

lemma ok_getreg_float: "(\<And>v. branch_ok s P (f v)) \<Longrightarrow> branch_ok s P (getreg_float s' r f)"
  by (simp add: getreg_float_def ok_getreg)

lemma ok_setreg:
  "(\<And>s''. same_frame s' s'' \<Longrightarrow> branch_ok s P (f s'')) \<Longrightarrow> branch_ok s P (setreg s' r v f)"
  by (simp add: setreg_def same_frame_def)

lemma ok_setreg_float:
  "(\<And>s''. same_frame s' s'' \<Longrightarrow> branch_ok s P (f s'')) \<Longrightarrow> branch_ok s P (setreg_float s' r v f)"
  by (simp add: setreg_float_def ok_getreg ok_setreg)

lemma ok_throw: "same_frame s s' \<Longrightarrow> branch_ok s P (throw_new c s')"
  by (simp add: throw_new_def same_frame_def)

lemma ok_finish: "same_frame s s' \<Longrightarrow> pc s + n \<in> P \<Longrightarrow> branch_ok s P (finish n s')"
  by (simp add: finish_def same_frame_def)

lemma ok_checkForNull:
  "same_frame s s' \<Longrightarrow> (\<And>h. branch_ok s P (f h)) \<Longrightarrow> branch_ok s P (checkForNull s' obj f)"
  by (simp add: checkForNull_def ok_throw split: option.split)

lemma same_frame_export:
  "same_frame s (export_pc s') \<longleftrightarrow> same_frame s s'" "same_frame (export_pc s) s' \<longleftrightarrow> same_frame s s'"
  by (simp_all add: export_pc_def same_frame_def)

lemma ok_checkForNullExportPC:
  "same_frame s s' \<Longrightarrow> (\<And>h. branch_ok s P (f h)) \<Longrightarrow> branch_ok s P (checkForNullExportPC s' obj f)"
  by (simp add: checkForNullExportPC_def ok_throw ok_checkForNull same_frame_export)

lemma ok_class_of: "(\<And>c. branch_ok s P (f c)) \<Longrightarrow> branch_ok s P (class_of s' obj f)"
  by (simp add: class_of_def split: option.split)

lemma same_frame_trans: "same_frame s s' \<Longrightarrow> same_frame s' s'' \<Longrightarrow> same_frame s s''"
  by (simp add: same_frame_def)

lemma ok_resolved_or:
  assumes "same_frame s s1" and "same_frame s s2" and "service_ok s2 slow"
    and "\<And>r s'. same_frame s s' \<Longrightarrow> branch_ok s P (f r s')"
  shows "branch_ok s P (resolved_or cached slow s1 f)"
  using assms by (auto simp: resolved_or_def service_ok_def same_frame_def split: prod.split)

lemmas ok_rules =
  ok_fetch ok_fetch_u4 ok_regs23x ok_getreg ok_getreg_float ok_setreg ok_setreg_float ok_throw
  ok_finish ok_checkForNull ok_checkForNullExportPC ok_class_of

text \<open>The shapes of the arms.\<close>

lemma ok_unop12x: "arm_ok 1 s (unop12x f inst s)"
  unfolding unop12x_def by (intro ok_rules) auto

lemma ok_move22x: "arm_ok 2 s (move22x insns inst s)"
  unfolding move22x_def by (intro ok_rules) auto

lemma ok_move32x: "arm_ok 3 s (move32x insns s)"
  unfolding move32x_def by (intro ok_rules) auto

lemma ok_float_unops:
  "arm_ok 1 s (unop_to_float g inst s)" "arm_ok 1 s (unop_from_float h inst s)"
  unfolding unop_to_float_def unop_from_float_def by (intro ok_rules; simp)+

lemma ok_binops:
  "arm_ok 2 s (binop23x f insns inst s)" "arm_ok 1 s (binop2addr f inst s)"
  "arm_ok 2 s (binop_lit16 g insns inst s)" "arm_ok 2 s (binop_lit8 g insns inst s)"
  "arm_ok 2 s (float23x h insns inst s)" "arm_ok 1 s (float2addr h inst s)"
  unfolding binop23x_def binop2addr_def binop_lit16_def binop_lit8_def float23x_def float2addr_def
  by (intro ok_rules; simp)+

lemma ok_throw_div: "branch_ok s P (throw_div s)"
  unfolding throw_div_def by (intro ok_throw) (simp add: same_frame_export)

lemma ok_if: "branch_ok s P a \<Longrightarrow> branch_ok s P b \<Longrightarrow> branch_ok s P (if c then a else b)"
  by simp

lemma ok_divops:
  "arm_ok 2 s (divop23x z f insns inst s)" "arm_ok 1 s (divop2addr z f inst s)"
  "arm_ok 2 s (divop_lit16 g insns inst s)" "arm_ok 2 s (divop_lit8 g insns inst s)"
  unfolding divop23x_def divop2addr_def divop_lit16_def divop_lit8_def
  by (intro ok_rules ok_if ok_throw_div; simp)+

lemma ok_cmps:
  "arm_ok 2 s (cmp_float e n insns inst s)" "arm_ok 2 s (cmp_double e n insns inst s)"
  unfolding cmp_float_def cmp_double_def by (intro ok_rules; simp)+

lemma ok_array_elem:
  assumes "same_frame s s'" and "\<And>a c n bs i. branch_ok s P (f a c n bs i)"
  shows "branch_ok s P (array_elem insns s' f)"
  unfolding array_elem_def using assms by (intro ok_rules) (auto split: hobj.split intro!: ok_rules)

lemma ok_store_elem: "same_frame s s' \<Longrightarrow> arm_ok 2 s (store_elem w a c n bs i v s')"
  by (simp add: store_elem_def finish_def same_frame_def split: option.split)

lemma ok_arrays:
  "arm_ok 2 s (aget w conv insns inst s)" "arm_ok 2 s (aput w insns inst s)"
  unfolding aget_def aput_def
  by (auto intro!: ok_array_elem ok_rules ok_store_elem simp: same_frame_export split: option.split)

lemma set_field_frame: "set_field n s obj off v = Some s' \<Longrightarrow> same_frame s s'"
  by (auto simp: set_field_def same_frame_def split: option.splits hobj.splits)

lemma set_accessors_frame:
  "dvmSetFieldInt s obj off v = Some s' \<Longrightarrow> same_frame s s'"
  "dvmSetFieldLong s obj off v = Some s' \<Longrightarrow> same_frame s s'"
  "dvmSetFieldObject s obj off v = Some s' \<Longrightarrow> same_frame s s'"
  by (auto simp: dvmSetFieldInt_def dvmSetFieldLong_def dvmSetFieldObject_def dest: set_field_frame)

lemma static_accessors_frame:
  "same_frame s (dvmSetStaticFieldInt s' f v) = same_frame s s'"
  "same_frame s (dvmSetStaticFieldLong s' f v) = same_frame s s'"
  "same_frame s (dvmSetStaticFieldObject s' f v) = same_frame s s'"
  by (simp_all add: dvmSetStaticFieldInt_def dvmSetStaticFieldLong_def dvmSetStaticFieldObject_def
      same_frame_def)

lemma env_okD:
  assumes "env_ok e"
  shows "service_ok s (resolveString e s i)" "service_ok s (resolveClass e s r b)"
    "service_ok s (resolveInstField e s r)" "service_ok s (resolveStaticField e s r)"
    "flag_service_ok s (initClass e s c)" "service_ok s (allocObject e s c)"
    "service_ok s (allocArrayByClass e s c n)" "same_frame s (lockObject e s a)"
    "flag_service_ok s (unlockObject e s a)" "flag_service_ok s (performInlineOp4Std e s as k)"
  using assms by (simp_all add: env_ok_def)

lemma ok_iget:
  assumes "env_ok e" shows "arm_ok 2 s (iget g e insns inst s)"
  unfolding iget_def Let_def
  by (auto intro!: ok_rules ok_resolved_or [where ?s2.0 = "export_pc s"] env_okD [OF assms]
      simp: same_frame_export split: option.split elim: same_frame_trans)

lemma ok_iput:
  assumes "env_ok e" and "\<And>s obj off v s'. g s obj off v = Some s' \<Longrightarrow> same_frame s s'"
  shows "arm_ok 2 s (iput g e insns inst s)"
  unfolding iput_def Let_def
  by (auto intro!: ok_rules ok_resolved_or [where ?s2.0 = "export_pc s"] env_okD [OF assms(1)]
      simp: same_frame_export split: option.split dest!: assms(2) elim: same_frame_trans)

lemma ok_sget:
  assumes "env_ok e" shows "arm_ok 2 s (sget g e insns inst s)"
  unfolding sget_def
  by (auto intro!: ok_rules ok_resolved_or [where ?s2.0 = "export_pc s"] env_okD [OF assms]
      simp: same_frame_export elim: same_frame_trans)

lemma ok_sput:
  assumes "env_ok e" and "\<And>s s' f v. same_frame s (g s' f v) = same_frame s s'"
  shows "arm_ok 2 s (sput g e insns inst s)"
  unfolding sput_def
  by (auto intro!: ok_rules ok_resolved_or [where ?s2.0 = "export_pc s"] env_okD [OF assms(1)]
      simp: same_frame_export assms(2))

lemma ok_quick:
  "arm_ok 2 s (iget_quick g insns inst s)"
  "(\<And>s obj off v s'. h s obj off v = Some s' \<Longrightarrow> same_frame s s')
     \<Longrightarrow> arm_ok 2 s (iput_quick h insns inst s)"
  unfolding iget_quick_def iput_quick_def
  by (auto intro!: ok_rules split: option.split)

lemma basic_arms_ok:
  "arm_ok 1 s (op_NOP insns inst s)" "arm_ok 1 s (op_MOVE insns inst s)"
  "arm_ok 2 s (op_MOVE_FROM16 insns inst s)" "arm_ok 3 s (op_MOVE_16 insns inst s)"
  "arm_ok 1 s (op_MOVE_WIDE insns inst s)" "arm_ok 2 s (op_MOVE_WIDE_FROM16 insns inst s)"
  "arm_ok 3 s (op_MOVE_WIDE_16 insns inst s)" "arm_ok 1 s (op_MOVE_OBJECT insns inst s)"
  "arm_ok 2 s (op_MOVE_OBJECT_FROM16 insns inst s)" "arm_ok 3 s (op_MOVE_OBJECT_16 insns inst s)"
  "arm_ok 1 s (op_MOVE_RESULT insns inst s)" "arm_ok 1 s (op_MOVE_RESULT_WIDE insns inst s)"
  "arm_ok 1 s (op_MOVE_RESULT_OBJECT insns inst s)" "arm_ok 1 s (op_MOVE_EXCEPTION e insns inst s)"
  "arm_ok 1 s (op_RETURN_VOID insns inst s)" "arm_ok 1 s (op_RETURN insns inst s)"
  "arm_ok 1 s (op_RETURN_WIDE insns inst s)" "arm_ok 1 s (op_RETURN_OBJECT insns inst s)"
  "arm_ok 1 s (op_CONST_4 insns inst s)" "arm_ok 2 s (op_CONST_16 insns inst s)"
  "arm_ok 3 s (op_CONST insns inst s)" "arm_ok 2 s (op_CONST_HIGH16 insns inst s)"
  "arm_ok 2 s (op_CONST_WIDE_16 insns inst s)" "arm_ok 3 s (op_CONST_WIDE_32 insns inst s)"
  "arm_ok 5 s (op_CONST_WIDE insns inst s)" "arm_ok 2 s (op_CONST_WIDE_HIGH16 insns inst s)"
  "arm_ok 2 s (op_CMPL_FLOAT e insns inst s)" "arm_ok 2 s (op_CMPG_FLOAT e insns inst s)"
  "arm_ok 2 s (op_CMPL_DOUBLE e insns inst s)" "arm_ok 2 s (op_CMPG_DOUBLE e insns inst s)"
  "arm_ok 2 s (op_CMP_LONG insns inst s)"
  by (simp_all add: basic_handler_defs ok_unop12x ok_move22x ok_move32x ok_cmps)
    (auto intro!: ok_rules split: option.split simp: same_frame_def)

lemma arith_arms_ok:
  "arm_ok 1 s (op_NEG_INT insns inst s)" "arm_ok 1 s (op_NOT_INT insns inst s)"
  "arm_ok 1 s (op_NEG_LONG insns inst s)" "arm_ok 1 s (op_NOT_LONG insns inst s)"
  "arm_ok 1 s (op_NEG_FLOAT e insns inst s)" "arm_ok 1 s (op_NEG_DOUBLE e insns inst s)"
  "arm_ok 1 s (op_INT_TO_LONG insns inst s)" "arm_ok 1 s (op_INT_TO_FLOAT e insns inst s)"
  "arm_ok 1 s (op_INT_TO_DOUBLE e insns inst s)" "arm_ok 1 s (op_LONG_TO_INT insns inst s)"
  "arm_ok 1 s (op_LONG_TO_FLOAT e insns inst s)" "arm_ok 1 s (op_LONG_TO_DOUBLE e insns inst s)"
  "arm_ok 1 s (op_FLOAT_TO_INT e insns inst s)" "arm_ok 1 s (op_FLOAT_TO_LONG e insns inst s)"
  "arm_ok 1 s (op_FLOAT_TO_DOUBLE e insns inst s)" "arm_ok 1 s (op_DOUBLE_TO_INT e insns inst s)"
  "arm_ok 1 s (op_DOUBLE_TO_LONG e insns inst s)" "arm_ok 1 s (op_DOUBLE_TO_FLOAT e insns inst s)"
  "arm_ok 1 s (op_INT_TO_BYTE insns inst s)" "arm_ok 1 s (op_INT_TO_CHAR insns inst s)"
  "arm_ok 1 s (op_INT_TO_SHORT insns inst s)" "arm_ok 2 s (op_ADD_INT insns inst s)"
  "arm_ok 2 s (op_SUB_INT insns inst s)" "arm_ok 2 s (op_MUL_INT insns inst s)"
  "arm_ok 2 s (op_DIV_INT insns inst s)" "arm_ok 2 s (op_REM_INT insns inst s)"
  "arm_ok 2 s (op_AND_INT insns inst s)" "arm_ok 2 s (op_OR_INT insns inst s)"
  "arm_ok 2 s (op_XOR_INT insns inst s)" "arm_ok 2 s (op_SHL_INT insns inst s)"
  "arm_ok 2 s (op_SHR_INT insns inst s)" "arm_ok 2 s (op_USHR_INT insns inst s)"
  "arm_ok 2 s (op_ADD_LONG insns inst s)" "arm_ok 2 s (op_SUB_LONG insns inst s)"
  "arm_ok 2 s (op_MUL_LONG insns inst s)" "arm_ok 2 s (op_DIV_LONG insns inst s)"
  "arm_ok 2 s (op_REM_LONG insns inst s)" "arm_ok 2 s (op_AND_LONG insns inst s)"
  "arm_ok 2 s (op_OR_LONG insns inst s)" "arm_ok 2 s (op_XOR_LONG insns inst s)"
  "arm_ok 2 s (op_SHL_LONG insns inst s)" "arm_ok 2 s (op_SHR_LONG insns inst s)"
  "arm_ok 2 s (op_USHR_LONG insns inst s)" "arm_ok 2 s (op_ADD_FLOAT e insns inst s)"
  "arm_ok 2 s (op_SUB_FLOAT e insns inst s)" "arm_ok 2 s (op_MUL_FLOAT e insns inst s)"
  "arm_ok 2 s (op_DIV_FLOAT e insns inst s)" "arm_ok 2 s (op_REM_FLOAT e insns inst s)"
  "arm_ok 2 s (op_ADD_DOUBLE e insns inst s)" "arm_ok 2 s (op_SUB_DOUBLE e insns inst s)"
  "arm_ok 2 s (op_MUL_DOUBLE e insns inst s)" "arm_ok 2 s (op_DIV_DOUBLE e insns inst s)"
  "arm_ok 2 s (op_REM_DOUBLE e insns inst s)" "arm_ok 1 s (op_ADD_INT_2ADDR insns inst s)"
  "arm_ok 1 s (op_SUB_INT_2ADDR insns inst s)" "arm_ok 1 s (op_MUL_INT_2ADDR insns inst s)"
  "arm_ok 1 s (op_DIV_INT_2ADDR insns inst s)" "arm_ok 1 s (op_REM_INT_2ADDR insns inst s)"
  "arm_ok 1 s (op_AND_INT_2ADDR insns inst s)" "arm_ok 1 s (op_OR_INT_2ADDR insns inst s)"
  "arm_ok 1 s (op_XOR_INT_2ADDR insns inst s)" "arm_ok 1 s (op_SHL_INT_2ADDR insns inst s)"
  "arm_ok 1 s (op_SHR_INT_2ADDR insns inst s)" "arm_ok 1 s (op_USHR_INT_2ADDR insns inst s)"
  "arm_ok 1 s (op_ADD_LONG_2ADDR insns inst s)" "arm_ok 1 s (op_SUB_LONG_2ADDR insns inst s)"
  "arm_ok 1 s (op_MUL_LONG_2ADDR insns inst s)" "arm_ok 1 s (op_DIV_LONG_2ADDR insns inst s)"
  "arm_ok 1 s (op_REM_LONG_2ADDR insns inst s)" "arm_ok 1 s (op_AND_LONG_2ADDR insns inst s)"
  "arm_ok 1 s (op_OR_LONG_2ADDR insns inst s)" "arm_ok 1 s (op_XOR_LONG_2ADDR insns inst s)"
  "arm_ok 1 s (op_SHL_LONG_2ADDR insns inst s)" "arm_ok 1 s (op_SHR_LONG_2ADDR insns inst s)"
  "arm_ok 1 s (op_USHR_LONG_2ADDR insns inst s)" "arm_ok 1 s (op_ADD_FLOAT_2ADDR e insns inst s)"
  "arm_ok 1 s (op_SUB_FLOAT_2ADDR e insns inst s)" "arm_ok 1 s (op_MUL_FLOAT_2ADDR e insns inst s)"
  "arm_ok 1 s (op_DIV_FLOAT_2ADDR e insns inst s)" "arm_ok 1 s (op_REM_FLOAT_2ADDR e insns inst s)"
  "arm_ok 1 s (op_ADD_DOUBLE_2ADDR e insns inst s)"
  "arm_ok 1 s (op_SUB_DOUBLE_2ADDR e insns inst s)"
  "arm_ok 1 s (op_MUL_DOUBLE_2ADDR e insns inst s)"
  "arm_ok 1 s (op_DIV_DOUBLE_2ADDR e insns inst s)"
  "arm_ok 1 s (op_REM_DOUBLE_2ADDR e insns inst s)" "arm_ok 2 s (op_ADD_INT_LIT16 insns inst s)"
  "arm_ok 2 s (op_RSUB_INT insns inst s)" "arm_ok 2 s (op_MUL_INT_LIT16 insns inst s)"
  "arm_ok 2 s (op_DIV_INT_LIT16 insns inst s)" "arm_ok 2 s (op_REM_INT_LIT16 insns inst s)"
  "arm_ok 2 s (op_AND_INT_LIT16 insns inst s)" "arm_ok 2 s (op_OR_INT_LIT16 insns inst s)"
  "arm_ok 2 s (op_XOR_INT_LIT16 insns inst s)" "arm_ok 2 s (op_ADD_INT_LIT8 insns inst s)"
  "arm_ok 2 s (op_RSUB_INT_LIT8 insns inst s)" "arm_ok 2 s (op_MUL_INT_LIT8 insns inst s)"
  "arm_ok 2 s (op_DIV_INT_LIT8 insns inst s)" "arm_ok 2 s (op_REM_INT_LIT8 insns inst s)"
  "arm_ok 2 s (op_AND_INT_LIT8 insns inst s)" "arm_ok 2 s (op_OR_INT_LIT8 insns inst s)"
  "arm_ok 2 s (op_XOR_INT_LIT8 insns inst s)" "arm_ok 2 s (op_SHL_INT_LIT8 insns inst s)"
  "arm_ok 2 s (op_SHR_INT_LIT8 insns inst s)" "arm_ok 2 s (op_USHR_INT_LIT8 insns inst s)"
  by (simp_all only: arith_handler_defs ok_unop12x ok_float_unops ok_binops ok_divops)
    (intro ok_rules; simp)

lemma ok_aput_object: "arm_ok 2 s (op_APUT_OBJECT e insns inst s)"
  unfolding op_APUT_OBJECT_def Let_def
  by (auto intro!: ok_array_elem ok_rules ok_store_elem simp: same_frame_export)

lemma ok_array_length: "arm_ok 1 s (op_ARRAY_LENGTH insns inst s)"
  unfolding op_ARRAY_LENGTH_def by (auto intro!: ok_rules split: hobj.split)

lemma fill_frame:
  assumes "dvmInterpHandleFillArrayData insns a p s = Ret (ok, s')"
  shows "same_frame s s' \<and> (\<not> ok \<longrightarrow> exception s' \<noteq> None)"
  using assms
  by (auto simp: dvmInterpHandleFillArrayData_def same_frame_def bind_out_def
      split: if_splits outcome.splits option.splits hobj.splits)

lemma ok_fill_array_data: "arm_ok 3 s (op_FILL_ARRAY_DATA insns inst s)"
proof -
  have "arm_ok 3 s (case dvmInterpHandleFillArrayData insns a p (export_pc s) of
      AbortVM \<Rightarrow> StepAbort | OutOfBounds \<Rightarrow> StepOOB
    | Ret (ok, s') \<Rightarrow> if ok then finish 3 s' else GotoException s')" for a p
    using fill_frame [of insns a p "export_pc s"]
    by (auto simp: same_frame_export split: outcome.split intro!: ok_finish)
       (auto simp: same_frame_def)
  then show ?thesis
    unfolding op_FILL_ARRAY_DATA_def Let_def
    by (auto intro!: ok_rules simp: same_frame_export)
qed

lemma ok_resolving_arms:
  assumes "env_ok e"
  shows "arm_ok 2 s (op_CONST_STRING e insns inst s)" "arm_ok 3 s (op_CONST_STRING_JUMBO e insns inst s)"
    "arm_ok 2 s (op_CONST_CLASS e insns inst s)" "arm_ok 2 s (op_CHECK_CAST e insns inst s)"
    "arm_ok 2 s (op_INSTANCE_OF e insns inst s)"
  unfolding op_CONST_STRING_def op_CONST_STRING_JUMBO_def op_CONST_CLASS_def op_CHECK_CAST_def
    op_INSTANCE_OF_def Let_def
  by (auto intro!: ok_rules ok_resolved_or [where ?s2.0 = "export_pc s"] env_okD [OF assms]
      simp: same_frame_export elim: same_frame_trans)

lemma ok_monitors:
  assumes "env_ok e"
  shows "arm_ok 1 s (op_MONITOR_ENTER e insns inst s)" "arm_ok 1 s (op_MONITOR_EXIT e insns inst s)"
proof -
  show "arm_ok 1 s (op_MONITOR_ENTER e insns inst s)"
    unfolding op_MONITOR_ENTER_def by (auto intro!: ok_rules env_okD [OF assms])
  have null: "arm_ok 1 s (checkForNull (export_pc s\<lparr>pc := pc s + 1\<rparr>) 0 f)" for f
    by (simp add: checkForNull_def throw_new_def)
  have "arm_ok 1 s (case unlockObject e (export_pc s) obj of
      (False, s') \<Rightarrow> if exception s' = None then StepAbort else GotoException (s'\<lparr>pc := pc s' + 1\<rparr>)
    | (True, s') \<Rightarrow> finish 1 s')" for obj
    using env_okD(9) [OF assms, of "export_pc s" obj]
    by (auto simp: flag_service_ok_def same_frame_export finish_def same_frame_def split: prod.split bool.split)
  then show "arm_ok 1 s (op_MONITOR_EXIT e insns inst s)"
    unfolding op_MONITOR_EXIT_def Let_def
    by (intro ok_getreg) (auto intro!: ok_checkForNull simp: same_frame_export null)
qed

lemma ok_new_instance:
  assumes "env_ok e" shows "arm_ok 2 s (op_NEW_INSTANCE e insns inst s)"
proof -
  have alloc: "arm_ok 2 s (case allocObject e s1 c of (newObj, s') \<Rightarrow>
      if newObj = 0 then GotoException s' else setreg s' r newObj (finish 2))" if "same_frame s s1" for s1 c r
    using env_okD(6) [OF assms, of s1 c] that
    by (auto simp: service_ok_def split: prod.split intro!: ok_rules elim: same_frame_trans)
      (auto simp: same_frame_def)
  have init: "arm_ok 2 s
     (case (if isClassInitialized e (world s1) c then (True, s1) else initClass e s1 c) of
        (False, s) \<Rightarrow> GotoException s
      | (True, s) \<Rightarrow>
          if isInterfaceClass e (world s) c \<or> isAbstractClass e (world s) c
          then throw_new ''Ljava/lang/InstantiationError;'' s
          else case allocObject e s c of (newObj, s) \<Rightarrow>
            if newObj = 0 then GotoException s else setreg s r newObj (finish 2))"
    if "same_frame s s1" for s1 c r
  proof -
    have "flag_service_ok s1 (if isClassInitialized e (world s1) c then (True, s1) else initClass e s1 c)"
      using env_okD(5) [OF assms] by (simp add: flag_service_ok_def)
    moreover obtain b s2 where
      r: "(if isClassInitialized e (world s1) c then (True, s1) else initClass e s1 c) = (b, s2)"
      by (rule prod.exhaust)
    ultimately have s2: "same_frame s1 s2" "\<not> b \<Longrightarrow> exception s2 \<noteq> None"
      by (simp_all add: flag_service_ok_def)
    have s: "same_frame s s2" using s2(1) that by (rule same_frame_trans [rotated])
    show ?thesis
    proof (cases b)
      case True
      then show ?thesis using s by (simp add: r ok_throw alloc)
    next
      case False
      then show ?thesis using s s2 by (simp add: r same_frame_def)
    qed
  qed
  show ?thesis
    unfolding op_NEW_INSTANCE_def Let_def
    by (intro ok_rules ok_resolved_or [where ?s2.0 = "export_pc s"] env_okD [OF assms] init)
      (simp_all add: same_frame_export)
qed

lemma ok_new_array:
  assumes "env_ok e" shows "arm_ok 2 s (op_NEW_ARRAY e insns inst s)"
proof -
  have alloc: "arm_ok 2 s (case allocArrayByClass e s1 c n of (newObj, s') \<Rightarrow>
      if newObj = 0 then GotoException s' else setreg s' r newObj (finish 2))" if "same_frame s s1" for s1 c n r
    using env_okD(7) [OF assms, of s1 c n] that
    by (auto simp: service_ok_def split: prod.split intro!: ok_rules elim: same_frame_trans)
      (auto simp: same_frame_def)
  show ?thesis
    unfolding op_NEW_ARRAY_def Let_def
    by (auto intro!: ok_rules ok_resolved_or [where ?s2.0 = "export_pc s"] env_okD [OF assms] alloc
        simp: same_frame_export)
qed

lemma ok_filledNewArray:
  assumes "env_ok e" shows "arm_ok 3 s (filledNewArray e mr insns inst s)"
proof -
  have alloc: "arm_ok 3 s (case allocArrayByClass e s1 c n of (newArray, s) \<Rightarrow>
       if newArray = 0 then GotoException s
       else if abort then StepAbort
       else case heap s newArray of
          Some (Arr c len contents) \<Rightarrow>
            (case store_regs (fp s) contents ps of
               None \<Rightarrow> StepOOB
             | Some contents' \<Rightarrow> finish 3 (s\<lparr>heap := (heap s)(newArray \<mapsto> Arr c len contents'), retval := newArray\<rparr>))
        | _ \<Rightarrow> StepOOB)" if "same_frame s s1" for s1 c n ps abort
    using env_okD(7) [OF assms, of s1 c n] that
    by (auto simp: service_ok_def same_frame_def finish_def split: prod.split option.split hobj.split)
  show ?thesis
    unfolding filledNewArray_def Let_def
    by (auto intro!: ok_rules ok_resolved_or [where ?s2.0 = "export_pc s"] env_okD [OF assms] alloc
        simp: same_frame_export)
qed

lemma ok_throw_arm: "arm_ok 1 s (op_THROW insns inst s)"
  unfolding op_THROW_def by (intro ok_rules) auto

lemma ok_misc:
  assumes "env_ok e"
  shows "arm_ok 3 s (op_EXECUTE_INLINE e insns inst s)"
    "arm_ok 3 s (op_INVOKE_DIRECT_EMPTY e insns inst s)"
proof -
  have "arm_ok 3 s (case performInlineOp4Std e (export_pc s) as i of
      (False, s') \<Rightarrow> GotoException s' | (True, s') \<Rightarrow> finish 3 s')" for as i
    using env_okD(10) [OF assms, of "export_pc s" as i]
    by (auto simp: flag_service_ok_def same_frame_export finish_def same_frame_def split: prod.split bool.split)
  then show "arm_ok 3 s (op_EXECUTE_INLINE e insns inst s)"
    unfolding op_EXECUTE_INLINE_def Let_def by (auto intro!: ok_rules split: option.split)
  show "arm_ok 3 s (op_INVOKE_DIRECT_EMPTY e insns inst s)"
    unfolding op_INVOKE_DIRECT_EMPTY_def by (auto intro!: ok_rules)
qed

lemmas heap_field_defs =
  op_AGET_def op_AGET_WIDE_def op_AGET_OBJECT_def op_AGET_BOOLEAN_def op_AGET_BYTE_def
  op_AGET_CHAR_def op_AGET_SHORT_def op_APUT_def op_APUT_WIDE_def op_APUT_BOOLEAN_def
  op_APUT_BYTE_def op_APUT_CHAR_def op_APUT_SHORT_def op_IGET_def op_IGET_WIDE_def
  op_IGET_OBJECT_def op_IGET_BOOLEAN_def op_IGET_BYTE_def op_IGET_CHAR_def op_IGET_SHORT_def
  op_IPUT_def op_IPUT_WIDE_def op_IPUT_OBJECT_def op_IPUT_BOOLEAN_def op_IPUT_BYTE_def
  op_IPUT_CHAR_def op_IPUT_SHORT_def op_SGET_def op_SGET_WIDE_def op_SGET_OBJECT_def
  op_SGET_BOOLEAN_def op_SGET_BYTE_def op_SGET_CHAR_def op_SGET_SHORT_def op_SPUT_def
  op_SPUT_WIDE_def op_SPUT_OBJECT_def op_SPUT_BOOLEAN_def op_SPUT_BYTE_def op_SPUT_CHAR_def
  op_SPUT_SHORT_def op_IGET_QUICK_def op_IGET_WIDE_QUICK_def op_IGET_OBJECT_QUICK_def
  op_IPUT_QUICK_def op_IPUT_WIDE_QUICK_def op_IPUT_OBJECT_QUICK_def op_FILLED_NEW_ARRAY_def
  op_FILLED_NEW_ARRAY_RANGE_def

lemma heap_arms_ok:
  assumes "env_ok e"
  shows
  "arm_ok 2 s (op_AGET insns inst s)" "arm_ok 2 s (op_AGET_WIDE insns inst s)"
  "arm_ok 2 s (op_AGET_OBJECT insns inst s)" "arm_ok 2 s (op_AGET_BOOLEAN insns inst s)"
  "arm_ok 2 s (op_AGET_BYTE insns inst s)" "arm_ok 2 s (op_AGET_CHAR insns inst s)"
  "arm_ok 2 s (op_AGET_SHORT insns inst s)" "arm_ok 2 s (op_APUT insns inst s)"
  "arm_ok 2 s (op_APUT_WIDE insns inst s)" "arm_ok 2 s (op_APUT_OBJECT e insns inst s)"
  "arm_ok 2 s (op_APUT_BOOLEAN insns inst s)" "arm_ok 2 s (op_APUT_BYTE insns inst s)"
  "arm_ok 2 s (op_APUT_CHAR insns inst s)" "arm_ok 2 s (op_APUT_SHORT insns inst s)"
  "arm_ok 1 s (op_ARRAY_LENGTH insns inst s)" "arm_ok 3 s (op_FILL_ARRAY_DATA insns inst s)"
  "arm_ok 2 s (op_IGET e insns inst s)" "arm_ok 2 s (op_IGET_WIDE e insns inst s)"
  "arm_ok 2 s (op_IGET_OBJECT e insns inst s)" "arm_ok 2 s (op_IGET_BOOLEAN e insns inst s)"
  "arm_ok 2 s (op_IGET_BYTE e insns inst s)" "arm_ok 2 s (op_IGET_CHAR e insns inst s)"
  "arm_ok 2 s (op_IGET_SHORT e insns inst s)" "arm_ok 2 s (op_IPUT e insns inst s)"
  "arm_ok 2 s (op_IPUT_WIDE e insns inst s)" "arm_ok 2 s (op_IPUT_OBJECT e insns inst s)"
  "arm_ok 2 s (op_IPUT_BOOLEAN e insns inst s)" "arm_ok 2 s (op_IPUT_BYTE e insns inst s)"
  "arm_ok 2 s (op_IPUT_CHAR e insns inst s)" "arm_ok 2 s (op_IPUT_SHORT e insns inst s)"
  "arm_ok 2 s (op_SGET e insns inst s)" "arm_ok 2 s (op_SGET_WIDE e insns inst s)"
  "arm_ok 2 s (op_SGET_OBJECT e insns inst s)" "arm_ok 2 s (op_SGET_BOOLEAN e insns inst s)"
  "arm_ok 2 s (op_SGET_BYTE e insns inst s)" "arm_ok 2 s (op_SGET_CHAR e insns inst s)"
  "arm_ok 2 s (op_SGET_SHORT e insns inst s)" "arm_ok 2 s (op_SPUT e insns inst s)"
  "arm_ok 2 s (op_SPUT_WIDE e insns inst s)" "arm_ok 2 s (op_SPUT_OBJECT e insns inst s)"
  "arm_ok 2 s (op_SPUT_BOOLEAN e insns inst s)" "arm_ok 2 s (op_SPUT_BYTE e insns inst s)"
  "arm_ok 2 s (op_SPUT_CHAR e insns inst s)" "arm_ok 2 s (op_SPUT_SHORT e insns inst s)"
  "arm_ok 2 s (op_IGET_QUICK insns inst s)" "arm_ok 2 s (op_IGET_WIDE_QUICK insns inst s)"
  "arm_ok 2 s (op_IGET_OBJECT_QUICK insns inst s)" "arm_ok 2 s (op_IPUT_QUICK insns inst s)"
  "arm_ok 2 s (op_IPUT_WIDE_QUICK insns inst s)" "arm_ok 2 s (op_IPUT_OBJECT_QUICK insns inst s)"
  "arm_ok 2 s (op_CONST_STRING e insns inst s)" "arm_ok 3 s (op_CONST_STRING_JUMBO e insns inst s)"
  "arm_ok 2 s (op_CONST_CLASS e insns inst s)" "arm_ok 1 s (op_MONITOR_ENTER e insns inst s)"
  "arm_ok 1 s (op_MONITOR_EXIT e insns inst s)" "arm_ok 2 s (op_CHECK_CAST e insns inst s)"
  "arm_ok 2 s (op_INSTANCE_OF e insns inst s)" "arm_ok 2 s (op_NEW_INSTANCE e insns inst s)"
  "arm_ok 2 s (op_NEW_ARRAY e insns inst s)" "arm_ok 3 s (op_FILLED_NEW_ARRAY e insns inst s)"
  "arm_ok 3 s (op_FILLED_NEW_ARRAY_RANGE e insns inst s)" "arm_ok 1 s (op_THROW insns inst s)"
  "arm_ok 3 s (op_EXECUTE_INLINE e insns inst s)"
  "arm_ok 3 s (op_INVOKE_DIRECT_EMPTY e insns inst s)"
  by (simp_all add: heap_field_defs ok_arrays ok_iget ok_iput ok_sget ok_sput ok_quick
      set_accessors_frame static_accessors_frame ok_aput_object ok_array_length ok_fill_array_data
      ok_resolving_arms ok_monitors ok_new_instance ok_new_array ok_filledNewArray ok_misc ok_throw_arm assms)

lemma invoke_arms_ok: "arm_ok n s (GotoInvoke k r s)" "arm_ok n s StepAbort"
  by simp_all

lemma ok_UNIV: "arm_ok n s r \<Longrightarrow> branch_ok s UNIV r"
  by (cases r) auto

lemma ok_switch31t:
  "branch_ok s UNIV (switch31t h insns inst s)"
proof -
  have "branch_ok s UNIV (case r of AbortVM \<Rightarrow> StepAbort | OutOfBounds \<Rightarrow> StepOOB
     | Ret (threw, off) \<Rightarrow> finish off (if threw then s\<lparr>exception := x\<rparr> else s))" for r x
    by (auto simp: finish_def split: outcome.split)
  then show ?thesis
    unfolding switch31t_def Let_def by (auto intro!: ok_rules simp: same_frame_export)
qed

lemma ok_branches:
  "branch_ok s UNIV (op_GOTO insns inst s)" "branch_ok s UNIV (op_GOTO_16 insns inst s)"
  "branch_ok s UNIV (op_GOTO_32 insns inst s)" "branch_ok s UNIV (if22t c insns inst s)"
  "branch_ok s UNIV (if21t z insns inst s)"
  unfolding op_GOTO_def op_GOTO_16_def op_GOTO_32_def if22t_def if21t_def
  by (intro ok_rules ok_if; simp)+

lemmas branch_handler_defs =
  op_IF_EQ_def op_IF_NE_def op_IF_LT_def op_IF_GE_def op_IF_GT_def op_IF_LE_def
  op_IF_EQZ_def op_IF_NEZ_def op_IF_LTZ_def op_IF_GEZ_def op_IF_GTZ_def op_IF_LEZ_def
  op_PACKED_SWITCH_def op_SPARSE_SWITCH_def

text \<open>
  Where an instruction can continue: behind itself, by the width table, unless it is a branch or a
  switch by the flags table. An opcode without a width says nothing.
\<close>

definition next_pcs :: "int \<Rightarrow> InstructionFlags \<Rightarrow> int \<Rightarrow> int set" where
  "next_pcs width flags p =
     (if width = 0 \<or> flags AND (kInstrCanBranch OR kInstrCanSwitch) \<noteq> 0 then UNIV else {p + \<bar>width\<bar>})"

lemma next_pcs_simps:
  "next_pcs 0 f p = UNIV" "next_pcs w 3 p = UNIV" "next_pcs w 6 p = UNIV" "next_pcs w 1 p = UNIV"
  "next_pcs 1 2 p = {p + 1}" "next_pcs 2 2 p = {p + 2}" "next_pcs 3 2 p = {p + 3}" "next_pcs 5 2 p = {p + 5}"
  "next_pcs 1 10 p = {p + 1}" "next_pcs 2 10 p = {p + 2}" "next_pcs 3 10 p = {p + 3}"
  "next_pcs 1 8 p = {p + 1}" "next_pcs 1 16 p = {p + 1}"
  "next_pcs (- 2) 10 p = {p + 2}" "next_pcs (- 3) 10 p = {p + 3}" "next_pcs (- 3) 2 p = {p + 3}"
  by (simp_all add: next_pcs_def flag_defs)

lemma handlers_ok:
  assumes "env_ok e"
  shows "list_all2 (\<lambda>P h. branch_ok s P (h e insns inst s))
           (map2 (\<lambda>w f. next_pcs w f (pc s)) (map instr_width_of [0..<256]) (map instr_flags_of [0..<256])) handlers"
  by (simp only: width_table_eq flags_table_eq handlers_def zip_Cons_Cons zip_Nil list.map prod.case
      next_pcs_simps list_all2_Cons list_all2_Nil simp_thms basic_arms_ok arith_arms_ok
      heap_arms_ok [OF assms] heap_arms_ok [OF assms, THEN ok_UNIV] arith_arms_ok [THEN ok_UNIV]
      invoke_handler_defs invoke_arms_ok invoke_arms_ok [THEN ok_UNIV] ok_branches ok_switch31t branch_handler_defs)

text \<open>A concrete environment: nothing is resolved or allocated and the floating-point results are zero.\<close>

definition failing :: "unit interp \<Rightarrow> unit interp" where
  "failing s = s\<lparr>exception := Some (NewException ''Ljava/lang/InternalError;'')\<rparr>"

definition sample_env :: "unit vm_env" where
  "sample_env = \<lparr>
     f_neg = (\<lambda>_. 0), f_add = (\<lambda>_ _. 0), f_sub = (\<lambda>_ _. 0), f_mul = (\<lambda>_ _. 0), f_div = (\<lambda>_ _. 0),
     f_fmod = (\<lambda>_ _. 0), f_eq = (=), f_lt = (<), f_of_s4 = (\<lambda>_. 0), f_of_s8 = (\<lambda>_. 0), f_of_d = (\<lambda>_. 0),
     f_to_s4 = (\<lambda>_. 0), f_to_s8 = (\<lambda>_. 0), d_neg = (\<lambda>_. 0), d_add = (\<lambda>_ _. 0), d_sub = (\<lambda>_ _. 0),
     d_mul = (\<lambda>_ _. 0), d_div = (\<lambda>_ _. 0), d_fmod = (\<lambda>_ _. 0), d_eq = (=), d_lt = (<),
     d_of_s4 = (\<lambda>_. 0), d_of_s8 = (\<lambda>_. 0), d_of_f = (\<lambda>_. 0), d_to_s4 = (\<lambda>_. 0), d_to_s8 = (\<lambda>_. 0),
     thrown_addr = (\<lambda>_ _. 0x2000), dexGetResolvedString = (\<lambda>_ _. 0), dexGetResolvedClass = (\<lambda>_ _. 0),
     dexGetResolvedField = (\<lambda>_ _. 0), resolveString = (\<lambda>s _. (0, failing s)),
     resolveClass = (\<lambda>s _ _. (0, failing s)), resolveInstField = (\<lambda>s _. (0, failing s)),
     resolveStaticField = (\<lambda>s _. (0, failing s)), byteOffset = (\<lambda>_ _. 0), instanceof = (\<lambda>_. (=)),
     canPutArrayElement = (\<lambda>_ _ _. True), isClassInitialized = (\<lambda>_ _. True),
     initClass = (\<lambda>s _. (True, s)), isInterfaceClass = (\<lambda>_ _. False), isAbstractClass = (\<lambda>_ _. False),
     isArrayClass = (\<lambda>_ _. True), descriptor1 = (\<lambda>_ _. CHR ''I''), allocObject = (\<lambda>s _. (0, failing s)),
     allocArrayByClass = (\<lambda>s _ _. (0, failing s)), lockObject = (\<lambda>s _. s), unlockObject = (\<lambda>s _. (True, s)),
     performInlineOp4Std = (\<lambda>s _ _. (True, s)), debuggerActive = False\<rparr>"

lemma sample_env_ok: "env_ok sample_env"
  by (simp add: env_ok_def sample_env_def service_ok_def flag_service_ok_def same_frame_def failing_def)

definition sample_state :: "u8 list \<Rightarrow> unit interp" where
  "sample_state regs = \<lparr>fp = regs, pc = 0, retval = 0, exception = None, heap = Map.empty,
     statics = (\<lambda>_. 0), currentPc = None, world = ()\<rparr>"

section \<open>Every step keeps the frame and the pc\<close>



end
