(* ===== verification/InterpInt.thy ===== *)
theory InterpInt
  imports Interp
begin

text \<open>
  The \<open>int\<close> arithmetic of the interpreter against the 32-bit arithmetic of the Java language. The 41
  arms in four encodings are compared, through the dispatch table, with one specification of
  eleven operators on the operands that the instruction decoder of libdex reports, so that the interpreter's
  own operand fetching is checked against the decoder.
\<close>

section \<open>The specification\<close>

datatype jop = JAdd | JSub | JRsub | JMul | JDiv | JRem | JAnd | JOr | JXor | JShl | JShr | JUshr

text \<open>\<open>None\<close> is \<open>ArithmeticException\<close>. Arithmetic wraps; a shift uses the five low bits of its count.\<close>

fun java_int :: "jop \<Rightarrow> u4 \<Rightarrow> u4 \<Rightarrow> u4 option" where
  "java_int JAdd a b = Some (a + b)"
| "java_int JSub a b = Some (a - b)"
| "java_int JRsub a b = Some (b - a)"
| "java_int JMul a b = Some (a * b)"
| "java_int JDiv a b = (if b = 0 then None else Some (word_of_int (sint a sdiv sint b)))"
| "java_int JRem a b = (if b = 0 then None else Some (word_of_int (sint a smod sint b)))"
| "java_int JAnd a b = Some (a AND b)"
| "java_int JOr a b = Some (a OR b)"
| "java_int JXor a b = Some (a XOR b)"
| "java_int JShl a b = Some (push_bit (unat (b AND 0x1f)) a)"
| "java_int JShr a b = Some (signed_drop_bit (unat (b AND 0x1f)) a)"
| "java_int JUshr a b = Some (drop_bit (unat (b AND 0x1f)) a)"

datatype form = Reg3 | Reg2 | Lit

definition reg3_ops :: "(OpCode \<times> jop) list" where
  "reg3_ops =
     [(OP_ADD_INT, JAdd), (OP_SUB_INT, JSub), (OP_MUL_INT, JMul), (OP_DIV_INT, JDiv),
      (OP_REM_INT, JRem), (OP_AND_INT, JAnd), (OP_OR_INT, JOr), (OP_XOR_INT, JXor),
      (OP_SHL_INT, JShl), (OP_SHR_INT, JShr), (OP_USHR_INT, JUshr)]"

definition reg2_ops :: "(OpCode \<times> jop) list" where
  "reg2_ops =
     [(OP_ADD_INT_2ADDR, JAdd), (OP_SUB_INT_2ADDR, JSub), (OP_MUL_INT_2ADDR, JMul),
      (OP_DIV_INT_2ADDR, JDiv), (OP_REM_INT_2ADDR, JRem), (OP_AND_INT_2ADDR, JAnd),
      (OP_OR_INT_2ADDR, JOr), (OP_XOR_INT_2ADDR, JXor), (OP_SHL_INT_2ADDR, JShl),
      (OP_SHR_INT_2ADDR, JShr), (OP_USHR_INT_2ADDR, JUshr)]"

definition lit16_ops :: "(OpCode \<times> jop) list" where
  "lit16_ops =
     [(OP_ADD_INT_LIT16, JAdd), (OP_RSUB_INT, JRsub), (OP_MUL_INT_LIT16, JMul),
      (OP_DIV_INT_LIT16, JDiv), (OP_REM_INT_LIT16, JRem), (OP_AND_INT_LIT16, JAnd),
      (OP_OR_INT_LIT16, JOr), (OP_XOR_INT_LIT16, JXor)]"

definition lit8_ops :: "(OpCode \<times> jop) list" where
  "lit8_ops =
     [(OP_ADD_INT_LIT8, JAdd), (OP_RSUB_INT_LIT8, JRsub), (OP_MUL_INT_LIT8, JMul),
      (OP_DIV_INT_LIT8, JDiv), (OP_REM_INT_LIT8, JRem), (OP_AND_INT_LIT8, JAnd),
      (OP_OR_INT_LIT8, JOr), (OP_XOR_INT_LIT8, JXor), (OP_SHL_INT_LIT8, JShl),
      (OP_SHR_INT_LIT8, JShr), (OP_USHR_INT_LIT8, JUshr)]"

text \<open>The opcodes that implement an operator in a form.\<close>

definition int_ops :: "form \<Rightarrow> (OpCode \<times> jop) list" where
  "int_ops f = (case f of Reg3 \<Rightarrow> reg3_ops | Reg2 \<Rightarrow> reg2_ops | Lit \<Rightarrow> lit16_ops @ lit8_ops)"

text \<open>The two source operands, low halves of registers or a sign-extended literal, by the decoder's fields.\<close>

fun operands :: "form \<Rightarrow> DecodedInstruction \<Rightarrow> u8 list \<Rightarrow> u4 \<times> u4" where
  "operands Reg3 d regs = (i32 (regs ! unat (vB d)), i32 (regs ! unat (vC d)))"
| "operands Reg2 d regs = (i32 (regs ! unat (vA d)), i32 (regs ! unat (vB d)))"
| "operands Lit d regs = (i32 (regs ! unat (vB d)), vC d)"

fun regs_in_frame :: "form \<Rightarrow> DecodedInstruction \<Rightarrow> nat \<Rightarrow> bool" where
  "regs_in_frame Reg3 d n \<longleftrightarrow> unat (vA d) < n \<and> unat (vB d) < n \<and> unat (vC d) < n"
| "regs_in_frame _ d n \<longleftrightarrow> unat (vA d) < n \<and> unat (vB d) < n"

section \<open>Operators on the low half of a register\<close>

lemma i32_low32 [low32_simps]:
  "i32 (a + b) = i32 a + i32 b" "i32 (a * b) = i32 a * i32 b" "i32 (a - b) = i32 a - i32 b"
  "i32 (a AND b) = i32 a AND i32 b" "i32 (a OR b) = i32 a OR i32 b" "i32 (a XOR b) = i32 a XOR i32 b"
  "i32 (lit16 w) = lit16_int w"
proof -
  show "i32 (a AND b) = i32 a AND i32 b" "i32 (a OR b) = i32 a OR i32 b" "i32 (a XOR b) = i32 a XOR i32 b"
    unfolding i32_def by (auto intro!: bit_word_eqI simp: bit_simps)
  show "i32 (lit16 w) = lit16_int w"
    unfolding i32_def lit16_def lit16_int_def by (auto intro!: bit_word_eqI simp: bit_simps)
  show "i32 (a + b) = i32 a + i32 b" "i32 (a * b) = i32 a * i32 b"
    unfolding i32_def
    by (transfer; simp add: take_bit_take_bit_add take_bit_take_bit_mult take_bit_add take_bit_mult)+
  show "i32 (a - b) = i32 a - i32 b"
    unfolding i32_def by transfer (simp add: take_bit_take_bit_diff)
qed

lemma mask5: "(0x1f :: 'a::len word) = mask 5"
  by (simp add: mask_eq_exp_minus_1)

lemma count_low [low32_simps]: "count32 b = unat (i32 b AND 0x1f)"
proof -
  have "(ucast (i32 b AND 0x1f) :: u8) = b AND 0x1f"
    unfolding i32_def mask5 by (rule bit_word_eqI) (auto simp: bit_simps)
  then have "unat (ucast (i32 b AND 0x1f) :: u8) = unat (b AND 0x1f)" by simp
  then show ?thesis by (simp add: count32_def unat_ucast_up)
qed

lemma count_lit_low [low32_simps]: "count_lit b = unat (lit8_int b AND 0x1f)"
proof -
  have "(ucast (lit8_int b AND 0x1f) :: u8) = ucast (b AND 0x1f)"
    unfolding lit8_int_def mask5 by (rule bit_word_eqI) (auto simp: bit_simps)
  then have "unat (ucast (lit8_int b AND 0x1f) :: u8) = unat (ucast (b AND 0x1f) :: u8)" by simp
  then show ?thesis by (simp add: count_lit_def unat_ucast_up)
qed

text \<open>The special case of division is the wrap-around of the quotient.\<close>

lemma div_s4_wraps [low32_simps]: "div_s4 a b = word_of_int (sint a sdiv sint b)"
  by (auto simp: div_s4_def signed_divide_int_def)

lemma rem_s4_wraps [low32_simps]: "rem_s4 a b = word_of_int (sint a smod sint b)"
  by (auto simp: rem_s4_def signed_modulo_int_def signed_divide_int_def)

section \<open>The decoder's operands\<close>

text \<open>What decoding at the pc says about the code units the arms fetch.\<close>

definition decoded_at :: "u2 list \<Rightarrow> int \<Rightarrow> DecodedInstruction \<Rightarrow> bool" where
  "decoded_at insns p d \<longleftrightarrow> 0 \<le> p
     \<and> (\<exists>d0. dexDecodeInstruction gDvm_instrFormat (drop (nat p) insns) d0 = Ret d)"

lemma FETCH_drop: "0 \<le> p \<Longrightarrow> 0 \<le> i \<Longrightarrow> FETCH (drop (nat p) insns) i = FETCH insns (p + i)"
  by (simp add: FETCH_def read_at_drop)

lemma decoded_at_fields:
  assumes "decoded_at insns p d"
  obtains d0 where "0 \<le> p" and "p < int (length insns)" and "opCode d = INST_INST (insns ! nat p)"
    and "decode_fields (instr_format_of (opCode d)) (drop (nat p) insns) (insns ! nat p) d0 = Ret d"
proof -
  obtain d0 where p: "0 \<le> p" and dec: "dexDecodeInstruction gDvm_instrFormat (drop (nat p) insns) d0 = Ret d"
    using assms by (auto simp: decoded_at_def)
  then have len: "p < int (length insns)"
    and f: "decode_fields (instr_format_of (INST_INST (insns ! nat p))) (drop (nat p) insns) (insns ! nat p)
              (d0\<lparr>opCode := INST_INST (insns ! nat p)\<rparr>) = Ret d"
    by (auto simp: dexDecodeInstruction_def FETCH_drop)
  moreover have "opCode d = INST_INST (insns ! nat p)"
    using decode_fields_opCode [OF f] by simp
  ultimately show thesis using that p by simp
qed

lemma unat_ucast_u2 [simp]: "unat (ucast (w :: u2) :: u4) = unat w"
  by (simp add: unat_ucast_up)

lemma fetch_in: "0 \<le> pc s + k \<Longrightarrow> pc s + k < int (length insns) \<Longrightarrow> fetch insns s k f = f (insns ! nat (pc s + k))"
  by (simp add: fetch_def read_at_def)

text \<open>The four shapes, run on an instruction whose registers are in the frame.\<close>

lemma binop23x_decoded:
  assumes "decoded_at insns (pc s) d" and "instr_format_of (opCode d) = kFmt23x"
    and "regs_in_frame Reg3 d (length (fp s))"
  defines "inst \<equiv> insns ! nat (pc s)" and "a \<equiv> fp s ! unat (vB d)" and "b \<equiv> fp s ! unat (vC d)"
  shows "binop23x f insns inst s = Step (s\<lparr>fp := (fp s)[unat (vA d) := f a b], pc := pc s + 2\<rparr>)"
    and "divop23x z f insns inst s = (if z b then throw_div s
           else Step (s\<lparr>fp := (fp s)[unat (vA d) := f a b], pc := pc s + 2\<rparr>))"
proof -
  obtain d0 where "0 \<le> pc s" and "decode_fields kFmt23x (drop (nat (pc s)) insns) inst d0 = Ret d"
    using decoded_at_fields [OF assms(1)] assms(2) by (metis inst_def)
  then obtain w1 where "FETCH insns (pc s + 1) = Ret w1" "vA d = ucast (INST_AA inst)"
    "vB d = ucast (w1 AND 0xff)" "vC d = ucast (drop_bit 8 w1)"
    by (auto simp: decode_fields_def Let_def FETCH_drop)
  then show "binop23x f insns inst s = Step (s\<lparr>fp := (fp s)[unat (vA d) := f a b], pc := pc s + 2\<rparr>)"
    and "divop23x z f insns inst s = (if z b then throw_div s
           else Step (s\<lparr>fp := (fp s)[unat (vA d) := f a b], pc := pc s + 2\<rparr>))"
    using assms(3)
    by (auto simp: binop23x_def divop23x_def regs23x_def fetch_in getreg_def setreg_def finish_def a_def b_def)
qed

lemma lit_eq_0: "lit16_int w = 0 \<longleftrightarrow> w = 0" "lit8_int v = 0 \<longleftrightarrow> (ucast v :: u1) = 0"
proof -
  have "ucast (scast w :: u4) = w"
    by (rule bit_word_eqI) (simp add: bit_simps)
  then show "lit16_int w = 0 \<longleftrightarrow> w = 0"
    unfolding lit16_int_def by (metis ucast_0 scast_0)
  have "ucast (scast (ucast v :: u1) :: u4) = (ucast v :: u1)"
    by (rule bit_word_eqI) (simp add: bit_simps)
  then show "lit8_int v = 0 \<longleftrightarrow> (ucast v :: u1) = 0"
    unfolding lit8_int_def by (metis ucast_0 scast_0)
qed

lemma binop2addr_decoded:
  assumes "decoded_at insns (pc s) d" and "instr_format_of (opCode d) = kFmt12x"
    and "regs_in_frame Reg2 d (length (fp s))"
  defines "inst \<equiv> insns ! nat (pc s)" and "a \<equiv> fp s ! unat (vA d)" and "b \<equiv> fp s ! unat (vB d)"
  shows "binop2addr f inst s = Step (s\<lparr>fp := (fp s)[unat (vA d) := f a b], pc := pc s + 1\<rparr>)"
    and "divop2addr z f inst s = (if z b then throw_div s
           else Step (s\<lparr>fp := (fp s)[unat (vA d) := f a b], pc := pc s + 1\<rparr>))"
proof -
  obtain d0 where "decode_fields kFmt12x (drop (nat (pc s)) insns) inst d0 = Ret d"
    using decoded_at_fields [OF assms(1)] assms(2) by (metis inst_def)
  then have "vA d = ucast (INST_A inst)" "vB d = ucast (INST_B inst)"
    by (auto simp: decode_fields_def Let_def)
  then show "binop2addr f inst s = Step (s\<lparr>fp := (fp s)[unat (vA d) := f a b], pc := pc s + 1\<rparr>)"
    and "divop2addr z f inst s = (if z b then throw_div s
           else Step (s\<lparr>fp := (fp s)[unat (vA d) := f a b], pc := pc s + 1\<rparr>))"
    using assms(3)
    by (auto simp: binop2addr_def divop2addr_def getreg_def setreg_def finish_def a_def b_def)
qed

lemma lit16_decoded:
  assumes "decoded_at insns (pc s) d" and "instr_format_of (opCode d) = kFmt22s"
    and "regs_in_frame Lit d (length (fp s))"
  defines "inst \<equiv> insns ! nat (pc s)" and "a \<equiv> fp s ! unat (vB d)"
  obtains w where "vC d = lit16_int w"
    and "\<And>f. binop_lit16 f insns inst s = Step (s\<lparr>fp := (fp s)[unat (vA d) := f a w], pc := pc s + 2\<rparr>)"
    and "\<And>f. divop_lit16 f insns inst s = (if lit16_int w = 0 then throw_div s
           else Step (s\<lparr>fp := (fp s)[unat (vA d) := f a w], pc := pc s + 2\<rparr>))"
proof -
  obtain d0 where "0 \<le> pc s" and "decode_fields kFmt22s (drop (nat (pc s)) insns) inst d0 = Ret d"
    using decoded_at_fields [OF assms(1)] assms(2) by (metis inst_def)
  then obtain w where w: "FETCH insns (pc s + 1) = Ret w" "vA d = ucast (INST_A inst)"
    "vB d = ucast (INST_B inst)" "vC d = lit16_int w"
    by (auto simp: decode_fields_def Let_def FETCH_drop lit16_int_def)
  have "lit16_int w = 0 \<longleftrightarrow> w = 0"
    by (rule lit_eq_0)
  then show thesis
    using that [of w] w assms(3)
    by (auto simp: binop_lit16_def divop_lit16_def fetch_in getreg_def setreg_def finish_def a_def)
qed

lemma lit8_decoded:
  assumes "decoded_at insns (pc s) d" and "instr_format_of (opCode d) = kFmt22b"
    and "regs_in_frame Lit d (length (fp s))"
  defines "inst \<equiv> insns ! nat (pc s)" and "a \<equiv> fp s ! unat (vB d)"
  obtains w where "vC d = lit8_int w"
    and "\<And>f. binop_lit8 f insns inst s = Step (s\<lparr>fp := (fp s)[unat (vA d) := f a w], pc := pc s + 2\<rparr>)"
    and "\<And>f. divop_lit8 f insns inst s = (if lit8_int w = 0 then throw_div s
           else Step (s\<lparr>fp := (fp s)[unat (vA d) := f a w], pc := pc s + 2\<rparr>))"
proof -
  obtain d0 where "0 \<le> pc s" and "decode_fields kFmt22b (drop (nat (pc s)) insns) inst d0 = Ret d"
    using decoded_at_fields [OF assms(1)] assms(2) by (metis inst_def)
  then obtain w1 where w: "FETCH insns (pc s + 1) = Ret w1" "vA d = ucast (INST_AA inst)"
    "vB d = ucast (w1 AND 0xff)" "vC d = lit8_int (drop_bit 8 w1)"
    by (auto simp: decode_fields_def Let_def FETCH_drop lit8_int_def)
  have "lit8_int v = 0 \<longleftrightarrow> (ucast v :: u1) = 0" for v
    by (rule lit_eq_0)
  then show thesis
    using that [of "drop_bit 8 w1"] w assms(3)
    by (auto simp: binop_lit8_def divop_lit8_def regs23x_def fetch_in getreg_def setreg_def finish_def a_def)
qed

section \<open>The arms against the specification\<close>

lemma int_formats:
  "instr_format_of OP_ADD_INT = kFmt23x" "instr_format_of OP_SUB_INT = kFmt23x"
  "instr_format_of OP_MUL_INT = kFmt23x" "instr_format_of OP_DIV_INT = kFmt23x"
  "instr_format_of OP_REM_INT = kFmt23x" "instr_format_of OP_AND_INT = kFmt23x"
  "instr_format_of OP_OR_INT = kFmt23x" "instr_format_of OP_XOR_INT = kFmt23x"
  "instr_format_of OP_SHL_INT = kFmt23x" "instr_format_of OP_SHR_INT = kFmt23x"
  "instr_format_of OP_USHR_INT = kFmt23x" "instr_format_of OP_ADD_INT_2ADDR = kFmt12x"
  "instr_format_of OP_SUB_INT_2ADDR = kFmt12x" "instr_format_of OP_MUL_INT_2ADDR = kFmt12x"
  "instr_format_of OP_DIV_INT_2ADDR = kFmt12x" "instr_format_of OP_REM_INT_2ADDR = kFmt12x"
  "instr_format_of OP_AND_INT_2ADDR = kFmt12x" "instr_format_of OP_OR_INT_2ADDR = kFmt12x"
  "instr_format_of OP_XOR_INT_2ADDR = kFmt12x" "instr_format_of OP_SHL_INT_2ADDR = kFmt12x"
  "instr_format_of OP_SHR_INT_2ADDR = kFmt12x" "instr_format_of OP_USHR_INT_2ADDR = kFmt12x"
  "instr_format_of OP_ADD_INT_LIT16 = kFmt22s" "instr_format_of OP_RSUB_INT = kFmt22s"
  "instr_format_of OP_MUL_INT_LIT16 = kFmt22s" "instr_format_of OP_DIV_INT_LIT16 = kFmt22s"
  "instr_format_of OP_REM_INT_LIT16 = kFmt22s" "instr_format_of OP_AND_INT_LIT16 = kFmt22s"
  "instr_format_of OP_OR_INT_LIT16 = kFmt22s" "instr_format_of OP_XOR_INT_LIT16 = kFmt22s"
  "instr_format_of OP_ADD_INT_LIT8 = kFmt22b" "instr_format_of OP_RSUB_INT_LIT8 = kFmt22b"
  "instr_format_of OP_MUL_INT_LIT8 = kFmt22b" "instr_format_of OP_DIV_INT_LIT8 = kFmt22b"
  "instr_format_of OP_REM_INT_LIT8 = kFmt22b" "instr_format_of OP_AND_INT_LIT8 = kFmt22b"
  "instr_format_of OP_OR_INT_LIT8 = kFmt22b" "instr_format_of OP_XOR_INT_LIT8 = kFmt22b"
  "instr_format_of OP_SHL_INT_LIT8 = kFmt22b" "instr_format_of OP_SHR_INT_LIT8 = kFmt22b"
  "instr_format_of OP_USHR_INT_LIT8 = kFmt22b"
  by (simp_all only: instr_format_of_def arm_simps member_numeral_simps)

lemma int_handlers:
  "handlers ! OP_ADD_INT = (\<lambda>_. op_ADD_INT)" "handlers ! OP_SUB_INT = (\<lambda>_. op_SUB_INT)"
  "handlers ! OP_MUL_INT = (\<lambda>_. op_MUL_INT)" "handlers ! OP_DIV_INT = (\<lambda>_. op_DIV_INT)"
  "handlers ! OP_REM_INT = (\<lambda>_. op_REM_INT)" "handlers ! OP_AND_INT = (\<lambda>_. op_AND_INT)"
  "handlers ! OP_OR_INT = (\<lambda>_. op_OR_INT)" "handlers ! OP_XOR_INT = (\<lambda>_. op_XOR_INT)"
  "handlers ! OP_SHL_INT = (\<lambda>_. op_SHL_INT)" "handlers ! OP_SHR_INT = (\<lambda>_. op_SHR_INT)"
  "handlers ! OP_USHR_INT = (\<lambda>_. op_USHR_INT)"
  by (simp_all add: handlers_def)

lemma int_2addr_handlers:
  "handlers ! OP_ADD_INT_2ADDR = (\<lambda>_. op_ADD_INT_2ADDR)" "handlers ! OP_SUB_INT_2ADDR = (\<lambda>_. op_SUB_INT_2ADDR)"
  "handlers ! OP_MUL_INT_2ADDR = (\<lambda>_. op_MUL_INT_2ADDR)" "handlers ! OP_DIV_INT_2ADDR = (\<lambda>_. op_DIV_INT_2ADDR)"
  "handlers ! OP_REM_INT_2ADDR = (\<lambda>_. op_REM_INT_2ADDR)" "handlers ! OP_AND_INT_2ADDR = (\<lambda>_. op_AND_INT_2ADDR)"
  "handlers ! OP_OR_INT_2ADDR = (\<lambda>_. op_OR_INT_2ADDR)" "handlers ! OP_XOR_INT_2ADDR = (\<lambda>_. op_XOR_INT_2ADDR)"
  "handlers ! OP_SHL_INT_2ADDR = (\<lambda>_. op_SHL_INT_2ADDR)" "handlers ! OP_SHR_INT_2ADDR = (\<lambda>_. op_SHR_INT_2ADDR)"
  "handlers ! OP_USHR_INT_2ADDR = (\<lambda>_. op_USHR_INT_2ADDR)"
  by (simp_all add: handlers_def)

lemma int_lit16_handlers:
  "handlers ! OP_ADD_INT_LIT16 = (\<lambda>_. op_ADD_INT_LIT16)" "handlers ! OP_RSUB_INT = (\<lambda>_. op_RSUB_INT)"
  "handlers ! OP_MUL_INT_LIT16 = (\<lambda>_. op_MUL_INT_LIT16)" "handlers ! OP_DIV_INT_LIT16 = (\<lambda>_. op_DIV_INT_LIT16)"
  "handlers ! OP_REM_INT_LIT16 = (\<lambda>_. op_REM_INT_LIT16)" "handlers ! OP_AND_INT_LIT16 = (\<lambda>_. op_AND_INT_LIT16)"
  "handlers ! OP_OR_INT_LIT16 = (\<lambda>_. op_OR_INT_LIT16)" "handlers ! OP_XOR_INT_LIT16 = (\<lambda>_. op_XOR_INT_LIT16)"
  by (simp_all add: handlers_def)

lemma int_lit8_handlers:
  "handlers ! OP_ADD_INT_LIT8 = (\<lambda>_. op_ADD_INT_LIT8)" "handlers ! OP_RSUB_INT_LIT8 = (\<lambda>_. op_RSUB_INT_LIT8)"
  "handlers ! OP_MUL_INT_LIT8 = (\<lambda>_. op_MUL_INT_LIT8)" "handlers ! OP_DIV_INT_LIT8 = (\<lambda>_. op_DIV_INT_LIT8)"
  "handlers ! OP_REM_INT_LIT8 = (\<lambda>_. op_REM_INT_LIT8)" "handlers ! OP_AND_INT_LIT8 = (\<lambda>_. op_AND_INT_LIT8)"
  "handlers ! OP_OR_INT_LIT8 = (\<lambda>_. op_OR_INT_LIT8)" "handlers ! OP_XOR_INT_LIT8 = (\<lambda>_. op_XOR_INT_LIT8)"
  "handlers ! OP_SHL_INT_LIT8 = (\<lambda>_. op_SHL_INT_LIT8)" "handlers ! OP_SHR_INT_LIT8 = (\<lambda>_. op_SHR_INT_LIT8)"
  "handlers ! OP_USHR_INT_LIT8 = (\<lambda>_. op_USHR_INT_LIT8)"
  by (simp_all add: handlers_def)

text \<open>
  \<open>computes j s r\<close>: the step result \<open>r\<close> is what the operator \<open>j\<close> on operands \<open>a\<close>, \<open>b\<close> asks for: an
  \<open>ArithmeticException\<close> with the pc exported, or the low half of the result in register \<open>n\<close>, every other register, the heap and
  the rest of the state unchanged, and the pc moved by \<open>w\<close>.
\<close>

definition computes :: "u4 option \<Rightarrow> nat \<Rightarrow> int \<Rightarrow> 'w interp \<Rightarrow> 'w step_result \<Rightarrow> bool" where
  "computes res n w s r \<longleftrightarrow>
     (case res of
        None \<Rightarrow> r = GotoException (s\<lparr>exception := Some (NewException ''Ljava/lang/ArithmeticException;''),
                                    currentPc := Some (pc s)\<rparr>)
      | Some v \<Rightarrow> \<exists>v'. i32 v' = v \<and> r = Step (s\<lparr>fp := (fp s)[n := v'], pc := pc s + w\<rparr>))"

lemma computes_Step: "i32 v' = v \<Longrightarrow> computes (Some v) n w s (Step (s\<lparr>fp := (fp s)[n := v'], pc := pc s + w\<rparr>))"
  by (auto simp: computes_def)

lemma computes_throw: "computes None n w s (throw_div s)"
  by (auto simp: computes_def throw_div_def throw_new_def export_pc_def)

lemma interp_step_at:
  assumes "decoded_at insns (pc s) d"
  shows "interp_step e insns s = (handlers ! opCode d) e insns (insns ! nat (pc s)) s"
  using assms by (rule decoded_at_fields) (simp add: interp_step_def fetch_in)

lemma int_op_formats:
  "(opc, j) \<in> set reg3_ops \<Longrightarrow> instr_format_of opc = kFmt23x"
  "(opc, j) \<in> set reg2_ops \<Longrightarrow> instr_format_of opc = kFmt12x"
  "(opc, j) \<in> set lit16_ops \<Longrightarrow> instr_format_of opc = kFmt22s"
  "(opc, j) \<in> set lit8_ops \<Longrightarrow> instr_format_of opc = kFmt22b"
  by (auto simp: reg3_ops_def reg2_ops_def lit16_ops_def lit8_ops_def int_formats)

lemma int_reg3:
  assumes "decoded_at insns (pc s) d" and "regs_in_frame Reg3 d (length (fp s))"
    and "(opCode d, j) \<in> set reg3_ops"
  shows "computes (java_int j (i32 (fp s ! unat (vB d))) (i32 (fp s ! unat (vC d)))) (unat (vA d)) 2 s (interp_step e insns s)"
proof -
  have fmt: "instr_format_of (opCode d) = kFmt23x"
    using assms(3) by (rule int_op_formats)
  note shape = binop23x_decoded [OF assms(1) fmt assms(2)]
  show ?thesis
    using assms(3) unfolding interp_step_at [OF assms(1)]
    by (auto simp: reg3_ops_def int_handlers arith_handler_defs shape low32_simps
        intro!: computes_Step computes_throw)
qed

lemma int_reg2:
  assumes "decoded_at insns (pc s) d" and "regs_in_frame Reg2 d (length (fp s))"
    and "(opCode d, j) \<in> set reg2_ops"
  shows "computes (java_int j (i32 (fp s ! unat (vA d))) (i32 (fp s ! unat (vB d)))) (unat (vA d)) 1 s (interp_step e insns s)"
proof -
  have fmt: "instr_format_of (opCode d) = kFmt12x"
    using assms(3) by (rule int_op_formats)
  note shape = binop2addr_decoded [OF assms(1) fmt assms(2)]
  show ?thesis
    using assms(3) unfolding interp_step_at [OF assms(1)]
    by (auto simp: reg2_ops_def int_2addr_handlers arith_handler_defs shape low32_simps
        intro!: computes_Step computes_throw)
qed

lemma int_lit16:
  assumes "decoded_at insns (pc s) d" and "regs_in_frame Lit d (length (fp s))"
    and "(opCode d, j) \<in> set lit16_ops"
  shows "computes (java_int j (i32 (fp s ! unat (vB d))) (vC d)) (unat (vA d)) 2 s (interp_step e insns s)"
proof -
  have fmt: "instr_format_of (opCode d) = kFmt22s"
    using assms(3) by (rule int_op_formats)
  obtain w where shape: "vC d = lit16_int w"
    "\<And>f. binop_lit16 f insns (insns ! nat (pc s)) s
       = Step (s\<lparr>fp := (fp s)[unat (vA d) := f (fp s ! unat (vB d)) w], pc := pc s + 2\<rparr>)"
    "\<And>f. divop_lit16 f insns (insns ! nat (pc s)) s = (if lit16_int w = 0 then throw_div s
       else Step (s\<lparr>fp := (fp s)[unat (vA d) := f (fp s ! unat (vB d)) w], pc := pc s + 2\<rparr>))"
    using lit16_decoded [OF assms(1) fmt assms(2)] by blast
  show ?thesis
    using assms(3) unfolding interp_step_at [OF assms(1)]
    by (auto simp: lit16_ops_def int_lit16_handlers arith_handler_defs shape low32_simps
        intro!: computes_Step computes_throw)
qed

lemma int_lit8:
  assumes "decoded_at insns (pc s) d" and "regs_in_frame Lit d (length (fp s))"
    and "(opCode d, j) \<in> set lit8_ops"
  shows "computes (java_int j (i32 (fp s ! unat (vB d))) (vC d)) (unat (vA d)) 2 s (interp_step e insns s)"
proof -
  have fmt: "instr_format_of (opCode d) = kFmt22b"
    using assms(3) by (rule int_op_formats)
  obtain w where shape: "vC d = lit8_int w"
    "\<And>f. binop_lit8 f insns (insns ! nat (pc s)) s
       = Step (s\<lparr>fp := (fp s)[unat (vA d) := f (fp s ! unat (vB d)) w], pc := pc s + 2\<rparr>)"
    "\<And>f. divop_lit8 f insns (insns ! nat (pc s)) s = (if lit8_int w = 0 then throw_div s
       else Step (s\<lparr>fp := (fp s)[unat (vA d) := f (fp s ! unat (vB d)) w], pc := pc s + 2\<rparr>))"
    using lit8_decoded [OF assms(1) fmt assms(2)] by blast
  show ?thesis
    using assms(3) unfolding interp_step_at [OF assms(1)]
    by (auto simp: lit8_ops_def int_lit8_handlers arith_handler_defs shape low32_simps
        intro!: computes_Step computes_throw)
qed

section \<open>Properties\<close>

text \<open>C8 (\<open>int\<close> arithmetic is Java's). For each of the 41 \<open>int\<close> arithmetic opcodes, when the decoder decodes the instruction
  at the pc and the registers it names are in the frame, a step of the interpreter computes the Java
  operator on the decoded operands: the low 32 bits of the destination get the wrapped result and nothing else but
  the pc changes, or the divisor is zero and \<open>ArithmeticException\<close> is pending with the pc
  exported. In particular the quotient of the smallest \<open>int\<close> by -1 is handled without
  overflow.\<close>

theorem int_arith_refines_java:
  assumes "decoded_at insns (pc s) d" and "(opCode d, j) \<in> set (int_ops f)"
    and "regs_in_frame f d (length (fp s))" and "operands f d (fp s) = (a, b)"
  shows "computes (java_int j a b) (unat (vA d)) (dexGetInstrWidthAbs gDvm_instrWidth (opCode d)) s
           (interp_step e insns s)"
proof -
  have units: "dexGetInstrWidthAbs gDvm_instrWidth (opCode d) = format_units (instr_format_of (opCode d))"
    using assms(1) by (rule decoded_at_fields) (simp add: width_of_format)
  show ?thesis
  proof (cases f)
    case Reg3
    then show ?thesis
      using int_reg3 [OF assms(1), of j e] assms(2-4) int_op_formats(1) [of "opCode d" j]
      by (auto simp: int_ops_def units)
  next
    case Reg2
    then show ?thesis
      using int_reg2 [OF assms(1), of j e] assms(2-4) int_op_formats(2) [of "opCode d" j]
      by (auto simp: int_ops_def units)
  next
    case Lit
    then consider "(opCode d, j) \<in> set lit16_ops" | "(opCode d, j) \<in> set lit8_ops"
      using assms(2) by (auto simp: int_ops_def)
    then show ?thesis
    proof cases
      case 1
      then show ?thesis
        using int_lit16 [OF assms(1) _ 1, of e] assms(3,4) Lit int_op_formats(3) [OF 1] by (simp add: units)
    next
      case 2
      then show ?thesis
        using int_lit8 [OF assms(1) _ 2, of e] assms(3,4) Lit int_op_formats(4) [OF 2] by (simp add: units)
    qed
  qed
qed

definition sample_add :: DecodedInstruction where
  "sample_add = \<lparr>vA = 2, vB = 0, vB_wide = 0, vC = 1, arg = [0, 0, 0, 0, 0], opCode = OP_ADD_INT\<rparr>"

theorem int_arith_refines_java_witness:
  "computes (Some 12) 2 2 (sample_state [5, 7, 0])
     (interp_step sample_env [0x0290, 0x0100] (sample_state [5, 7, 0]))"
proof -
  have "dexDecodeInstruction gDvm_instrFormat (drop (nat 0) [0x0290, 0x0100]) sample_add = Ret sample_add"
    by (simp add: dexDecodeInstruction_def INST_INST_def instr_format_of_def arm_simps decode_fields_def
        sample_add_def INST_AA_def Let_def)
  then have "decoded_at [0x0290, 0x0100] (pc (sample_state [5, 7, 0])) sample_add"
    unfolding decoded_at_def sample_state_def by auto
  from int_arith_refines_java [OF this, of JAdd Reg3 5 7 sample_env]
  show ?thesis
    by (simp add: sample_add_def sample_state_def int_ops_def reg3_ops_def i32_def instr_width_of_def arm_simps)
qed

end
