(* ===== verification/Leb128.thy ===== *)
theory Leb128
  imports Prelude
begin

text \<open>
  The LEB128 readers of \<^verbatim>\<open>src/libdex/Leb128.h\<close> and \<^verbatim>\<open>src/libdex/Leb128.c\<close>, which every list of fields,
  methods, handlers and debug positions of a DEX file is read with. A stream is a byte
  list with a position; reading beyond the list is \<open>OutOfBounds\<close>. The \<open>int\<close> results are 32-bit words. Reference encoders, written from
  the definition of the format, give the round trips.
\<close>

section \<open>The readers\<close>

definition next_byte :: "u1 list \<Rightarrow> nat \<Rightarrow> u1 outcome" where
  "next_byte bs i = (if i < length bs then Ret (bs ! i) else OutOfBounds)"

text \<open>\<open>(cur & 0x7f) << k\<close> as an \<open>int\<close>.\<close>

definition septet :: "u1 \<Rightarrow> nat \<Rightarrow> u4" where
  "septet cur k = push_bit k (ucast (cur AND 0x7f))"

definition readUnsignedLeb128 :: "u1 list \<Rightarrow> nat \<Rightarrow> (u4 \<times> nat) outcome" where
  "readUnsignedLeb128 bs p =
     bind_out (next_byte bs p) (\<lambda>b0.
       if b0 > 0x7f then
         bind_out (next_byte bs (p + 1)) (\<lambda>cur.
           let result = ucast (b0 AND 0x7f) OR septet cur 7 in
           if cur > 0x7f then
             bind_out (next_byte bs (p + 2)) (\<lambda>cur.
               let result = result OR septet cur 14 in
               if cur > 0x7f then
                 bind_out (next_byte bs (p + 3)) (\<lambda>cur.
                   let result = result OR septet cur 21 in
                   if cur > 0x7f then
                     bind_out (next_byte bs (p + 4)) (\<lambda>cur.
                       Ret (result OR push_bit 28 (ucast cur), p + 5))
                   else Ret (result, p + 4))
               else Ret (result, p + 3))
           else Ret (result, p + 2))
       else Ret (ucast b0, p + 1))"

text \<open>\<open>(result << k) >> k\<close> on an \<open>int\<close>.\<close>

definition sign_fill :: "nat \<Rightarrow> u4 \<Rightarrow> u4" where
  "sign_fill k result = signed_drop_bit k (push_bit k result)"

definition readSignedLeb128 :: "u1 list \<Rightarrow> nat \<Rightarrow> (u4 \<times> nat) outcome" where
  "readSignedLeb128 bs p =
     bind_out (next_byte bs p) (\<lambda>b0.
       if b0 \<le> 0x7f then Ret (sign_fill 25 (ucast b0), p + 1)
       else
         bind_out (next_byte bs (p + 1)) (\<lambda>cur.
           let result = ucast (b0 AND 0x7f) OR septet cur 7 in
           if cur \<le> 0x7f then Ret (sign_fill 18 result, p + 2)
           else
             bind_out (next_byte bs (p + 2)) (\<lambda>cur.
               let result = result OR septet cur 14 in
               if cur \<le> 0x7f then Ret (sign_fill 11 result, p + 3)
               else
                 bind_out (next_byte bs (p + 3)) (\<lambda>cur.
                   let result = result OR septet cur 21 in
                   if cur \<le> 0x7f then Ret (sign_fill 4 result, p + 4)
                   else
                     bind_out (next_byte bs (p + 4)) (\<lambda>cur.
                       Ret (result OR push_bit 28 (ucast cur), p + 5))))))"

text \<open>
  The verifying readers: \<open>okay\<close> is cleared when the read went past the limit or the fifth byte
  has high bits. The check comes after the read.
\<close>

definition leb_bad :: "u1 list \<Rightarrow> nat \<Rightarrow> nat option \<Rightarrow> nat \<Rightarrow> bool" where
  "leb_bad bs p limit p' \<longleftrightarrow>
     (case limit of None \<Rightarrow> False | Some l \<Rightarrow> p' > l) \<or> (p' - p = 5 \<and> bs ! (p + 4) > 0x0f)"

definition readAndVerifyUnsignedLeb128 ::
  "u1 list \<Rightarrow> nat \<Rightarrow> nat option \<Rightarrow> bool \<Rightarrow> (u4 \<times> nat \<times> bool) outcome" where
  "readAndVerifyUnsignedLeb128 bs p limit okay =
     bind_out (readUnsignedLeb128 bs p) (\<lambda>(result, p').
       Ret (result, p', if leb_bad bs p limit p' then False else okay))"

definition readAndVerifySignedLeb128 ::
  "u1 list \<Rightarrow> nat \<Rightarrow> nat option \<Rightarrow> bool \<Rightarrow> (u4 \<times> nat \<times> bool) outcome" where
  "readAndVerifySignedLeb128 bs p limit okay =
     bind_out (readSignedLeb128 bs p) (\<lambda>(result, p').
       Ret (result, p', if leb_bad bs p limit p' then False else okay))"

section \<open>The format\<close>

text \<open>A value is a sequence of one to five bytes; every byte but the last has its top bit set.\<close>

fun leb_value :: "u1 list \<Rightarrow> u4" where
  "leb_value [] = 0"
| "leb_value (b # bs) = ucast (b AND 0x7f) OR push_bit 7 (leb_value bs)"

definition is_leb :: "u1 list \<Rightarrow> bool" where
  "is_leb bs \<longleftrightarrow> bs \<noteq> [] \<and> length bs \<le> 5 \<and> list_all (\<lambda>b. b > 0x7f) (butlast bs)
     \<and> (length bs < 5 \<longrightarrow> last bs \<le> 0x7f)"

text \<open>The signed reading fills the bits above the last septet with its top bit.\<close>

definition leb_signed :: "u1 list \<Rightarrow> u4" where
  "leb_signed bs = (if length bs < 5 then sign_fill (32 - 7 * length bs) (leb_value bs) else leb_value bs)"

lemma next_byte_append [simp]:
  "next_byte (pre @ b # bs) (length pre) = Ret b"
  "next_byte (pre @ b # b' # bs) (Suc (length pre)) = Ret b'"
  "next_byte (pre @ b # b' # b2 # bs) (Suc (Suc (length pre))) = Ret b2"
  "next_byte (pre @ b # b' # b2 # b3 # bs) (length pre + 3) = Ret b3"
  "next_byte (pre @ b # b' # b2 # b3 # b4 # bs) (length pre + 4) = Ret b4"
  by (simp_all add: next_byte_def nth_append)

lemma mask7: "(0x7f :: u1) = mask 7" "(0x7f :: u4) = mask 7"
  by (simp_all add: mask_eq_exp_minus_1)

lemma septet_byte: "b AND 0x7f = b" if "\<not> bit b 7" for b :: u1
proof (rule bit_word_eqI)
  fix n assume "n < LENGTH(8)"
  then show "bit (b AND 0x7f) n = bit b n"
    using that by (cases "n = 7") (auto simp: mask7 bit_simps)
qed

lemma byte_continues: "0x7f < b \<longleftrightarrow> bit b 7" for b :: u1
proof
  assume "bit b 7"
  then have "bit (uint b) 7" by (simp add: bit_uint_iff)
  then have "uint b div 2 ^ 7 \<noteq> 0" by (auto simp: bit_iff_odd)
  then have "\<not> uint b < 2 ^ 7" using div_pos_pos_trivial [of "uint b" "2 ^ 7"] by auto
  then show "0x7f < b" by (simp add: word_less_def)
next
  assume "0x7f < b"
  show "bit b 7"
  proof (rule ccontr)
    assume "\<not> bit b 7"
    then have "b \<le> 0x7f" by (metis septet_byte word_and_le1)
    with \<open>0x7f < b\<close> show False by simp
  qed
qed

lemma byte_ends: "b \<le> 0x7f \<longleftrightarrow> \<not> bit b 7" for b :: u1
  by (simp flip: byte_continues add: linorder_not_less)

lemma leb_cases:
  assumes "is_leb bs"
  obtains b0 where "bs = [b0]" "\<not> bit b0 7"
  | b0 b1 where "bs = [b0, b1]" "bit b0 7" "\<not> bit b1 7"
  | b0 b1 b2 where "bs = [b0, b1, b2]" "bit b0 7" "bit b1 7" "\<not> bit b2 7"
  | b0 b1 b2 b3 where "bs = [b0, b1, b2, b3]" "bit b0 7" "bit b1 7" "bit b2 7" "\<not> bit b3 7"
  | b0 b1 b2 b3 b4 where "bs = [b0, b1, b2, b3, b4]" "bit b0 7" "bit b1 7" "bit b2 7" "bit b3 7"
proof -
  consider "length bs = 1" | "length bs = 2" | "length bs = 3" | "length bs = 4" | "length bs = 5"
    using assms by (cases bs) (auto simp: is_leb_def le_Suc_eq numeral_eq_Suc)
  then show thesis
    using assms that
    by cases (auto simp: is_leb_def length_Suc_conv numeral_eq_Suc byte_continues byte_ends)
qed

lemma fifth_byte: "push_bit 28 (ucast (b AND 0x7f)) = (push_bit 28 (ucast (b :: u1)) :: u4)"
  unfolding mask7 by (rule bit_word_eqI) (auto simp: bit_simps)

lemmas leb_simps =
  Let_def septet_def fifth_byte push_bit_or or.assoc septet_byte byte_continues byte_ends

lemma unsigned_read:
  assumes "is_leb bs"
  shows "readUnsignedLeb128 (pre @ bs @ post) (length pre) = Ret (leb_value bs, length pre + length bs)"
  using assms
  by (cases rule: leb_cases) (simp_all add: readUnsignedLeb128_def leb_simps del: bind_out_eq_Ret)

lemma signed_read:
  assumes "is_leb bs"
  shows "readSignedLeb128 (pre @ bs @ post) (length pre) = Ret (leb_signed bs, length pre + length bs)"
  using assms
  by (cases rule: leb_cases)
    (simp_all add: readSignedLeb128_def leb_signed_def leb_simps del: bind_out_eq_Ret)

section \<open>Reference encoders\<close>

text \<open>\<open>n\<close> bytes of seven bits each, the shift filling with zeros (unsigned) or with the sign.\<close>

fun leb_bytes :: "(u4 \<Rightarrow> u4) \<Rightarrow> nat \<Rightarrow> u4 \<Rightarrow> u1 list" where
  "leb_bytes sh 0 v = []"
| "leb_bytes sh (Suc 0) v = [ucast v AND 0x7f]"
| "leb_bytes sh (Suc (Suc n)) v = (ucast v OR 0x80) # leb_bytes sh (Suc n) (sh v)"

definition uleb_len :: "u4 \<Rightarrow> nat" where
  "uleb_len v = (if uint v < 2 ^ 7 then 1 else if uint v < 2 ^ 14 then 2
                 else if uint v < 2 ^ 21 then 3 else if uint v < 2 ^ 28 then 4 else 5)"

definition fits_signed :: "nat \<Rightarrow> u4 \<Rightarrow> bool" where
  "fits_signed k v \<longleftrightarrow> - (2 ^ k) \<le> sint v \<and> sint v < 2 ^ k"

definition sleb_len :: "u4 \<Rightarrow> nat" where
  "sleb_len v = (if fits_signed 6 v then 1 else if fits_signed 13 v then 2
                 else if fits_signed 20 v then 3 else if fits_signed 27 v then 4 else 5)"

definition uleb :: "u4 \<Rightarrow> u1 list" where
  "uleb v = leb_bytes (drop_bit 7) (uleb_len v) v"

definition sleb :: "u4 \<Rightarrow> u1 list" where
  "sleb v = leb_bytes (signed_drop_bit 7) (sleb_len v) v"

lemma uleb_len_range: "uleb_len v \<in> {1..5}"
  by (simp add: uleb_len_def)

lemma sleb_len_range: "sleb_len v \<in> {1..5}"
  by (simp add: sleb_len_def)

lemma length_leb_bytes [simp]: "length (leb_bytes sh n v) = n"
  by (induction sh n v rule: leb_bytes.induct) simp_all

lemma leb_bytes_marks:
  "list_all (\<lambda>b. 0x7f < b) (butlast (leb_bytes sh n v))"
  "n \<noteq> 0 \<Longrightarrow> last (leb_bytes sh n v) \<le> 0x7f"
proof (induction sh n v rule: leb_bytes.induct)
  case (3 sh n v)
  have ne: "leb_bytes sh (Suc n) (sh v) \<noteq> []" by (metis length_0_conv length_leb_bytes nat.distinct(1))
  have "bit (ucast v OR 0x80 :: u1) 7" by (simp add: bit_simps)
  with 3 ne show "list_all (\<lambda>b. 0x7f < b) (butlast (leb_bytes sh (Suc (Suc n)) v))"
    "last (leb_bytes sh (Suc (Suc n)) v) \<le> 0x7f"
    by (simp_all add: byte_continues)
qed (simp_all add: word_and_le1)

lemma leb_bytes_is_leb: "n \<in> {1..5} \<Longrightarrow> is_leb (leb_bytes sh n v)"
  using leb_bytes_marks(1) [where sh = sh and n = n and v = v]
    leb_bytes_marks(2) [where sh = sh and n = n and v = v]
  by (auto simp: is_leb_def simp flip: length_0_conv)

lemma byte_low7: "(ucast ((ucast v OR 0x80 :: u1) AND 0x7f) :: u4) = take_bit 7 (v :: u4)"
  "(ucast (ucast v AND 0x7f :: u1) :: u4) = take_bit 7 v"
proof -
  have "\<not> bit (0x80 :: u1) n" if "n < 7" for n
    using that bit_push_bit_iff [of 7 "1 :: u1" n] by simp
  then show "(ucast ((ucast v OR 0x80 :: u1) AND 0x7f) :: u4) = take_bit 7 v"
    unfolding mask7 by (intro bit_word_eqI) (auto simp: bit_simps)
  show "(ucast (ucast v AND 0x7f :: u1) :: u4) = take_bit 7 v"
    unfolding mask7 by (rule bit_word_eqI) (auto simp: bit_simps)
qed

lemma take_bit_septets: "take_bit 7 v OR push_bit 7 (take_bit (7 * n) (drop_bit 7 v)) = take_bit (7 * Suc n) (v :: u4)"
  by (rule bit_word_eqI) (auto simp: bit_simps)

lemma leb_value_unsigned: "leb_value (leb_bytes (drop_bit 7) n v) = take_bit (7 * n) v"
proof (induction "drop_bit 7 :: u4 \<Rightarrow> u4" n v rule: leb_bytes.induct)
  case (3 n v)
  then show ?case by (simp add: byte_low7 take_bit_septets [of v "Suc n", simplified])
qed (simp_all add: byte_low7)

lemma take_bit_septets_signed:
  "take_bit 7 v OR push_bit 7 (take_bit (7 * n) (signed_drop_bit 7 v)) = take_bit (7 * Suc n) (v :: u4)"
  by (rule bit_word_eqI) (auto simp: bit_simps)

lemma leb_value_signed: "leb_value (leb_bytes (signed_drop_bit 7) n v) = take_bit (7 * n) v"
proof (induction "signed_drop_bit 7 :: u4 \<Rightarrow> u4" n v rule: leb_bytes.induct)
  case (3 n v)
  then show ?case by (simp add: byte_low7 take_bit_septets_signed [of v "Suc n", simplified])
qed (simp_all add: byte_low7)


section \<open>Round trips\<close>

lemma uleb_len_fits: "uint v < 2 ^ (7 * uleb_len v)"
proof -
  have "uint v < 2 ^ 32" using uint_lt2p [of v] by simp
  then show ?thesis by (simp add: uleb_len_def)
qed

lemma uleb_is_leb: "is_leb (uleb v)" and length_uleb: "length (uleb v) = uleb_len v"
  using uleb_len_range [of v] by (simp_all add: uleb_def leb_bytes_is_leb)

lemma sleb_is_leb: "is_leb (sleb v)" and length_sleb: "length (sleb v) = sleb_len v"
  using sleb_len_range [of v] by (simp_all add: sleb_def leb_bytes_is_leb)

lemma leb_value_uleb: "leb_value (uleb v) = v"
proof -
  have "take_bit (7 * uleb_len v) (uint v) = uint v"
    using uleb_len_fits by (simp add: take_bit_int_eq_self_iff)
  then have "uint (take_bit (7 * uleb_len v) v) = uint v" by (simp add: unsigned_take_bit_eq)
  then have "take_bit (7 * uleb_len v) v = v" by (rule unsigned_word_eqI)
  then show ?thesis by (simp add: uleb_def leb_value_unsigned)
qed

lemma sign_fill_take_bit:
  assumes "0 < k" and "k \<le> 32"
  shows "sign_fill (32 - k) (take_bit k v) = signed_take_bit (k - 1) v"
proof (rule bit_word_eqI)
  fix n assume "n < LENGTH(32)"
  with assms show "bit (sign_fill (32 - k) (take_bit k v)) n = bit (signed_take_bit (k - 1) v) n"
    by (cases "n < k - 1"; cases "n = k - 1") (auto simp: sign_fill_def bit_simps min_def)
qed

lemma signed_take_bit_word_self:
  fixes v :: u4
  assumes "fits_signed m v" and "m < 32"
  shows "signed_take_bit m v = v"
proof (rule bit_word_eqI)
  fix n assume n: "n < LENGTH(32)"
  have s: "bit (sint v) j = bit v (min j 31)" for j by (auto simp: bit_sint_iff min_def dest: bit_imp_le_length)
  have "signed_take_bit m (sint v) = sint v"
    using assms by (simp add: fits_signed_def signed_take_bit_int_eq_self)
  then have "bit (sint v) n = bit (sint v) (min m n)" by (metis bit_signed_take_bit_iff bit_imp_possible_bit possible_bit_int)
  moreover have "min n 31 = n" "min (min m n) 31 = min m n" using n assms(2) by auto
  ultimately have "bit v n = bit v (min m n)" by (simp only: s)
  with n show "bit (signed_take_bit m v) n = bit v n" by (simp add: bit_signed_take_bit_iff)
qed

lemma sleb_len_fits: "sleb_len v < 5 \<Longrightarrow> fits_signed (7 * sleb_len v - 1) v"
  by (auto simp: sleb_len_def split: if_splits)

lemma leb_signed_sleb: "leb_signed (sleb v) = v"
proof (cases "sleb_len v < 5")
  case True
  then have "signed_take_bit (7 * sleb_len v - 1) v = v"
    by (intro signed_take_bit_word_self sleb_len_fits) simp_all
  with True show ?thesis
    using sleb_len_range [of v] sign_fill_take_bit [of "7 * sleb_len v" v]
    by (simp add: leb_signed_def length_sleb) (simp add: sleb_def leb_value_signed)
next
  case False
  then have "sleb_len v = 5" using sleb_len_range [of v] by simp
  then show ?thesis
    by (simp add: leb_signed_def length_sleb) (simp add: sleb_def leb_value_signed take_bit_word_eq_self)
qed

lemma leb_bytes_5: "leb_bytes sh 5 v ! 4 = ucast (sh (sh (sh (sh v)))) AND 0x7f"
  by (simp add: numeral_eq_Suc)

lemma fifth_unsigned: "leb_bytes (drop_bit 7) 5 v ! 4 \<le> 0x0f"
proof -
  have "leb_bytes (drop_bit 7) 5 v ! 4 = ucast (drop_bit 28 v) AND 0x7f"
    by (simp add: leb_bytes_5 drop_bit_drop_bit)
  also have "\<dots> = (ucast (drop_bit 28 v) :: u1) AND mask 4"
    unfolding mask7 by (rule bit_word_eqI) (auto simp: bit_simps dest: bit_imp_le_length)
  also have "\<dots> \<le> mask 4" by (rule word_and_le1)
  finally show ?thesis by (simp add: mask_eq_exp_minus_1)
qed

lemma fifth_signed: "0x0f < leb_bytes (signed_drop_bit 7) 5 v ! 4 \<longleftrightarrow> sint v < 0"
proof -
  let ?b = "leb_bytes (signed_drop_bit 7) 5 v ! 4"
  have b: "bit ?b n \<longleftrightarrow> n < 7 \<and> bit v (min (28 + n) 31)" for n
    unfolding leb_bytes_5 mask7 by (auto simp: bit_simps min_def)
  have m: "(0x0f :: u1) = mask 4" by (simp add: mask_eq_exp_minus_1)
  show ?thesis
  proof (cases "bit v 31")
    case True
    then have "bit (uint ?b) 4" using b [of 4] by (simp add: bit_uint_iff)
    then have "uint ?b div 2 ^ 4 \<noteq> 0" by (auto simp: bit_iff_odd)
    then have "\<not> uint ?b < 2 ^ 4" using div_pos_pos_trivial [of "uint ?b" "2 ^ 4"] by auto
    with True show ?thesis using bit_last_iff [of v] by (simp add: word_less_def)
  next
    case False
    then have "?b = ?b AND mask 4"
      using b by (intro bit_word_eqI) (auto simp: bit_simps min_def split: if_splits)
    then have "?b \<le> 0x0f" by (metis m word_and_le1)
    with False show ?thesis using bit_last_iff [of v] by (simp add: not_less)
  qed
qed


lemma leb_prefix:
  "(\<exists>n\<in>{1..5}. n \<le> length xs \<and> is_leb (take n xs)) \<or> length xs < 5 \<and> list_all (\<lambda>b. 0x7f < b) xs"
proof -
  let ?k = "length (takeWhile (\<lambda>b. 0x7f < b) (take 4 xs))"
  have k: "?k \<le> 4" "?k \<le> length xs"
    using length_takeWhile_le [of "\<lambda>b. 0x7f < b" "take 4 xs"] by simp_all
  have tk: "takeWhile (\<lambda>b. 0x7f < b) (take 4 xs) = take ?k xs"
    by (rule trans [OF takeWhile_eq_take]) (simp only: take_take min_absorb1 [OF k(1)])
  have all: "list_all (\<lambda>b. 0x7f < b) (take ?k xs)"
    unfolding tk [symmetric] by (auto simp: list_all_iff dest: set_takeWhileD)
  show ?thesis
  proof (cases "?k < length xs")
    case True
    have "xs ! ?k \<le> 0x7f" if "?k < 4"
      using that True nth_length_takeWhile [of "\<lambda>b. 0x7f < b" "take 4 xs"] by simp
    then have "is_leb (take (Suc ?k) xs)"
      using True k all by (auto simp: is_leb_def take_Suc_conv_app_nth)
    with True k show ?thesis by (intro disjI1 bexI [of _ "Suc ?k"]) auto
  next
    case False
    then have "take ?k xs = xs" by (intro take_all) (simp only: not_less)
    with all have "list_all (\<lambda>b. 0x7f < b) xs" by (simp only:)
    moreover have "length xs < 5" using False k(1) by linarith
    ultimately show ?thesis by blast
  qed
qed

lemma read_out_of_bounds:
  assumes "list_all (\<lambda>b. 0x7f < b) (drop p bs)" and "length bs < p + 5"
  shows "readUnsignedLeb128 bs p = OutOfBounds" and "readSignedLeb128 bs p = OutOfBounds"
proof -
  have n: "next_byte bs (p + k) = OutOfBounds \<or> (\<exists>b. next_byte bs (p + k) = Ret b \<and> 0x7f < b)" for k
    using assms(1) by (auto simp: next_byte_def list_all_length dest: spec [of _ k])
  have 4: "next_byte bs (p + 4) = OutOfBounds" using assms(2) by (simp add: next_byte_def)
  show "readUnsignedLeb128 bs p = OutOfBounds" "readSignedLeb128 bs p = OutOfBounds"
    using n [of 0] n [of 1] n [of 2] n [of 3] 4
    by (auto simp: readUnsignedLeb128_def readSignedLeb128_def Let_def)
qed

section \<open>Claims\<close>

text \<open>C26 Both readers on an arbitrary stream and position: they return after at most five bytes with a
  value that depends on the bytes of one encoding at the position only, or the stream ends inside
  an encoding, and then they read beyond it.\<close>

theorem leb_read_bounds:
  "(\<exists>n\<in>{1..5}. p + n \<le> length bs \<and> is_leb (take n (drop p bs))
      \<and> readUnsignedLeb128 bs p = Ret (leb_value (take n (drop p bs)), p + n)
      \<and> readSignedLeb128 bs p = Ret (leb_signed (take n (drop p bs)), p + n))
   \<or> length bs < p + 5 \<and> list_all (\<lambda>b. 0x7f < b) (drop p bs)
      \<and> readUnsignedLeb128 bs p = OutOfBounds \<and> readSignedLeb128 bs p = OutOfBounds"
  using leb_prefix [of "drop p bs"]
proof (elim disjE bexE conjE)
  fix n assume n: "n \<in> {1..5}" "n \<le> length (drop p bs)" "is_leb (take n (drop p bs))"
  have "bs = take p bs @ take n (drop p bs) @ drop n (drop p bs)" by (simp only: append_take_drop_id)
  moreover have "p \<le> length bs" using n(1,2) by (cases "p \<le> length bs") auto
  ultimately show ?thesis
    using n unsigned_read [OF n(3), of "take p bs" "drop n (drop p bs)"]
      signed_read [OF n(3), of "take p bs" "drop n (drop p bs)"]
    by (intro disjI1 bexI [OF _ n(1)]) (auto simp: min_absorb2)
qed (use read_out_of_bounds in auto)

text \<open>C27 The unsigned reader inverts the canonical encoding anywhere in a stream, and the verifying reader
  accepts it exactly when it ends at or before the limit.\<close>

theorem uleb_roundtrip:
  "readUnsignedLeb128 (pre @ uleb v @ post) (length pre) = Ret (v, length pre + uleb_len v)
   \<and> readAndVerifyUnsignedLeb128 (pre @ uleb v @ post) (length pre) (Some limit) okay
     = Ret (v, length pre + uleb_len v, length pre + uleb_len v \<le> limit \<and> okay)"
proof -
  have 5: "uleb v ! 4 \<le> 0x0f" if "uleb_len v = 5"
    using that fifth_unsigned by (simp add: uleb_def)
  have r: "readUnsignedLeb128 (pre @ uleb v @ post) (length pre) = Ret (v, length pre + uleb_len v)"
    using unsigned_read [OF uleb_is_leb [of v]] by (simp add: leb_value_uleb length_uleb)
  with 5 show ?thesis
    by (auto simp: readAndVerifyUnsignedLeb128_def leb_bad_def nth_append length_uleb not_le
        simp del: bind_out_eq_Ret)
qed

text \<open>C28 The signed reader inverts the canonical encoding. The verifying reader returns the same value but
  rejects every value below \<open>- 2 ^ 27\<close>: those need five bytes, and the sign bits of the last byte
  are then among the bits it requires to be clear.\<close>

theorem sleb_roundtrip:
  "readSignedLeb128 (pre @ sleb v @ post) (length pre) = Ret (v, length pre + sleb_len v)
   \<and> readAndVerifySignedLeb128 (pre @ sleb v @ post) (length pre) (Some limit) okay
     = Ret (v, length pre + sleb_len v, length pre + sleb_len v \<le> limit \<and> - (2 ^ 27) \<le> sint v \<and> okay)"
proof -
  have 5: "0x0f < sleb v ! 4 \<longleftrightarrow> sint v < 0" if "sleb_len v = 5"
    using that fifth_signed by (simp add: sleb_def)
  have len: "sleb_len v = 5 \<and> sint v < 0 \<longleftrightarrow> sint v < - (2 ^ 27)"
    by (auto simp: sleb_len_def fits_signed_def)
  have r: "readSignedLeb128 (pre @ sleb v @ post) (length pre) = Ret (v, length pre + sleb_len v)"
    using signed_read [OF sleb_is_leb [of v]] by (simp add: leb_signed_sleb length_sleb)
  with 5 len show ?thesis
    by (auto simp: readAndVerifySignedLeb128_def leb_bad_def nth_append length_sleb not_le
        simp del: bind_out_eq_Ret)
qed

end
