(* ===== verification/DexCatch.thy ===== *)
theory DexCatch
  imports Leb128
begin

text \<open>
  Exception tables of \<^verbatim>\<open>src/libdex/DexCatch.h\<close> and \<^verbatim>\<open>src/libdex/DexCatch.c\<close>: the search for the \<open>try\<close> item that covers
  an address, and the iterator over the encoded list of catch handlers it refers to. The interpreter
  uses them to find a handler, the verifier to find all successors of a throwing instruction. The
  handler data is a byte list; a position in it stands for the pointer of the iterator.
\<close>

section \<open>Operations\<close>

record DexTry =
  startAddr :: u4
  insnCount :: u2
  handlerOff :: u2

text \<open>What the exception tables of a \<open>DexCode\<close> consist of; \<open>triesSize\<close> is the length of \<open>tries\<close>.\<close>

record DexCode =
  tries :: "DexTry list"
  handlerData :: "u1 list"

record DexCatchHandler =
  typeIdx :: u4
  address :: u4

record DexCatchIterator =
  pEncodedData :: nat
  catchesAll :: bool
  countRemaining :: u4
  handler :: DexCatchHandler

definition kDexNoIndex :: u4 where
  "kDexNoIndex = 0xffffffff"

definition dexGetFirstHandlerOffset :: "DexCode \<Rightarrow> nat outcome" where
  "dexGetFirstHandlerOffset pCode =
     (if tries pCode = [] then Ret 0
      else bind_out (readUnsignedLeb128 (handlerData pCode) 0) (\<lambda>(_, data). Ret data))"

definition dexGetHandlersSize :: "DexCode \<Rightarrow> u4 outcome" where
  "dexGetHandlersSize pCode =
     (if tries pCode = [] then Ret 0
      else bind_out (readUnsignedLeb128 (handlerData pCode) 0) (\<lambda>(size, _). Ret size))"

definition dexCatchIteratorClear :: DexCatchIterator where
  "dexCatchIteratorClear =
     \<lparr>pEncodedData = 0, catchesAll = False, countRemaining = 0, handler = \<lparr>typeIdx = 0, address = 0\<rparr>\<rparr>"

definition dexCatchIteratorInit :: "DexCode \<Rightarrow> nat \<Rightarrow> DexCatchIterator outcome" where
  "dexCatchIteratorInit pCode offset =
     bind_out (readSignedLeb128 (handlerData pCode) offset) (\<lambda>(count, data).
       Ret \<lparr>pEncodedData = data, catchesAll = (sint count \<le> 0),
            countRemaining = (if sint count \<le> 0 then - count else count),
            handler = \<lparr>typeIdx = 0, address = 0\<rparr>\<rparr>)"

text \<open>The next handler, or \<open>None\<close> at the end, and the iterator.\<close>

definition dexCatchIteratorNext ::
  "DexCode \<Rightarrow> DexCatchIterator \<Rightarrow> (DexCatchHandler option \<times> DexCatchIterator) outcome" where
  "dexCatchIteratorNext pCode it =
     (if countRemaining it = 0 \<and> \<not> catchesAll it then Ret (None, it)
      else
        bind_out
          (if countRemaining it = 0
           then Ret (it\<lparr>catchesAll := False, handler := (handler it)\<lparr>typeIdx := kDexNoIndex\<rparr>\<rparr>)
           else bind_out (readUnsignedLeb128 (handlerData pCode) (pEncodedData it)) (\<lambda>(t, data).
             Ret (it\<lparr>pEncodedData := data, handler := (handler it)\<lparr>typeIdx := t\<rparr>, countRemaining := countRemaining it - 1\<rparr>)))
          (\<lambda>it. bind_out (readUnsignedLeb128 (handlerData pCode) (pEncodedData it)) (\<lambda>(a, data).
             let it = it\<lparr>pEncodedData := data, handler := (handler it)\<lparr>address := a\<rparr>\<rparr> in
             Ret (Some (handler it), it))))"

definition handlers_left :: "DexCatchIterator \<Rightarrow> nat" where
  "handlers_left it = unat (countRemaining it) + (if catchesAll it then 1 else 0)"

lemma handlers_left_next:
  assumes "dexCatchIteratorNext pCode it = Ret (Some h, it')"
  shows "Suc (handlers_left it') = handlers_left it"
proof (cases "countRemaining it = 0")
  case True
  then show ?thesis using assms by (auto simp: dexCatchIteratorNext_def handlers_left_def Let_def split: if_splits)
next
  case False
  then show ?thesis
    using assms unat_dec [OF False] by (auto simp: dexCatchIteratorNext_def handlers_left_def Let_def split: prod.splits)
qed

text \<open>
  The loop \<open>for (;;) { handler = dexCatchIteratorNext(&iterator); if (handler == NULL) break; ... }\<close> of the clients:
  the handlers in order, and the iterator at the end.
\<close>

function catch_handlers :: "DexCode \<Rightarrow> DexCatchIterator \<Rightarrow> (DexCatchHandler list \<times> DexCatchIterator) outcome" where
  "catch_handlers pCode it =
     (case dexCatchIteratorNext pCode it of
        AbortVM \<Rightarrow> AbortVM
      | OutOfBounds \<Rightarrow> OutOfBounds
      | Ret (None, it) \<Rightarrow> Ret ([], it)
      | Ret (Some h, it) \<Rightarrow> bind_out (catch_handlers pCode it) (\<lambda>(hs, it). Ret (h # hs, it)))"
  by pat_completeness auto
termination
  by (relation "measure (\<lambda>(_, it). handlers_left it)") (auto dest!: handlers_left_next)

declare catch_handlers.simps [simp del]

definition dexCatchIteratorGetEndOffset :: "DexCode \<Rightarrow> DexCatchIterator \<Rightarrow> nat outcome" where
  "dexCatchIteratorGetEndOffset pCode it = bind_out (catch_handlers pCode it) (\<lambda>(_, it). Ret (pEncodedData it))"

function dexFindCatchHandlerOffset0 :: "DexTry list \<Rightarrow> u4 \<Rightarrow> int \<Rightarrow> int \<Rightarrow> int outcome" where
  "dexFindCatchHandlerOffset0 pTries addr mini maxi =
     (if maxi < mini then Ret (- 1)
      else
        let guess = (mini + maxi) div 2 in
        case read_at pTries guess of
          None \<Rightarrow> OutOfBounds
        | Some pTry \<Rightarrow>
            if addr < startAddr pTry then dexFindCatchHandlerOffset0 pTries addr mini (guess - 1)
            else if addr \<ge> startAddr pTry + ucast (insnCount pTry)
            then dexFindCatchHandlerOffset0 pTries addr (guess + 1) maxi
            else Ret (uint (handlerOff pTry)))"
  by pat_completeness auto
termination
  by (relation "measure (\<lambda>(_, _, mini, maxi). nat (maxi + 1 - mini))") auto

declare dexFindCatchHandlerOffset0.simps [simp del]

text \<open>An initialised iterator, or \<open>None\<close> when no \<open>try\<close> item covers the address.\<close>

definition dexFindCatchHandler :: "DexCode \<Rightarrow> u4 \<Rightarrow> DexCatchIterator option outcome" where
  "dexFindCatchHandler pCode addr =
     bind_out
       (case tries pCode of
          [] \<Rightarrow> Ret (- 1)
        | [t] \<Rightarrow> if addr < startAddr t then Ret (- 1)
                 else if addr \<ge> startAddr t + ucast (insnCount t) then Ret (- 1)
                 else Ret (uint (handlerOff t))
        | _ \<Rightarrow> dexFindCatchHandlerOffset0 (tries pCode) addr 0 (int (length (tries pCode)) - 1))
       (\<lambda>offset. if offset < 0 then Ret None
          else bind_out (dexCatchIteratorInit pCode (nat offset)) (\<lambda>it. Ret (Some it)))"

section \<open>The search\<close>

text \<open>The format requires the items to be sorted and not to overlap, and their ends not to wrap around.\<close>

definition try_end :: "DexTry \<Rightarrow> nat" where
  "try_end t = unat (startAddr t) + unat (insnCount t)"

definition tries_ok :: "DexTry list \<Rightarrow> bool" where
  "tries_ok ts \<longleftrightarrow> (\<forall>t\<in>set ts. try_end t < 2 ^ 32) \<and> sorted_wrt (\<lambda>t u. try_end t \<le> unat (startAddr u)) ts"

definition covers :: "u4 \<Rightarrow> DexTry \<Rightarrow> bool" where
  "covers addr t \<longleftrightarrow> unat (startAddr t) \<le> unat addr \<and> unat addr < try_end t"

lemma try_end_word:
  assumes "tries_ok ts" and "t \<in> set ts"
  shows "addr \<ge> startAddr t + ucast (insnCount t) \<longleftrightarrow> try_end t \<le> unat addr"
proof -
  have "try_end t < 2 ^ 32" using assms by (simp add: tries_ok_def)
  moreover have "unat (ucast (insnCount t) :: u4) = unat (insnCount t)" by (rule unat_ucast_up) simp
  ultimately have "unat (startAddr t + ucast (insnCount t)) = try_end t"
    by (simp only: unat_word_ariths(1) try_end_def) simp
  then show ?thesis by (simp only: word_le_nat_alt)
qed

lemma covers_iff:
  assumes "tries_ok ts" and "t \<in> set ts"
  shows "covers addr t \<longleftrightarrow> \<not> addr < startAddr t \<and> \<not> addr \<ge> startAddr t + ucast (insnCount t)"
  by (simp only: covers_def try_end_word [OF assms] word_less_nat_alt not_le not_less)

text \<open>An item that covers the address lies on the side of the guess the search keeps.\<close>

lemma tries_order:
  assumes "tries_ok ts" and "i < length ts" and "j < length ts" and "covers addr (ts ! i)"
  shows "addr < startAddr (ts ! j) \<Longrightarrow> i < j" and "try_end (ts ! j) \<le> unat addr \<Longrightarrow> j < i"
proof -
  have s: "try_end (ts ! k) \<le> unat (startAddr (ts ! l))" if "k < l" "l < length ts" for k l
    using assms(1) that by (simp add: tries_ok_def sorted_wrt_iff_nth_less)
  show "i < j" if "addr < startAddr (ts ! j)"
  proof (rule ccontr)
    assume "\<not> i < j"
    moreover have "j \<noteq> i" using that assms(4) by (auto simp: covers_def word_less_nat_alt)
    ultimately have "try_end (ts ! j) \<le> unat (startAddr (ts ! i))" using s assms(2) by simp
    then show False using that assms(4) by (simp add: covers_def word_less_nat_alt try_end_def)
  qed
  show "j < i" if "try_end (ts ! j) \<le> unat addr"
  proof (rule ccontr)
    assume "\<not> j < i"
    moreover have "j \<noteq> i" using that assms(4) by (auto simp: covers_def)
    ultimately have "try_end (ts ! i) \<le> unat (startAddr (ts ! j))" using s assms(3) by simp
    then show False using that assms(4) by (simp add: covers_def try_end_def)
  qed
qed

definition search_result :: "DexTry list \<Rightarrow> u4 \<Rightarrow> int \<Rightarrow> bool" where
  "search_result ts addr r \<longleftrightarrow>
     (if \<exists>t\<in>set ts. covers addr t then \<exists>t\<in>set ts. covers addr t \<and> r = uint (handlerOff t) else r = - 1)"

lemma search_spec:
  assumes "tries_ok ts" and "0 \<le> mini" and "maxi < int (length ts)"
    and "\<And>i. i < length ts \<Longrightarrow> covers addr (ts ! i) \<Longrightarrow> mini \<le> int i \<and> int i \<le> maxi"
  shows "\<exists>r. dexFindCatchHandlerOffset0 ts addr mini maxi = Ret r \<and> search_result ts addr r"
  using assms
proof (induction ts addr mini maxi rule: dexFindCatchHandlerOffset0.induct)
  case (1 ts addr mini maxi)
  note ok = 1(3) and lo = 1(4) and hi = 1(5) and inside = 1(6)
  show ?case
  proof (cases "maxi < mini")
    case True
    then have "\<not> (\<exists>t\<in>set ts. covers addr t)" using inside by (fastforce simp: in_set_conv_nth)
    then show ?thesis using True by (subst dexFindCatchHandlerOffset0.simps) (simp add: search_result_def)
  next
    case False
    define g where "g = nat ((mini + maxi) div 2)"
    have g: "(mini + maxi) div 2 = int g" "mini \<le> int g" "int g \<le> maxi" "g < length ts"
      using False lo hi by (auto simp: g_def)
    have rd: "read_at ts ((mini + maxi) div 2) = Some (ts ! g)" using g by simp
    have mem: "ts ! g \<in> set ts" using g(4) by simp
    note unf = dexFindCatchHandlerOffset0.simps [of ts addr mini maxi]
    consider (left) "addr < startAddr (ts ! g)"
      | (right) "\<not> addr < startAddr (ts ! g)" "addr \<ge> startAddr (ts ! g) + ucast (insnCount (ts ! g))"
      | (hit) "\<not> addr < startAddr (ts ! g)" "\<not> addr \<ge> startAddr (ts ! g) + ucast (insnCount (ts ! g))"
      by blast
    then show ?thesis
    proof cases
      case left
      have "mini \<le> int i \<and> int i \<le> int g - 1" if "i < length ts" "covers addr (ts ! i)" for i
        using inside [OF that] tries_order(1) [OF ok that(1) g(4) that(2) left] by simp
      then show ?thesis
        using 1(1) [OF False refl rd left ok lo] g hi unf False rd left by (simp add: Let_def del: read_at_Some)
    next
      case right
      have "int g + 1 \<le> int i \<and> int i \<le> maxi" if "i < length ts" "covers addr (ts ! i)" for i
        using inside [OF that] tries_order(2) [OF ok that(1) g(4) that(2)] right(2) try_end_word [OF ok mem] by simp
      then show ?thesis
        using 1(2) [OF False refl rd right ok _ hi] g lo unf False rd right by (simp add: Let_def del: read_at_Some)
    next
      case hit
      then have "covers addr (ts ! g)" using covers_iff [OF ok mem] by simp
      then have "search_result ts addr (uint (handlerOff (ts ! g)))" using mem by (auto simp: search_result_def)
      then show ?thesis using unf False rd hit by (simp add: Let_def del: read_at_Some)
    qed
  qed
qed

section \<open>The encoded handlers\<close>

text \<open>The encoding of a list of typed handlers and an optional catch-all handler, as in the DEX format.\<close>

definition encode_handlers :: "(u4 \<times> u4) list \<Rightarrow> u4 option \<Rightarrow> u1 list" where
  "encode_handlers hs all =
     sleb (word_of_int (if all = None then int (length hs) else - int (length hs)))
     @ concat (map (\<lambda>(t, a). uleb t @ uleb a) hs) @ (case all of None \<Rightarrow> [] | Some a \<Rightarrow> uleb a)"

definition handler_list :: "(u4 \<times> u4) list \<Rightarrow> u4 option \<Rightarrow> DexCatchHandler list" where
  "handler_list hs all = map (\<lambda>(t, a). \<lparr>typeIdx = t, address = a\<rparr>) hs
     @ (case all of None \<Rightarrow> [] | Some a \<Rightarrow> [\<lparr>typeIdx = kDexNoIndex, address = a\<rparr>])"

lemma read_uleb: "readUnsignedLeb128 (pre @ uleb v @ post) (length pre) = Ret (v, length pre + length (uleb v))"
  using unsigned_read [OF uleb_is_leb [of v]] by (simp add: leb_value_uleb)

lemma read_sleb: "readSignedLeb128 (pre @ sleb v @ post) (length pre) = Ret (v, length pre + length (sleb v))"
  using signed_read [OF sleb_is_leb [of v]] by (simp add: leb_signed_sleb)

lemma next_typed:
  assumes "handlerData pCode = pre @ uleb t @ uleb a @ post" and "countRemaining it \<noteq> 0" and "pEncodedData it = length pre"
  shows "dexCatchIteratorNext pCode it =
     Ret (Some \<lparr>typeIdx = t, address = a\<rparr>,
          it\<lparr>pEncodedData := length (pre @ uleb t @ uleb a), handler := \<lparr>typeIdx = t, address = a\<rparr>,
             countRemaining := countRemaining it - 1\<rparr>)"
  using assms read_uleb [of pre t "uleb a @ post"] read_uleb [of "pre @ uleb t" a post]
  by (simp add: dexCatchIteratorNext_def Let_def del: bind_out_eq_Ret)

lemma catch_handlers_list:
  assumes "handlerData pCode = pre @ concat (map (\<lambda>(t, a). uleb t @ uleb a) hs)
             @ (case all of None \<Rightarrow> [] | Some a \<Rightarrow> uleb a) @ post"
    and "pEncodedData it = length pre" and "unat (countRemaining it) = length hs" and "catchesAll it \<longleftrightarrow> all \<noteq> None"
  shows "\<exists>it'. catch_handlers pCode it = Ret (handler_list hs all, it')
           \<and> length (handlerData pCode) = pEncodedData it' + length post"
  using assms
proof (induction hs arbitrary: pre it)
  case Nil
  then have c: "countRemaining it = 0" by (simp add: unat_eq_0)
  show ?case
  proof (cases all)
    case None
    then have "dexCatchIteratorNext pCode it = Ret (None, it)" using c Nil by (simp add: dexCatchIteratorNext_def)
    then show ?thesis using Nil None by (subst catch_handlers.simps) (simp add: handler_list_def)
  next
    case (Some a)
    let ?it = "it\<lparr>catchesAll := False, pEncodedData := length (pre @ uleb a), handler := \<lparr>typeIdx = kDexNoIndex, address = a\<rparr>\<rparr>"
    have "dexCatchIteratorNext pCode it = Ret (Some \<lparr>typeIdx = kDexNoIndex, address = a\<rparr>, ?it)"
      using c Nil Some read_uleb [of pre a post]
      by (simp add: dexCatchIteratorNext_def Let_def del: bind_out_eq_Ret)
    moreover have "catch_handlers pCode ?it = Ret ([], ?it)"
      using c by (subst catch_handlers.simps) (simp add: dexCatchIteratorNext_def)
    ultimately show ?thesis
      using Nil Some by (subst catch_handlers.simps) (simp add: handler_list_def)
  qed
next
  case (Cons h hs)
  obtain t a where h: "h = (t, a)" by fastforce
  have c: "countRemaining it \<noteq> 0" using Cons.prems(3) by auto
  let ?pre = "pre @ uleb t @ uleb a"
  let ?it = "it\<lparr>pEncodedData := length ?pre, handler := \<lparr>typeIdx = t, address = a\<rparr>, countRemaining := countRemaining it - 1\<rparr>"
  have "unat (countRemaining it - 1) = length hs" using unat_dec [OF c] Cons.prems(3) by simp
  then have "\<exists>it'. catch_handlers pCode ?it = Ret (handler_list hs all, it')
      \<and> length (handlerData pCode) = pEncodedData it' + length post"
    using Cons.prems by (intro Cons.IH [of ?pre ?it]) (simp_all add: h)
  moreover have "dexCatchIteratorNext pCode it = Ret (Some \<lparr>typeIdx = t, address = a\<rparr>, ?it)"
    using Cons.prems(1,2) c by (intro next_typed) (simp_all add: h)
  ultimately show ?case
    by (subst catch_handlers.simps) (auto simp: handler_list_def h simp del: length_append)
qed

lemma init_encoded:
  assumes "handlerData pCode = pre @ encode_handlers hs all @ post" and "length hs < 2 ^ 31" and "all = None \<Longrightarrow> hs \<noteq> []"
  shows "\<exists>it it'. dexCatchIteratorInit pCode (length pre) = Ret it \<and> catch_handlers pCode it = Ret (handler_list hs all, it')
           \<and> length (handlerData pCode) = pEncodedData it' + length post"
proof -
  define n where "n = int (length hs)"
  define c where "c = (word_of_int (if all = None then n else - n) :: u4)"
  have n: "0 \<le> n" "n < 2 ^ 31" using assms(2) by (simp_all add: n_def)
  have s: "sint c = (if all = None then n else - n)"
    unfolding c_def using n by (intro sint_word_of_int_fits) auto
  have pos: "sint c \<le> 0 \<longleftrightarrow> all \<noteq> None" using s n assms(3) by (auto simp: n_def)
  have "(if sint c \<le> 0 then - c else c) = word_of_nat (length hs)"
    using pos by (simp add: c_def n_def)
  moreover have "unat (word_of_nat (length hs) :: u4) = length hs"
    using assms(2) by (simp add: unsigned_of_nat take_bit_nat_eq_self_iff)
  ultimately have cnt: "unat (if sint c \<le> 0 then - c else c) = length hs" by simp
  let ?it = "\<lparr>pEncodedData = length (pre @ sleb c), catchesAll = (sint c \<le> 0),
     countRemaining = (if sint c \<le> 0 then - c else c), handler = \<lparr>typeIdx = 0, address = 0\<rparr>\<rparr>"
  have data: "handlerData pCode = pre @ sleb c @ concat (map (\<lambda>(t, a). uleb t @ uleb a) hs)
      @ (case all of None \<Rightarrow> [] | Some a \<Rightarrow> uleb a) @ post"
    using assms(1) by (simp add: encode_handlers_def c_def n_def)
  then have "dexCatchIteratorInit pCode (length pre) = Ret ?it"
    using read_sleb [of pre c] by (simp add: dexCatchIteratorInit_def del: bind_out_eq_Ret)
  moreover have "\<exists>it'. catch_handlers pCode ?it = Ret (handler_list hs all, it')
      \<and> length (handlerData pCode) = pEncodedData it' + length post"
    using data cnt pos by (intro catch_handlers_list [of _ "pre @ sleb c"]) simp_all
  ultimately show ?thesis by blast
qed

lemma find_spec:
  assumes "tries_ok (tries pCode)"
  shows "\<exists>r. search_result (tries pCode) addr r \<and> dexFindCatchHandler pCode addr =
     (if r < 0 then Ret None else bind_out (dexCatchIteratorInit pCode (nat r)) (\<lambda>it. Ret (Some it)))"
proof -
  consider "tries pCode = []" | t where "tries pCode = [t]" | t u ts where "tries pCode = t # u # ts"
    by (cases "tries pCode" rule: remdups_adj.cases) auto
  then show ?thesis
  proof cases
    case 1
    then show ?thesis by (intro exI [of _ "- 1"]) (simp add: dexFindCatchHandler_def search_result_def)
  next
    case (2 t)
    then show ?thesis
      using covers_iff [OF assms, of t addr]
      by (intro exI [of _ "if covers addr t then uint (handlerOff t) else - 1"])
        (auto simp: dexFindCatchHandler_def search_result_def)
  next
    case (3 t u ts)
    obtain r where "dexFindCatchHandlerOffset0 (tries pCode) addr 0 (int (length (tries pCode)) - 1) = Ret r"
      "search_result (tries pCode) addr r"
      using search_spec [OF assms, of 0 "int (length (tries pCode)) - 1" addr] by auto
    with 3 show ?thesis by (intro exI [of _ r]) (simp add: dexFindCatchHandler_def)
  qed
qed

section \<open>Properties\<close>

text \<open>C13 The exception tables are read as the format defines them. On sorted \<open>try\<close> items that do not overlap and whose
  handler offsets point at encoded handler lists, \<open>dexFindCatchHandler\<close> finds no iterator if no item covers the address, and otherwise one
  for an item that does, by binary search; the loop over the iterator then returns, in order, the typed handlers of
  that item's list and the catch-all handler last, without leaving the handler data.\<close>

theorem exception_lookup:
  assumes "tries_ok (tries pCode)"
    and "\<And>t. t \<in> set (tries pCode) \<Longrightarrow> \<exists>pre post. handlerData pCode = pre @ encode_handlers (typed t) (catchall t) @ post
           \<and> length pre = unat (handlerOff t) \<and> length (typed t) < 2 ^ 31 \<and> (catchall t = None \<longrightarrow> typed t \<noteq> [])"
  shows "if \<exists>t\<in>set (tries pCode). covers addr t
         then \<exists>t\<in>set (tries pCode). covers addr t \<and> (\<exists>it it'. dexFindCatchHandler pCode addr = Ret (Some it)
                \<and> catch_handlers pCode it = Ret (handler_list (typed t) (catchall t), it')
                \<and> pEncodedData it' \<le> length (handlerData pCode))
         else dexFindCatchHandler pCode addr = Ret None"
proof -
  obtain r where r: "search_result (tries pCode) addr r" "dexFindCatchHandler pCode addr =
     (if r < 0 then Ret None else bind_out (dexCatchIteratorInit pCode (nat r)) (\<lambda>it. Ret (Some it)))"
    using find_spec [OF assms(1)] by blast
  show ?thesis
  proof (cases "\<exists>t\<in>set (tries pCode). covers addr t")
    case True
    then obtain t where t: "t \<in> set (tries pCode)" "covers addr t" "r = uint (handlerOff t)"
      using r(1) by (auto simp: search_result_def)
    obtain pre post where e: "handlerData pCode = pre @ encode_handlers (typed t) (catchall t) @ post"
      "length pre = unat (handlerOff t)" "length (typed t) < 2 ^ 31" "catchall t = None \<longrightarrow> typed t \<noteq> []"
      using assms(2) [OF t(1)] by (elim exE conjE) (rule that)
    have "nat r = length pre" "\<not> r < 0" using t(3) e(2) by simp_all
    then show ?thesis using True t(1,2) init_encoded [OF e(1,3) e(4) [rule_format]] r(2) by auto
  next
    case False
    then show ?thesis using r by (simp add: search_result_def)
  qed
qed

definition sample_code :: DexCode where
  "sample_code = \<lparr>tries = [\<lparr>startAddr = 2, insnCount = 3, handlerOff = 1\<rparr>, \<lparr>startAddr = 7, insnCount = 1, handlerOff = 1\<rparr>],
     handlerData = 1 # encode_handlers [(4, 9)] (Some 11)\<rparr>"

theorem exception_lookup_witness:
  "(\<exists>it it'. dexFindCatchHandler sample_code 7 = Ret (Some it)
      \<and> catch_handlers sample_code it = Ret ([\<lparr>typeIdx = 4, address = 9\<rparr>, \<lparr>typeIdx = kDexNoIndex, address = 11\<rparr>], it'))
   \<and> dexFindCatchHandler sample_code 5 = Ret None"
proof -
  have ok: "tries_ok (tries sample_code)" by (simp add: sample_code_def tries_ok_def try_end_def)
  have enc: "\<exists>pre post. handlerData sample_code = pre @ encode_handlers [(4, 9)] (Some 11) @ post
      \<and> length pre = unat (handlerOff t) \<and> length [(4 :: u4, 9 :: u4)] < 2 ^ 31 \<and> (Some (11 :: u4) = None \<longrightarrow> [(4 :: u4, 9 :: u4)] \<noteq> [])"
    if "t \<in> set (tries sample_code)" for t
    using that by (intro exI [of _ "[1]"] exI [of _ "[]"]) (auto simp: sample_code_def)
  have c: "\<exists>t\<in>set (tries sample_code). covers 7 t" "\<not> (\<exists>t\<in>set (tries sample_code). covers 5 t)"
    by (simp_all add: sample_code_def covers_def try_end_def)
  show ?thesis
    using exception_lookup [OF ok, of "\<lambda>_. [(4, 9)]" "\<lambda>_. Some 11" 7, OF enc]
      exception_lookup [OF ok, of "\<lambda>_. [(4, 9)]" "\<lambda>_. Some 11" 5, OF enc] c
    by (auto simp: handler_list_def)
qed

end
