(* ===== verification/AtomicCache.thy ===== *)
theory AtomicCache
  imports Prelude
begin

text \<open>
  The mutex-free cache of \<^verbatim>\<open>src/vm/AtomicCache.h\<close> and \<^verbatim>\<open>src/vm/AtomicCache.c\<close> that memoizes \<open>instanceof\<close>. An
  entry carries a version, which is even and unlocked at rest; a writer sets the lock flag in bit 63
  by compare-and-swap, makes the version odd, writes the fields, makes it even again and clears the flag.
  Readers take no lock: they validate by reading the version twice. The lookup macro works with
  \<open>u4\<close> copies of the 64-bit keys, value and version.

  The first section has the operations as one thread executes them alone. The second has every
  access to shared memory as a step of its own, with any number of threads interleaved, on the
  sequentially consistent memory that the barriers provide. The theorems show what a lookup may
  return under every interleaving, that no thread aborts and none waits for another.
\<close>

section \<open>Operations of one thread\<close>

record AtomicCacheEntry =
  key1 :: u8
  key2 :: u8
  cached :: u8
  version :: u8

definition ATOMIC_LOCK_FLAG :: u8 where
  "ATOMIC_LOCK_FLAG = push_bit 63 1"

definition zero_cache_entry :: AtomicCacheEntry where
  "zero_cache_entry = \<lparr>key1 = 0, key2 = 0, cached = 0, version = 0\<rparr>"

text \<open>The cache; the statistics counters are compiled out, and \<open>numEntries\<close> is the length of the list.\<close>

definition dvmAllocAtomicCache :: "bool \<Rightarrow> int \<Rightarrow> AtomicCacheEntry list option" where
  "dvmAllocAtomicCache alloc_ok numEntries =
     (if alloc_ok then Some (replicate (nat numEntries) zero_cache_entry) else None)"

definition android_quasiatomic_cmpxchg_64 :: "u8 \<Rightarrow> u8 \<Rightarrow> u8 \<Rightarrow> bool \<times> u8" where
  "android_quasiatomic_cmpxchg_64 oldvalue newvalue cur =
     (if cur = oldvalue then (False, newvalue) else (True, cur))"

text \<open>The slot: \<open>(((u4)key1 >> 2) ^ (u4)key2) & (cacheSize - 1)\<close>.\<close>

definition low32 :: "u8 \<Rightarrow> u4" where
  "low32 p = ucast p"

definition cache_index :: "nat \<Rightarrow> u8 \<Rightarrow> u8 \<Rightarrow> nat" where
  "cache_index n k1 k2 = unat ((drop_bit 2 (low32 k1) XOR low32 k2) AND (word_of_nat n - 1))"

definition dvmUpdateAtomicCache :: "u8 \<Rightarrow> u8 \<Rightarrow> u8 \<Rightarrow> AtomicCacheEntry \<Rightarrow> u8 \<Rightarrow> AtomicCacheEntry outcome" where
  "dvmUpdateAtomicCache k1 k2 v e firstVersion =
     (if firstVersion AND ATOMIC_LOCK_FLAG \<noteq> 0 then Ret e
      else
        let (failed, ver) = android_quasiatomic_cmpxchg_64 firstVersion (firstVersion OR ATOMIC_LOCK_FLAG) (version e);
            e = e\<lparr>version := ver\<rparr>
        in if failed then Ret e
           else if firstVersion AND 1 \<noteq> 0 then AbortVM
           else
             let e = e\<lparr>version := version e + 1\<rparr>;
                 e = e\<lparr>key1 := k1, key2 := k2, cached := v\<rparr>;
                 e = e\<lparr>version := version e + 1\<rparr>;
                 firstVersion = firstVersion + 2;
                 (failed, ver) = android_quasiatomic_cmpxchg_64 (firstVersion OR ATOMIC_LOCK_FLAG) firstVersion (version e)
             in if failed then AbortVM else Ret (e\<lparr>version := ver\<rparr>))"

text \<open>
  \<open>ATOMIC_CACHE_LOOKUP\<close> as one thread executes it. The computation may itself use the cache, so it
  takes the cache and returns it; it may not return (\<open>None\<close>) like any computation of the client.
\<close>

definition ATOMIC_CACHE_LOOKUP ::
  "(AtomicCacheEntry list \<Rightarrow> (u4 \<times> AtomicCacheEntry list) outcome option) \<Rightarrow> AtomicCacheEntry list \<Rightarrow> u8 \<Rightarrow> u8
     \<Rightarrow> (u4 \<times> AtomicCacheEntry list) outcome option" where
  "ATOMIC_CACHE_LOOKUP calc cache k1 k2 =
     (let hash = cache_index (length cache) k1 k2 in
      if hash \<ge> length cache then Some OutOfBounds
      else
        let e = cache ! hash; firstVersion = low32 (version e) in
        if key1 e = ucast (low32 k1) \<and> key2 e = ucast (low32 k2) then
          let v = low32 (cached e) in
          if firstVersion AND 1 \<noteq> 0 \<or> ucast firstVersion \<noteq> version e then calc cache else Some (Ret (v, cache))
        else
          case calc cache of None \<Rightarrow> None | Some r \<Rightarrow> Some (bind_out r (\<lambda>(v, cache).
          bind_out (dvmUpdateAtomicCache (ucast (low32 k1)) (ucast (low32 k2)) (ucast v) (cache ! hash) (ucast firstVersion))
            (\<lambda>e. Ret (v, cache[hash := e])))))"

section \<open>Threads\<close>

text \<open>
  The control points of a lookup with the values of its locals: the keys it was called with, \<open>firstVersion\<close>
  and the value. The points after \<open>TryLock\<close> are in \<open>dvmUpdateAtomicCache\<close>, whose parameter \<open>firstVersion\<close> is
  64 bits wide; an increment of the volatile version is a load and a store.
\<close>

datatype lookup_pc =
  Idle
| ReadVersion u8 u8
| ReadKey1 u8 u8 u4
| ReadKey2 u8 u8 u4
| ReadValue u8 u8 u4
| CheckVersion u8 u8 u4 u4
| Recompute u8 u8
| Compute u8 u8 u4
| TryLock u8 u8 u4 u8
| CheckEven u8 u8 u4 u8
| Load1 u8 u8 u4 u8
| Store1 u8 u8 u4 u8 u8
| WriteKey1 u8 u8 u4 u8
| WriteKey2 u8 u8 u4 u8
| WriteValue u8 u8 u4 u8
| Load2 u8 u8 u4 u8
| Store2 u8 u8 u4 u8 u8
| Unlock u8 u8 u4 u8
| Done u8 u8 u4
| Aborted

text \<open>One step of a thread on the entry it works on. The value of a key pair is \<open>calc\<close>.\<close>

fun thread_step :: "(u8 \<Rightarrow> u8 \<Rightarrow> u4) \<Rightarrow> AtomicCacheEntry \<Rightarrow> lookup_pc \<Rightarrow> (AtomicCacheEntry \<times> lookup_pc) option" where
  "thread_step calc e (ReadVersion a b) = Some (e, ReadKey1 a b (low32 (version e)))"
| "thread_step calc e (ReadKey1 a b fv) =
     Some (e, if key1 e = ucast (low32 a) then ReadKey2 a b fv else Compute a b fv)"
| "thread_step calc e (ReadKey2 a b fv) =
     Some (e, if key2 e = ucast (low32 b) then ReadValue a b fv else Compute a b fv)"
| "thread_step calc e (ReadValue a b fv) = Some (e, CheckVersion a b fv (low32 (cached e)))"
| "thread_step calc e (CheckVersion a b fv v) =
     Some (e, if fv AND 1 \<noteq> 0 \<or> ucast fv \<noteq> version e then Recompute a b else Done a b v)"
| "thread_step calc e (Recompute a b) = Some (e, Done a b (calc a b))"
| "thread_step calc e (Compute a b fv) = Some (e, TryLock a b (calc a b) (ucast fv))"
| "thread_step calc e (TryLock a b v fv) =
     Some (if fv AND ATOMIC_LOCK_FLAG \<noteq> 0 then (e, Done a b v)
           else
             let (failed, ver) = android_quasiatomic_cmpxchg_64 fv (fv OR ATOMIC_LOCK_FLAG) (version e)
             in if failed then (e, Done a b v) else (e\<lparr>version := ver\<rparr>, CheckEven a b v fv))"
| "thread_step calc e (CheckEven a b v fv) = Some (e, if fv AND 1 \<noteq> 0 then Aborted else Load1 a b v fv)"
| "thread_step calc e (Load1 a b v fv) = Some (e, Store1 a b v fv (version e))"
| "thread_step calc e (Store1 a b v fv w) = Some (e\<lparr>version := w + 1\<rparr>, WriteKey1 a b v fv)"
| "thread_step calc e (WriteKey1 a b v fv) = Some (e\<lparr>key1 := ucast (low32 a)\<rparr>, WriteKey2 a b v fv)"
| "thread_step calc e (WriteKey2 a b v fv) = Some (e\<lparr>key2 := ucast (low32 b)\<rparr>, WriteValue a b v fv)"
| "thread_step calc e (WriteValue a b v fv) = Some (e\<lparr>cached := ucast v\<rparr>, Load2 a b v fv)"
| "thread_step calc e (Load2 a b v fv) = Some (e, Store2 a b v fv (version e))"
| "thread_step calc e (Store2 a b v fv w) = Some (e\<lparr>version := w + 1\<rparr>, Unlock a b v fv)"
| "thread_step calc e (Unlock a b v fv) =
     (let (failed, ver) = android_quasiatomic_cmpxchg_64 ((fv + 2) OR ATOMIC_LOCK_FLAG) (fv + 2) (version e)
      in Some (e\<lparr>version := ver\<rparr>, if failed then Aborted else Done a b v))"
| "thread_step calc e _ = None"

text \<open>The keys of the lookup a thread is in.\<close>

fun pc_keys :: "lookup_pc \<Rightarrow> (u8 \<times> u8) option" where
  "pc_keys Idle = None"
| "pc_keys Aborted = None"
| "pc_keys (ReadVersion a b) = Some (a, b)"
| "pc_keys (ReadKey1 a b fv) = Some (a, b)"
| "pc_keys (ReadKey2 a b fv) = Some (a, b)"
| "pc_keys (ReadValue a b fv) = Some (a, b)"
| "pc_keys (CheckVersion a b fv v) = Some (a, b)"
| "pc_keys (Recompute a b) = Some (a, b)"
| "pc_keys (Compute a b fv) = Some (a, b)"
| "pc_keys (TryLock a b v fv) = Some (a, b)"
| "pc_keys (CheckEven a b v fv) = Some (a, b)"
| "pc_keys (Load1 a b v fv) = Some (a, b)"
| "pc_keys (Store1 a b v fv w) = Some (a, b)"
| "pc_keys (WriteKey1 a b v fv) = Some (a, b)"
| "pc_keys (WriteKey2 a b v fv) = Some (a, b)"
| "pc_keys (WriteValue a b v fv) = Some (a, b)"
| "pc_keys (Load2 a b v fv) = Some (a, b)"
| "pc_keys (Store2 a b v fv w) = Some (a, b)"
| "pc_keys (Unlock a b v fv) = Some (a, b)"
| "pc_keys (Done a b v) = Some (a, b)"

record cache_state =
  entries :: "AtomicCacheEntry list"
  pcs :: "nat \<Rightarrow> lookup_pc"

definition at_rest :: "lookup_pc \<Rightarrow> bool" where
  "at_rest pc \<longleftrightarrow> (case pc of Idle \<Rightarrow> True | Done _ _ _ \<Rightarrow> True | Aborted \<Rightarrow> True | _ \<Rightarrow> False)"

inductive cache_step :: "(u8 \<times> u8) set \<Rightarrow> (u8 \<Rightarrow> u8 \<Rightarrow> u4) \<Rightarrow> nat \<Rightarrow> cache_state \<Rightarrow> cache_state \<Rightarrow> bool"
  for K calc where
  start: "at_rest (pcs s t) \<Longrightarrow> pcs s t \<noteq> Aborted \<Longrightarrow> (a, b) \<in> K
    \<Longrightarrow> cache_step K calc t s (s\<lparr>pcs := (pcs s)(t := ReadVersion a b)\<rparr>)"
| advance: "pc_keys (pcs s t) = Some (a, b) \<Longrightarrow> i = cache_index (length (entries s)) a b
    \<Longrightarrow> thread_step calc (entries s ! i) (pcs s t) = Some (e, pc)
    \<Longrightarrow> cache_step K calc t s (s\<lparr>entries := (entries s)[i := e], pcs := (pcs s)(t := pc)\<rparr>)"

inductive cache_reachable :: "(u8 \<times> u8) set \<Rightarrow> (u8 \<Rightarrow> u8 \<Rightarrow> u4) \<Rightarrow> nat \<Rightarrow> cache_state \<Rightarrow> bool"
  for K calc k where
  initial: "cache_reachable K calc k \<lparr>entries = replicate (2 ^ k) zero_cache_entry, pcs = \<lambda>_. Idle\<rparr>"
| step: "cache_reachable K calc k s \<Longrightarrow> cache_step K calc t s s' \<Longrightarrow> cache_reachable K calc k s'"

section \<open>Versions\<close>

text \<open>A version read as its lock flag and its number.\<close>

definition is_locked :: "AtomicCacheEntry \<Rightarrow> bool" where
  "is_locked e \<longleftrightarrow> 2 ^ 63 \<le> unat (version e)"

definition vnum :: "AtomicCacheEntry \<Rightarrow> nat" where
  "vnum e = unat (version e) mod 2 ^ 63"

lemma unat_low32: "unat (low32 w) = unat w mod 2 ^ 32"
  by (simp add: low32_def unsigned_ucast_eq take_bit_eq_mod)

lemma unat_version: "unat (version e) = (if is_locked e then 2 ^ 63 else 0) + vnum e"
proof -
  have "unat (version e) < 2 ^ 64" using unsigned_less [where 'a = nat, of "version e"] by simp
  then show ?thesis by (auto simp: is_locked_def vnum_def mod_if)
qed

lemma bit_flag: "bit ATOMIC_LOCK_FLAG n \<longleftrightarrow> n = 63"
  unfolding ATOMIC_LOCK_FLAG_def bit_push_bit_iff by (auto simp: bit_1_iff)

lemma bit_63: "unat fv < 2 ^ 63 \<Longrightarrow> \<not> bit (fv :: u8) 63"
  using bit_unsigned_iff [where 'a = nat, of fv 63] by (simp add: bit_iff_odd)

lemma or_flag: "unat (fv OR ATOMIC_LOCK_FLAG) = unat fv + 2 ^ 63" if "unat fv < 2 ^ 63"
proof -
  have "fv + ATOMIC_LOCK_FLAG = fv OR ATOMIC_LOCK_FLAG"
    using bit_63 [OF that] by (intro disjunctive_add) (auto simp: bit_flag bit_and_iff)
  moreover have "unat (fv + ATOMIC_LOCK_FLAG) = (unat fv + unat ATOMIC_LOCK_FLAG) mod 2 ^ 64"
    by (simp add: unat_word_ariths(1))
  moreover have "unat ATOMIC_LOCK_FLAG = 2 ^ 63" by (simp add: ATOMIC_LOCK_FLAG_def)
  ultimately show ?thesis using that by simp
qed

lemma and_flag: "unat fv < 2 ^ 63 \<Longrightarrow> fv AND ATOMIC_LOCK_FLAG = 0"
  using bit_63 [of fv] by (intro bit_word_eqI) (auto simp: bit_flag bit_and_iff)

lemma version_of_unat:
  "unat w = n + 2 ^ 63 \<Longrightarrow> n < 2 ^ 63 \<Longrightarrow> is_locked (e\<lparr>version := w\<rparr>) \<and> vnum (e\<lparr>version := w\<rparr>) = n"
  "unat w = n \<Longrightarrow> n < 2 ^ 63 \<Longrightarrow> \<not> is_locked (e\<lparr>version := w\<rparr>) \<and> vnum (e\<lparr>version := w\<rparr>) = n"
  by (auto simp: is_locked_def vnum_def mod_if)

lemma odd_word: "(w :: 'a::len word) AND 1 \<noteq> 0 \<longleftrightarrow> odd (unat w)"
  using bit_unsigned_iff [where 'a = nat, of w 0] by (simp add: bit_0 and_one_eq mod_2_eq_odd)

lemma version_update [simp]:
  "is_locked (e\<lparr>key1 := a\<rparr>) = is_locked e" "vnum (e\<lparr>key1 := a\<rparr>) = vnum e"
  "is_locked (e\<lparr>key2 := a\<rparr>) = is_locked e" "vnum (e\<lparr>key2 := a\<rparr>) = vnum e"
  "is_locked (e\<lparr>cached := a\<rparr>) = is_locked e" "vnum (e\<lparr>cached := a\<rparr>) = vnum e"
  by (simp_all add: is_locked_def vnum_def)

lemma cache_index_less: "cache_index (2 ^ k) a b < 2 ^ k"
proof -
  have "(word_of_nat (2 ^ k) - 1 :: u4) = mask k" by (simp add: mask_eq_exp_minus_1)
  then have "cache_index (2 ^ k) a b = take_bit k (unat (drop_bit 2 (low32 a) XOR low32 b))"
    unfolding cache_index_def by (simp only: unsigned_take_bit_eq flip: take_bit_eq_mask)
  then show ?thesis by (simp only: take_bit_nat_less_exp)
qed

section \<open>The invariant\<close>

text \<open>The contents a complete update leaves: those of a query, or those of a fresh entry.\<close>

definition good_contents :: "(u8 \<times> u8) set \<Rightarrow> (u8 \<Rightarrow> u8 \<Rightarrow> u4) \<Rightarrow> AtomicCacheEntry \<Rightarrow> bool" where
  "good_contents K calc e \<longleftrightarrow> key1 e = 0 \<and> key2 e = 0 \<and> cached e = 0
     \<or> (\<exists>(a, b)\<in>K. key1 e = ucast (low32 a) \<and> key2 e = ucast (low32 b) \<and> cached e = ucast (calc a b))"

definition entry_ok :: "(u8 \<times> u8) set \<Rightarrow> (u8 \<Rightarrow> u8 \<Rightarrow> u4) \<Rightarrow> AtomicCacheEntry \<Rightarrow> bool" where
  "entry_ok K calc e \<longleftrightarrow> vnum e \<le> 2 ^ 32 \<and> (\<not> is_locked e \<longrightarrow> even (vnum e)) \<and> (even (vnum e) \<longrightarrow> good_contents K calc e)"

text \<open>What a lookup may return.\<close>

definition allowed :: "(u8 \<times> u8) set \<Rightarrow> (u8 \<Rightarrow> u8 \<Rightarrow> u4) \<Rightarrow> u8 \<Rightarrow> u8 \<Rightarrow> u4 \<Rightarrow> bool" where
  "allowed K calc a b v \<longleftrightarrow> low32 a = 0 \<and> low32 b = 0 \<and> v = 0
     \<or> (\<exists>(a', b')\<in>K. low32 a' = low32 a \<and> low32 b' = low32 b \<and> v = calc a' b')"

text \<open>The version a reader has seen, if still current, vouches for what it has read since.\<close>

definition seen :: "AtomicCacheEntry \<Rightarrow> u4 \<Rightarrow> bool \<Rightarrow> bool" where
  "seen e fv facts \<longleftrightarrow> unat fv \<le> vnum e \<and> (even (unat fv) \<and> vnum e = unat fv \<longrightarrow> facts)"

text \<open>A writer between the two compare-and-swaps, \<open>d\<close> increments after the first.\<close>

definition owning :: "AtomicCacheEntry \<Rightarrow> u8 \<Rightarrow> nat \<Rightarrow> bool" where
  "owning e fv d \<longleftrightarrow> is_locked e \<and> vnum e = unat fv + d \<and> even (unat fv) \<and> unat fv < 2 ^ 32"

definition pc_ok :: "(u8 \<times> u8) set \<Rightarrow> (u8 \<Rightarrow> u8 \<Rightarrow> u4) \<Rightarrow> AtomicCacheEntry \<Rightarrow> lookup_pc \<Rightarrow> bool" where
  "pc_ok K calc e pc = (case pc of
     Idle \<Rightarrow> True
   | ReadVersion a b \<Rightarrow> (a, b) \<in> K
   | ReadKey1 a b fv \<Rightarrow> (a, b) \<in> K \<and> seen e fv True
   | ReadKey2 a b fv \<Rightarrow> (a, b) \<in> K \<and> seen e fv (key1 e = ucast (low32 a))
   | ReadValue a b fv \<Rightarrow> (a, b) \<in> K \<and> seen e fv (key1 e = ucast (low32 a) \<and> key2 e = ucast (low32 b))
   | CheckVersion a b fv v \<Rightarrow> (a, b) \<in> K
       \<and> seen e fv (key1 e = ucast (low32 a) \<and> key2 e = ucast (low32 b) \<and> low32 (cached e) = v)
   | Recompute a b \<Rightarrow> (a, b) \<in> K
   | Compute a b fv \<Rightarrow> (a, b) \<in> K
   | TryLock a b v fv \<Rightarrow> (a, b) \<in> K \<and> v = calc a b \<and> unat fv < 2 ^ 32
   | CheckEven a b v fv \<Rightarrow> (a, b) \<in> K \<and> v = calc a b \<and> owning e fv 0
   | Load1 a b v fv \<Rightarrow> (a, b) \<in> K \<and> v = calc a b \<and> owning e fv 0
   | Store1 a b v fv w \<Rightarrow> (a, b) \<in> K \<and> v = calc a b \<and> owning e fv 0 \<and> w = version e
   | WriteKey1 a b v fv \<Rightarrow> (a, b) \<in> K \<and> v = calc a b \<and> owning e fv 1
   | WriteKey2 a b v fv \<Rightarrow> (a, b) \<in> K \<and> v = calc a b \<and> owning e fv 1 \<and> key1 e = ucast (low32 a)
   | WriteValue a b v fv \<Rightarrow> (a, b) \<in> K \<and> v = calc a b \<and> owning e fv 1
       \<and> key1 e = ucast (low32 a) \<and> key2 e = ucast (low32 b)
   | Load2 a b v fv \<Rightarrow> (a, b) \<in> K \<and> v = calc a b \<and> owning e fv 1
       \<and> key1 e = ucast (low32 a) \<and> key2 e = ucast (low32 b) \<and> cached e = ucast v
   | Store2 a b v fv w \<Rightarrow> (a, b) \<in> K \<and> v = calc a b \<and> owning e fv 1 \<and> w = version e
       \<and> key1 e = ucast (low32 a) \<and> key2 e = ucast (low32 b) \<and> cached e = ucast v
   | Unlock a b v fv \<Rightarrow> (a, b) \<in> K \<and> v = calc a b \<and> owning e fv 2
   | Done a b v \<Rightarrow> (a, b) \<in> K \<and> allowed K calc a b v
   | Aborted \<Rightarrow> False)"

definition owns :: "lookup_pc \<Rightarrow> bool" where
  "owns pc \<longleftrightarrow> (case pc of CheckEven _ _ _ _ \<Rightarrow> True | Load1 _ _ _ _ \<Rightarrow> True | Store1 _ _ _ _ _ \<Rightarrow> True
     | WriteKey1 _ _ _ _ \<Rightarrow> True | WriteKey2 _ _ _ _ \<Rightarrow> True | WriteValue _ _ _ _ \<Rightarrow> True
     | Load2 _ _ _ _ \<Rightarrow> True | Store2 _ _ _ _ _ \<Rightarrow> True | Unlock _ _ _ _ \<Rightarrow> True | _ \<Rightarrow> False)"

text \<open>How any step changes an entry: the number never decreases, and contents change at odd numbers only.\<close>

definition entry_change :: "AtomicCacheEntry \<Rightarrow> AtomicCacheEntry \<Rightarrow> bool" where
  "entry_change e e' \<longleftrightarrow> vnum e \<le> vnum e'
     \<and> (even (vnum e) \<and> vnum e = vnum e' \<longrightarrow> key1 e' = key1 e \<and> key2 e' = key2 e \<and> cached e' = cached e)"

lemma entry_change_refl [simp]: "entry_change e e"
  by (simp add: entry_change_def)

lemma seen_stable: "seen e fv facts \<Longrightarrow> entry_change e e' \<Longrightarrow> (key1 e' = key1 e \<Longrightarrow> key2 e' = key2 e
    \<Longrightarrow> cached e' = cached e \<Longrightarrow> facts \<Longrightarrow> facts') \<Longrightarrow> seen e' fv facts'"
  by (auto simp: seen_def entry_change_def)

lemma reader_stable:
  "pc_ok K calc e pc \<Longrightarrow> \<not> owns pc \<Longrightarrow> entry_change e e' \<Longrightarrow> pc_ok K calc e' pc"
  by (cases pc) (auto simp: pc_ok_def owns_def elim: seen_stable)

lemma inc_version:
  assumes "owning e fv d" and "d \<le> 2"
  shows "owning (e\<lparr>version := version e + 1\<rparr>) fv (Suc d)"
proof -
  have "unat (version e) = 2 ^ 63 + (unat fv + d)" using assms(1) by (simp add: owning_def unat_version)
  moreover have "unat (version e + 1) = (unat (version e) + 1) mod 2 ^ 64" by (simp add: unat_word_ariths(1))
  ultimately have "unat (version e + 1) = (unat fv + Suc d) + 2 ^ 63" using assms by (simp add: owning_def)
  then show ?thesis
    using version_of_unat(1) [of "version e + 1" "unat fv + Suc d" e] assms by (simp add: owning_def)
qed

lemmas pc_simps = pc_ok_def owns_def

lemma seen_now: "seen e (low32 (version e)) True"
proof -
  have "unat (version e) mod 2 ^ 32 = vnum e mod 2 ^ 32"
    by (simp add: unat_version mod_add_left_eq [symmetric, of "9223372036854775808 :: nat"])
  then show ?thesis by (simp add: seen_def unat_low32)
qed

lemma unat_u4_less [simp]: "unat (w :: u4) < 4294967296"
  using unsigned_less [where 'a = nat, of w] by simp

lemma ucast_low32_eq: "(ucast (low32 a) :: u8) = ucast (low32 b) \<longleftrightarrow> low32 a = low32 b"
  by (metis ucast_up_down)

lemma version_small:
  assumes "unat (version e) < 2 ^ 63"
  shows "\<not> is_locked e" and "vnum e = unat (version e)"
  using assms by (simp_all add: is_locked_def vnum_def)

lemma good_allowed:
  assumes "good_contents K calc e" and "key1 e = ucast (low32 a)" and "key2 e = ucast (low32 b)"
  shows "allowed K calc a b (low32 (cached e))"
proof -
  have z: "(ucast (low32 p) :: u8) = 0 \<longleftrightarrow> low32 p = 0" for p
    using ucast_low32_eq [of p 0] by (simp add: low32_def)
  have l: "low32 (ucast w) = w" for w by (simp add: low32_def)
  show ?thesis
    using assms by (auto simp: good_contents_def allowed_def ucast_low32_eq z l) (simp add: low32_def)
qed

lemma allowed_self: "(a, b) \<in> K \<Longrightarrow> allowed K calc a b (calc a b)"
  by (auto simp: allowed_def)

lemma check_version_ok:
  assumes "entry_ok K calc e" and "pc_ok K calc e (CheckVersion a b fv v)"
    and "fv AND 1 = 0" and "ucast fv = version e"
  shows "allowed K calc a b v"
proof -
  have fv: "unat fv < 2 ^ 32" using unsigned_less [where 'a = nat, of fv] by simp
  have "unat (version e) = unat fv" using assms(4) [symmetric] by (simp add: unat_ucast_up)
  moreover have "unat fv < 2 ^ 63" by (rule less_trans [OF fv]) simp
  ultimately have "vnum e = unat fv" using version_small(2) [of e] by metis
  moreover have "even (unat fv)" using assms(3) odd_word [of fv] by blast
  ultimately show ?thesis
    using assms(1,2) good_allowed [of K calc e a b] by (auto simp: entry_ok_def pc_ok_def seen_def)
qed

lemma try_lock_ok:
  assumes "entry_ok K calc e" and "unat fv < 2 ^ 32" and "version e = fv"
  shows "\<not> is_locked e \<and> owning (e\<lparr>version := fv OR ATOMIC_LOCK_FLAG\<rparr>) fv 0 \<and> vnum e = unat fv"
proof -
  have *: "\<not> is_locked e" "vnum e = unat fv" using version_small [of e] assms(2,3) by simp_all
  then have "even (unat fv)" using assms(1) by (simp add: entry_ok_def)
  then show ?thesis
    using * or_flag [of fv] version_of_unat(1) [of "fv OR ATOMIC_LOCK_FLAG" "unat fv" e] assms(2)
    by (simp add: owning_def)
qed

lemma unlock_ok:
  assumes "owning e fv 2"
  shows "version e = (fv + 2) OR ATOMIC_LOCK_FLAG"
    and "\<not> is_locked (e\<lparr>version := fv + 2\<rparr>)" and "vnum (e\<lparr>version := fv + 2\<rparr>) = vnum e"
proof -
  have fv: "unat fv < 2 ^ 32" "vnum e = unat fv + 2" "is_locked e" using assms by (simp_all add: owning_def)
  have 2: "unat (fv + 2) = unat fv + 2" using fv(1) by (simp add: unat_word_ariths(1))
  then have "unat ((fv + 2) OR ATOMIC_LOCK_FLAG) = unat (version e)"
    using or_flag [of "fv + 2"] fv by (simp add: unat_version)
  then show "version e = (fv + 2) OR ATOMIC_LOCK_FLAG" by (metis word_unat_eq_iff)
  show "\<not> is_locked (e\<lparr>version := fv + 2\<rparr>)" "vnum (e\<lparr>version := fv + 2\<rparr>) = vnum e"
    using version_of_unat(2) [OF 2, of e] fv by simp_all
qed

text \<open>One step of a thread that is where it should be.\<close>

definition step_ok :: "(u8 \<times> u8) set \<Rightarrow> (u8 \<Rightarrow> u8 \<Rightarrow> u4) \<Rightarrow> AtomicCacheEntry \<Rightarrow> lookup_pc \<Rightarrow> AtomicCacheEntry \<Rightarrow> lookup_pc \<Rightarrow> bool" where
  "step_ok K calc e pc e' pc' \<longleftrightarrow> entry_ok K calc e' \<and> pc_ok K calc e' pc' \<and> entry_change e e'
    \<and> (if owns pc then owns pc' = is_locked e'
       else e' = e \<and> \<not> owns pc' \<or> \<not> is_locked e \<and> is_locked e' \<and> owns pc')"

lemma reader_step_ok:
  assumes "entry_ok K calc e" and "pc_ok K calc e pc" and "thread_step calc e pc = Some (e, pc')"
    and "\<not> owns pc" and "\<not> owns pc'" and "pc_ok K calc e pc'"
  shows "step_ok K calc e pc e pc'"
  using assms by (simp add: step_ok_def)

lemma thread_step_ok:
  assumes "entry_ok K calc e" and "pc_ok K calc e pc" and "thread_step calc e pc = Some (e', pc')"
  shows "step_ok K calc e pc e' pc'"
proof (cases pc)
  case (ReadVersion a b)
  then show ?thesis using assms seen_now by (auto simp: step_ok_def pc_simps)
next
  case (CheckVersion a b fv v)
  then show ?thesis using assms check_version_ok [OF assms(1), of a b fv v]
    by (auto simp: step_ok_def pc_simps split: if_splits)
next
  case (TryLock a b v fv)
  then have fv: "unat fv < 2 ^ 32" "(a, b) \<in> K" "v = calc a b" using assms(2) by (simp_all add: pc_ok_def)
  show ?thesis
  proof (cases "version e = fv")
    case True
    have "good_contents K calc e" using assms(1) try_lock_ok [OF assms(1) fv(1) True] by (simp add: entry_ok_def)
    then show ?thesis
      using TryLock assms fv True and_flag [of fv] try_lock_ok [OF assms(1) fv(1) True]
      by (auto simp: android_quasiatomic_cmpxchg_64_def step_ok_def pc_simps owning_def entry_ok_def entry_change_def
          good_contents_def)
  next
    case False
    then show ?thesis
      using TryLock assms fv allowed_self [OF fv(2), of calc]
      by (auto simp: android_quasiatomic_cmpxchg_64_def step_ok_def pc_simps split: if_splits)
  qed
next
  case (Store1 a b v fv w)
  then show ?thesis using assms inc_version [of e fv 0]
    by (auto simp: step_ok_def pc_simps owning_def entry_ok_def entry_change_def)
next
  case (Store2 a b v fv w)
  then have "(a, b) \<in> K" "v = calc a b" "key1 e = ucast (low32 a)" "key2 e = ucast (low32 b)" "cached e = ucast v"
    and o: "owning e fv 1" "w = version e" using assms(2) by (simp_all add: pc_ok_def)
  then have "good_contents K calc (e\<lparr>version := version e + 1\<rparr>)" by (auto simp: good_contents_def)
  moreover have "unat fv + 2 \<le> 2 ^ 32" using o(1) by (auto simp: owning_def elim: evenE)
  ultimately show ?thesis using assms Store2 o inc_version [of e fv 1]
    by (auto simp: step_ok_def pc_simps owning_def entry_ok_def entry_change_def)
next
  case (Unlock a b v fv)
  then have o: "owning e fv 2" "(a, b) \<in> K" "v = calc a b" using assms(2) by (simp_all add: pc_ok_def)
  have "good_contents K calc e" using assms(1) o(1) by (simp add: entry_ok_def owning_def)
  then show ?thesis
    using assms Unlock unlock_ok [OF o(1)] o allowed_self [OF o(2), of calc]
    by (auto simp: android_quasiatomic_cmpxchg_64_def step_ok_def pc_simps owning_def entry_ok_def entry_change_def
        good_contents_def)
qed (use assms odd_word allowed_self in \<open>auto simp: step_ok_def pc_simps owning_def entry_ok_def entry_change_def seen_def
      unat_ucast_up split: if_splits\<close>)

text \<open>The invariant of the whole cache: each lock flag is held by exactly one thread that works on the entry.\<close>

definition working_on :: "cache_state \<Rightarrow> nat \<Rightarrow> nat \<Rightarrow> bool" where
  "working_on s t i \<longleftrightarrow> (\<exists>a b. pc_keys (pcs s t) = Some (a, b) \<and> cache_index (length (entries s)) a b = i)"

definition cache_inv :: "(u8 \<times> u8) set \<Rightarrow> (u8 \<Rightarrow> u8 \<Rightarrow> u4) \<Rightarrow> nat \<Rightarrow> cache_state \<Rightarrow> bool" where
  "cache_inv K calc k s \<longleftrightarrow> length (entries s) = 2 ^ k
     \<and> (\<forall>i<2 ^ k. entry_ok K calc (entries s ! i))
     \<and> (\<forall>t. pc_keys (pcs s t) = None \<longrightarrow> pcs s t = Idle)
     \<and> (\<forall>t i. working_on s t i \<longrightarrow> pc_ok K calc (entries s ! i) (pcs s t))
     \<and> (\<forall>t i. working_on s t i \<and> owns (pcs s t) \<longrightarrow> is_locked (entries s ! i))
     \<and> (\<forall>t t' i. working_on s t i \<and> owns (pcs s t) \<and> working_on s t' i \<and> owns (pcs s t') \<longrightarrow> t = t')"

lemma owns_keys: "owns pc \<Longrightarrow> pc_keys pc \<noteq> None"
  by (cases pc) (auto simp: owns_def)

lemma step_keys: "thread_step calc e pc = Some (e', pc') \<Longrightarrow> pc' \<noteq> Aborted \<Longrightarrow> pc_keys pc' = pc_keys pc"
  by (cases pc) (auto simp: Let_def split: if_splits prod.splits)

lemma cache_inv_initial: "cache_inv K calc k \<lparr>entries = replicate (2 ^ k) zero_cache_entry, pcs = \<lambda>_. Idle\<rparr>"
  by (auto simp: cache_inv_def working_on_def entry_ok_def good_contents_def zero_cache_entry_def vnum_def)

lemma cache_inv_update:
  assumes inv: "cache_inv K calc k s" and keys: "pc_keys pc = Some (a, b)" and i: "i = cache_index (2 ^ k) a b"
    and ok: "entry_ok K calc e" "pc_ok K calc e pc" "owns pc \<longrightarrow> is_locked e"
    and others: "\<And>u. u \<noteq> t \<Longrightarrow> working_on s u i
      \<Longrightarrow> pc_ok K calc e (pcs s u) \<and> (owns (pcs s u) \<longrightarrow> is_locked e \<and> \<not> owns pc)"
  shows "cache_inv K calc k (s\<lparr>entries := (entries s)[i := e], pcs := (pcs s)(t := pc)\<rparr>)" (is "cache_inv K calc k ?s")
proof -
  have len: "length (entries s) = 2 ^ k" and il: "i < 2 ^ k"
    using inv i cache_index_less by (simp_all add: cache_inv_def)
  have wt: "working_on ?s t j \<longleftrightarrow> j = i" for j using keys i len by (auto simp: working_on_def)
  have wo: "working_on ?s u j \<longleftrightarrow> working_on s u j" if "u \<noteq> t" for u j using that by (simp add: working_on_def)
  have e: "entries ?s ! j = (if j = i then e else entries s ! j)" if "j < 2 ^ k" for j using that len by simp
  have wl: "working_on s u j \<Longrightarrow> j < 2 ^ k" for u j using len cache_index_less by (auto simp: working_on_def)
  have keep: "working_on s u j \<Longrightarrow> pc_ok K calc (entries s ! j) (pcs s u) \<and> (owns (pcs s u) \<longrightarrow> is_locked (entries s ! j))" for u j
    using inv by (simp add: cache_inv_def)
  have local: "pc_ok K calc (entries ?s ! j) (pcs ?s u) \<and> (owns (pcs ?s u) \<longrightarrow> is_locked (entries ?s ! j))"
    if w: "working_on ?s u j" for u j
  proof (cases "u = t")
    case True
    then show ?thesis using w wt il ok(2,3) len by simp
  next
    case False
    then have "working_on s u j" using w wo by blast
    then show ?thesis using False others [OF False] keep [of u j] e [OF wl] by auto
  qed
  have alone: "u = u'" if "working_on ?s u j" "owns (pcs ?s u)" "working_on ?s u' j" "owns (pcs ?s u')" for u u' j
  proof (cases "u = t \<or> u' = t")
    case True
    then show ?thesis using that wt wo others [of u] others [of u'] by (auto split: if_splits)
  next
    case False
    then have "working_on s u j" "owns (pcs s u)" "working_on s u' j" "owns (pcs s u')"
      using that wo by auto
    then show ?thesis using inv unfolding cache_inv_def by blast
  qed
  have "\<forall>j<2 ^ k. entry_ok K calc (entries ?s ! j)" using inv ok(1) len il by (auto simp: cache_inv_def nth_list_update)
  moreover have "\<forall>u. pc_keys (pcs ?s u) = None \<longrightarrow> pcs ?s u = Idle" using inv keys by (auto simp: cache_inv_def)
  moreover have "length (entries ?s) = 2 ^ k" using len by simp
  ultimately show ?thesis using local alone unfolding cache_inv_def by blast
qed

lemma cache_inv_start:
  assumes inv: "cache_inv K calc k s" and "at_rest (pcs s t)" and "(a, b) \<in> K"
  shows "cache_inv K calc k (s\<lparr>pcs := (pcs s)(t := ReadVersion a b)\<rparr>)"
proof -
  let ?i = "cache_index (2 ^ k) a b"
  have "cache_inv K calc k (s\<lparr>entries := (entries s)[?i := entries s ! ?i], pcs := (pcs s)(t := ReadVersion a b)\<rparr>)"
    using assms cache_index_less [of k a b]
    by (intro cache_inv_update [OF inv]) (auto simp: cache_inv_def pc_simps)
  then show ?thesis by simp
qed

lemma cache_inv_advance:
  assumes inv: "cache_inv K calc k s" and keys: "pc_keys (pcs s t) = Some (a, b)"
    and i: "i = cache_index (length (entries s)) a b"
    and step: "thread_step calc (entries s ! i) (pcs s t) = Some (e, pc)"
  shows "cache_inv K calc k (s\<lparr>entries := (entries s)[i := e], pcs := (pcs s)(t := pc)\<rparr>)"
proof -
  have len: "length (entries s) = 2 ^ k" and il: "i < 2 ^ k"
    using inv i cache_index_less by (simp_all add: cache_inv_def)
  have w: "working_on s t i" using keys i by (simp add: working_on_def)
  then have "pc_ok K calc (entries s ! i) (pcs s t)" "entry_ok K calc (entries s ! i)"
    using inv il by (simp_all add: cache_inv_def)
  then have ok: "step_ok K calc (entries s ! i) (pcs s t) e pc" using step thread_step_ok by blast
  then have "pc \<noteq> Aborted" by (auto simp: step_ok_def pc_ok_def)
  then have keys': "pc_keys pc = Some (a, b)" using step_keys [OF step] keys by simp
  show ?thesis
  proof (rule cache_inv_update [OF inv keys'])
    show "i = cache_index (2 ^ k) a b" using i len by simp
    show "entry_ok K calc e" "pc_ok K calc e pc" "owns pc \<longrightarrow> is_locked e"
      using ok by (auto simp: step_ok_def split: if_splits)
    fix u assume u: "u \<noteq> t" "working_on s u i"
    then have pu: "pc_ok K calc (entries s ! i) (pcs s u)" using inv by (simp add: cache_inv_def)
    show "pc_ok K calc e (pcs s u) \<and> (owns (pcs s u) \<longrightarrow> is_locked e \<and> \<not> owns pc)"
    proof (cases "owns (pcs s u)")
      case True
      then have "\<not> owns (pcs s t)" "is_locked (entries s ! i)"
        using inv u w unfolding cache_inv_def by blast+
      then show ?thesis using pu ok by (auto simp: step_ok_def)
    next
      case False
      then show ?thesis using pu ok reader_stable by (auto simp: step_ok_def)
    qed
  qed
qed

lemma reachable_inv: "cache_reachable K calc k s \<Longrightarrow> cache_inv K calc k s"
  by (induction rule: cache_reachable.induct)
    (auto elim!: cache_step.cases intro: cache_inv_start cache_inv_advance cache_inv_initial)

section \<open>Progress\<close>

text \<open>The number of steps a lookup has left, at most.\<close>

definition rank :: "lookup_pc \<Rightarrow> nat" where
  "rank pc = (case pc of Idle \<Rightarrow> 0 | Done _ _ _ \<Rightarrow> 0 | Aborted \<Rightarrow> 0
     | Unlock _ _ _ _ \<Rightarrow> 1 | Store2 _ _ _ _ _ \<Rightarrow> 2 | Load2 _ _ _ _ \<Rightarrow> 3 | WriteValue _ _ _ _ \<Rightarrow> 4
     | WriteKey2 _ _ _ _ \<Rightarrow> 5 | WriteKey1 _ _ _ _ \<Rightarrow> 6 | Store1 _ _ _ _ _ \<Rightarrow> 7 | Load1 _ _ _ _ \<Rightarrow> 8
     | CheckEven _ _ _ _ \<Rightarrow> 9 | TryLock _ _ _ _ \<Rightarrow> 10 | Compute _ _ _ \<Rightarrow> 11 | Recompute _ _ \<Rightarrow> 1
     | CheckVersion _ _ _ _ \<Rightarrow> 2 | ReadValue _ _ _ \<Rightarrow> 3 | ReadKey2 _ _ _ \<Rightarrow> 12 | ReadKey1 _ _ _ \<Rightarrow> 13
     | ReadVersion _ _ \<Rightarrow> 14)"

lemma rank_decreases: "thread_step calc e pc = Some (e', pc') \<Longrightarrow> rank pc' < rank pc"
  by (cases pc) (auto simp: rank_def Let_def split: if_splits prod.splits)

lemma thread_step_enabled: "\<not> at_rest pc \<Longrightarrow> thread_step calc e pc \<noteq> None"
  by (cases pc) (auto simp: at_rest_def Let_def split: prod.splits)

lemma at_rest_stuck: "at_rest pc \<Longrightarrow> thread_step calc e pc = None"
  by (cases pc) (auto simp: at_rest_def)

lemma rank_0: "rank pc = 0 \<longleftrightarrow> at_rest pc"
  by (cases pc) (auto simp: rank_def at_rest_def)

inductive_cases cache_stepE: "cache_step K calc t s s'"

inductive cache_run :: "(u8 \<times> u8) set \<Rightarrow> (u8 \<Rightarrow> u8 \<Rightarrow> u4) \<Rightarrow> nat list \<Rightarrow> cache_state \<Rightarrow> cache_state \<Rightarrow> bool"
  for K calc where
  run_nil: "cache_run K calc [] s s"
| run_cons: "cache_step K calc t s s1 \<Longrightarrow> cache_run K calc ts s1 s2 \<Longrightarrow> cache_run K calc (t # ts) s s2"

lemma own_step:
  assumes "cache_step K calc t s s'" and "\<not> at_rest (pcs s t)" and "pcs s' t \<noteq> Aborted"
  shows "rank (pcs s' t) < rank (pcs s t) \<and> pc_keys (pcs s' t) = pc_keys (pcs s t)"
  using assms by (auto elim!: cache_stepE simp: rank_decreases step_keys)

lemma other_step: "cache_step K calc u s s' \<Longrightarrow> u \<noteq> t \<Longrightarrow> pcs s' t = pcs s t"
  by (auto elim: cache_stepE)

lemma inv_step: "cache_inv K calc k s \<Longrightarrow> cache_step K calc t s s' \<Longrightarrow> cache_inv K calc k s'"
  by (auto elim!: cache_stepE intro: cache_inv_start cache_inv_advance)

lemma inv_not_aborted: "cache_inv K calc k s \<Longrightarrow> pcs s t \<noteq> Aborted"
  unfolding cache_inv_def by (metis lookup_pc.distinct(37) pc_keys.simps(2))

lemma run_completes:
  assumes "cache_run K calc ts s s'" and "cache_inv K calc k s" and "pc_keys (pcs s t) = Some (a, b)"
    and "rank (pcs s t) \<le> count_list ts t"
  shows "\<exists>n\<le>length ts. \<exists>s1 v. cache_run K calc (take n ts) s s1 \<and> pcs s1 t = Done a b v"
  using assms
proof (induction arbitrary: rule: cache_run.induct)
  case (run_nil s)
  then have "at_rest (pcs s t)" by (simp flip: rank_0)
  then obtain v where "pcs s t = Done a b v" using run_nil(2) by (cases "pcs s t") (auto simp: at_rest_def)
  then show ?case by (auto intro: cache_run.run_nil)
next
  case (run_cons u s s1 ts s2)
  show ?case
  proof (cases "at_rest (pcs s t)")
    case True
    then obtain v where "pcs s t = Done a b v" using run_cons.prems(2) by (cases "pcs s t") (auto simp: at_rest_def)
    then show ?thesis by (intro exI [of _ 0]) (auto intro: cache_run.run_nil)
  next
    case False
    have inv1: "cache_inv K calc k s1" using inv_step run_cons by blast
    have "pc_keys (pcs s1 t) = Some (a, b) \<and> rank (pcs s1 t) \<le> count_list ts t"
    proof (cases "u = t")
      case True
      then show ?thesis using own_step [of K calc t s s1] run_cons False inv_not_aborted [OF inv1] by fastforce
    next
      case False': False
      then show ?thesis using other_step run_cons by fastforce
    qed
    then obtain n s' v where "n \<le> length ts" "cache_run K calc (take n ts) s1 s'" "pcs s' t = Done a b v"
      using run_cons.IH [OF inv1] by blast
    then show ?thesis using run_cons.hyps(1)
      by (intro exI [of _ "Suc n"]) (auto intro: cache_run.run_cons)
  qed
qed

section \<open>A thread on its own\<close>

text \<open>Between lookups every entry is unlocked, has an even version and complete contents.\<close>

definition coherent :: "nat \<Rightarrow> (u8 \<times> u8) set \<Rightarrow> (u8 \<Rightarrow> u8 \<Rightarrow> u4) \<Rightarrow> AtomicCacheEntry list \<Rightarrow> bool" where
  "coherent k K calc cache \<longleftrightarrow> length cache = 2 ^ k \<and> (\<forall>e\<in>set cache. entry_ok K calc e \<and> \<not> is_locked e)"

lemma coherent_fresh: "dvmAllocAtomicCache True (2 ^ k) = Some cache \<Longrightarrow> coherent k K calc cache"
  by (auto simp: dvmAllocAtomicCache_def coherent_def entry_ok_def good_contents_def zero_cache_entry_def vnum_def
      is_locked_def nat_power_eq)

lemma update_coherent:
  assumes "entry_ok K calc e" and "\<not> is_locked e" and "(a, b) \<in> K"
  shows "\<exists>e'. dvmUpdateAtomicCache (ucast (low32 a)) (ucast (low32 b)) (ucast (calc a b)) e (ucast (fv :: u4)) = Ret e'
           \<and> entry_ok K calc e' \<and> \<not> is_locked e'"
proof -
  let ?fv = "ucast fv :: u8"
  have fv: "unat ?fv < 2 ^ 32" by (simp add: unat_ucast_up)
  have nf: "?fv AND ATOMIC_LOCK_FLAG = 0" by (rule and_flag) (rule less_trans [OF fv], simp)
  show ?thesis
  proof (cases "version e = ?fv")
    case False
    then show ?thesis using assms by (simp add: dvmUpdateAtomicCache_def android_quasiatomic_cmpxchg_64_def nf)
  next
    case True
    define e1 where "e1 = e\<lparr>version := ?fv OR ATOMIC_LOCK_FLAG\<rparr>"
    define e2 where "e2 = e1\<lparr>version := version e1 + 1\<rparr>"
    define e3 where "e3 = e2\<lparr>key1 := ucast (low32 a), key2 := ucast (low32 b), cached := ucast (calc a b)\<rparr>"
    define e4 where "e4 = e3\<lparr>version := version e3 + 1\<rparr>"
    have o1: "owning e1 ?fv 0" using try_lock_ok [OF assms(1) fv True] by (simp add: e1_def)
    then have even: "?fv AND 1 = 0" using odd_word [of ?fv] by (auto simp: owning_def)
    have "owning e2 ?fv 1" using inc_version [OF o1] by (simp add: e2_def)
    then have o3: "owning e3 ?fv 1" by (simp add: e3_def owning_def)
    then have o4: "owning e4 ?fv 2" using inc_version [OF o3] by (simp add: e4_def numeral_2_eq_2)
    have "good_contents K calc (e4\<lparr>version := ?fv + 2\<rparr>)"
      using assms(3) by (auto simp: good_contents_def e4_def e3_def)
    moreover have "vnum e4 \<le> 2 ^ 32" "even (vnum e4)" using o4 by (auto simp: owning_def elim: evenE)
    ultimately have "entry_ok K calc (e4\<lparr>version := ?fv + 2\<rparr>)" "\<not> is_locked (e4\<lparr>version := ?fv + 2\<rparr>)"
      using unlock_ok [OF o4] by (simp_all add: entry_ok_def)
    moreover have "dvmUpdateAtomicCache (ucast (low32 a)) (ucast (low32 b)) (ucast (calc a b)) e ?fv
        = Ret (e4\<lparr>version := ?fv + 2\<rparr>)"
      using True even nf unlock_ok(1) [OF o4]
      by (simp add: dvmUpdateAtomicCache_def android_quasiatomic_cmpxchg_64_def e4_def e3_def e2_def e1_def Let_def)
    ultimately show ?thesis by blast
  qed
qed

lemma lookup_coherent:
  assumes "coherent k K calc cache" and "(a, b) \<in> K"
    and run: "\<exists>c'. prog cache = Some (Ret (calc a b, c')) \<and> coherent k K calc c'"
  shows "\<exists>v c'. ATOMIC_CACHE_LOOKUP prog cache a b = Some (Ret (v, c')) \<and> coherent k K calc c'
           \<and> allowed K calc a b v"
proof -
  obtain c' where c': "prog cache = Some (Ret (calc a b, c'))" "coherent k K calc c'" and len: "length c' = length cache"
    using run assms(1) by (auto simp: coherent_def)
  define i where "i = cache_index (length cache) a b"
  have il: "i < length cache" using assms(1) cache_index_less by (auto simp: coherent_def i_def)
  have e: "entry_ok K calc (cache ! i)" "\<not> is_locked (cache ! i)" using assms(1) il by (auto simp: coherent_def)
  have e': "entry_ok K calc (c' ! i)" "\<not> is_locked (c' ! i)" using c'(2) len il by (auto simp: coherent_def)
  show ?thesis
  proof (cases "key1 (cache ! i) = ucast (low32 a) \<and> key2 (cache ! i) = ucast (low32 b)")
    case True
    have "good_contents K calc (cache ! i)" using e by (simp add: entry_ok_def)
    then have "allowed K calc a b (low32 (cached (cache ! i)))" using good_allowed True by blast
    then show ?thesis
      using True il assms(1) c' allowed_self [OF assms(2)] i_def
      by (auto simp: ATOMIC_CACHE_LOOKUP_def Let_def simp del: bind_out_eq_Ret)
  next
    case False
    obtain e1 where e1: "dvmUpdateAtomicCache (ucast (low32 a)) (ucast (low32 b)) (ucast (calc a b)) (c' ! i)
        (ucast (low32 (version (cache ! i)))) = Ret e1" "entry_ok K calc e1" "\<not> is_locked e1"
      using update_coherent [OF e' assms(2)] by blast
    have "coherent k K calc (c'[i := e1])" using c'(2) e1 by (auto simp: coherent_def dest: set_update_subset_insert [THEN subsetD])
    moreover have "ATOMIC_CACHE_LOOKUP prog cache a b = Some (Ret (calc a b, c'[i := e1]))"
      unfolding ATOMIC_CACHE_LOOKUP_def Let_def i_def [symmetric]
      using il c' len e1 by (simp add: if_not_P [OF False] del: bind_out_eq_Ret)
    ultimately show ?thesis using allowed_self [OF assms(2)] by auto
  qed
qed

section \<open>The cache as an interface\<close>

text \<open>
  What a client relies on: looking up a query, with a computation that would produce its value,
  produces its value. The client lemma is for computations that look up smaller queries themselves.
\<close>

locale memo_cache =
  fixes lookup :: "('c \<Rightarrow> (u4 \<times> 'c) outcome option) \<Rightarrow> 'c \<Rightarrow> u8 \<Rightarrow> u8 \<Rightarrow> (u4 \<times> 'c) outcome option"
    and holds :: "(u8 \<Rightarrow> u8 \<Rightarrow> u4) \<Rightarrow> 'c \<Rightarrow> bool" and query :: "u8 \<Rightarrow> u8 \<Rightarrow> bool"
  assumes lookup_value: "holds calc c \<Longrightarrow> query a b
    \<Longrightarrow> \<exists>c'. prog c = Some (Ret (calc a b, c')) \<and> holds calc c'
    \<Longrightarrow> \<exists>c'. lookup prog c a b = Some (Ret (calc a b, c')) \<and> holds calc c'"
begin

lemma memo_rec:
  assumes unfold: "\<And>n a b c. inst (Suc n) a b c
      = (if a = b then Some (Ret (calc a b, c)) else lookup (body (inst n) a b) c a b)"
    and body: "\<And>self a b c. query a b \<Longrightarrow> a \<noteq> b \<Longrightarrow> holds calc c
      \<Longrightarrow> (\<And>a' b' c'. query a' b' \<Longrightarrow> (depth a' :: nat) < depth a \<Longrightarrow> holds calc c'
            \<Longrightarrow> \<exists>c''. self a' b' c' = Some (Ret (calc a' b', c'')) \<and> holds calc c'')
      \<Longrightarrow> \<exists>c'. body self a b c = Some (Ret (calc a b, c')) \<and> holds calc c'"
    and "query a b" and "holds calc c" and "depth a < n"
  shows "\<exists>c'. inst n a b c = Some (Ret (calc a b, c')) \<and> holds calc c'"
  using assms(3-5)
proof (induction n arbitrary: a b c)
  case (Suc n)
  show ?case
  proof (cases "a = b")
    case False
    have "\<exists>c'. body (inst n) a b c = Some (Ret (calc a b, c')) \<and> holds calc c'"
      using Suc.prems False by (intro body Suc.IH) auto
    then show ?thesis using lookup_value Suc.prems False by (simp add: unfold)
  qed (use Suc.prems in \<open>simp add: unfold\<close>)
qed simp

end

text \<open>The queries a set of addresses gives rise to, when its addresses differ in the low 32 bits.\<close>

definition distinguished :: "u8 set \<Rightarrow> (u8 \<times> u8) set" where
  "distinguished A = (if inj_on low32 A \<and> 0 \<notin> low32 ` A then A \<times> A else {})"

lemma allowed_distinguished:
  assumes "allowed (distinguished A) calc a b v" and "(a, b) \<in> distinguished A"
  shows "v = calc a b"
proof -
  have inj: "inj_on low32 A" "0 \<notin> low32 ` A" and ab: "a \<in> A" "b \<in> A" and K: "distinguished A = A \<times> A"
    using assms(2) by (auto simp: distinguished_def split: if_splits)
  then show ?thesis using assms(1) by (auto simp: allowed_def dest: inj_onD [OF inj(1)])
qed

interpretation instanceof_cache: memo_cache ATOMIC_CACHE_LOOKUP "coherent k (distinguished A)"
  "\<lambda>a b. (a, b) \<in> distinguished A" for k A
proof
  fix calc c a b prog
  assume *: "coherent k (distinguished A) calc c" "(a, b) \<in> distinguished A"
    "\<exists>c'. prog c = Some (Ret (calc a b, c')) \<and> coherent k (distinguished A) calc c'"
  then show "\<exists>c'. ATOMIC_CACHE_LOOKUP prog c a b = Some (Ret (calc a b, c')) \<and> coherent k (distinguished A) calc c'"
    using lookup_coherent [OF *(1,2), of prog] * allowed_distinguished by blast
qed

section \<open>Claims\<close>

text \<open>An execution of a single thread, for the evaluation of examples.\<close>

definition advance_thread :: "(u8 \<Rightarrow> u8 \<Rightarrow> u4) \<Rightarrow> nat \<Rightarrow> cache_state \<Rightarrow> cache_state" where
  "advance_thread calc t s = (case pc_keys (pcs s t) of
     None \<Rightarrow> s
   | Some (a, b) \<Rightarrow>
       let i = cache_index (length (entries s)) a b in
       case thread_step calc (entries s ! i) (pcs s t) of
         None \<Rightarrow> s
       | Some (e, pc) \<Rightarrow> s\<lparr>entries := (entries s)[i := e], pcs := (pcs s)(t := pc)\<rparr>)"

lemma reachable_advance: "cache_reachable K calc k s \<Longrightarrow> cache_reachable K calc k (advance_thread calc t s)"
  by (auto simp: advance_thread_def Let_def split: option.splits prod.splits
      intro: cache_reachable.step cache_step.advance)

definition example_start :: cache_state where
  "example_start = \<lparr>entries = replicate (2 ^ 2) zero_cache_entry, pcs = (\<lambda>_. Idle)(0 := ReadVersion 16 8)\<rparr>"

lemma example_start_reachable: "cache_reachable {(16, 8)} calc 2 example_start"
proof -
  let ?s = "\<lparr>entries = replicate (2 ^ 2) zero_cache_entry, pcs = \<lambda>_. Idle\<rparr>"
  have "cache_step {(16, 8)} calc 0 ?s (?s\<lparr>pcs := (pcs ?s)(0 := ReadVersion 16 8)\<rparr>)"
    by (intro cache_step.start) (auto simp: at_rest_def)
  then show ?thesis
    using cache_reachable.step [OF cache_reachable.initial] by (simp add: example_start_def)
qed

text \<open>C14 Safety of the lock-free cache under every interleaving of any number of threads: no thread
  aborts, two threads never update one entry at the same time, and when the queries made of the
  cache are told apart by the low 32 bits of their keys (and none has both equal to zero), a lookup
  that finishes returns the value of its query.\<close>

theorem cache_lookup_correct:
  assumes "cache_reachable K calc k s"
    and "\<forall>(a, b)\<in>K. \<forall>(a', b')\<in>K. low32 a = low32 a' \<and> low32 b = low32 b' \<longrightarrow> a = a' \<and> b = b'"
    and "\<forall>(a, b)\<in>K. low32 a \<noteq> 0 \<or> low32 b \<noteq> 0"
  shows "pcs s t \<noteq> Aborted
    \<and> (pcs s t = Done a b v \<longrightarrow> v = calc a b)
    \<and> (t \<noteq> u \<and> working_on s t i \<and> working_on s u i \<longrightarrow> \<not> (owns (pcs s t) \<and> owns (pcs s u)))"
proof (intro conjI impI)
  have inv: "cache_inv K calc k s" by (rule reachable_inv [OF assms(1)])
  then show "pcs s t \<noteq> Aborted" by (rule inv_not_aborted)
  show "\<not> (owns (pcs s t) \<and> owns (pcs s u))" if "t \<noteq> u \<and> working_on s t i \<and> working_on s u i"
    using inv that unfolding cache_inv_def by blast
  assume d: "pcs s t = Done a b v"
  then have "working_on s t (cache_index (length (entries s)) a b)" by (simp add: working_on_def)
  then have "(a, b) \<in> K" "allowed K calc a b v" using inv d unfolding cache_inv_def by (force simp: pc_ok_def)+
  then show "v = calc a b" using assms(2,3) by (fastforce simp: allowed_def)
qed

theorem cache_lookup_correct_witness:
  "pcs ((advance_thread (\<lambda>_ _. 1) 0 ^^ 13) example_start) 0 = Done 16 8 1"
proof -
  let ?s = "(advance_thread (\<lambda>_ _. 1) 0 ^^ 13) example_start"
  have r: "cache_reachable {(16, 8)} (\<lambda>_ _. 1) 2 ((advance_thread (\<lambda>_ _. 1) 0 ^^ n) example_start)" for n
    by (induction n) (auto intro: reachable_advance example_start_reachable)
  have n: "(13 :: nat) = Suc (Suc (Suc (Suc (Suc (Suc (Suc (Suc (Suc (Suc (Suc (Suc (Suc 0))))))))))))" by simp
  have "\<exists>v. pcs ?s 0 = Done 16 8 v"
    unfolding n funpow.simps
    by (simp add: example_start_def advance_thread_def zero_cache_entry_def cache_index_def low32_def
        ATOMIC_LOCK_FLAG_def android_quasiatomic_cmpxchg_64_def)
  then obtain v where v: "pcs ?s 0 = Done 16 8 v" by blast
  then have "v = 1"
    using cache_lookup_correct [OF r [of 13], of 0 16 8 v] by (simp add: low32_def)
  with v show ?thesis by simp
qed

text \<open>C31 No lookup waits for another thread: from any reachable state and under any schedule, a lookup
  in progress is finished at the latest when its thread has been scheduled as often as the number of
  its remaining control points, which is never more than fourteen.\<close>

theorem cache_lookup_wait_free:
  assumes "cache_reachable K calc k s" and "pc_keys (pcs s t) = Some (a, b)"
    and "cache_run K calc ts s s'" and "rank (pcs s t) \<le> count_list ts t"
  shows "rank (pcs s t) \<le> 14
    \<and> (\<exists>n\<le>length ts. \<exists>s1 v. cache_run K calc (take n ts) s s1 \<and> pcs s1 t = Done a b v)"
  using run_completes [OF assms(3) reachable_inv [OF assms(1)] assms(2,4)]
  by (simp add: rank_def split: lookup_pc.split)

theorem cache_lookup_wait_free_witness:
  "\<exists>s1 v. cache_run {(16, 8)} (\<lambda>_ _. 1) [0] ((advance_thread (\<lambda>_ _. 1) 0 ^^ 12) example_start) s1
     \<and> pcs s1 0 = Done 16 8 v"
proof -
  let ?s = "(advance_thread (\<lambda>_ _. 1) 0 ^^ 12) example_start"
  have r: "cache_reachable {(16, 8)} (\<lambda>_ _. 1) 2 ((advance_thread (\<lambda>_ _. 1) 0 ^^ n) example_start)" for n
    by (induction n) (auto intro: reachable_advance example_start_reachable)
  have n: "(12 :: nat) = Suc (Suc (Suc (Suc (Suc (Suc (Suc (Suc (Suc (Suc (Suc (Suc 0)))))))))))" by simp
  have pc: "pcs ?s 0 = Unlock 16 8 1 0"
    unfolding n funpow.simps
    by (simp add: example_start_def advance_thread_def zero_cache_entry_def cache_index_def low32_def
        ATOMIC_LOCK_FLAG_def android_quasiatomic_cmpxchg_64_def)
  obtain e pc where "thread_step (\<lambda>_ _. 1) (entries ?s ! cache_index (length (entries ?s)) 16 8) (Unlock 16 8 1 0) = Some (e, pc)"
    using thread_step_enabled [of "Unlock 16 8 1 0"] by (fastforce simp: at_rest_def)
  then obtain s' where "cache_step {(16, 8)} (\<lambda>_ _. 1) 0 ?s s'"
    using cache_step.advance [of ?s 0 16 8 _ "\<lambda>_ _. 1"] pc by fastforce
  then have run: "cache_run {(16, 8)} (\<lambda>_ _. 1) [0] ?s s'"
    by (rule cache_run.run_cons [OF _ cache_run.run_nil])
  obtain n s1 v where n: "n \<le> 1" "cache_run {(16, 8)} (\<lambda>_ _. 1) (take n [0]) ?s s1" "pcs s1 0 = Done 16 8 v"
    using cache_lookup_wait_free [OF r [of 12] _ run, of 0 16 8] pc by (auto simp: rank_def)
  have "n = 1"
  proof (rule ccontr)
    assume "n \<noteq> 1"
    then have "n = 0" using n(1) by simp
    then have "cache_run {(16, 8)} (\<lambda>_ _. 1) [] ?s s1" using n(2) by simp
    then have "s1 = ?s" by (auto elim: cache_run.cases)
    then show False using pc n(3) by simp
  qed
  then show ?thesis using n by auto
qed

end
