(* ===== verification/TypeCheck.thy ===== *)
theory TypeCheck
  imports AtomicCache
begin

text \<open>
  The run-time type checks of \<^verbatim>\<open>src/vm/oo/TypeCheck.c\<close> and \<^verbatim>\<open>src/vm/oo/TypeCheck.h\<close>: \<open>instanceof\<close> with its cache, the rules for
  arrays, interfaces and subclasses, and the check of array stores. The loaded classes are a table from
  addresses to the fields of \<open>ClassObject\<close> that the checks read. Results are the C ints 0 and 1 at the
  width of the cache; \<open>None\<close> is a computation that does not end. The specification is the
  subtype relation of the Java language, stated on type expressions.
\<close>

section \<open>Classes\<close>

datatype PrimitiveType =
    PRIM_NOT | PRIM_BOOLEAN | PRIM_CHAR | PRIM_FLOAT | PRIM_DOUBLE | PRIM_BYTE | PRIM_SHORT | PRIM_INT | PRIM_LONG | PRIM_VOID

record ClassObject =
  descriptor :: string
  accessFlags :: u4
  elementClass :: u8
  arrayDim :: int
  primitiveType :: PrimitiveType
  super :: u8
  interfaces :: "u8 list"
  iftable :: "u8 list"
  vtableCount :: int
  ifields :: "u8 list"

type_synonym class_table = "u8 \<Rightarrow> ClassObject option"
type_synonym cache = "AtomicCacheEntry list"

definition ACC_STATIC :: u4 where "ACC_STATIC = 0x8"
definition ACC_FINAL :: u4 where "ACC_FINAL = 0x10"
definition ACC_NATIVE :: u4 where "ACC_NATIVE = 0x100"
definition ACC_INTERFACE :: u4 where "ACC_INTERFACE = 0x200"
definition ACC_ABSTRACT :: u4 where "ACC_ABSTRACT = 0x400"

definition dvmIsInterfaceClass :: "ClassObject \<Rightarrow> bool" where
  "dvmIsInterfaceClass clazz \<longleftrightarrow> accessFlags clazz AND ACC_INTERFACE \<noteq> 0"

definition dvmIsArrayClass :: "ClassObject \<Rightarrow> bool" where
  "dvmIsArrayClass clazz \<longleftrightarrow> (case descriptor clazz of [] \<Rightarrow> False | c # _ \<Rightarrow> c = CHR ''['')"

text \<open>Reading the object a class pointer refers to.\<close>

definition deref :: "class_table \<Rightarrow> u8 \<Rightarrow> (ClassObject \<Rightarrow> 'a outcome option) \<Rightarrow> 'a outcome option" where
  "deref ct p f = (case ct p of None \<Rightarrow> Some OutOfBounds | Some c \<Rightarrow> f c)"

definition c_bool :: "bool \<Rightarrow> u4" where
  "c_bool b = (if b then 1 else 0)"

section \<open>The checks\<close>

partial_function (option) dvmIsSubClass :: "class_table \<Rightarrow> u8 \<Rightarrow> u8 \<Rightarrow> bool outcome option" where
  "dvmIsSubClass ct sub clazz =
     (if sub = clazz then Some (Ret True)
      else case ct sub of
        None \<Rightarrow> Some OutOfBounds
      | Some c \<Rightarrow> if super c \<noteq> 0 then dvmIsSubClass ct (super c) clazz else Some (Ret False))"

definition dvmImplements :: "class_table \<Rightarrow> u8 \<Rightarrow> u8 \<Rightarrow> bool outcome option" where
  "dvmImplements ct clazz interface =
     deref ct interface (\<lambda>i. if \<not> dvmIsInterfaceClass i then Some AbortVM
       else deref ct clazz (\<lambda>c. Some (Ret (interface \<in> set (iftable c)))))"

text \<open>A check that does not use the cache, as a computation on it.\<close>

definition uncached :: "cache \<Rightarrow> bool outcome option \<Rightarrow> (u4 \<times> cache) outcome option" where
  "uncached cache r = map_option (\<lambda>r. bind_out r (\<lambda>b. Ret (c_bool b, cache))) r"

text \<open>\<open>inst\<close> is \<open>dvmInstanceof\<close>, which the equal-dimension case calls for the element classes.\<close>

definition isArrayInstanceOfArray ::
  "class_table \<Rightarrow> (u8 \<Rightarrow> u8 \<Rightarrow> cache \<Rightarrow> (u4 \<times> cache) outcome option) \<Rightarrow> u8 \<Rightarrow> int \<Rightarrow> u8 \<Rightarrow> cache
     \<Rightarrow> (u4 \<times> cache) outcome option" where
  "isArrayInstanceOfArray ct inst subElemClass subDim clazz cache =
     deref ct clazz (\<lambda>c.
       if \<not> dvmIsArrayClass c then Some AbortVM
       else if \<not> (subDim > 0 \<and> arrayDim c > 0) then Some AbortVM
       else if subDim = arrayDim c then inst subElemClass (elementClass c) cache
       else if subDim > arrayDim c then
         deref ct (elementClass c) (\<lambda>el.
           if dvmIsInterfaceClass el then uncached cache (dvmImplements ct clazz (elementClass c))
           else Some (Ret (c_bool (elementClass c = super c), cache)))
       else Some (Ret (c_bool False, cache)))"

definition isArrayInstanceOf ::
  "class_table \<Rightarrow> (u8 \<Rightarrow> u8 \<Rightarrow> cache \<Rightarrow> (u4 \<times> cache) outcome option) \<Rightarrow> u8 \<Rightarrow> u8 \<Rightarrow> cache
     \<Rightarrow> (u4 \<times> cache) outcome option" where
  "isArrayInstanceOf ct inst sub clazz cache =
     deref ct sub (\<lambda>s. if \<not> dvmIsArrayClass s then Some AbortVM
       else deref ct clazz (\<lambda>c. if dvmIsInterfaceClass c then Some AbortVM
         else if \<not> dvmIsArrayClass c then Some (Ret (c_bool (clazz = super s), cache))
         else isArrayInstanceOfArray ct inst (elementClass s) (arrayDim s) clazz cache))"

definition isInstanceof ::
  "class_table \<Rightarrow> (u8 \<Rightarrow> u8 \<Rightarrow> cache \<Rightarrow> (u4 \<times> cache) outcome option) \<Rightarrow> u8 \<Rightarrow> u8 \<Rightarrow> cache
     \<Rightarrow> (u4 \<times> cache) outcome option" where
  "isInstanceof ct inst instance clazz cache =
     deref ct clazz (\<lambda>c.
       if dvmIsInterfaceClass c then uncached cache (dvmImplements ct instance clazz)
       else deref ct instance (\<lambda>i.
         if dvmIsArrayClass i then isArrayInstanceOf ct inst instance clazz cache
         else uncached cache (dvmIsSubClass ct instance clazz)))"

definition dvmInstanceofNonTrivial ::
  "class_table \<Rightarrow> (u8 \<Rightarrow> u8 \<Rightarrow> cache \<Rightarrow> (u4 \<times> cache) outcome option) \<Rightarrow> u8 \<Rightarrow> u8 \<Rightarrow> cache
     \<Rightarrow> (u4 \<times> cache) outcome option" where
  "dvmInstanceofNonTrivial ct inst instance clazz cache =
     ATOMIC_CACHE_LOOKUP (isInstanceof ct inst instance clazz) cache instance clazz"

text \<open>
  The first argument bounds the nesting of calls. Elements of arrays are not arrays themselves, so
  that two levels are enough on any table of loaded classes.
\<close>

fun dvmInstanceof :: "nat \<Rightarrow> class_table \<Rightarrow> u8 \<Rightarrow> u8 \<Rightarrow> cache \<Rightarrow> (u4 \<times> cache) outcome option" where
  "dvmInstanceof 0 ct instance clazz cache = None"
| "dvmInstanceof (Suc n) ct instance clazz cache =
     (if instance = clazz then Some (Ret (1, cache))
      else dvmInstanceofNonTrivial ct (dvmInstanceof n ct) instance clazz cache)"

definition dvmCanPutArrayElement :: "nat \<Rightarrow> class_table \<Rightarrow> u8 \<Rightarrow> u8 \<Rightarrow> cache \<Rightarrow> (u4 \<times> cache) outcome option" where
  "dvmCanPutArrayElement n ct objectClass arrayClass cache =
     deref ct objectClass (\<lambda>o'.
       if dvmIsArrayClass o'
       then isArrayInstanceOfArray ct (dvmInstanceof n ct) (elementClass o') (arrayDim o' + 1) arrayClass cache
       else isArrayInstanceOfArray ct (dvmInstanceof n ct) objectClass 1 arrayClass cache)"

section \<open>Subtyping\<close>

text \<open>
  Type expressions, and the subtype relation of the Java language on them: a class is a subtype of its
  superclass and direct superinterfaces, an array of \<open>Object\<close> and of the interfaces \<open>ifs\<close> that all arrays
  implement, and arrays are covariant.
\<close>

datatype jtype = Cls u8 | ArrOf jtype

definition parents :: "class_table \<Rightarrow> (u8 \<times> u8) set" where
  "parents ct = {(p, q). \<exists>c. ct p = Some c \<and> (q = super c \<and> q \<noteq> 0 \<or> q \<in> set (interfaces c))}"

definition supers :: "class_table \<Rightarrow> (u8 \<times> u8) set" where
  "supers ct = {(p, q). \<exists>c. ct p = Some c \<and> q = super c \<and> q \<noteq> 0}"

inductive subtype :: "class_table \<Rightarrow> u8 \<Rightarrow> u8 set \<Rightarrow> jtype \<Rightarrow> jtype \<Rightarrow> bool" for ct obj ifs where
  sub_refl: "subtype ct obj ifs T T"
| sub_trans: "subtype ct obj ifs S T \<Longrightarrow> subtype ct obj ifs T U \<Longrightarrow> subtype ct obj ifs S U"
| sub_parent: "(p, q) \<in> parents ct \<Longrightarrow> subtype ct obj ifs (Cls p) (Cls q)"
| sub_object: "subtype ct obj ifs (ArrOf T) (Cls obj)"
| sub_iface: "i \<in> ifs \<Longrightarrow> subtype ct obj ifs (ArrOf T) (Cls i)"
| sub_array: "subtype ct obj ifs S T \<Longrightarrow> subtype ct obj ifs (ArrOf S) (ArrOf T)"

definition array_type :: "nat \<Rightarrow> u8 \<Rightarrow> jtype" where
  "array_type n p = (ArrOf ^^ n) (Cls p)"

text \<open>The type a class object stands for.\<close>

definition type_of_class :: "class_table \<Rightarrow> u8 \<Rightarrow> jtype" where
  "type_of_class ct p = (case ct p of
     None \<Rightarrow> Cls p
   | Some c \<Rightarrow> if dvmIsArrayClass c then array_type (nat (arrayDim c)) (elementClass c) else Cls p)"

text \<open>What class loading establishes of the table.\<close>

definition plain :: "class_table \<Rightarrow> u8 \<Rightarrow> bool" where
  "plain ct p \<longleftrightarrow> (\<exists>c. ct p = Some c \<and> \<not> dvmIsArrayClass c)"

definition is_interface :: "class_table \<Rightarrow> u8 \<Rightarrow> bool" where
  "is_interface ct p \<longleftrightarrow> (\<exists>c. ct p = Some c \<and> dvmIsInterfaceClass c)"

definition loaded_ok :: "class_table \<Rightarrow> u8 \<Rightarrow> u8 set \<Rightarrow> bool" where
  "loaded_ok ct obj ifs \<longleftrightarrow> ct 0 = None
     \<and> (\<exists>c. ct obj = Some c \<and> \<not> dvmIsArrayClass c \<and> \<not> dvmIsInterfaceClass c \<and> super c = 0 \<and> interfaces c = [])
     \<and> (\<forall>i\<in>ifs. \<exists>c. ct i = Some c \<and> \<not> dvmIsArrayClass c \<and> dvmIsInterfaceClass c \<and> super c = obj \<and> interfaces c = [])
     \<and> wf ((supers ct)\<inverse>)
     \<and> (\<forall>p c. ct p = Some c \<longrightarrow>
          (if dvmIsArrayClass c
           then \<not> dvmIsInterfaceClass c \<and> arrayDim c > 0 \<and> plain ct (elementClass c) \<and> super c = obj
             \<and> set (iftable c) = ifs
           else (super c \<noteq> 0 \<longrightarrow> plain ct (super c) \<and> \<not> is_interface ct (super c))
             \<and> (\<forall>i\<in>set (interfaces c). plain ct i \<and> is_interface ct i)
             \<and> (dvmIsInterfaceClass c \<longrightarrow> super c = obj)
             \<and> (interfaces c \<noteq> [] \<longrightarrow> (p, obj) \<in> (supers ct)\<^sup>*)
             \<and> set (iftable c) = {i. (p, i) \<in> (parents ct)\<^sup>+ \<and> is_interface ct i}))"

section \<open>Subtyping in terms of the base class and the dimensions\<close>

fun jbase :: "jtype \<Rightarrow> u8" where
  "jbase (Cls p) = p"
| "jbase (ArrOf T) = jbase T"

fun jdims :: "jtype \<Rightarrow> nat" where
  "jdims (Cls p) = 0"
| "jdims (ArrOf T) = Suc (jdims T)"

lemma jbase_array_type [simp]: "jbase (array_type n p) = p" and jdims_array_type [simp]: "jdims (array_type n p) = n"
  by (induction n) (simp_all add: array_type_def)

lemma array_type_collapse: "array_type (jdims T) (jbase T) = T"
  by (induction T) (simp_all add: array_type_def)

definition jsub :: "class_table \<Rightarrow> u8 \<Rightarrow> u8 set \<Rightarrow> jtype \<Rightarrow> jtype \<Rightarrow> bool" where
  "jsub ct obj ifs S T \<longleftrightarrow> jdims S = jdims T \<and> (jbase S, jbase T) \<in> (parents ct)\<^sup>*
     \<or> jdims T < jdims S \<and> jbase T \<in> insert obj ifs"

lemma loaded_obj:
  "loaded_ok ct obj ifs \<Longrightarrow> \<exists>c. ct obj = Some c \<and> \<not> dvmIsArrayClass c \<and> \<not> dvmIsInterfaceClass c \<and> super c = 0 \<and> interfaces c = []"
  unfolding loaded_ok_def by (elim conjE) assumption

lemma loaded_ifs:
  "loaded_ok ct obj ifs \<Longrightarrow> i \<in> ifs
   \<Longrightarrow> \<exists>c. ct i = Some c \<and> \<not> dvmIsArrayClass c \<and> dvmIsInterfaceClass c \<and> super c = obj \<and> interfaces c = []"
  unfolding loaded_ok_def by (elim conjE) (drule (1) bspec)

lemma loaded_null: "loaded_ok ct obj ifs \<Longrightarrow> ct 0 = None"
  unfolding loaded_ok_def by (elim conjE)

lemma loaded_wf: "loaded_ok ct obj ifs \<Longrightarrow> wf ((supers ct)\<inverse>)"
  unfolding loaded_ok_def by (elim conjE)

lemma loaded_array:
  assumes "loaded_ok ct obj ifs" and "ct p = Some c" and "dvmIsArrayClass c"
  shows "\<not> dvmIsInterfaceClass c" "arrayDim c > 0" "plain ct (elementClass c)" "super c = obj" "set (iftable c) = ifs"
proof -
  have "\<forall>p c. ct p = Some c \<longrightarrow> dvmIsArrayClass c \<longrightarrow> \<not> dvmIsInterfaceClass c \<and> arrayDim c > 0
      \<and> plain ct (elementClass c) \<and> super c = obj \<and> set (iftable c) = ifs"
    using assms(1) unfolding loaded_ok_def by (elim conjE) (simp split: if_splits)
  with assms(2,3) show "\<not> dvmIsInterfaceClass c" "arrayDim c > 0" "plain ct (elementClass c)" "super c = obj" "set (iftable c) = ifs"
    by blast+
qed

lemma loaded_plain:
  assumes "loaded_ok ct obj ifs" and "ct p = Some c" and "\<not> dvmIsArrayClass c"
  shows "super c \<noteq> 0 \<Longrightarrow> plain ct (super c) \<and> \<not> is_interface ct (super c)"
    and "i \<in> set (interfaces c) \<Longrightarrow> plain ct i \<and> is_interface ct i"
    and "dvmIsInterfaceClass c \<Longrightarrow> super c = obj" and "interfaces c \<noteq> [] \<Longrightarrow> (p, obj) \<in> (supers ct)\<^sup>*"
    and "set (iftable c) = {i. (p, i) \<in> (parents ct)\<^sup>+ \<and> is_interface ct i}"
proof -
  have "\<forall>p c. ct p = Some c \<longrightarrow> \<not> dvmIsArrayClass c \<longrightarrow> (super c \<noteq> 0 \<longrightarrow> plain ct (super c) \<and> \<not> is_interface ct (super c))
     \<and> (\<forall>i\<in>set (interfaces c). plain ct i \<and> is_interface ct i)
     \<and> (dvmIsInterfaceClass c \<longrightarrow> super c = obj)
     \<and> (interfaces c \<noteq> [] \<longrightarrow> (p, obj) \<in> (supers ct)\<^sup>*)
     \<and> set (iftable c) = {i. (p, i) \<in> (parents ct)\<^sup>+ \<and> is_interface ct i}"
    using assms(1) unfolding loaded_ok_def by (elim conjE) (simp split: if_splits)
  note * = this [THEN spec, THEN spec, THEN mp, THEN mp, OF assms(2,3)]
  show "super c \<noteq> 0 \<Longrightarrow> plain ct (super c) \<and> \<not> is_interface ct (super c)"
    and "i \<in> set (interfaces c) \<Longrightarrow> plain ct i \<and> is_interface ct i"
    and "dvmIsInterfaceClass c \<Longrightarrow> super c = obj" and "interfaces c \<noteq> [] \<Longrightarrow> (p, obj) \<in> (supers ct)\<^sup>*"
    and "set (iftable c) = {i. (p, i) \<in> (parents ct)\<^sup>+ \<and> is_interface ct i}"
    using * by blast+
qed

lemma parents_obj: "loaded_ok ct obj ifs \<Longrightarrow> (p, q) \<in> parents ct \<Longrightarrow> p \<in> insert obj ifs \<Longrightarrow> q = obj"
  using loaded_obj [of ct obj ifs] loaded_ifs [of ct obj ifs p] by (auto simp: parents_def)

lemma parents_obj_rtrancl:
  assumes "loaded_ok ct obj ifs" and "(p, q) \<in> (parents ct)\<^sup>*" and "p \<in> insert obj ifs"
  shows "q \<in> insert obj ifs"
  using assms(2,3) by (induction rule: rtrancl_induct) (auto dest: parents_obj [OF assms(1)])

lemma subtype_jsub:
  assumes "loaded_ok ct obj ifs" and "subtype ct obj ifs S T"
  shows "jsub ct obj ifs S T"
  using assms(2)
proof (induction rule: subtype.induct)
  case (sub_trans S T U)
  then show ?case
    using parents_obj_rtrancl [OF assms(1), of "jbase T" "jbase U"]
    by (auto simp: jsub_def intro: rtrancl_trans)
qed (auto simp: jsub_def)

lemma subtype_array_type: "subtype ct obj ifs S T \<Longrightarrow> subtype ct obj ifs ((ArrOf ^^ n) S) ((ArrOf ^^ n) T)"
  by (induction n) (auto intro: subtype.sub_array)

lemma subtype_rtrancl: "(p, q) \<in> (parents ct)\<^sup>* \<Longrightarrow> subtype ct obj ifs (Cls p) (Cls q)"
  by (induction rule: rtrancl_induct) (auto intro: subtype.intros)

lemma jsub_subtype:
  assumes "jsub ct obj ifs S T"
  shows "subtype ct obj ifs S T"
proof -
  have eq: "S = (ArrOf ^^ jdims S) (Cls (jbase S))" "T = (ArrOf ^^ jdims T) (Cls (jbase T))"
    using array_type_collapse [of S] array_type_collapse [of T] by (simp_all add: array_type_def)
  show ?thesis
  proof (cases "jdims S = jdims T")
    case True
    then show ?thesis
      using assms subtype_array_type [OF subtype_rtrancl, of "jbase S" "jbase T" ct obj ifs "jdims T"] eq
      by (simp add: jsub_def)
  next
    case False
    then have lt: "jdims T < jdims S" "jbase T \<in> insert obj ifs" using assms by (auto simp: jsub_def)
    then obtain d where d: "jdims S = jdims T + Suc d" using less_iff_Suc_add by auto
    have "S = (ArrOf ^^ jdims T) (ArrOf ((ArrOf ^^ d) (Cls (jbase S))))"
      using eq(1) d by (simp add: funpow_add funpow_swap1)
    moreover have "subtype ct obj ifs (ArrOf ((ArrOf ^^ d) (Cls (jbase S)))) (Cls (jbase T))"
      using lt(2) by (auto intro: subtype.intros)
    ultimately show ?thesis using subtype_array_type eq(2) by metis
  qed
qed

lemma subtype_iff: "loaded_ok ct obj ifs \<Longrightarrow> subtype ct obj ifs S T \<longleftrightarrow> jsub ct obj ifs S T"
  using subtype_jsub jsub_subtype by blast

section \<open>Subclasses and interfaces\<close>

lemma subclass_spec:
  assumes "wf ((supers ct)\<inverse>)" and "p \<in> dom ct" and closed: "\<And>p q. (p, q) \<in> supers ct \<Longrightarrow> q \<in> dom ct"
  shows "dvmIsSubClass ct p q = Some (Ret ((p, q) \<in> (supers ct)\<^sup>*))"
  using assms(1,2)
proof (induction p rule: wf_induct_rule)
  case (less p)
  then obtain c where c: "ct p = Some c" by auto
  show ?case
  proof (cases "p = q \<or> super c = 0")
    case True
    have "(p, q) \<notin> (supers ct)\<^sup>*" if "p \<noteq> q" "super c = 0"
      using that c by (auto simp: supers_def elim: converse_rtranclE)
    with True c show ?thesis by (subst dvmIsSubClass.simps) auto
  next
    case False
    then have e: "(p, super c) \<in> supers ct" using c by (simp add: supers_def)
    have "(p, q) \<in> (supers ct)\<^sup>* \<longleftrightarrow> (super c, q) \<in> (supers ct)\<^sup>*"
      using False e c by (auto simp: supers_def elim: converse_rtranclE intro: converse_rtrancl_into_rtrancl)
    moreover have "dvmIsSubClass ct (super c) q = Some (Ret ((super c, q) \<in> (supers ct)\<^sup>*))"
      using less.IH [of "super c"] e closed by blast
    ultimately show ?thesis using False c by (subst dvmIsSubClass.simps) simp
  qed
qed

lemma supers_closed:
  assumes "loaded_ok ct obj ifs" and "(p, q) \<in> supers ct"
  shows "plain ct q"
proof -
  obtain c where c: "ct p = Some c" "q = super c" "q \<noteq> 0" using assms(2) by (auto simp: supers_def)
  then show ?thesis
    using loaded_array(4) [OF assms(1) c(1)] loaded_plain(1) [OF assms(1) c(1)] loaded_obj [OF assms(1)]
    by (cases "dvmIsArrayClass c") (auto simp: plain_def)
qed

lemma parents_plain:
  assumes "loaded_ok ct obj ifs" and "plain ct p" and "(p, q) \<in> parents ct"
  shows "plain ct q \<and> ((p, q) \<in> supers ct \<and> \<not> is_interface ct q \<or> is_interface ct q \<and> (p, obj) \<in> (supers ct)\<^sup>*)"
proof -
  obtain c where c: "ct p = Some c" "\<not> dvmIsArrayClass c" using assms(2) by (auto simp: plain_def)
  then consider "q = super c" "q \<noteq> 0" | "q \<in> set (interfaces c)" using assms(3) by (auto simp: parents_def)
  then show ?thesis
  proof cases
    case 1
    then show ?thesis using loaded_plain(1) [OF assms(1) c] c by (simp add: supers_def)
  next
    case 2
    then have "interfaces c \<noteq> []" by auto
    then show ?thesis using 2 loaded_plain(2,4) [OF assms(1) c] by blast
  qed
qed

lemma supers_parents: "(supers ct)\<^sup>* \<subseteq> (parents ct)\<^sup>*"
  by (rule rtrancl_mono) (auto simp: supers_def parents_def)

text \<open>A class that is not an interface is reached through superclasses only.\<close>

lemma parents_to_class:
  assumes ok: "loaded_ok ct obj ifs" and "(p, q) \<in> (parents ct)\<^sup>*" and "plain ct p" and q: "\<not> is_interface ct q"
  shows "(p, q) \<in> (supers ct)\<^sup>*"
  using assms(2,3)
proof (induction rule: converse_rtrancl_induct)
  case (step p p1)
  note p1 = parents_plain [OF ok step(4,1)]
  have IH: "(p1, q) \<in> (supers ct)\<^sup>*" using step.IH p1 by blast
  show ?case
  proof (cases "is_interface ct p1")
    case True
    then obtain c where c: "ct p1 = Some c" "\<not> dvmIsArrayClass c" "dvmIsInterfaceClass c"
      using p1 by (auto simp: plain_def is_interface_def)
    have "q \<noteq> p1" using True q by auto
    then obtain p2 where p2: "(p1, p2) \<in> supers ct" "(p2, q) \<in> (supers ct)\<^sup>*" using IH by (auto elim: converse_rtranclE)
    then have "p2 = obj" using loaded_plain(3) [OF ok c] c by (simp add: supers_def)
    moreover have "(p, obj) \<in> (supers ct)\<^sup>*" using p1 True by blast
    ultimately show ?thesis using p2 by (meson rtrancl_trans)
  next
    case False
    then show ?thesis using p1 IH by (meson converse_rtrancl_into_rtrancl)
  qed
qed simp

lemma implements_spec:
  assumes "loaded_ok ct obj ifs" and "ct p = Some c" and "is_interface ct i"
  shows "dvmImplements ct p i = Some (Ret (i \<in> set (iftable c)))"
  using assms by (auto simp: dvmImplements_def deref_def is_interface_def)

text \<open>The checks among classes that are not arrays.\<close>

lemma plain_spec:
  assumes ok: "loaded_ok ct obj ifs" and "plain ct p" and "plain ct q" and "p \<noteq> q"
  shows "isInstanceof ct inst p q cache = Some (Ret (c_bool ((p, q) \<in> (parents ct)\<^sup>*), cache))"
proof -
  obtain c d where c: "ct p = Some c" "\<not> dvmIsArrayClass c" and d: "ct q = Some d" "\<not> dvmIsArrayClass d"
    using assms(2,3) by (auto simp: plain_def)
  show ?thesis
  proof (cases "dvmIsInterfaceClass d")
    case True
    then have i: "is_interface ct q" using d by (simp add: is_interface_def)
    have "(p, q) \<in> (parents ct)\<^sup>+ \<longleftrightarrow> (p, q) \<in> (parents ct)\<^sup>*" using assms(4) by (auto simp: rtrancl_eq_or_trancl)
    then show ?thesis
      using True c d i implements_spec [OF ok c(1) i] loaded_plain(5) [OF ok c]
      by (simp add: isInstanceof_def deref_def uncached_def)
  next
    case False
    then have i: "\<not> is_interface ct q" using d by (simp add: is_interface_def)
    have "dvmIsSubClass ct p q = Some (Ret ((p, q) \<in> (supers ct)\<^sup>*))"
      using c supers_closed [OF ok] by (intro subclass_spec loaded_wf [OF ok]) (auto simp: plain_def)
    moreover have "(p, q) \<in> (supers ct)\<^sup>* \<longleftrightarrow> (p, q) \<in> (parents ct)\<^sup>*"
      using parents_to_class [OF ok _ assms(2) i] supers_parents by blast
    ultimately show ?thesis using False c d by (simp add: isInstanceof_def deref_def uncached_def)
  qed
qed

section \<open>Arrays\<close>

text \<open>The value of a query.\<close>

definition instance_value :: "class_table \<Rightarrow> u8 \<Rightarrow> u8 set \<Rightarrow> u8 \<Rightarrow> u8 \<Rightarrow> u4" where
  "instance_value ct obj ifs a b = c_bool (subtype ct obj ifs (type_of_class ct a) (type_of_class ct b))"

definition class_depth :: "class_table \<Rightarrow> u8 \<Rightarrow> nat" where
  "class_depth ct p = (case ct p of None \<Rightarrow> 0 | Some c \<Rightarrow> if dvmIsArrayClass c then 1 else 0)"

text \<open>Arrays of \<open>n\<close> dimensions over \<open>e\<close> against the array class \<open>q\<close>, given the check of the elements.\<close>

lemma array_array_spec:
  assumes ok: "loaded_ok ct obj ifs" and q: "ct q = Some d" "dvmIsArrayClass d" and e: "plain ct e" and n: "0 < n"
    and elem: "\<exists>c'. inst e (elementClass d) cache = Some (Ret (instance_value ct obj ifs e (elementClass d), c')) \<and> P c'"
    and P: "P cache"
  shows "\<exists>c'. isArrayInstanceOfArray ct inst e (int n) q cache
           = Some (Ret (c_bool (subtype ct obj ifs (array_type n e) (type_of_class ct q)), c')) \<and> P c'"
proof -
  note d = loaded_array [OF ok q]
  define m where "m = nat (arrayDim d)"
  have m: "arrayDim d = int m" "0 < m" using d(2) by (auto simp: m_def)
  obtain f where f: "ct (elementClass d) = Some f" "\<not> dvmIsArrayClass f" using d(3) by (auto simp: plain_def)
  have tq: "type_of_class ct q = array_type m (elementClass d)" using q by (simp add: type_of_class_def m_def)
  have te: "type_of_class ct e = Cls e" "type_of_class ct (elementClass d) = Cls (elementClass d)"
    using e f by (auto simp: type_of_class_def plain_def)
  have val: "subtype ct obj ifs (array_type n e) (type_of_class ct q)
     \<longleftrightarrow> (if n = m then subtype ct obj ifs (Cls e) (Cls (elementClass d)) else m < n \<and> elementClass d \<in> insert obj ifs)"
    by (auto simp: subtype_iff [OF ok] tq jsub_def)
  consider "n = m" | "m < n" | "n < m" by linarith
  then show ?thesis
  proof cases
    case 1
    then show ?thesis using elem q m val te by (simp add: isArrayInstanceOfArray_def deref_def instance_value_def)
  next
    case 2
    have "elementClass d \<in> ifs \<longleftrightarrow> elementClass d \<in> insert obj ifs" if "dvmIsInterfaceClass f"
      using that f loaded_obj [OF ok] by auto
    moreover have "elementClass d = obj \<longleftrightarrow> elementClass d \<in> insert obj ifs" if "\<not> dvmIsInterfaceClass f"
      using that f loaded_ifs [OF ok, of "elementClass d"] by auto
    moreover have "dvmImplements ct q (elementClass d) = Some (Ret (elementClass d \<in> ifs))" if "dvmIsInterfaceClass f"
      using that f implements_spec [OF ok q(1)] d(5) by (simp add: is_interface_def)
    ultimately show ?thesis
      using 2 q m f d(4) val n P by (auto simp: isArrayInstanceOfArray_def deref_def uncached_def)
  next
    case 3
    then show ?thesis using q m val n P by (simp add: isArrayInstanceOfArray_def deref_def)
  qed
qed

lemma not_array_above:
  assumes "loaded_ok ct obj ifs" and "(p, q) \<in> (supers ct)\<^sup>*" and "p \<noteq> q"
  shows "plain ct q"
  using assms(2,3) supers_closed [OF assms(1)] by (auto elim: rtranclE)

text \<open>One unfolding of \<open>dvmInstanceof\<close>.\<close>

lemma isInstanceof_spec:
  assumes ok: "loaded_ok ct obj ifs" and p: "ct p = Some c" and q: "ct q = Some d" and "p \<noteq> q" and P: "P cache"
    and elem: "\<And>e f. plain ct e \<Longrightarrow> plain ct f \<Longrightarrow> class_depth ct e < class_depth ct p
      \<Longrightarrow> \<exists>c'. inst e f cache = Some (Ret (instance_value ct obj ifs e f, c')) \<and> P c'"
  shows "\<exists>c'. isInstanceof ct inst p q cache = Some (Ret (instance_value ct obj ifs p q, c')) \<and> P c'"
proof (cases "dvmIsArrayClass c")
  case False
  have tp: "type_of_class ct p = Cls p" using p False by (simp add: type_of_class_def)
  show ?thesis
  proof (cases "dvmIsArrayClass d")
    case False': False
    then have "type_of_class ct q = Cls q" using q by (simp add: type_of_class_def)
    moreover have "isInstanceof ct inst p q cache = Some (Ret (c_bool ((p, q) \<in> (parents ct)\<^sup>*), cache))"
      using plain_spec [OF ok] p q False False' assms(4) by (simp add: plain_def)
    ultimately show ?thesis using P tp by (simp add: instance_value_def subtype_iff [OF ok] jsub_def)
  next
    case True
    note d = loaded_array [OF ok q True]
    have "(p, q) \<notin> (supers ct)\<^sup>*" using not_array_above [OF ok _ assms(4)] q True by (auto simp: plain_def)
    moreover have "dvmIsSubClass ct p q = Some (Ret ((p, q) \<in> (supers ct)\<^sup>*))"
      using p supers_closed [OF ok] by (intro subclass_spec loaded_wf [OF ok]) (auto simp: plain_def)
    moreover have "\<not> subtype ct obj ifs (type_of_class ct p) (type_of_class ct q)"
      using tp q True d(2) by (simp add: subtype_iff [OF ok] jsub_def type_of_class_def)
    ultimately show ?thesis
      using p q False d(1) P by (simp add: isInstanceof_def deref_def uncached_def instance_value_def)
  qed
next
  case True
  note c = loaded_array [OF ok p True]
  have tp: "type_of_class ct p = array_type (nat (arrayDim c)) (elementClass c)" using p True by (simp add: type_of_class_def)
  have np: "0 < nat (arrayDim c)" using c(2) by simp
  show ?thesis
  proof (cases "dvmIsArrayClass d")
    case True': True
    note d = loaded_array [OF ok q True']
    have "class_depth ct (elementClass c) < class_depth ct p"
      using c(3) p True by (auto simp: class_depth_def plain_def)
    then have "\<exists>c'. inst (elementClass c) (elementClass d) cache
        = Some (Ret (instance_value ct obj ifs (elementClass c) (elementClass d), c')) \<and> P c'"
      using elem c(3) d(3) by blast
    from array_array_spec [OF ok q True' c(3) np, of inst cache P, OF this P]
    show ?thesis
      using p q True True' c(1,2) d(1) by (simp add: isInstanceof_def isArrayInstanceOf_def deref_def instance_value_def tp)
  next
    case False
    then have tq: "type_of_class ct q = Cls q" using q by (simp add: type_of_class_def)
    have val: "subtype ct obj ifs (type_of_class ct p) (type_of_class ct q) \<longleftrightarrow> q \<in> insert obj ifs"
      using np by (simp add: subtype_iff [OF ok] tp tq jsub_def)
    show ?thesis
    proof (cases "dvmIsInterfaceClass d")
      case True': True
      then have "q \<noteq> obj" using loaded_obj [OF ok] q by auto
      moreover have "dvmImplements ct p q = Some (Ret (q \<in> ifs))"
        using implements_spec [OF ok p] q True' c(5) by (simp add: is_interface_def)
      ultimately show ?thesis
        using True' q val P by (simp add: isInstanceof_def deref_def uncached_def instance_value_def)
    next
      case False': False
      then have "q \<notin> ifs" using loaded_ifs [OF ok, of q] q by auto
      then show ?thesis
        using True False False' p q c(4) val P
        by (simp add: isInstanceof_def isArrayInstanceOf_def deref_def instance_value_def)
    qed
  qed
qed

section \<open>An example\<close>

text \<open>\<open>Object\<close>, an interface of arrays, a class \<open>A\<close> with a subclass \<open>B\<close>, \<open>Object[]\<close>, \<open>B[]\<close>, and a class whose address is \<open>2 ^ 32\<close> above \<open>B\<close>.\<close>

definition plain_class :: "string \<Rightarrow> u4 \<Rightarrow> u8 \<Rightarrow> ClassObject" where
  "plain_class d flags s =
     \<lparr>descriptor = d, accessFlags = flags, elementClass = 0, arrayDim = 0, primitiveType = PRIM_NOT, super = s,
      interfaces = [], iftable = [], vtableCount = 0, ifields = []\<rparr>"

definition array_class :: "string \<Rightarrow> u8 \<Rightarrow> ClassObject" where
  "array_class d e =
     \<lparr>descriptor = d, accessFlags = 0, elementClass = e, arrayDim = 1, primitiveType = PRIM_NOT, super = 16,
      interfaces = [32], iftable = [32], vtableCount = 0, ifields = []\<rparr>"

definition example_list :: "(u8 \<times> ClassObject) list" where
  "example_list = [(16, plain_class ''LObject;'' 0 0), (32, plain_class ''LCloneable;'' 0x200 16),
     (48, plain_class ''LA;'' 0 16), (64, plain_class ''LB;'' 0 48),
     (80, array_class ''[LObject;'' 16), (96, array_class ''[LB;'' 64)]"

definition example_classes :: class_table where
  "example_classes = map_of example_list"

definition far_list :: "(u8 \<times> ClassObject) list" where
  "far_list = (0x100000040, plain_class ''LFar;'' 0 16) # example_list"

definition far_classes :: class_table where
  "far_classes = map_of far_list"

lemmas example_simps = example_classes_def far_classes_def example_list_def far_list_def plain_class_def array_class_def
  dvmIsArrayClass_def dvmIsInterfaceClass_def ACC_INTERFACE_def plain_def is_interface_def

lemma supers_decrease: "(\<And>p c. ct p = Some c \<Longrightarrow> super c \<noteq> 0 \<Longrightarrow> super c < p) \<Longrightarrow> wf ((supers ct)\<inverse>)"
proof -
  assume *: "\<And>p c. ct p = Some c \<Longrightarrow> super c \<noteq> 0 \<Longrightarrow> super c < p"
  have "(supers ct)\<inverse> \<subseteq> measure unat" using * by (auto simp: supers_def word_less_nat_alt)
  then show ?thesis by (rule wf_subset [OF wf_measure])
qed

lemma no_interfaces:
  assumes "loaded \<in> {example_classes, far_classes}" and "loaded p = Some c" and "\<not> dvmIsArrayClass c"
  shows "{i. (p, i) \<in> (parents loaded)\<^sup>+ \<and> is_interface loaded i} = {}"
proof -
  have 1: "q \<in> {16, 48}" if "(r, q) \<in> parents loaded" "loaded r = Some d" "\<not> dvmIsArrayClass d" for r q d
    using that assms(1) by (auto simp: parents_def example_simps split: if_splits)
  have 2: "\<exists>d. loaded q = Some d \<and> \<not> dvmIsArrayClass d \<and> \<not> dvmIsInterfaceClass d" if "q \<in> {16, 48}" for q
    using that assms(1) by (auto simp: example_simps)
  have "q \<in> {16, 48}" if "(p, q) \<in> (parents loaded)\<^sup>+" for q
    using that
  proof (induction rule: trancl_induct)
    case (base q)
    then show ?case using 1 assms(2,3) by blast
  next
    case (step q r)
    then show ?case using 1 2 by blast
  qed
  then show ?thesis using 2 by (fastforce simp: is_interface_def)
qed

lemma example_loaded: "loaded_ok example_classes 16 {32}" and far_loaded: "loaded_ok far_classes 16 {32}"
proof -
  have "loaded_ok loaded 16 {32}" if l: "loaded \<in> {example_classes, far_classes}" for loaded
  proof -
    have "(p, c) \<in> set far_list" if "loaded p = Some c" for p c
      using l that by (auto simp: example_classes_def far_classes_def dest!: map_of_SomeD) (simp add: far_list_def)
    then have el: "(p, c) \<in> {(16, plain_class ''LObject;'' 0 0), (32, plain_class ''LCloneable;'' 0x200 16),
        (48, plain_class ''LA;'' 0 16), (64, plain_class ''LB;'' 0 48), (80, array_class ''[LObject;'' 16),
        (96, array_class ''[LB;'' 64), (0x100000040, plain_class ''LFar;'' 0 16)}" if "loaded p = Some c" for p c
      using that by (fastforce simp: far_list_def example_list_def)
    have cl: "dvmIsArrayClass (array_class ''[LObject;'' 16)" "dvmIsArrayClass (array_class ''[LB;'' 64)"
      "\<not> dvmIsArrayClass (plain_class ''LObject;'' 0 0)" "\<not> dvmIsArrayClass (plain_class ''LCloneable;'' 0x200 16)"
      "\<not> dvmIsArrayClass (plain_class ''LA;'' 0 16)" "\<not> dvmIsArrayClass (plain_class ''LB;'' 0 48)"
      "\<not> dvmIsArrayClass (plain_class ''LFar;'' 0 16)"
      by (simp_all add: dvmIsArrayClass_def plain_class_def array_class_def)
    have pl: "plain loaded 16" "plain loaded 48" "plain loaded 64" "\<not> is_interface loaded 16" "\<not> is_interface loaded 48"
      using l by (auto simp: example_simps)
    have wf: "wf ((supers loaded)\<inverse>)"
      by (rule supers_decrease, drule el) (auto simp: plain_class_def array_class_def)
    have arr: "\<not> dvmIsInterfaceClass c \<and> arrayDim c > 0 \<and> plain loaded (elementClass c) \<and> super c = 16
        \<and> set (iftable c) = {32}" if "loaded p = Some c" "dvmIsArrayClass c" for p c
      using el [OF that(1)] that(2) pl cl by (auto simp: array_class_def dvmIsInterfaceClass_def)
    have cls: "(super c \<noteq> 0 \<longrightarrow> plain loaded (super c) \<and> \<not> is_interface loaded (super c))
        \<and> (\<forall>i\<in>set (interfaces c). plain loaded i \<and> is_interface loaded i)
        \<and> (dvmIsInterfaceClass c \<longrightarrow> super c = 16) \<and> interfaces c = [] \<and> iftable c = []"
      if "loaded p = Some c" "\<not> dvmIsArrayClass c" for p c
      using el [OF that(1)] that(2) pl cl
      by (auto simp: plain_class_def dvmIsInterfaceClass_def ACC_INTERFACE_def)
    have base: "loaded 0 = None \<and> (\<exists>c. loaded 16 = Some c \<and> \<not> dvmIsArrayClass c \<and> \<not> dvmIsInterfaceClass c
        \<and> super c = 0 \<and> interfaces c = [])
      \<and> (\<forall>i\<in>{32}. \<exists>c. loaded i = Some c \<and> \<not> dvmIsArrayClass c \<and> dvmIsInterfaceClass c \<and> super c = 16 \<and> interfaces c = [])"
      using l by (auto simp: example_simps)
    show ?thesis
      unfolding loaded_ok_def using wf arr cls base no_interfaces [OF l] by simp
  qed
  then show "loaded_ok example_classes 16 {32}" "loaded_ok far_classes 16 {32}" by blast+
qed

definition fresh_cache :: "nat \<Rightarrow> cache" where
  "fresh_cache k = replicate (2 ^ k) zero_cache_entry"

lemma fresh_coherent: "coherent k K calc (fresh_cache k)"
  using coherent_fresh [of k "fresh_cache k"] by (simp add: fresh_cache_def dvmAllocAtomicCache_def nat_power_eq)

lemma example_addresses: "dom example_classes = {16, 32, 48, 64, 80, 96}"
  by (auto simp: example_classes_def example_list_def dom_map_of_conv_image_fst)

lemma example_low32: "inj_on low32 (dom example_classes)" "0 \<notin> low32 ` dom example_classes"
  unfolding example_addresses by (simp_all add: low32_def)

lemma example_subtypes:
  "subtype example_classes 16 {32} (type_of_class example_classes 96) (type_of_class example_classes 80)"
  "\<not> subtype example_classes 16 {32} (ArrOf (type_of_class example_classes 48)) (type_of_class example_classes 96)"
  "subtype far_classes 16 {32} (Cls 64) (Cls 48)"
  "\<not> subtype far_classes 16 {32} (Cls 0x100000040) (Cls 48)"
proof -
  have p: "(64, 48) \<in> parents ct \<and> (48, 16) \<in> parents ct" if "ct \<in> {example_classes, far_classes}" for ct
    using that by (auto simp: parents_def example_simps)
  have t: "type_of_class example_classes 96 = ArrOf (Cls 64)" "type_of_class example_classes 80 = ArrOf (Cls 16)"
    "type_of_class example_classes 48 = Cls 48"
    by (simp_all add: type_of_class_def example_simps array_type_def)
  show "subtype example_classes 16 {32} (type_of_class example_classes 96) (type_of_class example_classes 80)"
    unfolding t using p by (blast intro: subtype.intros)
  show "subtype far_classes 16 {32} (Cls 64) (Cls 48)" using p by (blast intro: subtype.intros)
  have "(48, 64) \<notin> (parents example_classes)\<^sup>*"
  proof
    assume "(48, 64) \<in> (parents example_classes)\<^sup>*"
    then obtain q where "(q, 64) \<in> parents example_classes" by (auto elim: rtranclE)
    then show False by (auto simp: parents_def example_simps split: if_splits)
  qed
  then show "\<not> subtype example_classes 16 {32} (ArrOf (type_of_class example_classes 48)) (type_of_class example_classes 96)"
    unfolding t by (simp add: subtype_iff [OF example_loaded] jsub_def)
  have "(0x100000040, 48) \<notin> (parents far_classes)\<^sup>*"
  proof
    assume "(0x100000040, 48) \<in> (parents far_classes)\<^sup>*"
    then obtain q where "(q, 48) \<in> parents far_classes" "(0x100000040, q) \<in> (parents far_classes)\<^sup>*"
      by (auto elim: rtranclE)
    moreover from this have "q = 64"
      by (auto simp: parents_def example_simps split: if_splits)
    ultimately obtain r where "(r, 64) \<in> parents far_classes" by (auto elim: rtranclE)
    then show False
      by (auto simp: parents_def example_simps split: if_splits)
  qed
  then show "\<not> subtype far_classes 16 {32} (Cls 0x100000040) (Cls 48)"
    by (simp add: subtype_iff [OF far_loaded] jsub_def)
qed

section \<open>Claims\<close>

lemma instance_value_refl [simp]: "instance_value ct obj ifs a a = 1"
  by (simp add: instance_value_def c_bool_def subtype.sub_refl)

lemma instanceof_value:
  assumes ok: "loaded_ok ct obj ifs" and "inj_on low32 (dom ct)" and "0 \<notin> low32 ` dom ct"
    and "a \<in> dom ct" and "b \<in> dom ct" and "class_depth ct a < n"
    and "coherent k (distinguished (dom ct)) (instance_value ct obj ifs) cache"
  shows "\<exists>c'. dvmInstanceof n ct a b cache = Some (Ret (instance_value ct obj ifs a b, c'))
           \<and> coherent k (distinguished (dom ct)) (instance_value ct obj ifs) c'"
proof (rule instanceof_cache.memo_rec [where body = "\<lambda>self a b. isInstanceof ct self a b" and depth = "class_depth ct"])
  show "dvmInstanceof (Suc m) ct a b c = (if a = b then Some (Ret (instance_value ct obj ifs a b, c))
      else ATOMIC_CACHE_LOOKUP (isInstanceof ct (\<lambda>a. dvmInstanceof m ct a) a b) c a b)" for m a b c
    by (simp add: dvmInstanceofNonTrivial_def)
next
  fix self :: "u8 \<Rightarrow> u8 \<Rightarrow> cache \<Rightarrow> (u4 \<times> cache) outcome option" and a b c
  assume q: "(a, b) \<in> distinguished (dom ct)" and "a \<noteq> b"
    and h: "coherent k (distinguished (dom ct)) (instance_value ct obj ifs) c"
    and IH: "\<And>a' b' c'. (a', b') \<in> distinguished (dom ct) \<Longrightarrow> class_depth ct a' < class_depth ct a
      \<Longrightarrow> coherent k (distinguished (dom ct)) (instance_value ct obj ifs) c'
      \<Longrightarrow> \<exists>c''. self a' b' c' = Some (Ret (instance_value ct obj ifs a' b', c''))
            \<and> coherent k (distinguished (dom ct)) (instance_value ct obj ifs) c''"
  have D: "distinguished (dom ct) = dom ct \<times> dom ct" using assms(2,3) by (simp add: distinguished_def)
  then obtain ca cb where "ct a = Some ca" "ct b = Some cb" using q by auto
  then show "\<exists>c'. isInstanceof ct self a b c = Some (Ret (instance_value ct obj ifs a b, c'))
      \<and> coherent k (distinguished (dom ct)) (instance_value ct obj ifs) c'"
  proof (rule isInstanceof_spec [where P = "coherent k (distinguished (dom ct)) (instance_value ct obj ifs)",
        OF ok _ _ \<open>a \<noteq> b\<close> h])
    fix e f assume "plain ct e" "plain ct f" "class_depth ct e < class_depth ct a"
    then show "\<exists>c'. self e f c = Some (Ret (instance_value ct obj ifs e f, c'))
        \<and> coherent k (distinguished (dom ct)) (instance_value ct obj ifs) c'"
      by (intro IH h) (auto simp: D plain_def)
  qed
qed (use assms in \<open>auto simp: distinguished_def\<close>)





text \<open>C33 The cache compares the low 32 bits of the 64-bit addresses only. After one check of \<open>a\<close>
  against \<open>b\<close>, the check of any other pair of classes whose addresses agree with theirs in the low 32
  bits returns the answer for \<open>a\<close> and \<open>b\<close>, without looking at the classes.\<close>

theorem instanceof_confuses_addresses:
  assumes "loaded_ok ct obj ifs" and "plain ct a" and "plain ct b" and "a \<noteq> b" and "a' \<noteq> b'"
    and "low32 a' = low32 a" and "low32 b' = low32 b" and "low32 a \<noteq> 0 \<or> low32 b \<noteq> 0"
  shows "\<exists>c1. dvmInstanceof (Suc n) ct a b (fresh_cache k) = Some (Ret (instance_value ct obj ifs a b, c1))
           \<and> dvmInstanceof (Suc n) ct a' b' c1 = Some (Ret (instance_value ct obj ifs a b, c1))"
proof -
  let ?v = "instance_value ct obj ifs a b"
  let ?i = "cache_index (2 ^ k) a b"
  define e where "e = \<lparr>key1 = ucast (low32 a), key2 = ucast (low32 b), cached = ucast ?v, version = 2\<rparr>"
  have i: "?i < 2 ^ k" "cache_index (2 ^ k) a' b' = ?i" using assms(6,7) cache_index_less by (simp_all add: cache_index_def)
  have z: "(ucast (low32 p) :: u8) = 0 \<longleftrightarrow> low32 p = 0" for p
    using ucast_low32_eq [of p 0] by (simp add: low32_def)
  have v: "isInstanceof ct (dvmInstanceof n ct) a b (fresh_cache k) = Some (Ret (?v, fresh_cache k))"
    using plain_spec [OF assms(1-4)] assms(2,3)
    by (auto simp: instance_value_def subtype_iff [OF assms(1)] type_of_class_def plain_def jsub_def)
  have u: "dvmUpdateAtomicCache (ucast (low32 a)) (ucast (low32 b)) (ucast ?v) zero_cache_entry 0 = Ret e"
    by (simp add: dvmUpdateAtomicCache_def android_quasiatomic_cmpxchg_64_def zero_cache_entry_def ATOMIC_LOCK_FLAG_def e_def)
  have "dvmInstanceof (Suc n) ct a b (fresh_cache k) = Some (Ret (?v, (fresh_cache k)[?i := e]))"
    using assms(4,8) i v u z
    by (auto simp: dvmInstanceofNonTrivial_def ATOMIC_CACHE_LOOKUP_def fresh_cache_def zero_cache_entry_def low32_def Let_def)
  moreover have "dvmInstanceof (Suc n) ct a' b' ((fresh_cache k)[?i := e]) = Some (Ret (?v, (fresh_cache k)[?i := e]))"
    using assms(5-7) i
    by (simp add: dvmInstanceofNonTrivial_def ATOMIC_CACHE_LOOKUP_def fresh_cache_def e_def Let_def) (simp add: low32_def)
  ultimately show ?thesis by blast
qed

theorem instanceof_confuses_addresses_witness:
  "\<not> subtype far_classes 16 {32} (Cls 0x100000040) (Cls 48)
   \<and> (\<exists>c1 c2. dvmInstanceof 1 far_classes 64 48 (fresh_cache 10) = Some (Ret (1, c1))
       \<and> dvmInstanceof 1 far_classes 0x100000040 48 c1 = Some (Ret (1, c2)))"
proof -
  have "plain far_classes 64" "plain far_classes 48" by (simp_all add: example_simps)
  moreover have "instance_value far_classes 16 {32} 64 48 = 1"
    using example_subtypes(3) by (simp add: instance_value_def type_of_class_def example_simps c_bool_def)
  ultimately show ?thesis
    using instanceof_confuses_addresses [OF far_loaded, of 64 48 "0x100000040" 48 0 10] example_subtypes(4)
    by (auto simp: low32_def)
qed

end
