(* ===== verification/VerifyRegs.thy ===== *)
theory VerifyRegs
  imports TypeCheck
begin

text \<open>
  Register types of the bytecode verifier, \<^verbatim>\<open>src/vm/analysis/CodeVerify.h\<close> and the first half of
  \<^verbatim>\<open>src/vm/analysis/CodeVerify.c\<close>: the encoding of a register type in 32 bits, the conversion and merge tables, reading, checking and
  setting the type of a register, and the merge of two types at a join of control flow. A register type is
  a small number for a primitive type, \<open>1\<close> in the low byte with an index above it for an
  uninitialized reference, and otherwise the address of a class cut to 32 bits.
\<close>

section \<open>Register types\<close>

type_synonym RegType = u4

abbreviation (input) kRegTypeUnknown :: RegType where "kRegTypeUnknown \<equiv> 0"
abbreviation (input) kRegTypeUninit :: RegType where "kRegTypeUninit \<equiv> 1"
abbreviation (input) kRegTypeConflict :: RegType where "kRegTypeConflict \<equiv> 2"
abbreviation (input) kRegTypeFloat :: RegType where "kRegTypeFloat \<equiv> 3"
abbreviation (input) kRegTypeZero :: RegType where "kRegTypeZero \<equiv> 4"
abbreviation (input) kRegTypeOne :: RegType where "kRegTypeOne \<equiv> 5"
abbreviation (input) kRegTypeBoolean :: RegType where "kRegTypeBoolean \<equiv> 6"
abbreviation (input) kRegTypePosByte :: RegType where "kRegTypePosByte \<equiv> 7"
abbreviation (input) kRegTypeByte :: RegType where "kRegTypeByte \<equiv> 8"
abbreviation (input) kRegTypePosShort :: RegType where "kRegTypePosShort \<equiv> 9"
abbreviation (input) kRegTypeShort :: RegType where "kRegTypeShort \<equiv> 10"
abbreviation (input) kRegTypeChar :: RegType where "kRegTypeChar \<equiv> 11"
abbreviation (input) kRegTypeInteger :: RegType where "kRegTypeInteger \<equiv> 12"
abbreviation (input) kRegTypeLongLo :: RegType where "kRegTypeLongLo \<equiv> 13"
abbreviation (input) kRegTypeLongHi :: RegType where "kRegTypeLongHi \<equiv> 14"
abbreviation (input) kRegTypeDoubleLo :: RegType where "kRegTypeDoubleLo \<equiv> 15"
abbreviation (input) kRegTypeDoubleHi :: RegType where "kRegTypeDoubleHi \<equiv> 16"
abbreviation (input) kRegTypeMAX :: RegType where "kRegTypeMAX \<equiv> 17"
abbreviation (input) kRegType1nrSTART :: RegType where "kRegType1nrSTART \<equiv> kRegTypeFloat"
abbreviation (input) kRegType1nrEND :: RegType where "kRegType1nrEND \<equiv> kRegTypeInteger"

definition kExtraRegs :: nat where
  "kExtraRegs = 2"

text \<open>The merge table; a row and a column for each of the seventeen simple types.\<close>

definition gDvmMergeTab :: "nat list list" where
  "gDvmMergeTab =
    [[0,2,2,2,2,2,2,2,2,2,2,2,2,2,2,2,2],
     [2,1,2,2,2,2,2,2,2,2,2,2,2,2,2,2,2],
     [2,2,2,2,2,2,2,2,2,2,2,2,2,2,2,2,2],
     [2,2,2,3,3,3,3,3,3,3,3,3,3,2,2,2,2],
     [2,2,2,3,4,6,6,7,8,9,10,11,12,2,2,2,2],
     [2,2,2,3,6,5,6,7,8,9,10,11,12,2,2,2,2],
     [2,2,2,3,6,6,6,7,8,9,10,11,12,2,2,2,2],
     [2,2,2,3,7,7,7,7,8,9,10,11,12,2,2,2,2],
     [2,2,2,3,8,8,8,8,8,10,10,12,12,2,2,2,2],
     [2,2,2,3,9,9,9,9,10,9,10,11,12,2,2,2,2],
     [2,2,2,3,10,10,10,10,10,10,10,12,12,2,2,2,2],
     [2,2,2,3,11,11,11,11,12,11,12,11,12,2,2,2,2],
     [2,2,2,3,12,12,12,12,12,12,12,12,12,2,2,2,2],
     [2,2,2,2,2,2,2,2,2,2,2,2,2,13,2,13,2],
     [2,2,2,2,2,2,2,2,2,2,2,2,2,2,14,2,14],
     [2,2,2,2,2,2,2,2,2,2,2,2,2,13,2,15,2],
     [2,2,2,2,2,2,2,2,2,2,2,2,2,2,14,2,16]]"

text \<open>The start-up check of the table; it stops the VM at an asymmetry.\<close>

definition checkMergeTab :: "unit outcome" where
  "checkMergeTab =
     (if list_all (\<lambda>i. list_all (\<lambda>j. gDvmMergeTab ! i ! j = gDvmMergeTab ! j ! i) [i..<17]) [0..<17]
      then Ret () else AbortVM)"

definition conv_tab :: "nat list list" where
  "conv_tab =
    [[1,0,0,0,0,0,0,0,0,1],
     [1,1,0,1,1,1,1,1,1,1],
     [1,0,1,1,1,1,1,1,1,1],
     [1,0,0,1,1,1,1,1,1,1],
     [1,0,0,0,1,1,1,1,1,1],
     [1,0,0,0,0,1,0,1,0,1],
     [1,0,0,0,0,0,1,1,1,1],
     [1,0,0,0,0,0,0,1,0,1],
     [1,0,0,0,0,0,0,0,1,1],
     [1,0,0,0,0,0,0,0,0,1]]"

definition canConvertTo1nr :: "RegType \<Rightarrow> RegType \<Rightarrow> bool outcome" where
  "canConvertTo1nr srcType checkType =
     (if \<not> (checkType \<ge> kRegType1nrSTART \<and> checkType \<le> kRegType1nrEND) then AbortVM
      else if srcType \<ge> kRegType1nrSTART \<and> srcType \<le> kRegType1nrEND
      then Ret (conv_tab ! unat (srcType - kRegType1nrSTART) ! unat (checkType - kRegType1nrSTART) \<noteq> 0)
      else Ret False)"

definition canConvertTo2 :: "RegType \<Rightarrow> RegType \<Rightarrow> bool" where
  "canConvertTo2 srcType checkType \<longleftrightarrow>
     (srcType = kRegTypeLongLo \<or> srcType = kRegTypeDoubleLo) \<and> (checkType = kRegTypeLongLo \<or> checkType = kRegTypeDoubleLo)"

definition checkFieldArrayStore1nr :: "RegType \<Rightarrow> RegType \<Rightarrow> bool" where
  "checkFieldArrayStore1nr instrType targetType \<longleftrightarrow>
     instrType = targetType
     \<or> instrType = kRegTypeInteger \<and> targetType = kRegTypeFloat \<or> instrType = kRegTypeFloat \<and> targetType = kRegTypeInteger"

text \<open>
  The guard admits one number more than the table has rows: for \<open>PRIM_VOID\<close> the table is read
  behind its end. \<open>PRIM_NOT\<close> fails the assertion.
\<close>

fun primitiveTypeToRegType :: "PrimitiveType \<Rightarrow> RegType outcome" where
  "primitiveTypeToRegType PRIM_BOOLEAN = Ret kRegTypeBoolean"
| "primitiveTypeToRegType PRIM_CHAR = Ret kRegTypeChar"
| "primitiveTypeToRegType PRIM_FLOAT = Ret kRegTypeFloat"
| "primitiveTypeToRegType PRIM_DOUBLE = Ret kRegTypeDoubleLo"
| "primitiveTypeToRegType PRIM_BYTE = Ret kRegTypeByte"
| "primitiveTypeToRegType PRIM_SHORT = Ret kRegTypeShort"
| "primitiveTypeToRegType PRIM_INT = Ret kRegTypeInteger"
| "primitiveTypeToRegType PRIM_LONG = Ret kRegTypeLongLo"
| "primitiveTypeToRegType PRIM_VOID = OutOfBounds"
| "primitiveTypeToRegType PRIM_NOT = AbortVM"

text \<open>The smallest type a constant fits into, from \<^verbatim>\<open>src/vm/analysis/VerifySubs.c\<close>.\<close>

definition dvmDetermineCat1Const :: "int \<Rightarrow> RegType" where
  "dvmDetermineCat1Const v =
     (if v < - 32768 then kRegTypeInteger
      else if v < - 128 then kRegTypeShort
      else if v < 0 then kRegTypeByte
      else if v = 0 then kRegTypeZero
      else if v = 1 then kRegTypeOne
      else if v < 128 then kRegTypePosByte
      else if v < 32768 then kRegTypePosShort
      else if v < 65536 then kRegTypeChar
      else kRegTypeInteger)"

definition regTypeIsReference :: "RegType \<Rightarrow> bool" where
  "regTypeIsReference type \<longleftrightarrow> type > kRegTypeMAX \<or> type = kRegTypeUninit \<or> type = kRegTypeZero"

definition regTypeIsUninitReference :: "RegType \<Rightarrow> bool" where
  "regTypeIsUninitReference type \<longleftrightarrow> type AND 0xff = kRegTypeUninit"

definition regTypeInitializedReferenceToClass :: "RegType \<Rightarrow> u8 outcome" where
  "regTypeInitializedReferenceToClass type =
     (if \<not> (regTypeIsReference type \<and> type \<noteq> kRegTypeZero) then AbortVM
      else if type AND 1 = 0 then Ret (ucast type) else Ret 0)"

definition regTypeToUninitIndex :: "RegType \<Rightarrow> int outcome" where
  "regTypeToUninitIndex type = (if \<not> regTypeIsUninitReference type then AbortVM else Ret (uint (drop_bit 8 type)))"

definition regTypeFromClass :: "u8 \<Rightarrow> RegType" where
  "regTypeFromClass clazz = ucast clazz"

definition regTypeFromUninitIndex :: "int \<Rightarrow> RegType" where
  "regTypeFromUninitIndex uidx = kRegTypeUninit OR push_bit 8 (word_of_int uidx)"

section \<open>Uninitialized instances\<close>

text \<open>The map from the addresses of the allocating instructions to the class allocated there; \<open>0\<close> is not yet known.\<close>

type_synonym UninitInstanceMap = "(int \<times> u8) list"

definition kUninitThisArgAddr :: int where
  "kUninitThisArgAddr = - 1"

definition kUninitThisArgSlot :: int where
  "kUninitThisArgSlot = 0"

fun set_uninit :: "UninitInstanceMap \<Rightarrow> int \<Rightarrow> u8 \<Rightarrow> nat \<Rightarrow> (int \<times> UninitInstanceMap) outcome" where
  "set_uninit uninitMap addr clazz 0 = AbortVM"
| "set_uninit uninitMap addr clazz (Suc idx) =
     (if fst (uninitMap ! idx) = addr then
        if snd (uninitMap ! idx) \<noteq> 0 \<and> snd (uninitMap ! idx) \<noteq> clazz then Ret (- 1, uninitMap)
        else Ret (int idx, uninitMap[idx := (addr, clazz)])
      else set_uninit uninitMap addr clazz idx)"

definition dvmSetUninitInstance :: "UninitInstanceMap \<Rightarrow> int \<Rightarrow> u8 \<Rightarrow> (int \<times> UninitInstanceMap) outcome" where
  "dvmSetUninitInstance uninitMap addr clazz =
     (if clazz = 0 then AbortVM else set_uninit uninitMap addr clazz (length uninitMap))"

definition dvmGetUninitInstance :: "UninitInstanceMap \<Rightarrow> int \<Rightarrow> u8 outcome" where
  "dvmGetUninitInstance uninitMap idx =
     (if \<not> (0 \<le> idx \<and> idx < int (length uninitMap)) then AbortVM else Ret (snd (uninitMap ! nat idx)))"

definition regTypeReferenceToClass :: "RegType \<Rightarrow> UninitInstanceMap \<Rightarrow> u8 outcome" where
  "regTypeReferenceToClass type uninitMap =
     (if \<not> (regTypeIsReference type \<and> type \<noteq> kRegTypeZero) then AbortVM
      else if regTypeIsUninitReference type
      then bind_out (regTypeToUninitIndex type) (dvmGetUninitInstance uninitMap)
      else Ret (ucast type))"

section \<open>Registers\<close>

text \<open>
  \<open>okay\<close> is the flag behind \<open>pOkay\<close>: a check clears it and never sets it. Register numbers are compared with the
  register count; the array has \<open>kExtraRegs\<close> more entries.
\<close>

definition getRegisterType :: "RegType list \<Rightarrow> nat \<Rightarrow> u4 \<Rightarrow> bool \<Rightarrow> (RegType \<times> bool) outcome" where
  "getRegisterType insnRegs insnRegCount vsrc okay =
     (if unat vsrc \<ge> insnRegCount then Ret (kRegTypeUnknown, False)
      else if unat vsrc < length insnRegs then Ret (insnRegs ! unat vsrc, okay) else OutOfBounds)"

definition getClassFromRegister :: "RegType list \<Rightarrow> nat \<Rightarrow> u4 \<Rightarrow> bool \<Rightarrow> (u8 \<times> bool) outcome" where
  "getClassFromRegister insnRegs insnRegCount vsrc okay =
     bind_out (getRegisterType insnRegs insnRegCount vsrc okay) (\<lambda>(type, okay).
       if \<not> okay then Ret (0, False)
       else if type = kRegTypeZero then Ret (0, okay)
       else if \<not> regTypeIsReference type then Ret (0, False)
       else if regTypeIsUninitReference type then Ret (0, False)
       else bind_out (regTypeInitializedReferenceToClass type) (\<lambda>clazz. Ret (clazz, okay)))"

definition setRegisterType :: "RegType list \<Rightarrow> nat \<Rightarrow> u4 \<Rightarrow> RegType \<Rightarrow> bool \<Rightarrow> (RegType list \<times> bool) outcome" where
  "setRegisterType insnRegs insnRegCount vdst newType okay =
     (if newType \<in> {kRegTypeUnknown, kRegTypeBoolean, kRegTypeOne, kRegTypeByte, kRegTypePosByte, kRegTypeShort,
          kRegTypePosShort, kRegTypeChar, kRegTypeInteger, kRegTypeFloat, kRegTypeZero} then
        if unat vdst \<ge> insnRegCount then Ret (insnRegs, False)
        else bind_out (list_store insnRegs (unat vdst) newType) (\<lambda>r. Ret (r, okay))
      else if newType \<in> {kRegTypeLongLo, kRegTypeDoubleLo} then
        if unat (vdst + 1) \<ge> insnRegCount then Ret (insnRegs, False)
        else bind_out (list_store insnRegs (unat vdst) newType) (\<lambda>r.
             bind_out (list_store r (unat (vdst + 1)) (newType + 1)) (\<lambda>r. Ret (r, okay)))
      else if newType \<in> {kRegTypeLongHi, kRegTypeDoubleHi} then Ret (insnRegs, False)
      else if newType \<noteq> kRegTypeConflict \<and> regTypeIsReference newType then
        if unat vdst \<ge> insnRegCount then Ret (insnRegs, False)
        else bind_out (list_store insnRegs (unat vdst) newType) (\<lambda>r. Ret (r, okay))
      else AbortVM)"

definition setResultRegisterType :: "RegType list \<Rightarrow> nat \<Rightarrow> RegType \<Rightarrow> bool \<Rightarrow> (RegType list \<times> bool) outcome" where
  "setResultRegisterType insnRegs insnRegCount newType okay =
     setRegisterType insnRegs (insnRegCount + kExtraRegs) (word_of_nat insnRegCount) newType okay"

text \<open>\<open>dvmInstanceof\<close> as the verifier uses it: the answer does not depend on what the cache holds.\<close>

definition instance_check :: "class_table \<Rightarrow> u8 \<Rightarrow> u8 \<Rightarrow> bool run" where
  "instance_check ct a b = bind_run (dvmInstanceof 2 ct a b (fresh_cache 10)) (\<lambda>(v, _). ret (v \<noteq> 0))"

definition verifyRegisterType :: "class_table \<Rightarrow> RegType list \<Rightarrow> nat \<Rightarrow> u4 \<Rightarrow> RegType \<Rightarrow> bool \<Rightarrow> bool run" where
  "verifyRegisterType ct insnRegs insnRegCount vsrc checkType okay =
     (if unat vsrc \<ge> insnRegCount then ret False
      else if unat vsrc \<ge> length insnRegs then Some OutOfBounds
      else
        let srcType = insnRegs ! unat vsrc in
        if checkType \<in> {kRegTypeFloat, kRegTypeBoolean, kRegTypePosByte, kRegTypeByte, kRegTypePosShort, kRegTypeShort,
             kRegTypeChar, kRegTypeInteger} then
          bind_run (Some (canConvertTo1nr srcType checkType)) (\<lambda>c. ret (c \<and> okay))
        else if checkType \<in> {kRegTypeLongLo, kRegTypeDoubleLo} then
          if unat (vsrc + 1) \<ge> insnRegCount then ret False
          else if unat (vsrc + 1) \<ge> length insnRegs then Some OutOfBounds
          else if insnRegs ! unat (vsrc + 1) \<noteq> srcType + 1 then ret False
          else if \<not> canConvertTo2 srcType checkType then ret False
          else ret okay
        else if checkType \<in> {kRegTypeLongHi, kRegTypeDoubleHi, kRegTypeZero, kRegTypeOne, kRegTypeUnknown, kRegTypeConflict}
        then Some AbortVM
        else if \<not> regTypeIsReference checkType then Some AbortVM
        else if regTypeIsUninitReference checkType then ret False
        else if \<not> regTypeIsReference srcType then ret False
        else if regTypeIsUninitReference srcType then ret False
        else if srcType = kRegTypeZero then ret okay
        else
          bind_run (Some (regTypeInitializedReferenceToClass srcType)) (\<lambda>srcClass.
          bind_run (Some (regTypeInitializedReferenceToClass checkType)) (\<lambda>checkClass.
            if srcClass = 0 \<or> checkClass = 0 then Some AbortVM
            else deref ct checkClass (\<lambda>c.
              if dvmIsInterfaceClass c then ret okay
              else bind_run (instance_check ct srcClass checkClass) (\<lambda>b. ret (b \<and> okay))))))"

definition markRefsAsInitialized ::
  "RegType list \<Rightarrow> nat \<Rightarrow> UninitInstanceMap \<Rightarrow> RegType \<Rightarrow> bool \<Rightarrow> (RegType list \<times> bool) outcome" where
  "markRefsAsInitialized insnRegs insnRegCount uninitMap uninitType okay =
     bind_out (regTypeToUninitIndex uninitType) (\<lambda>i.
     bind_out (dvmGetUninitInstance uninitMap i) (\<lambda>clazz.
       if clazz = 0 then Ret (insnRegs, False)
       else if insnRegCount > length insnRegs then OutOfBounds
       else if \<not> uninitType \<in> set (take insnRegCount insnRegs) then AbortVM
       else Ret (map (\<lambda>t. if t = uninitType then regTypeFromClass clazz else t) (take insnRegCount insnRegs)
                 @ drop insnRegCount insnRegs, okay)))"

definition markUninitRefsAsInvalid :: "RegType list \<Rightarrow> nat \<Rightarrow> RegType \<Rightarrow> RegType list outcome" where
  "markUninitRefsAsInvalid insnRegs insnRegCount uninitType =
     (if insnRegCount > length insnRegs then OutOfBounds
      else Ret (map (\<lambda>t. if t = uninitType then kRegTypeConflict else t) (take insnRegCount insnRegs)
                @ drop insnRegCount insnRegs))"

datatype TypeCategory = kTypeCategoryUnknown | kTypeCategory1nr | kTypeCategory2 | kTypeCategoryRef

fun checkTypeCategory :: "RegType \<Rightarrow> TypeCategory \<Rightarrow> bool \<Rightarrow> bool outcome" where
  "checkTypeCategory type kTypeCategory1nr okay =
     Ret (type \<in> {kRegTypeFloat, kRegTypeZero, kRegTypeOne, kRegTypeBoolean, kRegTypePosByte, kRegTypeByte,
            kRegTypePosShort, kRegTypeShort, kRegTypeChar, kRegTypeInteger} \<and> okay)"
| "checkTypeCategory type kTypeCategory2 okay = Ret (type \<in> {kRegTypeLongLo, kRegTypeDoubleLo} \<and> okay)"
| "checkTypeCategory type kTypeCategoryRef okay = Ret ((type = kRegTypeZero \<or> regTypeIsReference type) \<and> okay)"
| "checkTypeCategory type kTypeCategoryUnknown okay = AbortVM"

definition checkWidePair :: "RegType \<Rightarrow> RegType \<Rightarrow> bool \<Rightarrow> bool" where
  "checkWidePair typel typeh okay \<longleftrightarrow> typeh = typel + 1 \<and> okay"

definition copyRegister1 ::
  "RegType list \<Rightarrow> nat \<Rightarrow> u4 \<Rightarrow> u4 \<Rightarrow> TypeCategory \<Rightarrow> bool \<Rightarrow> (RegType list \<times> bool) outcome" where
  "copyRegister1 insnRegs insnRegCount vdst vsrc cat okay =
     bind_out (getRegisterType insnRegs insnRegCount vsrc okay) (\<lambda>(type, okay).
     bind_out (if okay then checkTypeCategory type cat okay else Ret okay) (\<lambda>okay.
       if okay then setRegisterType insnRegs insnRegCount vdst type okay else Ret (insnRegs, okay)))"

definition copyRegister2 :: "RegType list \<Rightarrow> nat \<Rightarrow> u4 \<Rightarrow> u4 \<Rightarrow> bool \<Rightarrow> (RegType list \<times> bool) outcome" where
  "copyRegister2 insnRegs insnRegCount vdst vsrc okay =
     bind_out (getRegisterType insnRegs insnRegCount vsrc okay) (\<lambda>(typel, okay).
     bind_out (getRegisterType insnRegs insnRegCount (vsrc + 1) okay) (\<lambda>(typeh, okay).
     bind_out (if okay then bind_out (checkTypeCategory typel kTypeCategory2 okay) (\<lambda>okay. Ret (checkWidePair typel typeh okay))
               else Ret okay) (\<lambda>okay.
       if okay then setRegisterType insnRegs insnRegCount vdst typel okay else Ret (insnRegs, okay))))"

definition copyResultRegister1 ::
  "RegType list \<Rightarrow> nat \<Rightarrow> u4 \<Rightarrow> TypeCategory \<Rightarrow> bool \<Rightarrow> (RegType list \<times> bool) outcome" where
  "copyResultRegister1 insnRegs insnRegCount vdst cat okay =
     (let vsrc = word_of_nat insnRegCount in
      bind_out (getRegisterType insnRegs (insnRegCount + kExtraRegs) vsrc okay) (\<lambda>(type, okay).
      bind_out (if okay then checkTypeCategory type cat okay else Ret okay) (\<lambda>okay.
        if okay then
          bind_out (setRegisterType insnRegs insnRegCount vdst type okay) (\<lambda>(r, okay).
          bind_out (list_store r (unat vsrc) kRegTypeUnknown) (\<lambda>r. Ret (r, okay)))
        else Ret (insnRegs, okay))))"

definition copyResultRegister2 :: "RegType list \<Rightarrow> nat \<Rightarrow> u4 \<Rightarrow> bool \<Rightarrow> (RegType list \<times> bool) outcome" where
  "copyResultRegister2 insnRegs insnRegCount vdst okay =
     (let vsrc = word_of_nat insnRegCount in
      bind_out (getRegisterType insnRegs (insnRegCount + kExtraRegs) vsrc okay) (\<lambda>(typel, okay).
      bind_out (getRegisterType insnRegs (insnRegCount + kExtraRegs) (vsrc + 1) okay) (\<lambda>(typeh, okay).
      bind_out (if okay then bind_out (checkTypeCategory typel kTypeCategory2 okay) (\<lambda>okay. Ret (checkWidePair typel typeh okay))
                else Ret okay) (\<lambda>okay.
        if okay then
          bind_out (setRegisterType insnRegs insnRegCount vdst typel okay) (\<lambda>(r, okay).
          bind_out (list_store r (unat vsrc) kRegTypeUnknown) (\<lambda>r.
          bind_out (list_store r (unat (vsrc + 1)) kRegTypeUnknown) (\<lambda>r. Ret (r, okay))))
        else Ret (insnRegs, okay)))))"

section \<open>Merging types\<close>

partial_function (option) getClassDepth :: "class_table \<Rightarrow> u8 \<Rightarrow> int \<Rightarrow> int outcome option" where
  "getClassDepth ct clazz depth =
     (case ct clazz of
        None \<Rightarrow> Some OutOfBounds
      | Some c \<Rightarrow> if super c \<noteq> 0 then getClassDepth ct (super c) (depth + 1) else Some (Ret depth))"

text \<open>\<open>while (depth1 > depth2) { c1 = c1->super; depth1--; }\<close>.\<close>

fun climb :: "class_table \<Rightarrow> nat \<Rightarrow> u8 \<Rightarrow> u8 outcome" where
  "climb ct 0 c = Ret c"
| "climb ct (Suc n) c = (case ct c of None \<Rightarrow> OutOfBounds | Some k \<Rightarrow> climb ct n (super k))"

partial_function (option) lock_step :: "class_table \<Rightarrow> u8 \<Rightarrow> u8 \<Rightarrow> u8 outcome option" where
  "lock_step ct c1 c2 =
     (if c1 = c2 then Some (Ret c1)
      else case ct c1 of
        None \<Rightarrow> Some OutOfBounds
      | Some k1 \<Rightarrow> (case ct c2 of
          None \<Rightarrow> Some OutOfBounds
        | Some k2 \<Rightarrow> if super k1 \<noteq> 0 \<and> super k2 \<noteq> 0 then lock_step ct (super k1) (super k2) else Some AbortVM))"

definition digForSuperclass :: "class_table \<Rightarrow> u8 \<Rightarrow> u8 \<Rightarrow> u8 run" where
  "digForSuperclass ct c1 c2 =
     bind_run (getClassDepth ct c1 0) (\<lambda>depth1.
     bind_run (getClassDepth ct c2 0) (\<lambda>depth2.
     bind_run (Some (climb ct (nat (depth1 - depth2)) c1)) (\<lambda>c1.
     bind_run (Some (climb ct (nat (depth2 - depth1)) c2)) (\<lambda>c2.
       lock_step ct c1 c2))))"

text \<open>\<open>arr\<close> is \<open>dvmFindArrayClassForElement\<close>, \<open>common\<close> the recursive call of \<open>findCommonSuperclass\<close>.\<close>

fun array_of :: "(u8 \<Rightarrow> u8) \<Rightarrow> nat \<Rightarrow> u8 \<Rightarrow> u8" where
  "array_of arr 0 c = c"
| "array_of arr (Suc n) c = array_of arr n (arr c)"

definition findCommonArraySuperclass ::
  "class_table \<Rightarrow> (u8 \<Rightarrow> u8) \<Rightarrow> (u8 \<Rightarrow> u8 \<Rightarrow> u8 run) \<Rightarrow> u8 \<Rightarrow> u8 \<Rightarrow> u8 run" where
  "findCommonArraySuperclass ct arr common c1 c2 =
     deref ct c1 (\<lambda>k1. deref ct c2 (\<lambda>k2.
       if \<not> (arrayDim k1 > 0 \<and> arrayDim k2 > 0) then Some AbortVM
       else if arrayDim k1 = arrayDim k2 then
         bind_run (common (elementClass k1) (elementClass k2)) (\<lambda>commonElem. ret (array_of arr (nat (arrayDim k1)) commonElem))
       else ret (array_of arr (nat (min (arrayDim k1) (arrayDim k2))) (super k1))))"

definition dvmIsPrimitiveClass :: "ClassObject \<Rightarrow> bool" where
  "dvmIsPrimitiveClass clazz \<longleftrightarrow> primitiveType clazz \<noteq> PRIM_NOT"

text \<open>As with \<open>dvmInstanceof\<close>, the first argument bounds the nesting; two levels are enough.\<close>

fun findCommonSuperclass :: "nat \<Rightarrow> class_table \<Rightarrow> (u8 \<Rightarrow> u8) \<Rightarrow> u8 \<Rightarrow> u8 \<Rightarrow> u8 run" where
  "findCommonSuperclass 0 ct arr c1 c2 = None"
| "findCommonSuperclass (Suc n) ct arr c1 c2 =
     deref ct c1 (\<lambda>k1. deref ct c2 (\<lambda>k2.
       if dvmIsPrimitiveClass k1 \<or> dvmIsPrimitiveClass k2 then Some AbortVM
       else if c1 = c2 then ret c1
       else
         bind_run (if dvmIsInterfaceClass k1 then dvmImplements ct c2 c1 else ret False) (\<lambda>b1.
         if b1 then ret c1
         else
           bind_run (if dvmIsInterfaceClass k2 then dvmImplements ct c1 c2 else ret False) (\<lambda>b2.
           if b2 then ret c2
           else if dvmIsArrayClass k1 \<and> dvmIsArrayClass k2 then
             deref ct (elementClass k1) (\<lambda>e1. deref ct (elementClass k2) (\<lambda>e2.
               if \<not> dvmIsPrimitiveClass e1 \<and> \<not> dvmIsPrimitiveClass e2
               then findCommonArraySuperclass ct arr (findCommonSuperclass n ct arr) c1 c2
               else digForSuperclass ct c1 c2))
           else digForSuperclass ct c1 c2))))"

text \<open>The merged type, and the flag behind \<open>pChanged\<close>.\<close>

definition mergeTypes :: "class_table \<Rightarrow> (u8 \<Rightarrow> u8) \<Rightarrow> RegType \<Rightarrow> RegType \<Rightarrow> bool \<Rightarrow> (RegType \<times> bool) run" where
  "mergeTypes ct arr type1 type2 changed =
     (if type1 = type2 then ret (type1, changed)
      else
        bind_run
          (if type1 < kRegTypeMAX then
             if type2 < kRegTypeMAX then ret (word_of_nat (gDvmMergeTab ! unat type1 ! unat type2))
             else if type1 = kRegTypeZero then ret type2 else ret kRegTypeConflict
           else if type2 < kRegTypeMAX then
             if type2 = kRegTypeZero then ret type1 else ret kRegTypeConflict
           else if regTypeIsUninitReference type1 \<or> regTypeIsUninitReference type2 then ret kRegTypeConflict
           else
             bind_run (Some (regTypeInitializedReferenceToClass type1)) (\<lambda>clazz1.
             bind_run (Some (regTypeInitializedReferenceToClass type2)) (\<lambda>clazz2.
             bind_run (findCommonSuperclass 2 ct arr clazz1 clazz2) (\<lambda>mergedClass.
               if mergedClass = 0 then Some AbortVM else ret (regTypeFromClass mergedClass)))))
          (\<lambda>result. ret (result, if result \<noteq> type1 then True else changed)))"

text \<open>The loop over the registers of a line, with the flag passed along.\<close>

fun merge_lines :: "('t \<Rightarrow> 't \<Rightarrow> bool \<Rightarrow> ('t \<times> bool) run) \<Rightarrow> 't list \<Rightarrow> 't list \<Rightarrow> bool \<Rightarrow> ('t list \<times> bool) run" where
  "merge_lines mg (t # ts) (w # ws) changed =
     bind_run (mg t w changed) (\<lambda>(t, changed).
     bind_run (merge_lines mg ts ws changed) (\<lambda>(ts, changed). ret (t # ts, changed)))"
| "merge_lines mg _ _ changed = ret ([], changed)"

section \<open>Values of the category 1 types\<close>

text \<open>What the constants of \<^verbatim>\<open>CodeVerify.h\<close> mean: the least and the greatest value of a category 1 type that is not a reference, as a signed 32-bit number.\<close>

definition cat1_bounds :: "nat \<Rightarrow> int \<times> int" where
  "cat1_bounds t = [(- 2147483648, 2147483647), (0, 0), (1, 1), (0, 1), (0, 127), (- 128, 127), (0, 32767), (- 32768, 32767),
     (0, 65535), (- 2147483648, 2147483647)] ! (t - 3)"

definition is_cat1 :: "RegType \<Rightarrow> bool" where
  "is_cat1 t \<longleftrightarrow> kRegType1nrSTART \<le> t \<and> t \<le> kRegType1nrEND"

definition cat1_values :: "RegType \<Rightarrow> int set" where
  "cat1_values t = {fst (cat1_bounds (unat t)) .. snd (cat1_bounds (unat t))}"

definition within :: "nat \<Rightarrow> nat \<Rightarrow> bool" where
  "within a b \<longleftrightarrow> fst (cat1_bounds b) \<le> fst (cat1_bounds a) \<and> snd (cat1_bounds a) \<le> snd (cat1_bounds b)"

lemma cat1_nat: "is_cat1 a \<longleftrightarrow> unat a \<in> set [3..<13]"
  unfolding set_upt atLeastLessThan_iff is_cat1_def word_le_nat_alt by simp linarith

lemma conv_tab_range:
  "list_all (\<lambda>a. list_all (\<lambda>b. (conv_tab ! (a - 3) ! (b - 3) \<noteq> 0) = within a b) [3..<13]) [3..<13]"
  by code_simp

lemma cat1_bounds_nonempty: "list_all (\<lambda>a. fst (cat1_bounds a) \<le> snd (cat1_bounds a)) [3..<13]"
  by code_simp

lemma merge_tab_range:
  "list_all (\<lambda>a. list_all (\<lambda>b. let m = gDvmMergeTab ! a ! b in m \<in> set [3..<13] \<and> within a m \<and> within b m
     \<and> list_all (\<lambda>c. within a c \<and> within b c \<longrightarrow> within m c) [3..<13]) [3..<13]) [3..<13]"
  by code_simp

lemma merge_tab_trans:
  "list_all (\<lambda>a. list_all (\<lambda>b. gDvmMergeTab ! a ! b = b \<longrightarrow>
     list_all (\<lambda>c. gDvmMergeTab ! b ! c = c \<longrightarrow> gDvmMergeTab ! a ! c = c) [0..<17]) [0..<17]) [0..<17]"
  by code_simp

lemma merge_tab_semilattice:
  "list_all (\<lambda>a. gDvmMergeTab ! a ! a = a \<and> list_all (\<lambda>b. let m = gDvmMergeTab ! a ! b in
     m < 17 \<and> gDvmMergeTab ! b ! a = m \<and> gDvmMergeTab ! a ! m = m) [0..<17]) [0..<17]"
  by code_simp

lemma within_iff:
  assumes "is_cat1 a"
  shows "within (unat a) (unat b) \<longleftrightarrow> cat1_values a \<subseteq> cat1_values b"
  using cat1_bounds_nonempty assms unfolding cat1_nat list_all_iff
  by (auto simp: within_def cat1_values_def simp del: upt_conv_Cons_Cons)

lemma merge_tab_cat1:
  assumes "is_cat1 a" and "is_cat1 b"
  defines "m \<equiv> word_of_nat (gDvmMergeTab ! unat a ! unat b) :: RegType"
  shows "is_cat1 m" and "cat1_values a \<union> cat1_values b \<subseteq> cat1_values m"
    and "is_cat1 c \<Longrightarrow> cat1_values a \<union> cat1_values b \<subseteq> cat1_values c \<Longrightarrow> cat1_values m \<subseteq> cat1_values c"
proof -
  let ?m = "gDvmMergeTab ! unat a ! unat b"
  have m: "?m \<in> set [3..<13]" "within (unat a) ?m" "within (unat b) ?m"
    and least: "\<And>c. c \<in> set [3..<13] \<Longrightarrow> within (unat a) c \<and> within (unat b) c \<Longrightarrow> within ?m c"
    using merge_tab_range assms(1,2) unfolding cat1_nat list_all_iff Let_def by blast+
  then have um: "unat m = ?m" unfolding m_def set_upt by (simp add: unsigned_of_nat take_bit_nat_eq_self_iff)
  show c: "is_cat1 m" unfolding cat1_nat um by (rule m(1))
  show "cat1_values a \<union> cat1_values b \<subseteq> cat1_values m"
    using m(2,3) within_iff assms(1,2) unfolding um [symmetric] by blast
  show "cat1_values m \<subseteq> cat1_values c" if "is_cat1 c" "cat1_values a \<union> cat1_values b \<subseteq> cat1_values c"
    using least [of "unat c"] that assms(1,2) within_iff c unfolding um [symmetric] cat1_nat [symmetric] by blast
qed

lemma canConvert_range:
  assumes "is_cat1 a" and "is_cat1 b"
  shows "canConvertTo1nr a b = Ret (cat1_values a \<subseteq> cat1_values b)"
proof -
  have s: "unat (x - 3) = unat x - 3" if "is_cat1 x" for x
    using that unat_sub [of 3 x] by (simp add: is_cat1_def)
  have "(conv_tab ! (unat a - 3) ! (unat b - 3) \<noteq> 0) = within (unat a) (unat b)"
    using conv_tab_range assms unfolding cat1_nat list_all_iff by blast
  then show ?thesis using assms s within_iff by (simp add: canConvertTo1nr_def is_cat1_def)
qed

lemma determine_const:
  assumes "- (2 ^ 31) \<le> v" and "v < 2 ^ 31"
  shows "is_cat1 (dvmDetermineCat1Const v)" and "v \<in> cat1_values (dvmDetermineCat1Const v)"
    and "is_cat1 c \<Longrightarrow> v \<in> cat1_values c \<Longrightarrow> cat1_values (dvmDetermineCat1Const v) \<subseteq> cat1_values c"
proof -
  show "is_cat1 (dvmDetermineCat1Const v)" by (simp add: dvmDetermineCat1Const_def is_cat1_def)
  show "v \<in> cat1_values (dvmDetermineCat1Const v)"
    using assms by (auto simp: dvmDetermineCat1Const_def cat1_values_def cat1_bounds_def)
  assume "is_cat1 c"
  then have "unat c \<in> {3, 4, 5, 6, 7, 8, 9, 10, 11, 12}"
    unfolding cat1_nat by (simp add: upt_rec)
  then show "v \<in> cat1_values c \<Longrightarrow> cat1_values (dvmDetermineCat1Const v) \<subseteq> cat1_values c"
    by (elim insertE emptyE) (auto simp: dvmDetermineCat1Const_def cat1_values_def cat1_bounds_def)
qed

section \<open>Properties\<close>

text \<open>C39 The tables of the verifier agree with the values the category 1 types stand for. canConvertTo1nr accepts a source type exactly when
  all its values are values of the wanted type; the merge table gives the least category 1 type with all values of both, up to int and float, which have the
  same values; and the type of a constant is the least one that has the constant. The start-up check of the table passes.\<close>

theorem cat1_tables:
  "checkMergeTab = Ret ()
   \<and> (\<forall>a b. is_cat1 a \<and> is_cat1 b \<longrightarrow>
        canConvertTo1nr a b = Ret (cat1_values a \<subseteq> cat1_values b)
        \<and> (\<exists>m. mergeTypes ct arr a b changed = ret (m, m \<noteq> a \<or> changed) \<and> is_cat1 m
             \<and> cat1_values a \<union> cat1_values b \<subseteq> cat1_values m
             \<and> (\<forall>c. is_cat1 c \<and> cat1_values a \<union> cat1_values b \<subseteq> cat1_values c \<longrightarrow> cat1_values m \<subseteq> cat1_values c)))
   \<and> (\<forall>v::u4. is_cat1 (dvmDetermineCat1Const (sint v)) \<and> sint v \<in> cat1_values (dvmDetermineCat1Const (sint v))
        \<and> (\<forall>c. is_cat1 c \<and> sint v \<in> cat1_values c \<longrightarrow> cat1_values (dvmDetermineCat1Const (sint v)) \<subseteq> cat1_values c))"
proof (intro conjI allI impI)
  show "checkMergeTab = Ret ()" by code_simp
next
  fix a b assume ab: "is_cat1 a \<and> is_cat1 b"
  then show "canConvertTo1nr a b = Ret (cat1_values a \<subseteq> cat1_values b)" by (simp add: canConvert_range)
  have small: "x < 17" if "is_cat1 x" for x using that by (simp add: is_cat1_def word_less_nat_alt word_le_nat_alt)
  let ?m = "if a = b then a else word_of_nat (gDvmMergeTab ! unat a ! unat b)"
  have "mergeTypes ct arr a b changed = ret (?m, ?m \<noteq> a \<or> changed)"
    using ab small by (simp add: mergeTypes_def)
  moreover have "is_cat1 ?m" "cat1_values a \<union> cat1_values b \<subseteq> cat1_values ?m"
    "\<forall>c. is_cat1 c \<and> cat1_values a \<union> cat1_values b \<subseteq> cat1_values c \<longrightarrow> cat1_values ?m \<subseteq> cat1_values c"
    using merge_tab_cat1 [of a b] ab by simp_all
  ultimately show "\<exists>m. mergeTypes ct arr a b changed = ret (m, m \<noteq> a \<or> changed) \<and> is_cat1 m
             \<and> cat1_values a \<union> cat1_values b \<subseteq> cat1_values m
             \<and> (\<forall>c. is_cat1 c \<and> cat1_values a \<union> cat1_values b \<subseteq> cat1_values c \<longrightarrow> cat1_values m \<subseteq> cat1_values c)"
    by blast
next
  fix v :: u4
  have "- (2 ^ 31) \<le> sint v" "sint v < 2 ^ 31" using sint_ge [of v] sint_lt [of v] by simp_all
  note d = determine_const [OF this]
  show "is_cat1 (dvmDetermineCat1Const (sint v))" "sint v \<in> cat1_values (dvmDetermineCat1Const (sint v))"
    by (fact d(1,2))+
  fix c assume "is_cat1 c \<and> sint v \<in> cat1_values c"
  then show "cat1_values (dvmDetermineCat1Const (sint v)) \<subseteq> cat1_values c" using d(3) by blast
qed

theorem cat1_tables_witness:
  "cat1_values kRegTypePosByte \<subseteq> cat1_values kRegTypeChar \<and> canConvertTo1nr kRegTypePosByte kRegTypeChar = Ret True"
  using cat1_tables [of "\<lambda>_. None" id False] by (auto simp: is_cat1_def cat1_values_def cat1_bounds_def)

end
