(* ===== verification/VerifyStatic.thy ===== *)
theory VerifyStatic
  imports VerifyRegs DexCatch InstrDecode
begin

text \<open>
  The static pass of the bytecode verifier, \<^verbatim>\<open>src/vm/analysis/DexVerify.c\<close> and \<^verbatim>\<open>src/vm/analysis/VerifySubs.c\<close>: it lays
  the instructions out over the code units, marks the instructions in \<open>try\<close> blocks and the branch
  targets, and checks branch, switch and array-data operands and constant pool indices. Its result is a word of
  flags for each code unit, which the data-flow pass uses.
\<close>

section \<open>Methods\<close>

text \<open>The fields of \<open>Field\<close> and \<open>Method\<close> the verifier reads; a prototype is its parameter descriptors and its return type.\<close>

record Field =
  fieldPtr :: u8
  field_clazz :: u8
  signature :: string
  field_accessFlags :: u4

record Method =
  meth_clazz :: u8
  meth_accessFlags :: u4
  methodIndex :: int
  registersSize :: u2
  outsSize :: u2
  insSize :: u2
  meth_name :: string
  parameters :: "string list"
  returnType :: string
  insns :: "u2 list"
  insnsAddr :: u8
  pCode :: DexCode

datatype MethodType = METHOD_DIRECT | METHOD_STATIC | METHOD_VIRTUAL | METHOD_INTERFACE

text \<open>
  The state of the VM the verifier consults: the loaded classes, the results of looking up classes by descriptor and of resolving constant pool
  entries on behalf of a class (\<open>0\<close> or \<open>None\<close> when that fails), and the header of the DEX file.
\<close>

record verify_env =
  classes :: class_table
  findClassNoInit :: "string \<Rightarrow> u8 \<Rightarrow> u8"
  findArrayClass :: "string \<Rightarrow> u8 \<Rightarrow> u8"
  findArrayClassForElement :: "u8 \<Rightarrow> u8"
  optResolveClass :: "u8 \<Rightarrow> u4 \<Rightarrow> u8"
  optResolveMethod :: "u8 \<Rightarrow> u4 \<Rightarrow> MethodType \<Rightarrow> Method option"
  optResolveInterfaceMethod :: "u8 \<Rightarrow> u4 \<Rightarrow> Method option"
  optResolveInstField :: "u8 \<Rightarrow> u4 \<Rightarrow> Field option"
  optResolveStaticField :: "u8 \<Rightarrow> u4 \<Rightarrow> Field option"
  classJavaLangObject :: u8
  classJavaLangClass :: u8
  classJavaLangString :: u8
  classJavaLangThrowable :: u8
  stringIdsSize :: u4
  typeIdsSize :: u4
  fieldIdsSize :: u4
  methodIdsSize :: u4
  typeDescriptor :: "u4 \<Rightarrow> string"

definition dvmGetMethodInsnsSize :: "Method \<Rightarrow> int" where
  "dvmGetMethodInsnsSize meth = int (length (insns meth))"

text \<open>\<open>insns[i]\<close> of the method.\<close>

definition unit_at :: "Method \<Rightarrow> int \<Rightarrow> u2 outcome" where
  "unit_at meth i = (case read_at (insns meth) i of None \<Rightarrow> OutOfBounds | Some w \<Rightarrow> Ret w)"

section \<open>Instruction flags\<close>

type_synonym InsnFlags = u4

definition kInsnFlagWidthMask :: InsnFlags where "kInsnFlagWidthMask = mask 16"
definition kInsnFlagInTry :: InsnFlags where "kInsnFlagInTry = push_bit 16 1"
definition kInsnFlagBranchTarget :: InsnFlags where "kInsnFlagBranchTarget = push_bit 17 1"
definition kInsnFlagGcPoint :: InsnFlags where "kInsnFlagGcPoint = push_bit 18 1"
definition kInsnFlagVisited :: InsnFlags where "kInsnFlagVisited = push_bit 30 1"
definition kInsnFlagChanged :: InsnFlags where "kInsnFlagChanged = push_bit 31 1"

definition flags_at :: "InsnFlags list \<Rightarrow> int \<Rightarrow> InsnFlags outcome" where
  "flags_at insnFlags addr = (case read_at insnFlags addr of None \<Rightarrow> OutOfBounds | Some w \<Rightarrow> Ret w)"

definition dvmInsnGetWidth :: "InsnFlags list \<Rightarrow> int \<Rightarrow> int outcome" where
  "dvmInsnGetWidth insnFlags addr = bind_out (flags_at insnFlags addr) (\<lambda>w. Ret (uint (w AND kInsnFlagWidthMask)))"

definition dvmInsnIsOpcode :: "InsnFlags list \<Rightarrow> int \<Rightarrow> bool outcome" where
  "dvmInsnIsOpcode insnFlags addr = bind_out (flags_at insnFlags addr) (\<lambda>w. Ret (w AND kInsnFlagWidthMask \<noteq> 0))"

definition flag_is :: "InsnFlags \<Rightarrow> InsnFlags list \<Rightarrow> int \<Rightarrow> bool outcome" where
  "flag_is flag insnFlags addr = bind_out (flags_at insnFlags addr) (\<lambda>w. Ret (w AND flag \<noteq> 0))"

definition flag_set :: "InsnFlags \<Rightarrow> bool \<Rightarrow> InsnFlags list \<Rightarrow> int \<Rightarrow> InsnFlags list outcome" where
  "flag_set flag val insnFlags addr =
     bind_out (flags_at insnFlags addr) (\<lambda>w. Ret (insnFlags[nat addr := if val then w OR flag else w AND NOT flag]))"

abbreviation dvmInsnIsChanged where "dvmInsnIsChanged \<equiv> flag_is kInsnFlagChanged"
abbreviation dvmInsnSetChanged where "dvmInsnSetChanged fs addr changed \<equiv> flag_set kInsnFlagChanged changed fs addr"
abbreviation dvmInsnIsVisited where "dvmInsnIsVisited \<equiv> flag_is kInsnFlagVisited"
abbreviation dvmInsnSetVisited where "dvmInsnSetVisited fs addr changed \<equiv> flag_set kInsnFlagVisited changed fs addr"
abbreviation dvmInsnIsVisitedOrChanged where "dvmInsnIsVisitedOrChanged \<equiv> flag_is (kInsnFlagVisited OR kInsnFlagChanged)"
abbreviation dvmInsnIsInTry where "dvmInsnIsInTry \<equiv> flag_is kInsnFlagInTry"
abbreviation dvmInsnSetInTry where "dvmInsnSetInTry fs addr \<equiv> flag_set kInsnFlagInTry True fs addr"
abbreviation dvmInsnIsBranchTarget where "dvmInsnIsBranchTarget \<equiv> flag_is kInsnFlagBranchTarget"
abbreviation dvmInsnSetBranchTarget where "dvmInsnSetBranchTarget fs addr \<equiv> flag_set kInsnFlagBranchTarget True fs addr"
abbreviation dvmInsnIsGcPoint where "dvmInsnIsGcPoint \<equiv> flag_is kInsnFlagGcPoint"
abbreviation dvmInsnSetGcPoint where "dvmInsnSetGcPoint fs addr \<equiv> flag_set kInsnFlagGcPoint True fs addr"

section \<open>Instruction widths\<close>

text \<open>
  The width of the instruction or table at \<open>i\<close>, as \<open>dvmComputeCodeWidths\<close> computes it: \<open>None\<close> is an opcode that is not allowed. The width
  of array data is computed in \<open>u4\<close> and converted to \<open>int\<close>.
\<close>

definition code_width :: "Method \<Rightarrow> int \<Rightarrow> int option outcome" where
  "code_width meth i =
     bind_out (unit_at meth i) (\<lambda>w.
       if w = kPackedSwitchSignature then bind_out (unit_at meth (i + 1)) (\<lambda>n. Ret (Some (4 + uint n * 2)))
       else if w = kSparseSwitchSignature then bind_out (unit_at meth (i + 1)) (\<lambda>n. Ret (Some (2 + uint n * 4)))
       else if w = kArrayDataSignature then
         bind_out (unit_at meth (i + 1)) (\<lambda>ew. bind_out (unit_at meth (i + 2)) (\<lambda>lo. bind_out (unit_at meth (i + 3)) (\<lambda>hi.
           let sz = ucast lo OR push_bit 16 (ucast hi) :: u4
           in Ret (Some (sint (4 + (ucast ew * sz + 1) div 2 :: u4))))))
       else
         let width = dexGetInstrWidthAbs gDvm_instrWidth (INST_INST w) in
         if width = 0 then Ret None
         else if width < 0 \<or> width > 5 then AbortVM
         else Ret (Some width))"

text \<open>The result, the flags and the number of \<open>new-instance\<close> instructions.\<close>

partial_function (option) compute_widths ::
  "Method \<Rightarrow> InsnFlags list \<Rightarrow> int \<Rightarrow> int \<Rightarrow> (bool \<times> InsnFlags list \<times> int) outcome option" where
  "compute_widths meth insnFlags i newInstanceCount =
     (if i \<ge> dvmGetMethodInsnsSize meth then Some (Ret (i = dvmGetMethodInsnsSize meth, insnFlags, newInstanceCount))
      else case code_width meth i of
        AbortVM \<Rightarrow> Some AbortVM
      | OutOfBounds \<Rightarrow> Some OutOfBounds
      | Ret None \<Rightarrow> Some (Ret (False, insnFlags, newInstanceCount))
      | Ret (Some width) \<Rightarrow>
          if width > 65535 then Some (Ret (False, insnFlags, newInstanceCount))
          else if i \<ge> int (length insnFlags) then Some OutOfBounds
          else compute_widths meth (insnFlags[nat i := insnFlags ! nat i OR word_of_int width]) (i + width)
                 (if INST_INST (insns meth ! nat i) = OP_NEW_INSTANCE \<and> insns meth ! nat i \<notin> {kPackedSwitchSignature, kSparseSwitchSignature, kArrayDataSignature}
                  then newInstanceCount + 1 else newInstanceCount))"

declare compute_widths.simps [code]

definition dvmComputeCodeWidths :: "Method \<Rightarrow> InsnFlags list \<Rightarrow> (bool \<times> InsnFlags list \<times> int) run" where
  "dvmComputeCodeWidths meth insnFlags = compute_widths meth insnFlags 0 0"

section \<open>Try blocks\<close>

function set_in_try :: "InsnFlags list \<Rightarrow> int \<Rightarrow> int \<Rightarrow> InsnFlags list outcome" where
  "set_in_try insnFlags addr stop =
     (if addr \<ge> stop then Ret insnFlags
      else case dvmInsnGetWidth insnFlags addr of
        AbortVM \<Rightarrow> AbortVM
      | OutOfBounds \<Rightarrow> OutOfBounds
      | Ret width \<Rightarrow>
          if width \<le> 0 then AbortVM
          else bind_out (dvmInsnSetInTry insnFlags addr) (\<lambda>fs. set_in_try fs (addr + width) stop))"
  by pat_completeness auto
termination
  by (relation "measure (\<lambda>(_, addr, stop). nat (stop - addr))") auto

declare set_in_try.simps [simp del]

fun set_tries :: "int \<Rightarrow> DexTry list \<Rightarrow> InsnFlags list \<Rightarrow> (bool \<times> InsnFlags list) outcome" where
  "set_tries insnsSize [] insnFlags = Ret (True, insnFlags)"
| "set_tries insnsSize (t # ts) insnFlags =
     (let start = uint (startAddr t); stop = uint (startAddr t + ucast (insnCount t)) in
      if start \<ge> stop \<or> start \<ge> insnsSize \<or> stop > insnsSize then Ret (False, insnFlags)
      else bind_out (dvmInsnGetWidth insnFlags start) (\<lambda>width.
        if width = 0 then Ret (False, insnFlags)
        else bind_out (set_in_try insnFlags start stop) (\<lambda>fs. set_tries insnsSize ts fs)))"

fun set_handlers :: "DexCatchHandler list \<Rightarrow> InsnFlags list \<Rightarrow> (bool \<times> InsnFlags list) outcome" where
  "set_handlers [] insnFlags = Ret (True, insnFlags)"
| "set_handlers (h # hs) insnFlags =
     bind_out (dvmInsnGetWidth insnFlags (uint (address h))) (\<lambda>width.
       if width = 0 then Ret (False, insnFlags)
       else bind_out (dvmInsnSetBranchTarget insnFlags (uint (address h))) (\<lambda>fs. set_handlers hs fs))"

fun set_handler_lists :: "DexCode \<Rightarrow> nat \<Rightarrow> nat \<Rightarrow> InsnFlags list \<Rightarrow> (bool \<times> InsnFlags list) outcome" where
  "set_handler_lists code 0 offset insnFlags = Ret (True, insnFlags)"
| "set_handler_lists code (Suc n) offset insnFlags =
     bind_out (dexCatchIteratorInit code offset) (\<lambda>it.
     bind_out (catch_handlers code it) (\<lambda>(hs, it).
     bind_out (set_handlers hs insnFlags) (\<lambda>(okay, fs).
       if \<not> okay then Ret (False, fs)
       else bind_out (dexCatchIteratorGetEndOffset code it) (\<lambda>offset. set_handler_lists code n offset fs))))"

definition dvmSetTryFlags :: "Method \<Rightarrow> InsnFlags list \<Rightarrow> (bool \<times> InsnFlags list) outcome" where
  "dvmSetTryFlags meth insnFlags =
     (if tries (pCode meth) = [] then Ret (True, insnFlags)
      else bind_out (dexGetHandlersSize (pCode meth)) (\<lambda>handlersSize.
        bind_out (set_tries (dvmGetMethodInsnsSize meth) (tries (pCode meth)) insnFlags) (\<lambda>(okay, fs).
          if \<not> okay then Ret (False, fs)
          else bind_out (dexGetFirstHandlerOffset (pCode meth)) (\<lambda>offset.
            set_handler_lists (pCode meth) (unat handlersSize) offset fs))))"

section \<open>Branches\<close>

text \<open>The offset and whether the branch is conditional; \<open>None\<close> if this is not a branch.\<close>

definition dvmGetBranchTarget :: "Method \<Rightarrow> int \<Rightarrow> (int \<times> bool) option outcome" where
  "dvmGetBranchTarget meth curOffset =
     bind_out (unit_at meth curOffset) (\<lambda>w.
       if INST_INST w = OP_GOTO then Ret (Some (sint (signed_drop_bit 8 w), False))
       else if INST_INST w = OP_GOTO_32 then
         bind_out (unit_at meth (curOffset + 1)) (\<lambda>lo. bind_out (unit_at meth (curOffset + 2)) (\<lambda>hi.
           Ret (Some (sint (ucast lo OR push_bit 16 (ucast hi) :: u4), False))))
       else if INST_INST w = OP_GOTO_16 then
         bind_out (unit_at meth (curOffset + 1)) (\<lambda>lo. Ret (Some (sint lo, False)))
       else if INST_INST w \<in> {OP_IF_EQ, OP_IF_NE, OP_IF_LT, OP_IF_GE, OP_IF_GT, OP_IF_LE,
            OP_IF_EQZ, OP_IF_NEZ, OP_IF_LTZ, OP_IF_GEZ, OP_IF_GTZ, OP_IF_LEZ} then
         bind_out (unit_at meth (curOffset + 1)) (\<lambda>lo. Ret (Some (sint lo, True)))
       else Ret None)"

definition fits_int :: "int \<Rightarrow> bool" where
  "fits_int x \<longleftrightarrow> - (2 ^ 31) \<le> x \<and> x < 2 ^ 31"

definition dvmCheckBranchTarget :: "Method \<Rightarrow> InsnFlags list \<Rightarrow> int \<Rightarrow> bool \<Rightarrow> (bool \<times> InsnFlags list) outcome" where
  "dvmCheckBranchTarget meth insnFlags curOffset selfOkay =
     bind_out (dvmGetBranchTarget meth curOffset) (\<lambda>t. case t of
        None \<Rightarrow> Ret (False, insnFlags)
      | Some (offset, isConditional) \<Rightarrow>
          if \<not> selfOkay \<and> offset = 0 then Ret (False, insnFlags)
          else if \<not> fits_int (curOffset + offset) then Ret (False, insnFlags)
          else
            let absOffset = curOffset + offset in
            if absOffset < 0 \<or> absOffset \<ge> dvmGetMethodInsnsSize meth then Ret (False, insnFlags)
            else bind_out (dvmInsnIsOpcode insnFlags absOffset) (\<lambda>opc.
              if \<not> opc then Ret (False, insnFlags)
              else bind_out (dvmInsnSetBranchTarget insnFlags absOffset) (\<lambda>fs. Ret (True, fs))))"

text \<open>A 32-bit number at \<open>i\<close>, low half first.\<close>

definition s4_at :: "Method \<Rightarrow> int \<Rightarrow> int outcome" where
  "s4_at meth i = bind_out (unit_at meth i) (\<lambda>lo. bind_out (unit_at meth (i + 1)) (\<lambda>hi.
     Ret (sint (ucast lo OR push_bit 16 (ucast hi) :: u4))))"

fun keys_ascend :: "Method \<Rightarrow> int \<Rightarrow> nat \<Rightarrow> int \<Rightarrow> bool outcome" where
  "keys_ascend meth pos 0 lastKey = Ret True"
| "keys_ascend meth pos (Suc n) lastKey =
     bind_out (s4_at meth pos) (\<lambda>key. if key \<le> lastKey then Ret False else keys_ascend meth (pos + 2) n key)"

fun check_targets :: "Method \<Rightarrow> int \<Rightarrow> int \<Rightarrow> nat \<Rightarrow> InsnFlags list \<Rightarrow> (bool \<times> InsnFlags list) outcome" where
  "check_targets meth curOffset pos 0 insnFlags = Ret (True, insnFlags)"
| "check_targets meth curOffset pos (Suc n) insnFlags =
     bind_out (s4_at meth pos) (\<lambda>offset.
       let absOffset = curOffset + offset in
       if absOffset < 0 \<or> absOffset \<ge> dvmGetMethodInsnsSize meth then Ret (False, insnFlags)
       else bind_out (dvmInsnIsOpcode insnFlags absOffset) (\<lambda>opc.
         if \<not> opc then Ret (False, insnFlags)
         else bind_out (dvmInsnSetBranchTarget insnFlags absOffset) (\<lambda>fs. check_targets meth curOffset (pos + 2) n fs)))"

text \<open>The offset of the switch table is read as a 16-bit number here, while the data-flow pass and the interpreter read 32 bits.\<close>

definition dvmCheckSwitchTargets :: "Method \<Rightarrow> InsnFlags list \<Rightarrow> int \<Rightarrow> (bool \<times> InsnFlags list) outcome" where
  "dvmCheckSwitchTargets meth insnFlags curOffset =
     (let insnCount' = dvmGetMethodInsnsSize meth in
      if \<not> (curOffset \<ge> 0 \<and> curOffset < insnCount') then AbortVM
      else bind_out (unit_at meth (curOffset + 1)) (\<lambda>lo.
        let table = curOffset + sint lo in
        if table < 0 \<or> table + 2 \<ge> insnCount' then Ret (False, insnFlags)
        else if (ucast (insnsAddr meth + word_of_int (2 * table)) :: u4) AND 3 \<noteq> 0 then Ret (False, insnFlags)
        else
          bind_out (unit_at meth curOffset) (\<lambda>w.
          bind_out (unit_at meth (table + 1)) (\<lambda>cnt.
          bind_out (unit_at meth table) (\<lambda>sig.
            let switchCount = uint cnt;
                packed = (INST_INST w = OP_PACKED_SWITCH);
                offsetToTargets = (if packed then 4 else 2 + 2 * switchCount);
                expectedSignature = (if packed then kPackedSwitchSignature else kSparseSwitchSignature);
                tableSize = offsetToTargets + switchCount * 2
            in if sig \<noteq> expectedSignature then Ret (False, insnFlags)
               else if table + tableSize > insnCount' then Ret (False, insnFlags)
               else
                 bind_out
                   (if \<not> packed \<and> switchCount > 1
                    then bind_out (s4_at meth (table + 2)) (\<lambda>lastKey. keys_ascend meth (table + 4) (nat (switchCount - 1)) lastKey)
                    else Ret True)
                   (\<lambda>ascending. if \<not> ascending then Ret (False, insnFlags)
                      else check_targets meth curOffset (table + offsetToTargets) (nat switchCount) insnFlags))))))"

section \<open>Static checks of instructions\<close>

text \<open>
  The size of the table is computed in \<open>int\<close>: the product wraps around, and the division by two rounds towards zero.
\<close>

definition checkArrayData :: "Method \<Rightarrow> int \<Rightarrow> bool outcome" where
  "checkArrayData meth curOffset =
     (let insnCount' = dvmGetMethodInsnsSize meth in
      if \<not> (curOffset \<ge> 0 \<and> curOffset < insnCount') then AbortVM
      else bind_out (s4_at meth (curOffset + 1)) (\<lambda>offset.
        let table = curOffset + offset in
        if table < 0 \<or> table + 2 \<ge> insnCount' then Ret False
        else if (ucast (insnsAddr meth + word_of_int (2 * table)) :: u4) AND 3 \<noteq> 0 then Ret False
        else
          bind_out (unit_at meth (table + 1)) (\<lambda>valueWidth.
          bind_out (s4_at meth (table + 2)) (\<lambda>valueCount.
            let bytes = sint (word_of_int (uint valueWidth * valueCount + 1) :: u4);
                half = (if bytes < 0 then - ((- bytes) div 2) else bytes div 2);
                tableSize = sint (word_of_int (4 + half) :: u4)
            in Ret (\<not> sint (word_of_int (table + tableSize) :: u4) > insnCount')))))"

text \<open>The record \<open>decInsn\<close> before an instruction is decoded.\<close>

definition undecoded :: DecodedInstruction where
  "undecoded = \<lparr>vA = 0x81818181, vB = 0x81818181, vB_wide = 0x8181818181818181, vC = 0x81818181, arg = replicate 5 0x81818181,
     opCode = 0x81\<rparr>"

definition decodeInstruction :: "Method \<Rightarrow> int \<Rightarrow> DecodedInstruction outcome" where
  "decodeInstruction meth insnIdx = dexDecodeInstruction gDvm_instrFormat (drop (nat insnIdx) (insns meth)) undecoded"

definition checkNewInstance :: "verify_env \<Rightarrow> Method \<Rightarrow> int \<Rightarrow> bool outcome" where
  "checkNewInstance env meth insnIdx =
     bind_out (decodeInstruction meth insnIdx) (\<lambda>decInsn.
       if vB decInsn \<ge> typeIdsSize env then Ret False
       else Ret (case typeDescriptor env (vB decInsn) of [] \<Rightarrow> False | c # _ \<Rightarrow> c = CHR ''L''))"

definition checkNewArray :: "verify_env \<Rightarrow> Method \<Rightarrow> int \<Rightarrow> bool outcome" where
  "checkNewArray env meth insnIdx =
     bind_out (decodeInstruction meth insnIdx) (\<lambda>decInsn.
       if vC decInsn \<ge> typeIdsSize env then Ret False
       else
         let bracketCount = length (takeWhile (\<lambda>c. c = CHR ''['') (typeDescriptor env (vC decInsn)))
         in Ret (bracketCount \<noteq> 0 \<and> \<not> bracketCount > 255))"

definition checkTypeIndex :: "verify_env \<Rightarrow> Method \<Rightarrow> int \<Rightarrow> bool \<Rightarrow> bool outcome" where
  "checkTypeIndex env meth insnIdx useB =
     bind_out (decodeInstruction meth insnIdx) (\<lambda>decInsn.
       Ret (\<not> (if useB then vB decInsn else vC decInsn) \<ge> typeIdsSize env))"

definition checkFieldIndex :: "verify_env \<Rightarrow> Method \<Rightarrow> int \<Rightarrow> bool \<Rightarrow> bool outcome" where
  "checkFieldIndex env meth insnIdx useB =
     bind_out (decodeInstruction meth insnIdx) (\<lambda>decInsn.
       Ret (\<not> (if useB then vB decInsn else vC decInsn) \<ge> fieldIdsSize env))"

definition checkMethodIndex :: "verify_env \<Rightarrow> Method \<Rightarrow> int \<Rightarrow> bool outcome" where
  "checkMethodIndex env meth insnIdx =
     bind_out (decodeInstruction meth insnIdx) (\<lambda>decInsn. Ret (\<not> vB decInsn \<ge> methodIdsSize env))"

definition checkStringIndex :: "verify_env \<Rightarrow> Method \<Rightarrow> int \<Rightarrow> bool outcome" where
  "checkStringIndex env meth insnIdx =
     bind_out (decodeInstruction meth insnIdx) (\<lambda>decInsn. Ret (\<not> vB decInsn \<ge> stringIdsSize env))"

definition gcMask :: InstructionFlags where
  "gcMask = kInstrCanBranch OR kInstrCanSwitch OR kInstrCanThrow OR kInstrCanReturn"

text \<open>The arms of the switch in \<open>verifyInstructions\<close>; a check that does not touch the flags returns them as they were.\<close>

definition keep_flags :: "InsnFlags list \<Rightarrow> bool outcome \<Rightarrow> (bool \<times> InsnFlags list) outcome" where
  "keep_flags insnFlags m = bind_out m (\<lambda>okay. Ret (okay, insnFlags))"

definition static_check :: "verify_env \<Rightarrow> Method \<Rightarrow> bool \<Rightarrow> int \<Rightarrow> OpCode \<Rightarrow> InsnFlags list \<Rightarrow> (bool \<times> InsnFlags list) outcome" where
  "static_check env meth allowOpt i opcode insnFlags =
     (if opcode \<in> {OP_CONST_STRING, OP_CONST_STRING_JUMBO} then keep_flags insnFlags (checkStringIndex env meth i)
      else if opcode \<in> {OP_CONST_CLASS, OP_CHECK_CAST} then keep_flags insnFlags (checkTypeIndex env meth i True)
      else if opcode = OP_INSTANCE_OF then keep_flags insnFlags (checkTypeIndex env meth i False)
      else if opcode \<in> {OP_PACKED_SWITCH, OP_SPARSE_SWITCH} then dvmCheckSwitchTargets meth insnFlags i
      else if opcode = OP_FILL_ARRAY_DATA then keep_flags insnFlags (checkArrayData meth i)
      else if opcode \<in> {OP_GOTO, OP_GOTO_16, OP_IF_EQ, OP_IF_NE, OP_IF_LT, OP_IF_GE, OP_IF_GT, OP_IF_LE,
          OP_IF_EQZ, OP_IF_NEZ, OP_IF_LTZ, OP_IF_GEZ, OP_IF_GTZ, OP_IF_LEZ} then dvmCheckBranchTarget meth insnFlags i False
      else if opcode = OP_GOTO_32 then dvmCheckBranchTarget meth insnFlags i True
      else if opcode = OP_NEW_INSTANCE then keep_flags insnFlags (checkNewInstance env meth i)
      else if opcode = OP_NEW_ARRAY then keep_flags insnFlags (checkNewArray env meth i)
      else if opcode \<in> {OP_FILLED_NEW_ARRAY, OP_FILLED_NEW_ARRAY_RANGE} then keep_flags insnFlags (checkTypeIndex env meth i True)
      else if opcode \<in> {OP_IGET, OP_IGET_WIDE, OP_IGET_OBJECT, OP_IGET_BOOLEAN, OP_IGET_BYTE, OP_IGET_CHAR, OP_IGET_SHORT,
          OP_IPUT, OP_IPUT_WIDE, OP_IPUT_OBJECT, OP_IPUT_BOOLEAN, OP_IPUT_BYTE, OP_IPUT_CHAR, OP_IPUT_SHORT}
        then keep_flags insnFlags (checkFieldIndex env meth i False)
      else if opcode \<in> {OP_SGET, OP_SGET_WIDE, OP_SGET_OBJECT, OP_SGET_BOOLEAN, OP_SGET_BYTE, OP_SGET_CHAR, OP_SGET_SHORT,
          OP_SPUT, OP_SPUT_WIDE, OP_SPUT_OBJECT, OP_SPUT_BOOLEAN, OP_SPUT_BYTE, OP_SPUT_CHAR, OP_SPUT_SHORT}
        then keep_flags insnFlags (checkFieldIndex env meth i True)
      else if opcode \<in> {OP_INVOKE_VIRTUAL, OP_INVOKE_SUPER, OP_INVOKE_DIRECT, OP_INVOKE_STATIC, OP_INVOKE_INTERFACE,
          OP_INVOKE_VIRTUAL_RANGE, OP_INVOKE_SUPER_RANGE, OP_INVOKE_DIRECT_RANGE, OP_INVOKE_STATIC_RANGE, OP_INVOKE_INTERFACE_RANGE}
        then keep_flags insnFlags (checkMethodIndex env meth i)
      else if opcode \<in> {OP_EXECUTE_INLINE, OP_INVOKE_DIRECT_EMPTY, OP_IGET_QUICK, OP_IGET_WIDE_QUICK, OP_IGET_OBJECT_QUICK,
          OP_IPUT_QUICK, OP_IPUT_WIDE_QUICK, OP_IPUT_OBJECT_QUICK, OP_INVOKE_VIRTUAL_QUICK, OP_INVOKE_VIRTUAL_QUICK_RANGE,
          OP_INVOKE_SUPER_QUICK, OP_INVOKE_SUPER_QUICK_RANGE} then Ret (allowOpt, insnFlags)
      else Ret (True, insnFlags))"

function verify_static :: "verify_env \<Rightarrow> Method \<Rightarrow> bool \<Rightarrow> int \<Rightarrow> InsnFlags list \<Rightarrow> (bool \<times> InsnFlags list) outcome" where
  "verify_static env meth allowOpt i insnFlags =
     (if i \<ge> dvmGetMethodInsnsSize meth then Ret (i = dvmGetMethodInsnsSize meth, insnFlags)
      else case dvmInsnGetWidth insnFlags i of
        AbortVM \<Rightarrow> AbortVM
      | OutOfBounds \<Rightarrow> OutOfBounds
      | Ret width \<Rightarrow>
          bind_out (unit_at meth i) (\<lambda>w.
          bind_out (if dexGetInstrFlags gDvm_instrFlags (INST_INST w) AND gcMask \<noteq> 0 then dvmInsnSetGcPoint insnFlags i
                    else Ret insnFlags) (\<lambda>fs.
          bind_out (static_check env meth allowOpt i (INST_INST w) fs) (\<lambda>(okay, fs).
            if \<not> okay then Ret (False, fs)
            else if width \<le> 0 then AbortVM
            else verify_static env meth allowOpt (i + width) fs))))"
  by pat_completeness auto
termination
  by (relation "measure (\<lambda>(_, meth, _, i, _). nat (dvmGetMethodInsnsSize meth - i))") auto

declare verify_static.simps [simp del]

definition verifyInstructions :: "verify_env \<Rightarrow> Method \<Rightarrow> bool \<Rightarrow> InsnFlags list \<Rightarrow> (bool \<times> InsnFlags list) outcome" where
  "verifyInstructions env meth allowOpt insnFlags =
     bind_out (dvmInsnSetBranchTarget insnFlags 0) (\<lambda>fs. verify_static env meth allowOpt 0 fs)"


section \<open>Flags only grow\<close>

text \<open>Between the passes the widths and the marks of the data-flow pass stay, and no flag is cleared.\<close>

definition flags_grow :: "InsnFlags list \<Rightarrow> InsnFlags list \<Rightarrow> bool" where
  "flags_grow fs fs' \<longleftrightarrow> length fs' = length fs \<and>
     (\<forall>i<length fs. fs' ! i AND kInsnFlagWidthMask = fs ! i AND kInsnFlagWidthMask \<and> fs ! i OR fs' ! i = fs' ! i
        \<and> fs' ! i AND (kInsnFlagVisited OR kInsnFlagChanged) = fs ! i AND (kInsnFlagVisited OR kInsnFlagChanged))"

named_theorems insn_flag_defs \<open>the flags of an instruction\<close>

lemmas [insn_flag_defs] = kInsnFlagWidthMask_def kInsnFlagInTry_def kInsnFlagBranchTarget_def kInsnFlagGcPoint_def
  kInsnFlagVisited_def kInsnFlagChanged_def

lemma flags_grow_refl [simp]: "flags_grow fs fs"
  by (simp add: flags_grow_def)

lemma flags_grow_trans [trans]: "flags_grow fs gs \<Longrightarrow> flags_grow gs hs \<Longrightarrow> flags_grow fs hs"
proof -
  assume fg: "flags_grow fs gs" and gh: "flags_grow gs hs"
  have "fs ! i OR hs ! i = hs ! i" if "i < length fs" for i
  proof -
    have "fs ! i OR (gs ! i OR hs ! i) = gs ! i OR hs ! i"
      using fg that by (simp add: flags_grow_def flip: or.assoc)
    moreover have "gs ! i OR hs ! i = hs ! i" using fg gh that by (simp add: flags_grow_def)
    ultimately show ?thesis by simp
  qed
  then show ?thesis using fg gh by (simp add: flags_grow_def)
qed

lemma flags_grow_set:
  assumes "flag_set flag True fs a = Ret fs'" and "flag AND kInsnFlagWidthMask = 0" and "flag AND (kInsnFlagVisited OR kInsnFlagChanged) = 0"
  shows "flags_grow fs fs'" and "flag_is flag fs' a = Ret (flag \<noteq> 0)" and "0 \<le> a" and "a < int (length fs')"
proof -
  obtain w where a: "0 \<le> a" "a < int (length fs)" and w: "w = fs ! nat a" and fs': "fs' = fs[nat a := w OR flag]"
    using assms(1) by (auto simp: flag_set_def flags_at_def split: option.splits)
  have "(w OR flag) AND kInsnFlagWidthMask = w AND kInsnFlagWidthMask" and "(w OR flag) AND flag = flag"
    and "(w OR flag) AND (kInsnFlagVisited OR kInsnFlagChanged) = w AND (kInsnFlagVisited OR kInsnFlagChanged)"
    unfolding bit.conj_disj_distrib2 assms(2,3) by (simp_all add: and.commute [of flag])
  then show "flags_grow fs fs'" and "flag_is flag fs' a = Ret (flag \<noteq> 0)" and "0 \<le> a" and "a < int (length fs')"
    using a by (auto simp: flags_grow_def fs' w nth_list_update flag_is_def flags_at_def read_at_def or.assoc [symmetric] nat_less_iff)
qed

lemma flag_width_disjoint [simp]:
  "kInsnFlagInTry AND kInsnFlagWidthMask = 0" "kInsnFlagBranchTarget AND kInsnFlagWidthMask = 0"
  "kInsnFlagGcPoint AND kInsnFlagWidthMask = 0" "kInsnFlagBranchTarget \<noteq> 0"
  "kInsnFlagInTry AND (kInsnFlagVisited OR kInsnFlagChanged) = 0" "kInsnFlagBranchTarget AND (kInsnFlagVisited OR kInsnFlagChanged) = 0"
  "kInsnFlagGcPoint AND (kInsnFlagVisited OR kInsnFlagChanged) = 0"
  by (simp_all add: insn_flag_defs mask_eq_exp_minus_1)

text \<open>A flag of one bit, once set, stays set.\<close>

lemma flag_is_grow:
  assumes "flags_grow fs fs'" and "flag_is flag fs a = Ret True"
  shows "flag_is flag fs' a = Ret True"
proof -
  have bounds: "0 \<le> a" "a < int (length fs)" and old: "fs ! nat a AND flag \<noteq> 0"
    using assms(2) by (auto simp: flag_is_def flags_at_def split: option.splits)
  have "fs ! nat a OR fs' ! nat a = fs' ! nat a" and len: "length fs' = length fs"
    using assms(1) bounds by (auto simp: flags_grow_def)
  then have "(fs ! nat a AND flag) OR (fs' ! nat a AND flag) = fs' ! nat a AND flag"
    by (metis bit.conj_disj_distrib2)
  then have "fs' ! nat a AND flag \<noteq> 0" using old by (metis or.right_neutral)
  then show ?thesis using bounds len by (simp add: flag_is_def flags_at_def read_at_def)
qed

lemma width_grow: "flags_grow fs fs' \<Longrightarrow> dvmInsnGetWidth fs' a = dvmInsnGetWidth fs a"
  by (auto simp: flags_grow_def dvmInsnGetWidth_def flags_at_def read_at_def nat_less_iff)

lemma opcode_width: "dvmInsnIsOpcode fs a = bind_out (dvmInsnGetWidth fs a) (\<lambda>w. Ret (w \<noteq> 0))"
  by (auto simp: dvmInsnIsOpcode_def dvmInsnGetWidth_def flags_at_def unsigned_eq_0_iff split: option.splits)


section \<open>Layout of the code\<close>

text \<open>The addresses the walk over the code from \<open>i\<close> visits, each instruction or table following the last.\<close>

inductive insn_from :: "Method \<Rightarrow> int \<Rightarrow> int \<Rightarrow> bool" for meth where
  insn_here: "insn_from meth i i"
| insn_next: "i < dvmGetMethodInsnsSize meth \<Longrightarrow> code_width meth i = Ret (Some w) \<Longrightarrow> insn_from meth (i + w) j \<Longrightarrow> insn_from meth i j"

definition insn_start :: "Method \<Rightarrow> int \<Rightarrow> bool" where
  "insn_start meth i \<longleftrightarrow> i < dvmGetMethodInsnsSize meth \<and> insn_from meth 0 i"

inductive_cases insn_fromE: "insn_from meth i j"

text \<open>
  The flags describe the layout from \<open>i\<close> on: an address has a width exactly when an instruction or table starts there, and it
  ends inside the code.
\<close>

definition laid_out :: "Method \<Rightarrow> InsnFlags list \<Rightarrow> int \<Rightarrow> bool" where
  "laid_out meth fs i \<longleftrightarrow> length fs = length (insns meth) \<and>
     (\<forall>j. i \<le> j \<and> j < dvmGetMethodInsnsSize meth \<longrightarrow>
        (if insn_from meth i j
         then \<exists>w. dvmInsnGetWidth fs j = Ret w \<and> code_width meth j = Ret (Some w) \<and> 0 < w \<and> j + w \<le> dvmGetMethodInsnsSize meth
         else dvmInsnGetWidth fs j = Ret 0))"

text \<open>A width is positive, or so small that the walk leaves the code at its lower end.\<close>

lemma code_width_range:
  assumes "code_width meth i = Ret (Some w)"
  shows "0 < w \<or> w < 4 - 2 ^ 31"
proof -
  have table: "0 < sint (4 + x div 2) \<or> sint (4 + x div 2) < 4 - 2 ^ 31" for x :: u4
  proof -
    have upper: "uint (x div 2) < 2 ^ 31" using unsigned_less [where 'a = int, of x] by (simp add: uint_div_distrib)
    moreover have lower: "0 \<le> uint (x div 2)" by (rule unsigned_greater_eq)
    ultimately have "uint (4 + x div 2) = 4 + uint (x div 2)"
      by (subst uint_word_arith_bintrs(1)) (simp add: take_bit_int_eq_self)
    then have y: "4 + x div 2 = word_of_int (4 + uint (x div 2))" by (metis word_of_int_uint)
    have wrap: "(word_of_int (v - 2 ^ 32) :: u4) = word_of_int v" for v :: int by (simp add: word_of_int_eq_iff take_bit_eq_mod mod_diff_right_eq flip: minus_mod_self2)
    show ?thesis
    proof (cases "4 + uint (x div 2) < 2 ^ 31")
      case True
      then have "sint (4 + x div 2) = 4 + uint (x div 2)"
        unfolding y using lower by (intro sint_word_of_int_fits) auto
      then show ?thesis using lower by linarith
    next
      case False
      then have "sint (4 + x div 2) = 4 + uint (x div 2) - 2 ^ 32"
        unfolding y using upper by (subst wrap [symmetric]) (intro sint_word_of_int_fits; simp)
      then show ?thesis using upper by simp
    qed
  qed
  have "0 < 4 + uint n * 2" and "0 < 2 + uint n * 4" for n :: u2
    using unsigned_greater_eq [where 'a = int, of n] by linarith+
  then show ?thesis using assms table by (auto simp: code_width_def Let_def split: if_splits)
qed


lemma code_width_negative: "i < 0 \<Longrightarrow> code_width meth i = OutOfBounds"
  by (simp add: code_width_def unit_at_def read_at_def)

text \<open>The array of flags is written at the starts only, so the part before \<open>i\<close> stays.\<close>

lemma insn_from_le:
  assumes "insn_from meth i j" and "0 \<le> j" and "dvmGetMethodInsnsSize meth < 2 ^ 31 - 3"
  shows "i \<le> j"
  using assms
proof induction
  case (insn_next i w j)
  then have "i + w \<le> j" by simp
  moreover have "0 < w"
  proof (rule ccontr)
    assume "\<not> 0 < w"
    then have "i + w < 0" using code_width_range [OF insn_next.hyps(2)] insn_next.hyps(1) insn_next.prems(2) by simp
    with insn_next.hyps(3) have "i + w = j"
      by cases (auto simp: code_width_negative)
    then show False using \<open>i + w < 0\<close> insn_next.prems(1) by simp
  qed
  ultimately show ?case by simp
qed simp

lemma bit_one_push: "k < 32 \<Longrightarrow> bit (push_bit k 1 :: u4) i \<longleftrightarrow> i = k"
  by (auto simp only: bit_push_bit_iff bit_1_iff possible_bit_word) simp_all

lemma flag_bit_iff:
  "bit kInsnFlagChanged i \<longleftrightarrow> i = 31" "bit kInsnFlagVisited i \<longleftrightarrow> i = 30" "bit kInsnFlagBranchTarget i \<longleftrightarrow> i = 17"
  "bit kInsnFlagInTry i \<longleftrightarrow> i = 16" "bit kInsnFlagWidthMask i \<longleftrightarrow> i < 16"
  by (simp_all only: insn_flag_defs bit_one_push) (auto simp: bit_mask_iff)

lemma width_no_mark:
  assumes "0 \<le> w" and "w < 2 ^ 16"
  shows "(word_of_int w :: u4) AND (kInsnFlagVisited OR kInsnFlagChanged) = 0"
proof (rule bit_word_eqI)
  fix k assume "k < LENGTH(32)"
  have "\<not> bit w k" if "16 \<le> k"
  proof -
    have "take_bit 16 w = w" using assms by (simp add: take_bit_int_eq_self)
    then show ?thesis using that by (metis bit_take_bit_iff leD)
  qed
  then show "bit ((word_of_int w :: u4) AND (kInsnFlagVisited OR kInsnFlagChanged)) k = bit (0 :: u4) k"
    by (auto simp: flag_bit_iff bit_and_iff bit_or_iff bit_word_of_int_iff)
qed

lemma compute_widths_laid_out:
  assumes "compute_widths meth fs i c = ret (True, fs', c')"
    and "0 \<le> i" and "length fs = length (insns meth)" and "dvmGetMethodInsnsSize meth < 2 ^ 31 - 3"
    and "\<And>j. i \<le> j \<Longrightarrow> j < dvmGetMethodInsnsSize meth \<Longrightarrow> fs ! nat j = 0"
  shows "laid_out meth fs' i \<and> (\<forall>j<nat i. fs' ! j = fs ! j)
    \<and> (\<forall>j. i \<le> j \<and> j < dvmGetMethodInsnsSize meth \<longrightarrow> fs' ! nat j AND (kInsnFlagVisited OR kInsnFlagChanged) = 0)"
  using assms
proof (induction "nat (dvmGetMethodInsnsSize meth - i)" arbitrary: fs i c rule: less_induct)
  case (less i fs c)
  let ?n = "dvmGetMethodInsnsSize meth"
  show ?case
  proof (cases "i \<ge> ?n")
    case True
    then have "fs' = fs" using less.prems(1) by (simp add: compute_widths.simps [of meth fs i])
    then show ?thesis using True less.prems(3) by (auto simp: laid_out_def)
  next
    case False
    then obtain w c2 where w: "code_width meth i = Ret (Some w)" "w \<le> 65535"
      and rest: "compute_widths meth (fs[nat i := fs ! nat i OR word_of_int w]) (i + w) c2 = ret (True, fs', c')"
      using less.prems(1) by (simp add: compute_widths.simps [of meth fs i] split: outcome.splits option.splits if_splits)
    have "0 < w"
    proof (rule ccontr)
      assume "\<not> 0 < w"
      then have "i + w < 0" using code_width_range [OF w(1)] False less.prems(4) by simp
      then have "compute_widths meth gs (i + w) c2 = Some OutOfBounds" for gs
        using False less.prems(2) by (simp add: compute_widths.simps [of meth _ "i + w"] code_width_negative)
      then show False using rest by simp
    qed
    have fits: "i + w \<le> ?n"
      using rest by (cases "i + w \<le> ?n") (simp_all add: compute_widths.simps [of meth _ "i + w"])
    let ?gs = "fs[nat i := fs ! nat i OR word_of_int w]"
    have ih: "laid_out meth fs' (i + w) \<and> (\<forall>j<nat (i + w). fs' ! j = ?gs ! j)
        \<and> (\<forall>j. i + w \<le> j \<and> j < ?n \<longrightarrow> fs' ! nat j AND (kInsnFlagVisited OR kInsnFlagChanged) = 0)"
      using rest False \<open>0 < w\<close> less.prems by (intro less.hyps [OF _ rest]) (auto simp: nth_list_update)
    have fsi: "fs' ! nat i = word_of_int w"
      using ih False \<open>0 < w\<close> less.prems by (simp add: dvmGetMethodInsnsSize_def)
    have here: "dvmInsnGetWidth fs' i = Ret w"
    proof -
      note fsi
      moreover have "uint (word_of_int w AND mask 16 :: u4) = w"
        using w(2) \<open>0 < w\<close> by (simp add: unsigned_take_bit_eq uint_word_of_int_eq take_bit_int_eq_self flip: take_bit_eq_mask)
      ultimately show ?thesis using False less.prems(2) ih
        by (simp add: dvmInsnGetWidth_def flags_at_def read_at_def laid_out_def dvmGetMethodInsnsSize_def kInsnFlagWidthMask_def)
    qed
    have gap: "(dvmInsnGetWidth fs' j = Ret 0 \<and> \<not> insn_from meth i j) \<and> fs' ! nat j = 0" if "i < j" "j < i + w" for j
    proof (intro conjI)
      show "fs' ! nat j = 0" using ih that fits less.prems by (simp add: nth_list_update)
      then show "dvmInsnGetWidth fs' j = Ret 0" using that fits less.prems(2,3) ih
        by (simp add: dvmInsnGetWidth_def flags_at_def read_at_def laid_out_def dvmGetMethodInsnsSize_def)
      show "\<not> insn_from meth i j" 
        using that w(1) less.prems(2,4) insn_from_le [of meth "i + w" j] by (auto elim: insn_fromE)
    qed
    have from_here: "insn_from meth i j \<longleftrightarrow> insn_from meth (i + w) j" if "i + w \<le> j" for j
      using that w(1) False \<open>0 < w\<close> by (auto elim: insn_fromE intro: insn_next)
    have "laid_out meth fs' i"
      unfolding laid_out_def
    proof (intro conjI allI impI)
      show "length fs' = length (insns meth)" using ih by (simp add: laid_out_def)
      fix j assume j: "i \<le> j \<and> j < ?n"
      consider "j = i" | "i < j" "j < i + w" | "i + w \<le> j" using j by linarith
      then show "if insn_from meth i j then \<exists>w. dvmInsnGetWidth fs' j = Ret w \<and> code_width meth j = Ret (Some w) \<and> 0 < w \<and> j + w \<le> ?n
          else dvmInsnGetWidth fs' j = Ret 0"
        by cases (use j here w fits \<open>0 < w\<close> gap [THEN conjunct1] from_here ih [THEN conjunct1] in \<open>auto simp: insn_here laid_out_def\<close>)
    qed
    moreover have "fs' ! nat j AND (kInsnFlagVisited OR kInsnFlagChanged) = 0" if j: "i \<le> j" "j < ?n" for j
    proof -
      have "(word_of_int w :: u4) AND (kInsnFlagVisited OR kInsnFlagChanged) = 0"
        using \<open>0 < w\<close> w(2) by (intro width_no_mark) simp_all
      then have i: "fs' ! nat i AND (kInsnFlagVisited OR kInsnFlagChanged) = 0" by (simp only: fsi)
      consider "j = i" | "i < j" "j < i + w" | "i + w \<le> j" using j by linarith
      then show ?thesis
      proof cases
        case 1 then show ?thesis using i by (simp only:)
      next
        case 2 then show ?thesis using gap [OF 2] by simp
      next
        case 3 then show ?thesis using ih j(2) by blast
      qed
    qed
    ultimately show ?thesis using ih \<open>0 < w\<close> less.prems(2) by (simp add: nth_list_update)
  qed
qed


section \<open>Targets\<close>

lemma laid_out_grow: "flags_grow fs fs' \<Longrightarrow> laid_out meth fs i \<Longrightarrow> laid_out meth fs' i"
  by (simp add: laid_out_def width_grow) (simp add: flags_grow_def)

text \<open>Control may reach \<open>t\<close>: an instruction starts there, and the flags mark it as a target.\<close>

definition valid_target :: "Method \<Rightarrow> InsnFlags list \<Rightarrow> int \<Rightarrow> bool" where
  "valid_target meth fs t \<longleftrightarrow> 0 \<le> t \<and> insn_start meth t \<and> dvmInsnIsBranchTarget fs t = Ret True"

lemma valid_target_grow: "flags_grow fs fs' \<Longrightarrow> valid_target meth fs t \<Longrightarrow> valid_target meth fs' t"
  by (simp add: valid_target_def flag_is_grow)

lemma laid_out_start:
  assumes "laid_out meth fs 0" and "dvmInsnGetWidth fs t = Ret w" and "w \<noteq> 0"
  shows "0 \<le> t" and "insn_start meth t" and "code_width meth t = Ret (Some w)"
proof -
  have t: "0 \<le> t" "t < dvmGetMethodInsnsSize meth"
    using assms(1,2) by (auto simp: laid_out_def dvmInsnGetWidth_def flags_at_def dvmGetMethodInsnsSize_def split: option.splits)
  moreover from t have "insn_from meth 0 t \<and> code_width meth t = Ret (Some w)"
    using assms by (cases "insn_from meth 0 t") (auto simp: laid_out_def)
  ultimately show "0 \<le> t" and "insn_start meth t" and "code_width meth t = Ret (Some w)"
    by (simp_all add: insn_start_def)
qed

lemma set_target:
  assumes "laid_out meth fs 0" and "dvmInsnGetWidth fs t = Ret w" and "w \<noteq> 0" and "dvmInsnSetBranchTarget fs t = Ret fs'"
  shows "flags_grow fs fs' \<and> valid_target meth fs' t"
  using laid_out_start [OF assms(1-3)] flags_grow_set [OF assms(4)] by (simp add: valid_target_def)

lemma set_in_try_grow: "set_in_try fs addr stop = Ret fs' \<Longrightarrow> flags_grow fs fs'"
proof (induction fs addr stop rule: set_in_try.induct)
  case (1 fs addr stop)
  show ?case
  proof (cases "addr \<ge> stop")
    case True
    then show ?thesis using "1.prems" by (simp add: set_in_try.simps [of fs])
  next
    case False
    then obtain w gs where "dvmInsnGetWidth fs addr = Ret w" "\<not> w \<le> 0" and gs: "dvmInsnSetInTry fs addr = Ret gs"
      and rest: "set_in_try gs (addr + w) stop = Ret fs'"
      using "1.prems" by (auto simp: set_in_try.simps [of fs] split: outcome.splits if_splits)
    then have "flags_grow gs fs'" using "1.IH" False by blast
    with flags_grow_set(1) [OF gs] show ?thesis using flags_grow_trans by simp
  qed
qed

lemma set_tries_grow: "set_tries n ts fs = Ret (okay, fs') \<Longrightarrow> flags_grow fs fs'"
  by (induction n ts fs rule: set_tries.induct)
    (auto simp: Let_def split: if_splits prod.splits dest!: set_in_try_grow intro: flags_grow_trans)

lemma set_handlers_targets:
  "set_handlers hs fs = Ret (True, fs') \<Longrightarrow> laid_out meth fs 0 \<Longrightarrow>
     flags_grow fs fs' \<and> (\<forall>h\<in>set hs. valid_target meth fs' (uint (address h)))"
proof (induction hs arbitrary: fs)
  case (Cons h hs)
  then obtain w gs where w: "dvmInsnGetWidth fs (uint (address h)) = Ret w" "w \<noteq> 0"
    and gs: "dvmInsnSetBranchTarget fs (uint (address h)) = Ret gs" and rest: "set_handlers hs gs = Ret (True, fs')"
    by (auto split: if_splits)
  note t = set_target [OF Cons.prems(2) w gs]
  then have "flags_grow gs fs' \<and> (\<forall>h\<in>set hs. valid_target meth fs' (uint (address h)))"
    using Cons.IH [OF rest] laid_out_grow Cons.prems(2) by blast
  then show ?case using t flags_grow_trans valid_target_grow by auto
qed simp

text \<open>The handlers of the first \<open>n\<close> lists at \<open>offset\<close>.\<close>

fun handlers_of :: "DexCode \<Rightarrow> nat \<Rightarrow> nat \<Rightarrow> DexCatchHandler list outcome" where
  "handlers_of code 0 offset = Ret []"
| "handlers_of code (Suc n) offset =
     bind_out (dexCatchIteratorInit code offset) (\<lambda>it.
     bind_out (catch_handlers code it) (\<lambda>(hs, it).
     bind_out (dexCatchIteratorGetEndOffset code it) (\<lambda>offset.
     bind_out (handlers_of code n offset) (\<lambda>rest. Ret (hs @ rest)))))"

definition method_handlers :: "DexCode \<Rightarrow> DexCatchHandler list outcome" where
  "method_handlers code =
     (if tries code = [] then Ret []
      else bind_out (dexGetHandlersSize code) (\<lambda>handlersSize.
        bind_out (dexGetFirstHandlerOffset code) (\<lambda>offset. handlers_of code (unat handlersSize) offset)))"

lemma set_handler_lists_targets:
  "set_handler_lists code n offset fs = Ret (True, fs') \<Longrightarrow> laid_out meth fs 0 \<Longrightarrow>
     flags_grow fs fs' \<and> (\<exists>hs. handlers_of code n offset = Ret hs \<and> (\<forall>h\<in>set hs. valid_target meth fs' (uint (address h))))"
proof (induction n arbitrary: offset fs)
  case (Suc n)
  then obtain it hs it2 gs off2 where init: "dexCatchIteratorInit code offset = Ret it" "catch_handlers code it = Ret (hs, it2)"
    and gs: "set_handlers hs fs = Ret (True, gs)" and off2: "dexCatchIteratorGetEndOffset code it2 = Ret off2"
    and rest: "set_handler_lists code n off2 gs = Ret (True, fs')"
    by (auto split: if_splits prod.splits)
  note t = set_handlers_targets [OF gs Suc.prems(2)]
  then have r: "flags_grow gs fs' \<and> (\<exists>hs. handlers_of code n off2 = Ret hs \<and> (\<forall>h\<in>set hs. valid_target meth fs' (uint (address h))))"
    using Suc.IH [OF rest] laid_out_grow Suc.prems(2) by blast
  then obtain hs2 where hs2: "handlers_of code n off2 = Ret hs2" "\<forall>h\<in>set hs2. valid_target meth fs' (uint (address h))" by blast
  have "handlers_of code (Suc n) offset = Ret (hs @ hs2)" using init off2 hs2(1) by simp
  moreover have "\<forall>h\<in>set (hs @ hs2). valid_target meth fs' (uint (address h))"
    using t r hs2(2) valid_target_grow by auto
  ultimately show ?case using t r flags_grow_trans by blast
qed simp

lemma dvmSetTryFlags_targets:
  assumes "dvmSetTryFlags meth fs = Ret (True, fs')" and "laid_out meth fs 0"
  shows "flags_grow fs fs' \<and>
    (\<exists>hs. method_handlers (pCode meth) = Ret hs \<and> (\<forall>h\<in>set hs. valid_target meth fs' (uint (address h))))"
proof (cases "tries (pCode meth) = []")
  case True
  then show ?thesis using assms by (simp add: dvmSetTryFlags_def method_handlers_def)
next
  case False
  then obtain k gs off where k: "dexGetHandlersSize (pCode meth) = Ret k" "dexGetFirstHandlerOffset (pCode meth) = Ret off"
    and gs: "set_tries (dvmGetMethodInsnsSize meth) (tries (pCode meth)) fs = Ret (True, gs)"
    and lists: "set_handler_lists (pCode meth) (unat k) off gs = Ret (True, fs')"
    using assms(1) by (auto simp: dvmSetTryFlags_def split: if_splits prod.splits)
  have "flags_grow fs gs" using gs by (rule set_tries_grow)
  then show ?thesis
    using set_handler_lists_targets [OF lists] laid_out_grow assms(2) False k flags_grow_trans
    by (simp add: method_handlers_def) blast
qed


lemma dvmCheckBranchTarget_target:
  assumes "dvmCheckBranchTarget meth fs i self = Ret (True, fs')" and "laid_out meth fs 0"
  shows "flags_grow fs fs' \<and> (\<exists>off c. dvmGetBranchTarget meth i = Ret (Some (off, c)) \<and> valid_target meth fs' (i + off))"
proof -
  obtain off c w where b: "dvmGetBranchTarget meth i = Ret (Some (off, c))" and w: "dvmInsnGetWidth fs (i + off) = Ret w" "w \<noteq> 0"
    and set: "dvmInsnSetBranchTarget fs (i + off) = Ret fs'"
    using assms(1) by (auto simp: dvmCheckBranchTarget_def opcode_width Let_def split: option.splits if_splits prod.splits)
  show ?thesis using set_target [OF assms(2) w set] b by blast
qed

text \<open>The targets a switch table at \<open>pos\<close> holds, and those of the switch instruction at \<open>i\<close>.\<close>

fun table_targets :: "Method \<Rightarrow> int \<Rightarrow> int \<Rightarrow> nat \<Rightarrow> int list outcome" where
  "table_targets meth i pos 0 = Ret []"
| "table_targets meth i pos (Suc n) =
     bind_out (s4_at meth pos) (\<lambda>offset. bind_out (table_targets meth i (pos + 2) n) (\<lambda>ts. Ret ((i + offset) # ts)))"

definition switch_targets :: "Method \<Rightarrow> int \<Rightarrow> int list outcome" where
  "switch_targets meth i =
     bind_out (unit_at meth i) (\<lambda>w.
     bind_out (unit_at meth (i + 1)) (\<lambda>lo.
       let table = i + sint lo in
       bind_out (unit_at meth (table + 1)) (\<lambda>cnt.
         table_targets meth i (table + (if INST_INST w = OP_PACKED_SWITCH then 4 else 2 + 2 * uint cnt)) (unat cnt))))"

lemma check_targets_valid:
  "check_targets meth i pos n fs = Ret (True, fs') \<Longrightarrow> laid_out meth fs 0 \<Longrightarrow>
     flags_grow fs fs' \<and> (\<exists>ts. table_targets meth i pos n = Ret ts \<and> (\<forall>t\<in>set ts. valid_target meth fs' t))"
proof (induction n arbitrary: pos fs)
  case (Suc n)
  then obtain off w gs where off: "s4_at meth pos = Ret off" and w: "dvmInsnGetWidth fs (i + off) = Ret w" "w \<noteq> 0"
    and gs: "dvmInsnSetBranchTarget fs (i + off) = Ret gs" and rest: "check_targets meth i (pos + 2) n gs = Ret (True, fs')"
    by (auto simp: opcode_width Let_def split: if_splits)
  note t = set_target [OF Suc.prems(2) w gs]
  then have r: "flags_grow gs fs' \<and> (\<exists>ts. table_targets meth i (pos + 2) n = Ret ts \<and> (\<forall>t\<in>set ts. valid_target meth fs' t))"
    using Suc.IH [OF rest] laid_out_grow Suc.prems(2) by blast
  then obtain ts where ts: "table_targets meth i (pos + 2) n = Ret ts" "\<forall>t\<in>set ts. valid_target meth fs' t" by blast
  moreover have "valid_target meth fs' (i + off)" and "flags_grow fs fs'"
    using t r valid_target_grow flags_grow_trans by blast+
  ultimately show ?case using off by simp
qed simp

lemma dvmCheckSwitchTargets_valid:
  assumes "dvmCheckSwitchTargets meth fs i = Ret (True, fs')" and "laid_out meth fs 0"
  shows "flags_grow fs fs' \<and> (\<exists>ts. switch_targets meth i = Ret ts \<and> (\<forall>t\<in>set ts. valid_target meth fs' t))"
proof -
  let ?table = "\<lambda>lo. i + sint (lo :: u2)"
  obtain lo where lo: "unit_at meth (i + 1) = Ret lo"
    using assms(1) by (auto simp: dvmCheckSwitchTargets_def Let_def split: if_split_asm)
  have size: "\<not> (?table lo < 0 \<or> ?table lo + 2 \<ge> dvmGetMethodInsnsSize meth)" and bounds: "0 \<le> i" "i < dvmGetMethodInsnsSize meth"
    and align: "\<not> (ucast (insnsAddr meth + word_of_int (2 * ?table lo)) :: u4) AND 3 \<noteq> 0"
    using assms(1) lo unfolding dvmCheckSwitchTargets_def Let_def by (auto split: if_split_asm)
  obtain w where w: "unit_at meth i = Ret w"
    using bounds by (cases "unit_at meth i") (auto simp: unit_at_def dvmGetMethodInsnsSize_def read_at_def)
  obtain cnt where cnt: "unit_at meth (?table lo + 1) = Ret cnt"
    using size by (cases "unit_at meth (?table lo + 1)") (auto simp: unit_at_def dvmGetMethodInsnsSize_def read_at_def)
  have chk: "check_targets meth i (?table lo + (if INST_INST w = OP_PACKED_SWITCH then 4 else 2 + 2 * uint cnt)) (unat cnt) fs
      = Ret (True, fs')"
  proof (cases "INST_INST w = OP_PACKED_SWITCH")
    case True
    then show ?thesis using assms(1) bounds size
      unfolding dvmCheckSwitchTargets_def Let_def lo w cnt bind_out_simps if_not_P [OF size] if_not_P [OF align]
      by (auto split: if_split_asm)
  next
    case False
    then show ?thesis using assms(1) bounds size
      unfolding dvmCheckSwitchTargets_def Let_def lo w cnt bind_out_simps if_not_P [OF size] if_not_P [OF align]
      by (auto split: if_split_asm)
  qed
  with lo w cnt show ?thesis using check_targets_valid [OF chk assms(2)] by (simp add: switch_targets_def)
qed

text \<open>What the static check of the instruction at \<open>i\<close> establishes about where control can go from there.\<close>

definition targets_checked :: "Method \<Rightarrow> InsnFlags list \<Rightarrow> int \<Rightarrow> bool" where
  "targets_checked meth fs i \<longleftrightarrow>
     (\<forall>off c. dvmGetBranchTarget meth i = Ret (Some (off, c)) \<longrightarrow> valid_target meth fs (i + off)) \<and>
     (\<forall>w. unit_at meth i = Ret w \<and> INST_INST w \<in> {OP_PACKED_SWITCH, OP_SPARSE_SWITCH} \<longrightarrow>
        (\<exists>ts. switch_targets meth i = Ret ts \<and> (\<forall>t\<in>set ts. valid_target meth fs t)))"

lemma targets_checked_grow: "flags_grow fs fs' \<Longrightarrow> targets_checked meth fs i \<Longrightarrow> targets_checked meth fs' i"
  by (meson targets_checked_def valid_target_grow)

definition branch_ops :: "OpCode set" where
  "branch_ops = {OP_GOTO, OP_GOTO_16, OP_GOTO_32, OP_IF_EQ, OP_IF_NE, OP_IF_LT, OP_IF_GE, OP_IF_GT, OP_IF_LE,
     OP_IF_EQZ, OP_IF_NEZ, OP_IF_LTZ, OP_IF_GEZ, OP_IF_GTZ, OP_IF_LEZ}"

lemma dvmGetBranchTarget_op:
  "dvmGetBranchTarget meth i = Ret (Some t) \<Longrightarrow> unit_at meth i = Ret w \<Longrightarrow> INST_INST w \<in> branch_ops"
  by (auto simp: dvmGetBranchTarget_def branch_ops_def split: if_splits)

lemma static_check_branch:
  assumes "opc \<in> branch_ops"
  shows "static_check env meth ao i opc fs = dvmCheckBranchTarget meth fs i (opc = OP_GOTO_32)"
  using assms unfolding branch_ops_def by (elim insertE emptyE) (simp_all add: static_check_def)

lemma static_check_switch:
  "opc \<in> {OP_PACKED_SWITCH, OP_SPARSE_SWITCH} \<Longrightarrow> static_check env meth ao i opc fs = dvmCheckSwitchTargets meth fs i"
  by (auto simp: static_check_def)

lemma static_check_other:
  assumes "static_check env meth ao i opc fs = Ret (okay, fs')" and "opc \<notin> branch_ops" and "opc \<notin> {OP_PACKED_SWITCH, OP_SPARSE_SWITCH}"
  shows "fs' = fs"
  using assms by (auto simp: static_check_def keep_flags_def branch_ops_def split: if_splits)

lemma static_check_targets:
  assumes "static_check env meth ao i (INST_INST w) fs = Ret (True, fs')" and "unit_at meth i = Ret w" and "laid_out meth fs 0"
  shows "flags_grow fs fs' \<and> targets_checked meth fs' i"
proof -
  consider "INST_INST w \<in> branch_ops" | "INST_INST w \<in> {OP_PACKED_SWITCH, OP_SPARSE_SWITCH}"
    | "INST_INST w \<notin> branch_ops" "INST_INST w \<notin> {OP_PACKED_SWITCH, OP_SPARSE_SWITCH}" by blast
  then show ?thesis
  proof cases
    case 1
    then have "INST_INST w \<notin> {OP_PACKED_SWITCH, OP_SPARSE_SWITCH}" by (auto simp: branch_ops_def)
    then show ?thesis
      using assms(1,2) dvmCheckBranchTarget_target [OF _ assms(3)] unfolding static_check_branch [OF 1] targets_checked_def by fastforce
  next
    case 2
    then have "INST_INST w \<notin> branch_ops" by (auto simp: branch_ops_def)
    then show ?thesis
      using assms(1,2) dvmCheckSwitchTargets_valid [OF _ assms(3)] dvmGetBranchTarget_op
      unfolding static_check_switch [OF 2] targets_checked_def by blast
  next
    case 3
    then show ?thesis
      using static_check_other [OF assms(1) 3] assms(2) dvmGetBranchTarget_op unfolding targets_checked_def by auto
  qed
qed

lemma verify_static_targets:
  assumes "verify_static env meth ao i fs = Ret (True, fs')" and "laid_out meth fs 0" and "0 \<le> i"
  shows "flags_grow fs fs' \<and> (\<forall>j. insn_from meth i j \<and> j < dvmGetMethodInsnsSize meth \<longrightarrow> targets_checked meth fs' j)"
  using assms
proof (induction env meth ao i fs rule: verify_static.induct)
  case (1 env meth ao i fs)
  show ?case
  proof (cases "i \<ge> dvmGetMethodInsnsSize meth")
    case True
    then have "fs' = fs" using "1.prems"(1) by (simp add: verify_static.simps [of env meth ao i])
    moreover have "j = i \<or> j \<ge> dvmGetMethodInsnsSize meth" if "insn_from meth i j" for j
      using that True by (auto elim: insn_fromE)
    ultimately show ?thesis using True by force
  next
    case False
    let ?G = "\<lambda>w. if dexGetInstrFlags gDvm_instrFlags (INST_INST w) AND gcMask \<noteq> 0 then dvmInsnSetGcPoint fs i else Ret fs"
    obtain width where width: "dvmInsnGetWidth fs i = Ret width"
      using False "1.prems"(1) by (cases "dvmInsnGetWidth fs i") (simp_all add: verify_static.simps [of env meth ao i fs])
    note unfolded = "1.prems"(1) [unfolded verify_static.simps [of env meth ao i fs] width outcome.case if_not_P [OF False] bind_out_eq_Ret]
    then obtain w gs hs okay where w: "unit_at meth i = Ret w" and gs: "?G w = Ret gs"
      and hs: "static_check env meth ao i (INST_INST w) gs = Ret (okay, hs)"
      and tail: "(if \<not> okay then Ret (False, hs) else if width \<le> 0 then AbortVM else verify_static env meth ao (i + width) hs) = Ret (True, fs')"
      by (elim exE conjE) (auto split: prod.splits)
    have okay: "okay" "\<not> width \<le> 0" and rest: "verify_static env meth ao (i + width) hs = Ret (True, fs')"
      using tail by (auto split: if_splits)
    have "flags_grow fs gs" using gs flags_grow_set(1) by (auto split: if_splits)
    have here: "flags_grow gs hs \<and> targets_checked meth hs i"
      using static_check_targets [OF _ w] hs okay laid_out_grow [OF \<open>flags_grow fs gs\<close>] "1.prems"(2) by simp
    have grow: "flags_grow fs hs" using \<open>flags_grow fs gs\<close> here flags_grow_trans by blast
    have there: "flags_grow hs fs' \<and> (\<forall>j. insn_from meth (i + width) j \<and> j < dvmGetMethodInsnsSize meth \<longrightarrow> targets_checked meth fs' j)"
      using "1.IH" [OF False width _ okay(2) rest] okay laid_out_grow [OF grow] "1.prems"(2,3) by simp
    have "code_width meth i = Ret (Some width)"
      using laid_out_start(3) [OF "1.prems"(2) width] okay(2) by simp
    then have "targets_checked meth fs' j" if "insn_from meth i j" "j < dvmGetMethodInsnsSize meth" for j
      using that here there targets_checked_grow by (auto elim: insn_fromE)
    then show ?thesis using grow there flags_grow_trans by blast
  qed
qed


lemma static_passes:
  assumes "dvmGetMethodInsnsSize meth < 2 ^ 31 - 3"
    and "dvmComputeCodeWidths meth (replicate (length (insns meth)) 0) = ret (True, fs0, newInstanceCount)"
    and "dvmSetTryFlags meth fs0 = Ret (True, fs1)"
    and "verifyInstructions env meth allowOpt fs1 = Ret (True, fs)"
  shows "laid_out meth fs 0 \<and>
    (\<forall>i. insn_start meth i \<longrightarrow> targets_checked meth fs i) \<and>
    (\<exists>hs. method_handlers (pCode meth) = Ret hs \<and> (\<forall>h\<in>set hs. valid_target meth fs (uint (address h)))) \<and>
    valid_target meth fs 0 \<and>
    (\<forall>k<length (insns meth). fs ! k AND (kInsnFlagVisited OR kInsnFlagChanged) = 0)"
proof -
  have lay0: "laid_out meth fs0 0" and clean: "\<forall>k<length (insns meth). fs0 ! k AND (kInsnFlagVisited OR kInsnFlagChanged) = 0"
    using compute_widths_laid_out [OF assms(2) [unfolded dvmComputeCodeWidths_def]] assms(1)
    by (simp_all add: dvmGetMethodInsnsSize_def) (metis nat_int of_nat_0_le_iff of_nat_less_iff)
  from dvmSetTryFlags_targets [OF assms(3) lay0] obtain hs where g01: "flags_grow fs0 fs1"
    and hs: "method_handlers (pCode meth) = Ret hs" "\<forall>h\<in>set hs. valid_target meth fs1 (uint (address h))" by blast
  from assms(4) obtain fs2 where fs2: "dvmInsnSetBranchTarget fs1 0 = Ret fs2" and rest: "verify_static env meth allowOpt 0 fs2 = Ret (True, fs)"
    by (auto simp: verifyInstructions_def)
  have lay1: "laid_out meth fs1 0" using laid_out_grow [OF g01 lay0] .
  have g12: "flags_grow fs1 fs2" using flags_grow_set(1) [OF fs2] by simp
  have lay2: "laid_out meth fs2 0" using laid_out_grow [OF g12 lay1] .
  have static: "flags_grow fs2 fs \<and> (\<forall>j. insn_from meth 0 j \<and> j < dvmGetMethodInsnsSize meth \<longrightarrow> targets_checked meth fs j)"
    using verify_static_targets [OF rest lay2] by simp
  have "0 < dvmGetMethodInsnsSize meth"
    using flags_grow_set(4) [OF fs2] lay2 by (auto simp: laid_out_def dvmGetMethodInsnsSize_def)
  then have "valid_target meth fs2 0"
    using flags_grow_set(2) [OF fs2] by (simp add: valid_target_def insn_start_def insn_here)
  moreover have "flags_grow fs0 fs" using flags_grow_trans [OF g01 flags_grow_trans [OF g12]] static by blast
  then have "\<forall>k<length (insns meth). fs ! k AND (kInsnFlagVisited OR kInsnFlagChanged) = 0"
    using clean lay0 by (simp add: flags_grow_def laid_out_def)
  ultimately show ?thesis
    using static hs laid_out_grow [OF _ lay2] flags_grow_trans [OF g12] valid_target_grow insn_start_def by blast
qed



text \<open>
  A method whose first instruction is followed by a conditional branch to a \<open>throw\<close> in a \<open>try\<close> block that
  is handled at the \<open>return\<close>.
\<close>

definition static_method :: Method where
  "static_method = \<lparr>meth_clazz = 32, meth_accessFlags = 8, methodIndex = 0, registersSize = 1, outsSize = 0, insSize = 0,
     meth_name = ''m'', parameters = [], returnType = ''V'', insns = [0x0012, 0x0038, 0x0002, 0x0027, 0x000e], insnsAddr = 0x1000,
     pCode = \<lparr>tries = [\<lparr>startAddr = 3, insnCount = 1, handlerOff = 1\<rparr>], handlerData = [1, 0, 4]\<rparr>\<rparr>"

definition static_env :: verify_env where
  "static_env = \<lparr>classes = Map.empty, findClassNoInit = (\<lambda>_ _. 0), findArrayClass = (\<lambda>_ _. 0), findArrayClassForElement = (\<lambda>_. 0),
     optResolveClass = (\<lambda>_ _. 0), optResolveMethod = (\<lambda>_ _ _. None), optResolveInterfaceMethod = (\<lambda>_ _. None),
     optResolveInstField = (\<lambda>_ _. None), optResolveStaticField = (\<lambda>_ _. None), classJavaLangObject = 0, classJavaLangClass = 0,
     classJavaLangString = 0, classJavaLangThrowable = 0, stringIdsSize = 0, typeIdsSize = 0, fieldIdsSize = 0, methodIdsSize = 0,
     typeDescriptor = (\<lambda>_. [])\<rparr>"

lemma static_method_units:
  "unit_at static_method 0 = Ret 0x12" "unit_at static_method 1 = Ret 0x38" "unit_at static_method 2 = Ret 2" "unit_at static_method 3 = Ret 0x27"
  "unit_at static_method 4 = Ret 0xe" "dvmGetMethodInsnsSize static_method = 5" "insns static_method = [0x0012, 0x0038, 0x0002, 0x0027, 0x000e]"
  by (simp_all add: unit_at_def static_method_def read_at_def dvmGetMethodInsnsSize_def)

lemma static_method_widths:
  "code_width static_method 0 = Ret (Some 1)" "code_width static_method 1 = Ret (Some 2)"
  "code_width static_method 3 = Ret (Some 1)" "code_width static_method 4 = Ret (Some 1)"
  by (simp_all add: code_width_def static_method_units payload_simps INST_INST_def instr_width_of_def arm_simps Let_def)

lemma static_method_passes:
  "dvmComputeCodeWidths static_method [0, 0, 0, 0, 0] = ret (True, [1, 2, 0, 1, 1], 0)"
  "dvmSetTryFlags static_method [1, 2, 0, 1, 1] = Ret (True, [1, 2, 0, 0x10001, 0x20001])"
  "verifyInstructions static_env static_method False [1, 2, 0, 0x10001, 0x20001] = Ret (True, [0x20001, 0x40002, 0, 0x70001, 0x60001])"
  subgoal by (simp add: dvmComputeCodeWidths_def compute_widths.simps static_method_units static_method_widths INST_INST_def)
  subgoal by code_simp
  subgoal
    by (simp add: verifyInstructions_def verify_static.simps static_method_units flag_set_def flags_at_def read_at_def dvmInsnGetWidth_def
      insn_flag_defs INST_INST_def instr_flags_of_def arm_simps flag_defs gcMask_def static_check_def dvmCheckBranchTarget_def
      dvmGetBranchTarget_def fits_int_def dvmInsnIsOpcode_def mask_eq_exp_minus_1)
  done


end
