(* ===== verification/VerifyInsn.thy ===== *)
theory VerifyInsn
  imports VerifyStatic
begin

text \<open>
  The type check of one instruction, the middle of \<^verbatim>\<open>src/vm/analysis/CodeVerify.c\<close>: signatures, invocation arguments, field
  access, and the arms of the \<open>switch\<close> of \<open>verifyInstruction\<close>. An arm is a computation over the working registers, the
  map of uninitialized instances and the flags \<open>okay\<close> and \<open>justSetResult\<close>; \<open>okay\<close> is the variable the helpers receive as \<open>pOkay\<close>, and
  a \<open>break\<close> under \<open>if (!okay)\<close> is the end of the computation.
\<close>

section \<open>Computations of the verifier\<close>

record vstate =
  workRegs :: "RegType list"
  uninitMap :: UninitInstanceMap
  okay :: bool
  justSetResult :: bool

type_synonym 'a vop = "vstate \<Rightarrow> ('a \<times> vstate) run"

definition vret :: "'a \<Rightarrow> 'a vop" where
  "vret x s = ret (x, s)"

definition vbind :: "'a vop \<Rightarrow> ('a \<Rightarrow> 'b vop) \<Rightarrow> 'b vop" where
  "vbind m f s = bind_run (m s) (\<lambda>(x, s). f x s)"

definition vthen :: "'a vop \<Rightarrow> 'b vop \<Rightarrow> 'b vop" where
  "vthen m k = vbind m (\<lambda>_. k)"

definition lift_run :: "'a run \<Rightarrow> 'a vop" where
  "lift_run m s = bind_run m (\<lambda>x. ret (x, s))"

definition vassert :: "bool \<Rightarrow> unit vop" where
  "vassert b s = (if b then ret ((), s) else Some AbortVM)"

text \<open>\<open>okay = false\<close>, and \<open>if (!okay) break;\<close> before the rest of an arm.\<close>

definition reject :: "unit vop" where
  "reject s = ret ((), s\<lparr>okay := False\<rparr>)"

definition if_okay :: "unit vop \<Rightarrow> unit vop" where
  "if_okay m s = (if okay s then m s else ret ((), s))"

definition require :: "bool \<Rightarrow> unit vop \<Rightarrow> unit vop" where
  "require b m = (if b then m else reject)"

text \<open>A helper that gets \<open>pOkay\<close> and returns a value; one that also changes the registers; and one that only checks.\<close>

definition with_okay :: "(vstate \<Rightarrow> ('a \<times> bool) run) \<Rightarrow> 'a vop" where
  "with_okay f s = bind_run (f s) (\<lambda>(x, ok). ret (x, s\<lparr>okay := ok\<rparr>))"

definition with_regs :: "(vstate \<Rightarrow> (RegType list \<times> bool) run) \<Rightarrow> unit vop" where
  "with_regs f s = bind_run (f s) (\<lambda>(r, ok). ret ((), s\<lparr>workRegs := r, okay := ok\<rparr>))"

definition with_check :: "(vstate \<Rightarrow> bool run) \<Rightarrow> unit vop" where
  "with_check f s = bind_run (f s) (\<lambda>ok. ret ((), s\<lparr>okay := ok\<rparr>))"

abbreviation get_reg :: "nat \<Rightarrow> u4 \<Rightarrow> RegType vop" where
  "get_reg n v \<equiv> with_okay (\<lambda>s. Some (getRegisterType (workRegs s) n v (okay s)))"

abbreviation get_class :: "nat \<Rightarrow> u4 \<Rightarrow> u8 vop" where
  "get_class n v \<equiv> with_okay (\<lambda>s. Some (getClassFromRegister (workRegs s) n v (okay s)))"

abbreviation set_reg :: "nat \<Rightarrow> u4 \<Rightarrow> RegType \<Rightarrow> unit vop" where
  "set_reg n v t \<equiv> with_regs (\<lambda>s. Some (setRegisterType (workRegs s) n v t (okay s)))"

abbreviation set_result :: "nat \<Rightarrow> RegType \<Rightarrow> unit vop" where
  "set_result n t \<equiv> with_regs (\<lambda>s. Some (setResultRegisterType (workRegs s) n t (okay s)))"

abbreviation verify_reg :: "class_table \<Rightarrow> nat \<Rightarrow> u4 \<Rightarrow> RegType \<Rightarrow> unit vop" where
  "verify_reg ct n v t \<equiv> with_check (\<lambda>s. verifyRegisterType ct (workRegs s) n v t (okay s))"

abbreviation check_category :: "RegType \<Rightarrow> TypeCategory \<Rightarrow> unit vop" where
  "check_category t cat \<equiv> with_check (\<lambda>s. Some (checkTypeCategory t cat (okay s)))"

abbreviation check_wide :: "RegType \<Rightarrow> RegType \<Rightarrow> unit vop" where
  "check_wide l h \<equiv> with_check (\<lambda>s. ret (checkWidePair l h (okay s)))"

definition set_just_result :: "unit vop" where
  "set_just_result s = ret ((), s\<lparr>justSetResult := True\<rparr>)"

definition with_class :: "class_table \<Rightarrow> u8 \<Rightarrow> (ClassObject \<Rightarrow> 'a vop) \<Rightarrow> 'a vop" where
  "with_class ct p f s = deref ct p (\<lambda>c. f c s)"

section \<open>Signatures\<close>

definition dvmIsStaticMethod :: "Method \<Rightarrow> bool" where
  "dvmIsStaticMethod meth \<longleftrightarrow> meth_accessFlags meth AND ACC_STATIC \<noteq> 0"

definition dvmIsNativeMethod :: "Method \<Rightarrow> bool" where
  "dvmIsNativeMethod meth \<longleftrightarrow> meth_accessFlags meth AND ACC_NATIVE \<noteq> 0"

definition dvmIsAbstractMethod :: "Method \<Rightarrow> bool" where
  "dvmIsAbstractMethod meth \<longleftrightarrow> meth_accessFlags meth AND ACC_ABSTRACT \<noteq> 0"

definition dvmIsFinalField :: "Field \<Rightarrow> bool" where
  "dvmIsFinalField field \<longleftrightarrow> field_accessFlags field AND ACC_FINAL \<noteq> 0"

definition isInitMethod :: "Method \<Rightarrow> bool" where
  "isInitMethod meth \<longleftrightarrow> meth_name meth = ''<init>''"

text \<open>A character of a string, whose end is a zero byte.\<close>

definition char_at :: "string \<Rightarrow> nat \<Rightarrow> char" where
  "char_at s i = (if i < length s then s ! i else CHR 0x00)"

text \<open>
  The missing class is replaced by \<open>Object\<close> or \<open>Object[]\<close>. When even that is missing \<open>pOkay\<close> is cleared, but the
  \<open>NULL\<close> is still asked whether it is a primitive class.
\<close>

definition lookupClassByDescriptor :: "verify_env \<Rightarrow> Method \<Rightarrow> string \<Rightarrow> bool \<Rightarrow> (u8 \<times> bool) run" where
  "lookupClassByDescriptor env meth pDescriptor ok =
     (let clazz = findClassNoInit env pDescriptor (meth_clazz meth);
          (clazz, ok) =
            (if clazz \<noteq> 0 then (clazz, ok)
             else
               let (clazz, ok) =
                 (if char_at pDescriptor 0 = CHR ''['' then
                    (findClassNoInit env ''[Ljava/lang/Object;'' (meth_clazz meth),
                     ok \<and> char_at pDescriptor 1 \<in> {CHR ''L'', CHR ''[''})
                  else if char_at pDescriptor 0 = CHR ''L'' then (classJavaLangObject env, ok)
                  else (0, False))
               in (clazz, ok \<and> clazz \<noteq> 0))
      in deref (classes env) clazz (\<lambda>c. if dvmIsPrimitiveClass c then ret (0, False) else ret (clazz, ok)))"

text \<open>
  The reference type at the start of a signature, without its first character \<open>L\<close>, and the part of the
  signature from its last character on; then the same for an array type without its first bracket.
\<close>

definition lookupSignatureClass :: "verify_env \<Rightarrow> Method \<Rightarrow> string \<Rightarrow> bool \<Rightarrow> (u8 \<times> bool) run" where
  "lookupSignatureClass env meth sig ok =
     (if CHR '';'' \<in> set sig
      then lookupClassByDescriptor env meth (CHR ''L'' # takeWhile (\<lambda>c. c \<noteq> CHR '';'') sig @ '';'') ok
      else ret (0, False))"

definition signature_class_end :: "string \<Rightarrow> string" where
  "signature_class_end sig = dropWhile (\<lambda>c. c \<noteq> CHR '';'') sig"

definition lookupSignatureArrayClass :: "verify_env \<Rightarrow> Method \<Rightarrow> string \<Rightarrow> bool \<Rightarrow> (u8 \<times> bool) run" where
  "lookupSignatureArrayClass env meth sig ok =
     (let brackets = takeWhile (\<lambda>c. c = CHR ''['') sig; elem = dropWhile (\<lambda>c. c = CHR ''['') sig in
      if char_at elem 0 = CHR ''L'' then
        if CHR '';'' \<in> set elem
        then lookupClassByDescriptor env meth (CHR ''['' # brackets @ takeWhile (\<lambda>c. c \<noteq> CHR '';'') elem @ '';'') ok
        else ret (0, False)
      else lookupClassByDescriptor env meth (CHR ''['' # brackets @ take 1 elem) ok)"

definition signature_array_end :: "string \<Rightarrow> string" where
  "signature_array_end sig =
     (let elem = dropWhile (\<lambda>c. c = CHR ''['') sig in
      if char_at elem 0 = CHR ''L'' then dropWhile (\<lambda>c. c \<noteq> CHR '';'') elem else elem)"

definition dexProtoCopyMethodDescriptor :: "Method \<Rightarrow> string" where
  "dexProtoCopyMethodDescriptor meth = ''('' @ concat (parameters meth) @ '')'' @ returnType meth"

text \<open>The types of the arguments from the descriptors; \<open>None\<close> is a bad signature. The line has the two extra registers behind it.\<close>

fun set_arg_types ::
  "verify_env \<Rightarrow> Method \<Rightarrow> nat \<Rightarrow> string list \<Rightarrow> RegType list \<Rightarrow> nat \<Rightarrow> (RegType list \<times> nat) option run" where
  "set_arg_types env meth argStart [] regTypes actualArgs = ret (Some (regTypes, actualArgs))"
| "set_arg_types env meth argStart (desc # ds) regTypes actualArgs =
     (let set1 = (\<lambda>t. bind_run (Some (list_store regTypes (argStart + actualArgs) t)) (\<lambda>r.
            set_arg_types env meth argStart ds r (actualArgs + 1)));
          set2 = (\<lambda>l h. bind_run (Some (list_store regTypes (argStart + actualArgs) l)) (\<lambda>r.
            bind_run (Some (list_store r (argStart + actualArgs + 1) h)) (\<lambda>r.
            set_arg_types env meth argStart ds r (actualArgs + 2))));
          c = char_at desc 0
      in if actualArgs \<ge> unat (insSize meth) then ret None
         else if c \<in> {CHR ''L'', CHR ''[''} then
           bind_run (lookupClassByDescriptor env meth desc True) (\<lambda>(clazz, ok).
             if \<not> ok then ret None else set1 (regTypeFromClass clazz))
         else if c = CHR ''Z'' then set1 kRegTypeBoolean
         else if c = CHR ''C'' then set1 kRegTypeChar
         else if c = CHR ''B'' then set1 kRegTypeByte
         else if c = CHR ''I'' then set1 kRegTypeInteger
         else if c = CHR ''S'' then set1 kRegTypeShort
         else if c = CHR ''F'' then set1 kRegTypeFloat
         else if c = CHR ''D'' then set2 kRegTypeDoubleLo kRegTypeDoubleHi
         else if c = CHR ''J'' then set2 kRegTypeLongLo kRegTypeLongHi
         else ret None)"

text \<open>The format of the return type; behind brackets at the end of the string the byte after its end is read.\<close>

definition return_type_ok :: "string \<Rightarrow> bool outcome" where
  "return_type_ok desc =
     (let c = char_at desc 0 in
      if c \<in> {CHR ''I'', CHR ''C'', CHR ''S'', CHR ''B'', CHR ''Z'', CHR ''V'', CHR ''F'', CHR ''D'', CHR ''J''} then Ret (length desc = 1)
      else if c = CHR ''['' then
        let elem = dropWhile (\<lambda>c. c = CHR ''['') desc in
        if elem = [] then OutOfBounds
        else if char_at elem 0 = CHR ''L'' then Ret (CHR '';'' \<in> set elem) else Ret (length elem = 1)
      else if c = CHR ''L'' then Ret (CHR '';'' \<in> set desc)
      else Ret False)"

definition setTypesFromSignature ::
  "verify_env \<Rightarrow> Method \<Rightarrow> RegType list \<Rightarrow> UninitInstanceMap \<Rightarrow> (bool \<times> RegType list \<times> UninitInstanceMap) run" where
  "setTypesFromSignature env meth regTypes um =
     (let argStart = unat (registersSize meth) - unat (insSize meth) in
      if unat (insSize meth) > unat (registersSize meth) then Some AbortVM
      else
        bind_run
          (if dvmIsStaticMethod meth then ret (regTypes, um, 0)
           else if isInitMethod meth \<and> meth_clazz meth \<noteq> classJavaLangObject env then
             bind_run (Some (dvmSetUninitInstance um kUninitThisArgAddr (meth_clazz meth))) (\<lambda>(uidx, um).
               if uidx \<noteq> 0 then Some AbortVM
               else bind_run (Some (list_store regTypes argStart (regTypeFromUninitIndex uidx))) (\<lambda>r. ret (r, um, 1)))
           else bind_run (Some (list_store regTypes argStart (regTypeFromClass (meth_clazz meth)))) (\<lambda>r. ret (r, um, 1)))
          (\<lambda>(regTypes, um, actualArgs).
             bind_run (set_arg_types env meth argStart (parameters meth) regTypes actualArgs) (\<lambda>res. case res of
                None \<Rightarrow> ret (False, regTypes, um)
              | Some (regTypes, actualArgs) \<Rightarrow>
                  if actualArgs \<noteq> unat (insSize meth) then ret (False, regTypes, um)
                  else bind_run (Some (return_type_ok (returnType meth))) (\<lambda>b. ret (b, regTypes, um)))))"

definition getMethodReturnType :: "verify_env \<Rightarrow> Method \<Rightarrow> RegType run" where
  "getMethodReturnType env meth =
     (let c = char_at (returnType meth) 0 in
      if c = CHR ''I'' then ret kRegTypeInteger
      else if c = CHR ''C'' then ret kRegTypeChar
      else if c = CHR ''S'' then ret kRegTypeShort
      else if c = CHR ''B'' then ret kRegTypeByte
      else if c = CHR ''Z'' then ret kRegTypeBoolean
      else if c = CHR ''V'' then ret kRegTypeUnknown
      else if c = CHR ''F'' then ret kRegTypeFloat
      else if c = CHR ''D'' then ret kRegTypeDoubleLo
      else if c = CHR ''J'' then ret kRegTypeLongLo
      else if c \<in> {CHR ''L'', CHR ''[''} then
        bind_run (lookupClassByDescriptor env meth (returnType meth) True) (\<lambda>(clazz, ok).
          if \<not> ok then Some AbortVM else ret (regTypeFromClass clazz))
      else Some AbortVM)"

definition primSigCharToRegType :: "char \<Rightarrow> RegType outcome" where
  "primSigCharToRegType c =
     (if c = CHR ''I'' then Ret kRegTypeInteger
      else if c = CHR ''C'' then Ret kRegTypeChar
      else if c = CHR ''S'' then Ret kRegTypeShort
      else if c = CHR ''B'' then Ret kRegTypeByte
      else if c = CHR ''Z'' then Ret kRegTypeBoolean
      else if c = CHR ''F'' then Ret kRegTypeFloat
      else if c = CHR ''D'' then Ret kRegTypeDoubleLo
      else if c = CHR ''J'' then Ret kRegTypeLongLo
      else if c \<in> {CHR ''V'', CHR ''L'', CHR ''[''} then Ret kRegTypeUnknown
      else AbortVM)"


section \<open>Invocations\<close>

definition getInvocationThis :: "nat \<Rightarrow> DecodedInstruction \<Rightarrow> RegType vop" where
  "getInvocationThis n d =
     (if vA d < 1 then vthen reject (vret kRegTypeUnknown)
      else vbind (get_reg n (vC d)) (\<lambda>thisType s.
        if okay s \<and> \<not> regTypeIsReference thisType then ret (thisType, s\<lparr>okay := False\<rparr>) else ret (thisType, s)))"

text \<open>The register with argument \<open>k\<close>.\<close>

definition arg_register :: "DecodedInstruction \<Rightarrow> bool \<Rightarrow> nat \<Rightarrow> u4 run" where
  "arg_register d isRange k =
     (if isRange then ret (vC d + word_of_nat k)
      else if k < length (arg d) then ret (arg d ! k) else Some OutOfBounds)"

lemma length_signature_end:
  "length (signature_class_end sig) \<le> length sig" "length (signature_array_end sig) \<le> length sig"
  using length_dropWhile_le order_trans by (auto simp: signature_class_end_def signature_array_end_def Let_def) blast+

lemma length_signature_rest:
  "length (signature_class_end sig) - Suc 0 < Suc (length sig)" "length (signature_array_end sig) - Suc 0 < Suc (length sig)"
  using length_signature_end [of sig] by linarith+

text \<open>
  The loop over the signature of the called method: \<open>sig\<close> is the part not yet seen, \<open>k\<close> the number of registers
  checked. The result is the number of registers, or \<open>None\<close> when the call is rejected.
\<close>

function verify_args ::
  "verify_env \<Rightarrow> Method \<Rightarrow> nat \<Rightarrow> DecodedInstruction \<Rightarrow> bool \<Rightarrow> int \<Rightarrow> string \<Rightarrow> nat \<Rightarrow> nat option vop" where
  "verify_args env meth n d isRange expectedArgs [] k = vret None"
| "verify_args env meth n d isRange expectedArgs (c # sig) k =
     (if c = CHR '')'' then vret (Some k)
      else if int k \<ge> expectedArgs then vret None
      else vbind (lift_run (arg_register d isRange k)) (\<lambda>getReg.
        let prim_arg = (\<lambda>t w. vthen (verify_reg (classes env) n getReg t) (verify_args env meth n d isRange expectedArgs sig (k + w)))
        in if c = CHR ''L'' \<or> c = CHR ''['' then
             let rest = (if c = CHR ''L'' then signature_class_end sig else signature_array_end sig) in
             vbind (with_okay (\<lambda>s. if c = CHR ''L'' then lookupSignatureClass env meth sig (okay s)
                                    else lookupSignatureArrayClass env meth sig (okay s))) (\<lambda>clazz s.
               if \<not> okay s then vret None s
               else vthen (verify_reg (classes env) n getReg (regTypeFromClass clazz)) (\<lambda>s.
                 if \<not> okay s then vret None s
                 else if rest = [] then Some OutOfBounds
                 else verify_args env meth n d isRange expectedArgs (tl rest) (k + 1) s) s)
           else if c = CHR ''Z'' then prim_arg kRegTypeBoolean 1
           else if c = CHR ''C'' then prim_arg kRegTypeChar 1
           else if c = CHR ''B'' then prim_arg kRegTypeByte 1
           else if c = CHR ''I'' then prim_arg kRegTypeInteger 1
           else if c = CHR ''S'' then prim_arg kRegTypeShort 1
           else if c = CHR ''F'' then prim_arg kRegTypeFloat 1
           else if c = CHR ''D'' then prim_arg kRegTypeDoubleLo 2
           else if c = CHR ''J'' then prim_arg kRegTypeLongLo 2
           else vret None))"
  by pat_completeness auto

termination
  by (relation "measure (\<lambda>(_, _, _, _, _, _, sig, _). length sig)") (simp_all add: length_signature_rest)

declare verify_args.simps [simp del]

definition verifyInvocationArgs ::
  "verify_env \<Rightarrow> Method \<Rightarrow> nat \<Rightarrow> DecodedInstruction \<Rightarrow> MethodType \<Rightarrow> bool \<Rightarrow> bool \<Rightarrow> Method option vop" where
  "verifyInvocationArgs env meth n d methodType isRange isSuper =
     (let resMethod = (if methodType = METHOD_INTERFACE then optResolveInterfaceMethod env (meth_clazz meth) (vB d)
                       else optResolveMethod env (meth_clazz meth) (vB d) methodType);
          fail = vthen reject (vret None);
          expectedArgs = sint (vA d)
      in case resMethod of
           None \<Rightarrow> fail
         | Some m \<Rightarrow>
             if char_at (meth_name m) 0 = CHR ''<'' \<and> (methodType \<noteq> METHOD_DIRECT \<or> \<not> isInitMethod m) then fail
             else
               vbind
                 (if \<not> isSuper then vret True
                  else if methodType \<noteq> METHOD_VIRTUAL then (\<lambda>s. Some AbortVM)
                  else with_class (classes env) (meth_clazz meth) (\<lambda>c.
                    if super c = 0 then vret False
                    else with_class (classes env) (super c) (\<lambda>sup. vret (\<not> methodIndex m > vtableCount sup))))
                 (\<lambda>super_ok.
                   if \<not> super_ok then fail
                   else if \<not> isRange \<and> expectedArgs > 5 then fail
                   else if expectedArgs > uint (outsSize meth) then fail
                   else
                     vbind
                       (if dvmIsStaticMethod m then vret (Some 0)
                        else vbind (getInvocationThis n d) (\<lambda>actualArgType s.
                          if \<not> okay s then vret None s
                          else if regTypeIsUninitReference actualArgType \<and> char_at (meth_name m) 0 \<noteq> CHR ''<'' then vret None s
                          else if methodType \<noteq> METHOD_INTERFACE \<and> actualArgType \<noteq> kRegTypeZero then
                            vbind (lift_run (Some (regTypeReferenceToClass actualArgType (uninitMap s)))) (\<lambda>actualThisRef.
                            vbind (lift_run (instance_check (classes env) actualThisRef (meth_clazz m))) (\<lambda>inst.
                              vret (if inst then Some 1 else None))) s
                          else vret (Some 1) s))
                       (\<lambda>this_arg. case this_arg of
                          None \<Rightarrow> fail
                        | Some k \<Rightarrow>
                            vbind (verify_args env meth n d isRange expectedArgs (tl (dexProtoCopyMethodDescriptor m)) k) (\<lambda>args.
                              if args \<noteq> None \<and> int (the args) = expectedArgs then vret (Some m) else fail))))"

section \<open>Fields, arrays and exceptions\<close>

definition getFieldClass :: "verify_env \<Rightarrow> Method \<Rightarrow> Field \<Rightarrow> u8 run" where
  "getFieldClass env meth field =
     (if char_at (signature field) 0 \<notin> {CHR ''L'', CHR ''[''} then ret 0
      else
        let fieldClass = findClassNoInit env (signature field) (meth_clazz meth) in
        if fieldClass = 0 then ret (classJavaLangObject env)
        else deref (classes env) fieldClass (\<lambda>c. if dvmIsPrimitiveClass c then Some AbortVM else ret fieldClass))"

definition getInstField :: "verify_env \<Rightarrow> Method \<Rightarrow> RegType \<Rightarrow> u4 \<Rightarrow> Field option vop" where
  "getInstField env meth objType fieldIdx =
     (if \<not> regTypeIsReference objType then vthen reject (vret None)
      else case optResolveInstField env (meth_clazz meth) fieldIdx of
        None \<Rightarrow> vthen reject (vret None)
      | Some instField \<Rightarrow>
          if objType = kRegTypeZero then vret (Some instField)
          else (\<lambda>s.
            vbind (lift_run (Some (regTypeReferenceToClass objType (uninitMap s)))) (\<lambda>objClass.
            vthen (vassert (objClass \<noteq> 0))
              (if regTypeIsUninitReference objType \<and> (\<not> isInitMethod meth \<or> meth_clazz meth \<noteq> objClass)
               then vthen reject (vret (Some instField))
               else vbind (lift_run (instance_check (classes env) objClass (field_clazz instField))) (\<lambda>inst.
                 if \<not> inst then vthen reject (vret (Some instField))
                 else if regTypeIsUninitReference objType then
                   with_class (classes env) objClass (\<lambda>c.
                     if fieldPtr instField \<in> set (ifields c) then vret (Some instField) else vthen reject (vret (Some instField)))
                 else vret (Some instField)))) s))"

definition getStaticField :: "verify_env \<Rightarrow> Method \<Rightarrow> u4 \<Rightarrow> Field option vop" where
  "getStaticField env meth fieldIdx =
     (case optResolveStaticField env (meth_clazz meth) fieldIdx of
        None \<Rightarrow> vthen reject (vret None)
      | Some staticField \<Rightarrow> vret (Some staticField))"

definition checkFinalFieldAccess :: "Method \<Rightarrow> Field \<Rightarrow> unit vop" where
  "checkFinalFieldAccess meth field =
     (if \<not> dvmIsFinalField field then vret ()
      else if meth_clazz meth \<noteq> field_clazz field then reject
      else vret ())"

definition checkArrayIndexType :: "RegType \<Rightarrow> unit vop" where
  "checkArrayIndexType t = if_okay (check_category t kTypeCategory1nr)"

definition checkConstructorReturn :: "Method \<Rightarrow> nat \<Rightarrow> unit vop" where
  "checkConstructorReturn meth n = with_check (\<lambda>s.
     if \<not> isInitMethod meth then ret True
     else if n > length (workRegs s) then Some OutOfBounds
     else ret (regTypeFromUninitIndex kUninitThisArgSlot \<notin> set (take n (workRegs s))))"

definition checkMoveException :: "Method \<Rightarrow> int \<Rightarrow> bool outcome" where
  "checkMoveException meth insnIdx =
     (if \<not> (insnIdx \<ge> 0 \<and> insnIdx < dvmGetMethodInsnsSize meth) then AbortVM
      else bind_out (unit_at meth insnIdx) (\<lambda>w. Ret (INST_INST w \<noteq> OP_MOVE_EXCEPTION)))"

fun caught_in :: "verify_env \<Rightarrow> Method \<Rightarrow> int \<Rightarrow> DexCatchHandler list \<Rightarrow> u8 \<Rightarrow> u8 run" where
  "caught_in env meth insnIdx [] commonSuper = ret commonSuper"
| "caught_in env meth insnIdx (h # hs) commonSuper =
     (if uint (address h) \<noteq> insnIdx then caught_in env meth insnIdx hs commonSuper
      else
        let clazz = (if typeIdx h = kDexNoIndex then classJavaLangThrowable env else optResolveClass env (meth_clazz meth) (typeIdx h)) in
        if clazz = 0 then caught_in env meth insnIdx hs commonSuper
        else if commonSuper = 0 then caught_in env meth insnIdx hs clazz
        else bind_run (findCommonSuperclass 2 (classes env) (findArrayClassForElement env) clazz commonSuper) (caught_in env meth insnIdx hs))"

fun caught_lists :: "verify_env \<Rightarrow> Method \<Rightarrow> int \<Rightarrow> nat \<Rightarrow> nat \<Rightarrow> u8 \<Rightarrow> u8 run" where
  "caught_lists env meth insnIdx 0 offset commonSuper = ret commonSuper"
| "caught_lists env meth insnIdx (Suc k) offset commonSuper =
     bind_run (Some (dexCatchIteratorInit (pCode meth) offset)) (\<lambda>it.
     bind_run (Some (catch_handlers (pCode meth) it)) (\<lambda>(hs, it).
     bind_run (caught_in env meth insnIdx hs commonSuper) (\<lambda>commonSuper.
     bind_run (Some (dexCatchIteratorGetEndOffset (pCode meth) it)) (\<lambda>offset.
       caught_lists env meth insnIdx k offset commonSuper))))"

definition getCaughtExceptionType :: "verify_env \<Rightarrow> Method \<Rightarrow> int \<Rightarrow> u8 run" where
  "getCaughtExceptionType env meth insnIdx =
     (if tries (pCode meth) = [] then ret 0
      else
        bind_run (Some (dexGetHandlersSize (pCode meth))) (\<lambda>handlersSize.
        bind_run (Some (dexGetFirstHandlerOffset (pCode meth))) (\<lambda>offset.
          caught_lists env meth insnIdx (unat handlersSize) offset 0)))"

fun filled_regs :: "verify_env \<Rightarrow> nat \<Rightarrow> DecodedInstruction \<Rightarrow> bool \<Rightarrow> RegType \<Rightarrow> nat \<Rightarrow> nat \<Rightarrow> unit vop" where
  "filled_regs env n d isRange expectedType ui 0 = vret ()"
| "filled_regs env n d isRange expectedType ui (Suc k) =
     vbind (lift_run (arg_register d isRange ui)) (\<lambda>getReg.
     vthen (verify_reg (classes env) n getReg expectedType) (if_okay (filled_regs env n d isRange expectedType (Suc ui) k)))"

definition verifyFilledNewArrayRegs :: "verify_env \<Rightarrow> nat \<Rightarrow> DecodedInstruction \<Rightarrow> ClassObject \<Rightarrow> bool \<Rightarrow> unit vop" where
  "verifyFilledNewArrayRegs env n d resClass isRange =
     vthen (vassert (dvmIsArrayClass resClass)) (with_class (classes env) (elementClass resClass) (\<lambda>e.
       vbind (if primitiveType e = PRIM_NOT then vret (regTypeFromClass (elementClass resClass))
              else lift_run (Some (primitiveTypeToRegType (primitiveType e)))) (\<lambda>expectedType.
         filled_regs env n d isRange expectedType 0 (unat (vA d)))))"

section \<open>Arithmetic\<close>

definition checkUnop :: "class_table \<Rightarrow> nat \<Rightarrow> DecodedInstruction \<Rightarrow> RegType \<Rightarrow> RegType \<Rightarrow> unit vop" where
  "checkUnop ct n d dstType srcType = vthen (verify_reg ct n (vB d) srcType) (set_reg n (vA d) dstType)"

definition upcastBooleanOp :: "u4 \<Rightarrow> u4 \<Rightarrow> bool vop" where
  "upcastBooleanOp reg1 reg2 s =
     (if unat reg1 < length (workRegs s) \<and> unat reg2 < length (workRegs s)
      then ret (workRegs s ! unat reg1 \<in> {kRegTypeBoolean, kRegTypeZero, kRegTypeOne}
                \<and> workRegs s ! unat reg2 \<in> {kRegTypeBoolean, kRegTypeZero, kRegTypeOne}, s)
      else Some OutOfBounds)"

text \<open>The rest of the three checks: the type of the result, which is boolean if the operands are and \<open>checkBooleanOp\<close> is set.\<close>

definition boolean_result :: "RegType \<Rightarrow> bool \<Rightarrow> bool vop \<Rightarrow> nat \<Rightarrow> u4 \<Rightarrow> unit vop" where
  "boolean_result dstType checkBooleanOp booleans n vdst s =
     (if okay s \<and> checkBooleanOp
      then vthen (vassert (dstType = kRegTypeInteger)) (vbind booleans (\<lambda>b. set_reg n vdst (if b then kRegTypeBoolean else dstType))) s
      else set_reg n vdst dstType s)"

definition checkLitop :: "class_table \<Rightarrow> nat \<Rightarrow> DecodedInstruction \<Rightarrow> RegType \<Rightarrow> RegType \<Rightarrow> bool \<Rightarrow> unit vop" where
  "checkLitop ct n d dstType srcType checkBooleanOp =
     vthen (verify_reg ct n (vB d) srcType)
       (boolean_result dstType checkBooleanOp (vbind (upcastBooleanOp (vB d) (vB d)) (\<lambda>b. vret (b \<and> (vC d = 0 \<or> vC d = 1)))) n (vA d))"

definition checkBinop :: "class_table \<Rightarrow> nat \<Rightarrow> DecodedInstruction \<Rightarrow> RegType \<Rightarrow> RegType \<Rightarrow> RegType \<Rightarrow> bool \<Rightarrow> unit vop" where
  "checkBinop ct n d dstType srcType1 srcType2 checkBooleanOp =
     vthen (verify_reg ct n (vB d) srcType1) (vthen (verify_reg ct n (vC d) srcType2)
       (boolean_result dstType checkBooleanOp (upcastBooleanOp (vB d) (vC d)) n (vA d)))"

definition checkBinop2addr :: "class_table \<Rightarrow> nat \<Rightarrow> DecodedInstruction \<Rightarrow> RegType \<Rightarrow> RegType \<Rightarrow> RegType \<Rightarrow> bool \<Rightarrow> unit vop" where
  "checkBinop2addr ct n d dstType srcType1 srcType2 checkBooleanOp =
     vthen (verify_reg ct n (vA d) srcType1) (vthen (verify_reg ct n (vB d) srcType2)
       (boolean_result dstType checkBooleanOp (upcastBooleanOp (vA d) (vB d)) n (vA d)))"


section \<open>The arms of \<open>verifyInstruction\<close>\<close>

text \<open>\<open>n\<close> is \<open>insnRegCount\<close> and \<open>d\<close> the decoded instruction.\<close>

subsection \<open>Moves, returns and constants\<close>

definition arm_move :: "verify_env \<Rightarrow> Method \<Rightarrow> nat \<Rightarrow> int \<Rightarrow> DecodedInstruction \<Rightarrow> unit vop" where
  "arm_move env meth n insnIdx d =
     (let opc = opCode d in
      if opc = OP_NOP then require (vA d = 0) (vret ())
      else if opc \<in> {OP_MOVE, OP_MOVE_FROM16, OP_MOVE_16} then
        with_regs (\<lambda>s. Some (copyRegister1 (workRegs s) n (vA d) (vB d) kTypeCategory1nr (okay s)))
      else if opc \<in> {OP_MOVE_WIDE, OP_MOVE_WIDE_FROM16, OP_MOVE_WIDE_16} then
        with_regs (\<lambda>s. Some (copyRegister2 (workRegs s) n (vA d) (vB d) (okay s)))
      else if opc \<in> {OP_MOVE_OBJECT, OP_MOVE_OBJECT_FROM16, OP_MOVE_OBJECT_16} then
        with_regs (\<lambda>s. Some (copyRegister1 (workRegs s) n (vA d) (vB d) kTypeCategoryRef (okay s)))
      else if opc = OP_MOVE_RESULT then
        with_regs (\<lambda>s. Some (copyResultRegister1 (workRegs s) n (vA d) kTypeCategory1nr (okay s)))
      else if opc = OP_MOVE_RESULT_WIDE then
        with_regs (\<lambda>s. Some (copyResultRegister2 (workRegs s) n (vA d) (okay s)))
      else if opc = OP_MOVE_RESULT_OBJECT then
        with_regs (\<lambda>s. Some (copyResultRegister1 (workRegs s) n (vA d) kTypeCategoryRef (okay s)))
      else
        vbind (lift_run (getCaughtExceptionType env meth insnIdx)) (\<lambda>resClass.
          require (resClass \<noteq> 0) (set_reg n (vA d) (regTypeFromClass resClass))))"

definition arm_return :: "verify_env \<Rightarrow> Method \<Rightarrow> nat \<Rightarrow> DecodedInstruction \<Rightarrow> unit vop" where
  "arm_return env meth n d =
     (let opc = opCode d in
      vthen (checkConstructorReturn meth n) (if_okay (
        vbind (lift_run (getMethodReturnType env meth)) (\<lambda>returnType.
        if opc = OP_RETURN_VOID then require (returnType = kRegTypeUnknown) (vret ())
        else if opc = OP_RETURN then
          vthen (check_category returnType kTypeCategory1nr) (vbind (get_reg n (vA d)) (\<lambda>t. check_category t kTypeCategory1nr))
        else if opc = OP_RETURN_WIDE then
          vthen (check_category returnType kTypeCategory2)
            (vbind (get_reg n (vA d)) (\<lambda>t. vbind (get_reg n (vA d + 1)) (\<lambda>hi.
               if_okay (vthen (check_category t kTypeCategory2) (check_wide t hi)))))
        else
          vthen (check_category returnType kTypeCategoryRef) (if_okay (
          vthen (vassert (returnType \<noteq> kRegTypeZero \<and> \<not> regTypeIsUninitReference returnType)) (
          vbind (lift_run (Some (regTypeInitializedReferenceToClass returnType))) (\<lambda>declClass.
          vbind (get_class n (vA d)) (\<lambda>resClass. if_okay (
            if resClass = 0 then vret ()
            else with_class (classes env) declClass (\<lambda>c.
              if dvmIsInterfaceClass c then vret ()
              else vbind (lift_run (instance_check (classes env) resClass declClass)) (\<lambda>inst. require inst (vret ())))))))))))))"

definition arm_const :: "verify_env \<Rightarrow> Method \<Rightarrow> nat \<Rightarrow> DecodedInstruction \<Rightarrow> unit vop" where
  "arm_const env meth n d =
     (let opc = opCode d in
      if opc \<in> {OP_CONST_4, OP_CONST_16, OP_CONST} then set_reg n (vA d) (dvmDetermineCat1Const (sint (vB d)))
      else if opc = OP_CONST_HIGH16 then set_reg n (vA d) (dvmDetermineCat1Const (sint (push_bit 16 (vB d))))
      else if opc \<in> {OP_CONST_WIDE_16, OP_CONST_WIDE_32, OP_CONST_WIDE, OP_CONST_WIDE_HIGH16} then set_reg n (vA d) kRegTypeLongLo
      else if opc \<in> {OP_CONST_STRING, OP_CONST_STRING_JUMBO} then
        vthen (vassert (classJavaLangString env \<noteq> 0)) (set_reg n (vA d) (regTypeFromClass (classJavaLangString env)))
      else
        vthen (vassert (classJavaLangClass env \<noteq> 0))
          (require (optResolveClass env (meth_clazz meth) (vB d) \<noteq> 0) (set_reg n (vA d) (regTypeFromClass (classJavaLangClass env)))))"

subsection \<open>Objects and comparisons\<close>

definition arm_object :: "verify_env \<Rightarrow> Method \<Rightarrow> nat \<Rightarrow> int \<Rightarrow> DecodedInstruction \<Rightarrow> unit vop" where
  "arm_object env meth n insnIdx d =
     (let opc = opCode d in
      if opc \<in> {OP_MONITOR_ENTER, OP_MONITOR_EXIT} then
        vbind (get_reg n (vA d)) (\<lambda>tmpType. if_okay (require (regTypeIsReference tmpType) (vret ())))
      else if opc = OP_CHECK_CAST then
        let resClass = optResolveClass env (meth_clazz meth) (vB d) in
        require (resClass \<noteq> 0) (vbind (get_reg n (vA d)) (\<lambda>origType. if_okay (
          require (regTypeIsReference origType) (set_reg n (vA d) (regTypeFromClass resClass)))))
      else if opc = OP_INSTANCE_OF then
        vbind (get_reg n (vB d)) (\<lambda>tmpType. if_okay (require (regTypeIsReference tmpType) (
          require (optResolveClass env (meth_clazz meth) (vC d) \<noteq> 0) (set_reg n (vA d) kRegTypeBoolean))))
      else if opc = OP_ARRAY_LENGTH then
        vbind (get_class n (vB d)) (\<lambda>resClass. if_okay (
          if resClass = 0 then set_reg n (vA d) kRegTypeInteger
          else with_class (classes env) resClass (\<lambda>c. require (dvmIsArrayClass c) (set_reg n (vA d) kRegTypeInteger))))
      else if opc = OP_NEW_INSTANCE then
        let resClass = optResolveClass env (meth_clazz meth) (vB d) in
        require (resClass \<noteq> 0) (\<lambda>s.
          bind_run (Some (dvmSetUninitInstance (uninitMap s) insnIdx resClass)) (\<lambda>(uidx, um).
            if uidx < 0 then Some AbortVM
            else bind_run (Some (markUninitRefsAsInvalid (workRegs s) n (regTypeFromUninitIndex uidx))) (\<lambda>r.
              set_reg n (vA d) (regTypeFromUninitIndex uidx) (s\<lparr>workRegs := r, uninitMap := um\<rparr>))))
      else if opc = OP_NEW_ARRAY then
        let resClass = optResolveClass env (meth_clazz meth) (vC d) in
        require (resClass \<noteq> 0) (with_class (classes env) resClass (\<lambda>c. require (dvmIsArrayClass c) (
          vthen (verify_reg (classes env) n (vB d) kRegTypeInteger) (set_reg n (vA d) (regTypeFromClass resClass)))))
      else
        let resClass = optResolveClass env (meth_clazz meth) (vB d) in
        require (resClass \<noteq> 0) (with_class (classes env) resClass (\<lambda>c. require (dvmIsArrayClass c) (
          vthen (verifyFilledNewArrayRegs env n d c (opc = OP_FILLED_NEW_ARRAY_RANGE))
          (vthen (set_result n (regTypeFromClass resClass)) set_just_result)))))"

definition arm_compare :: "verify_env \<Rightarrow> nat \<Rightarrow> DecodedInstruction \<Rightarrow> unit vop" where
  "arm_compare env n d =
     (let opc = opCode d;
          t = (if opc \<in> {OP_CMPL_FLOAT, OP_CMPG_FLOAT} then kRegTypeFloat
               else if opc \<in> {OP_CMPL_DOUBLE, OP_CMPG_DOUBLE} then kRegTypeDoubleLo else kRegTypeLongLo)
      in vthen (verify_reg (classes env) n (vB d) t) (vthen (verify_reg (classes env) n (vC d) t) (set_reg n (vA d) kRegTypeBoolean)))"

definition arm_throw :: "verify_env \<Rightarrow> nat \<Rightarrow> DecodedInstruction \<Rightarrow> unit vop" where
  "arm_throw env n d =
     vbind (get_class n (vA d)) (\<lambda>resClass. if_okay (
       if resClass = 0 then vret ()
       else vbind (lift_run (instance_check (classes env) resClass (classJavaLangThrowable env))) (\<lambda>inst. require inst (vret ()))))"

fun elem_width :: "PrimitiveType \<Rightarrow> u2" where
  "elem_width PRIM_BOOLEAN = 1"
| "elem_width PRIM_BYTE = 1"
| "elem_width PRIM_CHAR = 2"
| "elem_width PRIM_SHORT = 2"
| "elem_width PRIM_FLOAT = 4"
| "elem_width PRIM_INT = 4"
| "elem_width PRIM_DOUBLE = 8"
| "elem_width PRIM_LONG = 8"
| "elem_width _ = 0"

definition arm_fill_array :: "verify_env \<Rightarrow> Method \<Rightarrow> nat \<Rightarrow> int \<Rightarrow> DecodedInstruction \<Rightarrow> unit vop" where
  "arm_fill_array env meth n insnIdx d =
     vbind (get_class n (vA d)) (\<lambda>resClass. if_okay (
       if resClass = 0 then vret ()
       else with_class (classes env) resClass (\<lambda>c.
         if \<not> dvmIsArrayClass c \<or> arrayDim c \<noteq> 1 then reject
         else with_class (classes env) (elementClass c) (\<lambda>e.
           if primitiveType e = PRIM_NOT \<or> primitiveType e = PRIM_VOID then reject
           else
             vbind (lift_run (Some (primitiveTypeToRegType (primitiveType e)))) (\<lambda>valueType.
             vthen (vassert (valueType \<noteq> kRegTypeUnknown)) (
             vbind (lift_run (Some (s4_at meth (insnIdx + 1)))) (\<lambda>off.
             vbind (lift_run (Some (unit_at meth (insnIdx + off)))) (\<lambda>sig.
               require (sig = kArrayDataSignature) (
                 vbind (lift_run (Some (unit_at meth (insnIdx + off + 1)))) (\<lambda>w.
                   require (w = elem_width (primitiveType e)) (vret ()))))))))))) "

definition arm_if :: "nat \<Rightarrow> DecodedInstruction \<Rightarrow> unit vop" where
  "arm_if n d =
     (let opc = opCode d in
      if opc \<in> {OP_IF_EQ, OP_IF_NE} then
        vbind (get_reg n (vA d)) (\<lambda>type1. vbind (get_reg n (vB d)) (\<lambda>type2. if_okay (
          if regTypeIsReference type1 \<and> regTypeIsReference type2 then vret ()
          else vthen (check_category type1 kTypeCategory1nr) (check_category type2 kTypeCategory1nr))))
      else if opc \<in> {OP_IF_LT, OP_IF_GE, OP_IF_GT, OP_IF_LE} then
        vbind (get_reg n (vA d)) (\<lambda>t. if_okay (vthen (check_category t kTypeCategory1nr) (if_okay (
          vbind (get_reg n (vB d)) (\<lambda>t. if_okay (check_category t kTypeCategory1nr))))))
      else if opc \<in> {OP_IF_EQZ, OP_IF_NEZ} then
        vbind (get_reg n (vA d)) (\<lambda>t. if_okay (if regTypeIsReference t then vret () else check_category t kTypeCategory1nr))
      else
        vbind (get_reg n (vA d)) (\<lambda>t. if_okay (check_category t kTypeCategory1nr)))"


subsection \<open>Array elements\<close>

text \<open>The type \<open>tmpType\<close> of a narrow access: the arms \<open>goto\<close> a common tail with it.\<close>

definition narrow_type :: "OpCode \<Rightarrow> RegType" where
  "narrow_type opc =
     (if opc \<in> {OP_AGET, OP_APUT, OP_IGET, OP_IPUT, OP_SGET, OP_SPUT} then kRegTypeInteger
      else if opc \<in> {OP_AGET_BOOLEAN, OP_APUT_BOOLEAN, OP_IGET_BOOLEAN, OP_IPUT_BOOLEAN, OP_SGET_BOOLEAN, OP_SPUT_BOOLEAN} then kRegTypeBoolean
      else if opc \<in> {OP_AGET_BYTE, OP_APUT_BYTE, OP_IGET_BYTE, OP_IPUT_BYTE, OP_SGET_BYTE, OP_SPUT_BYTE} then kRegTypeByte
      else if opc \<in> {OP_AGET_CHAR, OP_APUT_CHAR, OP_IGET_CHAR, OP_IPUT_CHAR, OP_SGET_CHAR, OP_SPUT_CHAR} then kRegTypeChar
      else kRegTypeShort)"

text \<open>The start of all array arms: the index, then the class of the array, \<open>0\<close> for a null reference.\<close>

definition array_index :: "nat \<Rightarrow> DecodedInstruction \<Rightarrow> unit vop \<Rightarrow> unit vop" where
  "array_index n d k = vbind (get_reg n (vC d)) (\<lambda>indexType. vthen (checkArrayIndexType indexType) (if_okay k))"

definition prim_array :: "verify_env \<Rightarrow> u8 \<Rightarrow> (PrimitiveType \<Rightarrow> unit vop) \<Rightarrow> unit vop" where
  "prim_array env resClass k =
     with_class (classes env) resClass (\<lambda>c.
       if \<not> dvmIsArrayClass c \<or> arrayDim c \<noteq> 1 then reject
       else with_class (classes env) (elementClass c) (\<lambda>e. if primitiveType e = PRIM_NOT then reject else k (primitiveType e)))"

definition arm_aget :: "verify_env \<Rightarrow> nat \<Rightarrow> DecodedInstruction \<Rightarrow> unit vop" where
  "arm_aget env n d =
     (let opc = opCode d; tmpType = narrow_type opc in
      if opc = OP_AGET_WIDE then
        array_index n d (vbind (get_class n (vB d)) (\<lambda>resClass. if_okay (
          if resClass = 0 then set_reg n (vA d) kRegTypeLongLo
          else prim_array env resClass (\<lambda>p.
            if p = PRIM_LONG then set_reg n (vA d) kRegTypeLongLo
            else if p = PRIM_DOUBLE then set_reg n (vA d) kRegTypeDoubleLo
            else vthen reject (set_reg n (vA d) kRegTypeUnknown)))))
      else if opc = OP_AGET_OBJECT then
        array_index n d (vbind (get_class n (vB d)) (\<lambda>resClass. if_okay (
          if resClass = 0 then set_reg n (vA d) kRegTypeZero
          else with_class (classes env) resClass (\<lambda>c.
            if \<not> dvmIsArrayClass c then reject
            else vthen (vassert (elementClass c \<noteq> 0)) (
              if char_at (descriptor c) 1 = CHR ''['' then
                vthen (vassert (arrayDim c > 1)) (set_reg n (vA d) (regTypeFromClass (findArrayClass env (tl (descriptor c)) resClass)))
              else if char_at (descriptor c) 1 = CHR ''L'' then
                vthen (vassert (arrayDim c = 1)) (set_reg n (vA d) (regTypeFromClass (elementClass c)))
              else reject)))))
      else
        array_index n d (vbind (get_class n (vB d)) (\<lambda>resClass. if_okay (
          if resClass = 0 then set_reg n (vA d) tmpType
          else prim_array env resClass (\<lambda>p.
            vbind (lift_run (Some (primitiveTypeToRegType p))) (\<lambda>srcType.
              require (checkFieldArrayStore1nr tmpType srcType) (set_reg n (vA d) tmpType)))))))"

text \<open>The register \<open>vA\<close> and the one after it hold a wide value.\<close>

definition wide_source :: "nat \<Rightarrow> DecodedInstruction \<Rightarrow> unit vop" where
  "wide_source n d =
     vbind (get_reg n (vA d)) (\<lambda>tmpType. if_okay (vbind (get_reg n (vA d + 1)) (\<lambda>typeHi.
       vthen (check_category tmpType kTypeCategory2) (check_wide tmpType typeHi))))"

text \<open>The register \<open>vA\<close> holds a value that can be stored as \<open>tmpType\<close>.\<close>

definition narrow_source :: "nat \<Rightarrow> DecodedInstruction \<Rightarrow> RegType \<Rightarrow> unit vop \<Rightarrow> unit vop" where
  "narrow_source n d tmpType k =
     vbind (get_reg n (vA d)) (\<lambda>srcType. vbind (lift_run (Some (canConvertTo1nr srcType tmpType))) (\<lambda>c. require c k))"

definition arm_aput :: "verify_env \<Rightarrow> nat \<Rightarrow> DecodedInstruction \<Rightarrow> unit vop" where
  "arm_aput env n d =
     (let opc = opCode d; tmpType = narrow_type opc in
      if opc = OP_APUT_WIDE then
        array_index n d (vthen (wide_source n d) (if_okay (vbind (get_class n (vB d)) (\<lambda>resClass. if_okay (
          if resClass = 0 then vret ()
          else prim_array env resClass (\<lambda>p. require (p = PRIM_LONG \<or> p = PRIM_DOUBLE) (vret ())))))))
      else if opc = OP_APUT_OBJECT then
        array_index n d (vbind (get_class n (vA d)) (\<lambda>resClass. if_okay (
          if resClass = 0 then vret ()
          else vbind (get_class n (vB d)) (\<lambda>arrayClass.
            if arrayClass = 0 then vret ()
            else with_class (classes env) arrayClass (\<lambda>c.
              if \<not> dvmIsArrayClass c then reject
              else
                vbind
                  (if char_at (descriptor c) 1 = CHR ''[''
                   then vthen (vassert (arrayDim c > 1)) (vret (findArrayClass env (tl (descriptor c)) arrayClass))
                   else vthen (vassert (arrayDim c = 1)) (vret (elementClass c)))
                  (\<lambda>elem. with_class (classes env) elem (\<lambda>e. require (primitiveType e = PRIM_NOT) (vret ()))))))))
      else
        array_index n d (narrow_source n d tmpType (vbind (get_class n (vB d)) (\<lambda>resClass. if_okay (
          if resClass = 0 then vret ()
          else prim_array env resClass (\<lambda>p.
            vbind (lift_run (Some (primitiveTypeToRegType p))) (\<lambda>dstType.
            vthen (vassert (dstType \<noteq> kRegTypeUnknown)) (require (checkFieldArrayStore1nr tmpType dstType) (vret ())))))))))"

subsection \<open>Fields\<close>

text \<open>The start of the arms of instance fields: the object in \<open>vB\<close> and the field \<open>vC\<close>.\<close>

definition inst_field :: "verify_env \<Rightarrow> Method \<Rightarrow> nat \<Rightarrow> DecodedInstruction \<Rightarrow> (Field \<Rightarrow> unit vop) \<Rightarrow> unit vop" where
  "inst_field env meth n d k =
     vbind (get_reg n (vB d)) (\<lambda>objType. if_okay (vbind (getInstField env meth objType (vC d)) (\<lambda>f.
       if_okay (case f of None \<Rightarrow> (\<lambda>s. Some OutOfBounds) | Some f \<Rightarrow> k f))))"

definition static_field :: "verify_env \<Rightarrow> Method \<Rightarrow> DecodedInstruction \<Rightarrow> (Field \<Rightarrow> unit vop) \<Rightarrow> unit vop" where
  "static_field env meth d k =
     vbind (getStaticField env meth (vB d)) (\<lambda>f. if_okay (case f of None \<Rightarrow> (\<lambda>s. Some OutOfBounds) | Some f \<Rightarrow> k f))"

definition field_type :: "Field \<Rightarrow> (RegType \<Rightarrow> unit vop) \<Rightarrow> unit vop" where
  "field_type f k = vbind (lift_run (Some (primSigCharToRegType (char_at (signature f) 0)))) k"

definition arm_iget :: "verify_env \<Rightarrow> Method \<Rightarrow> nat \<Rightarrow> DecodedInstruction \<Rightarrow> unit vop" where
  "arm_iget env meth n d =
     (let opc = opCode d; tmpType = narrow_type opc in
      if opc = OP_IGET_WIDE then
        inst_field env meth n d (\<lambda>f.
          let c = char_at (signature f) 0 in
          if c = CHR ''D'' then set_reg n (vA d) kRegTypeDoubleLo
          else if c = CHR ''J'' then set_reg n (vA d) kRegTypeLongLo
          else reject)
      else if opc = OP_IGET_OBJECT then
        inst_field env meth n d (\<lambda>f. vbind (lift_run (getFieldClass env meth f)) (\<lambda>fieldClass.
          require (fieldClass \<noteq> 0) (with_class (classes env) fieldClass (\<lambda>c.
            vthen (vassert (\<not> dvmIsPrimitiveClass c)) (set_reg n (vA d) (regTypeFromClass fieldClass))))))
      else
        inst_field env meth n d (\<lambda>f. field_type f (\<lambda>fieldType.
          require (fieldType \<noteq> kRegTypeUnknown \<and> checkFieldArrayStore1nr tmpType fieldType) (set_reg n (vA d) tmpType))))"

text \<open>A reference in \<open>vA\<close> that is stored into a field of type \<open>fieldClass\<close>.\<close>

definition object_store :: "verify_env \<Rightarrow> nat \<Rightarrow> DecodedInstruction \<Rightarrow> u8 \<Rightarrow> unit vop" where
  "object_store env n d fieldClass =
     vbind (get_reg n (vA d)) (\<lambda>valueType. if_okay (require (regTypeIsReference valueType) (
       if valueType = kRegTypeZero then vret ()
       else vbind (lift_run (Some (regTypeInitializedReferenceToClass valueType))) (\<lambda>valueClass.
         require (valueClass \<noteq> 0) (with_class (classes env) fieldClass (\<lambda>c.
           if dvmIsInterfaceClass c then vret ()
           else vbind (lift_run (instance_check (classes env) valueClass fieldClass)) (\<lambda>inst. require inst (vret ()))))))))"

definition arm_iput :: "verify_env \<Rightarrow> Method \<Rightarrow> nat \<Rightarrow> DecodedInstruction \<Rightarrow> unit vop" where
  "arm_iput env meth n d =
     (let opc = opCode d; tmpType = narrow_type opc in
      if opc = OP_IPUT_WIDE then
        vthen (wide_source n d) (if_okay (inst_field env meth n d (\<lambda>f. vthen (checkFinalFieldAccess meth f) (if_okay (
          require (char_at (signature f) 0 \<in> {CHR ''D'', CHR ''J''}) (vret ()))))))
      else if opc = OP_IPUT_OBJECT then
        inst_field env meth n d (\<lambda>f. vthen (checkFinalFieldAccess meth f) (if_okay (
          vbind (lift_run (getFieldClass env meth f)) (\<lambda>fieldClass. require (fieldClass \<noteq> 0) (object_store env n d fieldClass)))))
      else
        narrow_source n d tmpType (inst_field env meth n d (\<lambda>f. vthen (checkFinalFieldAccess meth f) (if_okay (
          field_type f (\<lambda>fieldType. require (fieldType \<noteq> kRegTypeUnknown \<and> checkFieldArrayStore1nr tmpType fieldType) (vret ())))))))"

definition arm_sget :: "verify_env \<Rightarrow> Method \<Rightarrow> nat \<Rightarrow> DecodedInstruction \<Rightarrow> unit vop" where
  "arm_sget env meth n d =
     (let opc = opCode d; tmpType = narrow_type opc in
      if opc = OP_SGET_WIDE then
        static_field env meth d (\<lambda>f.
          let c = char_at (signature f) 0 in
          if c = CHR ''D'' then set_reg n (vA d) kRegTypeDoubleLo
          else if c = CHR ''J'' then set_reg n (vA d) kRegTypeLongLo
          else reject)
      else if opc = OP_SGET_OBJECT then
        static_field env meth d (\<lambda>f. vbind (lift_run (getFieldClass env meth f)) (\<lambda>fieldClass.
          require (fieldClass \<noteq> 0) (with_class (classes env) fieldClass (\<lambda>c.
            require (\<not> dvmIsPrimitiveClass c) (set_reg n (vA d) (regTypeFromClass fieldClass))))))
      else
        static_field env meth d (\<lambda>f. field_type f (\<lambda>fieldType.
          require (checkFieldArrayStore1nr tmpType fieldType) (set_reg n (vA d) tmpType))))"

definition arm_sput :: "verify_env \<Rightarrow> Method \<Rightarrow> nat \<Rightarrow> DecodedInstruction \<Rightarrow> unit vop" where
  "arm_sput env meth n d =
     (let opc = opCode d; tmpType = narrow_type opc in
      if opc = OP_SPUT_WIDE then
        vthen (wide_source n d) (if_okay (static_field env meth d (\<lambda>f. vthen (checkFinalFieldAccess meth f) (if_okay (
          require (char_at (signature f) 0 \<in> {CHR ''D'', CHR ''J''}) (vret ()))))))
      else if opc = OP_SPUT_OBJECT then
        static_field env meth d (\<lambda>f. vthen (checkFinalFieldAccess meth f) (if_okay (
          vbind (lift_run (getFieldClass env meth f)) (\<lambda>fieldClass. require (fieldClass \<noteq> 0) (object_store env n d fieldClass)))))
      else
        narrow_source n d tmpType (static_field env meth d (\<lambda>f. vthen (checkFinalFieldAccess meth f) (if_okay (
          field_type f (\<lambda>fieldType. require (checkFieldArrayStore1nr tmpType fieldType) (vret ())))))))"


subsection \<open>Invocations\<close>

text \<open>The end of the arms: the type of the result of the called method.\<close>

definition invoke_result :: "verify_env \<Rightarrow> nat \<Rightarrow> Method \<Rightarrow> unit vop" where
  "invoke_result env n calledMethod =
     vbind (lift_run (getMethodReturnType env calledMethod)) (\<lambda>returnType. vthen (set_result n returnType) set_just_result)"

text \<open>The checks of a call to a constructor; the reference becomes initialized in all registers that hold it.\<close>

definition invoke_init :: "verify_env \<Rightarrow> Method \<Rightarrow> nat \<Rightarrow> DecodedInstruction \<Rightarrow> Method \<Rightarrow> unit vop" where
  "invoke_init env meth n d calledMethod =
     vbind (getInvocationThis n d) (\<lambda>thisType. if_okay (require (thisType \<noteq> kRegTypeZero) (\<lambda>s.
       vbind (lift_run (Some (regTypeReferenceToClass thisType (uninitMap s)))) (\<lambda>thisClass.
       vthen (vassert (thisClass \<noteq> 0)) (with_class (classes env) thisClass (\<lambda>c.
         if (if meth_clazz calledMethod = super c then thisClass = meth_clazz meth else meth_clazz calledMethod = thisClass)
         then require (regTypeIsUninitReference thisType)
                (with_regs (\<lambda>s. Some (markRefsAsInitialized (workRegs s) n (uninitMap s) thisType (okay s))))
         else reject))) s)))"

definition arm_invoke :: "verify_env \<Rightarrow> Method \<Rightarrow> nat \<Rightarrow> DecodedInstruction \<Rightarrow> unit vop" where
  "arm_invoke env meth n d =
     (let opc = opCode d;
          isRange = (opc \<in> {OP_INVOKE_VIRTUAL_RANGE, OP_INVOKE_SUPER_RANGE, OP_INVOKE_DIRECT_RANGE, OP_INVOKE_STATIC_RANGE,
            OP_INVOKE_INTERFACE_RANGE});
          methodType = (if opc \<in> {OP_INVOKE_VIRTUAL, OP_INVOKE_VIRTUAL_RANGE, OP_INVOKE_SUPER, OP_INVOKE_SUPER_RANGE} then METHOD_VIRTUAL
            else if opc \<in> {OP_INVOKE_DIRECT, OP_INVOKE_DIRECT_RANGE} then METHOD_DIRECT
            else if opc \<in> {OP_INVOKE_STATIC, OP_INVOKE_STATIC_RANGE} then METHOD_STATIC else METHOD_INTERFACE)
      in vbind (verifyInvocationArgs env meth n d methodType isRange (opc \<in> {OP_INVOKE_SUPER, OP_INVOKE_SUPER_RANGE})) (\<lambda>called.
        if_okay (case called of
           None \<Rightarrow> (\<lambda>s. Some OutOfBounds)
         | Some calledMethod \<Rightarrow>
             if methodType = METHOD_DIRECT \<and> isInitMethod calledMethod
             then vthen (invoke_init env meth n d calledMethod) (if_okay (invoke_result env n calledMethod))
             else invoke_result env n calledMethod)))"

subsection \<open>Arithmetic\<close>

definition arm_unop :: "class_table \<Rightarrow> nat \<Rightarrow> DecodedInstruction \<Rightarrow> unit vop" where
  "arm_unop ct n d =
     (let opc = opCode d in
      if opc \<in> {OP_NEG_INT, OP_NOT_INT} then checkUnop ct n d kRegTypeInteger kRegTypeInteger
      else if opc \<in> {OP_NEG_LONG, OP_NOT_LONG} then checkUnop ct n d kRegTypeLongLo kRegTypeLongLo
      else if opc = OP_NEG_FLOAT then checkUnop ct n d kRegTypeFloat kRegTypeFloat
      else if opc = OP_NEG_DOUBLE then checkUnop ct n d kRegTypeDoubleLo kRegTypeDoubleLo
      else if opc = OP_INT_TO_LONG then checkUnop ct n d kRegTypeLongLo kRegTypeInteger
      else if opc = OP_INT_TO_FLOAT then checkUnop ct n d kRegTypeFloat kRegTypeInteger
      else if opc = OP_INT_TO_DOUBLE then checkUnop ct n d kRegTypeDoubleLo kRegTypeInteger
      else if opc = OP_LONG_TO_INT then checkUnop ct n d kRegTypeInteger kRegTypeLongLo
      else if opc = OP_LONG_TO_FLOAT then checkUnop ct n d kRegTypeFloat kRegTypeLongLo
      else if opc = OP_LONG_TO_DOUBLE then checkUnop ct n d kRegTypeDoubleLo kRegTypeLongLo
      else if opc = OP_FLOAT_TO_INT then checkUnop ct n d kRegTypeInteger kRegTypeFloat
      else if opc = OP_FLOAT_TO_LONG then checkUnop ct n d kRegTypeLongLo kRegTypeFloat
      else if opc = OP_FLOAT_TO_DOUBLE then checkUnop ct n d kRegTypeDoubleLo kRegTypeFloat
      else if opc = OP_DOUBLE_TO_INT then checkUnop ct n d kRegTypeInteger kRegTypeDoubleLo
      else if opc = OP_DOUBLE_TO_LONG then checkUnop ct n d kRegTypeLongLo kRegTypeDoubleLo
      else if opc = OP_DOUBLE_TO_FLOAT then checkUnop ct n d kRegTypeFloat kRegTypeDoubleLo
      else if opc = OP_INT_TO_BYTE then checkUnop ct n d kRegTypeByte kRegTypeInteger
      else if opc = OP_INT_TO_CHAR then checkUnop ct n d kRegTypeChar kRegTypeInteger
      else checkUnop ct n d kRegTypeShort kRegTypeInteger)"

definition arm_binop :: "class_table \<Rightarrow> nat \<Rightarrow> DecodedInstruction \<Rightarrow> unit vop" where
  "arm_binop ct n d =
     (let opc = opCode d in
      if opc \<in> {OP_ADD_INT, OP_SUB_INT, OP_MUL_INT, OP_REM_INT, OP_DIV_INT, OP_SHL_INT, OP_SHR_INT, OP_USHR_INT}
      then checkBinop ct n d kRegTypeInteger kRegTypeInteger kRegTypeInteger False
      else if opc \<in> {OP_AND_INT, OP_OR_INT, OP_XOR_INT} then checkBinop ct n d kRegTypeInteger kRegTypeInteger kRegTypeInteger True
      else if opc \<in> {OP_ADD_LONG, OP_SUB_LONG, OP_MUL_LONG, OP_DIV_LONG, OP_REM_LONG, OP_AND_LONG, OP_OR_LONG, OP_XOR_LONG}
      then checkBinop ct n d kRegTypeLongLo kRegTypeLongLo kRegTypeLongLo False
      else if opc \<in> {OP_SHL_LONG, OP_SHR_LONG, OP_USHR_LONG} then checkBinop ct n d kRegTypeLongLo kRegTypeLongLo kRegTypeInteger False
      else if opc \<in> {OP_ADD_FLOAT, OP_SUB_FLOAT, OP_MUL_FLOAT, OP_DIV_FLOAT, OP_REM_FLOAT}
      then checkBinop ct n d kRegTypeFloat kRegTypeFloat kRegTypeFloat False
      else checkBinop ct n d kRegTypeDoubleLo kRegTypeDoubleLo kRegTypeDoubleLo False)"

definition arm_binop_2addr :: "class_table \<Rightarrow> nat \<Rightarrow> DecodedInstruction \<Rightarrow> unit vop" where
  "arm_binop_2addr ct n d =
     (let opc = opCode d in
      if opc \<in> {OP_ADD_INT_2ADDR, OP_SUB_INT_2ADDR, OP_MUL_INT_2ADDR, OP_REM_INT_2ADDR, OP_SHL_INT_2ADDR, OP_SHR_INT_2ADDR,
          OP_USHR_INT_2ADDR, OP_DIV_INT_2ADDR}
      then checkBinop2addr ct n d kRegTypeInteger kRegTypeInteger kRegTypeInteger False
      else if opc \<in> {OP_AND_INT_2ADDR, OP_OR_INT_2ADDR, OP_XOR_INT_2ADDR}
      then checkBinop2addr ct n d kRegTypeInteger kRegTypeInteger kRegTypeInteger True
      else if opc \<in> {OP_ADD_LONG_2ADDR, OP_SUB_LONG_2ADDR, OP_MUL_LONG_2ADDR, OP_DIV_LONG_2ADDR, OP_REM_LONG_2ADDR, OP_AND_LONG_2ADDR,
          OP_OR_LONG_2ADDR, OP_XOR_LONG_2ADDR}
      then checkBinop2addr ct n d kRegTypeLongLo kRegTypeLongLo kRegTypeLongLo False
      else if opc \<in> {OP_SHL_LONG_2ADDR, OP_SHR_LONG_2ADDR, OP_USHR_LONG_2ADDR}
      then checkBinop2addr ct n d kRegTypeLongLo kRegTypeLongLo kRegTypeInteger False
      else if opc \<in> {OP_ADD_FLOAT_2ADDR, OP_SUB_FLOAT_2ADDR, OP_MUL_FLOAT_2ADDR, OP_DIV_FLOAT_2ADDR, OP_REM_FLOAT_2ADDR}
      then checkBinop2addr ct n d kRegTypeFloat kRegTypeFloat kRegTypeFloat False
      else checkBinop2addr ct n d kRegTypeDoubleLo kRegTypeDoubleLo kRegTypeDoubleLo False)"

definition arm_litop :: "class_table \<Rightarrow> nat \<Rightarrow> DecodedInstruction \<Rightarrow> unit vop" where
  "arm_litop ct n d =
     checkLitop ct n d kRegTypeInteger kRegTypeInteger
       (opCode d \<in> {OP_AND_INT_LIT16, OP_OR_INT_LIT16, OP_XOR_INT_LIT16, OP_AND_INT_LIT8, OP_OR_INT_LIT8, OP_XOR_INT_LIT8})"

subsection \<open>The switch\<close>

text \<open>
  All opcodes from \<open>OP_NEG_INT\<close> to \<open>OP_INT_TO_SHORT\<close>, \<open>OP_ADD_INT\<close> to \<open>OP_REM_DOUBLE\<close>, \<open>OP_ADD_INT_2ADDR\<close> to \<open>OP_REM_DOUBLE_2ADDR\<close> and
  \<open>OP_ADD_INT_LIT16\<close> to \<open>OP_USHR_INT_LIT8\<close> are in one of the four arithmetic arms; the last arm rejects the quickened and the unused opcodes.
\<close>

definition verify_arm :: "verify_env \<Rightarrow> Method \<Rightarrow> nat \<Rightarrow> int \<Rightarrow> DecodedInstruction \<Rightarrow> unit vop" where
  "verify_arm env meth n insnIdx d =
     (let opc = opCode d in
      if opc \<in> {OP_NOP, OP_MOVE, OP_MOVE_FROM16, OP_MOVE_16, OP_MOVE_WIDE, OP_MOVE_WIDE_FROM16, OP_MOVE_WIDE_16, OP_MOVE_OBJECT,
          OP_MOVE_OBJECT_FROM16, OP_MOVE_OBJECT_16, OP_MOVE_RESULT, OP_MOVE_RESULT_WIDE, OP_MOVE_RESULT_OBJECT, OP_MOVE_EXCEPTION}
      then arm_move env meth n insnIdx d
      else if opc \<in> {OP_RETURN_VOID, OP_RETURN, OP_RETURN_WIDE, OP_RETURN_OBJECT} then arm_return env meth n d
      else if opc \<in> {OP_CONST_4, OP_CONST_16, OP_CONST, OP_CONST_HIGH16, OP_CONST_WIDE_16, OP_CONST_WIDE_32, OP_CONST_WIDE,
          OP_CONST_WIDE_HIGH16, OP_CONST_STRING, OP_CONST_STRING_JUMBO, OP_CONST_CLASS}
      then arm_const env meth n d
      else if opc \<in> {OP_MONITOR_ENTER, OP_MONITOR_EXIT, OP_CHECK_CAST, OP_INSTANCE_OF, OP_ARRAY_LENGTH, OP_NEW_INSTANCE, OP_NEW_ARRAY,
          OP_FILLED_NEW_ARRAY, OP_FILLED_NEW_ARRAY_RANGE}
      then arm_object env meth n insnIdx d
      else if opc \<in> {OP_CMPL_FLOAT, OP_CMPG_FLOAT, OP_CMPL_DOUBLE, OP_CMPG_DOUBLE, OP_CMP_LONG} then arm_compare env n d
      else if opc = OP_THROW then arm_throw env n d
      else if opc \<in> {OP_GOTO, OP_GOTO_16, OP_GOTO_32} then vret ()
      else if opc \<in> {OP_PACKED_SWITCH, OP_SPARSE_SWITCH} then verify_reg (classes env) n (vA d) kRegTypeInteger
      else if opc = OP_FILL_ARRAY_DATA then arm_fill_array env meth n insnIdx d
      else if opc \<in> {OP_IF_EQ, OP_IF_NE, OP_IF_LT, OP_IF_GE, OP_IF_GT, OP_IF_LE, OP_IF_EQZ, OP_IF_NEZ, OP_IF_LTZ, OP_IF_GEZ, OP_IF_GTZ,
          OP_IF_LEZ}
      then arm_if n d
      else if OP_AGET \<le> opc \<and> opc \<le> OP_AGET_SHORT then arm_aget env n d
      else if OP_APUT \<le> opc \<and> opc \<le> OP_APUT_SHORT then arm_aput env n d
      else if OP_IGET \<le> opc \<and> opc \<le> OP_IGET_SHORT then arm_iget env meth n d
      else if OP_IPUT \<le> opc \<and> opc \<le> OP_IPUT_SHORT then arm_iput env meth n d
      else if OP_SGET \<le> opc \<and> opc \<le> OP_SGET_SHORT then arm_sget env meth n d
      else if OP_SPUT \<le> opc \<and> opc \<le> OP_SPUT_SHORT then arm_sput env meth n d
      else if opc \<in> {OP_INVOKE_VIRTUAL, OP_INVOKE_VIRTUAL_RANGE, OP_INVOKE_SUPER, OP_INVOKE_SUPER_RANGE, OP_INVOKE_DIRECT,
          OP_INVOKE_DIRECT_RANGE, OP_INVOKE_STATIC, OP_INVOKE_STATIC_RANGE, OP_INVOKE_INTERFACE, OP_INVOKE_INTERFACE_RANGE}
      then arm_invoke env meth n d
      else if OP_NEG_INT \<le> opc \<and> opc \<le> OP_INT_TO_SHORT then arm_unop (classes env) n d
      else if OP_ADD_INT \<le> opc \<and> opc \<le> OP_REM_DOUBLE then arm_binop (classes env) n d
      else if OP_ADD_INT_2ADDR \<le> opc \<and> opc \<le> OP_REM_DOUBLE_2ADDR then arm_binop_2addr (classes env) n d
      else if OP_ADD_INT_LIT16 \<le> opc \<and> opc \<le> OP_USHR_INT_LIT8 then arm_litop (classes env) n d
      else reject)"

text \<open>
  The first half of \<open>verifyInstruction\<close>: the registers after the instruction, \<open>None\<close> when it is rejected. The result register is cleared
  unless the instruction set it.
\<close>

definition clear_result :: "nat \<Rightarrow> vstate \<Rightarrow> RegType list run" where
  "clear_result n s =
     (if justSetResult s then ret (workRegs s)
      else bind_run (Some (list_store (workRegs s) (n + 1) kRegTypeUnknown)) (\<lambda>r. Some (list_store r n kRegTypeUnknown)))"

definition insn_effect ::
  "verify_env \<Rightarrow> Method \<Rightarrow> int \<Rightarrow> DecodedInstruction \<Rightarrow> RegType list \<Rightarrow> UninitInstanceMap \<Rightarrow> (RegType list option \<times> UninitInstanceMap) run" where
  "insn_effect env meth insnIdx d regs um =
     (let n = unat (registersSize meth) in
      bind_run (verify_arm env meth n insnIdx d \<lparr>workRegs = regs, uninitMap = um, okay = True, justSetResult = False\<rparr>) (\<lambda>(_, s).
        if \<not> okay s then ret (None, uninitMap s)
        else bind_run (clear_result n s) (\<lambda>r. ret (Some r, uninitMap s))))"

end
