(* ===== verification/VerifyMerge.thy ===== *)
theory VerifyMerge
  imports VerifyRegs
begin

text \<open>
  Correctness of the register merge of \<^verbatim>\<open>src/vm/analysis/CodeVerify.c\<close>: the common superclass the walks find, the order
  on register types, and the merge as a least upper bound in it.
\<close>

section \<open>Superclass walks\<close>

text \<open>The number of superclasses above a class.\<close>

inductive super_depth :: "class_table \<Rightarrow> u8 \<Rightarrow> nat \<Rightarrow> bool" for ct where
  depth_root: "ct p = Some c \<Longrightarrow> super c = 0 \<Longrightarrow> super_depth ct p 0"
| depth_super: "ct p = Some c \<Longrightarrow> super c \<noteq> 0 \<Longrightarrow> super_depth ct (super c) n \<Longrightarrow> super_depth ct p (Suc n)"

inductive_simps super_depth_0 [simp]: "super_depth ct p 0"
inductive_simps super_depth_Suc [simp]: "super_depth ct p (Suc n)"

lemma getClassDepth_eq: "super_depth ct p n \<Longrightarrow> getClassDepth ct p d = ret (d + int n)"
  by (induction arbitrary: d rule: super_depth.induct) (subst getClassDepth.simps, simp)+

lemma supers_step: "ct p = Some c \<Longrightarrow> super c \<noteq> 0 \<Longrightarrow> (p, q) \<in> supers ct \<longleftrightarrow> q = super c"
  by (auto simp: supers_def)

lemma supers_split:
  assumes "ct p = Some c" and "super c \<noteq> 0"
  shows "(p, q) \<in> (supers ct)\<^sup>* \<longleftrightarrow> p = q \<or> (super c, q) \<in> (supers ct)\<^sup>*"
  using supers_step [of ct p c] assms
  by (auto elim: converse_rtranclE intro: converse_rtrancl_into_rtrancl)

lemma supers_root: "ct p = Some c \<Longrightarrow> super c = 0 \<Longrightarrow> (p, q) \<in> (supers ct)\<^sup>* \<longleftrightarrow> p = q"
  by (auto simp: supers_def elim: converse_rtranclE)

lemma super_depth_unique: "super_depth ct p n \<Longrightarrow> super_depth ct p m \<Longrightarrow> m = n"
proof (induction n arbitrary: m p)
  case 0
  then show ?case by (cases m) auto
next
  case (Suc n)
  from Suc.prems show ?case by (cases m) (auto dest: Suc.IH)
qed

lemma super_depth_le:
  "super_depth ct p n \<Longrightarrow> (p, q) \<in> (supers ct)\<^sup>* \<Longrightarrow> super_depth ct q m \<Longrightarrow> m \<le> n \<and> (m = n \<longrightarrow> q = p)"
proof (induction arbitrary: m rule: super_depth.induct)
  case (depth_root p c)
  then show ?case using super_depth_unique [of ct p 0 m] by (auto simp: supers_root)
next
  case (depth_super p c n)
  show ?case
  proof (cases "p = q")
    case True
    have "super_depth ct p (Suc n)" using depth_super.hyps by simp
    then show ?thesis using super_depth_unique True depth_super.prems(2) by blast
  next
    case False
    then show ?thesis using depth_super supers_split [of ct p c q] by fastforce
  qed
qed

text \<open>Climbing \<open>k\<close> levels reaches the ancestor that all ancestors of at most that depth are above.\<close>

lemma climb_spec:
  "super_depth ct p (k + n) \<Longrightarrow> \<exists>q. climb ct k p = Ret q \<and> super_depth ct q n \<and> (p, q) \<in> (supers ct)\<^sup>*
     \<and> (\<forall>r m. (p, r) \<in> (supers ct)\<^sup>* \<and> super_depth ct r m \<and> m \<le> n \<longrightarrow> (q, r) \<in> (supers ct)\<^sup>*)"
proof (induction k arbitrary: p)
  case (Suc k)
  then obtain c where c: "ct p = Some c" "super c \<noteq> 0" "super_depth ct (super c) (k + n)" by auto
  from Suc.IH [OF c(3)] obtain q where q: "climb ct k (super c) = Ret q" "super_depth ct q n" "(super c, q) \<in> (supers ct)\<^sup>*"
    "\<And>r m. (super c, r) \<in> (supers ct)\<^sup>* \<and> super_depth ct r m \<and> m \<le> n \<Longrightarrow> (q, r) \<in> (supers ct)\<^sup>*" by blast
  have "r \<noteq> p" if "super_depth ct r m" "m \<le> n" for r m
    using super_depth_unique [OF Suc.prems, of m] that by auto
  then show ?case
    using c q by (intro exI [of _ q]) (auto simp: supers_split [of ct p c, OF c(1,2)])
qed auto

lemma lock_step_spec:
  "super_depth ct p n \<Longrightarrow> super_depth ct q n \<Longrightarrow> (p, root) \<in> (supers ct)\<^sup>* \<Longrightarrow> (q, root) \<in> (supers ct)\<^sup>* \<Longrightarrow> super_depth ct root 0
   \<Longrightarrow> \<exists>r. lock_step ct p q = ret r \<and> (p, r) \<in> (supers ct)\<^sup>* \<and> (q, r) \<in> (supers ct)\<^sup>*
      \<and> (\<forall>s m. (p, s) \<in> (supers ct)\<^sup>* \<and> (q, s) \<in> (supers ct)\<^sup>* \<and> super_depth ct s m \<longrightarrow> (r, s) \<in> (supers ct)\<^sup>*)"
proof (induction n arbitrary: p q)
  case 0
  then have "p = root" "q = root" using super_depth_le [of ct _ 0 root 0] by blast+
  then show ?case by (subst lock_step.simps) auto
next
  case (Suc n)
  show ?case
  proof (cases "p = q")
    case True
    then show ?thesis by (subst lock_step.simps) auto
  next
    case False
    obtain c d where c: "ct p = Some c" "super c \<noteq> 0" "super_depth ct (super c) n"
      and d: "ct q = Some d" "super d \<noteq> 0" "super_depth ct (super d) n"
      using Suc.prems(1,2) by auto
    have np: "(p, s) \<in> (supers ct)\<^sup>* \<Longrightarrow> (q, s) \<in> (supers ct)\<^sup>* \<Longrightarrow> super_depth ct s m \<Longrightarrow> s \<noteq> p \<and> s \<noteq> q" for s m
      using False super_depth_le Suc.prems(1,2) by metis
    have "(super c, root) \<in> (supers ct)\<^sup>*" "(super d, root) \<in> (supers ct)\<^sup>*"
      using np [OF Suc.prems(3-5)] Suc.prems(3,4) by (auto simp: supers_split [of ct p c, OF c(1,2)] supers_split [of ct q d, OF d(1,2)])
    from Suc.IH [OF c(3) d(3) this Suc.prems(5)]
    obtain r where r: "lock_step ct (super c) (super d) = ret r" "(super c, r) \<in> (supers ct)\<^sup>*" "(super d, r) \<in> (supers ct)\<^sup>*"
      "\<And>s m. (super c, s) \<in> (supers ct)\<^sup>* \<and> (super d, s) \<in> (supers ct)\<^sup>* \<and> super_depth ct s m \<Longrightarrow> (r, s) \<in> (supers ct)\<^sup>*"
      by blast
    have "lock_step ct p q = ret r" using False c d r(1) by (subst lock_step.simps) simp
    moreover have "(r, s) \<in> (supers ct)\<^sup>*" if "(p, s) \<in> (supers ct)\<^sup>*" "(q, s) \<in> (supers ct)\<^sup>*" "super_depth ct s m" for s m
      using that np [OF that] r(4) [of s m] by (auto simp: supers_split [of ct p c, OF c(1,2)] supers_split [of ct q d, OF d(1,2)])
    ultimately show ?thesis
      using r(2,3) by (intro exI [of _ r]) (auto simp: supers_split [of ct p c, OF c(1,2)] supers_split [of ct q d, OF d(1,2)])
  qed
qed

lemma dig_spec:
  assumes "super_depth ct p n" and "super_depth ct q m" and "(p, root) \<in> (supers ct)\<^sup>*" and "(q, root) \<in> (supers ct)\<^sup>*"
    and root: "super_depth ct root 0"
  shows "\<exists>r. digForSuperclass ct p q = ret r \<and> (p, r) \<in> (supers ct)\<^sup>* \<and> (q, r) \<in> (supers ct)\<^sup>*
      \<and> (\<forall>s k. (p, s) \<in> (supers ct)\<^sup>* \<and> (q, s) \<in> (supers ct)\<^sup>* \<and> super_depth ct s k \<longrightarrow> (r, s) \<in> (supers ct)\<^sup>*)"
proof -
  have eq: "n - m + min n m = n" "m - n + min n m = m" by simp_all
  obtain p' where p': "climb ct (n - m) p = Ret p'" "super_depth ct p' (min n m)" "(p, p') \<in> (supers ct)\<^sup>*"
    "\<And>r k. (p, r) \<in> (supers ct)\<^sup>* \<Longrightarrow> super_depth ct r k \<Longrightarrow> k \<le> min n m \<Longrightarrow> (p', r) \<in> (supers ct)\<^sup>*"
    using climb_spec [of ct p "n - m" "min n m", unfolded eq(1), OF assms(1)] by blast
  obtain q' where q': "climb ct (m - n) q = Ret q'" "super_depth ct q' (min n m)" "(q, q') \<in> (supers ct)\<^sup>*"
    "\<And>r k. (q, r) \<in> (supers ct)\<^sup>* \<Longrightarrow> super_depth ct r k \<Longrightarrow> k \<le> min n m \<Longrightarrow> (q', r) \<in> (supers ct)\<^sup>*"
    using climb_spec [of ct q "m - n" "min n m", unfolded eq(2), OF assms(2)] by blast
  have "(p', root) \<in> (supers ct)\<^sup>*" "(q', root) \<in> (supers ct)\<^sup>*" using p'(4) [OF assms(3) root] q'(4) [OF assms(4) root] by simp_all
  from lock_step_spec [OF p'(2) q'(2) this root]
  obtain r where r: "lock_step ct p' q' = ret r" "(p', r) \<in> (supers ct)\<^sup>*" "(q', r) \<in> (supers ct)\<^sup>*"
    "\<And>s k. (p', s) \<in> (supers ct)\<^sup>* \<Longrightarrow> (q', s) \<in> (supers ct)\<^sup>* \<Longrightarrow> super_depth ct s k \<Longrightarrow> (r, s) \<in> (supers ct)\<^sup>*" by blast
  have "(r, s) \<in> (supers ct)\<^sup>*" if s: "(p, s) \<in> (supers ct)\<^sup>*" "(q, s) \<in> (supers ct)\<^sup>*" "super_depth ct s k" for s k
  proof -
    have "k \<le> min n m" using super_depth_le [OF assms(1) s(1,3)] super_depth_le [OF assms(2) s(2,3)] by simp
    then show ?thesis using r(4) p'(4) [OF s(1,3)] q'(4) [OF s(2,3)] s(3) by blast
  qed
  moreover have "digForSuperclass ct p q = ret r"
    using p'(1) q'(1) r(1) by (simp add: digForSuperclass_def getClassDepth_eq [OF assms(1)] getClassDepth_eq [OF assms(2)]
        nat_minus_as_int flip: of_nat_diff)
  ultimately show ?thesis using p'(3) q'(3) r(2,3) by (meson rtrancl_trans)
qed

section \<open>The common superclass\<close>

text \<open>
  What class loading establishes beyond \<^const>\<open>loaded_ok\<close>: no class is above itself, every class but the primitive ones is
  below \<open>Object\<close>, one class object per type, and \<open>arr\<close> finds the array class over a class up to
  the dimensions in use. The verifier keeps class addresses in 32 bits next to the small type
  numbers, so that they have to be even, above those numbers and below \<open>2 ^ 32\<close>.
\<close>

definition ref_class :: "class_table \<Rightarrow> u8 \<Rightarrow> bool" where
  "ref_class ct p \<longleftrightarrow> (\<exists>c. ct p = Some c \<and> \<not> dvmIsPrimitiveClass c)"

definition hierarchy_ok :: "class_table \<Rightarrow> u8 \<Rightarrow> u8 set \<Rightarrow> (u8 \<Rightarrow> u8) \<Rightarrow> bool" where
  "hierarchy_ok ct obj ifs arr \<longleftrightarrow> loaded_ok ct obj ifs \<and> acyclic (parents ct) \<and> inj_on (type_of_class ct) (dom ct)
     \<and> (\<forall>p c. ct p = Some c \<longrightarrow> unat p < 2 ^ 32 \<and> even (unat p) \<and> 17 < unat p)
     \<and> (\<forall>p. ref_class ct p \<longrightarrow> (p, obj) \<in> (supers ct)\<^sup>*)
     \<and> (\<forall>p c. ct p = Some c \<and> dvmIsPrimitiveClass c \<longrightarrow> \<not> dvmIsArrayClass c \<and> \<not> dvmIsInterfaceClass c \<and> super c = 0 \<and> p \<noteq> obj)
     \<and> (\<forall>p q. ref_class ct p \<and> q \<in> dom ct \<and> jdims (type_of_class ct p) < jdims (type_of_class ct q)
          \<longrightarrow> ref_class ct (arr p) \<and> type_of_class ct (arr p) = ArrOf (type_of_class ct p))"

lemma hierarchy_facts:
  assumes "hierarchy_ok ct obj ifs arr"
  shows "loaded_ok ct obj ifs" and "acyclic (parents ct)" and "inj_on (type_of_class ct) (dom ct)"
    and "ct p = Some c \<Longrightarrow> unat p < 2 ^ 32 \<and> even (unat p) \<and> 17 < unat p"
    and "ref_class ct p \<Longrightarrow> (p, obj) \<in> (supers ct)\<^sup>*"
    and "ct p = Some c \<Longrightarrow> dvmIsPrimitiveClass c \<Longrightarrow> \<not> dvmIsArrayClass c \<and> \<not> dvmIsInterfaceClass c \<and> super c = 0 \<and> p \<noteq> obj"
    and "ref_class ct p \<Longrightarrow> q \<in> dom ct \<Longrightarrow> jdims (type_of_class ct p) < jdims (type_of_class ct q)
          \<Longrightarrow> ref_class ct (arr p) \<and> type_of_class ct (arr p) = ArrOf (type_of_class ct p)"
  using assms unfolding hierarchy_ok_def by blast+

lemma ref_class_obj: "hierarchy_ok ct obj ifs arr \<Longrightarrow> ref_class ct obj"
  using loaded_obj [OF hierarchy_facts(1)] hierarchy_facts(6) by (fastforce simp: ref_class_def)

lemma super_depth_exists: "(p, root) \<in> (supers ct)\<^sup>* \<Longrightarrow> super_depth ct root 0 \<Longrightarrow> \<exists>n. super_depth ct p n"
proof (induction rule: converse_rtrancl_induct)
  case (step p q)
  then show ?case by (auto simp: supers_def intro: super_depth.depth_super)
qed blast

lemma super_depth_obj: "loaded_ok ct obj ifs \<Longrightarrow> super_depth ct obj 0"
  using loaded_obj by fastforce

lemma supers_subtype:
  assumes ok: "loaded_ok ct obj ifs" and "(p, r) \<in> (supers ct)\<^sup>*" and "p \<in> dom ct"
  shows "subtype ct obj ifs (type_of_class ct p) (type_of_class ct r)"
proof (cases "p = r")
  case True
  then show ?thesis by (simp add: subtype.sub_refl)
next
  case False
  obtain c where c: "ct p = Some c" using assms(3) by auto
  have r: "type_of_class ct r = Cls r" using not_array_above [OF ok assms(2) False] by (auto simp: plain_def type_of_class_def)
  show ?thesis
  proof (cases "dvmIsArrayClass c")
    case True
    note a = loaded_array [OF ok c True]
    obtain d where "ct obj = Some d" "super d = 0" using loaded_obj [OF ok] by auto
    then have "r = obj" using assms(2) False c a(4) supers_root [of ct obj d r] supers_split [of ct p c r]
      by (cases "super c = 0") (auto simp: supers_root [of ct p c])
    moreover obtain T where "type_of_class ct p = ArrOf T"
      using c True a(2) by (cases "nat (arrayDim c)") (auto simp: type_of_class_def array_type_def)
    ultimately show ?thesis using r by (simp add: subtype.sub_object)
  next
    case F: False
    then have "type_of_class ct p = Cls p" using c by (simp add: type_of_class_def)
    then show ?thesis using r subtype_rtrancl [OF subsetD [OF supers_parents assms(2)]] by simp
  qed
qed

lemma supers_ref_class:
  assumes "hierarchy_ok ct obj ifs arr" and "ref_class ct p" and "(p, r) \<in> (supers ct)\<^sup>*"
  shows "ref_class ct r"
  using assms(3)
proof (cases rule: rtranclE)
  case base
  then show ?thesis using assms(2) by simp
next
  case (step q)
  note ok = hierarchy_facts(1) [OF assms(1)]
  obtain d where d: "ct r = Some d" using supers_closed [OF ok step(2)] by (auto simp: plain_def)
  have "\<not> dvmIsPrimitiveClass d"
  proof
    assume prim: "dvmIsPrimitiveClass d"
    note pr = hierarchy_facts(6) [OF assms(1) d prim]
    have "(r, obj) \<in> (supers ct)\<^sup>* \<or> (obj, r) \<in> (supers ct)\<^sup>*"
      using assms(3) hierarchy_facts(5) [OF assms(1,2)]
      by (rule single_valued_confluent [rotated]) (auto simp: single_valued_def supers_def)
    then show False
      using pr d supers_root [of ct r d obj] loaded_obj [OF ok] supers_root [of ct obj _ r] by fastforce
  qed
  with d show ?thesis by (simp add: ref_class_def)
qed

lemma array_of_type:
  assumes "hierarchy_ok ct obj ifs arr" and "ref_class ct c" and "q \<in> dom ct"
    and "jdims (type_of_class ct c) + n \<le> jdims (type_of_class ct q)"
  shows "ref_class ct (array_of arr n c) \<and> type_of_class ct (array_of arr n c) = (ArrOf ^^ n) (type_of_class ct c)"
  using assms(2,4)
proof (induction n arbitrary: c)
  case (Suc n)
  have a: "ref_class ct (arr c)" "type_of_class ct (arr c) = ArrOf (type_of_class ct c)"
    using hierarchy_facts(7) [OF assms(1) Suc.prems(1) assms(3)] Suc.prems(2) by auto
  then have "ref_class ct (array_of arr n (arr c))
      \<and> type_of_class ct (array_of arr n (arr c)) = (ArrOf ^^ n) (type_of_class ct (arr c))"
    using Suc.IH [of "arr c"] Suc.prems(2) by simp
  then show ?case by (simp add: a(2) funpow_swap1)
qed simp

lemma implements_subtype:
  assumes ok: "loaded_ok ct obj ifs" and q: "ct q = Some d" and p: "ct p = Some c" "dvmIsInterfaceClass c"
    and "p \<in> set (iftable d)"
  shows "subtype ct obj ifs (type_of_class ct q) (type_of_class ct p)"
proof -
  have "\<not> dvmIsArrayClass c" using p loaded_array(1) [OF ok p(1)] by blast
  then have tp: "type_of_class ct p = Cls p" using p by (simp add: type_of_class_def)
  show ?thesis
  proof (cases "dvmIsArrayClass d")
    case True
    note a = loaded_array [OF ok q True]
    obtain T where "type_of_class ct q = ArrOf T"
      using q True a(2) by (cases "nat (arrayDim d)") (auto simp: type_of_class_def array_type_def)
    then show ?thesis using tp a(5) assms(5) by (simp add: subtype.sub_iface)
  next
    case False
    then have "(q, p) \<in> (parents ct)\<^sup>*" using loaded_plain(5) [OF ok q] assms(5) by (auto intro: trancl_into_rtrancl)
    then show ?thesis using tp q False by (simp add: type_of_class_def subtype_rtrancl)
  qed
qed

text \<open>\<open>r\<close> is a class above both.\<close>

definition upper_class :: "class_table \<Rightarrow> u8 \<Rightarrow> u8 set \<Rightarrow> u8 \<Rightarrow> u8 \<Rightarrow> u8 \<Rightarrow> bool" where
  "upper_class ct obj ifs p q r \<longleftrightarrow> ref_class ct r \<and> subtype ct obj ifs (type_of_class ct p) (type_of_class ct r)
     \<and> subtype ct obj ifs (type_of_class ct q) (type_of_class ct r)"

lemma dig_upper:
  assumes h: "hierarchy_ok ct obj ifs arr" and p: "ref_class ct p" and q: "ref_class ct q"
  shows "\<exists>r. digForSuperclass ct p q = ret r \<and> upper_class ct obj ifs p q r"
proof -
  note ok = hierarchy_facts(1) [OF h]
  note op = hierarchy_facts(5) [OF h p] and oq = hierarchy_facts(5) [OF h q] and root = super_depth_obj [OF ok]
  obtain n m where "super_depth ct p n" "super_depth ct q m"
    using super_depth_exists [OF op root] super_depth_exists [OF oq root] by blast
  from dig_spec [OF this op oq root]
  obtain r where r: "digForSuperclass ct p q = ret r" "(p, r) \<in> (supers ct)\<^sup>*" "(q, r) \<in> (supers ct)\<^sup>*" by blast
  have "p \<in> dom ct" "q \<in> dom ct" using p q by (auto simp: ref_class_def)
  then show ?thesis
    using r supers_subtype [OF ok r(2)] supers_subtype [OF ok r(3)] supers_ref_class [OF h p r(2)] by (auto simp: upper_class_def)
qed

lemma array_upper:
  assumes h: "hierarchy_ok ct obj ifs arr"
    and p: "ct p = Some c" "dvmIsArrayClass c" "ref_class ct (elementClass c)"
    and q: "ct q = Some d" "dvmIsArrayClass d" "ref_class ct (elementClass d)"
    and common: "\<exists>r. common (elementClass c) (elementClass d) = ret r \<and> upper_class ct obj ifs (elementClass c) (elementClass d) r"
  shows "\<exists>r. findCommonArraySuperclass ct arr common p q = ret r \<and> upper_class ct obj ifs p q r"
proof -
  note ok = hierarchy_facts(1) [OF h]
  note c = loaded_array [OF ok p(1,2)] and d = loaded_array [OF ok q(1,2)]
  define n m where "n = nat (arrayDim c)" and "m = nat (arrayDim d)"
  have nm: "arrayDim c = int n" "arrayDim d = int m" "0 < n" "0 < m" using c(2) d(2) by (auto simp: n_def m_def)
  have tp: "type_of_class ct p = array_type n (elementClass c)" "type_of_class ct q = array_type m (elementClass d)"
    using p q by (simp_all add: type_of_class_def n_def m_def)
  have te: "type_of_class ct (elementClass c) = Cls (elementClass c)" "type_of_class ct (elementClass d) = Cls (elementClass d)"
    using c(3) d(3) by (auto simp: type_of_class_def plain_def)
  have dom: "p \<in> dom ct" "q \<in> dom ct" using p q by auto
  show ?thesis
  proof (cases "n = m")
    case True
    obtain r where r: "common (elementClass c) (elementClass d) = ret r" "ref_class ct r"
      "subtype ct obj ifs (Cls (elementClass c)) (type_of_class ct r)" "subtype ct obj ifs (Cls (elementClass d)) (type_of_class ct r)"
      using common te by (auto simp: upper_class_def)
    have "jdims (type_of_class ct r) = 0" using r(3) by (simp add: subtype_iff [OF ok] jsub_def)
    then have a: "ref_class ct (array_of arr n r)" "type_of_class ct (array_of arr n r) = (ArrOf ^^ n) (type_of_class ct r)"
      using array_of_type [OF h r(2) dom(1), of n] tp by simp_all
    have "upper_class ct obj ifs p q (array_of arr n r)"
      using a subtype_array_type [OF r(3), of n] subtype_array_type [OF r(4), of n] True
      by (simp add: upper_class_def tp array_type_def)
    then show ?thesis using p q nm r(1) True by (simp add: findCommonArraySuperclass_def deref_def)
  next
    case False
    let ?k = "min n m"
    have o: "type_of_class ct obj = Cls obj" using loaded_obj [OF ok] by (auto simp: type_of_class_def)
    have "ref_class ct (array_of arr ?k obj) \<and> type_of_class ct (array_of arr ?k obj) = array_type ?k obj"
      using array_of_type [OF h ref_class_obj [OF h] dom(1), of ?k] jdims_array_type [of n "elementClass c"] tp o
      by (simp add: array_type_def)
    moreover have "(elementClass c, obj) \<in> (parents ct)\<^sup>*" "(elementClass d, obj) \<in> (parents ct)\<^sup>*"
      using hierarchy_facts(5) [OF h p(3)] hierarchy_facts(5) [OF h q(3)] supers_parents by blast+
    ultimately have "upper_class ct obj ifs p q (array_of arr ?k obj)"
      using False by (auto simp: upper_class_def tp subtype_iff [OF ok] jsub_def)
    moreover have "nat (min (int n) (int m)) = ?k" by simp
    ultimately show ?thesis using p q nm False c(4) by (simp add: findCommonArraySuperclass_def deref_def)
  qed
qed

lemma common_upper:
  assumes h: "hierarchy_ok ct obj ifs arr" and "ref_class ct p" and "ref_class ct q" and "class_depth ct p < n"
  shows "\<exists>r. findCommonSuperclass n ct arr p q = ret r \<and> upper_class ct obj ifs p q r"
  using assms(2-4)
proof (induction n arbitrary: p q)
  case (Suc n)
  note ok = hierarchy_facts(1) [OF h]
  obtain c d where c: "ct p = Some c" "\<not> dvmIsPrimitiveClass c" and d: "ct q = Some d" "\<not> dvmIsPrimitiveClass d"
    using Suc.prems by (auto simp: ref_class_def)
  have imp: "dvmImplements ct q p = ret (p \<in> set (iftable d))" if "dvmIsInterfaceClass c"
    using that c d implements_spec [OF ok d(1), of p] by (simp add: is_interface_def)
  have imp': "dvmImplements ct p q = ret (q \<in> set (iftable c))" if "dvmIsInterfaceClass d"
    using that c d implements_spec [OF ok c(1), of q] by (simp add: is_interface_def)
  note up1 = implements_subtype [OF ok d(1) c(1)] and up2 = implements_subtype [OF ok c(1) d(1)]
  consider "p = q" | (i1) "p \<noteq> q" "dvmIsInterfaceClass c" "p \<in> set (iftable d)"
    | (i2) "p \<noteq> q" "\<not> (dvmIsInterfaceClass c \<and> p \<in> set (iftable d))" "dvmIsInterfaceClass d" "q \<in> set (iftable c)"
    | (arrays) "p \<noteq> q" "\<not> (dvmIsInterfaceClass c \<and> p \<in> set (iftable d))" "\<not> (dvmIsInterfaceClass d \<and> q \<in> set (iftable c))"
        "dvmIsArrayClass c" "dvmIsArrayClass d"
    | (dig) "p \<noteq> q" "\<not> (dvmIsInterfaceClass c \<and> p \<in> set (iftable d))" "\<not> (dvmIsInterfaceClass d \<and> q \<in> set (iftable c))"
        "\<not> (dvmIsArrayClass c \<and> dvmIsArrayClass d)" by blast
  then show ?case
  proof cases
    case 1
    then show ?thesis using c Suc.prems by (simp add: deref_def upper_class_def subtype.sub_refl)
  next
    case i1
    then show ?thesis using c d imp up1 Suc.prems by (simp add: deref_def upper_class_def subtype.sub_refl)
  next
    case i2
    then show ?thesis using c d imp imp' up2 Suc.prems by (auto simp: deref_def upper_class_def subtype.sub_refl)
  next
    case arrays
    note ca = loaded_array [OF ok c(1) arrays(4)] and da = loaded_array [OF ok d(1) arrays(5)]
    obtain e1 e2 where e: "ct (elementClass c) = Some e1" "ct (elementClass d) = Some e2" using ca(3) da(3) by (auto simp: plain_def)
    show ?thesis
    proof (cases "dvmIsPrimitiveClass e1 \<or> dvmIsPrimitiveClass e2")
      case True
      then show ?thesis using c d arrays imp imp' e dig_upper [OF h Suc.prems(1,2)] by (auto simp: deref_def)
    next
      case False
      then have re: "ref_class ct (elementClass c)" "ref_class ct (elementClass d)" using e by (auto simp: ref_class_def)
      have "class_depth ct (elementClass c) < n"
        using Suc.prems(3) c arrays ca(3) by (auto simp: class_depth_def plain_def)
      from array_upper [where common = "findCommonSuperclass n ct arr", OF h c(1) arrays(4) re(1) d(1) arrays(5) re(2) Suc.IH [OF re this]]
      show ?thesis using c d arrays imp imp' e False by (auto simp: deref_def)
    qed
  next
    case dig
    then show ?thesis using c d imp imp' dig_upper [OF h Suc.prems(1,2)] by (auto simp: deref_def)
  qed
qed simp

text \<open>Among classes that are not arrays the result is below every class, not an interface, that is above both.\<close>

lemma common_least:
  assumes h: "hierarchy_ok ct obj ifs arr" and p: "ref_class ct p" "plain ct p" and q: "ref_class ct q" "plain ct q"
    and k: "findCommonSuperclass (Suc n) ct arr p q = ret k" and r: "ref_class ct r" "plain ct r" "\<not> is_interface ct r"
    and above: "subtype ct obj ifs (Cls p) (Cls r)" "subtype ct obj ifs (Cls q) (Cls r)"
  shows "subtype ct obj ifs (type_of_class ct k) (Cls r)"
proof -
  note ok = hierarchy_facts(1) [OF h]
  obtain c d where c: "ct p = Some c" "\<not> dvmIsPrimitiveClass c" "\<not> dvmIsArrayClass c"
    and d: "ct q = Some d" "\<not> dvmIsPrimitiveClass d" "\<not> dvmIsArrayClass d"
    using p q by (auto simp: ref_class_def plain_def)
  have t: "type_of_class ct p = Cls p" "type_of_class ct q = Cls q" using c d by (simp_all add: type_of_class_def)
  have imp: "dvmImplements ct q p = ret (p \<in> set (iftable d))" if "dvmIsInterfaceClass c"
    using that c d implements_spec [OF ok d(1), of p] by (simp add: is_interface_def)
  have imp': "dvmImplements ct p q = ret (q \<in> set (iftable c))" if "dvmIsInterfaceClass d"
    using that c d implements_spec [OF ok c(1), of q] by (simp add: is_interface_def)
  have "k = p \<or> k = q \<or> digForSuperclass ct p q = ret k"
    using k c d imp imp' by (auto simp: deref_def split: if_splits)
  then consider "k = p" | "k = q" | (dig) "digForSuperclass ct p q = ret k" by blast
  then show ?thesis
  proof cases
    case dig
    note op = hierarchy_facts(5) [OF h p(1)] and oq = hierarchy_facts(5) [OF h q(1)] and root = super_depth_obj [OF ok]
    obtain m m' j where m: "super_depth ct p m" "super_depth ct q m'" and j: "super_depth ct r j"
      using super_depth_exists [OF op root] super_depth_exists [OF oq root]
        super_depth_exists [OF hierarchy_facts(5) [OF h r(1)] root] by blast
    have "(p, r) \<in> (supers ct)\<^sup>*" "(q, r) \<in> (supers ct)\<^sup>*"
      using above parents_to_class [OF ok _ p(2) r(3)] parents_to_class [OF ok _ q(2) r(3)]
      by (auto simp: subtype_iff [OF ok] jsub_def)
    then have kr: "(k, r) \<in> (supers ct)\<^sup>*" using dig_spec [OF m op oq root] dig j by auto
    moreover have "ref_class ct k" using dig_upper [OF h p(1) q(1)] dig by (auto simp: upper_class_def)
    ultimately have "subtype ct obj ifs (type_of_class ct k) (type_of_class ct r)"
      by (intro supers_subtype [OF ok]) (auto simp: ref_class_def)
    then show ?thesis using r(2) by (auto simp: type_of_class_def plain_def)
  qed (use above t in simp_all)
qed

section \<open>The order on register types\<close>

definition class_ref :: "class_table \<Rightarrow> RegType \<Rightarrow> bool" where
  "class_ref ct t \<longleftrightarrow> ref_class ct (ucast t)"

definition reg_ok :: "class_table \<Rightarrow> RegType \<Rightarrow> bool" where
  "reg_ok ct t \<longleftrightarrow> t < kRegTypeMAX \<or> regTypeIsUninitReference t \<or> class_ref ct t"

definition tab_le :: "RegType \<Rightarrow> RegType \<Rightarrow> bool" where
  "tab_le a b \<longleftrightarrow> a < kRegTypeMAX \<and> b < kRegTypeMAX \<and> gDvmMergeTab ! unat a ! unat b = unat b"

definition reg_le :: "class_table \<Rightarrow> u8 \<Rightarrow> u8 set \<Rightarrow> RegType \<Rightarrow> RegType \<Rightarrow> bool" where
  "reg_le ct obj ifs a b \<longleftrightarrow> a = b \<or> b = kRegTypeConflict \<or> tab_le a b \<or> a = kRegTypeZero \<and> \<not> b < kRegTypeMAX
     \<or> class_ref ct a \<and> class_ref ct b \<and> subtype ct obj ifs (type_of_class ct (ucast a)) (type_of_class ct (ucast b))"

lemma reg_le_refl [simp]: "reg_le ct obj ifs a a"
  by (simp add: reg_le_def)

lemma small_nat: "a < kRegTypeMAX \<longleftrightarrow> unat a \<in> set [0..<17]"
  unfolding set_upt by (simp add: word_less_nat_alt)

lemma merge_tab_facts:
  assumes "a < kRegTypeMAX" and "b < kRegTypeMAX"
  defines "m \<equiv> word_of_nat (gDvmMergeTab ! unat a ! unat b) :: RegType"
  shows "m < kRegTypeMAX" and "tab_le a m" and "tab_le b m"
proof -
  let ?m = "gDvmMergeTab ! unat a ! unat b"
  have l: "?m < 17" "gDvmMergeTab ! unat b ! unat a = ?m" "gDvmMergeTab ! unat a ! ?m = ?m"
    using merge_tab_semilattice assms(1,2) unfolding small_nat list_all_iff Let_def by blast+
  moreover have "gDvmMergeTab ! unat b ! (gDvmMergeTab ! unat b ! unat a) = gDvmMergeTab ! unat b ! unat a"
    using merge_tab_semilattice assms(1,2) unfolding small_nat list_all_iff Let_def by blast
  ultimately have l4: "gDvmMergeTab ! unat b ! ?m = ?m" by simp
  have um: "unat m = ?m" unfolding m_def using l(1) by (simp add: unsigned_of_nat take_bit_nat_eq_self_iff)
  then show "m < kRegTypeMAX" using l(1) by (simp add: word_less_nat_alt)
  then show "tab_le a m" "tab_le b m" using assms(1,2) l(3) l4 um by (simp_all add: tab_le_def)
qed

lemma tab_le_trans: "tab_le a b \<Longrightarrow> tab_le b c \<Longrightarrow> tab_le a c"
  using merge_tab_trans unfolding tab_le_def small_nat list_all_iff by blast

lemma tab_le_antisym: "tab_le a b \<Longrightarrow> tab_le b a \<Longrightarrow> a = b"
proof -
  assume ab: "tab_le a b" "tab_le b a"
  then have "gDvmMergeTab ! unat b ! unat a = gDvmMergeTab ! unat a ! unat b"
    using merge_tab_semilattice unfolding tab_le_def small_nat list_all_iff Let_def by blast
  with ab show ?thesis by (simp add: tab_le_def word_unat_eq_iff)
qed

lemma tab_le_special: "tab_le kRegTypeConflict b \<Longrightarrow> b = kRegTypeConflict" "tab_le a kRegTypeZero \<Longrightarrow> a = kRegTypeZero"
proof -
  have "list_all (\<lambda>b. (gDvmMergeTab ! 2 ! b = b \<longrightarrow> b = 2) \<and> (gDvmMergeTab ! b ! 4 = 4 \<longrightarrow> b = 4)) [0..<17]" by code_simp
  then have *: "(gDvmMergeTab ! 2 ! n = n \<longrightarrow> n = 2) \<and> (gDvmMergeTab ! n ! 4 = 4 \<longrightarrow> n = 4)" if "n \<in> set [0..<17]" for n
    using that unfolding list_all_iff by blast
  show "tab_le kRegTypeConflict b \<Longrightarrow> b = kRegTypeConflict" using * [of "unat b"] unfolding tab_le_def small_nat
    by (simp add: word_unat_eq_iff)
  show "tab_le a kRegTypeZero \<Longrightarrow> a = kRegTypeZero" using * [of "unat a"] unfolding tab_le_def small_nat
    by (simp add: word_unat_eq_iff)
qed

lemma class_ref_facts:
  assumes "hierarchy_ok ct obj ifs arr" and "class_ref ct t"
  shows "\<not> t < kRegTypeMAX" and "\<not> regTypeIsUninitReference t" and "regTypeInitializedReferenceToClass t = Ret (ucast t)"
    and "regTypeIsReference t"
proof -
  obtain c where "ct (ucast t) = Some c" using assms(2) by (auto simp: class_ref_def ref_class_def)
  then have "even (unat (ucast t :: u8))" "17 < unat (ucast t :: u8)" using hierarchy_facts(4) [OF assms(1)] by blast+
  then have t: "even (unat t)" "17 < unat t" using unat_ucast_up [of t, where 'b = 64] by simp_all
  then show "\<not> t < kRegTypeMAX" by (simp add: word_less_nat_alt)
  have "\<not> bit t 0" using t(1) bit_unsigned_iff [where 'a = nat, of t 0] by (simp add: bit_0)
  then have 2: "\<not> bit (t AND 0xff) 0" by (simp add: bit_and_iff del: bit_0)
  have 1: "t AND 1 = 0" using \<open>\<not> bit t 0\<close> by (simp add: and_one_eq bit_0 odd_iff_mod_2_eq_one)
  show u: "\<not> regTypeIsUninitReference t" using 2 by (auto simp: regTypeIsUninitReference_def)
  show r: "regTypeIsReference t" using t(2) by (simp add: regTypeIsReference_def word_less_nat_alt)
  have "t \<noteq> 4" using t(2) by auto
  with r 1 show "regTypeInitializedReferenceToClass t = Ret (ucast t)" by (simp add: regTypeInitializedReferenceToClass_def)
qed

lemma ref_class_word:
  assumes "hierarchy_ok ct obj ifs arr" and "ref_class ct p"
  shows "(ucast (ucast p :: u4) :: u8) = p" and "class_ref ct (regTypeFromClass p)"
proof -
  have "unat p < 2 ^ 32" using assms hierarchy_facts(4) by (auto simp: ref_class_def)
  then have "take_bit 32 (unat p) = unat p" by (simp add: take_bit_nat_eq_self_iff)
  then show e: "(ucast (ucast p :: u4) :: u8) = p"
    by (simp add: word_unat_eq_iff unsigned_ucast_eq unsigned_take_bit_eq)
  then show "class_ref ct (regTypeFromClass p)" using assms(2) by (simp add: class_ref_def regTypeFromClass_def)
qed

lemma reg_le_trans:
  assumes h: "hierarchy_ok ct obj ifs arr" and ab: "reg_le ct obj ifs a b" and bc: "reg_le ct obj ifs b c"
  shows "reg_le ct obj ifs a c"
proof -
  note cf = class_ref_facts [OF h]
  have conf: "\<not> class_ref ct kRegTypeConflict" "\<not> class_ref ct kRegTypeZero" using cf(1) by force+
  from ab consider "a = b" | (conflict) "b = kRegTypeConflict" | (tab) "tab_le a b" | (zero) "a = kRegTypeZero" "\<not> b < kRegTypeMAX"
    | (cls) "class_ref ct a" "class_ref ct b" "subtype ct obj ifs (type_of_class ct (ucast a)) (type_of_class ct (ucast b))"
    unfolding reg_le_def by blast
  then show ?thesis
  proof cases
    case 1 then show ?thesis using bc by simp
  next
    case conflict
    then show ?thesis using bc conf tab_le_special(1) by (auto simp: reg_le_def)
  next
    case tab
    then have b: "b < kRegTypeMAX" by (simp add: tab_le_def)
    then show ?thesis using bc tab tab_le_trans tab_le_special(2) cf(1) by (auto simp: reg_le_def)
  next
    case zero
    then show ?thesis using bc cf(1) by (auto simp: reg_le_def tab_le_def)
  next
    case cls
    then show ?thesis using bc cf(1) [OF cls(2)] conf by (auto simp: reg_le_def tab_le_def intro: subtype.sub_trans)
  qed
qed

lemma subtype_antisym:
  assumes ok: "loaded_ok ct obj ifs" and "acyclic (parents ct)" and "subtype ct obj ifs S T" and "subtype ct obj ifs T S"
  shows "S = T"
proof -
  have j: "jdims S = jdims T" "(jbase S, jbase T) \<in> (parents ct)\<^sup>*" "(jbase T, jbase S) \<in> (parents ct)\<^sup>*"
    using assms(3,4) by (auto simp: subtype_iff [OF ok] jsub_def)
  then have "jbase S = jbase T"
    using assms(2) by (metis acyclic_def rtranclD rtrancl_trancl_trancl)
  with j(1) show ?thesis by (metis array_type_collapse)
qed

lemma reg_le_antisym:
  assumes h: "hierarchy_ok ct obj ifs arr" and ab: "reg_le ct obj ifs a b" and ba: "reg_le ct obj ifs b a"
  shows "a = b"
proof (rule ccontr)
  assume ne: "a \<noteq> b"
  note cf = class_ref_facts [OF h]
  have conf: "\<not> class_ref ct kRegTypeConflict" "\<not> class_ref ct kRegTypeZero" using cf(1) by force+
  have "class_ref ct a \<and> class_ref ct b \<and> subtype ct obj ifs (type_of_class ct (ucast a)) (type_of_class ct (ucast b))
     \<and> subtype ct obj ifs (type_of_class ct (ucast b)) (type_of_class ct (ucast a))"
    using ab ba ne tab_le_antisym [of a b] tab_le_special cf(1) [of a] cf(1) [of b] conf
    unfolding reg_le_def by (auto simp: tab_le_def)
  then have "type_of_class ct (ucast a) = type_of_class ct (ucast b)" "ucast a \<in> dom ct" "ucast b \<in> dom ct"
    using subtype_antisym [OF hierarchy_facts(1,2) [OF h]] by (auto simp: class_ref_def ref_class_def)
  then have "(ucast a :: u8) = ucast b" using hierarchy_facts(3) [OF h] by (auto dest: inj_onD)
  then have "(ucast (ucast a :: u8) :: u4) = ucast (ucast b :: u8)" by (rule arg_cong)
  with ne show False by simp
qed

lemma mergeTypes_upper:
  assumes h: "hierarchy_ok ct obj ifs arr" and "reg_ok ct a" and "reg_ok ct b"
  shows "\<exists>m. mergeTypes ct arr a b changed = ret (m, m \<noteq> a \<or> changed) \<and> reg_ok ct m
           \<and> reg_le ct obj ifs a m \<and> reg_le ct obj ifs b m"
proof -
  note cf = class_ref_facts [OF h]
  have r: "\<exists>m. mergeTypes ct arr a b changed = ret (m, m \<noteq> a \<or> changed) \<and> P m" if "a \<noteq> b" "P m"
    "(if a < 17 then if b < 17 then m = word_of_nat (gDvmMergeTab ! unat a ! unat b) else if a = 4 then m = b else m = 2
      else if b < 17 then if b = 4 then m = a else m = 2
      else if regTypeIsUninitReference a \<or> regTypeIsUninitReference b then m = 2
      else m = regTypeFromClass k \<and> k \<noteq> 0 \<and> findCommonSuperclass 2 ct arr (ucast a) (ucast b) = ret k
        \<and> regTypeInitializedReferenceToClass a = Ret (ucast a) \<and> regTypeInitializedReferenceToClass b = Ret (ucast b))" for m P k
    using that by (intro exI [of _ m]) (auto simp: mergeTypes_def split: if_splits)
  let ?P = "\<lambda>m. reg_ok ct m \<and> reg_le ct obj ifs a m \<and> reg_le ct obj ifs b m"
  consider "a = b" | (tab) "a \<noteq> b" "a < 17" "b < 17" | (left) "a \<noteq> b" "a < 17" "\<not> b < 17" | (right) "a \<noteq> b" "\<not> a < 17" "b < 17"
    | (uninit) "a \<noteq> b" "\<not> a < 17" "\<not> b < 17" "regTypeIsUninitReference a \<or> regTypeIsUninitReference b"
    | (cls) "a \<noteq> b" "\<not> a < 17" "\<not> b < 17" "class_ref ct a" "class_ref ct b"
    using assms(2,3) by (auto simp: reg_ok_def)
  then show ?thesis
  proof cases
    case 1 then show ?thesis using assms(2) by (simp add: mergeTypes_def)
  next
    case tab
    then show ?thesis
      using merge_tab_facts [OF tab(2,3)] by (intro r [where P = ?P]) (auto simp: reg_ok_def reg_le_def)
  next
    case left
    then show ?thesis using assms(3)
      by (intro r [where P = ?P and m = "if a = 4 then b else 2"]) (auto simp: reg_ok_def reg_le_def)
  next
    case right
    then show ?thesis using assms(2)
      by (intro r [where P = ?P and m = "if b = 4 then a else 2"]) (auto simp: reg_ok_def reg_le_def)
  next
    case uninit
    then show ?thesis by (intro r [where P = ?P and m = 2]) (auto simp: reg_ok_def reg_le_def)
  next
    case cls
    have rc: "ref_class ct (ucast a)" "ref_class ct (ucast b)" using cls by (simp_all add: class_ref_def)
    have "class_depth ct (ucast a) < 2" by (simp add: class_depth_def split: option.split)
    then obtain k where k: "findCommonSuperclass 2 ct arr (ucast a) (ucast b) = ret k" "upper_class ct obj ifs (ucast a) (ucast b) k"
      using common_upper [OF h rc] by blast
    then have rk: "ref_class ct k" by (simp add: upper_class_def)
    then have "k \<noteq> 0" using loaded_null [OF hierarchy_facts(1) [OF h]] by (auto simp: ref_class_def)
    moreover have "reg_le ct obj ifs a (regTypeFromClass k) \<and> reg_le ct obj ifs b (regTypeFromClass k)"
      using cls ref_class_word [OF h rk] k(2) by (simp add: reg_le_def upper_class_def regTypeFromClass_def)
    ultimately show ?thesis
      using cls cf(2,3) k(1) ref_class_word(2) [OF h rk]
      by (intro r [where P = ?P and m = "regTypeFromClass k" and k = k]) (auto simp: reg_ok_def)
  qed
qed

section \<open>Merging lines\<close>

text \<open>
  The contract the data-flow analysis relies on: merging returns an upper bound, and says whether it differs from the
  first argument. The environment \<open>e\<close> stands for the loaded classes.
\<close>

locale join_merge =
  fixes valid :: "'e \<Rightarrow> bool"
    and elem :: "'e \<Rightarrow> 't::finite \<Rightarrow> bool"
    and le :: "'e \<Rightarrow> 't \<Rightarrow> 't \<Rightarrow> bool"
    and merge :: "'e \<Rightarrow> 't \<Rightarrow> 't \<Rightarrow> bool \<Rightarrow> ('t \<times> bool) run"
  assumes le_refl: "le e a a"
    and le_trans: "valid e \<Longrightarrow> le e a b \<Longrightarrow> le e b c \<Longrightarrow> le e a c"
    and le_antisym: "valid e \<Longrightarrow> le e a b \<Longrightarrow> le e b a \<Longrightarrow> a = b"
    and merge_upper: "valid e \<Longrightarrow> elem e a \<Longrightarrow> elem e b
      \<Longrightarrow> \<exists>m. merge e a b changed = ret (m, m \<noteq> a \<or> changed) \<and> elem e m \<and> le e a m \<and> le e b m"
begin

lemma lines_refl: "list_all2 (le e) as as"
  by (simp add: list_all2_refl le_refl)

lemma lines_trans: "valid e \<Longrightarrow> list_all2 (le e) as bs \<Longrightarrow> list_all2 (le e) bs cs \<Longrightarrow> list_all2 (le e) as cs"
  by (rule list_all2_trans) (auto intro: le_trans)

lemma lines_antisym: "valid e \<Longrightarrow> list_all2 (le e) as bs \<Longrightarrow> list_all2 (le e) bs as \<Longrightarrow> as = bs"
  by (auto simp: list_all2_conv_all_nth intro!: nth_equalityI le_antisym)

lemma merge_lines_upper:
  assumes "valid e" and "length ts = length ws" and "list_all (elem e) ts" and "list_all (elem e) ws"
  shows "\<exists>rs. merge_lines (merge e) ts ws changed = ret (rs, rs \<noteq> ts \<or> changed) \<and> list_all (elem e) rs
           \<and> list_all2 (le e) ts rs \<and> list_all2 (le e) ws rs"
  using assms(2-4)
proof (induction ts ws arbitrary: changed rule: list_induct2)
  case (Cons t ts w ws)
  obtain m where m: "merge e t w changed = ret (m, m \<noteq> t \<or> changed)" "elem e m" "le e t m" "le e w m"
    using merge_upper [OF assms(1), of t w changed] Cons.prems by auto
  obtain rs where rs: "merge_lines (merge e) ts ws (m \<noteq> t \<or> changed) = ret (rs, rs \<noteq> ts \<or> m \<noteq> t \<or> changed)"
    "list_all (elem e) rs" "list_all2 (le e) ts rs" "list_all2 (le e) ws rs"
    using Cons.IH [of "m \<noteq> t \<or> changed"] Cons.prems by auto
  show ?case by (rule exI [of _ "m # rs"]) (use m rs in auto)
qed simp

text \<open>There is no infinite ascending sequence of lines.\<close>

definition above :: "'e \<Rightarrow> nat \<Rightarrow> ('t list \<times> 't list) set" where
  "above e n = {(bs, as). length as = n \<and> length bs = n \<and> list_all2 (le e) as bs \<and> as \<noteq> bs}"

lemma above_wf: "valid e \<Longrightarrow> wf (above e n)"
proof (rule finite_acyclic_wf)
  have "above e n \<subseteq> {xs. set xs \<subseteq> UNIV \<and> length xs = n} \<times> {xs. set xs \<subseteq> UNIV \<and> length xs = n}" by (auto simp: above_def)
  then show "finite (above e n)" by (rule finite_subset) (intro finite_cartesian_product finite_lists_length_eq finite)
  assume v: "valid e"
  have "list_all2 (le e) b a \<and> a \<noteq> b" if "(a, b) \<in> (above e n)\<^sup>+" for a b
    using that
  proof (induction rule: trancl_induct)
    case (base b) then show ?case by (auto simp: above_def)
  next
    case (step b c)
    then show ?case using lines_trans [OF v] lines_antisym [OF v] by (auto simp: above_def)
  qed
  then show "acyclic (above e n)" by (auto simp: acyclic_def)
qed

end

type_synonym verify_types = "class_table \<times> u8 \<times> u8 set \<times> (u8 \<Rightarrow> u8)"

interpretation regs: join_merge
  "\<lambda>(ct, obj, ifs, arr). hierarchy_ok ct obj ifs arr" "\<lambda>(ct, obj, ifs, arr). reg_ok ct"
  "\<lambda>(ct, obj, ifs, arr). reg_le ct obj ifs" "\<lambda>(ct, obj, ifs, arr). mergeTypes ct arr"
proof (unfold_locales, goal_cases)
  case (1 e a) then show ?case by (cases e) simp
next
  case (2 e a b c) then show ?case by (cases e) (auto intro: reg_le_trans)
next
  case (3 e a b) then show ?case by (cases e) (auto intro: reg_le_antisym)
next
  case (4 e a b changed) then show ?case by (cases e) (simp only: prod.case, rule mergeTypes_upper)
qed

section \<open>Properties\<close>


text \<open>\<open>Object\<close>, a class \<open>A\<close> and two subclasses of it.\<close>

definition verify_list :: "(u8 \<times> ClassObject) list" where
  "verify_list = [(32, plain_class ''LObject;'' 0 0), (48, plain_class ''LA;'' 0 32), (64, plain_class ''LB;'' 0 48),
     (80, plain_class ''LC;'' 0 48)]"

definition verify_classes :: class_table where
  "verify_classes = map_of verify_list"

lemma verify_classes_cases:
  "verify_classes p = Some c \<Longrightarrow> (p, c) \<in> {(32, plain_class ''LObject;'' 0 0), (48, plain_class ''LA;'' 0 32), (64, plain_class ''LB;'' 0 48),
     (80, plain_class ''LC;'' 0 48)}"
  using map_of_SomeD [of verify_list p c] unfolding verify_classes_def verify_list_def by simp

lemma verify_classes_flags:
  assumes "verify_classes p = Some c"
  shows "\<not> dvmIsArrayClass c" "\<not> dvmIsInterfaceClass c" "\<not> dvmIsPrimitiveClass c" "interfaces c = []" "iftable c = []"
    "super c \<noteq> 0 \<Longrightarrow> super c < p \<and> super c \<in> {32, 48}" "p \<in> {32, 48, 64, 80}"
  using verify_classes_cases [OF assms]
  by (auto simp: plain_class_def dvmIsArrayClass_def dvmIsInterfaceClass_def ACC_INTERFACE_def dvmIsPrimitiveClass_def)

lemma verify_super: "(48, 32) \<in> supers verify_classes" "(64, 48) \<in> supers verify_classes" "(80, 48) \<in> supers verify_classes"
  by (simp_all add: supers_def verify_classes_def verify_list_def plain_class_def)

lemma verify_plain: "p \<in> {32, 48, 64, 80} \<Longrightarrow> ref_class verify_classes p \<and> plain verify_classes p \<and> \<not> is_interface verify_classes p"
  by (auto simp: ref_class_def plain_def is_interface_def verify_classes_def verify_list_def plain_class_def
      dvmIsArrayClass_def dvmIsInterfaceClass_def ACC_INTERFACE_def dvmIsPrimitiveClass_def)

lemma verify_hierarchy: "hierarchy_ok verify_classes 32 {} id"
proof -
  have par: "parents verify_classes = supers verify_classes"
    using verify_classes_flags(4) by (auto simp: parents_def supers_def)
  have wf: "wf ((supers verify_classes)\<inverse>)"
    by (rule supers_decrease) (use verify_classes_flags(6) in blast)
  have noif: "\<not> is_interface verify_classes i" for i using verify_classes_flags(2) by (auto simp: is_interface_def)
  have obj: "\<exists>c. verify_classes 32 = Some c \<and> \<not> dvmIsArrayClass c \<and> \<not> dvmIsInterfaceClass c \<and> super c = 0 \<and> interfaces c = []"
    by (simp add: verify_classes_def verify_list_def plain_class_def dvmIsArrayClass_def dvmIsInterfaceClass_def ACC_INTERFACE_def)
  have cls: "if dvmIsArrayClass c
      then \<not> dvmIsInterfaceClass c \<and> arrayDim c > 0 \<and> plain verify_classes (elementClass c) \<and> super c = 32 \<and> set (iftable c) = {}
      else (super c \<noteq> 0 \<longrightarrow> plain verify_classes (super c) \<and> \<not> is_interface verify_classes (super c))
        \<and> (\<forall>i\<in>set (interfaces c). plain verify_classes i \<and> is_interface verify_classes i)
        \<and> (dvmIsInterfaceClass c \<longrightarrow> super c = 32) \<and> (interfaces c \<noteq> [] \<longrightarrow> (p, 32) \<in> (supers verify_classes)\<^sup>*)
        \<and> set (iftable c) = {i. (p, i) \<in> (parents verify_classes)\<^sup>+ \<and> is_interface verify_classes i}"
    if "verify_classes p = Some c" for p c
    using verify_classes_flags [OF that] noif verify_plain by auto
  have "verify_classes 0 = None" by (simp add: verify_classes_def verify_list_def)
  then have ok: "loaded_ok verify_classes 32 {}" unfolding loaded_ok_def using obj wf cls by blast
  have "acyclic (parents verify_classes)"
    using wf_acyclic [OF wf] by (simp add: par)
  moreover have "inj_on (type_of_class verify_classes) (dom verify_classes)"
    using verify_classes_flags(1) by (auto simp: inj_on_def type_of_class_def)
  moreover have "unat p < 2 ^ 32 \<and> even (unat p) \<and> 17 < unat p" if "verify_classes p = Some c" for p c
    using verify_classes_flags(7) [OF that] by auto
  moreover have "(p, 32) \<in> (supers verify_classes)\<^sup>*" if "ref_class verify_classes p" for p
    using that verify_classes_flags(7) [of p] verify_super by (auto simp: ref_class_def intro: rtrancl_into_rtrancl rtrancl_trans)
  moreover have "jdims (type_of_class verify_classes q) = 0" for q
    using verify_classes_flags(1) [of q] by (auto simp: type_of_class_def split: option.split)
  ultimately show ?thesis unfolding hierarchy_ok_def using ok verify_classes_flags(3) by simp blast
qed


end
