(* ===== verification/VerifySafe.thy ===== *)
theory VerifySafe
  imports VerifyInsn VerifyMerge
begin

text \<open>
  The type check of an instruction always ends, and keeps the registers and the map of uninitialized instances in the form the
  merge relies on: every register type is a simple type, an uninitialized reference or the address of a loaded class that
  is not primitive. The proofs are compositional: a rule for each combinator, then each arm of the switch.
\<close>

section \<open>The environment\<close>

text \<open>What class loading and resolution promise: they give loaded classes, and no primitive ones where a reference type is asked for.\<close>

definition class_or_null :: "class_table \<Rightarrow> u8 \<Rightarrow> bool" where
  "class_or_null ct p \<longleftrightarrow> p = 0 \<or> ref_class ct p"

definition env_ok :: "verify_env \<Rightarrow> u8 set \<Rightarrow> bool" where
  "env_ok env ifs \<longleftrightarrow>
     hierarchy_ok (classes env) (classJavaLangObject env) ifs (findArrayClassForElement env)
     \<and> (\<forall>d c. findClassNoInit env d c = 0 \<or> findClassNoInit env d c \<in> dom (classes env))
     \<and> (\<forall>d c. class_or_null (classes env) (findArrayClass env d c))
     \<and> (\<forall>c i. class_or_null (classes env) (optResolveClass env c i))
     \<and> (\<forall>c i t m. optResolveMethod env c i t = Some m \<longrightarrow> ref_class (classes env) (meth_clazz m))
     \<and> (\<forall>c i m. optResolveInterfaceMethod env c i = Some m \<longrightarrow> ref_class (classes env) (meth_clazz m))
     \<and> (\<forall>c i f. optResolveInstField env c i = Some f \<longrightarrow> ref_class (classes env) (field_clazz f))
     \<and> ref_class (classes env) (classJavaLangString env) \<and> ref_class (classes env) (classJavaLangClass env)
     \<and> ref_class (classes env) (classJavaLangThrowable env)
     \<and> (\<forall>p c. classes env p = Some c \<and> dvmIsArrayClass c \<and> char_at (descriptor c) 1 = CHR ''L'' \<longrightarrow> ref_class (classes env) (elementClass c))"

lemma env_facts:
  assumes "env_ok env ifs"
  shows "hierarchy_ok (classes env) (classJavaLangObject env) ifs (findArrayClassForElement env)"
    and "findClassNoInit env d c = 0 \<or> findClassNoInit env d c \<in> dom (classes env)"
    and "class_or_null (classes env) (findArrayClass env d c)"
    and "class_or_null (classes env) (optResolveClass env c i)"
    and "optResolveMethod env c i t = Some m \<Longrightarrow> ref_class (classes env) (meth_clazz m)"
    and "optResolveInterfaceMethod env c i = Some m \<Longrightarrow> ref_class (classes env) (meth_clazz m)"
    and "optResolveInstField env c i = Some f \<Longrightarrow> ref_class (classes env) (field_clazz f)"
    and "ref_class (classes env) (classJavaLangString env)" and "ref_class (classes env) (classJavaLangClass env)"
    and "ref_class (classes env) (classJavaLangThrowable env)"
    and "classes env p = Some k \<Longrightarrow> dvmIsArrayClass k \<Longrightarrow> char_at (descriptor k) 1 = CHR ''L'' \<Longrightarrow> ref_class (classes env) (elementClass k)"
  using assms unfolding env_ok_def by blast+

section \<open>The instance check\<close>

lemma low32_loaded:
  assumes "hierarchy_ok ct obj ifs arr"
  shows "inj_on low32 (dom ct)" and "0 \<notin> low32 ` dom ct"
proof -
  have up: "ucast (low32 p) = p" if "p \<in> dom ct" for p
  proof -
    have "unat p < 2 ^ 32" using that hierarchy_facts(4) [OF assms] by blast
    then have "take_bit 32 (unat p) = unat p" by (simp add: take_bit_nat_eq_self_iff)
    then show ?thesis by (simp add: low32_def word_unat_eq_iff unsigned_ucast_eq unsigned_take_bit_eq)
  qed
  show "inj_on low32 (dom ct)" by (rule inj_onI) (metis up)
  have "p \<noteq> 0" if "p \<in> dom ct" for p using that hierarchy_facts(4) [OF assms, of p] by auto
  then show "0 \<notin> low32 ` dom ct" using up by force
qed

lemma instance_check_value:
  assumes "hierarchy_ok ct obj ifs arr" and "a \<in> dom ct" and "b \<in> dom ct"
  shows "instance_check ct a b = ret (subtype ct obj ifs (type_of_class ct a) (type_of_class ct b))"
proof -
  have "class_depth ct a < 2" by (simp add: class_depth_def split: option.split)
  from instanceof_value [OF hierarchy_facts(1) [OF assms(1)] low32_loaded [OF assms(1)] assms(2,3) this fresh_coherent [of 10]]
  show ?thesis by (elim exE conjE) (simp add: instance_check_def instance_value_def c_bool_def del: bind_run_eq_ret)
qed

lemma instance_check_unloaded:
  assumes "a \<notin> dom ct"
  shows "instance_check ct a b \<noteq> None"
proof -
  have a: "ct a = None" using assms by (simp add: domIff)
  have "isInstanceof ct inst a b c \<noteq> None" for inst c
    by (auto simp: isInstanceof_def deref_def uncached_def dvmImplements_def a split: option.split)
  then have calc: "isInstanceof ct inst a b c = None \<longleftrightarrow> False" for inst c by simp
  have "ATOMIC_CACHE_LOOKUP (isInstanceof ct inst a b) cache a b \<noteq> None" for inst cache
    by (auto simp: ATOMIC_CACHE_LOOKUP_def Let_def calc split: option.split)
  then have "dvmInstanceof 2 ct a b (fresh_cache 10) \<noteq> None"
    by (auto simp: numeral_2_eq_2 dvmInstanceofNonTrivial_def)
  then show ?thesis
    by (auto simp: instance_check_def bind_run_def split: option.split outcome.split)
qed

lemma instance_check_ends:
  "hierarchy_ok ct obj ifs arr \<Longrightarrow> class_or_null ct a \<Longrightarrow> ref_class ct b \<Longrightarrow> instance_check ct a b \<noteq> None"
  using instance_check_unloaded [of a ct b] instance_check_value [of ct obj ifs arr a b] by (cases "a \<in> dom ct") (auto simp: ref_class_def)

section \<open>Safe computations\<close>

definition map_ok :: "class_table \<Rightarrow> UninitInstanceMap \<Rightarrow> bool" where
  "map_ok ct um \<longleftrightarrow> (\<forall>(_, c)\<in>set um. class_or_null ct c)"

text \<open>The map only learns classes.\<close>

definition map_le :: "UninitInstanceMap \<Rightarrow> UninitInstanceMap \<Rightarrow> bool" where
  "map_le um um' \<longleftrightarrow> list_all2 (\<lambda>(a, c) (a', c'). a' = a \<and> (c = 0 \<or> c' = c)) um um'"

lemma map_le_refl [simp]: "map_le um um"
  by (auto simp: map_le_def intro: list_all2_refl)

lemma map_le_trans: "map_le a b \<Longrightarrow> map_le b c \<Longrightarrow> map_le a c"
  unfolding map_le_def by (rule list_all2_trans [where ?P1.0 = "\<lambda>(a, c) (a', c'). a' = a \<and> (c = 0 \<or> c' = c)"]) auto

definition line_ok :: "class_table \<Rightarrow> nat \<Rightarrow> RegType list \<Rightarrow> bool" where
  "line_ok ct n regs \<longleftrightarrow> length regs = n + kExtraRegs \<and> list_all (reg_ok ct) regs"

definition vok :: "class_table \<Rightarrow> nat \<Rightarrow> vstate \<Rightarrow> bool" where
  "vok ct n s \<longleftrightarrow> line_ok ct n (workRegs s) \<and> map_ok ct (uninitMap s)"

text \<open>From a good state, the computation ends; when it returns, the state is good again and the value satisfies \<open>Q\<close>.\<close>

definition safe :: "class_table \<Rightarrow> nat \<Rightarrow> 'a vop \<Rightarrow> ('a \<Rightarrow> bool) \<Rightarrow> bool" where
  "safe ct n m Q \<longleftrightarrow> (\<forall>s. vok ct n s \<longrightarrow>
     (case m s of None \<Rightarrow> False | Some (Ret (x, s')) \<Rightarrow> vok ct n s' \<and> map_le (uninitMap s) (uninitMap s') \<and> Q x | _ \<Rightarrow> True))"

definition ends_with :: "'a run \<Rightarrow> ('a \<Rightarrow> bool) \<Rightarrow> bool" where
  "ends_with m Q \<longleftrightarrow> (case m of None \<Rightarrow> False | Some (Ret x) \<Rightarrow> Q x | _ \<Rightarrow> True)"

lemma safe_ends: "safe ct n m Q \<longleftrightarrow> (\<forall>s. vok ct n s \<longrightarrow>
    ends_with (m s) (\<lambda>(x, s'). vok ct n s' \<and> map_le (uninitMap s) (uninitMap s') \<and> Q x))"
  unfolding safe_def ends_with_def by (auto split: option.splits outcome.splits)

lemma ends_with_simps [simp]:
  "ends_with None Q = False" "ends_with (ret x) Q = Q x" "ends_with (Some AbortVM) Q" "ends_with (Some OutOfBounds) Q"
  by (simp_all add: ends_with_def)

lemma ends_with_bind: "ends_with m P \<Longrightarrow> (\<And>x. P x \<Longrightarrow> ends_with (f x) Q) \<Longrightarrow> ends_with (bind_run m f) Q"
  by (cases m) (auto simp: ends_with_def [of m] bind_run_def split: outcome.splits)

lemma ends_with_out: "ends_with (Some m) Q \<longleftrightarrow> (\<forall>x. m = Ret x \<longrightarrow> Q x)"
  by (cases m) auto

lemma ends_with_if: "(b \<Longrightarrow> ends_with m Q) \<Longrightarrow> (\<not> b \<Longrightarrow> ends_with k Q) \<Longrightarrow> ends_with (if b then m else k) Q"
  by simp

lemma ends_with_bind_out: "(\<And>x. m = Ret x \<Longrightarrow> ends_with (f x) Q) \<Longrightarrow> ends_with (bind_run (Some m) f) Q"
  by (cases m) auto

lemma ends_with_mono: "ends_with m P \<Longrightarrow> (\<And>x. P x \<Longrightarrow> Q x) \<Longrightarrow> ends_with m Q"
  by (auto simp: ends_with_def split: option.splits outcome.splits)

lemma ends_withD: "ends_with m Q \<Longrightarrow> m = ret x \<Longrightarrow> Q x" "ends_with m Q \<Longrightarrow> m \<noteq> None"
  by (auto simp: ends_with_def split: option.splits)

lemma safe_mono: "safe ct n m P \<Longrightarrow> (\<And>x. P x \<Longrightarrow> Q x) \<Longrightarrow> safe ct n m Q"
  unfolding safe_ends by (blast intro: ends_with_mono)

lemma safe_ret: "Q x \<Longrightarrow> safe ct n (vret x) Q"
  by (simp add: safe_ends vret_def)

lemma safe_bind: "safe ct n m P \<Longrightarrow> (\<And>x. P x \<Longrightarrow> safe ct n (f x) Q) \<Longrightarrow> safe ct n (vbind m f) Q"
  unfolding safe_ends vbind_def
  by (intro allI impI, rule ends_with_bind, blast) (auto intro: ends_with_mono map_le_trans split: prod.splits)

lemma safe_then: "safe ct n m P \<Longrightarrow> safe ct n k Q \<Longrightarrow> safe ct n (vthen m k) Q"
  unfolding vthen_def by (rule safe_bind)

lemma safe_lift: "ends_with m Q \<Longrightarrow> safe ct n (lift_run m) Q"
  unfolding safe_ends lift_run_def by (intro allI impI, rule ends_with_bind) auto

lemma safe_assert: "safe ct n (vassert b) (\<lambda>_. b)"
  by (simp add: safe_ends vassert_def)

lemma safe_reject: "safe ct n reject (\<lambda>_. True)"
  by (simp add: safe_ends reject_def vok_def)

lemma safe_if_okay: "safe ct n m (\<lambda>_. True) \<Longrightarrow> safe ct n (if_okay m) (\<lambda>_. True)"
  by (simp add: safe_ends if_okay_def)

lemma safe_require: "(b \<Longrightarrow> safe ct n m (\<lambda>_. True)) \<Longrightarrow> safe ct n (require b m) (\<lambda>_. True)"
  by (simp add: require_def safe_reject)

lemma safe_if:
  "(b \<Longrightarrow> safe ct n m Q) \<Longrightarrow> (\<not> b \<Longrightarrow> safe ct n k Q) \<Longrightarrow> safe ct n (if b then m else k) Q"
  by simp

lemma safe_option:
  "(x = None \<Longrightarrow> safe ct n m Q) \<Longrightarrow> (\<And>y. x = Some y \<Longrightarrow> safe ct n (k y) Q) \<Longrightarrow> safe ct n (case x of None \<Rightarrow> m | Some y \<Rightarrow> k y) Q"
  by (cases x) simp_all

lemma safe_if_state:
  "safe ct n a Q \<Longrightarrow> safe ct n b Q \<Longrightarrow> safe ct n (\<lambda>s. if P s then a s else b s) Q"
  by (simp add: safe_ends)

lemma safe_stop: "safe ct n (\<lambda>s. Some AbortVM) Q" "safe ct n (\<lambda>s. Some OutOfBounds) Q"
  by (simp_all add: safe_ends)

lemma safe_class: "(\<And>c. ct p = Some c \<Longrightarrow> safe ct n (f c) Q) \<Longrightarrow> safe ct n (with_class ct p f) Q"
  by (auto simp: safe_ends with_class_def deref_def split: option.split)

lemma safe_just_result: "safe ct n set_just_result (\<lambda>_. True)"
  by (simp add: safe_ends set_just_result_def vok_def)

lemma safe_with_okay: "(\<And>s. vok ct n s \<Longrightarrow> ends_with (f s) (\<lambda>(x, _). Q x)) \<Longrightarrow> safe ct n (with_okay f) Q"
  unfolding safe_ends with_okay_def by (intro allI impI, rule ends_with_bind, blast) (auto simp: vok_def)

lemma safe_with_regs: "(\<And>s. vok ct n s \<Longrightarrow> ends_with (f s) (\<lambda>(r, _). line_ok ct n r)) \<Longrightarrow> safe ct n (with_regs f) (\<lambda>_. True)"
  unfolding safe_ends with_regs_def by (intro allI impI, rule ends_with_bind, blast) (auto simp: vok_def)

lemma safe_with_check: "(\<And>s. vok ct n s \<Longrightarrow> ends_with (f s) (\<lambda>_. True)) \<Longrightarrow> safe ct n (with_check f) (\<lambda>_. True)"
  unfolding safe_ends with_check_def by (intro allI impI, rule ends_with_bind, blast) (auto simp: vok_def)

lemma safe_map:
  assumes "\<And>um. map_ok ct um \<Longrightarrow> safe ct n (m um) Q"
  shows "safe ct n (\<lambda>s. m (uninitMap s) s) Q"
  using assms by (simp add: safe_ends vok_def)


section \<open>Helpers\<close>

lemma line_okD: "line_ok ct n r \<Longrightarrow> i < n + 2 \<Longrightarrow> reg_ok ct (r ! i)" "line_ok ct n r \<Longrightarrow> length r = n + 2"
  by (auto simp: line_ok_def list_all_length kExtraRegs_def)

lemma line_ok_update: "line_ok ct n r \<Longrightarrow> reg_ok ct t \<Longrightarrow> line_ok ct n (r[i := t])"
  by (auto simp: line_ok_def list_all_iff dest!: set_update_subset_insert [THEN subsetD])

lemma store_line: "line_ok ct n r \<Longrightarrow> reg_ok ct t \<Longrightarrow> list_store r i t = Ret r' \<Longrightarrow> line_ok ct n r'"
  by (auto simp: list_store_def line_ok_update split: if_splits)

lemma reg_ok_small [simp]: "t < 17 \<Longrightarrow> reg_ok ct t"
  by (simp add: reg_ok_def)

lemma setRegisterType_line:
  assumes "setRegisterType r k v t ok = Ret (r', ok')" and "line_ok ct n r" and "reg_ok ct t"
  shows "line_ok ct n r'"
  using assms by (auto simp: setRegisterType_def split: if_splits intro: store_line [rotated 2])

lemma getRegisterType_ok:
  assumes "getRegisterType r k v ok = Ret (t, ok')" and "line_ok ct n r"
  shows "reg_ok ct t"
  using assms by (auto simp: getRegisterType_def line_ok_def list_all_length split: if_splits)

lemma class_ref_ref: "class_ref ct t \<Longrightarrow> ref_class ct (ucast t)"
  by (simp add: class_ref_def)

lemma getClassFromRegister_ok:
  assumes "getClassFromRegister r k v ok = Ret (p, ok')" and "line_ok ct n r"
  shows "class_or_null ct p"
proof -
  have "class_or_null ct p" if "reg_ok ct t" "regTypeIsReference t" "\<not> regTypeIsUninitReference t" "t \<noteq> 4"
    "regTypeInitializedReferenceToClass t = Ret p" for t
    using that class_ref_ref by (auto simp: reg_ok_def regTypeIsReference_def regTypeInitializedReferenceToClass_def class_or_null_def
        regTypeIsUninitReference_def split: if_splits)
  then show ?thesis
    using assms(1) getRegisterType_ok [OF _ assms(2)]
    by (fastforce simp: getClassFromRegister_def class_or_null_def split: if_splits)
qed

lemma safe_get_reg: "safe ct n (get_reg k v) (reg_ok ct)"
  by (rule safe_with_okay) (auto simp: ends_with_out vok_def intro: getRegisterType_ok)

lemma safe_get_class: "safe ct n (get_class k v) (class_or_null ct)"
  by (rule safe_with_okay) (auto simp: ends_with_out vok_def intro: getClassFromRegister_ok)

lemma safe_set_reg: "reg_ok ct t \<Longrightarrow> safe ct n (set_reg k v t) (\<lambda>_. True)"
  by (rule safe_with_regs) (auto simp: ends_with_out vok_def intro: setRegisterType_line)

lemma safe_set_result: "reg_ok ct t \<Longrightarrow> safe ct n (set_result k t) (\<lambda>_. True)"
  by (rule safe_with_regs) (auto simp: ends_with_out vok_def setResultRegisterType_def intro: setRegisterType_line)

lemma safe_check_category: "safe ct n (check_category t cat) (\<lambda>_. True)"
  by (rule safe_with_check) (simp add: ends_with_out)

lemma safe_check_wide: "safe ct n (check_wide t h) (\<lambda>_. True)"
  by (rule safe_with_check) simp

lemma reg_reference:
  assumes "hierarchy_ok ct obj ifs arr" and "reg_ok ct t" and "regTypeIsReference t" and "\<not> regTypeIsUninitReference t" and "t \<noteq> 4"
  shows "regTypeInitializedReferenceToClass t = Ret (ucast t) \<and> ref_class ct (ucast t)"
  using assms class_ref_facts(3) [OF assms(1)] class_ref_ref
  by (auto simp: reg_ok_def regTypeIsReference_def regTypeIsUninitReference_def)

lemma verifyRegisterType_ends:
  assumes h: "hierarchy_ok ct obj ifs arr" and "line_ok ct n r" and "reg_ok ct t"
  shows "ends_with (verifyRegisterType ct r k v t ok) (\<lambda>_. True)"
proof -
  have inst: "ends_with (bind_run (Some (regTypeInitializedReferenceToClass src)) (\<lambda>srcClass.
          bind_run (Some (regTypeInitializedReferenceToClass t)) (\<lambda>checkClass.
            if srcClass = 0 \<or> checkClass = 0 then Some AbortVM
            else deref ct checkClass (\<lambda>c.
              if dvmIsInterfaceClass c then ret ok
              else bind_run (instance_check ct srcClass checkClass) (\<lambda>b. ret (b \<and> ok)))))) (\<lambda>_. True)"
    if "reg_ok ct src" "regTypeIsReference src" "\<not> regTypeIsUninitReference src" "src \<noteq> 4" "regTypeIsReference t"
      "\<not> regTypeIsUninitReference t" "t \<noteq> 4" for src
    using reg_reference [OF h that(1-4)] reg_reference [OF h assms(3) that(5-7)] instance_check_value [OF h, of "ucast src" "ucast t"]
    by (auto simp: deref_def ref_class_def domIff split: option.split)
  show ?thesis
  proof (cases "unat v < length r \<and> reg_ok ct (r ! unat v)")
    case True
    then show ?thesis
      unfolding verifyRegisterType_def Let_def
      by (intro ends_with_if inst) (simp_all add: ends_with_bind_out)
  next
    case False
    then show ?thesis using assms(2) by (auto simp: verifyRegisterType_def line_ok_def list_all_length)
  qed
qed

lemma safe_verify_reg:
  "hierarchy_ok ct obj ifs arr \<Longrightarrow> reg_ok ct t \<Longrightarrow> safe ct n (verify_reg ct k v t) (\<lambda>_. True)"
  by (rule safe_with_check) (auto simp: vok_def intro: verifyRegisterType_ends)


lemma reg_ok_class:
  assumes "hierarchy_ok ct obj ifs arr" and "class_or_null ct p"
  shows "reg_ok ct (regTypeFromClass p)"
  using assms ref_class_word(2) [OF assms(1)] by (auto simp: class_or_null_def reg_ok_def regTypeFromClass_def)

lemma reg_ok_uninit: "reg_ok ct (regTypeFromUninitIndex i)"
proof -
  have "(kRegTypeUninit OR push_bit 8 w) AND 0xff = kRegTypeUninit" for w :: u4
  proof (rule bit_word_eqI)
    fix k assume "k < LENGTH(32)"
    have ff: "(0xff :: u4) = mask 8" by (simp add: mask_eq_exp_minus_1)
    show "bit ((kRegTypeUninit OR push_bit 8 w) AND 0xff) k = bit kRegTypeUninit k" unfolding ff by (auto simp: bit_simps)
  qed
  then show ?thesis by (simp add: reg_ok_def regTypeIsUninitReference_def regTypeFromUninitIndex_def)
qed

lemma object_class: "env_ok env ifs \<Longrightarrow> ref_class (classes env) (classJavaLangObject env)"
  using ref_class_obj [OF env_facts(1)] by simp

lemma lookupClass_ends:
  assumes e: "env_ok env ifs"
  shows "ends_with (lookupClassByDescriptor env meth d ok) (\<lambda>(p, _). class_or_null (classes env) p)"
proof -
  have "ends_with (deref (classes env) p (\<lambda>c. if dvmIsPrimitiveClass c then ret (0, False) else ret (p, b))) (\<lambda>(p, _). class_or_null (classes env) p)"
    for p b by (auto simp: deref_def class_or_null_def ref_class_def split: option.split)
  then show ?thesis unfolding lookupClassByDescriptor_def Let_def by (simp only: split: prod.split) blast
qed

lemma lookupSignature_ends:
  assumes e: "env_ok env ifs"
  shows "ends_with (lookupSignatureClass env meth sig ok) (\<lambda>(p, _). class_or_null (classes env) p)"
    and "ends_with (lookupSignatureArrayClass env meth sig ok) (\<lambda>(p, _). class_or_null (classes env) p)"
  using lookupClass_ends [OF e]
  by (auto simp: lookupSignatureClass_def lookupSignatureArrayClass_def Let_def class_or_null_def)

lemma getMethodReturnType_ends:
  assumes e: "env_ok env ifs"
  shows "ends_with (getMethodReturnType env meth) (reg_ok (classes env))"
  unfolding getMethodReturnType_def Let_def
  by (intro ends_with_if ends_with_bind [OF lookupClass_ends [OF e]]) (auto intro: reg_ok_class [OF env_facts(1) [OF e]])

lemma getFieldClass_ends:
  assumes e: "env_ok env ifs"
  shows "ends_with (getFieldClass env meth f) (class_or_null (classes env))"
  using object_class [OF e]
  by (auto simp: getFieldClass_def Let_def deref_def class_or_null_def ref_class_def split: option.split)

lemma caught_in_ends:
  assumes e: "env_ok env ifs"
  shows "class_or_null (classes env) p \<Longrightarrow> ends_with (caught_in env meth i hs p) (class_or_null (classes env))"
proof (induction hs arbitrary: p)
  case (Cons h hs)
  let ?c = "if typeIdx h = kDexNoIndex then classJavaLangThrowable env else optResolveClass env (meth_clazz meth) (typeIdx h)"
  have c: "class_or_null (classes env) ?c" using env_facts(4,10) [OF e] by (simp add: class_or_null_def)
  have common: "ends_with (findCommonSuperclass 2 (classes env) (findArrayClassForElement env) a b) (class_or_null (classes env))"
    if "ref_class (classes env) a" "ref_class (classes env) b" for a b
  proof -
    have "class_depth (classes env) a < 2" by (simp add: class_depth_def split: option.split)
    from common_upper [OF env_facts(1) [OF e] that this] show ?thesis by (auto simp: upper_class_def class_or_null_def simp del: findCommonSuperclass.simps)
  qed
  show ?case
    using Cons.IH Cons.prems c unfolding caught_in.simps Let_def
    by (intro ends_with_if ends_with_bind [OF common]) (auto simp: class_or_null_def)
qed simp

lemma caught_lists_ends:
  assumes e: "env_ok env ifs"
  shows "class_or_null (classes env) p \<Longrightarrow> ends_with (caught_lists env meth i k off p) (class_or_null (classes env))"
proof (induction k arbitrary: off p)
  case (Suc k)
  then show ?case
    by (auto intro!: ends_with_bind_out ends_with_bind [OF caught_in_ends [OF e]] split: prod.splits)
qed simp

lemma getCaughtExceptionType_ends:
  assumes e: "env_ok env ifs"
  shows "ends_with (getCaughtExceptionType env meth i) (class_or_null (classes env))"
  by (auto simp: getCaughtExceptionType_def class_or_null_def intro!: ends_with_bind_out caught_lists_ends [OF e])

lemma getUninit_ok: "dvmGetUninitInstance um k = Ret p \<Longrightarrow> map_ok ct um \<Longrightarrow> class_or_null ct p"
proof -
  assume get: "dvmGetUninitInstance um k = Ret p" and um: "map_ok ct um"
  have k: "0 \<le> k \<and> k < int (length um)" and p: "p = snd (um ! nat k)" using get by (auto simp: dvmGetUninitInstance_def split: if_splits)
  have "um ! nat k \<in> set um" using k by (intro nth_mem) (simp add: nat_less_iff)
  from bspec [OF um [unfolded map_ok_def] this] show ?thesis by (simp add: p case_prod_beta)
qed

lemma regTypeReferenceToClass_ends:
  assumes "hierarchy_ok ct obj ifs arr" and "reg_ok ct t" and "map_ok ct um"
  shows "ends_with (Some (regTypeReferenceToClass t um)) (class_or_null ct)"
proof -
  show ?thesis
    using reg_reference [OF assms(1,2)] getUninit_ok [OF _ assms(3)]
    by (auto simp: ends_with_out regTypeReferenceToClass_def class_or_null_def split: if_splits)
qed

lemma primitiveTypeToRegType_ends: "ends_with (Some (primitiveTypeToRegType p)) (reg_ok ct)"
  by (cases p) simp_all

lemma ends_out_trivial: "ends_with (Some (m :: 'a outcome)) (\<lambda>_. True)"
  by (simp add: ends_with_out)

lemma primSigChar_ends: "ends_with (Some (primSigCharToRegType c)) (reg_ok ct)"
  by (auto simp: ends_with_out primSigCharToRegType_def split: if_splits)

lemma safe_reference_class:
  assumes "hierarchy_ok ct obj ifs arr" and "reg_ok ct t" and "\<And>p. class_or_null ct p \<Longrightarrow> safe ct n (f p) Q"
  shows "safe ct n (\<lambda>s. vbind (lift_run (Some (regTypeReferenceToClass t (uninitMap s)))) f s) Q"
  by (rule safe_map [where m = "\<lambda>um. vbind (lift_run (Some (regTypeReferenceToClass t um))) f"])
    (intro safe_bind [OF safe_lift [OF regTypeReferenceToClass_ends [OF assms(1,2)]]] assms(3))

lemma arg_register_ends: "ends_with (arg_register d b k) (\<lambda>_. True)"
  by (simp add: arg_register_def)

lemma safe_invocation_this: "safe ct n (getInvocationThis k d) (reg_ok ct)"
proof -
  have "safe ct n (\<lambda>s. if okay s \<and> \<not> regTypeIsReference t then ret (t, s\<lparr>okay := False\<rparr>) else ret (t, s)) (reg_ok ct)"
    if "reg_ok ct t" for t
    using that by (simp add: safe_ends vok_def)
  then show ?thesis
    unfolding getInvocationThis_def
    by (intro safe_if safe_then [OF safe_reject] safe_ret safe_bind [OF safe_get_reg]) simp_all
qed

lemma safe_verify_args:
  assumes e: "env_ok env ifs"
  shows "safe (classes env) n (verify_args env meth k d isRange expected sig m) (\<lambda>_. True)"
proof (induction sig arbitrary: m rule: measure_induct_rule [of length])
  case (less sig)
  note h = env_facts(1) [OF e]
  show ?case
  proof (cases sig)
    case Nil
    then show ?thesis by (simp add: verify_args.simps safe_ret)
  next
    case (Cons c cs)
    have look: "safe (classes env) n (with_okay (\<lambda>s. if c = CHR ''L'' then lookupSignatureClass env meth cs (okay s)
        else lookupSignatureArrayClass env meth cs (okay s))) (class_or_null (classes env))"
      using lookupSignature_ends [OF e] by (intro safe_with_okay) simp
    have rec: "safe (classes env) n (verify_args env meth k d isRange expected cs j) (\<lambda>_. True)" for j
      using less.IH Cons by simp
    have rec_rest: "safe (classes env) n (verify_args env meth k d isRange expected
        (tl (if c = CHR ''L'' then signature_class_end cs else signature_array_end cs)) j) (\<lambda>_. True)" for j
      using less.IH Cons length_signature_rest [of cs] by simp
    show ?thesis
      unfolding Cons verify_args.simps Let_def
      by (intro safe_if safe_ret safe_bind [OF safe_lift [OF arg_register_ends]] safe_then [OF safe_verify_reg [OF h]] safe_bind [OF look]
          safe_if_state safe_stop rec rec_rest)
        (auto intro: reg_ok_class [OF h])
  qed
qed

lemma safe_invocation_args:
  assumes e: "env_ok env ifs"
  shows "safe (classes env) n (verifyInvocationArgs env meth k d t isRange isSuper) (\<lambda>_. True)"
proof -
  note h = env_facts(1) [OF e]
  let ?m = "if t = METHOD_INTERFACE then optResolveInterfaceMethod env (meth_clazz meth) (vB d) else optResolveMethod env (meth_clazz meth) (vB d) t"
  show ?thesis
  proof (cases ?m)
    case None
    then show ?thesis
      unfolding verifyInvocationArgs_def Let_def None option.case by (intro safe_then [OF safe_reject] safe_ret) simp
  next
    case (Some m)
    have m: "ref_class (classes env) (meth_clazz m)"
      using Some env_facts(5,6) [OF e] by (auto split: if_splits)
    have sup: "safe (classes env) n (if \<not> isSuper then vret True
        else if t \<noteq> METHOD_VIRTUAL then (\<lambda>s. Some AbortVM)
        else with_class (classes env) (meth_clazz meth) (\<lambda>c. if super c = 0 then vret False
          else with_class (classes env) (super c) (\<lambda>sup. vret (\<not> methodIndex m > vtableCount sup)))) (\<lambda>_. True)"
      by (intro safe_if safe_ret safe_stop safe_class) simp_all
    have this_arg: "safe (classes env) n (\<lambda>s.
        if \<not> okay s then vret None s
        else if regTypeIsUninitReference a \<and> char_at (meth_name m) 0 \<noteq> CHR ''<'' then vret None s
        else if t \<noteq> METHOD_INTERFACE \<and> a \<noteq> kRegTypeZero then
          vbind (lift_run (Some (regTypeReferenceToClass a (uninitMap s)))) (\<lambda>r.
          vbind (lift_run (instance_check (classes env) r (meth_clazz m))) (\<lambda>inst. vret (if inst then Some (1 :: nat) else None))) s
        else vret (Some 1) s) (\<lambda>_. True)" if "reg_ok (classes env) a" for a
      by (intro safe_if_state safe_ret safe_reference_class [OF h that] safe_bind [OF safe_lift, where P = "\<lambda>_. True"] TrueI)
        (use instance_check_ends [OF h _ m] in \<open>auto simp: ends_with_def split: option.split outcome.split\<close>)
    show ?thesis
      unfolding verifyInvocationArgs_def Let_def Some option.case
      by (rule safe_if safe_bind [OF sup] safe_then [OF safe_reject] safe_ret safe_bind [OF safe_verify_args [OF e]]
          safe_bind [OF safe_invocation_this] this_arg safe_option safe_bind [where P = "\<lambda>_. True"] TrueI | assumption)+
  qed
qed


lemma instance_ends:
  assumes "env_ok env ifs" and "class_or_null (classes env) a" and "ref_class (classes env) b"
  shows "ends_with (instance_check (classes env) a b) (\<lambda>_. True)"
  using instance_check_ends [OF env_facts(1) [OF assms(1)] assms(2,3)] by (auto simp: ends_with_def split: option.split outcome.split)

lemma safe_inst_field:
  assumes e: "env_ok env ifs" and t: "reg_ok (classes env) t"
  shows "safe (classes env) n (getInstField env meth t i) (\<lambda>_. True)"
proof -
  note h = env_facts(1) [OF e]
  have c: "safe (classes env) n (vthen (vassert (p \<noteq> 0))
      (if regTypeIsUninitReference t \<and> (\<not> isInitMethod meth \<or> meth_clazz meth \<noteq> p)
       then vthen reject (vret (Some f))
       else vbind (lift_run (instance_check (classes env) p (field_clazz f))) (\<lambda>inst.
         if \<not> inst then vthen reject (vret (Some f))
         else if regTypeIsUninitReference t then
           with_class (classes env) p (\<lambda>c. if fieldPtr f \<in> set (ifields c) then vret (Some f) else vthen reject (vret (Some f)))
         else vret (Some f)))) (\<lambda>_. True)"
    if "class_or_null (classes env) p" "ref_class (classes env) (field_clazz f)" for p f
    by (intro safe_if safe_then [OF safe_assert] safe_then [OF safe_reject] safe_ret safe_bind [OF safe_lift [OF instance_ends [OF e that]]] safe_class TrueI)
  show ?thesis
    unfolding getInstField_def
    by (intro safe_if safe_then [OF safe_reject] safe_ret safe_option safe_reference_class [OF h t] c TrueI)
      (auto intro: env_facts(7) [OF e])
qed


section \<open>The arms\<close>

lemma safe_assert_true: "safe ct n (vassert b) (\<lambda>_. True)"
  by (simp add: safe_ends vassert_def)

lemma safe_then_assert: "(b \<Longrightarrow> safe ct n k Q) \<Longrightarrow> safe ct n (vthen (vassert b) k) Q"
  by (simp add: safe_ends vthen_def vbind_def vassert_def)

lemma copyRegister_line:
  assumes "line_ok ct n r"
  shows "copyRegister1 r k v w cat ok = Ret (r', ok') \<Longrightarrow> line_ok ct n r'"
    and "copyRegister2 r k v w ok = Ret (r', ok') \<Longrightarrow> line_ok ct n r'"
  using getRegisterType_ok [OF _ assms] setRegisterType_line [OF _ assms] assms
  by (auto simp: copyRegister1_def copyRegister2_def split: if_splits)

lemma copyResultRegister_line:
  assumes "line_ok ct n r"
  shows "copyResultRegister1 r k v cat ok = Ret (r', ok') \<Longrightarrow> line_ok ct n r'"
    and "copyResultRegister2 r k v ok = Ret (r', ok') \<Longrightarrow> line_ok ct n r'"
proof -
  note get = getRegisterType_ok [OF _ assms] and set = setRegisterType_line [OF _ assms]
  have store: "line_ok ct n r'" if "list_store r i kRegTypeUnknown = Ret r'" "line_ok ct n r" for r r' i
    using store_line [OF that(2) _ that(1)] by simp
  show "copyResultRegister1 r k v cat ok = Ret (r', ok') \<Longrightarrow> line_ok ct n r'"
    unfolding copyResultRegister1_def Let_def bind_out_eq_Ret
    by (elim exE conjE, simp split: prod.splits if_splits) (use assms in \<open>meson get set store\<close>)+
  show "copyResultRegister2 r k v ok = Ret (r', ok') \<Longrightarrow> line_ok ct n r'"
    unfolding copyResultRegister2_def Let_def bind_out_eq_Ret
    by (elim exE conjE, simp split: prod.splits if_splits) (use assms in \<open>meson get set store\<close>)+
qed

lemma safe_copy:
  "safe ct n (with_regs (\<lambda>s. Some (copyRegister1 (workRegs s) k v w cat (okay s)))) (\<lambda>_. True)"
  "safe ct n (with_regs (\<lambda>s. Some (copyRegister2 (workRegs s) k v w (okay s)))) (\<lambda>_. True)"
  "safe ct n (with_regs (\<lambda>s. Some (copyResultRegister1 (workRegs s) k v cat (okay s)))) (\<lambda>_. True)"
  "safe ct n (with_regs (\<lambda>s. Some (copyResultRegister2 (workRegs s) k v (okay s)))) (\<lambda>_. True)"
  by (rule safe_with_regs; simp only: ends_with_out vok_def; blast dest: copyRegister_line copyResultRegister_line)+

lemmas safe_steps = safe_if safe_ret safe_stop safe_class safe_option safe_reject safe_if_okay safe_require safe_just_result
  safe_check_category safe_check_wide safe_assert_true safe_copy safe_set_reg safe_set_result
  safe_bind [OF safe_get_reg] safe_bind [OF safe_get_class] safe_bind [OF safe_invocation_this] safe_then_assert safe_then [where P = "\<lambda>_. True"]
  safe_bind [OF safe_lift [OF primitiveTypeToRegType_ends]] safe_bind [OF safe_lift [OF primSigChar_ends]]
  safe_bind [OF safe_lift [OF ends_out_trivial]]

lemma safe_arm_move:
  assumes e: "env_ok env ifs"
  shows "safe (classes env) n (arm_move env meth k i d) (\<lambda>_. True)"
  unfolding arm_move_def Let_def
  by (intro safe_steps safe_bind [OF safe_lift [OF getCaughtExceptionType_ends [OF e]]] TrueI) (auto intro: reg_ok_class [OF env_facts(1) [OF e]])

lemma safe_constructor_return: "safe ct n (checkConstructorReturn meth k) (\<lambda>_. True)"
  unfolding checkConstructorReturn_def by (rule safe_with_check) simp

lemma safe_arm_return:
  assumes e: "env_ok env ifs"
  shows "safe (classes env) n (arm_return env meth k d) (\<lambda>_. True)"
proof -
  have t: "safe (classes env) n (lift_run (Some (regTypeInitializedReferenceToClass t))) (ref_class (classes env))"
    if "reg_ok (classes env) t" "t \<noteq> 4 \<and> \<not> regTypeIsUninitReference t" for t
    using reg_reference [OF env_facts(1) [OF e] that(1)] that(2)
    by (intro safe_lift) (auto simp: ends_with_out regTypeInitializedReferenceToClass_def split: if_splits)
  show ?thesis
    unfolding arm_return_def Let_def
    by (intro safe_then [OF safe_constructor_return] safe_bind [OF safe_lift [OF getMethodReturnType_ends [OF e]]]
        safe_bind [OF t] safe_bind [OF safe_lift [OF instance_ends [OF e]]] safe_steps TrueI) auto
qed


lemma reg_ok_const [simp]: "reg_ok ct (dvmDetermineCat1Const v)"
  by (simp add: dvmDetermineCat1Const_def)

lemma safe_arm_const:
  assumes e: "env_ok env ifs"
  shows "safe (classes env) n (arm_const env meth k d) (\<lambda>_. True)"
  unfolding arm_const_def Let_def
  by (intro safe_steps TrueI) (use env_facts(8,9) [OF e] in \<open>auto intro: reg_ok_class [OF env_facts(1) [OF e]] simp: class_or_null_def\<close>)

lemma line_ok_replace:
  assumes "line_ok ct n r" and "reg_ok ct u" and "k \<le> length r"
  shows "line_ok ct n (map (\<lambda>x. if x = t then u else x) (take k r) @ drop k r)"
proof -
  have "reg_ok ct x" if "x \<in> set (take k r) \<union> set (drop k r)" for x
    using that assms(1) in_set_takeD [of x k r] in_set_dropD [of x k r] by (auto simp: line_ok_def list_all_iff)
  then show ?thesis using assms by (auto simp: line_ok_def list_all_iff)
qed

lemma set_uninit_ok:
  "set_uninit um a c i = Ret (u, um') \<Longrightarrow> i \<le> length um \<Longrightarrow> map_ok ct um \<Longrightarrow> class_or_null ct c \<Longrightarrow> map_ok ct um' \<and> map_le um um'"
proof (induction i)
  case (Suc i)
  have upd: "map_ok ct (um[i := (a, c)])"
    using Suc.prems(3,4) unfolding map_ok_def by (auto dest!: set_update_subset_insert [THEN subsetD])
  have "map_le um (um[i := (a, c)])" if "fst (um ! i) = a" "snd (um ! i) = 0 \<or> snd (um ! i) = c"
    using that Suc.prems(2) by (auto simp: map_le_def list_all2_conv_all_nth nth_list_update case_prod_beta)
  then show ?case using Suc upd by (auto split: if_splits)
qed simp

lemma safe_new_instance:
  assumes "class_or_null ct c"
  shows "safe ct n (\<lambda>s. bind_run (Some (dvmSetUninitInstance (uninitMap s) i c)) (\<lambda>(uidx, um).
            if uidx < 0 then Some AbortVM
            else bind_run (Some (markUninitRefsAsInvalid (workRegs s) k (regTypeFromUninitIndex uidx))) (\<lambda>r.
              set_reg k v (regTypeFromUninitIndex uidx) (s\<lparr>workRegs := r, uninitMap := um\<rparr>)))) (\<lambda>_. True)"
  unfolding safe_ends
proof (intro allI impI)
  fix s assume s: "vok ct n s"
  let ?P = "\<lambda>s'. vok ct n s' \<and> map_le (uninitMap s) (uninitMap s')"
  have um: "map_ok ct um \<and> map_le (uninitMap s) um" if "dvmSetUninitInstance (uninitMap s) i c = Ret (u, um)" for u um
    using that set_uninit_ok [OF _ order_refl] s assms by (auto simp: dvmSetUninitInstance_def vok_def split: if_splits)
  have line: "line_ok ct n r" if "markUninitRefsAsInvalid (workRegs s) k t = Ret r" for r t
    using that s by (auto simp: markUninitRefsAsInvalid_def vok_def intro!: line_ok_replace split: if_splits)
  have set: "ends_with (set_reg k v (regTypeFromUninitIndex u) (s\<lparr>workRegs := r, uninitMap := um\<rparr>)) (\<lambda>(x, s'). ?P s' \<and> True)"
    if "line_ok ct n r" "map_ok ct um \<and> map_le (uninitMap s) um" for u r um
  proof -
    have "vok ct n (s\<lparr>workRegs := r, uninitMap := um\<rparr>)" using that s by (simp add: vok_def)
    from safe_set_reg [OF reg_ok_uninit, of ct n k v u, unfolded safe_ends, rule_format, OF this]
    show ?thesis by (rule ends_with_mono) (use that in \<open>auto intro: map_le_trans\<close>)
  qed
  show "ends_with (bind_run (Some (dvmSetUninitInstance (uninitMap s) i c)) (\<lambda>(uidx, um).
            if uidx < 0 then Some AbortVM
            else bind_run (Some (markUninitRefsAsInvalid (workRegs s) k (regTypeFromUninitIndex uidx))) (\<lambda>r.
              set_reg k v (regTypeFromUninitIndex uidx) (s\<lparr>workRegs := r, uninitMap := um\<rparr>))))
          (\<lambda>(x, s'). vok ct n s' \<and> map_le (uninitMap s) (uninitMap s') \<and> True)"
    using set [unfolded conj_assoc] um line
    by (intro ends_with_bind_out) (auto intro!: ends_with_bind_out split: prod.splits)
qed

lemma safe_filled_regs:
  assumes "env_ok env ifs" and "reg_ok (classes env) t"
  shows "safe (classes env) n (filled_regs env k d isRange t ui j) (\<lambda>_. True)"
proof (induction j arbitrary: ui)
  case (Suc j)
  show ?case
    unfolding filled_regs.simps
    by (intro safe_bind [OF safe_lift [OF arg_register_ends]] safe_then [OF safe_verify_reg [OF env_facts(1) [OF assms(1)]]] safe_if_okay Suc.IH assms(2))
qed (simp add: safe_ret)

lemma safe_filled_new_array:
  assumes e: "env_ok env ifs"
  shows "safe (classes env) n (verifyFilledNewArrayRegs env k d c isRange) (\<lambda>_. True)"
proof -
  have t: "safe (classes env) n (if primitiveType k = PRIM_NOT then vret (regTypeFromClass p)
      else lift_run (Some (primitiveTypeToRegType (primitiveType k)))) (reg_ok (classes env))"
    if "classes env p = Some k" for p and k :: ClassObject
    using that
    by (intro safe_if safe_ret safe_lift primitiveTypeToRegType_ends reg_ok_class [OF env_facts(1) [OF e]])
      (auto simp: class_or_null_def ref_class_def dvmIsPrimitiveClass_def)
  show ?thesis
    unfolding verifyFilledNewArrayRegs_def
    by (intro safe_then_assert safe_class safe_bind [OF t] safe_filled_regs [OF e])
qed

lemma safe_arm_object:
  assumes e: "env_ok env ifs"
  shows "safe (classes env) n (arm_object env meth k i d) (\<lambda>_. True)"
  unfolding arm_object_def Let_def
  by (intro safe_steps safe_new_instance safe_verify_reg [OF env_facts(1) [OF e]] safe_filled_new_array [OF e] TrueI)
    (use env_facts(4) [OF e] in \<open>auto intro: reg_ok_class [OF env_facts(1) [OF e]]\<close>)

lemma safe_arm_compare:
  assumes e: "env_ok env ifs"
  shows "safe (classes env) n (arm_compare env k d) (\<lambda>_. True)"
  unfolding arm_compare_def Let_def by (intro safe_steps safe_verify_reg [OF env_facts(1) [OF e]]) simp_all

lemma safe_arm_throw:
  assumes e: "env_ok env ifs"
  shows "safe (classes env) n (arm_throw env k d) (\<lambda>_. True)"
  unfolding arm_throw_def
  by (intro safe_steps safe_bind [OF safe_lift [OF instance_ends [OF e]]] env_facts(10) [OF e] TrueI)

lemma safe_arm_fill_array: "safe (classes env) n (arm_fill_array env meth k i d) (\<lambda>_. True)"
  unfolding arm_fill_array_def by (intro safe_steps TrueI)

lemma safe_arm_if: "safe ct n (arm_if k d) (\<lambda>_. True)"
  unfolding arm_if_def Let_def by (intro safe_steps TrueI)


lemma reg_ok_narrow [simp]: "reg_ok ct (narrow_type opc)"
  by (simp add: narrow_type_def)

lemma safe_array_index: "safe ct n k (\<lambda>_. True) \<Longrightarrow> safe ct n (array_index m d k) (\<lambda>_. True)"
  unfolding array_index_def checkArrayIndexType_def by (intro safe_steps)

lemma safe_prim_array:
  "(\<And>p. safe (classes env) n (k p) (\<lambda>_. True)) \<Longrightarrow> safe (classes env) n (prim_array env c k) (\<lambda>_. True)"
  unfolding prim_array_def by (intro safe_steps)

lemma safe_wide_source: "safe ct n (wide_source k d) (\<lambda>_. True)"
  unfolding wide_source_def by (intro safe_steps)

lemma safe_narrow_source: "safe ct n m (\<lambda>_. True) \<Longrightarrow> safe ct n (narrow_source k d t m) (\<lambda>_. True)"
  unfolding narrow_source_def by (intro safe_steps)

lemma safe_arm_aget:
  assumes e: "env_ok env ifs"
  shows "safe (classes env) n (arm_aget env k d) (\<lambda>_. True)"
  unfolding arm_aget_def Let_def
  by (intro safe_array_index safe_prim_array safe_steps TrueI reg_ok_class [OF env_facts(1) [OF e]])
    (use env_facts(3,11) [OF e] in \<open>auto simp: class_or_null_def\<close>)

lemma safe_arm_aput: "safe (classes env) n (arm_aput env k d) (\<lambda>_. True)"
  unfolding arm_aput_def Let_def
  by (intro safe_array_index safe_prim_array safe_narrow_source safe_wide_source safe_steps safe_bind [where P = "\<lambda>_. True"] TrueI)

lemma safe_inst:
  assumes e: "env_ok env ifs" and "\<And>f. safe (classes env) n (k f) (\<lambda>_. True)"
  shows "safe (classes env) n (inst_field env meth m d k) (\<lambda>_. True)"
  unfolding inst_field_def by (intro safe_bind [OF safe_inst_field [OF e]] safe_steps assms(2))

lemma safe_static:
  assumes "\<And>f. safe (classes env) n (k f) (\<lambda>_. True)"
  shows "safe (classes env) n (static_field env meth d k) (\<lambda>_. True)"
  unfolding static_field_def getStaticField_def by (intro safe_bind [where P = "\<lambda>_. True"] safe_steps assms TrueI)

lemma safe_field_type: "(\<And>t. safe ct n (k t) (\<lambda>_. True)) \<Longrightarrow> safe ct n (field_type f k) (\<lambda>_. True)"
  unfolding field_type_def by (intro safe_steps)

lemma safe_final: "safe ct n (checkFinalFieldAccess meth f) (\<lambda>_. True)"
  unfolding checkFinalFieldAccess_def by (intro safe_steps TrueI)

lemma uninit_odd: "regTypeIsUninitReference t \<Longrightarrow> t AND 1 = 1"
proof -
  assume "regTypeIsUninitReference t"
  then have "(t AND 0xff) AND 1 = 1 AND 1" by (simp add: regTypeIsUninitReference_def)
  then show "t AND 1 = 1" by (simp add: and.assoc)
qed

lemma safe_object_store:
  assumes e: "env_ok env ifs" and c: "class_or_null (classes env) c" "c \<noteq> 0"
  shows "safe (classes env) n (object_store env k d c) (\<lambda>_. True)"
proof -
  have v: "safe (classes env) n (lift_run (Some (regTypeInitializedReferenceToClass t))) (class_or_null (classes env))"
    if "reg_ok (classes env) t" "t \<noteq> 4" for t
    using reg_reference [OF env_facts(1) [OF e] that(1)] that(2) uninit_odd [of t]
    by (intro safe_lift, cases "regTypeIsUninitReference t")
      (auto simp: ends_with_out regTypeInitializedReferenceToClass_def class_or_null_def split: if_splits)
  show ?thesis
    unfolding object_store_def
    by (intro safe_bind [OF v] safe_bind [OF safe_lift [OF instance_ends [OF e]]] safe_steps TrueI) (use c in \<open>auto simp: class_or_null_def\<close>)
qed

lemmas safe_field_steps = safe_field_type safe_final safe_wide_source safe_narrow_source safe_steps

lemma safe_arm_iget:
  assumes e: "env_ok env ifs"
  shows "safe (classes env) n (arm_iget env meth k d) (\<lambda>_. True)"
  unfolding arm_iget_def Let_def
  by (intro safe_inst [OF e] safe_bind [OF safe_lift [OF getFieldClass_ends [OF e]]] safe_field_steps TrueI)
    (auto intro: reg_ok_class [OF env_facts(1) [OF e]])

lemma safe_arm_iput:
  assumes e: "env_ok env ifs"
  shows "safe (classes env) n (arm_iput env meth k d) (\<lambda>_. True)"
  unfolding arm_iput_def Let_def
  by (intro safe_inst [OF e] safe_bind [OF safe_lift [OF getFieldClass_ends [OF e]]] safe_object_store [OF e] safe_field_steps TrueI)

lemma safe_arm_sget:
  assumes e: "env_ok env ifs"
  shows "safe (classes env) n (arm_sget env meth k d) (\<lambda>_. True)"
  unfolding arm_sget_def Let_def
  by (intro safe_static safe_bind [OF safe_lift [OF getFieldClass_ends [OF e]]] safe_field_steps TrueI)
    (auto intro: reg_ok_class [OF env_facts(1) [OF e]])

lemma safe_arm_sput:
  assumes e: "env_ok env ifs"
  shows "safe (classes env) n (arm_sput env meth k d) (\<lambda>_. True)"
  unfolding arm_sput_def Let_def
  by (intro safe_static safe_bind [OF safe_lift [OF getFieldClass_ends [OF e]]] safe_object_store [OF e] safe_field_steps TrueI)


lemma safe_mark_initialized:
  assumes "hierarchy_ok ct obj ifs arr"
  shows "safe ct n (with_regs (\<lambda>s. Some (markRefsAsInitialized (workRegs s) k (uninitMap s) t (okay s)))) (\<lambda>_. True)"
proof (rule safe_with_regs)
  fix s assume s: "vok ct n s"
  have "line_ok ct n r" if run: "markRefsAsInitialized (workRegs s) k (uninitMap s) t (okay s) = Ret (r, b)" for r b
  proof -
    obtain i p where p: "regTypeToUninitIndex t = Ret i" "dvmGetUninitInstance (uninitMap s) i = Ret p"
      using run by (auto simp: markRefsAsInitialized_def)
    have "class_or_null ct p" using p(2) s getUninit_ok by (auto simp: vok_def)
    then show ?thesis
      using run p s line_ok_replace [of ct n "workRegs s" "regTypeFromClass p" k t] reg_ok_class [OF assms]
      by (auto simp: markRefsAsInitialized_def vok_def split: if_splits)
  qed
  then show "ends_with (Some (markRefsAsInitialized (workRegs s) k (uninitMap s) t (okay s))) (\<lambda>(r, _). line_ok ct n r)"
    by (auto simp: ends_with_out)
qed

lemma safe_invoke_init:
  assumes e: "env_ok env ifs"
  shows "safe (classes env) n (invoke_init env meth k d m) (\<lambda>_. True)"
  unfolding invoke_init_def
  by (intro safe_bind [OF safe_invocation_this] safe_if_okay safe_require safe_reference_class [OF env_facts(1) [OF e]] safe_then_assert
      safe_class safe_if safe_mark_initialized [OF env_facts(1) [OF e]] safe_reject)

lemma safe_arm_invoke:
  assumes e: "env_ok env ifs"
  shows "safe (classes env) n (arm_invoke env meth k d) (\<lambda>_. True)"
  unfolding arm_invoke_def Let_def invoke_result_def
  by (intro safe_bind [OF safe_invocation_args [OF e]] safe_invoke_init [OF e] safe_bind [OF safe_lift [OF getMethodReturnType_ends [OF e]]]
      safe_steps)

lemma safe_boolean_result:
  assumes "safe ct n b (\<lambda>_. True)" and "reg_ok ct t"
  shows "safe ct n (boolean_result t c b k v) (\<lambda>_. True)"
proof -
  have "safe ct n (\<lambda>s. if okay s \<and> c
      then vthen (vassert (t = kRegTypeInteger)) (vbind b (\<lambda>b. set_reg k v (if b then kRegTypeBoolean else t))) s
      else set_reg k v t s) (\<lambda>_. True)"
    by (intro safe_if_state safe_then_assert safe_bind [OF assms(1)] safe_set_reg assms(2)) (simp add: assms(2))
  then show ?thesis unfolding boolean_result_def by simp
qed

lemma safe_upcast: "safe ct n (upcastBooleanOp a b) (\<lambda>_. True)"
  by (simp add: safe_ends upcastBooleanOp_def)

lemma safe_ops:
  assumes h: "hierarchy_ok ct obj ifs arr" and "reg_ok ct t" and "reg_ok ct u" and "reg_ok ct w"
  shows "safe ct n (checkUnop ct k d t u) (\<lambda>_. True)" and "safe ct n (checkLitop ct k d t u c) (\<lambda>_. True)"
    and "safe ct n (checkBinop ct k d t u w c) (\<lambda>_. True)" and "safe ct n (checkBinop2addr ct k d t u w c) (\<lambda>_. True)"
  unfolding checkUnop_def checkLitop_def checkBinop_def checkBinop2addr_def
  by (intro safe_then [OF safe_verify_reg [OF h]] safe_boolean_result safe_set_reg safe_upcast safe_bind [OF safe_upcast] safe_ret assms(2-4) TrueI)+

lemma safe_arith_arms:
  assumes h: "hierarchy_ok ct obj ifs arr"
  shows "safe ct n (arm_unop ct k d) (\<lambda>_. True)" and "safe ct n (arm_binop ct k d) (\<lambda>_. True)"
    and "safe ct n (arm_binop_2addr ct k d) (\<lambda>_. True)" and "safe ct n (arm_litop ct k d) (\<lambda>_. True)"
proof -
  show "safe ct n (arm_unop ct k d) (\<lambda>_. True)"
    unfolding arm_unop_def Let_def by (intro safe_if safe_ops(1) [OF h, where w = 0] reg_ok_small) simp_all
  show "safe ct n (arm_binop ct k d) (\<lambda>_. True)"
    unfolding arm_binop_def Let_def by (intro safe_if safe_ops(3) [OF h] reg_ok_small) simp_all
  show "safe ct n (arm_binop_2addr ct k d) (\<lambda>_. True)"
    unfolding arm_binop_2addr_def Let_def by (intro safe_if safe_ops(4) [OF h] reg_ok_small) simp_all
  show "safe ct n (arm_litop ct k d) (\<lambda>_. True)"
    unfolding arm_litop_def by (intro safe_ops(2) [OF h, where w = 0] reg_ok_small) simp_all
qed

lemma safe_verify_arm:
  assumes e: "env_ok env ifs"
  shows "safe (classes env) n (verify_arm env meth k i d) (\<lambda>_. True)"
  unfolding verify_arm_def Let_def
  by (intro safe_if safe_arm_move [OF e] safe_arm_return [OF e] safe_arm_const [OF e] safe_arm_object [OF e] safe_arm_compare [OF e]
      safe_arm_throw [OF e] safe_ret safe_verify_reg [OF env_facts(1) [OF e]] safe_arm_fill_array safe_arm_if safe_arm_aget [OF e]
      safe_arm_aput safe_arm_iget [OF e] safe_arm_iput [OF e] safe_arm_sget [OF e] safe_arm_sput [OF e] safe_arm_invoke [OF e]
      safe_arith_arms [OF env_facts(1) [OF e]] safe_reject TrueI reg_ok_small)
    simp

text \<open>The whole first half of \<open>verifyInstruction\<close>.\<close>

lemma insn_effect_ends:
  assumes e: "env_ok env ifs" and "line_ok (classes env) (unat (registersSize meth)) regs" and "map_ok (classes env) um"
  shows "ends_with (insn_effect env meth i d regs um) (\<lambda>(r, um').
    map_ok (classes env) um' \<and> map_le um um' \<and> (\<forall>regs'. r = Some regs' \<longrightarrow> line_ok (classes env) (unat (registersSize meth)) regs'))"
proof -
  let ?n = "unat (registersSize meth)" and ?ct = "classes env"
  let ?s = "\<lparr>workRegs = regs, uninitMap = um, okay = True, justSetResult = False\<rparr>"
  have unknown: "reg_ok ?ct kRegTypeUnknown" by simp
  have clear: "ends_with (clear_result ?n s) (line_ok ?ct ?n)" if "vok ?ct ?n s" for s
    using that unfolding clear_result_def vok_def
    by (auto simp: ends_with_out intro!: ends_with_bind_out elim: store_line [OF store_line [OF _ unknown] unknown])
  have "vok ?ct ?n ?s" using assms by (simp add: vok_def)
  note arm = safe_verify_arm [OF e, of ?n meth ?n i d, unfolded safe_ends, rule_format, OF this]
  show ?thesis
    unfolding insn_effect_def Let_def
    by (rule ends_with_bind [OF arm]) (auto simp: vok_def intro!: ends_with_bind [OF clear] split: prod.splits)
qed

end
