(* ===== verification/VerifyFlow.thy ===== *)
theory VerifyFlow
  imports VerifySafe
begin

text \<open>
  The data-flow pass of the bytecode verifier, the rest of \<^verbatim>\<open>src/vm/analysis/CodeVerify.c\<close> and the entry points of
  \<^verbatim>\<open>src/vm/analysis/DexVerify.c\<close>: merging registers into the successors of an instruction, the loop over the
  instructions that are marked as changed, and the verification of a method and a class. That the loop
  ends, and that the registers it has computed type the methods it accepts, is shown in the theories \<open>VerifySound\<close>, \<open>VerifyLoop\<close> and
  \<open>VerifyTyping\<close>.
\<close>

section \<open>The table of registers\<close>

text \<open>A line of registers for each address, \<open>None\<close> where \<open>addrRegs\<close> has no line.\<close>

type_synonym RegisterTable = "RegType list option list"

record flow =
  flowFlags :: "InsnFlags list"
  regTable :: RegisterTable
  flowRegs :: "RegType list"
  flowMap :: UninitInstanceMap
  startGuess :: int

datatype RegisterTrackingMode = kTrackRegsBranches | kTrackRegsGcPoints | kTrackRegsAll

definition interesting :: "RegisterTrackingMode \<Rightarrow> InsnFlags \<Rightarrow> bool" where
  "interesting trackRegsFor w =
     (case trackRegsFor of
        kTrackRegsAll \<Rightarrow> w AND kInsnFlagWidthMask \<noteq> 0
      | kTrackRegsGcPoints \<Rightarrow> w AND kInsnFlagGcPoint \<noteq> 0 \<or> w AND kInsnFlagBranchTarget \<noteq> 0
      | kTrackRegsBranches \<Rightarrow> w AND kInsnFlagBranchTarget \<noteq> 0)"

text \<open>The storage is cleared, so all registers start as unknown; the method has code, and its first instruction a line.\<close>

definition initRegisterTable :: "Method \<Rightarrow> InsnFlags list \<Rightarrow> RegisterTrackingMode \<Rightarrow> RegisterTable outcome" where
  "initRegisterTable meth insnFlags trackRegsFor =
     (if \<not> dvmGetMethodInsnsSize meth > 0 then AbortVM
      else if length insnFlags < length (insns meth) then OutOfBounds
      else
        let tab = map (\<lambda>w. if interesting trackRegsFor w then Some (replicate (unat (registersSize meth) + kExtraRegs) kRegTypeUnknown) else None)
                    (take (length (insns meth)) insnFlags)
        in if hd tab = None then AbortVM else Ret tab)"

definition getRegisterLine :: "RegisterTable \<Rightarrow> int \<Rightarrow> RegType list option outcome" where
  "getRegisterLine tab insnIdx = (case read_at tab insnIdx of None \<Rightarrow> OutOfBounds | Some l \<Rightarrow> Ret l)"

text \<open>The flags and the table after control can transfer to \<open>nextInsn\<close> with \<open>regs\<close>; where there is no line, a null pointer is followed.\<close>

definition updateRegisters ::
  "verify_env \<Rightarrow> InsnFlags list \<Rightarrow> RegisterTable \<Rightarrow> int \<Rightarrow> RegType list \<Rightarrow> (InsnFlags list \<times> RegisterTable) run" where
  "updateRegisters env fs tab nextInsn regs =
     bind_run (Some (getRegisterLine tab nextInsn)) (\<lambda>line.
     bind_run (Some (dvmInsnIsVisitedOrChanged fs nextInsn)) (\<lambda>seen. case line of
        None \<Rightarrow> Some OutOfBounds
      | Some targetRegs \<Rightarrow>
          if \<not> seen then bind_run (Some (dvmInsnSetChanged fs nextInsn True)) (\<lambda>fs. ret (fs, tab[nat nextInsn := Some regs]))
          else bind_run (merge_lines (mergeTypes (classes env) (findArrayClassForElement env)) targetRegs regs False) (\<lambda>(rs, changed).
            bind_run (Some (if changed then dvmInsnSetChanged fs nextInsn True else Ret fs)) (\<lambda>fs. ret (fs, tab[nat nextInsn := Some rs])))))"

section \<open>One instruction\<close>

text \<open>
  The second half of \<open>verifyInstruction\<close>: where control can go from \<open>insnIdx\<close>, one definition for each way; \<open>None\<close> rejects the
  method. The flags and the table are passed along.
\<close>

type_synonym flow_op = "InsnFlags list \<times> RegisterTable \<Rightarrow> (InsnFlags list \<times> RegisterTable) option run"

definition flow_then :: "flow_op \<Rightarrow> flow_op \<Rightarrow> flow_op" where
  "flow_then m k ft = bind_run (m ft) (\<lambda>r. case r of None \<Rightarrow> ret None | Some ft \<Rightarrow> k ft)"

definition flow_into :: "verify_env \<Rightarrow> int \<Rightarrow> RegType list \<Rightarrow> flow_op" where
  "flow_into env nextInsn regs = (\<lambda>(fs, tab). bind_run (updateRegisters env fs tab nextInsn regs) (\<lambda>ft. ret (Some ft)))"

definition flow_checked :: "verify_env \<Rightarrow> Method \<Rightarrow> int \<Rightarrow> RegType list \<Rightarrow> flow_op" where
  "flow_checked env meth nextInsn regs ft =
     bind_run (Some (checkMoveException meth nextInsn)) (\<lambda>b. if \<not> b then ret None else flow_into env nextInsn regs ft)"

definition flow_continue :: "verify_env \<Rightarrow> Method \<Rightarrow> int \<Rightarrow> RegType list \<Rightarrow> flow_op" where
  "flow_continue env meth insnIdx regs = (\<lambda>(fs, tab).
     bind_run (Some (dvmInsnGetWidth fs insnIdx)) (\<lambda>insnWidth.
       if insnIdx + insnWidth \<ge> dvmGetMethodInsnsSize meth then ret None
       else bind_run (Some (checkMoveException meth (insnIdx + insnWidth))) (\<lambda>b.
         if \<not> b then ret None
         else bind_run (Some (getRegisterLine tab (insnIdx + insnWidth))) (\<lambda>line.
           if line \<noteq> None then flow_into env (insnIdx + insnWidth) regs (fs, tab)
           else bind_run (Some (dvmInsnSetChanged fs (insnIdx + insnWidth) True)) (\<lambda>fs. ret (Some (fs, tab)))))))"

definition flow_branch :: "verify_env \<Rightarrow> Method \<Rightarrow> int \<Rightarrow> bool \<Rightarrow> RegType list \<Rightarrow> flow_op" where
  "flow_branch env meth insnIdx canContinue regs ft =
     bind_run (Some (dvmGetBranchTarget meth insnIdx)) (\<lambda>t. case t of
        None \<Rightarrow> ret None
      | Some (branchTarget, isConditional) \<Rightarrow>
          if isConditional \<noteq> canContinue then Some AbortVM
          else flow_checked env meth (insnIdx + branchTarget) regs ft)"

fun flow_targets :: "verify_env \<Rightarrow> Method \<Rightarrow> int \<Rightarrow> int \<Rightarrow> nat \<Rightarrow> RegType list \<Rightarrow> flow_op" where
  "flow_targets env meth insnIdx pos 0 regs ft = ret (Some ft)"
| "flow_targets env meth insnIdx pos (Suc k) regs ft =
     bind_run (Some (s4_at meth pos)) (\<lambda>offset.
       if \<not> (insnIdx + offset \<ge> 0 \<and> insnIdx + offset < dvmGetMethodInsnsSize meth) then Some AbortVM
       else flow_then (flow_checked env meth (insnIdx + offset) regs) (flow_targets env meth insnIdx (pos + 2) k regs) ft)"

text \<open>Unlike the static pass this reads the full 32-bit offset of the switch table.\<close>

definition flow_switch :: "verify_env \<Rightarrow> Method \<Rightarrow> int \<Rightarrow> RegType list \<Rightarrow> flow_op" where
  "flow_switch env meth insnIdx regs ft =
     bind_run (Some (unit_at meth insnIdx)) (\<lambda>w.
     bind_run (Some (s4_at meth (insnIdx + 1))) (\<lambda>offsetToSwitch.
     bind_run (Some (unit_at meth (insnIdx + offsetToSwitch + 1))) (\<lambda>switchCount.
       if INST_INST w = OP_PACKED_SWITCH
       then flow_targets env meth insnIdx (insnIdx + offsetToSwitch + 4) (unat switchCount) regs ft
       else if INST_INST w \<noteq> OP_SPARSE_SWITCH then Some AbortVM
       else flow_targets env meth insnIdx (insnIdx + offsetToSwitch + 2 + 2 * uint switchCount) (unat switchCount) regs ft)))"

fun flow_handlers :: "verify_env \<Rightarrow> DexCatchHandler list \<Rightarrow> RegType list \<Rightarrow> flow_op" where
  "flow_handlers env [] entryRegs ft = ret (Some ft)"
| "flow_handlers env (h # hs) entryRegs ft = flow_then (flow_into env (sint (address h)) entryRegs) (flow_handlers env hs entryRegs) ft"

definition flow_throw :: "verify_env \<Rightarrow> Method \<Rightarrow> int \<Rightarrow> RegType list \<Rightarrow> flow_op" where
  "flow_throw env meth insnIdx entryRegs ft =
     bind_run (Some (dexFindCatchHandler (pCode meth) (word_of_int insnIdx))) (\<lambda>it. case it of
        None \<Rightarrow> ret (Some ft)
      | Some it \<Rightarrow> bind_run (Some (catch_handlers (pCode meth) it)) (\<lambda>(hs, _). flow_handlers env hs entryRegs ft))"

definition can :: "InstructionFlags \<Rightarrow> InstructionFlags \<Rightarrow> bool" where
  "can flag nextFlags \<longleftrightarrow> nextFlags AND flag \<noteq> 0"

definition flow_all :: "verify_env \<Rightarrow> Method \<Rightarrow> int \<Rightarrow> InstructionFlags \<Rightarrow> bool \<Rightarrow> RegType list \<Rightarrow> RegType list \<Rightarrow> flow_op" where
  "flow_all env meth insnIdx nextFlags inTry entryRegs regs =
     flow_then (if can kInstrCanContinue nextFlags then flow_continue env meth insnIdx regs else (\<lambda>ft. ret (Some ft)))
    (flow_then (if can kInstrCanBranch nextFlags then flow_branch env meth insnIdx (can kInstrCanContinue nextFlags) regs else (\<lambda>ft. ret (Some ft)))
    (flow_then (if can kInstrCanSwitch nextFlags then flow_switch env meth insnIdx regs else (\<lambda>ft. ret (Some ft)))
      (if inTry then flow_throw env meth insnIdx entryRegs else (\<lambda>ft. ret (Some ft)))))"

text \<open>The next guess: the next instruction, or the target of a branch, or as before.\<close>

definition next_guess :: "Method \<Rightarrow> InsnFlags list \<Rightarrow> int \<Rightarrow> InstructionFlags \<Rightarrow> int \<Rightarrow> int outcome" where
  "next_guess meth fs insnIdx nextFlags guess =
     (if can kInstrCanContinue nextFlags then bind_out (dvmInsnGetWidth fs insnIdx) (\<lambda>w. Ret (insnIdx + w))
      else if can kInstrCanBranch nextFlags then
        bind_out (dvmGetBranchTarget meth insnIdx) (\<lambda>t. case t of None \<Rightarrow> Ret insnIdx | Some (branchTarget, _) \<Rightarrow> Ret (insnIdx + branchTarget))
      else Ret guess)"

definition verifyInstruction :: "verify_env \<Rightarrow> Method \<Rightarrow> int \<Rightarrow> flow \<Rightarrow> flow option run" where
  "verifyInstruction env meth insnIdx st =
     bind_run (Some (decodeInstruction meth insnIdx)) (\<lambda>d.
       let nextFlags = dexGetInstrFlags gDvm_instrFlags (opCode d) in
       bind_run (Some (if can kInstrCanThrow nextFlags then dvmInsnIsInTry (flowFlags st) insnIdx else Ret False)) (\<lambda>inTry.
       bind_run (insn_effect env meth insnIdx d (flowRegs st) (flowMap st)) (\<lambda>(res, um). case res of
          None \<Rightarrow> ret None
        | Some regs \<Rightarrow>
            bind_run (flow_all env meth insnIdx nextFlags inTry (flowRegs st) regs (flowFlags st, regTable st)) (\<lambda>r. case r of
               None \<Rightarrow> ret None
             | Some (fs, tab) \<Rightarrow>
                 bind_run (Some (next_guess meth fs insnIdx nextFlags (startGuess st))) (\<lambda>guess.
                   if \<not> (guess \<ge> 0 \<and> guess < dvmGetMethodInsnsSize meth) then Some AbortVM
                   else bind_run (Some (dvmInsnGetWidth fs guess)) (\<lambda>w.
                     if w = 0 then Some AbortVM
                     else ret (Some \<lparr>flowFlags = fs, regTable = tab, flowRegs = regs, flowMap = um, startGuess = guess\<rparr>)))))))"

section \<open>The loop\<close>

function find_changed :: "InsnFlags list \<Rightarrow> int \<Rightarrow> int \<Rightarrow> int outcome" where
  "find_changed fs insnIdx insnsSize =
     (if insnIdx \<ge> insnsSize then Ret insnIdx
      else bind_out (dvmInsnIsChanged fs insnIdx) (\<lambda>b. if b then Ret insnIdx else find_changed fs (insnIdx + 1) insnsSize))"
  by pat_completeness auto
termination
  by (relation "measure (\<lambda>(_, i, size). nat (size - i))") auto

declare find_changed.simps [simp del]

text \<open>The working registers for the instruction at \<open>insnIdx\<close>, and the step from one changed instruction to the next state.\<close>

definition load_registers :: "flow \<Rightarrow> int \<Rightarrow> flow run" where
  "load_registers st insnIdx =
     bind_run (Some (dvmInsnIsBranchTarget (flowFlags st) insnIdx)) (\<lambda>b.
       if \<not> b then ret st
       else bind_run (Some (getRegisterLine (regTable st) insnIdx)) (\<lambda>line. case line of
          None \<Rightarrow> Some AbortVM
        | Some insnRegs \<Rightarrow> ret (st\<lparr>flowRegs := insnRegs\<rparr>)))"

definition mark_visited :: "InsnFlags list \<Rightarrow> int \<Rightarrow> InsnFlags list outcome" where
  "mark_visited fs insnIdx = bind_out (dvmInsnSetVisited fs insnIdx True) (\<lambda>fs. dvmInsnSetChanged fs insnIdx False)"

definition process_insn :: "verify_env \<Rightarrow> Method \<Rightarrow> int \<Rightarrow> flow \<Rightarrow> flow option run" where
  "process_insn env meth insnIdx st =
     bind_run (load_registers st insnIdx) (\<lambda>st.
     bind_run (verifyInstruction env meth insnIdx st) (\<lambda>r. case r of
        None \<Rightarrow> ret None
      | Some st \<Rightarrow> bind_run (Some (mark_visited (flowFlags st) insnIdx)) (\<lambda>fs. ret (Some (st\<lparr>flowFlags := fs\<rparr>)))))"

partial_function (option) code_loop :: "verify_env \<Rightarrow> Method \<Rightarrow> flow \<Rightarrow> flow option outcome option" where
  "code_loop env meth st =
     (case find_changed (flowFlags st) (startGuess st) (dvmGetMethodInsnsSize meth) of
        AbortVM \<Rightarrow> Some AbortVM
      | OutOfBounds \<Rightarrow> Some OutOfBounds
      | Ret insnIdx \<Rightarrow>
          if insnIdx = dvmGetMethodInsnsSize meth then
            if startGuess st \<noteq> 0 then code_loop env meth (st\<lparr>startGuess := 0\<rparr>) else Some (Ret (Some st))
          else case process_insn env meth insnIdx st of
            None \<Rightarrow> None
          | Some AbortVM \<Rightarrow> Some AbortVM
          | Some OutOfBounds \<Rightarrow> Some OutOfBounds
          | Some (Ret None) \<Rightarrow> Some (Ret None)
          | Some (Ret (Some st)) \<Rightarrow> code_loop env meth st)"

declare code_loop.simps [code]

text \<open>
  The scan for dead code, which marks the data tables and their padding as visited; a \<open>nop\<close> at the end of the code makes it
  read one unit behind the end, and an instruction without width keeps it where it is forever.
\<close>

definition is_table :: "u2 \<Rightarrow> bool" where
  "is_table w \<longleftrightarrow> w = kPackedSwitchSignature \<or> w = kSparseSwitchSignature \<or> w = kArrayDataSignature"

function dead_scan :: "Method \<Rightarrow> InsnFlags list \<Rightarrow> int \<Rightarrow> InsnFlags list run" where
  "dead_scan meth fs insnIdx =
     (if insnIdx \<ge> dvmGetMethodInsnsSize meth then ret fs
      else
        bind_run (Some (unit_at meth insnIdx)) (\<lambda>instr.
        bind_run (if is_table instr then ret True
                  else if instr = 0 then bind_run (Some (unit_at meth (insnIdx + 1))) (\<lambda>w. ret (is_table w))
                  else ret False) (\<lambda>t.
        bind_run (Some (if t then dvmInsnSetVisited fs insnIdx True else Ret fs)) (\<lambda>fs.
        bind_run (Some (dvmInsnGetWidth fs insnIdx)) (\<lambda>w.
          if w \<le> 0 then None else dead_scan meth fs (insnIdx + w))))))"
  by pat_completeness auto
termination
  by (relation "measure (\<lambda>(meth, _, i). nat (dvmGetMethodInsnsSize meth - i))") auto

declare dead_scan.simps [simp del]

text \<open>\<open>junk\<close> is what the array \<open>workRegs\<close> holds at first.\<close>

definition doCodeVerification ::
  "verify_env \<Rightarrow> Method \<Rightarrow> RegType list \<Rightarrow> InsnFlags list \<Rightarrow> RegisterTable \<Rightarrow> UninitInstanceMap \<Rightarrow> flow option run" where
  "doCodeVerification env meth junk insnFlags tab um =
     bind_run (Some (dvmInsnSetChanged insnFlags 0 True)) (\<lambda>fs.
     bind_run (code_loop env meth \<lparr>flowFlags = fs, regTable = tab, flowRegs = junk, flowMap = um, startGuess = 0\<rparr>) (\<lambda>r. case r of
        None \<Rightarrow> ret None
      | Some st \<Rightarrow> bind_run (dead_scan meth (flowFlags st) 0) (\<lambda>fs. ret (Some (st\<lparr>flowFlags := fs\<rparr>)))))"


section \<open>Methods and classes\<close>

text \<open>The addresses of the \<open>new-instance\<close> instructions from \<open>addr\<close> on.\<close>

function new_instance_addrs :: "Method \<Rightarrow> InsnFlags list \<Rightarrow> int \<Rightarrow> int list run" where
  "new_instance_addrs meth fs addr =
     (if addr \<ge> dvmGetMethodInsnsSize meth then ret []
      else
        bind_run (Some (dvmInsnGetWidth fs addr)) (\<lambda>width.
        bind_run (Some (unit_at meth addr)) (\<lambda>w.
          if width \<le> 0 then None
          else bind_run (new_instance_addrs meth fs (addr + width)) (\<lambda>rest.
            ret (if INST_INST w = OP_NEW_INSTANCE then addr # rest else rest)))))"
  by pat_completeness auto
termination
  by (relation "measure (\<lambda>(meth, _, i). nat (dvmGetMethodInsnsSize meth - i))") auto

declare new_instance_addrs.simps [simp del]

definition dvmCreateUninitInstanceMap :: "Method \<Rightarrow> InsnFlags list \<Rightarrow> int \<Rightarrow> UninitInstanceMap run" where
  "dvmCreateUninitInstanceMap meth fs newInstanceCount =
     bind_run (new_instance_addrs meth fs 0) (\<lambda>addrs.
       let entries = (if isInitMethod meth then [kUninitThisArgAddr] else []) @ addrs;
           count = (if isInitMethod meth then newInstanceCount + 1 else newInstanceCount)
       in if int (length entries) > count then Some OutOfBounds
          else if int (length entries) \<noteq> count then Some AbortVM
          else ret (map (\<lambda>a. (a, 0)) entries))"

text \<open>
  \<open>alloc k\<close> tells whether the \<open>k\<close>-th allocation is granted. The system classes are those of the environment; the register map that can be generated
  at the end is not part of the result.
\<close>

definition dvmVerifyCodeFlow ::
  "verify_env \<Rightarrow> (nat \<Rightarrow> bool) \<Rightarrow> bool \<Rightarrow> Method \<Rightarrow> RegType list \<Rightarrow> InsnFlags list \<Rightarrow> UninitInstanceMap \<Rightarrow> flow option run" where
  "dvmVerifyCodeFlow env alloc generateRegisterMap meth junk insnFlags um =
     bind_run (Some checkMergeTab) (\<lambda>_.
       if sint (word_of_int (uint (registersSize meth) * dvmGetMethodInsnsSize meth) :: u4) > 2 * 1024 * 1024 then ret None
       else if \<not> alloc 2 \<or> \<not> alloc 3 then ret None
       else bind_run (Some (initRegisterTable meth insnFlags (if generateRegisterMap then kTrackRegsGcPoints else kTrackRegsBranches))) (\<lambda>tab.
         bind_run (setTypesFromSignature env meth (the (hd tab)) um) (\<lambda>(b, line, um).
           if \<not> b then ret None
           else doCodeVerification env meth junk insnFlags (tab[0 := Some line]) um)))"

definition verifyMethod :: "verify_env \<Rightarrow> (nat \<Rightarrow> bool) \<Rightarrow> bool \<Rightarrow> bool \<Rightarrow> RegType list \<Rightarrow> Method \<Rightarrow> bool run" where
  "verifyMethod env alloc generateRegisterMap allowOpt junk meth =
     (if dvmGetMethodInsnsSize meth = 0 then ret (dvmIsNativeMethod meth \<or> dvmIsAbstractMethod meth)
      else if insSize meth > registersSize meth then ret False
      else if \<not> alloc 0 then ret False
      else bind_run (dvmComputeCodeWidths meth (replicate (length (insns meth)) 0)) (\<lambda>(b, fs, newInstanceCount).
        if \<not> b then ret False
        else if \<not> alloc 1 then ret False
        else bind_run (dvmCreateUninitInstanceMap meth fs newInstanceCount) (\<lambda>um.
          bind_run (Some (dvmSetTryFlags meth fs)) (\<lambda>(b, fs).
            if \<not> b then ret False
            else bind_run (Some (verifyInstructions env meth allowOpt fs)) (\<lambda>(b, fs).
              if \<not> b then ret False
              else bind_run (dvmVerifyCodeFlow env alloc generateRegisterMap meth junk fs um) (\<lambda>r. ret (r \<noteq> None)))))))"

fun verify_methods :: "(Method \<Rightarrow> bool run) \<Rightarrow> Method list \<Rightarrow> bool run" where
  "verify_methods verify [] = ret True"
| "verify_methods verify (m # ms) = bind_run (verify m) (\<lambda>b. if \<not> b then ret False else verify_methods verify ms)"

definition dvmVerifyClass :: "(Method \<Rightarrow> bool run) \<Rightarrow> bool \<Rightarrow> Method list \<Rightarrow> Method list \<Rightarrow> bool run" where
  "dvmVerifyClass verify isVerified directMethods virtualMethods =
     (if isVerified then ret True
      else bind_run (verify_methods verify directMethods) (\<lambda>b.
        if \<not> b then ret False else verify_methods verify virtualMethods))"

end
