(* ===== verification/VerifySound.thy ===== *)
theory VerifySound
  imports VerifyFlow
begin

text \<open>
  Correctness of the data-flow pass: the loop ends, and the registers it has computed when it accepts a method type the method. Both
  rest on how the flags and the lines of registers evolve: a line only grows in the order of the register types, and an instruction is marked
  as changed whenever its line grows.
\<close>

section \<open>Flags\<close>

definition is_changed :: "InsnFlags \<Rightarrow> bool" where "is_changed w \<longleftrightarrow> bit w 31"
definition is_visited :: "InsnFlags \<Rightarrow> bool" where "is_visited w \<longleftrightarrow> bit w 30"
definition is_target :: "InsnFlags \<Rightarrow> bool" where "is_target w \<longleftrightarrow> bit w 17"

abbreviation touched :: "InsnFlags \<Rightarrow> bool" where "touched w \<equiv> is_visited w \<or> is_changed w"

lemma and_nonzero: "w AND v \<noteq> 0 \<longleftrightarrow> (\<exists>i. bit w i \<and> bit v i)" for w v :: u4
proof -
  have "i < 32" if "bit w i" for i using bit_imp_le_length [OF that] by simp
  then show ?thesis by (auto simp: bit_eq_iff bit_and_iff)
qed

lemma flag_words:
  "w AND kInsnFlagChanged \<noteq> 0 \<longleftrightarrow> is_changed w" "w AND (kInsnFlagVisited OR kInsnFlagChanged) \<noteq> 0 \<longleftrightarrow> touched w"
  "w AND kInsnFlagBranchTarget \<noteq> 0 \<longleftrightarrow> is_target w"
  unfolding and_nonzero by (auto simp: bit_or_iff flag_bit_iff is_changed_def is_visited_def is_target_def)

text \<open>Marking an instruction as changed, and as visited when it has been processed.\<close>

abbreviation mark_changed :: "InsnFlags \<Rightarrow> InsnFlags" where "mark_changed w \<equiv> w OR kInsnFlagChanged"
abbreviation processed :: "InsnFlags \<Rightarrow> InsnFlags" where "processed w \<equiv> (w OR kInsnFlagVisited) AND NOT kInsnFlagChanged"

text \<open>What the pass never changes: the widths, the targets and the instructions in \<open>try\<close> blocks.\<close>

definition static_part :: "InsnFlags \<Rightarrow> InsnFlags" where
  "static_part w = w AND NOT (kInsnFlagVisited OR kInsnFlagChanged)"

lemma insn_flag_bits [simp]:
  "is_changed (mark_changed w)" "is_visited (mark_changed w) = is_visited w" "static_part (mark_changed w) = static_part w"
  "\<not> is_changed (processed w)" "is_visited (processed w)" "static_part (processed w) = static_part w"
  by (auto simp: is_changed_def is_visited_def static_part_def flag_bit_iff bit_and_iff bit_or_iff bit_not_iff intro!: bit_word_eqI)

lemma static_part_facts:
  assumes "static_part w = static_part v"
  shows "is_target w = is_target v" and "w AND kInsnFlagWidthMask = v AND kInsnFlagWidthMask" and "w AND kInsnFlagInTry = v AND kInsnFlagInTry"
proof -
  have b: "bit w k = bit v k" if "k < 30" for k
  proof -
    have "bit (static_part w) k = bit (static_part v) k" using assms by simp
    then show ?thesis using that by (simp add: static_part_def flag_bit_iff bit_and_iff bit_or_iff bit_not_iff)
  qed
  show "is_target w = is_target v" using b by (simp add: is_target_def)
  show "w AND kInsnFlagWidthMask = v AND kInsnFlagWidthMask" "w AND kInsnFlagInTry = v AND kInsnFlagInTry"
    using b by (auto simp: flag_bit_iff bit_and_iff intro!: bit_word_eqI)
qed


section \<open>How the table evolves\<close>

definition line_le :: "verify_env \<Rightarrow> u8 set \<Rightarrow> RegType list \<Rightarrow> RegType list \<Rightarrow> bool" where
  "line_le env ifs a b \<longleftrightarrow> list_all2 (reg_le (classes env) (classJavaLangObject env) ifs) a b"

abbreviation verify_types_of :: "verify_env \<Rightarrow> u8 set \<Rightarrow> verify_types" where
  "verify_types_of env ifs \<equiv> (classes env, classJavaLangObject env, ifs, findArrayClassForElement env)"

lemma line_le_refl [simp]: "line_le env ifs a a"
  using regs.lines_refl [where e = "verify_types_of env ifs"] by (simp add: line_le_def)

lemma line_le_trans: "env_ok env ifs \<Longrightarrow> line_le env ifs a b \<Longrightarrow> line_le env ifs b c \<Longrightarrow> line_le env ifs a c"
  using regs.lines_trans [where e = "verify_types_of env ifs"] env_facts(1) by (simp add: line_le_def)

lemma line_le_antisym: "env_ok env ifs \<Longrightarrow> line_le env ifs a b \<Longrightarrow> line_le env ifs b a \<Longrightarrow> a = b"
  using regs.lines_antisym [where e = "verify_types_of env ifs"] env_facts(1) by (simp add: line_le_def)

text \<open>
  The flags and the line of one address, before and after: a line of an instruction that has been reached grows; what is not marked as changed in the
  end has not changed at all; and a mark on an instruction that has a line is new only if the line is new or has grown.
\<close>

fun cell_le :: "verify_env \<Rightarrow> u8 set \<Rightarrow> InsnFlags \<times> RegType list option \<Rightarrow> InsnFlags \<times> RegType list option \<Rightarrow> bool" where
  "cell_le env ifs (w, l) (w', l') \<longleftrightarrow>
     (w' = w \<or> w' = mark_changed w) \<and> (l' = None \<longleftrightarrow> l = None)
     \<and> (\<forall>a b. touched w \<and> l = Some a \<and> l' = Some b \<longrightarrow> line_le env ifs a b)
     \<and> (\<not> is_changed w' \<longrightarrow> l' = l \<and> w' = w)
     \<and> (w' \<noteq> w \<and> l \<noteq> None \<longrightarrow> \<not> touched w \<or> l' \<noteq> l)
     \<and> (\<not> touched w' \<longrightarrow> l' = l)"

lemma cell_le_refl [simp]: "cell_le env ifs c c"
  by (cases c) auto

lemma mark_changed_twice [simp]: "mark_changed (mark_changed w) = mark_changed w"
  by (simp add: or.assoc)

lemma cell_le_trans:
  assumes "env_ok env ifs" and "cell_le env ifs a b" and "cell_le env ifs b c"
  shows "cell_le env ifs a c"
proof -
  obtain w l where a: "a = (w, l)" by (cases a)
  obtain w' l' where b: "b = (w', l')" by (cases b)
  obtain w'' l'' where c: "c = (w'', l'')" by (cases c)
  have ab: "cell_le env ifs (w, l) (w', l')" and bc: "cell_le env ifs (w', l') (w'', l'')" using assms(2,3) by (simp_all only: a b c)
  have flags: "w'' = w \<or> w'' = mark_changed w" using ab bc by auto
  have none: "l'' = None \<longleftrightarrow> l = None" using ab bc by simp
  have le: "line_le env ifs x z" if tx: "touched w" "l = Some x" "l'' = Some z" for x z
  proof -
    obtain y where y: "l' = Some y" using tx(2) ab by (cases l') auto
    have "touched w'" using ab tx(1) by auto
    then show ?thesis using ab bc tx y line_le_trans [OF assms(1)] by auto
  qed
  have same: "l'' = l \<and> w'' = w" if "\<not> is_changed w''"
  proof -
    have "l'' = l' \<and> w'' = w'" using bc that by simp
    then show ?thesis using ab that by simp
  qed
  have new: "\<not> touched w \<or> l'' \<noteq> l" if w2: "w'' \<noteq> w" and some: "l \<noteq> None"
  proof (rule ccontr)
    assume "\<not> ?thesis"
    then have t: "touched w" and eq: "l'' = l" by simp_all
    obtain x where x: "l = Some x" using some by auto
    obtain y where y: "l' = Some y" using x ab by (cases l') auto
    have "touched w'" using ab t by auto
    then have "line_le env ifs x y" "line_le env ifs y x" using ab bc t x y eq by auto
    then have "l' = l" using line_le_antisym [OF assms(1)] x y by blast
    then have "w' = w" using ab t some by auto
    then have "w'' \<noteq> w'" using w2 by simp
    then show False using bc \<open>touched w'\<close> \<open>l' = l\<close> eq some by auto
  qed
  have "l'' = l" if "\<not> touched w''"
  proof -
    have "l'' = l'" using bc that by simp
    moreover have "\<not> touched w'" using bc that by auto
    ultimately show ?thesis using ab by simp
  qed
  then show ?thesis unfolding a c cell_le.simps using flags none le same new by blast
qed

definition flow_le :: "verify_env \<Rightarrow> u8 set \<Rightarrow> InsnFlags list \<times> RegisterTable \<Rightarrow> InsnFlags list \<times> RegisterTable \<Rightarrow> bool" where
  "flow_le env ifs = (\<lambda>(fs, tab) (fs', tab').
     length fs' = length fs \<and> length tab' = length tab \<and> length tab = length fs \<and>
     (\<forall>i<length fs. cell_le env ifs (fs ! i, tab ! i) (fs' ! i, tab' ! i)))"

lemma flow_le_trans: "env_ok env ifs \<Longrightarrow> flow_le env ifs a b \<Longrightarrow> flow_le env ifs b c \<Longrightarrow> flow_le env ifs a c"
  unfolding flow_le_def by (cases a; cases b; cases c) (auto intro: cell_le_trans simp del: cell_le.simps)

lemma flow_leD:
  assumes "flow_le env ifs (fs, tab) (fs', tab')"
  shows "length fs' = length fs" and "length tab' = length fs" and "length tab = length fs"
    and "0 \<le> j \<Longrightarrow> j < int (length fs) \<Longrightarrow> cell_le env ifs (fs ! nat j, tab ! nat j) (fs' ! nat j, tab' ! nat j)"
proof -
  show "length fs' = length fs" "length tab' = length fs" "length tab = length fs" using assms by (simp_all add: flow_le_def)
  assume "0 \<le> j" "j < int (length fs)"
  then have "nat j < length fs" by (simp add: nat_less_iff)
  then show "cell_le env ifs (fs ! nat j, tab ! nat j) (fs' ! nat j, tab' ! nat j)" using assms by (simp add: flow_le_def del: cell_le.simps)
qed

definition tab_ok :: "verify_env \<Rightarrow> Method \<Rightarrow> RegisterTable \<Rightarrow> bool" where
  "tab_ok env meth tab \<longleftrightarrow> (\<forall>l. Some l \<in> set tab \<longrightarrow> line_ok (classes env) (unat (registersSize meth)) l)"

text \<open>Control has been recorded to reach \<open>j\<close> with \<open>regs\<close>: the line at \<open>j\<close> covers them.\<close>

definition reaches :: "verify_env \<Rightarrow> u8 set \<Rightarrow> RegType list \<Rightarrow> int \<Rightarrow> InsnFlags list \<times> RegisterTable \<Rightarrow> bool" where
  "reaches env ifs regs j = (\<lambda>(fs, tab). 0 \<le> j \<and> j < int (length fs) \<and> touched (fs ! nat j) \<and>
     (\<exists>l. tab ! nat j = Some l \<and> line_le env ifs regs l))"

lemma flow_reaches_mono:
  assumes "env_ok env ifs" and "flow_le env ifs ft ft'" and "reaches env ifs regs j ft"
  shows "reaches env ifs regs j ft'"
proof -
  obtain fs tab where ft: "ft = (fs, tab)" by (cases ft)
  obtain fs' tab' where ft': "ft' = (fs', tab')" by (cases ft')
  obtain l where j: "0 \<le> j" "j < int (length fs)" and t: "touched (fs ! nat j)" and l: "tab ! nat j = Some l" "line_le env ifs regs l"
    using assms(3) by (auto simp: reaches_def ft)
  note le = flow_leD [OF assms(2) [unfolded ft ft']]
  have c: "cell_le env ifs (fs ! nat j, Some l) (fs' ! nat j, tab' ! nat j)" and len: "length fs' = length fs"
    using le(4) [OF j] le(1) by (simp_all only: l(1))
  then obtain l' where l': "tab' ! nat j = Some l'" by (cases "tab' ! nat j") auto
  have "line_le env ifs l l'" "touched (fs' ! nat j)" using c t l' by auto
  then show ?thesis using j len l l' line_le_trans [OF assms(1)] by (auto simp: reaches_def ft')
qed


lemma set_changed:
  "dvmInsnSetChanged fs j True = Ret fs' \<longleftrightarrow> 0 \<le> j \<and> j < int (length fs) \<and> fs' = fs[nat j := mark_changed (fs ! nat j)]"
  by (auto simp: flag_set_def flags_at_def read_at_def)

lemma merge_lines_same:
  assumes "merge_lines mg ts ws c = ret (rs, c')" and "length ts = length ws" and "\<And>t c. mg t t c = ret (t, c)"
  shows "length rs = length ts" and "k < length ts \<Longrightarrow> ts ! k = ws ! k \<Longrightarrow> rs ! k = ts ! k"
proof -
  have "length rs = length ts \<and> (\<forall>k<length ts. ts ! k = ws ! k \<longrightarrow> rs ! k = ts ! k)"
    using assms(2,1)
  proof (induction ts ws arbitrary: c rs c' rule: list_induct2)
    case (Cons t ts w ws)
    then obtain m c1 rs1 where m: "mg t w c = ret (m, c1)" and r: "merge_lines mg ts ws c1 = ret (rs1, c')" "rs = m # rs1" by auto
    have "m = t" if "t = w" using m that assms(3) by simp
    then show ?case using Cons.IH [OF r(1)] r(2) by (auto simp: nth_Cons' )
  qed simp
  then show "length rs = length ts" and "k < length ts \<Longrightarrow> ts ! k = ws ! k \<Longrightarrow> rs ! k = ts ! k" by auto
qed

lemma update_cell:
  assumes "0 \<le> j" and "j < int (length fs)" and "length tab = length fs"
    and "cell_le env ifs (fs ! nat j, tab ! nat j) (w, l)"
  shows "flow_le env ifs (fs, tab) (fs[nat j := w], tab[nat j := l])"
  using assms by (auto simp: flow_le_def nth_list_update simp del: cell_le.simps)

lemma tab_ok_update: "tab_ok env meth tab \<Longrightarrow> line_ok (classes env) (unat (registersSize meth)) l \<Longrightarrow> tab_ok env meth (tab[j := Some l])"
  by (auto simp: tab_ok_def dest!: set_update_subset_insert [THEN subsetD])

lemma tab_okD: "tab_ok env meth tab \<Longrightarrow> j < length tab \<Longrightarrow> tab ! j = Some l \<Longrightarrow> line_ok (classes env) (unat (registersSize meth)) l"
  by (metis nth_mem tab_ok_def)

lemma updateRegisters_ends:
  assumes e: "env_ok env ifs" and tab: "tab_ok env meth tab" "length tab = length fs"
    and regs: "line_ok (classes env) (unat (registersSize meth)) regs"
  shows "ends_with (updateRegisters env fs tab j regs) (\<lambda>(fs', tab'). flow_le env ifs (fs, tab) (fs', tab') \<and> tab_ok env meth tab'
    \<and> reaches env ifs regs j (fs', tab') \<and> (\<forall>k. k \<noteq> nat j \<longrightarrow> tab' ! k = tab ! k \<and> fs' ! k = fs ! k)
    \<and> (\<forall>a b. touched (fs ! nat j) \<and> tab ! nat j = Some a \<and> tab' ! nat j = Some b \<longrightarrow> (\<forall>k<length a. a ! k = regs ! k \<longrightarrow> b ! k = a ! k)))"
proof (cases "0 \<le> j \<and> j < int (length fs)")
  case False
  then show ?thesis using tab(2) by (auto simp: updateRegisters_def getRegisterLine_def read_at_def)
next
  case True
  then have nj: "nat j < length fs" "nat j < length tab" using tab(2) by (auto simp: nat_less_iff)
  let ?w = "fs ! nat j"
  have seen: "dvmInsnIsVisitedOrChanged fs j = Ret (touched ?w)"
    using True by (simp add: flag_is_def flags_at_def read_at_def flag_words del: bit.conj_disj_distrib)
  have line: "getRegisterLine tab j = Ret (tab ! nat j)" using True tab(2) by (simp add: getRegisterLine_def read_at_def)
  show ?thesis
  proof (cases "tab ! nat j")
    case None
    then show ?thesis using seen line by (simp add: updateRegisters_def)
  next
    case (Some a)
    have a: "line_ok (classes env) (unat (registersSize meth)) a" using tab_okD [OF tab(1) nj(2) Some] .
    show ?thesis
    proof (cases "touched ?w")
      case False
      have c: "cell_le env ifs (?w, tab ! nat j) (mark_changed ?w, Some regs)" using False Some by simp
      have "updateRegisters env fs tab j regs = ret (fs[nat j := mark_changed ?w], tab[nat j := Some regs])"
        using seen line Some False True set_changed [of fs j] by (simp add: updateRegisters_def)
      then show ?thesis
        using True nj False update_cell [OF _ _ tab(2) c] tab_ok_update [OF tab(1) regs] by (simp add: reaches_def)
    next
      case touched: True
      let ?mg = "mergeTypes (classes env) (findArrayClassForElement env)"
      have len: "length a = length regs" using a regs by (simp add: line_ok_def)
      obtain rs where rs: "merge_lines ?mg a regs False = ret (rs, rs \<noteq> a)" "list_all (reg_ok (classes env)) rs"
        "line_le env ifs a rs" "line_le env ifs regs rs"
        using regs.merge_lines_upper [where e = "verify_types_of env ifs" and changed = False, OF _ len] a regs env_facts(1) [OF e]
        by (auto simp: line_ok_def line_le_def)
      have "mergeTypes (classes env) (findArrayClassForElement env) t t c = ret (t, c)" for t c by (simp add: mergeTypes_def)
      note same = merge_lines_same [OF rs(1) len this]
      define w' where "w' = (if rs \<noteq> a then mark_changed ?w else ?w)"
      have c: "cell_le env ifs (?w, tab ! nat j) (w', Some rs)" using Some rs(3) touched by (auto simp: w'_def)
      have ok: "line_ok (classes env) (unat (registersSize meth)) rs" using rs(2) same(1) a by (simp add: line_ok_def)
      have "updateRegisters env fs tab j regs = ret (fs[nat j := w'], tab[nat j := Some rs])"
        using seen line Some touched True rs(1) set_changed [of fs j] nj by (auto simp: updateRegisters_def w'_def)
      then show ?thesis
        using True nj update_cell [OF _ _ tab(2) c] tab_ok_update [OF tab(1) ok] rs(4) touched same(2) Some
        by (auto simp: reaches_def w'_def)
    qed
  qed
qed


section \<open>The successors of an instruction\<close>

text \<open>
  Where control can go from the instruction at \<open>i\<close>: the next instruction, the target of a branch or the targets of a switch, and the handlers
  of the exceptions it can throw.
\<close>

definition switch_targets_wide :: "Method \<Rightarrow> int \<Rightarrow> int list outcome" where
  "switch_targets_wide meth i =
     bind_out (unit_at meth i) (\<lambda>w.
     bind_out (s4_at meth (i + 1)) (\<lambda>off.
     bind_out (unit_at meth (i + off + 1)) (\<lambda>cnt.
       table_targets meth i (i + off + (if INST_INST w = OP_PACKED_SWITCH then 4 else 2 + 2 * uint cnt)) (unat cnt))))"

definition goes_to :: "Method \<Rightarrow> InsnFlags list \<Rightarrow> int \<Rightarrow> InstructionFlags \<Rightarrow> int \<Rightarrow> bool" where
  "goes_to meth fs i nextFlags j \<longleftrightarrow>
     can kInstrCanContinue nextFlags \<and> dvmInsnGetWidth fs i = Ret (j - i)
     \<or> can kInstrCanBranch nextFlags \<and> (\<exists>off c. dvmGetBranchTarget meth i = Ret (Some (off, c)) \<and> j = i + off)
     \<or> can kInstrCanSwitch nextFlags \<and> (\<exists>ts. switch_targets_wide meth i = Ret ts \<and> j \<in> set ts)"

definition handlers_at :: "Method \<Rightarrow> int \<Rightarrow> int set" where
  "handlers_at meth i = {sint (address h) | h it hs it'. dexFindCatchHandler (pCode meth) (word_of_int i) = Ret (Some it)
     \<and> catch_handlers (pCode meth) it = Ret (hs, it') \<and> h \<in> set hs}"

text \<open>An address without a line is reached by marking it as changed.\<close>

definition arrives :: "verify_env \<Rightarrow> u8 set \<Rightarrow> RegType list \<Rightarrow> int \<Rightarrow> InsnFlags list \<times> RegisterTable \<Rightarrow> bool" where
  "arrives env ifs regs j = (\<lambda>(fs, tab). reaches env ifs regs j (fs, tab)
     \<or> 0 \<le> j \<and> j < int (length fs) \<and> tab ! nat j = None \<and> is_changed (fs ! nat j))"

lemma arrives_mono:
  assumes "env_ok env ifs" and "flow_le env ifs ft ft'" and "arrives env ifs regs j ft"
  shows "arrives env ifs regs j ft'"
proof (cases "reaches env ifs regs j ft")
  case True
  then show ?thesis using flow_reaches_mono [OF assms(1,2)] by (cases ft') (simp add: arrives_def)
next
  case False
  obtain fs tab where ft: "ft = (fs, tab)" by (cases ft)
  obtain fs' tab' where ft': "ft' = (fs', tab')" by (cases ft')
  have j: "0 \<le> j" "j < int (length fs)" "tab ! nat j = None" "is_changed (fs ! nat j)" using False assms(3) by (auto simp: arrives_def ft)
  note le = flow_leD [OF assms(2) [unfolded ft ft']]
  have "tab' ! nat j = None \<and> is_changed (fs' ! nat j)" using le(4) [OF j(1,2)] j(3,4) by auto
  then show ?thesis using j le(1) by (simp add: arrives_def ft')
qed

text \<open>
  An operation on the flags and the table that ends, lets the table evolve as above, keeps an invariant \<open>I\<close>, marks no address without a line outside \<open>U\<close>, and
  establishes \<open>Q\<close> when it does not reject the method.
\<close>

definition flow_safe where
  "flow_safe env ifs meth U I m Q \<longleftrightarrow> (\<forall>fs tab. tab_ok env meth tab \<and> length tab = length fs \<and> I (fs, tab) \<longrightarrow>
     ends_with (m (fs, tab)) (\<lambda>r. \<forall>fs' tab'. r = Some (fs', tab') \<longrightarrow>
       flow_le env ifs (fs, tab) (fs', tab') \<and> tab_ok env meth tab' \<and> I (fs', tab')
       \<and> (\<forall>k<length fs. tab ! k = None \<and> int k \<notin> U \<longrightarrow> fs' ! k = fs ! k) \<and> Q (fs', tab')))"

text \<open>The invariants in question concern one address, its width and its line.\<close>

definition line_in :: "int \<Rightarrow> int \<Rightarrow> (RegType list \<Rightarrow> bool) \<Rightarrow> InsnFlags list \<times> RegisterTable \<Rightarrow> bool" where
  "line_in i v G = (\<lambda>(fs, tab). 0 \<le> i \<and> i < int (length fs) \<and> uint (fs ! nat i AND kInsnFlagWidthMask) = v
     \<and> (\<forall>l. tab ! nat i = Some l \<longrightarrow> touched (fs ! nat i) \<and> G l))"

text \<open>Registers of a set that is closed under merging \<open>regs\<close>.\<close>

definition absorbs :: "(RegType list \<Rightarrow> bool) \<Rightarrow> RegType list \<Rightarrow> bool" where
  "absorbs G regs \<longleftrightarrow> (\<forall>a b. G a \<and> length b = length a \<and> (\<forall>k<length a. a ! k = regs ! k \<longrightarrow> b ! k = a ! k) \<longrightarrow> G b)"

lemma flow_le_refl [simp]: "length tab = length fs \<Longrightarrow> flow_le env ifs (fs, tab) (fs, tab)"
  by (simp add: flow_le_def del: cell_le.simps)

lemma flow_skip: "flow_safe env ifs meth U I (\<lambda>ft. ret (Some ft)) (\<lambda>_. True)"
  by (simp add: flow_safe_def)

lemma flow_reject: "flow_safe env ifs meth U I (\<lambda>ft. ret None) Q"
  by (simp add: flow_safe_def)

lemma flow_mono: "flow_safe env ifs meth U I m P \<Longrightarrow> (\<And>ft. P ft \<Longrightarrow> Q ft) \<Longrightarrow> flow_safe env ifs meth U I m Q"
  unfolding flow_safe_def by (intro allI impI, rule ends_with_mono, drule spec, drule spec, drule mp, assumption, assumption) blast

lemma flow_then_safe:
  assumes e: "env_ok env ifs" and m: "flow_safe env ifs meth U I m P" and k: "flow_safe env ifs meth U I k Q"
    and mono: "\<And>ft ft'. flow_le env ifs ft ft' \<Longrightarrow> P ft \<Longrightarrow> P ft'"
  shows "flow_safe env ifs meth U I (flow_then m k) (\<lambda>ft. P ft \<and> Q ft)"
  unfolding flow_safe_def
proof (intro allI impI)
  fix fs tab assume pre: "tab_ok env meth tab \<and> length tab = length fs \<and> I (fs, tab)"
  show "ends_with (flow_then m k (fs, tab)) (\<lambda>r. \<forall>fs' tab'. r = Some (fs', tab') \<longrightarrow>
       flow_le env ifs (fs, tab) (fs', tab') \<and> tab_ok env meth tab' \<and> I (fs', tab')
       \<and> (\<forall>k<length fs. tab ! k = None \<and> int k \<notin> U \<longrightarrow> fs' ! k = fs ! k) \<and> P (fs', tab') \<and> Q (fs', tab'))"
    unfolding flow_then_def
  proof (rule ends_with_bind [OF m [unfolded flow_safe_def, rule_format, OF pre]])
    fix r assume r: "\<forall>fs' tab'. r = Some (fs', tab') \<longrightarrow>
       flow_le env ifs (fs, tab) (fs', tab') \<and> tab_ok env meth tab' \<and> I (fs', tab')
       \<and> (\<forall>k<length fs. tab ! k = None \<and> int k \<notin> U \<longrightarrow> fs' ! k = fs ! k) \<and> P (fs', tab')"
    show "ends_with (case r of None \<Rightarrow> ret None | Some ft \<Rightarrow> k ft) (\<lambda>r. \<forall>fs' tab'. r = Some (fs', tab') \<longrightarrow>
       flow_le env ifs (fs, tab) (fs', tab') \<and> tab_ok env meth tab' \<and> I (fs', tab')
       \<and> (\<forall>k<length fs. tab ! k = None \<and> int k \<notin> U \<longrightarrow> fs' ! k = fs ! k) \<and> P (fs', tab') \<and> Q (fs', tab'))"
    proof (cases r)
      case (Some ft)
      obtain fs1 tab1 where ft: "ft = (fs1, tab1)" by (cases ft)
      have s1: "flow_le env ifs (fs, tab) (fs1, tab1)" "tab_ok env meth tab1" "I (fs1, tab1)"
        "\<forall>k<length fs. tab ! k = None \<and> int k \<notin> U \<longrightarrow> fs1 ! k = fs ! k" "P (fs1, tab1)" using r Some ft by blast+
      note le = flow_leD [OF s1(1)]
      have pre1: "tab_ok env meth tab1 \<and> length tab1 = length fs1 \<and> I (fs1, tab1)" using s1 le by simp
      have none: "tab1 ! k = None" if "k < length fs" "tab ! k = None" for k
        using le(4) [of "int k"] that by simp
      show ?thesis
        unfolding Some ft option.case
        by (rule ends_with_mono [OF k [unfolded flow_safe_def, rule_format, OF pre1]])
          (use s1 le none flow_le_trans [OF e s1(1)] mono in \<open>auto\<close>)
    qed simp
  qed
qed


lemma line_in_step:
  assumes "line_in i v G (fs, tab)" and "flow_le env ifs (fs, tab) (fs', tab')" and "\<forall>k. k \<noteq> nat j \<longrightarrow> tab' ! k = tab ! k" and "0 \<le> j"
    and "\<forall>a b. touched (fs ! nat j) \<and> tab ! nat j = Some a \<and> tab' ! nat j = Some b \<longrightarrow> (\<forall>k<length a. a ! k = regs ! k \<longrightarrow> b ! k = a ! k)"
    and "j = i \<longrightarrow> absorbs G regs"
    and "\<And>a b. tab ! nat j = Some a \<Longrightarrow> tab' ! nat j = Some b \<Longrightarrow> length b = length a"
  shows "line_in i v G (fs', tab')"
proof -
  note le = flow_leD [OF assms(2)]
  have i: "0 \<le> i" "i < int (length fs)" using assms(1) by (simp_all add: line_in_def)
  have "touched (fs' ! nat i) \<and> G l" if l: "tab' ! nat i = Some l" for l
  proof -
    obtain a where a: "tab ! nat i = Some a" using le(4) [OF i] l by auto
    have t: "touched (fs ! nat i)" and G: "G a" using assms(1) a by (auto simp: line_in_def)
    have "touched (fs' ! nat i)" using le(4) [OF i] t by auto
    moreover have "G l"
    proof (cases "j = i")
      case True
      then show ?thesis using assms(5,6) a l t G assms(7) unfolding absorbs_def by blast
    next
      case False
      then have "tab' ! nat i = tab ! nat i" using assms(3,4) i by auto
      then show ?thesis using a l G by simp
    qed
    ultimately show ?thesis by simp
  qed
  moreover have "static_part (fs' ! nat i) = static_part (fs ! nat i)" using le(4) [OF i] by auto
  then have "fs' ! nat i AND kInsnFlagWidthMask = fs ! nat i AND kInsnFlagWidthMask" by (rule static_part_facts)
  ultimately show ?thesis using i le(1) assms(1) by (simp add: line_in_def)
qed

lemma flow_into_safe:
  assumes e: "env_ok env ifs" and regs: "line_ok (classes env) (unat (registersSize meth)) regs" and i: "j = i \<longrightarrow> absorbs G regs"
  shows "flow_safe env ifs meth U (line_in i v G) (flow_into env j regs) (reaches env ifs regs j)"
  unfolding flow_safe_def
proof (intro allI impI)
  fix fs tab assume pre: "tab_ok env meth tab \<and> length tab = length fs \<and> line_in i v G (fs, tab)"
  have post: "\<forall>fs' tab'. Some ft = Some (fs', tab') \<longrightarrow> flow_le env ifs (fs, tab) (fs', tab') \<and> tab_ok env meth tab' \<and> line_in i v G (fs', tab')
      \<and> (\<forall>k<length fs. tab ! k = None \<and> int k \<notin> U \<longrightarrow> fs' ! k = fs ! k) \<and> reaches env ifs regs j (fs', tab')"
    if "case ft of (fs', tab') \<Rightarrow> flow_le env ifs (fs, tab) (fs', tab') \<and> tab_ok env meth tab'
      \<and> reaches env ifs regs j (fs', tab') \<and> (\<forall>k. k \<noteq> nat j \<longrightarrow> tab' ! k = tab ! k \<and> fs' ! k = fs ! k)
      \<and> (\<forall>a b. touched (fs ! nat j) \<and> tab ! nat j = Some a \<and> tab' ! nat j = Some b \<longrightarrow> (\<forall>k<length a. a ! k = regs ! k \<longrightarrow> b ! k = a ! k))" for ft
  proof (intro allI impI)
    fix fs' tab' assume "Some ft = Some (fs', tab')"
    then have ft: "ft = (fs', tab')" by simp
    from that have s: "flow_le env ifs (fs, tab) (fs', tab')" "tab_ok env meth tab'" "reaches env ifs regs j (fs', tab')"
      "\<forall>k. k \<noteq> nat j \<longrightarrow> tab' ! k = tab ! k \<and> fs' ! k = fs ! k"
      "\<forall>a b. touched (fs ! nat j) \<and> tab ! nat j = Some a \<and> tab' ! nat j = Some b \<longrightarrow> (\<forall>k<length a. a ! k = regs ! k \<longrightarrow> b ! k = a ! k)"
      unfolding ft prod.case by - (elim conjE, assumption)+
    note le = flow_leD [OF s(1)]
    have j: "0 \<le> j" "j < int (length fs)" and l: "tab' ! nat j \<noteq> None" using s(3) le(1) by (auto simp: reaches_def)
    then have nj: "nat j < length tab" "nat j < length tab'" using le by (auto simp: nat_less_iff)
    have len: "length b = length a" if "tab ! nat j = Some a" "tab' ! nat j = Some b" for a b
      using tab_okD [OF _ nj(1) that(1)] tab_okD [OF s(2) nj(2) that(2)] pre by (auto simp: line_ok_def)
    have "tab ! nat j \<noteq> None" using le(4) [OF j] l by auto
    then have "k \<noteq> nat j" if "tab ! k = None" for k using that by auto
    then have same: "\<forall>k<length fs. tab ! k = None \<and> int k \<notin> U \<longrightarrow> fs' ! k = fs ! k" using s(4) by blast
    have "\<forall>k. k \<noteq> nat j \<longrightarrow> tab' ! k = tab ! k" using s(4) by blast
    from line_in_step [OF conjunct2 [OF conjunct2 [OF pre]] s(1) this j(1) s(5) i len] same s(1-3)
    show "flow_le env ifs (fs, tab) (fs', tab') \<and> tab_ok env meth tab' \<and> line_in i v G (fs', tab')
      \<and> (\<forall>k<length fs. tab ! k = None \<and> int k \<notin> U \<longrightarrow> fs' ! k = fs ! k) \<and> reaches env ifs regs j (fs', tab')"
      by (intro conjI)
  qed
  show "ends_with (flow_into env j regs (fs, tab)) (\<lambda>r. \<forall>fs' tab'. r = Some (fs', tab') \<longrightarrow>
       flow_le env ifs (fs, tab) (fs', tab') \<and> tab_ok env meth tab' \<and> line_in i v G (fs', tab')
       \<and> (\<forall>k<length fs. tab ! k = None \<and> int k \<notin> U \<longrightarrow> fs' ! k = fs ! k) \<and> reaches env ifs regs j (fs', tab'))"
    unfolding flow_into_def prod.case
    by (rule ends_with_bind [OF updateRegisters_ends [OF e _ _ regs]]) (use pre in blast, use pre in blast, simp only: ends_with_simps, erule post)
qed

lemma flow_checked_safe:
  assumes "env_ok env ifs" and "line_ok (classes env) (unat (registersSize meth)) regs" and "j = i \<longrightarrow> absorbs G regs"
  shows "flow_safe env ifs meth U (line_in i v G) (flow_checked env meth j regs) (reaches env ifs regs j)"
  unfolding flow_safe_def flow_checked_def
  by (intro allI impI ends_with_bind_out ends_with_if)
    (use flow_into_safe [OF assms, unfolded flow_safe_def] in \<open>simp_all\<close>)


text \<open>An address that has no line is marked.\<close>

lemma mark_untracked:
  assumes "dvmInsnSetChanged fs j True = Ret fs'" and "length tab = length fs" and "tab ! nat j = None" and "line_in i v G (fs, tab)"
  shows "flow_le env ifs (fs, tab) (fs', tab) \<and> line_in i v G (fs', tab) \<and> (\<forall>k. int k \<noteq> j \<longrightarrow> fs' ! k = fs ! k)
    \<and> 0 \<le> j \<and> j < int (length fs') \<and> is_changed (fs' ! nat j)"
proof -
  from assms(1) have j: "0 \<le> j" "j < int (length fs)" and fs': "fs' = fs[nat j := mark_changed (fs ! nat j)]" by (simp_all add: set_changed)
  then have nj: "nat j < length fs" by (simp add: nat_less_iff)
  have c: "cell_le env ifs (fs ! nat j, tab ! nat j) (mark_changed (fs ! nat j), tab ! nat j)" using assms(3) by simp
  have le: "flow_le env ifs (fs, tab) (fs', tab)" using update_cell [OF j assms(2) c] by (simp add: fs')
  have "line_in i v G (fs', tab)"
  proof (cases "i = j")
    case True
    moreover have "mark_changed (fs ! nat j) AND kInsnFlagWidthMask = fs ! nat j AND kInsnFlagWidthMask"
      by (rule static_part_facts) simp
    ultimately show ?thesis using assms(3,4) fs' nj by (simp add: line_in_def)
  next
    case False
    then have "fs' ! nat i = fs ! nat i" if "0 \<le> i" using that j(1) fs' by (simp add: nat_eq_iff)
    then show ?thesis using assms(4) fs' by (auto simp: line_in_def)
  qed
  then show ?thesis using le j nj fs' by auto
qed

lemma flow_continue_safe:
  assumes e: "env_ok env ifs" and regs: "line_ok (classes env) (unat (registersSize meth)) regs"
    and v: "v = 0 \<longrightarrow> absorbs G regs"
  shows "flow_safe env ifs meth {i + v} (line_in i v G) (flow_continue env meth i regs) (arrives env ifs regs (i + v))"
  unfolding flow_safe_def
proof (intro allI impI)
  fix fs tab assume pre: "tab_ok env meth tab \<and> length tab = length fs \<and> line_in i v G (fs, tab)"
  let ?post = "\<lambda>r. \<forall>fs' tab'. r = Some (fs', tab') \<longrightarrow>
       flow_le env ifs (fs, tab) (fs', tab') \<and> tab_ok env meth tab' \<and> line_in i v G (fs', tab')
       \<and> (\<forall>k<length fs. tab ! k = None \<and> int k \<notin> {i + v} \<longrightarrow> fs' ! k = fs ! k) \<and> arrives env ifs regs (i + v) (fs', tab')"
  have into: "ends_with (flow_into env (i + v) regs (fs, tab)) ?post"
  proof -
    have "i + v = i \<longrightarrow> absorbs G regs" using v by simp
    note s = flow_into_safe [OF e regs this, of "{i + v}" v, unfolded flow_safe_def, rule_format, OF pre]
    show ?thesis by (rule ends_with_mono [OF s]) (simp add: arrives_def)
  qed
  have mark: "?post (Some (fs', tab))" if "dvmInsnSetChanged fs (i + v) True = Ret fs'" "tab ! nat (i + v) = None" for fs'
    using mark_untracked [OF that(1) _ that(2), of i v G env ifs] pre that(2) by (auto simp: arrives_def)
  show "ends_with (flow_continue env meth i regs (fs, tab)) ?post"
    unfolding flow_continue_def prod.case
  proof (intro ends_with_bind_out)
    fix w assume "dvmInsnGetWidth fs i = Ret w"
    then have w: "w = v" using pre by (auto simp: line_in_def dvmInsnGetWidth_def flags_at_def read_at_def)
    show "ends_with (if dvmGetMethodInsnsSize meth \<le> i + w then ret None
          else bind_run (Some (checkMoveException meth (i + w))) (\<lambda>b. if \<not> b then ret None
            else bind_run (Some (getRegisterLine tab (i + w))) (\<lambda>line. if line \<noteq> None then flow_into env (i + w) regs (fs, tab)
              else bind_run (Some (dvmInsnSetChanged fs (i + w) True)) (\<lambda>fs. ret (Some (fs, tab)))))) ?post"
      unfolding w
    proof (intro ends_with_if ends_with_bind_out into)
      fix b line fs' assume "getRegisterLine tab (i + v) = Ret line" "\<not> line \<noteq> None" "dvmInsnSetChanged fs (i + v) True = Ret fs'"
      then show "ends_with (ret (Some (fs', tab))) ?post"
        unfolding ends_with_simps by (intro mark) (auto simp: getRegisterLine_def read_at_def split: if_splits option.splits)
    qed simp_all
  qed
qed


lemma flow_out:
  assumes "\<And>x. m = Ret x \<Longrightarrow> flow_safe env ifs meth U I (f x) Q"
  shows "flow_safe env ifs meth U I (\<lambda>ft. bind_run (Some m) (\<lambda>x. f x ft)) Q"
  using assms unfolding flow_safe_def by (auto intro!: ends_with_bind_out)

lemma flow_stop: "flow_safe env ifs meth U I (\<lambda>ft. Some AbortVM) Q" "flow_safe env ifs meth U I (\<lambda>ft. ret None) Q"
  by (simp_all add: flow_safe_def)

lemma flow_if:
  "(b \<Longrightarrow> flow_safe env ifs meth U I m Q) \<Longrightarrow> (\<not> b \<Longrightarrow> flow_safe env ifs meth U I k Q) \<Longrightarrow> flow_safe env ifs meth U I (\<lambda>ft. if b then m ft else k ft) Q"
  by (cases b) simp_all

lemma flow_targets_safe:
  assumes e: "env_ok env ifs" and regs: "line_ok (classes env) (unat (registersSize meth)) regs" and G: "absorbs G regs"
  shows "flow_safe env ifs meth U (line_in i v G) (flow_targets env meth i pos k regs)
    (\<lambda>ft. \<forall>ts j. table_targets meth i pos k = Ret ts \<and> j \<in> set ts \<longrightarrow> reaches env ifs regs j ft)"
proof (induction k arbitrary: pos)
  case 0
  then show ?case by (simp add: flow_safe_def)
next
  case (Suc k)
  let ?P = "\<lambda>ft. \<forall>ts j. table_targets meth i (pos + 2) k = Ret ts \<and> j \<in> set ts \<longrightarrow> reaches env ifs regs j ft"
  have step: "flow_safe env ifs meth U (line_in i v G)
      (flow_then (flow_checked env meth (i + offset) regs) (flow_targets env meth i (pos + 2) k regs))
      (\<lambda>ft. reaches env ifs regs (i + offset) ft \<and> ?P ft)" for offset
    by (rule flow_then_safe [OF e flow_checked_safe [OF e regs] Suc.IH]) (use G flow_reaches_mono [OF e] in blast)+
  have "flow_safe env ifs meth U (line_in i v G)
      (\<lambda>ft. bind_run (Some (s4_at meth pos)) (\<lambda>offset.
         (if \<not> (i + offset \<ge> 0 \<and> i + offset < dvmGetMethodInsnsSize meth) then Some AbortVM
          else flow_then (flow_checked env meth (i + offset) regs) (flow_targets env meth i (pos + 2) k regs) ft)))
      (\<lambda>ft. \<forall>ts j. table_targets meth i pos (Suc k) = Ret ts \<and> j \<in> set ts \<longrightarrow> reaches env ifs regs j ft)"
    by (intro flow_out flow_if flow_stop flow_mono [OF step]) auto
  moreover have "flow_targets env meth i pos (Suc k) regs = (\<lambda>ft. bind_run (Some (s4_at meth pos)) (\<lambda>offset.
         (if \<not> (i + offset \<ge> 0 \<and> i + offset < dvmGetMethodInsnsSize meth) then Some AbortVM
          else flow_then (flow_checked env meth (i + offset) regs) (flow_targets env meth i (pos + 2) k regs) ft)))"
    by (rule ext) simp
  ultimately show ?case by simp
qed

lemma flow_branch_safe:
  assumes e: "env_ok env ifs" and regs: "line_ok (classes env) (unat (registersSize meth)) regs" and G: "absorbs G regs"
  shows "flow_safe env ifs meth U (line_in i v G) (flow_branch env meth i b regs)
    (\<lambda>ft. \<forall>off c. dvmGetBranchTarget meth i = Ret (Some (off, c)) \<longrightarrow> reaches env ifs regs (i + off) ft)"
  unfolding flow_safe_def flow_branch_def
  by (intro allI impI ends_with_bind_out)
    (use flow_checked_safe [OF e regs, of _ i G U v, unfolded flow_safe_def] G in \<open>auto split: option.split\<close>)

lemma flow_switch_safe:
  assumes e: "env_ok env ifs" and regs: "line_ok (classes env) (unat (registersSize meth)) regs" and G: "absorbs G regs"
  shows "flow_safe env ifs meth U (line_in i v G) (flow_switch env meth i regs)
    (\<lambda>ft. \<forall>ts j. switch_targets_wide meth i = Ret ts \<and> j \<in> set ts \<longrightarrow> reaches env ifs regs j ft)"
proof -
  have "flow_switch env meth i regs = (\<lambda>ft. bind_run (Some (unit_at meth i)) (\<lambda>w.
     bind_run (Some (s4_at meth (i + 1))) (\<lambda>off.
     bind_run (Some (unit_at meth (i + off + 1))) (\<lambda>cnt.
       if INST_INST w = OP_PACKED_SWITCH
       then flow_targets env meth i (i + off + 4) (unat cnt) regs ft
       else if INST_INST w \<noteq> OP_SPARSE_SWITCH then Some AbortVM
       else flow_targets env meth i (i + off + 2 + 2 * uint cnt) (unat cnt) regs ft))))"
    by (rule ext) (simp only: flow_switch_def)
  then show ?thesis
    by (simp only:) (intro flow_out flow_if flow_stop flow_mono [OF flow_targets_safe [OF e regs G]];
        auto simp: switch_targets_wide_def algebra_simps)
qed

lemma flow_handlers_safe:
  assumes e: "env_ok env ifs" and regs: "line_ok (classes env) (unat (registersSize meth)) regs" and G: "absorbs G regs"
  shows "flow_safe env ifs meth U (line_in i v G) (flow_handlers env hs regs)
    (\<lambda>ft. \<forall>h\<in>set hs. reaches env ifs regs (sint (address h)) ft)"
proof (induction hs)
  case Nil
  then show ?case by (simp add: flow_safe_def)
next
  case (Cons h hs)
  have "flow_handlers env (h # hs) regs = flow_then (flow_into env (sint (address h)) regs) (flow_handlers env hs regs)" by (rule ext) simp
  moreover have "flow_safe env ifs meth U (line_in i v G) (flow_then (flow_into env (sint (address h)) regs) (flow_handlers env hs regs))
      (\<lambda>ft. reaches env ifs regs (sint (address h)) ft \<and> (\<forall>h\<in>set hs. reaches env ifs regs (sint (address h)) ft))"
    by (rule flow_then_safe [OF e flow_into_safe [OF e regs] Cons.IH]) (use G flow_reaches_mono [OF e] in blast)+
  ultimately show ?case by simp
qed

lemma flow_throw_safe:
  assumes e: "env_ok env ifs" and regs: "line_ok (classes env) (unat (registersSize meth)) regs" and G: "absorbs G regs"
  shows "flow_safe env ifs meth U (line_in i v G) (flow_throw env meth i regs)
    (\<lambda>ft. \<forall>j\<in>handlers_at meth i. reaches env ifs regs j ft)"
  unfolding flow_safe_def flow_throw_def
proof (intro allI impI ends_with_bind_out)
  fix fs tab it assume pre: "tab_ok env meth tab \<and> length tab = length fs \<and> line_in i v G (fs, tab)"
    and it: "dexFindCatchHandler (pCode meth) (word_of_int i) = Ret it"
  let ?post = "\<lambda>r. \<forall>fs' tab'. r = Some (fs', tab') \<longrightarrow> flow_le env ifs (fs, tab) (fs', tab') \<and> tab_ok env meth tab' \<and> line_in i v G (fs', tab')
       \<and> (\<forall>k<length fs. tab ! k = None \<and> int k \<notin> U \<longrightarrow> fs' ! k = fs ! k) \<and> (\<forall>j\<in>handlers_at meth i. reaches env ifs regs j (fs', tab'))"
  show "ends_with (case it of None \<Rightarrow> ret (Some (fs, tab)) | Some it \<Rightarrow>
      bind_run (Some (catch_handlers (pCode meth) it)) (\<lambda>(hs, _). flow_handlers env hs regs (fs, tab))) ?post"
  proof (cases it)
    case None
    then show ?thesis using pre it by (simp add: handlers_at_def)
  next
    case (Some c)
    show ?thesis
      unfolding Some option.case
    proof (intro ends_with_bind_out)
      fix r assume r: "catch_handlers (pCode meth) c = Ret r"
      show "ends_with (case r of (hs, _) \<Rightarrow> flow_handlers env hs regs (fs, tab)) ?post"
      proof (cases r)
        case (Pair hs it')
        have hs: "handlers_at meth i = (\<lambda>h. sint (address h)) ` set hs" using it r Some Pair by (auto simp: handlers_at_def)
        show ?thesis
          unfolding Pair prod.case
          by (rule ends_with_mono [OF flow_handlers_safe [OF e regs G, unfolded flow_safe_def, rule_format, OF pre]]) (simp add: hs)
      qed
    qed
  qed
qed


text \<open>All ways out of the instruction at \<open>i\<close> of width \<open>v\<close>.\<close>

definition flows ::
  "verify_env \<Rightarrow> u8 set \<Rightarrow> Method \<Rightarrow> int \<Rightarrow> int \<Rightarrow> InstructionFlags \<Rightarrow> bool \<Rightarrow> RegType list \<Rightarrow> RegType list \<Rightarrow> InsnFlags list \<times> RegisterTable \<Rightarrow> bool" where
  "flows env ifs meth i v nextFlags inTry entryRegs regs ft \<longleftrightarrow>
     (can kInstrCanContinue nextFlags \<longrightarrow> arrives env ifs regs (i + v) ft)
     \<and> (can kInstrCanBranch nextFlags \<longrightarrow> (\<forall>off c. dvmGetBranchTarget meth i = Ret (Some (off, c)) \<longrightarrow> reaches env ifs regs (i + off) ft))
     \<and> (can kInstrCanSwitch nextFlags \<longrightarrow> (\<forall>ts j. switch_targets_wide meth i = Ret ts \<and> j \<in> set ts \<longrightarrow> reaches env ifs regs j ft))
     \<and> (inTry \<longrightarrow> (\<forall>j\<in>handlers_at meth i. reaches env ifs entryRegs j ft))"

lemma flow_optional:
  "(b \<Longrightarrow> flow_safe env ifs meth U I m Q) \<Longrightarrow> flow_safe env ifs meth U I (if b then m else (\<lambda>ft. ret (Some ft))) (\<lambda>ft. b \<longrightarrow> Q ft)"
  by (cases b) (simp_all add: flow_skip)

lemma flow_all_safe:
  assumes e: "env_ok env ifs" and regs: "line_ok (classes env) (unat (registersSize meth)) regs"
    and entry: "inTry \<Longrightarrow> line_ok (classes env) (unat (registersSize meth)) entryRegs" "absorbs G entryRegs"
    and G: "can kInstrCanBranch nextFlags \<or> can kInstrCanSwitch nextFlags \<or> can kInstrCanContinue nextFlags \<and> v = 0 \<Longrightarrow> absorbs G regs"
  shows "flow_safe env ifs meth (if can kInstrCanContinue nextFlags then {i + v} else {}) (line_in i v G)
    (flow_all env meth i nextFlags inTry entryRegs regs) (flows env ifs meth i v nextFlags inTry entryRegs regs)"
proof -
  let ?U = "if can kInstrCanContinue nextFlags then {i + v} else {}"
  have cont: "flow_safe env ifs meth ?U (line_in i v G)
      (if can kInstrCanContinue nextFlags then flow_continue env meth i regs else (\<lambda>ft. ret (Some ft)))
      (\<lambda>ft. can kInstrCanContinue nextFlags \<longrightarrow> arrives env ifs regs (i + v) ft)"
    using flow_continue_safe [OF e regs] G by (intro flow_optional) auto
  have branch: "flow_safe env ifs meth ?U (line_in i v G)
      (if can kInstrCanBranch nextFlags then flow_branch env meth i b regs else (\<lambda>ft. ret (Some ft)))
      (\<lambda>ft. can kInstrCanBranch nextFlags \<longrightarrow> (\<forall>off c. dvmGetBranchTarget meth i = Ret (Some (off, c)) \<longrightarrow> reaches env ifs regs (i + off) ft))" for b
    using G by (intro flow_optional flow_branch_safe [OF e regs]) simp
  have switch: "flow_safe env ifs meth ?U (line_in i v G)
      (if can kInstrCanSwitch nextFlags then flow_switch env meth i regs else (\<lambda>ft. ret (Some ft)))
      (\<lambda>ft. can kInstrCanSwitch nextFlags \<longrightarrow> (\<forall>ts j. switch_targets_wide meth i = Ret ts \<and> j \<in> set ts \<longrightarrow> reaches env ifs regs j ft))"
    using G by (intro flow_optional flow_switch_safe [OF e regs]) simp
  have handlers: "flow_safe env ifs meth ?U (line_in i v G)
      (if inTry then flow_throw env meth i entryRegs else (\<lambda>ft. ret (Some ft)))
      (\<lambda>ft. inTry \<longrightarrow> (\<forall>j\<in>handlers_at meth i. reaches env ifs entryRegs j ft))"
    by (intro flow_optional flow_throw_safe [OF e] entry)
  have mono: "reaches env ifs r j ft \<Longrightarrow> flow_le env ifs ft ft' \<Longrightarrow> reaches env ifs r j ft'"
    "arrives env ifs r j ft \<Longrightarrow> flow_le env ifs ft ft' \<Longrightarrow> arrives env ifs r j ft'" for r j ft ft'
    using flow_reaches_mono [OF e] arrives_mono [OF e] by simp_all
  show ?thesis
    unfolding flow_all_def flows_def
  proof (rule flow_then_safe [OF e cont flow_then_safe [OF e branch flow_then_safe [OF e switch handlers]]], goal_cases)
    case (1 ft ft') then show ?case by (auto intro: mono)
  next
    case (2 ft ft') then show ?case by (auto intro: mono)
  next
    case (3 ft ft') then show ?case by (auto intro: mono)
  qed
qed

end
