(* ===== verification/VerifyLoop.thy ===== *)
theory VerifyLoop
  imports VerifySound
begin

text \<open>
  The loop of the data-flow pass ends: one step keeps its invariant, and either takes an instruction off the worklist or raises
  a line of registers in an order of finite height.
\<close>

section \<open>Branches to the instruction itself\<close>

text \<open>
  The loop clears the mark of an instruction after it has been processed. When the instruction has branched to itself, its own line may have
  changed meanwhile; this does no harm, as a branch only reads the registers and only the result registers can have changed.
\<close>

definition jump_ops :: "OpCode set" where
  "jump_ops = branch_ops \<union> {OP_PACKED_SWITCH, OP_SPARSE_SWITCH}"

lemma jump_flags:
  assumes "opc < 256"
  shows "can kInstrCanBranch (instr_flags_of opc) \<or> can kInstrCanSwitch (instr_flags_of opc) \<longleftrightarrow> opc \<in> jump_ops"
proof -
  have "map (\<lambda>f. f AND kInstrCanBranch \<noteq> 0 \<or> f AND kInstrCanSwitch \<noteq> 0) (map instr_flags_of [0..<256]) = map (\<lambda>opc. opc \<in> jump_ops) [0..<256]"
    unfolding flags_table_eq by (simp add: flag_defs jump_ops_def branch_ops_def upt_rec)
  then show ?thesis using assms by (simp add: map_upt_eq_iff can_def)
qed

definition agree :: "nat \<Rightarrow> RegType list \<Rightarrow> RegType list \<Rightarrow> bool" where
  "agree n l r \<longleftrightarrow> length l = length r \<and> take n l = take n r"

text \<open>A computation that only reads the first \<open>n\<close> registers.\<close>

definition reads :: "nat \<Rightarrow> 'a vop \<Rightarrow> bool" where
  "reads n m \<longleftrightarrow> (\<forall>s. (\<forall>l. agree n l (workRegs s) \<longrightarrow> m (s\<lparr>workRegs := l\<rparr>) = bind_run (m s) (\<lambda>(x, s'). ret (x, s'\<lparr>workRegs := l\<rparr>)))
     \<and> (\<forall>x s'. m s = ret (x, s') \<longrightarrow> workRegs s' = workRegs s \<and> uninitMap s' = uninitMap s \<and> justSetResult s' = justSetResult s))"


lemma reads_ret: "reads n (vret x)"
  by (simp add: reads_def vret_def)

lemma reads_bind:
  assumes m: "reads n m" and f: "\<And>x. reads n (f x)"
  shows "reads n (vbind m f)"
  unfolding reads_def
proof (intro allI conjI impI)
  fix s :: vstate and l assume a: "agree n l (workRegs s)"
  have ml: "m (s\<lparr>workRegs := l\<rparr>) = bind_run (m s) (\<lambda>(x, s'). ret (x, s'\<lparr>workRegs := l\<rparr>))" using m a by (simp add: reads_def)
  show "vbind m f (s\<lparr>workRegs := l\<rparr>) = bind_run (vbind m f s) (\<lambda>(x, s'). ret (x, s'\<lparr>workRegs := l\<rparr>))"
  proof (cases "\<exists>x s'. m s = ret (x, s')")
    case True
    then obtain x s' where ms: "m s = ret (x, s')" by blast
    have "workRegs s' = workRegs s" using m ms by (simp add: reads_def)
    then have "f x (s'\<lparr>workRegs := l\<rparr>) = bind_run (f x s') (\<lambda>(x, s'). ret (x, s'\<lparr>workRegs := l\<rparr>))" using f a by (simp add: reads_def)
    then show ?thesis by (simp add: vbind_def ml ms)
  next
    case False
    then show ?thesis unfolding vbind_def ml by (auto simp: bind_run_def split: option.split outcome.split)
  qed
next
  fix s s' :: vstate and x assume "vbind m f s = ret (x, s')"
  then obtain y s1 where "m s = ret (y, s1)" "f y s1 = ret (x, s')" by (auto simp: vbind_def)
  then show "workRegs s' = workRegs s" "uninitMap s' = uninitMap s" "justSetResult s' = justSetResult s"
    using m f [of y] by (auto simp: reads_def)
qed

lemma reads_then: "reads n m \<Longrightarrow> reads n k \<Longrightarrow> reads n (vthen m k)"
  unfolding vthen_def by (rule reads_bind)

lemma reads_if_okay: "reads n m \<Longrightarrow> reads n (if_okay m)"
  by (simp add: reads_def if_okay_def)

lemma reads_if: "reads n m \<Longrightarrow> reads n k \<Longrightarrow> reads n (if b then m else k)"
  by simp

lemma agree_nth: "agree n l r \<Longrightarrow> v < n \<Longrightarrow> l ! v = r ! v"
  unfolding agree_def by (metis nth_take)

lemma work_okay_commute: "s\<lparr>okay := b, workRegs := l\<rparr> = s\<lparr>workRegs := l, okay := b\<rparr>"
  by simp

lemma reads_get_reg: "reads n (get_reg n v)"
  by (auto simp: reads_def with_okay_def getRegisterType_def agree_nth) (auto simp: agree_def)

lemma reads_check: "reads n (check_category t c)"
  by (cases c) (auto simp: reads_def with_check_def)

lemma reads_verify_reg: "reads n (verify_reg ct n v kRegTypeInteger)"
  by (auto simp: reads_def with_check_def verifyRegisterType_def agree_nth Let_def bind_run_assoc work_okay_commute) (auto simp: agree_def)

lemmas reads_steps = reads_ret reads_bind [OF reads_get_reg] reads_then [OF reads_check] reads_check reads_if_okay reads_if reads_then [OF reads_if_okay]

lemma jump_reads:
  assumes "opCode d \<in> jump_ops"
  shows "reads n (verify_arm env meth n i d)"
proof -
  have "reads n (arm_if n d)" unfolding arm_if_def Let_def by (intro reads_steps)
  moreover have "verify_arm env meth n i d =
      (if opCode d \<in> {OP_GOTO, OP_GOTO_16, OP_GOTO_32} then vret ()
       else if opCode d \<in> {OP_PACKED_SWITCH, OP_SPARSE_SWITCH} then verify_reg (classes env) n (vA d) kRegTypeInteger else arm_if n d)"
    using assms unfolding jump_ops_def branch_ops_def by (elim UnE insertE emptyE) (simp_all add: verify_arm_def Let_def)
  ultimately show ?thesis using reads_verify_reg [of n "classes env" "vA d"] reads_ret [of n "()"] by simp
qed

lemma jump_effect:
  assumes op: "opCode d \<in> jump_ops" and "length R = unat (registersSize meth) + kExtraRegs"
    and ok: "insn_effect env meth i d R um = ret (Some R', um')"
  shows "agree (unat (registersSize meth)) R' R" and "um' = um"
    and "agree (unat (registersSize meth)) l R \<Longrightarrow> insn_effect env meth i d l um = ret (Some R', um')"
proof -
  let ?n = "unat (registersSize meth)"
  let ?s = "\<lambda>r. \<lparr>workRegs = r, uninitMap = um, okay = True, justSetResult = False\<rparr>"
  obtain x s where s: "verify_arm env meth ?n i d (?s R) = ret (x, s)" and okay: "okay s" "um' = uninitMap s" "clear_result ?n s = ret R'"
    using ok by (auto simp: insn_effect_def Let_def split: if_splits)
  note r = jump_reads [OF op, of ?n env meth i, unfolded reads_def, THEN spec, of "?s R"]
  have keep: "workRegs s = R" "uninitMap s = um" "\<not> justSetResult s" using r s by auto
  show "um' = um" using keep okay by simp
  have clear: "clear_result ?n (s\<lparr>workRegs := l\<rparr>) = ret (l[?n + 1 := kRegTypeUnknown, ?n := kRegTypeUnknown])"
    if "length l = ?n + 2" for l
    using keep(3) that by (simp add: clear_result_def list_store_def)
  have R': "R' = R[?n + 1 := kRegTypeUnknown, ?n := kRegTypeUnknown]"
  proof -
    have "s\<lparr>workRegs := R\<rparr> = s" using keep(1) by (cases s) simp
    then show ?thesis using clear [of R] okay(3) assms(2) by (simp add: kExtraRegs_def)
  qed
  then show "agree ?n R' R" by (simp add: agree_def)
  assume l: "agree ?n l R"
  have len: "length l = ?n + 2" using l assms(2) by (simp add: agree_def kExtraRegs_def)
  have "verify_arm env meth ?n i d (?s l) = ret (x, s\<lparr>workRegs := l\<rparr>)" using r l s by simp
  moreover have "l[?n + 1 := kRegTypeUnknown, ?n := kRegTypeUnknown] = R'"
    using len assms(2) agree_nth [OF l] unfolding R' kExtraRegs_def by (intro nth_equalityI) (auto simp: nth_list_update less_Suc_eq)
  ultimately show "insn_effect env meth i d l um = ret (Some R', um')"
    using okay clear [OF len] keep by (simp add: insn_effect_def Let_def)
qed


section \<open>One instruction\<close>

definition loop_inv :: "verify_env \<Rightarrow> Method \<Rightarrow> flow \<Rightarrow> bool" where
  "loop_inv env meth st \<longleftrightarrow>
     length (flowFlags st) = length (insns meth) \<and> length (regTable st) = length (insns meth)
     \<and> tab_ok env meth (regTable st) \<and> map_ok (classes env) (flowMap st)
     \<and> (\<forall>k<length (insns meth). (regTable st ! k = None) = (\<not> is_target (flowFlags st ! k)))
     \<and> (\<forall>k<length (insns meth). is_changed (flowFlags st ! k) \<and> regTable st ! k = None
          \<longrightarrow> int k = startGuess st \<and> line_ok (classes env) (unat (registersSize meth)) (flowRegs st))
     \<and> 0 \<le> startGuess st \<and> startGuess st \<le> int (length (insns meth))"

text \<open>The registers an instruction is verified with: its line, or the working registers where it has none.\<close>

definition entry_regs :: "flow \<Rightarrow> int \<Rightarrow> RegType list" where
  "entry_regs st i = (case regTable st ! nat i of None \<Rightarrow> flowRegs st | Some l \<Rightarrow> l)"

definition same_line :: "nat \<Rightarrow> OpCode \<Rightarrow> RegType list \<Rightarrow> RegType list \<Rightarrow> bool" where
  "same_line n opc R l \<longleftrightarrow> (if opc \<in> jump_ops then agree n l R else l = R)"

lemma agree_refl [simp]: "agree n l l"
  by (simp add: agree_def)

lemma absorbs_agree:
  assumes "agree n R' R"
  shows "absorbs (\<lambda>l. agree n l R) R'"
  unfolding absorbs_def
proof (intro allI impI, elim conjE)
  fix a b assume a: "agree n a R" and len: "length b = length a" and eq: "\<forall>k<length a. a ! k = R' ! k \<longrightarrow> b ! k = a ! k"
  have "take n b = take n a"
  proof (rule nth_equalityI)
    fix k assume "k < length (take n b)"
    then have k: "k < n" "k < length a" using len by auto
    have "a ! k = R' ! k" using agree_nth [OF a k(1)] agree_nth [OF assms k(1)] by (rule trans [OF _ sym])
    then show "take n b ! k = take n a ! k" using eq k by simp
  qed (simp add: len)
  then show "agree n b R" using a len by (simp add: agree_def)
qed

lemma absorbs_same: "absorbs (same_line n opc R) R"
proof (cases "opc \<in> jump_ops")
  case True
  then show ?thesis using absorbs_agree [of n R R] by (simp add: same_line_def [abs_def])
next
  case False
  then show ?thesis by (auto simp: same_line_def absorbs_def intro: nth_equalityI)
qed

text \<open>What \<open>verifyInstruction\<close> does to the flags, the table and the registers, from the registers \<open>R\<close>.\<close>

definition insn_post :: "verify_env \<Rightarrow> u8 set \<Rightarrow> Method \<Rightarrow> int \<Rightarrow> RegType list \<Rightarrow> flow \<Rightarrow> flow \<Rightarrow> bool" where
  "insn_post env ifs meth i R st st' \<longleftrightarrow> (\<exists>d nextFlags v inTry.
     nextFlags = dexGetInstrFlags gDvm_instrFlags (opCode d) \<and> v = uint (flowFlags st ! nat i AND kInsnFlagWidthMask)
     \<and> inTry = (can kInstrCanThrow nextFlags \<and> flowFlags st ! nat i AND kInsnFlagInTry \<noteq> 0)
     \<and> decodeInstruction meth i = Ret d
     \<and> insn_effect env meth i d R (flowMap st) = ret (Some (flowRegs st'), flowMap st')
     \<and> flow_le env ifs (flowFlags st, regTable st) (flowFlags st', regTable st')
     \<and> flows env ifs meth i v nextFlags inTry R (flowRegs st') (flowFlags st', regTable st')
     \<and> (can kInstrCanContinue nextFlags \<longrightarrow> v > 0 \<and> startGuess st' = i + v)
     \<and> (\<forall>k<length (flowFlags st). regTable st ! k = None \<and> \<not> (can kInstrCanContinue nextFlags \<and> int k = i + v)
          \<longrightarrow> flowFlags st' ! k = flowFlags st ! k)
     \<and> (\<forall>l. regTable st' ! nat i = Some l \<longrightarrow> same_line (unat (registersSize meth)) (opCode d) R l))"

lemma decode_opcode: "decodeInstruction meth i = Ret d \<Longrightarrow> opCode d < 256"
  by (auto simp: decodeInstruction_def dexDecodeInstruction_def Let_def INST_INST_less dest: decode_fields_opCode split: if_splits list.splits)

lemma next_guess_continue:
  assumes "next_guess meth fs i nextFlags g = Ret g'" and "can kInstrCanContinue nextFlags" and "0 \<le> i" and "i < int (length fs)"
  shows "g' = i + uint (fs ! nat i AND kInsnFlagWidthMask)"
  using assms by (auto simp: next_guess_def dvmInsnGetWidth_def flags_at_def read_at_def)

lemma verify_ends:
  assumes e: "env_ok env ifs" and R: "line_ok (classes env) (unat (registersSize meth)) (flowRegs st)"
    and tab: "tab_ok env meth (regTable st)" and map: "map_ok (classes env) (flowMap st)"
    and len: "length (flowFlags st) = length (insns meth)" "length (regTable st) = length (insns meth)"
    and i: "0 \<le> i" "i < int (length (insns meth))" "touched (flowFlags st ! nat i)"
    and line: "\<And>l. regTable st ! nat i = Some l \<Longrightarrow> l = flowRegs st"
  shows "ends_with (verifyInstruction env meth i st) (\<lambda>r. \<forall>st'. r = Some st' \<longrightarrow>
    insn_post env ifs meth i (flowRegs st) st st' \<and> tab_ok env meth (regTable st') \<and> map_ok (classes env) (flowMap st')
    \<and> map_le (flowMap st) (flowMap st') \<and> line_ok (classes env) (unat (registersSize meth)) (flowRegs st')
    \<and> 0 \<le> startGuess st' \<and> startGuess st' < int (length (insns meth)))"
    (is "ends_with _ ?Q")
  unfolding verifyInstruction_def Let_def
proof (rule ends_with_bind_out, rule ends_with_bind_out)
  fix d :: DecodedInstruction and inTry
  let ?nf = "dexGetInstrFlags gDvm_instrFlags (opCode d)" and ?n = "unat (registersSize meth)" and ?R = "flowRegs st"
  let ?v = "uint (flowFlags st ! nat i AND kInsnFlagWidthMask)"
  assume d: "decodeInstruction meth i = Ret d"
    and tr: "(if can kInstrCanThrow ?nf then dvmInsnIsInTry (flowFlags st) i else Ret False) = Ret inTry"
  have inTry: "inTry = (can kInstrCanThrow ?nf \<and> flowFlags st ! nat i AND kInsnFlagInTry \<noteq> 0)"
    using tr i len by (auto simp: flag_is_def flags_at_def read_at_def split: if_splits)
  have nf: "?nf = instr_flags_of (opCode d)" using decode_opcode [OF d] by (simp add: dexGetInstrFlags_def gDvm_instrFlags_def)
  have jump: "can kInstrCanBranch ?nf \<or> can kInstrCanSwitch ?nf \<longleftrightarrow> opCode d \<in> jump_ops"
    using jump_flags [OF decode_opcode [OF d]] nf by simp
  show "ends_with (bind_run (insn_effect env meth i d ?R (flowMap st)) (\<lambda>(res, um). case res of
          None \<Rightarrow> ret None
        | Some regs \<Rightarrow>
            bind_run (flow_all env meth i ?nf inTry ?R regs (flowFlags st, regTable st)) (\<lambda>r. case r of
               None \<Rightarrow> ret None
             | Some (fs, tab) \<Rightarrow>
                 bind_run (Some (next_guess meth fs i ?nf (startGuess st))) (\<lambda>guess.
                   if \<not> (guess \<ge> 0 \<and> guess < dvmGetMethodInsnsSize meth) then Some AbortVM
                   else bind_run (Some (dvmInsnGetWidth fs guess)) (\<lambda>w.
                     if w = 0 then Some AbortVM
                     else ret (Some \<lparr>flowFlags = fs, regTable = tab, flowRegs = regs, flowMap = um, startGuess = guess\<rparr>)))))) ?Q"
  proof (cases "\<exists>R' um. insn_effect env meth i d ?R (flowMap st) = ret (Some R', um)")
    case False
    have "ends_with (case x of (res, um) \<Rightarrow> (case res of None \<Rightarrow> ret None | Some regs \<Rightarrow> k um regs)) ?Q"
      if "insn_effect env meth i d ?R (flowMap st) = ret x" for x k using that False by (cases x) (auto split: option.split)
    then show ?thesis
      using ends_withD(2) [OF insn_effect_ends [OF e R map]]
      by (auto simp: bind_run_def split: option.split outcome.split)
  next
    case True
    then obtain R' um where eff: "insn_effect env meth i d ?R (flowMap st) = ret (Some R', um)" by blast
    have post: "map_ok (classes env) um" "map_le (flowMap st) um" "line_ok (classes env) ?n R'"
      using ends_withD(1) [OF insn_effect_ends [OF e R map] eff] by auto
    define odd where "odd \<longleftrightarrow> can kInstrCanContinue ?nf \<and> ?v = 0 \<and> opCode d \<notin> jump_ops"
    define G where "G = (if odd then (\<lambda>_. True) else same_line ?n (opCode d) ?R)"
    have G: "absorbs G R'" if "can kInstrCanBranch ?nf \<or> can kInstrCanSwitch ?nf \<or> can kInstrCanContinue ?nf \<and> ?v = 0"
    proof (cases odd)
      case True
      then show ?thesis by (simp add: G_def absorbs_def)
    next
      case False
      then have op: "opCode d \<in> jump_ops" using that jump by (auto simp: odd_def)
      have "length ?R = ?n + kExtraRegs" using R by (simp add: line_ok_def)
      then have "absorbs (\<lambda>l. agree ?n l ?R) R'" using jump_effect(1) [OF op _ eff] absorbs_agree by blast
      then show ?thesis using False op by (simp add: G_def same_line_def [abs_def])
    qed
    have GR: "absorbs G ?R" using absorbs_same [of ?n "opCode d" ?R] by (auto simp: G_def absorbs_def)
    have "G ?R" by (simp add: G_def same_line_def)
    then have pre: "tab_ok env meth (regTable st) \<and> length (regTable st) = length (flowFlags st) \<and> line_in i ?v G (flowFlags st, regTable st)"
      using tab len i line by (auto simp: line_in_def)
    note flow = flow_all_safe [OF e post(3) R GR G, unfolded flow_safe_def, rule_format, OF _ pre]
    show ?thesis
      unfolding eff bind_run_simps prod.case option.case
    proof (rule ends_with_bind [OF flow])
      fix r assume r: "\<forall>fs tab. r = Some (fs, tab) \<longrightarrow> flow_le env ifs (flowFlags st, regTable st) (fs, tab) \<and> tab_ok env meth tab \<and> line_in i ?v G (fs, tab)
         \<and> (\<forall>k<length (flowFlags st). regTable st ! k = None \<and> int k \<notin> (if can kInstrCanContinue ?nf then {i + ?v} else {}) \<longrightarrow> fs ! k = flowFlags st ! k)
         \<and> flows env ifs meth i ?v ?nf inTry ?R R' (fs, tab)"
      show "ends_with (case r of None \<Rightarrow> ret None | Some (fs, tab) \<Rightarrow>
                 bind_run (Some (next_guess meth fs i ?nf (startGuess st))) (\<lambda>guess.
                   if \<not> (guess \<ge> 0 \<and> guess < dvmGetMethodInsnsSize meth) then Some AbortVM
                   else bind_run (Some (dvmInsnGetWidth fs guess)) (\<lambda>w.
                     if w = 0 then Some AbortVM
                     else ret (Some \<lparr>flowFlags = fs, regTable = tab, flowRegs = R', flowMap = um, startGuess = guess\<rparr>)))) ?Q"
      proof (cases r)
        case (Some ft)
        obtain fs tab where ft: "ft = (fs, tab)" by (cases ft)
        from r Some ft have s: "flow_le env ifs (flowFlags st, regTable st) (fs, tab)" "tab_ok env meth tab" "line_in i ?v G (fs, tab)"
          "\<forall>k<length (flowFlags st). regTable st ! k = None \<and> int k \<notin> (if can kInstrCanContinue ?nf then {i + ?v} else {}) \<longrightarrow> fs ! k = flowFlags st ! k"
          "flows env ifs meth i ?v ?nf inTry ?R R' (fs, tab)" by auto
        have fsi: "0 \<le> i" "i < int (length fs)" "uint (fs ! nat i AND kInsnFlagWidthMask) = ?v" using s(3) by (auto simp: line_in_def)
        have Q: "?Q (Some \<lparr>flowFlags = fs, regTable = tab, flowRegs = R', flowMap = um, startGuess = guess\<rparr>)"
          if g: "next_guess meth fs i ?nf (startGuess st) = Ret guess" "0 \<le> guess" "guess < dvmGetMethodInsnsSize meth"
            "dvmInsnGetWidth fs guess = Ret w" "w \<noteq> 0" for guess w
        proof -
          have cont: "?v > 0 \<and> guess = i + ?v" if c: "can kInstrCanContinue ?nf"
          proof -
            have gi: "guess = i + ?v" using next_guess_continue [OF g(1) c fsi(1,2)] fsi(3) by simp
            have "?v \<noteq> 0"
            proof
              assume "?v = 0"
              then have "dvmInsnGetWidth fs guess = Ret 0" using gi fsi by (simp add: dvmInsnGetWidth_def flags_at_def read_at_def)
              then show False using g(4,5) by simp
            qed
            then show ?thesis using gi by (simp add: order_less_le)
          qed
          then have "\<not> odd" by (auto simp: odd_def)
          then have "\<forall>l. tab ! nat i = Some l \<longrightarrow> same_line ?n (opCode d) ?R l" using s(3) by (simp add: line_in_def G_def)
          then have "insn_post env ifs meth i ?R st \<lparr>flowFlags = fs, regTable = tab, flowRegs = R', flowMap = um, startGuess = guess\<rparr>"
            unfolding insn_post_def using d eff s(1,5) inTry cont s(4)
            by (intro exI [of _ d] exI [of _ ?nf] exI [of _ ?v] exI [of _ inTry]) auto
          then show ?thesis using post s(2) g(2,3) by (simp add: dvmGetMethodInsnsSize_def)
        qed
        show ?thesis
          unfolding Some ft option.case prod.case
        proof (intro ends_with_bind_out ends_with_if)
          fix guess w assume "next_guess meth fs i ?nf (startGuess st) = Ret guess" "\<not> \<not> (0 \<le> guess \<and> guess < dvmGetMethodInsnsSize meth)"
            "dvmInsnGetWidth fs guess = Ret w" "w \<noteq> 0"
          then show "ends_with (ret (Some \<lparr>flowFlags = fs, regTable = tab, flowRegs = R', flowMap = um, startGuess = guess\<rparr>)) ?Q"
            unfolding ends_with_simps(2) by (intro Q) auto
        qed (simp_all only: ends_with_simps)
      qed simp
    qed
  qed
qed


text \<open>Processing an instruction: verify it, clear its mark and note the visit.\<close>

definition insn_step :: "verify_env \<Rightarrow> u8 set \<Rightarrow> Method \<Rightarrow> int \<Rightarrow> flow \<Rightarrow> flow \<Rightarrow> bool" where
  "insn_step env ifs meth i st st'' \<longleftrightarrow> (\<exists>st'. insn_post env ifs meth i (entry_regs st i) st st' \<and> map_le (flowMap st) (flowMap st')
     \<and> st'' = st'\<lparr>flowFlags := (flowFlags st')[nat i := processed (flowFlags st' ! nat i)]\<rparr>)"

lemma loop_invD:
  assumes "loop_inv env meth st"
  shows "length (flowFlags st) = length (insns meth)" and "length (regTable st) = length (insns meth)"
    and "tab_ok env meth (regTable st)" and "map_ok (classes env) (flowMap st)"
    and "k < length (insns meth) \<Longrightarrow> (regTable st ! k = None) = (\<not> is_target (flowFlags st ! k))"
    and "k < length (insns meth) \<Longrightarrow> is_changed (flowFlags st ! k) \<Longrightarrow> regTable st ! k = None \<Longrightarrow> int k = startGuess st"
    and "k < length (insns meth) \<Longrightarrow> is_changed (flowFlags st ! k) \<Longrightarrow> regTable st ! k = None
      \<Longrightarrow> line_ok (classes env) (unat (registersSize meth)) (flowRegs st)"
    and "0 \<le> startGuess st" and "startGuess st \<le> int (length (insns meth))"
  using assms unfolding loop_inv_def by blast+

lemma load_value:
  assumes inv: "loop_inv env meth st" and i: "0 \<le> i" "i < int (length (insns meth))" "is_changed (flowFlags st ! nat i)"
  shows "load_registers st i = ret (st\<lparr>flowRegs := entry_regs st i\<rparr>)"
    and "line_ok (classes env) (unat (registersSize meth)) (entry_regs st i)"
proof -
  note I = loop_invD [OF inv]
  have ni: "nat i < length (insns meth)" using i by (simp add: nat_less_iff)
  have "dvmInsnIsBranchTarget (flowFlags st) i = Ret (is_target (flowFlags st ! nat i))"
    using i I(1) by (simp add: flag_is_def flags_at_def read_at_def flag_words)
  moreover have "getRegisterLine (regTable st) i = Ret (regTable st ! nat i)" using i I(2) by (simp add: getRegisterLine_def read_at_def)
  ultimately show "load_registers st i = ret (st\<lparr>flowRegs := entry_regs st i\<rparr>)"
    using I(5) [OF ni] by (auto simp: load_registers_def entry_regs_def split: option.split)
  show "line_ok (classes env) (unat (registersSize meth)) (entry_regs st i)"
    using I(7) [OF ni i(3)] tab_okD [OF I(3)] ni I(2) by (auto simp: entry_regs_def split: option.split)
qed

lemma mark_visited_value:
  "0 \<le> i \<Longrightarrow> i < int (length fs) \<Longrightarrow> mark_visited fs i = Ret (fs[nat i := processed (fs ! nat i)])"
  by (simp add: mark_visited_def flag_set_def flags_at_def read_at_def)

lemma process_inv:
  assumes inv: "loop_inv env meth st" and i: "0 \<le> i" "i < int (length (insns meth))"
    and one: "\<And>k. k < length (insns meth) \<Longrightarrow> is_changed (flowFlags st ! k) \<Longrightarrow> regTable st ! k = None \<Longrightarrow> int k = i"
    and post: "insn_post env ifs meth i R st st'" and tab: "tab_ok env meth (regTable st')" and map: "map_ok (classes env) (flowMap st')"
    and regs: "line_ok (classes env) (unat (registersSize meth)) (flowRegs st')"
    and g: "0 \<le> startGuess st'" "startGuess st' < int (length (insns meth))"
  shows "loop_inv env meth (st'\<lparr>flowFlags := (flowFlags st')[nat i := processed (flowFlags st' ! nat i)]\<rparr>)"
proof -
  note I = loop_invD [OF inv]
  let ?fs = "(flowFlags st')[nat i := processed (flowFlags st' ! nat i)]"
  have le: "flow_le env ifs (flowFlags st, regTable st) (flowFlags st', regTable st')" using post by (auto simp: insn_post_def)
  note L = flow_leD [OF le]
  have cell: "cell_le env ifs (flowFlags st ! k, regTable st ! k) (flowFlags st' ! k, regTable st' ! k)" if "k < length (insns meth)" for k
    using L(4) [of "int k"] that I(1) by (simp del: cell_le.simps)
  have fs: "?fs ! k = (if k = nat i then processed (flowFlags st' ! k) else flowFlags st' ! k)" if "k < length (insns meth)" for k
    using that L(1) I(1) by (simp add: nth_list_update)
  have "(regTable st' ! k = None) = (\<not> is_target (?fs ! k))" if k: "k < length (insns meth)" for k
  proof -
    have "static_part (?fs ! k) = static_part (flowFlags st ! k)" using cell [OF k] fs [OF k] by (auto simp: insn_flag_bits)
    then have "is_target (?fs ! k) = is_target (flowFlags st ! k)" by (rule static_part_facts)
    then show ?thesis using I(5) [OF k] cell [OF k] by simp
  qed
  moreover have "int k = startGuess st'" if k: "k < length (insns meth)" "is_changed (?fs ! k)" "regTable st' ! k = None" for k
  proof -
    have ki: "k \<noteq> nat i" using fs [OF k(1)] k(2) by auto
    have none: "regTable st ! k = None" using cell [OF k(1)] k(3) by simp
    have "flowFlags st' ! k \<noteq> flowFlags st ! k" using one [OF k(1) _ none] fs [OF k(1)] ki k(2) by auto
    then show ?thesis using post none k(1) I(1) by (auto simp: insn_post_def)
  qed
  ultimately show ?thesis using L(1,2) I(1) tab map regs g by (simp add: loop_inv_def)
qed

lemma process_ends:
  assumes e: "env_ok env ifs" and inv: "loop_inv env meth st" and i: "0 \<le> i" "i < int (length (insns meth))" "is_changed (flowFlags st ! nat i)"
    and one: "\<And>k. k < length (insns meth) \<Longrightarrow> is_changed (flowFlags st ! k) \<Longrightarrow> regTable st ! k = None \<Longrightarrow> int k = i"
  shows "ends_with (process_insn env meth i st) (\<lambda>r. \<forall>st'. r = Some st' \<longrightarrow> insn_step env ifs meth i st st' \<and> loop_inv env meth st')"
proof -
  note I = loop_invD [OF inv]
  let ?R = "entry_regs st i" and ?st = "st\<lparr>flowRegs := entry_regs st i\<rparr>"
  note load = load_value [OF inv i]
  have line: "l = flowRegs ?st" if "regTable ?st ! nat i = Some l" for l using that by (simp add: entry_regs_def)
  have v: "ends_with (verifyInstruction env meth i ?st) (\<lambda>r. \<forall>st'. r = Some st' \<longrightarrow>
    insn_post env ifs meth i ?R ?st st' \<and> tab_ok env meth (regTable st') \<and> map_ok (classes env) (flowMap st')
    \<and> map_le (flowMap st) (flowMap st') \<and> line_ok (classes env) (unat (registersSize meth)) (flowRegs st')
    \<and> 0 \<le> startGuess st' \<and> startGuess st' < int (length (insns meth)))"
    using verify_ends [OF e, of meth ?st i] load(2) I i line by simp
  show ?thesis
    unfolding process_insn_def load(1) bind_run_simps
  proof (rule ends_with_bind [OF v])
    fix r assume r: "\<forall>st'. r = Some st' \<longrightarrow>
      insn_post env ifs meth i ?R ?st st' \<and> tab_ok env meth (regTable st') \<and> map_ok (classes env) (flowMap st')
      \<and> map_le (flowMap st) (flowMap st') \<and> line_ok (classes env) (unat (registersSize meth)) (flowRegs st')
      \<and> 0 \<le> startGuess st' \<and> startGuess st' < int (length (insns meth))"
    show "ends_with (case r of None \<Rightarrow> ret None
        | Some st \<Rightarrow> bind_run (Some (mark_visited (flowFlags st) i)) (\<lambda>fs. ret (Some (st\<lparr>flowFlags := fs\<rparr>))))
      (\<lambda>r. \<forall>st'. r = Some st' \<longrightarrow> insn_step env ifs meth i st st' \<and> loop_inv env meth st')"
    proof (cases r)
      case (Some st')
      have p: "insn_post env ifs meth i ?R st st'" using r Some by (simp add: insn_post_def)
      have "length (flowFlags st') = length (insns meth)"
        using p I(1) by (auto simp: insn_post_def dest: flow_leD(1))
      then have m: "mark_visited (flowFlags st') i = Ret ((flowFlags st')[nat i := processed (flowFlags st' ! nat i)])"
        using mark_visited_value i by simp
      have "loop_inv env meth (st'\<lparr>flowFlags := (flowFlags st')[nat i := processed (flowFlags st' ! nat i)]\<rparr>)"
        using process_inv [OF inv i(1,2) one p] r Some by blast
      then show ?thesis using r Some p unfolding Some option.case m by (auto simp: insn_step_def)
    qed simp
  qed
qed


section \<open>The loop ends\<close>

text \<open>How far a line can still grow.\<close>

definition height :: "verify_env \<Rightarrow> u8 set \<Rightarrow> RegType list \<Rightarrow> nat" where
  "height env ifs l = card {l'. length l' = length l \<and> line_le env ifs l l' \<and> l' \<noteq> l}"

lemma height_less:
  assumes "env_ok env ifs" and "line_le env ifs a b" and "a \<noteq> b"
  shows "height env ifs b < height env ifs a"
  unfolding height_def
proof (rule psubset_card_mono)
  have len: "length b = length a" using assms(2) by (simp add: line_le_def list_all2_lengthD)
  have "finite {l' :: RegType list. set l' \<subseteq> UNIV \<and> length l' = length a}" by (rule finite_lists_length_eq) simp
  then show "finite {l'. length l' = length a \<and> line_le env ifs a l' \<and> l' \<noteq> a}" by (rule rev_finite_subset) auto
  have "c \<noteq> a" if "line_le env ifs b c" for c using line_le_antisym [OF assms(1) assms(2)] that assms(3) by auto
  then show "{l'. length l' = length b \<and> line_le env ifs b l' \<and> l' \<noteq> b} \<subset> {l'. length l' = length a \<and> line_le env ifs a l' \<and> l' \<noteq> a}"
    using assms(2,3) len line_le_trans [OF assms(1,2)] by auto
qed

text \<open>
  The measure: the instructions not seen yet, the room left in the lines, the marked instructions that have a line, and the distance of a marked
  instruction without a line from the end. The last component counts the search from the top.
\<close>

definition untouched :: "flow \<Rightarrow> nat set" where
  "untouched st = {k. k < length (flowFlags st) \<and> \<not> touched (flowFlags st ! k)}"

definition room :: "verify_env \<Rightarrow> u8 set \<Rightarrow> flow \<Rightarrow> nat" where
  "room env ifs st = (\<Sum>k<length (regTable st). case regTable st ! k of None \<Rightarrow> 0 | Some l \<Rightarrow> height env ifs l)"

definition pending :: "flow \<Rightarrow> nat set" where
  "pending st = {k. k < length (flowFlags st) \<and> is_changed (flowFlags st ! k) \<and> regTable st ! k \<noteq> None}"

definition distance :: "flow \<Rightarrow> nat" where
  "distance st = (if \<exists>k<length (flowFlags st). is_changed (flowFlags st ! k) \<and> regTable st ! k = None
     then nat (int (length (flowFlags st)) - startGuess st) else 0)"

definition flow_measure :: "verify_env \<Rightarrow> u8 set \<Rightarrow> (flow \<times> flow) set" where
  "flow_measure env ifs = measures [\<lambda>st. card (untouched st), room env ifs, \<lambda>st. card (pending st), distance, \<lambda>st. nat (startGuess st)]"

lemma flow_measure_wf: "wf (flow_measure env ifs)"
  by (simp add: flow_measure_def)

lemma room_step:
  assumes e: "env_ok env ifs" and len: "length (regTable st') = length (regTable st)"
    and le: "\<And>k. k < length (regTable st) \<Longrightarrow> (regTable st' ! k = None) = (regTable st ! k = None)"
      "\<And>k a b. k < length (regTable st) \<Longrightarrow> regTable st ! k = Some a \<Longrightarrow> regTable st' ! k = Some b \<Longrightarrow> line_le env ifs a b"
  shows "room env ifs st' < room env ifs st \<or> regTable st' = regTable st"
proof (cases "regTable st' = regTable st")
  case False
  then obtain k where k: "k < length (regTable st)" "regTable st' ! k \<noteq> regTable st ! k" using len nth_equalityI by metis
  let ?h = "\<lambda>st k. case regTable st ! k of None \<Rightarrow> 0 | Some l \<Rightarrow> height env ifs l"
  have lt: "?h st' j < ?h st j" if j: "j < length (regTable st)" "regTable st' ! j \<noteq> regTable st ! j" for j
  proof -
    obtain a b where ab: "regTable st ! j = Some a" "regTable st' ! j = Some b" using le(1) [OF j(1)] j(2) by fastforce
    then show ?thesis using height_less [OF e le(2) [OF j(1) ab]] j(2) by simp
  qed
  have "?h st' j \<le> ?h st j" if "j < length (regTable st)" for j
    using lt [OF that] by (cases "regTable st' ! j = regTable st ! j") (simp_all add: less_imp_le)
  then have "(\<Sum>k<length (regTable st). ?h st' k) < (\<Sum>k<length (regTable st). ?h st k)"
    using lt [OF k] k(1) by (intro sum_strict_mono_ex1) auto
  then show ?thesis using len by (simp add: room_def)
qed simp

lemma step_decreases:
  assumes e: "env_ok env ifs" and inv: "loop_inv env meth st" and inv': "loop_inv env meth st'"
    and i: "0 \<le> i" "i < int (length (insns meth))" "is_changed (flowFlags st ! nat i)"
    and one: "\<And>k. k < length (insns meth) \<Longrightarrow> is_changed (flowFlags st ! k) \<Longrightarrow> regTable st ! k = None \<Longrightarrow> int k = i"
    and step: "insn_step env ifs meth i st st'"
  shows "(st', st) \<in> flow_measure env ifs"
proof -
  note I = loop_invD [OF inv] and I' = loop_invD [OF inv']
  obtain st1 where post: "insn_post env ifs meth i (entry_regs st i) st st1"
    and st': "st' = st1\<lparr>flowFlags := (flowFlags st1)[nat i := processed (flowFlags st1 ! nat i)]\<rparr>" using step by (auto simp: insn_step_def)
  have "flow_le env ifs (flowFlags st, regTable st) (flowFlags st1, regTable st1)" using post by (auto simp: insn_post_def)
  note L = flow_leD [OF this]
  have ni: "nat i < length (insns meth)" using i by (simp add: nat_less_iff)
  have cell: "cell_le env ifs (flowFlags st ! k, regTable st ! k) (flowFlags st1 ! k, regTable st' ! k)" if "k < length (insns meth)" for k
    using L(4) [of "int k"] that I(1) by (simp add: st' del: cell_le.simps)
  have other: "flowFlags st' ! k = flowFlags st1 ! k" if "k < length (insns meth)" "k \<noteq> nat i" for k
    using that L(1) I(1) by (simp add: st')
  have self: "\<not> is_changed (flowFlags st' ! nat i)" "touched (flowFlags st' ! nat i)" using ni L(1) I(1) by (simp_all add: st' insn_flag_bits)
  have tm: "touched (flowFlags st' ! k)" if "k < length (insns meth)" "touched (flowFlags st ! k)" for k
  proof (cases "k = nat i")
    case False
    then show ?thesis using cell [OF that(1)] other [OF that(1)] that(2) by auto
  qed (use self in simp)
  then have sub: "untouched st' \<subseteq> untouched st" using I(1) I'(1) by (auto simp: untouched_def)
  have fin: "finite (untouched st)" "finite (pending st)" by (auto simp: untouched_def pending_def)
  show ?thesis
  proof (cases "untouched st' = untouched st")
    case False
    then have "card (untouched st') < card (untouched st)" using sub fin by (intro psubset_card_mono) auto
    then show ?thesis by (simp add: flow_measure_def)
  next
    case A: True
    have seen: "touched (flowFlags st ! k)" if "k < length (insns meth)" "touched (flowFlags st' ! k)" for k
    proof (rule ccontr)
      assume "\<not> touched (flowFlags st ! k)"
      then have "k \<in> untouched st'" unfolding A using that(1) I(1) by (simp add: untouched_def)
      then show False using that(2) by (simp add: untouched_def)
    qed
    have same: "regTable st' ! k = regTable st ! k" if k: "k < length (insns meth)" "\<not> touched (flowFlags st ! k)" for k
    proof -
      have "k \<noteq> nat i" using k(2) i(3) by auto
      then have "\<not> touched (flowFlags st1 ! k)" using seen [OF k(1)] other [OF k(1)] k(2) by auto
      then show ?thesis using cell [OF k(1)] by simp
    qed
    have "room env ifs st' < room env ifs st \<or> regTable st' = regTable st"
    proof (rule room_step [OF e])
      show "line_le env ifs a b" if "k < length (regTable st)" "regTable st ! k = Some a" "regTable st' ! k = Some b" for k a b
        using same [of k] cell [of k] that I(2) by (cases "touched (flowFlags st ! k)") auto
      show "(regTable st' ! k = None) = (regTable st ! k = None)" if "k < length (regTable st)" for k using cell [of k] that I(2) by simp
    qed (simp add: I(2) I'(2))
    then show ?thesis
    proof
      assume "room env ifs st' < room env ifs st"
      then show ?thesis using A by (simp add: flow_measure_def)
    next
      assume B: "regTable st' = regTable st"
      have keep: "flowFlags st1 ! k = flowFlags st ! k" if k: "k < length (insns meth)" "regTable st ! k \<noteq> None" for k
      proof (rule ccontr)
        assume ne: "flowFlags st1 ! k \<noteq> flowFlags st ! k"
        then have "\<not> touched (flowFlags st ! k)" "is_changed (flowFlags st1 ! k)" using cell [OF k(1)] B k(2) by auto
        moreover from this(1) have "k \<noteq> nat i" using i(3) by auto
        ultimately show False using seen [OF k(1)] other [OF k(1)] by auto
      qed
      have pend: "pending st' = pending st - {nat i}"
      proof (rule set_eqI)
        fix k
        show "k \<in> pending st' \<longleftrightarrow> k \<in> pending st - {nat i}"
          using keep [of k] other [of k] self(1) unfolding pending_def I(1) I'(1) B by (cases "k = nat i") auto
      qed
      show ?thesis
      proof (cases "nat i \<in> pending st")
        case True
        then have "card (pending st') < card (pending st)" unfolding pend using fin(2) by (intro card_Diff1_less)
        then show ?thesis using A B by (simp add: flow_measure_def room_def)
      next
        case False
        then have none: "regTable st ! nat i = None" using ni i(3) I(1) by (simp add: pending_def)
        have g: "startGuess st = i" using I(6) [OF ni i(3) none] i(1) by simp
        have "distance st' < distance st"
        proof (cases "\<exists>k<length (insns meth). is_changed (flowFlags st' ! k) \<and> regTable st' ! k = None")
          case True
          then obtain k where k: "k < length (insns meth)" "is_changed (flowFlags st' ! k)" "regTable st' ! k = None" by blast
          have ki: "k \<noteq> nat i" using self(1) k(2) by auto
          have "flowFlags st1 ! k \<noteq> flowFlags st ! k" using one [OF k(1)] other [OF k(1) ki] k(2,3) B ki by auto
          then have "int k > i" using post k(1,3) I(1) B by (auto simp: insn_post_def)
          moreover have "startGuess st' = int k" using I'(6) [OF k] by simp
          moreover have "distance st = nat (int (length (insns meth)) - i)" "distance st' = nat (int (length (insns meth)) - startGuess st')"
            using ni i(3) none g I(1) I'(1) True unfolding distance_def by auto
          ultimately show ?thesis using k(1) by simp
        next
          case False
          then have "distance st' = 0" using I'(1) by (auto simp: distance_def)
          moreover have "distance st = nat (int (length (insns meth)) - i)" using ni i(3) none g I(1) unfolding distance_def by auto
          ultimately show ?thesis using i(2) by simp
        qed
        moreover have "pending st' = pending st" using pend False by simp
        ultimately show ?thesis using A B by (simp add: flow_measure_def room_def)
      qed
    qed
  qed
qed


lemma loop_inv_top:
  assumes "loop_inv env meth st" and "\<not> (\<exists>k<length (insns meth). is_changed (flowFlags st ! k) \<and> regTable st ! k = None)"
  shows "loop_inv env meth (st\<lparr>startGuess := 0\<rparr>)"
proof -
  have "\<forall>k<length (insns meth). is_changed (flowFlags st ! k) \<and> regTable st ! k = None
      \<longrightarrow> int k = 0 \<and> line_ok (classes env) (unat (registersSize meth)) (flowRegs st)" using assms(2) by blast
  moreover have "0 \<le> (0::int)" "0 \<le> int (length (insns meth))" by simp_all
  moreover have sel: "flowFlags (st\<lparr>startGuess := 0\<rparr>) = flowFlags st" "regTable (st\<lparr>startGuess := 0\<rparr>) = regTable st"
    "flowMap (st\<lparr>startGuess := 0\<rparr>) = flowMap st" "flowRegs (st\<lparr>startGuess := 0\<rparr>) = flowRegs st" "startGuess (st\<lparr>startGuess := 0\<rparr>) = 0"
    by simp_all
  ultimately show ?thesis
    using assms(1) unfolding loop_inv_def sel by (elim conjE) (intro conjI; assumption)
qed

lemma find_changed_value:
  "0 \<le> g \<Longrightarrow> g \<le> int (length fs) \<Longrightarrow> \<exists>i. find_changed fs g (int (length fs)) = Ret i \<and> g \<le> i \<and> i \<le> int (length fs)
     \<and> (\<forall>k. g \<le> int k \<and> int k < i \<longrightarrow> \<not> is_changed (fs ! k)) \<and> (i < int (length fs) \<longrightarrow> is_changed (fs ! nat i))"
proof (induction "nat (int (length fs) - g)" arbitrary: g)
  case 0
  then show ?case by (subst find_changed.simps) auto
next
  case (Suc n)
  then have g: "0 \<le> g" "g < int (length fs)" by auto
  have c: "dvmInsnIsChanged fs g = Ret (is_changed (fs ! nat g))" using g by (simp add: flag_is_def flags_at_def read_at_def flag_words)
  show ?case
  proof (cases "is_changed (fs ! nat g)")
    case True
    then show ?thesis using g c by (subst find_changed.simps) auto
  next
    case False
    have n: "n = nat (int (length fs) - (g + 1))" using Suc.hyps(2) g by linarith
    obtain i where i: "find_changed fs (g + 1) (int (length fs)) = Ret i" "g + 1 \<le> i" "i \<le> int (length fs)"
      "\<forall>k. g + 1 \<le> int k \<and> int k < i \<longrightarrow> \<not> is_changed (fs ! k)" "i < int (length fs) \<longrightarrow> is_changed (fs ! nat i)"
      using Suc.hyps(1) [OF n] g by auto
    have "\<not> is_changed (fs ! k)" if k: "g \<le> int k" "int k < i" for k
    proof (cases "int k = g")
      case True then show ?thesis using False by auto
    next
      case neq: False then show ?thesis using i(4) k by auto
    qed
    then show ?thesis using i g c False by (subst find_changed.simps) auto
  qed
qed

text \<open>
  The loop ends on every input that satisfies its invariant, and keeps everything that each single step keeps; no instruction is marked when it accepts.
\<close>

lemma code_loop_ends:
  assumes e: "env_ok env ifs" and inv: "loop_inv env meth st" and P: "P st"
    and step: "\<And>i st st'. \<lbrakk>loop_inv env meth st; P st; 0 \<le> i; i < int (length (insns meth)); is_changed (flowFlags st ! nat i);
      \<And>k. \<lbrakk>k < length (insns meth); is_changed (flowFlags st ! k); regTable st ! k = None\<rbrakk> \<Longrightarrow> int k = i;
      insn_step env ifs meth i st st'; loop_inv env meth st'\<rbrakk> \<Longrightarrow> P st'"
    and top: "\<And>st. P st \<Longrightarrow> P (st\<lparr>startGuess := 0\<rparr>)"
  shows "ends_with (code_loop env meth st)
    (\<lambda>r. \<forall>st'. r = Some st' \<longrightarrow> loop_inv env meth st' \<and> P st' \<and> (\<forall>k<length (insns meth). \<not> is_changed (flowFlags st' ! k)))"
  using flow_measure_wf [of env ifs] inv P
proof (induction st rule: wf_induct_rule)
  case (less st)
  note I = loop_invD [OF less.prems(1)]
  let ?N = "int (length (insns meth))"
  let ?Q = "\<lambda>r. \<forall>st'. r = Some st' \<longrightarrow> loop_inv env meth st' \<and> P st' \<and> (\<forall>k<length (insns meth). \<not> is_changed (flowFlags st' ! k))"
  have N: "dvmGetMethodInsnsSize meth = ?N" by (simp add: dvmGetMethodInsnsSize_def)
  obtain i where i: "find_changed (flowFlags st) (startGuess st) ?N = Ret i" "startGuess st \<le> i" "i \<le> ?N"
    "\<forall>k. startGuess st \<le> int k \<and> int k < i \<longrightarrow> \<not> is_changed (flowFlags st ! k)" "i < ?N \<longrightarrow> is_changed (flowFlags st ! nat i)"
    using find_changed_value [OF I(8), of "flowFlags st"] I(1,9) by auto
  have one: "int k = i" if k: "k < length (insns meth)" "is_changed (flowFlags st ! k)" "regTable st ! k = None" for k
  proof -
    have "int k = startGuess st" using I(6) [OF k] .
    then show ?thesis using i(2,4) k(2) by (metis order_le_less order_refl)
  qed
  show ?case
  proof (cases "i = ?N")
    case True
    have clean: "\<not> is_changed (flowFlags st ! k)" if "startGuess st \<le> int k" "k < length (insns meth)" for k
      using i(4) True that by auto
    show ?thesis
    proof (cases "startGuess st = 0")
      case first: True
      then have "code_loop env meth st = ret (Some st)" using i(1) True N by (subst code_loop.simps) simp
      then show ?thesis using less.prems clean first by simp
    next
      case False
      let ?st = "st\<lparr>startGuess := 0\<rparr>"
      have none: "\<not> (\<exists>k<length (insns meth). is_changed (flowFlags st ! k) \<and> regTable st ! k = None)"
        using one True clean by fastforce
      have inv': "loop_inv env meth ?st" by (rule loop_inv_top [OF less.prems(1) none])
      have "distance ?st = 0" "distance st = 0" using none I(1) by (auto simp: distance_def)
      then have "(?st, st) \<in> flow_measure env ifs"
        using False I(8) by (simp add: flow_measure_def untouched_def room_def pending_def)
      from less.IH [OF this inv' top [OF less.prems(2)]] have "ends_with (code_loop env meth ?st) ?Q" .
      moreover have "code_loop env meth st = code_loop env meth ?st" using i(1) True False N by (subst code_loop.simps) simp
      ultimately show ?thesis by simp
    qed
  next
    case False
    then have in_range: "0 \<le> i" "i < ?N" "is_changed (flowFlags st ! nat i)" using i(2,3,5) I(8) by auto
    have p: "ends_with (process_insn env meth i st) (\<lambda>r. \<forall>st'. r = Some st' \<longrightarrow> insn_step env ifs meth i st st' \<and> loop_inv env meth st')"
      by (rule process_ends [OF e less.prems(1) in_range]) (rule one)
    have go: "ends_with (code_loop env meth st') ?Q" if "process_insn env meth i st = ret (Some st')" for st'
    proof -
      have s: "insn_step env ifs meth i st st'" "loop_inv env meth st'" using ends_withD(1) [OF p that, THEN spec, THEN mp, OF refl] by blast+
      have "(st', st) \<in> flow_measure env ifs" by (rule step_decreases [OF e less.prems(1) s(2) in_range _ s(1)]) (rule one)
      moreover have "P st'" by (rule step [OF less.prems in_range _ s]) (rule one)
      ultimately show ?thesis using less.IH s(2) by simp
    qed
    have eq: "code_loop env meth st = (case process_insn env meth i st of
            None \<Rightarrow> None
          | Some AbortVM \<Rightarrow> Some AbortVM
          | Some OutOfBounds \<Rightarrow> Some OutOfBounds
          | Some (Ret None) \<Rightarrow> Some (Ret None)
          | Some (Ret (Some st)) \<Rightarrow> code_loop env meth st)"
      using i(1) False N by (subst code_loop.simps) simp
    show ?thesis unfolding eq using go ends_withD(2) [OF p] by (auto split: option.split outcome.split)
  qed
qed

end
