(* ===== verification/VerifyTyping.thy ===== *)
theory VerifyTyping
  imports VerifyLoop
begin

text \<open>
  When the data-flow pass accepts a method, there is a typing of its code: register types for every instruction that can be reached, such that the
  instruction passes its check from them, and the types at each successor cover the types it leaves.
\<close>

lemma ends_with_self: "ends_with m Q \<Longrightarrow> ends_with m (\<lambda>x. Q x \<and> m = ret x)"
  by (auto simp: ends_with_def split: option.splits outcome.splits)

lemma ends_with_True: "ends_with m (\<lambda>_. True) \<longleftrightarrow> m \<noteq> None"
  by (auto simp: ends_with_def split: option.splits outcome.splits)

section \<open>Layout\<close>

lemma insn_from_linear:
  assumes "insn_from meth i a" and "insn_from meth i b"
  shows "insn_from meth a b \<or> insn_from meth b a"
  using assms
proof (induction rule: insn_from.induct)
  case (insn_here i) then show ?case by simp
next
  case (insn_next i w j)
  from insn_next.prems show ?case
  proof (cases rule: insn_from.cases)
    case insn_here
    then show ?thesis using insn_next.hyps insn_from.insn_next by blast
  next
    case (insn_next w')
    then have "insn_from meth (i + w) b" using insn_next.hyps(2) by simp
    then show ?thesis using insn_next.IH by blast
  qed
qed

text \<open>No two instructions end at the same place.\<close>

lemma layout_unique:
  assumes lay: "laid_out meth fs 0" and size: "dvmGetMethodInsnsSize meth < 2 ^ 31 - 3"
    and a: "dvmInsnGetWidth fs a = Ret v" "v > 0" and b: "dvmInsnGetWidth fs b = Ret w" "w > 0" and ends: "a + v = b + w"
  shows "a = b"
proof -
  have no: "\<not> a < b" if a: "dvmInsnGetWidth fs a = Ret v" "v > 0" and b: "dvmInsnGetWidth fs b = Ret w" "w > 0" and ends: "a + v = b + w" for a b v w
  proof
    assume "a < b"
    have A: "0 \<le> a" "insn_start meth a" "code_width meth a = Ret (Some v)" using laid_out_start [OF lay a(1)] a(2) by simp_all
    have B: "0 \<le> b" "insn_start meth b" using laid_out_start [OF lay b(1)] b(2) by simp_all
    consider "insn_from meth a b" | "insn_from meth b a" using insn_from_linear A(2) B(2) by (auto simp: insn_start_def)
    then show False
    proof cases
      case 1
      then have "insn_from meth (a + v) b" using \<open>a < b\<close> A(3) by (auto elim: insn_fromE)
      then have "a + v \<le> b" using insn_from_le B(1) size by blast
      then show False using ends b(2) by simp
    next
      case 2
      then show False using insn_from_le A(1) size \<open>a < b\<close> by fastforce
    qed
  qed
  show ?thesis using no [OF a b ends] no [OF b a ends [symmetric]] by simp
qed


section \<open>The typing under construction\<close>

text \<open>
  \<open>Gamma\<close> remembers the registers of the instructions without a line. Such an instruction is reached from its predecessor: it has
  been verified with the registers its predecessor left, or it is the next one to be verified and they are the working registers.
\<close>

definition follows :: "verify_env \<Rightarrow> u8 set \<Rightarrow> (nat \<Rightarrow> RegType list) \<Rightarrow> flow \<Rightarrow> RegType list \<Rightarrow> int \<Rightarrow> bool" where
  "follows env ifs Gamma st regs j \<longleftrightarrow> reaches env ifs regs j (flowFlags st, regTable st)
     \<or> 0 \<le> j \<and> j < int (length (flowFlags st)) \<and> regTable st ! nat j = None
       \<and> (is_changed (flowFlags st ! nat j) \<and> flowRegs st = regs
          \<or> is_visited (flowFlags st ! nat j) \<and> \<not> is_changed (flowFlags st ! nat j) \<and> Gamma (nat j) = regs)"

text \<open>The ways out of an instruction other than to the next one.\<close>

definition jumps ::
  "verify_env \<Rightarrow> u8 set \<Rightarrow> Method \<Rightarrow> int \<Rightarrow> InstructionFlags \<Rightarrow> bool \<Rightarrow> RegType list \<Rightarrow> RegType list \<Rightarrow> InsnFlags list \<times> RegisterTable \<Rightarrow> bool" where
  "jumps env ifs meth i nextFlags inTry entryRegs regs ft \<longleftrightarrow>
     (can kInstrCanBranch nextFlags \<longrightarrow> (\<forall>off c. dvmGetBranchTarget meth i = Ret (Some (off, c)) \<longrightarrow> reaches env ifs regs (i + off) ft))
     \<and> (can kInstrCanSwitch nextFlags \<longrightarrow> (\<forall>ts j. switch_targets_wide meth i = Ret ts \<and> j \<in> set ts \<longrightarrow> reaches env ifs regs j ft))
     \<and> (inTry \<longrightarrow> (\<forall>j\<in>handlers_at meth i. reaches env ifs entryRegs j ft))"

lemma flows_jumps:
  "flows env ifs meth i v nextFlags inTry entryRegs regs ft \<longleftrightarrow>
     (can kInstrCanContinue nextFlags \<longrightarrow> arrives env ifs regs (i + v) ft) \<and> jumps env ifs meth i nextFlags inTry entryRegs regs ft"
  unfolding flows_def jumps_def by (rule refl)

lemma jumps_mono:
  "jumps env ifs meth i nextFlags inTry entryRegs regs ft \<Longrightarrow> (\<And>r j. reaches env ifs r j ft \<Longrightarrow> reaches env ifs r j ft')
     \<Longrightarrow> jumps env ifs meth i nextFlags inTry entryRegs regs ft'"
  unfolding jumps_def by blast

abbreviation width_at :: "InsnFlags list \<Rightarrow> int \<Rightarrow> int" where
  "width_at fs i \<equiv> uint (fs ! nat i AND kInsnFlagWidthMask)"

abbreviation in_try_at :: "InsnFlags list \<Rightarrow> int \<Rightarrow> InstructionFlags \<Rightarrow> bool" where
  "in_try_at fs i nextFlags \<equiv> can kInstrCanThrow nextFlags \<and> fs ! nat i AND kInsnFlagInTry \<noteq> 0"

text \<open>The instruction at \<open>i\<close> has passed its check from \<open>R\<close>, and what it leaves has been passed on.\<close>

definition checked ::
  "verify_env \<Rightarrow> u8 set \<Rightarrow> Method \<Rightarrow> InsnFlags list \<Rightarrow> (nat \<Rightarrow> RegType list) \<Rightarrow> flow \<Rightarrow> int \<Rightarrow> RegType list \<Rightarrow> bool" where
  "checked env ifs meth fs Gamma st i R \<longleftrightarrow> (\<exists>d R' um um' nextFlags.
     decodeInstruction meth i = Ret d \<and> nextFlags = dexGetInstrFlags gDvm_instrFlags (opCode d)
     \<and> insn_effect env meth i d R um = ret (Some R', um') \<and> map_le um' (flowMap st)
     \<and> (can kInstrCanContinue nextFlags \<longrightarrow> width_at fs i > 0 \<and> follows env ifs Gamma st R' (i + width_at fs i))
     \<and> jumps env ifs meth i nextFlags (in_try_at fs i nextFlags) R R' (flowFlags st, regTable st))"

definition typing_inv :: "verify_env \<Rightarrow> u8 set \<Rightarrow> Method \<Rightarrow> InsnFlags list \<Rightarrow> RegType list \<Rightarrow> (nat \<Rightarrow> RegType list) \<Rightarrow> flow \<Rightarrow> bool" where
  "typing_inv env ifs meth fs R0 Gamma st \<longleftrightarrow>
     (\<forall>k<length (insns meth). static_part (flowFlags st ! k) = static_part (fs ! k))
     \<and> reaches env ifs R0 0 (flowFlags st, regTable st)
     \<and> (\<forall>k<length (insns meth). is_visited (flowFlags st ! k) \<and> \<not> is_changed (flowFlags st ! k)
          \<longrightarrow> checked env ifs meth fs Gamma st (int k) (case regTable st ! k of None \<Rightarrow> Gamma k | Some l \<Rightarrow> l))"

lemma typing_invD:
  assumes "typing_inv env ifs meth fs R0 Gamma st"
  shows "k < length (insns meth) \<Longrightarrow> static_part (flowFlags st ! k) = static_part (fs ! k)"
    and "reaches env ifs R0 0 (flowFlags st, regTable st)"
    and "k < length (insns meth) \<Longrightarrow> is_visited (flowFlags st ! k) \<Longrightarrow> \<not> is_changed (flowFlags st ! k)
      \<Longrightarrow> checked env ifs meth fs Gamma st (int k) (case regTable st ! k of None \<Rightarrow> Gamma k | Some l \<Rightarrow> l)"
  using assms unfolding typing_inv_def by blast+

text \<open>Noting the visit of an instruction keeps what has been reached.\<close>

lemma reaches_processed:
  assumes "reaches env ifs r j (fs, tab)"
  shows "reaches env ifs r j (fs[i := processed (fs ! i)], tab)"
proof (cases "nat j = i")
  case True
  then show ?thesis using assms by (auto simp: reaches_def nth_list_update)
next
  case False
  then show ?thesis using assms by (auto simp: reaches_def)
qed

lemma jump_no_throw:
  assumes "opc \<in> jump_ops"
  shows "\<not> can kInstrCanThrow (dexGetInstrFlags gDvm_instrFlags opc)"
proof -
  have "map (\<lambda>f. f AND kInstrCanThrow \<noteq> 0) (map instr_flags_of [0..<256]) ! opc = False \<and> opc < 256"
    using assms unfolding flags_table_eq jump_ops_def branch_ops_def by (elim UnE insertE emptyE) (simp_all add: flag_defs)
  then show ?thesis by (auto simp: can_def dexGetInstrFlags_def gDvm_instrFlags_def)
qed


lemma checked_mono:
  assumes "checked env ifs meth fs Gamma st i R" and "\<And>r j. reaches env ifs r j (flowFlags st, regTable st) \<Longrightarrow> reaches env ifs r j (flowFlags st', regTable st')"
    and "map_le (flowMap st) (flowMap st')"
    and "\<And>regs. width_at fs i > 0 \<Longrightarrow> follows env ifs Gamma st regs (i + width_at fs i) \<Longrightarrow> follows env ifs Gamma' st' regs (i + width_at fs i)"
  shows "checked env ifs meth fs Gamma' st' i R"
proof -
  obtain d R' um um' nf where c: "decodeInstruction meth i = Ret d" "nf = dexGetInstrFlags gDvm_instrFlags (opCode d)"
    "insn_effect env meth i d R um = ret (Some R', um')" "map_le um' (flowMap st)"
    "can kInstrCanContinue nf \<longrightarrow> width_at fs i > 0 \<and> follows env ifs Gamma st R' (i + width_at fs i)"
    "jumps env ifs meth i nf (in_try_at fs i nf) R R' (flowFlags st, regTable st)"
    using assms(1) unfolding checked_def by (elim exE conjE) (rule that; assumption)
  have "jumps env ifs meth i nf (in_try_at fs i nf) R R' (flowFlags st', regTable st')" by (rule jumps_mono [OF c(6) assms(2)])
  moreover have "map_le um' (flowMap st')" by (rule map_le_trans [OF c(4) assms(3)])
  moreover have "can kInstrCanContinue nf \<longrightarrow> width_at fs i > 0 \<and> follows env ifs Gamma' st' R' (i + width_at fs i)" using c(5) assms(4) by simp
  ultimately show ?thesis unfolding checked_def using c(1-3) by blast
qed

lemma typing_step:
  assumes e: "env_ok env ifs" and lay: "laid_out meth fs 0" and size: "dvmGetMethodInsnsSize meth < 2 ^ 31 - 3"
    and inv: "loop_inv env meth st" and P: "typing_inv env ifs meth fs R0 Gamma st"
    and i: "0 \<le> i" "i < int (length (insns meth))" "is_changed (flowFlags st ! nat i)"
    and one: "\<And>k. k < length (insns meth) \<Longrightarrow> is_changed (flowFlags st ! k) \<Longrightarrow> regTable st ! k = None \<Longrightarrow> int k = i"
    and step: "insn_step env ifs meth i st st'" and inv': "loop_inv env meth st'"
  shows "typing_inv env ifs meth fs R0 (Gamma(nat i := entry_regs st i)) st'"
proof -
  note I = loop_invD [OF inv] and I' = loop_invD [OF inv'] and T = typing_invD [OF P]
  let ?R = "entry_regs st i" and ?n = "unat (registersSize meth)" and ?G = "Gamma(nat i := entry_regs st i)"
  obtain st1 where post: "insn_post env ifs meth i ?R st st1" and um: "map_le (flowMap st) (flowMap st1)"
    and st': "st' = st1\<lparr>flowFlags := (flowFlags st1)[nat i := processed (flowFlags st1 ! nat i)]\<rparr>" using step by (auto simp: insn_step_def)
  obtain d nf v inTry where nf: "nf = dexGetInstrFlags gDvm_instrFlags (opCode d)" and v: "v = width_at (flowFlags st) i"
    and tr: "inTry = in_try_at (flowFlags st) i nf" and d: "decodeInstruction meth i = Ret d"
    and eff: "insn_effect env meth i d ?R (flowMap st) = ret (Some (flowRegs st1), flowMap st1)"
    and le: "flow_le env ifs (flowFlags st, regTable st) (flowFlags st1, regTable st1)"
    and fl: "flows env ifs meth i v nf inTry ?R (flowRegs st1) (flowFlags st1, regTable st1)"
    and cont: "can kInstrCanContinue nf \<longrightarrow> v > 0 \<and> startGuess st1 = i + v"
    and out: "\<forall>k<length (flowFlags st). regTable st ! k = None \<and> \<not> (can kInstrCanContinue nf \<and> int k = i + v) \<longrightarrow> flowFlags st1 ! k = flowFlags st ! k"
    and own: "\<forall>l. regTable st1 ! nat i = Some l \<longrightarrow> same_line ?n (opCode d) ?R l"
    using post unfolding insn_post_def by (elim exE conjE) (rule that; assumption)
  note L = flow_leD [OF le]
  have ni: "nat i < length (insns meth)" using i by (simp add: nat_less_iff)
  have tab': "regTable st' = regTable st1" and regs': "flowRegs st' = flowRegs st1" and map': "flowMap st' = flowMap st1" by (simp_all add: st')
  have cell: "cell_le env ifs (flowFlags st ! k, regTable st ! k) (flowFlags st1 ! k, regTable st1 ! k)" if "k < length (insns meth)" for k
    using L(4) [of "int k"] that I(1) by (simp del: cell_le.simps)
  have other: "flowFlags st' ! k = flowFlags st1 ! k" if "k \<noteq> nat i" for k using that by (simp add: st')
  have self: "\<not> is_changed (flowFlags st' ! nat i)" "is_visited (flowFlags st' ! nat i)" using ni L(1) I(1) by (simp_all add: st' insn_flag_bits)
  have r1: "reaches env ifs r j (flowFlags st', regTable st')" if "reaches env ifs r j (flowFlags st1, regTable st1)" for r j
    using reaches_processed [OF that, of "nat i"] by (simp add: st')
  have r: "reaches env ifs r j (flowFlags st', regTable st')" if "reaches env ifs r j (flowFlags st, regTable st)" for r j
    by (rule r1 [OF flow_reaches_mono [OF e le that]])
  have static: "static_part (flowFlags st' ! k) = static_part (fs ! k)" if k: "k < length (insns meth)" for k
  proof -
    have "static_part (flowFlags st1 ! k) = static_part (flowFlags st ! k)" using cell [OF k] by (auto simp: insn_flag_bits)
    then show ?thesis using T(1) [OF k] other [of k] ni L(1) I(1) by (cases "k = nat i") (simp_all add: st' insn_flag_bits)
  qed
  have same: "width_at (flowFlags st) i = width_at fs i" "(in_try_at (flowFlags st) i nf) = (in_try_at fs i nf)"
    using static_part_facts(2,3) [OF T(1) [OF ni]] by simp_all
  have width: "dvmInsnGetWidth fs (int k) = Ret (width_at fs (int k))" if "k < length (insns meth)" for k
    using that lay by (simp add: dvmInsnGetWidth_def flags_at_def read_at_def laid_out_def)
  have keep: "follows env ifs ?G st' regs (int k + width_at fs (int k))"
    if f: "follows env ifs Gamma st regs (int k + width_at fs (int k))" and k: "k < length (insns meth)" "k \<noteq> nat i" "width_at fs (int k) > 0" for regs k
  proof (cases "reaches env ifs regs (int k + width_at fs (int k)) (flowFlags st, regTable st)")
    case True
    then show ?thesis using r by (simp add: follows_def)
  next
    case False
    define j where "j = int k + width_at fs (int k)"
    have j: "0 \<le> j" "j < int (length (insns meth))" "regTable st ! nat j = None"
      "is_changed (flowFlags st ! nat j) \<and> flowRegs st = regs \<or> is_visited (flowFlags st ! nat j) \<and> \<not> is_changed (flowFlags st ! nat j) \<and> Gamma (nat j) = regs"
      using f False I(1) unfolding follows_def j_def by auto
    have nj: "nat j < length (insns meth)" using j by (simp add: nat_less_iff)
    have none: "regTable st' ! nat j = None" using cell [OF nj] j(3) by (simp add: tab')
    have "is_visited (flowFlags st' ! nat j) \<and> \<not> is_changed (flowFlags st' ! nat j) \<and> ?G (nat j) = regs"
    proof (cases "is_changed (flowFlags st ! nat j)")
      case True
      then have "j = i" using one [OF nj _ j(3)] j(1) by simp
      then show ?thesis using self j(3,4) True by (simp add: entry_regs_def)
    next
      case unchanged: False
      then have ji: "nat j \<noteq> nat i" using i(3) by auto
      have "\<not> (can kInstrCanContinue nf \<and> j = i + v)"
      proof
        assume "can kInstrCanContinue nf \<and> j = i + v"
        then have "int k = i" using layout_unique [OF lay size width [OF k(1)] k(3), of i v] width [OF ni] i(1) cont v same(1) by (simp add: j_def)
        then show False using k(2) by simp
      qed
      then have "flowFlags st' ! nat j = flowFlags st ! nat j" using out nj j(1,3) other [OF ji] I(1) by simp
      then show ?thesis using unchanged j(4) ji by simp
    qed
    then show ?thesis using j(1,2) none unfolding j_def [symmetric] follows_def I'(1) by blast
  qed
  have stays: "checked env ifs meth fs ?G st' (int k) (case regTable st' ! k of None \<Rightarrow> ?G k | Some l \<Rightarrow> l)"
    if k: "k < length (insns meth)" "is_visited (flowFlags st' ! k)" "\<not> is_changed (flowFlags st' ! k)" "k \<noteq> nat i" for k
  proof -
    have eq: "flowFlags st' ! k = flowFlags st ! k" "regTable st' ! k = regTable st ! k" using cell [OF k(1)] other [OF k(4)] k(3) by (auto simp: tab')
    have "checked env ifs meth fs Gamma st (int k) (case regTable st ! k of None \<Rightarrow> Gamma k | Some l \<Rightarrow> l)" using T(3) [OF k(1)] k(2,3) eq by simp
    moreover have "(case regTable st' ! k of None \<Rightarrow> ?G k | Some l \<Rightarrow> l) = (case regTable st ! k of None \<Rightarrow> Gamma k | Some l \<Rightarrow> l)"
      using k(4) eq(2) by (simp split: option.split)
    ultimately show ?thesis using checked_mono [OF _ r um [folded map'] keep [OF _ k(1,4)]] by simp
  qed
  have here: "checked env ifs meth fs ?G st' i (case regTable st' ! nat i of None \<Rightarrow> ?R | Some l \<Rightarrow> l)"
  proof -
    let ?l = "case regTable st' ! nat i of None \<Rightarrow> ?R | Some l \<Rightarrow> l"
    have l: "same_line ?n (opCode d) ?R ?l" using own by (auto simp: tab' same_line_def split: option.split)
    have len: "length ?R = ?n + kExtraRegs" using load_value(2) [OF inv i] by (simp add: line_ok_def)
    have "insn_effect env meth i d ?l (flowMap st) = ret (Some (flowRegs st'), flowMap st')"
      using l jump_effect(3) [OF _ len eff] eff by (auto simp: same_line_def regs' map' split: if_splits)
    moreover have "jumps env ifs meth i nf (in_try_at fs i nf) ?l (flowRegs st') (flowFlags st', regTable st')"
    proof -
      have j: "jumps env ifs meth i nf inTry ?R (flowRegs st') (flowFlags st', regTable st')"
        by (rule jumps_mono [OF conjunct2 [OF fl [unfolded flows_jumps, folded regs']]]) (rule r1)
      show ?thesis
        using j l jump_no_throw [of "opCode d"] same(2) tr nf by (cases "opCode d \<in> jump_ops") (auto simp: jumps_def same_line_def)
    qed
    moreover have "width_at fs i > 0 \<and> follows env ifs ?G st' (flowRegs st') (i + width_at fs i)" if c: "can kInstrCanContinue nf"
    proof -
      have pos: "v > 0" "arrives env ifs (flowRegs st1) (i + v) (flowFlags st1, regTable st1)" using cont fl c by (simp_all add: flows_jumps)
      have "nat (i + v) \<noteq> nat i" using pos(1) i(1) by (simp add: nat_eq_iff)
      then show ?thesis
        using pos r1 other [of "nat (i + v)"] L(1) I(1) I'(1) v same(1) by (auto simp: follows_def arrives_def tab' regs')
    qed
    ultimately show ?thesis
      unfolding checked_def using d nf by (intro exI [of _ d] exI [of _ "flowRegs st'"] exI [of _ "flowMap st"] exI [of _ "flowMap st'"] exI [of _ nf]) simp
  qed
  show ?thesis
    unfolding typing_inv_def
  proof (intro conjI allI impI)
    fix k assume k: "k < length (insns meth)" "is_visited (flowFlags st' ! k) \<and> \<not> is_changed (flowFlags st' ! k)"
    show "checked env ifs meth fs ?G st' (int k) (case regTable st' ! k of None \<Rightarrow> ?G k | Some l \<Rightarrow> l)"
    proof (cases "k = nat i")
      case True
      then show ?thesis using here i(1) by (simp split: option.splits)
    next
      case False
      then show ?thesis using stays k by simp
    qed
  qed (use static r T(2) in auto)
qed


section \<open>The entry of the method\<close>

lemma set_arg_types_ends:
  assumes e: "env_ok env ifs" and "line_ok (classes env) n regs"
  shows "ends_with (set_arg_types env meth start ds regs k) (\<lambda>r. \<forall>l a. r = Some (l, a) \<longrightarrow> line_ok (classes env) n l)"
  using assms(2)
proof (induction ds arbitrary: regs k)
  case (Cons desc ds)
  let ?Q = "\<lambda>r. \<forall>l a. r = Some (l, a) \<longrightarrow> line_ok (classes env) n l"
  have one: "ends_with (bind_run (Some (list_store regs j t)) (\<lambda>r. set_arg_types env meth start ds r k')) ?Q" if "reg_ok (classes env) t" for t j k'
    by (rule ends_with_bind_out, rule Cons.IH, rule store_line [OF Cons.prems that])
  have two: "ends_with (bind_run (Some (list_store regs j t)) (\<lambda>r. bind_run (Some (list_store r j' u)) (\<lambda>r. set_arg_types env meth start ds r k'))) ?Q"
    if "reg_ok (classes env) t" "reg_ok (classes env) u" for t u j j' k'
    by (rule ends_with_bind_out, rule ends_with_bind_out, rule Cons.IH, rule store_line [OF store_line [OF Cons.prems that(1)] that(2)])
  have ref: "ends_with (bind_run (lookupClassByDescriptor env meth desc True) (\<lambda>(clazz, ok). if \<not> ok then ret None
      else bind_run (Some (list_store regs j (regTypeFromClass clazz))) (\<lambda>r. set_arg_types env meth start ds r k'))) ?Q" for j k'
  proof (rule ends_with_bind [OF lookupClass_ends [OF e]])
    fix x :: "u8 \<times> bool" assume x: "case x of (p, _) \<Rightarrow> class_or_null (classes env) p"
    show "ends_with (case x of (clazz, ok) \<Rightarrow> if \<not> ok then ret None
      else bind_run (Some (list_store regs j (regTypeFromClass clazz))) (\<lambda>r. set_arg_types env meth start ds r k')) ?Q"
      using x by (cases x, simp only: prod.case) (intro ends_with_if one reg_ok_class [OF env_facts(1) [OF e]]; simp)
  qed
  show ?case
    unfolding set_arg_types.simps Let_def
    by (intro ends_with_if ref one two reg_ok_small) simp_all
qed simp

lemma setTypes_ends:
  assumes e: "env_ok env ifs" and c: "ref_class (classes env) (meth_clazz meth)" and l: "line_ok (classes env) n regs" and m: "map_ok (classes env) um"
  shows "ends_with (setTypesFromSignature env meth regs um) (\<lambda>(b, l, um'). line_ok (classes env) n l \<and> map_ok (classes env) um')"
proof -
  let ?Q = "\<lambda>(l, um', _::nat). line_ok (classes env) n l \<and> map_ok (classes env) um'"
  have um: "map_ok (classes env) um'" if "dvmSetUninitInstance um a (meth_clazz meth) = Ret (u, um')" for a u um'
    using that set_uninit_ok [OF _ order_refl] m c by (auto simp: dvmSetUninitInstance_def class_or_null_def split: if_splits)
  have reg: "reg_ok (classes env) (regTypeFromClass (meth_clazz meth))"
    using c by (intro reg_ok_class [OF env_facts(1) [OF e]]) (simp add: class_or_null_def)
  have this_arg: "ends_with (if dvmIsStaticMethod meth then ret (regs, um, 0)
           else if isInitMethod meth \<and> meth_clazz meth \<noteq> classJavaLangObject env then
             bind_run (Some (dvmSetUninitInstance um kUninitThisArgAddr (meth_clazz meth))) (\<lambda>(uidx, um).
               if uidx \<noteq> 0 then Some AbortVM
               else bind_run (Some (list_store regs j (regTypeFromUninitIndex uidx))) (\<lambda>r. ret (r, um, 1)))
           else bind_run (Some (list_store regs j (regTypeFromClass (meth_clazz meth)))) (\<lambda>r. ret (r, um, 1))) ?Q" for j
    using l m um store_line [OF l reg] store_line [OF l reg_ok_uninit] by (intro ends_with_if) (auto simp: split: prod.split intro!: ends_with_bind_out)
  show ?thesis
    unfolding setTypesFromSignature_def Let_def
  proof (rule ends_with_if)
    show "ends_with (Some AbortVM) (\<lambda>(b, l, um'). line_ok (classes env) n l \<and> map_ok (classes env) um')" by simp
  next
    let ?start = "unat (registersSize meth) - unat (insSize meth)"
    show "ends_with (bind_run (if dvmIsStaticMethod meth then ret (regs, um, 0)
           else if isInitMethod meth \<and> meth_clazz meth \<noteq> classJavaLangObject env then
             bind_run (Some (dvmSetUninitInstance um kUninitThisArgAddr (meth_clazz meth))) (\<lambda>(uidx, um).
               if uidx \<noteq> 0 then Some AbortVM
               else bind_run (Some (list_store regs ?start (regTypeFromUninitIndex uidx))) (\<lambda>r. ret (r, um, 1)))
           else bind_run (Some (list_store regs ?start (regTypeFromClass (meth_clazz meth)))) (\<lambda>r. ret (r, um, 1)))
          (\<lambda>(regTypes, um, actualArgs).
             bind_run (set_arg_types env meth ?start (parameters meth) regTypes actualArgs) (\<lambda>res. case res of
                None \<Rightarrow> ret (False, regTypes, um)
              | Some (regTypes, actualArgs) \<Rightarrow>
                  if actualArgs \<noteq> unat (insSize meth) then ret (False, regTypes, um)
                  else bind_run (Some (return_type_ok (returnType meth))) (\<lambda>b. ret (b, regTypes, um)))))
       (\<lambda>(b, l, um'). line_ok (classes env) n l \<and> map_ok (classes env) um')"
      by (rule ends_with_bind [OF this_arg])
        (auto split: prod.split option.split intro!: ends_with_bind [OF set_arg_types_ends [OF e]] ends_with_bind_out)
  qed
qed


lemma clean_flags: "w AND (kInsnFlagVisited OR kInsnFlagChanged) = 0 \<Longrightarrow> \<not> touched w"
  using flag_words(2) [of w] by blast

lemma initRegisterTable_lines:
  assumes "initRegisterTable meth fs kTrackRegsBranches = Ret tab" and "length fs = length (insns meth)"
  shows "length tab = length (insns meth)" and "0 < length (insns meth)" and "hd tab \<noteq> None"
    and "k < length (insns meth) \<Longrightarrow>
      tab ! k = (if is_target (fs ! k) then Some (replicate (unat (registersSize meth) + kExtraRegs) kRegTypeUnknown) else None)"
proof -
  have tab: "tab = map (\<lambda>w. if is_target w then Some (replicate (unat (registersSize meth) + kExtraRegs) kRegTypeUnknown) else None) fs"
    and "0 < length (insns meth)" "hd tab \<noteq> None"
    using assms by (auto simp: initRegisterTable_def interesting_def flag_words Let_def dvmGetMethodInsnsSize_def split: if_splits)
  then show "length tab = length (insns meth)" "0 < length (insns meth)" "hd tab \<noteq> None"
    "k < length (insns meth) \<Longrightarrow>
      tab ! k = (if is_target (fs ! k) then Some (replicate (unat (registersSize meth) + kExtraRegs) kRegTypeUnknown) else None)"
    using assms(2) by (simp_all add: tab)
qed

lemma line_ok_unknown: "line_ok ct n (replicate (n + kExtraRegs) kRegTypeUnknown)"
  by (simp add: line_ok_def list_all_iff)

text \<open>The state in which the loop starts.\<close>

lemma flow_start:
  assumes init: "initRegisterTable meth fs kTrackRegsBranches = Ret tab" and len: "length fs = length (insns meth)"
    and clean: "\<forall>k<length (insns meth). fs ! k AND (kInsnFlagVisited OR kInsnFlagChanged) = 0"
    and line: "line_ok (classes env) (unat (registersSize meth)) line" and map: "map_ok (classes env) um"
    and set: "dvmInsnSetChanged fs 0 True = Ret fs'"
  shows "loop_inv env meth \<lparr>flowFlags = fs', regTable = tab[0 := Some line], flowRegs = junk, flowMap = um, startGuess = 0\<rparr>"
    and "typing_inv env ifs meth fs line Gamma \<lparr>flowFlags = fs', regTable = tab[0 := Some line], flowRegs = junk, flowMap = um, startGuess = 0\<rparr>"
proof -
  note T = initRegisterTable_lines [OF init len]
  have fs': "fs' = fs[0 := mark_changed (fs ! 0)]" using set by (simp add: set_changed)
  have "hd tab = tab ! 0" using T(1,2) by (intro hd_conv_nth) auto
  then have t0: "is_target (fs ! 0)" using T(3) T(4) [OF T(2)] by (auto split: if_splits)
  have static: "static_part (fs' ! k) = static_part (fs ! k)" if "k < length (insns meth)" for k
    using that len T(2) by (cases "k = 0") (simp_all add: fs' insn_flag_bits)
  have target: "is_target (fs' ! k) = is_target (fs ! k)" if "k < length (insns meth)" for k
    by (rule static_part_facts(1) [OF static [OF that]])
  have changed: "touched (fs' ! k) \<longleftrightarrow> k = 0" "\<not> is_visited (fs' ! k)" if "k < length (insns meth)" for k
    using that len clean_flags [of "fs ! k"] clean_flags [of "fs ! 0"] clean T(2) by (cases "k = 0"; simp add: fs' insn_flag_bits)+
  have lines: "line_ok (classes env) (unat (registersSize meth)) l" if "Some l \<in> set (tab[0 := Some line])" for l
  proof -
    from that obtain k where k: "k < length tab" "tab[0 := Some line] ! k = Some l" by (auto simp: in_set_conv_nth)
    then show ?thesis using T line line_ok_unknown by (cases "k = 0") (auto split: if_splits)
  qed
  then show "loop_inv env meth \<lparr>flowFlags = fs', regTable = tab[0 := Some line], flowRegs = junk, flowMap = um, startGuess = 0\<rparr>"
    unfolding loop_inv_def flow.simps
  proof (intro conjI allI impI, goal_cases)
    case (5 k)
    then show ?case using T(1,4) t0 target by (cases "k = 0") (auto split: if_splits)
  next
    case (6 k)
    then show ?case using changed [of k] T(1,2) by auto
  next
    case (7 k)
    then show ?case using changed [of k] T(1,2) by auto
  qed (use T(1) len map in \<open>simp_all add: fs' tab_ok_def\<close>)
  show "typing_inv env ifs meth fs line Gamma \<lparr>flowFlags = fs', regTable = tab[0 := Some line], flowRegs = junk, flowMap = um, startGuess = 0\<rparr>"
    using static changed T(1,2) len by (auto simp: typing_inv_def reaches_def fs')
qed


section \<open>The passes end\<close>

lemma compute_widths_ends:
  assumes "dvmGetMethodInsnsSize meth < 2 ^ 31 - 3"
  shows "compute_widths meth fs i c \<noteq> None"
proof (induction "nat (dvmGetMethodInsnsSize meth - i)" arbitrary: fs i c rule: less_induct)
  case (less i fs c)
  show ?case
  proof (cases "i < dvmGetMethodInsnsSize meth \<and> (\<exists>w. code_width meth i = Ret (Some w) \<and> 0 < w)")
    case True
    then obtain w where w: "code_width meth i = Ret (Some w)" "0 < w" by blast
    have "compute_widths meth gs (i + w) k \<noteq> None" for gs k using less.hyps [of "i + w"] True w(2) by simp
    then show ?thesis using w True by (subst compute_widths.simps) auto
  next
    case False
    have "compute_widths meth gs (i + w) k \<noteq> None" if "i < dvmGetMethodInsnsSize meth" "code_width meth i = Ret (Some w)" for gs k w
    proof -
      have "i + w < 0" using code_width_range [OF that(2)] False that assms by auto
      then show ?thesis by (subst compute_widths.simps) (simp add: code_width_negative)
    qed
    then show ?thesis by (subst compute_widths.simps) (auto split: outcome.split option.split)
  qed
qed

lemma laid_out_width:
  assumes "laid_out meth fs 0" and "insn_from meth 0 i" and "0 \<le> i" and "i < dvmGetMethodInsnsSize meth"
  shows "\<exists>w>0. dvmInsnGetWidth fs i = Ret w \<and> insn_from meth 0 (i + w)"
proof -
  obtain w where w: "dvmInsnGetWidth fs i = Ret w" "code_width meth i = Ret (Some w)" "0 < w"
    using assms(1) [unfolded laid_out_def, THEN conjunct2, THEN spec, of i] assms(2-4) by auto
  have "insn_from meth 0 (i + w)" using assms(2,4) w(2)
    by (induction rule: insn_from.induct) (auto intro: insn_from.intros)
  then show ?thesis using w by blast
qed

lemma new_instance_addrs_ends:
  assumes lay: "laid_out meth fs 0"
  shows "insn_from meth 0 i \<Longrightarrow> 0 \<le> i \<Longrightarrow> new_instance_addrs meth fs i \<noteq> None"
proof (induction "nat (dvmGetMethodInsnsSize meth - i)" arbitrary: i rule: less_induct)
  case (less i)
  show ?case
  proof (cases "i < dvmGetMethodInsnsSize meth")
    case True
    then obtain w where w: "w > 0" "dvmInsnGetWidth fs i = Ret w" "insn_from meth 0 (i + w)" using laid_out_width [OF lay less.prems] by blast
    have "new_instance_addrs meth fs (i + w) \<noteq> None" using less.hyps w less.prems(2) True by simp
    then show ?thesis using w True
      by (subst new_instance_addrs.simps) (auto simp: bind_run_def split: option.split outcome.split)
  qed (subst new_instance_addrs.simps, simp)
qed

lemma visit_laid_out:
  assumes "laid_out meth fs 0" and "dvmInsnSetVisited fs i True = Ret fs'"
  shows "laid_out meth fs' 0"
proof -
  have "(w OR kInsnFlagVisited) AND kInsnFlagWidthMask = w AND kInsnFlagWidthMask" for w
    by (auto simp: flag_bit_iff bit_and_iff bit_or_iff intro!: bit_word_eqI)
  then have "dvmInsnGetWidth fs' j = dvmInsnGetWidth fs j" for j
    using assms(2) by (auto simp: dvmInsnGetWidth_def flag_set_def flags_at_def read_at_def nth_list_update split: if_splits)
  moreover have "length fs' = length fs" using assms(2) by (auto simp: flag_set_def)
  ultimately show ?thesis using assms(1) by (simp add: laid_out_def)
qed

lemma dead_scan_ends:
  "laid_out meth fs 0 \<Longrightarrow> insn_from meth 0 i \<Longrightarrow> 0 \<le> i \<Longrightarrow> dead_scan meth fs i \<noteq> None"
proof (induction "nat (dvmGetMethodInsnsSize meth - i)" arbitrary: fs i rule: less_induct)
  case (less i fs)
  have "ends_with (dead_scan meth fs i) (\<lambda>_. True)"
  proof (cases "i < dvmGetMethodInsnsSize meth")
    case True
    have go: "ends_with (bind_run (Some (dvmInsnGetWidth gs i)) (\<lambda>w. if w \<le> 0 then None else dead_scan meth gs (i + w))) (\<lambda>_. True)"
      if gs: "laid_out meth gs 0" for gs
    proof -
      obtain w where w: "w > 0" "dvmInsnGetWidth gs i = Ret w" "insn_from meth 0 (i + w)"
        using laid_out_width [OF gs less.prems(2,3) True] by blast
      have "dead_scan meth gs (i + w) \<noteq> None" using less.hyps [OF _ gs w(3)] w(1) less.prems(3) True by simp
      then show ?thesis using w by (auto simp: ends_with_def split: outcome.split)
    qed
    have table: "ends_with (if is_table instr then ret True
                  else if instr = 0 then bind_run (Some (unit_at meth (i + 1))) (\<lambda>w. ret (is_table w))
                  else ret False) (\<lambda>_. True)" for instr
      by (auto intro!: ends_with_bind_out)
    show ?thesis
      unfolding dead_scan.simps [of meth fs i] if_not_P [OF True [folded not_le]]
      by (intro ends_with_bind_out ends_with_bind [OF table] go) (use less.prems(1) visit_laid_out in \<open>auto split: if_splits\<close>)
  qed (subst dead_scan.simps, simp)
  then show ?case by (rule ends_withD(2))
qed


section \<open>The typing of an accepted method\<close>

text \<open>
  \<open>Gamma\<close> types the method: from the registers it gives an instruction, the instruction passes its check, and the registers it leaves are covered by
  those of every instruction control can go to, and its entry registers by those of its handlers. \<open>um\<close> is the final map of uninitialized instances, which
  extends the maps the checks were made with.
\<close>

definition well_typed ::
  "verify_env \<Rightarrow> u8 set \<Rightarrow> Method \<Rightarrow> InsnFlags list \<Rightarrow> UninitInstanceMap \<Rightarrow> (int \<Rightarrow> RegType list option) \<Rightarrow> bool" where
  "well_typed env ifs meth fs um Gamma \<longleftrightarrow> (\<forall>i R. Gamma i = Some R \<longrightarrow> (\<exists>d R' um1 um2 nextFlags.
     decodeInstruction meth i = Ret d \<and> nextFlags = dexGetInstrFlags gDvm_instrFlags (opCode d)
     \<and> insn_effect env meth i d R um1 = ret (Some R', um2) \<and> map_le um2 um
     \<and> (\<forall>j. goes_to meth fs i nextFlags j \<longrightarrow> (\<exists>S. Gamma j = Some S \<and> line_le env ifs R' S))
     \<and> (can kInstrCanThrow nextFlags \<and> dvmInsnIsInTry fs i = Ret True \<longrightarrow> (\<forall>j\<in>handlers_at meth i. \<exists>S. Gamma j = Some S \<and> line_le env ifs R S))))"

lemma typing_final:
  assumes inv: "loop_inv env meth st" and T: "typing_inv env ifs meth fs R0 Gamma st" and len: "length fs = length (insns meth)"
    and quiet: "\<forall>k<length (insns meth). \<not> is_changed (flowFlags st ! k)"
  shows "\<exists>G S. G 0 = Some S \<and> line_le env ifs R0 S \<and> well_typed env ifs meth fs (flowMap st) G"
proof -
  note I = loop_invD [OF inv] and T = typing_invD [OF T]
  define G where "G i = (if 0 \<le> i \<and> i < int (length (insns meth)) \<and> is_visited (flowFlags st ! nat i)
      then Some (case regTable st ! nat i of None \<Rightarrow> Gamma (nat i) | Some l \<Rightarrow> l) else None)" for i
  have reach: "\<exists>S. G j = Some S \<and> line_le env ifs r S" if r: "reaches env ifs r j (flowFlags st, regTable st)" for r j
  proof -
    obtain l where l: "0 \<le> j" "j < int (length (insns meth))" "touched (flowFlags st ! nat j)" "regTable st ! nat j = Some l" "line_le env ifs r l"
      using r I(1) by (auto simp: reaches_def)
    then have "nat j < length (insns meth)" by (simp add: nat_less_iff)
    then show ?thesis using l quiet by (auto simp: G_def)
  qed
  have follow: "\<exists>S. G j = Some S \<and> line_le env ifs r S" if f: "follows env ifs Gamma st r j" for r j
  proof (cases "reaches env ifs r j (flowFlags st, regTable st)")
    case False
    then have j: "0 \<le> j" "j < int (length (insns meth))" "regTable st ! nat j = None"
      "is_changed (flowFlags st ! nat j) \<or> is_visited (flowFlags st ! nat j) \<and> Gamma (nat j) = r" using f I(1) by (auto simp: follows_def)
    then have "nat j < length (insns meth)" by (simp add: nat_less_iff)
    then show ?thesis using j quiet by (auto simp: G_def)
  qed (rule reach)
  have "\<exists>d R' um1 um2 nf. decodeInstruction meth i = Ret d \<and> nf = dexGetInstrFlags gDvm_instrFlags (opCode d)
     \<and> insn_effect env meth i d R um1 = ret (Some R', um2) \<and> map_le um2 (flowMap st)
     \<and> (\<forall>j. goes_to meth fs i nf j \<longrightarrow> (\<exists>S. G j = Some S \<and> line_le env ifs R' S))
     \<and> (can kInstrCanThrow nf \<and> dvmInsnIsInTry fs i = Ret True \<longrightarrow> (\<forall>j\<in>handlers_at meth i. \<exists>S. G j = Some S \<and> line_le env ifs R S))"
    if R: "G i = Some R" for i R
  proof -
    have i: "0 \<le> i" "i < int (length (insns meth))" "is_visited (flowFlags st ! nat i)"
      and "R = (case regTable st ! nat i of None \<Rightarrow> Gamma (nat i) | Some l \<Rightarrow> l)" using R by (auto simp: G_def split: if_splits)
    then have "checked env ifs meth fs Gamma st i R" using T(3) [of "nat i"] quiet by (simp add: nat_less_iff)
    then obtain d R' um um' nf where c: "decodeInstruction meth i = Ret d" "nf = dexGetInstrFlags gDvm_instrFlags (opCode d)"
      "insn_effect env meth i d R um = ret (Some R', um')" "map_le um' (flowMap st)"
      and next_insn: "can kInstrCanContinue nf \<longrightarrow> width_at fs i > 0 \<and> follows env ifs Gamma st R' (i + width_at fs i)"
      and jump: "jumps env ifs meth i nf (in_try_at fs i nf) R R' (flowFlags st, regTable st)"
      unfolding checked_def by (elim exE conjE) (rule that; assumption)
    have w: "dvmInsnGetWidth fs i = Ret (width_at fs i)" "dvmInsnIsInTry fs i = Ret (fs ! nat i AND kInsnFlagInTry \<noteq> 0)"
      using i(1,2) len by (simp_all add: dvmInsnGetWidth_def flag_is_def flags_at_def read_at_def)
    have "\<exists>S. G j = Some S \<and> line_le env ifs R' S" if "goes_to meth fs i nf j" for j
      using that unfolding goes_to_def
    proof (elim disjE conjE exE, goal_cases)
      case 1
      then have "j = i + width_at fs i" using w(1) by simp
      then show ?case using follow next_insn 1(1) by simp
    next
      case (2 off b)
      then show ?case using reach jump by (auto simp: jumps_def)
    next
      case (3 ts)
      then show ?case using reach jump by (auto simp: jumps_def)
    qed
    moreover have "\<exists>S. G j = Some S \<and> line_le env ifs R S"
      if "can kInstrCanThrow nf \<and> dvmInsnIsInTry fs i = Ret True" "j \<in> handlers_at meth i" for j
      using that w(2) reach jump by (simp add: jumps_def)
    ultimately show ?thesis using c by blast
  qed
  then have "well_typed env ifs meth fs (flowMap st) G" unfolding well_typed_def by blast
  then show ?thesis using reach [OF T(2)] by blast
qed

lemma code_flow_ends:
  assumes e: "env_ok env ifs" and c: "ref_class (classes env) (meth_clazz meth)" and size: "dvmGetMethodInsnsSize meth < 2 ^ 31 - 3"
    and lay: "laid_out meth fs 0" and clean: "\<forall>k<length (insns meth). fs ! k AND (kInsnFlagVisited OR kInsnFlagChanged) = 0"
    and map: "map_ok (classes env) um"
  shows "ends_with (dvmVerifyCodeFlow env alloc False meth junk fs um) (\<lambda>r. \<forall>st. r = Some st \<longrightarrow>
    (\<exists>R0 um0 G S. setTypesFromSignature env meth (replicate (unat (registersSize meth) + kExtraRegs) kRegTypeUnknown) um = ret (True, R0, um0)
       \<and> G 0 = Some S \<and> line_le env ifs R0 S \<and> well_typed env ifs meth fs (flowMap st) G))"
    (is "ends_with _ ?Q")
proof -
  let ?n = "unat (registersSize meth)" and ?R = "replicate (unat (registersSize meth) + kExtraRegs) kRegTypeUnknown"
  have len: "length fs = length (insns meth)" using lay by (simp add: laid_out_def)
  have run: "ends_with (doCodeVerification env meth junk fs (tab[0 := Some line]) um0) ?Q"
    if tab: "initRegisterTable meth fs kTrackRegsBranches = Ret tab" and line: "line_ok (classes env) ?n line" "map_ok (classes env) um0"
      and sig: "setTypesFromSignature env meth ?R um = ret (True, line, um0)" for tab line um0
    unfolding doCodeVerification_def
  proof (rule ends_with_bind_out)
    fix fs' assume fs': "dvmInsnSetChanged fs 0 True = Ret fs'"
    let ?st = "\<lparr>flowFlags = fs', regTable = tab[0 := Some line], flowRegs = junk, flowMap = um0, startGuess = 0\<rparr>"
    let ?P = "\<lambda>st. \<exists>Gamma. typing_inv env ifs meth fs line Gamma st"
    have "ends_with (code_loop env meth ?st)
      (\<lambda>r. \<forall>st'. r = Some st' \<longrightarrow> loop_inv env meth st' \<and> ?P st' \<and> (\<forall>k<length (insns meth). \<not> is_changed (flowFlags st' ! k)))"
    proof (rule code_loop_ends [OF e flow_start(1) [OF tab len clean line fs']], goal_cases)
      case 1
      then show ?case using flow_start(2) [OF tab len clean line fs'] by blast
    next
      case (2 i st st')
      then show ?case using typing_step [OF e lay size] by blast
    next
      case (3 st)
      then show ?case by (auto simp: typing_inv_def checked_def follows_def)
    qed
    then show "ends_with (bind_run (code_loop env meth ?st) (\<lambda>r. case r of None \<Rightarrow> ret None
      | Some st \<Rightarrow> bind_run (dead_scan meth (flowFlags st) 0) (\<lambda>fs. ret (Some (st\<lparr>flowFlags := fs\<rparr>))))) ?Q"
    proof (rule ends_with_bind)
      fix r assume r: "\<forall>st'. r = Some st' \<longrightarrow> loop_inv env meth st' \<and> ?P st' \<and> (\<forall>k<length (insns meth). \<not> is_changed (flowFlags st' ! k))"
      show "ends_with (case r of None \<Rightarrow> ret None
        | Some st \<Rightarrow> bind_run (dead_scan meth (flowFlags st) 0) (\<lambda>fs. ret (Some (st\<lparr>flowFlags := fs\<rparr>)))) ?Q"
      proof (cases r)
        case (Some st)
        obtain Gamma where st: "loop_inv env meth st" "typing_inv env ifs meth fs line Gamma st" "\<forall>k<length (insns meth). \<not> is_changed (flowFlags st ! k)"
          using r Some by blast
        have len': "length (flowFlags st) = length fs" using loop_invD(1) [OF st(1)] len by simp
        have "dvmInsnGetWidth (flowFlags st) j = dvmInsnGetWidth fs j" for j
          using static_part_facts(2) [OF typing_invD(1) [OF st(2), of "nat j"]] len len'
          by (auto simp: dvmInsnGetWidth_def flags_at_def read_at_def nat_less_iff)
        then have "laid_out meth (flowFlags st) 0" using lay len' by (simp add: laid_out_def)
        then have scan: "ends_with (dead_scan meth (flowFlags st) 0) (\<lambda>_. True)"
          using dead_scan_ends [OF _ insn_here] by (auto simp: ends_with_def split: option.split outcome.split)
        show ?thesis
          unfolding Some option.case
          by (rule ends_with_bind [OF scan]) (use typing_final [OF st(1,2) len st(3)] sig in auto)
      qed simp
    qed
  qed
  have start: "ends_with (setTypesFromSignature env meth ?R um) (\<lambda>(b, l, um'). line_ok (classes env) ?n l \<and> map_ok (classes env) um'
      \<and> setTypesFromSignature env meth ?R um = ret (b, l, um'))"
    using setTypes_ends [OF e c line_ok_unknown map, of ?n] by (auto simp: ends_with_def split: option.splits outcome.splits)
  show ?thesis
    unfolding dvmVerifyCodeFlow_def if_False
  proof (intro ends_with_bind_out ends_with_if)
    fix x tab assume tab: "initRegisterTable meth fs kTrackRegsBranches = Ret tab"
    note L = initRegisterTable_lines [OF tab len]
    have "hd tab = tab ! 0" using L(1,2) by (intro hd_conv_nth) auto
    then have first: "the (hd tab) = ?R" using L(3) L(4) [OF L(2)] by (auto split: if_splits)
    show "ends_with (bind_run (setTypesFromSignature env meth (the (hd tab)) um) (\<lambda>(b, line, um). if \<not> b then ret None
        else doCodeVerification env meth junk fs (tab[0 := Some line]) um)) ?Q"
      unfolding first
    proof (rule ends_with_bind [OF start], clarify)
      fix b l um0 assume "line_ok (classes env) ?n l" "map_ok (classes env) um0" "setTypesFromSignature env meth ?R um = ret (b, l, um0)"
      then show "ends_with (if \<not> b then ret None else doCodeVerification env meth junk fs (tab[0 := Some l]) um0) ?Q"
        by (intro ends_with_if run [OF tab]) simp_all
    qed
  qed simp_all
qed


section \<open>Methods and classes\<close>

lemma create_map_ends:
  assumes "laid_out meth fs 0"
  shows "ends_with (dvmCreateUninitInstanceMap meth fs c) (map_ok ct)"
proof -
  have "ends_with (new_instance_addrs meth fs 0) (\<lambda>_. True)"
    using new_instance_addrs_ends [OF assms insn_here] by (auto simp: ends_with_def split: option.split outcome.split)
  then show ?thesis
    unfolding dvmCreateUninitInstanceMap_def Let_def
    by (rule ends_with_bind) (auto intro!: ends_with_if simp: map_ok_def class_or_null_def)
qed

text \<open>
  The static passes have accepted the method with the flags \<open>fs\<close>, and there is a typing that starts from the registers the signature gives.
\<close>

definition typed_method :: "verify_env \<Rightarrow> u8 set \<Rightarrow> bool \<Rightarrow> Method \<Rightarrow> InsnFlags list \<Rightarrow> (int \<Rightarrow> RegType list option) \<Rightarrow> bool" where
  "typed_method env ifs allowOpt meth fs Gamma \<longleftrightarrow> (\<exists>fs0 c um fs1 R0 um0 S um'.
     dvmComputeCodeWidths meth (replicate (length (insns meth)) 0) = ret (True, fs0, c) \<and> dvmCreateUninitInstanceMap meth fs0 c = ret um
     \<and> dvmSetTryFlags meth fs0 = Ret (True, fs1) \<and> verifyInstructions env meth allowOpt fs1 = Ret (True, fs)
     \<and> setTypesFromSignature env meth (replicate (unat (registersSize meth) + kExtraRegs) kRegTypeUnknown) um = ret (True, R0, um0)
     \<and> Gamma 0 = Some S \<and> line_le env ifs R0 S \<and> well_typed env ifs meth fs um' Gamma)"

lemma verify_method_ends:
  assumes e: "env_ok env ifs" and c: "ref_class (classes env) (meth_clazz meth)" and size: "dvmGetMethodInsnsSize meth < 2 ^ 31 - 3"
  shows "ends_with (verifyMethod env alloc False allowOpt junk meth)
    (\<lambda>b. b \<and> dvmGetMethodInsnsSize meth \<noteq> 0 \<longrightarrow> (\<exists>fs Gamma. typed_method env ifs allowOpt meth fs Gamma))" (is "ends_with _ ?Q")
proof -
  let ?zeros = "replicate (length (insns meth)) (0 :: u4)"
  have widths: "ends_with (dvmComputeCodeWidths meth ?zeros) (\<lambda>(b, fs0, k). dvmComputeCodeWidths meth ?zeros = ret (b, fs0, k))"
    using compute_widths_ends [OF size, of ?zeros 0 0] by (auto simp: dvmComputeCodeWidths_def ends_with_def split: option.splits outcome.splits)
  have rest: "ends_with (bind_run (dvmCreateUninitInstanceMap meth fs0 k) (\<lambda>um.
          bind_run (Some (dvmSetTryFlags meth fs0)) (\<lambda>(b, fs1).
            if \<not> b then ret False
            else bind_run (Some (verifyInstructions env meth allowOpt fs1)) (\<lambda>(b, fs).
              if \<not> b then ret False
              else bind_run (dvmVerifyCodeFlow env alloc False meth junk fs um) (\<lambda>r. ret (r \<noteq> None)))))) ?Q"
    if w: "dvmComputeCodeWidths meth ?zeros = ret (True, fs0, k)" for fs0 k
  proof -
    have lay0: "laid_out meth fs0 0"
      using compute_widths_laid_out [OF w [unfolded dvmComputeCodeWidths_def]] size by (simp add: dvmGetMethodInsnsSize_def)
    have um: "ends_with (dvmCreateUninitInstanceMap meth fs0 k) (\<lambda>um. map_ok (classes env) um \<and> dvmCreateUninitInstanceMap meth fs0 k = ret um)"
      by (rule ends_with_self [OF create_map_ends [OF lay0]])
    show ?thesis
    proof (rule ends_with_bind [OF um], rule ends_with_bind_out, elim conjE)
      fix um x assume um: "map_ok (classes env) um" "dvmCreateUninitInstanceMap meth fs0 k = ret um" and x: "dvmSetTryFlags meth fs0 = Ret x"
      obtain b fs1 where b: "x = (b, fs1)" by (cases x)
      have flow: "ends_with (bind_run (dvmVerifyCodeFlow env alloc False meth junk fs um) (\<lambda>r. ret (r \<noteq> None))) ?Q"
        if v: "verifyInstructions env meth allowOpt fs1 = Ret (True, fs)" and t: "dvmSetTryFlags meth fs0 = Ret (True, fs1)" for fs
      proof -
        note S = static_passes [OF size w t v]
        have "ends_with (dvmVerifyCodeFlow env alloc False meth junk fs um) (\<lambda>r. \<forall>st. r = Some st \<longrightarrow>
            (\<exists>R0 um0 G S. setTypesFromSignature env meth (replicate (unat (registersSize meth) + kExtraRegs) kRegTypeUnknown) um = ret (True, R0, um0)
               \<and> G 0 = Some S \<and> line_le env ifs R0 S \<and> well_typed env ifs meth fs (flowMap st) G))"
          using S by (intro code_flow_ends [OF e c size _ _ um(1)]) simp_all
        then show ?thesis
        proof (rule ends_with_bind)
          fix r assume r: "\<forall>st. r = Some st \<longrightarrow>
            (\<exists>R0 um0 G S. setTypesFromSignature env meth (replicate (unat (registersSize meth) + kExtraRegs) kRegTypeUnknown) um = ret (True, R0, um0)
               \<and> G 0 = Some S \<and> line_le env ifs R0 S \<and> well_typed env ifs meth fs (flowMap st) G)"
          have "\<exists>fs Gamma. typed_method env ifs allowOpt meth fs Gamma" if "r = Some st" for st
            using r that w um(2) t v unfolding typed_method_def by blast
          then show "ends_with (ret (r \<noteq> None)) ?Q" by auto
        qed
      qed
      show "ends_with (case x of (b, fs1) \<Rightarrow> if \<not> b then ret False
            else bind_run (Some (verifyInstructions env meth allowOpt fs1)) (\<lambda>(b, fs).
              if \<not> b then ret False
              else bind_run (dvmVerifyCodeFlow env alloc False meth junk fs um) (\<lambda>r. ret (r \<noteq> None)))) ?Q"
        unfolding b prod.case
      proof (rule ends_with_if)
        assume "\<not> \<not> b"
        show "ends_with (bind_run (Some (verifyInstructions env meth allowOpt fs1)) (\<lambda>(b, fs). if \<not> b then ret False
              else bind_run (dvmVerifyCodeFlow env alloc False meth junk fs um) (\<lambda>r. ret (r \<noteq> None)))) ?Q"
        proof (rule ends_with_bind_out, clarify)
          fix b2 fs assume "verifyInstructions env meth allowOpt fs1 = Ret (b2, fs)"
          then show "ends_with (if \<not> b2 then ret False else bind_run (dvmVerifyCodeFlow env alloc False meth junk fs um) (\<lambda>r. ret (r \<noteq> None))) ?Q"
            using x b \<open>\<not> \<not> b\<close> by (intro ends_with_if flow) simp_all
        qed
      qed simp
    qed
  qed
  show ?thesis
    unfolding verifyMethod_def
  proof (intro ends_with_if ends_with_bind [OF widths], goal_cases)
    case (4 x)
    then show ?case using rest by (cases x) (simp only: prod.case, intro ends_with_if, simp_all)
  qed simp_all
qed

lemma verify_methods_ends:
  "(\<And>m. m \<in> set ms \<Longrightarrow> ends_with (verify m) (\<lambda>b. b \<longrightarrow> Q m)) \<Longrightarrow> ends_with (verify_methods verify ms) (\<lambda>b. b \<longrightarrow> (\<forall>m\<in>set ms. Q m))"
proof (induction ms)
  case (Cons m ms)
  have "ends_with (verify_methods verify ms) (\<lambda>b. b \<longrightarrow> (\<forall>m\<in>set ms. Q m))" using Cons by simp
  moreover have "ends_with (verify m) (\<lambda>b. b \<longrightarrow> Q m)" using Cons.prems by simp
  ultimately show ?case unfolding verify_methods.simps
    by (elim ends_with_bind) (auto elim!: ends_with_mono)
qed simp

lemma verify_class_ends:
  assumes "\<And>m. m \<in> set directMethods \<union> set virtualMethods \<Longrightarrow> ends_with (verify m) (\<lambda>b. b \<longrightarrow> Q m)"
  shows "ends_with (dvmVerifyClass verify isVerified directMethods virtualMethods)
    (\<lambda>b. b \<and> \<not> isVerified \<longrightarrow> (\<forall>m\<in>set directMethods \<union> set virtualMethods. Q m))"
proof -
  have d: "ends_with (verify_methods verify directMethods) (\<lambda>b. b \<longrightarrow> (\<forall>m\<in>set directMethods. Q m))"
    and v: "ends_with (verify_methods verify virtualMethods) (\<lambda>b. b \<longrightarrow> (\<forall>m\<in>set virtualMethods. Q m))"
    using assms by (intro verify_methods_ends; simp)+
  show ?thesis
    unfolding dvmVerifyClass_def
    by (intro ends_with_if ends_with_bind [OF d] ends_with_mono [OF v]) auto
qed


section \<open>The verifier as a whole\<close>




section \<open>A method that is accepted\<close>

text \<open>
  The method of the static passes, with a class table for its types: the branch and the handler are merge points, and the loop
  visits its four instructions.
\<close>

definition flow_env :: verify_env where
  "flow_env = static_env\<lparr>classes := verify_classes, findArrayClassForElement := id, classJavaLangObject := 32, classJavaLangClass := 32,
     classJavaLangString := 32, classJavaLangThrowable := 32\<rparr>"

lemma flow_env_ok: "env_ok flow_env {}"
  using verify_hierarchy verify_plain verify_classes_flags(1)
  by (auto simp: env_ok_def flow_env_def static_env_def class_or_null_def)

lemma flow_env_static: "verifyInstructions flow_env static_method False [1, 2, 0, 0x10001, 0x20001] = Ret (True, [0x20001, 0x40002, 0, 0x70001, 0x60001])"
    by (simp add: verifyInstructions_def verify_static.simps static_method_units flag_set_def flags_at_def read_at_def dvmInsnGetWidth_def
      insn_flag_defs INST_INST_def instr_flags_of_def arm_simps flag_defs gcMask_def static_check_def dvmCheckBranchTarget_def
      dvmGetBranchTarget_def fits_int_def dvmInsnIsOpcode_def mask_eq_exp_minus_1)

lemmas decode_defs = decodeInstruction_def static_method_units dexDecodeInstruction_def Let_def INST_INST_def INST_A_def INST_B_def INST_AA_def
  instr_format_of_def arm_simps decode_fields_def

lemma flow_decode:
  "decodeInstruction static_method 0 = Ret (undecoded\<lparr>vA := 0, vB := 0, opCode := 18\<rparr>)"
  "decodeInstruction static_method 1 = Ret (undecoded\<lparr>vA := 0, vB := 2, opCode := 56\<rparr>)"
  "decodeInstruction static_method 3 = Ret (undecoded\<lparr>vA := 0, opCode := 39\<rparr>)"
  "decodeInstruction static_method 4 = Ret (undecoded\<lparr>vA := 0, opCode := 14\<rparr>)"
  by (simp_all add: decode_defs)

lemma flow_effect:
  "insn_effect flow_env static_method 0 (undecoded\<lparr>vA := 0, vB := 0, opCode := 18\<rparr>) [0, 0, 0] [] = ret (Some [4, 0, 0], [])"
  "insn_effect flow_env static_method 1 (undecoded\<lparr>vA := 0, vB := 2, opCode := 56\<rparr>) [4, 0, 0] [] = ret (Some [4, 0, 0], [])"
  "insn_effect flow_env static_method 3 (undecoded\<lparr>vA := 0, opCode := 39\<rparr>) [4, 0, 0] [] = ret (Some [4, 0, 0], [])"
  "insn_effect flow_env static_method 4 (undecoded\<lparr>vA := 0, opCode := 14\<rparr>) [4, 0, 0] [] = ret (Some [4, 0, 0], [])"
  subgoal by (simp add: insn_effect_def verify_arm_def arm_const_def Let_def with_regs_def setRegisterType_def dvmDetermineCat1Const_def list_store_def clear_result_def static_method_def)
  subgoal by (simp add: insn_effect_def verify_arm_def arm_if_def Let_def with_okay_def vbind_def getRegisterType_def if_okay_def regTypeIsReference_def vret_def list_store_def clear_result_def static_method_def with_check_def)
  subgoal by (simp add: insn_effect_def verify_arm_def arm_throw_def Let_def with_okay_def vbind_def getClassFromRegister_def getRegisterType_def if_okay_def regTypeIsReference_def vret_def list_store_def clear_result_def static_method_def)
  subgoal by (simp add: checkConstructorReturn_def isInitMethod_def getMethodReturnType_def char_at_def lift_run_def require_def if_okay_def insn_effect_def verify_arm_def arm_return_def Let_def vret_def list_store_def clear_result_def static_method_def vbind_def vthen_def with_check_def)
  done


lemmas flow_defs = process_insn_def load_registers_def flag_is_def flag_set_def flags_at_def read_at_def getRegisterLine_def verifyInstruction_def
  flow_decode Let_def insn_flag_defs flag_defs can_def instr_flags_of_def arm_simps flow_effect flow_all_def flow_then_def flow_continue_def
  dvmInsnGetWidth_def static_method_units checkMoveException_def INST_INST_def next_guess_def mark_visited_def mask_eq_exp_minus_1
  dexGetInstrFlags_def gDvm_instrFlags_def

lemma flow_step_0:
  "process_insn flow_env static_method 0 \<lparr>flowFlags = [0x80020001, 0x40002, 0, 0x70001, 0x60001],
     regTable = [Some [0, 0, 0], None, None, Some [0, 0, 0], Some [0, 0, 0]], flowRegs = junk, flowMap = [], startGuess = 0\<rparr>
   = ret (Some \<lparr>flowFlags = [0x40020001, 0x80040002, 0, 0x70001, 0x60001],
     regTable = [Some [0, 0, 0], None, None, Some [0, 0, 0], Some [0, 0, 0]], flowRegs = [4, 0, 0], flowMap = [], startGuess = 1\<rparr>)"
  by (simp add: flow_defs del: bind_run_eq_ret bind_out_eq_Ret)


lemma flow_branch_target: "dvmGetBranchTarget static_method 1 = Ret (Some (2, True))"
  by (simp add: dvmGetBranchTarget_def static_method_units INST_INST_def)

lemma flow_handler:
  "bind_run (Some (dexFindCatchHandler (pCode static_method) 3)) (\<lambda>it. case it of None \<Rightarrow> ret None
     | Some it \<Rightarrow> bind_run (Some (catch_handlers (pCode static_method) it)) (\<lambda>(hs, _). ret (Some hs))) = ret (Some [\<lparr>typeIdx = kDexNoIndex, address = 4\<rparr>])"
  by code_simp

lemma flow_throw_handlers: "flow_throw flow_env static_method 3 regs ft = flow_into flow_env 4 regs ft"
proof -
  from flow_handler obtain it it' where it: "dexFindCatchHandler (pCode static_method) 3 = Ret (Some it)"
    "catch_handlers (pCode static_method) it = Ret ([\<lparr>typeIdx = kDexNoIndex, address = 4\<rparr>], it')" by (auto split: option.splits prod.splits)
  have "bind_run m (\<lambda>r. case r of None \<Rightarrow> ret None | Some ft \<Rightarrow> ret (Some ft)) = m" for m :: "'x option run"
    by (auto simp: bind_run_def split: option.split outcome.split)
  moreover have "flow_handlers flow_env [] regs = (\<lambda>ft. ret (Some ft))" by (rule ext) simp
  ultimately show ?thesis by (simp add: flow_throw_def it flow_then_def)
qed

lemma merge_same: "merge_lines (mergeTypes ct arr) ts ts b = ret (ts, b)"
  by (induction ts) (simp_all add: mergeTypes_def)

lemma flow_step_1:
  "process_insn flow_env static_method 1 \<lparr>flowFlags = [0x40020001, 0x80040002, 0, 0x70001, 0x60001],
     regTable = [Some [0, 0, 0], None, None, Some [0, 0, 0], Some [0, 0, 0]], flowRegs = [4, 0, 0], flowMap = [], startGuess = 1\<rparr>
   = ret (Some \<lparr>flowFlags = [0x40020001, 0x40040002, 0, 0x80070001, 0x60001],
     regTable = [Some [0, 0, 0], None, None, Some [4, 0, 0], Some [0, 0, 0]], flowRegs = [4, 0, 0], flowMap = [], startGuess = 3\<rparr>)"
  by (simp add: flow_defs flow_branch_def flow_branch_target flow_checked_def flow_into_def updateRegisters_def mergeTypes_def del: bind_run_eq_ret bind_out_eq_Ret)

lemma flow_step_3:
  "process_insn flow_env static_method 3 \<lparr>flowFlags = [0x40020001, 0x40040002, 0, 0x80070001, 0x60001],
     regTable = [Some [0, 0, 0], None, None, Some [4, 0, 0], Some [0, 0, 0]], flowRegs = [4, 0, 0], flowMap = [], startGuess = 3\<rparr>
   = ret (Some \<lparr>flowFlags = [0x40020001, 0x40040002, 0, 0x40070001, 0x80060001],
     regTable = [Some [0, 0, 0], None, None, Some [4, 0, 0], Some [4, 0, 0]], flowRegs = [4, 0, 0], flowMap = [], startGuess = 3\<rparr>)"
  by (simp add: flow_defs flow_throw_handlers flow_into_def updateRegisters_def mergeTypes_def del: bind_run_eq_ret bind_out_eq_Ret)

lemma flow_step_4:
  "process_insn flow_env static_method 4 \<lparr>flowFlags = [0x40020001, 0x40040002, 0, 0x40070001, 0x80060001],
     regTable = [Some [0, 0, 0], None, None, Some [4, 0, 0], Some [4, 0, 0]], flowRegs = [4, 0, 0], flowMap = [], startGuess = 3\<rparr>
   = ret (Some \<lparr>flowFlags = [0x40020001, 0x40040002, 0, 0x40070001, 0x40060001],
     regTable = [Some [0, 0, 0], None, None, Some [4, 0, 0], Some [4, 0, 0]], flowRegs = [4, 0, 0], flowMap = [], startGuess = 3\<rparr>)"
  by (simp add: flow_defs del: bind_run_eq_ret bind_out_eq_Ret)

lemma flow_search:
  "find_changed [0x80020001, 0x40002, 0, 0x70001, 0x60001] 0 5 = Ret 0"
  "find_changed [0x40020001, 0x80040002, 0, 0x70001, 0x60001] 1 5 = Ret 1"
  "find_changed [0x40020001, 0x40040002, 0, 0x80070001, 0x60001] 3 5 = Ret 3"
  "find_changed [0x40020001, 0x40040002, 0, 0x40070001, 0x80060001] 3 5 = Ret 4"
  "find_changed [0x40020001, 0x40040002, 0, 0x40070001, 0x40060001] 3 5 = Ret 5"
  "find_changed [0x40020001, 0x40040002, 0, 0x40070001, 0x40060001] 0 5 = Ret 5"
  by (simp_all add: find_changed.simps flag_is_def flags_at_def read_at_def insn_flag_defs)

lemma flow_loop:
  "code_loop flow_env static_method \<lparr>flowFlags = [0x80020001, 0x40002, 0, 0x70001, 0x60001],
     regTable = [Some [0, 0, 0], None, None, Some [0, 0, 0], Some [0, 0, 0]], flowRegs = junk, flowMap = [], startGuess = 0\<rparr>
   = ret (Some \<lparr>flowFlags = [0x40020001, 0x40040002, 0, 0x40070001, 0x40060001],
     regTable = [Some [0, 0, 0], None, None, Some [4, 0, 0], Some [4, 0, 0]], flowRegs = [4, 0, 0], flowMap = [], startGuess = 0\<rparr>)"
  by (subst code_loop.simps, simp add: flow_search static_method_units flow_step_0,
      subst code_loop.simps, simp add: flow_search static_method_units flow_step_1,
      subst code_loop.simps, simp add: flow_search static_method_units flow_step_3,
      subst code_loop.simps, simp add: flow_search static_method_units flow_step_4,
      subst code_loop.simps, simp add: flow_search static_method_units,
      subst code_loop.simps, simp add: flow_search static_method_units)

lemma flow_dead_scan: "dead_scan static_method [0x40020001, 0x40040002, 0, 0x40070001, 0x40060001] 0 = ret [0x40020001, 0x40040002, 0, 0x40070001, 0x40060001]"
  by (simp add: dead_scan.simps static_method_units is_table_def payload_simps dvmInsnGetWidth_def flags_at_def read_at_def insn_flag_defs mask_eq_exp_minus_1)

lemma flow_signature: "setTypesFromSignature flow_env static_method [0, 0, 0] [] = ret (True, [0, 0, 0], [])"
  by (simp add: setTypesFromSignature_def Let_def static_method_def dvmIsStaticMethod_def ACC_STATIC_def return_type_ok_def char_at_def)

lemma flow_code_flow:
  "\<exists>st. dvmVerifyCodeFlow flow_env (\<lambda>_. True) False static_method junk [0x20001, 0x40002, 0, 0x70001, 0x60001] [] = ret (Some st)"
proof -
  have table: "initRegisterTable static_method [0x20001, 0x40002, 0, 0x70001, 0x60001] kTrackRegsBranches
      = Ret [Some [0, 0, 0], None, None, Some [0, 0, 0], Some [0, 0, 0]]"
    by (simp add: initRegisterTable_def interesting_def static_method_def dvmGetMethodInsnsSize_def insn_flag_defs kExtraRegs_def numeral_3_eq_3)
  have start: "dvmInsnSetChanged [0x20001, 0x40002, 0, 0x70001, 0x60001] 0 True = Ret [0x80020001, 0x40002, 0, 0x70001, 0x60001]"
    by (simp add: flag_set_def flags_at_def read_at_def insn_flag_defs)
  have "registersSize static_method = 1" by (simp add: static_method_def)
  moreover have "checkMergeTab = Ret ()" by code_simp
  ultimately show ?thesis
    using flow_signature flow_loop [of junk] flow_dead_scan
    by (simp add: dvmVerifyCodeFlow_def table static_method_units doCodeVerification_def start)
qed

lemma flow_method: "verifyMethod flow_env (\<lambda>_. True) False False junk static_method = ret True"
proof -
  have "isInitMethod static_method = False" by (simp add: isInitMethod_def static_method_def)
  then have "dvmCreateUninitInstanceMap static_method [1, 2, 0, 1, 1] 0 = ret []"
    by (simp add: dvmCreateUninitInstanceMap_def new_instance_addrs.simps static_method_units dvmInsnGetWidth_def flags_at_def read_at_def
      insn_flag_defs mask_eq_exp_minus_1 INST_INST_def)
  moreover have "insSize static_method = 0" by (simp add: static_method_def)
  moreover obtain st where "dvmVerifyCodeFlow flow_env (\<lambda>_. True) False static_method junk [0x20001, 0x40002, 0, 0x70001, 0x60001] [] = ret (Some st)"
    using flow_code_flow by blast
  ultimately show ?thesis
    by (simp add: verifyMethod_def static_method_units static_method_passes numeral_eq_Suc flow_env_static)
qed

lemma flow_class: "dvmVerifyClass (\<lambda>m. verifyMethod flow_env (\<lambda>_. True) False False [] m) False [static_method] [] = ret True"
  by (simp add: dvmVerifyClass_def flow_method)

lemma flow_class_methods:
  "\<forall>m\<in>set [static_method] \<union> set []. ref_class (classes flow_env) (meth_clazz m) \<and> dvmGetMethodInsnsSize m < 2 ^ 31 - 3"
  using flow_env_ok by (auto simp: static_method_units env_ok_def) (simp add: static_method_def flow_env_def static_env_def)



end
