(* ===== verification/PointerSet.thy ===== *)
theory PointerSet
  imports Prelude
begin

text \<open>
  The sorted pointer set of \<^verbatim>\<open>src/vm/PointerSet.c\<close>. A pointer is a 64-bit word; \<open>plist\<close> is the allocated array,
  of which the first \<open>count\<close> elements are in use; \<open>alloc\<close> and \<open>count\<close> are the 16-bit fields of the source.
  The allocator is a parameter \<open>ok\<close> (does a request of that many elements succeed) with the unspecified contents
  \<open>junk\<close> of fresh memory. The theory proves the set to be an implementation of finite sets, up to the
  capacity its 16-bit bookkeeping can represent, and says what happens beyond it.
\<close>

section \<open>State and operations\<close>

record PointerSet =
  alloc :: u2
  count :: u2
  plist :: "u8 list"

definition used :: "PointerSet \<Rightarrow> u8 list" where
  "used pSet = take (unat (count pSet)) (plist pSet)"

fun verify_from :: "u8 \<Rightarrow> u8 list \<Rightarrow> bool" where
  "verify_from prev [] = True"
| "verify_from prev (cur # xs) = (if cur < prev then False else verify_from cur xs)"

definition verifySorted :: "PointerSet \<Rightarrow> bool" where
  "verifySorted pSet = verify_from 0 (used pSet)"

definition dvmPointerSetAlloc :: "(int \<Rightarrow> bool) \<Rightarrow> u8 \<Rightarrow> bool \<Rightarrow> int \<Rightarrow> PointerSet option" where
  "dvmPointerSetAlloc ok junk calloc_ok initialSize =
     (if \<not> calloc_ok then None
      else if initialSize > 0 then
        if \<not> ok initialSize then None
        else Some \<lparr>alloc = word_of_int initialSize, count = 0, plist = list_grow junk [] (nat initialSize)\<rparr>
      else Some \<lparr>alloc = 0, count = 0, plist = []\<rparr>)"

definition dvmPointerSetClear :: "PointerSet \<Rightarrow> PointerSet" where
  "dvmPointerSetClear pSet = pSet\<lparr>count := 0\<rparr>"

definition dvmPointerSetGetCount :: "PointerSet \<Rightarrow> int" where
  "dvmPointerSetGetCount pSet = uint (count pSet)"

definition dvmPointerSetGetEntry :: "PointerSet \<Rightarrow> int \<Rightarrow> u8 outcome" where
  "dvmPointerSetGetEntry pSet i =
     (case read_at (plist pSet) i of Some v \<Rightarrow> Ret v | None \<Rightarrow> OutOfBounds)"

text \<open>The binary search; the operands of the division are never negative inside the loop.\<close>

function has_loop :: "u8 list \<Rightarrow> u8 \<Rightarrow> int \<Rightarrow> int \<Rightarrow> int \<Rightarrow> (bool \<times> int) outcome" where
  "has_loop xs ptr lo hi mid =
     (if lo \<le> hi then
        let mid = (lo + hi) div 2 in
        case read_at xs mid of
          None \<Rightarrow> OutOfBounds
        | Some listVal \<Rightarrow>
            if ptr > listVal then has_loop xs ptr (mid + 1) hi mid
            else if ptr < listVal then has_loop xs ptr lo (mid - 1) mid
            else Ret (True, mid)
      else Ret (False, mid))"
  by pat_completeness auto
termination
  by (relation "measure (\<lambda>(xs, ptr, lo, hi, mid). nat (hi - lo + 1))") auto

declare has_loop.simps [simp del]

definition dvmPointerSetHas :: "PointerSet \<Rightarrow> u8 \<Rightarrow> (bool \<times> int) outcome" where
  "dvmPointerSetHas pSet ptr = has_loop (plist pSet) ptr 0 (uint (count pSet) - 1) 0"

definition dvmPointerSetFind :: "PointerSet \<Rightarrow> u8 \<Rightarrow> int outcome" where
  "dvmPointerSetFind pSet ptr =
     bind_out (dvmPointerSetHas pSet ptr) (\<lambda>(found, idx). Ret (if \<not> found then - 1 else idx))"

text \<open>The expansion at the start of \<open>dvmPointerSetAddEntry\<close>; \<open>alloc *= 2\<close> is 16-bit.\<close>

definition pset_expand :: "(int \<Rightarrow> bool) \<Rightarrow> u8 \<Rightarrow> PointerSet \<Rightarrow> PointerSet outcome" where
  "pset_expand ok junk pSet =
     (if count pSet = alloc pSet then
        let pSet = pSet\<lparr>alloc := if alloc pSet = 0 then 4 else alloc pSet * 2\<rparr> in
        if \<not> ok (uint (alloc pSet)) then AbortVM
        else Ret (pSet\<lparr>plist := list_grow junk (plist pSet) (unat (alloc pSet))\<rparr>)
      else Ret pSet)"

text \<open>The choice of the insertion index: the search may have ended above or below the value.\<close>

definition pset_index :: "u8 list \<Rightarrow> u8 \<Rightarrow> int \<Rightarrow> int outcome" where
  "pset_index xs ptr nearby =
     bind_out (if nearby \<noteq> 0 then
                 (case read_at xs (nearby - 1) of None \<Rightarrow> OutOfBounds | Some v \<Rightarrow> Ret (ptr < v))
               else Ret False) (\<lambda>below.
       if below then Ret (nearby - 1)
       else case read_at xs nearby of
              None \<Rightarrow> OutOfBounds
            | Some v \<Rightarrow> if ptr < v then Ret nearby else Ret (nearby + 1))"

definition pset_shift :: "u8 list \<Rightarrow> u2 \<Rightarrow> int \<Rightarrow> u8 list outcome" where
  "pset_shift xs cnt nearby =
     (if nearby \<noteq> uint cnt then list_move xs (nat (nearby + 1)) (nat nearby) (nat (uint cnt - nearby))
      else Ret xs)"

definition dvmPointerSetAddEntry ::
  "(int \<Rightarrow> bool) \<Rightarrow> u8 \<Rightarrow> PointerSet \<Rightarrow> u8 \<Rightarrow> (bool \<times> PointerSet) outcome" where
  "dvmPointerSetAddEntry ok junk pSet ptr =
     bind_out (dvmPointerSetHas pSet ptr) (\<lambda>(found, nearby).
       if found then Ret (False, pSet)
       else
         bind_out (pset_expand ok junk pSet) (\<lambda>pSet.
         bind_out (if count pSet = 0 then
                     (if nearby = 0 then Ret (nearby, plist pSet) else AbortVM)
                   else
                     bind_out (pset_index (plist pSet) ptr nearby) (\<lambda>nearby.
                     bind_out (pset_shift (plist pSet) (count pSet) nearby) (\<lambda>xs.
                     Ret (nearby, xs)))) (\<lambda>(nearby, xs).
         bind_out (list_store xs (nat nearby) ptr) (\<lambda>xs.
         let pSet = pSet\<lparr>plist := xs, count := count pSet + 1\<rparr> in
         if verifySorted pSet then Ret (True, pSet) else AbortVM))))"

text \<open>Deleting the element at an index, as removal and intersection do; \<open>0xdecadead\<close> marks the free slot.\<close>

definition pset_delete_at :: "PointerSet \<Rightarrow> int \<Rightarrow> PointerSet outcome" where
  "pset_delete_at pSet idx =
     bind_out (if idx \<noteq> uint (count pSet) - 1
               then list_move (plist pSet) (nat idx) (nat (idx + 1)) (nat (uint (count pSet) - 1 - idx))
               else Ret (plist pSet)) (\<lambda>xs.
     let n = count pSet - 1 in
     bind_out (list_store xs (unat n) 0xdecadead) (\<lambda>xs.
     Ret (pSet\<lparr>count := n, plist := xs\<rparr>)))"

definition dvmPointerSetRemoveEntry :: "PointerSet \<Rightarrow> u8 \<Rightarrow> (bool \<times> PointerSet) outcome" where
  "dvmPointerSetRemoveEntry pSet ptr =
     bind_out (dvmPointerSetHas pSet ptr) (\<lambda>(found, idx).
       if \<not> found then Ret (False, pSet)
       else bind_out (pset_delete_at pSet idx) (\<lambda>pSet. Ret (True, pSet)))"

text \<open>The inner loop of the intersection: the index of the first match, or \<open>count\<close>.\<close>

function scan_array :: "u8 list \<Rightarrow> u8 \<Rightarrow> int \<Rightarrow> int \<Rightarrow> int outcome" where
  "scan_array ptrArray v j cnt =
     (if j < cnt then
        case read_at ptrArray j of
          None \<Rightarrow> OutOfBounds
        | Some x \<Rightarrow> if v = x then Ret j else scan_array ptrArray v (j + 1) cnt
      else Ret j)"
  by pat_completeness auto
termination
  by (relation "measure (\<lambda>(ptrArray, v, j, cnt). nat (cnt - j))") auto

declare scan_array.simps [simp del]

text \<open>The outer loop; an entry that is removed leaves the index where it is.\<close>

function (domintros) intersect_loop :: "u8 list \<Rightarrow> int \<Rightarrow> PointerSet \<Rightarrow> int \<Rightarrow> PointerSet outcome" where
  "intersect_loop ptrArray cnt pSet i =
     (if i < uint (count pSet) then
        case read_at (plist pSet) i of
          None \<Rightarrow> OutOfBounds
        | Some v \<Rightarrow>
            (case scan_array ptrArray v 0 cnt of
               Ret j \<Rightarrow>
                 if j = cnt then
                   (case pset_delete_at pSet i of
                      Ret pSet' \<Rightarrow> intersect_loop ptrArray cnt pSet' i
                    | AbortVM \<Rightarrow> AbortVM | OutOfBounds \<Rightarrow> OutOfBounds)
                 else intersect_loop ptrArray cnt pSet (i + 1)
             | AbortVM \<Rightarrow> AbortVM | OutOfBounds \<Rightarrow> OutOfBounds)
      else Ret pSet)"
  by pat_completeness auto
lemma delete_at_count: "pset_delete_at pSet i = Ret pSet' \<Longrightarrow> count pSet' = count pSet - 1"
  by (auto simp: pset_delete_at_def Let_def split: if_splits)

termination intersect_loop
proof (relation "measure (\<lambda>(ptrArray, cnt, pSet, i). nat (uint (count pSet) - i))")
  fix ptrArray cnt pSet and i :: int and v j pSet'
  assume "i < uint (count pSet)" "read_at (plist pSet) i = Some v" "pset_delete_at pSet i = Ret pSet'"
  then have "0 < uint (count pSet)" and "count pSet' = count pSet - 1" by (auto simp: delete_at_count)
  then have "uint (count pSet') = uint (count pSet) - 1" by (auto intro: uint_dec)
  then show "((ptrArray, cnt, pSet', i), ptrArray, cnt, pSet, i)
     \<in> measure (\<lambda>(ptrArray, cnt, pSet, i). nat (uint (count pSet) - i))"
    using \<open>i < uint (count pSet)\<close> by simp
qed auto

declare intersect_loop.simps [simp del]

definition dvmPointerSetIntersect :: "PointerSet \<Rightarrow> u8 list \<Rightarrow> int \<Rightarrow> PointerSet outcome" where
  "dvmPointerSetIntersect pSet ptrArray cnt = intersect_loop ptrArray cnt pSet 0"

section \<open>The invariant\<close>

definition pset_wf :: "PointerSet \<Rightarrow> bool" where
  "pset_wf pSet \<longleftrightarrow> count pSet \<le> alloc pSet \<and> unat (alloc pSet) \<le> length (plist pSet)
     \<and> sorted_wrt (<) (used pSet)"

definition elems :: "PointerSet \<Rightarrow> u8 set" where
  "elems pSet = set (used pSet)"

text \<open>The 16-bit capacity can still be doubled, and the allocator grants the request.\<close>

definition pset_room :: "(int \<Rightarrow> bool) \<Rightarrow> PointerSet \<Rightarrow> bool" where
  "pset_room ok pSet \<longleftrightarrow> count pSet \<noteq> alloc pSet
     \<or> uint (alloc pSet) < 2 ^ 15 \<and> ok (if alloc pSet = 0 then 4 else 2 * uint (alloc pSet))"

lemma pset_wf_count: "pset_wf pSet \<Longrightarrow> unat (count pSet) \<le> length (plist pSet)"
  unfolding pset_wf_def by (metis order.trans word_le_nat_alt)

lemma length_used [simp]: "pset_wf pSet \<Longrightarrow> length (used pSet) = unat (count pSet)"
  using pset_wf_count by (simp add: used_def min_absorb2)

lemma used_nth: "i < unat (count pSet) \<Longrightarrow> used pSet ! i = plist pSet ! i"
  by (simp add: used_def)

lemma verify_from_sorted: "sorted_wrt (<) xs \<Longrightarrow> \<forall>x\<in>set xs. prev \<le> x \<Longrightarrow> verify_from prev xs"
  by (induction xs arbitrary: prev) (auto simp: not_less less_imp_le)

lemma strict_sorted_nth: "sorted_wrt (<) xs \<Longrightarrow> i < j \<Longrightarrow> j < length xs \<Longrightarrow> xs ! i < xs ! (j :: nat)"
  for xs :: "'a::linorder list" by (rule sorted_wrt_nth_less)

section \<open>The search\<close>

text \<open>\<open>k\<close> is where \<open>ptr\<close> belongs: everything before is smaller, everything from there on is greater.\<close>

definition splits_at :: "u8 list \<Rightarrow> u8 \<Rightarrow> nat \<Rightarrow> bool" where
  "splits_at xs ptr k \<longleftrightarrow> k \<le> length xs \<and> (\<forall>x\<in>set (take k xs). x < ptr) \<and> (\<forall>x\<in>set (drop k xs). ptr < x)"

lemma splits_at_notin: "splits_at xs ptr k \<Longrightarrow> ptr \<notin> set xs"
  by (subst append_take_drop_id [of k xs, symmetric]) (auto simp: splits_at_def simp del: append_take_drop_id)

lemma has_loop_spec:
  assumes "sorted_wrt (<) (take n xs)" and "n \<le> length xs" and "0 \<le> lo" and "lo \<le> hi + 1" and "hi < int n"
    and "\<forall>i<nat lo. xs ! i < ptr" and "\<forall>i<n. hi < int i \<longrightarrow> ptr < xs ! i"
    and "mid = lo - 1 \<or> mid = hi + 1 \<or> lo = 0 \<and> hi = int n - 1" and "0 < n \<longrightarrow> 0 \<le> mid \<and> mid < int n"
  shows "(\<exists>i<n. xs ! i = ptr \<and> has_loop xs ptr lo hi mid = Ret (True, int i))
    \<or> (\<exists>k m. splits_at (take n xs) ptr k \<and> has_loop xs ptr lo hi mid = Ret (False, m)
          \<and> (0 < n \<longrightarrow> 0 \<le> m \<and> m < int n \<and> (m = int k \<or> m = int k - 1)) \<and> (n = 0 \<longrightarrow> m = mid))"
  using assms
proof (induction xs ptr lo hi mid rule: has_loop.induct)
  case (1 xs ptr lo hi mid)
  note greater = 1(1) and less = 1(2) and inv = 1(3-)
  show ?case
  proof (cases "lo \<le> hi")
    case False
    have "nat lo \<le> n" "n \<le> length xs" using inv False by auto
    then have "splits_at (take n xs) ptr (nat lo)"
      using inv(6,7) False by (auto simp: splits_at_def in_set_conv_nth min_absorb1)
    moreover have "has_loop xs ptr lo hi mid = Ret (False, mid)" using False by (simp add: has_loop.simps)
    ultimately show ?thesis using inv False by (intro disjI2 exI [of _ "nat lo"] exI [of _ mid]) auto
  next
    case True
    define m where "m = (lo + hi) div 2"
    have m: "lo \<le> m" "m \<le> hi" using True by (simp_all add: m_def)
    have mono: "xs ! i < xs ! j" if "i < j" "j < n" for i j
      using sorted_wrt_nth_less [OF inv(1), of i j] that inv(2) by simp
    have rd: "read_at xs m = Some (xs ! nat m)" using m inv by simp
    note step = has_loop.simps [of xs ptr lo hi mid, folded m_def] True rd
    consider (gt) "ptr > xs ! nat m" | (lt) "ptr < xs ! nat m" | (eq) "ptr = xs ! nat m" by (meson linorder_neqE)
    then show ?thesis
    proof cases
      case gt
      have "xs ! i < ptr" if "i < nat (m + 1)" for i
      proof (cases "i = nat m")
        case False
        then have "i < nat m" "nat m < n" using that m inv(3,5) by auto
        then show ?thesis using gt mono by (meson order.strict_trans)
      qed (use gt in simp)
      moreover have s: "has_loop xs ptr lo hi mid = has_loop xs ptr (m + 1) hi m"
        using step gt by (simp add: Let_def)
      ultimately show ?thesis unfolding s
        using greater [OF True m_def rd gt inv(1,2)] m inv(3-7) by auto
    next
      case lt
      have "ptr < xs ! i" if "i < n" "m - 1 < int i" for i
        using that lt mono [of "nat m" i] m inv(3,5)
        by (cases "i = nat m") (auto simp: nat_less_iff elim: order.strict_trans)
      moreover have nl: "\<not> xs ! nat m < ptr" using lt by simp
      then have s: "has_loop xs ptr lo hi mid = has_loop xs ptr lo (m - 1) m"
        using step lt by (simp add: Let_def)
      ultimately show ?thesis unfolding s
        using less [OF True m_def rd nl lt inv(1,2)] lt m inv(3-7) by auto
    next
      case eq
      with step m inv show ?thesis by (auto simp: Let_def intro!: exI [of _ "nat m"])
    qed
  qed
qed

lemma has_spec:
  assumes "pset_wf pSet"
  obtains (found) i where "i < unat (count pSet)" "used pSet ! i = ptr" "ptr \<in> elems pSet"
      "dvmPointerSetHas pSet ptr = Ret (True, int i)"
  | (missing) k m where "ptr \<notin> elems pSet" "splits_at (used pSet) ptr k"
      "dvmPointerSetHas pSet ptr = Ret (False, m)"
      "if count pSet = 0 then m = 0 else 0 \<le> m \<and> m < uint (count pSet) \<and> (m = int k \<or> m = int k - 1)"
proof -
  define n where "n = unat (count pSet)"
  have eq: "has_loop (plist pSet) ptr 0 (uint (count pSet) - 1) 0 = dvmPointerSetHas pSet ptr"
    by (simp add: dvmPointerSetHas_def)
  have u: "uint (count pSet) = int n" by (simp add: n_def)
  have wf: "sorted_wrt (<) (take n (plist pSet))" "n \<le> length (plist pSet)"
    using assms pset_wf_count [OF assms] by (simp_all add: pset_wf_def used_def n_def)
  have "(\<exists>i<n. plist pSet ! i = ptr \<and> dvmPointerSetHas pSet ptr = Ret (True, int i))
    \<or> (\<exists>k m. splits_at (take n (plist pSet)) ptr k \<and> dvmPointerSetHas pSet ptr = Ret (False, m)
          \<and> (0 < n \<longrightarrow> 0 \<le> m \<and> m < int n \<and> (m = int k \<or> m = int k - 1)) \<and> (n = 0 \<longrightarrow> m = 0))"
    unfolding eq [symmetric] u
    by (intro has_loop_spec wf) auto
  then show thesis
  proof (elim disjE exE conjE)
    fix i assume "i < n" "plist pSet ! i = ptr" "dvmPointerSetHas pSet ptr = Ret (True, int i)"
    then show thesis using assms by (intro found [of i]) (auto simp: used_nth elems_def n_def in_set_conv_nth)
  next
    fix k m assume *: "splits_at (take n (plist pSet)) ptr k" "dvmPointerSetHas pSet ptr = Ret (False, m)"
      "0 < n \<longrightarrow> 0 \<le> m \<and> m < int n \<and> (m = int k \<or> m = int k - 1)" "n = 0 \<longrightarrow> m = 0"
    have "ptr \<notin> elems pSet"
      using splits_at_notin [OF *(1)] by (simp add: elems_def used_def n_def)
    moreover have "count pSet = 0 \<longleftrightarrow> n = 0" by (simp add: n_def unat_eq_0)
    ultimately show thesis using *(2-4) *(1) [unfolded n_def, folded used_def]
      by (intro missing [of k m]) (simp_all add: u)
  qed
qed

lemma splits_at_nth:
  assumes "splits_at xs ptr k"
  shows "i < k \<Longrightarrow> xs ! i < ptr" and "k \<le> i \<Longrightarrow> i < length xs \<Longrightarrow> ptr < xs ! i"
proof -
  assume "i < k"
  then have "xs ! i \<in> set (take k xs)" using assms by (auto simp: splits_at_def in_set_conv_nth)
  then show "xs ! i < ptr" using assms by (auto simp: splits_at_def)
next
  assume "k \<le> i" "i < length xs"
  then have "xs ! i \<in> set (drop k xs)" by (auto simp: in_set_conv_nth intro!: exI [of _ "i - k"])
  then show "ptr < xs ! i" using assms by (auto simp: splits_at_def)
qed

section \<open>Insertion\<close>

lemma expand_spec:
  assumes "pset_wf pSet" and "pset_room ok pSet"
  shows "\<exists>s. pset_expand ok junk pSet = Ret s \<and> count s = count pSet \<and> used s = used pSet \<and> pset_wf s
           \<and> count s < alloc s"
proof (cases "count pSet = alloc pSet")
  case False
  with assms show ?thesis by (simp add: pset_expand_def pset_wf_def order.strict_iff_order)
next
  case True
  let ?a = "if alloc pSet = 0 then 4 else alloc pSet * 2"
  have a: "uint ?a = (if alloc pSet = 0 then 4 else 2 * uint (alloc pSet))"
    using True assms(2)
    by (auto simp: pset_room_def uint_word_arith_bintrs(3) take_bit_int_eq_self)
  have lt: "unat (count pSet) < unat ?a"
    using a True by (auto simp: uint_pos simp flip: of_nat_less_iff [where 'a = int])
  have ok: "ok (uint ?a)" using a True assms(2) by (simp add: pset_room_def)
  have "take (unat (count pSet)) (list_grow junk (plist pSet) (unat ?a)) = used pSet"
    using lt pset_wf_count [OF assms(1)] by (simp add: used_def)
  then show ?thesis
    using True ok lt assms(1)
    by (auto simp: pset_expand_def Let_def pset_wf_def used_def word_less_nat_alt intro: less_imp_le split: if_splits)
qed

lemma index_spec:
  assumes "splits_at (take n xs) ptr k" and "n \<le> length xs" and "0 < n"
    and "0 \<le> m" and "m < int n" and "m = int k \<or> m = int k - 1"
  shows "pset_index xs ptr m = Ret (int k)"
proof -
  have lo: "i < k \<Longrightarrow> xs ! i < ptr" and hi: "k \<le> i \<Longrightarrow> i < n \<Longrightarrow> ptr < xs ! i" for i
    using splits_at_nth [OF assms(1), of i] assms(1,2) by (auto simp: splits_at_def)
  show ?thesis
  proof (cases "m = int k")
    case True
    then have "m \<noteq> 0 \<Longrightarrow> \<not> ptr < xs ! nat (m - 1)" using lo [of "nat (m - 1)"] assms(4) by force
    moreover have "ptr < xs ! nat m" using True hi assms(5) by simp
    ultimately show ?thesis using True assms(2,5)
      by (cases "k = 0") (auto simp: pset_index_def read_at_def)
  next
    case False
    with assms have m: "m = int k - 1" "0 < k" by auto
    then have "m \<noteq> 0 \<Longrightarrow> \<not> ptr < xs ! nat (m - 1)" using lo [of "nat (m - 1)"] assms(4) by force
    moreover have "\<not> ptr < xs ! nat m" using m lo [of "nat m"] by force
    ultimately show ?thesis using m assms(2,4,5) by (auto simp: pset_index_def read_at_def)
  qed
qed

text \<open>Putting a value at its place keeps a sorted list sorted.\<close>

lemma sorted_insert_at:
  assumes "sorted_wrt (<) xs" and "splits_at xs ptr k"
  shows "sorted_wrt (<) (take k xs @ ptr # drop k xs)" and "set (take k xs @ ptr # drop k xs) = insert ptr (set xs)"
proof -
  have "\<forall>x\<in>set (take k xs). \<forall>y\<in>set (drop k xs). x < y"
    using assms(2) by (meson order.strict_trans splits_at_def)
  with assms show "sorted_wrt (<) (take k xs @ ptr # drop k xs)"
    by (auto simp: sorted_wrt_append splits_at_def sorted_wrt_take sorted_wrt_drop)
  show "set (take k xs @ ptr # drop k xs) = insert ptr (set xs)"
    by (metis append_take_drop_id insert_is_Un list.simps(15) set_append sup_left_commute)
qed

lemma add_at:
  assumes "pset_wf s" and "count s < alloc s" and "splits_at (used s) ptr k"
    and "if count s = 0 then m = 0 else 0 \<le> m \<and> m < uint (count s) \<and> (m = int k \<or> m = int k - 1)"
    and "dvmPointerSetHas pSet ptr = Ret (False, m)" and "pset_expand ok junk pSet = Ret s"
  shows "\<exists>s'. dvmPointerSetAddEntry ok junk pSet ptr = Ret (True, s') \<and> count s' = count s + 1
           \<and> alloc s' = alloc s \<and> pset_wf s' \<and> used s' = take k (used s) @ ptr # drop k (used s)"
proof -
  define n where "n = unat (count s)"
  have u: "uint (count s) = int n" by (simp add: n_def)
  have len: "n < length (plist s)" using assms(1,2) by (auto simp: n_def pset_wf_def word_less_nat_alt)
  have k: "k \<le> n" using assms(1,3) by (simp add: splits_at_def n_def)
  have c1: "unat (count s + 1) = Suc n" unfolding n_def by (rule unat_inc [OF assms(2)])
  obtain ys where ys: "list_move (plist s) (Suc k) k (n - k) = Ret ys" "length ys = length (plist s)"
    "take (Suc n) (ys[k := ptr]) = take k (plist s) @ ptr # drop k (take n (plist s))"
    using list_move_insert [OF k len] by blast
  define s' where "s' = s\<lparr>plist := ys[k := ptr], count := count s + 1\<rparr>"
  have used': "used s' = take k (used s) @ ptr # drop k (used s)"
    using ys(3) k by (simp add: s'_def used_def c1 min_absorb1 flip: n_def)
  have sorted: "sorted_wrt (<) (used s')"
    unfolding used' using assms(1,3) by (intro sorted_insert_at) (simp_all add: pset_wf_def)
  then have wf: "pset_wf s'"
    using assms(1,2) ys(2) c1 by (auto simp: pset_wf_def s'_def word_less_nat_alt word_le_nat_alt n_def)
  have idx: "count s \<noteq> 0 \<Longrightarrow> pset_index (plist s) ptr m = Ret (int k)"
  proof -
    assume c: "count s \<noteq> 0"
    then have "0 < n" by (simp add: n_def unat_gt_0)
    moreover have "splits_at (take n (plist s)) ptr k" using assms(3) by (simp add: used_def n_def)
    ultimately show "pset_index (plist s) ptr m = Ret (int k)"
      using c assms(4) len u by (intro index_spec [where n = n]) simp_all
  qed
  have mv: "pset_shift (plist s) (count s) (int k) = Ret ys"
    using ys(1) k len by (auto simp: pset_shift_def u nat_diff_distrib nat_add_distrib list_move_none)
  have "dvmPointerSetAddEntry ok junk pSet ptr = Ret (True, s')"
  proof (cases "count s = 0")
    case True
    then have "n = 0" "k = 0" using k by (simp_all add: n_def)
    moreover have "s' = s\<lparr>plist := ys[0 := ptr], count := 1\<rparr>" using True \<open>k = 0\<close> by (simp add: s'_def)
    ultimately show ?thesis using True assms(4-6) ys(1) len sorted
      by (simp add: Let_def dvmPointerSetAddEntry_def list_move_none list_store_def verifySorted_def verify_from_sorted
          flip: s'_def del: bind_out_eq_Ret)
  next
    case False
    then show ?thesis using assms(4-6) len sorted idx mv ys(2) k
      by (simp add: dvmPointerSetAddEntry_def list_store_def verifySorted_def verify_from_sorted u Let_def
          flip: s'_def del: bind_out_eq_Ret)
  qed
  with wf used' show ?thesis by (auto simp: s'_def)
qed

lemma add_found:
  "dvmPointerSetHas pSet ptr = Ret (True, i) \<Longrightarrow> dvmPointerSetAddEntry ok junk pSet ptr = Ret (False, pSet)"
  by (simp add: dvmPointerSetAddEntry_def)

lemma pset_add_spec:
  assumes "pset_wf pSet" and "pset_room ok pSet"
  shows "\<exists>s'. dvmPointerSetAddEntry ok junk pSet ptr = Ret (ptr \<notin> elems pSet, s') \<and> pset_wf s'
           \<and> elems s' = insert ptr (elems pSet)"
  using assms(1)
proof (cases rule: has_spec [where ptr = ptr])
  case (found i)
  then show ?thesis using assms(1) by (auto simp: add_found)
next
  case (missing k m)
  obtain s where s: "pset_expand ok junk pSet = Ret s" "count s = count pSet" "used s = used pSet" "pset_wf s"
    "count s < alloc s"
    using expand_spec [OF assms] by blast
  obtain s' where "dvmPointerSetAddEntry ok junk pSet ptr = Ret (True, s')" "pset_wf s'"
    "used s' = take k (used s) @ ptr # drop k (used s)"
    using add_at [OF s(4,5)] missing s(1-3) by metis
  with s(3,4) missing show ?thesis
    by (auto simp: elems_def pset_wf_def sorted_insert_at(2) simp del: set_append)
qed

section \<open>Removal and intersection\<close>

lemma sorted_delete_at:
  assumes "sorted_wrt (<) xs" and "i < length xs"
  shows "sorted_wrt (<) (take i xs @ drop (Suc i) xs)"
proof -
  have "sorted_wrt (<) (take i xs @ xs ! i # drop (Suc i) xs)" using assms by (simp flip: id_take_nth_drop)
  then show ?thesis by (auto simp: sorted_wrt_append)
qed

lemma set_delete_at:
  assumes "sorted_wrt (<) xs" and "i < length xs"
  shows "set (take i xs @ drop (Suc i) xs) = set xs - {xs ! i :: u8}"
proof -
  have s: "sorted_wrt (<) (take i xs @ xs ! i # drop (Suc i) xs)" using assms by (simp flip: id_take_nth_drop)
  have "set xs = set (take i xs @ xs ! i # drop (Suc i) xs)" using assms(2) by (simp flip: id_take_nth_drop)
  with s show ?thesis by (auto simp: sorted_wrt_append)
qed

lemma delete_at_spec:
  assumes "pset_wf pSet" and "i < unat (count pSet)"
  shows "\<exists>s'. pset_delete_at pSet (int i) = Ret s' \<and> pset_wf s' \<and> Suc (unat (count s')) = unat (count pSet)
           \<and> used s' = take i (used pSet) @ drop (Suc i) (used pSet)"
proof -
  have "count pSet \<noteq> 0" using assms(2) by auto
  define n where "n = unat (count pSet - 1)"
  have n: "unat (count pSet) = Suc n" using unat_dec [OF \<open>count pSet \<noteq> 0\<close>] by (simp add: n_def)
  have u: "uint (count pSet) = int (Suc n)" using n by (metis uint_nat)
  have i: "i \<le> n" and len: "n < length (plist pSet)" using assms pset_wf_count [OF assms(1)] n by simp_all
  obtain ys where ys: "list_move (plist pSet) i (Suc i) (n - i) = Ret ys" "length ys = length (plist pSet)"
    "take n ys = take i (plist pSet) @ drop (Suc i) (take (Suc n) (plist pSet))"
    using list_move_delete [OF i len] by blast
  have mv: "(if int i \<noteq> uint (count pSet) - 1
        then list_move (plist pSet) (nat (int i)) (nat (int i + 1)) (nat (uint (count pSet) - 1 - int i))
        else Ret (plist pSet)) = Ret ys"
    using ys(1) i len by (auto simp: u nat_diff_distrib nat_add_distrib list_move_none)
  define s' where "s' = pSet\<lparr>count := count pSet - 1, plist := ys[n := 0xdecadead]\<rparr>"
  have "pset_delete_at pSet (int i) = Ret s'"
    using mv ys(2) len by (simp add: pset_delete_at_def s'_def list_store_def Let_def flip: n_def del: bind_out_eq_Ret)
  moreover have used': "used s' = take i (used pSet) @ drop (Suc i) (used pSet)"
    using ys(3) i by (simp add: s'_def used_def n min_absorb1 flip: n_def)
  moreover have "sorted_wrt (<) (used s')"
    unfolding used' using assms by (intro sorted_delete_at) (simp_all add: pset_wf_def)
  moreover have "count s' \<le> alloc s'" "unat (alloc s') \<le> length (plist s')"
    using assms(1) ys(2) n by (auto simp: s'_def pset_wf_def word_le_nat_alt simp flip: n_def)
  ultimately show ?thesis using n by (auto simp: pset_wf_def s'_def n_def)
qed

lemma pset_remove_spec:
  assumes "pset_wf pSet"
  shows "\<exists>s'. dvmPointerSetRemoveEntry pSet ptr = Ret (ptr \<in> elems pSet, s') \<and> pset_wf s'
           \<and> elems s' = elems pSet - {ptr}"
  using assms
proof (cases rule: has_spec [where ptr = ptr])
  case (found i)
  then obtain s' where "pset_delete_at pSet (int i) = Ret s'" "pset_wf s'"
    "used s' = take i (used pSet) @ drop (Suc i) (used pSet)"
    using delete_at_spec [OF assms] by blast
  moreover have "set (take i (used pSet) @ drop (Suc i) (used pSet)) = set (used pSet) - {ptr}"
    using found assms set_delete_at [of "used pSet" i] by (simp add: pset_wf_def)
  ultimately show ?thesis using found by (auto simp: dvmPointerSetRemoveEntry_def elems_def)
next
  case (missing k m)
  then show ?thesis using assms by (auto simp: dvmPointerSetRemoveEntry_def)
qed

lemma scan_array_spec:
  assumes "0 \<le> j" and "j \<le> cnt" and "cnt \<le> int (length arr)"
  shows "\<exists>r. scan_array arr v j cnt = Ret r \<and> (r = cnt \<longleftrightarrow> v \<notin> set (drop (nat j) (take (nat cnt) arr)))"
  using assms
proof (induction arr v j cnt rule: scan_array.induct)
  case (1 arr v j cnt)
  show ?case
  proof (cases "j < cnt")
    case True
    have rd: "read_at arr j = Some (arr ! nat j)" using 1(2-) True by simp
    have "nat j < length (take (nat cnt) arr)" using 1(2-) True by simp
    then have dr: "drop (nat j) (take (nat cnt) arr) = arr ! nat j # drop (nat (j + 1)) (take (nat cnt) arr)"
      using Cons_nth_drop_Suc [of "nat j" "take (nat cnt) arr"] 1(2) by (simp add: nat_add_distrib)
    show ?thesis
      using 1(1) [OF True rd] 1(2-) True rd by (auto simp: scan_array.simps [of arr v j] dr simp del: read_at_Some)
  qed (use 1(2-) in \<open>auto simp: scan_array.simps [of arr v cnt]\<close>)
qed

lemma intersect_loop_spec:
  assumes "pset_wf pSet" and "0 \<le> cnt" and "cnt \<le> int (length arr)" and "i \<le> unat (count pSet)"
  shows "\<exists>s'. intersect_loop arr cnt pSet (int i) = Ret s' \<and> pset_wf s'
     \<and> used s' = take i (used pSet) @ filter (\<lambda>x. x \<in> set (take (nat cnt) arr)) (drop i (used pSet))"
  using assms
proof (induction "unat (count pSet) - i" arbitrary: pSet i)
  case 0
  then show ?case by (auto simp: intersect_loop.simps)
next
  case (Suc d)
  then have "i < unat (count pSet)" by simp
  then have i: "i < unat (count pSet)" "int i < uint (count pSet)"
    using of_nat_less_iff [where 'a = int, of i "unat (count pSet)"] by simp_all
  let ?v = "used pSet ! i"
  have rd: "read_at (plist pSet) (int i) = Some ?v"
    using i pset_wf_count [OF Suc.prems(1)] by (simp add: used_nth)
  have dr: "drop i (used pSet) = ?v # drop (Suc i) (used pSet)"
    using i Suc.prems(1) by (simp add: Cons_nth_drop_Suc)
  obtain r where r: "scan_array arr ?v 0 cnt = Ret r" "r = cnt \<longleftrightarrow> ?v \<notin> set (take (nat cnt) arr)"
    using scan_array_spec [of 0 cnt arr ?v] Suc.prems(2,3) by auto
  show ?case
  proof (cases "r = cnt")
    case True
    obtain s where s: "pset_delete_at pSet (int i) = Ret s" "pset_wf s" "Suc (unat (count s)) = unat (count pSet)"
      "used s = take i (used pSet) @ drop (Suc i) (used pSet)"
      using delete_at_spec [OF Suc.prems(1) i(1)] by blast
    then have "\<exists>s'. intersect_loop arr cnt s (int i) = Ret s' \<and> pset_wf s'
      \<and> used s' = take i (used s) @ filter (\<lambda>x. x \<in> set (take (nat cnt) arr)) (drop i (used s))"
      using Suc(2) i by (intro Suc(1)) (use Suc.prems in simp_all)
    then show ?thesis
      using True i r rd s dr Suc.prems(1) by (simp add: intersect_loop.simps [of arr cnt pSet] del: read_at_Some)
  next
    case False
    have "\<exists>s'. intersect_loop arr cnt pSet (int (Suc i)) = Ret s' \<and> pset_wf s'
      \<and> used s' = take (Suc i) (used pSet) @ filter (\<lambda>x. x \<in> set (take (nat cnt) arr)) (drop (Suc i) (used pSet))"
      using Suc(2) i by (intro Suc(1)) (use Suc.prems in simp_all)
    then show ?thesis
      using False i r rd dr Suc.prems(1)
      by (simp add: intersect_loop.simps [of arr cnt pSet] take_Suc_conv_app_nth add.commute del: read_at_Some)
  qed
qed

section \<open>The interface\<close>

text \<open>
  What a client of the set relies on: up to a bound on the number of elements every insertion
  succeeds and is the insertion of set theory.
\<close>

locale pointer_set =
  fixes inv :: "'s \<Rightarrow> bool" and elems :: "'s \<Rightarrow> u8 set" and limit :: nat
    and add :: "'s \<Rightarrow> u8 \<Rightarrow> (bool \<times> 's) outcome" and clear :: "'s \<Rightarrow> 's"
  assumes finite_elems: "inv s \<Longrightarrow> finite (elems s)"
    and add_insert: "inv s \<Longrightarrow> card (elems s) < limit
      \<Longrightarrow> \<exists>s'. add s p = Ret (p \<notin> elems s, s') \<and> inv s' \<and> elems s' = insert p (elems s)"
    and clear_empty: "inv s \<Longrightarrow> inv (clear s) \<and> elems (clear s) = {}"

text \<open>The loops of the clients: every entry of an array that is not \<open>NULL\<close> is added.\<close>

fun add_entries :: "('s \<Rightarrow> u8 \<Rightarrow> (bool \<times> 's) outcome) \<Rightarrow> 's \<Rightarrow> u8 list \<Rightarrow> 's outcome" where
  "add_entries add s [] = Ret s"
| "add_entries add s (p # ps) =
     (if p \<noteq> 0 then bind_out (add s p) (\<lambda>(_, s). add_entries add s ps) else add_entries add s ps)"

context pointer_set
begin

lemma add_entries_union:
  assumes "inv s" and "card (elems s) + length ps \<le> limit"
  shows "\<exists>s'. add_entries add s ps = Ret s' \<and> inv s' \<and> elems s' = elems s \<union> (set ps - {0})"
  using assms
proof (induction ps arbitrary: s)
  case (Cons p ps)
  show ?case
  proof (cases "p = 0")
    case False
    obtain s1 where s1: "add s p = Ret (p \<notin> elems s, s1)" "inv s1" "elems s1 = insert p (elems s)"
      using add_insert [of s p] Cons.prems by auto
    then have "card (elems s1) + length ps \<le> limit"
      using Cons.prems card_insert_le_m1 [of "Suc (card (elems s))" "elems s" p] by (simp add: finite_elems)
    from Cons.IH [OF s1(2) this] s1 False show ?thesis by auto
  qed (use Cons in auto)
qed auto

text \<open>Rebuilding the set from an array, as a client does after filtering its elements.\<close>

lemma rebuild:
  "inv s \<Longrightarrow> length ps \<le> limit
   \<Longrightarrow> \<exists>s'. add_entries add (clear s) ps = Ret s' \<and> inv s' \<and> elems s' = set ps - {0}"
  using add_entries_union [of "clear s" ps] clear_empty [of s] by auto

end

lemma card_elems: "pset_wf pSet \<Longrightarrow> card (elems pSet) = unat (count pSet)"
  by (metis distinct_card elems_def length_used pset_wf_def strict_sorted_iff)

lemma pset_room_below: "pset_wf pSet \<Longrightarrow> card (elems pSet) < 2 ^ 15 \<Longrightarrow> pset_room (\<lambda>_. True) pSet"
  using of_nat_less_iff [where 'a = int, of "unat (count pSet)" "2 ^ 15"]
  by (auto simp: pset_room_def card_elems)

lemma pset_clear_spec: "pset_wf pSet \<Longrightarrow> pset_wf (dvmPointerSetClear pSet) \<and> elems (dvmPointerSetClear pSet) = {}"
  by (simp add: pset_wf_def dvmPointerSetClear_def used_def elems_def)

interpretation dvm_pset: pointer_set pset_wf elems "2 ^ 15"
  "dvmPointerSetAddEntry (\<lambda>_. True) junk" dvmPointerSetClear for junk
proof unfold_locales
  fix s p assume "pset_wf s" "card (elems s) < 2 ^ 15"
  then show "\<exists>s'. dvmPointerSetAddEntry (\<lambda>_. True) junk s p = Ret (p \<notin> elems s, s') \<and> pset_wf s'
      \<and> elems s' = insert p (elems s)"
    by (intro pset_add_spec pset_room_below)
qed (use pset_clear_spec in \<open>auto simp: elems_def [abs_def]\<close>)

section \<open>Beyond the 16-bit capacity\<close>

lemma list_move_short: "length xs < d + n \<Longrightarrow> list_move xs d s n = OutOfBounds"
  by (simp add: list_move_def)

lemma overflow_alloc:
  assumes "2 ^ 15 \<le> unat (a :: u2)"
  shows "unat (a * 2) \<le> unat a"
proof -
  have "unat a < 2 ^ 16" using unsigned_less [where 'a = nat, of a] by simp
  moreover have "unat (a * 2) = (unat a * 2) mod 2 ^ 16" by (simp add: unat_word_ariths(2))
  moreover have "(unat a * 2) mod 2 ^ 16 = unat a * 2 - 2 ^ 16"
    using assms calculation(1) by (subst le_mod_geq) simp_all
  ultimately show ?thesis by simp
qed

lemma index_range:
  "pset_index xs ptr m = OutOfBounds \<or> (\<exists>r\<in>{m - 1, m, m + 1}. pset_index xs ptr m = Ret r)"
  by (auto simp: pset_index_def split: option.splits)

lemma index_nonneg: "pset_index xs ptr m = Ret r \<Longrightarrow> 0 \<le> m \<Longrightarrow> 0 \<le> r"
  by (auto simp: pset_index_def split: option.splits if_splits)

lemma short_array_out_of_bounds:
  assumes "length xs \<le> unat c" and "0 \<le> i" and "i \<le> uint c"
  shows "bind_out (pset_shift xs c i) (\<lambda>xs. list_store xs (nat i) v) = OutOfBounds"
proof (cases "i = uint c")
  case True
  with assms show ?thesis by (simp add: pset_shift_def list_store_def)
next
  case False
  have "int (length xs) \<le> int (unat c)" using assms(1) by (simp only: of_nat_le_iff)
  then have "length xs < nat (i + 1) + nat (uint c - i)" using assms(2,3) unfolding uint_nat by arith
  with False show ?thesis by (simp add: pset_shift_def list_move_short)
qed

section \<open>Claims\<close>

text \<open>C29 The operations are those of a finite set: on a well-formed set, searching decides membership and
  locates the element; adding, when the 16-bit capacity can still grow, inserts it and reports whether
  it was new; removal and intersection with an array remove exactly the elements they should; and each
  result is well-formed again. None of them leaves the array or fails an assertion.\<close>

theorem pset_refines_set:
  assumes "pset_wf pSet" and "pset_room ok pSet" and "0 \<le> cnt" and "cnt \<le> int (length arr)"
  shows "(\<exists>i. dvmPointerSetHas pSet ptr = Ret (ptr \<in> elems pSet, i)
            \<and> dvmPointerSetFind pSet ptr = Ret (if ptr \<in> elems pSet then i else - 1)
            \<and> (ptr \<in> elems pSet \<longrightarrow> dvmPointerSetGetEntry pSet i = Ret ptr))
    \<and> (\<exists>s. dvmPointerSetAddEntry ok junk pSet ptr = Ret (ptr \<notin> elems pSet, s)
           \<and> pset_wf s \<and> elems s = insert ptr (elems pSet))
    \<and> (\<exists>s. dvmPointerSetRemoveEntry pSet ptr = Ret (ptr \<in> elems pSet, s)
           \<and> pset_wf s \<and> elems s = elems pSet - {ptr})
    \<and> (\<exists>s. dvmPointerSetIntersect pSet arr cnt = Ret s
           \<and> pset_wf s \<and> elems s = elems pSet \<inter> set (take (nat cnt) arr))"
proof (intro conjI pset_add_spec pset_remove_spec assms)
  show "\<exists>i. dvmPointerSetHas pSet ptr = Ret (ptr \<in> elems pSet, i)
            \<and> dvmPointerSetFind pSet ptr = Ret (if ptr \<in> elems pSet then i else - 1)
            \<and> (ptr \<in> elems pSet \<longrightarrow> dvmPointerSetGetEntry pSet i = Ret ptr)"
    using assms(1)
  proof (cases rule: has_spec [where ptr = ptr])
    case (found i)
    then have "i < length (plist pSet)" using pset_wf_count [OF assms(1)] by simp
    with found show ?thesis
      by (auto simp: dvmPointerSetFind_def dvmPointerSetGetEntry_def read_at_nat used_nth simp del: read_at_Some)
  qed (auto simp: dvmPointerSetFind_def)
  obtain s where "dvmPointerSetIntersect pSet arr cnt = Ret s" "pset_wf s"
    "used s = filter (\<lambda>x. x \<in> set (take (nat cnt) arr)) (used pSet)"
    using intersect_loop_spec [OF assms(1,3,4), of 0] by (auto simp: dvmPointerSetIntersect_def)
  then show "\<exists>s. dvmPointerSetIntersect pSet arr cnt = Ret s
      \<and> pset_wf s \<and> elems s = elems pSet \<inter> set (take (nat cnt) arr)"
    by (auto simp: elems_def)
qed

theorem pset_refines_set_witness:
  "(\<exists>i. dvmPointerSetHas \<lparr>alloc = 2, count = 2, plist = [8, 24]\<rparr> 24 = Ret (True, i)) \<and>
   (\<exists>s. dvmPointerSetAddEntry (\<lambda>n. n = 4) 0 \<lparr>alloc = 2, count = 2, plist = [8, 24]\<rparr> 16 = Ret (True, s)
        \<and> elems s = {8, 16, 24}) \<and>
   (\<exists>s. dvmPointerSetIntersect \<lparr>alloc = 2, count = 2, plist = [8, 24]\<rparr> [24, 40] 2 = Ret s \<and> elems s = {24})"
proof -
  let ?s = "\<lparr>alloc = 2, count = 2, plist = [8, 24]\<rparr>"
  have h: "pset_wf ?s" "pset_room (\<lambda>n. n = 4) ?s" "elems ?s = {8, 24}"
    by (simp_all add: pset_wf_def pset_room_def elems_def used_def)
  show ?thesis
    using pset_refines_set [OF h(1,2), of 2 "[24, 40]" 24 0] pset_refines_set [OF h(1,2), of 2 "[24, 40]" 16 0]
    by (auto simp: h(3))
qed

text \<open>C30 Past the capacity: when a set of at least 32768 slots is full, the 16-bit \<open>alloc *= 2\<close> wraps,
  \<open>realloc\<close> shrinks the array, and adding any new element accesses memory beyond it.\<close>

theorem pset_overflow_out_of_bounds:
  assumes "pset_wf pSet" and "count pSet = alloc pSet" and "2 ^ 15 \<le> unat (alloc pSet)"
    and "ok (uint (alloc pSet * 2))" and "ptr \<notin> elems pSet"
  shows "dvmPointerSetAddEntry ok junk pSet ptr = OutOfBounds"
  using assms(1)
proof (cases rule: has_spec [where ptr = ptr])
  case (missing k m)
  have nz: "alloc pSet \<noteq> 0" using assms(3) by auto
  define xs where "xs = list_grow junk (plist pSet) (unat (alloc pSet * 2))"
  let ?s = "pSet\<lparr>alloc := alloc pSet * 2, plist := xs\<rparr>"
  have ex: "pset_expand ok junk pSet = Ret ?s"
    using assms(2,4) nz by (simp add: pset_expand_def xs_def)
  have short: "length xs \<le> unat (count pSet)" using overflow_alloc [OF assms(3)] assms(2) by (simp add: xs_def)
  have m: "0 \<le> m" "m < uint (count pSet)" using missing(4) nz assms(2) by auto
  have step: "dvmPointerSetAddEntry ok junk pSet ptr =
     bind_out (bind_out (pset_index xs ptr m) (\<lambda>i. bind_out (pset_shift xs (count pSet) i) (\<lambda>xs. Ret (i, xs))))
       (\<lambda>(i, xs). bind_out (list_store xs (nat i) ptr) (\<lambda>xs.
         let pSet = ?s\<lparr>plist := xs, count := count pSet + 1\<rparr> in
         if verifySorted pSet then Ret (True, pSet) else AbortVM))"
    using missing(3) ex nz assms(2) by (simp add: dvmPointerSetAddEntry_def)
  show ?thesis
  proof (cases "pset_index xs ptr m")
    case (Ret i)
    then have i: "0 \<le> i" "i \<le> uint (count pSet)"
      using m index_nonneg [OF Ret m(1)] index_range [of xs ptr m] by auto
    show ?thesis
      using short_array_out_of_bounds [OF short i, of ptr] unfolding step Ret
      by (cases "pset_shift xs (count pSet) i") simp_all
  qed (use index_range [of xs ptr m] in \<open>auto simp: step\<close>)
qed (use assms(5) in simp)

theorem pset_overflow_out_of_bounds_witness:
  "dvmPointerSetAddEntry (\<lambda>_. True) 0
     \<lparr>alloc = 0x8000, count = 0x8000, plist = map word_of_nat [0..<0x8000]\<rparr> 0x8000 = OutOfBounds"
proof -
  let ?s = "\<lparr>alloc = 0x8000, count = 0x8000, plist = map word_of_nat [0..<0x8000]\<rparr>"
  have u: "used ?s = map word_of_nat [0..<0x8000]" by (simp add: used_def)
  have n: "unat (word_of_nat i :: u8) = i" if "i < 0x8000" for i
    using that by (simp add: unsigned_of_nat take_bit_nat_eq_self)
  have "sorted_wrt (<) [0..<0x8000 :: nat]" by (rule sorted_wrt_upt)
  then have "sorted_wrt (<) (used ?s)"
    unfolding u sorted_wrt_map by (rule sorted_wrt_mono_rel [rotated]) (simp add: word_less_nat_alt n)
  then have "pset_wf ?s" by (simp add: pset_wf_def)
  moreover have "(0x8000 :: u8) \<notin> elems ?s"
    unfolding elems_def u
  proof
    assume "(0x8000 :: u8) \<in> set (map word_of_nat [0..<0x8000])"
    then obtain i where "i < 0x8000" "(0x8000 :: u8) = word_of_nat i" by auto
    then show False using n [of i] by (simp flip: \<open>0x8000 = word_of_nat i\<close>)
  qed
  ultimately show ?thesis by (intro pset_overflow_out_of_bounds) simp_all
qed

end
