(* ===== verification/HashTable.thy ===== *)
theory HashTable
  imports Prelude "HOL-Library.Multiset"
begin

text \<open>
  The open-addressing hash table of \<^verbatim>\<open>src/vm/Hash.c\<close> and \<^verbatim>\<open>src/vm/Hash.h\<close>, which holds the VM's interned
  strings, loaded classes, monitor and DEX tables. The probing loops have no bound in the source, so
  they are partial functions whose result \<open>None\<close> means that the loop does not end; the load-factor
  invariant is what makes them return. The compare function and the success of \<open>calloc\<close> are
  parameters.

  \<open>int\<close> counters are unbounded here; \<open>hash_wf\<close> bounds the table size so that the products the source
  computes in \<open>int\<close> are exact. The table's lock is not modelled: every operation below runs
  with the lock held, as \<^verbatim>\<open>Hash.h\<close> asks of its callers.
\<close>

section \<open>The table\<close>

definition NULL :: u8 where
  "NULL = 0"

definition HASH_TOMBSTONE :: u8 where
  "HASH_TOMBSTONE = 0xcbcacccd"

lemma NULL_TOMBSTONE [simp]: "NULL \<noteq> HASH_TOMBSTONE" "HASH_TOMBSTONE \<noteq> NULL"
  by (simp_all add: NULL_def HASH_TOMBSTONE_def)

record HashEntry =
  hashValue :: u4
  data :: u8

record HashTable =
  tableSize :: int
  numEntries :: int
  numDeadEntries :: int
  pEntries :: "HashEntry list"
  freeFunc :: bool

definition zero_entry :: HashEntry where
  "zero_entry = \<lparr>hashValue = 0, data = NULL\<rparr>"

definition dexRoundUpPower2 :: "u4 \<Rightarrow> u4" where
  "dexRoundUpPower2 val =
     (let val = val - 1;
          val = val OR drop_bit 1 val;
          val = val OR drop_bit 2 val;
          val = val OR drop_bit 4 val;
          val = val OR drop_bit 8 val;
          val = val OR drop_bit 16 val
      in val + 1)"

definition dvmHashSize :: "u8 \<Rightarrow> u8" where
  "dvmHashSize n = (n * 8) div 5 + 1"

text \<open>\<open>dvmHashTableCreate\<close>: both \<open>malloc\<close> calls can fail; a failed assertion stops the VM.\<close>

definition dvmHashTableCreate :: "bool \<Rightarrow> (int \<Rightarrow> bool) \<Rightarrow> u8 \<Rightarrow> bool \<Rightarrow> HashTable option outcome" where
  "dvmHashTableCreate malloc_ok alloc_ok initialSize ff =
     (if initialSize = 0 then AbortVM
      else if \<not> malloc_ok then Ret None
      else let sz = sint (dexRoundUpPower2 (ucast initialSize)) in
        if \<not> alloc_ok sz then Ret None
        else Ret (Some \<lparr>tableSize = sz, numEntries = 0, numDeadEntries = 0,
                        pEntries = replicate (nat sz) zero_entry, freeFunc = ff\<rparr>))"

text \<open>\<open>dvmHashTableClear\<close> returns the pointers it passes to the free function, in order.\<close>

definition dvmHashTableClear :: "HashTable \<Rightarrow> u8 list \<times> HashTable" where
  "dvmHashTableClear t =
     ((if freeFunc t
       then map data (filter (\<lambda>e. data e \<noteq> HASH_TOMBSTONE \<and> data e \<noteq> NULL) (pEntries t)) else []),
      t\<lparr>pEntries := map (\<lambda>e. e\<lparr>data := NULL\<rparr>) (pEntries t), numEntries := 0, numDeadEntries := 0\<rparr>)"

definition countTombStones :: "HashTable \<Rightarrow> int" where
  "countTombStones t = int (length (filter (\<lambda>e. data e = HASH_TOMBSTONE) (pEntries t)))"

section \<open>Probing\<close>

definition hash_index :: "u4 \<Rightarrow> int \<Rightarrow> nat" where
  "hash_index h sz = unat (h AND word_of_int (sz - 1))"

text \<open>
  The loop of \<open>dvmHashTableLookup\<close> and \<open>dvmHashTableRemove\<close>, with the test of the entry as a
  parameter. The result is the index \<open>pEntry - pEntries\<close> at which the loop stops; a single-entry
  table whose entry does not match stops at \<open>pEnd\<close>, one past the last entry.
\<close>

partial_function (option) hash_probe ::
  "(HashEntry \<Rightarrow> bool) \<Rightarrow> HashEntry list \<Rightarrow> nat \<Rightarrow> nat outcome option" where
  "hash_probe stop ents i =
     (if i \<ge> length ents then Some OutOfBounds
      else if data (ents ! i) = NULL then Some (Ret i)
      else if stop (ents ! i) then Some (Ret i)
      else if Suc i = length ents then
        (if length ents = 1 then Some (Ret (Suc i)) else hash_probe stop ents 0)
      else hash_probe stop ents (Suc i))"

text \<open>The inner loop of \<open>resizeHash\<close>, which looks for an empty slot.\<close>

partial_function (option) free_slot :: "int \<Rightarrow> HashEntry list \<Rightarrow> nat \<Rightarrow> nat outcome option" where
  "free_slot newSize ents i =
     (if i \<ge> length ents then Some OutOfBounds
      else if data (ents ! i) = NULL then Some (Ret i)
      else free_slot newSize ents (nat ((int i + 1) AND (newSize - 1))))"

text \<open>The loop of \<open>resizeHash\<close> over the old entries.\<close>

fun rehash :: "int \<Rightarrow> HashEntry list \<Rightarrow> HashEntry list \<Rightarrow> HashEntry list outcome option" where
  "rehash newSize [] new = Some (Ret new)"
| "rehash newSize (e # es) new =
     (if data e \<noteq> NULL \<and> data e \<noteq> HASH_TOMBSTONE then
        (case free_slot newSize new (hash_index (hashValue e) newSize) of
           None \<Rightarrow> None
         | Some AbortVM \<Rightarrow> Some AbortVM
         | Some OutOfBounds \<Rightarrow> Some OutOfBounds
         | Some (Ret newIdx) \<Rightarrow>
             rehash newSize es (new[newIdx := \<lparr>hashValue = hashValue e, data = data e\<rparr>]))
      else rehash newSize es new)"

definition resizeHash :: "(int \<Rightarrow> bool) \<Rightarrow> HashTable \<Rightarrow> int \<Rightarrow> (bool \<times> HashTable) outcome option" where
  "resizeHash alloc_ok t newSize =
     (if countTombStones t \<noteq> numDeadEntries t then Some AbortVM
      else if \<not> alloc_ok newSize then Some (Ret (False, t))
      else case rehash newSize (pEntries t) (replicate (nat newSize) zero_entry) of
             None \<Rightarrow> None
           | Some AbortVM \<Rightarrow> Some AbortVM
           | Some OutOfBounds \<Rightarrow> Some OutOfBounds
           | Some (Ret new) \<Rightarrow>
               let t' = t\<lparr>pEntries := new, tableSize := newSize, numDeadEntries := 0\<rparr>
               in if countTombStones t' \<noteq> 0 then Some AbortVM else Some (Ret (True, t')))"

text \<open>The part of \<open>dvmHashTableLookup\<close> that fills the empty slot the probe ended at.\<close>

definition hash_add :: "(int \<Rightarrow> bool) \<Rightarrow> HashTable \<Rightarrow> nat \<Rightarrow> u4 \<Rightarrow> u8 \<Rightarrow> (u8 \<times> HashTable) outcome option" where
  "hash_add alloc_ok t i itemHash item =
     (let t1 = t\<lparr>pEntries := (pEntries t)[i := \<lparr>hashValue = itemHash, data = item\<rparr>],
                 numEntries := numEntries t + 1\<rparr>;
          r = (if (numEntries t1 + numDeadEntries t1) * 8 > tableSize t1 * 5
               then resizeHash alloc_ok t1 (tableSize t1 * 2) else Some (Ret (True, t1)))
      in case r of
           None \<Rightarrow> None
         | Some AbortVM \<Rightarrow> Some AbortVM
         | Some OutOfBounds \<Rightarrow> Some OutOfBounds
         | Some (Ret (ok, t2)) \<Rightarrow>
             if \<not> ok then Some AbortVM
             else if numEntries t2 < tableSize t2 then Some (Ret (item, t2)) else Some AbortVM)"

definition dvmHashTableLookup ::
  "(int \<Rightarrow> bool) \<Rightarrow> (u8 \<Rightarrow> u8 \<Rightarrow> int) \<Rightarrow> HashTable \<Rightarrow> u4 \<Rightarrow> u8 \<Rightarrow> bool \<Rightarrow> (u8 \<times> HashTable) outcome option" where
  "dvmHashTableLookup alloc_ok cmpFunc t itemHash item doAdd =
     (if \<not> (tableSize t > 0 \<and> item \<noteq> HASH_TOMBSTONE \<and> item \<noteq> NULL) then Some AbortVM
      else case hash_probe (\<lambda>e. data e \<noteq> HASH_TOMBSTONE \<and> hashValue e = itemHash
                               \<and> cmpFunc (data e) item = 0)
                  (pEntries t) (hash_index itemHash (tableSize t)) of
             None \<Rightarrow> None
           | Some AbortVM \<Rightarrow> Some AbortVM
           | Some OutOfBounds \<Rightarrow> Some OutOfBounds
           | Some (Ret i) \<Rightarrow>
               if i \<ge> length (pEntries t) then Some OutOfBounds
               else if data (pEntries t ! i) = NULL then
                 (if doAdd then hash_add alloc_ok t i itemHash item else Some (Ret (NULL, t)))
               else Some (Ret (data (pEntries t ! i), t)))"

definition dvmHashTableRemove :: "HashTable \<Rightarrow> u4 \<Rightarrow> u8 \<Rightarrow> (bool \<times> HashTable) outcome option" where
  "dvmHashTableRemove t itemHash item =
     (if \<not> tableSize t > 0 then Some AbortVM
      else case hash_probe (\<lambda>e. data e = item) (pEntries t) (hash_index itemHash (tableSize t)) of
             None \<Rightarrow> None
           | Some AbortVM \<Rightarrow> Some AbortVM
           | Some OutOfBounds \<Rightarrow> Some OutOfBounds
           | Some (Ret i) \<Rightarrow>
               if i < length (pEntries t) \<and> data (pEntries t ! i) \<noteq> NULL then
                 Some (Ret (True, t\<lparr>pEntries := (pEntries t)[i := (pEntries t ! i)\<lparr>data := HASH_TOMBSTONE\<rparr>],
                                     numEntries := numEntries t - 1,
                                     numDeadEntries := numDeadEntries t + 1\<rparr>))
               else Some (Ret (False, t)))"

section \<open>Traversal\<close>

definition is_live :: "HashEntry \<Rightarrow> bool" where
  "is_live e \<longleftrightarrow> data e \<noteq> NULL \<and> data e \<noteq> HASH_TOMBSTONE"

text \<open>
  \<open>dvmHashForeachRemove\<close>: the entries from index \<open>i\<close> on, the two counters threaded through. The
  callback's result is a parameter. The result holds the value returned, the entries and the number of entries
  that became tombstones.
\<close>

fun foreach_remove :: "(u8 \<Rightarrow> int) \<Rightarrow> HashEntry list \<Rightarrow> int \<times> HashEntry list \<times> int" where
  "foreach_remove func [] = (0, [], 0)"
| "foreach_remove func (e # es) =
     (if data e \<noteq> NULL \<and> data e \<noteq> HASH_TOMBSTONE then
        let val = func (data e) in
        if val = 1 then
          (let (r, es', k) = foreach_remove func es in (r, e\<lparr>data := HASH_TOMBSTONE\<rparr> # es', k + 1))
        else if val \<noteq> 0 then (val, e # es, 0)
        else (let (r, es', k) = foreach_remove func es in (r, e # es', k))
      else (let (r, es', k) = foreach_remove func es in (r, e # es', k)))"

definition dvmHashForeachRemove :: "HashTable \<Rightarrow> (u8 \<Rightarrow> int) \<Rightarrow> int \<times> HashTable" where
  "dvmHashForeachRemove t func =
     (let (r, es, k) = foreach_remove func (pEntries t)
      in (r, t\<lparr>pEntries := es, numEntries := numEntries t - k, numDeadEntries := numDeadEntries t + k\<rparr>))"

text \<open>
  \<open>dvmHashForeach\<close> with a callback that threads a state \<open>'s\<close> and returns the value that ends the loop.
\<close>

fun foreach_entries :: "(u8 \<Rightarrow> 's \<Rightarrow> int \<times> 's) \<Rightarrow> HashEntry list \<Rightarrow> 's \<Rightarrow> int \<times> 's" where
  "foreach_entries func [] s = (0, s)"
| "foreach_entries func (e # es) s =
     (if data e \<noteq> NULL \<and> data e \<noteq> HASH_TOMBSTONE then
        let (val, s') = func (data e) s in if val \<noteq> 0 then (val, s') else foreach_entries func es s'
      else foreach_entries func es s)"

definition dvmHashForeach :: "HashTable \<Rightarrow> (u8 \<Rightarrow> 's \<Rightarrow> int \<times> 's) \<Rightarrow> 's \<Rightarrow> int \<times> 's" where
  "dvmHashForeach t func s = foreach_entries func (pEntries t) s"

text \<open>The iterator: \<open>dvmHashIterNext\<close> moves to the next live entry, or to the table size.\<close>

fun iter_scan :: "HashEntry list \<Rightarrow> int \<Rightarrow> int" where
  "iter_scan [] i = i"
| "iter_scan (e # es) i =
     (if data e \<noteq> NULL \<and> data e \<noteq> HASH_TOMBSTONE then i else iter_scan es (i + 1))"

definition dvmHashIterNext :: "HashTable \<Rightarrow> int \<Rightarrow> int" where
  "dvmHashIterNext t idx = iter_scan (drop (nat (idx + 1)) (pEntries t)) (idx + 1)"

definition dvmHashIterBegin :: "HashTable \<Rightarrow> int" where
  "dvmHashIterBegin t = dvmHashIterNext t (- 1)"

definition dvmHashIterDone :: "HashTable \<Rightarrow> int \<Rightarrow> bool" where
  "dvmHashIterDone t idx \<longleftrightarrow> idx \<ge> tableSize t"

definition dvmHashIterData :: "HashTable \<Rightarrow> int \<Rightarrow> u8 outcome" where
  "dvmHashIterData t idx =
     (if idx \<ge> 0 \<and> idx < tableSize t then Ret (data (pEntries t ! nat idx)) else AbortVM)"

section \<open>Probing reaches the first empty or matching slot\<close>

text \<open>A slot stops a probe when it is empty or the test accepts it.\<close>

definition stops :: "(HashEntry \<Rightarrow> bool) \<Rightarrow> HashEntry \<Rightarrow> bool" where
  "stops P e \<longleftrightarrow> data e = NULL \<or> P e"

lemma mod_Suc_cyc: "i < n \<Longrightarrow> (Suc i mod n + k) mod n = (i + Suc k) mod (n :: nat)"
  by (metis add_Suc_shift mod_add_left_eq)

lemma hash_probe_first:
  assumes "i < length ents"
    and "\<forall>k'<k. \<not> stops P (ents ! ((i + k') mod length ents))"
    and "stops P (ents ! ((i + k) mod length ents))"
  shows "hash_probe P ents i = Some (Ret ((i + k) mod length ents))"
  using assms
proof (induction k arbitrary: i)
  case 0
  then show ?case by (subst hash_probe.simps) (auto simp: stops_def)
next
  case (Suc k)
  let ?n = "length ents"
  have here: "\<not> stops P (ents ! i)"
    using Suc.prems(1,2) by (metis add_0_right mod_less zero_less_Suc)
  have n1: "?n \<noteq> 1"
    using Suc.prems(1,3) here by auto
  have next_eq: "(if Suc i = ?n then 0 else Suc i) = Suc i mod ?n"
    using Suc.prems(1) by (simp add: mod_Suc)
  have "hash_probe P ents (Suc i mod ?n) = Some (Ret ((Suc i mod ?n + k) mod ?n))"
  proof (rule Suc.IH)
    show "Suc i mod ?n < ?n" using Suc.prems(1) by (cases ?n) simp_all
    show "\<forall>k'<k. \<not> stops P (ents ! ((Suc i mod ?n + k') mod ?n))"
      using Suc.prems(1,2) by (auto simp: mod_Suc_cyc simp del: add_Suc_right)
    show "stops P (ents ! ((Suc i mod ?n + k) mod ?n))"
      using Suc.prems(1,3) by (simp add: mod_Suc_cyc)
  qed
  then have "hash_probe P ents (if Suc i = ?n then 0 else Suc i) = Some (Ret ((i + Suc k) mod ?n))"
    using Suc.prems(1) next_eq by (simp add: mod_Suc_cyc)
  then show ?case
    using here n1 Suc.prems(1) by (subst hash_probe.simps) (auto simp: stops_def split: if_splits)
qed

lemma cyc_offset:
  assumes "i < n" and "j < n" shows "\<exists>k<n. (i + k) mod n = (j::nat)"
proof (cases "i \<le> j")
  case True
  then show ?thesis using assms by (intro exI [of _ "j - i"]) auto
next
  case False
  then have "i + (n + j - i) = j + n" using assms by simp
  then have "(i + (n + j - i)) mod n = j" using assms by simp
  then show ?thesis using False assms by (intro exI [of _ "n + j - i"]) auto
qed

lemma first_stop:
  assumes "i < n" and "j < n" and "Q j"
  obtains k where "k < n" and "Q ((i + k) mod n)" and "\<forall>k'<k. \<not> Q ((i + k') mod (n::nat))"
proof -
  obtain k0 where k0: "k0 < n" "(i + k0) mod n = j" using cyc_offset assms by blast
  define k where "k = (LEAST k. Q ((i + k) mod n))"
  have "Q ((i + k) mod n)" unfolding k_def by (rule LeastI [of _ k0]) (use k0 assms in simp)
  moreover have "k \<le> k0" unfolding k_def by (rule Least_le) (use k0 assms in simp)
  moreover have "\<forall>k'<k. \<not> Q ((i + k') mod n)" unfolding k_def using not_less_Least by blast
  ultimately show thesis using that [of k] k0(1) by simp
qed

lemma hash_probe_returns:
  assumes "i < length ents" and "j < length ents" and "stops P (ents ! j)"
  obtains k where "k < length ents"
    and "hash_probe P ents i = Some (Ret ((i + k) mod length ents))"
    and "stops P (ents ! ((i + k) mod length ents))"
    and "\<forall>k'<k. \<not> stops P (ents ! ((i + k') mod length ents))"
proof -
  obtain k where k: "k < length ents" "stops P (ents ! ((i + k) mod length ents))"
    "\<forall>k'<k. \<not> stops P (ents ! ((i + k') mod length ents))"
    using first_stop [of i "length ents" j "\<lambda>m. stops P (ents ! m)"] assms by blast
  then show thesis using that [of k] hash_probe_first [OF assms(1) k(3,2)] by blast
qed

text \<open>The two ways the source wraps the index around and reduces a hash are the remainder.\<close>

lemma and_pow2_minus: "0 \<le> a \<Longrightarrow> a AND (2 ^ k - 1) = a mod 2 ^ k" for a :: int
  by (metis mask_eq_exp_minus_1 take_bit_eq_mask take_bit_eq_mod)

lemma hash_index_eq: "hash_index h (2 ^ k) = unat h mod 2 ^ k" if "k < 32"
proof -
  have "(word_of_int (2 ^ k - 1) :: u4) = mask k"
    by (simp add: mask_eq_exp_minus_1)
  then have "hash_index h (2 ^ k) = unat (take_bit k h)"
    by (simp add: hash_index_def take_bit_eq_mask)
  then show ?thesis
    by (simp only: unsigned_take_bit_eq) (simp add: take_bit_eq_mod)
qed

lemma free_slot_eq_probe:
  assumes "length ents = 2 ^ k" and "i < length ents"
    and "\<forall>m'<m. data (ents ! ((i + m') mod length ents)) \<noteq> NULL"
    and "data (ents ! ((i + m) mod length ents)) = NULL"
  shows "free_slot (2 ^ k) ents i = Some (Ret ((i + m) mod length ents))"
  using assms(2-)
proof (induction m arbitrary: i)
  case 0
  then show ?case by (subst free_slot.simps) auto
next
  case (Suc m)
  let ?n = "length ents"
  have here: "data (ents ! i) \<noteq> NULL"
    using Suc.prems(1,2) by (metis add_0_right mod_less zero_less_Suc)
  have nxt: "nat ((int i + 1) AND (2 ^ k - 1)) = Suc i mod ?n"
    using assms(1) by (simp add: and_pow2_minus nat_mod_distrib nat_power_eq nat_add_distrib)
  have "free_slot (2 ^ k) ents (Suc i mod ?n) = Some (Ret ((Suc i mod ?n + m) mod ?n))"
  proof (rule Suc.IH)
    show "Suc i mod ?n < ?n" using Suc.prems(1) by (cases ?n) simp_all
    show "\<forall>m'<m. data (ents ! ((Suc i mod ?n + m') mod ?n)) \<noteq> NULL"
      using Suc.prems(1,2) by (auto simp: mod_Suc_cyc simp del: add_Suc_right)
    show "data (ents ! ((Suc i mod ?n + m) mod ?n)) = NULL"
      using Suc.prems(1,3) by (simp add: mod_Suc_cyc)
  qed
  then show ?case
    using here Suc.prems(1) nxt by (subst free_slot.simps) (simp add: mod_Suc_cyc)
qed

section \<open>The table invariant\<close>

text \<open>
  \<open>chain\<close>: from the home slot of a live entry up to the entry there is no empty slot, so that a probe
  for its hash reaches it. \<open>hash_wf\<close> adds the two counters and the load factor; the bound on the size
  keeps every product of the source inside \<open>int\<close>.
\<close>

definition reaches :: "HashEntry list \<Rightarrow> nat \<Rightarrow> nat \<Rightarrow> bool" where
  "reaches ents h j \<longleftrightarrow> (\<exists>d<length ents. j = (h mod length ents + d) mod length ents
     \<and> (\<forall>k<d. data (ents ! ((h mod length ents + k) mod length ents)) \<noteq> NULL))"

definition chain :: "HashEntry list \<Rightarrow> bool" where
  "chain ents \<longleftrightarrow> (\<forall>j<length ents. is_live (ents ! j) \<longrightarrow> reaches ents (unat (hashValue (ents ! j))) j)"

definition live_entries :: "HashEntry list \<Rightarrow> HashEntry multiset" where
  "live_entries ents = filter_mset is_live (mset ents)"

definition live :: "HashTable \<Rightarrow> HashEntry multiset" where
  "live t = live_entries (pEntries t)"

definition dead_count :: "HashEntry list \<Rightarrow> nat" where
  "dead_count ents = size (filter_mset (\<lambda>e. data e = HASH_TOMBSTONE) (mset ents))"

definition hash_wf :: "HashTable \<Rightarrow> bool" where
  "hash_wf t \<longleftrightarrow> (\<exists>k\<le>28. tableSize t = 2 ^ k) \<and> int (length (pEntries t)) = tableSize t
     \<and> chain (pEntries t)
     \<and> numEntries t = int (size (live t)) \<and> numDeadEntries t = int (dead_count (pEntries t))
     \<and> (numEntries t + numDeadEntries t) * 8 \<le> tableSize t * 5"

lemma countTombStones_eq: "countTombStones t = int (dead_count (pEntries t))"
  unfolding countTombStones_def dead_count_def by (metis mset_filter size_mset)

lemma is_live_not_NULL: "is_live e \<Longrightarrow> data e \<noteq> NULL"
  by (simp add: is_live_def)

lemma live_update:
  "i < length ents \<Longrightarrow> \<not> is_live (ents ! i) \<Longrightarrow> is_live e
     \<Longrightarrow> live_entries (ents[i := e]) = add_mset e (live_entries ents)"
  by (simp add: live_entries_def mset_update filter_diff_mset)

lemma live_kill:
  "i < length ents \<Longrightarrow> is_live (ents ! i) \<Longrightarrow> \<not> is_live e
     \<Longrightarrow> live_entries (ents[i := e]) = live_entries ents - {#ents ! i#}"
  by (simp add: live_entries_def mset_update filter_diff_mset)

lemma dead_update:
  assumes "i < length ents"
  shows "dead_count (ents[i := e]) + (if data (ents ! i) = HASH_TOMBSTONE then 1 else 0)
       = dead_count ents + (if data e = HASH_TOMBSTONE then 1 else 0)"
proof -
  have "ents ! i \<in># mset ents" using assms by simp
  then obtain M where M: "mset ents = add_mset (ents ! i) M" by (metis insert_DiffM)
  then have "mset (ents[i := e]) = add_mset e M"
    using assms by (simp add: mset_update)
  then show ?thesis by (simp add: dead_count_def M)
qed

lemma in_live_iff: "e \<in># live_entries ents \<longleftrightarrow> is_live e \<and> (\<exists>i<length ents. ents ! i = e)"
  by (auto simp: live_entries_def in_set_conv_nth)

lemma empty_slot:
  assumes "size (live_entries ents) + dead_count ents < length ents"
  obtains j where "j < length ents" and "data (ents ! j) = NULL"
proof -
  have "\<exists>e\<in>set ents. data e = NULL"
  proof (rule ccontr)
    assume none: "\<not> (\<exists>e\<in>set ents. data e = NULL)"
    have "mset ents = live_entries ents + filter_mset (\<lambda>e. \<not> is_live e) (mset ents)"
      by (simp add: live_entries_def)
    also have "filter_mset (\<lambda>e. \<not> is_live e) (mset ents)
        = filter_mset (\<lambda>e. data e = HASH_TOMBSTONE) (mset ents)"
      using none by (intro filter_mset_cong) (auto simp: is_live_def)
    finally have "length ents = size (live_entries ents) + dead_count ents"
      by (metis dead_count_def size_mset size_union)
    with assms show False by simp
  qed
  then show thesis using that by (metis in_set_conv_nth)
qed

lemma reaches_mono:
  assumes "reaches ents h j" and "length ents' = length ents"
    and "\<And>m. m < length ents \<Longrightarrow> data (ents ! m) \<noteq> NULL \<Longrightarrow> data (ents' ! m) \<noteq> NULL"
  shows "reaches ents' h j"
proof -
  have "0 < length ents" using assms(1) by (auto simp: reaches_def)
  then show ?thesis
    using assms unfolding reaches_def by (metis mod_less_divisor)
qed

lemma chain_fill:
  assumes "chain ents" and "i < length ents" and "reaches ents (unat h) i"
    and "data (ents ! i) = NULL" and "d \<noteq> NULL"
  shows "chain (ents[i := \<lparr>hashValue = h, data = d\<rparr>])"
proof -
  let ?e = "ents[i := \<lparr>hashValue = h, data = d\<rparr>]"
  have mono: "reaches ?e g j" if "reaches ents g j" for g j
    by (rule reaches_mono [OF that]) (use assms in \<open>auto simp: nth_list_update\<close>)
  show ?thesis
    using assms(1-3) mono by (auto simp: chain_def nth_list_update)
qed

lemma chain_kill:
  assumes "chain ents" and "i < length ents"
  shows "chain (ents[i := (ents ! i)\<lparr>data := HASH_TOMBSTONE\<rparr>])"
proof -
  let ?e = "ents[i := (ents ! i)\<lparr>data := HASH_TOMBSTONE\<rparr>]"
  have mono: "reaches ?e g j" if "reaches ents g j" for g j
    by (rule reaches_mono [OF that]) (use assms in \<open>auto simp: nth_list_update\<close>)
  show ?thesis
    using assms mono by (auto simp: chain_def nth_list_update is_live_def)
qed

lemma chain_zero: "chain (replicate n zero_entry)"
  by (simp add: chain_def is_live_def zero_entry_def)

lemma live_zero [simp]: "live_entries (replicate n zero_entry) = {#}"
  by (auto simp: live_entries_def filter_mset_eq_conv is_live_def zero_entry_def)

lemma dead_zero [simp]: "dead_count (replicate n zero_entry) = 0"
  by (auto simp: dead_count_def zero_entry_def filter_mset_eq_conv)

section \<open>Resizing keeps the live entries\<close>

lemma rehash_correct:
  assumes "length new = 2 ^ k" and "k < 32" and "chain new"
    and "dead_count new = 0"
    and "size (live_entries new) + size (live_entries es) < 2 ^ k"
  shows "\<exists>new'. rehash (2 ^ k) es new = Some (Ret new') \<and> length new' = 2 ^ k \<and> chain new'
           \<and> dead_count new' = 0 \<and> live_entries new' = live_entries new + live_entries es"
  using assms
proof (induction es arbitrary: new)
  case Nil
  then show ?case by (simp add: live_entries_def)
next
  case (Cons e es)
  show ?case
  proof (cases "is_live e")
    case False
    then have "live_entries (e # es) = live_entries es" by (simp add: live_entries_def)
    moreover have "rehash (2 ^ k) (e # es) new = rehash (2 ^ k) es new"
      using False by (auto simp: is_live_def)
    ultimately show ?thesis using Cons.IH [OF Cons.prems(1-4)] Cons.prems(5) by simp
  next
    case True
    let ?h = "unat (hashValue e) mod 2 ^ k"
    have les: "live_entries (e # es) = add_mset e (live_entries es)"
      using True by (simp add: live_entries_def)
    have "size (live_entries new) + dead_count new < length new"
      using Cons.prems by simp
    then obtain j where j: "j < length new" "data (new ! j) = NULL" by (rule empty_slot)
    obtain m where m: "m < length new" "data (new ! ((?h + m) mod length new)) = NULL"
      "\<forall>m'<m. data (new ! ((?h + m') mod length new)) \<noteq> NULL"
      using first_stop [of ?h "length new" j "\<lambda>i. data (new ! i) = NULL"] j Cons.prems(1) by auto
    define i where "i = (?h + m) mod length new"
    have i: "i < length new" "data (new ! i) = NULL" "reaches new (unat (hashValue e)) i"
      using m Cons.prems(1) by (auto simp: i_def reaches_def)
    have slot: "free_slot (2 ^ k) new (hash_index (hashValue e) (2 ^ k)) = Some (Ret i)"
      using free_slot_eq_probe [OF Cons.prems(1), of ?h m] m Cons.prems(1,2)
      by (simp add: hash_index_eq i_def)
    let ?new = "new[i := \<lparr>hashValue = hashValue e, data = data e\<rparr>]"
    have live: "is_live \<lparr>hashValue = hashValue e, data = data e\<rparr>" "\<not> is_live (new ! i)"
      using True i by (auto simp: is_live_def)
    have new: "live_entries ?new = add_mset e (live_entries new)"
      using live i(1) by (simp add: live_update)
    have "dead_count ?new = 0"
      using dead_update [OF i(1), of "\<lparr>hashValue = hashValue e, data = data e\<rparr>"] i(2) True Cons.prems(4)
      by (simp add: is_live_def)
    moreover have "chain ?new"
      by (rule chain_fill) (use Cons.prems i True in \<open>auto simp: is_live_def\<close>)
    ultimately obtain new' where "rehash (2 ^ k) es ?new = Some (Ret new')" "length new' = 2 ^ k"
      "chain new'" "dead_count new' = 0" "live_entries new' = live_entries ?new + live_entries es"
      using Cons.IH [of ?new] Cons.prems new les by auto
    then show ?thesis using slot True new les by (simp add: is_live_def)
  qed
qed

lemma resizeHash_correct:
  assumes "length (pEntries t) = n" and "numDeadEntries t = int (dead_count (pEntries t))"
    and "size (live t) < 2 ^ k" and "k < 32" and "alloc_ok (2 ^ k)"
  shows "\<exists>new. resizeHash alloc_ok t (2 ^ k)
             = Some (Ret (True, t\<lparr>pEntries := new, tableSize := 2 ^ k, numDeadEntries := 0\<rparr>))
           \<and> length new = 2 ^ k \<and> chain new \<and> dead_count new = 0 \<and> live_entries new = live t"
proof -
  have "nat (2 ^ k) = 2 ^ k" by (simp add: nat_power_eq)
  then obtain new where "rehash (2 ^ k) (pEntries t) (replicate (nat (2 ^ k)) zero_entry) = Some (Ret new)"
    "length new = 2 ^ k" "chain new" "dead_count new = 0" "live_entries new = live t"
    using rehash_correct [of "replicate (2 ^ k) zero_entry" k "pEntries t"] assms(3,4)
    by (auto simp: chain_zero live_def)
  then show ?thesis
    using assms(2,5) by (intro exI [of _ new]) (simp add: resizeHash_def countTombStones_eq)
qed

section \<open>Lookup, insertion and removal against the live entries\<close>

definition matches :: "(u8 \<Rightarrow> u8 \<Rightarrow> int) \<Rightarrow> u4 \<Rightarrow> u8 \<Rightarrow> HashEntry \<Rightarrow> bool" where
  "matches cmpFunc h item e \<longleftrightarrow> hashValue e = h \<and> cmpFunc (data e) item = 0"

definition storable :: "u8 \<Rightarrow> bool" where
  "storable item \<longleftrightarrow> item \<noteq> NULL \<and> item \<noteq> HASH_TOMBSTONE"

definition has_room :: "(int \<Rightarrow> bool) \<Rightarrow> HashTable \<Rightarrow> bool" where
  "has_room alloc_ok t \<longleftrightarrow> tableSize t \<le> 2 ^ 27 \<and> alloc_ok (tableSize t * 2)"

lemma hash_wf_counts:
  assumes "hash_wf t"
  shows "numEntries t = int (size (live t))" and "numDeadEntries t = int (dead_count (pEntries t))"
    and "(numEntries t + numDeadEntries t) * 8 \<le> tableSize t * 5"
    and "int (length (pEntries t)) = tableSize t"
  using assms by (simp_all add: hash_wf_def)

lemma hash_wf_empty_slot:
  assumes "hash_wf t"
  obtains j where "j < length (pEntries t)" and "data (pEntries t ! j) = NULL"
proof -
  have "0 < tableSize t" using assms by (auto simp: hash_wf_def)
  then have "size (live_entries (pEntries t)) + dead_count (pEntries t) < length (pEntries t)"
    using hash_wf_counts [OF assms] unfolding live_def by simp
  then show thesis using that empty_slot by blast
qed

lemma hash_wf_index:
  assumes "hash_wf t"
  shows "hash_index h (tableSize t) = unat h mod length (pEntries t)"
    and "hash_index h (tableSize t) < length (pEntries t)" and "0 < tableSize t"
proof -
  obtain k where k: "k \<le> 28" "tableSize t = 2 ^ k" using assms by (auto simp: hash_wf_def)
  have n: "length (pEntries t) = 2 ^ k"
    using assms k by (auto simp: hash_wf_def)
  show "hash_index h (tableSize t) = unat h mod length (pEntries t)"
    using k n by (simp add: hash_index_eq)
  then show "hash_index h (tableSize t) < length (pEntries t)" using n by simp
  show "0 < tableSize t" using k by simp
qed

text \<open>Where the probe for a hash ends: at an accepted entry, or at the end of that hash's chain.\<close>

lemma probe_wf:
  assumes "hash_wf t"
  obtains i where "i < length (pEntries t)"
    and "hash_probe P (pEntries t) (hash_index h (tableSize t)) = Some (Ret i)"
    and "data (pEntries t ! i) = NULL \<or> P (pEntries t ! i)"
    and "reaches (pEntries t) (unat h) i"
    and "data (pEntries t ! i) = NULL \<Longrightarrow> \<not> (\<exists>e\<in>#live t. hashValue e = h \<and> P e)"
proof -
  let ?es = "pEntries t" let ?n = "length (pEntries t)" let ?h = "unat h mod length (pEntries t)"
  note idx = hash_wf_index(1,2) [OF assms, of h]
  obtain j where "j < ?n" "stops P (?es ! j)"
    using hash_wf_empty_slot [OF assms] by (metis stops_def)
  then obtain k where k: "k < ?n"
    "hash_probe P ?es (hash_index h (tableSize t)) = Some (Ret ((?h + k) mod ?n))"
    "stops P (?es ! ((?h + k) mod ?n))" "\<forall>k'<k. \<not> stops P (?es ! ((?h + k') mod ?n))"
    using hash_probe_returns [of "hash_index h (tableSize t)" ?es j P] idx by metis
  define i where "i = (?h + k) mod ?n"
  have "i < ?n" using k(1) by (cases ?n) (simp_all add: i_def)
  moreover have "reaches ?es (unat h) i"
    using k(1,4) by (auto simp: reaches_def i_def stops_def)
  moreover have "\<not> (\<exists>e\<in>#live t. hashValue e = h \<and> P e)" if "data (?es ! i) = NULL"
  proof
    assume "\<exists>e\<in>#live t. hashValue e = h \<and> P e"
    then obtain j where j: "j < ?n" "is_live (?es ! j)" "hashValue (?es ! j) = h" "P (?es ! j)"
      by (auto simp: live_def in_live_iff)
    then have "reaches ?es (unat h) j" using assms by (auto simp: hash_wf_def chain_def)
    then obtain d where d: "d < ?n" "j = (?h + d) mod ?n" "\<forall>k<d. data (?es ! ((?h + k) mod ?n)) \<noteq> NULL"
      by (auto simp: reaches_def)
    consider "d < k" | "d = k" | "k < d" by linarith
    then show False
      using d j k(4) that by cases (auto simp: i_def stops_def is_live_def)
  qed
  ultimately show thesis
    using that [of i] k by (simp add: i_def stops_def)
qed

lemma hash_add_correct:
  assumes wf: "hash_wf t" and room: "has_room alloc_ok t" and i: "i < length (pEntries t)"
    and empty: "data (pEntries t ! i) = NULL" and reach: "reaches (pEntries t) (unat h) i"
    and item: "storable item"
  shows "\<exists>t'. hash_add alloc_ok t i h item = Some (Ret (item, t')) \<and> hash_wf t'
           \<and> live t' = add_mset \<lparr>hashValue = h, data = item\<rparr> (live t) \<and> freeFunc t' = freeFunc t
           \<and> tableSize t' \<in> {tableSize t, tableSize t * 2}"
proof -
  obtain k where k: "k \<le> 28" "tableSize t = 2 ^ k" using wf by (auto simp: hash_wf_def)
  have "(2::int) ^ k \<le> 2 ^ 27" using room k by (simp add: has_room_def)
  then have k27: "k \<le> 27" by (rule power_le_imp_le_exp [rotated]) simp
  have dbl: "tableSize t * 2 = 2 ^ Suc k" using k by simp
  let ?e = "\<lparr>hashValue = h, data = item\<rparr>"
  let ?es = "(pEntries t)[i := ?e]"
  let ?t1 = "t\<lparr>pEntries := ?es, numEntries := numEntries t + 1\<rparr>"
  have live1: "live_entries ?es = add_mset ?e (live t)"
    using i empty item by (simp add: live_def live_update is_live_def storable_def)
  have chain1: "chain ?es"
    using wf i reach empty item by (intro chain_fill) (auto simp: hash_wf_def storable_def)
  have dead1: "dead_count ?es = dead_count (pEntries t)"
    using dead_update [OF i, of ?e] empty item by (simp add: storable_def)
  note cnt = hash_wf_counts [OF wf]
  have pos: "0 < tableSize t" using k by simp
  show ?thesis
  proof (cases "(numEntries t + 1 + numDeadEntries t) * 8 > tableSize t * 5")
    case False
    have small: "numEntries t + 1 < tableSize t"
      using False pos cnt(2) by simp
    show ?thesis
      using False small k live1 chain1 dead1 cnt
      by (auto simp: hash_add_def hash_wf_def live_def Let_def)
  next
    case True
    have "int (size (live_entries ?es)) < 2 ^ Suc k"
      using cnt(1-3) live1 pos unfolding dbl [symmetric] by simp
    then have size1: "size (live ?t1) < 2 ^ Suc k"
      by (simp add: live_def del: power_Suc)
    obtain new where new: "resizeHash alloc_ok ?t1 (2 ^ Suc k)
        = Some (Ret (True, ?t1\<lparr>pEntries := new, tableSize := 2 ^ Suc k, numDeadEntries := 0\<rparr>))"
      "length new = 2 ^ Suc k" "chain new" "dead_count new = 0" "live_entries new = live ?t1"
      using resizeHash_correct [of ?t1 _ "Suc k" alloc_ok] size1 cnt(2) dead1 k27 room dbl
      by (auto simp: has_room_def simp del: power_Suc)
    let ?t2 = "?t1\<lparr>pEntries := new, tableSize := 2 ^ Suc k, numDeadEntries := 0\<rparr>"
    have "(numEntries t + 1) * 8 \<le> tableSize t * 2 * 5"
      using cnt(2,3) pos by presburger
    then have "hash_wf ?t2"
      using new(2-5) k27 live1 cnt(1) k(2) unfolding hash_wf_def
      by (auto simp: live_def intro!: exI [of _ "Suc k"])
    moreover have "numEntries t + 1 < 2 ^ Suc k"
      using cnt(1-3) pos unfolding dbl [symmetric] by simp
    ultimately show ?thesis
      using True new(1,5) live1 dbl by (auto simp: hash_add_def live_def Let_def simp del: power_Suc)
  qed
qed

section \<open>The interface the clients of the table use\<close>

text \<open>
  The contract of \<^verbatim>\<open>Hash.h\<close> over an abstract table: \<open>entries\<close> is the multiset of live entries,
  \<open>find_add\<close> the lookup with \<open>doAdd\<close>, \<open>detach\<close> the removal by pointer.
\<close>

locale hash_store =
  fixes inv :: "'t \<Rightarrow> bool"
    and room :: "'t \<Rightarrow> bool"
    and entries :: "'t \<Rightarrow> HashEntry multiset"
    and find_add :: "(u8 \<Rightarrow> u8 \<Rightarrow> int) \<Rightarrow> 't \<Rightarrow> u4 \<Rightarrow> u8 \<Rightarrow> (u8 \<times> 't) outcome option"
    and detach :: "'t \<Rightarrow> u4 \<Rightarrow> u8 \<Rightarrow> (bool \<times> 't) outcome option"
  assumes find_hit: "\<lbrakk>inv t; storable item; \<exists>e\<in>#entries t. matches cmp h item e\<rbrakk>
      \<Longrightarrow> \<exists>e\<in>#entries t. matches cmp h item e \<and> find_add cmp t h item = Some (Ret (data e, t))"
    and find_miss: "\<lbrakk>inv t; room t; storable item; \<not> (\<exists>e\<in>#entries t. matches cmp h item e)\<rbrakk>
      \<Longrightarrow> \<exists>t'. find_add cmp t h item = Some (Ret (item, t')) \<and> inv t'
            \<and> entries t' = add_mset \<lparr>hashValue = h, data = item\<rparr> (entries t)"
    and detach_hit: "\<lbrakk>inv t; storable item; \<lparr>hashValue = h, data = item\<rparr> \<in># entries t;
        \<And>e. e \<in># entries t \<Longrightarrow> data e = item \<Longrightarrow> hashValue e = h\<rbrakk>
      \<Longrightarrow> \<exists>t'. detach t h item = Some (Ret (True, t')) \<and> inv t' \<and> (room t \<longrightarrow> room t')
            \<and> entries t' = entries t - {#\<lparr>hashValue = h, data = item\<rparr>#}"
begin

text \<open>
  Replacing the pointer of an entry by another for the same key, as a client that wants to tag a
  pointer has to: detach the old entry, then add the new one.
\<close>

lemma replace_entry:
  assumes "inv t" and "room t" and old: "\<lparr>hashValue = h, data = old\<rparr> \<in># entries t"
    and "storable old" and "storable new"
    and "\<And>e. e \<in># entries t \<Longrightarrow> data e = old \<Longrightarrow> hashValue e = h"
    and none: "\<not> (\<exists>e\<in>#entries t - {#\<lparr>hashValue = h, data = old\<rparr>#}. matches cmp h new e)"
  shows "\<exists>t1 t2. detach t h old = Some (Ret (True, t1)) \<and> find_add cmp t1 h new = Some (Ret (new, t2))
           \<and> inv t2 \<and> entries t2 = add_mset \<lparr>hashValue = h, data = new\<rparr>
                                    (entries t - {#\<lparr>hashValue = h, data = old\<rparr>#})"
proof -
  obtain t1 where t1: "detach t h old = Some (Ret (True, t1))" "inv t1" "room t1"
    "entries t1 = entries t - {#\<lparr>hashValue = h, data = old\<rparr>#}"
    using detach_hit [OF assms(1) \<open>storable old\<close> old] assms(2,6) by blast
  then show ?thesis
    using find_miss [of t1 new cmp h] none \<open>storable new\<close> by auto
qed

text \<open>A second request with an equivalent key returns the pointer the first one returned.\<close>

lemma find_add_stable:
  assumes "inv t" and "room t" and "storable item" and "storable item'"
    and "cmp item item' = 0"
    and uniq: "\<And>e e'. e \<in># entries t \<Longrightarrow> e' \<in># entries t \<Longrightarrow> hashValue e = h \<Longrightarrow> hashValue e' = h
               \<Longrightarrow> cmp (data e) item' = 0 \<Longrightarrow> cmp (data e') item' = 0 \<Longrightarrow> data e = data e'"
    and trans: "\<And>a. cmp a item = 0 \<longleftrightarrow> cmp a item' = 0"
  shows "\<exists>r t1. find_add cmp t h item = Some (Ret (r, t1))
           \<and> find_add cmp t1 h item' = Some (Ret (r, t1)) \<and> inv t1"
proof (cases "\<exists>e\<in>#entries t. matches cmp h item e")
  case True
  then have hit': "\<exists>e\<in>#entries t. matches cmp h item' e" by (simp add: matches_def trans)
  obtain e where e: "e \<in># entries t" "matches cmp h item e" "find_add cmp t h item = Some (Ret (data e, t))"
    using find_hit [OF assms(1,3) True] by blast
  obtain e' where e': "e' \<in># entries t" "matches cmp h item' e'" "find_add cmp t h item' = Some (Ret (data e', t))"
    using find_hit [OF assms(1,4) hit'] by blast
  have "data e = data e'"
    using e(1,2) e'(1,2) trans by (intro uniq) (auto simp: matches_def)
  then show ?thesis using e e' assms(1) by auto
next
  case False
  then obtain t1 where t1: "find_add cmp t h item = Some (Ret (item, t1))" "inv t1"
    "entries t1 = add_mset \<lparr>hashValue = h, data = item\<rparr> (entries t)"
    using find_miss [OF assms(1-3)] by blast
  have hit: "\<exists>e\<in>#entries t1. matches cmp h item' e"
    using t1(3) assms(5) by (auto simp: matches_def)
  then obtain e where e: "e \<in># entries t1" "matches cmp h item' e"
    "find_add cmp t1 h item' = Some (Ret (data e, t1))"
    using find_hit [OF t1(2) assms(4) hit] by blast
  have "data e = item"
    using e(1,2) False t1(3) by (cases e) (auto simp: matches_def trans)
  then show ?thesis using t1 e by auto
qed

end

lemma lookup_hit:
  assumes "hash_wf t" and "storable item" and "\<exists>e\<in>#live t. matches cmp h item e"
  shows "\<exists>e\<in>#live t. matches cmp h item e
           \<and> dvmHashTableLookup alloc_ok cmp t h item doAdd = Some (Ret (data e, t))"
proof -
  let ?P = "\<lambda>e. data e \<noteq> HASH_TOMBSTONE \<and> hashValue e = h \<and> cmp (data e) item = 0"
  obtain i where i: "i < length (pEntries t)"
    "hash_probe ?P (pEntries t) (hash_index h (tableSize t)) = Some (Ret i)"
    "data (pEntries t ! i) = NULL \<or> ?P (pEntries t ! i)"
    "data (pEntries t ! i) = NULL \<Longrightarrow> \<not> (\<exists>e\<in>#live t. hashValue e = h \<and> ?P e)"
    using probe_wf [OF assms(1), of ?P h] by blast
  have "data (pEntries t ! i) \<noteq> NULL"
    using i(4) assms(3) by (auto simp: matches_def live_def live_entries_def is_live_def)
  moreover have "pEntries t ! i \<in># live t"
    using i(1,3) calculation by (auto simp: live_def in_live_iff is_live_def)
  ultimately show ?thesis
    using i assms(2) hash_wf_index(3) [OF assms(1)]
    by (intro bexI [of _ "pEntries t ! i"]) (auto simp: dvmHashTableLookup_def storable_def matches_def)
qed

lemma lookup_miss:
  assumes "hash_wf t" and "storable item" and "\<not> (\<exists>e\<in>#live t. matches cmp h item e)"
  shows "dvmHashTableLookup alloc_ok cmp t h item False = Some (Ret (NULL, t))"
    and "has_room alloc_ok t \<Longrightarrow>
         \<exists>t'. dvmHashTableLookup alloc_ok cmp t h item True = Some (Ret (item, t')) \<and> hash_wf t'
            \<and> live t' = add_mset \<lparr>hashValue = h, data = item\<rparr> (live t) \<and> freeFunc t' = freeFunc t
            \<and> tableSize t' \<in> {tableSize t, tableSize t * 2}"
proof -
  let ?P = "\<lambda>e. data e \<noteq> HASH_TOMBSTONE \<and> hashValue e = h \<and> cmp (data e) item = 0"
  obtain i where i: "i < length (pEntries t)"
    "hash_probe ?P (pEntries t) (hash_index h (tableSize t)) = Some (Ret i)"
    "data (pEntries t ! i) = NULL \<or> ?P (pEntries t ! i)" "reaches (pEntries t) (unat h) i"
    using probe_wf [OF assms(1), of ?P h] by blast
  have null: "data (pEntries t ! i) = NULL"
  proof (rule ccontr)
    assume "data (pEntries t ! i) \<noteq> NULL"
    then have "pEntries t ! i \<in># live t" "matches cmp h item (pEntries t ! i)"
      using i(1,3) by (auto simp: live_def in_live_iff is_live_def matches_def)
    with assms(3) show False by blast
  qed
  note pos = hash_wf_index(3) [OF assms(1)]
  show "dvmHashTableLookup alloc_ok cmp t h item False = Some (Ret (NULL, t))"
    using i null pos assms(2) by (auto simp: dvmHashTableLookup_def storable_def)
  assume room: "has_room alloc_ok t"
  have "dvmHashTableLookup alloc_ok cmp t h item True = hash_add alloc_ok t i h item"
    using i null pos assms(2) by (auto simp: dvmHashTableLookup_def storable_def)
  then show "\<exists>t'. dvmHashTableLookup alloc_ok cmp t h item True = Some (Ret (item, t')) \<and> hash_wf t'
            \<and> live t' = add_mset \<lparr>hashValue = h, data = item\<rparr> (live t) \<and> freeFunc t' = freeFunc t
            \<and> tableSize t' \<in> {tableSize t, tableSize t * 2}"
    using hash_add_correct [OF assms(1) room i(1) null i(4) assms(2)] by simp
qed

lemma remove_spec:
  assumes "hash_wf t" and "storable item"
  shows "\<exists>b t'. dvmHashTableRemove t h item = Some (Ret (b, t')) \<and> hash_wf t'
            \<and> tableSize t' = tableSize t \<and> freeFunc t' = freeFunc t
            \<and> (if b then \<exists>e\<in>#live t. data e = item \<and> live t' = live t - {#e#}
               else t' = t \<and> \<not> (\<exists>e\<in>#live t. hashValue e = h \<and> data e = item))"
proof -
  let ?P = "\<lambda>e. data e = item" and ?es = "pEntries t"
  obtain i where i: "i < length ?es"
    "hash_probe ?P ?es (hash_index h (tableSize t)) = Some (Ret i)"
    "data (?es ! i) = NULL \<or> ?P (?es ! i)"
    "data (?es ! i) = NULL \<Longrightarrow> \<not> (\<exists>e\<in>#live t. hashValue e = h \<and> ?P e)"
    using probe_wf [OF assms(1), of ?P h] by blast
  note pos = hash_wf_index(3) [OF assms(1)]
  show ?thesis
  proof (cases "data (?es ! i) = NULL")
    case True
    then have "dvmHashTableRemove t h item = Some (Ret (False, t))"
      using i(2) pos by (simp add: dvmHashTableRemove_def)
    then show ?thesis using i(4) [OF True] assms(1) by auto
  next
    case False
    then have d: "data (?es ! i) = item" "item \<noteq> NULL" "is_live (?es ! i)"
      using i(3) assms(2) by (auto simp: storable_def is_live_def)
    let ?e = "(?es ! i)\<lparr>data := HASH_TOMBSTONE\<rparr>"
    let ?t = "t\<lparr>pEntries := ?es[i := ?e], numEntries := numEntries t - 1,
                numDeadEntries := numDeadEntries t + 1\<rparr>"
    have mem: "?es ! i \<in># live t" using i(1) d by (auto simp: live_def in_live_iff)
    have live': "live_entries (?es[i := ?e]) = live t - {#?es ! i#}"
      using i(1) d by (simp add: live_def live_kill is_live_def)
    have "dead_count (?es[i := ?e]) = dead_count ?es + 1"
      using dead_update [OF i(1), of ?e] d by (simp add: is_live_def)
    moreover have "int (size (live t - {#?es ! i#})) = int (size (live t)) - 1"
      using mem by (auto dest!: multi_member_split)
    moreover have "chain (?es[i := ?e])"
      using assms(1) i(1) by (intro chain_kill) (simp_all add: hash_wf_def)
    ultimately have "hash_wf ?t"
      using assms(1) live' by (auto simp: hash_wf_def live_def)
    moreover have "dvmHashTableRemove t h item = Some (Ret (True, ?t))"
      using i(1,2) d pos by (simp add: dvmHashTableRemove_def)
    ultimately show ?thesis
      using mem d live' by (intro exI [of _ True] exI [of _ ?t]) (auto simp: live_def)
  qed
qed

interpretation dvm_hash: hash_store hash_wf "has_room alloc_ok" live
    "\<lambda>cmp t h item. dvmHashTableLookup alloc_ok cmp t h item True" dvmHashTableRemove
  for alloc_ok
proof (unfold_locales, goal_cases)
  case (1 t item cmp h)
  then show ?case by (intro lookup_hit)
next
  case (2 t item cmp h)
  then show ?case using lookup_miss(2) by blast
next
  case (3 t item h)
  have "\<exists>e\<in>#live t. hashValue e = h \<and> data e = item" using 3(3) by force
  then obtain t' e where e: "e \<in># live t" "data e = item" "dvmHashTableRemove t h item = Some (Ret (True, t'))"
    "hash_wf t'" "live t' = live t - {#e#}" "tableSize t' = tableSize t"
    using remove_spec [OF 3(1,2), of h] by (auto split: if_splits)
  moreover have "e = \<lparr>hashValue = h, data = item\<rparr>"
    using 3(4) [OF e(1,2)] e(2) by (cases e) simp
  ultimately show ?case by (auto simp: has_room_def)
qed

section \<open>Creating, clearing and filtering\<close>

text \<open>The bit smear of \<open>dexRoundUpPower2\<close>: after each step a bit is set when one of the next bits of the
  argument is.\<close>

lemma smear_step:
  fixes x y :: u4
  assumes "\<And>n. bit y n \<longleftrightarrow> (\<exists>j<m. bit x (n + j))" and "m \<noteq> 0"
  shows "bit (y OR drop_bit m y) n \<longleftrightarrow> (\<exists>j<m + m. bit x (n + j))"
proof -
  have "bit (y OR drop_bit m y) n \<longleftrightarrow> (\<exists>j<m. bit x (n + j)) \<or> (\<exists>j<m. bit x (n + m + j))"
    by (simp add: bit_or_iff bit_drop_bit_eq assms add.commute)
  also have "\<dots> \<longleftrightarrow> (\<exists>j<m + m. bit x (n + j))"
    by (metis (no_types, opaque_lifting) add.assoc add_less_cancel_left le_add_diff_inverse
        less_diff_conv2 linorder_not_less nat_add_left_cancel_less trans_less_add1)
  finally show ?thesis .
qed

lemma smear_eq_mask:
  fixes x y :: u4
  assumes "\<And>n. bit y n \<longleftrightarrow> (\<exists>j<32. bit x (n + j))" and "uint x < 2 ^ L" and "L \<le> 32"
    and "L \<noteq> 0 \<Longrightarrow> \<not> uint x < 2 ^ (L - 1)"
  shows "y = mask L"
proof (rule bit_word_eqI)
  fix n assume "n < LENGTH(32)"
  have high: "\<not> bit x m" if "L \<le> m" for m
  proof -
    have "uint x < 2 ^ m" by (rule less_le_trans [OF assms(2)]) (simp add: that)
    then have "\<not> bit (uint x) m" by (simp add: bit_iff_odd)
    then show ?thesis by (auto simp: bit_uint_iff dest: bit_imp_le_length)
  qed
  have low: "bit x (L - 1)" if "L \<noteq> 0"
  proof (rule ccontr)
    assume no: "\<not> bit x (L - 1)"
    have top: "\<not> bit x n" if "L - 1 \<le> n" for n
      using high [of n] no that by (cases "n = L - 1") auto
    have "take_bit (L - 1) x = x"
    proof (rule bit_word_eqI)
      fix n show "bit (take_bit (L - 1) x) n = bit x n"
        using top [of n] by (cases "n < L - 1") (simp_all add: bit_take_bit_iff)
    qed
    then have "uint x < 2 ^ (L - 1)"
      by (metis take_bit_int_less_exp unsigned_take_bit_eq)
    with assms(4) [OF that] show False by blast
  qed
  show "bit y n \<longleftrightarrow> bit (mask L :: u4) n"
  proof (cases "n < L")
    case True
    then have "L - 1 - n < 32" "n + (L - 1 - n) = L - 1" using assms(3) by auto
    then have "\<exists>j<32. bit x (n + j)" using low True by (intro exI [of _ "L - 1 - n"]) auto
    then show ?thesis using True \<open>n < LENGTH(32)\<close> assms(1) by (simp add: bit_mask_iff)
  next
    case False
    then show ?thesis using high assms(1) by (simp add: bit_mask_iff)
  qed
qed

lemma roundUpPower2_spec:
  assumes "0 < v" and "uint v \<le> 2 ^ 31"
  shows "\<exists>k\<le>31. dexRoundUpPower2 v = 2 ^ k \<and> uint v \<le> 2 ^ k \<and> (\<forall>m. uint v \<le> 2 ^ m \<longrightarrow> k \<le> m)"
proof -
  define x where "x = v - 1"
  have x: "uint x = uint v - 1"
    using assms(1) uint_minus_simple_alt [of 1 v] by (simp add: x_def word_le_def word_less_def)
  define k where "k = (LEAST k. uint x < 2 ^ k)"
  have le: "uint x < 2 ^ 31" using assms(2) x by simp
  have k: "uint x < 2 ^ k" unfolding k_def by (rule LeastI [of _ 31]) (use le in simp)
  have k31: "k \<le> 31" unfolding k_def by (rule Least_le) (use le in simp)
  have least: "\<not> uint x < 2 ^ m" if "m < k" for m
    using not_less_Least [of m "\<lambda>k. uint x < 2 ^ k"] that unfolding k_def by blast
  let ?s = "\<lambda>m y. y OR drop_bit m y"
  let ?b = "\<lambda>m y. \<forall>n. bit y n \<longleftrightarrow> (\<exists>j<m. bit x (n + j))"
  have step: "?b (m + m) (?s m y)" if "?b m y" "m \<noteq> 0" for m and y :: u4
    using smear_step [of y m x] that by blast
  have "?b 1 x" by simp
  from step [OF this] have "?b 2 (?s 1 x)" by (simp add: numeral_2_eq_2)
  from step [OF this] have "?b 4 (?s 2 (?s 1 x))" by simp
  from step [OF this] have "?b 8 (?s 4 (?s 2 (?s 1 x)))" by simp
  from step [OF this] have "?b 16 (?s 8 (?s 4 (?s 2 (?s 1 x))))" by simp
  from step [OF this] have "?b 32 (?s 16 (?s 8 (?s 4 (?s 2 (?s 1 x)))))" by simp
  then have "?s 16 (?s 8 (?s 4 (?s 2 (?s 1 x)))) = mask k"
    by (intro smear_eq_mask [of _ x]) (use k k31 least in auto)
  then have "dexRoundUpPower2 v = 2 ^ k"
    by (simp add: dexRoundUpPower2_def Let_def x_def mask_eq_exp_minus_1)
  moreover have "uint v \<le> 2 ^ m \<longleftrightarrow> uint x < 2 ^ m" for m using x by auto
  ultimately show ?thesis using k k31 least by (metis linorder_not_less)
qed

lemma create_wf:
  assumes "0 < n" and "uint n \<le> 2 ^ 28" and "malloc_ok" and "\<And>sz. alloc_ok sz"
  shows "\<exists>t. dvmHashTableCreate malloc_ok alloc_ok n ff = Ret (Some t) \<and> hash_wf t \<and> live t = {#}
            \<and> uint n \<le> tableSize t \<and> freeFunc t = ff"
proof -
  have v: "uint (ucast n :: u4) = uint n"
    using assms(2) by (simp add: unsigned_ucast_eq take_bit_int_eq_self)
  have "uint (0::u8) < uint n" using assms(1) by (simp only: word_less_def)
  then have pos: "0 < (ucast n :: u4)" using v by (simp add: word_less_def)
  obtain k where k: "dexRoundUpPower2 (ucast n) = 2 ^ k" "uint n \<le> 2 ^ k" "\<And>m. uint n \<le> 2 ^ m \<Longrightarrow> k \<le> m"
    using roundUpPower2_spec [OF pos] v assms(2) by auto
  then have k28: "k \<le> 28" using assms(2) by blast
  have "(2::int) ^ k < 2 ^ 31" using k28 by (intro power_strict_increasing) auto
  moreover have "- (2 ^ 31) \<le> (2::int) ^ k" by (rule order_trans [of _ 0]) simp_all
  ultimately have s: "sint (2 ^ k :: u4) = 2 ^ k"
    using sint_word_of_int_fits [of "2 ^ k", where 'a = 32] by simp
  have "int (nat (2 ^ k)) = 2 ^ k" by simp
  then show ?thesis
    using assms(1,3,4) k k28 s
    by (auto simp: dvmHashTableCreate_def hash_wf_def live_def chain_zero Let_def)
qed

lemma clear_wf:
  assumes "hash_wf t" and "dvmHashTableClear t = (freed, t')"
  shows "hash_wf t' \<and> live t' = {#} \<and> mset freed = (if freeFunc t then image_mset data (live t) else {#})"
proof -
  have t': "t' = t\<lparr>pEntries := map (data_update (\<lambda>_. NULL)) (pEntries t), numEntries := 0, numDeadEntries := 0\<rparr>"
    using assms(2) by (auto simp: dvmHashTableClear_def)
  have "live_entries (map (data_update (\<lambda>_. NULL)) (pEntries t)) = {#}"
    by (auto simp: live_entries_def filter_mset_eq_conv is_live_def)
  moreover have "dead_count (map (data_update (\<lambda>_. NULL)) (pEntries t)) = 0"
    by (auto simp: dead_count_def filter_mset_eq_conv)
  moreover have "chain (map (data_update (\<lambda>_. NULL)) (pEntries t))"
    by (auto simp: chain_def is_live_def)
  moreover have "mset freed = (if freeFunc t then image_mset data (live t) else {#})"
    using assms(2) by (auto simp: dvmHashTableClear_def live_def live_entries_def is_live_def
        mset_map mset_filter intro!: arg_cong [where f = "image_mset data"] filter_mset_cong)
  ultimately show ?thesis
    using assms(1) by (auto simp: t' hash_wf_def live_def)
qed

text \<open>\<open>foreach_remove\<close> only turns live entries into tombstones.\<close>

definition buried :: "HashEntry \<Rightarrow> HashEntry \<Rightarrow> bool" where
  "buried e e' \<longleftrightarrow> e' = e \<or> is_live e \<and> e' = e\<lparr>data := HASH_TOMBSTONE\<rparr>"

lemma chain_buried:
  assumes "chain ents" and "list_all2 buried ents ents'"
  shows "chain ents'"
proof -
  have len: "length ents' = length ents" using assms(2) by (simp add: list_all2_lengthD)
  have b: "buried (ents ! j) (ents' ! j)" if "j < length ents" for j
    using assms(2) that by (rule list_all2_nthD)
  have "reaches ents' h j" if "reaches ents h j" for h j
    by (rule reaches_mono [OF that len]) (metis b buried_def HashEntry.select_convs(2) HashEntry.surjective HashEntry.update_convs(2) NULL_TOMBSTONE(2))
  moreover have "ents' ! j = ents ! j" if "j < length ents" "is_live (ents' ! j)" for j
    using b [OF that(1)] that(2) by (auto simp: buried_def is_live_def)
  ultimately show ?thesis using assms(1) len by (auto simp: chain_def)
qed

lemma foreach_remove_buries:
  "foreach_remove f es = (r, es', k) \<Longrightarrow> list_all2 buried es es'
     \<and> int (dead_count es') = int (dead_count es) + k
     \<and> int (size (live_entries es')) = int (size (live_entries es)) - k
     \<and> ((\<forall>e\<in>#live_entries es. f (data e) \<in> {0, 1})
        \<longrightarrow> r = 0 \<and> live_entries es' = filter_mset (\<lambda>e. f (data e) = 0) (live_entries es))"
proof (induction es arbitrary: r es' k)
  case Nil
  then show ?case by (simp add: live_entries_def)
next
  case (Cons e es)
  obtain r1 es1 k1 where rec: "foreach_remove f es = (r1, es1, k1)" by (cases "foreach_remove f es") auto
  note IH = Cons.IH [OF rec]
  have refl: "buried x x" "list_all2 buried xs xs" for x xs
    by (simp_all add: list_all2_refl buried_def)
  show ?case
  proof (cases "is_live e")
    case False
    then have "r = r1" "es' = e # es1" "k = k1"
      using Cons.prems rec by (auto simp: is_live_def split: if_splits)
    then show ?thesis using IH False by (auto simp: buried_def dead_count_def live_entries_def)
  next
    case True
    then have live: "data e \<noteq> NULL" "data e \<noteq> HASH_TOMBSTONE" by (auto simp: is_live_def)
    consider "f (data e) = 1" | "f (data e) = 0" | "f (data e) \<notin> {0, 1}" by blast
    then show ?thesis
    proof cases
      case 1
      then have "r = r1" "es' = e\<lparr>data := HASH_TOMBSTONE\<rparr> # es1" "k = k1 + 1"
        using Cons.prems rec live by auto
      then show ?thesis
        using IH 1 True by (auto simp: buried_def dead_count_def live_entries_def is_live_def)
    next
      case 2
      then have "r = r1" "es' = e # es1" "k = k1" using Cons.prems rec live by auto
      then show ?thesis using IH 2 True live by (auto simp: buried_def dead_count_def live_entries_def)
    next
      case 3
      then have "es' = e # es" "k = 0" using Cons.prems live by auto
      then show ?thesis using 3 True refl by (simp add: live_entries_def)
    qed
  qed
qed

lemma foreachRemove_wf:
  assumes "hash_wf t" and "dvmHashForeachRemove t f = (r, t')"
  shows "hash_wf t' \<and> tableSize t' = tableSize t
     \<and> ((\<forall>e\<in>#live t. f (data e) \<in> {0, 1})
        \<longrightarrow> r = 0 \<and> live t' = filter_mset (\<lambda>e. f (data e) = 0) (live t))"
proof -
  obtain es k where fr: "foreach_remove f (pEntries t) = (r, es, k)"
    and t': "t' = t\<lparr>pEntries := es, numEntries := numEntries t - k, numDeadEntries := numDeadEntries t + k\<rparr>"
    using assms(2) by (auto simp: dvmHashForeachRemove_def split: prod.splits)
  note b = foreach_remove_buries [OF fr]
  have "chain es" using b assms(1) chain_buried by (auto simp: hash_wf_def)
  moreover have "length es = length (pEntries t)" using b by (auto dest: list_all2_lengthD)
  ultimately show ?thesis using assms(1) b by (auto simp: t' hash_wf_def live_def)
qed

section \<open>Properties\<close>

text \<open>C12 (lookup returns, and is a lookup). On a well-formed table \<open>dvmHashTableLookup\<close> returns: its probe loop ends,
  no assertion fails and no entry outside the array is read. If a live entry has the hash and compares
  equal, such an entry's pointer is returned and the table is unchanged, whether or not adding is asked for;
  otherwise the answer without \<open>doAdd\<close> is \<open>NULL\<close> and with \<open>doAdd\<close> the item itself, the live entries
  grow by exactly that entry (also across a resize), and the table is well-formed again.\<close>

theorem hash_lookup_refines:
  assumes "hash_wf t" and "storable item" and "has_room alloc_ok t"
  shows "\<exists>r t'. dvmHashTableLookup alloc_ok cmp t h item doAdd = Some (Ret (r, t')) \<and> hash_wf t'
           \<and> (if \<exists>e\<in>#live t. matches cmp h item e
              then t' = t \<and> (\<exists>e\<in>#live t. matches cmp h item e \<and> r = data e)
              else if doAdd then r = item \<and> live t' = add_mset \<lparr>hashValue = h, data = item\<rparr> (live t)
              else r = NULL \<and> t' = t)"
proof (cases "\<exists>e\<in>#live t. matches cmp h item e")
  case True
  then show ?thesis using lookup_hit [OF assms(1,2) True, of alloc_ok doAdd] assms(1) by auto
next
  case False
  then show ?thesis
    using lookup_miss [OF assms(1,2) False, of alloc_ok] assms(1,3) by (cases doAdd) auto
qed

definition sample_table :: HashTable where
  "sample_table = \<lparr>tableSize = 2, numEntries = 0, numDeadEntries = 0,
     pEntries = replicate 2 zero_entry, freeFunc = False\<rparr>"

lemma sample_table_wf: "hash_wf sample_table"
  by (auto simp: hash_wf_def sample_table_def live_def chain_zero intro!: exI [of _ 1])

theorem hash_lookup_refines_witness:
  "\<exists>r t'. dvmHashTableLookup (\<lambda>_. True) (\<lambda>a b. if a = b then 0 else 1) sample_table 7 0x1000 True
            = Some (Ret (r, t'))
        \<and> hash_wf t' \<and> r = 0x1000 \<and> live t' = {#\<lparr>hashValue = 7, data = 0x1000\<rparr>#}"
  using hash_lookup_refines [OF sample_table_wf, of "0x1000" "\<lambda>_. True" "\<lambda>a b. if a = b then 0 else 1" 7 True]
  by (simp add: storable_def NULL_def HASH_TOMBSTONE_def has_room_def sample_table_def live_def)

text \<open>C16 (removal). On a well-formed table \<open>dvmHashTableRemove\<close> returns, keeps the invariant and the table size, and either reports
  true and detaches exactly one live entry holding that pointer, or reports false, changes
  nothing, and no live entry has that hash and pointer. A removed entry leaves a tombstone, so every other entry can
  still be found.\<close>

theorem hash_remove_refines:
  assumes "hash_wf t" and "storable item"
  shows "\<exists>b t'. dvmHashTableRemove t h item = Some (Ret (b, t')) \<and> hash_wf t' \<and> tableSize t' = tableSize t
           \<and> (if b then \<exists>e\<in>#live t. data e = item \<and> live t' = live t - {#e#}
              else t' = t \<and> \<not> (\<exists>e\<in>#live t. hashValue e = h \<and> data e = item))"
  using remove_spec [OF assms, of h] by blast

theorem hash_remove_refines_witness:
  "\<exists>b t'. dvmHashTableRemove sample_table 7 0x1000 = Some (Ret (b, t')) \<and> hash_wf t' \<and> \<not> b"
  using hash_remove_refines [OF sample_table_wf, of "0x1000" 7]
  by (auto simp: storable_def NULL_def HASH_TOMBSTONE_def sample_table_def live_def split: if_splits)

text \<open>C23 (whole-table operations). A table created for between 1 and \<open>2^28\<close> entries is well-formed and empty with at
  least that capacity; clearing keeps the invariant, leaves no entry and passes every live pointer to the free
  function exactly once; \<open>dvmHashForeachRemove\<close> keeps the invariant and, for a callback that answers 0 or
  1, keeps exactly the entries it answers 0 for.\<close>

theorem hash_table_wide_ops:
  assumes "0 < n" and "uint n \<le> 2 ^ 28" and "hash_wf t"
  shows "(\<exists>t0. dvmHashTableCreate True (\<lambda>_. True) n ff = Ret (Some t0) \<and> hash_wf t0 \<and> live t0 = {#}
             \<and> uint n \<le> tableSize t0)
       \<and> (\<exists>freed t'. dvmHashTableClear t = (freed, t') \<and> hash_wf t' \<and> live t' = {#}
             \<and> mset freed = (if freeFunc t then image_mset data (live t) else {#}))
       \<and> (\<exists>r t'. dvmHashForeachRemove t f = (r, t') \<and> hash_wf t'
             \<and> ((\<forall>e\<in>#live t. f (data e) \<in> {0, 1})
                 \<longrightarrow> r = 0 \<and> live t' = filter_mset (\<lambda>e. f (data e) = 0) (live t)))"
proof (intro conjI)
  show "\<exists>t0. dvmHashTableCreate True (\<lambda>_. True) n ff = Ret (Some t0) \<and> hash_wf t0 \<and> live t0 = {#}
            \<and> uint n \<le> tableSize t0"
    using create_wf [OF assms(1,2), of True "\<lambda>_. True" ff] by auto
  show "\<exists>freed t'. dvmHashTableClear t = (freed, t') \<and> hash_wf t' \<and> live t' = {#}
            \<and> mset freed = (if freeFunc t then image_mset data (live t) else {#})"
    using clear_wf [OF assms(3)] by (cases "dvmHashTableClear t") blast
  show "\<exists>r t'. dvmHashForeachRemove t f = (r, t') \<and> hash_wf t'
           \<and> ((\<forall>e\<in>#live t. f (data e) \<in> {0, 1})
               \<longrightarrow> r = 0 \<and> live t' = filter_mset (\<lambda>e. f (data e) = 0) (live t))"
    using foreachRemove_wf [OF assms(3)] by (cases "dvmHashForeachRemove t f") blast
qed

theorem hash_table_wide_ops_witness:
  "(\<exists>t0. dvmHashTableCreate True (\<lambda>_. True) 256 False = Ret (Some t0) \<and> hash_wf t0 \<and> live t0 = {#}
     \<and> 256 \<le> tableSize t0)
   \<and> (\<exists>r t'. dvmHashForeachRemove sample_table (\<lambda>_. 1) = (r, t') \<and> hash_wf t' \<and> r = 0)"
  using hash_table_wide_ops [OF _ _ sample_table_wf, of 256 False "\<lambda>_. 1"] by auto

end
