(* ===== verification/UtfString.thy ===== *)
theory UtfString
  imports Prelude
begin

text \<open>
  The string conversions of \<^verbatim>\<open>src/vm/UtfString.c\<close> and \<^verbatim>\<open>src/libdex/DexFile.h\<close> between the modified UTF-8 of DEX files and
  JNI and the UTF-16 of \<open>java.lang.String\<close>, the string hashes and the comparison of string objects.
  A C string is the list of bytes from the pointer on; reading beyond the list is \<open>OutOfBounds\<close>. The output
  buffers have a capacity, and writing beyond it is \<open>OutOfBounds\<close> too. \<open>char\<close> is signed.
\<close>

section \<open>From UTF-8\<close>

definition dvmComputeUtf8Hash :: "u1 list \<Rightarrow> u4" where
  "dvmComputeUtf8Hash utf8Str = foldl (\<lambda>hash c. hash * 31 + scast c) 1 (takeWhile (\<lambda>c. c \<noteq> 0) utf8Str)"

function dvmUtf8Len :: "u1 list \<Rightarrow> nat outcome" where
  "dvmUtf8Len [] = OutOfBounds"
| "dvmUtf8Len (ic # bs) =
     (if ic = 0 then Ret 0
      else bind_out (dvmUtf8Len (if ic AND 0x80 \<noteq> 0 then (if ic AND 0x20 \<noteq> 0 then drop 2 bs else drop 1 bs) else bs))
             (\<lambda>len. Ret (Suc len)))"
  by pat_completeness auto
termination
  by (relation "measure length") auto

definition pop_byte :: "u1 list \<Rightarrow> (u4 \<times> u1 list) outcome" where
  "pop_byte bs = (case bs of [] \<Rightarrow> OutOfBounds | b # r \<Rightarrow> Ret (scast b, r))"

definition dexGetUtf16FromUtf8 :: "u1 list \<Rightarrow> (u2 \<times> u1 list) outcome" where
  "dexGetUtf16FromUtf8 p =
     bind_out (pop_byte p) (\<lambda>(one, p).
       if one AND 0x80 \<noteq> 0 then
         bind_out (pop_byte p) (\<lambda>(two, p).
           if one AND 0x20 \<noteq> 0 then
             bind_out (pop_byte p) (\<lambda>(three, p).
               Ret (ucast (push_bit 12 (one AND 0x0f) OR push_bit 6 (two AND 0x3f) OR (three AND 0x3f)), p))
           else Ret (ucast (push_bit 6 (one AND 0x1f) OR (two AND 0x3f)), p))
       else Ret (ucast one, p))"

lemma dexGetUtf16_shorter: "dexGetUtf16FromUtf8 p = Ret (w, q) \<Longrightarrow> length q < length p"
  by (auto simp: dexGetUtf16FromUtf8_def pop_byte_def split: list.splits if_splits)

text \<open>\<open>cap\<close> is the number of units the buffer has left; the result is what has been written.\<close>

function dvmConvertUtf8ToUtf16 :: "nat \<Rightarrow> u1 list \<Rightarrow> u2 list outcome" where
  "dvmConvertUtf8ToUtf16 cap p =
     (case p of
        [] \<Rightarrow> OutOfBounds
      | c # _ \<Rightarrow>
          if c = 0 then Ret []
          else case dexGetUtf16FromUtf8 p of
                 Ret (w, q) \<Rightarrow>
                   if cap = 0 then OutOfBounds
                   else bind_out (dvmConvertUtf8ToUtf16 (cap - 1) q) (\<lambda>ws. Ret (w # ws))
               | AbortVM \<Rightarrow> AbortVM
               | OutOfBounds \<Rightarrow> OutOfBounds)"
  by pat_completeness auto
termination
  by (relation "measure (\<lambda>(cap, p). length p)") (auto dest: dexGetUtf16_shorter)

declare dvmConvertUtf8ToUtf16.simps [simp del]

section \<open>To UTF-8\<close>

fun utf16_utf8ByteLen :: "u2 list \<Rightarrow> nat" where
  "utf16_utf8ByteLen [] = 0"
| "utf16_utf8ByteLen (uic # ws) =
     (if uic = 0 \<or> uic > 0x7f then (if uic > 0x07ff then 3 else 2) else 1) + utf16_utf8ByteLen ws"

definition utf8_unit :: "u2 \<Rightarrow> u1 list" where
  "utf8_unit uic =
     (if uic = 0 \<or> uic > 0x7f then
        if uic > 0x07ff then
          [ucast (drop_bit 12 uic) OR 0xe0, ucast (drop_bit 6 uic AND 0x3f) OR 0x80, ucast (uic AND 0x3f) OR 0x80]
        else [ucast (drop_bit 6 uic) OR 0xc0, ucast (uic AND 0x3f) OR 0x80]
      else [ucast uic])"

fun convertUtf16ToUtf8 :: "nat \<Rightarrow> u2 list \<Rightarrow> u1 list outcome" where
  "convertUtf16ToUtf8 cap [] = (if cap = 0 then OutOfBounds else Ret [0])"
| "convertUtf16ToUtf8 cap (uic # ws) =
     (if cap < length (utf8_unit uic) then OutOfBounds
      else bind_out (convertUtf16ToUtf8 (cap - length (utf8_unit uic)) ws) (\<lambda>bs. Ret (utf8_unit uic @ bs)))"

definition dvmComputeUtf16Hash :: "u2 list \<Rightarrow> u4" where
  "dvmComputeUtf16Hash utf16Str = foldl (\<lambda>hash c. hash * 31 + ucast c) 0 utf16Str"

section \<open>Strings in the heap\<close>

text \<open>The fields of a string object: the character array, and the part of it that is the string.\<close>

record StringObject =
  chars :: "u2 list"
  str_offset :: int
  str_count :: int

type_synonym strings = "u8 \<Rightarrow> StringObject option"

definition string_data :: "StringObject \<Rightarrow> u2 list outcome" where
  "string_data s = (if str_offset s < 0 \<or> str_count s < 0 \<or> str_offset s + str_count s > int (length (chars s)) then OutOfBounds
     else Ret (take (nat (str_count s)) (drop (nat (str_offset s)) (chars s))))"

definition with_string :: "strings \<Rightarrow> u8 \<Rightarrow> (StringObject \<Rightarrow> 'a outcome) \<Rightarrow> 'a outcome" where
  "with_string h p f = (case h p of None \<Rightarrow> OutOfBounds | Some s \<Rightarrow> f s)"

definition dvmComputeStringHash :: "strings \<Rightarrow> u8 \<Rightarrow> u4 outcome" where
  "dvmComputeStringHash h strObj =
     with_string h strObj (\<lambda>s. bind_out (string_data s) (\<lambda>d. Ret (dvmComputeUtf16Hash d)))"

text \<open>\<open>memcmp\<close> of two arrays of units of the same length: the sign of the difference at the first byte that differs, low byte first.\<close>

fun memcmp_units :: "u2 list \<Rightarrow> u2 list \<Rightarrow> int" where
  "memcmp_units (a # as) (b # bs) =
     (if a = b then memcmp_units as bs
      else if (ucast a :: u1) \<noteq> ucast b then sgn (uint (ucast a :: u1) - uint (ucast b :: u1))
      else sgn (uint a - uint b))"
| "memcmp_units _ _ = 0"

definition dvmHashcmpStrings :: "strings \<Rightarrow> u8 \<Rightarrow> u8 \<Rightarrow> int outcome" where
  "dvmHashcmpStrings h vstrObj1 vstrObj2 =
     with_string h vstrObj1 (\<lambda>s1. with_string h vstrObj2 (\<lambda>s2.
       if str_count s1 \<noteq> str_count s2 then Ret (str_count s1 - str_count s2)
       else if \<not> str_offset s1 + str_count s1 \<le> int (length (chars s1)) then AbortVM
       else if \<not> str_offset s2 + str_count s2 \<le> int (length (chars s2)) then AbortVM
       else bind_out (string_data s1) (\<lambda>d1. bind_out (string_data s2) (\<lambda>d2. Ret (memcmp_units d1 d2)))))"

definition dvmStringUtf8ByteLen :: "strings \<Rightarrow> u8 \<Rightarrow> nat outcome" where
  "dvmStringUtf8ByteLen h jstr =
     (if jstr = 0 then Ret 0
      else with_string h jstr (\<lambda>s. if \<not> str_offset s + str_count s \<le> int (length (chars s)) then AbortVM
             else bind_out (string_data s) (\<lambda>d. Ret (utf16_utf8ByteLen d))))"

text \<open>The result is \<open>NULL\<close> (\<open>None\<close>) for a \<open>NULL\<close> string or when memory is exhausted.\<close>

definition dvmCreateCstrFromString :: "(int \<Rightarrow> bool) \<Rightarrow> strings \<Rightarrow> u8 \<Rightarrow> u1 list option outcome" where
  "dvmCreateCstrFromString ok h jstr =
     (if jstr = 0 then Ret None
      else with_string h jstr (\<lambda>s. if \<not> str_offset s + str_count s \<le> int (length (chars s)) then AbortVM
        else bind_out (string_data s) (\<lambda>d.
          let byteLen = utf16_utf8ByteLen d in
          if \<not> ok (int byteLen + 1) then Ret None
          else bind_out (convertUtf16ToUtf8 (byteLen + 1) d) (\<lambda>bs. Ret (Some bs)))))"

section \<open>One character\<close>

lemma length_utf8_unit: "length (utf8_unit w) = utf16_utf8ByteLen [w]"
  by (simp add: utf8_unit_def)

lemma bits_below: "bit w n \<Longrightarrow> unat w < 2 ^ k \<Longrightarrow> n < k" for w :: "'a::len word"
proof (rule ccontr)
  assume b: "bit w n" and "unat w < 2 ^ k" and "\<not> n < k"
  then have "unat w < 2 ^ n" by (meson le_less_trans less_le_trans linorder_not_less one_le_numeral power_increasing)
  moreover have "bit (unat w) n" using b by (simp add: bit_unsigned_iff)
  ultimately show False by (simp add: bit_iff_odd)
qed

lemma utf8_masks:
  "(0x80 :: u4) = push_bit 7 1" "(0x20 :: u4) = push_bit 5 1" "(0x80 :: u1) = push_bit 7 1" "(0x20 :: u1) = push_bit 5 1"
  "(0x3f :: u4) = mask 6" "(0x0f :: u4) = mask 4" "(0x1f :: u4) = mask 5" "(0x3f :: u2) = mask 6"
  "(0xe0 :: u1) = push_bit 5 (mask 3)" "(0xc0 :: u1) = push_bit 6 (mask 2)"
  by (simp_all add: mask_eq_exp_minus_1)

lemma test_bit: "w AND push_bit n 1 \<noteq> 0 \<longleftrightarrow> bit w n" for w :: "'a::len word"
  by (simp add: bit_iff_and_push_bit_not_eq_0)

lemma flag_bits: "(w :: u4) AND 0x80 \<noteq> 0 \<longleftrightarrow> bit w 7" "(w :: u4) AND 0x20 \<noteq> 0 \<longleftrightarrow> bit w 5"
  "(v :: u1) AND 0x80 \<noteq> 0 \<longleftrightarrow> bit v 7" "(v :: u1) AND 0x20 \<noteq> 0 \<longleftrightarrow> bit v 5"
  unfolding utf8_masks test_bit by (rule refl)+

lemma marker_bits:
  "bit (0x80 :: 'a::len word) n \<longleftrightarrow> n = 7 \<and> n < LENGTH('a)"
  "bit (0xc0 :: 'a::len word) n \<longleftrightarrow> (n = 6 \<or> n = 7) \<and> n < LENGTH('a)"
  "bit (0xe0 :: 'a::len word) n \<longleftrightarrow> (n = 5 \<or> n = 6 \<or> n = 7) \<and> n < LENGTH('a)"
proof -
  have m: "(mask 2 :: 'a word) = 3" "(mask 3 :: 'a word) = 7" by (simp_all add: mask_eq_exp_minus_1)
  have "bit (push_bit 7 (1 :: 'a word)) n \<longleftrightarrow> n = 7 \<and> n < LENGTH('a)" unfolding bit_push_bit_iff by (auto simp: bit_1_iff)
  then show "bit (0x80 :: 'a word) n \<longleftrightarrow> n = 7 \<and> n < LENGTH('a)" by simp
  have "bit (push_bit 6 (mask 2 :: 'a word)) n \<longleftrightarrow> (n = 6 \<or> n = 7) \<and> n < LENGTH('a)"
    unfolding bit_push_bit_iff by (auto simp: bit_mask_iff)
  then show "bit (0xc0 :: 'a word) n \<longleftrightarrow> (n = 6 \<or> n = 7) \<and> n < LENGTH('a)" unfolding m by simp
  have "bit (push_bit 5 (mask 3 :: 'a word)) n \<longleftrightarrow> (n = 5 \<or> n = 6 \<or> n = 7) \<and> n < LENGTH('a)"
    unfolding bit_push_bit_iff by (auto simp: bit_mask_iff)
  then show "bit (0xe0 :: 'a word) n \<longleftrightarrow> (n = 5 \<or> n = 6 \<or> n = 7) \<and> n < LENGTH('a)" unfolding m by simp
qed

lemma marker_bits_int:
  "bit (0x80 :: int) n \<longleftrightarrow> n = 7" "bit (0xc0 :: int) n \<longleftrightarrow> n = 6 \<or> n = 7" "bit (0xe0 :: int) n \<longleftrightarrow> n = 5 \<or> n = 6 \<or> n = 7"
proof -
  have m: "(mask 2 :: int) = 3" "(mask 3 :: int) = 7" by (simp_all add: mask_eq_exp_minus_1)
  have "bit (push_bit 7 (1 :: int)) n \<longleftrightarrow> n = 7" unfolding bit_push_bit_iff by (auto simp: bit_1_iff)
  then show "bit (0x80 :: int) n \<longleftrightarrow> n = 7" by simp
  have "bit (push_bit 6 (mask 2 :: int)) n \<longleftrightarrow> n = 6 \<or> n = 7" unfolding bit_push_bit_iff by (auto simp: bit_mask_iff)
  then show "bit (0xc0 :: int) n \<longleftrightarrow> n = 6 \<or> n = 7" unfolding m by simp
  have "bit (push_bit 5 (mask 3 :: int)) n \<longleftrightarrow> n = 5 \<or> n = 6 \<or> n = 7" unfolding bit_push_bit_iff by (auto simp: bit_mask_iff)
  then show "bit (0xe0 :: int) n \<longleftrightarrow> n = 5 \<or> n = 6 \<or> n = 7" unfolding m by simp
qed

lemma unit_three:
  "ucast (push_bit 12 (scast (ucast (drop_bit 12 w) OR 0xe0 :: u1) AND 0x0f) OR push_bit 6 (scast (ucast (drop_bit 6 w AND 0x3f) OR 0x80 :: u1) AND 0x3f)
      OR (scast (ucast (w AND 0x3f) OR 0x80 :: u1) AND 0x3f) :: u4) = (w :: u2)"
proof (rule bit_word_eqI)
  fix n assume "n < LENGTH(16)"
  then show "bit (ucast (push_bit 12 (scast (ucast (drop_bit 12 w) OR 0xe0 :: u1) AND 0x0f)
      OR push_bit 6 (scast (ucast (drop_bit 6 w AND 0x3f) OR 0x80 :: u1) AND 0x3f)
      OR (scast (ucast (w AND 0x3f) OR 0x80 :: u1) AND 0x3f) :: u4) :: u2) n = bit w n"
    unfolding utf8_masks(5-8)
    by (cases "n < 6"; cases "n < 12") (auto simp: bit_simps marker_bits marker_bits_int)
qed

lemma unit_two:
  assumes "unat (w :: u2) < 2 ^ 11"
  shows "ucast (push_bit 6 (scast (ucast (drop_bit 6 w) OR 0xc0 :: u1) AND 0x1f) OR (scast (ucast (w AND 0x3f) OR 0x80 :: u1) AND 0x3f) :: u4) = w"
proof (rule bit_word_eqI)
  fix n assume "n < LENGTH(16)"
  then show "bit (ucast (push_bit 6 (scast (ucast (drop_bit 6 w) OR 0xc0 :: u1) AND 0x1f)
      OR (scast (ucast (w AND 0x3f) OR 0x80 :: u1) AND 0x3f) :: u4) :: u2) n = bit w n"
    unfolding utf8_masks(5-8) using bits_below [OF _ assms, of n]
    by (cases "n < 6") (auto simp: bit_simps marker_bits marker_bits_int)
qed

lemma unit_one:
  assumes "unat (w :: u2) < 2 ^ 7"
  shows "ucast (scast (ucast w :: u1) :: u4) = w"
proof (rule bit_word_eqI)
  fix n assume "n < LENGTH(16)"
  then show "bit (ucast (scast (ucast w :: u1) :: u4) :: u2) n = bit w n"
    using bits_below [OF _ assms, of n] bits_below [OF _ assms, of 7]
    by (cases "n < 7") (auto simp: bit_simps min_def)
qed

lemma unit_markers:
  "bit (scast (ucast (drop_bit 12 w) OR 0xe0 :: u1) :: u4) 7" "bit (scast (ucast (drop_bit 12 w) OR 0xe0 :: u1) :: u4) 5"
  "bit (scast (ucast (drop_bit 6 w) OR 0xc0 :: u1) :: u4) 7"
  "unat (w :: u2) < 2 ^ 11 \<Longrightarrow> \<not> bit (scast (ucast (drop_bit 6 w) OR 0xc0 :: u1) :: u4) 5"
  "unat w < 2 ^ 7 \<Longrightarrow> \<not> bit (scast (ucast w :: u1) :: u4) 7"
  using bits_below [of w 11 11] bits_below [of w 7 7] by (auto simp: bit_simps marker_bits marker_bits_int)

lemma unit_decode: "dexGetUtf16FromUtf8 (utf8_unit w @ r) = Ret (w, r)"
proof -
  have s: "\<not> 0x7ff < w \<Longrightarrow> unat w < 2 ^ 11" "\<not> 0x7f < w \<Longrightarrow> unat w < 2 ^ 7" "w = 0 \<Longrightarrow> unat w < 2 ^ 11"
    by (simp_all add: word_less_nat_alt)
  show ?thesis
    using s by (auto simp: utf8_unit_def dexGetUtf16FromUtf8_def pop_byte_def flag_bits unit_markers unit_three unit_two unit_one
        simp del: bind_out_eq_Ret push_bit_and)
qed

lemma unit_bytes:
  "bit (ucast x OR 0xe0 :: u1) 7" "bit (ucast x OR 0xe0 :: u1) 5" "bit (ucast x OR 0xc0 :: u1) 7" "bit (ucast x OR 0x80 :: u1) 7"
  "unat w < 2 ^ 11 \<Longrightarrow> \<not> bit (ucast (drop_bit 6 w) OR 0xc0 :: u1) 5" "unat w < 2 ^ 7 \<Longrightarrow> \<not> bit (ucast w :: u1) 7"
  for x w :: u2
  using bits_below [of w 11 11] bits_below [of w 7 7] by (auto simp: bit_simps marker_bits)

lemma unit_ranges: "\<not> 0x7ff < w \<Longrightarrow> unat w < 2 ^ 11" "\<not> 0x7f < w \<Longrightarrow> unat w < 2 ^ 7" for w :: u2
  by (simp_all add: word_less_nat_alt)

lemma unit_nonzero: "0 \<notin> set (utf8_unit w)"
proof -
  have z: "b \<noteq> 0" if "bit b 7" for b :: u1 using that by auto
  have "(ucast w :: u1) \<noteq> 0" if "w \<noteq> 0" "\<not> 0x7f < w"
    using that unit_one [of w] unit_ranges(2) [of w] by (metis scast_0 ucast_0)
  then show ?thesis
    using z [OF unit_bytes(1)] z [OF unit_bytes(3)] z [OF unit_bytes(4)] by (auto simp: utf8_unit_def eq_commute [of "0 :: u1"])
qed

lemma unit_Cons: "\<exists>b bs. utf8_unit w = b # bs"
  by (simp add: utf8_unit_def)

lemma unit_length: "dvmUtf8Len (utf8_unit w @ r) = bind_out (dvmUtf8Len r) (\<lambda>n. Ret (Suc n))"
  using unit_nonzero [of w] unit_ranges [of w] unit_bytes(5,6) [of w]
  by (auto simp: utf8_unit_def flag_bits unit_bytes(1-4) simp del: bind_out_eq_Ret split: if_splits)

lemma convert_back:
  assumes "utf16_utf8ByteLen ws < cap"
  shows "\<exists>bs. convertUtf16ToUtf8 cap ws = Ret (bs @ [0]) \<and> 0 \<notin> set bs \<and> length bs = utf16_utf8ByteLen ws
           \<and> dvmUtf8Len (bs @ [0]) = Ret (length ws) \<and> dvmConvertUtf8ToUtf16 (length ws) (bs @ [0]) = Ret ws"
  using assms
proof (induction ws arbitrary: cap)
  case Nil
  then show ?case by (simp add: dvmConvertUtf8ToUtf16.simps)
next
  case (Cons w ws)
  let ?n = "length (utf8_unit w)"
  have n: "utf16_utf8ByteLen (w # ws) = ?n + utf16_utf8ByteLen ws" by (simp add: length_utf8_unit)
  obtain bs where bs: "convertUtf16ToUtf8 (cap - ?n) ws = Ret (bs @ [0])" "0 \<notin> set bs" "length bs = utf16_utf8ByteLen ws"
    "dvmUtf8Len (bs @ [0]) = Ret (length ws)" "dvmConvertUtf8ToUtf16 (length ws) (bs @ [0]) = Ret ws"
    using Cons.IH [of "cap - ?n"] Cons.prems n by (auto simp: less_diff_conv add.commute)
  obtain b c where u: "utf8_unit w = b # c" using unit_Cons by blast
  then have "b \<noteq> 0" using unit_nonzero [of w] by auto
  then have "dvmConvertUtf8ToUtf16 (length (w # ws)) ((utf8_unit w @ bs) @ [0]) = Ret (w # ws)"
    using bs(5) unit_decode [of w "bs @ [0]"] u by (simp add: dvmConvertUtf8ToUtf16.simps [of "Suc (length ws)"])
  moreover have "dvmUtf8Len ((utf8_unit w @ bs) @ [0]) = Ret (length (w # ws))"
    using bs(4) unit_length [of w "bs @ [0]"] by simp
  moreover have "convertUtf16ToUtf8 cap (w # ws) = Ret ((utf8_unit w @ bs) @ [0])"
    using bs(1) Cons.prems n by simp
  ultimately show ?case using bs(2,3) unit_nonzero n by (intro exI [of _ "utf8_unit w @ bs"]) auto
qed

section \<open>Comparison\<close>

definition string_ok :: "StringObject \<Rightarrow> bool" where
  "string_ok s \<longleftrightarrow> 0 \<le> str_offset s \<and> 0 \<le> str_count s \<and> str_offset s + str_count s \<le> int (length (chars s))"

definition text_of :: "StringObject \<Rightarrow> u2 list" where
  "text_of s = take (nat (str_count s)) (drop (nat (str_offset s)) (chars s))"

lemma string_data_ok: "string_ok s \<Longrightarrow> string_data s = Ret (text_of s)"
  by (simp add: string_ok_def string_data_def text_of_def)

lemma length_text_of: "string_ok s \<Longrightarrow> int (length (text_of s)) = str_count s"
  by (auto simp: string_ok_def text_of_def)

lemma memcmp_zero: "length as = length bs \<Longrightarrow> memcmp_units as bs = 0 \<longleftrightarrow> as = bs"
  by (induction as bs rule: memcmp_units.induct) (auto simp: sgn_if dest: unsigned_word_eqI split: if_splits)

lemma hashcmp_spec:
  assumes "h p = Some s" and "h q = Some t" and "string_ok s" and "string_ok t"
  shows "\<exists>r. dvmHashcmpStrings h p q = Ret r \<and> (r = 0 \<longleftrightarrow> text_of s = text_of t)"
proof (cases "str_count s = str_count t")
  case True
  then have "length (text_of s) = length (text_of t)" using length_text_of assms(3,4) by (metis of_nat_eq_iff)
  then show ?thesis
    using True assms by (auto simp: dvmHashcmpStrings_def with_string_def string_data_ok memcmp_zero) (auto simp: string_ok_def)
next
  case False
  then show ?thesis
    using assms length_text_of [of s] length_text_of [of t] by (auto simp: dvmHashcmpStrings_def with_string_def)
qed

section \<open>Claims\<close>



end
