(* ===== verification/Intern.thy ===== *)
theory Intern
  imports HashTable UtfString
begin

text \<open>
  String interning, \<^verbatim>\<open>src/vm/Intern.c\<close>, as a client of the hash table. The table holds pointers to string objects; an
  immortal string has the lowest bit of its pointer set. An entry is made immortal by removing it, setting
  the bit and adding it again. The hash and the comparison are those of the string objects in a heap
  \<open>h\<close> of well-formed strings. The lock makes each operation atomic.
\<close>

section \<open>Operations\<close>

definition SET_IMMORTAL_BIT :: "u8 \<Rightarrow> u8" where
  "SET_IMMORTAL_BIT strObj = strObj OR 1"

definition STRIP_IMMORTAL_BIT :: "u8 \<Rightarrow> u8" where
  "STRIP_IMMORTAL_BIT strObj = strObj AND NOT 1"

definition IS_IMMORTAL :: "u8 \<Rightarrow> bool" where
  "IS_IMMORTAL strObj \<longleftrightarrow> strObj AND 1 \<noteq> 0"

definition dvmStringInternStartup :: "bool \<Rightarrow> (int \<Rightarrow> bool) \<Rightarrow> HashTable option outcome" where
  "dvmStringInternStartup calloc_ok alloc_ok = dvmHashTableCreate calloc_ok alloc_ok 256 False"

text \<open>The callback returns an \<open>int\<close>; on strings that are not well-formed it would stop the VM.\<close>

definition hashcmpImmortalStrings :: "strings \<Rightarrow> u8 \<Rightarrow> u8 \<Rightarrow> int" where
  "hashcmpImmortalStrings h vstrObj1 vstrObj2 =
     (case dvmHashcmpStrings h (STRIP_IMMORTAL_BIT vstrObj1) (STRIP_IMMORTAL_BIT vstrObj2) of
        Ret r \<Rightarrow> r | _ \<Rightarrow> 1)"

definition lookupInternedString ::
  "(int \<Rightarrow> bool) \<Rightarrow> strings \<Rightarrow> HashTable \<Rightarrow> u8 \<Rightarrow> bool \<Rightarrow> (u8 \<times> HashTable) outcome option" where
  "lookupInternedString alloc_ok h t strObj immortal =
     (if strObj = 0 then Some AbortVM
      else
        bind_run (Some (dvmComputeStringHash h strObj)) (\<lambda>hash.
        let strObj = (if immortal then SET_IMMORTAL_BIT strObj else strObj) in
        bind_run (dvmHashTableLookup alloc_ok (hashcmpImmortalStrings h) t hash strObj True) (\<lambda>(found, t).
        if immortal \<and> \<not> IS_IMMORTAL found then
          bind_run (dvmHashTableRemove t hash found) (\<lambda>(_, t).
          let found = SET_IMMORTAL_BIT found in
          bind_run (dvmHashTableLookup alloc_ok (hashcmpImmortalStrings h) t hash found True) (\<lambda>(found, t).
          if \<not> IS_IMMORTAL found then Some AbortVM else Some (Ret (STRIP_IMMORTAL_BIT found, t))))
        else Some (Ret (STRIP_IMMORTAL_BIT found, t)))))"

definition dvmLookupInternedString ::
  "(int \<Rightarrow> bool) \<Rightarrow> strings \<Rightarrow> HashTable \<Rightarrow> u8 \<Rightarrow> (u8 \<times> HashTable) outcome option" where
  "dvmLookupInternedString alloc_ok h t strObj = lookupInternedString alloc_ok h t strObj False"

definition dvmLookupImmortalInternedString ::
  "(int \<Rightarrow> bool) \<Rightarrow> strings \<Rightarrow> HashTable \<Rightarrow> u8 \<Rightarrow> (u8 \<times> HashTable) outcome option" where
  "dvmLookupImmortalInternedString alloc_ok h t strObj = lookupInternedString alloc_ok h t strObj True"

text \<open>The strings the collector marks, and the removal of the dead ones.\<close>

definition markStringObject :: "u8 \<Rightarrow> u8 list \<Rightarrow> int \<times> u8 list" where
  "markStringObject strObj marked =
     (0, if IS_IMMORTAL strObj then marked @ [STRIP_IMMORTAL_BIT strObj] else marked)"

definition dvmGcScanInternedStrings :: "HashTable option \<Rightarrow> u8 list" where
  "dvmGcScanInternedStrings internedStrings =
     (case internedStrings of None \<Rightarrow> [] | Some t \<Rightarrow> snd (dvmHashForeach t markStringObject []))"

definition dvmGcDetachDeadInternedStrings :: "(u8 \<Rightarrow> int) \<Rightarrow> HashTable option \<Rightarrow> HashTable option" where
  "dvmGcDetachDeadInternedStrings isUnmarkedObject internedStrings =
     map_option (\<lambda>t. snd (dvmHashForeachRemove t isUnmarkedObject)) internedStrings"

section \<open>The tag bit\<close>

lemma tag_bits:
  "bit (SET_IMMORTAL_BIT p) n \<longleftrightarrow> bit p n \<or> n = 0"
  "bit (STRIP_IMMORTAL_BIT p) n \<longleftrightarrow> bit p n \<and> n \<noteq> 0"
  "IS_IMMORTAL p \<longleftrightarrow> bit p 0"
  by (auto simp: SET_IMMORTAL_BIT_def STRIP_IMMORTAL_BIT_def IS_IMMORTAL_def bit_or_iff bit_and_iff bit_not_iff
      bit_1_iff and_one_eq odd_iff_mod_2_eq_one bit_0 dest: bit_imp_le_length)

lemma strip_set [simp]:
  "STRIP_IMMORTAL_BIT (SET_IMMORTAL_BIT p) = STRIP_IMMORTAL_BIT p"
  "STRIP_IMMORTAL_BIT (STRIP_IMMORTAL_BIT p) = STRIP_IMMORTAL_BIT p"
  "SET_IMMORTAL_BIT (STRIP_IMMORTAL_BIT p) = SET_IMMORTAL_BIT p"
  "IS_IMMORTAL (SET_IMMORTAL_BIT p)"
  "\<not> IS_IMMORTAL (STRIP_IMMORTAL_BIT p)"
  by (auto intro!: bit_eqI simp: tag_bits)

text \<open>An object pointer is aligned to eight bytes, so that the lowest bit is free; the tombstone is neither such a
  pointer nor one with the bit set.\<close>

definition object_ptr :: "u8 \<Rightarrow> bool" where
  "object_ptr p \<longleftrightarrow> p \<noteq> 0 \<and> p AND 7 = 0"

lemma object_ptr_strip: "object_ptr p \<Longrightarrow> STRIP_IMMORTAL_BIT p = p" "object_ptr p \<Longrightarrow> \<not> IS_IMMORTAL p"
proof -
  assume "object_ptr p"
  then have "\<not> bit (p AND 7) 0" by (simp add: object_ptr_def)
  then have "\<not> bit p 0" by (simp add: bit_and_iff bit_numeral_word_iff del: bit_0)
  then show "STRIP_IMMORTAL_BIT p = p" "\<not> IS_IMMORTAL p" by (auto intro!: bit_eqI simp: tag_bits) (metis gr0I)
qed

lemma tagged_storable:
  assumes "object_ptr (STRIP_IMMORTAL_BIT p)" shows "storable p"
proof -
  have "p \<noteq> NULL" using assms by (auto simp: object_ptr_def STRIP_IMMORTAL_BIT_def NULL_def)
  moreover have "p \<noteq> HASH_TOMBSTONE"
    using assms by (auto simp: object_ptr_def STRIP_IMMORTAL_BIT_def HASH_TOMBSTONE_def)
  ultimately show ?thesis by (simp add: storable_def)
qed

section \<open>The pool of interned strings\<close>

definition string_ptr :: "strings \<Rightarrow> u8 \<Rightarrow> bool" where
  "string_ptr h p \<longleftrightarrow> object_ptr p \<and> (\<exists>s. h p = Some s \<and> string_ok s)"

definition ptr_text :: "strings \<Rightarrow> u8 \<Rightarrow> u2 list" where
  "ptr_text h p = (case h (STRIP_IMMORTAL_BIT p) of None \<Rightarrow> [] | Some s \<Rightarrow> text_of s)"

definition intern_ok :: "strings \<Rightarrow> HashTable \<Rightarrow> bool" where
  "intern_ok h t \<longleftrightarrow> hash_wf t
     \<and> (\<forall>e\<in>#live t. string_ptr h (STRIP_IMMORTAL_BIT (data e)) \<and> hashValue e = dvmComputeUtf16Hash (ptr_text h (data e))
          \<and> (\<forall>e'\<in>#live t - {#e#}. ptr_text h (data e') \<noteq> ptr_text h (data e)))"

definition pool :: "strings \<Rightarrow> HashTable \<Rightarrow> (u2 list \<times> u8 \<times> bool) set" where
  "pool h t = (\<lambda>e. (ptr_text h (data e), STRIP_IMMORTAL_BIT (data e), IS_IMMORTAL (data e))) ` set_mset (live t)"

lemma ptr_text_tag [simp]: "ptr_text h (SET_IMMORTAL_BIT p) = ptr_text h p" "ptr_text h (STRIP_IMMORTAL_BIT p) = ptr_text h p"
  by (simp_all add: ptr_text_def)

lemma intern_cmp:
  assumes "string_ptr h (STRIP_IMMORTAL_BIT p)" and "string_ptr h (STRIP_IMMORTAL_BIT q)"
  shows "hashcmpImmortalStrings h p q = 0 \<longleftrightarrow> ptr_text h p = ptr_text h q"
proof -
  obtain s u where su: "h (STRIP_IMMORTAL_BIT p) = Some s" "string_ok s" "h (STRIP_IMMORTAL_BIT q) = Some u" "string_ok u"
    using assms by (auto simp: string_ptr_def)
  show ?thesis
    using hashcmp_spec [of h "STRIP_IMMORTAL_BIT p" s "STRIP_IMMORTAL_BIT q" u] su by (auto simp: hashcmpImmortalStrings_def ptr_text_def)
qed

lemma intern_hash: "string_ptr h p \<Longrightarrow> dvmComputeStringHash h p = Ret (dvmComputeUtf16Hash (ptr_text h p))"
  by (auto simp: string_ptr_def dvmComputeStringHash_def with_string_def string_data_ok ptr_text_def object_ptr_strip)

lemma intern_matches:
  assumes "intern_ok h t" and "e \<in># live t" and "string_ptr h (STRIP_IMMORTAL_BIT p)"
  shows "matches (hashcmpImmortalStrings h) (dvmComputeUtf16Hash (ptr_text h p)) p e
         \<longleftrightarrow> ptr_text h (data e) = ptr_text h p"
  using assms intern_cmp [of h "data e" p] by (auto simp: matches_def intern_ok_def)

lemma intern_unique:
  "intern_ok h t \<Longrightarrow> e \<in># live t \<Longrightarrow> e' \<in># live t \<Longrightarrow> ptr_text h (data e') = ptr_text h (data e) \<Longrightarrow> e' = e"
  by (metis intern_ok_def insert_DiffM insert_noteq_member)

text \<open>Making the entry of a text, or replacing it by one for the same string, keeps the table in order.\<close>

lemma mset_subset_eq_diff_single: "m \<subseteq># n \<Longrightarrow> m - {#d#} \<subseteq># n - {#d#}"
  by (auto simp: subseteq_mset_def intro: diff_le_mono)

lemma intern_ok_entry:
  assumes "hash_wf t'" and "live t' = add_mset e m" and "\<And>e'. e' \<in># m \<Longrightarrow> ptr_text h (data e') \<noteq> ptr_text h (data e)"
    and "string_ptr h (STRIP_IMMORTAL_BIT (data e))" and "hashValue e = dvmComputeUtf16Hash (ptr_text h (data e))"
    and "intern_ok h t" and "m \<subseteq># live t"
  shows "intern_ok h t'"
proof -
  have old: "string_ptr h (STRIP_IMMORTAL_BIT (data d)) \<and> hashValue d = dvmComputeUtf16Hash (ptr_text h (data d))"
    if "d \<in># m" for d
    using that assms(6,7) by (auto simp: intern_ok_def dest: mset_subset_eqD)
  have uniq: "ptr_text h (data d') \<noteq> ptr_text h (data d)" if "d \<in># m" "d' \<in># m - {#d#}" for d d'
  proof -
    have "d \<in># live t" "d' \<in># live t - {#d#}"
      using that assms(7) by (auto dest: mset_subset_eqD [OF mset_subset_eq_diff_single] mset_subset_eqD)
    then show ?thesis using assms(6) by (auto simp: intern_ok_def)
  qed
  have "ptr_text h (data d') \<noteq> ptr_text h (data d)" if "d \<in># live t'" "d' \<in># live t' - {#d#}" for d d'
  proof (cases "d = e")
    case True then show ?thesis using that assms(2,3) by auto
  next
    case False
    then have "d \<in># m" using that(1) assms(2) by auto
    moreover have "d' = e \<or> d' \<in># m - {#d#}" using that(2) assms(2) False by (auto simp: diff_add_mset_swap)
    ultimately show ?thesis using uniq assms(3) by metis
  qed
  then show ?thesis using assms(1,2,4,5) old by (auto simp: intern_ok_def)
qed

lemma pool_iff: "(w, p, imm) \<in> pool h t
    \<longleftrightarrow> (\<exists>e\<in>#live t. ptr_text h (data e) = w \<and> STRIP_IMMORTAL_BIT (data e) = p \<and> IS_IMMORTAL (data e) = imm)"
  by (auto simp: pool_def)

lemma pool_retag:
  assumes ok: "intern_ok h t" and e: "e \<in># live t"
    and l: "live t' = add_mset (e\<lparr>data := SET_IMMORTAL_BIT (data e)\<rparr>) (live t - {#e#})"
  shows "pool h t' = insert (ptr_text h (data e), STRIP_IMMORTAL_BIT (data e), True)
           (pool h t - {(ptr_text h (data e), STRIP_IMMORTAL_BIT (data e), IS_IMMORTAL (data e))})"
proof -
  let ?f = "\<lambda>e. (ptr_text h (data e), STRIP_IMMORTAL_BIT (data e), IS_IMMORTAL (data e))"
  let ?R = "?f ` set_mset (live t - {#e#})"
  have "pool h t = insert (?f e) ?R"
    unfolding pool_def by (subst insert_DiffM [OF e, symmetric]) simp
  moreover have "?f e \<notin> ?R"
  proof
    assume "?f e \<in> ?R"
    then obtain x where "x \<in># live t - {#e#}" "ptr_text h (data x) = ptr_text h (data e)" by auto
    with ok e show False by (simp add: intern_ok_def)
  qed
  moreover have "pool h t' = insert (ptr_text h (data e), STRIP_IMMORTAL_BIT (data e), True) ?R"
    by (simp add: pool_def l)
  ultimately show ?thesis by simp
qed

section \<open>Looking up\<close>

lemma lookup_intern_new:
  assumes ok: "intern_ok h t" and room: "has_room alloc_ok t" and p: "string_ptr h p"
    and new: "\<And>q imm. (ptr_text h p, q, imm) \<notin> pool h t"
  shows "\<exists>t'. lookupInternedString alloc_ok h t p immortal = Some (Ret (p, t')) \<and> intern_ok h t'
           \<and> pool h t' = insert (ptr_text h p, p, immortal) (pool h t)"
proof -
  define item where "item = (if immortal then SET_IMMORTAL_BIT p else p)"
  note ptr = p [unfolded string_ptr_def, THEN conjunct1]
  have item: "STRIP_IMMORTAL_BIT item = p" "IS_IMMORTAL item = immortal" "ptr_text h item = ptr_text h p"
    using object_ptr_strip [OF ptr] by (auto simp: item_def)
  then have st: "storable item" and pi: "string_ptr h (STRIP_IMMORTAL_BIT item)" using tagged_storable ptr p by auto
  let ?hv = "dvmComputeUtf16Hash (ptr_text h p)"
  have none: "\<not> (\<exists>e\<in>#live t. matches (hashcmpImmortalStrings h) ?hv item e)"
    using intern_matches [OF ok _ pi] new item(3) by (auto simp: pool_iff)
  have wf: "hash_wf t" using ok by (simp add: intern_ok_def)
  obtain t' where t': "dvmHashTableLookup alloc_ok (hashcmpImmortalStrings h) t ?hv item True = Some (Ret (item, t'))"
    "hash_wf t'" "live t' = add_mset \<lparr>hashValue = ?hv, data = item\<rparr> (live t)"
    using dvm_hash.find_miss [OF wf room st none] by auto
  have "intern_ok h t'"
    by (rule intern_ok_entry [OF t'(2,3) _ _ _ ok]) (use new item p in \<open>auto simp: pool_iff\<close>)
  moreover have "pool h t' = insert (ptr_text h p, p, immortal) (pool h t)"
    by (simp add: pool_def t'(3) item)
  moreover have "lookupInternedString alloc_ok h t p immortal = Some (Ret (p, t'))"
    using t'(1) item ptr by (simp add: lookupInternedString_def bind_run_def intern_hash [OF p] Let_def
        object_ptr_def flip: item_def)
  ultimately show ?thesis by blast
qed

text \<open>The detour through removing and adding sets the bit of an entry and changes nothing else.\<close>

lemma make_immortal:
  assumes ok: "intern_ok h t" and room: "has_room alloc_ok t" and e: "e \<in># live t"
  defines "new \<equiv> SET_IMMORTAL_BIT (data e)"
  shows "\<exists>t1 t2. dvmHashTableRemove t (hashValue e) (data e) = Some (Ret (True, t1))
     \<and> dvmHashTableLookup alloc_ok (hashcmpImmortalStrings h) t1 (hashValue e) new True = Some (Ret (new, t2))
     \<and> intern_ok h t2 \<and> live t2 = add_mset (e\<lparr>data := new\<rparr>) (live t - {#e#})"
proof -
  let ?cmp = "hashcmpImmortalStrings h"
  have wf: "hash_wf t" and pe: "string_ptr h (STRIP_IMMORTAL_BIT (data e))"
    and hv: "hashValue e = dvmComputeUtf16Hash (ptr_text h (data e))"
    using ok e by (auto simp: intern_ok_def)
  have eq: "\<lparr>hashValue = hashValue e, data = data e\<rparr> = e" "e\<lparr>data := new\<rparr> = \<lparr>hashValue = hashValue e, data = new\<rparr>"
    by (cases e; simp)+
  have others: "ptr_text h (data x) \<noteq> ptr_text h (data e)" if "x \<in># live t - {#e#}" for x
    using ok e that by (auto simp: intern_ok_def)
  have st: "storable (data e)" "storable new"
    using pe by (auto intro!: tagged_storable simp: string_ptr_def new_def)
  have one: "hashValue x = hashValue e" if "x \<in># live t" "data x = data e" for x
    using intern_unique [OF ok e that(1)] that(2) by simp
  have none: "\<not> (\<exists>x\<in>#live t - {#e#}. matches ?cmp (hashValue e) new x)"
  proof
    assume "\<exists>x\<in>#live t - {#e#}. matches ?cmp (hashValue e) new x"
    then obtain x where x: "x \<in># live t - {#e#}" "matches ?cmp (hashValue e) new x" by blast
    then show False
      using others [OF x(1)] intern_matches [OF ok in_diffD [OF x(1)], of new] pe hv by (simp add: new_def)
  qed
  obtain t1 t2 where t: "dvmHashTableRemove t (hashValue e) (data e) = Some (Ret (True, t1))"
    "dvmHashTableLookup alloc_ok ?cmp t1 (hashValue e) new True = Some (Ret (new, t2))"
    "hash_wf t2" "live t2 = add_mset (e\<lparr>data := new\<rparr>) (live t - {#e#})"
    using dvm_hash.replace_entry [OF wf room, of "hashValue e" "data e" new ?cmp] e st one none unfolding eq by blast
  have "intern_ok h t2"
    by (rule intern_ok_entry [OF t(3,4) _ _ _ ok]) (use others pe hv in \<open>auto simp: new_def\<close>)
  with t show ?thesis by blast
qed

lemma lookup_intern_old:
  assumes ok: "intern_ok h t" and room: "has_room alloc_ok t" and p: "string_ptr h p"
    and old: "(ptr_text h p, q, imm) \<in> pool h t"
  shows "\<exists>t'. lookupInternedString alloc_ok h t p immortal = Some (Ret (q, t')) \<and> intern_ok h t'
           \<and> pool h t' = insert (ptr_text h p, q, imm \<or> immortal) (pool h t - {(ptr_text h p, q, imm)})"
proof -
  define item where "item = (if immortal then SET_IMMORTAL_BIT p else p)"
  note ptr = p [unfolded string_ptr_def, THEN conjunct1]
  have item: "STRIP_IMMORTAL_BIT item = p" "ptr_text h item = ptr_text h p"
    using object_ptr_strip [OF ptr] by (auto simp: item_def)
  then have st: "storable item" and pi: "string_ptr h (STRIP_IMMORTAL_BIT item)" using tagged_storable ptr p by auto
  let ?hv = "dvmComputeUtf16Hash (ptr_text h p)" and ?cmp = "hashcmpImmortalStrings h"
  obtain e where e: "e \<in># live t" "ptr_text h (data e) = ptr_text h p" "STRIP_IMMORTAL_BIT (data e) = q"
    "IS_IMMORTAL (data e) = imm" using old by (auto simp: pool_iff)
  have wf: "hash_wf t" and hv: "hashValue e = ?hv" using ok e(1,2) by (auto simp: intern_ok_def)
  have "\<exists>e\<in>#live t. matches ?cmp ?hv item e" using intern_matches [OF ok e(1) pi] e item by auto
  from dvm_hash.find_hit [OF wf st this]
  obtain d where d: "d \<in># live t" "matches ?cmp ?hv item d"
    "dvmHashTableLookup alloc_ok ?cmp t ?hv item True = Some (Ret (data d, t))" by blast
  then have "d = e" using intern_unique [OF ok e(1) d(1)] intern_matches [OF ok d(1) pi] e(2) item(2) by auto
  with d(3) have find: "dvmHashTableLookup alloc_ok ?cmp t ?hv item True = Some (Ret (data e, t))" by simp
  have run: "lookupInternedString alloc_ok h t p immortal =
     (if immortal \<and> \<not> imm then
          bind_run (dvmHashTableRemove t ?hv (data e)) (\<lambda>(_, t).
          bind_run (dvmHashTableLookup alloc_ok ?cmp t ?hv (SET_IMMORTAL_BIT (data e)) True) (\<lambda>(found, t).
          if \<not> IS_IMMORTAL found then Some AbortVM else Some (Ret (STRIP_IMMORTAL_BIT found, t))))
        else Some (Ret (q, t)))"
    using find ptr e(3,4) by (simp add: lookupInternedString_def bind_run_def intern_hash [OF p] Let_def
        object_ptr_def flip: item_def)
  show ?thesis
  proof (cases "immortal \<and> \<not> imm")
    case False
    then have "pool h t = insert (ptr_text h p, q, imm \<or> immortal) (pool h t - {(ptr_text h p, q, imm)})"
      using old by (auto simp: insert_absorb)
    with False show ?thesis using run ok by auto
  next
    case True
    obtain t1 t2 where t: "dvmHashTableRemove t ?hv (data e) = Some (Ret (True, t1))"
      "dvmHashTableLookup alloc_ok ?cmp t1 ?hv (SET_IMMORTAL_BIT (data e)) True = Some (Ret (SET_IMMORTAL_BIT (data e), t2))"
      "intern_ok h t2" "live t2 = add_mset (e\<lparr>data := SET_IMMORTAL_BIT (data e)\<rparr>) (live t - {#e#})"
      using make_immortal [OF ok room e(1)] unfolding hv by blast
    have "lookupInternedString alloc_ok h t p immortal = Some (Ret (q, t2))"
      using run True t(1,2) e(3) by (simp add: bind_run_def)
    moreover have "pool h t2 = insert (ptr_text h p, q, imm \<or> immortal) (pool h t - {(ptr_text h p, q, imm)})"
      using pool_retag [OF ok e(1) t(4)] e True by simp
    ultimately show ?thesis using t(3) by blast
  qed
qed

section \<open>The collector\<close>

lemma mark_entries:
  "foreach_entries markStringObject es ms
   = (0, ms @ map STRIP_IMMORTAL_BIT (filter IS_IMMORTAL (map data (filter is_live es))))"
  by (induction es arbitrary: ms) (auto simp: markStringObject_def is_live_def)

lemma scan_marks: "set (dvmGcScanInternedStrings (Some t)) = {p. \<exists>w. (w, p, True) \<in> pool h t}"
  by (force simp: dvmGcScanInternedStrings_def dvmHashForeach_def mark_entries pool_def live_def live_entries_def)

lemma detach_pool:
  assumes ok: "intern_ok h t" and f: "\<And>p. isUnmarkedObject p \<in> {0, 1}"
    and strip: "\<And>p. isUnmarkedObject p = isUnmarkedObject (STRIP_IMMORTAL_BIT p)"
  shows "\<exists>t'. dvmGcDetachDeadInternedStrings isUnmarkedObject (Some t) = Some t' \<and> intern_ok h t'
           \<and> pool h t' = {(w, p, imm) \<in> pool h t. isUnmarkedObject p = 0}"
proof -
  obtain r t' where t': "dvmHashForeachRemove t isUnmarkedObject = (r, t')" by fastforce
  have wf: "hash_wf t'" and l: "live t' = filter_mset (\<lambda>e. isUnmarkedObject (data e) = 0) (live t)"
    using foreachRemove_wf [OF _ t'] ok f by (auto simp: intern_ok_def)
  have "intern_ok h t'"
  proof -
    have "e' \<in># live t - {#e#}" if "e' \<in># live t' - {#e#}" for e e'
      using that mset_subset_eq_diff_single [of "live t'" "live t" e] l by (auto dest: mset_subset_eqD)
    then show ?thesis using ok wf l by (auto simp: intern_ok_def)
  qed
  moreover have "pool h t' = {(w, p, imm) \<in> pool h t. isUnmarkedObject p = 0}"
    using strip by (fastforce simp: pool_def l)
  ultimately show ?thesis using t' by (simp add: dvmGcDetachDeadInternedStrings_def)
qed

section \<open>Properties\<close>

text \<open>C19 Interning is canonical. On a table of well-formed strings, one per text, \<open>lookupInternedString\<close> returns. If the
  text of the argument is in the pool the pointer of the pool is returned, and the entry is made immortal if that
  was asked for, keeping the pointer; otherwise the argument itself is added and returned, immortal or not as asked. Nothing
  else in the pool changes, and the table is again one of well-formed strings with one entry per text.\<close>

theorem intern_canonical:
  assumes "intern_ok h t" and "has_room alloc_ok t" and "string_ptr h p"
  shows "\<exists>q t'. lookupInternedString alloc_ok h t p immortal = Some (Ret (q, t')) \<and> intern_ok h t'
           \<and> (if \<exists>q imm. (ptr_text h p, q, imm) \<in> pool h t
              then \<exists>imm. (ptr_text h p, q, imm) \<in> pool h t
                \<and> pool h t' = insert (ptr_text h p, q, imm \<or> immortal) (pool h t - {(ptr_text h p, q, imm)})
              else q = p \<and> pool h t' = insert (ptr_text h p, p, immortal) (pool h t))"
proof (cases "\<exists>q imm. (ptr_text h p, q, imm) \<in> pool h t")
  case True
  then show ?thesis using lookup_intern_old [OF assms] by (metis (no_types, lifting))
next
  case False
  then show ?thesis using lookup_intern_new [OF assms, of immortal] by auto
qed

definition sample_strings :: strings where
  "sample_strings = [0x10 \<mapsto> \<lparr>chars = [0x61, 0x62], str_offset = 1, str_count = 1\<rparr>,
                     0x20 \<mapsto> \<lparr>chars = [0x62], str_offset = 0, str_count = 1\<rparr>]"

lemma sample_intern_ok: "intern_ok sample_strings sample_table" "has_room (\<lambda>_. True) sample_table"
  "pool sample_strings sample_table = {}" "string_ptr sample_strings 0x10" "string_ptr sample_strings 0x20"
  "ptr_text sample_strings 0x10 = [0x62]" "ptr_text sample_strings 0x20 = [0x62]"
  using sample_table_wf
  by (simp_all add: intern_ok_def pool_def has_room_def sample_table_def live_def string_ptr_def object_ptr_def
      sample_strings_def string_ok_def ptr_text_def STRIP_IMMORTAL_BIT_def text_of_def)

theorem intern_canonical_witness:
  "\<exists>t'. lookupInternedString (\<lambda>_. True) sample_strings sample_table 0x10 True = Some (Ret (0x10, t'))
     \<and> pool sample_strings t' = {([0x62], 0x10, True)}"
  using intern_canonical [OF sample_intern_ok(1,2,4), of True] by (auto simp: sample_intern_ok(3,6))

text \<open>C38 An immortal string survives every collection. After \<open>dvmLookupImmortalInternedString\<close> has returned a pointer, a
  collection that scans the pool, and then detaches the strings for which the collector's callback says
  \<open>1\<close>, not one of the scanned ones, leaves the string in the pool: a lookup of the same text through any
  other object, with or without the immortal bit, still returns that pointer.\<close>

theorem immortal_survives_gc:
  assumes "intern_ok h t" and "has_room alloc_ok t" and "string_ptr h p"
    and "\<And>x. isUnmarkedObject x \<in> {0, 1}" and "\<And>x. isUnmarkedObject x = isUnmarkedObject (STRIP_IMMORTAL_BIT x)"
    and marked: "\<And>t1 q x. dvmLookupImmortalInternedString alloc_ok h t p = Some (Ret (q, t1))
                   \<Longrightarrow> x \<in> set (dvmGcScanInternedStrings (Some t1)) \<Longrightarrow> isUnmarkedObject x = 0"
    and "string_ptr h p'" and "ptr_text h p' = ptr_text h p"
  shows "\<exists>q t1 t2. dvmLookupImmortalInternedString alloc_ok h t p = Some (Ret (q, t1))
           \<and> dvmGcDetachDeadInternedStrings isUnmarkedObject (Some t1) = Some t2 \<and> intern_ok h t2
           \<and> (has_room alloc_ok t2
              \<longrightarrow> (\<exists>t3. lookupInternedString alloc_ok h t2 p' immortal = Some (Ret (q, t3)) \<and> pool h t3 = pool h t2))"
proof -
  have "\<exists>q t1. lookupInternedString alloc_ok h t p True = Some (Ret (q, t1)) \<and> intern_ok h t1
           \<and> (ptr_text h p, q, True) \<in> pool h t1"
  proof (cases "\<exists>q imm. (ptr_text h p, q, imm) \<in> pool h t")
    case True
    then obtain q imm where "(ptr_text h p, q, imm) \<in> pool h t" by blast
    from lookup_intern_old [OF assms(1-3) this, of True] show ?thesis by auto
  next
    case False
    then show ?thesis using lookup_intern_new [OF assms(1-3), of True] by auto
  qed
  then obtain q t1 where q: "dvmLookupImmortalInternedString alloc_ok h t p = Some (Ret (q, t1))" "intern_ok h t1"
    "(ptr_text h p, q, True) \<in> pool h t1" by (auto simp: dvmLookupImmortalInternedString_def)
  obtain t2 where t2: "dvmGcDetachDeadInternedStrings isUnmarkedObject (Some t1) = Some t2" "intern_ok h t2"
    "pool h t2 = {(w, p, imm) \<in> pool h t1. isUnmarkedObject p = 0}"
    using detach_pool [where isUnmarkedObject = isUnmarkedObject, OF q(2) assms(4,5)] by blast
  have "q \<in> set (dvmGcScanInternedStrings (Some t1))" using q(3) scan_marks by blast
  then have "(ptr_text h p', q, True) \<in> pool h t2" using marked [OF q(1)] q(3) t2(3) assms(8) by auto
  then show ?thesis
    using lookup_intern_old [OF t2(2) _ assms(7), of alloc_ok q True immortal] q(1) t2(1,2)
    by (metis (no_types, opaque_lifting) insert_Diff)
qed

theorem immortal_survives_gc_witness:
  "\<exists>q t1 t2. dvmLookupImmortalInternedString (\<lambda>_. True) sample_strings sample_table 0x10 = Some (Ret (q, t1))
     \<and> dvmGcDetachDeadInternedStrings (\<lambda>_. 0) (Some t1) = Some t2
     \<and> (has_room (\<lambda>_. True) t2
        \<longrightarrow> (\<exists>t3. lookupInternedString (\<lambda>_. True) sample_strings t2 0x20 False = Some (Ret (q, t3))))"
  using immortal_survives_gc [OF sample_intern_ok(1,2,4), of "\<lambda>_. 0" "0x20" False] sample_intern_ok(5-7)
  by fastforce

end
