(* ===== verification/AccessCheck.thy ===== *)
theory AccessCheck
  imports TypeCheck
begin

text \<open>
  The access checks of \<^verbatim>\<open>src/vm/oo/AccessCheck.c\<close>: the run-time package of a class, and whether a class may use another class, a
  method or a field. The fields of the classes that decide the package are read through a view, so that the checks apply to the class
  tables of the type checks and of the linker.
\<close>

section \<open>Packages\<close>

record package_view =
  view_descriptor :: "u8 \<Rightarrow> string option"
  view_classLoader :: "u8 \<Rightarrow> u8"
  view_elementClass :: "u8 \<Rightarrow> u8"

text \<open>The number of leading characters two C strings share.\<close>

fun strcmpCount :: "string \<Rightarrow> string \<Rightarrow> nat" where
  "strcmpCount [] str2 = 0"
| "strcmpCount (ch # str1) [] = 0"
| "strcmpCount (ch # str1) (c # str2) = (if ch \<noteq> c then 0 else Suc (strcmpCount str1 str2))"

definition strchr :: "string \<Rightarrow> char \<Rightarrow> bool" where
  "strchr str c \<longleftrightarrow> c \<in> set str"

definition same_names :: "string \<Rightarrow> string \<Rightarrow> bool" where
  "same_names d1 d2 =
     (let commonLen = strcmpCount d1 d2
      in \<not> (strchr (drop commonLen d1) (CHR ''/'') \<or> strchr (drop commonLen d2) (CHR ''/'')))"

definition array_name :: "string \<Rightarrow> bool" where
  "array_name d \<longleftrightarrow> (case d of [] \<Rightarrow> False | c # _ \<Rightarrow> c = CHR ''['')"

definition dvmInSamePackage :: "package_view \<Rightarrow> u8 \<Rightarrow> u8 \<Rightarrow> bool outcome" where
  "dvmInSamePackage v class1 class2 =
     (if class1 = class2 then Ret True
      else if view_classLoader v class1 \<noteq> view_classLoader v class2 then Ret False
      else case (view_descriptor v class1, view_descriptor v class2) of
        (Some d1, Some d2) \<Rightarrow>
          (let class1 = (if array_name d1 then view_elementClass v class1 else class1);
               class2 = (if array_name d2 then view_elementClass v class2 else class2)
           in if class1 = class2 then Ret True
              else case (view_descriptor v class1, view_descriptor v class2) of
                (Some d1, Some d2) \<Rightarrow> Ret (same_names d1 d2)
              | _ \<Rightarrow> OutOfBounds)
      | _ \<Rightarrow> OutOfBounds)"

section \<open>Access\<close>

definition ACC_PUBLIC :: u4 where "ACC_PUBLIC = 0x1"
definition ACC_PRIVATE :: u4 where "ACC_PRIVATE = 0x2"
definition ACC_PROTECTED :: u4 where "ACC_PROTECTED = 0x4"

definition dvmCheckClassAccess :: "package_view \<Rightarrow> u8 \<Rightarrow> u8 \<Rightarrow> u4 \<Rightarrow> bool outcome" where
  "dvmCheckClassAccess v accessFrom clazz flags =
     (if flags AND ACC_PUBLIC \<noteq> 0 then Ret True else dvmInSamePackage v accessFrom clazz)"

text \<open>The class table with the class loader of each class.\<close>

definition table_view :: "class_table \<Rightarrow> (u8 \<Rightarrow> u8) \<Rightarrow> package_view" where
  "table_view ct loader =
     \<lparr>view_descriptor = (\<lambda>p. map_option descriptor (ct p)), view_classLoader = loader,
      view_elementClass = (\<lambda>p. case ct p of None \<Rightarrow> 0 | Some c \<Rightarrow> elementClass c)\<rparr>"

text \<open>The flags are those of a method or field that \<open>accessTo\<close> declares; the C \<open>if\<close> for protected members falls through to the package.\<close>

definition checkAccess :: "class_table \<Rightarrow> (u8 \<Rightarrow> u8) \<Rightarrow> u8 \<Rightarrow> u8 \<Rightarrow> u4 \<Rightarrow> bool outcome option" where
  "checkAccess ct loader accessFrom accessTo flags =
     (if flags AND ACC_PUBLIC \<noteq> 0 then Some (Ret True)
      else if accessFrom = accessTo then Some (Ret True)
      else if flags AND ACC_PRIVATE \<noteq> 0 then Some (Ret False)
      else
        let package = dvmInSamePackage (table_view ct loader) accessFrom accessTo
        in if flags AND ACC_PROTECTED \<noteq> 0
           then map_option (\<lambda>r. bind_out r (\<lambda>sub. if sub then Ret True else package)) (dvmIsSubClass ct accessFrom accessTo)
           else Some package)"

definition dvmCheckMethodAccess :: "class_table \<Rightarrow> (u8 \<Rightarrow> u8) \<Rightarrow> u8 \<Rightarrow> u8 \<times> u4 \<Rightarrow> bool outcome option" where
  "dvmCheckMethodAccess ct loader accessFrom method = checkAccess ct loader accessFrom (fst method) (snd method)"

definition dvmCheckFieldAccess :: "class_table \<Rightarrow> (u8 \<Rightarrow> u8) \<Rightarrow> u8 \<Rightarrow> u8 \<times> u4 \<Rightarrow> bool outcome option" where
  "dvmCheckFieldAccess ct loader accessFrom field = checkAccess ct loader accessFrom (fst field) (snd field)"

section \<open>The package of a descriptor\<close>

text \<open>The text up to and with the last slash.\<close>

definition package_of :: "string \<Rightarrow> string" where
  "package_of d = rev (dropWhile (\<lambda>c. c \<noteq> CHR ''/'') (rev d))"

lemma package_of_append: "CHR ''/'' \<notin> set w \<Longrightarrow> package_of (d @ w) = package_of d"
  unfolding package_of_def by (subst rev_append, subst dropWhile_append2) auto

lemma package_split: obtains w where "d = package_of d @ w" "CHR ''/'' \<notin> set w"
proof
  let ?P = "\<lambda>c. c \<noteq> CHR ''/''"
  have "rev d = takeWhile ?P (rev d) @ dropWhile ?P (rev d)" by simp
  from arg_cong [OF this, of rev] show "d = package_of d @ rev (takeWhile ?P (rev d))"
    by (simp add: package_of_def flip: rev_append)
  show "CHR ''/'' \<notin> set (rev (takeWhile ?P (rev d)))" using set_takeWhileD [of _ ?P "rev d"] by auto
qed

lemma strcmpCount_take: "take (strcmpCount a b) a = take (strcmpCount a b) b"
  by (induction a b rule: strcmpCount.induct) auto

lemma strcmpCount_append: "strcmpCount (p @ a) (p @ b) = length p + strcmpCount a b"
  by (induction p) auto

lemma same_names_iff: "same_names d1 d2 \<longleftrightarrow> package_of d1 = package_of d2"
proof
  let ?n = "strcmpCount d1 d2"
  assume "same_names d1 d2"
  then have "CHR ''/'' \<notin> set (drop ?n d1)" "CHR ''/'' \<notin> set (drop ?n d2)" by (simp_all add: same_names_def strchr_def Let_def)
  from this [THEN package_of_append] have "package_of (take ?n d1 @ drop ?n d1) = package_of (take ?n d1)"
    "package_of (take ?n d2 @ drop ?n d2) = package_of (take ?n d2)" by blast+
  then show "package_of d1 = package_of d2" unfolding append_take_drop_id using strcmpCount_take [of d1 d2] by simp
next
  assume eq: "package_of d1 = package_of d2"
  obtain v w where "d1 = package_of d1 @ v" "CHR ''/'' \<notin> set v" "d2 = package_of d2 @ w" "CHR ''/'' \<notin> set w"
    using package_split [of d1] package_split [of d2] by metis
  with eq obtain p where "d1 = p @ v" "d2 = p @ w" and free: "CHR ''/'' \<notin> set v" "CHR ''/'' \<notin> set w" by metis
  then have "drop (strcmpCount d1 d2) d1 = drop (strcmpCount v w) v" "drop (strcmpCount d1 d2) d2 = drop (strcmpCount v w) w"
    by (simp_all add: strcmpCount_append)
  with free show "same_names d1 d2" by (auto simp: same_names_def strchr_def dest: in_set_dropD)
qed

section \<open>What is accessible\<close>

text \<open>The class whose name decides the package: for an array its element class.\<close>

definition named_class :: "class_table \<Rightarrow> u8 \<Rightarrow> u8" where
  "named_class ct p = (case ct p of None \<Rightarrow> p | Some c \<Rightarrow> if dvmIsArrayClass c then elementClass c else p)"

definition runtime_package :: "class_table \<Rightarrow> (u8 \<Rightarrow> u8) \<Rightarrow> u8 \<Rightarrow> u8 \<times> string" where
  "runtime_package ct loader p = (loader p, case ct (named_class ct p) of None \<Rightarrow> [] | Some c \<Rightarrow> package_of (descriptor c))"

lemma same_package_spec:
  assumes "loaded_ok ct obj ifs" and "p \<in> dom ct" and "q \<in> dom ct"
  shows "dvmInSamePackage (table_view ct loader) p q = Ret (runtime_package ct loader p = runtime_package ct loader q)"
proof -
  have array: "array_name (descriptor c) = dvmIsArrayClass c" for c by (simp add: array_name_def dvmIsArrayClass_def)
  have dom: "\<exists>c. ct (named_class ct r) = Some c" if r: "r \<in> dom ct" for r
  proof -
    from r obtain c where c: "ct r = Some c" by auto
    then show ?thesis using loaded_array [OF assms(1) c] by (auto simp: named_class_def plain_def)
  qed
  obtain c d where c: "ct p = Some c" "ct (named_class ct p) = Some d" using assms(2) dom by blast
  obtain c' d' where c': "ct q = Some c'" "ct (named_class ct q) = Some d'" using assms(3) dom by blast
  have nc: "named_class ct p = (if dvmIsArrayClass c then elementClass c else p)" "named_class ct q = (if dvmIsArrayClass c' then elementClass c' else q)"
    using c(1) c'(1) by (simp_all add: named_class_def)
  have view: "dvmInSamePackage (table_view ct loader) p q = (if p = q then Ret True else if loader p \<noteq> loader q then Ret False
      else if named_class ct p = named_class ct q then Ret True else Ret (same_names (descriptor d) (descriptor d')))"
    using c(1) c(2) [unfolded nc] c'(1) c'(2) [unfolded nc]
    by (cases "dvmIsArrayClass c"; cases "dvmIsArrayClass c'") (simp_all add: dvmInSamePackage_def table_view_def array Let_def nc)
  have "named_class ct p = named_class ct q \<Longrightarrow> d = d'" using c c' by simp
  then show ?thesis using c(2) c'(2) unfolding view by (auto simp: runtime_package_def same_names_iff)
qed

text \<open>
C0 (access control). On loaded classes the check of a member access returns, and it grants exactly what the Java language grants:
a public member to all, every member to its own class, a private member to nobody else, a protected member to the subclasses and, like a
member without a modifier, to the classes of the same run-time package. The run-time package is the class loader together with the
text of the class name up to the last slash, for an array that of its element class, although the code compares the names only beyond their
longest common prefix.
\<close>

theorem access_rules:
  assumes "loaded_ok ct obj ifs" and "from \<in> dom ct" and "to \<in> dom ct"
  shows "checkAccess ct loader from to flags = Some (Ret (
    flags AND ACC_PUBLIC \<noteq> 0 \<or> from = to \<or>
    flags AND ACC_PRIVATE = 0 \<and>
      (flags AND ACC_PROTECTED \<noteq> 0 \<and> (from, to) \<in> (supers ct)\<^sup>* \<or> runtime_package ct loader from = runtime_package ct loader to)))"
proof -
  have "dvmIsSubClass ct from to = Some (Ret ((from, to) \<in> (supers ct)\<^sup>*))"
    using supers_closed [OF assms(1)] by (intro subclass_spec loaded_wf [OF assms(1)] assms(2)) (auto simp: plain_def)
  then show ?thesis using same_package_spec [OF assms] by (auto simp: checkAccess_def Let_def)
qed

theorem access_rules_witness:
  "checkAccess example_classes (\<lambda>_. 0) 64 48 4 = Some (Ret True) \<and> checkAccess example_classes (\<lambda>_. 0) 64 48 2 = Some (Ret False)
   \<and> checkAccess example_classes id 48 64 4 = Some (Ret False)"
proof -
  have dom: "48 \<in> dom example_classes" "64 \<in> dom example_classes" by (simp_all add: example_addresses)
  have sup: "(64, 48) \<in> supers example_classes" by (simp add: supers_def example_simps)
  have "runtime_package example_classes (\<lambda>_. 0) 64 = runtime_package example_classes (\<lambda>_. 0) 48"
    by (simp add: runtime_package_def named_class_def example_simps package_of_def)
  then have "checkAccess example_classes (\<lambda>_. 0) 64 48 4 = Some (Ret True)" "checkAccess example_classes (\<lambda>_. 0) 64 48 2 = Some (Ret False)"
    using access_rules [OF example_loaded dom(2,1), of "\<lambda>_. 0"] by (simp_all add: ACC_PUBLIC_def ACC_PRIVATE_def ACC_PROTECTED_def)
  moreover have "(48, 64) \<notin> (supers example_classes)\<^sup>*"
  proof
    assume "(48, 64) \<in> (supers example_classes)\<^sup>*"
    then obtain q where "(q, 64) \<in> supers example_classes" by (auto elim: rtranclE)
    then show False by (auto simp: supers_def example_simps split: if_splits)
  qed
  then have "checkAccess example_classes id 48 64 4 = Some (Ret False)"
    using access_rules [OF example_loaded dom, of id 4] by (simp add: ACC_PUBLIC_def ACC_PRIVATE_def runtime_package_def)
  ultimately show ?thesis by simp
qed

end
