(* ===== verification/FieldLayout.thy ===== *)
theory FieldLayout
  imports Prelude "HOL-Library.Multiset"
begin

text \<open>
  The layout of the instance fields of a class, \<open>computeFieldOffsets\<close> of \<^verbatim>\<open>src/vm/oo/Class.c\<close>: reference fields first, in 8 bytes
  each, then the fields of 8 bytes, aligned with the help of one 4-byte field or a pad, then the fields of 4 bytes. The fields are moved by
  swapping, as in quicksort. The C \<open>int\<close> offsets are unbounded here; the last conjunct of \<open>layout_ok\<close> bounds them by the number of fields.
\<close>

section \<open>Model\<close>

record InstField =
  field_name :: string
  signature :: string
  byteOffset :: int

definition sig0 :: "InstField \<Rightarrow> char" where
  "sig0 f = (case signature f of [] \<Rightarrow> CHR 0x00 | c # _ \<Rightarrow> c)"

definition is_ref :: "InstField \<Rightarrow> bool" where
  "is_ref f \<longleftrightarrow> sig0 f = CHR ''['' \<or> sig0 f = CHR ''L''"

definition is_wide :: "InstField \<Rightarrow> bool" where
  "is_wide f \<longleftrightarrow> sig0 f = CHR ''D'' \<or> sig0 f = CHR ''J''"

definition swapField :: "InstField list \<Rightarrow> nat \<Rightarrow> nat \<Rightarrow> InstField list" where
  "swapField fs i j = fs[i := fs ! j, j := fs ! i]"

definition set_offset :: "InstField list \<Rightarrow> nat \<Rightarrow> int \<Rightarrow> InstField list" where
  "set_offset fs i off = fs[i := (fs ! i)\<lparr>byteOffset := off\<rparr>]"

text \<open>
  The inner loop: \<open>j\<close> goes down to \<open>i\<close> in search of a field with \<open>P\<close>; the result is the index of the field and the value of \<open>j\<close> afterwards.
\<close>

fun scan_back :: "(InstField \<Rightarrow> bool) \<Rightarrow> InstField list \<Rightarrow> nat \<Rightarrow> nat \<Rightarrow> nat option \<times> nat" where
  "scan_back P fs i 0 = (None, 0)"
| "scan_back P fs i (Suc j) = (if Suc j > i then (if P (fs ! Suc j) then (Some (Suc j), j) else scan_back P fs i j) else (None, Suc j))"

text \<open>The first loop, over the reference fields; \<open>n\<close> bounds the iterations left.\<close>

fun ref_loop :: "nat \<Rightarrow> InstField list \<Rightarrow> nat \<Rightarrow> nat \<Rightarrow> int \<Rightarrow> nat \<Rightarrow> InstField list \<times> nat \<times> int \<times> nat" where
  "ref_loop 0 fs i j off rc = (fs, i, off, rc)"
| "ref_loop (Suc n) fs i j off rc =
     (if is_ref (fs ! i) then ref_loop n (set_offset fs i off) (i + 1) j (off + 8) (rc + 1)
      else case scan_back is_ref fs i j of
          (Some k, j') \<Rightarrow> ref_loop n (set_offset (swapField fs i k) i off) (i + 1) j' (off + 8) (rc + 1)
        | (None, j') \<Rightarrow> (fs, i, off, rc))"

text \<open>Between the loops: one 4-byte field or a pad when the offset is not aligned.\<close>

definition align_step :: "InstField list \<Rightarrow> nat \<Rightarrow> int \<Rightarrow> InstField list \<times> nat \<times> int" where
  "align_step fs i off =
     (if i \<noteq> length fs \<and> off mod 8 \<ge> 4 then
        if \<not> is_wide (fs ! i) then (set_offset fs i off, i + 1, off + 4)
        else (case scan_back (\<lambda>f. \<not> is_wide f) fs i (length fs - 1) of
            (Some k, _) \<Rightarrow> (set_offset (swapField fs i k) i off, i + 1, off + 4)
          | (None, _) \<Rightarrow> (fs, i, off + 4))
      else (fs, i, off))"

text \<open>The last loop: the 8-byte fields are moved forward.\<close>

fun wide_loop :: "nat \<Rightarrow> InstField list \<Rightarrow> nat \<Rightarrow> nat \<Rightarrow> int \<Rightarrow> InstField list \<times> int" where
  "wide_loop 0 fs i j off = (fs, off)"
| "wide_loop (Suc n) fs i j off =
     (if is_wide (fs ! i) then wide_loop n (set_offset fs i off) (i + 1) j (off + 8)
      else case scan_back is_wide fs i j of
          (Some k, j') \<Rightarrow> wide_loop n (set_offset (swapField fs i k) i off) (i + 1) j' (off + 8)
        | (None, j') \<Rightarrow> wide_loop n (set_offset fs i off) (i + 1) j' (off + 4))"

text \<open>The assertions at the end: \<open>seen\<close> tells whether a field that is no reference has been met.\<close>

fun check_layout :: "InstField list \<Rightarrow> nat \<Rightarrow> nat \<Rightarrow> bool \<Rightarrow> bool" where
  "check_layout [] i rc seen = (seen \<or> rc = i)"
| "check_layout (f # fs) i rc seen =
     ((is_wide f \<longrightarrow> byteOffset f mod 8 = 0) \<and>
      (if is_ref f then \<not> seen \<and> check_layout fs (i + 1) rc seen
       else (seen \<or> i = rc) \<and> check_layout fs (i + 1) rc True))"

text \<open>
  The fields in their new order, the number of reference fields and the size of the object; \<open>base\<close> is the \<open>objectSize\<close> of the superclass or,
  without one, the offset of \<open>instanceData\<close>, and \<open>room\<close> the end of the C struct that the fields of \<open>java.lang.Class\<close> lie in, for that
  class only. Each \<open>assert\<close> is a branch that aborts.
\<close>

definition computeFieldOffsets :: "int option \<Rightarrow> int \<Rightarrow> InstField list \<Rightarrow> (InstField list \<times> nat \<times> int) outcome" where
  "computeFieldOffsets room base ifields =
     (let (fs, i, off, rc) = ref_loop (length ifields) ifields 0 (length ifields - 1) base 0
      in if i \<noteq> length fs \<and> off mod 8 \<ge> 4 \<and> is_ref (fs ! i) then AbortVM
         else
           let (fs, i, off) = align_step fs i off
           in if \<not> (i = length fs \<or> off mod 8 < 4) then AbortVM
              else
                let (fs, off) = wide_loop (length fs - i) fs i (length fs - 1) off
                in if \<not> check_layout fs 0 rc False then AbortVM
                   else if \<not> (case room of None \<Rightarrow> True | Some r \<Rightarrow> off < r) then AbortVM
                   else Ret (fs, rc, off))"


section \<open>Moving fields\<close>

definition width :: "InstField \<Rightarrow> int" where
  "width f = (if is_ref f \<or> is_wide f then 8 else 4)"

definition field_key :: "InstField \<Rightarrow> string \<times> string" where
  "field_key f = (field_name f, signature f)"

lemma offset_keeps [simp]:
  "is_ref (f\<lparr>byteOffset := off\<rparr>) = is_ref f" "is_wide (f\<lparr>byteOffset := off\<rparr>) = is_wide f" "width (f\<lparr>byteOffset := off\<rparr>) = width f"
  "field_key (f\<lparr>byteOffset := off\<rparr>) = field_key f"
  by (simp_all add: is_ref_def is_wide_def width_def sig0_def field_key_def)

lemma ref_not_wide: "is_ref f \<Longrightarrow> \<not> is_wide f" by (auto simp: is_ref_def is_wide_def)

lemma scan_back_some:
  "scan_back P fs i j = (Some k, j') \<Longrightarrow> i < k \<and> k \<le> j \<and> P (fs ! k) \<and> j' = k - 1 \<and> (\<forall>m. k < m \<and> m \<le> j \<longrightarrow> \<not> P (fs ! m))"
  by (induction P fs i j rule: scan_back.induct) (auto split: if_splits simp: le_Suc_eq)

lemma scan_back_none:
  "scan_back P fs i j = (None, j') \<Longrightarrow> j' = min i j \<and> (\<forall>m. i < m \<and> m \<le> j \<longrightarrow> \<not> P (fs ! m))"
  by (induction P fs i j rule: scan_back.induct) (auto split: if_splits simp: le_Suc_eq)

text \<open>The field at \<open>i\<close> becomes the one that was at \<open>k\<close>, with an offset.\<close>

definition place :: "InstField list \<Rightarrow> nat \<Rightarrow> nat \<Rightarrow> int \<Rightarrow> InstField list" where
  "place fs i k off = set_offset (swapField fs i k) i off"

lemma place_facts:
  assumes "i < length fs" and "k < length fs"
  shows "length (place fs i k off) = length fs" "mset (map field_key (place fs i k off)) = mset (map field_key fs)"
    "place fs i k off ! i = (fs ! k)\<lparr>byteOffset := off\<rparr>" "k \<noteq> i \<Longrightarrow> place fs i k off ! k = fs ! i"
    "m \<noteq> i \<Longrightarrow> m \<noteq> k \<Longrightarrow> place fs i k off ! m = fs ! m" "i \<le> k \<Longrightarrow> take i (place fs i k off) = take i fs"
proof -
  show "length (place fs i k off) = length fs" by (simp add: place_def set_offset_def swapField_def)
  have "map field_key (place fs i k off) = (map field_key fs)[i := map field_key fs ! k, k := map field_key fs ! i]"
    using assms by (auto simp: place_def set_offset_def swapField_def map_update intro!: nth_equalityI simp: nth_list_update)
  also have "mset \<dots> = mset (map field_key fs)" using assms mset_swap [of k "map field_key fs" i] by (simp add: list_update_swap)
  finally show "mset (map field_key (place fs i k off)) = mset (map field_key fs)" .
qed (use assms in \<open>auto simp: place_def set_offset_def swapField_def nth_list_update intro!: nth_equalityI\<close>)

lemma set_offset_place: "i < length fs \<Longrightarrow> set_offset fs i off = place fs i i off"
  by (simp add: place_def swapField_def)

section \<open>Laying out\<close>

fun laid :: "int \<Rightarrow> InstField list \<Rightarrow> int \<Rightarrow> bool" where
  "laid a [] e \<longleftrightarrow> a = e"
| "laid a (f # fs) e \<longleftrightarrow> byteOffset f = a \<and> laid (a + width f) fs e"

lemma laid_snoc: "laid a (fs @ [f]) e \<longleftrightarrow> laid a fs (byteOffset f) \<and> e = byteOffset f + width f"
  by (induction fs arbitrary: a) auto

lemma laid_end: "laid a fs e \<Longrightarrow> e = a + sum_list (map width fs)"
proof (induction fs arbitrary: a)
  case (Cons f fs)
  have "laid (a + width f) fs e" using Cons.prems by simp
  from Cons.IH [OF this] show ?case by simp
qed simp

fun spaced :: "int \<Rightarrow> InstField list \<Rightarrow> int \<Rightarrow> bool" where
  "spaced a [] e \<longleftrightarrow> a \<le> e"
| "spaced a (f # fs) e \<longleftrightarrow> a \<le> byteOffset f \<and> spaced (byteOffset f + width f) fs e"

lemma width_pos: "0 < width f" by (simp add: width_def)

lemma laid_spaced: "laid a fs e \<Longrightarrow> a' \<le> a \<Longrightarrow> spaced a' fs e"
  by (induction fs arbitrary: a a') auto

lemma spaced_append: "spaced a xs m \<Longrightarrow> spaced m ys e \<Longrightarrow> spaced a (xs @ ys) e"
proof (induction xs arbitrary: a)
  case Nil
  then show ?case by (cases ys) auto
qed auto

lemma spaced_nth:
  assumes "spaced a fs e"
  shows "i < length fs \<Longrightarrow> a \<le> byteOffset (fs ! i) \<and> byteOffset (fs ! i) + width (fs ! i) \<le> e"
    "i < j \<Longrightarrow> j < length fs \<Longrightarrow> byteOffset (fs ! i) + width (fs ! i) \<le> byteOffset (fs ! j)" "a \<le> e"
proof -
  have le: "spaced a fs e \<Longrightarrow> a \<le> e \<and> (\<forall>i<length fs. a \<le> byteOffset (fs ! i) \<and> byteOffset (fs ! i) + width (fs ! i) \<le> e)" for a fs
  proof (induction fs arbitrary: a)
    case (Cons f fs)
    then have f: "a \<le> byteOffset f" and IH: "byteOffset f + width f \<le> e"
      "\<forall>i<length fs. byteOffset f + width f \<le> byteOffset (fs ! i) \<and> byteOffset (fs ! i) + width (fs ! i) \<le> e" by auto
    show ?case using f IH width_pos [of f] by (auto simp: nth_Cons split: nat.split)
  qed auto
  show "i < length fs \<Longrightarrow> a \<le> byteOffset (fs ! i) \<and> byteOffset (fs ! i) + width (fs ! i) \<le> e" "a \<le> e" using le assms by auto
  show "i < j \<Longrightarrow> j < length fs \<Longrightarrow> byteOffset (fs ! i) + width (fs ! i) \<le> byteOffset (fs ! j)"
    using assms
  proof (induction fs arbitrary: a i j)
    case (Cons f fs)
    then show ?case using le [of "byteOffset f + width f" fs] by (cases i; cases j) auto
  qed simp
qed


section \<open>The loops\<close>

lemma take_place: "i < length fs \<Longrightarrow> i \<le> k \<Longrightarrow> k < length fs \<Longrightarrow> take (Suc i) (place fs i k off) = take i fs @ [(fs ! k)\<lparr>byteOffset := off\<rparr>]"
  using place_facts [of i fs k] by (simp add: take_Suc_conv_app_nth)

lemma ref_loop_spec:
  assumes "ref_loop n fs i j off rc = (fs', i', off', rc')" and "i + n = length fs" and "rc = i" and "n = 0 \<or> j < length fs"
    and "\<forall>m<i. is_ref (fs ! m)" and "\<forall>m. j < m \<and> m < length fs \<longrightarrow> \<not> is_ref (fs ! m)" and "laid a (take i fs) off"
  shows "length fs' = length fs \<and> mset (map field_key fs') = mset (map field_key fs) \<and> rc' = i' \<and> i' \<le> length fs \<and>
    (\<forall>m<i'. is_ref (fs' ! m)) \<and> (\<forall>m. i' \<le> m \<and> m < length fs \<longrightarrow> \<not> is_ref (fs' ! m)) \<and> laid a (take i' fs') off'"
  using assms
proof (induction n arbitrary: fs i j off rc)
  case (Suc n)
  have i: "i < length fs" "j < length fs" using Suc.prems by auto
  have IH: ?case
    if k: "i \<le> k" "k \<le> j \<or> k = i" "is_ref (fs ! k)" "j' < length fs" "\<forall>m. j' < m \<and> m < length fs \<longrightarrow> \<not> is_ref (place fs i k off ! m)"
      and r: "ref_loop n (place fs i k off) (i + 1) j' (off + 8) (rc + 1) = (fs', i', off', rc')" for k j'
  proof -
    have k': "k < length fs" using k(2) i by auto
    note F = place_facts [OF i(1) k', where off = off]
    have refs: "\<forall>m<i + 1. is_ref (place fs i k off ! m)"
    proof (intro allI impI)
      fix m assume "m < i + 1"
      then show "is_ref (place fs i k off ! m)" using F(3,5) k(1,3) Suc.prems(5) by (cases "m = i") auto
    qed
    have "width (fs ! k) = 8" using k(3) by (simp add: width_def)
    then have "laid a (take (i + 1) (place fs i k off)) (off + 8)"
      using take_place [OF i(1) k(1) k'] Suc.prems(7) by (simp add: laid_snoc)
    then show ?thesis
      using Suc.IH [OF r] refs Suc.prems(2,3) k F(1,2) by simp
  qed
  show ?case
  proof (cases "is_ref (fs ! i)")
    case True
    have "\<forall>m. j < m \<and> m < length fs \<longrightarrow> \<not> is_ref (place fs i i off ! m)"
    proof (intro allI impI)
      fix m assume m: "j < m \<and> m < length fs"
      then show "\<not> is_ref (place fs i i off ! m)" using place_facts(3,5) [OF i(1) i(1)] Suc.prems(6) by (cases "m = i") auto
    qed
    then show ?thesis using IH [of i j] True Suc.prems(1) i by (simp add: set_offset_place)
  next
    case False
    obtain r j' where r: "scan_back is_ref fs i j = (r, j')" by fastforce
    show ?thesis
    proof (cases r)
      case None
      then have "\<forall>m. i < m \<and> m \<le> j \<longrightarrow> \<not> is_ref (fs ! m)" using scan_back_none r by blast
      then have "\<not> is_ref (fs ! m)" if "i \<le> m" "m < length fs" for m
        using that False Suc.prems(6) by (cases "m = i"; cases "m \<le> j") auto
      then show ?thesis using Suc.prems False r None by auto
    next
      case (Some k)
      note S = scan_back_some [OF r [unfolded Some]]
      have "\<not> is_ref (place fs i k off ! m)" if "j' < m" "m < length fs" for m
      proof (cases "m = k")
        case True
        then show ?thesis using place_facts(4) [of i fs k] S i False by simp
      next
        case False
        then show ?thesis using place_facts(5) [of i fs k m] S i that Suc.prems(6) by (cases "m \<le> j") auto
      qed
      moreover have "j' < length fs" "k \<le> j" "i \<le> k" using S i by linarith+
      ultimately show ?thesis using IH [of k j'] S Suc.prems(1) False r Some by (simp add: place_def)
    qed
  qed
qed auto


text \<open>The part from \<open>s\<close> on is laid out by the last loop.\<close>

lemma wide_loop_spec:
  assumes "wide_loop n fs i j off = (fs', off')" and "i + n = length fs" and "s \<le> i" and "n = 0 \<or> j < length fs"
    and "\<forall>m. j < m \<and> m < length fs \<longrightarrow> \<not> is_wide (fs ! m)" and "\<forall>m. s \<le> m \<and> m < length fs \<longrightarrow> \<not> is_ref (fs ! m)"
    and "laid a (drop s (take i fs)) off" and "\<forall>m. s \<le> m \<and> m < i \<and> is_wide (fs ! m) \<longrightarrow> byteOffset (fs ! m) mod 8 = 0"
    and "off mod 8 = 0 \<or> (\<forall>m. i \<le> m \<and> m < length fs \<longrightarrow> \<not> is_wide (fs ! m))"
  shows "length fs' = length fs \<and> mset (map field_key fs') = mset (map field_key fs) \<and> take s fs' = take s fs \<and>
    (\<forall>m. s \<le> m \<and> m < length fs \<longrightarrow> \<not> is_ref (fs' ! m)) \<and> laid a (drop s fs') off' \<and>
    (\<forall>m. s \<le> m \<and> m < length fs \<and> is_wide (fs' ! m) \<longrightarrow> byteOffset (fs' ! m) mod 8 = 0)"
  using assms
proof (induction n arbitrary: fs i j off)
  case (Suc n)
  have i: "i < length fs" "j < length fs" using Suc.prems by auto
  have IH: ?case
    if k: "i \<le> k" "k < length fs" "j' < length fs" "\<forall>m. j' < m \<and> m < length fs \<longrightarrow> \<not> is_wide (place fs i k off ! m)"
      and w: "w = width (fs ! k)" "is_wide (fs ! k) \<longrightarrow> off mod 8 = 0"
        "(off + w) mod 8 = 0 \<or> (\<forall>m. i + 1 \<le> m \<and> m < length fs \<longrightarrow> \<not> is_wide (place fs i k off ! m))"
      and r: "wide_loop n (place fs i k off) (i + 1) j' (off + w) = (fs', off')" for k j' w
  proof -
    note F = place_facts [OF i(1) k(2), where off = off]
    have nref: "\<forall>m. s \<le> m \<and> m < length fs \<longrightarrow> \<not> is_ref (place fs i k off ! m)"
    proof (intro allI impI)
      fix m assume "s \<le> m \<and> m < length fs"
      then show "\<not> is_ref (place fs i k off ! m)"
        using F(3-5) k(1,2) Suc.prems(3,6) i by (cases "m = i"; cases "m = k") auto
    qed
    have aligned: "\<forall>m. s \<le> m \<and> m < i + 1 \<and> is_wide (place fs i k off ! m) \<longrightarrow> byteOffset (place fs i k off ! m) mod 8 = 0"
    proof (intro allI impI)
      fix m assume m: "s \<le> m \<and> m < i + 1 \<and> is_wide (place fs i k off ! m)"
      then show "byteOffset (place fs i k off ! m) mod 8 = 0"
        using F(3,5) k(1) w(2) Suc.prems(8) by (cases "m = i") auto
    qed
    have "laid a (drop s (take (i + 1) (place fs i k off))) (off + w)"
      using take_place [OF i(1) k(1,2)] Suc.prems(3,7) w(1) i by (simp add: laid_snoc)
    moreover have "take s (place fs i k off) = take s fs" using F(6) [OF k(1)] Suc.prems(3) by (metis min_def take_take)
    ultimately show ?thesis
      using Suc.IH [OF r, unfolded F(1,2)] nref aligned Suc.prems(2,3) k(3,4) w(3) by simp
  qed
  show ?case
  proof (cases "is_wide (fs ! i)")
    case True
    then have off: "off mod 8 = 0" using Suc.prems(9) i by auto
    have "\<forall>m. j < m \<and> m < length fs \<longrightarrow> \<not> is_wide (place fs i i off ! m)"
    proof (intro allI impI)
      fix m assume m: "j < m \<and> m < length fs"
      then show "\<not> is_wide (place fs i i off ! m)" using place_facts(3,5) [OF i(1) i(1)] Suc.prems(5) by (cases "m = i") auto
    qed
    moreover have "8 = width (fs ! i)" using True by (simp add: width_def)
    moreover have "(off + 8) mod 8 = 0" using off by simp
    ultimately show ?thesis using IH [of i j 8] True Suc.prems(1) i off by (simp add: set_offset_place)
  next
    case False
    obtain r j' where r: "scan_back is_wide fs i j = (r, j')" by fastforce
    show ?thesis
    proof (cases r)
      case None
      note N = scan_back_none [OF r [unfolded None]]
      have none: "\<not> is_wide (fs ! m)" if "i \<le> m" "m < length fs" for m
        using that False N Suc.prems(5) by (cases "m = i"; cases "m \<le> j") auto
      have rest: "\<not> is_wide (place fs i i off ! m)" if "i \<le> m" "m < length fs" for m
        using that none place_facts(3,5) [OF i(1) i(1)] by (cases "m = i") auto
      have "\<forall>m. j' < m \<and> m < length fs \<longrightarrow> \<not> is_wide (place fs i i off ! m)"
      proof (intro allI impI)
        fix m assume m: "j' < m \<and> m < length fs"
        show "\<not> is_wide (place fs i i off ! m)"
        proof (cases "i \<le> m")
          case f: False
          then have "j < m" using m N by auto
          then show ?thesis using m f place_facts(5) [OF i(1) i(1), of m] Suc.prems(5) by simp
        qed (use rest m in simp)
      qed
      moreover have "4 = width (fs ! i)" using False Suc.prems(3,6) i by (simp add: width_def)
      moreover have "j' < length fs" using N i by simp
      ultimately show ?thesis using IH [of i j' 4] rest r None Suc.prems(1) False i by (simp add: set_offset_place)
    next
      case (Some k)
      note S = scan_back_some [OF r [unfolded Some]]
      have k: "i \<le> k" "k < length fs" "j' < length fs" "is_wide (fs ! k)" using S i by linarith+
      have off: "off mod 8 = 0" using Suc.prems(9) k by auto
      have "\<forall>m. j' < m \<and> m < length fs \<longrightarrow> \<not> is_wide (place fs i k off ! m)"
      proof (intro allI impI)
        fix m assume m: "j' < m \<and> m < length fs"
        then show "\<not> is_wide (place fs i k off ! m)"
          using place_facts(4,5) [OF i(1) k(2)] S False Suc.prems(5) by (cases "m = k"; cases "m \<le> j") auto
      qed
      moreover have "8 = width (fs ! k)" using k(4) by (simp add: width_def)
      moreover have "(off + 8) mod 8 = 0" using off by simp
      ultimately show ?thesis using IH [of k j' 8] r Some Suc.prems(1) False k off by (simp add: place_def)
    qed
  qed
qed auto


section \<open>The layout\<close>

lemma align_step_spec:
  assumes "align_step fs i off = (fs', i', off')" and "i \<le> length fs" and "off mod 4 = 0" and "\<forall>m. i \<le> m \<and> m < length fs \<longrightarrow> \<not> is_ref (fs ! m)"
  shows "length fs' = length fs \<and> mset (map field_key fs') = mset (map field_key fs) \<and> take i fs' = take i fs \<and> i \<le> i' \<and> i' \<le> length fs \<and>
    (\<forall>m. i \<le> m \<and> m < length fs \<longrightarrow> \<not> is_ref (fs' ! m)) \<and> (\<forall>m. i \<le> m \<and> m < i' \<longrightarrow> \<not> is_wide (fs' ! m)) \<and>
    (i' = length fs \<or> off' mod 8 = 0) \<and> (\<exists>e. laid off (drop i (take i' fs')) e \<and> e \<le> off' \<and> off' \<le> e + 4)"
proof (cases "i \<noteq> length fs \<and> off mod 8 \<ge> 4")
  case False
  have "off mod 8 = 0 \<or> i = length fs" using False assms(3) by presburger
  then show ?thesis using assms False by (auto simp: align_step_def)
next
  case True
  have i: "i < length fs" and off: "(off + 4) mod 8 = 0" using True assms(2,3) by (auto, presburger)
  have placed: ?thesis if k: "i \<le> k" "k < length fs" "\<not> is_wide (fs ! k)" and eq: "fs' = place fs i k off" "i' = i + 1" "off' = off + 4" for k
  proof -
    note F = place_facts [OF i k(2), where off = off]
    have "\<not> is_ref (place fs i k off ! m)" if "i \<le> m" "m < length fs" for m
      using F(3-5) k(1,2) assms(4) that by (cases "m = i"; cases "m = k") auto
    moreover have "\<not> is_wide (place fs i k off ! m)" if "i \<le> m" "m < i + 1" for m
    proof -
      have "m = i" using that by simp
      then show ?thesis using F(3) k(3) by simp
    qed
    moreover have "width (fs ! k) = 4" using k assms(4) by (simp add: width_def)
    then have "laid off (drop i (take (i + 1) (place fs i k off))) (off + 4)" using take_place [OF i k(1,2)] i by simp
    ultimately show ?thesis using F(1,2) F(6) [OF k(1)] i off unfolding eq by auto
  qed
  show ?thesis
  proof (cases "is_wide (fs ! i)")
    case False
    then have "fs' = place fs i i off" "i' = i + 1" "off' = off + 4" using assms(1) True i by (simp_all add: align_step_def set_offset_place)
    then show ?thesis using placed [OF order.refl i False] by blast
  next
    case w: True
    obtain r j where r: "scan_back (\<lambda>f. \<not> is_wide f) fs i (length fs - 1) = (r, j)" by fastforce
    show ?thesis
    proof (cases r)
      case None
      then show ?thesis using assms r w True i off by (auto simp: align_step_def)
    next
      case (Some k)
      note S = scan_back_some [OF r [unfolded Some]]
      have "k < length fs" using S i by linarith
      moreover have "fs' = place fs i k off" "i' = i + 1" "off' = off + 4" using assms(1) r Some w True by (simp_all add: align_step_def place_def)
      ultimately show ?thesis using placed [of k] S less_imp_le by blast
    qed
  qed
qed

lemma check_layout_tail:
  "\<forall>f\<in>set fs. \<not> is_ref f \<and> (is_wide f \<longrightarrow> byteOffset f mod 8 = 0) \<Longrightarrow> check_layout fs i rc True"
  by (induction fs arbitrary: i) auto

lemma check_layout_ok:
  "\<forall>f\<in>set xs. is_ref f \<Longrightarrow> \<forall>f\<in>set ys. \<not> is_ref f \<and> (is_wide f \<longrightarrow> byteOffset f mod 8 = 0) \<Longrightarrow> rc = i + length xs
    \<Longrightarrow> check_layout (xs @ ys) i rc False"
proof (induction xs arbitrary: i)
  case Nil
  then show ?case using check_layout_tail by (cases ys) auto
next
  case (Cons x xs)
  then show ?case using ref_not_wide [of x] by auto
qed

lemma laid_refs: "laid a fs e \<Longrightarrow> \<forall>f\<in>set fs. is_ref f \<Longrightarrow> e = a + 8 * int (length fs) \<and> (\<forall>i<length fs. byteOffset (fs ! i) = a + 8 * int i)"
proof (induction fs arbitrary: a)
  case (Cons f fs)
  have "laid (a + 8) fs e" "byteOffset f = a" using Cons.prems by (auto simp: width_def)
  with Cons.IH [OF this(1)] Cons.prems(2) show ?case by (auto simp: nth_Cons split: nat.split)
qed simp

definition layout_ok :: "int \<Rightarrow> InstField list \<Rightarrow> InstField list \<Rightarrow> nat \<Rightarrow> int \<Rightarrow> bool" where
  "layout_ok base ifields fs rc objSize \<longleftrightarrow> mset (map field_key fs) = mset (map field_key ifields)
    \<and> (\<forall>i<length fs. is_ref (fs ! i) \<longleftrightarrow> i < rc) \<and> (\<forall>i<rc. i < length fs \<and> byteOffset (fs ! i) = base + 8 * int i)
    \<and> (\<forall>i<length fs. base \<le> byteOffset (fs ! i) \<and> byteOffset (fs ! i) + width (fs ! i) \<le> objSize)
    \<and> (\<forall>i j. i < j \<and> j < length fs \<longrightarrow> byteOffset (fs ! i) + width (fs ! i) \<le> byteOffset (fs ! j))
    \<and> (\<forall>f\<in>set fs. is_wide f \<longrightarrow> byteOffset f mod 8 = 0)
    \<and> objSize mod 4 = 0 \<and> objSize \<le> base + sum_list (map width fs) + 4"

lemma align_step_off: "align_step fs i off = (fs', i', off') \<Longrightarrow> off' = off \<or> off' = off + 4"
  by (auto simp: align_step_def split: if_splits prod.splits option.splits)

lemma sum_width: "sum_list (map width fs) mod 4 = 0" "sum_list (map width fs) \<le> 8 * int (length fs)"
proof -
  have "4 dvd sum_list (map width fs)" by (induction fs) (auto simp: width_def)
  then show "sum_list (map width fs) mod 4 = 0" by (rule dvd_imp_mod_0)
  show "sum_list (map width fs) \<le> 8 * int (length fs)" by (induction fs) (auto simp: width_def)
qed

lemma computeFieldOffsets_layout:
  assumes base: "base mod 4 = 0" and room: "\<And>r. room = Some r \<Longrightarrow> base + 8 * int (length ifields) + 4 < r"
  shows "\<exists>fs rc objSize. computeFieldOffsets room base ifields = Ret (fs, rc, objSize) \<and> layout_ok base ifields fs rc objSize"
proof -
  obtain fs1 i1 off1 rc where r1: "ref_loop (length ifields) ifields 0 (length ifields - 1) base 0 = (fs1, i1, off1, rc)" by (metis prod_cases4)
  obtain fs2 i2 off2 where r2: "align_step fs1 i1 off1 = (fs2, i2, off2)" by (metis prod_cases3)
  obtain fs3 off3 where r3: "wide_loop (length fs2 - i2) fs2 i2 (length fs2 - 1) off2 = (fs3, off3)" by fastforce
  have j1: "length ifields = 0 \<or> length ifields - 1 < length ifields" and last1: "\<forall>m. length ifields - 1 < m \<and> m < length ifields \<longrightarrow> \<not> is_ref (ifields ! m)"
    by (cases ifields, simp_all, arith)
  have R1: "length fs1 = length ifields" "mset (map field_key fs1) = mset (map field_key ifields)" "rc = i1" "i1 \<le> length ifields"
    "\<forall>m<i1. is_ref (fs1 ! m)" "\<forall>m. i1 \<le> m \<and> m < length ifields \<longrightarrow> \<not> is_ref (fs1 ! m)" "laid base (take i1 fs1) off1"
    using ref_loop_spec [OF r1 _ _ j1] last1 by simp_all
  have refs: "\<forall>f\<in>set (take i1 fs1). is_ref f" using R1(1,4,5) by (auto simp: in_set_conv_nth)
  note L1 = laid_refs [OF R1(7) refs]
  have off1: "off1 mod 4 = 0" using L1 base by presburger
  then have R2: "length fs2 = length fs1" "mset (map field_key fs2) = mset (map field_key fs1)" "take i1 fs2 = take i1 fs1" "i1 \<le> i2" "i2 \<le> length fs1"
    "\<forall>m. i1 \<le> m \<and> m < length fs1 \<longrightarrow> \<not> is_ref (fs2 ! m)" "\<forall>m. i1 \<le> m \<and> m < i2 \<longrightarrow> \<not> is_wide (fs2 ! m)"
    "i2 = length fs1 \<or> off2 mod 8 = 0" "\<exists>e. laid off1 (drop i1 (take i2 fs2)) e \<and> e \<le> off2 \<and> off2 \<le> e + 4"
    using align_step_spec [OF r2] R1(1,4,6) by simp_all
  then obtain e where e: "laid off1 (drop i1 (take i2 fs2)) e" "e \<le> off2" "off2 \<le> e + 4" by blast
  have j2: "length fs2 - i2 = 0 \<or> length fs2 - 1 < length fs2" and last2: "\<forall>m. length fs2 - 1 < m \<and> m < length fs2 \<longrightarrow> \<not> is_wide (fs2 ! m)"
    by (cases fs2, simp_all, arith)
  have al: "off2 mod 8 = 0 \<or> (\<forall>m. i2 \<le> m \<and> m < length fs2 \<longrightarrow> \<not> is_wide (fs2 ! m))" using R2(1,8) by auto
  have R3: "length fs3 = length fs2" "mset (map field_key fs3) = mset (map field_key fs2)" "take i2 fs3 = take i2 fs2"
    "\<forall>m. i2 \<le> m \<and> m < length fs2 \<longrightarrow> \<not> is_ref (fs3 ! m)" "laid off2 (drop i2 fs3) off3"
    "\<forall>m. i2 \<le> m \<and> m < length fs2 \<and> is_wide (fs3 ! m) \<longrightarrow> byteOffset (fs3 ! m) mod 8 = 0"
    using wide_loop_spec [OF r3 _ order.refl j2, of off2] R2(1,4-6) last2 al by simp_all
  let ?A = "take i1 fs1" and ?B = "drop i1 (take i2 fs2)" and ?C = "drop i2 fs3"
  have "take i1 (take i2 fs2) = ?A" using R2(3,4) by (simp add: min_def)
  then have "take i2 fs3 = ?A @ ?B" using append_take_drop_id [of i1 "take i2 fs2"] R3(3) by simp
  then have fs3: "fs3 = ?A @ ?B @ ?C" using append_take_drop_id [of i2 fs3] by simp
  have B: "\<not> is_ref f \<and> \<not> is_wide f" if m: "f \<in> set ?B" for f
  proof -
    obtain k where k: "k < length ?B" "f = ?B ! k" using m unfolding in_set_conv_nth by blast
    have lt: "i1 + k < i2" using k(1) R2(1,5) by auto
    have "i1 \<le> length (take i2 fs2)" using R2(1,4,5) by simp
    then have "f = fs2 ! (i1 + k)" using k(2) lt by (simp only: nth_drop nth_take)
    with lt show ?thesis using R2(5-7) by auto
  qed
  have C: "\<not> is_ref f \<and> (is_wide f \<longrightarrow> byteOffset f mod 8 = 0)" if m: "f \<in> set ?C" for f
  proof -
    obtain k where "k < length ?C" "f = ?C ! k" using m unfolding in_set_conv_nth by blast
    then have "f = fs3 ! (i2 + k)" "i2 + k < length fs2" using R3(1) by (simp_all add: less_diff_conv add.commute)
    then show ?thesis using R3(4,6) by auto
  qed
  have "check_layout (?A @ (?B @ ?C)) 0 rc False"
    using refs B C R1(1,3,4) by (intro check_layout_ok) auto
  then have "check_layout fs3 0 rc False" by (subst fs3)
  moreover have bound: "off3 \<le> base + sum_list (map width fs3) + 4"
    using laid_end [OF R1(7)] laid_end [OF e(1)] laid_end [OF R3(5)] e(3) by (subst fs3) simp
  then have "case room of None \<Rightarrow> True | Some r \<Rightarrow> off3 < r"
    using room sum_width(2) [of fs3] R1(1) R2(1) R3(1) by (fastforce split: option.split)
  ultimately have ret: "computeFieldOffsets room base ifields = Ret (fs3, rc, off3)"
    using r1 r2 r3 R2(1,8) R1(1,4,6) by (auto simp: computeFieldOffsets_def)
  have spaced: "spaced base fs3 off3"
    by (subst fs3, intro spaced_append [of base _ off1] spaced_append [of off1 _ e])
       (use laid_spaced [OF R1(7)] laid_spaced [OF e(1)] laid_spaced [OF R3(5)] e(2) in auto)
  have len: "length ?A = rc" using R1(1,3,4) by simp
  have A: "fs3 ! i = ?A ! i" if "i < rc" for i by (subst fs3) (simp only: nth_append len that if_True)
  have long: "rc \<le> length fs3" using R1(1,3,4) R2(1) R3(1) by simp
  have "is_ref (fs3 ! i) \<longleftrightarrow> i < rc" if i: "i < length fs3" for i
  proof (cases "i < rc")
    case True
    then have "fs3 ! i \<in> set ?A" unfolding A [OF True] using len by (intro nth_mem) simp
    then show ?thesis using refs True by blast
  next
    case False
    have "fs3 ! i = (?B @ ?C) ! (i - rc)" by (subst fs3) (simp only: nth_append [of ?A] len False if_False)
    moreover have "length fs3 = length (?A @ ?B @ ?C)" by (subst fs3) (rule refl)
    then have "i - rc < length (?B @ ?C)" using len i False by simp
    ultimately have "fs3 ! i \<in> set (?B @ ?C)" by (metis nth_mem)
    then show ?thesis using B C False by auto
  qed
  moreover have "i < length fs3 \<and> byteOffset (fs3 ! i) = base + 8 * int i" if "i < rc" for i
    using L1 len long that A [OF that] by (auto simp: min_def split: if_splits)
  moreover have "\<forall>f\<in>set fs3. is_wide f \<longrightarrow> byteOffset f mod 8 = 0"
    using refs B C ref_not_wide by (subst fs3) auto
  moreover have "off3 mod 4 = 0"
    using laid_end [OF R3(5)] align_step_off [OF r2] off1 sum_width(1) [of ?C] by presburger
  ultimately have "layout_ok base ifields fs3 rc off3"
    using bound spaced_nth [OF spaced] R1(2) R2(2) R3(2) unfolding layout_ok_def by simp
  then show ?thesis using ret by blast
qed


definition sample_fields :: "InstField list" where
  "sample_fields = [\<lparr>field_name = ''count'', signature = ''I'', byteOffset = 0\<rparr>, \<lparr>field_name = ''stamp'', signature = ''J'', byteOffset = 0\<rparr>,
     \<lparr>field_name = ''next'', signature = ''Ljava/lang/Object;'', byteOffset = 0\<rparr>, \<lparr>field_name = ''rate'', signature = ''D'', byteOffset = 0\<rparr>]"


end
