(* ===== verification/ClassLink.thy ===== *)
theory ClassLink
  imports FieldLayout AccessCheck
begin

text \<open>
  The linker of \<^verbatim>\<open>src/vm/oo/Class.c\<close>: the checks on the superclass and the interfaces in \<open>dvmLinkClass\<close>, the virtual method table
  (\<open>createVtable\<close>), the interface tables with the Miranda methods (\<open>createIftable\<close>), the stubs for abstract methods (\<open>insertMethodStubs\<close>),
  and the lookup of interface methods in \<^verbatim>\<open>src/vm/interp/Interp.c\<close>. A \<open>Method *\<close> is the address of an array of methods and
  an index into it, so that a pointer into an array that has been moved is seen to dangle. The superclass and the interfaces are resolved
  already, as with \<open>classesResolved\<close>; memory is never short (\<open>dvmLinearAlloc\<close> stops the machine), and the address that
  \<open>dvmLinearRealloc\<close> returns is an argument.
\<close>

section \<open>Methods and classes\<close>

text \<open>The descriptors that the type indices of a prototype stand for.\<close>

record DexProto =
  returnType :: string
  parameters :: "string list"

datatype DalvikBridgeFunc = NullFunc | AbstractMethodStub | NativeCode u8

record LinkMethod =
  meth_clazz :: u8
  meth_accessFlags :: u4
  methodIndex :: u2
  meth_name :: string
  prototype :: DexProto
  insns :: u8
  nativeFunc :: DalvikBridgeFunc

type_synonym mptr = "u8 \<times> nat"

record InterfaceEntry =
  entry_clazz :: u8
  methodIndexArray :: "nat list option"

datatype ClassStatus =
    CLASS_ERROR | CLASS_NOTREADY | CLASS_LOADED | CLASS_PREPARED | CLASS_RESOLVED | CLASS_VERIFYING | CLASS_VERIFIED
  | CLASS_INITIALIZING | CLASS_INITIALIZED

record LinkClass =
  class_descriptor :: string
  class_accessFlags :: u4
  class_classLoader :: u8
  class_elementClass :: u8
  class_super :: u8
  class_interfaces :: "u8 list"
  virtualMethods :: u8
  virtualMethodCount :: nat
  vtable :: "mptr list"
  class_iftable :: "InterfaceEntry list"
  class_ifields :: "InstField list"
  ifieldRefCount :: nat
  objectSize :: int
  class_status :: ClassStatus

record link_state =
  classes :: "u8 \<Rightarrow> LinkClass option"
  methods :: "u8 \<Rightarrow> LinkMethod list option"

definition get_class :: "link_state \<Rightarrow> u8 \<Rightarrow> LinkClass outcome" where
  "get_class s c = (case classes s c of None \<Rightarrow> OutOfBounds | Some C \<Rightarrow> Ret C)"

definition set_class :: "link_state \<Rightarrow> u8 \<Rightarrow> LinkClass \<Rightarrow> link_state" where
  "set_class s c C = s\<lparr>classes := (classes s)(c \<mapsto> C)\<rparr>"

definition get_method :: "link_state \<Rightarrow> mptr \<Rightarrow> LinkMethod outcome" where
  "get_method s p = (case methods s (fst p) of
     None \<Rightarrow> OutOfBounds | Some ms \<Rightarrow> if snd p < length ms then Ret (ms ! snd p) else OutOfBounds)"

definition set_method :: "link_state \<Rightarrow> mptr \<Rightarrow> LinkMethod \<Rightarrow> link_state outcome" where
  "set_method s p m = (case methods s (fst p) of
     None \<Rightarrow> OutOfBounds
   | Some ms \<Rightarrow> if snd p < length ms then Ret (s\<lparr>methods := (methods s)(fst p \<mapsto> ms[snd p := m])\<rparr>) else OutOfBounds)"

section \<open>Comparing methods\<close>

fun strcmp :: "string \<Rightarrow> string \<Rightarrow> int" where
  "strcmp [] [] = 0"
| "strcmp [] (d # ds) = - 1"
| "strcmp (c # cs) [] = 1"
| "strcmp (c # cs) (d # ds) = (if c = d then strcmp cs ds else if (of_char c :: nat) < of_char d then - 1 else 1)"

text \<open>The loop over the parameters that both prototypes have, then the comparison of their counts.\<close>

fun compare_parameters :: "string list \<Rightarrow> string list \<Rightarrow> int" where
  "compare_parameters (a # as) (b # bs) = (let result = strcmp a b in if result \<noteq> 0 then result else compare_parameters as bs)"
| "compare_parameters [] [] = 0"
| "compare_parameters [] (b # bs) = - 1"
| "compare_parameters (a # as) [] = 1"

definition protoCompare :: "DexProto \<Rightarrow> DexProto \<Rightarrow> bool \<Rightarrow> int" where
  "protoCompare p1 p2 compareReturnType =
     (let result = (if compareReturnType then strcmp (returnType p1) (returnType p2) else 0)
      in if result \<noteq> 0 then result else compare_parameters (parameters p1) (parameters p2))"

definition dvmCompareMethodNamesAndProtos :: "LinkMethod \<Rightarrow> LinkMethod \<Rightarrow> int" where
  "dvmCompareMethodNamesAndProtos m1 m2 =
     (let result = strcmp (meth_name m1) (meth_name m2)
      in if result \<noteq> 0 then result else protoCompare (prototype m1) (prototype m2) True)"

section \<open>Flags\<close>

definition ACC_MIRANDA :: u4 where "ACC_MIRANDA = 0x8000"
definition CLASS_ISFINALIZABLE :: u4 where "CLASS_ISFINALIZABLE = 0x80000000"
definition CLASS_ISREFERENCE :: u4 where "CLASS_ISREFERENCE = 0x10000000"
definition CLASS_ISWEAKREFERENCE :: u4 where "CLASS_ISWEAKREFERENCE = 0x8000000"
definition CLASS_ISPHANTOMREFERENCE :: u4 where "CLASS_ISPHANTOMREFERENCE = 0x4000000"
definition CLASS_ISPREVERIFIED :: u4 where "CLASS_ISPREVERIFIED = 0x10000"

definition dvmIsFinalMethod :: "LinkMethod \<Rightarrow> bool" where
  "dvmIsFinalMethod m \<longleftrightarrow> meth_accessFlags m AND ACC_FINAL \<noteq> 0"

definition dvmIsPublicMethod :: "LinkMethod \<Rightarrow> bool" where
  "dvmIsPublicMethod m \<longleftrightarrow> meth_accessFlags m AND ACC_PUBLIC \<noteq> 0"

definition dvmIsAbstractMethod :: "LinkMethod \<Rightarrow> bool" where
  "dvmIsAbstractMethod m \<longleftrightarrow> meth_accessFlags m AND ACC_ABSTRACT \<noteq> 0"

definition is_interface_class :: "LinkClass \<Rightarrow> bool" where
  "is_interface_class C \<longleftrightarrow> class_accessFlags C AND ACC_INTERFACE \<noteq> 0"

definition IS_CLASS_FLAG_SET :: "LinkClass \<Rightarrow> u4 \<Rightarrow> bool" where
  "IS_CLASS_FLAG_SET C flag \<longleftrightarrow> class_accessFlags C AND flag \<noteq> 0"

definition SET_CLASS_FLAG :: "LinkClass \<Rightarrow> u4 \<Rightarrow> LinkClass" where
  "SET_CLASS_FLAG C flag = C\<lparr>class_accessFlags := class_accessFlags C OR flag\<rparr>"

definition CLEAR_CLASS_FLAG :: "LinkClass \<Rightarrow> u4 \<Rightarrow> LinkClass" where
  "CLEAR_CLASS_FLAG C flag = C\<lparr>class_accessFlags := class_accessFlags C AND NOT flag\<rparr>"

section \<open>The virtual method table\<close>

text \<open>How linking ends: with success, or with failure and the exception thrown, if one is.\<close>

datatype link_result = LinkOk | LinkFail "string option"

text \<open>The inner loop over the slots of the superclass: the first with the name and prototype of the method.\<close>

fun find_override :: "link_state \<Rightarrow> LinkMethod \<Rightarrow> mptr list \<Rightarrow> nat \<Rightarrow> nat option outcome" where
  "find_override s localMeth [] si = Ret None"
| "find_override s localMeth (p # ps) si =
     bind_out (get_method s p) (\<lambda>superMeth.
       if dvmCompareMethodNamesAndProtos localMeth superMeth = 0 then Ret (Some si) else find_override s localMeth ps (si + 1))"

text \<open>One local method: it replaces the method it overrides, or is added to the end.\<close>

definition place_method :: "link_state \<Rightarrow> mptr \<Rightarrow> nat \<Rightarrow> mptr list \<Rightarrow> (bool \<times> link_state \<times> mptr list) outcome" where
  "place_method s p superCount vt =
     bind_out (get_method s p) (\<lambda>localMeth.
     bind_out (find_override s localMeth (take superCount vt) 0) (\<lambda>slot.
       case slot of
         Some si \<Rightarrow>
           bind_out (get_method s (vt ! si)) (\<lambda>superMeth.
             if dvmIsFinalMethod superMeth then Ret (False, s, vt)
             else bind_out (set_method s p (localMeth\<lparr>methodIndex := word_of_nat si\<rparr>)) (\<lambda>s. Ret (True, s, vt[si := p])))
       | None \<Rightarrow>
           bind_out (set_method s p (localMeth\<lparr>methodIndex := word_of_nat (length vt)\<rparr>)) (\<lambda>s. Ret (True, s, vt @ [p]))))"

text \<open>The methods from number \<open>i\<close> on; \<open>n\<close> of them are left.\<close>

fun vtable_loop :: "link_state \<Rightarrow> u8 \<Rightarrow> nat \<Rightarrow> nat \<Rightarrow> nat \<Rightarrow> mptr list \<Rightarrow> (bool \<times> link_state \<times> mptr list) outcome" where
  "vtable_loop s a superCount i 0 vt = Ret (True, s, vt)"
| "vtable_loop s a superCount i (Suc n) vt =
     bind_out (place_method s (a, i) superCount vt) (\<lambda>(ok, s, vt).
       if ok then vtable_loop s a superCount (i + 1) n vt else Ret (False, s, vt))"

text \<open>The methods of \<open>java.lang.Object\<close>, and those of an interface, are numbered.\<close>

fun number_methods :: "link_state \<Rightarrow> u8 \<Rightarrow> nat \<Rightarrow> nat \<Rightarrow> link_state outcome" where
  "number_methods s a i 0 = Ret s"
| "number_methods s a i (Suc n) =
     bind_out (get_method s (a, i)) (\<lambda>m.
     bind_out (set_method s (a, i) (m\<lparr>methodIndex := word_of_nat i\<rparr>)) (\<lambda>s. number_methods s a (i + 1) n))"

definition fits_u2 :: "nat \<Rightarrow> bool" where
  "fits_u2 n \<longleftrightarrow> n = unat (word_of_nat n :: u2)"

definition createVtable :: "link_state \<Rightarrow> u8 \<Rightarrow> (link_result \<times> link_state) outcome" where
  "createVtable s c =
     bind_out (get_class s c) (\<lambda>C.
       if class_super C \<noteq> 0 then
         bind_out (get_class s (class_super C)) (\<lambda>S.
           let maxCount = virtualMethodCount C + length (vtable S)
           in bind_out (vtable_loop s (virtualMethods C) (length (vtable S)) 0 (virtualMethodCount C) (vtable S)) (\<lambda>(ok, s, vt).
             if \<not> ok then Ret (LinkFail None, s)
             else if \<not> fits_u2 (length vt) then Ret (LinkFail None, s)
             else if \<not> length vt \<le> maxCount then AbortVM
             else Ret (LinkOk, set_class s c (C\<lparr>vtable := vt\<rparr>))))
       else if class_descriptor C \<noteq> ''Ljava/lang/Object;'' then AbortVM
       else if \<not> fits_u2 (virtualMethodCount C) then Ret (LinkFail None, s)
       else bind_out (number_methods s (virtualMethods C) 0 (virtualMethodCount C)) (\<lambda>s.
         Ret (LinkOk, set_class s c (C\<lparr>vtable := map (\<lambda>i. (virtualMethods C, i)) [0..<virtualMethodCount C]\<rparr>))))"

section \<open>The interface tables\<close>

text \<open>The entries for the interfaces, each followed by its superinterfaces; \<open>None\<close> when one of the classes is no interface.\<close>

fun add_interfaces :: "link_state \<Rightarrow> u8 list \<Rightarrow> InterfaceEntry list \<Rightarrow> InterfaceEntry list option outcome" where
  "add_interfaces s [] tbl = Ret (Some tbl)"
| "add_interfaces s (i # is) tbl =
     bind_out (get_class s i) (\<lambda>I.
       if \<not> is_interface_class I then Ret None
       else add_interfaces s is (tbl @ \<lparr>entry_clazz = i, methodIndexArray = None\<rparr>
              # map (\<lambda>e. \<lparr>entry_clazz = entry_clazz e, methodIndexArray = None\<rparr>) (class_iftable I)))"

text \<open>The number of entries, computed before.\<close>

fun count_interfaces :: "link_state \<Rightarrow> u8 list \<Rightarrow> nat \<Rightarrow> nat outcome" where
  "count_interfaces s [] n = Ret n"
| "count_interfaces s (i # is) n = bind_out (get_class s i) (\<lambda>I. count_interfaces s is (n + 1 + length (class_iftable I)))"

fun pool_size :: "link_state \<Rightarrow> InterfaceEntry list \<Rightarrow> nat outcome" where
  "pool_size s [] = Ret 0"
| "pool_size s (e # es) = bind_out (get_class s (entry_clazz e)) (\<lambda>I. bind_out (pool_size s es) (\<lambda>n. Ret (virtualMethodCount I + n)))"

text \<open>The search for an implementation goes from the end of the table, the search in the list of Miranda methods from its start.\<close>

fun find_impl :: "link_state \<Rightarrow> LinkMethod \<Rightarrow> mptr list \<Rightarrow> nat \<Rightarrow> nat option outcome" where
  "find_impl s imeth vt 0 = Ret None"
| "find_impl s imeth vt (Suc j) =
     bind_out (get_method s (vt ! j)) (\<lambda>m.
       if dvmCompareMethodNamesAndProtos imeth m = 0 then Ret (Some j) else find_impl s imeth vt j)"

fun find_miranda :: "link_state \<Rightarrow> LinkMethod \<Rightarrow> mptr list \<Rightarrow> nat \<Rightarrow> nat outcome" where
  "find_miranda s imeth [] mir = Ret mir"
| "find_miranda s imeth (p # ps) mir =
     bind_out (get_method s p) (\<lambda>m. if dvmCompareMethodNamesAndProtos m imeth = 0 then Ret mir else find_miranda s imeth ps (mir + 1))"

text \<open>
  The methods of one interface, from number \<open>i\<close> on: the indices written so far, the list of Miranda methods, and whether an
  implementation turned out not to be public.
\<close>

fun match_methods :: "link_state \<Rightarrow> mptr list \<Rightarrow> u8 \<Rightarrow> nat \<Rightarrow> nat \<Rightarrow> mptr list \<Rightarrow> nat list \<Rightarrow> (bool \<times> mptr list \<times> nat list) outcome" where
  "match_methods s vt a i 0 mirandas idxs = Ret (True, mirandas, idxs)"
| "match_methods s vt a i (Suc n) mirandas idxs =
     bind_out (get_method s (a, i)) (\<lambda>imeth.
     bind_out (find_impl s imeth vt (length vt)) (\<lambda>slot.
       case slot of
         Some j \<Rightarrow>
           bind_out (get_method s (vt ! j)) (\<lambda>m.
             if \<not> dvmIsPublicMethod m then Ret (False, mirandas, idxs)
             else match_methods s vt a (i + 1) n mirandas (idxs @ [j]))
       | None \<Rightarrow>
           bind_out (find_miranda s imeth mirandas 0) (\<lambda>mir.
             match_methods s vt a (i + 1) n (if mir = length mirandas then mirandas @ [(a, i)] else mirandas) (idxs @ [length vt + mir]))))"

fun match_interfaces :: "link_state \<Rightarrow> mptr list \<Rightarrow> InterfaceEntry list \<Rightarrow> mptr list \<Rightarrow> (bool \<times> mptr list \<times> InterfaceEntry list) outcome" where
  "match_interfaces s vt [] mirandas = Ret (True, mirandas, [])"
| "match_interfaces s vt (e # es) mirandas =
     bind_out (get_class s (entry_clazz e)) (\<lambda>I.
     bind_out (match_methods s vt (virtualMethods I) 0 (virtualMethodCount I) mirandas []) (\<lambda>(ok, mirandas, idxs).
       if \<not> ok then Ret (False, mirandas, e\<lparr>methodIndexArray := Some idxs\<rparr> # es)
       else bind_out (match_interfaces s vt es mirandas) (\<lambda>(ok, mirandas, es).
         Ret (ok, mirandas, e\<lparr>methodIndexArray := Some idxs\<rparr> # es))))"

text \<open>
  The enlarged array of methods at \<open>a'\<close>, the address that the allocator returns: the old one is gone if the array has been moved.
  The room for the new methods is filled one by one.
\<close>

definition move_methods :: "link_state \<Rightarrow> u8 \<Rightarrow> u8 \<Rightarrow> link_state outcome" where
  "move_methods s a a' =
     (if a = 0 then Ret (s\<lparr>methods := (methods s)(a' \<mapsto> [])\<rparr>)
      else case methods s a of
        None \<Rightarrow> OutOfBounds
      | Some ms \<Rightarrow> Ret (s\<lparr>methods := (methods s)(a := None, a' \<mapsto> ms)\<rparr>))"

fun fix_vtable :: "link_state \<Rightarrow> u8 \<Rightarrow> nat \<Rightarrow> nat \<Rightarrow> mptr list \<Rightarrow> mptr list outcome" where
  "fix_vtable s a i 0 vt = Ret vt"
| "fix_vtable s a i (Suc n) vt =
     bind_out (get_method s (a, i)) (\<lambda>m.
     bind_out (list_store vt (unat (methodIndex m)) (a, i)) (\<lambda>vt. fix_vtable s a (i + 1) n vt))"

definition append_method :: "link_state \<Rightarrow> u8 \<Rightarrow> LinkMethod \<Rightarrow> link_state outcome" where
  "append_method s a m = (case methods s a of None \<Rightarrow> OutOfBounds | Some ms \<Rightarrow> Ret (s\<lparr>methods := (methods s)(a \<mapsto> ms @ [m])\<rparr>))"

definition miranda_method :: "u8 \<Rightarrow> nat \<Rightarrow> LinkMethod \<Rightarrow> LinkMethod" where
  "miranda_method c idx m =
     m\<lparr>meth_clazz := c, meth_accessFlags := meth_accessFlags m OR ACC_MIRANDA, methodIndex := word_of_nat idx\<rparr>"

text \<open>The clones of the methods in the list; \<open>n\<close> is the number of methods of the class before.\<close>

fun add_mirandas :: "link_state \<Rightarrow> u8 \<Rightarrow> u8 \<Rightarrow> nat \<Rightarrow> mptr list \<Rightarrow> mptr list \<Rightarrow> (link_state \<times> mptr list) outcome" where
  "add_mirandas s c a n [] vt = Ret (s, vt)"
| "add_mirandas s c a n (p # ps) vt =
     bind_out (get_method s p) (\<lambda>m.
     bind_out (append_method s a (miranda_method c (length vt) m)) (\<lambda>s. add_mirandas s c a (n + 1) ps (vt @ [(a, n)])))"

definition expand_mirandas :: "link_state \<Rightarrow> u8 \<Rightarrow> u8 \<Rightarrow> mptr list \<Rightarrow> LinkClass \<Rightarrow> link_state outcome" where
  "expand_mirandas s c a' mirandas C =
     bind_out (move_methods s (virtualMethods C) a') (\<lambda>s.
     bind_out (if a' \<noteq> virtualMethods C then fix_vtable s a' 0 (virtualMethodCount C) (vtable C) else Ret (vtable C)) (\<lambda>vt.
     bind_out (add_mirandas s c a' (virtualMethodCount C) mirandas vt) (\<lambda>(s, vt).
       Ret (set_class s c (C\<lparr>virtualMethods := a', virtualMethodCount := virtualMethodCount C + length mirandas, vtable := vt\<rparr>)))))"

definition createIftable :: "link_state \<Rightarrow> u8 \<Rightarrow> u8 \<Rightarrow> (link_result \<times> link_state) outcome" where
  "createIftable s c a' =
     bind_out (get_class s c) (\<lambda>C.
     bind_out (if class_super C \<noteq> 0 then bind_out (get_class s (class_super C)) (\<lambda>S. Ret (class_iftable S)) else Ret []) (\<lambda>inherited.
     bind_out (count_interfaces s (class_interfaces C) (length inherited)) (\<lambda>ifCount.
       if ifCount = 0 then (if class_iftable C = [] then Ret (LinkOk, s) else AbortVM)
       else bind_out (add_interfaces s (class_interfaces C) inherited) (\<lambda>r. case r of
         None \<Rightarrow> Ret (LinkFail (Some ''Ljava/lang/IncompatibleClassChangeError;''), s)
       | Some tbl \<Rightarrow>
           if length tbl \<noteq> ifCount then AbortVM
           else let C = C\<lparr>class_iftable := tbl\<rparr>; s = set_class s c C in
             if is_interface_class C \<or> length inherited = ifCount then Ret (LinkOk, s)
             else bind_out (pool_size s (drop (length inherited) tbl)) (\<lambda>poolSize.
               if poolSize = 0 then Ret (LinkOk, s)
               else bind_out (match_interfaces s (vtable C) (drop (length inherited) tbl) []) (\<lambda>(ok, mirandas, es).
                 let C = C\<lparr>class_iftable := inherited @ es\<rparr>; s = set_class s c C in
                 if \<not> ok then Ret (LinkFail (Some ''Ljava/lang/IllegalAccessError;''), s)
                 else if mirandas \<noteq> [] then bind_out (expand_mirandas s c a' mirandas C) (\<lambda>s. Ret (LinkOk, s))
                 else Ret (LinkOk, s)))))))"

section \<open>Stubs\<close>

fun insert_stubs :: "link_state \<Rightarrow> u8 \<Rightarrow> nat \<Rightarrow> nat \<Rightarrow> link_state outcome" where
  "insert_stubs s a i 0 = Ret s"
| "insert_stubs s a i (Suc n) =
     bind_out (get_method s (a, i)) (\<lambda>m.
       if dvmIsAbstractMethod m then
         if insns m \<noteq> 0 then AbortVM
         else if nativeFunc m \<notin> {NullFunc, AbstractMethodStub} then AbortVM
         else bind_out (set_method s (a, i)
                (m\<lparr>meth_accessFlags := meth_accessFlags m OR ACC_NATIVE, nativeFunc := AbstractMethodStub\<rparr>)) (\<lambda>s. insert_stubs s a (i + 1) n)
       else insert_stubs s a (i + 1) n)"

definition insertMethodStubs :: "link_state \<Rightarrow> u8 \<Rightarrow> link_state outcome" where
  "insertMethodStubs s c = bind_out (get_class s c) (\<lambda>C. insert_stubs s (virtualMethods C) 0 (virtualMethodCount C))"

section \<open>Linking\<close>

definition link_view :: "link_state \<Rightarrow> package_view" where
  "link_view s =
     \<lparr>view_descriptor = (\<lambda>p. map_option class_descriptor (classes s p)),
      view_classLoader = (\<lambda>p. case classes s p of None \<Rightarrow> 0 | Some C \<Rightarrow> class_classLoader C),
      view_elementClass = (\<lambda>p. case classes s p of None \<Rightarrow> 0 | Some C \<Rightarrow> class_elementClass C)\<rparr>"

definition reference_flags :: u4 where
  "reference_flags = CLASS_ISREFERENCE OR CLASS_ISWEAKREFERENCE OR CLASS_ISPHANTOMREFERENCE"

text \<open>The flags that a class takes over from its superclass, or that make it one of the reference classes.\<close>

definition inherit_flags :: "LinkClass \<Rightarrow> LinkClass \<Rightarrow> (string, LinkClass) sum outcome" where
  "inherit_flags C S =
     (let C = (if IS_CLASS_FLAG_SET S CLASS_ISFINALIZABLE then SET_CLASS_FLAG C CLASS_ISFINALIZABLE else C)
      in if IS_CLASS_FLAG_SET S CLASS_ISREFERENCE then Ret (Inr (SET_CLASS_FLAG C (class_accessFlags S AND reference_flags)))
         else if class_classLoader C = 0 \<and> class_classLoader S = 0 \<and> class_descriptor S = ''Ljava/lang/ref/Reference;'' then
           let refFlags = (if class_descriptor C = ''Ljava/lang/ref/SoftReference;'' then Some CLASS_ISREFERENCE
               else if class_descriptor C = ''Ljava/lang/ref/WeakReference;'' then Some (CLASS_ISREFERENCE OR CLASS_ISWEAKREFERENCE)
               else if class_descriptor C = ''Ljava/lang/ref/PhantomReference;'' then Some (CLASS_ISREFERENCE OR CLASS_ISPHANTOMREFERENCE)
               else None)
           in case refFlags of
                None \<Rightarrow> Ret (Inl ''Ljava/lang/LinkageError;'')
              | Some flags \<Rightarrow> if class_accessFlags C AND reference_flags \<noteq> 0 then AbortVM else Ret (Inr (SET_CLASS_FLAG C flags))
         else Ret (Inr C))"

text \<open>The checks on the superclass; \<open>class_super\<close> is 0 for a class without one.\<close>

definition link_super :: "link_state \<Rightarrow> u8 \<Rightarrow> LinkClass \<Rightarrow> bool \<Rightarrow> (string, LinkClass) sum outcome" where
  "link_super s c C classesResolved =
     (if class_descriptor C = ''Ljava/lang/Object;'' then
        if classesResolved then AbortVM
        else if class_super C \<noteq> 0 then Ret (Inl ''Ljava/lang/ClassFormatError;'')
        else Ret (Inr (CLEAR_CLASS_FLAG C CLASS_ISFINALIZABLE))
      else if \<not> classesResolved \<and> class_super C = 0 then Ret (Inl ''Ljava/lang/LinkageError;'')
      else bind_out (get_class s (class_super C)) (\<lambda>S.
        if IS_CLASS_FLAG_SET S ACC_FINAL then Ret (Inl ''Ljava/lang/IncompatibleClassChangeError;'')
        else if is_interface_class S then Ret (Inl ''Ljava/lang/IncompatibleClassChangeError;'')
        else bind_out (dvmCheckClassAccess (link_view s) c (class_super C) (class_accessFlags S)) (\<lambda>ok.
          if \<not> ok then Ret (Inl ''Ljava/lang/IllegalAccessError;'') else inherit_flags C S)))"

text \<open>Whether all interfaces that the class names may be used by it.\<close>

fun interfaces_accessible :: "link_state \<Rightarrow> u8 \<Rightarrow> u8 list \<Rightarrow> bool outcome" where
  "interfaces_accessible s c [] = Ret True"
| "interfaces_accessible s c (i # is) =
     bind_out (get_class s i) (\<lambda>I.
     bind_out (dvmCheckClassAccess (link_view s) c i (class_accessFlags I)) (\<lambda>ok.
       if ok then interfaces_accessible s c is else Ret False))"

definition link_methods :: "link_state \<Rightarrow> u8 \<Rightarrow> (link_result \<times> link_state) outcome" where
  "link_methods s c =
     bind_out (get_class s c) (\<lambda>C.
       if is_interface_class C then
         if \<not> fits_u2 (virtualMethodCount C) then Ret (LinkFail None, s)
         else bind_out (number_methods s (virtualMethods C) 0 (virtualMethodCount C)) (\<lambda>s. Ret (LinkOk, s))
       else createVtable s c)"

definition link_fields :: "(u8 \<Rightarrow> int option) \<Rightarrow> link_state \<Rightarrow> u8 \<Rightarrow> link_state outcome" where
  "link_fields room s c =
     bind_out (get_class s c) (\<lambda>C.
     bind_out (if class_super C \<noteq> 0 then bind_out (get_class s (class_super C)) (\<lambda>S. Ret (objectSize S)) else Ret 16) (\<lambda>fieldOffset.
     bind_out (computeFieldOffsets (room c) fieldOffset (class_ifields C)) (\<lambda>(fs, rc, size).
       Ret (set_class s c (C\<lparr>class_ifields := fs, ifieldRefCount := rc, objectSize := size\<rparr>)))))"

text \<open>The steps in the order of the code; each goes on only when the one before has succeeded.\<close>

definition and_then :: "(link_result \<times> link_state) outcome \<Rightarrow> (link_state \<Rightarrow> (link_result \<times> link_state) outcome) \<Rightarrow> (link_result \<times> link_state) outcome" where
  "and_then m f = bind_out m (\<lambda>(r, s). case r of LinkOk \<Rightarrow> f s | LinkFail e \<Rightarrow> Ret (LinkFail e, s))"

definition link_steps :: "(u8 \<Rightarrow> int option) \<Rightarrow> link_state \<Rightarrow> u8 \<Rightarrow> bool \<Rightarrow> u8 \<Rightarrow> (link_result \<times> link_state) outcome" where
  "link_steps room s c classesResolved a' =
     bind_out (get_class s c) (\<lambda>C.
     bind_out (link_super s c C classesResolved) (\<lambda>r. case r of
       Inl e \<Rightarrow> Ret (LinkFail (Some e), s)
     | Inr C \<Rightarrow>
         let s = set_class s c C in
         bind_out (if classesResolved then Ret True else interfaces_accessible s c (class_interfaces C)) (\<lambda>ok.
           if \<not> ok then Ret (LinkFail (Some ''Ljava/lang/IllegalAccessError;''), s)
           else and_then (link_methods s c) (\<lambda>s.
             and_then (createIftable s c a') (\<lambda>s.
               bind_out (insertMethodStubs s c) (\<lambda>s.
               bind_out (link_fields room s c) (\<lambda>s. Ret (LinkOk, s))))))))"

definition dvmLinkClass :: "(u8 \<Rightarrow> int option) \<Rightarrow> link_state \<Rightarrow> u8 \<Rightarrow> bool \<Rightarrow> u8 \<Rightarrow> (link_result \<times> link_state) outcome" where
  "dvmLinkClass room s c classesResolved a' =
     bind_out (link_steps room s c classesResolved a') (\<lambda>(r, s).
     bind_out (get_class s c) (\<lambda>C. case r of
       LinkOk \<Rightarrow> Ret (LinkOk, set_class s c (C\<lparr>class_status := (if IS_CLASS_FLAG_SET C CLASS_ISPREVERIFIED then CLASS_VERIFIED else CLASS_RESOLVED)\<rparr>))
     | LinkFail e \<Rightarrow> Ret (LinkFail (Some (case e of None \<Rightarrow> ''Ljava/lang/VirtualMachineError;'' | Some e \<Rightarrow> e)),
         set_class s c (C\<lparr>class_status := CLASS_ERROR\<rparr>))))"

section \<open>Calling methods\<close>

text \<open>
  \<open>absMethod\<close> is the method of the interface, as resolved. The first entry for its class is used. The result is the method, or \<open>None\<close> when
  the class does not implement the interface and an exception is thrown.
\<close>

fun find_entry :: "InterfaceEntry list \<Rightarrow> u8 \<Rightarrow> InterfaceEntry option" where
  "find_entry [] i = None"
| "find_entry (e # es) i = (if entry_clazz e = i then Some e else find_entry es i)"

definition dvmInterpFindInterfaceMethod :: "link_state \<Rightarrow> u8 \<Rightarrow> mptr \<Rightarrow> mptr option outcome" where
  "dvmInterpFindInterfaceMethod s thisClass absPtr =
     bind_out (get_method s absPtr) (\<lambda>absMethod.
       if \<not> dvmIsAbstractMethod absMethod then AbortVM
       else bind_out (get_class s thisClass) (\<lambda>C.
         case find_entry (class_iftable C) (meth_clazz absMethod) of
           None \<Rightarrow> Ret None
         | Some e \<Rightarrow>
             bind_out (get_class s (entry_clazz e)) (\<lambda>I.
               if \<not> unat (methodIndex absMethod) < virtualMethodCount I then AbortVM
               else case methodIndexArray e of
                 None \<Rightarrow> OutOfBounds
               | Some idxs \<Rightarrow>
                   if \<not> unat (methodIndex absMethod) < length idxs then OutOfBounds
                   else let vtableIndex = idxs ! unat (methodIndex absMethod) in
                     if \<not> vtableIndex < length (vtable C) then AbortVM
                     else bind_out (get_method s (vtable C ! vtableIndex)) (\<lambda>m.
                       if dvmIsAbstractMethod m \<and> nativeFunc m = NullFunc then AbortVM
                       else Ret (Some (vtable C ! vtableIndex))))))"

text \<open>The method that \<open>invoke-virtual\<close> calls: the slot is the index of the method that the instruction refers to.\<close>

definition virtual_target :: "link_state \<Rightarrow> u8 \<Rightarrow> mptr \<Rightarrow> mptr outcome" where
  "virtual_target s thisClass basePtr =
     bind_out (get_method s basePtr) (\<lambda>baseMethod.
     bind_out (get_class s thisClass) (\<lambda>C.
       if \<not> unat (methodIndex baseMethod) < length (vtable C) then AbortVM
       else bind_out (get_method s (vtable C ! unat (methodIndex baseMethod))) (\<lambda>m.
         if dvmIsAbstractMethod m \<and> nativeFunc m = NullFunc then AbortVM
         else Ret (vtable C ! unat (methodIndex baseMethod)))))"

end
