(* ===== verification/ClassVtable.thy ===== *)
theory ClassVtable
  imports ClassLink
begin

text \<open>
  What the loops of the linker do to the tables: the methods of a class replace the ones they override and are added otherwise, with
  slots that keep their name and prototype.
\<close>

section \<open>Methods behind pointers\<close>

definition method_key :: "LinkMethod \<Rightarrow> string \<times> DexProto" where
  "method_key m = (meth_name m, prototype m)"

definition valid :: "link_state \<Rightarrow> mptr \<Rightarrow> bool" where
  "valid s p \<longleftrightarrow> (\<exists>ms. methods s (fst p) = Some ms \<and> snd p < length ms)"

definition mth :: "link_state \<Rightarrow> mptr \<Rightarrow> LinkMethod" where
  "mth s p = the (methods s (fst p)) ! snd p"

definition kat :: "link_state \<Rightarrow> mptr \<Rightarrow> string \<times> DexProto" where
  "kat s p = method_key (mth s p)"

lemma strcmp_0 [simp]: "strcmp a b = 0 \<longleftrightarrow> a = b"
  by (induction a b rule: strcmp.induct) auto

lemma compare_parameters_0 [simp]: "compare_parameters a b = 0 \<longleftrightarrow> a = b"
  by (induction a b rule: compare_parameters.induct) (auto simp: Let_def)

lemma compare_key [simp]: "dvmCompareMethodNamesAndProtos a b = 0 \<longleftrightarrow> method_key a = method_key b"
  by (auto simp: dvmCompareMethodNamesAndProtos_def protoCompare_def method_key_def Let_def)

lemma get_method_valid [simp]: "valid s p \<Longrightarrow> get_method s p = Ret (mth s p)"
  by (auto simp: valid_def get_method_def mth_def)

text \<open>Storing a method.\<close>

definition put :: "link_state \<Rightarrow> mptr \<Rightarrow> LinkMethod \<Rightarrow> link_state" where
  "put s p m = s\<lparr>methods := (methods s)(fst p \<mapsto> (the (methods s (fst p)))[snd p := m])\<rparr>"

lemma set_method_valid [simp]: "valid s p \<Longrightarrow> set_method s p m = Ret (put s p m)"
  by (auto simp: valid_def set_method_def put_def)

lemma put_facts:
  assumes "valid s p"
  shows "valid (put s p m) q = valid s q" "mth (put s p m) q = (if q = p then m else mth s q)" "classes (put s p m) = classes s"
    "b \<noteq> fst p \<Longrightarrow> methods (put s p m) b = methods s b"
  using assms by (cases p; cases q; force simp: valid_def put_def mth_def nth_list_update)+

text \<open>The arrays keep their places and sizes.\<close>

definition same_sizes :: "link_state \<Rightarrow> link_state \<Rightarrow> bool" where
  "same_sizes s s' \<longleftrightarrow> (\<forall>b. map_option length (methods s' b) = map_option length (methods s b))"

lemma same_sizes_refl [simp]: "same_sizes s s" by (simp add: same_sizes_def)

lemma same_sizes_trans: "same_sizes s s' \<Longrightarrow> same_sizes s' s'' \<Longrightarrow> same_sizes s s''" by (simp add: same_sizes_def)

lemma same_sizes_put: "valid s p \<Longrightarrow> same_sizes s (put s p m)" by (auto simp: same_sizes_def put_def valid_def)

section \<open>The loop of \<open>createVtable\<close>\<close>

lemma find_override_spec:
  assumes "\<forall>p\<in>set ps. valid s p"
  shows "find_override s m ps si = Ret None \<and> (\<forall>p\<in>set ps. kat s p \<noteq> method_key m) \<or>
    (\<exists>j<length ps. find_override s m ps si = Ret (Some (si + j)) \<and> kat s (ps ! j) = method_key m)"
  using assms
proof (induction ps arbitrary: si)
  case (Cons p ps)
  show ?case
  proof (cases "kat s p = method_key m")
    case False
    then have "find_override s m (p # ps) si = find_override s m ps (si + 1)" using Cons.prems by (auto simp: kat_def)
    then show ?thesis using Cons.IH [of "si + 1"] Cons.prems False by fastforce
  qed (use Cons.prems in \<open>auto simp: kat_def\<close>)
qed simp

text \<open>The table while the methods of the array \<open>a\<close> are placed, up to number \<open>i\<close>.\<close>

definition vt_inv :: "link_state \<Rightarrow> u8 \<Rightarrow> nat \<Rightarrow> nat \<Rightarrow> mptr list \<Rightarrow> bool" where
  "vt_inv s a i sc vt \<longleftrightarrow> sc \<le> length vt \<and> (\<forall>p\<in>set vt. valid s p) \<and> (\<forall>p\<in>set vt. fst p = a \<longrightarrow> snd p < i)
     \<and> (\<forall>j. sc \<le> j \<and> j < length vt \<longrightarrow> fst (vt ! j) = a)
     \<and> distinct (map (kat s) vt) \<and> (\<forall>j<length vt. methodIndex (mth s (vt ! j)) = word_of_nat j)"

text \<open>The methods of the array, as far as the loop leaves them alone.\<close>

definition same_methods :: "u8 \<Rightarrow> link_state \<Rightarrow> link_state \<Rightarrow> bool" where
  "same_methods a s s' \<longleftrightarrow> classes s' = classes s \<and> (\<forall>b. b \<noteq> a \<longrightarrow> methods s' b = methods s b) \<and> same_sizes s s' \<and> (\<forall>p. valid s' p = valid s p)
     \<and> (\<forall>p. valid s p \<longrightarrow> (mth s' p)\<lparr>methodIndex := 0\<rparr> = (mth s p)\<lparr>methodIndex := 0\<rparr>)"

definition placed :: "u8 \<Rightarrow> nat \<Rightarrow> nat \<Rightarrow> link_state \<Rightarrow> mptr list \<Rightarrow> mptr list \<Rightarrow> bool" where
  "placed a i i' s vt vt' \<longleftrightarrow> length vt \<le> length vt' \<and> length vt' \<le> length vt + (i' - i)
     \<and> (\<forall>j<length vt. kat s (vt' ! j) = kat s (vt ! j)) \<and> (\<forall>m. i \<le> m \<and> m < i' \<longrightarrow> (a, m) \<in> set vt')
     \<and> (\<forall>j<length vt'. j < length vt \<and> vt' ! j = vt ! j \<or> (\<exists>m. i \<le> m \<and> m < i' \<and> vt' ! j = (a, m)))"

lemma same_index0:
  assumes "m\<lparr>methodIndex := 0\<rparr> = m'\<lparr>methodIndex := 0\<rparr>"
  shows "meth_clazz m = meth_clazz m'" "meth_accessFlags m = meth_accessFlags m'" "meth_name m = meth_name m'" "prototype m = prototype m'"
    "insns m = insns m'" "nativeFunc m = nativeFunc m'"
  using assms by (cases m; cases m'; simp)+

lemma same_methods_kat: "same_methods a s s' \<Longrightarrow> valid s p \<Longrightarrow> kat s' p = kat s p"
proof -
  assume "same_methods a s s'" and "valid s p"
  then have "(mth s' p)\<lparr>methodIndex := 0\<rparr> = (mth s p)\<lparr>methodIndex := 0\<rparr>" unfolding same_methods_def by blast
  from same_index0(3,4) [OF this] show ?thesis by (simp add: kat_def method_key_def)
qed

lemma same_methods_refl [simp]: "same_methods a s s" by (simp add: same_methods_def)

lemma same_methods_trans: "same_methods a s s' \<Longrightarrow> same_methods a s' s'' \<Longrightarrow> same_methods a s s''"
  by (simp add: same_methods_def same_sizes_def)

lemma same_methods_put: "valid s p \<Longrightarrow> same_methods (fst p) s (put s p ((mth s p)\<lparr>methodIndex := i\<rparr>))"
  by (auto simp: same_methods_def put_facts same_sizes_put)

lemma override_step:
  assumes inv: "vt_inv s a i sc vt" and p: "valid s (a, i)" and si: "si < sc" "kat s (vt ! si) = kat s (a, i)"
    and s': "s' = put s (a, i) ((mth s (a, i))\<lparr>methodIndex := word_of_nat si\<rparr>)"
  shows "vt_inv s' a (Suc i) sc (vt[si := (a, i)]) \<and> placed a i (Suc i) s vt (vt[si := (a, i)])"
proof -
  have I: "sc \<le> length vt" "\<forall>p\<in>set vt. valid s p" "\<forall>p\<in>set vt. fst p = a \<longrightarrow> snd p < i" "distinct (map (kat s) vt)"
    "\<forall>j<length vt. methodIndex (mth s (vt ! j)) = word_of_nat j" "\<forall>j. sc \<le> j \<and> j < length vt \<longrightarrow> fst (vt ! j) = a"
    using inv unfolding vt_inv_def by blast+
  have same: "same_methods a s s'" using same_methods_put [OF p] by (simp add: s')
  have v: "\<forall>p\<in>set (vt[si := (a, i)]). valid s p" using I(2) p set_update_subset_insert [of vt si "(a, i)"] by blast
  have "map (kat s') (vt[si := (a, i)]) = map (kat s) (vt[si := (a, i)])" using v same_methods_kat [OF same] by simp
  also have "\<dots> = map (kat s) vt" using si(2) I(1) si(1) by (simp add: map_update list_update_same_conv)
  finally have d: "distinct (map (kat s') (vt[si := (a, i)]))" using I(4) by simp
  have new: "vt ! j \<noteq> (a, i)" if "j < length vt" for j using I(3) nth_mem [OF that] by force
  have ix: "methodIndex (mth s' (vt[si := (a, i)] ! j)) = word_of_nat j" if "j < length vt" for j
    using that I(5) new [OF that] by (cases "j = si") (simp_all add: s' put_facts [OF p])
  have lo: "\<forall>q\<in>set (vt[si := (a, i)]). fst q = a \<longrightarrow> snd q < Suc i"
    using I(3) set_update_subset_insert [of vt si "(a, i)"] by fastforce
  have v': "\<forall>p\<in>set (vt[si := (a, i)]). valid s' p" using v by (auto simp: s' put_facts [OF p])
  have "vt_inv s' a (Suc i) sc (vt[si := (a, i)])"
    using I(1,6) v' d ix lo si(1) unfolding vt_inv_def by (simp add: nth_list_update)
  moreover have "placed a i (Suc i) s vt (vt[si := (a, i)])"
    using si I(1) by (auto simp: placed_def nth_list_update less_Suc_eq intro: set_update_memI)
  ultimately show ?thesis ..
qed

lemma append_step:
  assumes inv: "vt_inv s a i sc vt" and p: "valid s (a, i)" and new: "\<forall>q\<in>set vt. kat s q \<noteq> kat s (a, i)"
    and s': "s' = put s (a, i) ((mth s (a, i))\<lparr>methodIndex := word_of_nat (length vt)\<rparr>)"
  shows "vt_inv s' a (Suc i) sc (vt @ [(a, i)]) \<and> placed a i (Suc i) s vt (vt @ [(a, i)])"
proof -
  have I: "sc \<le> length vt" "\<forall>p\<in>set vt. valid s p" "\<forall>p\<in>set vt. fst p = a \<longrightarrow> snd p < i" "distinct (map (kat s) vt)"
    "\<forall>j<length vt. methodIndex (mth s (vt ! j)) = word_of_nat j" "\<forall>j. sc \<le> j \<and> j < length vt \<longrightarrow> fst (vt ! j) = a"
    using inv unfolding vt_inv_def by blast+
  have same: "same_methods a s s'" using same_methods_put [OF p] by (simp add: s')
  have k: "kat s' q = kat s q" if "q \<in> set (vt @ [(a, i)])" for q using that I(2) p by (intro same_methods_kat [OF same]) auto
  then have m: "map (kat s') (vt @ [(a, i)]) = map (kat s) (vt @ [(a, i)])" by simp
  have "distinct (map (kat s) (vt @ [(a, i)]))" using I(4) new by auto
  then have d: "distinct (map (kat s') (vt @ [(a, i)]))" unfolding m .
  have ne: "vt ! j \<noteq> (a, i)" if "j < length vt" for j using I(3) nth_mem [OF that] by force
  have ix: "methodIndex (mth s' ((vt @ [(a, i)]) ! j)) = word_of_nat j" if "j < length (vt @ [(a, i)])" for j
    using that I(5) ne by (cases "j < length vt") (auto simp: s' put_facts [OF p] nth_append less_Suc_eq)
  have "vt_inv s' a (Suc i) sc (vt @ [(a, i)])"
    unfolding vt_inv_def
  proof (intro conjI allI impI)
    show "sc \<le> length (vt @ [(a, i)])" using I(1) by simp
    show "\<forall>q\<in>set (vt @ [(a, i)]). valid s' q" using I(2) p by (auto simp: s' put_facts [OF p])
    show "\<forall>q\<in>set (vt @ [(a, i)]). fst q = a \<longrightarrow> snd q < Suc i" using I(3) by fastforce
    show "fst ((vt @ [(a, i)]) ! j) = a" if "sc \<le> j \<and> j < length (vt @ [(a, i)])" for j
      using that I(6) by (auto simp: nth_append less_Suc_eq)
  qed (use d ix in auto)
  moreover have "placed a i (Suc i) s vt (vt @ [(a, i)])" by (auto simp: placed_def nth_append less_Suc_eq)
  ultimately show ?thesis ..
qed

lemma place_method_spec:
  assumes inv: "vt_inv s a i sc vt" and p: "valid s (a, i)" and loc: "\<forall>m<i. kat s (a, m) \<noteq> kat s (a, i)"
  shows "(\<exists>s' vt'. place_method s (a, i) sc vt = Ret (True, s', vt') \<and> same_methods a s s' \<and> vt_inv s' a (Suc i) sc vt' \<and> placed a i (Suc i) s vt vt')
    \<or> place_method s (a, i) sc vt = Ret (False, s, vt) \<and> (\<exists>j. j < sc \<and> kat s (vt ! j) = kat s (a, i) \<and> dvmIsFinalMethod (mth s (vt ! j)))"
proof -
  have I: "sc \<le> length vt" "\<forall>p\<in>set vt. valid s p" "\<forall>p\<in>set vt. fst p = a \<longrightarrow> snd p < i" "\<forall>j. sc \<le> j \<and> j < length vt \<longrightarrow> fst (vt ! j) = a"
    using inv unfolding vt_inv_def by blast+
  have ps: "\<forall>p\<in>set (take sc vt). valid s p" using I(2) by (auto dest: in_set_takeD)
  have same: "same_methods a s (put s (a, i) ((mth s (a, i))\<lparr>methodIndex := w\<rparr>))" for w using same_methods_put [OF p] by simp
  from find_override_spec [OF ps, of "mth s (a, i)" 0]
  consider "find_override s (mth s (a, i)) (take sc vt) 0 = Ret None" "\<forall>p\<in>set (take sc vt). kat s p \<noteq> kat s (a, i)"
    | j where "j < sc" "find_override s (mth s (a, i)) (take sc vt) 0 = Ret (Some j)" "kat s (vt ! j) = kat s (a, i)"
    using I(1) by (auto simp: kat_def)
  then show ?thesis
  proof cases
    case 1
    have "kat s q \<noteq> kat s (a, i)" if q: "q \<in> set vt" for q
    proof -
      obtain j where j: "j < length vt" "q = vt ! j" using q unfolding in_set_conv_nth by blast
      show ?thesis
      proof (cases "j < sc")
        case True
        then have "q \<in> set (take sc vt)" using j by (auto simp: in_set_conv_nth)
        then show ?thesis using 1(2) by blast
      next
        case False
        then have "fst q = a" using I(4) j by auto
        then show ?thesis using I(3) q loc by (cases q) force
      qed
    qed
    then show ?thesis using append_step [OF inv p _ refl] 1(1) p same by (simp add: place_method_def)
  next
    case 2
    have "vt ! j \<in> set vt" using 2(1) I(1) by simp
    then have "valid s (vt ! j)" using I(2) by blast
    then show ?thesis using override_step [OF inv p 2(1,3) refl] 2 p same by (cases "dvmIsFinalMethod (mth s (vt ! j))") (auto simp: place_method_def)
  qed
qed

lemma placed_refl [simp]: "placed a i i s vt vt" by (auto simp: placed_def)

lemma placed_kat:
  assumes "same_methods a s s'" and "\<forall>p\<in>set vt. valid s p" and "\<forall>p\<in>set vt'. valid s p"
  shows "placed a i i' s' vt vt' = placed a i i' s vt vt'"
proof -
  have "kat s' (vt ! j) = kat s (vt ! j)" if "j < length vt" for j
    using assms(2) nth_mem [OF that] by (intro same_methods_kat [OF assms(1)]) blast
  moreover have "kat s' (vt' ! j) = kat s (vt' ! j)" if "j < length vt'" for j
    using assms(3) nth_mem [OF that] by (intro same_methods_kat [OF assms(1)]) blast
  ultimately have "length vt \<le> length vt' \<Longrightarrow> (\<forall>j<length vt. kat s' (vt' ! j) = kat s' (vt ! j)) = (\<forall>j<length vt. kat s (vt' ! j) = kat s (vt ! j))"
    by simp
  then show ?thesis unfolding placed_def by blast
qed

lemma placed_trans:
  assumes p: "placed a i i' s vt vt'" "placed a i' i'' s vt' vt''" and le: "i \<le> i'" "i' \<le> i''"
    and loc: "\<forall>m n. m < n \<and> n < i'' \<longrightarrow> kat s (a, m) \<noteq> kat s (a, n)"
  shows "placed a i i'' s vt vt''"
proof -
  have A: "length vt \<le> length vt'" "length vt' \<le> length vt + (i' - i)" "\<forall>j<length vt. kat s (vt' ! j) = kat s (vt ! j)"
    "\<forall>m. i \<le> m \<and> m < i' \<longrightarrow> (a, m) \<in> set vt'" "\<forall>j<length vt'. j < length vt \<and> vt' ! j = vt ! j \<or> (\<exists>m. i \<le> m \<and> m < i' \<and> vt' ! j = (a, m))"
    using p(1) unfolding placed_def by blast+
  have B: "length vt' \<le> length vt''" "length vt'' \<le> length vt' + (i'' - i')" "\<forall>j<length vt'. kat s (vt'' ! j) = kat s (vt' ! j)"
    "\<forall>m. i' \<le> m \<and> m < i'' \<longrightarrow> (a, m) \<in> set vt''" "\<forall>j<length vt''. j < length vt' \<and> vt'' ! j = vt' ! j \<or> (\<exists>m. i' \<le> m \<and> m < i'' \<and> vt'' ! j = (a, m))"
    using p(2) unfolding placed_def by blast+
  have "(a, m) \<in> set vt''" if m: "i \<le> m" "m < i''" for m
  proof (cases "m < i'")
    case True
    then obtain j where j: "j < length vt'" "vt' ! j = (a, m)" using A(4) m(1) unfolding in_set_conv_nth by blast
    then have k: "kat s (vt'' ! j) = kat s (a, m)" "j < length vt''" using B(1,3) by auto
    then consider "vt'' ! j = (a, m)" | n where "i' \<le> n" "n < i''" "vt'' ! j = (a, n)" using B(5) j by metis
    then have "vt'' ! j = (a, m)"
    proof cases
      case (2 n)
      then show ?thesis using loc True k(1) by (metis order_less_le_trans)
    qed
    then show ?thesis using k(2) nth_mem by metis
  qed (use B(4) m in auto)
  moreover have "j < length vt \<and> vt'' ! j = vt ! j \<or> (\<exists>m. i \<le> m \<and> m < i'' \<and> vt'' ! j = (a, m))" if j: "j < length vt''" for j
  proof -
    from B(5) j consider "j < length vt'" "vt'' ! j = vt' ! j" | m where "i' \<le> m" "m < i''" "vt'' ! j = (a, m)" by blast
    then show ?thesis
    proof cases
      case 1
      from A(5) 1(1) consider "j < length vt" "vt' ! j = vt ! j" | m where "i \<le> m" "m < i'" "vt' ! j = (a, m)" by blast
      then show ?thesis using 1 le by cases (auto intro!: exI)
    qed (use le in auto)
  qed
  ultimately show ?thesis using A(1-3) B(1-3) le unfolding placed_def by simp
qed

lemma vtable_loop_spec:
  assumes "vt_inv s a i sc vt" and "\<forall>m<i + n. valid s (a, m)" and "\<forall>m k. m < k \<and> k < i + n \<longrightarrow> kat s (a, m) \<noteq> kat s (a, k)"
  shows "\<exists>ok s' vt'. vtable_loop s a sc i n vt = Ret (ok, s', vt') \<and> same_methods a s s' \<and>
    (ok \<longrightarrow> vt_inv s' a (i + n) sc vt' \<and> placed a i (i + n) s vt vt') \<and>
    (\<not> ok \<longrightarrow> (\<exists>m j. i \<le> m \<and> m < i + n \<and> j < sc \<and> kat s (vt ! j) = kat s (a, m) \<and> dvmIsFinalMethod (mth s (vt ! j))))"
  using assms
proof (induction n arbitrary: s i vt)
  case 0
  then show ?case by (intro exI [of _ True]) simp
next
  case (Suc n)
  have v: "valid s (a, i)" using Suc.prems(2) by simp
  have vt: "sc \<le> length vt" "\<forall>p\<in>set vt. valid s p" using Suc.prems(1) unfolding vt_inv_def by blast+
  from place_method_spec [OF Suc.prems(1) v] Suc.prems(3)
  consider s1 vt1 where "place_method s (a, i) sc vt = Ret (True, s1, vt1)" "same_methods a s s1" "vt_inv s1 a (Suc i) sc vt1" "placed a i (Suc i) s vt vt1"
    | j where "place_method s (a, i) sc vt = Ret (False, s, vt)" "j < sc" "kat s (vt ! j) = kat s (a, i)" "dvmIsFinalMethod (mth s (vt ! j))"
    by fastforce
  then show ?case
  proof cases
    case 1
    have val: "\<forall>m<Suc i + n. valid s1 (a, m)" using Suc.prems(2) 1(2) unfolding same_methods_def by simp
    have keq: "kat s1 (a, m) = kat s (a, m)" if "m < i + Suc n" for m using same_methods_kat [OF 1(2)] Suc.prems(2) that by blast
    then have loc: "\<forall>m k. m < k \<and> k < Suc i + n \<longrightarrow> kat s1 (a, m) \<noteq> kat s1 (a, k)" using Suc.prems(3) by simp
    obtain ok s' vt' where r: "vtable_loop s1 a sc (Suc i) n vt1 = Ret (ok, s', vt')" "same_methods a s1 s'"
      "ok \<longrightarrow> vt_inv s' a (Suc i + n) sc vt' \<and> placed a (Suc i) (Suc i + n) s1 vt1 vt'"
      "\<not> ok \<longrightarrow> (\<exists>m j. Suc i \<le> m \<and> m < Suc i + n \<and> j < sc \<and> kat s1 (vt1 ! j) = kat s1 (a, m) \<and> dvmIsFinalMethod (mth s1 (vt1 ! j)))"
      using Suc.IH [OF 1(3) val loc] by blast
    have vt1: "\<forall>p\<in>set vt1. valid s p" using 1(2,3) unfolding vt_inv_def same_methods_def by blast
    have run: "vtable_loop s a sc i (Suc n) vt = Ret (ok, s', vt')" using 1(1) r(1) by simp
    moreover have same: "same_methods a s s'" by (rule same_methods_trans [OF 1(2) r(2)])
    moreover have "vt_inv s' a (i + Suc n) sc vt' \<and> placed a i (i + Suc n) s vt vt'" if ok: ok
    proof -
      have vt': "\<forall>p\<in>set vt'. valid s p" using r(3) same ok unfolding vt_inv_def same_methods_def by blast
      have "placed a (Suc i) (Suc i + n) s vt1 vt'" using r(3) ok placed_kat [OF 1(2) vt1 vt'] by simp
      from placed_trans [OF 1(4) this] Suc.prems(3) show ?thesis using r(3) ok by simp
    qed
    moreover have "\<exists>m j. i \<le> m \<and> m < i + Suc n \<and> j < sc \<and> kat s (vt ! j) = kat s (a, m) \<and> dvmIsFinalMethod (mth s (vt ! j))"
      if bad: "\<not> ok"
    proof -
      obtain m j where f: "Suc i \<le> m" "m < Suc i + n" "j < sc" "kat s1 (vt1 ! j) = kat s1 (a, m)" "dvmIsFinalMethod (mth s1 (vt1 ! j))"
        using r(4) bad by blast
      have P: "length vt \<le> length vt1" "\<forall>j<length vt. kat s (vt1 ! j) = kat s (vt ! j)"
        "\<forall>j<length vt1. j < length vt \<and> vt1 ! j = vt ! j \<or> (\<exists>m. i \<le> m \<and> m < Suc i \<and> vt1 ! j = (a, m))"
        using 1(4) unfolding placed_def by blast+
      have j: "j < length vt1" "j < length vt" using f(3) vt(1) P(1) by simp_all
      have "valid s (vt1 ! j)" using vt1 nth_mem [OF j(1)] by blast
      then have k: "kat s (vt ! j) = kat s (a, m)" using same_methods_kat [OF 1(2)] f keq [of m] P(2) j by simp
      have "vt1 ! j = vt ! j"
      proof (rule ccontr)
        assume "vt1 ! j \<noteq> vt ! j"
        then have "vt1 ! j = (a, i)" using P(3) j by (metis le_antisym less_Suc_eq_le)
        then have "kat s (a, i) = kat s (a, m)" using P(2) j(2) k by metis
        then show False using Suc.prems(3) f(1,2) by (metis Suc_le_eq add_Suc_shift)
      qed
      moreover have "valid s (vt ! j)" using vt(2) nth_mem [OF j(2)] by blast
      then have "(mth s1 (vt ! j))\<lparr>methodIndex := 0\<rparr> = (mth s (vt ! j))\<lparr>methodIndex := 0\<rparr>" using 1(2) unfolding same_methods_def by blast
      from same_index0(2) [OF this] have "dvmIsFinalMethod (mth s1 (vt ! j)) = dvmIsFinalMethod (mth s (vt ! j))" by (simp add: dvmIsFinalMethod_def)
      ultimately show ?thesis using f k by (intro exI [of _ m] exI [of _ j]) auto
    qed
    ultimately show ?thesis by blast
  next
    case 2
    then have "vtable_loop s a sc i (Suc n) vt = Ret (False, s, vt)" by simp
    moreover have "\<exists>m j. i \<le> m \<and> m < i + Suc n \<and> j < sc \<and> kat s (vt ! j) = kat s (a, m) \<and> dvmIsFinalMethod (mth s (vt ! j))"
      using 2 by (intro exI [of _ i] exI [of _ j]) simp
    ultimately show ?thesis using same_methods_refl by blast
  qed
qed

lemma number_methods_spec:
  assumes "\<forall>m<i + n. valid s (a, m)"
  shows "\<exists>s'. number_methods s a i n = Ret s' \<and> same_methods a s s' \<and> (\<forall>m. i \<le> m \<and> m < i + n \<longrightarrow> methodIndex (mth s' (a, m)) = word_of_nat m)
    \<and> (\<forall>m<i. methodIndex (mth s' (a, m)) = methodIndex (mth s (a, m)))"
  using assms
proof (induction n arbitrary: s i)
  case (Suc n)
  let ?s = "put s (a, i) ((mth s (a, i))\<lparr>methodIndex := word_of_nat i\<rparr>)"
  have v: "valid s (a, i)" using Suc.prems by simp
  have same: "same_methods a s ?s" using same_methods_put [OF v] by simp
  then have "\<forall>m<Suc i + n. valid ?s (a, m)" using Suc.prems unfolding same_methods_def by simp
  from Suc.IH [OF this] obtain s' where r: "number_methods ?s a (Suc i) n = Ret s'" "same_methods a ?s s'"
    "\<forall>m. Suc i \<le> m \<and> m < Suc i + n \<longrightarrow> methodIndex (mth s' (a, m)) = word_of_nat m"
    "\<forall>m<Suc i. methodIndex (mth s' (a, m)) = methodIndex (mth ?s (a, m))" by blast
  have "number_methods s a i (Suc n) = Ret s'" using v r(1) by simp
  moreover have "methodIndex (mth s' (a, m)) = word_of_nat m" if "i \<le> m" "m < i + Suc n" for m
    using that r(3,4) by (cases "m = i") (simp_all add: put_facts [OF v])
  moreover have "methodIndex (mth s' (a, m)) = methodIndex (mth s (a, m))" if "m < i" for m
    using that r(4) by (simp add: put_facts [OF v])
  ultimately show ?case using same_methods_trans [OF same r(2)] by blast
qed auto

end
