(* ===== verification/ClassIftable.thy ===== *)
theory ClassIftable
  imports ClassVtable
begin

text \<open>
  The interface tables: every index points at a slot with the name and prototype of the interface method, in the method table or among
  the Miranda methods that are added to it; and the move of the methods of a class leaves no pointer behind.
\<close>

section \<open>Searching\<close>

lemma find_impl_spec:
  "\<forall>j<n. valid s (vt ! j) \<Longrightarrow> find_impl s m vt n = Ret None \<and> (\<forall>j<n. kat s (vt ! j) \<noteq> method_key m) \<or>
    (\<exists>j<n. find_impl s m vt n = Ret (Some j) \<and> kat s (vt ! j) = method_key m)"
  by (induction n) (auto simp: kat_def less_Suc_eq)

lemma find_miranda_spec:
  assumes "\<forall>p\<in>set ps. valid s p"
  shows "\<exists>j\<le>length ps. find_miranda s m ps mir = Ret (mir + j) \<and> (j < length ps \<longrightarrow> kat s (ps ! j) = method_key m)
    \<and> (j = length ps \<longrightarrow> (\<forall>p\<in>set ps. kat s p \<noteq> method_key m))"
  using assms
proof (induction ps arbitrary: mir)
  case (Cons p ps)
  show ?case
  proof (cases "kat s p = method_key m")
    case True
    then show ?thesis using Cons.prems by (intro exI [of _ 0]) (simp add: kat_def)
  next
    case False
    obtain j where "j \<le> length ps" "find_miranda s m ps (mir + 1) = Ret (mir + 1 + j)" "j < length ps \<longrightarrow> kat s (ps ! j) = method_key m"
      "j = length ps \<longrightarrow> (\<forall>p\<in>set ps. kat s p \<noteq> method_key m)" using Cons.IH [of "mir + 1"] Cons.prems by auto
    then show ?thesis using False Cons.prems by (intro exI [of _ "Suc j"]) (auto simp: kat_def)
  qed
qed simp

section \<open>Matching the methods of the interfaces\<close>

definition slots_ok :: "link_state \<Rightarrow> mptr list \<Rightarrow> bool" where
  "slots_ok s l \<longleftrightarrow> (\<forall>p\<in>set l. valid s p) \<and> distinct (map (kat s) l)"

definition idx_ok :: "link_state \<Rightarrow> mptr list \<Rightarrow> nat \<Rightarrow> string \<times> DexProto \<Rightarrow> bool" where
  "idx_ok s l j k \<longleftrightarrow> j < length l \<and> kat s (l ! j) = k"

lemma idx_ok_append: "idx_ok s l j k \<Longrightarrow> idx_ok s (l @ l') j k" by (simp add: idx_ok_def nth_append)

definition method_ptrs :: "LinkClass \<Rightarrow> mptr set" where
  "method_ptrs C = {(virtualMethods C, m) |m. m < virtualMethodCount C}"

definition entry_matches :: "link_state \<Rightarrow> mptr list \<Rightarrow> InterfaceEntry \<Rightarrow> bool" where
  "entry_matches s l e \<longleftrightarrow> (\<exists>I. classes s (entry_clazz e) = Some I \<and> is_interface_class I \<and> (case methodIndexArray e of
     None \<Rightarrow> virtualMethodCount I = 0
   | Some idxs \<Rightarrow> length idxs = virtualMethodCount I \<and> (\<forall>m<virtualMethodCount I. idx_ok s l (idxs ! m) (kat s (virtualMethods I, m)))))"

lemma entry_matches_append: "entry_matches s l e \<Longrightarrow> entry_matches s (l @ l') e"
  unfolding entry_matches_def using idx_ok_append [of s l _ _ l'] by (cases "methodIndexArray e") (simp, simp, blast)

lemma match_methods_spec:
  assumes "slots_ok s (vt @ ml)" and "\<forall>m<i + n. valid s (a, m)"
  shows "\<exists>ok new xs. match_methods s vt a i n ml idxs = Ret (ok, ml @ new, idxs @ xs) \<and> slots_ok s (vt @ ml @ new)
    \<and> set new \<subseteq> Pair a ` {i..<i + n}
    \<and> (ok \<longrightarrow> length xs = n \<and> (\<forall>m<n. idx_ok s (vt @ ml @ new) (xs ! m) (kat s (a, i + m))))"
  using assms
proof (induction n arbitrary: i ml idxs)
  case 0
  then show ?case by (intro exI [of _ True] exI [of _ "[]"]) simp
next
  case (Suc n)
  have v: "valid s (a, i)" and vt: "\<forall>j<length vt. valid s (vt ! j)" and ml: "\<forall>p\<in>set ml. valid s p"
    using Suc.prems by (auto simp: slots_ok_def)
  have go: ?case if "match_methods s vt a i (Suc n) ml idxs = match_methods s vt a (Suc i) n ml' (idxs @ [x])"
      and ml': "ml' = ml \<or> ml' = ml @ [(a, i)]" and ok: "slots_ok s (vt @ ml')" and x: "idx_ok s (vt @ ml') x (kat s (a, i))" for ml' x
  proof -
    have "\<forall>m<Suc i + n. valid s (a, m)" using Suc.prems(2) by simp
    from Suc.IH [OF ok this, of "idxs @ [x]"] obtain b new xs
      where r: "match_methods s vt a (Suc i) n ml' (idxs @ [x]) = Ret (b, ml' @ new, (idxs @ [x]) @ xs)" "slots_ok s (vt @ ml' @ new)"
        "set new \<subseteq> Pair a ` {Suc i..<Suc i + n}"
        "b \<longrightarrow> length xs = n \<and> (\<forall>m<n. idx_ok s (vt @ ml' @ new) (xs ! m) (kat s (a, Suc i + m)))" by blast
    obtain new' where new': "ml' @ new = ml @ new'" "set new' \<subseteq> Pair a ` {i..<i + Suc n}"
    proof (cases "ml' = ml")
      case True
      show ?thesis by (rule that [of new]) (use True r(3) in fastforce)+
    next
      case False
      show ?thesis by (rule that [of "(a, i) # new"]) (use False ml' r(3) in fastforce)+
    qed
    have "idx_ok s (vt @ ml @ new') ((x # xs) ! m) (kat s (a, i + m))" if "b" "m < Suc n" for m
      using that r(4) idx_ok_append [OF x, of new] new'(1) by (cases m) auto
    then show ?thesis using r(1,2,4) that(1) new' by (intro exI [of _ b] exI [of _ new'] exI [of _ "x # xs"]) auto
  qed
  from find_impl_spec [OF vt, of "mth s (a, i)"]
  consider "find_impl s (mth s (a, i)) vt (length vt) = Ret None" "\<forall>j<length vt. kat s (vt ! j) \<noteq> kat s (a, i)"
    | j where "j < length vt" "find_impl s (mth s (a, i)) vt (length vt) = Ret (Some j)" "kat s (vt ! j) = kat s (a, i)"
    unfolding kat_def by blast
  then show ?case
  proof cases
    case 1
    obtain j where j: "j \<le> length ml" "find_miranda s (mth s (a, i)) ml 0 = Ret j" "j < length ml \<longrightarrow> kat s (ml ! j) = kat s (a, i)"
      "j = length ml \<longrightarrow> (\<forall>p\<in>set ml. kat s p \<noteq> kat s (a, i))" using find_miranda_spec [OF ml, of "mth s (a, i)" 0] by (auto simp: kat_def)
    let ?ml = "if j = length ml then ml @ [(a, i)] else ml"
    have "\<forall>p\<in>set vt. kat s p \<noteq> kat s (a, i)" using 1(2) by (metis in_set_conv_nth)
    then have "slots_ok s (vt @ ?ml)" using Suc.prems(1) v j(4) by (auto simp: slots_ok_def)
    moreover have "idx_ok s (vt @ ?ml) (length vt + j) (kat s (a, i))" using j(1,3) by (auto simp: idx_ok_def nth_append)
    moreover have "match_methods s vt a i (Suc n) ml idxs = match_methods s vt a (Suc i) n ?ml (idxs @ [length vt + j])"
      using v 1(1) j(2) by simp
    ultimately show ?thesis by (intro go [of ?ml "length vt + j"]) auto
  next
    case 2
    show ?thesis
    proof (cases "dvmIsPublicMethod (mth s (vt ! j))")
      case True
      have "match_methods s vt a i (Suc n) ml idxs = match_methods s vt a (Suc i) n ml (idxs @ [j])" using v vt 2 True by simp
      then show ?thesis using 2 Suc.prems(1) by (intro go [of ml j]) (auto simp: idx_ok_def nth_append)
    next
      case False
      then have "match_methods s vt a i (Suc n) ml idxs = Ret (False, ml, idxs)" using v vt 2 by simp
      then show ?thesis using Suc.prems(1) by (intro exI [of _ False] exI [of _ "[]"]) simp
    qed
  qed
qed

lemma match_interfaces_spec:
  assumes "slots_ok s (vt @ ml)" and "\<forall>e\<in>set es. \<exists>I. classes s (entry_clazz e) = Some I \<and> is_interface_class I \<and> (\<forall>p\<in>method_ptrs I. valid s p)"
  shows "\<exists>ok new es'. match_interfaces s vt es ml = Ret (ok, ml @ new, es') \<and> slots_ok s (vt @ ml @ new)
    \<and> (\<forall>p\<in>set new. \<exists>e\<in>set es. \<exists>I. classes s (entry_clazz e) = Some I \<and> p \<in> method_ptrs I) \<and> map entry_clazz es' = map entry_clazz es
    \<and> (ok \<longrightarrow> (\<forall>e\<in>set es'. entry_matches s (vt @ ml @ new) e))"
  using assms
proof (induction es arbitrary: ml)
  case Nil
  then show ?case by (intro exI [of _ True] exI [of _ "[]"]) simp
next
  case (Cons e es)
  obtain I where I: "classes s (entry_clazz e) = Some I" "is_interface_class I" "\<forall>p\<in>method_ptrs I. valid s p" using Cons.prems(2) by auto
  then have val: "\<forall>m<0 + virtualMethodCount I. valid s (virtualMethods I, m)" by (auto simp: method_ptrs_def)
  obtain b new xs where m: "match_methods s vt (virtualMethods I) 0 (virtualMethodCount I) ml [] = Ret (b, ml @ new, [] @ xs)" "slots_ok s (vt @ ml @ new)"
    "set new \<subseteq> Pair (virtualMethods I) ` {0..<0 + virtualMethodCount I}"
    "b \<longrightarrow> length xs = virtualMethodCount I \<and> (\<forall>m<virtualMethodCount I. idx_ok s (vt @ ml @ new) (xs ! m) (kat s (virtualMethods I, 0 + m)))"
    using match_methods_spec [OF Cons.prems(1) val, of "[]"] by blast
  have newI: "\<forall>p\<in>set new. p \<in> method_ptrs I" using m(3) by (auto simp: method_ptrs_def)
  have g: "get_class s (entry_clazz e) = Ret I" using I(1) by (simp add: get_class_def)
  show ?case
  proof (cases b)
    case True
    obtain ok new2 es' where r: "match_interfaces s vt es (ml @ new) = Ret (ok, (ml @ new) @ new2, es')" "slots_ok s (vt @ (ml @ new) @ new2)"
      "\<forall>p\<in>set new2. \<exists>e\<in>set es. \<exists>I. classes s (entry_clazz e) = Some I \<and> p \<in> method_ptrs I" "map entry_clazz es' = map entry_clazz es"
      "ok \<longrightarrow> (\<forall>e\<in>set es'. entry_matches s (vt @ (ml @ new) @ new2) e)" using Cons.IH [of "ml @ new"] m(2) Cons.prems(2) by auto
    let ?e = "e\<lparr>methodIndexArray := Some xs\<rparr>"
    have run: "match_interfaces s vt (e # es) ml = Ret (ok, ml @ new @ new2, ?e # es')" using g m(1) r(1) True by simp
    have "entry_matches s (vt @ ml @ new) ?e" using I(1,2) m(4) True by (auto simp: entry_matches_def)
    then have e': "entry_matches s (vt @ ml @ new @ new2) ?e" using entry_matches_append [of s "vt @ ml @ new" ?e new2] by simp
    have "\<forall>p\<in>set (new @ new2). \<exists>e\<in>set (e # es). \<exists>I. classes s (entry_clazz e) = Some I \<and> p \<in> method_ptrs I"
      using newI I(1) r(3) by auto
    then show ?thesis using run r(2,4,5) e' by (intro exI [of _ ok] exI [of _ "new @ new2"] exI [of _ "?e # es'"]) simp
  next
    case False
    have "match_interfaces s vt (e # es) ml = Ret (False, ml @ new, e\<lparr>methodIndexArray := Some xs\<rparr> # es)" using g m(1) False by simp
    then show ?thesis using m(2) newI I(1) by (intro exI [of _ False] exI [of _ new] exI [of _ "e\<lparr>methodIndexArray := Some xs\<rparr> # es"]) (auto simp del: match_interfaces.simps)
  qed
qed

section \<open>Moving the methods\<close>

text \<open>Where a pointer points after the array \<open>a\<close> has been moved to \<open>a'\<close>, for the first \<open>k\<close> methods of it.\<close>

definition moved :: "u8 \<Rightarrow> u8 \<Rightarrow> nat \<Rightarrow> mptr \<Rightarrow> mptr" where
  "moved a a' k p = (if fst p = a \<and> snd p < k then (a', snd p) else p)"

lemma moved_step:
  assumes "distinct vt" and "j < length vt" and "vt ! j = (a, i)"
  shows "(map (moved a a' i) vt)[j := (a', i)] = map (moved a a' (Suc i)) vt"
proof (rule nth_equalityI)
  fix k assume k: "k < length ((map (moved a a' i) vt)[j := (a', i)])"
  show "(map (moved a a' i) vt)[j := (a', i)] ! k = map (moved a a' (Suc i)) vt ! k"
  proof (cases "k = j")
    case False
    then have "vt ! k \<noteq> (a, i)" using assms k nth_eq_iff_index_eq [OF assms(1), of k j] by auto
    then have "\<not> (fst (vt ! k) = a \<and> snd (vt ! k) = i)" by (metis prod.collapse)
    then show ?thesis using False k by (auto simp: moved_def less_Suc_eq)
  qed (use assms in \<open>simp add: moved_def\<close>)
qed simp

lemma fix_vtable_spec:
  assumes "distinct vt" and "\<And>m. m < i + n \<Longrightarrow> valid s (a', m) \<and> (\<exists>j<length vt. vt ! j = (a, m) \<and> unat (methodIndex (mth s (a', m))) = j)"
  shows "fix_vtable s a' i n (map (moved a a' i) vt) = Ret (map (moved a a' (i + n)) vt)"
  using assms(2)
proof (induction n arbitrary: i)
  case (Suc n)
  obtain j where j: "j < length vt" "vt ! j = (a, i)" "unat (methodIndex (mth s (a', i))) = j" and v: "valid s (a', i)"
    using Suc.prems [of i] by auto
  have "fix_vtable s a' i (Suc n) (map (moved a a' i) vt) = fix_vtable s a' (Suc i) n (map (moved a a' (Suc i)) vt)"
    using v j moved_step [OF assms(1) j(1,2)] by (simp add: list_store_def)
  also have "\<dots> = Ret (map (moved a a' (Suc i + n)) vt)" using Suc.prems by (intro Suc.IH) simp
  finally show ?case by simp
qed simp

fun clones :: "link_state \<Rightarrow> u8 \<Rightarrow> nat \<Rightarrow> mptr list \<Rightarrow> LinkMethod list" where
  "clones s c k [] = []"
| "clones s c k (p # ps) = miranda_method c k (mth s p) # clones s c (Suc k) ps"

lemma length_clones [simp]: "length (clones s c k ps) = length ps" by (induction ps arbitrary: k) auto

lemma nth_clones: "i < length ps \<Longrightarrow> clones s c k ps ! i = miranda_method c (k + i) (mth s (ps ! i))"
  by (induction ps arbitrary: k i) (auto simp: nth_Cons')

lemma clones_cong: "\<forall>p\<in>set ps. mth s p = mth s' p \<Longrightarrow> clones s c k ps = clones s' c k ps"
  by (induction ps arbitrary: k) auto

lemma add_mirandas_spec:
  assumes "methods s a = Some ms" and "length ms = n" and "\<forall>p\<in>set ml. valid s p \<and> fst p \<noteq> a"
  shows "add_mirandas s c a n ml vt =
    Ret (s\<lparr>methods := (methods s)(a \<mapsto> ms @ clones s c (length vt) ml)\<rparr>, vt @ map (Pair a) [n..<n + length ml])"
  using assms
proof (induction ml arbitrary: s ms n vt)
  case Nil
  then show ?case by (simp add: fun_upd_idem)
next
  case (Cons p ml)
  let ?m = "miranda_method c (length vt) (mth s p)"
  let ?s = "s\<lparr>methods := (methods s)(a \<mapsto> ms @ [?m])\<rparr>"
  have keep: "valid ?s q \<and> fst q \<noteq> a" "mth ?s q = mth s q" if "q \<in> set ml" for q
    using Cons.prems(3) that by (auto simp: valid_def mth_def)
  have "add_mirandas s c a n (p # ml) vt = add_mirandas ?s c a (Suc n) ml (vt @ [(a, n)])"
    using Cons.prems by (simp add: append_method_def)
  also have "\<dots> = Ret (?s\<lparr>methods := (methods ?s)(a \<mapsto> (ms @ [?m]) @ clones ?s c (length (vt @ [(a, n)])) ml)\<rparr>,
      (vt @ [(a, n)]) @ map (Pair a) [Suc n..<Suc n + length ml])"
    using keep Cons.prems(2) by (intro Cons.IH) auto
  finally have run: "add_mirandas s c a n (p # ml) vt = \<dots>" .
  have upt: "map (Pair a) [n..<n + length (p # ml)] = (a, n) # map (Pair a) [Suc n..<Suc n + length ml]" by (simp add: upt_conv_Cons del: upt_Suc)
  have "clones ?s c (Suc (length vt)) ml = clones s c (Suc (length vt)) ml" using keep(2) by (intro clones_cong) blast
  then show ?case unfolding run upt by (simp add: fun_upd_def cong: if_cong)
qed

definition array_ok :: "link_state \<Rightarrow> LinkClass \<Rightarrow> bool" where
  "array_ok s C \<longleftrightarrow> (if virtualMethods C = 0 then virtualMethodCount C = 0
     else \<exists>ms. methods s (virtualMethods C) = Some ms \<and> length ms = virtualMethodCount C)"

definition method_array :: "link_state \<Rightarrow> LinkClass \<Rightarrow> LinkMethod list" where
  "method_array s C = (if virtualMethods C = 0 then [] else the (methods s (virtualMethods C)))"

text \<open>The methods after the expansion, and the class.\<close>

definition expanded :: "link_state \<Rightarrow> u8 \<Rightarrow> u8 \<Rightarrow> mptr list \<Rightarrow> LinkClass \<Rightarrow> link_state" where
  "expanded s c a' ml C = set_class
     (s\<lparr>methods := (methods s)(virtualMethods C := None, a' \<mapsto> method_array s C @ clones s c (length (vtable C)) ml)\<rparr>) c
     (C\<lparr>virtualMethods := a', virtualMethodCount := virtualMethodCount C + length ml,
        vtable := map (moved (virtualMethods C) a' (virtualMethodCount C)) (vtable C)
          @ map (Pair a') [virtualMethodCount C..<virtualMethodCount C + length ml]\<rparr>)"

lemma expand_mirandas_spec:
  assumes arr: "array_ok s C" and nil: "methods s 0 = None" and a': "a' \<noteq> 0" "a' = virtualMethods C \<or> methods s a' = None"
    and vt: "slots_ok s (vtable C)" "\<forall>j<length (vtable C). unat (methodIndex (mth s (vtable C ! j))) = j" "method_ptrs C \<subseteq> set (vtable C)"
    and ml: "\<forall>p\<in>set ml. valid s p \<and> fst p \<noteq> virtualMethods C"
  shows "expand_mirandas s c a' ml C = Ret (expanded s c a' ml C)"
proof -
  let ?a = "virtualMethods C" and ?n = "virtualMethodCount C"
  let ?s = "s\<lparr>methods := (methods s)(?a := None, a' \<mapsto> method_array s C)\<rparr>"
  have mv: "move_methods s ?a a' = Ret ?s"
    using arr nil by (auto simp: move_methods_def array_ok_def method_array_def fun_upd_idem)
  have len: "length (method_array s C) = ?n" using arr by (auto simp: array_ok_def method_array_def)
  have dist: "distinct (vtable C)" using vt(1) by (auto simp: slots_ok_def distinct_map)
  have fixed: "(if a' \<noteq> ?a then fix_vtable ?s a' 0 ?n (vtable C) else Ret (vtable C)) = Ret (map (moved ?a a' ?n) (vtable C))"
  proof (cases "a' = ?a")
    case True
    then have "moved ?a a' ?n p = p" for p by (cases p) (auto simp: moved_def)
    then show ?thesis using True by (simp add: map_idI)
  next
    case False
    have slot: "valid ?s (a', m) \<and> (\<exists>j<length (vtable C). vtable C ! j = (?a, m) \<and> unat (methodIndex (mth ?s (a', m))) = j)" if m: "m < 0 + ?n" for m
    proof -
      have "(?a, m) \<in> set (vtable C)" using vt(3) m by (auto simp: method_ptrs_def)
      then obtain j where j: "j < length (vtable C)" "vtable C ! j = (?a, m)" unfolding in_set_conv_nth by blast
      have "mth ?s (a', m) = mth s (?a, m)" using m arr by (auto simp: mth_def method_array_def array_ok_def)
      then show ?thesis using j vt(2) m len by (auto simp: valid_def)
    qed
    have id: "map (moved ?a a' 0) (vtable C) = vtable C" by (rule map_idI) (simp add: moved_def)
    show ?thesis using fix_vtable_spec [OF dist slot, of 0 ?n] False id by simp
  qed
  have keep: "valid ?s p \<and> fst p \<noteq> a'" "mth ?s p = mth s p" if "p \<in> set ml" for p
    using ml a' that by (auto simp: valid_def mth_def)
  have "add_mirandas ?s c a' ?n ml (map (moved ?a a' ?n) (vtable C)) =
      Ret (?s\<lparr>methods := (methods ?s)(a' \<mapsto> method_array s C @ clones ?s c (length (map (moved ?a a' ?n) (vtable C))) ml)\<rparr>,
        map (moved ?a a' ?n) (vtable C) @ map (Pair a') [?n..<?n + length ml])"
    using keep len by (intro add_mirandas_spec) auto
  moreover have "clones ?s c k ml = clones s c k ml" for k using keep(2) by (intro clones_cong) blast
  ultimately show ?thesis by (simp add: expand_mirandas_def mv fixed expanded_def)
qed

section \<open>Stubs\<close>

text \<open>What \<open>insertMethodStubs\<close> keeps of the methods.\<close>

definition same_shape :: "LinkMethod \<Rightarrow> LinkMethod \<Rightarrow> bool" where
  "same_shape m m' \<longleftrightarrow> meth_clazz m' = meth_clazz m \<and> methodIndex m' = methodIndex m \<and> meth_name m' = meth_name m \<and> prototype m' = prototype m
     \<and> insns m' = insns m \<and> dvmIsAbstractMethod m' = dvmIsAbstractMethod m
     \<and> (nativeFunc m' = nativeFunc m \<or> dvmIsAbstractMethod m \<and> nativeFunc m' = AbstractMethodStub)"

lemma same_shape_refl [simp]: "same_shape m m" by (simp add: same_shape_def)

lemma same_shape_trans: "same_shape m m' \<Longrightarrow> same_shape m' m'' \<Longrightarrow> same_shape m m''" by (auto simp: same_shape_def)

lemma native_not_abstract: "((f :: u4) OR ACC_NATIVE) AND ACC_ABSTRACT = f AND ACC_ABSTRACT"
  by (simp add: bit.conj_disj_distrib2 ACC_NATIVE_def ACC_ABSTRACT_def)

definition stub_method :: "LinkMethod \<Rightarrow> LinkMethod" where
  "stub_method m = m\<lparr>meth_accessFlags := meth_accessFlags m OR ACC_NATIVE, nativeFunc := AbstractMethodStub\<rparr>"

lemma same_shape_stub: "dvmIsAbstractMethod m \<Longrightarrow> same_shape m (stub_method m)"
  by (simp add: same_shape_def stub_method_def dvmIsAbstractMethod_def native_not_abstract)

lemma insert_stubs_spec:
  assumes "\<forall>m<i + n. valid s (a, m)" and "\<forall>m<i + n. dvmIsAbstractMethod (mth s (a, m)) \<longrightarrow> insns (mth s (a, m)) = 0
      \<and> nativeFunc (mth s (a, m)) \<in> {NullFunc, AbstractMethodStub}"
  shows "\<exists>s'. insert_stubs s a i n = Ret s' \<and> classes s' = classes s \<and> (\<forall>b. b \<noteq> a \<longrightarrow> methods s' b = methods s b)
    \<and> same_sizes s s' \<and> (\<forall>p. valid s' p = valid s p) \<and> (\<forall>p. same_shape (mth s p) (mth s' p))
    \<and> (\<forall>m. i \<le> m \<and> m < i + n \<and> dvmIsAbstractMethod (mth s (a, m)) \<longrightarrow> nativeFunc (mth s' (a, m)) = AbstractMethodStub)"
  using assms
proof (induction n arbitrary: s i)
  case (Suc n)
  have v: "valid s (a, i)" using Suc.prems(1) by simp
  define s1 where "s1 = (if dvmIsAbstractMethod (mth s (a, i)) then put s (a, i) (stub_method (mth s (a, i))) else s)"
  have A: "classes s1 = classes s" "\<And>b. b \<noteq> a \<Longrightarrow> methods s1 b = methods s b" "\<And>p. valid s1 p = valid s p" "\<And>p. same_shape (mth s p) (mth s1 p)"
    "same_sizes s s1" using put_facts [OF v] same_shape_stub same_sizes_put [OF v] by (auto simp: s1_def)
  have step: "insert_stubs s a i (Suc n) = insert_stubs s1 a (Suc i) n"
    using v Suc.prems(2) [rule_format, of i] by (auto simp: s1_def stub_method_def)
  have abs: "dvmIsAbstractMethod (mth s1 (a, m)) = dvmIsAbstractMethod (mth s (a, m))" for m using A(4) [of "(a, m)"] by (simp add: same_shape_def)
  have ok: "insns (mth s1 (a, m)) = 0 \<and> nativeFunc (mth s1 (a, m)) \<in> {NullFunc, AbstractMethodStub}"
    if "m < i + Suc n" "dvmIsAbstractMethod (mth s (a, m))" for m
    using Suc.prems(2) that A(4) [of "(a, m)"] by (auto simp: same_shape_def)
  have "\<forall>m<Suc i + n. valid s1 (a, m)" using Suc.prems(1) A(3) by simp
  moreover have "\<forall>m<Suc i + n. dvmIsAbstractMethod (mth s1 (a, m)) \<longrightarrow> insns (mth s1 (a, m)) = 0
      \<and> nativeFunc (mth s1 (a, m)) \<in> {NullFunc, AbstractMethodStub}" using ok abs by auto
  ultimately obtain s' where r: "insert_stubs s1 a (Suc i) n = Ret s'" "classes s' = classes s1" "\<forall>b. b \<noteq> a \<longrightarrow> methods s' b = methods s1 b"
    "\<forall>p. valid s' p = valid s1 p" "\<forall>p. same_shape (mth s1 p) (mth s' p)" "same_sizes s1 s'"
    "\<forall>m. Suc i \<le> m \<and> m < Suc i + n \<and> dvmIsAbstractMethod (mth s1 (a, m)) \<longrightarrow> nativeFunc (mth s' (a, m)) = AbstractMethodStub"
    using Suc.IH [of "Suc i" s1] by blast
  have shape: "\<forall>p. same_shape (mth s p) (mth s' p)" using A(4) r(5) same_shape_trans by blast
  have "nativeFunc (mth s' (a, m)) = AbstractMethodStub" if m: "i \<le> m" "m < i + Suc n" "dvmIsAbstractMethod (mth s (a, m))" for m
  proof (cases "m = i")
    case True
    then have "nativeFunc (mth s1 (a, m)) = AbstractMethodStub" using m(3) put_facts(2) [OF v] by (simp add: s1_def stub_method_def)
    then show ?thesis using r(5) [rule_format, of "(a, m)"] by (auto simp: same_shape_def)
  qed (use r(7) m abs in auto)
  then show ?case using step r shape A(1-3) same_sizes_trans [OF A(5) r(6)] by (intro exI [of _ s']) auto
qed auto

end
