(* ===== verification/ClassWorld.thy ===== *)
theory ClassWorld
  imports ClassIftable
begin

text \<open>
  The invariant of the loaded and linked classes: what linking establishes of the class it links, and that it leaves the other
  classes alone.
\<close>

section \<open>The invariant\<close>

text \<open>What loading establishes of every class: its methods, with distinct names and prototypes, and the element class of an array.\<close>

definition unbound :: "LinkMethod \<Rightarrow> bool" where
  "unbound m \<longleftrightarrow> (dvmIsAbstractMethod m \<longrightarrow> insns m = 0 \<and> nativeFunc m \<in> {NullFunc, AbstractMethodStub})"

definition loaded_class :: "link_state \<Rightarrow> u8 \<Rightarrow> LinkClass \<Rightarrow> bool" where
  "loaded_class s c C \<longleftrightarrow> array_ok s C \<and> (\<forall>p\<in>method_ptrs C. meth_clazz (mth s p) = c \<and> unbound (mth s p)) \<and> inj_on (kat s) (method_ptrs C)
     \<and> (array_name (class_descriptor C) \<longrightarrow> class_elementClass C \<in> dom (classes s))"

text \<open>The table of a class against the table of its superclass: the slots keep their keys, and the methods of the class come before the inherited ones.\<close>

definition extends_table :: "link_state \<Rightarrow> LinkClass \<Rightarrow> mptr list \<Rightarrow> bool" where
  "extends_table s C super_vt \<longleftrightarrow> length super_vt \<le> length (vtable C) \<and> (\<forall>j<length super_vt. kat s (vtable C ! j) = kat s (super_vt ! j))
     \<and> set (vtable C) = method_ptrs C \<union> {p \<in> set super_vt. kat s p \<notin> kat s ` method_ptrs C}"

definition super_table :: "link_state \<Rightarrow> LinkClass \<Rightarrow> mptr list" where
  "super_table s C = (if class_super C = 0 then [] else case classes s (class_super C) of None \<Rightarrow> [] | Some S \<Rightarrow> vtable S)"

definition good_table :: "link_state \<Rightarrow> LinkClass \<Rightarrow> bool" where
  "good_table s C \<longleftrightarrow> slots_ok s (vtable C) \<and> (\<forall>j<length (vtable C). methodIndex (mth s (vtable C ! j)) = word_of_nat j) \<and> extends_table s C (super_table s C)"

definition owned :: "link_state \<Rightarrow> u8 set \<Rightarrow> mptr \<Rightarrow> bool" where
  "owned s L p \<longleftrightarrow> (\<exists>d\<in>L. \<exists>D. classes s d = Some D \<and> p \<in> method_ptrs D)"

definition super_ok :: "link_state \<Rightarrow> u8 set \<Rightarrow> LinkClass \<Rightarrow> bool" where
  "super_ok s L C \<longleftrightarrow> class_super C = 0 \<or> class_super C \<in> L \<and> (\<exists>S. classes s (class_super C) = Some S \<and> \<not> is_interface_class S)"

definition interface_in :: "link_state \<Rightarrow> u8 set \<Rightarrow> u8 \<Rightarrow> bool" where
  "interface_in s L i \<longleftrightarrow> i \<in> L \<and> (\<exists>I. classes s i = Some I \<and> is_interface_class I)"

text \<open>The interfaces of a class: those of its superclass, those it names, and their superinterfaces.\<close>

definition inherited_entries :: "link_state \<Rightarrow> LinkClass \<Rightarrow> InterfaceEntry list" where
  "inherited_entries s C = (if class_super C = 0 then [] else case classes s (class_super C) of None \<Rightarrow> [] | Some S \<Rightarrow> class_iftable S)"

definition entries_of :: "link_state \<Rightarrow> u8 \<Rightarrow> u8 set" where
  "entries_of s i = (case classes s i of None \<Rightarrow> {} | Some I \<Rightarrow> entry_clazz ` set (class_iftable I))"

definition implemented :: "link_state \<Rightarrow> LinkClass \<Rightarrow> u8 set" where
  "implemented s C = entry_clazz ` set (inherited_entries s C) \<union> (\<Union>i\<in>set (class_interfaces C). insert i (entries_of s i))"

definition complete_entries :: "link_state \<Rightarrow> u8 set \<Rightarrow> LinkClass \<Rightarrow> bool" where
  "complete_entries s L C \<longleftrightarrow> (\<forall>i\<in>set (class_interfaces C). i \<in> L) \<and> entry_clazz ` set (class_iftable C) = implemented s C"

lemma implemented_cong:
  assumes "super_ok s L C" and "\<forall>i\<in>set (class_interfaces C). i \<in> L" and "\<And>d. d \<in> L \<Longrightarrow> classes s' d = classes s d"
    and "class_super C' = class_super C" and "class_interfaces C' = class_interfaces C"
  shows "implemented s' C' = implemented s C"
proof -
  have "inherited_entries s' C' = inherited_entries s C" using assms by (auto simp: inherited_entries_def super_ok_def)
  moreover have "entries_of s' i = entries_of s i" if "i \<in> L" for i using assms(3) [OF that] by (simp add: entries_of_def)
  ultimately show ?thesis using assms(2,5) by (simp add: implemented_def)
qed

definition linked_class :: "link_state \<Rightarrow> u8 set \<Rightarrow> LinkClass \<Rightarrow> bool" where
  "linked_class s L C \<longleftrightarrow> super_ok s L C \<and> objectSize C mod 4 = 0 \<and> (\<forall>p\<in>method_ptrs C. dvmIsAbstractMethod (mth s p) \<longrightarrow> nativeFunc (mth s p) = AbstractMethodStub)
     \<and> (\<forall>e\<in>set (class_iftable C). interface_in s L (entry_clazz e)) \<and> complete_entries s L C
     \<and> (if is_interface_class C then virtualMethodCount C < 65536 \<and> (\<forall>p\<in>method_ptrs C. methodIndex (mth s p) = word_of_nat (snd p))
        else good_table s C \<and> length (vtable C) \<le> 65536 \<and> (\<forall>p\<in>set (vtable C). owned s L p) \<and> (\<forall>e\<in>set (class_iftable C). entry_matches s (vtable C) e))"

text \<open>The classes that a class names: its superclass and its interfaces.\<close>

definition link_parents :: "LinkClass \<Rightarrow> u8 set" where
  "link_parents C = {d. d = class_super C \<and> d \<noteq> 0} \<union> set (class_interfaces C)"

lemma linked_parents: "linked_class s L C \<Longrightarrow> link_parents C \<subseteq> L" by (auto simp: linked_class_def super_ok_def complete_entries_def link_parents_def)

definition world :: "link_state \<Rightarrow> u8 set \<Rightarrow> bool" where
  "world s L \<longleftrightarrow> methods s 0 = None \<and> classes s 0 = None \<and> (\<forall>c C. classes s c = Some C \<longrightarrow> loaded_class s c C)
     \<and> (\<forall>c d C D. classes s c = Some C \<and> classes s d = Some D \<and> c \<noteq> d \<and> virtualMethods C = virtualMethods D \<longrightarrow> virtualMethods C = 0)
     \<and> (\<forall>c\<in>L. \<exists>C. classes s c = Some C \<and> linked_class s L C)
     \<and> (\<exists>rank :: u8 \<Rightarrow> nat. \<forall>c\<in>L. \<forall>C. classes s c = Some C \<longrightarrow> (\<forall>d\<in>link_parents C. rank d < rank c))"

lemma worldD:
  assumes "world s L"
  shows "methods s 0 = None" "classes s 0 = None" "\<And>c C. classes s c = Some C \<Longrightarrow> loaded_class s c C"
    "\<And>c d C D. classes s c = Some C \<Longrightarrow> classes s d = Some D \<Longrightarrow> c \<noteq> d \<Longrightarrow> virtualMethods C = virtualMethods D \<Longrightarrow> virtualMethods C = 0"
    "\<And>c. c \<in> L \<Longrightarrow> \<exists>C. classes s c = Some C \<and> linked_class s L C"
    "\<exists>rank :: u8 \<Rightarrow> nat. \<forall>c\<in>L. \<forall>C. classes s c = Some C \<longrightarrow> (\<forall>d\<in>link_parents C. rank d < rank c)"
  using assms unfolding world_def by blast+

lemma array_ok_valid: "array_ok s C \<Longrightarrow> p \<in> method_ptrs C \<Longrightarrow> valid s p \<and> fst p \<noteq> 0"
  by (auto simp: array_ok_def method_ptrs_def valid_def split: if_splits)

lemma owned_valid:
  assumes "world s L" and "owned s K p"
  shows "valid s p \<and> fst p \<noteq> 0"
proof -
  obtain d D where "classes s d = Some D" "p \<in> method_ptrs D" using assms(2) by (auto simp: owned_def)
  moreover from this have "array_ok s D" using worldD(3) [OF assms(1)] by (simp add: loaded_class_def)
  ultimately show ?thesis using array_ok_valid by blast
qed

section \<open>Linking one class leaves the others alone\<close>

text \<open>A step that changes the class \<open>c\<close> and its methods only, and may move them.\<close>

definition touches :: "u8 \<Rightarrow> LinkClass \<Rightarrow> LinkClass \<Rightarrow> link_state \<Rightarrow> link_state \<Rightarrow> bool" where
  "touches c C C' s s' \<longleftrightarrow> classes s' = (classes s)(c \<mapsto> C') \<and> methods s' 0 = None
     \<and> (\<forall>b. b \<noteq> virtualMethods C \<and> b \<noteq> virtualMethods C' \<longrightarrow> methods s' b = methods s b)
     \<and> (virtualMethods C' = virtualMethods C \<or> methods s (virtualMethods C') = None) \<and> loaded_class s' c C'"

lemma touched_array:
  assumes w: "world s L" and t: "touches c C C' s s'" and c: "classes s c = Some C" and d: "classes s d = Some D" "d \<noteq> c" and p: "p \<in> method_ptrs D"
  shows "valid s' p" "mth s' p = mth s p" "kat s' p = kat s p"
proof -
  have v: "valid s p" "fst p \<noteq> 0" and fst: "fst p = virtualMethods D"
    using worldD(3) [OF w d(1)] array_ok_valid [OF _ p] p by (auto simp: loaded_class_def method_ptrs_def)
  have "fst p \<noteq> virtualMethods C" using worldD(4) [OF w d(1) c d(2)] v(2) fst by metis
  moreover have "fst p \<noteq> virtualMethods C'"
    using t v(1) \<open>fst p \<noteq> virtualMethods C\<close> by (auto simp: touches_def valid_def)
  ultimately have "methods s' (fst p) = methods s (fst p)" using t by (simp add: touches_def)
  then show "valid s' p" "mth s' p = mth s p" "kat s' p = kat s p" using v(1) by (simp_all add: valid_def mth_def kat_def)
qed

lemma touched_owned:
  assumes w: "world s L" and t: "touches c C C' s s'" and c: "classes s c = Some C" "c \<notin> L" and p: "owned s L p"
  shows "valid s' p" "mth s' p = mth s p" "kat s' p = kat s p" "owned s' L p"
proof -
  obtain d D where d: "d \<in> L" "classes s d = Some D" "p \<in> method_ptrs D" using p by (auto simp: owned_def)
  then have "d \<noteq> c" using c(2) by blast
  then show "valid s' p" "mth s' p = mth s p" "kat s' p = kat s p" using touched_array [OF w t c(1) d(2) _ d(3)] by blast+
  show "owned s' L p" using d \<open>d \<noteq> c\<close> t by (auto simp: owned_def touches_def)
qed

lemma class_owned: "d \<in> L \<Longrightarrow> classes s d = Some D \<Longrightarrow> p \<in> method_ptrs D \<Longrightarrow> owned s L p"
  by (auto simp: owned_def)

lemma slots_ok_cong: "(\<And>p. p \<in> set l \<Longrightarrow> valid s' p \<and> kat s' p = kat s p) \<Longrightarrow> slots_ok s l \<Longrightarrow> slots_ok s' l"
proof -
  assume a: "\<And>p. p \<in> set l \<Longrightarrow> valid s' p \<and> kat s' p = kat s p" and s: "slots_ok s l"
  have m: "map (kat s') l = map (kat s) l" using a by simp
  show ?thesis using a s unfolding slots_ok_def m by blast
qed

lemma touched_entry:
  assumes w: "world s L" and t: "touches c C C' s s'" and c: "classes s c = Some C" "c \<notin> L"
    and e: "entry_matches s l e" "interface_in s L (entry_clazz e)" and l: "\<And>p. p \<in> set l \<Longrightarrow> kat s' p = kat s p"
  shows "entry_matches s' l e"
proof -
  obtain I where I: "classes s (entry_clazz e) = Some I" "is_interface_class I" "entry_clazz e \<in> L"
    and idx: "case methodIndexArray e of None \<Rightarrow> virtualMethodCount I = 0
      | Some idxs \<Rightarrow> length idxs = virtualMethodCount I \<and> (\<forall>m<virtualMethodCount I. idx_ok s l (idxs ! m) (kat s (virtualMethods I, m)))"
    using e by (auto simp: entry_matches_def interface_in_def)
  have ne: "entry_clazz e \<noteq> c" using I(3) c(2) by blast
  have k: "kat s' (virtualMethods I, m) = kat s (virtualMethods I, m)" if "m < virtualMethodCount I" for m
    using touched_array(3) [OF w t c(1) I(1) ne] that by (simp add: method_ptrs_def)
  have "idx_ok s' l j x = idx_ok s l j x" for j x using l nth_mem [of j l] unfolding idx_ok_def by metis
  moreover have "classes s' (entry_clazz e) = Some I" using t ne I(1) by (simp add: touches_def)
  ultimately show ?thesis using I(2) idx k by (auto simp: entry_matches_def split: option.splits)
qed

lemma super_table_owned:
  assumes "world s L" and "super_ok s L C" and "p \<in> set (super_table s C)"
  shows "owned s L p"
proof -
  obtain S where S: "class_super C \<in> L" "classes s (class_super C) = Some S" "\<not> is_interface_class S" "p \<in> set (vtable S)"
    using assms(2,3) by (auto simp: super_table_def super_ok_def split: if_splits)
  then have "linked_class s L S" using worldD(5) [OF assms(1) S(1)] by simp
  then show ?thesis using S(3,4) by (auto simp: linked_class_def)
qed

lemma extends_table_cong:
  assumes "extends_table s C l" and "\<And>p. p \<in> set (vtable C) \<union> set l \<union> method_ptrs C \<Longrightarrow> kat s' p = kat s p"
  shows "extends_table s' C l"
proof -
  have A: "length l \<le> length (vtable C)" "\<forall>j<length l. kat s (vtable C ! j) = kat s (l ! j)"
    "set (vtable C) = method_ptrs C \<union> {p \<in> set l. kat s p \<notin> kat s ` method_ptrs C}" using assms(1) unfolding extends_table_def by blast+
  have k: "kat s' p = kat s p" if "p \<in> set (vtable C) \<or> p \<in> set l \<or> p \<in> method_ptrs C" for p using assms(2) that by blast
  have "kat s' ` method_ptrs C = kat s ` method_ptrs C" using k by (intro image_cong) auto
  then have "{p \<in> set l. kat s' p \<notin> kat s' ` method_ptrs C} = {p \<in> set l. kat s p \<notin> kat s ` method_ptrs C}" using k by auto
  moreover have "kat s' (vtable C ! j) = kat s' (l ! j)" if "j < length l" for j
    using k [of "vtable C ! j"] k [of "l ! j"] A(1,2) that by simp
  ultimately show ?thesis using A unfolding extends_table_def by simp
qed

lemma linked_touch:
  assumes w: "world s L" and t: "touches c C C' s s'" and c: "classes s c = Some C" "c \<notin> L" and d: "d \<in> L" "classes s d = Some D"
  shows "linked_class s' L D"
proof -
  have lD: "linked_class s L D" using worldD(5) [OF w d(1)] d(2) by simp
  have cls: "classes s' x = classes s x" if "x \<in> L" for x using that c(2) t by (auto simp: touches_def)
  have sup: "super_ok s' L D" using lD cls by (auto simp: linked_class_def super_ok_def)
  have ifc: "interface_in s' L i = interface_in s L i" for i using cls by (auto simp: interface_in_def)
  have "super_ok s L D" "complete_entries s L D" using lD by (simp_all add: linked_class_def)
  then have all: "complete_entries s' L D" using implemented_cong [of s L D s' D] cls by (simp add: complete_entries_def)
  note own = touched_owned [OF w t c]
  have loc: "mth s' p = mth s p \<and> kat s' p = kat s p" if "p \<in> method_ptrs D" for p using own class_owned [OF d that] by simp
  show ?thesis
  proof (cases "is_interface_class D")
    case True
    then show ?thesis using lD sup ifc loc all unfolding linked_class_def by simp
  next
    case False
    have g: "good_table s D" "length (vtable D) \<le> 65536" "\<forall>p\<in>set (vtable D). owned s L p" "\<forall>e\<in>set (class_iftable D). entry_matches s (vtable D) e"
      "\<forall>e\<in>set (class_iftable D). interface_in s L (entry_clazz e)" "super_ok s L D" using lD False unfolding linked_class_def by simp_all
    have vt: "valid s' p \<and> kat s' p = kat s p \<and> mth s' p = mth s p" if "p \<in> set (vtable D)" for p using own g(3) that by blast
    have st: "super_table s' D = super_table s D" using g(6) cls by (auto simp: super_table_def super_ok_def)
    have "kat s' p = kat s p" if "p \<in> set (vtable D) \<union> set (super_table s D) \<union> method_ptrs D" for p
      using that vt loc own(3) [OF super_table_owned [OF w g(6)]] by blast
    then have "extends_table s' D (super_table s D)" using g(1) extends_table_cong [of s D] unfolding good_table_def by blast
    moreover have "slots_ok s' (vtable D)" using g(1) vt by (intro slots_ok_cong [of _ s' s]) (auto simp: good_table_def)
    ultimately have "good_table s' D" using g(1) vt st unfolding good_table_def by simp
    moreover have "\<forall>e\<in>set (class_iftable D). entry_matches s' (vtable D) e" using g(4,5) vt by (intro ballI touched_entry [OF w t c]) auto
    ultimately show ?thesis using lD sup ifc loc all False g own(4) unfolding linked_class_def by simp
  qed
qed

lemma world_touch:
  assumes w: "world s L" and t: "touches c C C' s s'" and c: "classes s c = Some C" "c \<notin> L" "c \<noteq> 0"
  shows "world s' L"
proof -
  have cls: "classes s' = (classes s)(c \<mapsto> C')" and nil: "methods s' 0 = None" and mv: "virtualMethods C' = virtualMethods C \<or> methods s (virtualMethods C') = None"
    and lc: "loaded_class s' c C'" using t by (simp_all add: touches_def)
  have load: "loaded_class s' d D" if d: "classes s' d = Some D" for d D
  proof (cases "d = c")
    case False
    then have D: "classes s d = Some D" using d cls by simp
    have l: "loaded_class s d D" using worldD(3) [OF w D] .
    have k: "valid s' p" "mth s' p = mth s p" "kat s' p = kat s p" if "p \<in> method_ptrs D" for p using touched_array [OF w t c(1) D False that] .
    have "methods s' (virtualMethods D) = methods s (virtualMethods D)" if nz: "virtualMethods D \<noteq> 0"
    proof -
      have ne: "virtualMethods D \<noteq> virtualMethods C" using worldD(4) [OF w D c(1) False] nz by metis
      have "methods s (virtualMethods D) \<noteq> None" using l nz by (auto simp: loaded_class_def array_ok_def)
      then have "virtualMethods D \<noteq> virtualMethods C'" using mv ne by metis
      then show ?thesis using ne t by (simp add: touches_def)
    qed
    then have "array_ok s' D" using l by (auto simp: loaded_class_def array_ok_def)
    moreover have "inj_on (kat s') (method_ptrs D) = inj_on (kat s) (method_ptrs D)" by (rule inj_on_cong) (rule k(3))
    moreover have "\<forall>p\<in>method_ptrs D. mth s' p = mth s p" using k(2) by blast
    ultimately show ?thesis using l cls unfolding loaded_class_def by simp
  qed (use d cls lc in simp)
  have apart: "virtualMethods D = 0" if "classes s' d = Some D" "classes s' e = Some E" "d \<noteq> e" "virtualMethods D = virtualMethods E" for d e D E
  proof -
    have new: "virtualMethods C' \<noteq> virtualMethods E" if "classes s e = Some E" "e \<noteq> c" "virtualMethods E \<noteq> 0" for e E
      using worldD(3) [OF w that(1)] worldD(4) [OF w that(1) c(1) that(2)] that(3) mv by (auto simp: loaded_class_def array_ok_def)
    show ?thesis using that worldD(4) [OF w] new cls by (metis fun_upd_apply option.inject)
  qed
  have "\<exists>D. classes s' d = Some D \<and> linked_class s' L D" if "d \<in> L" for d
    using worldD(5) [OF w that] linked_touch [OF w t c(1,2) that] that c(2) cls by (metis fun_upd_apply)
  moreover have "\<forall>d\<in>L. classes s' d = classes s d" using cls c(2) by auto
  then have "\<exists>rank :: u8 \<Rightarrow> nat. \<forall>d\<in>L. \<forall>D. classes s' d = Some D \<longrightarrow> (\<forall>e\<in>link_parents D. rank e < rank d)"
    using worldD(6) [OF w] by simp
  moreover have "classes s' 0 = None" using cls c(3) worldD(2) [OF w] by simp
  ultimately show ?thesis using load apart nil unfolding world_def by blast
qed

lemma world_insert:
  assumes w: "world s L" and c: "classes s c = Some C" "linked_class s (insert c L) C" "link_parents C \<subseteq> L" "c \<notin> L"
  shows "world s (insert c L)"
proof -
  have mono: "linked_class s (insert c L) D" if "linked_class s L D" for D
    using that by (auto simp: linked_class_def super_ok_def interface_in_def owned_def complete_entries_def)
  obtain rank :: "u8 \<Rightarrow> nat" where rank: "\<forall>c\<in>L. \<forall>C. classes s c = Some C \<longrightarrow> (\<forall>d\<in>link_parents C. rank d < rank c)"
    using worldD(6) [OF w] by blast
  have fin: "finite (rank ` link_parents C)" by (simp add: link_parents_def)
  let ?r = "rank(c := Suc (Max (rank ` link_parents C)))"
  have "?r e < ?r d" if d: "d \<in> insert c L" "classes s d = Some D" and e: "e \<in> link_parents D" for d D e
  proof (cases "d = c")
    case True
    then have "e \<in> link_parents C" "e \<noteq> c" using d e c by auto
    then show ?thesis using True Max_ge [OF fin, of "rank e"] by (simp add: le_imp_less_Suc)
  next
    case False
    then have L: "d \<in> L" using d(1) by simp
    then have "e \<in> L" using worldD(5) [OF w L] linked_parents d(2) e by fastforce
    then show ?thesis using False rank L d(2) e c(4) by auto
  qed
  then have "\<exists>r :: u8 \<Rightarrow> nat. \<forall>d\<in>insert c L. \<forall>D. classes s d = Some D \<longrightarrow> (\<forall>e\<in>link_parents D. r e < r d)" by blast
  moreover have "\<exists>D. classes s d = Some D \<and> linked_class s (insert c L) D" if "d \<in> insert c L" for d
    using that c(1,2) worldD(5) [OF w, of d] mono by blast
  ultimately show ?thesis using w unfolding world_def by blast
qed

end
