(* ===== verification/ClassLinked.thy ===== *)
theory ClassLinked
  imports ClassWorld
begin

text \<open>
  Linking keeps the invariant of the classes, and the calls of virtual and interface methods reach the methods that the Java language selects.
\<close>

section \<open>Steps on one class\<close>

lemma ptr_mem: "(a, m) \<in> method_ptrs C \<longleftrightarrow> a = virtualMethods C \<and> m < virtualMethodCount C" by (auto simp: method_ptrs_def)

lemma method_ptrs_update [simp]: "method_ptrs (C\<lparr>vtable := vt\<rparr>) = method_ptrs C" "method_ptrs (C\<lparr>class_iftable := t\<rparr>) = method_ptrs C"
  by (simp_all add: method_ptrs_def)

lemma loaded_valid: "loaded_class s c C \<Longrightarrow> p \<in> method_ptrs C \<Longrightarrow> valid s p \<and> fst p \<noteq> 0"
  using array_ok_valid unfolding loaded_class_def by blast

lemma same_sizes_array: "same_sizes s s' \<Longrightarrow> array_ok s' C = array_ok s C"
  unfolding same_sizes_def array_ok_def
  by (drule spec [of _ "virtualMethods C"]) (cases "methods s (virtualMethods C)"; cases "methods s' (virtualMethods C)"; simp)

text \<open>The fields of a class that its methods depend on.\<close>

definition same_body :: "LinkClass \<Rightarrow> LinkClass \<Rightarrow> bool" where
  "same_body C C' \<longleftrightarrow> virtualMethods C' = virtualMethods C \<and> virtualMethodCount C' = virtualMethodCount C
     \<and> class_descriptor C' = class_descriptor C \<and> class_elementClass C' = class_elementClass C"

lemma same_body_ptrs: "same_body C C' \<Longrightarrow> method_ptrs C' = method_ptrs C" by (simp add: same_body_def method_ptrs_def)

lemma same_body_array: "same_body C C' \<Longrightarrow> array_ok s C' = array_ok s C" by (simp add: same_body_def array_ok_def)

text \<open>A step that keeps the methods apart from their indices and stubs.\<close>

lemma touches_class:
  assumes w: "world s L" and c: "classes s c = Some C" and body: "same_body C C'" and sizes: "same_sizes s s1"
    and m: "\<And>b. b \<noteq> virtualMethods C \<Longrightarrow> methods s1 b = methods s b" "classes s1 = classes s"
    and shape: "\<And>p. p \<in> method_ptrs C \<Longrightarrow> meth_clazz (mth s1 p) = meth_clazz (mth s p) \<and> kat s1 p = kat s p \<and> (unbound (mth s p) \<longrightarrow> unbound (mth s1 p))"
  shows "touches c C C' s (set_class s1 c C')"
proof -
  have l: "loaded_class s c C" using worldD(3) [OF w c] .
  let ?s = "set_class s1 c C'"
  have eq: "mth ?s = mth s1" "kat ?s = kat s1" "methods ?s = methods s1" "classes ?s = (classes s)(c \<mapsto> C')"
    by (simp_all add: fun_eq_iff mth_def kat_def set_class_def m(2))
  have "array_ok s C = array_ok s1 C'" using same_body_array [OF body] same_sizes_array [OF sizes] by simp
  then have arr: "array_ok ?s C'" using l by (simp add: loaded_class_def array_ok_def eq)
  have inj: "inj_on (kat ?s) (method_ptrs C') = inj_on (kat s) (method_ptrs C)"
    unfolding eq same_body_ptrs [OF body] using shape by (intro inj_on_cong) blast
  have "\<forall>p\<in>method_ptrs C'. meth_clazz (mth ?s p) = c \<and> unbound (mth ?s p)"
    using l shape unfolding eq same_body_ptrs [OF body] loaded_class_def by auto
  then have "loaded_class ?s c C'" using l arr inj body by (auto simp: loaded_class_def same_body_def eq)
  moreover have "methods s1 0 = None" using sizes worldD(1) [OF w] by (auto simp: same_sizes_def dest: spec [of _ 0])
  ultimately show ?thesis using m body unfolding touches_def eq by (simp add: same_body_def)
qed

lemma touches_index:
  assumes "world s L" and "classes s c = Some C" and "same_body C C'" and same: "same_methods (virtualMethods C) s s1"
  shows "touches c C C' s (set_class s1 c C')"
proof (rule touches_class [OF assms(1-3)])
  show "same_sizes s s1" "classes s1 = classes s" "\<And>b. b \<noteq> virtualMethods C \<Longrightarrow> methods s1 b = methods s b"
    using same by (simp_all add: same_methods_def)
  fix p assume "p \<in> method_ptrs C"
  then have v: "valid s p" using worldD(3) [OF assms(1,2)] array_ok_valid unfolding loaded_class_def by blast
  then have "(mth s1 p)\<lparr>methodIndex := 0\<rparr> = (mth s p)\<lparr>methodIndex := 0\<rparr>" using same unfolding same_methods_def by blast
  from same_index0 [OF this] same_methods_kat [OF same v]
  show "meth_clazz (mth s1 p) = meth_clazz (mth s p) \<and> kat s1 p = kat s p \<and> (unbound (mth s p) \<longrightarrow> unbound (mth s1 p))"
    by (simp add: unbound_def dvmIsAbstractMethod_def)
qed

lemma set_class_same: "classes s c = Some C \<Longrightarrow> set_class s c C = s" by (simp add: set_class_def fun_upd_idem)

section \<open>The method table\<close>

lemma fits_u2_iff: "fits_u2 n \<longleftrightarrow> n < 65536"
proof -
  have "fits_u2 n \<longleftrightarrow> take_bit 16 n = n" by (auto simp: fits_u2_def unsigned_of_nat)
  then show ?thesis by (simp add: take_bit_nat_eq_self_iff)
qed

lemma createVtable_super:
  assumes w: "world s L" and c: "classes s c = Some C" "c \<notin> L" and sup: "class_super C \<noteq> 0" "class_super C \<in> L"
    "classes s (class_super C) = Some S" "\<not> is_interface_class S"
  shows "\<exists>r s1 vt. createVtable s c = Ret (r, if r = LinkOk then set_class s1 c (C\<lparr>vtable := vt\<rparr>) else s1) \<and> same_methods (virtualMethods C) s s1
    \<and> (r = LinkOk \<longrightarrow> slots_ok s1 vt \<and> (\<forall>j<length vt. methodIndex (mth s1 (vt ! j)) = word_of_nat j) \<and> extends_table s1 (C\<lparr>vtable := vt\<rparr>) (vtable S)
      \<and> length vt < 65536)"
proof -
  let ?a = "virtualMethods C" and ?n = "virtualMethodCount C" and ?sv = "vtable S"
  have l: "loaded_class s c C" using worldD(3) [OF w c(1)] .
  have S: "linked_class s L S" using worldD(5) [OF w sup(2)] sup(3) by simp
  have own: "owned s L p" if "p \<in> set ?sv" for p using S sup(4) that by (simp add: linked_class_def)
  have foreign: "fst p \<noteq> ?a" if p: "p \<in> set ?sv" for p
  proof -
    obtain d D where d: "d \<in> L" "classes s d = Some D" "p \<in> method_ptrs D" using own [OF p] by (auto simp: owned_def)
    then have "d \<noteq> c" using c(2) by blast
    moreover have "fst p = virtualMethods D" using d(3) by (auto simp: method_ptrs_def)
    ultimately show ?thesis using worldD(4) [OF w d(2) c(1)] owned_valid [OF w own [OF p]] by metis
  qed
  have g: "slots_ok s ?sv" "\<forall>j<length ?sv. methodIndex (mth s (?sv ! j)) = word_of_nat j" using S sup(4) by (simp_all add: linked_class_def good_table_def)
  have inv: "vt_inv s ?a 0 (length ?sv) ?sv" using g foreign by (auto simp: vt_inv_def slots_ok_def)
  have locv: "\<forall>m<0 + ?n. valid s (?a, m)" using loaded_valid [OF l] by (simp add: ptr_mem)
  have lock: "\<forall>m k. m < k \<and> k < 0 + ?n \<longrightarrow> kat s (?a, m) \<noteq> kat s (?a, k)"
  proof (intro allI impI notI)
    fix m k assume mk: "m < k \<and> k < 0 + ?n" and e: "kat s (?a, m) = kat s (?a, k)"
    have "(?a, m) = (?a, k)" using l mk inj_onD [of "kat s" "method_ptrs C", OF _ e] by (simp add: loaded_class_def ptr_mem)
    then show False using mk by simp
  qed
  obtain ok s1 vt where r: "vtable_loop s ?a (length ?sv) 0 ?n ?sv = Ret (ok, s1, vt)" "same_methods ?a s s1"
    "ok \<longrightarrow> vt_inv s1 ?a (0 + ?n) (length ?sv) vt \<and> placed ?a 0 (0 + ?n) s ?sv vt" using vtable_loop_spec [OF inv locv lock] by blast
  have get: "get_class s c = Ret C" "get_class s (class_super C) = Ret S" using c(1) sup(3) by (simp_all add: get_class_def)
  show ?thesis
  proof (cases "ok \<and> fits_u2 (length vt)")
    case False
    then have "createVtable s c = Ret (LinkFail None, s1)" using get sup(1) r(1) by (auto simp: createVtable_def Let_def)
    then show ?thesis using r(2) by auto
  next
    case True
    have P: "length ?sv \<le> length vt" "length vt \<le> length ?sv + ?n" "\<forall>j<length ?sv. kat s (vt ! j) = kat s (?sv ! j)" "\<forall>m<?n. (?a, m) \<in> set vt"
      "\<forall>j<length vt. j < length ?sv \<and> vt ! j = ?sv ! j \<or> (\<exists>m<?n. vt ! j = (?a, m))" using r(3) True unfolding placed_def by simp_all
    have V: "\<forall>p\<in>set vt. valid s1 p" "distinct (map (kat s1) vt)" "\<forall>j<length vt. methodIndex (mth s1 (vt ! j)) = word_of_nat j"
      using r(3) True unfolding vt_inv_def by simp_all
    have k: "kat s1 p = kat s p" if "valid s p" for p using same_methods_kat [OF r(2) that] .
    have val: "valid s p" if "p \<in> set vt \<or> p \<in> set ?sv \<or> p \<in> method_ptrs C" for p
      using that V(1) r(2) g(1) l array_ok_valid unfolding same_methods_def slots_ok_def loaded_class_def by blast
    have run: "createVtable s c = Ret (LinkOk, set_class s1 c (C\<lparr>vtable := vt\<rparr>))"
      using get sup(1) r(1) True P(2) by (simp add: createVtable_def Let_def)
    have mem: "p \<in> set vt \<longleftrightarrow> p \<in> method_ptrs C \<or> p \<in> set ?sv \<and> kat s p \<notin> kat s ` method_ptrs C" (is "_ \<longleftrightarrow> ?R") for p
    proof
      assume p: "p \<in> set vt"
      then obtain j where j: "j < length vt" "vt ! j = p" unfolding in_set_conv_nth by blast
      show ?R
      proof (cases "p \<in> method_ptrs C")
        case False
        then have "j < length ?sv" "p = ?sv ! j" using P(5) j by (auto simp: method_ptrs_def)
        then have sv: "p \<in> set ?sv" by simp
        have "kat s p \<noteq> kat s q" if q: "q \<in> method_ptrs C" for q
        proof
          assume "kat s p = kat s q"
          moreover have "q \<in> set vt" using P(4) q by (auto simp: method_ptrs_def)
          ultimately have "p = q" using V(2) p k val by (auto simp: distinct_map inj_on_def)
          then show False using q False by simp
        qed
        then show ?thesis using sv by auto
      qed simp
    next
      assume R: ?R
      show "p \<in> set vt"
      proof (cases "p \<in> method_ptrs C")
        case True
        then show ?thesis using P(4) by (auto simp: method_ptrs_def)
      next
        case False
        then obtain j where j: "j < length ?sv" "?sv ! j = p" using R unfolding in_set_conv_nth by blast
        have "vt ! j = p"
        proof (rule ccontr)
          assume "vt ! j \<noteq> p"
          moreover have "j < length vt" using j(1) P(1) by simp
          ultimately obtain m where m: "m < ?n" "vt ! j = (?a, m)" using P(5) j(2) by blast
          have "kat s p = kat s (?a, m)" using P(3) j m(2) by metis
          moreover have "(?a, m) \<in> method_ptrs C" using m(1) by (simp add: ptr_mem)
          ultimately show False using R False by blast
        qed
        then show ?thesis using j(1) P(1) nth_mem by (metis order_less_le_trans)
      qed
    qed
    have "set vt = method_ptrs C \<union> {p \<in> set ?sv. kat s p \<notin> kat s ` method_ptrs C}" by (rule set_eqI) (simp only: mem Un_iff mem_Collect_eq)
    then have "extends_table s (C\<lparr>vtable := vt\<rparr>) ?sv" unfolding extends_table_def using P(1,3) by simp
    moreover have "kat s1 p = kat s p" if "p \<in> set (vtable (C\<lparr>vtable := vt\<rparr>)) \<union> set ?sv \<union> method_ptrs (C\<lparr>vtable := vt\<rparr>)" for p
      using that by (intro k val) auto
    ultimately have "extends_table s1 (C\<lparr>vtable := vt\<rparr>) ?sv" by (rule extends_table_cong)
    moreover have "length vt < 65536" using True by (simp add: fits_u2_iff)
    ultimately show ?thesis using run r(2) V by (intro exI [of _ LinkOk] exI [of _ s1] exI [of _ vt]) (simp add: slots_ok_def)
  qed
qed

lemma set_class_view [simp]:
  "mth (set_class s c C) = mth s" "kat (set_class s c C) = kat s" "valid (set_class s c C) = valid s" "methods (set_class s c C) = methods s"
  "classes (set_class s c C) = (classes s)(c \<mapsto> C)"
  by (simp_all add: fun_eq_iff mth_def kat_def valid_def set_class_def)

lemma set_class_tables [simp]: "slots_ok (set_class s c C) = slots_ok s" "extends_table (set_class s c C) = extends_table s"
  by (simp_all add: fun_eq_iff slots_ok_def extends_table_def)

lemma numbered:
  assumes w: "world s L" and c: "classes s c = Some C"
  shows "\<exists>s1. number_methods s (virtualMethods C) 0 (virtualMethodCount C) = Ret s1 \<and> same_methods (virtualMethods C) s s1
    \<and> (\<forall>p\<in>method_ptrs C. methodIndex (mth s1 p) = word_of_nat (snd p))"
proof -
  have l: "loaded_class s c C" using worldD(3) [OF w c] .
  have "\<forall>m<0 + virtualMethodCount C. valid s (virtualMethods C, m)" using loaded_valid [OF l] by (simp add: ptr_mem)
  from number_methods_spec [OF this] obtain s1 where "number_methods s (virtualMethods C) 0 (virtualMethodCount C) = Ret s1"
    "same_methods (virtualMethods C) s s1" "\<forall>m. m < virtualMethodCount C \<longrightarrow> methodIndex (mth s1 (virtualMethods C, m)) = word_of_nat m" by auto
  moreover from this(3) have "\<forall>p\<in>method_ptrs C. methodIndex (mth s1 p) = word_of_nat (snd p)" by (auto simp: method_ptrs_def)
  ultimately show ?thesis by blast
qed

lemma createVtable_object:
  assumes w: "world s L" and c: "classes s c = Some C" and obj: "class_super C = 0" "class_descriptor C = ''Ljava/lang/Object;''"
  shows "\<exists>r s1 vt. createVtable s c = Ret (r, if r = LinkOk then set_class s1 c (C\<lparr>vtable := vt\<rparr>) else s1) \<and> same_methods (virtualMethods C) s s1
    \<and> (r = LinkOk \<longrightarrow> slots_ok s1 vt \<and> (\<forall>j<length vt. methodIndex (mth s1 (vt ! j)) = word_of_nat j) \<and> extends_table s1 (C\<lparr>vtable := vt\<rparr>) []
      \<and> length vt < 65536)"
proof (cases "fits_u2 (virtualMethodCount C)")
  case False
  then have "createVtable s c = Ret (LinkFail None, s)" using c obj by (simp add: createVtable_def get_class_def)
  then show ?thesis by (intro exI [of _ "LinkFail None"] exI [of _ s]) simp
next
  case True
  let ?vt = "map (\<lambda>i. (virtualMethods C, i)) [0..<virtualMethodCount C]"
  have l: "loaded_class s c C" using worldD(3) [OF w c] .
  obtain s1 where r: "number_methods s (virtualMethods C) 0 (virtualMethodCount C) = Ret s1" "same_methods (virtualMethods C) s s1"
    "\<forall>p\<in>method_ptrs C. methodIndex (mth s1 p) = word_of_nat (snd p)" using numbered [OF w c] by blast
  have set: "set ?vt = method_ptrs C" by (auto simp: method_ptrs_def)
  have run: "createVtable s c = Ret (LinkOk, set_class s1 c (C\<lparr>vtable := ?vt\<rparr>))" using c obj True r(1) by (simp add: createVtable_def get_class_def)
  have "inj_on (kat s) (set ?vt)" "distinct ?vt" using l by (simp_all only: set loaded_class_def) (simp add: distinct_map inj_on_def)
  then have "slots_ok s ?vt" using loaded_valid [OF l] unfolding slots_ok_def distinct_map set by blast
  moreover have "valid s1 p \<and> kat s1 p = kat s p" if "p \<in> set ?vt" for p
    using that loaded_valid [OF l] same_methods_kat [OF r(2)] r(2) unfolding set same_methods_def by blast
  ultimately have "slots_ok s1 ?vt" by (intro slots_ok_cong [of ?vt s1 s]) blast+
  moreover have "\<forall>j<length ?vt. methodIndex (mth s1 (?vt ! j)) = word_of_nat j" using r(3) by (simp add: ptr_mem)
  moreover have "extends_table s1 (C\<lparr>vtable := ?vt\<rparr>) []" using set by (simp add: extends_table_def)
  ultimately show ?thesis using run r(2) True by (intro exI [of _ LinkOk] exI [of _ s1] exI [of _ ?vt]) (simp add: fits_u2_iff)
qed

lemma link_methods_spec:
  assumes w: "world s L" and c: "classes s c = Some C" "c \<notin> L" and sup: "super_ok s L C"
    and obj: "class_super C = 0 \<Longrightarrow> class_descriptor C = ''Ljava/lang/Object;''"
  shows "\<exists>r s' C'. link_methods s c = Ret (r, s') \<and> touches c C C' s s' \<and> C' = C\<lparr>vtable := vtable C'\<rparr> \<and>
    (r = LinkOk \<longrightarrow> (if is_interface_class C then virtualMethodCount C < 65536 \<and> (\<forall>p\<in>method_ptrs C. methodIndex (mth s' p) = word_of_nat (snd p))
      else good_table s' C' \<and> length (vtable C') < 65536))"
proof (cases "is_interface_class C")
  case True
  obtain s1 where r: "number_methods s (virtualMethods C) 0 (virtualMethodCount C) = Ret s1" "same_methods (virtualMethods C) s s1"
    "\<forall>p\<in>method_ptrs C. methodIndex (mth s1 p) = word_of_nat (snd p)" using numbered [OF w c(1)] by blast
  have t: "touches c C C s (set_class s2 c C)" if "same_methods (virtualMethods C) s s2" for s2
    by (rule touches_index [OF w c(1) _ that]) (simp add: same_body_def)
  have id: "set_class s1 c C = s1" "set_class s c C = s" using r(2) c(1) by (simp_all add: set_class_same same_methods_def)
  show ?thesis
  proof (cases "fits_u2 (virtualMethodCount C)")
    case fits: True
    have "link_methods s c = Ret (LinkOk, s1)" using True fits c(1) r(1) by (simp add: link_methods_def get_class_def)
    then show ?thesis using True fits t [OF r(2)] id r(3) by (intro exI [of _ LinkOk] exI [of _ s1] exI [of _ C]) (simp add: fits_u2_iff)
  next
    case False
    have "link_methods s c = Ret (LinkFail None, s)" using True False c(1) by (simp add: link_methods_def get_class_def)
    then show ?thesis using t [of s] id by (intro exI [of _ "LinkFail None"] exI [of _ s] exI [of _ C]) simp
  qed
next
  case False
  have "\<exists>r s1 vt. createVtable s c = Ret (r, if r = LinkOk then set_class s1 c (C\<lparr>vtable := vt\<rparr>) else s1) \<and> same_methods (virtualMethods C) s s1
    \<and> (r = LinkOk \<longrightarrow> slots_ok s1 vt \<and> (\<forall>j<length vt. methodIndex (mth s1 (vt ! j)) = word_of_nat j)
      \<and> extends_table s1 (C\<lparr>vtable := vt\<rparr>) (super_table s C) \<and> length vt < 65536)"
  proof (cases "class_super C = 0")
    case True
    then show ?thesis using createVtable_object [OF w c(1) True obj] by (simp add: super_table_def)
  next
    case super: False
    then obtain S where S: "class_super C \<in> L" "classes s (class_super C) = Some S" "\<not> is_interface_class S" using sup by (auto simp: super_ok_def)
    then show ?thesis using createVtable_super [OF w c super S] super by (simp add: super_table_def)
  qed
  then obtain r s1 vt where r: "createVtable s c = Ret (r, if r = LinkOk then set_class s1 c (C\<lparr>vtable := vt\<rparr>) else s1)" "same_methods (virtualMethods C) s s1"
    "r = LinkOk \<longrightarrow> slots_ok s1 vt \<and> (\<forall>j<length vt. methodIndex (mth s1 (vt ! j)) = word_of_nat j)
      \<and> extends_table s1 (C\<lparr>vtable := vt\<rparr>) (super_table s C) \<and> length vt < 65536" by blast
  let ?C = "if r = LinkOk then C\<lparr>vtable := vt\<rparr> else C" and ?s = "if r = LinkOk then set_class s1 c (C\<lparr>vtable := vt\<rparr>) else s1"
  have "touches c C ?C s (set_class s1 c ?C)" by (rule touches_index [OF w c(1) _ r(2)]) (simp add: same_body_def)
  moreover have s': "set_class s1 c ?C = ?s" using set_class_same [of s1 c C] c(1) r(2) by (simp add: same_methods_def)
  moreover have "super_table ?s (C\<lparr>vtable := vt\<rparr>) = super_table s C"
    using sup c(2) r(2) by (auto simp: super_table_def super_ok_def same_methods_def)
  moreover have "link_methods s c = Ret (r, ?s)" using False c(1) r(1) by (simp add: link_methods_def get_class_def)
  ultimately show ?thesis using r(3) False
    by (intro exI [of _ r] exI [of _ ?s] exI [of _ ?C]) (cases "r = LinkOk"; simp add: good_table_def)
qed

lemma unat_index: "j < 65536 \<Longrightarrow> unat (word_of_nat j :: u2) = j"
  using fits_u2_iff [of j] by (simp add: fits_u2_def)

lemma Pair_upt: "Pair a ` {..<n + k} = Pair a ` {..<n} \<union> set (map (Pair a) [n..<n + k])"
proof -
  have "{..<n + k} = {..<n} \<union> {n..<n + k}" by auto
  then show ?thesis by (simp only: image_Un list.set_map set_upt)
qed

section \<open>The Miranda methods\<close>

lemma miranda_not_abstract: "((f :: u4) OR ACC_MIRANDA) AND ACC_ABSTRACT = f AND ACC_ABSTRACT"
  by (simp add: bit.conj_disj_distrib2 ACC_MIRANDA_def ACC_ABSTRACT_def)

lemma miranda_facts:
  "meth_clazz (miranda_method c k m) = c" "methodIndex (miranda_method c k m) = word_of_nat k" "method_key (miranda_method c k m) = method_key m"
  "unbound (miranda_method c k m) = unbound m"
  by (simp_all add: miranda_method_def method_key_def unbound_def dvmIsAbstractMethod_def miranda_not_abstract)

definition expanded_class :: "u8 \<Rightarrow> mptr list \<Rightarrow> LinkClass \<Rightarrow> LinkClass" where
  "expanded_class a' ml C = C\<lparr>virtualMethods := a', virtualMethodCount := virtualMethodCount C + length ml,
     vtable := map (moved (virtualMethods C) a' (virtualMethodCount C)) (vtable C)
       @ map (Pair a') [virtualMethodCount C..<virtualMethodCount C + length ml]\<rparr>"

lemma owned_foreign:
  assumes "world s L" and "classes s c = Some C" and "c \<notin> L" and "owned s L p"
  shows "valid s p" "fst p \<noteq> virtualMethods C" "fst p \<noteq> 0" "unbound (mth s p)"
proof -
  obtain d D where d: "d \<in> L" "classes s d = Some D" "p \<in> method_ptrs D" using assms(4) by (auto simp: owned_def)
  then have "d \<noteq> c" using assms(3) by blast
  moreover have "fst p = virtualMethods D" using d(3) by (auto simp: method_ptrs_def)
  moreover show "valid s p" "fst p \<noteq> 0" using owned_valid [OF assms(1,4)] by simp_all
  ultimately show "fst p \<noteq> virtualMethods C" using worldD(4) [OF assms(1) d(2) assms(2)] by metis
  show "unbound (mth s p)" using worldD(3) [OF assms(1) d(2)] d(3) by (simp add: loaded_class_def)
qed

lemma expanded_methods:
  assumes w: "world s L" and c: "classes s c = Some C" "c \<notin> L" and a': "a' \<noteq> 0" "a' = virtualMethods C \<or> methods s a' = None"
    and ml: "\<forall>p\<in>set ml. owned s L p"
  shows "\<And>p. owned s L p \<Longrightarrow> moved (virtualMethods C) a' (virtualMethodCount C) p = p \<and> valid (expanded s c a' ml C) p \<and> mth (expanded s c a' ml C) p = mth s p"
    and "\<And>m. m < virtualMethodCount C \<Longrightarrow> valid (expanded s c a' ml C) (a', m) \<and> mth (expanded s c a' ml C) (a', m) = mth s (virtualMethods C, m)"
    and "\<And>i. i < length ml \<Longrightarrow> valid (expanded s c a' ml C) (a', virtualMethodCount C + i)
      \<and> mth (expanded s c a' ml C) (a', virtualMethodCount C + i) = miranda_method c (length (vtable C) + i) (mth s (ml ! i))"
proof -
  have len: "length (method_array s C) = virtualMethodCount C" using worldD(3) [OF w c(1)] by (auto simp: loaded_class_def array_ok_def method_array_def)
  fix p assume p: "owned s L p"
  have f: "valid s p" "fst p \<noteq> virtualMethods C" using owned_foreign [OF w c p] by simp_all
  then have "fst p \<noteq> a'" using a'(2) by (auto simp: valid_def)
  then show "moved (virtualMethods C) a' (virtualMethodCount C) p = p \<and> valid (expanded s c a' ml C) p \<and> mth (expanded s c a' ml C) p = mth s p"
    using f by (auto simp: moved_def expanded_def valid_def mth_def)
next
  have len: "length (method_array s C) = virtualMethodCount C" using worldD(3) [OF w c(1)] by (auto simp: loaded_class_def array_ok_def method_array_def)
  fix m assume m: "m < virtualMethodCount C"
  then have "virtualMethods C \<noteq> 0" using worldD(3) [OF w c(1)] by (auto simp: loaded_class_def array_ok_def)
  then show "valid (expanded s c a' ml C) (a', m) \<and> mth (expanded s c a' ml C) (a', m) = mth s (virtualMethods C, m)"
    using m len by (simp add: expanded_def valid_def mth_def nth_append) (simp add: method_array_def)
next
  have len: "length (method_array s C) = virtualMethodCount C" using worldD(3) [OF w c(1)] by (auto simp: loaded_class_def array_ok_def method_array_def)
  fix i assume "i < length ml"
  then show "valid (expanded s c a' ml C) (a', virtualMethodCount C + i)
      \<and> mth (expanded s c a' ml C) (a', virtualMethodCount C + i) = miranda_method c (length (vtable C) + i) (mth s (ml ! i))"
    using len by (simp add: expanded_def valid_def mth_def nth_append nth_clones)
qed

lemma expanded_spec:
  assumes w: "world s L" and c: "classes s c = Some C" "c \<notin> L" and a': "a' \<noteq> 0" "a' = virtualMethods C \<or> methods s a' = None"
    and ml: "\<forall>p\<in>set ml. owned s L p" and sup: "super_ok s L C" and good: "good_table s C" "length (vtable C) < 65536" and slots: "slots_ok s (vtable C @ ml)"
  defines "s' \<equiv> expanded s c a' ml C" and "C' \<equiv> expanded_class a' ml C"
  shows "expand_mirandas s c a' ml C = Ret s'" "touches c C C' s s'" "good_table s' C'" "map (kat s') (vtable C') = map (kat s) (vtable C @ ml)"
proof -
  let ?a = "virtualMethods C" and ?n = "virtualMethodCount C" and ?vt = "vtable C" and ?sv = "super_table s C"
  let ?m = "moved ?a a' ?n"
  have l: "loaded_class s c C" using worldD(3) [OF w c(1)] .
  note M = expanded_methods [OF w c a' ml, folded s'_def]
  have set_vt: "set ?vt = method_ptrs C \<union> {p \<in> set ?sv. kat s p \<notin> kat s ` method_ptrs C}" using good(1) by (simp add: good_table_def extends_table_def)
  have own_sv: "owned s L p" if "p \<in> set ?sv" for p using super_table_owned [OF w sup that] .
  have old: "valid s' (?m p) \<and> mth s' (?m p) = mth s p" if "p \<in> set ?vt" for p
  proof (cases "p \<in> method_ptrs C")
    case True
    then obtain m where "p = (?a, m)" "m < ?n" by (auto simp: method_ptrs_def)
    then show ?thesis using M(2) by (simp add: moved_def)
  next
    case False
    then have "owned s L p" using that set_vt own_sv by blast
    then show ?thesis using M(1) by simp
  qed
  have vt': "vtable C' = map ?m ?vt @ map (Pair a') [?n..<?n + length ml]" by (simp add: C'_def expanded_class_def)
  have new: "valid s' (a', ?n + i) \<and> mth s' (a', ?n + i) = miranda_method c (length ?vt + i) (mth s (ml ! i))" if "i < length ml" for i
    using M(3) [OF that] .
  have katm: "map (kat s') (map (Pair a') [?n..<?n + length ml]) = map (kat s) ml"
    using new by (intro nth_equalityI) (auto simp: kat_def miranda_facts)
  have "map (kat s') (map ?m ?vt) = map (kat s) ?vt" using old by (simp add: kat_def)
  then show keys: "map (kat s') (vtable C') = map (kat s) (?vt @ ml)" using katm unfolding vt' by (simp only: map_append)
  have val': "valid s' p" if "p \<in> set (vtable C')" for p
  proof -
    from that consider q where "q \<in> set ?vt" "p = ?m q" | m where "?n \<le> m" "m < ?n + length ml" "p = (a', m)"
      unfolding vt' set_append list.set_map set_upt by auto
    then show ?thesis
    proof cases
      case (2 m)
      then show ?thesis using new [of "m - ?n"] by simp
    qed (use old in simp)
  qed
  have slots': "slots_ok s' (vtable C')" using slots val' unfolding slots_ok_def keys by blast
  have ptrs': "method_ptrs C' = Pair a' ` {..<?n + length ml}" by (auto simp: method_ptrs_def C'_def expanded_class_def)
  have sub: "method_ptrs C' \<subseteq> set (vtable C')"
  proof
    fix p assume "p \<in> method_ptrs C'"
    then obtain m where m: "p = (a', m)" "m < ?n + length ml" unfolding ptrs' by blast
    show "p \<in> set (vtable C')"
    proof (cases "m < ?n")
      case True
      then have "(?a, m) \<in> set ?vt" "?m (?a, m) = (a', m)" using set_vt by (simp_all add: ptr_mem moved_def)
      then show ?thesis using m(1) unfolding vt' by (metis image_eqI list.set_map set_append UnI1)
    qed (use m in \<open>auto simp: vt'\<close>)
  qed
  have info: "meth_clazz (mth s' p) = c \<and> unbound (mth s' p)" if p: "p \<in> method_ptrs C'" for p
  proof -
    obtain m where m: "p = (a', m)" "m < ?n + length ml" using p unfolding ptrs' by blast
    show ?thesis
    proof (cases "m < ?n")
      case True
      then show ?thesis using M(2) [OF True] l m(1) by (auto simp: loaded_class_def ptr_mem)
    next
      case False
      then obtain i where i: "m = ?n + i" "i < length ml" using m(2) by (metis add_less_cancel_left le_add_diff_inverse linorder_not_less)
      have "owned s L (ml ! i)" using ml i(2) by simp
      then show ?thesis using new [OF i(2)] owned_foreign(4) [OF w c] m(1) i(1) by (simp add: miranda_facts)
    qed
  qed
  have cls: "classes s' = (classes s)(c \<mapsto> C')" by (simp add: s'_def expanded_def C'_def expanded_class_def)
  have arr: "array_ok s' C'"
    using a'(1) l by (auto simp: array_ok_def method_array_def loaded_class_def s'_def expanded_def C'_def expanded_class_def)
  have "inj_on (kat s') (method_ptrs C')" using slots' sub unfolding slots_ok_def distinct_map by (auto intro: inj_on_subset)
  moreover have "array_name (class_descriptor C') \<longrightarrow> class_elementClass C' \<in> dom (classes s')"
    using l by (auto simp: loaded_class_def cls C'_def expanded_class_def)
  ultimately have "loaded_class s' c C'" using arr info by (simp add: loaded_class_def)
  moreover have "methods s' 0 = None" using a'(1) worldD(1) [OF w] by (simp add: s'_def expanded_def)
  ultimately show t: "touches c C C' s s'"
    using a'(2) cls by (auto simp: touches_def s'_def expanded_def C'_def expanded_class_def)
  have idx: "methodIndex (mth s' (vtable C' ! j)) = word_of_nat j" if j: "j < length (vtable C')" for j
  proof (cases "j < length ?vt")
    case True
    then have "vtable C' ! j = ?m (?vt ! j)" "?vt ! j \<in> set ?vt" by (simp_all add: vt' nth_append)
    then show ?thesis using old good(1) True by (simp add: good_table_def)
  next
    case False
    then obtain i where i: "j = length ?vt + i" "i < length ml" using j by (auto simp: vt' linorder_not_less dest!: le_Suc_ex)
    then have "vtable C' ! j = (a', ?n + i)" by (simp add: vt' nth_append)
    then show ?thesis using new [OF i(2)] i(1) by (simp add: miranda_facts)
  qed
  have st: "super_table s' C' = ?sv"
    using sup c(2) cls by (auto simp: super_table_def super_ok_def C'_def expanded_class_def)
  have own_kat: "kat s' p = kat s p" if "owned s L p" for p using M(1) [OF that] by (simp add: kat_def)
  have kats: "kat s' ` method_ptrs C' = kat s ` method_ptrs C \<union> kat s ` set ml"
  proof -
    have "method_ptrs C' = Pair a' ` {..<?n} \<union> set (map (Pair a') [?n..<?n + length ml])" unfolding ptrs' by (rule Pair_upt)
    moreover have "kat s' ` Pair a' ` {..<?n} = kat s ` method_ptrs C"
    proof -
      have "kat s' ` Pair a' ` {..<?n} = kat s ` Pair ?a ` {..<?n}" unfolding image_image using M(2) by (intro image_cong) (auto simp: kat_def)
      moreover have "method_ptrs C = Pair ?a ` {..<?n}" by (auto simp: method_ptrs_def)
      ultimately show ?thesis by simp
    qed
    moreover have "kat s' ` set (map (Pair a') [?n..<?n + length ml]) = kat s ` set ml" using katm by (metis list.set_map)
    ultimately show ?thesis by (simp only: image_Un)
  qed
  let ?X = "{p \<in> set ?sv. kat s p \<notin> kat s ` method_ptrs C}"
  have X: "{p \<in> set ?sv. kat s' p \<notin> kat s' ` method_ptrs C'} = ?X"
  proof -
    have out: "kat s p \<notin> kat s ` set ml" if "p \<in> ?X" for p
    proof -
      have "p \<in> set ?vt" using that set_vt by blast
      then show ?thesis using slots by (auto simp: slots_ok_def)
    qed
    show ?thesis
    proof (intro Collect_cong conj_cong refl)
      fix p assume p: "p \<in> set ?sv"
      show "(kat s' p \<notin> kat s' ` method_ptrs C') = (kat s p \<notin> kat s ` method_ptrs C)"
        unfolding kats own_kat [OF own_sv [OF p]] using out p by blast
    qed
  qed
  have "set (vtable C') = method_ptrs C' \<union> ?X"
  proof -
    have "?m p = p" if "p \<in> ?X" for p using M(1) own_sv that by blast
    then have "?m ` ?X = ?X" by simp
    moreover have "method_ptrs C = Pair ?a ` {..<?n}" by (auto simp: method_ptrs_def)
    then have "?m ` method_ptrs C = (\<lambda>m. ?m (?a, m)) ` {..<?n}" by (simp only: image_image)
    then have "?m ` method_ptrs C = Pair a' ` {..<?n}" by (simp add: moved_def)
    ultimately have "set (map ?m ?vt) = Pair a' ` {..<?n} \<union> ?X" by (simp add: set_vt image_Un)
    then show ?thesis unfolding vt' set_append ptrs' Pair_upt by blast
  qed
  moreover have "kat s' (vtable C' ! j) = kat s' (?sv ! j)" if j: "j < length ?sv" for j
  proof -
    have g: "length ?sv \<le> length ?vt" "kat s (?vt ! j) = kat s (?sv ! j)" using good(1) j by (simp_all add: good_table_def extends_table_def)
    have "j < length (vtable C')" using g(1) j by (simp add: vt')
    then have "kat s' (vtable C' ! j) = map (kat s') (vtable C') ! j" by simp
    also have "\<dots> = kat s (?vt ! j)" unfolding keys using g(1) j by (simp add: nth_append)
    finally show ?thesis using g(2) own_kat [OF own_sv] j by simp
  qed
  moreover have "length ?sv \<le> length (vtable C')" using good(1) by (simp add: good_table_def extends_table_def vt')
  ultimately have "extends_table s' C' ?sv" unfolding extends_table_def using X by simp
  then show "good_table s' C'" using slots' idx st by (simp add: good_table_def)
  have "\<forall>j<length ?vt. unat (methodIndex (mth s (?vt ! j))) = j"
    using good by (simp add: good_table_def unat_index)
  moreover have "\<forall>p\<in>set ml. valid s p \<and> fst p \<noteq> ?a" using ml owned_foreign [OF w c] by blast
  moreover have "method_ptrs C \<subseteq> set ?vt" using set_vt by blast
  ultimately show "expand_mirandas s c a' ml C = Ret s'"
    using expand_mirandas_spec [of s C a' ml c] a' worldD(1) [OF w] l good(1) by (simp add: s'_def loaded_class_def good_table_def)
qed

end
