(* ===== verification/ClassInterfaces.thy ===== *)
theory ClassInterfaces
  imports ClassLinked
begin

text \<open>
  \<open>createIftable\<close> keeps the invariant of the classes; the checks on the superclass and the interfaces return, and only set flags.
\<close>

section \<open>The interface tables\<close>

lemma add_interfaces_spec:
  assumes w: "world s L" and "\<forall>i\<in>set is. i \<in> L"
  shows "\<exists>r k. add_interfaces s is tbl = Ret r \<and> (\<forall>n. count_interfaces s is n = Ret (n + k)) \<and> (k = 0 \<longrightarrow> is = []) \<and> (\<forall>t. r = Some t \<longrightarrow> (\<exists>new. t = tbl @ new \<and> length new = k
    \<and> (\<forall>e\<in>set new. methodIndexArray e = None \<and> interface_in s L (entry_clazz e)) \<and> entry_clazz ` set new = (\<Union>i\<in>set is. insert i (entries_of s i))))"
  using assms(2)
proof (induction "is" arbitrary: tbl)
  case (Cons i "is")
  obtain I where I: "classes s i = Some I" "linked_class s L I" "i \<in> L" using worldD(5) [OF w] Cons.prems by auto
  let ?new = "\<lparr>entry_clazz = i, methodIndexArray = None\<rparr> # map (\<lambda>e. \<lparr>entry_clazz = entry_clazz e, methodIndexArray = None\<rparr>) (class_iftable I)"
  obtain r k where r: "add_interfaces s is (tbl @ ?new) = Ret r" "\<forall>n. count_interfaces s is n = Ret (n + k)"
    "\<forall>t. r = Some t \<longrightarrow> (\<exists>new. t = (tbl @ ?new) @ new \<and> length new = k \<and> (\<forall>e\<in>set new. methodIndexArray e = None \<and> interface_in s L (entry_clazz e))
      \<and> entry_clazz ` set new = (\<Union>i\<in>set is. insert i (entries_of s i)))"
    using Cons.IH [of "tbl @ ?new"] Cons.prems by auto
  have count: "\<forall>n. count_interfaces s (i # is) n = Ret (n + (1 + length (class_iftable I) + k))" using r(2) I(1) by (simp add: get_class_def add.assoc)
  show ?case
  proof (cases "is_interface_class I")
    case True
    have run: "add_interfaces s (i # is) tbl = Ret r" using True I(1) r(1) by (simp add: get_class_def)
    have new: "\<forall>e\<in>set ?new. methodIndexArray e = None \<and> interface_in s L (entry_clazz e)"
      using I True by (auto simp: linked_class_def interface_in_def)
    have here: "entry_clazz ` set ?new = insert i (entries_of s i)" using I(1) by (simp add: entries_of_def image_image)
    have "\<exists>new. t = tbl @ new \<and> length new = 1 + length (class_iftable I) + k \<and> (\<forall>e\<in>set new. methodIndexArray e = None \<and> interface_in s L (entry_clazz e))
      \<and> entry_clazz ` set new = (\<Union>i\<in>set (i # is). insert i (entries_of s i))"
      if t: "r = Some t" for t
    proof -
      obtain new where n: "t = (tbl @ ?new) @ new" "length new = k" "\<forall>e\<in>set new. methodIndexArray e = None \<and> interface_in s L (entry_clazz e)"
        "entry_clazz ` set new = (\<Union>i\<in>set is. insert i (entries_of s i))" using r(3) t by blast
      have "entry_clazz ` set (?new @ new) = (\<Union>i\<in>set (i # is). insert i (entries_of s i))" unfolding set_append image_Un here n(4) by simp
      then show ?thesis using new n(1-3) by (intro exI [of _ "?new @ new"]) (simp add: ball_Un)
    qed
    moreover have "1 + length (class_iftable I) + k = 0 \<longrightarrow> i # is = []" by simp
    ultimately show ?thesis using run count by (intro exI [of _ r] exI [of _ "1 + length (class_iftable I) + k"] conjI allI impI) blast+
  next
    case False
    then have "add_interfaces s (i # is) tbl = Ret None" using I(1) by (simp add: get_class_def)
    then show ?thesis using count by (intro exI [of _ None] exI [of _ "1 + length (class_iftable I) + k"]) simp
  qed
qed simp

lemma pool_size_spec:
  assumes "\<forall>e\<in>set es. \<exists>I. classes s (entry_clazz e) = Some I"
  shows "\<exists>n. pool_size s es = Ret n \<and> (n = 0 \<longrightarrow> (\<forall>e\<in>set es. \<forall>I. classes s (entry_clazz e) = Some I \<longrightarrow> virtualMethodCount I = 0))"
  using assms
proof (induction es)
  case (Cons e es)
  then obtain n where "pool_size s es = Ret n" "n = 0 \<longrightarrow> (\<forall>e\<in>set es. \<forall>I. classes s (entry_clazz e) = Some I \<longrightarrow> virtualMethodCount I = 0)" by auto
  moreover obtain I where "classes s (entry_clazz e) = Some I" using Cons.prems by auto
  ultimately show ?case by (auto simp: get_class_def)
qed simp

lemma inherited_interfaces:
  assumes w: "world s L" and sup: "super_ok s L C" and e: "e \<in> set (inherited_entries s C)"
  shows "interface_in s L (entry_clazz e)" "good_table s C \<Longrightarrow> entry_matches s (vtable C) e"
proof -
  obtain S where S: "class_super C \<noteq> 0" "class_super C \<in> L" "classes s (class_super C) = Some S" "\<not> is_interface_class S" "e \<in> set (class_iftable S)"
    using sup e by (auto simp: inherited_entries_def super_ok_def split: if_splits)
  have lS: "linked_class s L S" using worldD(5) [OF w S(2)] S(3) by simp
  then show "interface_in s L (entry_clazz e)" using S(5) by (simp add: linked_class_def)
  assume "good_table s C"
  then have x: "extends_table s C (vtable S)" using S(1,3) by (simp add: good_table_def super_table_def)
  have "entry_matches s (vtable S) e" using lS S(4,5) by (simp add: linked_class_def)
  moreover have "idx_ok s (vtable C) j k" if "idx_ok s (vtable S) j k" for j k using x that by (auto simp: extends_table_def idx_ok_def)
  ultimately show "entry_matches s (vtable C) e" unfolding entry_matches_def by (cases "methodIndexArray e") (simp, simp, blast)
qed

lemma touches_iftable:
  assumes "world s L" and "classes s c = Some C"
  shows "touches c C (C\<lparr>class_iftable := t\<rparr>) s (set_class s c (C\<lparr>class_iftable := t\<rparr>))"
  by (rule touches_class [OF assms]) (auto simp: same_body_def)

lemma set_class_twice [simp]: "set_class (set_class s c D) c E = set_class s c E" by (simp add: set_class_def)

lemma entry_set_class:
  "entry_clazz e \<noteq> c \<Longrightarrow> entry_matches (set_class s c D) l e = entry_matches s l e" "i \<noteq> c \<Longrightarrow> interface_in (set_class s c D) L i = interface_in s L i"
proof -
  have i: "idx_ok (set_class s c D) = idx_ok s" by (simp add: fun_eq_iff idx_ok_def)
  show "entry_clazz e \<noteq> c \<Longrightarrow> entry_matches (set_class s c D) l e = entry_matches s l e" "i \<noteq> c \<Longrightarrow> interface_in (set_class s c D) L i = interface_in s L i"
    unfolding entry_matches_def interface_in_def i set_class_view by simp_all
qed

definition relinked :: "LinkClass \<Rightarrow> LinkClass \<Rightarrow> bool" where
  "relinked C C' \<longleftrightarrow> C' = C\<lparr>virtualMethods := virtualMethods C', virtualMethodCount := virtualMethodCount C', vtable := vtable C', class_iftable := class_iftable C'\<rparr>"

lemma createIftable_spec:
  assumes w: "world s L" and c: "classes s c = Some C" "c \<notin> L" and sup: "super_ok s L C" and ifs: "\<forall>i\<in>set (class_interfaces C). i \<in> L"
    and empty: "class_iftable C = []" and a': "a' \<noteq> 0" "a' = virtualMethods C \<or> methods s a' = None"
    and tab: "is_interface_class C \<or> good_table s C \<and> length (vtable C) < 65536"
  shows "\<exists>r s' C'. createIftable s c a' = Ret (r, s') \<and> touches c C C' s s' \<and> relinked C C' \<and>
    (r = LinkOk \<longrightarrow> (\<forall>e\<in>set (class_iftable C'). interface_in s' L (entry_clazz e)) \<and> entry_clazz ` set (class_iftable C') = implemented s C \<and>
      (if is_interface_class C then virtualMethods C' = virtualMethods C \<and> virtualMethodCount C' = virtualMethodCount C \<and> mth s' = mth s
       else good_table s' C' \<and> (\<forall>e\<in>set (class_iftable C'). entry_matches s' (vtable C') e)))"
proof -
  let ?inh = "inherited_entries s C" and ?C = "\<lambda>t. C\<lparr>class_iftable := t\<rparr>"
  have ne: "i \<noteq> c" if "interface_in s L i" for i using that c(2) by (auto simp: interface_in_def)
  have ifc: "is_interface_class (?C t) = is_interface_class C" for t by (simp add: is_interface_class_def)
  have st: "super_table (set_class s c (?C t)) (?C t) = super_table s C" for t using sup c(2) by (auto simp: super_table_def super_ok_def)
  have good: "good_table (set_class s c (?C t)) (?C t) = good_table s C" for t unfolding good_table_def st by (simp add: extends_table_def)
  have simple: ?thesis
    if run: "createIftable s c a' = Ret (r, set_class s c (?C t))"
      and all: "r = LinkOk \<Longrightarrow> entry_clazz ` set t = implemented s C"
      and ok: "r = LinkOk \<Longrightarrow> \<forall>e\<in>set t. interface_in s L (entry_clazz e) \<and> (is_interface_class C \<or> entry_matches s (vtable C) e)" for r t
  proof -
    have "touches c C (?C t) s (set_class s c (?C t))" by (rule touches_iftable [OF w c(1)])
    then show ?thesis using run ok all tab ne
      by (intro exI [of _ r] exI [of _ "set_class s c (?C t)"] exI [of _ "?C t"]) (auto simp: relinked_def entry_set_class good)
  qed
  have "?C [] = C" using empty by simp
  then have same: "set_class s c (?C []) = s" using set_class_same [OF c(1)] by simp
  obtain r k where r: "add_interfaces s (class_interfaces C) ?inh = Ret r" "\<forall>n. count_interfaces s (class_interfaces C) n = Ret (n + k)"
    "\<forall>t. r = Some t \<longrightarrow> (\<exists>new. t = ?inh @ new \<and> length new = k \<and> (\<forall>e\<in>set new. methodIndexArray e = None \<and> interface_in s L (entry_clazz e))
      \<and> entry_clazz ` set new = (\<Union>i\<in>set (class_interfaces C). insert i (entries_of s i)))" "k = 0 \<longrightarrow> class_interfaces C = []"
    using add_interfaces_spec [OF w ifs, of ?inh] by (elim exE conjE) (rule that; assumption)
  have gets: "get_class s c = Ret C"
    "(if class_super C \<noteq> 0 then bind_out (get_class s (class_super C)) (\<lambda>S. Ret (class_iftable S)) else Ret []) = Ret ?inh"
    using c(1) sup by (auto simp: get_class_def inherited_entries_def super_ok_def)
  show ?thesis
  proof (cases "length ?inh + k = 0 \<or> r = None")
    case True
    show ?thesis
    proof (cases "length ?inh + k = 0")
      case zero: True
      then have "createIftable s c a' = Ret (LinkOk, s)" using empty r(2) by (simp add: createIftable_def gets)
      then show ?thesis using same zero r(4) by (intro simple [of LinkOk "[]"]) (simp_all add: implemented_def)
    next
      case False
      then have none: "r = None" using True by blast
      then have "createIftable s c a' = Ret (LinkFail (Some ''Ljava/lang/IncompatibleClassChangeError;''), s)"
        using False r(2) r(1) [unfolded none] by (auto simp: createIftable_def gets)
      then show ?thesis using same
        by (intro simple [of "LinkFail (Some ''Ljava/lang/IncompatibleClassChangeError;'')" "[]"]) simp_all
    qed
  next
    case False
    then obtain new where new: "r = Some (?inh @ new)" "length new = k" "\<forall>e\<in>set new. methodIndexArray e = None \<and> interface_in s L (entry_clazz e)"
      "entry_clazz ` set new = (\<Union>i\<in>set (class_interfaces C). insert i (entries_of s i))" using r(3) by auto
    have impl: "entry_clazz ` set ?inh \<union> entry_clazz ` set new = implemented s C" using new(4) by (simp add: implemented_def)
    let ?tbl = "?inh @ new" let ?s1 = "set_class s c (?C ?tbl)"
    have all_in: "interface_in s L (entry_clazz e)" if "e \<in> set ?tbl" for e using that new(3) inherited_interfaces(1) [OF w sup] by auto
    have inh_ok: "entry_matches s (vtable C) e" if "e \<in> set ?inh" "\<not> is_interface_class C" for e
      using inherited_interfaces(2) [OF w sup that(1)] tab that(2) by blast
    have t1: "touches c C (?C ?tbl) s ?s1" by (rule touches_iftable [OF w c(1)])
    have c0: "c \<noteq> 0" using c(1) worldD(2) [OF w] by auto
    have w1: "world ?s1 L" by (rule world_touch [OF w t1 c c0])
    have gnew: "\<exists>I. classes ?s1 (entry_clazz e) = Some I \<and> is_interface_class I \<and> classes s (entry_clazz e) = Some I \<and> entry_clazz e \<in> L" if "e \<in> set new" for e
      using new(3) that ne by (auto simp: interface_in_def)
    obtain n where n: "pool_size ?s1 new = Ret n" "n = 0 \<longrightarrow> (\<forall>e\<in>set new. \<forall>I. classes ?s1 (entry_clazz e) = Some I \<longrightarrow> virtualMethodCount I = 0)"
      using pool_size_spec [of new ?s1] gnew by blast
    have run0: "createIftable s c a' =
      (if is_interface_class C \<or> k = 0 then Ret (LinkOk, ?s1)
       else if n = 0 then Ret (LinkOk, ?s1)
       else bind_out (match_interfaces ?s1 (vtable C) new []) (\<lambda>(ok, mirandas, es).
         let C = ?C (?inh @ es); s = set_class ?s1 c C in
         if \<not> ok then Ret (LinkFail (Some ''Ljava/lang/IllegalAccessError;''), s)
         else if mirandas \<noteq> [] then bind_out (expand_mirandas s c a' mirandas C) (\<lambda>s. Ret (LinkOk, s)) else Ret (LinkOk, s)))"
      using False r(1,2) new(1,2) n(1) by (simp add: createIftable_def gets ifc Let_def) auto
    show ?thesis
    proof (cases "is_interface_class C \<or> k = 0 \<or> n = 0")
      case True
      have "entry_matches s (vtable C) e" if e: "e \<in> set ?tbl" "\<not> is_interface_class C" for e
      proof (cases "e \<in> set ?inh")
        case False
        then have m: "e \<in> set new" "new \<noteq> []" using e(1) by auto
        then have "n = 0" using True e(2) new(2) by auto
        then show ?thesis using n(2) gnew [OF m(1)] m(1) new(3) by (auto simp: entry_matches_def)
      qed (use inh_ok e in blast)
      then show ?thesis using True run0 all_in impl by (intro simple [of LinkOk ?tbl]) (auto simp: image_Un)
    next
      case go: False
      then have tabC: "good_table s C" "length (vtable C) < 65536" using tab by blast+
      have "slots_ok ?s1 (vtable C @ [])" using tabC(1) by (simp add: good_table_def)
      moreover have "\<forall>e\<in>set new. \<exists>I. classes ?s1 (entry_clazz e) = Some I \<and> is_interface_class I \<and> (\<forall>p\<in>method_ptrs I. valid ?s1 p)"
        using gnew loaded_valid worldD(3) [OF w1] by blast
      ultimately obtain ok ml es where m: "match_interfaces ?s1 (vtable C) new [] = Ret (ok, [] @ ml, es)" "slots_ok ?s1 (vtable C @ [] @ ml)"
        "\<forall>p\<in>set ml. \<exists>e\<in>set new. \<exists>I. classes ?s1 (entry_clazz e) = Some I \<and> p \<in> method_ptrs I" "map entry_clazz es = map entry_clazz new"
        "ok \<longrightarrow> (\<forall>e\<in>set es. entry_matches ?s1 (vtable C @ [] @ ml) e)" using match_interfaces_spec by blast
      have es_in: "interface_in s L (entry_clazz e)" if "e \<in> set es" for e
      proof -
        have "entry_clazz e \<in> set (map entry_clazz new)" using that unfolding m(4) [symmetric] by simp
        then show ?thesis using new(3) by auto
      qed
      have "entry_clazz ` set es = entry_clazz ` set new" using m(4) by (metis list.set_map)
      then have impl2: "entry_clazz ` set (?inh @ es) = implemented s C" using impl by (simp add: image_Un)
      let ?t = "?inh @ es" let ?s2 = "set_class s c (?C ?t)"
      have all2: "interface_in s L (entry_clazz e)" if "e \<in> set ?t" for e using that es_in all_in by auto
      have es_ok: "entry_matches s (vtable C @ ml) e" if e: "ok" "e \<in> set es" for e
      proof -
        have "entry_matches ?s1 (vtable C @ ml) e" using m(5) e by simp
        then show ?thesis using entry_set_class(1) [OF ne [OF es_in [OF e(2)]]] by blast
      qed
      have mlo: "\<forall>p\<in>set ml. owned s L p"
      proof
        fix p assume "p \<in> set ml"
        then obtain e I where e: "e \<in> set new" "classes ?s1 (entry_clazz e) = Some I" "p \<in> method_ptrs I" using m(3) by blast
        then show "owned s L p" using gnew [OF e(1)] by (auto simp: owned_def)
      qed
      show ?thesis
      proof (cases "ok \<and> ml \<noteq> []")
        case False
        have "createIftable s c a' = Ret (if ok then LinkOk else LinkFail (Some ''Ljava/lang/IllegalAccessError;''), ?s2)"
          using run0 go m(1) False by (simp add: Let_def)
        then show ?thesis using all2 es_ok inh_ok go False impl2 by (intro simple [of _ ?t]) (auto split: if_splits)
      next
        case exp: True
        have t2: "touches c C (?C ?t) s ?s2" by (rule touches_iftable [OF w c(1)])
        have w2: "world ?s2 L" by (rule world_touch [OF w t2 c c0])
        let ?C2 = "?C ?t" let ?s3 = "expanded ?s2 c a' ml ?C2" let ?C3 = "expanded_class a' ml ?C2"
        have c2: "classes ?s2 c = Some ?C2" by simp
        have own2: "\<forall>p\<in>set ml. owned ?s2 L p" using mlo touched_owned(4) [OF w t2 c] by blast
        have sup2: "super_ok ?s2 L ?C2" using sup c(2) by (auto simp: super_ok_def)
        have slots2: "slots_ok ?s2 (vtable ?C2 @ ml)" using m(2) by simp
        have "a' = virtualMethods ?C2 \<or> methods ?s2 a' = None" "good_table ?s2 ?C2" "length (vtable ?C2) < 65536" using a'(2) good tabC by simp_all
        note E = expanded_spec [OF w2 c2 c(2) a'(1) this(1) own2 sup2 this(2,3) slots2]
        have "touches c C ?C3 s ?s3" using E(2) by (simp add: touches_def)
        moreover have "createIftable s c a' = Ret (LinkOk, ?s3)" using run0 go m(1) exp E(1) by (simp add: Let_def)
        moreover have "relinked C ?C3" by (simp add: relinked_def expanded_class_def)
        moreover have tbl3: "class_iftable ?C3 = ?t" by (simp add: expanded_class_def)
        moreover have in3: "interface_in ?s3 L (entry_clazz e)" if "e \<in> set ?t" for e
          using all2 [OF that] ne E(2) by (auto simp: interface_in_def touches_def)
        moreover have "entry_matches ?s3 (vtable ?C3) e" if e: "e \<in> set ?t" for e
        proof -
          have "entry_matches s (vtable C @ ml) e" using e es_ok exp inh_ok go entry_matches_append by auto
          then obtain I where I: "classes s (entry_clazz e) = Some I" "is_interface_class I" "case methodIndexArray e of None \<Rightarrow> virtualMethodCount I = 0
            | Some idxs \<Rightarrow> length idxs = virtualMethodCount I \<and> (\<forall>m<virtualMethodCount I. idx_ok s (vtable C @ ml) (idxs ! m) (kat s (virtualMethods I, m)))"
            unfolding entry_matches_def by blast
          have nc: "entry_clazz e \<noteq> c" using ne all2 e by blast
          have cls3: "classes ?s3 (entry_clazz e) = Some I" using E(2) nc I(1) by (simp add: touches_def)
          have k3: "kat ?s3 (virtualMethods I, m) = kat s (virtualMethods I, m)" if "m < virtualMethodCount I" for m
            using touched_array(3) [OF w2 E(2) c2 _ nc] I(1) nc that by (simp add: ptr_mem)
          have idx3: "idx_ok ?s3 (vtable ?C3) j x" if "idx_ok s (vtable C @ ml) j x" for j x
          proof -
            have kk: "map (kat ?s3) (vtable ?C3) = map (kat s) (vtable C @ ml)" using E(4) by simp
            have len: "length (vtable ?C3) = length (vtable C @ ml)" using arg_cong [OF kk, of length] by simp
            have "kat ?s3 (vtable ?C3 ! j) = kat s ((vtable C @ ml) ! j)"
              using that len nth_map [of j "vtable ?C3" "kat ?s3"] nth_map [of j "vtable C @ ml" "kat s"] unfolding kk by (simp add: idx_ok_def)
            then show ?thesis using that len by (simp add: idx_ok_def)
          qed
          show ?thesis unfolding entry_matches_def using cls3 I(2,3) k3 idx3 by (cases "methodIndexArray e") simp_all
        qed
        ultimately show ?thesis using E(3) go impl2 by (intro exI [of _ LinkOk] exI [of _ ?s3] exI [of _ ?C3]) simp
      qed
    qed
  qed
qed

section \<open>Access and flags\<close>

lemma same_package_total:
  assumes "\<And>p. p \<in> {a, b} \<Longrightarrow> \<exists>d. view_descriptor v p = Some d \<and> (array_name d \<longrightarrow> (\<exists>d'. view_descriptor v (view_elementClass v p) = Some d'))"
  shows "\<exists>r. dvmInSamePackage v a b = Ret r"
proof -
  obtain d where d: "view_descriptor v a = Some d" "array_name d \<longrightarrow> (\<exists>d'. view_descriptor v (view_elementClass v a) = Some d')" using assms by blast
  obtain e where e: "view_descriptor v b = Some e" "array_name e \<longrightarrow> (\<exists>d'. view_descriptor v (view_elementClass v b) = Some d')" using assms by blast
  show ?thesis using d e by (cases "array_name d"; cases "array_name e") (auto simp: dvmInSamePackage_def Let_def)
qed

lemma class_access_total:
  assumes w: "world s L" and "classes s c = Some C" and "classes s d = Some D"
  shows "\<exists>r. dvmCheckClassAccess (link_view s) c d f = Ret r"
proof -
  have "\<exists>d. view_descriptor (link_view s) p = Some d \<and> (array_name d \<longrightarrow> (\<exists>d'. view_descriptor (link_view s) (view_elementClass (link_view s) p) = Some d'))"
    if p: "p \<in> {c, d}" for p
  proof -
    obtain P where P: "classes s p = Some P" using assms(2,3) p by auto
    then show ?thesis using worldD(3) [OF w P] by (auto simp: link_view_def loaded_class_def)
  qed
  then show ?thesis using same_package_total [of c d] by (auto simp: dvmCheckClassAccess_def)
qed

lemma interfaces_accessible_total:
  assumes "world s L" and "classes s c = Some C" and "\<forall>i\<in>set is. i \<in> L"
  shows "\<exists>r. interfaces_accessible s c is = Ret r"
  using assms(3)
proof (induction "is")
  case (Cons i "is")
  obtain I where I: "classes s i = Some I" using worldD(5) [OF assms(1)] Cons.prems by auto
  obtain b where "dvmCheckClassAccess (link_view s) c i (class_accessFlags I) = Ret b" using class_access_total [OF assms(1,2) I] by blast
  then show ?case using Cons I by (auto simp: get_class_def)
qed auto

text \<open>A class that differs in its flags only, and not in being an interface.\<close>

definition same_flags :: "LinkClass \<Rightarrow> LinkClass \<Rightarrow> bool" where
  "same_flags C C' \<longleftrightarrow> C' = C\<lparr>class_accessFlags := class_accessFlags C'\<rparr> \<and> is_interface_class C' = is_interface_class C"

lemma same_flags_refl: "same_flags C C" by (simp add: same_flags_def)

lemma same_flags_trans: "same_flags C C' \<Longrightarrow> same_flags C' C'' \<Longrightarrow> same_flags C C''"
  by (cases C; cases C'; cases C''; simp add: same_flags_def)

lemma set_flag_same: "f AND ACC_INTERFACE = 0 \<Longrightarrow> same_flags C (SET_CLASS_FLAG C f)"
  by (simp add: same_flags_def SET_CLASS_FLAG_def is_interface_class_def bit.conj_disj_distrib2)

lemma interface_bits:
  "CLASS_ISFINALIZABLE AND ACC_INTERFACE = 0" "CLASS_ISREFERENCE AND ACC_INTERFACE = 0" "(CLASS_ISREFERENCE OR CLASS_ISWEAKREFERENCE) AND ACC_INTERFACE = 0"
  "(CLASS_ISREFERENCE OR CLASS_ISPHANTOMREFERENCE) AND ACC_INTERFACE = 0" "(f AND reference_flags) AND ACC_INTERFACE = 0"
  "(f AND NOT CLASS_ISFINALIZABLE) AND ACC_INTERFACE = f AND ACC_INTERFACE"
proof -
  show "(f AND reference_flags) AND ACC_INTERFACE = 0"
    by (simp add: and.assoc reference_flags_def ACC_INTERFACE_def CLASS_ISREFERENCE_def CLASS_ISWEAKREFERENCE_def CLASS_ISPHANTOMREFERENCE_def)
  have "NOT CLASS_ISFINALIZABLE AND ACC_INTERFACE = ACC_INTERFACE" by (simp add: ACC_INTERFACE_def CLASS_ISFINALIZABLE_def)
  then show "(f AND NOT CLASS_ISFINALIZABLE) AND ACC_INTERFACE = f AND ACC_INTERFACE" by (simp add: and.assoc)
qed (simp_all add: ACC_INTERFACE_def CLASS_ISFINALIZABLE_def CLASS_ISREFERENCE_def CLASS_ISWEAKREFERENCE_def CLASS_ISPHANTOMREFERENCE_def)

lemma inherit_flags_spec:
  assumes "class_accessFlags C AND reference_flags = 0"
  shows "\<exists>r. inherit_flags C S = Ret r \<and> (\<forall>C'. r = Inr C' \<longrightarrow> same_flags C C')"
proof -
  define C1 where "C1 = (if IS_CLASS_FLAG_SET S CLASS_ISFINALIZABLE then SET_CLASS_FLAG C CLASS_ISFINALIZABLE else C)"
  have C1: "same_flags C C1" using set_flag_same [OF interface_bits(1)] by (simp add: C1_def same_flags_refl)
  have "CLASS_ISFINALIZABLE AND reference_flags = 0"
    by (simp add: reference_flags_def CLASS_ISFINALIZABLE_def CLASS_ISREFERENCE_def CLASS_ISWEAKREFERENCE_def CLASS_ISPHANTOMREFERENCE_def)
  then have ref: "class_accessFlags C1 AND reference_flags = 0" using assms by (simp add: C1_def SET_CLASS_FLAG_def bit.conj_disj_distrib2)
  have flag: "same_flags C (SET_CLASS_FLAG C1 f)" if "f AND ACC_INTERFACE = 0" for f using same_flags_trans [OF C1 set_flag_same [OF that]] .
  show ?thesis using C1 ref flag interface_bits by (auto simp: inherit_flags_def C1_def [symmetric] Let_def)
qed

end
