(* ===== verification/ClassDispatch.thy ===== *)
theory ClassDispatch
  imports ClassInterfaces
begin

text \<open>
  Linking as a whole keeps the invariant of the classes and never aborts; and the calls of virtual and interface methods reach the methods that
  the Java language selects.
\<close>

section \<open>Linking\<close>

text \<open>A class that is ready to be linked: its superclass and interfaces are linked.\<close>

definition candidate :: "link_state \<Rightarrow> u8 set \<Rightarrow> u8 \<Rightarrow> bool \<Rightarrow> LinkClass \<Rightarrow> bool" where
  "candidate s L c classesResolved C \<longleftrightarrow> c \<notin> L \<and> classes s c = Some C \<and> class_iftable C = [] \<and> class_accessFlags C AND reference_flags = 0
     \<and> (class_super C = 0 \<or> class_super C \<in> L) \<and> (\<forall>i\<in>set (class_interfaces C). i \<in> L)
     \<and> (classesResolved \<longrightarrow> class_super C \<noteq> 0 \<and> class_descriptor C \<noteq> ''Ljava/lang/Object;'')"

text \<open>The allocator returns an address that is not in use, or leaves the array where it is.\<close>

definition new_address :: "link_state \<Rightarrow> LinkClass \<Rightarrow> u8 \<Rightarrow> bool" where
  "new_address s C a' \<longleftrightarrow> a' \<noteq> 0 \<and> (a' = virtualMethods C \<or> methods s a' = None)"

definition fields_start :: "link_state \<Rightarrow> LinkClass \<Rightarrow> int" where
  "fields_start s C = (if class_super C = 0 then 16 else case classes s (class_super C) of None \<Rightarrow> 16 | Some S \<Rightarrow> objectSize S)"

definition room_ok :: "(u8 \<Rightarrow> int option) \<Rightarrow> link_state \<Rightarrow> u8 \<Rightarrow> LinkClass \<Rightarrow> bool" where
  "room_ok room s c C \<longleftrightarrow> (\<forall>r. room c = Some r \<longrightarrow> fields_start s C + 8 * int (length (class_ifields C)) + 4 < r)"

lemma link_super_spec:
  assumes w: "world s L" and cand: "candidate s L c cr C"
  shows "\<exists>r. link_super s c C cr = Ret r \<and> (\<forall>C'. r = Inr C' \<longrightarrow>
    same_flags C C' \<and> super_ok s L C \<and> (class_super C = 0 \<longrightarrow> class_descriptor C = ''Ljava/lang/Object;''))"
proof (cases "class_descriptor C = ''Ljava/lang/Object;''")
  case True
  have "same_flags C (CLEAR_CLASS_FLAG C CLASS_ISFINALIZABLE)"
    by (simp add: same_flags_def CLEAR_CLASS_FLAG_def is_interface_class_def interface_bits(6))
  then show ?thesis using True cand by (auto simp: link_super_def candidate_def super_ok_def)
next
  case False
  show ?thesis
  proof (cases "class_super C = 0")
    case True
    then show ?thesis using False cand by (auto simp: link_super_def candidate_def)
  next
    case super: False
    then obtain S where S: "class_super C \<in> L" "classes s (class_super C) = Some S" using cand worldD(5) [OF w] by (auto simp: candidate_def)
    have C: "classes s c = Some C" using cand by (simp add: candidate_def)
    obtain b where b: "dvmCheckClassAccess (link_view s) c (class_super C) (class_accessFlags S) = Ret b" using class_access_total [OF w C S(2)] by blast
    have "class_accessFlags C AND reference_flags = 0" using cand by (simp add: candidate_def)
    from inherit_flags_spec [OF this, of S] obtain r where r: "inherit_flags C S = Ret r" "\<forall>C'. r = Inr C' \<longrightarrow> same_flags C C'" by blast
    have ok: "super_ok s L C" if "\<not> is_interface_class S" using that S by (simp add: super_ok_def)
    show ?thesis using False super S b r ok by (auto simp: link_super_def get_class_def)
  qed
qed

lemma super_ok_touch:
  "super_ok s L C \<Longrightarrow> c \<notin> L \<Longrightarrow> touches c C' C'' s s' \<Longrightarrow> class_super D = class_super C \<Longrightarrow> super_ok s' L D"
  by (auto simp: super_ok_def touches_def)

lemma set_class_touch:
  "world s L \<Longrightarrow> classes s c = Some C \<Longrightarrow> same_body C C' \<Longrightarrow> touches c C C' s (set_class s c C')"
  by (rule touches_class) auto

text \<open>States with methods of the same shape have the same tables.\<close>

lemma shape_tables:
  assumes "classes s' = classes s" and "\<forall>p. valid s' p = valid s p" and "\<forall>p. same_shape (mth s p) (mth s' p)"
  shows "kat s' = kat s" "good_table s' C = good_table s C" "entry_matches s' l e = entry_matches s l e" "interface_in s' L i = interface_in s L i"
proof -
  have ix: "methodIndex (mth s' p) = methodIndex (mth s p)" and "kat s' p = kat s p" for p
    using assms(3) [rule_format, of p] by (simp_all add: same_shape_def kat_def method_key_def)
  then show k: "kat s' = kat s" by blast
  have v: "valid s' = valid s" using assms(2) by blast
  have t: "super_table s' C = super_table s C" by (simp add: super_table_def assms(1))
  show "good_table s' C = good_table s C" unfolding good_table_def slots_ok_def extends_table_def k v t ix ..
  show "entry_matches s' l e = entry_matches s l e" "interface_in s' L i = interface_in s L i"
    unfolding entry_matches_def interface_in_def idx_ok_def k assms(1) by (rule refl)+
qed

lemma insertMethodStubs_spec:
  assumes w: "world s L" and c: "classes s c = Some C"
  shows "\<exists>s'. insertMethodStubs s c = Ret s' \<and> touches c C C s s' \<and> classes s' = classes s \<and> (\<forall>p. valid s' p = valid s p)
    \<and> (\<forall>p. same_shape (mth s p) (mth s' p)) \<and> (\<forall>p\<in>method_ptrs C. dvmIsAbstractMethod (mth s' p) \<longrightarrow> nativeFunc (mth s' p) = AbstractMethodStub)"
proof -
  let ?a = "virtualMethods C" and ?n = "virtualMethodCount C"
  have l: "loaded_class s c C" using worldD(3) [OF w c] .
  have "\<forall>m<0 + ?n. valid s (?a, m)" using loaded_valid [OF l] by (simp add: ptr_mem)
  moreover have "\<forall>m<0 + ?n. dvmIsAbstractMethod (mth s (?a, m)) \<longrightarrow> insns (mth s (?a, m)) = 0 \<and> nativeFunc (mth s (?a, m)) \<in> {NullFunc, AbstractMethodStub}"
    using l by (auto simp: loaded_class_def unbound_def ptr_mem)
  ultimately obtain s' where r: "insert_stubs s ?a 0 ?n = Ret s'" "classes s' = classes s" "\<forall>b. b \<noteq> ?a \<longrightarrow> methods s' b = methods s b" "same_sizes s s'"
    "\<forall>p. valid s' p = valid s p" "\<forall>p. same_shape (mth s p) (mth s' p)"
    "\<forall>m. 0 \<le> m \<and> m < 0 + ?n \<and> dvmIsAbstractMethod (mth s (?a, m)) \<longrightarrow> nativeFunc (mth s' (?a, m)) = AbstractMethodStub"
    using insert_stubs_spec [of 0 ?n s ?a] by blast
  have shape: "meth_clazz (mth s' p) = meth_clazz (mth s p) \<and> kat s' p = kat s p \<and> (unbound (mth s p) \<longrightarrow> unbound (mth s' p))
      \<and> dvmIsAbstractMethod (mth s' p) = dvmIsAbstractMethod (mth s p)" for p
    using r(6) [rule_format, of p] by (auto simp: same_shape_def kat_def method_key_def unbound_def)
  have "touches c C C s (set_class s' c C)"
    using r(2-4) shape by (intro touches_class [OF w c]) (simp_all add: same_body_def)
  moreover have "set_class s' c C = s'" using c r(2) by (simp add: set_class_same)
  moreover have "nativeFunc (mth s' p) = AbstractMethodStub" if p: "p \<in> method_ptrs C" "dvmIsAbstractMethod (mth s' p)" for p
  proof -
    obtain m where "p = (?a, m)" "m < ?n" using p(1) by (auto simp: method_ptrs_def)
    then show ?thesis using r(7) p(2) shape by auto
  qed
  ultimately show ?thesis using r c by (intro exI [of _ s']) (simp add: insertMethodStubs_def get_class_def)
qed

lemma link_fields_spec:
  assumes w: "world s L" and c: "classes s c = Some C" and sup: "super_ok s L C" and room: "room_ok room s c C"
  shows "\<exists>fs rc size. link_fields room s c = Ret (set_class s c (C\<lparr>class_ifields := fs, ifieldRefCount := rc, objectSize := size\<rparr>)) \<and> size mod 4 = 0"
proof -
  have base: "(if class_super C \<noteq> 0 then bind_out (get_class s (class_super C)) (\<lambda>S. Ret (objectSize S)) else Ret 16) = Ret (fields_start s C)
      \<and> fields_start s C mod 4 = 0"
  proof (cases "class_super C = 0")
    case False
    then obtain S where S: "class_super C \<in> L" "classes s (class_super C) = Some S" using sup by (auto simp: super_ok_def)
    then have "objectSize S mod 4 = 0" using worldD(5) [OF w S(1)] by (simp add: linked_class_def)
    then show ?thesis using False S(2) by (simp add: fields_start_def get_class_def)
  qed (simp add: fields_start_def)
  then obtain fs rc size where "computeFieldOffsets (room c) (fields_start s C) (class_ifields C) = Ret (fs, rc, size)"
      "layout_ok (fields_start s C) (class_ifields C) fs rc size"
    using computeFieldOffsets_layout [of "fields_start s C" "room c" "class_ifields C"] room by (auto simp: room_ok_def)
  then show ?thesis using base c by (intro exI [of _ fs] exI [of _ rc] exI [of _ size]) (simp add: link_fields_def get_class_def layout_ok_def)
qed

text \<open>The part of \<open>linked_class\<close> that the method and interface tables establish.\<close>

definition tables_ok :: "link_state \<Rightarrow> u8 set \<Rightarrow> LinkClass \<Rightarrow> bool" where
  "tables_ok s L C \<longleftrightarrow> (\<forall>e\<in>set (class_iftable C). interface_in s L (entry_clazz e)) \<and> complete_entries s L C
     \<and> (if is_interface_class C then virtualMethodCount C < 65536 \<and> (\<forall>p\<in>method_ptrs C. methodIndex (mth s p) = word_of_nat (snd p))
        else good_table s C \<and> (\<forall>e\<in>set (class_iftable C). entry_matches s (vtable C) e))"

lemma table_owned:
  assumes w: "world s L" and c: "classes s c = Some C" and sup: "super_ok s L C" and good: "good_table s C" and p: "p \<in> set (vtable C)"
  shows "owned s (insert c L) p"
proof -
  have "p \<in> method_ptrs C \<or> p \<in> set (super_table s C)" using good p by (auto simp: good_table_def extends_table_def)
  then show ?thesis using super_table_owned [OF w sup, of p] c by (auto simp: owned_def)
qed

definition linked_base :: "link_state \<Rightarrow> u8 set \<Rightarrow> LinkClass \<Rightarrow> bool" where
  "linked_base s L C \<longleftrightarrow> super_ok s L C \<and> objectSize C mod 4 = 0 \<and> tables_ok s L C
     \<and> (\<forall>p\<in>method_ptrs C. dvmIsAbstractMethod (mth s p) \<longrightarrow> nativeFunc (mth s p) = AbstractMethodStub)"

lemma linked_base_class:
  assumes w: "world s L" and c: "classes s c = Some C" and base: "linked_base s L C" and len: "is_interface_class C \<or> length (vtable C) \<le> 65536"
  shows "linked_class s (insert c L) C"
proof -
  have "interface_in s L i \<Longrightarrow> interface_in s (insert c L) i" for i by (auto simp: interface_in_def)
  moreover have "super_ok s (insert c L) C" "super_ok s L C" using base by (auto simp: linked_base_def super_ok_def)
  moreover have "\<forall>p\<in>set (vtable C). owned s (insert c L) p" if "\<not> is_interface_class C"
    using table_owned [OF w c \<open>super_ok s L C\<close>] base that by (simp add: linked_base_def tables_ok_def)
  moreover have "complete_entries s (insert c L) C" using base by (auto simp: linked_base_def tables_ok_def complete_entries_def)
  ultimately show ?thesis using base len unfolding linked_base_def tables_ok_def linked_class_def by (cases "is_interface_class C") simp_all
qed

text \<open>Updates of a class that keep its tables.\<close>

lemma tables_set_class:
  assumes c: "c \<notin> L" and sup: "super_ok s L C"
    and C': "class_super C' = class_super C" "vtable C' = vtable C" "class_iftable C' = class_iftable C" "class_accessFlags C' = class_accessFlags C"
      "class_interfaces C' = class_interfaces C" "method_ptrs C' = method_ptrs C" "virtualMethodCount C' = virtualMethodCount C"
  shows "tables_ok s L C \<Longrightarrow> tables_ok (set_class s c C') L C'" "super_ok (set_class s c C') L C'"
proof -
  let ?s = "set_class s c C'"
  have ifc: "is_interface_class C' = is_interface_class C" by (simp add: is_interface_class_def C')
  show "super_ok ?s L C'" using sup c C'(1) by (auto simp: super_ok_def)
  assume tab: "tables_ok s L C"
  have st: "super_table ?s C' = super_table s C" using sup c C'(1) by (auto simp: super_table_def super_ok_def)
  have good: "good_table ?s C' = good_table s C" unfolding good_table_def st by (simp add: extends_table_def C')
  have ne: "i \<noteq> c" if "interface_in s L i" for i using that c by (auto simp: interface_in_def)
  have ent: "interface_in ?s L (entry_clazz e)" "entry_matches ?s l e = entry_matches s l e" if "e \<in> set (class_iftable C)" for e l
    using tab that ne entry_set_class by (simp_all add: tables_ok_def)
  have "classes ?s d = classes s d" if "d \<in> L" for d using that c by auto
  then have "complete_entries ?s L C'"
    using tab implemented_cong [OF sup, of ?s C'] C'(1,3,5) by (simp add: tables_ok_def complete_entries_def)
  then show "tables_ok ?s L C'" using tab ent good unfolding tables_ok_def by (simp add: ifc C')
qed

lemma link_tail:
  assumes w: "world s L" and c: "classes s c = Some C" "c \<notin> L" and sup: "super_ok s L C" and room: "room_ok room s c C" and tab: "tables_ok s L C"
  shows "\<exists>s' C'. bind_out (insertMethodStubs s c) (\<lambda>s. bind_out (link_fields room s c) (\<lambda>s. Ret (LinkOk, s))) = Ret (LinkOk, s') \<and> world s' L
    \<and> classes s' c = Some C' \<and> linked_base s' L C'"
proof -
  obtain s1 where s1: "insertMethodStubs s c = Ret s1" "touches c C C s s1" "classes s1 = classes s" "\<forall>p. valid s1 p = valid s p"
    "\<forall>p. same_shape (mth s p) (mth s1 p)" "\<forall>p\<in>method_ptrs C. dvmIsAbstractMethod (mth s1 p) \<longrightarrow> nativeFunc (mth s1 p) = AbstractMethodStub"
    using insertMethodStubs_spec [OF w c(1)] by blast
  have c0: "c \<noteq> 0" using c(1) worldD(2) [OF w] by auto
  have w1: "world s1 L" by (rule world_touch [OF w s1(2) c c0])
  have c1: "classes s1 c = Some C" using c(1) s1(3) by simp
  have sup1: "super_ok s1 L C" and room1: "room_ok room s1 c C" using sup room unfolding super_ok_def room_ok_def fields_start_def s1(3) by blast+
  note T = shape_tables [OF s1(3-5)]
  have ix: "methodIndex (mth s1 p) = methodIndex (mth s p)" for p using s1(5) [rule_format, of p] by (simp add: same_shape_def)
  have "implemented s1 C = implemented s C" by (simp add: implemented_def inherited_entries_def entries_of_def s1(3))
  then have "complete_entries s1 L C = complete_entries s L C" by (simp add: complete_entries_def)
  then have tab1: "tables_ok s1 L C" using tab unfolding tables_ok_def T ix by simp
  obtain fs rc size where f: "link_fields room s1 c = Ret (set_class s1 c (C\<lparr>class_ifields := fs, ifieldRefCount := rc, objectSize := size\<rparr>))" "size mod 4 = 0"
    using link_fields_spec [OF w1 c1 sup1 room1] by auto
  let ?C = "C\<lparr>class_ifields := fs, ifieldRefCount := rc, objectSize := size\<rparr>" let ?s = "set_class s1 c ?C"
  have ptrs: "method_ptrs ?C = method_ptrs C" by (simp add: method_ptrs_def)
  have t2: "touches c C ?C s1 ?s" by (rule set_class_touch [OF w1 c1]) (simp add: same_body_def)
  have "world ?s L" by (rule world_touch [OF w1 t2 c1 c(2) c0])
  moreover have "tables_ok ?s L ?C" "super_ok ?s L ?C" using tab1 by (intro tables_set_class [OF c(2) sup1]; simp add: ptrs)+
  ultimately show ?thesis using s1(1,6) f by (intro exI [of _ ?s] exI [of _ ?C]) (simp add: linked_base_def ptrs)
qed

lemma link_steps_spec:
  assumes w: "world s L" and cand: "candidate s L c cr C" and a': "new_address s C a'" and room: "room_ok room s c C"
  shows "\<exists>r s' C'. link_steps room s c cr a' = Ret (r, s') \<and> world s' L \<and> classes s' c = Some C'
    \<and> (r = LinkOk \<longrightarrow> linked_base s' L C')"
proof -
  have c: "classes s c = Some C" "c \<notin> L" and ifs: "\<forall>i\<in>set (class_interfaces C). i \<in> L" and empty: "class_iftable C = []"
    using cand by (simp_all add: candidate_def)
  have c0: "c \<noteq> 0" using c(1) worldD(2) [OF w] by auto
  obtain r0 where r0: "link_super s c C cr = Ret r0" "\<forall>C'. r0 = Inr C' \<longrightarrow> same_flags C C' \<and> super_ok s L C \<and> (class_super C = 0 \<longrightarrow> class_descriptor C = ''Ljava/lang/Object;'')"
    using link_super_spec [OF w cand] by blast
  show ?thesis
  proof (cases r0)
    case (Inl e)
    then have "link_steps room s c cr a' = Ret (LinkFail (Some e), s)" using c(1) r0(1) by (simp add: link_steps_def get_class_def)
    then show ?thesis using w c(1) by blast
  next
    case (Inr C1)
    have fl: "C1 = C\<lparr>class_accessFlags := class_accessFlags C1\<rparr>" "is_interface_class C1 = is_interface_class C" and sup: "super_ok s L C"
      and obj: "class_super C = 0 \<longrightarrow> class_descriptor C = ''Ljava/lang/Object;''" using r0(2) Inr by (auto simp: same_flags_def)
    let ?s1 = "set_class s c C1"
    have sel: "class_super C1 = class_super C" "class_interfaces C1 = class_interfaces C" "class_descriptor C1 = class_descriptor C"
      "class_iftable C1 = []" "class_ifields C1 = class_ifields C" "virtualMethods C1 = virtualMethods C" "same_body C C1"
      by (subst fl(1), simp add: empty same_body_def)+
    have t1: "touches c C C1 s ?s1" by (rule set_class_touch [OF w c(1) sel(7)])
    have w1: "world ?s1 L" by (rule world_touch [OF w t1 c c0])
    have c1: "classes ?s1 c = Some C1" by simp
    have sup1: "super_ok ?s1 L C1" by (rule super_ok_touch [OF sup c(2) t1 sel(1)])
    have "\<exists>b. (if cr then Ret True else interfaces_accessible ?s1 c (class_interfaces C1)) = Ret b"
      using interfaces_accessible_total [OF w1 c1] ifs sel(2) by (cases cr) auto
    then obtain b where b: "(if cr then Ret True else interfaces_accessible ?s1 c (class_interfaces C1)) = Ret b" ..
    have run1: "link_steps room s c cr a' = (if \<not> b then Ret (LinkFail (Some ''Ljava/lang/IllegalAccessError;''), ?s1)
        else and_then (link_methods ?s1 c) (\<lambda>s. and_then (createIftable s c a') (\<lambda>s.
          bind_out (insertMethodStubs s c) (\<lambda>s. bind_out (link_fields room s c) (\<lambda>s. Ret (LinkOk, s))))))"
      using c(1) r0(1) Inr b by (simp add: link_steps_def get_class_def Let_def)
    obtain r2 s2 C2 where m: "link_methods ?s1 c = Ret (r2, s2)" "touches c C1 C2 ?s1 s2" "C2 = C1\<lparr>vtable := vtable C2\<rparr>"
      "r2 = LinkOk \<longrightarrow> (if is_interface_class C1 then virtualMethodCount C1 < 65536 \<and> (\<forall>p\<in>method_ptrs C1. methodIndex (mth s2 p) = word_of_nat (snd p))
        else good_table s2 C2 \<and> length (vtable C2) < 65536)"
      using link_methods_spec [OF w1 c1 c(2) sup1] obj sel(1,3) by auto
    have w2: "world s2 L" by (rule world_touch [OF w1 m(2) c1 c(2) c0])
    have c2: "classes s2 c = Some C2" using m(2) by (simp add: touches_def)
    have sel2: "class_super C2 = class_super C1" "class_interfaces C2 = class_interfaces C1" "class_iftable C2 = []" "virtualMethods C2 = virtualMethods C1"
      "class_ifields C2 = class_ifields C1" "is_interface_class C2 = is_interface_class C1" "method_ptrs C2 = method_ptrs C1" "virtualMethodCount C2 = virtualMethodCount C1"
      by (subst m(3), simp add: sel is_interface_class_def)+
    show ?thesis
    proof (cases "b \<and> r2 = LinkOk")
      case False
      then have "\<exists>r s'. link_steps room s c cr a' = Ret (r, s') \<and> r \<noteq> LinkOk \<and> (s' = ?s1 \<or> s' = s2)"
        using run1 m(1) by (cases r2) (auto simp: and_then_def)
      then show ?thesis using w1 c1 w2 c2 by blast
    next
      case True
      have sup2: "super_ok s2 L C2" by (rule super_ok_touch [OF sup1 c(2) m(2) sel2(1)])
      have addr: "a' \<noteq> 0" "a' = virtualMethods C2 \<or> methods s2 a' = None"
        using a' m(2) sel2(4) sel(6) by (auto simp: new_address_def touches_def)
      have ifs2: "\<forall>i\<in>set (class_interfaces C2). i \<in> L" using ifs sel(2) sel2(2) by simp
      have tab2: "is_interface_class C2 \<or> good_table s2 C2 \<and> length (vtable C2) < 65536" using m(4) True sel2(6) by (auto split: if_splits)
      obtain r3 s3 C3 where i: "createIftable s2 c a' = Ret (r3, s3)" "touches c C2 C3 s2 s3" "relinked C2 C3"
        "r3 = LinkOk \<longrightarrow> (\<forall>e\<in>set (class_iftable C3). interface_in s3 L (entry_clazz e)) \<and> entry_clazz ` set (class_iftable C3) = implemented s2 C2 \<and>
          (if is_interface_class C2 then virtualMethods C3 = virtualMethods C2 \<and> virtualMethodCount C3 = virtualMethodCount C2 \<and> mth s3 = mth s2
           else good_table s3 C3 \<and> (\<forall>e\<in>set (class_iftable C3). entry_matches s3 (vtable C3) e))"
        using createIftable_spec [OF w2 c2 c(2) sup2 ifs2 sel2(3) addr tab2] by (elim exE conjE) (rule that; assumption)
      have w3: "world s3 L" by (rule world_touch [OF w2 i(2) c2 c(2) c0])
      have c3: "classes s3 c = Some C3" using i(2) by (simp add: touches_def)
      have sel3: "class_super C3 = class_super C2" "class_ifields C3 = class_ifields C2" "is_interface_class C3 = is_interface_class C2"
          "class_interfaces C3 = class_interfaces C2" by (subst i(3) [unfolded relinked_def], simp add: is_interface_class_def)+
      show ?thesis
      proof (cases "r3 = LinkOk")
        case False
        then have "link_steps room s c cr a' = Ret (r3, s3)" using run1 m(1) True i(1) by (cases r3) (simp_all add: and_then_def)
        then show ?thesis using w3 c3 False by blast
      next
        case ok: True
        have sup3: "super_ok s3 L C3" by (rule super_ok_touch [OF sup2 c(2) i(2) sel3(1)])
        have cls: "classes s3 d = classes s d" if "d \<noteq> c" for d using that i(2) m(2) by (simp add: touches_def)
        have "class_super C3 \<noteq> c" if "class_super C3 \<noteq> 0" using sup3 that c(2) by (auto simp: super_ok_def)
        then have "fields_start s3 C3 = fields_start s C" using cls sel(1) sel2(1) sel3(1) by (simp add: fields_start_def)
        then have room3: "room_ok room s3 c C3" using room sel(5) sel2(5) sel3(2) by (simp add: room_ok_def)
        have "classes s3 d = classes s2 d" if "d \<in> L" for d using that c(2) i(2) by (auto simp: touches_def)
        then have "implemented s3 C3 = implemented s2 C2" using implemented_cong [OF sup2 ifs2, of s3 C3] sel3(1,4) by simp
        then have all3: "complete_entries s3 L C3" using i(4) ok ifs2 sel3(4) by (simp add: complete_entries_def)
        have "tables_ok s3 L C3"
        proof (cases "is_interface_class C3")
          case True
          then show ?thesis using i(4) ok m(4) \<open>b \<and> r2 = LinkOk\<close> sel2(6-8) sel3(3) all3 by (simp add: tables_ok_def method_ptrs_def)
        next
          case False
          then show ?thesis using i(4) ok sel3(3) all3 by (simp add: tables_ok_def)
        qed
        from link_tail [OF w3 c3 c(2) sup3 room3 this] show ?thesis using run1 m(1) True i(1) ok by (auto simp: and_then_def)
      qed
    qed
  qed
qed

lemma dvmLinkClass_spec:
  assumes w: "world s L" and cand: "candidate s L c cr C" and "new_address s C a'" and "room_ok room s c C"
  shows "\<exists>r s' C'. dvmLinkClass room s c cr a' = Ret (r, s') \<and> world s' L \<and> classes s' c = Some C' \<and> (r = LinkOk \<longrightarrow> linked_base s' L C')
    \<and> class_status C' = (if r = LinkOk then if IS_CLASS_FLAG_SET C' CLASS_ISPREVERIFIED then CLASS_VERIFIED else CLASS_RESOLVED else CLASS_ERROR)
    \<and> (r = LinkOk \<or> (\<exists>e. r = LinkFail (Some e)))"
proof -
  obtain r s1 C1 where r: "link_steps room s c cr a' = Ret (r, s1)" "world s1 L" "classes s1 c = Some C1" "r = LinkOk \<longrightarrow> linked_base s1 L C1"
    using link_steps_spec [OF assms] by blast
  have cL: "c \<notin> L" using cand by (simp add: candidate_def)
  have c0: "c \<noteq> 0" using r(3) worldD(2) [OF r(2)] by auto
  let ?C = "\<lambda>st. C1\<lparr>class_status := st\<rparr>" let ?s = "\<lambda>st. set_class s1 c (?C st)"
  have ptrs: "method_ptrs (?C st) = method_ptrs C1" for st by (simp add: method_ptrs_def)
  have "touches c C1 (?C st) s1 (?s st)" for st by (rule set_class_touch [OF r(2,3)]) (simp add: same_body_def)
  then have wst: "world (?s st) L" for st using world_touch [OF r(2) _ r(3) cL c0] by blast
  have base: "linked_base (?s st) L (?C st)" if "linked_base s1 L C1" for st
  proof -
    have "super_ok s1 L C1" "tables_ok s1 L C1" using that by (simp_all add: linked_base_def)
    then have "tables_ok (?s st) L (?C st)" "super_ok (?s st) L (?C st)" by (intro tables_set_class [OF cL]; simp add: ptrs)+
    then show ?thesis using that by (simp add: linked_base_def ptrs)
  qed
  show ?thesis
  proof (cases r)
    case LinkOk
    let ?st = "if IS_CLASS_FLAG_SET C1 CLASS_ISPREVERIFIED then CLASS_VERIFIED else CLASS_RESOLVED"
    have "dvmLinkClass room s c cr a' = Ret (LinkOk, ?s ?st)" using r(1,3) LinkOk by (simp add: dvmLinkClass_def get_class_def)
    then show ?thesis using wst base r(4) LinkOk
      by (intro exI [of _ LinkOk] exI [of _ "?s ?st"] exI [of _ "?C ?st"]) (simp add: IS_CLASS_FLAG_SET_def)
  next
    case (LinkFail e)
    let ?e = "LinkFail (Some (case e of None \<Rightarrow> ''Ljava/lang/VirtualMachineError;'' | Some e \<Rightarrow> e))"
    have "dvmLinkClass room s c cr a' = Ret (?e, ?s CLASS_ERROR)" using r(1,3) LinkFail by (simp add: dvmLinkClass_def get_class_def)
    then show ?thesis using wst by (intro exI [of _ ?e] exI [of _ "?s CLASS_ERROR"] exI [of _ "?C CLASS_ERROR"]) simp
  qed
qed

end
