(* ===== verification/ClassCalls.thy ===== *)
theory ClassCalls
  imports ClassDispatch
begin

text \<open>
  The states that linking leads to, and the calls in them: which method a class selects for a name and prototype, and that \<open>invoke-virtual\<close> and
  \<open>invoke-interface\<close> reach it.
\<close>

section \<open>Linked states\<close>

text \<open>Classes are linked one after the other, in any order that links superclasses and interfaces first; linking may fail.\<close>

inductive linked_world :: "(u8 \<Rightarrow> int option) \<Rightarrow> link_state \<Rightarrow> u8 set \<Rightarrow> bool" for room where
  loaded: "world s {} \<Longrightarrow> linked_world room s {}"
| linked: "linked_world room s L \<Longrightarrow> candidate s L c cr C \<Longrightarrow> new_address s C a' \<Longrightarrow> room_ok room s c C \<Longrightarrow>
    dvmLinkClass room s c cr a' = Ret (LinkOk, s') \<Longrightarrow> classes s' c = Some C' \<Longrightarrow> is_interface_class C' \<or> length (vtable C') \<le> 65536 \<Longrightarrow>
    linked_world room s' (insert c L)"
| failed: "linked_world room s L \<Longrightarrow> candidate s L c cr C \<Longrightarrow> new_address s C a' \<Longrightarrow> room_ok room s c C \<Longrightarrow>
    dvmLinkClass room s c cr a' = Ret (LinkFail e, s') \<Longrightarrow> linked_world room s' L"

lemma world_linked:
  assumes "world s L" and c: "classes s c = Some C" "c \<notin> L" and base: "linked_base s L C" and len: "is_interface_class C \<or> length (vtable C) \<le> 65536"
  shows "world s (insert c L)"
proof (rule world_insert [OF assms(1) c(1) _ _ c(2)])
  show "linked_class s (insert c L) C" by (rule linked_base_class [OF assms(1) c(1) base len])
  show "link_parents C \<subseteq> L" using base by (auto simp: linked_base_def tables_ok_def complete_entries_def super_ok_def link_parents_def)
qed

lemma linked_world_inv: "linked_world room s L \<Longrightarrow> world s L"
proof (induction rule: linked_world.induct)
  case (linked s L c cr C a' s' C')
  obtain r s2 C2 where r: "dvmLinkClass room s c cr a' = Ret (r, s2)" "world s2 L" "classes s2 c = Some C2" "r = LinkOk \<longrightarrow> linked_base s2 L C2"
    using dvmLinkClass_spec [OF linked.IH linked.hyps(2-4)] by blast
  then have "linked_base s' L C'" "world s' L" using linked.hyps(5,6) by simp_all
  then show ?case using world_linked linked.hyps(2,6,7) by (auto simp: candidate_def)
next
  case (failed s L c cr C a' e s')
  then show ?case using dvmLinkClass_spec [OF failed.IH failed.hyps(2-4)] by auto
qed

section \<open>Selection of methods\<close>

text \<open>The method of a class for a name and prototype: its own, or else that of its superclass.\<close>

inductive selects :: "link_state \<Rightarrow> u8 \<Rightarrow> string \<times> DexProto \<Rightarrow> mptr \<Rightarrow> bool" for s where
  own: "classes s c = Some C \<Longrightarrow> p \<in> method_ptrs C \<Longrightarrow> kat s p = k \<Longrightarrow> selects s c k p"
| inherited: "classes s c = Some C \<Longrightarrow> \<forall>q\<in>method_ptrs C. kat s q \<noteq> k \<Longrightarrow> class_super C \<noteq> 0 \<Longrightarrow> selects s (class_super C) k p \<Longrightarrow> selects s c k p"

inductive_cases selectsE: "selects s c k p"

lemma selects_unique:
  assumes w: "world s L" and "selects s c k p" and "selects s c k q"
  shows "p = q"
  using assms(2,3)
proof (induction arbitrary: q rule: selects.induct)
  case (own c C p k)
  have inj: "inj_on (kat s) (method_ptrs C)" using worldD(3) [OF w own.hyps(1)] by (simp add: loaded_class_def)
  have "q \<in> method_ptrs C \<and> kat s q = k" by (rule selectsE [OF own.prems]) (use own.hyps in auto)
  then show ?case using inj own.hyps(2,3) by (metis inj_onD)
next
  case (inherited c C k p)
  have "selects s (class_super C) k q" by (rule selectsE [OF inherited.prems]) (use inherited.hyps in auto)
  then show ?case using inherited.IH by blast
qed

lemma table_selects:
  assumes w: "world s L"
  shows "c \<in> L \<Longrightarrow> classes s c = Some C \<Longrightarrow> \<not> is_interface_class C \<Longrightarrow> p \<in> set (vtable C) \<Longrightarrow> selects s c (kat s p) p"
proof -
  obtain rank :: "u8 \<Rightarrow> nat" where rank: "\<forall>c\<in>L. \<forall>C. classes s c = Some C \<longrightarrow> (\<forall>d\<in>link_parents C. rank d < rank c)"
    using worldD(6) [OF w] by blast
  show "c \<in> L \<Longrightarrow> classes s c = Some C \<Longrightarrow> \<not> is_interface_class C \<Longrightarrow> p \<in> set (vtable C) \<Longrightarrow> selects s c (kat s p) p"
  proof (induction "rank c" arbitrary: c C rule: less_induct)
    case less
    have l: "linked_class s L C" using worldD(5) [OF w less.prems(1)] less.prems(2) by simp
    then have g: "good_table s C" "super_ok s L C" using less.prems(3) by (simp_all add: linked_class_def)
    show ?case
    proof (cases "p \<in> method_ptrs C")
      case True
      then show ?thesis using less.prems(2) by (auto intro: selects.own)
    next
      case False
      then have p: "p \<in> set (super_table s C)" "kat s p \<notin> kat s ` method_ptrs C"
        using g(1) less.prems(4) unfolding good_table_def extends_table_def by blast+
      then obtain S where S: "class_super C \<noteq> 0" "class_super C \<in> L" "classes s (class_super C) = Some S" "\<not> is_interface_class S" "p \<in> set (vtable S)"
        using g(2) by (auto simp: super_table_def super_ok_def split: if_splits)
      have "selects s (class_super C) (kat s p) p" using less.hyps [OF _ S(2-5)] rank less.prems(1,2) S(1) by (simp add: link_parents_def)
      moreover have "\<forall>q\<in>method_ptrs C. kat s q \<noteq> kat s p" using p(2) by (metis imageI)
      ultimately show ?thesis using selects.inherited [OF less.prems(2) _ S(1)] by blast
    qed
  qed
qed

section \<open>Slots along the superclasses\<close>

definition superclass :: "link_state \<Rightarrow> (u8 \<times> u8) set" where
  "superclass s = {(c, d). \<exists>C. classes s c = Some C \<and> class_super C = d \<and> d \<noteq> 0}"

lemma slots_stable:
  assumes w: "world s L" and "(c, b) \<in> (superclass s)\<^sup>*" and B: "classes s b = Some B"
  shows "c \<in> L \<Longrightarrow> classes s c = Some C \<Longrightarrow> \<not> is_interface_class C \<Longrightarrow>
    b \<in> L \<and> \<not> is_interface_class B \<and> length (vtable B) \<le> length (vtable C) \<and> (\<forall>j<length (vtable B). kat s (vtable C ! j) = kat s (vtable B ! j))"
  using assms(2)
proof (induction arbitrary: C rule: converse_rtrancl_induct)
  case base
  then show ?case using B by simp
next
  case (step c d)
  have l: "linked_class s L C" using worldD(5) [OF w step.prems(1)] step.prems(2) by simp
  have d: "class_super C = d" "d \<noteq> 0" using step.hyps(1) step.prems(2) by (auto simp: superclass_def)
  then obtain S where S: "d \<in> L" "classes s d = Some S" "\<not> is_interface_class S" using l by (auto simp: linked_class_def super_ok_def)
  have "extends_table s C (vtable S)" using l step.prems(3) d S(2) by (simp add: linked_class_def good_table_def super_table_def)
  then have "length (vtable S) \<le> length (vtable C)" "\<forall>j<length (vtable S). kat s (vtable C ! j) = kat s (vtable S ! j)" by (simp_all add: extends_table_def)
  then show ?case using step.IH [OF S] by auto
qed

lemma linked_native:
  assumes w: "world s L" and "owned s L p"
  shows "\<not> (dvmIsAbstractMethod (mth s p) \<and> nativeFunc (mth s p) = NullFunc)"
proof -
  obtain d D where "d \<in> L" "classes s d = Some D" "p \<in> method_ptrs D" using assms(2) by (auto simp: owned_def)
  moreover from this have "linked_class s L D" using worldD(5) [OF w] by fastforce
  ultimately show ?thesis by (auto simp: linked_class_def)
qed

lemma linked_slot:
  assumes w: "world s L" and c: "c \<in> L" "classes s c = Some C" "\<not> is_interface_class C" and j: "j < length (vtable C)"
  shows "get_method s (vtable C ! j) = Ret (mth s (vtable C ! j))" "\<not> (dvmIsAbstractMethod (mth s (vtable C ! j)) \<and> nativeFunc (mth s (vtable C ! j)) = NullFunc)"
    "selects s c (kat s (vtable C ! j)) (vtable C ! j)" "j < 65536"
proof -
  have l: "linked_class s L C" using worldD(5) [OF w c(1)] c(2) by simp
  have o: "owned s L (vtable C ! j)" using l c(3) j by (simp add: linked_class_def)
  then show "get_method s (vtable C ! j) = Ret (mth s (vtable C ! j))" using owned_valid [OF w o] by simp
  show "\<not> (dvmIsAbstractMethod (mth s (vtable C ! j)) \<and> nativeFunc (mth s (vtable C ! j)) = NullFunc)" by (rule linked_native [OF w o])
  show "selects s c (kat s (vtable C ! j)) (vtable C ! j)" using table_selects [OF w c] j by simp
  show "j < 65536" using l c(3) j by (simp add: linked_class_def)
qed

lemma virtual_target_selects:
  assumes w: "world s L" and c: "c \<in> L" "classes s c = Some C" "\<not> is_interface_class C" and b: "(c, b) \<in> (superclass s)\<^sup>*" "classes s b = Some B" "p \<in> method_ptrs B"
  shows "\<exists>q. virtual_target s c p = Ret q \<and> selects s c (kat s p) q"
proof -
  have B: "b \<in> L" "\<not> is_interface_class B" "length (vtable B) \<le> length (vtable C)" "\<forall>j<length (vtable B). kat s (vtable C ! j) = kat s (vtable B ! j)"
    using slots_stable [OF w b(1,2) c] by blast+
  then have lB: "linked_class s L B" using worldD(5) [OF w B(1)] b(2) by simp
  then have g: "good_table s B" using B(2) by (simp add: linked_class_def)
  then have "p \<in> set (vtable B)" using b(3) by (simp add: good_table_def extends_table_def)
  then obtain j where j: "j < length (vtable B)" "vtable B ! j = p" unfolding in_set_conv_nth by blast
  have jC: "j < length (vtable C)" using j(1) B(3) by simp
  note slot = linked_slot [OF w c jC]
  have "methodIndex (mth s (vtable B ! j)) = word_of_nat j" using g j(1) by (simp add: good_table_def)
  then have ix: "unat (methodIndex (mth s p)) = j" using j(2) unat_index [OF slot(4)] by simp
  have "valid s p" using loaded_valid [OF worldD(3) [OF w b(2)] b(3)] by simp
  then have "virtual_target s c p = Ret (vtable C ! j)" using ix jC slot(1,2) c(2) by (auto simp: virtual_target_def get_class_def)
  moreover have "kat s (vtable C ! j) = kat s p" using B(4) j by simp
  ultimately show ?thesis using slot(3) by auto
qed

section \<open>Interfaces\<close>

text \<open>The interfaces that a class implements.\<close>

inductive implements :: "link_state \<Rightarrow> u8 \<Rightarrow> u8 \<Rightarrow> bool" for s where
  named: "classes s c = Some C \<Longrightarrow> i \<in> set (class_interfaces C) \<Longrightarrow> implements s c i"
| by_super: "classes s c = Some C \<Longrightarrow> class_super C \<noteq> 0 \<Longrightarrow> implements s (class_super C) i \<Longrightarrow> implements s c i"
| by_interface: "classes s c = Some C \<Longrightarrow> j \<in> set (class_interfaces C) \<Longrightarrow> implements s j i \<Longrightarrow> implements s c i"

lemma implements_entry:
  assumes w: "world s L" and "implements s c i" and "c \<in> L"
  shows "i \<in> entries_of s c"
  using assms(2,3)
proof induction
  case (named c C i)
  then have "linked_class s L C" using worldD(5) [OF w] by fastforce
  then show ?case using named by (auto simp: linked_class_def complete_entries_def entries_of_def implemented_def)
next
  case (by_super c C i)
  then have l: "linked_class s L C" using worldD(5) [OF w] by fastforce
  then obtain S where S: "class_super C \<in> L" "classes s (class_super C) = Some S" using by_super.hyps by (auto simp: linked_class_def super_ok_def)
  then have "i \<in> entry_clazz ` set (inherited_entries s C)" using by_super.IH by_super.hyps(2) by (simp add: entries_of_def inherited_entries_def)
  then show ?case using l by_super.hyps(1) by (auto simp: linked_class_def complete_entries_def entries_of_def implemented_def)
next
  case (by_interface c C j i)
  then have l: "linked_class s L C" using worldD(5) [OF w] by fastforce
  then have "j \<in> L" using by_interface.hyps(2) by (simp add: linked_class_def complete_entries_def)
  then have "i \<in> entries_of s j" using by_interface.IH by simp
  then show ?case using l by_interface.hyps(1,2) by (auto simp: linked_class_def complete_entries_def entries_of_def implemented_def)
qed

lemma inherited_clazz: "entry_clazz ` set (inherited_entries s C) = (if class_super C = 0 then {} else entries_of s (class_super C))"
  by (simp add: inherited_entries_def entries_of_def split: option.split)

lemma entry_implements:
  assumes w: "world s L"
  shows "c \<in> L \<Longrightarrow> i \<in> entries_of s c \<Longrightarrow> implements s c i"
proof -
  obtain rank :: "u8 \<Rightarrow> nat" where rank: "\<forall>c\<in>L. \<forall>C. classes s c = Some C \<longrightarrow> (\<forall>d\<in>link_parents C. rank d < rank c)"
    using worldD(6) [OF w] by blast
  show "c \<in> L \<Longrightarrow> i \<in> entries_of s c \<Longrightarrow> implements s c i"
  proof (induction "rank c" arbitrary: c rule: less_induct)
    case less
    obtain C where C: "classes s c = Some C" "linked_class s L C" using worldD(5) [OF w less.prems(1)] by blast
    have up: "implements s d i" if "d \<in> link_parents C" "i \<in> entries_of s d" for d
      using less.hyps [OF _ _ that(2)] that(1) rank C(1) less.prems(1) linked_parents [OF C(2)] by blast
    have "i \<in> implemented s C" using C less.prems(2) by (simp add: linked_class_def complete_entries_def entries_of_def)
    then consider "class_super C \<noteq> 0" "i \<in> entries_of s (class_super C)" | "i \<in> set (class_interfaces C)"
      | d where "d \<in> set (class_interfaces C)" "i \<in> entries_of s d"
      unfolding implemented_def inherited_clazz by (auto split: if_splits)
    then show ?case
      by cases (use C(1) up in \<open>auto simp: link_parents_def intro: implements.intros\<close>)
  qed
qed

lemma find_entry_some: "find_entry es i = Some e \<Longrightarrow> e \<in> set es \<and> entry_clazz e = i" by (induction es) (auto split: if_splits)

lemma find_entry_none: "find_entry es i = None \<longleftrightarrow> i \<notin> entry_clazz ` set es" by (induction es) auto

lemma interface_method_selects:
  assumes w: "world s L" and c: "c \<in> L" "classes s c = Some C" "\<not> is_interface_class C"
    and i: "i \<in> L" "classes s i = Some I" "is_interface_class I" "p \<in> method_ptrs I" "dvmIsAbstractMethod (mth s p)"
  shows "i \<in> entries_of s c \<Longrightarrow> \<exists>q. dvmInterpFindInterfaceMethod s c p = Ret (Some q) \<and> selects s c (kat s p) q"
    and "i \<notin> entries_of s c \<Longrightarrow> dvmInterpFindInterfaceMethod s c p = Ret None"
proof -
  have lI: "linked_class s L I" using worldD(5) [OF w i(1)] i(2) by simp
  have lC: "linked_class s L C" using worldD(5) [OF w c(1)] c(2) by simp
  have load: "loaded_class s i I" using worldD(3) [OF w i(2)] .
  have get: "get_method s p = Ret (mth s p)" using loaded_valid [OF load i(4)] by simp
  have cl: "meth_clazz (mth s p) = i" using load i(4) by (simp add: loaded_class_def)
  obtain m where m: "p = (virtualMethods I, m)" "m < virtualMethodCount I" using i(4) by (auto simp: method_ptrs_def)
  have "virtualMethodCount I < 65536" "methodIndex (mth s p) = word_of_nat m" using lI i(3,4) m(1) by (auto simp: linked_class_def)
  then have ix: "unat (methodIndex (mth s p)) = m" using m(2) by (simp add: unat_index)
  have gc: "get_class s c = Ret C" using c(2) by (simp add: get_class_def)
  {
    assume "i \<notin> entries_of s c"
    then have "find_entry (class_iftable C) i = None" using c(2) by (simp add: find_entry_none entries_of_def)
    then show "dvmInterpFindInterfaceMethod s c p = Ret None" using get i(5) cl gc by (simp add: dvmInterpFindInterfaceMethod_def)
  next
    assume "i \<in> entries_of s c"
    then obtain e where f: "find_entry (class_iftable C) i = Some e" using c(2) find_entry_none [of "class_iftable C" i] by (auto simp: entries_of_def)
    from find_entry_some [OF f] have e: "e \<in> set (class_iftable C)" "entry_clazz e = i" by simp_all
    then have "entry_matches s (vtable C) e" using lC c(3) by (simp add: linked_class_def)
    then obtain idxs where x: "methodIndexArray e = Some idxs" "length idxs = virtualMethodCount I" "idx_ok s (vtable C) (idxs ! m) (kat s p)"
      using e(2) i(2) m by (auto simp: entry_matches_def split: option.splits)
    then have j: "idxs ! m < length (vtable C)" "kat s (vtable C ! (idxs ! m)) = kat s p" by (simp_all add: idx_ok_def)
    note slot = linked_slot [OF w c j(1)]
    have gi: "get_class s (entry_clazz e) = Ret I" using e(2) i(2) by (simp add: get_class_def)
    have "dvmInterpFindInterfaceMethod s c p = Ret (Some (vtable C ! (idxs ! m)))"
      using get i(5) cl gc f gi ix m(2) x(1,2) j(1) slot(1,2) by (auto simp: dvmInterpFindInterfaceMethod_def Let_def)
    then show "\<exists>q. dvmInterpFindInterfaceMethod s c p = Ret (Some q) \<and> selects s c (kat s p) q" using slot(3) j(2) by auto
  }
qed

section \<open>An example\<close>

text \<open>
  The classes \<open>Object\<close>, an interface \<open>Task\<close> with \<open>run\<close>, an abstract class \<open>Base\<close> that names the interface and declares \<open>stop\<close> only, and \<open>Impl\<close> with
  both methods, linked in this order; the array of methods of \<open>Base\<close> moves, from 300 to 500, when it gets the Miranda method \<open>run\<close>.
\<close>

definition demo_method :: "u8 \<Rightarrow> string \<Rightarrow> u4 \<Rightarrow> LinkMethod" where
  "demo_method c n flags = \<lparr>meth_clazz = c, meth_accessFlags = flags, methodIndex = 0, meth_name = n, prototype = \<lparr>returnType = ''V'', parameters = []\<rparr>,
     insns = 0, nativeFunc = NullFunc\<rparr>"

definition demo_class :: "string \<Rightarrow> u4 \<Rightarrow> u8 \<Rightarrow> u8 list \<Rightarrow> u8 \<Rightarrow> nat \<Rightarrow> LinkClass" where
  "demo_class d flags par ifs a n = \<lparr>class_descriptor = d, class_accessFlags = flags, class_classLoader = 0, class_elementClass = 0, class_super = par,
     class_interfaces = ifs, virtualMethods = a, virtualMethodCount = n, vtable = [], class_iftable = [], class_ifields = [], ifieldRefCount = 0,
     objectSize = 0, class_status = CLASS_LOADED\<rparr>"

definition demo_loaded :: link_state where
  "demo_loaded = \<lparr>classes = map_of [(16, demo_class ''Ljava/lang/Object;'' 1 0 [] 100 1), (32, demo_class ''LTask;'' 0x601 16 [] 200 1),
      (48, demo_class ''LBase;'' 0x401 16 [32] 300 1), (64, demo_class ''LImpl;'' 1 48 [] 400 2)],
    methods = map_of [(100, [demo_method 16 ''hashCode'' 1]), (200, [demo_method 32 ''run'' 0x401]), (300, [demo_method 48 ''stop'' 1]),
      (400, [demo_method 64 ''run'' 1, demo_method 64 ''stop'' 1])]\<rparr>"

definition demo_link :: "link_state \<Rightarrow> u8 \<Rightarrow> u8 \<Rightarrow> link_state" where
  "demo_link s c a = (case dvmLinkClass (\<lambda>_. None) s c False a of Ret (LinkOk, s') \<Rightarrow> s' | _ \<Rightarrow> s)"

definition demo_object :: link_state where "demo_object = demo_link demo_loaded 16 900"
definition demo_task :: link_state where "demo_task = demo_link demo_object 32 900"
definition demo_base :: link_state where "demo_base = demo_link demo_task 48 500"
definition demo_impl :: link_state where "demo_impl = demo_link demo_base 64 900"

text \<open>That a class can be linked, as a check that computes.\<close>

definition demo_ready :: "link_state \<Rightarrow> u8 list \<Rightarrow> u8 \<Rightarrow> u8 \<Rightarrow> bool" where
  "demo_ready s l c a = (case classes s c of None \<Rightarrow> False | Some C \<Rightarrow>
     candidate s (set l) c False C \<and> new_address s C a)"

definition demo_success :: "link_state \<Rightarrow> u8 \<Rightarrow> u8 \<Rightarrow> bool" where
  "demo_success s c a = (case dvmLinkClass (\<lambda>_. None) s c False a of
     Ret (LinkOk, s') \<Rightarrow> (case classes s' c of None \<Rightarrow> False | Some C' \<Rightarrow> length (vtable C') < 8) | _ \<Rightarrow> False)"

lemma demo_linked:
  assumes "linked_world (\<lambda>_. None) s (set l)" and "demo_ready s l c a" and "demo_success s c a"
  shows "linked_world (\<lambda>_. None) (demo_link s c a) (set (c # l))"
proof -
  obtain C where C: "candidate s (set l) c False C" "new_address s C a" using assms(2) by (auto simp: demo_ready_def split: option.splits)
  obtain r s' where s': "dvmLinkClass (\<lambda>_. None) s c False a = Ret (r, s')"
    using assms(3) by (auto simp: demo_success_def split: outcome.splits)
  then obtain C' where C': "r = LinkOk" "classes s' c = Some C'" "length (vtable C') < 8"
    using assms(3) by (cases r) (auto simp: demo_success_def split: option.splits)
  have "room_ok (\<lambda>_. None) s c C" by (simp add: room_ok_def)
  from linked_world.linked [OF assms(1) C this s' [unfolded C'(1)] C'(2)] s' C' show ?thesis by (simp add: demo_link_def)
qed

lemma method_ptrs_code [code]: "method_ptrs C = set (map (Pair (virtualMethods C)) [0..<virtualMethodCount C])"
  by (auto simp: method_ptrs_def)

lemma array_ok_code [code]: "array_ok s C \<longleftrightarrow> (if virtualMethods C = 0 then virtualMethodCount C = 0
    else case methods s (virtualMethods C) of None \<Rightarrow> False | Some ms \<Rightarrow> length ms = virtualMethodCount C)"
  by (auto simp: array_ok_def split: option.splits)

lemma loaded_class_code [code]:
  "loaded_class s c C \<longleftrightarrow> array_ok s C \<and> (\<forall>p\<in>method_ptrs C. meth_clazz (mth s p) = c \<and> unbound (mth s p))
     \<and> distinct (map (kat s) (map (Pair (virtualMethods C)) [0..<virtualMethodCount C])) \<and> (array_name (class_descriptor C) \<longrightarrow> classes s (class_elementClass C) \<noteq> None)"
proof -
  have "distinct (map (Pair (virtualMethods C)) [0..<virtualMethodCount C])" by (simp add: distinct_map inj_on_def)
  then have "distinct (map (kat s) (map (Pair (virtualMethods C)) [0..<virtualMethodCount C])) \<longleftrightarrow> inj_on (kat s) (method_ptrs C)"
    unfolding distinct_map [of "kat s"] method_ptrs_code by simp
  then show ?thesis unfolding loaded_class_def by (simp add: domIff)
qed

lemma demo_classes:
  "classes demo_loaded c = Some C \<longleftrightarrow> (c, C) \<in> {(16, demo_class ''Ljava/lang/Object;'' 1 0 [] 100 1), (32, demo_class ''LTask;'' 0x601 16 [] 200 1),
      (48, demo_class ''LBase;'' 0x401 16 [32] 300 1), (64, demo_class ''LImpl;'' 1 48 [] 400 2)}"
  by (auto simp: demo_loaded_def)

lemma demo_world: "world demo_loaded {}"
proof -
  have "loaded_class demo_loaded 16 (demo_class ''Ljava/lang/Object;'' 1 0 [] 100 1)" by code_simp
  moreover have "loaded_class demo_loaded 32 (demo_class ''LTask;'' 0x601 16 [] 200 1)" by code_simp
  moreover have "loaded_class demo_loaded 48 (demo_class ''LBase;'' 0x401 16 [32] 300 1)" by code_simp
  moreover have "loaded_class demo_loaded 64 (demo_class ''LImpl;'' 1 48 [] 400 2)" by code_simp
  ultimately have "loaded_class demo_loaded c C" if "classes demo_loaded c = Some C" for c C using that unfolding demo_classes by auto
  moreover have "virtualMethods C = 0" if "classes demo_loaded c = Some C" "classes demo_loaded d = Some D" "c \<noteq> d" "virtualMethods C = virtualMethods D" for c d C D
    using that unfolding demo_classes by (auto simp: demo_class_def)
  moreover have "methods demo_loaded 0 = None" "classes demo_loaded 0 = None" by (simp_all add: demo_loaded_def)
  ultimately show ?thesis unfolding world_def by blast
qed

lemma demo_states:
  "linked_world (\<lambda>_. None) demo_base {48, 32, 16}" "linked_world (\<lambda>_. None) demo_impl {64, 48, 32, 16}"
proof -
  have "linked_world (\<lambda>_. None) demo_loaded (set [])" using linked_world.loaded [OF demo_world] by simp
  moreover have "demo_ready demo_loaded [] 16 900" "demo_success demo_loaded 16 900" by code_simp+
  ultimately have 1: "linked_world (\<lambda>_. None) demo_object (set [16])" unfolding demo_object_def by (rule demo_linked)
  have "demo_ready demo_object [16] 32 900" "demo_success demo_object 32 900" by code_simp+
  with 1 have 2: "linked_world (\<lambda>_. None) demo_task (set [32, 16])" unfolding demo_task_def by (rule demo_linked)
  have "demo_ready demo_task [32, 16] 48 500" "demo_success demo_task 48 500" by code_simp+
  with 2 have 3: "linked_world (\<lambda>_. None) demo_base (set [48, 32, 16])" unfolding demo_base_def by (rule demo_linked)
  have "demo_ready demo_base [48, 32, 16] 64 900" "demo_success demo_base 64 900" by code_simp+
  with 3 have 4: "linked_world (\<lambda>_. None) demo_impl (set [64, 48, 32, 16])" unfolding demo_impl_def by (rule demo_linked)
  show "linked_world (\<lambda>_. None) demo_base {48, 32, 16}" "linked_world (\<lambda>_. None) demo_impl {64, 48, 32, 16}" using 3 4 by simp_all
qed

lemma demo_class_exists: "Option.is_none (classes s c) = False \<Longrightarrow> classes s c = Some (the (classes s c))"
  by (cases "classes s c") auto

section \<open>The properties of linking\<close>

text \<open>C5. Linking any class whose superclass and interfaces are linked already returns: no assertion fails and no pointer to a method dangles, although
  the array of methods may have moved. The other classes stay linked. The class is linked too and resolved or
  verified, if its table has not outgrown the 16 bits of \<open>methodIndex\<close>, or it is marked as erroneous and an exception is thrown.
\<close>

theorem linking_safe:
  assumes "linked_world room s L" and "candidate s L c classesResolved C" and "new_address s C a'" and "room_ok room s c C"
  shows "\<exists>r s' C'. dvmLinkClass room s c classesResolved a' = Ret (r, s') \<and> classes s' c = Some C' \<and> world s' L
    \<and> (r = LinkOk \<and> class_status C' \<in> {CLASS_RESOLVED, CLASS_VERIFIED} \<and> (is_interface_class C' \<or> length (vtable C') \<le> 65536 \<longrightarrow> world s' (insert c L))
      \<or> (\<exists>e. r = LinkFail (Some e)) \<and> class_status C' = CLASS_ERROR)"
proof -
  obtain r s' C' where r: "dvmLinkClass room s c classesResolved a' = Ret (r, s')" "world s' L" "classes s' c = Some C'" "r = LinkOk \<longrightarrow> linked_base s' L C'"
    "class_status C' = (if r = LinkOk then if IS_CLASS_FLAG_SET C' CLASS_ISPREVERIFIED then CLASS_VERIFIED else CLASS_RESOLVED else CLASS_ERROR)"
    "r = LinkOk \<or> (\<exists>e. r = LinkFail (Some e))"
    using dvmLinkClass_spec [OF linked_world_inv [OF assms(1)] assms(2-4)] by blast
  have "world s' (insert c L)" if "r = LinkOk" "is_interface_class C' \<or> length (vtable C') \<le> 65536"
    using world_linked [OF r(2,3)] r(4) that assms(2) by (simp add: candidate_def)
  then show ?thesis using r by (intro exI [of _ r] exI [of _ s'] exI [of _ C']) auto
qed

theorem linking_safe_witness:
  "\<exists>r s' C'. dvmLinkClass (\<lambda>_. None) demo_base 64 False 900 = Ret (r, s') \<and> classes s' 64 = Some C' \<and> world s' {48, 32, 16}
    \<and> (r = LinkOk \<and> class_status C' \<in> {CLASS_RESOLVED, CLASS_VERIFIED} \<and> (is_interface_class C' \<or> length (vtable C') \<le> 65536 \<longrightarrow> world s' {64, 48, 32, 16})
      \<or> (\<exists>e. r = LinkFail (Some e)) \<and> class_status C' = CLASS_ERROR)"
proof -
  have "demo_ready demo_base [48, 32, 16] 64 900" by code_simp
  then obtain C where C: "candidate demo_base {48, 32, 16} 64 False C" "new_address demo_base C 900"
    by (auto simp: demo_ready_def split: option.splits)
  show ?thesis by (rule linking_safe [OF demo_states(1) C]) (simp add: room_ok_def)
qed

text \<open>C3. After any sequence of linking, \<open>invoke-virtual\<close> on an object of a linked class reaches, through the slot of the method that the instruction
  names in a superclass, the method that the class selects: its own of that name and prototype, or else that of its nearest superclass.
\<close>

theorem virtual_dispatch:
  assumes "linked_world room s L" and "c \<in> L" and "classes s c = Some C" and "\<not> is_interface_class C"
    and "(c, b) \<in> (superclass s)\<^sup>*" and "classes s b = Some B" and "p \<in> method_ptrs B"
  shows "\<exists>q. virtual_target s c p = Ret q \<and> (\<forall>q'. selects s c (kat s p) q' \<longleftrightarrow> q' = q)"
  using virtual_target_selects [OF linked_world_inv [OF assms(1)] assms(2-7)] selects_unique [OF linked_world_inv [OF assms(1)]] by blast

theorem virtual_dispatch_witness:
  "virtual_target demo_impl 64 (500, 0) = Ret (400, 1) \<and> (\<forall>q. selects demo_impl 64 (kat demo_impl (500, 0)) q \<longleftrightarrow> q = (400, 1))"
proof -
  have C: "classes demo_impl 64 = Some (the (classes demo_impl 64))" and B: "classes demo_impl 48 = Some (the (classes demo_impl 48))"
    by (rule demo_class_exists, code_simp)+
  have "class_super (the (classes demo_impl 64)) = 48" by code_simp
  then have "(64, 48) \<in> superclass demo_impl" unfolding superclass_def using C by (intro CollectI case_prodI exI conjI) simp_all
  then have up: "(64, 48) \<in> (superclass demo_impl)\<^sup>*" by blast
  have own: "(500, 0) \<in> method_ptrs (the (classes demo_impl 48))" by code_simp
  have "\<not> is_interface_class (the (classes demo_impl 64))" by code_simp
  from virtual_dispatch [OF demo_states(2) _ C this up B own]
  obtain q where "virtual_target demo_impl 64 (500, 0) = Ret q" "\<forall>q'. selects demo_impl 64 (kat demo_impl (500, 0)) q' \<longleftrightarrow> q' = q" by blast
  moreover have "virtual_target demo_impl 64 (500, 0) = Ret (400, 1)" by code_simp
  ultimately show ?thesis by simp
qed

text \<open>C4. After any sequence of linking, the search for a method of an interface finds, when the class of the object implements the interface, the
  method that the class selects for the name and prototype, with the Miranda methods for those it does not declare; otherwise
  it reports that the interface is not implemented.
\<close>

theorem interface_dispatch:
  assumes "linked_world room s L" and "c \<in> L" and "classes s c = Some C" and "\<not> is_interface_class C"
    and "i \<in> L" and "classes s i = Some I" and "is_interface_class I" and "p \<in> method_ptrs I" and "dvmIsAbstractMethod (mth s p)"
  shows "if implements s c i then \<exists>q. dvmInterpFindInterfaceMethod s c p = Ret (Some q) \<and> (\<forall>q'. selects s c (kat s p) q' \<longleftrightarrow> q' = q)
    else dvmInterpFindInterfaceMethod s c p = Ret None"
proof -
  note w = linked_world_inv [OF assms(1)]
  note found = interface_method_selects [OF w assms(2-9)]
  show ?thesis
  proof (cases "implements s c i")
    case True
    then show ?thesis using found(1) [OF implements_entry [OF w True assms(2)]] selects_unique [OF w] unfolding if_P [OF True] by blast
  next
    case False
    then show ?thesis using found(2) entry_implements [OF w assms(2)] by auto
  qed
qed

theorem interface_dispatch_witness:
  "dvmInterpFindInterfaceMethod demo_impl 64 (200, 0) = Ret (Some (400, 0)) \<and> (\<forall>q. selects demo_impl 64 (kat demo_impl (200, 0)) q \<longleftrightarrow> q = (400, 0))"
proof -
  have C: "classes demo_impl 64 = Some (the (classes demo_impl 64))" and B: "classes demo_impl 48 = Some (the (classes demo_impl 48))"
    and I: "classes demo_impl 32 = Some (the (classes demo_impl 32))" by (rule demo_class_exists, code_simp)+
  have "32 \<in> set (class_interfaces (the (classes demo_impl 48)))" "class_super (the (classes demo_impl 64)) = 48" by code_simp+
  then have imp: "implements demo_impl 64 32" using implements.by_super [OF C] implements.named [OF B] by simp
  have "\<not> is_interface_class (the (classes demo_impl 64))" "is_interface_class (the (classes demo_impl 32))"
    "(200, 0) \<in> method_ptrs (the (classes demo_impl 32))" "dvmIsAbstractMethod (mth demo_impl (200, 0))" by code_simp+
  from interface_dispatch [OF demo_states(2) _ C this(1) _ I this(2-4)] imp
  obtain q where "dvmInterpFindInterfaceMethod demo_impl 64 (200, 0) = Ret (Some q)"
      "\<forall>q'. selects demo_impl 64 (kat demo_impl (200, 0)) q' \<longleftrightarrow> q' = q" by auto
  moreover have "dvmInterpFindInterfaceMethod demo_impl 64 (200, 0) = Ret (Some (400, 0))" by code_simp
  ultimately show ?thesis by simp
qed

end
