(* ===== verification/ReferenceTable.thy ===== *)
theory ReferenceTable
  imports Prelude
begin

text \<open>
  The tables of object references of \<^verbatim>\<open>src/vm/ReferenceTable.c\<close> and \<^verbatim>\<open>src/vm/ReferenceTable.h\<close>, used for JNI local and
  global references, tracked monitors and the references the VM holds itself. \<open>rtable\<close> is the array
  (\<open>None\<close> for \<open>NULL\<close>); the pointers \<open>nextEntry\<close> and \<open>top\<close> into it are indexes. The fields and sizes of
  type \<open>int\<close> are 32-bit words. The theorems show a table to be a list of references that grows at
  its end, from which the most recent occurrence of a reference is removed.
\<close>

section \<open>State and operations\<close>

record ReferenceTable =
  rtable :: "u8 list option"
  nextEntry :: int
  allocEntries :: u4
  maxEntries :: u4

definition dvmInitReferenceTable ::
  "(int \<Rightarrow> bool) \<Rightarrow> ReferenceTable \<Rightarrow> u4 \<Rightarrow> u4 \<Rightarrow> (bool \<times> ReferenceTable) outcome" where
  "dvmInitReferenceTable ok pRef initialCount maxCount =
     (if \<not> sint initialCount > 0 then AbortVM
      else if \<not> sint initialCount \<le> sint maxCount then AbortVM
      else if \<not> ok (sint initialCount) then Ret (False, pRef\<lparr>rtable := None\<rparr>)
      else Ret (True, \<lparr>rtable = Some (replicate (nat (sint initialCount)) 0xdddddddddddddddd), nextEntry = 0,
                       allocEntries = initialCount, maxEntries = maxCount\<rparr>))"

definition dvmClearReferenceTable :: "ReferenceTable \<Rightarrow> ReferenceTable" where
  "dvmClearReferenceTable pRef = \<lparr>rtable = None, nextEntry = 0, allocEntries = - 1, maxEntries = - 1\<rparr>"

definition dvmReferenceTableEntries :: "ReferenceTable \<Rightarrow> int" where
  "dvmReferenceTableEntries pRef = nextEntry pRef"

definition dvmIsReferenceTableFull :: "ReferenceTable \<Rightarrow> bool" where
  "dvmIsReferenceTableFull pRef \<longleftrightarrow> dvmReferenceTableEntries pRef = sint (allocEntries pRef)"

text \<open>
  \<open>valid\<close> is \<open>dvmIsValidObject\<close>, \<open>ok\<close> the allocator. The expansion is \<open>None\<close> when the allocation failed.
\<close>

definition ref_expand :: "(int \<Rightarrow> bool) \<Rightarrow> u8 \<Rightarrow> u8 list \<Rightarrow> ReferenceTable \<Rightarrow> ReferenceTable option outcome" where
  "ref_expand ok junk xs pRef =
     (let newSize = allocEntries pRef * 2;
          newSize = if sint newSize > sint (maxEntries pRef) then maxEntries pRef else newSize
      in if \<not> sint newSize > sint (allocEntries pRef) then AbortVM
         else if \<not> ok (sint newSize) then Ret None
         else Ret (Some (pRef\<lparr>rtable := Some (list_grow junk xs (nat (sint newSize))), allocEntries := newSize\<rparr>)))"

definition dvmAddToReferenceTable ::
  "(u8 \<Rightarrow> bool) \<Rightarrow> (int \<Rightarrow> bool) \<Rightarrow> u8 \<Rightarrow> ReferenceTable \<Rightarrow> u8 \<Rightarrow> (bool \<times> ReferenceTable) outcome" where
  "dvmAddToReferenceTable valid ok junk pRef obj =
     (if \<not> valid obj \<or> obj = 0 then AbortVM
      else case rtable pRef of
        None \<Rightarrow> AbortVM
      | Some xs \<Rightarrow>
          if nextEntry pRef = sint (maxEntries pRef) then Ret (False, pRef)
          else
            bind_out (if nextEntry pRef = sint (allocEntries pRef) then ref_expand ok junk xs pRef else Ret (Some pRef))
              (\<lambda>r. case r of
                 None \<Rightarrow> Ret (False, pRef)
               | Some pRef \<Rightarrow>
                   bind_out (list_store (the (rtable pRef)) (nat (nextEntry pRef)) obj) (\<lambda>xs.
                   Ret (True, pRef\<lparr>rtable := Some xs, nextEntry := nextEntry pRef + 1\<rparr>))))"

text \<open>The search runs down from the end to \<open>top\<close>; \<open>None\<close> is the result \<open>NULL\<close>.\<close>

function ref_find :: "u8 list \<Rightarrow> int \<Rightarrow> int \<Rightarrow> u8 \<Rightarrow> int option outcome" where
  "ref_find xs ptr tp obj =
     (if ptr - 1 \<ge> tp then
        case read_at xs (ptr - 1) of
          None \<Rightarrow> OutOfBounds
        | Some v \<Rightarrow> if v = obj then Ret (Some (ptr - 1)) else ref_find xs (ptr - 1) tp obj
      else Ret None)"
  by pat_completeness auto
termination
  by (relation "measure (\<lambda>(xs, ptr, tp, obj). nat (ptr - tp))") auto

declare ref_find.simps [simp del]

definition dvmFindInReferenceTable :: "ReferenceTable \<Rightarrow> int \<Rightarrow> u8 \<Rightarrow> int option outcome" where
  "dvmFindInReferenceTable pRef tp obj =
     ref_find (case rtable pRef of None \<Rightarrow> [] | Some xs \<Rightarrow> xs) (nextEntry pRef) tp obj"

definition dvmRemoveFromReferenceTable :: "ReferenceTable \<Rightarrow> int \<Rightarrow> u8 \<Rightarrow> (bool \<times> ReferenceTable) outcome" where
  "dvmRemoveFromReferenceTable pRef tp obj =
     (case rtable pRef of
        None \<Rightarrow> AbortVM
      | Some xs \<Rightarrow>
          bind_out (dvmFindInReferenceTable pRef tp obj) (\<lambda>ptr.
          case ptr of
            None \<Rightarrow> Ret (False, pRef)
          | Some p \<Rightarrow>
              let next = nextEntry pRef - 1; moveCount = next - p in
              bind_out (if moveCount \<noteq> 0 then list_move xs (nat p) (nat (p + 1)) (nat moveCount) else Ret xs)
                (\<lambda>xs. Ret (True, pRef\<lparr>rtable := Some xs, nextEntry := next\<rparr>))))"

section \<open>The invariant and the list of references\<close>

definition rt_wf :: "ReferenceTable \<Rightarrow> bool" where
  "rt_wf r \<longleftrightarrow> (\<exists>xs. rtable r = Some xs \<and> int (length xs) = sint (allocEntries r))
     \<and> 0 < sint (allocEntries r) \<and> sint (allocEntries r) \<le> sint (maxEntries r)
     \<and> 0 \<le> nextEntry r \<and> nextEntry r \<le> sint (allocEntries r)"

definition refs :: "ReferenceTable \<Rightarrow> u8 list" where
  "refs r = (case rtable r of None \<Rightarrow> [] | Some xs \<Rightarrow> take (nat (nextEntry r)) xs)"

text \<open>Deleting the last occurrence of an element at or after an index.\<close>

fun remove_last :: "'a \<Rightarrow> 'a list \<Rightarrow> 'a list" where
  "remove_last x [] = []"
| "remove_last x (y # ys) = (if x \<in> set ys then y # remove_last x ys else if x = y then ys else y # ys)"

definition remove_last_from :: "nat \<Rightarrow> 'a \<Rightarrow> 'a list \<Rightarrow> 'a list" where
  "remove_last_from k x xs = take k xs @ remove_last x (drop k xs)"

lemma length_refs: "rt_wf r \<Longrightarrow> int (length (refs r)) = nextEntry r"
  by (auto simp: rt_wf_def refs_def)

lemma ref_init_spec:
  assumes "0 < sint n" and "sint n \<le> sint m" and "ok (sint n)"
  shows "\<exists>r. dvmInitReferenceTable ok pRef n m = Ret (True, r) \<and> rt_wf r \<and> refs r = [] \<and> maxEntries r = m \<and> allocEntries r = n"
  using assms by (simp add: dvmInitReferenceTable_def rt_wf_def refs_def)

lemma ref_expand_spec:
  assumes "rt_wf r" and "rtable r = Some xs" and "nextEntry r = sint (allocEntries r)"
    and "nextEntry r \<noteq> sint (maxEntries r)" and "sint (allocEntries r) < 2 ^ 30"
  shows "ref_expand ok junk xs r = Ret None
    \<or> (\<exists>r' ys. ref_expand ok junk xs r = Ret (Some r') \<and> rt_wf r' \<and> rtable r' = Some ys \<and> refs r' = refs r
          \<and> nextEntry r' = nextEntry r \<and> maxEntries r' = maxEntries r \<and> nextEntry r < sint (allocEntries r')
          \<and> sint (allocEntries r) \<le> sint (allocEntries r'))"
    and "ok = (\<lambda>_. True) \<Longrightarrow> ref_expand ok junk xs r \<noteq> Ret None"
proof -
  have two: "sint (allocEntries r * 2) = sint (allocEntries r) * 2"
    using assms(1,5) sint_word_ariths(3) [of "allocEntries r" 2]
    by (simp add: rt_wf_def signed_take_bit_int_eq_self)
  show "ref_expand ok junk xs r = Ret None
    \<or> (\<exists>r' ys. ref_expand ok junk xs r = Ret (Some r') \<and> rt_wf r' \<and> rtable r' = Some ys \<and> refs r' = refs r
          \<and> nextEntry r' = nextEntry r \<and> maxEntries r' = maxEntries r \<and> nextEntry r < sint (allocEntries r')
          \<and> sint (allocEntries r) \<le> sint (allocEntries r'))"
    using assms two by (auto simp: ref_expand_def rt_wf_def refs_def Let_def nat_le_iff)
  show "ok = (\<lambda>_. True) \<Longrightarrow> ref_expand ok junk xs r \<noteq> Ret None"
    by (simp add: ref_expand_def Let_def)
qed

text \<open>Adding appends, unless the table is at its maximum or memory is exhausted.\<close>

lemma ref_add_spec:
  assumes "rt_wf r" and "valid obj" and "obj \<noteq> 0" and "sint (allocEntries r) < 2 ^ 30"
  shows "dvmAddToReferenceTable valid ok junk r obj = Ret (False, r) \<and> (int (length (refs r)) = sint (maxEntries r) \<or> ok \<noteq> (\<lambda>_. True))
    \<or> int (length (refs r)) < sint (maxEntries r)
      \<and> (\<exists>r'. dvmAddToReferenceTable valid ok junk r obj = Ret (True, r') \<and> rt_wf r' \<and> refs r' = refs r @ [obj]
            \<and> maxEntries r' = maxEntries r \<and> sint (allocEntries r) \<le> sint (allocEntries r'))"
proof -
  obtain xs where xs: "rtable r = Some xs" "int (length xs) = sint (allocEntries r)" using assms(1) by (auto simp: rt_wf_def)
  have len: "int (length (refs r)) = nextEntry r" by (rule length_refs [OF assms(1)])
  let ?grown = "if nextEntry r = sint (allocEntries r) then ref_expand ok junk xs r else Ret (Some r)"
  consider (full) "nextEntry r = sint (maxEntries r)"
    | (fails) "nextEntry r \<noteq> sint (maxEntries r)" "?grown = Ret None" "ok \<noteq> (\<lambda>_. True)"
    | (room) r' ys where "nextEntry r \<noteq> sint (maxEntries r)" "?grown = Ret (Some r')" "rt_wf r'" "rtable r' = Some ys"
        "refs r' = refs r" "nextEntry r' = nextEntry r" "maxEntries r' = maxEntries r" "nextEntry r < sint (allocEntries r')"
        "sint (allocEntries r) \<le> sint (allocEntries r')"
  proof (cases "nextEntry r = sint (allocEntries r)")
    case True
    show ?thesis
      using ref_expand_spec [OF assms(1) xs(1) True _ assms(4), of ok junk] True full fails room by fastforce
  next
    case False
    then show ?thesis using full room [of r xs] assms(1) xs(1) by (cases "nextEntry r = sint (maxEntries r)") (auto simp: rt_wf_def)
  qed
  then show ?thesis
  proof cases
    case full
    then show ?thesis using assms(2,3) xs(1) len by (simp add: dvmAddToReferenceTable_def)
  next
    case fails
    then show ?thesis using assms(2,3) xs(1) len by (simp add: dvmAddToReferenceTable_def del: bind_out_eq_Ret)
  next
    case (room r' ys)
    define s where "s = r'\<lparr>rtable := Some (ys[nat (nextEntry r) := obj]), nextEntry := nextEntry r + 1\<rparr>"
    have l: "nat (nextEntry r) < length ys" "0 \<le> nextEntry r" "nextEntry r < sint (maxEntries r)"
      using room assms(1) by (auto simp: rt_wf_def)
    then have "refs s = refs r @ [obj]"
      using room(4-6) by (simp add: s_def refs_def nat_add_distrib take_Suc_conv_app_nth)
    moreover have "rt_wf s" using room l by (auto simp: rt_wf_def s_def)
    moreover have "dvmAddToReferenceTable valid ok junk r obj = Ret (True, s)"
      using assms(2,3) xs(1) room l
      by (simp add: dvmAddToReferenceTable_def list_store_def s_def del: bind_out_eq_Ret)
    ultimately show ?thesis using l len room(7,9) by (auto simp: s_def)
  qed
qed

lemma ref_find_spec:
  assumes "0 \<le> tp" and "ptr \<le> int (length xs)"
  shows "(\<exists>k. ref_find xs ptr tp obj = Ret (Some (int k)) \<and> tp \<le> int k \<and> int k < ptr \<and> xs ! k = obj
           \<and> (\<forall>j. k < j \<and> int j < ptr \<longrightarrow> xs ! j \<noteq> obj))
    \<or> ref_find xs ptr tp obj = Ret None \<and> (\<forall>j. tp \<le> int j \<and> int j < ptr \<longrightarrow> xs ! j \<noteq> obj)"
  using assms
proof (induction xs ptr tp obj rule: ref_find.induct)
  case (1 xs ptr tp obj)
  show ?case
  proof (cases "ptr - 1 \<ge> tp")
    case False
    then show ?thesis by (auto simp: ref_find.simps [of xs ptr])
  next
    case True
    define k where "k = nat (ptr - 1)"
    have k: "ptr = int k + 1" "k < length xs" using True 1(2,3) by (auto simp: k_def)
    have rd: "read_at xs (ptr - 1) = Some (xs ! k)" using k by (simp add: read_at_nat del: read_at_Some)
    show ?thesis
    proof (cases "xs ! k = obj")
      case eq: True
      then have "ref_find xs ptr tp obj = Ret (Some (int k))"
        using True rd k by (simp add: ref_find.simps [of xs "int k + 1"] del: read_at_Some)
      then show ?thesis using True k eq by auto
    next
      case neq: False
      have "ref_find xs ptr tp obj = ref_find xs (ptr - 1) tp obj"
        using True rd neq by (simp add: ref_find.simps [of xs ptr] del: read_at_Some)
      moreover have "int j < ptr \<longleftrightarrow> int j < ptr - 1 \<or> j = k" for j using k by auto
      ultimately show ?thesis using 1(1) [OF True rd neq 1(2)] 1(3) neq by auto
    qed
  qed
qed

lemma remove_last_nth:
  assumes "k < length xs" and "xs ! k = x" and "\<forall>j. k < j \<and> j < length xs \<longrightarrow> xs ! j \<noteq> x"
  shows "remove_last x xs = take k xs @ drop (Suc k) xs"
  using assms
proof (induction xs arbitrary: k)
  case (Cons y ys)
  show ?case
  proof (cases k)
    case 0
    then have "x \<notin> set ys" using Cons.prems by (fastforce simp: in_set_conv_nth)
    then show ?thesis using 0 Cons.prems by simp
  next
    case (Suc k')
    then have "x \<in> set ys" using Cons.prems by auto
    then show ?thesis using Suc Cons.prems Cons.IH [of k'] by (auto simp: nth_Cons split: nat.splits)
  qed
qed simp

lemma remove_last_absent: "x \<notin> set xs \<Longrightarrow> remove_last x xs = xs"
  by (cases xs) auto

lemma ref_remove_spec:
  assumes "rt_wf r" and "0 \<le> tp" and "tp \<le> nextEntry r"
  shows "\<exists>r'. dvmRemoveFromReferenceTable r tp obj = Ret (obj \<in> set (drop (nat tp) (refs r)), r') \<and> rt_wf r'
           \<and> refs r' = remove_last_from (nat tp) obj (refs r) \<and> maxEntries r' = maxEntries r \<and> allocEntries r' = allocEntries r"
proof -
  obtain xs where xs: "rtable r = Some xs" "int (length xs) = sint (allocEntries r)" using assms(1) by (auto simp: rt_wf_def)
  define n where "n = nat (nextEntry r)"
  define t where "t = nat tp"
  have n: "nextEntry r = int n" "n \<le> length xs" and t: "tp = int t" "t \<le> n"
    using assms xs(2) by (auto simp: n_def t_def rt_wf_def)
  have rf: "refs r = take n xs" using xs(1) by (simp add: refs_def n_def)
  have find: "dvmFindInReferenceTable r tp obj = ref_find xs (int n) (int t) obj"
    using xs(1) n t by (simp add: dvmFindInReferenceTable_def)
  have "0 \<le> int t" "int n \<le> int (length xs)" using n(2) by simp_all
  from ref_find_spec [OF this, of obj] show ?thesis
  proof (elim disjE exE conjE)
    assume "ref_find xs (int n) (int t) obj = Ret None" and none: "\<forall>j. int t \<le> int j \<and> int j < int n \<longrightarrow> xs ! j \<noteq> obj"
    moreover have "obj \<notin> set (drop t (take n xs))"
      using none n(2) by (auto simp: in_set_conv_nth)
    moreover have "take t (take n xs) @ drop t (take n xs) = take n xs" by (rule append_take_drop_id)
    ultimately show ?thesis
      using xs find t(1) rf assms(1)
      by (auto simp: dvmRemoveFromReferenceTable_def remove_last_from_def remove_last_absent simp del: bind_out_eq_Ret)
  next
    fix k assume f: "ref_find xs (int n) (int t) obj = Ret (Some (int k))" and k: "int t \<le> int k" "int k < int n" "xs ! k = obj"
      and last: "\<forall>j. k < j \<and> int j < int n \<longrightarrow> xs ! j \<noteq> obj"
    obtain m where m: "n = Suc m" "k \<le> m" using k(2) by (cases n) auto
    then obtain ys where ys: "list_move xs k (Suc k) (m - k) = Ret ys" "length ys = length xs"
      "take m ys = take k xs @ drop (Suc k) (take (Suc m) xs)"
      using list_move_delete [of k m xs] n(2) by auto
    define r' where "r' = r\<lparr>rtable := Some ys, nextEntry := int m\<rparr>"
    have dk: "drop t (take n xs) ! (k - t) = obj" "k - t < length (drop t (take n xs))"
      using k n(2) by auto
    have "remove_last obj (drop t (take n xs)) = take (k - t) (drop t (take n xs)) @ drop (Suc (k - t)) (drop t (take n xs))"
    proof (rule remove_last_nth [OF dk(2,1)], intro allI impI)
      fix j assume "k - t < j \<and> j < length (drop t (take n xs))"
      then have "k < t + j" "int (t + j) < int n" "drop t (take n xs) ! j = xs ! (t + j)" using k n(2) by auto
      then show "drop t (take n xs) ! j \<noteq> obj" using last by metis
    qed
    moreover have "take t xs @ take (k - t) (drop t (take n xs)) = take k xs"
      using take_add [of t "k - t" "take n xs"] k t(2) by (simp add: min_def split: if_splits)
    ultimately have "refs r' = remove_last_from t obj (refs r)"
      using ys(3) m k t(2) rf by (simp add: r'_def refs_def remove_last_from_def min_def Suc_diff_le)
    moreover have "obj \<in> set (drop t (refs r))" using dk nth_mem rf by metis
    moreover have "rt_wf r'" using assms(1) xs ys(2) m n by (auto simp: rt_wf_def r'_def)
    moreover have "(if int m - int k \<noteq> 0 then list_move xs (nat (int k)) (nat (int k + 1)) (nat (int m - int k)) else Ret xs) = Ret ys"
      using ys(1) m n(2) by (auto simp: nat_add_distrib nat_diff_distrib list_move_none)
    then have "dvmRemoveFromReferenceTable r tp obj = Ret (True, r')"
      using xs(1) find f n(1) m(1) by (simp add: dvmRemoveFromReferenceTable_def r'_def Let_def del: bind_out_eq_Ret)
    ultimately show ?thesis using t(1) by (auto simp: r'_def)
  qed
qed

section \<open>Claims\<close>

text \<open>C34 A reference table is a list. Adding a valid reference appends it, or fails without a change when
  the maximum is reached or memory is short; removing deletes the most recent occurrence at or
  after \<open>top\<close> and reports whether there was one, leaving everything before \<open>top\<close> alone. The table stays
  well-formed, and no access leaves the array.\<close>

theorem reftable_is_list:
  assumes "rt_wf r" and "valid obj" and "obj \<noteq> 0" and "sint (allocEntries r) < 2 ^ 30"
    and "0 \<le> tp" and "tp \<le> nextEntry r"
  shows "(if int (length (refs r)) = sint (maxEntries r)
          then dvmAddToReferenceTable valid ok junk r obj = Ret (False, r)
          else dvmAddToReferenceTable valid ok junk r obj = Ret (False, r) \<and> ok \<noteq> (\<lambda>_. True)
            \<or> (\<exists>r'. dvmAddToReferenceTable valid ok junk r obj = Ret (True, r') \<and> rt_wf r' \<and> refs r' = refs r @ [obj]))
    \<and> (\<exists>r'. dvmRemoveFromReferenceTable r tp obj = Ret (obj \<in> set (drop (nat tp) (refs r)), r') \<and> rt_wf r'
           \<and> refs r' = remove_last_from (nat tp) obj (refs r))"
  using ref_add_spec [where valid = valid, OF assms(1-4), of ok junk] ref_remove_spec [OF assms(1,5,6), of obj] by auto

theorem reftable_is_list_witness:
  "\<exists>r'. dvmAddToReferenceTable (\<lambda>_. True) (\<lambda>_. True) 0
       \<lparr>rtable = Some [8, 16], nextEntry = 2, allocEntries = 2, maxEntries = 3\<rparr> 8 = Ret (True, r') \<and> refs r' = [8, 16, 8]"
  using reftable_is_list [of "\<lparr>rtable = Some [8, 16], nextEntry = 2, allocEntries = 2, maxEntries = 3\<rparr>" "\<lambda>_. True" 8 0
      "\<lambda>_. True" 0]
  by (auto simp: rt_wf_def refs_def)

end
