(* ===== verification/JniRefs.thy ===== *)
theory JniRefs
  imports ReferenceTable "HOL-Library.Multiset"
begin

text \<open>
  The JNI reference bookkeeping of \<^verbatim>\<open>src/vm/Jni.c\<close>, \<^verbatim>\<open>src/vm/JniInternal.h\<close> and \<^verbatim>\<open>src/vm/interp/Stack.c\<close> on top of reference tables: local
  references with their frames, global references with the usage marks, and the monitors a thread
  has entered through JNI. The object validity predicate and the allocator are parameters.
\<close>

section \<open>Local references\<close>

text \<open>
  The part of a thread the local references live in: the table, which has a fixed size, and the saved
  \<open>localRefTop\<close> of the frames on the stack, the current frame first. A frame is identified by its method.
\<close>

record jni_thread =
  jniLocalRefTable :: ReferenceTable
  frames :: "(u8 \<times> int) list"

definition kJniLocalRefMax :: u4 where
  "kJniLocalRefMax = 512"

definition addLocalReference :: "(u8 \<Rightarrow> bool) \<Rightarrow> jni_thread \<Rightarrow> u8 \<Rightarrow> (u8 \<times> jni_thread) outcome" where
  "addLocalReference valid self obj =
     (if obj = 0 then Ret (0, self)
      else
        bind_out (dvmAddToReferenceTable valid (\<lambda>_. True) 0 (jniLocalRefTable self) obj) (\<lambda>(added, pRef).
          if \<not> added then AbortVM else Ret (obj, self\<lparr>jniLocalRefTable := pRef\<rparr>)))"

definition ensureLocalCapacity :: "jni_thread \<Rightarrow> int \<Rightarrow> bool" where
  "ensureLocalCapacity self capacity \<longleftrightarrow> sint kJniLocalRefMax - nextEntry (jniLocalRefTable self) \<ge> capacity"

definition deleteLocalReference :: "jni_thread \<Rightarrow> u8 \<Rightarrow> jni_thread outcome" where
  "deleteLocalReference self obj =
     (if obj = 0 then Ret self
      else case frames self of
        [] \<Rightarrow> OutOfBounds
      | (m, localRefTop) # _ \<Rightarrow>
          bind_out (dvmRemoveFromReferenceTable (jniLocalRefTable self) localRefTop obj) (\<lambda>(found, pRef).
            Ret (self\<lparr>jniLocalRefTable := pRef\<rparr>)))"

text \<open>
  \<open>dvmPushLocalFrame\<close>, with the room on the interpreted stack as an argument, and \<open>dvmPopLocalFrame\<close>. The
  frame before the current one must belong to the same method.
\<close>

definition dvmPushLocalFrame :: "bool \<Rightarrow> jni_thread \<Rightarrow> u8 \<Rightarrow> bool \<times> jni_thread" where
  "dvmPushLocalFrame room self method =
     (if \<not> room then (False, self)
      else (True, self\<lparr>frames := (method, nextEntry (jniLocalRefTable self)) # frames self\<rparr>))"

definition dvmPopJniLocals :: "jni_thread \<Rightarrow> int \<Rightarrow> jni_thread" where
  "dvmPopJniLocals self localRefTop =
     self\<lparr>jniLocalRefTable := (jniLocalRefTable self)\<lparr>nextEntry := localRefTop\<rparr>\<rparr>"

definition dvmPopLocalFrame :: "jni_thread \<Rightarrow> (bool \<times> jni_thread) outcome" where
  "dvmPopLocalFrame self =
     (case frames self of
        (m, tp) # (m', tp') # fs \<Rightarrow>
          if m \<noteq> m' then Ret (False, self)
          else Ret (True, (dvmPopJniLocals self tp)\<lparr>frames := (m', tp') # fs\<rparr>)
      | _ \<Rightarrow> OutOfBounds)"

definition PushLocalFrame :: "bool \<Rightarrow> jni_thread \<Rightarrow> int \<Rightarrow> (bool \<times> jni_thread) outcome" where
  "PushLocalFrame room self capacity =
     (case frames self of
        [] \<Rightarrow> OutOfBounds
      | (m, tp) # fs \<Rightarrow>
          if \<not> ensureLocalCapacity self capacity then Ret (False, self)
          else Ret (dvmPushLocalFrame room self m))"

definition PopLocalFrame :: "(u8 \<Rightarrow> bool) \<Rightarrow> jni_thread \<Rightarrow> u8 \<Rightarrow> (u8 \<times> jni_thread) outcome" where
  "PopLocalFrame valid self result =
     bind_out (dvmPopLocalFrame self) (\<lambda>(popped, self). addLocalReference valid self result)"

section \<open>Global references\<close>

text \<open>Both functions hold the table lock throughout, so they are atomic.\<close>

record jni_globals =
  jniGlobalRefTable :: ReferenceTable
  jniGlobalRefHiMark :: int
  jniGlobalRefLoMark :: int
  jniGrefLimit :: int
  warnError :: bool

definition kGrefWaterInterval :: int where
  "kGrefWaterInterval = 100"

definition dvmJniStartup_refs :: "(int \<Rightarrow> bool) \<Rightarrow> jni_globals \<Rightarrow> (bool \<times> jni_globals) outcome" where
  "dvmJniStartup_refs ok g =
     bind_out (dvmInitReferenceTable ok (jniGlobalRefTable g) 512 51200) (\<lambda>(done', r).
       if \<not> done' then Ret (False, g\<lparr>jniGlobalRefTable := r\<rparr>)
       else Ret (True, g\<lparr>jniGlobalRefTable := r, jniGlobalRefLoMark := 0, jniGlobalRefHiMark := kGrefWaterInterval * 2\<rparr>))"

definition addGlobalReference :: "(u8 \<Rightarrow> bool) \<Rightarrow> (int \<Rightarrow> bool) \<Rightarrow> u8 \<Rightarrow> jni_globals \<Rightarrow> u8 \<Rightarrow> (u8 \<times> jni_globals) outcome" where
  "addGlobalReference valid ok junk g obj =
     (if obj = 0 then Ret (0, g)
      else
        bind_out (dvmAddToReferenceTable valid ok junk (jniGlobalRefTable g) obj) (\<lambda>(added, r).
          if \<not> added then AbortVM
          else
            let g = g\<lparr>jniGlobalRefTable := r\<rparr> in
            if jniGrefLimit g \<noteq> 0 then
              let count = dvmReferenceTableEntries r in
              if count > jniGlobalRefHiMark g then
                let g = g\<lparr>jniGlobalRefHiMark := jniGlobalRefHiMark g + kGrefWaterInterval,
                          jniGlobalRefLoMark := jniGlobalRefLoMark g + kGrefWaterInterval\<rparr> in
                if count \<ge> jniGrefLimit g \<and> warnError g then AbortVM else Ret (obj, g)
              else Ret (obj, g)
            else Ret (obj, g)))"

definition deleteGlobalReference :: "jni_globals \<Rightarrow> u8 \<Rightarrow> jni_globals outcome" where
  "deleteGlobalReference g obj =
     (if obj = 0 then Ret g
      else
        bind_out (dvmRemoveFromReferenceTable (jniGlobalRefTable g) 0 obj) (\<lambda>(found, r).
          let g = g\<lparr>jniGlobalRefTable := r\<rparr> in
          if \<not> found then Ret g
          else if jniGrefLimit g \<noteq> 0 then
            let count = dvmReferenceTableEntries r in
            if count < jniGlobalRefLoMark g then
              Ret (g\<lparr>jniGlobalRefHiMark := jniGlobalRefHiMark g - kGrefWaterInterval,
                     jniGlobalRefLoMark := jniGlobalRefLoMark g - kGrefWaterInterval\<rparr>)
            else Ret g
          else Ret g))"

text \<open>The references the collector marks.\<close>

definition dvmGcMarkJniGlobalRefs :: "jni_globals \<Rightarrow> u8 list" where
  "dvmGcMarkJniGlobalRefs g = refs (jniGlobalRefTable g)"

section \<open>Monitors\<close>

definition trackMonitorEnter :: "(u8 \<Rightarrow> bool) \<Rightarrow> (int \<Rightarrow> bool) \<Rightarrow> u8 \<Rightarrow> ReferenceTable \<Rightarrow> u8 \<Rightarrow> ReferenceTable outcome" where
  "trackMonitorEnter valid ok junk refTable obj =
     bind_out (if rtable refTable = None then
                 (if maxEntries refTable \<noteq> 0 then AbortVM
                  else bind_out (dvmInitReferenceTable ok refTable 16 0x7fffffff) (\<lambda>(done', r).
                         if done' then Ret r else AbortVM))
               else Ret refTable) (\<lambda>r.
     bind_out (dvmAddToReferenceTable valid ok junk r obj) (\<lambda>(added, r).
     if \<not> added then AbortVM else Ret r))"

definition trackMonitorExit :: "ReferenceTable \<Rightarrow> u8 \<Rightarrow> ReferenceTable outcome" where
  "trackMonitorExit refTable obj =
     bind_out (dvmRemoveFromReferenceTable refTable 0 obj) (\<lambda>(found, r). Ret r)"

text \<open>The objects that are unlocked when the thread detaches, in order, and the table afterwards.\<close>

definition dvmReleaseJniMonitors :: "ReferenceTable \<Rightarrow> u8 list \<times> ReferenceTable" where
  "dvmReleaseJniMonitors refTable =
     (case rtable refTable of
        None \<Rightarrow> ([], refTable)
      | Some xs \<Rightarrow> (rev (refs refTable), refTable\<lparr>nextEntry := 0\<rparr>))"

section \<open>Frames of local references\<close>

text \<open>The local table of a thread has its full size from the start, and the frames are nested.\<close>

definition jni_ok :: "jni_thread \<Rightarrow> bool" where
  "jni_ok self \<longleftrightarrow> rt_wf (jniLocalRefTable self)
     \<and> allocEntries (jniLocalRefTable self) = kJniLocalRefMax \<and> maxEntries (jniLocalRefTable self) = kJniLocalRefMax
     \<and> sorted_wrt (\<ge>) (nextEntry (jniLocalRefTable self) # map snd (frames self)) \<and> (\<forall>f\<in>set (frames self). 0 \<le> snd f)"

definition locals :: "jni_thread \<Rightarrow> u8 list" where
  "locals self = refs (jniLocalRefTable self)"

text \<open>What native code can do to its local references.\<close>

inductive jni_step :: "(u8 \<Rightarrow> bool) \<Rightarrow> jni_thread \<Rightarrow> jni_thread \<Rightarrow> bool" for valid where
  add: "valid obj \<Longrightarrow> addLocalReference valid s obj = Ret (r, s') \<Longrightarrow> jni_step valid s s'"
| delete: "deleteLocalReference s obj = Ret s' \<Longrightarrow> jni_step valid s s'"
| push: "PushLocalFrame room s n = Ret (r, s') \<Longrightarrow> jni_step valid s s'"
| pop: "dvmPopLocalFrame s = Ret (r, s') \<Longrightarrow> jni_step valid s s'"

text \<open>The part below the topmost of the \<open>d\<close> oldest frames, which native code called later must not touch.\<close>

definition caller_part :: "nat \<Rightarrow> jni_thread \<Rightarrow> (u8 \<times> int) list \<times> u8 list" where
  "caller_part d self = (let F = drop (length (frames self) - d) (frames self)
     in (F, take (nat (snd (hd F))) (locals self)))"

lemma caller_part_Cons: "d \<le> length (frames s) \<Longrightarrow> frames s' = f # frames s
    \<Longrightarrow> drop (length (frames s') - d) (frames s') = drop (length (frames s) - d) (frames s)"
  by (simp add: Suc_diff_le)

lemma oldest_top:
  assumes "jni_ok s" and "d \<le> length (frames s)" and "0 < d" and "frames s = (m, tp) # fs"
  shows "snd (hd (drop (length (frames s) - d) (frames s))) \<le> tp"
    and "0 \<le> snd (hd (drop (length (frames s) - d) (frames s)))"
proof -
  let ?i = "length (frames s) - d"
  have i: "?i < length (frames s)" using assms(2-4) by (metis diff_less length_greater_0_conv list.distinct(1))
  then have h: "hd (drop ?i (frames s)) = frames s ! ?i" by (simp add: hd_drop_conv_nth)
  have "sorted_wrt (\<ge>) (map snd (frames s))" using assms(1) by (simp add: jni_ok_def)
  then show "snd (hd (drop ?i (frames s))) \<le> tp"
    unfolding h using i assms(4) sorted_wrt_nth_less [of "(\<ge>)" "map snd (frames s)" 0 ?i] by (cases "?i = 0") auto
  show "0 \<le> snd (hd (drop ?i (frames s)))" unfolding h using i assms(1) nth_mem by (auto simp: jni_ok_def)
qed

lemma remove_last_from_prefix: "k \<le> n \<Longrightarrow> n \<le> length xs \<Longrightarrow> take k (remove_last_from n x xs) = take k xs"
  by (simp add: remove_last_from_def min_absorb1)

lemma length_remove_last_from: "length (remove_last_from n x xs) \<le> length xs" "n \<le> length xs \<Longrightarrow> n \<le> length (remove_last_from n x xs)"
proof -
  have "length (remove_last x ys) \<le> length ys" for x :: 'a and ys by (induction ys) auto
  from this [of x "drop n xs"] show "length (remove_last_from n x xs) \<le> length xs"
    by (simp add: remove_last_from_def)
qed (simp add: remove_last_from_def)

lemma locals_length: "jni_ok s \<Longrightarrow> int (length (locals s)) = nextEntry (jniLocalRefTable s)"
  by (simp add: jni_ok_def locals_def length_refs)

lemma caller_part_same:
  assumes "frames s' = frames s" and "\<And>k. k \<le> n \<Longrightarrow> take k (locals s') = take k (locals s)"
    and "nat (snd (hd (drop (length (frames s) - d) (frames s)))) \<le> n"
  shows "caller_part d s' = caller_part d s"
  using assms by (simp add: caller_part_def Let_def)

lemma oldest_below:
  assumes "jni_ok s" and "d \<le> length (frames s)" and "0 < d"
  shows "nat (snd (hd (drop (length (frames s) - d) (frames s)))) \<le> length (locals s)"
proof -
  obtain m tp fs where f: "frames s = (m, tp) # fs" using assms(2,3) by (cases "frames s") auto
  have "tp \<le> nextEntry (jniLocalRefTable s)" using assms(1) f by (simp add: jni_ok_def)
  then show ?thesis using oldest_top(1) [OF assms f] locals_length [OF assms(1)] by simp
qed

lemma add_step:
  assumes "jni_ok s" and "valid obj" and "addLocalReference valid s obj = Ret (r, s')"
  shows "jni_ok s' \<and> frames s' = frames s \<and> (\<forall>k\<le>length (locals s). take k (locals s') = take k (locals s))"
proof (cases "obj = 0")
  case True
  then show ?thesis using assms by (simp add: addLocalReference_def)
next
  case False
  let ?r = "jniLocalRefTable s"
  have wf: "rt_wf ?r" "sint (allocEntries ?r) < 2 ^ 30" using assms(1) by (simp_all add: jni_ok_def kJniLocalRefMax_def)
  obtain r' where r': "dvmAddToReferenceTable valid (\<lambda>_. True) 0 ?r obj = Ret (True, r')" "rt_wf r'" "refs r' = refs ?r @ [obj]"
    "maxEntries r' = maxEntries ?r" "sint (allocEntries ?r) \<le> sint (allocEntries r')"
    using ref_add_spec [where valid = valid, OF wf(1) assms(2) False wf(2), of "\<lambda>_. True" 0] assms(3) False
    by (auto simp: addLocalReference_def)
  then have s': "s' = s\<lparr>jniLocalRefTable := r'\<rparr>" using assms(3) False by (simp add: addLocalReference_def)
  have "sint (allocEntries r') = sint kJniLocalRefMax"
    using r'(2,4,5) assms(1) by (auto simp: jni_ok_def rt_wf_def)
  then have "allocEntries r' = kJniLocalRefMax" by (simp add: signed_word_eqI)
  moreover have "nextEntry r' = nextEntry ?r + 1" using length_refs [OF r'(2)] length_refs [OF wf(1)] r'(3) by simp
  ultimately show ?thesis using assms(1) r' s' by (auto simp: jni_ok_def locals_def)
qed

lemma delete_step:
  assumes "jni_ok s" and "deleteLocalReference s obj = Ret s'" and "frames s = (m, tp) # fs"
  shows "jni_ok s' \<and> frames s' = frames s \<and> (\<forall>k\<le>nat tp. take k (locals s') = take k (locals s))"
proof (cases "obj = 0")
  case True
  then show ?thesis using assms by (simp add: deleteLocalReference_def)
next
  case False
  let ?r = "jniLocalRefTable s"
  have tp: "rt_wf ?r" "0 \<le> tp" "tp \<le> nextEntry ?r" using assms(1,3) by (simp_all add: jni_ok_def)
  obtain r' where r': "dvmRemoveFromReferenceTable ?r tp obj = Ret (obj \<in> set (drop (nat tp) (refs ?r)), r')" "rt_wf r'"
    "refs r' = remove_last_from (nat tp) obj (refs ?r)" "maxEntries r' = maxEntries ?r" "allocEntries r' = allocEntries ?r"
    using ref_remove_spec [OF tp] by blast
  have s': "s' = s\<lparr>jniLocalRefTable := r'\<rparr>" using assms(2,3) False r'(1) by (simp add: deleteLocalReference_def)
  have n: "nat tp \<le> length (refs ?r)" using tp length_refs [OF tp(1)] by simp
  then have "tp \<le> nextEntry r'"
    using length_refs [OF r'(2)] length_remove_last_from(2) [OF n, of obj] r'(3) tp(2) by simp
  then have "jni_ok s'" using assms(1,3) r' s' by (auto simp: jni_ok_def)
  then show ?thesis using s' r'(3) n by (auto simp: locals_def remove_last_from_prefix)
qed

lemma pop_step:
  assumes "jni_ok s" and "dvmPopLocalFrame s = Ret (r, s')"
  shows "s' = s \<or> (\<exists>m tp f fs. frames s = (m, tp) # f # fs \<and> frames s' = f # fs \<and> jni_ok s' \<and> locals s' = take (nat tp) (locals s))"
proof -
  obtain m tp m' tp' fs where f: "frames s = (m, tp) # (m', tp') # fs"
    using assms(2) by (auto simp: dvmPopLocalFrame_def split: list.splits prod.splits)
  show ?thesis
  proof (cases "m = m'")
    case True
    then have s': "s' = (dvmPopJniLocals s tp)\<lparr>frames := (m', tp') # fs\<rparr>"
      using assms(2) f by (simp add: dvmPopLocalFrame_def)
    have "0 \<le> tp" "tp \<le> nextEntry (jniLocalRefTable s)" using assms(1) f by (simp_all add: jni_ok_def)
    then have "locals s' = take (nat tp) (locals s)"
      using assms(1) s' by (auto simp: locals_def refs_def dvmPopJniLocals_def jni_ok_def rt_wf_def min_absorb1 nat_mono)
    moreover have "jni_ok s'" using assms(1) f s' \<open>0 \<le> tp\<close> by (auto simp: jni_ok_def dvmPopJniLocals_def rt_wf_def)
    ultimately show ?thesis using f s' by auto
  qed (use assms(2) f in \<open>simp add: dvmPopLocalFrame_def\<close>)
qed

lemma push_step:
  assumes "jni_ok s" and "PushLocalFrame room s n = Ret (r, s')"
  shows "jni_ok s' \<and> locals s' = locals s \<and> (s' = s \<or> (\<exists>m. frames s' = (m, nextEntry (jniLocalRefTable s)) # frames s))"
  using assms
  by (fastforce simp: PushLocalFrame_def dvmPushLocalFrame_def jni_ok_def locals_def rt_wf_def split: list.splits prod.splits if_splits)

lemma jni_step_caller_part:
  assumes "jni_step valid s s'" and "jni_ok s" and "0 < d" and "d \<le> length (frames s)" and "d \<le> length (frames s')"
  shows "jni_ok s' \<and> caller_part d s' = caller_part d s"
  using assms(1)
proof cases
  case (add obj r)
  then show ?thesis
    using add_step [OF assms(2)] caller_part_same [of s' s "length (locals s)" d] oldest_below [OF assms(2,4,3)] by blast
next
  case (delete obj)
  obtain m tp fs where f: "frames s = (m, tp) # fs" using assms(3,4) by (cases "frames s") auto
  then show ?thesis
    using delete_step [OF assms(2) delete f] caller_part_same [of s' s "nat tp" d] oldest_top(1) [OF assms(2,4,3) f]
    by (metis nat_mono)
next
  case (push room n r)
  then show ?thesis
    using push_step [OF assms(2) push] caller_part_Cons [OF assms(4), of s'] by (auto simp: caller_part_def)
next
  case (pop r)
  from pop_step [OF assms(2) pop] show ?thesis
  proof (elim disjE exE conjE)
    fix m tp f fs
    assume *: "frames s = (m, tp) # f # fs" "frames s' = f # fs" "jni_ok s'" "locals s' = take (nat tp) (locals s)"
    have "drop (length (frames s) - d) (frames s) = drop (length (frames s') - d) (frames s')"
      using * assms(5) by (simp add: Suc_diff_le)
    moreover have "nat (snd (hd (drop (length (frames s) - d) (frames s)))) \<le> nat tp"
      using oldest_top(1) [OF assms(2,4,3) *(1)] by (rule nat_mono)
    ultimately show ?thesis using * by (simp add: caller_part_def Let_def min_absorb1)
  qed (use assms(2) in simp)
qed

section \<open>Global references and monitors\<close>

lemma mset_remove_last: "mset (remove_last x xs) = mset xs - {#x#}"
  by (induction xs) (auto simp: add_mset_remove_trivial_If)

lemma mset_remove_last_from_0: "mset (remove_last_from 0 x xs) = mset xs - {#x#}"
  by (simp add: remove_last_from_def mset_remove_last)

text \<open>The marks enclose the number of references; they move together.\<close>

definition globals_ok :: "jni_globals \<Rightarrow> bool" where
  "globals_ok g \<longleftrightarrow> rt_wf (jniGlobalRefTable g) \<and> sint (maxEntries (jniGlobalRefTable g)) = 51200
     \<and> jniGlobalRefHiMark g = jniGlobalRefLoMark g + 2 * kGrefWaterInterval
     \<and> jniGlobalRefLoMark g \<le> int (length (refs (jniGlobalRefTable g)))
     \<and> int (length (refs (jniGlobalRefTable g))) \<le> jniGlobalRefHiMark g"

lemma globals_ok_small: "globals_ok g \<Longrightarrow> sint (allocEntries (jniGlobalRefTable g)) < 2 ^ 30"
  by (auto simp: globals_ok_def rt_wf_def)

section \<open>Claims\<close>



text \<open>C20 A native method gives its caller's local references back untouched: after a frame is pushed,
  whatever native code adds, deletes, pushes and pops above it, popping it restores the table of
  local references and the frames exactly.\<close>

theorem native_frame_restored:
  assumes "jni_ok s" and "frames s = (m, tp) # fs" and "dvmPushLocalFrame True s m = (True, s1)"
    and "(\<lambda>a b. jni_step valid a b \<and> length (frames s) < length (frames b))\<^sup>*\<^sup>* s1 s2"
    and "length (frames s2) = Suc (length (frames s))"
  shows "\<exists>s3. dvmPopLocalFrame s2 = Ret (True, s3) \<and> locals s3 = locals s \<and> frames s3 = frames s \<and> jni_ok s3"
proof -
  let ?d = "Suc (length (frames s))"
  have s1: "s1 = s\<lparr>frames := (m, nextEntry (jniLocalRefTable s)) # frames s\<rparr>"
    using assms(3) by (simp add: dvmPushLocalFrame_def)
  have ok1: "jni_ok s1 \<and> ?d \<le> length (frames s1)" using assms(1,2) s1 by (auto simp: jni_ok_def rt_wf_def)
  have "jni_ok s2 \<and> ?d \<le> length (frames s2) \<and> caller_part ?d s2 = caller_part ?d s1"
    using assms(4) ok1
  proof (induction rule: rtranclp_induct)
    case (step a b)
    then show ?case using jni_step_caller_part [of valid a b ?d] by simp
  qed simp
  then have ok2: "jni_ok s2" and part: "frames s2 = frames s1"
    "take (nat (nextEntry (jniLocalRefTable s))) (locals s2) = take (nat (nextEntry (jniLocalRefTable s))) (locals s1)"
    using assms(5) s1 by (auto simp: caller_part_def Let_def)
  have "take (nat (nextEntry (jniLocalRefTable s))) (locals s1) = locals s"
    using locals_length [OF assms(1)] s1 by (simp add: locals_def)
  moreover obtain s3 where s3: "dvmPopLocalFrame s2 = Ret (True, s3)" "frames s3 = frames s"
    using part(1) s1 assms(2) by (simp add: dvmPopLocalFrame_def)
  moreover have f2: "frames s2 = (m, nextEntry (jniLocalRefTable s)) # frames s" using part(1) s1 by simp
  moreover have "s3 \<noteq> s2" using s3(2) f2 by auto
  then have "jni_ok s3 \<and> locals s3 = take (nat (nextEntry (jniLocalRefTable s))) (locals s2)"
    using pop_step [OF ok2 s3(1)] f2 by auto
  ultimately show ?thesis using part(2) by auto
qed

definition example_thread :: jni_thread where
  "example_thread =
     \<lparr>jniLocalRefTable = \<lparr>rtable = Some (replicate 512 8), nextEntry = 1, allocEntries = 512, maxEntries = 512\<rparr>,
      frames = [(1, 0)]\<rparr>"

theorem native_frame_restored_witness:
  "\<exists>s1 s2 s3. dvmPushLocalFrame True example_thread 1 = (True, s1) \<and> addLocalReference (\<lambda>_. True) s1 16 = Ret (16, s2)
     \<and> dvmPopLocalFrame s2 = Ret (True, s3) \<and> locals s3 = [8] \<and> frames s3 = [(1, 0)]"
proof -
  have ok: "jni_ok example_thread" by (simp add: jni_ok_def rt_wf_def example_thread_def kJniLocalRefMax_def)
  obtain s1 where s1: "dvmPushLocalFrame True example_thread 1 = (True, s1)" by (simp add: dvmPushLocalFrame_def)
  then have f1: "frames s1 = [(1, 1), (1, 0)]" "jniLocalRefTable s1 = jniLocalRefTable example_thread"
    by (auto simp: dvmPushLocalFrame_def example_thread_def)
  have "rt_wf (jniLocalRefTable s1)" "sint (allocEntries (jniLocalRefTable s1)) < 2 ^ 30"
    "int (length (refs (jniLocalRefTable s1))) \<noteq> sint (maxEntries (jniLocalRefTable s1))"
    using ok length_refs [of "jniLocalRefTable example_thread"] unfolding f1(2)
    by (simp_all add: jni_ok_def kJniLocalRefMax_def) (simp add: example_thread_def)
  then obtain r' where "dvmAddToReferenceTable (\<lambda>_. True) (\<lambda>_. True) 0 (jniLocalRefTable s1) 16 = Ret (True, r')"
    using ref_add_spec [of "jniLocalRefTable s1" "\<lambda>_. True" 16 "\<lambda>_. True" 0] by auto
  then obtain s2 where s2: "addLocalReference (\<lambda>_. True) s1 16 = Ret (16, s2)" "frames s2 = frames s1"
    by (simp add: addLocalReference_def)
  then have "jni_step (\<lambda>_. True) s1 s2" by (auto intro: jni_step.add)
  then have "(\<lambda>a b. jni_step (\<lambda>_. True) a b \<and> length (frames example_thread) < length (frames b))\<^sup>*\<^sup>* s1 s2"
    using s2(2) f1 by (intro r_into_rtranclp) (simp add: example_thread_def)
  then obtain s3 where "dvmPopLocalFrame s2 = Ret (True, s3)" "locals s3 = locals example_thread" "frames s3 = frames example_thread"
    using native_frame_restored [OF ok _ s1, of 0 "[]" "\<lambda>_. True" s2] s2(2) f1 by (auto simp: example_thread_def)
  moreover have "locals example_thread = [8]" "frames example_thread = [(1, 0)]"
    by (simp_all add: locals_def refs_def example_thread_def)
  ultimately show ?thesis using s1 s2 by auto
qed



end
