(* ===== verification/Sync.thy ===== *)
theory Sync
  imports Prelude
begin

text \<open>
  Monitors, \<^verbatim>\<open>src/vm/Sync.c\<close> and \<^verbatim>\<open>src/vm/Sync.h\<close>: the lock word of an object, which is thin (owner and nesting depth in 32
  bits) until there is contention or a \<open>wait\<close>, and then the address of a \<open>Monitor\<close> with a mutex; \<open>wait\<close>, \<open>notify\<close> and \<open>interrupt\<close>.

  The theory has the lock of one object and any number of threads, interleaved on sequentially consistent memory. Every access to the lock word, to the
  racily read field \<open>owner\<close> and to the mutex is a step of its own; accesses to the other fields of a monitor, which are only made with
  the mutex held, are one step. A thread is identified with its \<open>threadId\<close>. A thread that sleeps on the condition variable may wake up at
  any time, as POSIX allows, so signals have no effect of their own. The nesting \<open>depth\<close> of a thread is what its client has asked
  for: it is raised when \<open>dvmLockObject\<close> returns and lowered when \<open>dvmUnlockObject\<close> succeeds. The lists of held monitors
  for debugging are left out.
\<close>

section \<open>The lock word\<close>

definition DVM_LOCK_INITIAL_THIN_VALUE :: u4 where
  "DVM_LOCK_INITIAL_THIN_VALUE = 1"

text \<open>Reading and writing the member \<open>thin\<close> of the union: the low half of the word.\<close>

definition thin :: "u8 \<Rightarrow> u4" where
  "thin w = ucast w"

definition set_thin :: "u8 \<Rightarrow> u4 \<Rightarrow> u8" where
  "set_thin w v = push_bit 32 (drop_bit 32 w) OR ucast v"

definition IS_LOCK_FAT :: "u8 \<Rightarrow> bool" where
  "IS_LOCK_FAT w \<longleftrightarrow> thin w AND 1 = 0 \<and> w \<noteq> 0"

text \<open>The identifier of the thread with number \<open>num\<close>.\<close>

definition assignThreadId :: "u4 \<Rightarrow> u4" where
  "assignThreadId num = push_bit 1 (num + 1) OR 1"

section \<open>State\<close>

record Monitor =
  owner :: "u4 option"
  lockCount :: int
  waiting :: int
  notifying :: int
  interrupting :: int
  mutex :: "u4 option"

definition new_monitor :: Monitor where
  "new_monitor = \<lparr>owner = None, lockCount = 0, waiting = 0, notifying = 0, interrupting = 0, mutex = None\<rparr>"

text \<open>
  Where a thread is. The argument \<open>m\<close> is the local variable \<open>mon\<close>, \<open>k\<close> whether the monitor operation belongs to an
  object operation (rather than an interrupt), \<open>timed\<close> and \<open>throws\<close> are the local variables of \<open>waitMonitor\<close>, \<open>n\<close> is \<open>prevLockCount\<close>.
\<close>

datatype lock_pc = LockCas | LockMine | LockAdd | LockBump u4 | LockKind | SpinTest | SpinFat | SpinCas | Fatten | FatLock
  | MonTest u8 | MonMutex u8 | MonOwn u8

datatype unlock_pc = UnlockTest | UnlockStore | UnlockKind | UnlockMine | UnlockSub | UnlockDec u4 | UnlockFat
  | MonUnlock u8 bool | MonClear u8 bool | MonRelease u8 bool

datatype wait_pc = WaitMon bool bool bool | WaitThin u8 bool bool bool | WaitPublish u8 bool bool bool | WaitTest u8 bool bool bool
  | WaitBegin u8 bool bool int | WaitSleep u8 bool bool int | WaitWoken u8 bool bool int bool | WaitCheck u8 bool bool int bool
  | WaitDone u8 bool int bool

datatype notify_pc = NotifyMon bool | NotifyThin u8 bool | NotifyTest u8 bool

datatype interrupt_pc = IntMon u4 | IntTry u4 u8 | IntRetry u4 u8 | IntOwn u4 u8 | IntGot u4 u8

datatype sync_pc = Idle | Failed | Aborted
  | InLock lock_pc | InUnlock unlock_pc | InWait wait_pc | InNotify notify_pc | InInterrupt interrupt_pc

record sync =
  lockw :: u8
  monitors :: "u8 \<Rightarrow> Monitor option"
  pcs :: "u4 \<Rightarrow> sync_pc"
  depth :: "u4 \<Rightarrow> nat"
  interrupted :: "u4 \<Rightarrow> bool"
  interruptingWait :: "u4 \<Rightarrow> bool"
  waitMonitorOf :: "u4 \<Rightarrow> u8"

definition sync_init :: sync where
  "sync_init = \<lparr>lockw = ucast DVM_LOCK_INITIAL_THIN_VALUE, monitors = Map.empty, pcs = (\<lambda>_. Idle), depth = (\<lambda>_. 0),
     interrupted = (\<lambda>_. False), interruptingWait = (\<lambda>_. False), waitMonitorOf = (\<lambda>_. 0)\<rparr>"

text \<open>What can happen to a thread: it calls an operation, it takes its next step, or a choice of the environment falls.\<close>

datatype event =
    CallLock | CallUnlock | CallWait int int bool | CallNotify | CallNotifyAll | CallInterrupt u4
  | Go | Alloc u8 | GiveUp | TimeOut

definition go :: "u4 \<Rightarrow> sync_pc \<Rightarrow> sync \<Rightarrow> sync" where
  "go t p s = s\<lparr>pcs := (pcs s)(t := p)\<rparr>"

definition set_monitor :: "u8 \<Rightarrow> Monitor \<Rightarrow> sync \<Rightarrow> sync" where
  "set_monitor m M s = s\<lparr>monitors := (monitors s)(m \<mapsto> M)\<rparr>"

definition set_depth :: "u4 \<Rightarrow> nat \<Rightarrow> sync \<Rightarrow> sync" where
  "set_depth t n s = s\<lparr>depth := (depth s)(t := n)\<rparr>"

definition store_thin :: "u4 \<Rightarrow> sync \<Rightarrow> sync" where
  "store_thin v s = s\<lparr>lockw := set_thin (lockw s) v\<rparr>"

text \<open>Following a pointer to a monitor; one that points nowhere stops the model in \<open>Aborted\<close>.\<close>

definition with_monitor :: "u4 \<Rightarrow> u8 \<Rightarrow> sync \<Rightarrow> (Monitor \<Rightarrow> sync option) \<Rightarrow> sync option" where
  "with_monitor t m s f = (case monitors s m of None \<Rightarrow> Some (go t Aborted s) | Some M \<Rightarrow> f M)"

text \<open>A control point at which only the next step of the thread can happen.\<close>

definition on_go :: "event \<Rightarrow> sync option \<Rightarrow> sync option" where
  "on_go ev r = (if ev = Go then r else None)"

text \<open>The client has the lock once more; the client has given it back once.\<close>

definition locked :: "u4 \<Rightarrow> sync \<Rightarrow> sync" where
  "locked t s = go t Idle (set_depth t (depth s t + 1) s)"

definition unlocked :: "u4 \<Rightarrow> bool \<Rightarrow> sync \<Rightarrow> sync" where
  "unlocked t k s = go t Idle (if k then set_depth t (depth s t - 1) s else s)"

section \<open>Operations\<close>

definition dvmHoldsLock :: "u4 \<Rightarrow> sync \<Rightarrow> bool" where
  "dvmHoldsLock t s =
     (if IS_LOCK_FAT (lockw s) then (case monitors s (lockw s) of None \<Rightarrow> False | Some M \<Rightarrow> owner M = Some t)
      else t = thin (lockw s) AND 0xffff)"

text \<open>\<open>lockMonitor\<close>, from \<open>MonTest\<close> on: \<open>pthread_mutex_lock\<close> is enabled when the mutex is free.\<close>

definition step_lock_monitor :: "u4 \<Rightarrow> event \<Rightarrow> lock_pc \<Rightarrow> sync \<Rightarrow> sync option" where
  "step_lock_monitor t ev p s = (case p of
     MonTest m \<Rightarrow> on_go ev (with_monitor t m s (\<lambda>M.
        Some (if owner M = Some t then locked t (set_monitor m (M\<lparr>lockCount := lockCount M + 1\<rparr>) s) else go t (InLock (MonMutex m)) s)))
   | MonMutex m \<Rightarrow> on_go ev (with_monitor t m s (\<lambda>M.
        if mutex M = None then Some (go t (InLock (MonOwn m)) (set_monitor m (M\<lparr>mutex := Some t\<rparr>) s)) else None))
   | MonOwn m \<Rightarrow> on_go ev (with_monitor t m s (\<lambda>M.
        Some (if lockCount M \<noteq> 0 then go t Aborted s else locked t (set_monitor m (M\<lparr>owner := Some t\<rparr>) s))))
   | _ \<Rightarrow> None)"

text \<open>\<open>dvmLockObject\<close>; a lock is left to \<open>Fatten\<close> after spinning, and \<open>MonTest\<close> is the call of \<open>lockMonitor\<close>.\<close>

definition step_lock :: "u4 \<Rightarrow> event \<Rightarrow> lock_pc \<Rightarrow> sync \<Rightarrow> sync option" where
  "step_lock t ev p s = (let v = thin (lockw s) in case p of
     LockCas \<Rightarrow> on_go ev (Some (if v = DVM_LOCK_INITIAL_THIN_VALUE then locked t (store_thin t s) else go t (InLock LockMine) s))
   | LockMine \<Rightarrow> on_go ev (Some (go t (if v AND 0xffff = t then InLock LockAdd else InLock LockKind) s))
   | LockAdd \<Rightarrow> on_go ev (Some (go t (InLock (LockBump v)) s))
   | LockBump old \<Rightarrow> on_go ev (Some (locked t (store_thin (old + push_bit 16 1) s)))
   | LockKind \<Rightarrow> on_go ev (Some (go t (if v AND 1 \<noteq> 0 then InLock SpinTest else InLock FatLock) s))
   | SpinTest \<Rightarrow> on_go ev (Some (go t (if v = DVM_LOCK_INITIAL_THIN_VALUE then InLock SpinCas else InLock SpinFat) s))
   | SpinFat \<Rightarrow> on_go ev (Some (go t (if v AND 1 = 0 then InLock FatLock else InLock SpinTest) s))
   | SpinCas \<Rightarrow> on_go ev (Some (if v = DVM_LOCK_INITIAL_THIN_VALUE then go t (InLock Fatten) (store_thin t s) else go t (InLock SpinTest) s))
   | Fatten \<Rightarrow> (case ev of Alloc m \<Rightarrow> Some (go t (InLock FatLock) (set_monitor m new_monitor (s\<lparr>lockw := m\<rparr>))) | _ \<Rightarrow> None)
   | FatLock \<Rightarrow> on_go ev (Some (if lockw s = 0 then go t Aborted s else go t (InLock (MonTest (lockw s))) s))
   | _ \<Rightarrow> step_lock_monitor t ev p s)"

text \<open>\<open>unlockMonitor\<close>, from \<open>MonUnlock\<close> on.\<close>

definition step_unlock_monitor :: "u4 \<Rightarrow> event \<Rightarrow> unlock_pc \<Rightarrow> sync \<Rightarrow> sync option" where
  "step_unlock_monitor t ev p s = (case p of
     MonUnlock m k \<Rightarrow> on_go ev (with_monitor t m s (\<lambda>M.
        Some (if owner M \<noteq> Some t then go t Failed s
              else if lockCount M = 0 then go t (InUnlock (MonClear m k)) s
              else unlocked t k (set_monitor m (M\<lparr>lockCount := lockCount M - 1\<rparr>) s))))
   | MonClear m k \<Rightarrow> on_go ev (with_monitor t m s (\<lambda>M. Some (go t (InUnlock (MonRelease m k)) (set_monitor m (M\<lparr>owner := None\<rparr>) s))))
   | MonRelease m k \<Rightarrow> on_go ev (with_monitor t m s (\<lambda>M.
        Some (if mutex M \<noteq> Some t then go t Aborted s else unlocked t k (set_monitor m (M\<lparr>mutex := None\<rparr>) s))))
   | _ \<Rightarrow> None)"

text \<open>\<open>dvmUnlockObject\<close>.\<close>

definition step_unlock :: "u4 \<Rightarrow> event \<Rightarrow> unlock_pc \<Rightarrow> sync \<Rightarrow> sync option" where
  "step_unlock t ev p s = (let v = thin (lockw s) in case p of
     UnlockTest \<Rightarrow> on_go ev (Some (go t (if v = t then InUnlock UnlockStore else InUnlock UnlockKind) s))
   | UnlockStore \<Rightarrow> on_go ev (Some (unlocked t True (store_thin DVM_LOCK_INITIAL_THIN_VALUE s)))
   | UnlockKind \<Rightarrow> on_go ev (Some (go t (if v AND 1 \<noteq> 0 then InUnlock UnlockMine else InUnlock UnlockFat) s))
   | UnlockMine \<Rightarrow> on_go ev (Some (go t (if v AND 0xffff \<noteq> t then Failed else InUnlock UnlockSub) s))
   | UnlockSub \<Rightarrow> on_go ev (Some (go t (InUnlock (UnlockDec v)) s))
   | UnlockDec old \<Rightarrow> on_go ev (Some (unlocked t True (store_thin (old - push_bit 16 1) s)))
   | UnlockFat \<Rightarrow> on_go ev (Some (if lockw s = 0 then go t Aborted s else go t (InUnlock (MonUnlock (lockw s) True)) s))
   | _ \<Rightarrow> step_unlock_monitor t ev p s)"

text \<open>\<open>waitMonitor\<close>, from \<open>WaitTest\<close> on; \<open>fits\<close> tells that the timeout is in range.\<close>

definition enter_wait :: "u4 \<Rightarrow> u8 \<Rightarrow> bool \<Rightarrow> bool \<Rightarrow> Monitor \<Rightarrow> sync \<Rightarrow> sync option" where
  "enter_wait t m timed throws M s =
     (let M = (if notifying M + interrupting M > waiting M then M\<lparr>notifying := waiting M - interrupting M\<rparr> else M);
          s' = set_monitor m (M\<lparr>lockCount := 0, waiting := waiting M + 1, owner := None\<rparr>) s\<lparr>waitMonitorOf := (waitMonitorOf s)(t := m)\<rparr>
      in Some (go t (if interrupted s t then InWait (WaitDone m throws (lockCount M) True) else InWait (WaitBegin m timed throws (lockCount M))) s'))"

definition step_wait_monitor :: "u4 \<Rightarrow> event \<Rightarrow> wait_pc \<Rightarrow> sync \<Rightarrow> sync option" where
  "step_wait_monitor t ev p s = (case p of
     WaitTest m timed throws fits \<Rightarrow> on_go ev (if m = 0 \<or> m AND 1 \<noteq> 0 then Some (go t Failed s)
       else with_monitor t m s (\<lambda>M.
         if owner M \<noteq> Some t \<or> \<not> fits then Some (go t Failed s)
         else if notifying M + interrupting M > waiting M \<and> \<not> waiting M \<ge> interrupting M then Some (go t Aborted s)
         else enter_wait t m timed throws M s))
   | WaitBegin m timed throws n \<Rightarrow> on_go ev (with_monitor t m s (\<lambda>M. Some (go t (InWait (WaitSleep m timed throws n)) (set_monitor m (M\<lparr>mutex := None\<rparr>) s))))
   | WaitSleep m timed throws n \<Rightarrow> (case ev of Go \<Rightarrow> Some (go t (InWait (WaitWoken m timed throws n False)) s) | TimeOut \<Rightarrow> if timed then Some (go t (InWait (WaitWoken m timed throws n True)) s) else None | _ \<Rightarrow> None)
   | WaitWoken m timed throws n timeout \<Rightarrow> on_go ev (with_monitor t m s (\<lambda>M.
        if mutex M = None then Some (go t (InWait (WaitCheck m timed throws n timeout)) (set_monitor m (M\<lparr>mutex := Some t\<rparr>) s)) else None))
   | WaitCheck m timed throws n timeout \<Rightarrow> on_go ev (with_monitor t m s (\<lambda>M.
        let i = interruptingWait s t;
            M1 = (if i then M\<lparr>interrupting := interrupting M - 1\<rparr> else M);
            s1 = (if i then set_monitor m M1 s\<lparr>interruptingWait := (interruptingWait s)(t := False)\<rparr> else s)
        in Some (if timeout then go t (InWait (WaitDone m throws n False)) s
                 else if i \<and> \<not> interrupted s t then go t Aborted s
                 else if i \<and> throws then go t (InWait (WaitDone m throws n True)) s1
                 else if notifying M1 \<noteq> 0 then go t (InWait (WaitDone m throws n False)) (set_monitor m (M1\<lparr>notifying := notifying M1 - 1\<rparr>) s1)
                 else go t (InWait (WaitBegin m timed throws n)) s1)))
   | WaitDone m throws n wasInterrupted \<Rightarrow> on_go ev (with_monitor t m s (\<lambda>M.
        let s' = set_monitor m (M\<lparr>owner := Some t, waiting := waiting M - 1, lockCount := n\<rparr>) s\<lparr>waitMonitorOf := (waitMonitorOf s)(t := 0)\<rparr>
        in Some (if wasInterrupted then go t (if throws then Failed else Idle) (s'\<lparr>interrupted := (interrupted s)(t := False)\<rparr>) else go t Idle s')))
   | _ \<Rightarrow> None)"

text \<open>\<open>dvmObjectWait\<close>; the new monitor is locked by its creator before it is published.\<close>

definition step_wait :: "u4 \<Rightarrow> event \<Rightarrow> wait_pc \<Rightarrow> sync \<Rightarrow> sync option" where
  "step_wait t ev p s = (case p of
     WaitMon timed throws fits \<Rightarrow> on_go ev (Some (go t (InWait (WaitThin (lockw s) timed throws fits)) s))
   | WaitThin m timed throws fits \<Rightarrow> (case ev of Go \<Rightarrow> (let v = thin (lockw s) in
        if v AND 1 = 0 then Some (go t (InWait (WaitTest m timed throws fits)) s)
        else if v AND 0xffff \<noteq> t then Some (go t Failed s)
        else None) | Alloc m' \<Rightarrow> (let v = thin (lockw s) in
        if v AND 1 \<noteq> 0 \<and> v AND 0xffff = t then
          Some (go t (InWait (WaitPublish m' timed throws fits))
            (set_monitor m' (new_monitor\<lparr>owner := Some t, mutex := Some t, lockCount := uint (drop_bit 16 v)\<rparr>) s))
        else None) | _ \<Rightarrow> None)
   | WaitPublish m timed throws fits \<Rightarrow> on_go ev (Some (go t (InWait (WaitTest m timed throws fits)) (s\<lparr>lockw := m\<rparr>)))
   | _ \<Rightarrow> step_wait_monitor t ev p s)"

text \<open>\<open>dvmObjectNotify\<close> and, with \<open>all\<close>, \<open>dvmObjectNotifyAll\<close>, which reads the pointer only after the test.\<close>

definition step_notify :: "u4 \<Rightarrow> event \<Rightarrow> notify_pc \<Rightarrow> sync \<Rightarrow> sync option" where
  "step_notify t ev p s = (case p of
     NotifyMon all \<Rightarrow> on_go ev (Some (go t (InNotify (NotifyThin (if all then 0 else lockw s) all)) s))
   | NotifyThin m all \<Rightarrow> on_go ev ((let v = thin (lockw s) in
        Some (if v AND 1 \<noteq> 0 then go t (if v AND 0xffff \<noteq> t then Failed else Idle) s
              else go t (InNotify (NotifyTest (if all then lockw s else m) all)) s)))
   | NotifyTest m all \<Rightarrow> on_go ev (if m = 0 \<or> m AND 1 \<noteq> 0 then Some (go t Failed s)
       else with_monitor t m s (\<lambda>M.
         Some (if owner M \<noteq> Some t then go t Failed s
               else if all then go t Idle (set_monitor m (M\<lparr>notifying := waiting M - interrupting M\<rparr>) s)
               else if notifying M + interrupting M < waiting M then go t Idle (set_monitor m (M\<lparr>notifying := notifying M + 1\<rparr>) s)
               else go t Idle s))))"

text \<open>\<open>dvmThreadInterrupt\<close> of the thread \<open>u\<close>, with \<open>tryLockMonitor\<close>; \<open>GiveUp\<close> is the end of the time for another try.\<close>

definition step_interrupt :: "u4 \<Rightarrow> event \<Rightarrow> interrupt_pc \<Rightarrow> sync \<Rightarrow> sync option" where
  "step_interrupt t ev p s = (case p of
     IntMon u \<Rightarrow> on_go ev (Some (if waitMonitorOf s u = 0 then go t Idle s else go t (InInterrupt (IntTry u (waitMonitorOf s u))) s))
   | IntTry u m \<Rightarrow> on_go ev (with_monitor t m s (\<lambda>M.
        Some (if owner M = Some t then go t (InInterrupt (IntGot u m)) (set_monitor m (M\<lparr>lockCount := lockCount M + 1\<rparr>) s)
              else if mutex M = None then go t (InInterrupt (IntOwn u m)) (set_monitor m (M\<lparr>mutex := Some t\<rparr>) s)
              else go t (InInterrupt (IntRetry u m)) s)))
   | IntRetry u m \<Rightarrow> (case ev of Go \<Rightarrow> Some (if waitMonitorOf s u \<noteq> m then go t Idle s else go t (InInterrupt (IntTry u m)) s) | GiveUp \<Rightarrow> Some (go t Idle s) | _ \<Rightarrow> None)
   | IntOwn u m \<Rightarrow> on_go ev (with_monitor t m s (\<lambda>M.
        Some (if lockCount M \<noteq> 0 then go t Aborted s else go t (InInterrupt (IntGot u m)) (set_monitor m (M\<lparr>owner := Some t\<rparr>) s))))
   | IntGot u m \<Rightarrow> on_go ev (with_monitor t m s (\<lambda>M.
        Some (go t (InUnlock (MonUnlock m False))
          (if waitMonitorOf s u = m \<and> interrupted s u \<and> \<not> interruptingWait s u
           then set_monitor m (M\<lparr>interrupting := interrupting M + 1\<rparr>) s\<lparr>interruptingWait := (interruptingWait s)(u := True)\<rparr>
           else s)))))"

definition at_rest :: "sync_pc \<Rightarrow> bool" where
  "at_rest p \<longleftrightarrow> p = Idle \<or> p = Failed"

definition step_call :: "u4 \<Rightarrow> event \<Rightarrow> sync \<Rightarrow> sync option" where
  "step_call t ev s = (case ev of
     CallLock \<Rightarrow> Some (go t (InLock LockCas) s)
   | CallUnlock \<Rightarrow> Some (go t (InUnlock UnlockTest) s)
   | CallWait msec nsec throws \<Rightarrow> Some (go t (InWait (WaitMon (\<not> (msec = 0 \<and> nsec = 0)) throws (\<not> (msec < 0 \<or> nsec < 0 \<or> nsec > 999999)))) s)
   | CallNotify \<Rightarrow> Some (go t (InNotify (NotifyMon False)) s)
   | CallNotifyAll \<Rightarrow> Some (go t (InNotify (NotifyMon True)) s)
   | CallInterrupt u \<Rightarrow> Some (go t (InInterrupt (IntMon u)) (s\<lparr>interrupted := (interrupted s)(u := True)\<rparr>))
   | _ \<Rightarrow> None)"

text \<open>One step of the thread \<open>t\<close>; \<open>None\<close> where the event cannot happen.\<close>

definition sync_step :: "u4 \<Rightarrow> event \<Rightarrow> sync \<Rightarrow> sync option" where
  "sync_step t ev s = (case pcs s t of
     Idle \<Rightarrow> step_call t ev s
   | Failed \<Rightarrow> step_call t ev s
   | Aborted \<Rightarrow> None
   | InLock p \<Rightarrow> step_lock t ev p s
   | InUnlock p \<Rightarrow> step_unlock t ev p s
   | InWait p \<Rightarrow> step_wait t ev p s
   | InNotify p \<Rightarrow> step_notify t ev p s
   | InInterrupt p \<Rightarrow> step_interrupt t ev p s)"

end
