(* ===== verification/SyncInv.thy ===== *)
theory SyncInv
  imports Sync
begin

text \<open>
  The invariant of the monitors: how the lock word, the monitor, the control points of the threads and the nesting depths of their clients
  belong together; and that a step of one thread leaves what another one relies on alone.
\<close>

section \<open>Words\<close>

definition valid_tid :: "u4 \<Rightarrow> bool" where
  "valid_tid t \<longleftrightarrow> odd t \<and> 1 < t \<and> t < 0x10000"

definition valid_addr :: "u8 \<Rightarrow> bool" where
  "valid_addr m \<longleftrightarrow> m \<noteq> 0 \<and> m AND 7 = 0"

lemma unat_low16: "unat (v AND 0xffff :: u4) = unat v mod 65536"
proof -
  have "v AND 0xffff = take_bit 16 v" by (simp add: take_bit_eq_mask mask_eq_exp_minus_1)
  moreover have "unat (take_bit 16 v) = take_bit 16 (unat v)" by (rule unsigned_take_bit_eq)
  ultimately show ?thesis by (simp add: take_bit_eq_mod)
qed

lemma and_1_iff: "(v :: 'a::len word) AND 1 = 0 \<longleftrightarrow> even v" by (simp add: and_one_eq even_iff_mod_2_eq_zero)

lemma odd_unat: "odd (v :: 'a::len word) \<longleftrightarrow> odd (unat v)"
  using bit_unsigned_iff [where 'a = nat, of v 0] by (simp add: bit_0)

lemma low16_odd: "odd (v AND 0xffff :: u4) \<longleftrightarrow> odd v"
  using bit_and_iff [of v "0xffff" 0] by (simp add: bit_0)

lemma thin_set_thin [simp]: "thin (set_thin w v) = v"
  by (rule bit_word_eqI) (simp add: thin_def set_thin_def bit_simps)

lemma set_thin_ucast [simp]: "set_thin (ucast (v0 :: u4)) v = ucast v"
  by (rule bit_word_eqI) (auto simp: set_thin_def bit_simps dest: bit_imp_le_length)

lemma thin_ucast [simp]: "thin (ucast v) = v"
  by (rule bit_word_eqI) (simp add: thin_def bit_simps)

lemma even_thin: "even (thin w) \<longleftrightarrow> even w"
  using bit_unsigned_iff [where 'a = "32 word", of w 0] by (simp add: thin_def bit_0)

lemma valid_addr_even: "valid_addr m \<Longrightarrow> even m \<and> m \<noteq> 0"
  using bit_and_iff [of m 7 0] by (auto simp: valid_addr_def bit_0)

lemma valid_tid_low16 [simp]: "valid_tid t \<Longrightarrow> t AND 0xffff = t"
  by (rule unsigned_word_eqI [where 'a = nat]) (auto simp: valid_tid_def unat_low16 word_less_nat_alt)

lemma count_add:
  assumes "unat v div 65536 < 65535"
  shows "unat (v + push_bit 16 1 :: u4) = unat v + 65536"
proof -
  have "unat v + 65536 < 2 ^ 32" using assms by (simp add: div_less_iff_less_mult)
  then show ?thesis by (simp add: push_bit_eq_mult unat_add_lem [THEN iffD1])
qed

lemma count_sub:
  assumes "65536 \<le> unat v"
  shows "unat (v - push_bit 16 1 :: u4) = unat v - 65536"
  using assms by (simp add: push_bit_eq_mult unat_sub word_le_nat_alt)


section \<open>Executions\<close>

text \<open>
  Thread identifiers are odd, greater than one and less than \<open>2\<^sup>1\<^sup>6\<close>; the allocator returns fresh aligned addresses; no thread nests a lock deeper than the
  16 bits of the count of a thin lock can express. When a thread aborts, nothing happens any more.
\<close>

definition event_ok :: "sync \<Rightarrow> u4 \<Rightarrow> event \<Rightarrow> bool" where
  "event_ok s t ev \<longleftrightarrow> (case ev of Alloc m \<Rightarrow> valid_addr m \<and> monitors s m = None | CallLock \<Rightarrow> depth s t < 65536 | _ \<Rightarrow> True)"

inductive sync_reachable :: "sync \<Rightarrow> bool" where
  initial: "sync_reachable sync_init"
| step: "sync_reachable s \<Longrightarrow> \<forall>u. pcs s u \<noteq> Aborted \<Longrightarrow> valid_tid t \<Longrightarrow> event_ok s t ev \<Longrightarrow> sync_step t ev s = Some s' \<Longrightarrow> sync_reachable s'"

section \<open>The invariant\<close>

abbreviation fat :: "sync \<Rightarrow> bool" where "fat s \<equiv> even (lockw s)"

text \<open>The thread that has the thin lock or the mutex, and the number of times the lock is taken.\<close>

definition holder :: "sync \<Rightarrow> u4 option" where
  "holder s = (if fat s then (case monitors s (lockw s) of None \<Rightarrow> None | Some M \<Rightarrow> mutex M)
     else if thin (lockw s) = 1 then None else Some (thin (lockw s) AND 0xffff))"

definition units :: "sync \<Rightarrow> nat" where
  "units s = (if fat s then (case monitors s (lockw s) of None \<Rightarrow> 0 | Some M \<Rightarrow> if owner M = None then 0 else nat (lockCount M) + 1)
     else if thin (lockw s) = 1 then 0 else unat (thin (lockw s)) div 65536 + 1)"

text \<open>Control points with the mutex but without being the owner, and control points asleep without the mutex.\<close>

definition inside :: "sync_pc \<Rightarrow> bool" where
  "inside p \<longleftrightarrow> (case p of InLock (MonOwn _) \<Rightarrow> True | InInterrupt (IntOwn _ _) \<Rightarrow> True | InUnlock (MonRelease _ _) \<Rightarrow> True | InWait (WaitBegin _ _ _ _) \<Rightarrow> True
     | InWait (WaitCheck _ _ _ _ _) \<Rightarrow> True | InWait (WaitDone _ _ _ _) \<Rightarrow> True | _ \<Rightarrow> False)"

definition asleep :: "sync_pc \<Rightarrow> bool" where
  "asleep p \<longleftrightarrow> (case p of InWait (WaitSleep _ _ _ _) \<Rightarrow> True | InWait (WaitWoken _ _ _ _ _) \<Rightarrow> True | _ \<Rightarrow> False)"

text \<open>The units a thread has when it is neither: those of its client, and one taken for fattening or an interrupt.\<close>

definition extra :: "sync_pc \<Rightarrow> nat" where
  "extra p = (case p of InLock Fatten \<Rightarrow> 1 | InInterrupt (IntGot _ _) \<Rightarrow> 1 | InUnlock (MonUnlock _ k) \<Rightarrow> (if k then 0 else 1)
     | InUnlock (MonClear _ k) \<Rightarrow> (if k then 0 else 1) | _ \<Rightarrow> 0)"

definition share :: "sync \<Rightarrow> u4 \<Rightarrow> nat" where
  "share s t = (if inside (pcs s t) \<or> asleep (pcs s t) then 0 else depth s t + extra (pcs s t))"

text \<open>The monitor a control point refers to, and one it may have read before the lock became fat.\<close>

definition mon_ref :: "sync_pc \<Rightarrow> u8 option" where
  "mon_ref p = (case p of InLock (MonTest m) \<Rightarrow> Some m | InLock (MonMutex m) \<Rightarrow> Some m | InLock (MonOwn m) \<Rightarrow> Some m | InUnlock (MonUnlock m _) \<Rightarrow> Some m | InUnlock (MonClear m _) \<Rightarrow> Some m
     | InUnlock (MonRelease m _) \<Rightarrow> Some m | InWait (WaitBegin m _ _ _) \<Rightarrow> Some m | InWait (WaitSleep m _ _ _) \<Rightarrow> Some m | InWait (WaitWoken m _ _ _ _) \<Rightarrow> Some m
     | InWait (WaitCheck m _ _ _ _) \<Rightarrow> Some m | InWait (WaitDone m _ _ _) \<Rightarrow> Some m | InInterrupt (IntTry _ m) \<Rightarrow> Some m | InInterrupt (IntRetry _ m) \<Rightarrow> Some m | InInterrupt (IntOwn _ m) \<Rightarrow> Some m
     | InInterrupt (IntGot _ m) \<Rightarrow> Some m | _ \<Rightarrow> None)"

definition read_ref :: "sync_pc \<Rightarrow> u8 option" where
  "read_ref p = (case p of InWait (WaitThin m _ _ _) \<Rightarrow> Some m | InWait (WaitTest m _ _ _) \<Rightarrow> Some m | InNotify (NotifyThin m _) \<Rightarrow> Some m | InNotify (NotifyTest m _) \<Rightarrow> Some m | _ \<Rightarrow> None)"

text \<open>What a thread in the middle of an operation on a thin lock knows of it.\<close>

definition thin_ok :: "sync \<Rightarrow> u4 \<Rightarrow> bool" where
  "thin_ok s t \<longleftrightarrow> (case pcs s t of
     InLock LockAdd \<Rightarrow> odd (lockw s) \<and> holder s = Some t
   | InLock (LockBump v) \<Rightarrow> odd (lockw s) \<and> holder s = Some t \<and> v = thin (lockw s)
   | InLock Fatten \<Rightarrow> odd (lockw s) \<and> holder s = Some t \<and> thin (lockw s) = t
   | InUnlock UnlockStore \<Rightarrow> odd (lockw s) \<and> holder s = Some t \<and> thin (lockw s) = t
   | InUnlock UnlockSub \<Rightarrow> odd (lockw s) \<and> holder s = Some t \<and> thin (lockw s) \<noteq> t
   | InUnlock (UnlockDec v) \<Rightarrow> odd (lockw s) \<and> holder s = Some t \<and> thin (lockw s) \<noteq> t \<and> v = thin (lockw s)
   | InWait (WaitPublish m _ _ _) \<Rightarrow> odd (lockw s) \<and> holder s = Some t \<and> valid_addr m
       \<and> monitors s m = Some (new_monitor\<lparr>owner := Some t, mutex := Some t, lockCount := int (units s) - 1\<rparr>)
   | InLock LockKind \<Rightarrow> fat s \<or> depth s t = 0
   | InLock FatLock \<Rightarrow> fat s
   | InUnlock UnlockKind \<Rightarrow> holder s = Some t \<longrightarrow> thin (lockw s) \<noteq> t
   | InUnlock UnlockMine \<Rightarrow> holder s = Some t \<longrightarrow> odd (lockw s) \<and> thin (lockw s) \<noteq> t
   | InUnlock UnlockFat \<Rightarrow> fat s
   | _ \<Rightarrow> True)"

text \<open>What the nesting depth of the client is at certain control points.\<close>

definition depth_ok :: "sync_pc \<Rightarrow> nat \<Rightarrow> bool" where
  "depth_ok p d \<longleftrightarrow> (case p of InLock (MonMutex _) \<Rightarrow> d = 0 | InLock (MonOwn _) \<Rightarrow> d = 0 | InInterrupt (IntOwn _ _) \<Rightarrow> d = 0 | InLock SpinTest \<Rightarrow> d = 0 | InLock SpinFat \<Rightarrow> d = 0 | InLock SpinCas \<Rightarrow> d = 0 | InLock Fatten \<Rightarrow> d = 0
     | InLock LockCas \<Rightarrow> d < 65536 | InLock LockMine \<Rightarrow> d < 65536 | InLock LockAdd \<Rightarrow> d < 65536 | InLock (LockBump _) \<Rightarrow> d < 65536
     | InUnlock (MonClear _ k) \<Rightarrow> d = (if k then 1 else 0) | InUnlock (MonRelease _ k) \<Rightarrow> d = (if k then 1 else 0)
     | InWait (WaitBegin _ _ _ n) \<Rightarrow> n + 1 = int d \<and> 0 \<le> n | InWait (WaitSleep _ _ _ n) \<Rightarrow> n + 1 = int d \<and> 0 \<le> n | InWait (WaitWoken _ _ _ n _) \<Rightarrow> n + 1 = int d \<and> 0 \<le> n
     | InWait (WaitCheck _ _ _ n _) \<Rightarrow> n + 1 = int d \<and> 0 \<le> n | InWait (WaitDone _ _ n _) \<Rightarrow> n + 1 = int d \<and> 0 \<le> n | _ \<Rightarrow> True)"


definition holding :: "sync \<Rightarrow> u4 \<Rightarrow> bool" where
  "holding s t \<longleftrightarrow> (if holder s = Some t then (if inside (pcs s t) then units s = 0 else units s = share s t \<and> 0 < units s)
     else share s t = 0 \<and> \<not> inside (pcs s t))"

definition thread_ok :: "sync \<Rightarrow> u4 \<Rightarrow> bool" where
  "thread_ok s t \<longleftrightarrow> (\<forall>m. mon_ref (pcs s t) = Some m \<longrightarrow> fat s \<and> m = lockw s)
     \<and> (\<forall>m. read_ref (pcs s t) = Some m \<longrightarrow> m = 0 \<or> odd m \<or> fat s \<and> m = lockw s)
     \<and> thin_ok s t \<and> depth_ok (pcs s t) (depth s t) \<and> holding s t"

definition monitor_ok :: "Monitor \<Rightarrow> bool" where
  "monitor_ok M \<longleftrightarrow> 0 \<le> lockCount M \<and> (owner M = None \<longrightarrow> lockCount M = 0) \<and> (owner M \<noteq> None \<longrightarrow> mutex M = owner M)"

definition word_ok :: "sync \<Rightarrow> bool" where
  "word_ok s \<longleftrightarrow> (if fat s then lockw s \<noteq> 0 \<and> (\<exists>M. monitors s (lockw s) = Some M \<and> monitor_ok M)
       else lockw s = ucast (thin (lockw s)) \<and> (thin (lockw s) = 1 \<or> valid_tid (thin (lockw s) AND 0xffff)))
     \<and> (\<forall>u. waitMonitorOf s u = 0 \<or> fat s \<and> waitMonitorOf s u = lockw s)"

definition sync_inv :: "sync \<Rightarrow> bool" where
  "sync_inv s \<longleftrightarrow> word_ok s \<and> (\<forall>t. thread_ok s t)"

lemma sync_inv_init: "sync_inv sync_init"
proof -
  have w: "lockw sync_init = 1" "thin (lockw sync_init) = 1" by (simp_all add: sync_init_def DVM_LOCK_INITIAL_THIN_VALUE_def thin_def)
  then show ?thesis
    by (simp add: sync_inv_def word_ok_def thread_ok_def holding_def holder_def share_def thin_ok_def)
       (simp add: sync_init_def mon_ref_def read_ref_def depth_ok_def inside_def asleep_def extra_def)
qed

text \<open>A step of \<open>t\<close> leaves the other threads alone when it does not touch the lock, or when no other thread has it.\<close>

definition others_kept :: "u4 \<Rightarrow> sync \<Rightarrow> sync \<Rightarrow> bool" where
  "others_kept t s s' \<longleftrightarrow> (\<forall>u. u \<noteq> t \<longrightarrow> pcs s' u = pcs s u \<and> depth s' u = depth s u)"

definition lock_untouched :: "sync \<Rightarrow> sync \<Rightarrow> bool" where
  "lock_untouched s s' \<longleftrightarrow> lockw s' = lockw s \<and> monitors s' = monitors s"

definition lock_changed :: "u4 \<Rightarrow> sync \<Rightarrow> sync \<Rightarrow> bool" where
  "lock_changed t s s' \<longleftrightarrow> holder s \<in> {None, Some t} \<and> holder s' \<in> {None, Some t} \<and> (fat s \<longrightarrow> lockw s' = lockw s)"

lemma other_thread_ok:
  assumes ok: "thread_ok s u" and u: "u \<noteq> t" and o: "others_kept t s s'" and l: "lock_untouched s s' \<or> lock_changed t s s'"
  shows "thread_ok s' u"
proof -
  have same: "pcs s' u = pcs s u" "depth s' u = depth s u" using o u by (simp_all add: others_kept_def)
  show ?thesis
  proof (cases "lock_untouched s s'")
    case True
    then have eqs: "holder s' = holder s" "units s' = units s" "lockw s' = lockw s" "monitors s' = monitors s"
      by (simp_all add: lock_untouched_def holder_def units_def)
    show ?thesis using ok unfolding thread_ok_def holding_def share_def thin_ok_def same eqs .
  next
    case False
    then have c: "holder s \<noteq> Some u" "holder s' \<noteq> Some u" "fat s \<longrightarrow> lockw s' = lockw s" using l u by (auto simp: lock_changed_def)
    have h: "share s u = 0" "\<not> inside (pcs s u)" using ok c(1) by (auto simp: thread_ok_def holding_def)
    have th: "thin_ok s' u"
      using ok c unfolding thread_ok_def thin_ok_def same
      by (auto split: sync_pc.splits lock_pc.splits unlock_pc.splits wait_pc.splits)
    show ?thesis
      using ok c h th unfolding thread_ok_def same holding_def by (auto simp: share_def same)
  qed
qed

lemma sync_inv_step:
  assumes "sync_inv s" and "others_kept t s s'" and "lock_untouched s s' \<or> lock_changed t s s'" and "word_ok s'" and "thread_ok s' t"
  shows "sync_inv s'"
  using assms other_thread_ok [OF _ _ assms(2,3)] unfolding sync_inv_def by metis

end
