(* ===== verification/SyncMutex.thy ===== *)
theory SyncMutex
  imports SyncInv
begin

text \<open>
  Every step of every operation keeps the invariant of the monitors, and with it mutual exclusion; and an execution that stops the machine.
\<close>

lemmas sync_ops = go_def set_monitor_def set_depth_def store_thin_def locked_def unlocked_def

lemmas pc_tables = inside_def asleep_def extra_def mon_ref_def read_ref_def depth_ok_def thin_ok_def

lemma others_kept_ops [simp]:
  "others_kept t s (go t p s') \<longleftrightarrow> others_kept t s s'" "others_kept t s (set_monitor m M s') \<longleftrightarrow> others_kept t s s'"
  "others_kept t s (set_depth t n s') \<longleftrightarrow> others_kept t s s'" "others_kept t s (store_thin v s') \<longleftrightarrow> others_kept t s s'"
  "others_kept t s (locked t s') \<longleftrightarrow> others_kept t s s'" "others_kept t s (unlocked t k s') \<longleftrightarrow> others_kept t s s'"
  "others_kept t s s"
  by (auto simp: others_kept_def sync_ops)

lemma go_fields [simp]:
  "pcs (go t p s) u = (if u = t then p else pcs s u)" "lockw (go t p s) = lockw s" "monitors (go t p s) = monitors s" "depth (go t p s) = depth s"
  "waitMonitorOf (go t p s) = waitMonitorOf s" "holder (go t p s) = holder s" "units (go t p s) = units s"
  by (simp_all add: go_def holder_def units_def)

lemma set_monitor_fields [simp]:
  "pcs (set_monitor m M s) = pcs s" "lockw (set_monitor m M s) = lockw s" "monitors (set_monitor m M s) = (monitors s)(m \<mapsto> M)"
  "depth (set_monitor m M s) = depth s" "waitMonitorOf (set_monitor m M s) = waitMonitorOf s"
  by (simp_all add: set_monitor_def)

lemma set_depth_fields [simp]:
  "pcs (set_depth t n s) = pcs s" "lockw (set_depth t n s) = lockw s" "monitors (set_depth t n s) = monitors s"
  "depth (set_depth t n s) u = (if u = t then n else depth s u)" "waitMonitorOf (set_depth t n s) = waitMonitorOf s"
  "holder (set_depth t n s) = holder s" "units (set_depth t n s) = units s"
  by (simp_all add: set_depth_def holder_def units_def)

lemma store_thin_fields [simp]:
  "pcs (store_thin v s) = pcs s" "lockw (store_thin v s) = set_thin (lockw s) v" "monitors (store_thin v s) = monitors s"
  "depth (store_thin v s) = depth s" "waitMonitorOf (store_thin v s) = waitMonitorOf s"
  by (simp_all add: store_thin_def)

lemma new_monitor_fields [simp]:
  "owner new_monitor = None" "lockCount new_monitor = 0" "mutex new_monitor = None"
  by (simp_all add: new_monitor_def)

lemma inv_thread: "sync_inv s \<Longrightarrow> thread_ok s t" "sync_inv s \<Longrightarrow> word_ok s"
  by (simp_all add: sync_inv_def)

text \<open>The fields that only concern interrupts do not matter.\<close>

lemma inv_interrupt_fields [simp]:
  "sync_inv (s\<lparr>interrupted := f\<rparr>) \<longleftrightarrow> sync_inv s" "sync_inv (s\<lparr>interruptingWait := f\<rparr>) \<longleftrightarrow> sync_inv s"
  by (simp_all add: sync_inv_def word_ok_def thread_ok_def holding_def holder_def units_def share_def thin_ok_def
      cong: sync_pc.case_cong lock_pc.case_cong unlock_pc.case_cong wait_pc.case_cong)

text \<open>A step that only moves the control point.\<close>

lemma inv_go:
  assumes inv: "sync_inv s"
    and p: "inside p = inside (pcs s t)" "asleep p \<or> inside p \<or> extra p = extra (pcs s t) \<and> \<not> asleep (pcs s t)"  "asleep p = asleep (pcs s t)"
    and refs: "\<And>m. mon_ref p = Some m \<Longrightarrow> fat s \<and> m = lockw s" "\<And>m. read_ref p = Some m \<Longrightarrow> m = 0 \<or> odd m \<or> fat s \<and> m = lockw s"
    and ok: "thin_ok (go t p s) t" "depth_ok p (depth s t)"
  shows "sync_inv (go t p s)"
proof (rule sync_inv_step [OF inv])
  show "lock_untouched s (go t p s) \<or> lock_changed t s (go t p s)" by (simp add: lock_untouched_def)
  show "word_ok (go t p s)" using inv_thread(2) [OF inv] by (simp add: word_ok_def)
  have "share (go t p s) t = share s t" using p by (auto simp: share_def)
  then have "holding (go t p s) t"
    using inv_thread(1) [OF inv, of t] p(1) by (auto simp: thread_ok_def holding_def)
  then show "thread_ok (go t p s) t"
    using refs ok unfolding thread_ok_def by auto
qed simp

lemma step_call_inv:
  assumes inv: "sync_inv s" and t: "pcs s t = Idle \<or> pcs s t = Failed" and ev: "event_ok s t ev" and s': "step_call t ev s = Some s'"
  shows "sync_inv s'"
  using t ev s' inv unfolding step_call_def
  by (cases ev) (auto intro!: inv_go simp: pc_tables event_ok_def)


lemma set_depth_same [simp]: "set_depth t (depth s t) s = s"
  by (simp add: set_depth_def)

lemma lockw_update [simp]: "lockw (s\<lparr>waitMonitorOf := f\<rparr>) = lockw s" by simp

lemma inv_wait_field:
  assumes inv: "sync_inv s" and m: "m = 0 \<or> fat s \<and> m = lockw s"
  shows "sync_inv (s\<lparr>waitMonitorOf := (waitMonitorOf s)(t := m)\<rparr>)" (is "sync_inv ?s")
proof -
  have "thread_ok ?s u = thread_ok s u" for u
    by (simp add: thread_ok_def holding_def holder_def units_def share_def thin_ok_def
      cong: sync_pc.case_cong lock_pc.case_cong unlock_pc.case_cong wait_pc.case_cong)
  moreover have "word_ok ?s" using inv m by (auto simp: sync_inv_def word_ok_def)
  ultimately show ?thesis using inv by (simp add: sync_inv_def)
qed

text \<open>A write to a thin lock by its holder, or to a free one.\<close>

lemma inv_store:
  assumes inv: "sync_inv s" and w: "odd (lockw s)" "holder s \<in> {None, Some t}" and t: "valid_tid t"
    and v: "odd v" "v = 1 \<or> v AND 0xffff = t" "(if v = 1 then 0 else unat v div 65536 + 1) = d + extra p"
    and p: "\<not> inside p" "\<not> asleep p" "mon_ref p = None" "read_ref p = None" "depth_ok p d"
    and ok: "thin_ok (go t p (set_depth t d (store_thin v s))) t"
  shows "sync_inv (go t p (set_depth t d (store_thin v s)))" (is "sync_inv ?s")
proof (rule sync_inv_step [OF inv])
  have "lockw s = ucast (thin (lockw s))" using inv_thread(2) [OF inv] w(1) by (simp add: word_ok_def)
  then have lw: "set_thin (lockw s) v = ucast v" using set_thin_ucast [of "thin (lockw s)" v] by simp
  have odd: "odd (ucast v :: u8)" using v(1) even_thin [of "ucast v"] by simp
  have hold: "holder ?s = (if v = 1 then None else Some t)" "units ?s = (if v = 1 then 0 else unat v div 65536 + 1)"
    using odd v(2) by (auto simp: holder_def units_def lw)
  show "lock_untouched s ?s \<or> lock_changed t s ?s" using w hold by (simp add: lock_changed_def)
  show "word_ok ?s" using inv_thread(2) [OF inv] odd w(1) v(2) t unfolding word_ok_def by (auto simp: lw)
  have "share ?s t = d + extra p" using p by (simp add: share_def)
  then have "holding ?s t" using hold v(3) p(1) by (auto simp: holding_def)
  then show "thread_ok ?s t" using p ok by (simp add: thread_ok_def)
qed simp

text \<open>A write to the monitor of a fat lock by the thread with the mutex, or taking it.\<close>

lemma inv_monitor:
  assumes inv: "sync_inv s" and w: "fat s" "monitors s (lockw s) = Some M" "mutex M \<in> {None, Some t}"
    and M': "mutex M' \<in> {None, Some t}" "monitor_ok M'"
    and share: "if mutex M' = Some t then (if inside p then owner M' = None else owner M' = Some t \<and> \<not> asleep p \<and> nat (lockCount M') + 1 = d + extra p)
      else \<not> inside p \<and> (asleep p \<or> d + extra p = 0)"
    and p: "\<And>m. mon_ref p = Some m \<Longrightarrow> m = lockw s" "read_ref p = None" "depth_ok p d"
    and ok: "thin_ok (go t p (set_depth t d (set_monitor (lockw s) M' s))) t"
  shows "sync_inv (go t p (set_depth t d (set_monitor (lockw s) M' s)))" (is "sync_inv ?s")
proof (rule sync_inv_step [OF inv])
  have hold: "holder s = mutex M" "holder ?s = mutex M'" "units ?s = (if owner M' = None then 0 else nat (lockCount M') + 1)"
    using w by (simp_all add: holder_def units_def)
  show "lock_untouched s ?s \<or> lock_changed t s ?s" using w M' hold by (simp add: lock_changed_def)
  show "word_ok ?s" using inv_thread(2) [OF inv] w M' by (simp add: word_ok_def)
  have "share ?s t = (if inside p \<or> asleep p then 0 else d + extra p)" by (simp add: share_def)
  then have "holding ?s t" using hold share by (auto simp: holding_def split: if_splits)
  then show "thread_ok ?s t" using p w ok by (auto simp: thread_ok_def)
qed simp

lemma inv_monitor_go:
  assumes inv: "sync_inv s" and w: "fat s" "monitors s (lockw s) = Some M" "mutex M \<in> {None, Some t}"
    and M': "mutex M' \<in> {None, Some t}" "monitor_ok M'"
    and share: "if mutex M' = Some t then (if inside p then owner M' = None else owner M' = Some t \<and> \<not> asleep p \<and> nat (lockCount M') + 1 = depth s t + extra p)
      else \<not> inside p \<and> (asleep p \<or> depth s t + extra p = 0)"
    and p: "\<And>m. mon_ref p = Some m \<Longrightarrow> m = lockw s" "read_ref p = None" "depth_ok p (depth s t)"
    and ok: "thin_ok (go t p (set_monitor (lockw s) M' s)) t"
  shows "sync_inv (go t p (set_monitor (lockw s) M' s))"
proof -
  have d: "set_depth t (depth s t) (set_monitor (lockw s) M' s) = set_monitor (lockw s) M' s"
    using set_depth_same [of t "set_monitor (lockw s) M' s"] by simp
  show ?thesis using inv_monitor [OF inv w M' share p] ok unfolding d by simp
qed

text \<open>The holder of a thin lock makes it fat.\<close>

lemma inv_fatten:
  assumes inv: "sync_inv s" and w: "odd (lockw s)" "holder s = Some t" and m: "valid_addr m" "monitors s' m = Some M" "monitor_ok M" "mutex M \<in> {None, Some t}"
    and s': "lockw s' = m" "others_kept t s s'" "waitMonitorOf s' = waitMonitorOf s"
    and share: "if mutex M = Some t then owner M = Some t \<and> nat (lockCount M) + 1 = depth s' t + extra (pcs s' t) else depth s' t + extra (pcs s' t) = 0"
    and p: "\<not> inside (pcs s' t)" "\<not> asleep (pcs s' t)" "mon_ref (pcs s' t) = None" "read_ref (pcs s' t) \<in> {None, Some m}" "depth_ok (pcs s' t) (depth s' t)" "thin_ok s' t"
  shows "sync_inv s'"
proof (rule sync_inv_step [OF inv s'(2)])
  have fat: "fat s'" using valid_addr_even [OF m(1)] s' by simp
  have hold: "holder s' = mutex M" "units s' = (if owner M = None then 0 else nat (lockCount M) + 1)"
    using fat s' m by (simp_all add: holder_def units_def)
  show "lock_untouched s s' \<or> lock_changed t s s'" using w m hold by (auto simp: lock_changed_def)
  show "word_ok s'" using inv_thread(2) [OF inv] valid_addr_even [OF m(1)] w m s' by (auto simp: word_ok_def)
  have "share s' t = depth s' t + extra (pcs s' t)" using p by (simp add: share_def)
  then have "holding s' t" using hold share p by (auto simp: holding_def split: if_splits)
  then show "thread_ok s' t" using p fat s' by (auto simp: thread_ok_def)
qed


section \<open>Every step keeps the invariant\<close>

lemma thin_facts:
  assumes "sync_inv s" and "odd (lockw s)"
  shows "lockw s = ucast (thin (lockw s))" "odd (thin (lockw s))" "thin (lockw s) = 1 \<or> valid_tid (thin (lockw s) AND 0xffff)"
    "holder s = (if thin (lockw s) = 1 then None else Some (thin (lockw s) AND 0xffff))"
    "units s = (if thin (lockw s) = 1 then 0 else unat (thin (lockw s)) div 65536 + 1)"
  using assms by (auto simp: sync_inv_def word_ok_def even_thin holder_def units_def)

lemma fat_facts:
  assumes "sync_inv s" and "fat s"
  obtains M where "monitors s (lockw s) = Some M" "monitor_ok M" "lockw s \<noteq> 0" "holder s = mutex M"
    "units s = (if owner M = None then 0 else nat (lockCount M) + 1)"
  using assms by (auto simp: sync_inv_def word_ok_def holder_def units_def)

lemma thread_facts:
  assumes "sync_inv s"
  shows "mon_ref (pcs s t) = Some m \<Longrightarrow> fat s \<and> m = lockw s" "read_ref (pcs s t) = Some m \<Longrightarrow> m = 0 \<or> odd m \<or> fat s \<and> m = lockw s"
    "thin_ok s t" "depth_ok (pcs s t) (depth s t)"
    "holder s \<noteq> Some t \<Longrightarrow> share s t = 0 \<and> \<not> inside (pcs s t)"
    "holder s = Some t \<Longrightarrow> inside (pcs s t) \<Longrightarrow> units s = 0" "holder s = Some t \<Longrightarrow> \<not> inside (pcs s t) \<Longrightarrow> units s = share s t \<and> 0 < units s"
  using inv_thread(1) [OF assms, of t] by (auto simp: thread_ok_def holding_def)

text \<open>A thread at an ordinary control point: it is the holder exactly when it has units.\<close>

lemma share_facts:
  assumes inv: "sync_inv s" and p: "\<not> inside (pcs s t)" "\<not> asleep (pcs s t)"
  shows "share s t = depth s t + extra (pcs s t)" "holder s = Some t \<longleftrightarrow> 0 < depth s t + extra (pcs s t)"
    "holder s = Some t \<Longrightarrow> units s = depth s t + extra (pcs s t)"
proof -
  show *: "share s t = depth s t + extra (pcs s t)" using p by (simp add: share_def)
  show "holder s = Some t \<longleftrightarrow> 0 < depth s t + extra (pcs s t)" "holder s = Some t \<Longrightarrow> units s = depth s t + extra (pcs s t)"
    using thread_facts(5,7) [OF inv, of t] p * by (cases "holder s = Some t"; auto)+
qed

lemma valid_tid_facts:
  assumes "valid_tid t"
  shows "odd t" "t \<noteq> 1" "unat t div 65536 = 0" "odd (ucast t :: u8)"
  using assms even_thin [of "ucast t"] by (auto simp: valid_tid_def word_less_nat_alt)

lemma add_count:
  assumes "odd v" and "unat v div 65536 < 65535"
  shows "odd (v + push_bit 16 1 :: u4)" "v + push_bit 16 1 \<noteq> 1" "(v + push_bit 16 1) AND 0xffff = v AND 0xffff"
    "unat (v + push_bit 16 1) div 65536 = unat v div 65536 + 1"
proof -
  note c = count_add [OF assms(2)]
  show "odd (v + push_bit 16 1)" using assms(1) c by (simp add: odd_unat)
  show "v + push_bit 16 1 \<noteq> 1"
  proof
    assume "v + push_bit 16 1 = 1"
    then have "unat (v + push_bit 16 1) = 1" by (simp only: unsigned_1)
    then show False using c by simp
  qed
  show "(v + push_bit 16 1) AND 0xffff = v AND 0xffff" by (rule unsigned_word_eqI [where 'a = nat]) (simp only: unat_low16 c mod_add_self2)
  show "unat (v + push_bit 16 1) div 65536 = unat v div 65536 + 1" using c by simp
qed

lemma sub_count:
  assumes "odd v" and "65536 \<le> unat v"
  shows "odd (v - push_bit 16 1 :: u4)" "(v - push_bit 16 1) AND 0xffff = v AND 0xffff"
    "unat (v - push_bit 16 1) div 65536 = unat v div 65536 - 1"
proof -
  note c = count_sub [OF assms(2)]
  show "odd (v - push_bit 16 1)" using assms c by (simp add: odd_unat)
  show "(v - push_bit 16 1) AND 0xffff = v AND 0xffff"
    by (rule unsigned_word_eqI [where 'a = nat]) (simp only: unat_low16 c le_mod_geq [OF assms(2)])
  show "unat (v - push_bit 16 1) div 65536 = unat v div 65536 - 1" using le_div_geq [of 65536 "unat v"] assms(2) by (simp only: c)
qed


lemma lock_monitor_inv:
  assumes inv: "sync_inv s" and p: "pcs s t = InLock p" "p = MonTest m \<or> p = MonMutex m \<or> p = MonOwn m" and s': "step_lock_monitor t ev p s = Some s'"
  shows "sync_inv s'"
proof -
  have m: "fat s" "m = lockw s" using thread_facts(1) [OF inv, of t m] p by (auto simp: mon_ref_def)
  obtain M where M: "monitors s (lockw s) = Some M" "monitor_ok M" "lockw s \<noteq> 0" "holder s = mutex M"
    "units s = (if owner M = None then 0 else nat (lockCount M) + 1)" using fat_facts [OF inv m(1)] by blast
  note D = thread_facts(4) [OF inv, of t] and MO = M(2) [unfolded monitor_ok_def]
  note S = s' [unfolded step_lock_monitor_def on_go_def with_monitor_def m(2) M(1)]
  from p(2) show ?thesis
  proof (elim disjE)
    assume q: "p = MonTest m"
    note F = share_facts [OF inv, of t, unfolded p(1) q, simplified pc_tables, simplified]
    show ?thesis
    proof (cases "owner M = Some t")
      case True
      then have "s' = go t Idle (set_depth t (depth s t + 1) (set_monitor (lockw s) (M\<lparr>lockCount := lockCount M + 1\<rparr>) s))"
        using s' q m(2) M(1) by (simp add: step_lock_monitor_def on_go_def with_monitor_def locked_def split: if_splits)
      then show ?thesis
        using True MO M F by (auto intro!: inv_monitor [OF inv m(1) M(1)] simp: monitor_ok_def pc_tables)
    next
      case False
      then have "s' = go t (InLock (MonMutex (lockw s))) s"
        using s' q m(2) M(1) by (simp add: step_lock_monitor_def on_go_def with_monitor_def split: if_splits)
      moreover have "depth s t = 0" using F M MO False by (auto split: if_splits)
      ultimately show ?thesis using p(1) q m by (auto intro!: inv_go [OF inv] simp: pc_tables)
    qed
  next
    assume q: "p = MonMutex m"
    then have "s' = go t (InLock (MonOwn (lockw s))) (set_monitor (lockw s) (M\<lparr>mutex := Some t\<rparr>) s)" "mutex M = None"
      using s' m(2) M(1) by (auto simp: step_lock_monitor_def on_go_def with_monitor_def split: if_splits)
    then show ?thesis
      using MO M D p(1) q by (auto intro!: inv_monitor_go [OF inv m(1) M(1)] simp: monitor_ok_def pc_tables)
  next
    assume q: "p = MonOwn m"
    have h: "holder s = Some t" "units s = 0"
      using thread_facts(5,6) [OF inv, of t] p(1) q by (auto simp: inside_def)
    then have f: "mutex M = Some t" "owner M = None" "lockCount M = 0" using M MO by (auto split: if_splits)
    then have "s' = go t Idle (set_depth t (depth s t + 1) (set_monitor (lockw s) (M\<lparr>owner := Some t\<rparr>) s))"
      using s' q m(2) M(1) by (simp add: step_lock_monitor_def on_go_def with_monitor_def locked_def split: if_splits)
    then show ?thesis
      using f D p(1) q by (auto intro!: inv_monitor [OF inv m(1) M(1)] simp: monitor_ok_def pc_tables)
  qed
qed


lemma store_holder:
  assumes "sync_inv s" and "odd (lockw s)" and "odd v"
  shows "set_thin (lockw s) v = ucast v" "holder (store_thin v s) = (if v = 1 then None else Some (v AND 0xffff))"
proof -
  show *: "set_thin (lockw s) v = ucast v" using thin_facts(1) [OF assms(1,2)] set_thin_ucast [of "thin (lockw s)" v] by simp
  have "odd (ucast v :: u8)" using assms(3) even_thin [of "ucast v"] by simp
  then show "holder (store_thin v s) = (if v = 1 then None else Some (v AND 0xffff))" by (simp add: holder_def *)
qed

lemma step_lock_inv:
  assumes inv: "sync_inv s" and t: "valid_tid t" and ev: "event_ok s t ev" and p: "pcs s t = InLock p" and s': "step_lock t ev p s = Some s'"
  shows "sync_inv s'"
proof -
  note T = valid_tid_facts [OF t] and D = thread_facts(4) [OF inv, of t] and K = thread_facts(3) [OF inv, of t]
  note S = s' [unfolded step_lock_def Let_def on_go_def DVM_LOCK_INITIAL_THIN_VALUE_def]
  let ?v = "thin (lockw s)"
  have go: "sync_inv (go t (InLock q) s)" if "p \<noteq> Fatten" "q \<noteq> Fatten" "\<forall>m. p \<noteq> MonOwn m \<and> q \<noteq> MonOwn m"
    "\<And>m. mon_ref (InLock q) = Some m \<Longrightarrow> fat s \<and> m = lockw s" "thin_ok (go t (InLock q) s) t" "depth_ok (InLock q) (depth s t)" for q
    by (rule inv_go [OF inv])
      (use that p in \<open>auto simp: inside_def asleep_def extra_def read_ref_def split: lock_pc.splits\<close>)
  have free: "odd (lockw s) \<and> holder s = None \<and> depth s t = 0" if "?v = 1" "\<not> inside (InLock p)"
  proof -
    have o: "odd (lockw s)" using that even_thin [of "lockw s"] by simp
    then have "holder s = None" using thin_facts(4) [OF inv o] that by simp
    then show ?thesis using o thread_facts(5) [OF inv, of t] p that by (simp add: share_def asleep_def)
  qed
  show ?thesis
  proof (cases p)
    case LockCas
    show ?thesis
    proof (cases "?v = 1")
      case True
      have "s' = go t Idle (set_depth t (depth s t + 1) (store_thin t s))" using S LockCas True by (simp add: locked_def split: if_splits)
      then show ?thesis
        using free [OF True] LockCas T t by (auto intro!: inv_store [OF inv] simp: pc_tables)
    next
      case False
      then have "s' = go t (InLock LockMine) s" using S LockCas by (simp split: if_splits)
      then show ?thesis using D p LockCas by (auto intro!: go simp: pc_tables)
    qed
  next
    case LockMine
    then have s': "s' = go t (if ?v AND 0xffff = t then InLock LockAdd else InLock LockKind) s" using S by (simp split: if_splits)
    show ?thesis
    proof (cases "?v AND 0xffff = t")
      case True
      then have o: "odd (lockw s)" using T(1) low16_odd [of ?v] even_thin by blast
      then have "holder s = Some t" using thin_facts(4) [OF inv o] True T(2) by auto
      moreover have "s' = go t (InLock LockAdd) s" using s' True by simp
      ultimately show ?thesis using o D p LockMine by (simp, intro go) (simp_all add: pc_tables)
    next
      case False
      then have "fat s \<or> depth s t = 0"
        using thin_facts(4) [OF inv] share_facts(2) [OF inv, of t] p LockMine by (cases "fat s") (auto simp: pc_tables split: if_splits)
      then show ?thesis using s' False LockMine by (auto intro!: go simp: pc_tables)
    qed
  next
    case LockAdd
    then have "s' = go t (InLock (LockBump ?v)) s" using S by (simp split: if_splits)
    then show ?thesis using D K p LockAdd by (auto intro!: go simp: pc_tables)
  next
    case (LockBump v)
    then have s': "s' = go t Idle (set_depth t (depth s t + 1) (store_thin (v + push_bit 16 1) s))" using S by (simp add: locked_def split: if_splits)
    have k: "odd (lockw s)" "holder s = Some t" "v = ?v" "depth s t < 65536" using K D p LockBump by (simp_all add: thin_ok_def depth_ok_def)
    note F = thin_facts [OF inv k(1)]
    have v: "v \<noteq> 1" "v AND 0xffff = t" "odd v" using F(2,4) k(2,3) by (auto split: if_splits)
    have "unat v div 65536 + 1 = depth s t" using F(5) k(2,3) v(1) share_facts(3) [OF inv _ _ k(2)] p LockBump by (simp add: pc_tables)
    then show ?thesis
      unfolding s' using add_count [OF v(3)] k v t by (intro inv_store [OF inv]) (simp_all add: pc_tables)
  next
    case LockKind
    then have "s' = go t (if ?v AND 1 \<noteq> 0 then InLock SpinTest else InLock FatLock) s" using S by (simp split: if_splits)
    then show ?thesis using K p LockKind even_thin [of "lockw s"] by (auto intro!: go simp: pc_tables and_1_iff)
  next
    case SpinTest
    then have "s' = go t (InLock SpinCas) s \<or> s' = go t (InLock SpinFat) s" using S by (auto split: if_splits)
    then show ?thesis using D p SpinTest by (auto intro!: go simp: pc_tables)
  next
    case SpinFat
    then have "s' = go t (if ?v AND 1 = 0 then InLock FatLock else InLock SpinTest) s" using S by (auto split: if_splits)
    then show ?thesis using D p SpinFat even_thin [of "lockw s"] by (auto intro!: go simp: pc_tables and_1_iff)
  next
    case SpinCas
    show ?thesis
    proof (cases "?v = 1")
      case True
      have "s' = go t (InLock Fatten) (set_depth t (depth s t) (store_thin t s))"
        using S SpinCas True set_depth_same [of t "store_thin t s"] by (simp split: if_splits)
      moreover note f = free [OF True] and h = store_holder [OF inv _ T(1)]
      ultimately show ?thesis
        using SpinCas T t by (auto intro!: inv_store [OF inv] simp: pc_tables h)
    next
      case False
      then have "s' = go t (InLock SpinTest) s" using S SpinCas by (simp split: if_splits)
      then show ?thesis using D p SpinCas by (auto intro!: go simp: pc_tables)
    qed
  next
    case Fatten
    then obtain m where m: "ev = Alloc m" "s' = go t (InLock FatLock) (set_monitor m new_monitor (s\<lparr>lockw := m\<rparr>))"
      using S by (auto split: event.splits)
    have k: "odd (lockw s)" "holder s = Some t" "depth s t = 0" using K D p Fatten by (simp_all add: thin_ok_def depth_ok_def)
    have "valid_addr m" using ev m by (simp add: event_ok_def)
    then show ?thesis
      unfolding m(2) using k valid_addr_even [of m]
      by (intro inv_fatten [OF inv, where m = m and M = new_monitor and t = t]) (simp_all add: monitor_ok_def pc_tables others_kept_def)
  next
    case FatLock
    then have f: "fat s" using K p by (simp add: thin_ok_def)
    obtain M where "lockw s \<noteq> 0" using fat_facts [OF inv f] by blast
    then have "s' = go t (InLock (MonTest (lockw s))) s" using S FatLock by (simp split: if_splits)
    then show ?thesis using f FatLock by (auto intro!: go simp: pc_tables)
  qed (use lock_monitor_inv [OF inv p] s' in \<open>simp_all add: step_lock_def\<close>)
qed


lemma unlock_monitor_inv:
  assumes inv: "sync_inv s" and p: "pcs s t = InUnlock p" "p = MonUnlock m k \<or> p = MonClear m k \<or> p = MonRelease m k" and s': "step_unlock t ev p s = Some s'"
  shows "sync_inv s'"
proof -
  have m: "fat s" "m = lockw s" using thread_facts(1) [OF inv, of t m] p by (auto simp: mon_ref_def)
  obtain M where M: "monitors s (lockw s) = Some M" "monitor_ok M" "lockw s \<noteq> 0" "holder s = mutex M"
    "units s = (if owner M = None then 0 else nat (lockCount M) + 1)" using fat_facts [OF inv m(1)] by blast
  note D = thread_facts(4) [OF inv, of t] and MO = M(2) [unfolded monitor_ok_def]
  note S = s' [unfolded step_unlock_def step_unlock_monitor_def Let_def on_go_def with_monitor_def]
  from p(2) show ?thesis
  proof (elim disjE)
    assume q: "p = MonUnlock m k"
    note F = share_facts [OF inv, of t, unfolded p(1) q, simplified pc_tables, simplified]
    have own: "mutex M = Some t \<and> nat (lockCount M) + 1 = depth s t + (if k then 0 else 1)" if "owner M = Some t"
    proof -
      have h: "holder s = Some t" using that MO M(4) by simp
      have "\<not> inside (pcs s t)" "\<not> asleep (pcs s t)" "extra (pcs s t) = (if k then 0 else 1)" using p(1) q by (simp_all add: pc_tables)
      then show ?thesis using share_facts(3) [OF inv _ _ h] M(4,5) that h by simp
    qed
    consider "owner M \<noteq> Some t" | "owner M = Some t" "lockCount M = 0" | "owner M = Some t" "lockCount M \<noteq> 0" by blast
    then show ?thesis
    proof cases
      case 1
      then have "s' = go t Failed s" using S q m(2) M(1) by (simp split: if_splits)
      moreover have "k" using F M MO 1 by (auto split: if_splits)
      ultimately show ?thesis using p(1) q by (auto intro!: inv_go [OF inv] simp: pc_tables)
    next
      case 2
      then have "s' = go t (InUnlock (MonClear (lockw s) k)) s" using S q m(2) M(1) by (simp split: if_splits)
      moreover have "depth s t = (if k then 1 else 0)" using own 2 by (simp split: if_splits)
      ultimately show ?thesis using p(1) q m by (auto intro!: inv_go [OF inv] simp: pc_tables)
    next
      case 3
      then have eq: "s' = go t Idle (set_depth t (if k then depth s t - 1 else depth s t) (set_monitor (lockw s) (M\<lparr>lockCount := lockCount M - 1\<rparr>) s))"
        using S q m(2) M(1) set_depth_same [of t "set_monitor (lockw s) (M\<lparr>lockCount := lockCount M - 1\<rparr>) s"] by (simp add: unlocked_def split: if_splits)
      have "mutex M = Some t" "nat (lockCount M - 1) + 1 = (if k then depth s t - 1 else depth s t)" using own MO 3 by (auto split: if_splits)
      then show ?thesis
        unfolding eq using MO 3 by (intro inv_monitor [OF inv m(1) M(1)]) (simp_all add: monitor_ok_def pc_tables)
    qed
  next
    assume q: "p = MonClear m k"
    note F = share_facts [OF inv, of t, unfolded p(1) q, simplified pc_tables, simplified]
    have "s' = go t (InUnlock (MonRelease (lockw s) k)) (set_monitor (lockw s) (M\<lparr>owner := None\<rparr>) s)"
      using S q m(2) M(1) by (simp split: if_splits)
    moreover have "mutex M = Some t" "lockCount M = 0" using F M MO D p(1) q by (auto simp: depth_ok_def split: if_splits)
    ultimately show ?thesis
      using D p(1) q by (auto intro!: inv_monitor_go [OF inv m(1) M(1)] simp: monitor_ok_def pc_tables)
  next
    assume q: "p = MonRelease m k"
    have h: "holder s = Some t" "units s = 0" using thread_facts(5,6) [OF inv, of t] p(1) q by (auto simp: inside_def)
    then have f: "mutex M = Some t" "owner M = None" "lockCount M = 0" using M MO by (auto split: if_splits)
    then have eq: "s' = go t Idle (set_depth t (if k then depth s t - 1 else depth s t) (set_monitor (lockw s) (M\<lparr>mutex := None\<rparr>) s))"
      using S q m(2) M(1) set_depth_same [of t "set_monitor (lockw s) (M\<lparr>mutex := None\<rparr>) s"] by (simp add: unlocked_def split: if_splits)
    have "(if k then depth s t - 1 else depth s t) = 0" using D p(1) q by (simp add: depth_ok_def split: if_splits)
    then show ?thesis
      unfolding eq using f by (intro inv_monitor [OF inv m(1) M(1)]) (simp_all add: monitor_ok_def pc_tables)
  qed
qed

lemma step_unlock_inv:
  assumes inv: "sync_inv s" and t: "valid_tid t" and p: "pcs s t = InUnlock p" and s': "step_unlock t ev p s = Some s'"
  shows "sync_inv s'"
proof -
  note T = valid_tid_facts [OF t] and D = thread_facts(4) [OF inv, of t] and K = thread_facts(3) [OF inv, of t]
  note S = s' [unfolded step_unlock_def step_unlock_monitor_def Let_def on_go_def DVM_LOCK_INITIAL_THIN_VALUE_def]
  let ?v = "thin (lockw s)"
  have go: "sync_inv (go t q s)" if "\<not> inside (InUnlock p)" "\<not> inside q" "\<not> asleep q" "extra q = extra (InUnlock p)" "read_ref q = None"
    "\<And>m. mon_ref q = Some m \<Longrightarrow> fat s \<and> m = lockw s" "thin_ok (go t q s) t" "depth_ok q (depth s t)" for q
    by (rule inv_go [OF inv]) (use that p in \<open>auto simp: asleep_def\<close>)
  have mine: "odd (lockw s) \<and> holder s = Some t" if "?v AND 0xffff = t"
  proof -
    have o: "odd (lockw s)" using T(1) low16_odd [of ?v] even_thin that by blast
    then show ?thesis using thin_facts(4) [OF inv o] that T(2) by auto
  qed
  have store: "sync_inv (go t Idle (set_depth t (depth s t - 1) (store_thin v' s)))"
    if k: "odd (lockw s)" "holder s = Some t" "\<not> inside (InUnlock p)" "extra (InUnlock p) = 0"
      and v': "odd v'" "v' = 1 \<or> v' AND 0xffff = t" "(if v' = 1 then 0 else unat v' div 65536 + 1) = unat ?v div 65536" for v'
  proof -
    have "units s = unat ?v div 65536 + 1" using thin_facts(4,5) [OF inv k(1)] k(2) by (simp split: if_splits)
    then have "depth s t - 1 = unat ?v div 65536" using share_facts(3) [OF inv _ _ k(2)] p k by (simp add: asleep_def)
    then show ?thesis using k v' t by (intro inv_store [OF inv]) (simp_all add: pc_tables)
  qed
  have mon: "sync_inv s'" if q: "p = MonUnlock m k \<or> p = MonClear m k \<or> p = MonRelease m k" for m k
    using unlock_monitor_inv [OF inv p q s'] .
  show ?thesis
  proof (cases p)
    case UnlockTest
    then have s': "s' = go t (if ?v = t then InUnlock UnlockStore else InUnlock UnlockKind) s" using S by (simp split: if_splits)
    show ?thesis
    proof (cases "?v = t")
      case True
      then show ?thesis using s' mine t UnlockTest by (simp, intro go) (simp_all add: pc_tables)
    next
      case False
      then show ?thesis using s' UnlockTest by (simp, intro go) (simp_all add: pc_tables)
    qed
  next
    case UnlockStore
    then have "s' = go t Idle (set_depth t (depth s t - 1) (store_thin 1 s))" using S by (simp add: unlocked_def split: if_splits)
    moreover have "odd (lockw s)" "holder s = Some t" "?v = t" using K p UnlockStore by (simp_all add: thin_ok_def)
    ultimately show ?thesis using T UnlockStore store [of 1] by (simp add: pc_tables)
  next
    case UnlockKind
    then have "s' = go t (if ?v AND 1 \<noteq> 0 then InUnlock UnlockMine else InUnlock UnlockFat) s" using S by (simp split: if_splits)
    then show ?thesis using K p UnlockKind even_thin [of "lockw s"] by (auto intro!: go simp: pc_tables and_1_iff)
  next
    case UnlockMine
    then have s': "s' = go t (if ?v AND 0xffff \<noteq> t then Failed else InUnlock UnlockSub) s" using S by (simp split: if_splits)
    show ?thesis
    proof (cases "?v AND 0xffff = t")
      case True
      then show ?thesis using s' mine K p UnlockMine by (simp, intro go) (simp_all add: pc_tables)
    next
      case False
      then show ?thesis using s' UnlockMine by (simp, intro go) (simp_all add: pc_tables)
    qed
  next
    case UnlockSub
    then have "s' = go t (InUnlock (UnlockDec ?v)) s" using S by (simp split: if_splits)
    then show ?thesis using K p UnlockSub by (auto intro!: go simp: pc_tables)
  next
    case (UnlockDec v)
    then have "s' = go t Idle (set_depth t (depth s t - 1) (store_thin (v - push_bit 16 1) s))" using S by (simp add: unlocked_def split: if_splits)
    moreover have k: "odd (lockw s)" "holder s = Some t" "?v \<noteq> t" "v = ?v" using K p UnlockDec by (simp_all add: thin_ok_def)
    note F = thin_facts [OF inv k(1)]
    have v: "v AND 0xffff = t" "odd v" using F(2,4) k(2,4) by (auto split: if_splits)
    have "65536 \<le> unat v"
    proof (rule ccontr)
      assume "\<not> 65536 \<le> unat v"
      then have "unat v = unat (v AND 0xffff)" by (simp only: unat_low16) simp
      then have "v = v AND 0xffff" by (rule unsigned_word_eqI)
      then show False using v(1) k(3,4) by simp
    qed
    note C = sub_count [OF v(2) this]
    have "unat v div 65536 \<ge> 1" using \<open>65536 \<le> unat v\<close> by (simp add: le_div_geq)
    then have "(if v - push_bit 16 1 = 1 then 0 else unat (v - push_bit 16 1) div 65536 + 1) = unat ?v div 65536"
      "v - push_bit 16 1 = 1 \<or> (v - push_bit 16 1) AND 0xffff = t" "v - push_bit 16 1 \<noteq> 1"
      using C v(1) k(4) T(2) by (auto simp: t split: if_splits)
    ultimately show ?thesis
      using store [OF k(1,2) _ _ C(1)] UnlockDec by (simp only: pc_tables) simp
  next
    case UnlockFat
    then have f: "fat s" using K p by (simp add: thin_ok_def)
    obtain M where "lockw s \<noteq> 0" using fat_facts [OF inv f] by blast
    then have "s' = go t (InUnlock (MonUnlock (lockw s) True)) s" using S UnlockFat by (simp split: if_splits)
    then show ?thesis using f UnlockFat by (auto intro!: go simp: pc_tables)
  qed (use mon in blast)+
qed


text \<open>A thread inside a monitor, and what it may do to the counts.\<close>

lemma inside_facts:
  assumes inv: "sync_inv s" and i: "inside (pcs s t)" and m: "mon_ref (pcs s t) = Some m"
  obtains M where "fat s" "m = lockw s" "monitors s (lockw s) = Some M" "mutex M = Some t" "owner M = None" "lockCount M = 0"
proof -
  have f: "fat s" "m = lockw s" using thread_facts(1) [OF inv m] by simp_all
  obtain M where M: "monitors s (lockw s) = Some M" "monitor_ok M" "holder s = mutex M"
    "units s = (if owner M = None then 0 else nat (lockCount M) + 1)" using fat_facts [OF inv f(1)] by metis
  have "holder s = Some t" "units s = 0" using thread_facts(5,6) [OF inv, of t] i by auto
  then show ?thesis using that [OF f M(1)] M by (auto simp: monitor_ok_def split: if_splits)
qed

lemma inv_counts:
  assumes inv: "sync_inv s" and i: "inside (pcs s t)" "inside p" and m: "mon_ref (pcs s t) = Some m" "mon_ref p = Some m" "read_ref p = None"
    and M: "monitors s m = Some M" "mutex M' = mutex M" "owner M' = owner M" "lockCount M' = lockCount M"
    and ok: "depth_ok p (depth s t)" "thin_ok (go t p (set_monitor m M' s)) t"
  shows "sync_inv (go t p (set_monitor m M' s))"
proof (rule inside_facts [OF inv i(1) m(1)])
  fix M0 assume f: "fat s" "m = lockw s" "monitors s (lockw s) = Some M0" "mutex M0 = Some t" "owner M0 = None" "lockCount M0 = 0"
  then have "M0 = M" using M(1) by simp
  then show ?thesis
    using f M ok i m by (simp only: f(2), intro inv_monitor_go [OF inv f(1,3)]) (simp_all add: monitor_ok_def)
qed

lemma go_update [simp]:
  "go t p (s\<lparr>interrupted := f\<rparr>) = (go t p s)\<lparr>interrupted := f\<rparr>" "go t p (s\<lparr>interruptingWait := f\<rparr>) = (go t p s)\<lparr>interruptingWait := f\<rparr>"
  "set_monitor m M (s\<lparr>interruptingWait := f\<rparr>) = (set_monitor m M s)\<lparr>interruptingWait := f\<rparr>"
  "set_monitor m M (s\<lparr>interrupted := f\<rparr>) = (set_monitor m M s)\<lparr>interrupted := f\<rparr>"
  "go t p (s\<lparr>waitMonitorOf := g\<rparr>) = (go t p s)\<lparr>waitMonitorOf := g\<rparr>" "set_monitor m M (s\<lparr>waitMonitorOf := g\<rparr>) = (set_monitor m M s)\<lparr>waitMonitorOf := g\<rparr>"
  by (simp_all add: go_def set_monitor_def)

lemma set_monitor_twice [simp]: "set_monitor m M' (set_monitor m M s) = set_monitor m M' s"
  by (simp add: set_monitor_def)

lemma wait_enter_inv:
  assumes inv: "sync_inv s" and p: "pcs s t = InWait (WaitTest m timed throws fits)" and s': "step_wait t ev (WaitTest m timed throws fits) s = Some s'"
    and alive: "pcs s' t \<noteq> Aborted"
  shows "sync_inv s'"
proof (cases "s' = go t Failed s")
  case True
  then show ?thesis using p by (auto intro!: inv_go [OF inv] simp: pc_tables)
next
  case False
  note S = s' [unfolded step_wait_def step_wait_monitor_def on_go_def]
  have m: "m \<noteq> 0" "even m" using S False by (auto simp: and_1_iff split: if_splits)
  then have f: "fat s" "m = lockw s" using thread_facts(2) [OF inv, of t m] p by (auto simp: read_ref_def)
  obtain M where M: "monitors s (lockw s) = Some M" "monitor_ok M" "holder s = mutex M"
    "units s = (if owner M = None then 0 else nat (lockCount M) + 1)" using fat_facts [OF inv f(1)] by metis
  note MO = M(2) [unfolded monitor_ok_def]
  have o: "owner M = Some t" and e: "enter_wait t (lockw s) timed throws M s = Some s'"
    using S False alive m f(2) M(1) by (auto simp: with_monitor_def and_1_iff split: if_splits)
  have h: "holder s = Some t" "mutex M = Some t" using o MO M(3) by auto
  then have d: "nat (lockCount M) + 1 = depth s t"
    using share_facts(3) [OF inv, of t] p M(4) o by (simp add: pc_tables)
  let ?s = "s\<lparr>waitMonitorOf := (waitMonitorOf s)(t := lockw s)\<rparr>"
  have inv': "sync_inv ?s" using f by (intro inv_wait_field [OF inv]) simp
  define A where "A = (if notifying M + interrupting M > waiting M then M\<lparr>notifying := waiting M - interrupting M\<rparr> else M)"
  define M' where "M' = A\<lparr>lockCount := 0, waiting := waiting A + 1, owner := None\<rparr>"
  have A: "mutex A = Some t" "lockCount A = lockCount M" using h(2) by (simp_all add: A_def)
  then have M': "s' = go t (if interrupted s t then InWait (WaitDone (lockw s) throws (lockCount M) True)
        else InWait (WaitBegin (lockw s) timed throws (lockCount M))) (set_monitor (lockw s) M' ?s)"
      "mutex M' = Some t" "owner M' = None" "lockCount M' = 0"
    using e by (simp_all add: enter_wait_def Let_def flip: A_def) (auto simp: M'_def)
  have "sync_inv (go t q (set_monitor (lockw ?s) M' ?s))"
    if q: "q = InWait (WaitDone (lockw s) throws (lockCount M) True) \<or> q = InWait (WaitBegin (lockw s) timed throws (lockCount M))" for q
    by (rule inv_monitor_go [OF inv', of M]) (use q f(1) M(1) M'(2-4) h(2) d MO in \<open>auto simp: monitor_ok_def pc_tables\<close>)
  then show ?thesis unfolding M'(1) by simp
qed

lemma uint_drop_16: "uint (drop_bit 16 (v :: u4)) = int (unat v div 65536)"
proof -
  have "uint (drop_bit 16 v) = int (drop_bit 16 (unat v))" by (simp only: uint_nat unat_drop_bit_eq)
  then show ?thesis by (simp only: drop_bit_eq_div) simp
qed

lemma wait_create_inv:
  assumes inv: "sync_inv s" and t: "valid_tid t" and p: "pcs s t = InWait (WaitThin m timed throws fits)"
    and v: "odd (lockw s)" "thin (lockw s) AND 0xffff = t" and a: "valid_addr m'" "monitors s m' = None"
  shows "sync_inv (go t (InWait (WaitPublish m' timed throws fits))
    (set_monitor m' (new_monitor\<lparr>owner := Some t, mutex := Some t, lockCount := uint (drop_bit 16 (thin (lockw s)))\<rparr>) s))" (is "sync_inv ?s")
proof (rule sync_inv_step [OF inv])
  note F = thin_facts [OF inv v(1)] and T = valid_tid_facts [OF t]
  have h: "holder s = Some t" "units s = unat (thin (lockw s)) div 65536 + 1" using F(4,5) v(2) T(2) by auto
  have h': "holder ?s = Some t" "units ?s = units s" using h v(1) by (simp_all add: holder_def units_def split: if_splits)
  show "lock_untouched s ?s \<or> lock_changed t s ?s" using h h' v(1) by (simp add: lock_changed_def)
  show "word_ok ?s" using inv_thread(2) [OF inv] v(1) by (simp add: word_ok_def)
  have "uint (drop_bit 16 (thin (lockw s))) = int (units s) - 1"
    using h(2) by (simp add: uint_drop_16)
  then have "thin_ok ?s t" using v(1) h h' a by (simp add: thin_ok_def)
  moreover have "holding ?s t" using thread_facts(7) [OF inv h(1)] p h h' by (simp add: holding_def share_def pc_tables)
  ultimately show "thread_ok ?s t" by (simp add: thread_ok_def mon_ref_def read_ref_def depth_ok_def)
qed simp

lemma wait_check_inv:
  assumes inv: "sync_inv s" and p: "pcs s t = InWait (WaitCheck m timed throws n timeout)"
    and s': "step_wait t ev (WaitCheck m timed throws n timeout) s = Some s'" and alive: "pcs s' t \<noteq> Aborted"
  shows "sync_inv s'"
proof (rule inside_facts [OF inv, of t m])
  fix M assume f: "fat s" "m = lockw s" "monitors s (lockw s) = Some M" "mutex M = Some t" "owner M = None" "lockCount M = 0"
  note S = s' [unfolded step_wait_def step_wait_monitor_def on_go_def with_monitor_def Let_def]
  have d: "depth_ok (InWait (WaitCheck m timed throws n timeout)) (depth s t)" using thread_facts(4) [OF inv, of t] p by simp
  have counts: "sync_inv (go t (InWait q) (set_monitor m M' s))"
    if "q = WaitDone m throws n True \<or> q = WaitDone m throws n False \<or> q = WaitBegin m timed throws n"
      "mutex M' = mutex M" "owner M' = owner M" "lockCount M' = lockCount M" for q M'
    by (rule inv_counts [OF inv, of t _ m M]) (use that p d f in \<open>auto simp: pc_tables\<close>)
  have plain: "sync_inv (go t (InWait q) s)" if "q = WaitDone m throws n False \<or> q = WaitBegin m timed throws n" for q
    by (rule inv_go [OF inv]) (use that p d f in \<open>auto simp: pc_tables\<close>)
  show ?thesis
    using S alive f by (auto simp: counts [unfolded f(2)] plain [unfolded f(2)] split: if_splits)
qed (use p in \<open>simp_all add: inside_def mon_ref_def\<close>)


lemma step_wait_inv:
  assumes inv: "sync_inv s" and t: "valid_tid t" and ev: "event_ok s t ev" and p: "pcs s t = InWait p"
    and s': "step_wait t ev p s = Some s'" and alive: "pcs s' t \<noteq> Aborted"
  shows "sync_inv s'"
proof -
  note D = thread_facts(4) [OF inv, of t] and K = thread_facts(3) [OF inv, of t]
  note S = s' [unfolded step_wait_def step_wait_monitor_def Let_def on_go_def]
  show ?thesis
  proof (cases p)
    case (WaitMon timed throws fits)
    then have "s' = go t (InWait (WaitThin (lockw s) timed throws fits)) s" using S by (simp split: if_splits)
    then show ?thesis using p WaitMon by (auto intro!: inv_go [OF inv] simp: pc_tables)
  next
    case (WaitThin m timed throws fits)
    show ?thesis
    proof (cases ev)
      case Go
      then have "s' = go t (InWait (WaitTest m timed throws fits)) s \<or> s' = go t Failed s" using S WaitThin by (auto split: if_splits)
      then show ?thesis using p WaitThin thread_facts(2) [OF inv, of t] by (auto intro!: inv_go [OF inv] simp: pc_tables)
    next
      case (Alloc m')
      then have v: "odd (lockw s)" "thin (lockw s) AND 0xffff = t" "valid_addr m'" "monitors s m' = None"
        using S WaitThin ev even_thin [of "lockw s"] by (auto simp: event_ok_def and_1_iff split: if_splits)
      then show ?thesis
        using S WaitThin Alloc wait_create_inv [OF inv t p [unfolded WaitThin] v] by (simp split: if_splits)
    qed (use S WaitThin in simp_all)
  next
    case (WaitPublish m timed throws fits)
    then have eq: "s' = go t (InWait (WaitTest m timed throws fits)) (s\<lparr>lockw := m\<rparr>)" using S by (simp split: if_splits)
    let ?M = "new_monitor\<lparr>owner := Some t, mutex := Some t, lockCount := int (units s) - 1\<rparr>"
    have k: "odd (lockw s)" "holder s = Some t" "valid_addr m" "monitors s m = Some ?M" using K p WaitPublish by (simp_all add: thin_ok_def)
    have d: "units s = depth s t" "0 < units s" using thread_facts(7) [OF inv k(2)] p WaitPublish by (simp_all add: share_def pc_tables)
    show ?thesis
      unfolding eq using k d
      by (intro inv_fatten [OF inv k(1,2,3), where M = ?M]) (auto simp: monitor_ok_def pc_tables others_kept_def)
  next
    case (WaitTest m timed throws fits)
    then show ?thesis using wait_enter_inv [OF inv] p s' alive by blast
  next
    case (WaitBegin m timed throws n)
    show ?thesis
    proof (rule inside_facts [OF inv, of t m])
      fix M assume f: "fat s" "m = lockw s" "monitors s (lockw s) = Some M" "mutex M = Some t" "owner M = None" "lockCount M = 0"
      then have "s' = go t (InWait (WaitSleep (lockw s) timed throws n)) (set_monitor (lockw s) (M\<lparr>mutex := None\<rparr>) s)"
        using S WaitBegin by (simp add: with_monitor_def split: if_splits)
      then show ?thesis using f D p WaitBegin by (auto intro!: inv_monitor_go [OF inv f(1,3)] simp: monitor_ok_def pc_tables)
    qed (use p WaitBegin in \<open>simp_all add: inside_def mon_ref_def\<close>)
  next
    case (WaitSleep m timed throws n)
    then have "\<exists>b. s' = go t (InWait (WaitWoken m timed throws n b)) s" using S by (auto split: event.splits if_splits)
    then show ?thesis using p WaitSleep D thread_facts(1) [OF inv, of t] by (auto intro!: inv_go [OF inv] simp: pc_tables)
  next
    case (WaitWoken m timed throws n timeout)
    then have f: "fat s" "m = lockw s" using thread_facts(1) [OF inv, of t m] p by (simp_all add: mon_ref_def)
    obtain M where M: "monitors s (lockw s) = Some M" "monitor_ok M" using fat_facts [OF inv f(1)] by metis
    have "s' = go t (InWait (WaitCheck (lockw s) timed throws n timeout)) (set_monitor (lockw s) (M\<lparr>mutex := Some t\<rparr>) s)" "mutex M = None"
      using S WaitWoken f M(1) by (auto simp: with_monitor_def split: if_splits)
    then show ?thesis
      using D p WaitWoken M(2) by (auto intro!: inv_monitor_go [OF inv f(1) M(1)] simp: monitor_ok_def pc_tables)
  next
    case (WaitCheck m timed throws n timeout)
    then show ?thesis using wait_check_inv [OF inv] p s' alive by blast
  next
    case (WaitDone m throws n wasInterrupted)
    show ?thesis
    proof (rule inside_facts [OF inv, of t m])
      fix M assume f: "fat s" "m = lockw s" "monitors s (lockw s) = Some M" "mutex M = Some t" "owner M = None" "lockCount M = 0"
      let ?s = "s\<lparr>waitMonitorOf := (waitMonitorOf s)(t := 0)\<rparr>" and ?M = "M\<lparr>owner := Some t, waiting := waiting M - 1, lockCount := n\<rparr>"
      have inv': "sync_inv ?s" by (rule inv_wait_field [OF inv]) simp
      have "sync_inv (go t q (set_monitor (lockw ?s) ?M ?s))" if "q = Idle \<or> q = Failed" for q
        by (rule inv_monitor_go [OF inv', of M]) (use that f D p WaitDone in \<open>auto simp: monitor_ok_def pc_tables\<close>)
      then show ?thesis using S WaitDone f by (auto simp: with_monitor_def split: if_splits)
    qed (use p WaitDone in \<open>simp_all add: inside_def mon_ref_def\<close>)
  qed
qed

lemma step_notify_inv:
  assumes inv: "sync_inv s" and p: "pcs s t = InNotify p" and s': "step_notify t ev p s = Some s'"
  shows "sync_inv s'"
proof -
  note S = s' [unfolded step_notify_def Let_def on_go_def]
  have go: "sync_inv (go t q s)" if "q = Idle \<or> q = Failed \<or> (\<exists>m all. (q = InNotify (NotifyThin m all) \<or> q = InNotify (NotifyTest m all))
      \<and> (m = 0 \<or> odd m \<or> fat s \<and> m = lockw s))" for q
    by (rule inv_go [OF inv]) (use that p in \<open>auto simp: pc_tables split: notify_pc.splits\<close>)
  show ?thesis
  proof (cases p)
    case (NotifyMon all)
    then show ?thesis using S by (auto intro!: go split: if_splits)
  next
    case (NotifyThin m all)
    have "s' = go t Idle s \<or> s' = go t Failed s \<or> even (lockw s) \<and> s' = go t (InNotify (NotifyTest (if all then lockw s else m) all)) s"
      using S NotifyThin even_thin [of "lockw s"] by (simp add: and_1_iff split: if_splits)
    then show ?thesis
      using thread_facts(2) [OF inv, of t m] p NotifyThin by (elim disjE conjE) (auto intro!: go simp: read_ref_def)
  next
    case (NotifyTest m all)
    show ?thesis
    proof (cases "s' = go t Failed s \<or> s' = go t Idle s")
      case False
      have m: "m \<noteq> 0" "even m" using S NotifyTest False by (auto simp: and_1_iff split: if_splits)
      then have f: "fat s" "m = lockw s" using thread_facts(2) [OF inv, of t m] p NotifyTest by (auto simp: read_ref_def)
      obtain M where M: "monitors s (lockw s) = Some M" "monitor_ok M" "holder s = mutex M"
        "units s = (if owner M = None then 0 else nat (lockCount M) + 1)" using fat_facts [OF inv f(1)] by metis
      note MO = M(2) [unfolded monitor_ok_def]
      obtain k where o: "owner M = Some t" and eq: "s' = go t Idle (set_monitor (lockw s) (M\<lparr>notifying := k\<rparr>) s)"
        using S False NotifyTest m f(2) M(1) by (auto simp: with_monitor_def and_1_iff split: if_splits)
      have h: "holder s = Some t" "mutex M = Some t" using o MO M(3) by auto
      then have "nat (lockCount M) + 1 = depth s t"
        using share_facts(3) [OF inv, of t] p NotifyTest M(4) o by (simp add: pc_tables)
      then show ?thesis unfolding eq
        using o h(2) MO by (intro inv_monitor_go [OF inv f(1) M(1)]) (simp_all add: monitor_ok_def pc_tables)
    qed (use go in auto)
  qed
qed


lemma step_interrupt_inv:
  assumes inv: "sync_inv s" and p: "pcs s t = InInterrupt p" and s': "step_interrupt t ev p s = Some s'"
  shows "sync_inv s'"
proof -
  note S = s' [unfolded step_interrupt_def Let_def on_go_def] and D = thread_facts(4) [OF inv, of t]
  have wait: "waitMonitorOf s u = 0 \<or> fat s \<and> waitMonitorOf s u = lockw s" for u using inv_thread(2) [OF inv] by (simp add: word_ok_def)
  show ?thesis
  proof (cases p)
    case (IntMon u)
    then have "s' = go t Idle s \<or> waitMonitorOf s u \<noteq> 0 \<and> s' = go t (InInterrupt (IntTry u (waitMonitorOf s u))) s" using S by (auto split: if_splits)
    then show ?thesis using p IntMon wait [of u] by (auto intro!: inv_go [OF inv] simp: pc_tables)
  next
    case (IntTry u m)
    then have f: "fat s" "m = lockw s" using thread_facts(1) [OF inv, of t m] p by (simp_all add: mon_ref_def)
    obtain M where M: "monitors s (lockw s) = Some M" "monitor_ok M" "holder s = mutex M"
      "units s = (if owner M = None then 0 else nat (lockCount M) + 1)" using fat_facts [OF inv f(1)] by metis
    note MO = M(2) [unfolded monitor_ok_def] and P = share_facts [OF inv, of t, unfolded p IntTry, simplified pc_tables, simplified]
    consider "owner M = Some t" | "owner M \<noteq> Some t" "mutex M = None" | "owner M \<noteq> Some t" "mutex M \<noteq> None" by blast
    then show ?thesis
    proof cases
      case 1
      then have eq: "s' = go t (InInterrupt (IntGot u (lockw s))) (set_monitor (lockw s) (M\<lparr>lockCount := lockCount M + 1\<rparr>) s)"
        using S IntTry f M(1) by (simp add: with_monitor_def split: if_splits)
      have "mutex M = Some t" "nat (lockCount M) + 1 = depth s t" using 1 MO M P(3) by auto
      then show ?thesis
        unfolding eq using 1 MO by (intro inv_monitor_go [OF inv f(1) M(1)]) (simp_all add: monitor_ok_def pc_tables nat_add_distrib)
    next
      case 2
      then have eq: "s' = go t (InInterrupt (IntOwn u (lockw s))) (set_monitor (lockw s) (M\<lparr>mutex := Some t\<rparr>) s)"
        using S IntTry f M(1) by (simp add: with_monitor_def split: if_splits)
      have "depth s t = 0" "owner M = None" using 2 M(3) P(2) MO by auto
      then show ?thesis
        unfolding eq using 2 MO by (intro inv_monitor_go [OF inv f(1) M(1)]) (simp_all add: monitor_ok_def pc_tables)
    next
      case 3
      then have "s' = go t (InInterrupt (IntRetry u (lockw s))) s" using S IntTry f M(1) by (simp add: with_monitor_def split: if_splits)
      then show ?thesis using f p IntTry by (auto intro!: inv_go [OF inv] simp: pc_tables)
    qed
  next
    case (IntRetry u m)
    then have "s' = go t Idle s \<or> s' = go t (InInterrupt (IntTry u m)) s" using S by (auto split: event.splits if_splits)
    then show ?thesis using p IntRetry thread_facts(1) [OF inv, of t m] by (auto intro!: inv_go [OF inv] simp: pc_tables)
  next
    case (IntOwn u m)
    show ?thesis
    proof (rule inside_facts [OF inv, of t m])
      fix M assume f: "fat s" "m = lockw s" "monitors s (lockw s) = Some M" "mutex M = Some t" "owner M = None" "lockCount M = 0"
      then have eq: "s' = go t (InInterrupt (IntGot u (lockw s))) (set_monitor (lockw s) (M\<lparr>owner := Some t\<rparr>) s)"
        using S IntOwn by (simp add: with_monitor_def split: if_splits)
      show ?thesis
        unfolding eq using f D p IntOwn by (intro inv_monitor_go [OF inv f(1,3)]) (simp_all add: monitor_ok_def pc_tables)
    qed (use p IntOwn in \<open>simp_all add: inside_def mon_ref_def\<close>)
  next
    case (IntGot u m)
    then have f: "fat s" "m = lockw s" using thread_facts(1) [OF inv, of t m] p by (simp_all add: mon_ref_def)
    obtain M where M: "monitors s (lockw s) = Some M" "monitor_ok M" "holder s = mutex M"
      "units s = (if owner M = None then 0 else nat (lockCount M) + 1)" using fat_facts [OF inv f(1)] by metis
    note MO = M(2) [unfolded monitor_ok_def] and P = share_facts [OF inv, of t, unfolded p IntGot, simplified pc_tables, simplified]
    have h: "mutex M = Some t" "owner M = Some t" "nat (lockCount M) + 1 = depth s t + 1" using P MO M by (auto split: if_splits)
    have "sync_inv (go t (InUnlock (MonUnlock (lockw s) False)) (set_monitor (lockw s) (M\<lparr>interrupting := interrupting M + 1\<rparr>) s))"
      using h MO by (intro inv_monitor_go [OF inv f(1) M(1)]) (simp_all add: monitor_ok_def pc_tables)
    moreover have "sync_inv (go t (InUnlock (MonUnlock (lockw s) False)) s)"
      using f p IntGot by (auto intro!: inv_go [OF inv] simp: pc_tables)
    ultimately show ?thesis using S IntGot f M(1) by (auto simp: with_monitor_def split: if_splits)
  qed
qed

lemma sync_step_inv:
  assumes inv: "sync_inv s" and t: "valid_tid t" and ev: "event_ok s t ev" and s': "sync_step t ev s = Some s'" and alive: "pcs s' t \<noteq> Aborted"
  shows "sync_inv s'"
  using s' step_call_inv [OF inv _ ev] step_lock_inv [OF inv t ev] step_unlock_inv [OF inv t] step_wait_inv [OF inv t ev _ _ alive]
    step_notify_inv [OF inv] step_interrupt_inv [OF inv]
  by (auto simp: sync_step_def split: sync_pc.splits)

lemma sync_reachable_inv: "sync_reachable s \<Longrightarrow> \<forall>u. pcs s u \<noteq> Aborted \<Longrightarrow> sync_inv s"
proof (induction rule: sync_reachable.induct)
  case initial
  show ?case by (rule sync_inv_init)
next
  case (step s t ev s')
  then show ?case using sync_step_inv by blast
qed


section \<open>Mutual exclusion\<close>

text \<open>A thread is waiting from the moment it has given the monitor up in \<open>waitMonitor\<close> until it has it back.\<close>

definition in_wait :: "sync_pc \<Rightarrow> bool" where
  "in_wait p \<longleftrightarrow> (case p of InWait (WaitBegin _ _ _ _) \<Rightarrow> True | InWait (WaitSleep _ _ _ _) \<Rightarrow> True | InWait (WaitWoken _ _ _ _ _) \<Rightarrow> True
     | InWait (WaitCheck _ _ _ _ _) \<Rightarrow> True | InWait (WaitDone _ _ _ _) \<Rightarrow> True | _ \<Rightarrow> False)"

definition in_section :: "sync \<Rightarrow> u4 \<Rightarrow> bool" where
  "in_section s t \<longleftrightarrow> 0 < depth s t \<and> \<not> in_wait (pcs s t)"

lemma in_section_holder:
  assumes inv: "sync_inv s" and i: "in_section s t"
  shows "holder s = Some t"
proof (rule ccontr)
  assume h: "holder s \<noteq> Some t"
  then have "share s t = 0" "\<not> inside (pcs s t)" using thread_facts(5) [OF inv] by simp_all
  moreover have "asleep (pcs s t) \<Longrightarrow> in_wait (pcs s t)"
    by (auto simp: asleep_def in_wait_def split: sync_pc.splits wait_pc.splits)
  ultimately show False using i by (auto simp: share_def in_section_def split: if_splits)
qed

lemma holds_lock_iff:
  assumes inv: "sync_inv s" and t: "valid_tid t" and r: "at_rest (pcs s t)"
  shows "dvmHoldsLock t s \<longleftrightarrow> 0 < depth s t"
proof -
  have p: "\<not> inside (pcs s t)" "\<not> asleep (pcs s t)" "extra (pcs s t) = 0" using r by (auto simp: at_rest_def pc_tables)
  have "dvmHoldsLock t s \<longleftrightarrow> holder s = Some t"
  proof (cases "fat s")
    case True
    obtain M where M: "monitors s (lockw s) = Some M" "monitor_ok M" "lockw s \<noteq> 0" "holder s = mutex M"
      "units s = (if owner M = None then 0 else nat (lockCount M) + 1)" using fat_facts [OF inv True] by blast
    have "owner M = Some t \<longleftrightarrow> mutex M = Some t"
      using thread_facts(7) [OF inv, of t] p(1) M by (auto simp: monitor_ok_def split: if_splits)
    then show ?thesis using True M even_thin [of "lockw s"] by (simp add: dvmHoldsLock_def IS_LOCK_FAT_def and_1_iff)
  next
    case False
    then show ?thesis
      using thin_facts(4) [OF inv] valid_tid_facts(2) [OF t] even_thin [of "lockw s"]
      by (auto simp: dvmHoldsLock_def IS_LOCK_FAT_def and_1_iff)
  qed
  then show ?thesis using share_facts(2) [OF inv p(1,2)] p(3) by simp
qed

lemma unlock_fails:
  assumes inv: "sync_inv s" and p: "pcs s t = InUnlock p" and s': "sync_step t ev s = Some s'" "pcs s' t = Failed"
  shows "depth s t = 0"
proof -
  have S: "step_unlock t ev p s = Some s'" using s'(1) p by (simp add: sync_step_def)
  have "p = UnlockMine \<and> thin (lockw s) AND 0xffff \<noteq> t \<or> (\<exists>m k M. p = MonUnlock m k \<and> monitors s m = Some M \<and> owner M \<noteq> Some t)"
    using S s'(2) by (cases p) (auto simp: step_unlock_def step_unlock_monitor_def Let_def on_go_def with_monitor_def unlocked_def split: if_splits option.splits)
  then show ?thesis
  proof (elim disjE exE conjE)
    assume q: "p = UnlockMine" "thin (lockw s) AND 0xffff \<noteq> t"
    have "holder s \<noteq> Some t"
      using thread_facts(3) [OF inv, of t] thin_facts(4) [OF inv] p q by (auto simp: thin_ok_def split: if_splits)
    then show ?thesis using share_facts(2) [OF inv, of t] p q by (simp add: pc_tables)
  next
    fix m k M assume q: "p = MonUnlock m k" "monitors s m = Some M" "owner M \<noteq> Some t"
    have f: "fat s" "m = lockw s" using thread_facts(1) [OF inv, of t m] p q by (simp_all add: mon_ref_def)
    obtain M0 where M0: "monitors s (lockw s) = Some M0" "monitor_ok M0" "holder s = mutex M0"
      "units s = (if owner M0 = None then 0 else nat (lockCount M0) + 1)" using fat_facts [OF inv f(1)] by metis
    have "M0 = M" using M0(1) q(2) f(2) by simp
    then have "holder s \<noteq> Some t"
      using thread_facts(7) [OF inv, of t] p q(1,3) M0(2-4) by (auto simp: monitor_ok_def inside_def split: if_splits)
    then show ?thesis using share_facts(2) [OF inv, of t] p q by (simp add: pc_tables)
  qed
qed


text \<open>Only the assertions of \<open>waitMonitor\<close> about its counts can fail.\<close>

lemma step_not_aborted:
  assumes inv: "sync_inv s" and p: "pcs s t \<noteq> Aborted" and s': "sync_step t ev s = Some s'" "pcs s' t = Aborted"
  shows "\<exists>w. pcs s t = InWait w \<and> ((\<exists>m x y z. w = WaitTest m x y z) \<or> (\<exists>m x y n z. w = WaitCheck m x y n z))"
proof -
  have mon: "monitors s m \<noteq> None \<and> m \<noteq> 0" if "mon_ref (pcs s t) = Some m" for m
    using thread_facts(1) [OF inv that] fat_facts [OF inv] by (metis option.distinct(1))
  have fat: "lockw s \<noteq> 0" if "fat s" using fat_facts [OF inv that] by blast
  have read: "monitors s m \<noteq> None" if "read_ref (pcs s t) = Some m" "m \<noteq> 0" "even m" for m
    using thread_facts(2) [OF inv that(1)] that(2,3) fat_facts [OF inv] by (metis option.distinct(1))
  have in_mon: "mutex M = Some t \<and> lockCount M = 0" if "inside (pcs s t)" "mon_ref (pcs s t) = Some m" "monitors s m = Some M" for m M
    using inside_facts [OF inv that(1,2)] that(3) by (metis option.inject)
  show ?thesis
  proof (cases "pcs s t")
    case (InLock q)
    then have "step_lock t ev q s = Some s'" using s'(1) by (simp add: sync_step_def)
    then show ?thesis
      using s'(2) InLock mon fat in_mon thread_facts(3) [OF inv, of t]
      by (cases q) (auto simp: step_lock_def step_lock_monitor_def Let_def on_go_def with_monitor_def locked_def pc_tables
          split: if_splits option.splits event.splits)
  next
    case (InUnlock q)
    then have "step_unlock t ev q s = Some s'" using s'(1) by (simp add: sync_step_def)
    then show ?thesis
      using s'(2) InUnlock mon fat in_mon thread_facts(3) [OF inv, of t]
      by (cases q) (auto simp: step_unlock_def step_unlock_monitor_def Let_def on_go_def with_monitor_def unlocked_def pc_tables split: if_splits option.splits)
  next
    case (InWait q)
    then have "step_wait t ev q s = Some s'" using s'(1) by (simp add: sync_step_def)
    then show ?thesis
      using s'(2) InWait mon
      by (cases q) (auto simp: step_wait_def step_wait_monitor_def Let_def on_go_def with_monitor_def pc_tables split: if_splits option.splits event.splits)
  next
    case (InNotify q)
    then have "step_notify t ev q s = Some s'" using s'(1) by (simp add: sync_step_def)
    then show ?thesis
      using s'(2) InNotify read
      by (cases q) (auto simp: step_notify_def Let_def on_go_def with_monitor_def pc_tables and_1_iff split: if_splits option.splits)
  next
    case (InInterrupt q)
    then have "step_interrupt t ev q s = Some s'" using s'(1) by (simp add: sync_step_def)
    then show ?thesis
      using s'(2) InInterrupt mon in_mon
      by (cases q) (auto simp: step_interrupt_def Let_def on_go_def with_monitor_def pc_tables split: if_splits option.splits event.splits)
  qed (use s' p in \<open>auto simp: sync_step_def step_call_def split: event.splits\<close>)
qed

text \<open>
  C0. Monitors exclude each other, whatever the interleaving of threads that lock, unlock, wait, notify and interrupt, and through the changes of the lock
  from thin to fat. As long as the machine has not been stopped, at most one thread is in its critical section, which it leaves while it
  waits; \<open>dvmHoldsLock\<close> tells a thread at rest whether it has locked the object more often than unlocked it; \<open>dvmUnlockObject\<close> only
  throws in a thread that has not locked it; and only the assertions of \<open>waitMonitor\<close> on its counts can stop the machine.
\<close>

theorem monitor_mutual_exclusion:
  assumes "sync_reachable s" and "\<forall>u. pcs s u \<noteq> Aborted"
  shows "(in_section s t \<and> in_section s u \<longrightarrow> t = u)
    \<and> (valid_tid t \<and> at_rest (pcs s t) \<longrightarrow> dvmHoldsLock t s = (0 < depth s t))
    \<and> (pcs s t = InUnlock p \<and> sync_step t ev s = Some s' \<and> pcs s' t = Failed \<longrightarrow> depth s t = 0)
    \<and> (sync_step t ev s = Some s' \<and> pcs s' t = Aborted \<longrightarrow>
        (\<exists>w. pcs s t = InWait w \<and> ((\<exists>m x y z. w = WaitTest m x y z) \<or> (\<exists>m x y n z. w = WaitCheck m x y n z))))"
proof (intro conjI impI)
  have inv: "sync_inv s" by (rule sync_reachable_inv [OF assms])
  show "t = u" if "in_section s t \<and> in_section s u"
    using that in_section_holder [OF inv, of t] in_section_holder [OF inv, of u] by simp
  show "dvmHoldsLock t s = (0 < depth s t)" if "valid_tid t \<and> at_rest (pcs s t)"
    using that holds_lock_iff [OF inv] by simp
  show "depth s t = 0" if "pcs s t = InUnlock p \<and> sync_step t ev s = Some s' \<and> pcs s' t = Failed"
    using that unlock_fails [OF inv] by blast
  show "\<exists>w. pcs s t = InWait w \<and> ((\<exists>m x y z. w = WaitTest m x y z) \<or> (\<exists>m x y n z. w = WaitCheck m x y n z))"
    if "sync_step t ev s = Some s' \<and> pcs s' t = Aborted"
    using that step_not_aborted [OF inv] assms(2) by blast
qed

text \<open>
  The identifiers that the numbers below \<open>kMaxThreadId\<close> get are valid; the number \<open>kMaxThreadId\<close> itself would not be.
\<close>

lemma thread_ids: "num < 0x7fff \<Longrightarrow> valid_tid (assignThreadId num)" "\<not> valid_tid (assignThreadId 0x7fff)"
proof -
  assume n: "num < 0x7fff"
  have "unat (push_bit 1 (num + 1)) = 2 * (unat num + 1)"
  proof -
    have "unat num < 0x7fff" using n by (simp add: word_less_nat_alt)
    then have "unat (2 * (num + 1)) = 2 * (unat num + 1)" by (simp add: unat_word_ariths)
    then show ?thesis by (simp add: push_bit_eq_mult mult.commute)
  qed
  moreover have "assignThreadId num = push_bit 1 (num + 1) + 1"
    unfolding assignThreadId_def by (rule disjunctive_add [symmetric]) (simp only: bit_push_bit_iff bit_1_iff, simp)
  ultimately have "unat (assignThreadId num) = 2 * (unat num + 1) + 1"
    using n by (simp add: unat_word_ariths word_less_nat_alt)
  then show "valid_tid (assignThreadId num)" using n by (simp add: valid_tid_def word_less_nat_alt odd_unat)
qed (simp add: assignThreadId_def valid_tid_def)

section \<open>Concrete executions\<close>

text \<open>An execution from a list of events; it ends when a thread has aborted.\<close>

fun sync_trace :: "(u4 \<times> event) list \<Rightarrow> sync \<Rightarrow> sync option" where
  "sync_trace [] s = Some s"
| "sync_trace ((t, ev) # es) s =
     (if valid_tid t \<and> event_ok s t ev then
        (case sync_step t ev s of None \<Rightarrow> None
         | Some s' \<Rightarrow> if es \<noteq> [] \<and> pcs s' t = Aborted then None else sync_trace es s')
      else None)"

lemma sync_step_others: "sync_step t ev s = Some s' \<Longrightarrow> u \<noteq> t \<Longrightarrow> pcs s' u = pcs s u"
  unfolding sync_step_def
  by (cases "pcs s t")
    (auto simp: step_call_def step_lock_def step_lock_monitor_def step_unlock_def step_unlock_monitor_def step_wait_def step_wait_monitor_def enter_wait_def step_notify_def step_interrupt_def
      on_go_def with_monitor_def Let_def locked_def unlocked_def
      split: event.splits lock_pc.splits unlock_pc.splits wait_pc.splits notify_pc.splits interrupt_pc.splits if_splits option.splits)

lemma sync_trace_reachable:
  "sync_reachable s \<Longrightarrow> \<forall>u. pcs s u \<noteq> Aborted \<Longrightarrow> sync_trace es s = Some s' \<Longrightarrow> sync_reachable s'"
proof (induction es s rule: sync_trace.induct)
  case (2 t ev es s)
  then obtain s1 where s1: "sync_step t ev s = Some s1" "valid_tid t" "event_ok s t ev" "es = [] \<or> pcs s1 t \<noteq> Aborted" "sync_trace es s1 = Some s'"
    by (auto split: if_splits option.splits)
  have r: "sync_reachable s1" using 2(2,3) s1 by (blast intro: sync_reachable.step)
  show ?case
  proof (cases "es = []")
    case True
    then show ?thesis using s1 r by simp
  next
    case False
    then have "\<forall>u. pcs s1 u \<noteq> Aborted" using sync_step_others [OF s1(1)] 2(3) s1(4) by metis
    then show ?thesis using "2.IH" s1 r False by blast
  qed
qed simp

lemma valid_tid_code [code]: "valid_tid t \<longleftrightarrow> bit t 0 \<and> 1 < t \<and> t < 0x10000"
  by (simp add: valid_tid_def bit_0)

definition wait_trace :: "(u4 \<times> event) list" where
  "wait_trace = [(3, CallLock), (3, Go), (3, CallWait 1 0 True), (3, Go), (3, Alloc 8), (3, Go), (3, Go), (3, Go)]"

definition interrupt_trace :: "(u4 \<times> event) list" where
  "interrupt_trace = [(5, CallInterrupt 3), (5, Go), (5, Go), (5, Go), (5, Go), (5, Go), (5, Go), (5, Go),
     (3, TimeOut), (3, Go), (3, Go), (3, Go)]"

definition wait_again :: "(u4 \<times> event) list" where
  "wait_again = [(3, CallWait 0 0 True), (3, Go), (3, Go), (3, Go)]"

lemmas step_defs = sync_step_def step_call_def step_lock_def step_lock_monitor_def step_unlock_def step_unlock_monitor_def step_wait_def step_wait_monitor_def enter_wait_def step_notify_def
  step_interrupt_def on_go_def with_monitor_def Let_def locked_def unlocked_def go_def set_monitor_def set_depth_def store_thin_def new_monitor_def
  valid_tid_code event_ok_def valid_addr_def thin_def set_thin_def DVM_LOCK_INITIAL_THIN_VALUE_def

definition waiting_state :: sync where
  "waiting_state = \<lparr>lockw = 8, monitors = [8 \<mapsto> \<lparr>owner = None, lockCount = 0, waiting = 1, notifying = 0, interrupting = 0, mutex = None\<rparr>],
     pcs = (\<lambda>_. Idle)(3 := InWait (WaitSleep 8 True True 0)), depth = (\<lambda>_. 0)(3 := 1),
     interrupted = (\<lambda>_. False), interruptingWait = (\<lambda>_. False), waitMonitorOf = (\<lambda>_. 0)(3 := 8)\<rparr>"

lemma wait_trace_state: "sync_trace wait_trace sync_init = Some waiting_state"
  by (simp add: wait_trace_def waiting_state_def sync_init_def step_defs)

definition timed_out_state :: sync where
  "timed_out_state = \<lparr>lockw = 8, monitors = [8 \<mapsto> \<lparr>owner = Some 3, lockCount = 0, waiting = 0, notifying = 0, interrupting = 1, mutex = Some 3\<rparr>],
     pcs = (\<lambda>_. Idle)(5 := Idle, 3 := Idle), depth = (\<lambda>_. 0)(3 := 1),
     interrupted = (\<lambda>_. False)(3 := True), interruptingWait = (\<lambda>_. False)(3 := True), waitMonitorOf = (\<lambda>_. 0)(3 := 0)\<rparr>"

lemma interrupt_trace_state: "sync_trace interrupt_trace waiting_state = Some timed_out_state"
  by (simp add: interrupt_trace_def waiting_state_def timed_out_state_def step_defs fun_upd_twist [of 3 5])


text \<open>A thread that has the lock, and another one that tries to unlock it.\<close>

definition contended_state :: sync where
  "contended_state = \<lparr>lockw = 0x10003, monitors = Map.empty, pcs = (\<lambda>_. Idle)(3 := Idle, 5 := InUnlock UnlockMine), depth = (\<lambda>_. 0)(3 := Suc (Suc 0)),
     interrupted = (\<lambda>_. False), interruptingWait = (\<lambda>_. False), waitMonitorOf = (\<lambda>_. 0)\<rparr>"

theorem monitor_mutual_exclusion_witness:
  "in_section contended_state 3 \<and> \<not> in_section contended_state 5 \<and> dvmHoldsLock 3 contended_state \<and>
   (\<exists>s'. sync_step 5 Go contended_state = Some s' \<and> pcs s' 5 = Failed) \<and> depth contended_state 5 = 0"
proof -
  have trace: "sync_trace [(3, CallLock), (3, Go), (3, CallLock), (3, Go), (3, Go), (3, Go), (3, Go), (5, CallUnlock), (5, Go), (5, Go)] sync_init = Some contended_state"
    by (simp add: sync_init_def contended_state_def step_defs)
  have r: "sync_reachable contended_state"
    by (rule sync_trace_reachable [OF sync_reachable.initial _ trace]) (simp add: sync_init_def)
  have alive: "\<forall>u. pcs contended_state u \<noteq> Aborted" by (simp add: contended_state_def)
  have s3: "in_section contended_state 3" "at_rest (pcs contended_state 3)" "valid_tid 3" "0 < depth contended_state 3"
    by (simp_all add: in_section_def in_wait_def at_rest_def contended_state_def valid_tid_code)
  have fails: "sync_step 5 Go contended_state = Some (contended_state\<lparr>pcs := (\<lambda>_. Idle)(3 := Idle, 5 := Failed)\<rparr>)"
    "pcs contended_state 5 = InUnlock UnlockMine" "pcs (contended_state\<lparr>pcs := (\<lambda>_. Idle)(3 := Idle, 5 := Failed)\<rparr>) 5 = Failed"
    by (simp_all add: contended_state_def step_defs)
  note M = monitor_mutual_exclusion [OF r alive]
  have "\<not> in_section contended_state 5" using M [of 3 5, THEN conjunct1] s3(1) by simp
  moreover have "dvmHoldsLock 3 contended_state" using M [of 3 3, THEN conjunct2, THEN conjunct1] s3 by simp
  moreover have "depth contended_state 5 = 0" using M [THEN conjunct2, THEN conjunct2, THEN conjunct1] fails by blast
  ultimately show ?thesis using s3(1) fails by blast
qed

end
