(* ===== verification/Spec2Isabelle.thy ===== *)
theory Spec2Isabelle
  imports InstrEncode InterpInt DexCatch VerifyTyping PointerSet Intern TypeCheck AccessCheck FieldLayout ClassCalls JniRefs SyncMutex
begin

text \<open>
  \<^bold>\<open>Verification of the Dalvik virtual machine.\<close>

  The program under \<^verbatim>\<open>src/\<close> is the Dalvik VM of Android 1.6, ported to 64-bit macOS. It loads DEX files (\<^verbatim>\<open>src/libdex\<close>), links their
  classes (\<^verbatim>\<open>src/vm/oo\<close>), checks the byte code of their methods (\<^verbatim>\<open>src/vm/analysis\<close>) and interprets it (\<^verbatim>\<open>src/vm/interp\<close>,
  \<^verbatim>\<open>src/vm/mterp\<close>); threads synchronise through monitors (\<^verbatim>\<open>src/vm/Sync.c\<close>), and native code reaches objects through tables of
  references (\<^verbatim>\<open>src/vm/Jni.c\<close>, \<^verbatim>\<open>src/vm/ReferenceTable.c\<close>). The development follows the C code function by function; a definition has the
  name of the function it models where Isabelle allows it.

  \<^bold>\<open>Conventions\<close> (theory \<open>Prelude\<close>). The unsigned C types are words of their width; \<open>int\<close> is a word where it may wrap, and
  otherwise an integer whose bound is stated. A call that may stop the machine has a result of type \<open>outcome\<close>:
  \<open>Ret\<close>, \<open>AbortVM\<close> for a failed \<open>assert\<close> (the build does not define \<open>NDEBUG\<close>) or \<open>dvmAbort\<close>, \<open>OutOfBounds\<close> for an access outside
  an array or through a dangling pointer. A loop that need not end is a \<open>partial_function (option)\<close>, and \<open>None\<close> means that it does not end. All
  theorems about such functions say that they return.

  \<^bold>\<open>The theories.\<close>

  \<^item> \<open>OpCodes\<close>, \<open>InstrTables\<close>, \<open>InstrDecode\<close>, \<open>InstrEncode\<close> (\<^verbatim>\<open>src/libdex/OpCode.h\<close>, \<^verbatim>\<open>src/libdex/InstrUtils.c\<close>): the tables of widths, flags
    and formats of the 256 opcodes and the instruction decoder. The tables agree with each other; decoding is total and stays inside
    the instruction; it inverts an assembler written from the layout comments.
  \<^item> \<open>Leb128\<close> (\<^verbatim>\<open>src/libdex/Leb128.h\<close>, \<^verbatim>\<open>src/libdex/Leb128.c\<close>): readers of integers of variable length; bounds and round trips.
  \<^item> \<open>DexCatch\<close> (\<^verbatim>\<open>src/libdex/DexCatch.h\<close>, \<^verbatim>\<open>src/libdex/DexCatch.c\<close>): the search for exception handlers finds those of the \<open>try\<close> item that covers the
    address, in order.
  \<^item> \<open>HashTable\<close> (\<^verbatim>\<open>src/vm/Hash.c\<close>): open addressing with tombstones. The probe loops end because of the load factor; lookup, insertion and
    removal refine a map. The locale \<open>hash_store\<close> states this contract, and \<open>Intern\<close> (\<^verbatim>\<open>src/vm/Intern.c\<close>) uses it: strings are interned
    canonically, and immortal ones survive a collection.
  \<^item> \<open>PointerSet\<close> (\<^verbatim>\<open>src/vm/PointerSet.c\<close>): the sorted array implements finite sets (locale \<open>pointer_set\<close>) up to the capacity of its 16-bit counters.
  \<^item> \<open>ReferenceTable\<close>, \<open>JniRefs\<close> (\<^verbatim>\<open>src/vm/ReferenceTable.c\<close>, \<^verbatim>\<open>src/vm/Jni.c\<close>, \<^verbatim>\<open>src/vm/interp/Stack.c\<close>): a table is a list; local frames are
    restored, global references keep their marks, JNI monitors are tracked.
  \<^item> \<open>UtfString\<close> (\<^verbatim>\<open>src/vm/UtfString.c\<close>): modified UTF-8 to UTF-16 and back, hashes and comparison.
  \<^item> \<open>AtomicCache\<close>, \<open>TypeCheck\<close> (\<^verbatim>\<open>src/vm/AtomicCache.c\<close>, \<^verbatim>\<open>src/vm/oo/TypeCheck.c\<close>): the lock-free cache under all interleavings, and \<open>instanceof\<close>
    through it (locale \<open>memo_cache\<close>) as the subtype relation of Java. The recursion of \<open>dvmInstanceof\<close> on element classes has depth at most 2, which
    is the fuel it is given.
  \<^item> \<open>AccessCheck\<close> (\<^verbatim>\<open>src/vm/oo/AccessCheck.c\<close>): run-time packages and the access rules of Java.
  \<^item> \<open>FieldLayout\<close> (\<open>computeFieldOffsets\<close> of \<^verbatim>\<open>src/vm/oo/Class.c\<close>): the fields of an object are apart, aligned, references first.
  \<^item> \<open>ClassLink\<close> to \<open>ClassCalls\<close> (\<open>dvmLinkClass\<close>, \<open>createVtable\<close>, \<open>createIftable\<close>, \<open>insertMethodStubs\<close> of \<^verbatim>\<open>src/vm/oo/Class.c\<close>, \<open>dvmInterpFindInterfaceMethod\<close>
    of \<^verbatim>\<open>src/vm/interp/Interp.c\<close>, \<open>invoke-virtual\<close>): \<open>ClassLink\<close> holds the model, in which a \<open>Method *\<close> is an array and an index, so that a pointer into an
    array that has been moved dangles. \<open>ClassVtable\<close> and \<open>ClassIftable\<close> hold the lemmas on the two tables, \<open>ClassWorld\<close> the invariant of the loaded and
    linked classes, \<open>ClassLinked\<close> and \<open>ClassInterfaces\<close> what each step does to it, \<open>ClassDispatch\<close> linking as a whole. In \<open>ClassCalls\<close>, classes are
    linked in any order (\<open>linked_world\<close>): linking returns and keeps the invariant, and virtual and interface calls reach the method that the
    class selects by name and prototype. The superclass and the interfaces are resolved before; the offsets that the linker caches for two
    system classes are left out.
  \<^item> \<open>VerifyRegs\<close>, \<open>VerifyMerge\<close> (\<^verbatim>\<open>src/vm/analysis/CodeVerify.c\<close>, first half): register types and their merge, which is a least upper bound
    (locale \<open>join_merge\<close>).
  \<^item> \<open>VerifyStatic\<close> (\<^verbatim>\<open>src/vm/analysis/DexVerify.c\<close>, \<^verbatim>\<open>src/vm/analysis/VerifySubs.c\<close>): the static pass lays instructions out without overlap, and every
    branch target is an instruction.
  \<^item> \<open>VerifyInsn\<close>, \<open>VerifySafe\<close>, \<open>VerifyFlow\<close>, \<open>VerifySound\<close>, \<open>VerifyLoop\<close>, \<open>VerifyTyping\<close> (the rest of \<^verbatim>\<open>src/vm/analysis/CodeVerify.c\<close>): the check of every
    instruction and the data-flow loop. The verifier ends on every method, and an accepted method has a typing.
  \<^item> \<open>InterpState\<close>, \<open>InterpBasic\<close>, \<open>InterpArith\<close>, \<open>InterpHeap\<close>, \<open>Interp\<close>, \<open>InterpInt\<close> (\<^verbatim>\<open>src/vm/mterp/out/InterpC-easy.c\<close>, \<^verbatim>\<open>src/vm/interp/Interp.c\<close>): one
    definition for each arm of the interpreter's \<open>switch\<close>. A step keeps the frame; switch tables are searched correctly; \<open>int\<close> arithmetic
    refines that of Java on the operands the decoder reports.
  \<^item> \<open>Sync\<close>, \<open>SyncInv\<close>, \<open>SyncMutex\<close> (\<^verbatim>\<open>src/vm/Sync.c\<close>, \<^verbatim>\<open>src/vm/Sync.h\<close>): thin and fat locks, wait, notify and interrupt, interleaved step by step. At
    most one thread is inside; an interrupted timed wait can stop the machine.

  \<^bold>\<open>What the theorems assume.\<close> Code that the models call but do not contain (loading and resolution of classes, allocation, floating
  point) is an argument or a record of functions; what is relied on is named: \<open>loaded_ok\<close> and \<open>hierarchy_ok\<close> for the table of
  classes, \<open>env_ok\<close> for resolution in the verifier, code of fewer than \<open>2\<^sup>3\<^sup>1 - 3\<close> units, thread numbers that fit a thin lock and fewer
  than 65536 nested locks. Each theorem with a hypothesis has a witness on concrete data. Memory is sequentially consistent.

  \<^bold>\<open>Not modelled.\<close> Class loading and initialisation and the resolution caches; the heap and the garbage collector, which work on raw memory
  below \<open>dlmalloc\<close>; starting and suspending threads; the JNI function table and \<open>CheckJni\<close>; throwing exceptions; the optimiser of
  DEX files and the register maps; the debugger, profiling and heap dumps; native methods and reflection; reading of files and archives;
  the core library, of which \<^verbatim>\<open>src/libcore/odex/boot_darwin_odex.c\<close> is a generated array; and third-party code (\<open>dlmalloc\<close>, \<open>fdlibm\<close>, ICU headers).
  These are input and output, raw memory, or glue between the parts above.
\<close>

end
